(* ===== verification/Ft_Prelude.thy ===== *)
theory Ft_Prelude
  imports Main "HOL-Library.Word" "HOL-Library.Monad_Syntax"
begin

text \<open>
  What the components share: the C integers that matter (FT_UInt and FT_ULong values are
  naturals with the reduction modulo \<open>2 ^ 32\<close> or \<open>2 ^ 64\<close> written where the code can
  wrap), the big-endian readers of \<open>include/freetype/internal/ftstream.h\<close>, and the
  validator monad that stands for \<open>ft_validator_error\<close> of \<open>src/base/ftobjs.c\<close>.

  A computation that reads memory returns an \<open>option\<close>: \<open>None\<close> is an access outside the
  object the pointer belongs to (undefined behaviour in C, a stray read in the kernel), so
  a theorem that a function returns \<open>Some\<close> is a memory-safety theorem.
\<close>

named_theorems vsafe_simps "rules that compute the safety condition of a validator"
named_theorems agree_intros "rules that compare the two longjmp semantics of a validator"

section \<open>Integers\<close>

type_synonym byte = "8 word"
type_synonym bytes = "byte list"

text \<open>\<open>4294967296 = 2 ^ 32\<close>, the modulus of \<open>FT_UInt\<close> and \<open>FT_UInt32\<close>.\<close>

definition add32 :: "nat \<Rightarrow> nat \<Rightarrow> nat" where
  "add32 a b = (a + b) mod 4294967296"

definition sub32 :: "nat \<Rightarrow> nat \<Rightarrow> nat" where
  "sub32 a b = (a + 4294967296 - b) mod 4294967296"

definition mul32 :: "nat \<Rightarrow> nat \<Rightarrow> nat" where
  "mul32 a b = (a * b) mod 4294967296"

text \<open>
  Conversions to the 64-bit types of the target (x86-64, LP64): \<open>s64\<close> is a conversion to
  \<open>FT_Long\<close> or \<open>FT_Int64\<close>, \<open>u64\<close> to \<open>size_t\<close>, \<open>FT_ULong\<close> or \<open>FT_UInt64\<close>; \<open>s32\<close> is a
  conversion to \<open>FT_Int32\<close>. \<open>9223372036854775808 = 2 ^ 63\<close>.
\<close>

definition s64 :: "int \<Rightarrow> int" where
  "s64 x = (x + 9223372036854775808) mod 18446744073709551616 - 9223372036854775808"

definition u64 :: "int \<Rightarrow> int" where
  "u64 x = x mod 18446744073709551616"

definition s32 :: "int \<Rightarrow> int" where
  "s32 x = (x + 2147483648) mod 4294967296 - 2147483648"

definition u32i :: "int \<Rightarrow> int" where
  "u32i x = x mod 4294967296"

lemma s64_id: "- 9223372036854775808 \<le> x \<Longrightarrow> x < 9223372036854775808 \<Longrightarrow> s64 x = x"
  by (simp add: s64_def)

lemma s32_id: "- 2147483648 \<le> x \<Longrightarrow> x < 2147483648 \<Longrightarrow> s32 x = x"
  by (simp add: s32_def)

lemma u64_id: "0 \<le> x \<Longrightarrow> x < 18446744073709551616 \<Longrightarrow> u64 x = x"
  by (simp add: u64_def)

lemma u32i_id: "0 \<le> x \<Longrightarrow> x < 4294967296 \<Longrightarrow> u32i x = x"
  by (simp add: u32i_def)

lemma u64_bounds: "0 \<le> u64 x \<and> u64 x < 18446744073709551616"
  by (simp add: u64_def)

lemma s64_bounds: "- 9223372036854775808 \<le> s64 x \<and> s64 x < 9223372036854775808"
  unfolding s64_def using pos_mod_bound [of 18446744073709551616 "x + 9223372036854775808"]
    pos_mod_sign [of 18446744073709551616 "x + 9223372036854775808"] by linarith

text \<open>\<open>( x & 0xFFFFU )\<close> of a signed sum: the residue modulo \<open>2 ^ 16\<close>.\<close>

definition u16_of_int :: "int \<Rightarrow> nat" where
  "u16_of_int x = nat (x mod 65536)"

lemma add32_lt [simp]: "add32 a b < 4294967296"
  unfolding add32_def by (rule mod_less_divisor) simp

lemma sub32_lt [simp]: "sub32 a b < 4294967296"
  unfolding sub32_def by (rule mod_less_divisor) simp

lemma mul32_lt [simp]: "mul32 a b < 4294967296"
  unfolding mul32_def by (rule mod_less_divisor) simp

lemma u16_of_int_lt [simp]: "u16_of_int x < 65536"
  unfolding u16_of_int_def by (simp add: nat_less_iff)

lemma add32_small: "a + b < 4294967296 \<Longrightarrow> add32 a b = a + b"
  by (simp add: add32_def)

lemma mul32_small: "a * b < 4294967296 \<Longrightarrow> mul32 a b = a * b"
  by (simp add: mul32_def)

lemma sub32_le:
  assumes "b \<le> a" "a < 4294967296"
  shows "sub32 a b = a - b"
proof -
  have "a + 4294967296 - b = (a - b) + 4294967296" using assms(1) by linarith
  moreover have "(a - b) mod 4294967296 = a - b" using assms(2) by (intro mod_less) linarith
  ultimately show ?thesis unfolding sub32_def by (metis mod_add_self2)
qed

lemma sub32_gt:
  assumes "a < b" "b \<le> 4294967296"
  shows "sub32 a b = a + 4294967296 - b"
  unfolding sub32_def by (rule mod_less) (use assms in linarith)

section \<open>Reading bytes\<close>

definition u8 :: "bytes \<Rightarrow> nat \<Rightarrow> nat" where
  "u8 t p = unat (t ! p)"

definition u16 :: "bytes \<Rightarrow> nat \<Rightarrow> nat" where
  "u16 t p = 256 * unat (t ! p) + unat (t ! (p + 1))"

definition u24 :: "bytes \<Rightarrow> nat \<Rightarrow> nat" where
  "u24 t p = 65536 * unat (t ! p) + 256 * unat (t ! (p + 1)) + unat (t ! (p + 2))"

definition u32 :: "bytes \<Rightarrow> nat \<Rightarrow> nat" where
  "u32 t p = 16777216 * unat (t ! p) + 65536 * unat (t ! (p + 1))
     + 256 * unat (t ! (p + 2)) + unat (t ! (p + 3))"

definition s16 :: "bytes \<Rightarrow> nat \<Rightarrow> int" where
  "s16 t p = (if u16 t p < 32768 then int (u16 t p) else int (u16 t p) - 65536)"

text \<open>The readers themselves: \<open>None\<close> when a byte they touch is not in the object.\<close>

definition peek_byte :: "bytes \<Rightarrow> nat \<Rightarrow> nat option" where
  "peek_byte t p = (if p < length t then Some (u8 t p) else None)"

definition peek_ushort :: "bytes \<Rightarrow> nat \<Rightarrow> nat option" where
  "peek_ushort t p = (if p + 2 \<le> length t then Some (u16 t p) else None)"

definition peek_short :: "bytes \<Rightarrow> nat \<Rightarrow> int option" where
  "peek_short t p = (if p + 2 \<le> length t then Some (s16 t p) else None)"

definition peek_uoff3 :: "bytes \<Rightarrow> nat \<Rightarrow> nat option" where
  "peek_uoff3 t p = (if p + 3 \<le> length t then Some (u24 t p) else None)"

definition peek_ulong :: "bytes \<Rightarrow> nat \<Rightarrow> nat option" where
  "peek_ulong t p = (if p + 4 \<le> length t then Some (u32 t p) else None)"

lemma unat_byte_lt [simp]: "unat (b :: byte) < 256"
  using unsigned_less [of b] by simp

lemma unat_byte_le: "unat (b :: byte) \<le> 255"
  using unat_byte_lt [of b] by linarith

lemma u8_lt [simp]: "u8 t p < 256"
  by (simp add: u8_def)

lemma u16_lt [simp]: "u16 t p < 65536"
  unfolding u16_def using unat_byte_le [of "t ! p"] unat_byte_le [of "t ! (p + 1)"] by linarith

lemma u24_lt [simp]: "u24 t p < 16777216"
  unfolding u24_def using unat_byte_le [of "t ! p"] unat_byte_le [of "t ! (p + 1)"]
    unat_byte_le [of "t ! (p + 2)"] by linarith

lemma u32_lt [simp]: "u32 t p < 4294967296"
  unfolding u32_def using unat_byte_le [of "t ! p"] unat_byte_le [of "t ! (p + 1)"]
    unat_byte_le [of "t ! (p + 2)"] unat_byte_le [of "t ! (p + 3)"] by linarith

lemma s16_bounds: "- 32768 \<le> s16 t p \<and> s16 t p < 32768"
  unfolding s16_def using u16_lt [of t p] by (simp split: if_splits; linarith?)

lemmas peek_defs = peek_byte_def peek_ushort_def peek_short_def peek_uoff3_def peek_ulong_def

lemma peek_byte_ok [simp]: "p < length t \<Longrightarrow> peek_byte t p = Some (u8 t p)"
  and peek_ushort_ok [simp]: "p + 2 \<le> length t \<Longrightarrow> peek_ushort t p = Some (u16 t p)"
  and peek_short_ok [simp]: "p + 2 \<le> length t \<Longrightarrow> peek_short t p = Some (s16 t p)"
  and peek_uoff3_ok [simp]: "p + 3 \<le> length t \<Longrightarrow> peek_uoff3 t p = Some (u24 t p)"
  and peek_ulong_ok [simp]: "p + 4 \<le> length t \<Longrightarrow> peek_ulong t p = Some (u32 t p)"
  by (simp_all add: peek_defs)

text \<open>\<open>FT_PAD_FLOOR(x, n)\<close> for a power of two \<open>n\<close> clears the low bits.\<close>

definition pad_floor :: "nat \<Rightarrow> nat \<Rightarrow> nat" where
  "pad_floor x n = x - x mod n"

lemma pad_floor_le [simp]: "pad_floor x n \<le> x"
  by (simp add: pad_floor_def)

lemma pad_floor_gt:
  assumes "0 < n"
  shows "x < pad_floor x n + n"
  unfolding pad_floor_def using mod_less_divisor [OF assms, of x] mod_less_eq_dividend [of x n]
  by linarith

end
