(* ===== verification/Ft_Validate.thy ===== *)
theory Ft_Validate
  imports Ft_Prelude
begin

text \<open>
  The validator object of \<open>include/freetype/internal/ftvalid.h\<close> and \<open>ft_validator_error\<close>
  of \<open>src/base/ftobjs.c\<close>. A validator reads the table, and on the first defect it records
  an error and calls \<open>ft_longjmp\<close>. What \<open>ft_longjmp\<close> does depends on the C library the
  module is built with: a hosted library unwinds to \<open>tt_face_build_cmaps\<close>, the port's
  \<open>config/freetype/config/ftstdlib.h\<close> defines it as a no-op, so the validator goes on with
  the error recorded. Both semantics are kept, as values of \<open>setjmp_env\<close>.
\<close>

datatype ft_error =
    Invalid_Table | Invalid_Offset | Invalid_Glyph_Index | Invalid_Argument
  | Out_Of_Memory | Array_Too_Large | Invalid_Stream_Operation | Invalid_CharMap_Format
  | Invalid_CharMap_Handle | Invalid_Face_Handle | Unimplemented_Feature
  | Table_Missing | Unknown_File_Format
  | Invalid_Opcode | Too_Few_Arguments | Stack_Overflow | Code_Overflow | Bad_Argument | Divide_By_Zero
  | Invalid_Reference | Debug_OpCode | ENDF_In_Exec_Stream | Nested_DEFS | Invalid_CodeRange
  | Execution_Too_Long | Too_Many_Function_Defs | Too_Many_Instruction_Defs | DEF_In_Glyf_Bytecode
  | Locations_Missing | Invalid_Outline | Invalid_Composite | Too_Many_Hints

datatype validation_level = FT_VALIDATE_DEFAULT | FT_VALIDATE_TIGHT | FT_VALIDATE_PARANOID

text \<open>\<open>valid->level >= FT_VALIDATE_TIGHT\<close> and \<open>>= FT_VALIDATE_PARANOID\<close>.\<close>

fun at_least_tight :: "validation_level \<Rightarrow> bool" where
  "at_least_tight FT_VALIDATE_DEFAULT = False"
| "at_least_tight _ = True"

fun at_least_paranoid :: "validation_level \<Rightarrow> bool" where
  "at_least_paranoid FT_VALIDATE_PARANOID = True"
| "at_least_paranoid _ = False"

datatype setjmp_env =
    Hosted        \<comment> \<open>\<open>longjmp\<close> returns to the \<open>setjmp\<close> of the caller\<close>
  | Freestanding  \<comment> \<open>\<open>#define ft_longjmp(env, val) ((void)(val), (void)0)\<close>\<close>

text \<open>
  The outcome of a validator step: a stray read, an unwinding to the caller, or a value
  together with the \<open>error\<close> field of the validator object (\<open>None\<close> is \<open>FT_Err_Ok\<close>).
\<close>

datatype 'a vres = VFault | VThrow ft_error | VRet 'a "ft_error option"

type_synonym 'a validator = "ft_error option \<Rightarrow> 'a vres"

definition vret :: "'a \<Rightarrow> 'a validator" where
  "vret x = (\<lambda>s. VRet x s)"

definition vbind :: "'a validator \<Rightarrow> ('a \<Rightarrow> 'b validator) \<Rightarrow> 'b validator" where
  "vbind m f = (\<lambda>s. case m s of VFault \<Rightarrow> VFault | VThrow e \<Rightarrow> VThrow e | VRet x s' \<Rightarrow> f x s')"

definition ft_validator_error :: "setjmp_env \<Rightarrow> ft_error \<Rightarrow> unit validator" where
  "ft_validator_error env e =
     (\<lambda>s. case env of Hosted \<Rightarrow> VThrow e | Freestanding \<Rightarrow> VRet () (Some e))"

text \<open>\<open>if ( c ) FT_INVALID_( e );\<close>\<close>

definition vcheck :: "setjmp_env \<Rightarrow> bool \<Rightarrow> ft_error \<Rightarrow> unit validator" where
  "vcheck env c e = (if c then ft_validator_error env e else vret ())"

text \<open>A read of the table.\<close>

definition vload :: "'a option \<Rightarrow> 'a validator" where
  "vload r = (\<lambda>s. case r of None \<Rightarrow> VFault | Some x \<Rightarrow> VRet x s)"

lemmas vdefs = vret_def vbind_def ft_validator_error_def vcheck_def vload_def

section \<open>Safety under the hosted semantics\<close>

text \<open>
  \<open>vwp m s Q\<close>: run with \<open>valid->error = s\<close>, \<open>m\<close> makes no stray read, and if it comes to
  an end without unwinding, its value and the final error field satisfy \<open>Q\<close>.
\<close>

definition vwp :: "'a validator \<Rightarrow> ft_error option \<Rightarrow> ('a \<Rightarrow> ft_error option \<Rightarrow> bool) \<Rightarrow> bool" where
  "vwp m s Q = (case m s of VFault \<Rightarrow> False | VThrow e \<Rightarrow> True | VRet x s' \<Rightarrow> Q x s')"

lemma vwp_vret [vsafe_simps]: "vwp (vret x) s Q = Q x s"
  by (simp add: vwp_def vret_def)

lemma vwp_vcheck [vsafe_simps]: "vwp (vcheck Hosted c e) s Q = (\<not> c \<longrightarrow> Q () s)"
  by (simp add: vwp_def vdefs)

lemma vwp_vload [vsafe_simps]: "vwp (vload r) s Q = (\<exists>x. r = Some x \<and> Q x s)"
  by (simp add: vwp_def vload_def split: option.splits)

lemma vwp_vbind [vsafe_simps]: "vwp (vbind m f) s Q = vwp m s (\<lambda>x s'. vwp (f x) s' Q)"
  by (simp add: vwp_def vbind_def split: vres.splits)

lemma vwp_if [vsafe_simps]:
  "vwp (if c then m else m') s Q = ((c \<longrightarrow> vwp m s Q) \<and> (\<not> c \<longrightarrow> vwp m' s Q))"
  by simp

lemma vwp_mono: "vwp m s P \<Longrightarrow> (\<And>x s'. P x s' \<Longrightarrow> Q x s') \<Longrightarrow> vwp m s Q"
  by (auto simp: vwp_def split: vres.splits)

lemma vwp_no_fault: "vwp m s Q \<Longrightarrow> m s \<noteq> VFault"
  by (auto simp: vwp_def)

lemma vwp_accepted: "vwp m s Q \<Longrightarrow> m s = VRet x s' \<Longrightarrow> Q x s'"
  by (simp add: vwp_def)

section \<open>The two semantics accept the same tables\<close>

text \<open>
  \<open>vagree m m'\<close> relates a validator under the hosted semantics (\<open>m\<close>) to the same
  validator under the freestanding one (\<open>m'\<close>): \<open>m\<close> never returns with an error recorded,
  \<open>m'\<close> never loses a recorded error, and they accept in the same cases with the same value.
\<close>

definition vagree :: "'a validator \<Rightarrow> 'a validator \<Rightarrow> bool" where
  "vagree m m' \<longleftrightarrow>
     (\<forall>x e. m None \<noteq> VRet x (Some e)) \<and>
     (\<forall>e x. m' (Some e) \<noteq> VRet x None) \<and>
     (\<forall>x. m None = VRet x None \<longleftrightarrow> m' None = VRet x None)"

lemma vagree_iff: "vagree m m' \<Longrightarrow> m None = VRet x None \<longleftrightarrow> m' None = VRet x None"
  unfolding vagree_def by blast

lemma vagree_vret [agree_intros]: "vagree (vret x) (vret x)"
  by (simp add: vagree_def vret_def)

lemma vagree_vcheck [agree_intros]: "vagree (vcheck Hosted c e) (vcheck Freestanding c e)"
  by (simp add: vagree_def vdefs)

lemma vagree_vload [agree_intros]: "vagree (vload r) (vload r)"
  by (simp add: vagree_def vload_def split: option.splits)

lemma vagree_vbind [agree_intros]:
  assumes m: "vagree m m'" and f: "\<And>x. vagree (f x) (f' x)"
  shows "vagree (vbind m f) (vbind m' f')"
  unfolding vagree_def
proof (intro conjI allI)
  fix x e
  show "vbind m f None \<noteq> VRet x (Some e)"
  proof
    assume "vbind m f None = VRet x (Some e)"
    then obtain y s where y: "m None = VRet y s" "f y s = VRet x (Some e)"
      by (auto simp: vbind_def split: vres.splits)
    then have "s = None" using m by (cases s) (auto simp: vagree_def)
    then show False using y f by (simp add: vagree_def)
  qed
next
  fix e x
  show "vbind m' f' (Some e) \<noteq> VRet x None"
  proof
    assume "vbind m' f' (Some e) = VRet x None"
    then obtain y s where y: "m' (Some e) = VRet y s" "f' y s = VRet x None"
      by (auto simp: vbind_def split: vres.splits)
    then have "s = None" using f by (cases s) (auto simp: vagree_def)
    then show False using y m by (simp add: vagree_def)
  qed
next
  fix x
  show "(vbind m f None = VRet x None) = (vbind m' f' None = VRet x None)"
  proof
    assume "vbind m f None = VRet x None"
    then obtain y s where y: "m None = VRet y s" "f y s = VRet x None"
      by (auto simp: vbind_def split: vres.splits)
    then have s: "s = None" using m by (cases s) (auto simp: vagree_def)
    with y(1) vagree_iff [OF m] have "m' None = VRet y None" by blast
    moreover from y(2) s vagree_iff [OF f] have "f' y None = VRet x None" by blast
    ultimately show "vbind m' f' None = VRet x None" by (simp add: vbind_def)
  next
    assume "vbind m' f' None = VRet x None"
    then obtain y s where y: "m' None = VRet y s" "f' y s = VRet x None"
      by (auto simp: vbind_def split: vres.splits)
    then have s: "s = None" using f by (cases s) (auto simp: vagree_def)
    with y(1) m have "m None = VRet y None" by (simp add: vagree_iff)
    moreover from y(2) s vagree_iff [OF f] have "f y None = VRet x None" by blast
    ultimately show "vbind m f None = VRet x None" by (simp add: vbind_def)
  qed
qed

lemma vagree_if [agree_intros]:
  "(c \<Longrightarrow> vagree m m') \<Longrightarrow> (\<not> c \<Longrightarrow> vagree n n') \<Longrightarrow>
   vagree (if c then m else n) (if c then m' else n')"
  by simp

lemma vagree_accepts:
  "vagree m m' \<Longrightarrow> m' None = VRet x None \<Longrightarrow> m None = VRet x None"
  by (simp add: vagree_iff)

text \<open>
  What a client of a validator relies on, whichever \<open>longjmp\<close> the module is built with: a
  table accepted by either run satisfies the postcondition of the hosted run.
\<close>

lemma accepted_post:
  assumes "vwp (v Hosted) None (\<lambda>x s. Q x)" and "vagree (v Hosted) (v Freestanding)"
    and "v env None = VRet x None"
  shows "Q x"
proof (cases env)
  case Hosted
  with assms(1,3) show ?thesis by (auto dest: vwp_accepted)
next
  case Freestanding
  with assms(2,3) have "v Hosted None = VRet x None" by (auto dest: vagree_accepts)
  with assms(1) show ?thesis by (auto dest: vwp_accepted)
qed

end
