(* ===== verification/Ft_Port.thy ===== *)
theory Ft_Port
  imports Ft_Validate
begin

text \<open>
  The memory system of the font engine: the bump allocator of \<open>config/ftalloc.c\<close>, the
  \<open>FT_Memory\<close> object that \<open>config/ftsystem.c\<close> makes of it, and the checked allocation
  functions of \<open>src/base/ftutil.c\<close> that the rest of the engine calls. The arena is the
  static \<open>alloc_pool\<close> and the file-scope \<open>alloc_offset\<close>; a pointer into the pool is its
  index, \<open>NULL\<close> is \<open>None\<close>.
\<close>

section \<open>config/ftalloc.c\<close>

definition FT_ALLOC_POOL_SIZE :: nat where
  "FT_ALLOC_POOL_SIZE = 256 * 1024"

record arena =
  alloc_pool :: "nat \<Rightarrow> byte"
  alloc_offset :: nat

definition ft_alloc_init :: "arena \<Rightarrow> arena" where
  "ft_alloc_init a = a\<lparr>alloc_offset := 0\<rparr>"

text \<open>\<open>size_t\<close> arithmetic: the sum \<open>aligned + size\<close> is taken modulo \<open>2 ^ 64\<close>.\<close>

definition ft_alloc_alloc :: "nat \<Rightarrow> arena \<Rightarrow> nat option \<times> arena" where
  "ft_alloc_alloc sz a =
     (let aligned = ((alloc_offset a + 7) mod 18446744073709551616) div 8 * 8;
          top = (aligned + sz) mod 18446744073709551616
      in if top > FT_ALLOC_POOL_SIZE then (None, a)
         else (Some aligned, a\<lparr>alloc_offset := top\<rparr>))"

definition ft_alloc_free :: "nat option \<Rightarrow> arena \<Rightarrow> arena" where
  "ft_alloc_free ptr a = a"

definition ft_alloc_reset :: "arena \<Rightarrow> arena" where
  "ft_alloc_reset a = a\<lparr>alloc_offset := 0\<rparr>"

section \<open>Bytes of the pool\<close>

text \<open>
  \<open>ft_memcpy\<close>, \<open>ft_memset(_, 0, _)\<close> on the pool; \<open>None\<close> when a byte outside the pool is
  touched, or when the two ranges of the copy overlap.
\<close>

definition pool_copy :: "nat \<Rightarrow> nat \<Rightarrow> nat \<Rightarrow> arena \<Rightarrow> arena option" where
  "pool_copy dst src n a =
     (if dst + n \<le> FT_ALLOC_POOL_SIZE \<and> src + n \<le> FT_ALLOC_POOL_SIZE \<and>
         (dst + n \<le> src \<or> src + n \<le> dst \<or> n = 0)
      then Some (a\<lparr>alloc_pool := (\<lambda>i. if dst \<le> i \<and> i < dst + n
                  then alloc_pool a (src + (i - dst)) else alloc_pool a i)\<rparr>)
      else None)"

definition pool_zero :: "nat \<Rightarrow> nat \<Rightarrow> arena \<Rightarrow> arena option" where
  "pool_zero dst n a =
     (if dst + n \<le> FT_ALLOC_POOL_SIZE
      then Some (a\<lparr>alloc_pool := (\<lambda>i. if dst \<le> i \<and> i < dst + n then 0 else alloc_pool a i)\<rparr>)
      else None)"

text \<open>A copy into the pool from an object outside it.\<close>

definition pool_write :: "nat \<Rightarrow> bytes \<Rightarrow> arena \<Rightarrow> arena option" where
  "pool_write dst bs a =
     (if dst + length bs \<le> FT_ALLOC_POOL_SIZE
      then Some (a\<lparr>alloc_pool := (\<lambda>i. if dst \<le> i \<and> i < dst + length bs
                  then bs ! (i - dst) else alloc_pool a i)\<rparr>)
      else None)"

section \<open>config/ftsystem.c\<close>

definition size_t_of_long :: "int \<Rightarrow> nat" where
  "size_t_of_long x = nat (u64 x)"

definition ft_alloc :: "int \<Rightarrow> arena \<Rightarrow> nat option \<times> arena" where
  "ft_alloc sz a = ft_alloc_alloc (size_t_of_long sz) a"

definition ft_realloc ::
    "int \<Rightarrow> int \<Rightarrow> nat option \<Rightarrow> arena \<Rightarrow> (nat option \<times> arena) option" where
  "ft_realloc cur_size new_size block a =
     (case block of
        None \<Rightarrow> Some (ft_alloc_alloc (size_t_of_long new_size) a)
      | Some b \<Rightarrow>
          if new_size \<le> 0 then Some (None, ft_alloc_free block a)
          else (case ft_alloc_alloc (size_t_of_long new_size) a of
                  (None, a') \<Rightarrow> Some (None, ft_alloc_free block a')
                | (Some new_block, a') \<Rightarrow> do {
                    let copy = (if cur_size < new_size then size_t_of_long cur_size
                                else size_t_of_long new_size);
                    a'' \<leftarrow> pool_copy new_block b copy a';
                    Some (Some new_block, ft_alloc_free block a'')
                  }))"

definition ft_free :: "nat option \<Rightarrow> arena \<Rightarrow> arena" where
  "ft_free block a = ft_alloc_free block a"

text \<open>The object with the three callbacks; its \<open>user\<close> field is always \<open>NULL\<close>.\<close>

record FT_MemoryRec =
  memory_alloc :: "int \<Rightarrow> arena \<Rightarrow> nat option \<times> arena"
  memory_realloc :: "int \<Rightarrow> int \<Rightarrow> nat option \<Rightarrow> arena \<Rightarrow> (nat option \<times> arena) option"
  memory_free :: "nat option \<Rightarrow> arena \<Rightarrow> arena"

definition tungsten_memory :: FT_MemoryRec where
  "tungsten_memory = \<lparr>memory_alloc = ft_alloc, memory_realloc = ft_realloc, memory_free = ft_free\<rparr>"

text \<open>
  \<open>sizeof(*memory)\<close>: four pointers of eight bytes. The result is the handle, a pointer into
  the pool, with the fields stored there.
\<close>

definition FT_New_Memory :: "arena \<Rightarrow> (nat \<times> FT_MemoryRec) option \<times> arena" where
  "FT_New_Memory a =
     (case ft_alloc_alloc 32 (ft_alloc_init a) of
        (None, a') \<Rightarrow> (None, a')
      | (Some memory, a') \<Rightarrow>
          (Some (memory, \<lparr>memory_alloc = ft_alloc, memory_realloc = ft_realloc,
             memory_free = ft_free\<rparr>), a'))"

definition FT_Done_Memory :: "nat option \<Rightarrow> arena \<Rightarrow> arena" where
  "FT_Done_Memory memory a = ft_alloc_reset (ft_alloc_free memory a)"

section \<open>Checked allocation (src/base/ftutil.c)\<close>

text \<open>
  Each function returns the block and the error code (\<open>None\<close> is \<open>FT_Err_Ok\<close>) with the new
  arena; the outer \<open>option\<close> is \<open>None\<close> when a byte outside the pool would be touched.
\<close>

definition ft_mem_qalloc ::
    "FT_MemoryRec \<Rightarrow> int \<Rightarrow> arena \<Rightarrow> nat option \<times> ft_error option \<times> arena" where
  "ft_mem_qalloc memory sz a =
     (if sz > 0 then
        (case memory_alloc memory sz a of
           (None, a') \<Rightarrow> (None, Some Out_Of_Memory, a')
         | (Some b, a') \<Rightarrow> (Some b, None, a'))
      else if sz < 0 then (None, Some Invalid_Argument, a)
      else (None, None, a))"

definition ft_mem_alloc ::
    "FT_MemoryRec \<Rightarrow> int \<Rightarrow> arena \<Rightarrow> (nat option \<times> ft_error option \<times> arena) option" where
  "ft_mem_alloc memory sz a =
     (case ft_mem_qalloc memory sz a of
        (Some b, None, a') \<Rightarrow>
          if sz > 0 then do { a'' \<leftarrow> pool_zero b (nat sz) a'; Some (Some b, None, a'') }
          else Some (Some b, None, a')
      | r \<Rightarrow> Some r)"

definition ft_mem_free :: "FT_MemoryRec \<Rightarrow> nat option \<Rightarrow> arena \<Rightarrow> arena" where
  "ft_mem_free memory p a = (if p \<noteq> None then memory_free memory p a else a)"

text \<open>\<open>FT_INT_MAX / item_size\<close> is a division of non-negative numbers. \<open>FT_Long\<close> has 64 bits.\<close>

definition ft_mem_qrealloc ::
    "FT_MemoryRec \<Rightarrow> int \<Rightarrow> int \<Rightarrow> int \<Rightarrow> nat option \<Rightarrow> arena
      \<Rightarrow> (nat option \<times> ft_error option \<times> arena) option" where
  "ft_mem_qrealloc memory item_size cur_count new_count block a =
     (if cur_count < 0 \<or> new_count < 0 \<or> item_size < 0 then
        Some (block, Some Invalid_Argument, a)
      else if new_count = 0 \<or> item_size = 0 then
        Some (None, None, ft_mem_free memory block a)
      else if new_count > 2147483647 div item_size then
        Some (block, Some Array_Too_Large, a)
      else if cur_count = 0 then
        (case memory_alloc memory (new_count * item_size) a of
           (None, a') \<Rightarrow> Some (None, Some Out_Of_Memory, a')
         | (Some b, a') \<Rightarrow> Some (Some b, None, a'))
      else do {
        let cur_size = s64 (cur_count * item_size);
        let new_size = new_count * item_size;
        (block2, a') \<leftarrow> memory_realloc memory cur_size new_size block a;
        (case block2 of
           None \<Rightarrow> Some (block, Some Out_Of_Memory, a')
         | Some b \<Rightarrow> Some (Some b, None, a'))
      })"

definition ft_mem_realloc ::
    "FT_MemoryRec \<Rightarrow> int \<Rightarrow> int \<Rightarrow> int \<Rightarrow> nat option \<Rightarrow> arena
      \<Rightarrow> (nat option \<times> ft_error option \<times> arena) option" where
  "ft_mem_realloc memory item_size cur_count new_count block a = do {
     (block', error, a') \<leftarrow> ft_mem_qrealloc memory item_size cur_count new_count block a;
     (case (error, block') of
        (None, Some b) \<Rightarrow>
          if new_count > cur_count then do {
            a'' \<leftarrow> pool_zero (b + nat (cur_count * item_size))
                     (nat ((new_count - cur_count) * item_size)) a';
            Some (Some b, None, a'')
          } else Some (block', error, a')
      | _ \<Rightarrow> Some (block', error, a'))
   }"

text \<open>The source of \<open>ft_mem_dup\<close> is an object outside the pool, \<open>None\<close> when it is \<open>NULL\<close>.\<close>

definition ft_mem_dup ::
    "FT_MemoryRec \<Rightarrow> bytes option \<Rightarrow> nat \<Rightarrow> arena
      \<Rightarrow> (nat option \<times> ft_error option \<times> arena) option" where
  "ft_mem_dup memory address sz a =
     (case ft_mem_qalloc memory (s64 (int sz)) a of
        (Some p, None, a') \<Rightarrow>
          (case address of
             None \<Rightarrow> Some (Some p, None, a')
           | Some src \<Rightarrow>
               if sz = 0 then Some (Some p, None, a')
               else if length src < sz then None
               else do { a'' \<leftarrow> pool_write p (take sz src) a'; Some (Some p, None, a'') })
      | r \<Rightarrow> Some r)"

section \<open>Blocks and the invariant of the arena\<close>

text \<open>
  A block is a pointer with the size it was requested with. The ghost list of the blocks
  handed out since the last reset is not part of the C state.
\<close>

type_synonym block = "nat \<times> nat"

fun blocks_disjoint :: "block list \<Rightarrow> bool" where
  "blocks_disjoint [] = True"
| "blocks_disjoint ((p, n) # bs) =
     ((\<forall>(q, m) \<in> set bs. p + n \<le> q \<or> q + m \<le> p) \<and> blocks_disjoint bs)"

definition arena_inv :: "arena \<Rightarrow> block list \<Rightarrow> bool" where
  "arena_inv a bs \<longleftrightarrow> alloc_offset a \<le> FT_ALLOC_POOL_SIZE \<and>
     (\<forall>(p, n) \<in> set bs. 8 dvd p \<and> p + n \<le> alloc_offset a) \<and> blocks_disjoint bs"

lemma blocks_disjoint_remove1: "blocks_disjoint bs \<Longrightarrow> blocks_disjoint (remove1 b bs)"
proof (induction bs rule: blocks_disjoint.induct)
  case (2 p n bs)
  then show ?case using set_remove1_subset [of b bs] by (cases "b = (p, n)") auto
qed simp

lemma arena_inv_remove1: "arena_inv a bs \<Longrightarrow> arena_inv a (remove1 b bs)"
  using set_remove1_subset [of b bs] by (fastforce simp: arena_inv_def blocks_disjoint_remove1)

lemma arena_inv_pool [simp]: "arena_inv (a\<lparr>alloc_pool := f\<rparr>) bs = arena_inv a bs"
  by (simp add: arena_inv_def)

lemma arena_inv_init: "arena_inv (ft_alloc_init a) []" "arena_inv (ft_alloc_reset a) []"
  by (simp_all add: arena_inv_def ft_alloc_init_def ft_alloc_reset_def)

lemma align8: "(x::nat) \<le> (x + 7) div 8 * 8" "8 dvd (x + 7) div 8 * 8"
  by presburger simp

lemma align8_lt: "(x::nat) \<le> 262144 \<Longrightarrow> (x + 7) div 8 * 8 \<le> 262144"
  by presburger

text \<open>One allocation of a size that does not wrap: all that is known of the new block.\<close>

lemma ft_alloc_alloc_some:
  assumes "arena_inv a bs" and "sz < 18446744073709289472"
    and "ft_alloc_alloc sz a = (Some p, a')"
  shows "p = (alloc_offset a + 7) div 8 * 8" "alloc_offset a' = p + sz"
    "alloc_offset a \<le> p" "p + sz \<le> FT_ALLOC_POOL_SIZE" "alloc_pool a' = alloc_pool a"
    "arena_inv a' ((p, sz) # bs)"
proof -
  let ?p = "(alloc_offset a + 7) div 8 * 8"
  have off: "alloc_offset a \<le> 262144"
    using assms(1) by (simp add: arena_inv_def FT_ALLOC_POOL_SIZE_def)
  have al: "(alloc_offset a + 7) mod 18446744073709551616 = alloc_offset a + 7"
    by (rule mod_less) (use off in linarith)
  have sum: "(?p + sz) mod 18446744073709551616 = ?p + sz"
    by (rule mod_less) (use align8_lt [OF off] assms(2) in linarith)
  have res: "p = ?p \<and> a' = a\<lparr>alloc_offset := ?p + sz\<rparr> \<and> ?p + sz \<le> FT_ALLOC_POOL_SIZE"
    using assms(3) unfolding ft_alloc_alloc_def Let_def al sum by (auto split: if_splits)
  then show "p = ?p" "alloc_offset a' = p + sz" "alloc_offset a \<le> p"
    "p + sz \<le> FT_ALLOC_POOL_SIZE" "alloc_pool a' = alloc_pool a"
    using align8(1) [of "alloc_offset a"] by simp_all
  show "arena_inv a' ((p, sz) # bs)"
    using assms(1) res align8 [of "alloc_offset a"] by (fastforce simp: arena_inv_def)
qed

lemma ft_alloc_alloc_none: "ft_alloc_alloc sz a = (None, a') \<Longrightarrow> a' = a"
  by (simp add: ft_alloc_alloc_def Let_def split: if_splits)

section \<open>The contract of an FT_Memory object\<close>

text \<open>
  What \<open>ftutil.c\<close> and everything above it expect of the three callbacks, for a ghost list
  of blocks \<open>bs\<close> that an invariant ties to the state.
\<close>

locale ft_memory =
  fixes memory :: FT_MemoryRec
    and inv :: "arena \<Rightarrow> block list \<Rightarrow> bool"
  assumes inv_pool: "inv a bs \<Longrightarrow> inv (a\<lparr>alloc_pool := f\<rparr>) bs"
    and inv_inside: "inv a bs \<Longrightarrow> (p, n) \<in> set bs \<Longrightarrow> p + n \<le> FT_ALLOC_POOL_SIZE"
    and inv_disjoint: "inv a bs \<Longrightarrow> blocks_disjoint bs"
    and alloc_some: "inv a bs \<Longrightarrow> 0 < sz \<Longrightarrow> sz < 9223372036854775808 \<Longrightarrow>
          memory_alloc memory sz a = (Some p, a') \<Longrightarrow>
          inv a' ((p, nat sz) # bs) \<and> alloc_pool a' = alloc_pool a"
    and alloc_none: "memory_alloc memory sz a = (None, a') \<Longrightarrow> a' = a"
    and realloc_total: "inv a bs \<Longrightarrow> 0 < cur \<Longrightarrow> 0 < new \<Longrightarrow> new < 9223372036854775808 \<Longrightarrow>
          cur < 9223372036854775808 \<Longrightarrow> (p, nat cur) \<in> set bs \<Longrightarrow>
          memory_realloc memory cur new (Some p) a \<noteq> None"
    and realloc_some: "inv a bs \<Longrightarrow> 0 < cur \<Longrightarrow> 0 < new \<Longrightarrow> new < 9223372036854775808 \<Longrightarrow>
          cur < 9223372036854775808 \<Longrightarrow> (p, nat cur) \<in> set bs \<Longrightarrow>
          memory_realloc memory cur new (Some p) a = Some (Some q, a') \<Longrightarrow>
          inv a' ((q, nat new) # remove1 (p, nat cur) bs) \<and>
          (\<forall>i < nat (min cur new). alloc_pool a' (q + i) = alloc_pool a (p + i)) \<and>
          (\<forall>j. (j < q \<or> q + nat new \<le> j) \<longrightarrow> alloc_pool a' j = alloc_pool a j)"
    and realloc_none: "inv a bs \<Longrightarrow> 0 < cur \<Longrightarrow> 0 < new \<Longrightarrow>
          memory_realloc memory cur new (Some p) a = Some (None, a') \<Longrightarrow> a' = a"
begin

lemma qalloc_cases:
  assumes "inv a bs" and "sz < 9223372036854775808"
    and "ft_mem_qalloc memory sz a = (b, e, a')"
  shows "(sz < 0 \<and> b = None \<and> e = Some Invalid_Argument \<and> a' = a) \<or>
    (sz = 0 \<and> b = None \<and> e = None \<and> a' = a) \<or>
    (0 < sz \<and> b = None \<and> e = Some Out_Of_Memory \<and> a' = a) \<or>
    (\<exists>p. 0 < sz \<and> b = Some p \<and> e = None \<and> inv a' ((p, nat sz) # bs) \<and>
         alloc_pool a' = alloc_pool a)"
  using assms alloc_some [OF assms(1), of sz] alloc_none [of sz a]
  by (auto simp: ft_mem_qalloc_def split: if_splits prod.splits option.splits)

lemma zero_block:
  assumes "inv a bs" and "(p, n) \<in> set bs" and "i + m \<le> n"
  shows "\<exists>a'. pool_zero (p + i) m a = Some a' \<and> inv a' bs \<and>
    (\<forall>j. p + i \<le> j \<and> j < p + i + m \<longrightarrow> alloc_pool a' j = 0) \<and>
    (\<forall>j. j < p + i \<or> p + i + m \<le> j \<longrightarrow> alloc_pool a' j = alloc_pool a j)"
  using inv_inside [OF assms(1,2)] assms(3) inv_pool [OF assms(1)] by (auto simp: pool_zero_def)

lemma mem_alloc_spec:
  assumes "inv a bs" and "0 < sz" and "sz < 9223372036854775808"
  shows "ft_mem_alloc memory sz a = Some (None, Some Out_Of_Memory, a) \<or>
    (\<exists>p a'. ft_mem_alloc memory sz a = Some (Some p, None, a') \<and> inv a' ((p, nat sz) # bs) \<and>
       (\<forall>i < nat sz. alloc_pool a' (p + i) = 0) \<and>
       (\<forall>(q, m) \<in> set bs. \<forall>i < m. alloc_pool a' (q + i) = alloc_pool a (q + i)))"
proof -
  obtain b e a1 where r: "ft_mem_qalloc memory sz a = (b, e, a1)" by (metis prod_cases3)
  show ?thesis
  proof (cases b)
    case None
    then show ?thesis using qalloc_cases [OF assms(1,3) r] assms(2) r by (auto simp: ft_mem_alloc_def)
  next
    case (Some p)
    then have q: "e = None" "inv a1 ((p, nat sz) # bs)" "alloc_pool a1 = alloc_pool a"
      using qalloc_cases [OF assms(1,3) r] by auto
    from zero_block [OF q(2), of p "nat sz" 0 "nat sz"] obtain a2 where
      z: "pool_zero p (nat sz) a1 = Some a2" "inv a2 ((p, nat sz) # bs)"
         "\<forall>j. p \<le> j \<and> j < p + nat sz \<longrightarrow> alloc_pool a2 j = 0"
         "\<forall>j. j < p \<or> p + nat sz \<le> j \<longrightarrow> alloc_pool a2 j = alloc_pool a1 j" by auto
    have fr: "\<forall>(q, m) \<in> set bs. \<forall>i < m. alloc_pool a2 (q + i) = alloc_pool a (q + i)"
      using inv_disjoint [OF z(2)] z(4) q(3) by fastforce
    have "ft_mem_alloc memory sz a = Some (Some p, None, a2)"
      using r Some q(1) z(1) assms(2) by (simp add: ft_mem_alloc_def)
    then show ?thesis using z(2,3) fr by auto
  qed
qed

lemma qrealloc_spec:
  assumes "inv a bs" and "0 < item" and "0 < cur" and "0 < new"
    and "cur \<le> 2147483647 div item" and "(p, nat (cur * item)) \<in> set bs"
  shows "(2147483647 div item < new \<and>
       ft_mem_qrealloc memory item cur new (Some p) a = Some (Some p, Some Array_Too_Large, a)) \<or>
    ft_mem_qrealloc memory item cur new (Some p) a = Some (Some p, Some Out_Of_Memory, a) \<or>
    (\<exists>q a'. ft_mem_qrealloc memory item cur new (Some p) a = Some (Some q, None, a') \<and>
       inv a' ((q, nat (new * item)) # remove1 (p, nat (cur * item)) bs) \<and>
       (\<forall>i < nat (min (cur * item) (new * item)). alloc_pool a' (q + i) = alloc_pool a (p + i)) \<and>
       (\<forall>j. j < q \<or> q + nat (new * item) \<le> j \<longrightarrow> alloc_pool a' j = alloc_pool a j))"
proof (cases "2147483647 div item < new")
  case True
  then show ?thesis using assms by (simp add: ft_mem_qrealloc_def)
next
  case False
  have le: "x \<le> 2147483647 div item \<Longrightarrow> x * item \<le> 2147483647" for x
    using assms(2) mult_right_mono [of x "2147483647 div item" item]
      pos_mod_sign [of item 2147483647] div_mult_mod_eq [of 2147483647 item] by linarith
  have cs: "0 < cur * item" "cur * item \<le> 2147483647" "0 < new * item" "new * item \<le> 2147483647"
    using assms(2-5) False le by auto
  then have s: "s64 (cur * item) = cur * item" by (simp add: s64_id)
  have bnd: "new * item < 9223372036854775808" "cur * item < 9223372036854775808" using cs by auto
  obtain b a1 where r: "memory_realloc memory (cur * item) (new * item) (Some p) a = Some (b, a1)"
    using realloc_total [OF assms(1) cs(1) cs(3) bnd assms(6)] by fastforce
  have q: "ft_mem_qrealloc memory item cur new (Some p) a =
      (case b of None \<Rightarrow> Some (Some p, Some Out_Of_Memory, a1) | Some b \<Rightarrow> Some (Some b, None, a1))"
    using assms False r s by (simp add: ft_mem_qrealloc_def)
  show ?thesis
  proof (cases b)
    case None
    then show ?thesis using q r realloc_none [OF assms(1) cs(1) cs(3)] by auto
  next
    case (Some x)
    then show ?thesis
      using q r realloc_some [OF assms(1) cs(1) cs(3) bnd assms(6)] by auto
  qed
qed

lemma mem_realloc_spec:
  assumes "inv a bs" and "0 < item" and "0 < cur" and "cur \<le> new"
    and "cur \<le> 2147483647 div item" and "(p, nat (cur * item)) \<in> set bs"
    and "ft_mem_realloc memory item cur new (Some p) a = Some (Some q, None, a')"
  shows "inv a' ((q, nat (new * item)) # remove1 (p, nat (cur * item)) bs) \<and>
    (\<forall>i < nat (cur * item). alloc_pool a' (q + i) = alloc_pool a (p + i)) \<and>
    (\<forall>i. nat (cur * item) \<le> i \<and> i < nat (new * item) \<longrightarrow> alloc_pool a' (q + i) = 0)"
proof -
  have new: "0 < new" "cur * item \<le> new * item" using assms(2,3,4) by auto
  obtain a1 where
    m: "ft_mem_qrealloc memory item cur new (Some p) a = Some (Some q, None, a1)"
    and i1: "inv a1 ((q, nat (new * item)) # remove1 (p, nat (cur * item)) bs)"
    and keep: "\<forall>i < nat (min (cur * item) (new * item)). alloc_pool a1 (q + i) = alloc_pool a (p + i)"
  proof (rule qrealloc_spec [OF assms(1-3) new(1) assms(5,6), THEN disjE], goal_cases)
    case 1
    then show ?case using assms(7) by (simp add: ft_mem_realloc_def)
  next
    case 2
    then show ?case
    proof (elim disjE exE conjE, goal_cases)
      case 1
      then show ?case using assms(7) by (simp add: ft_mem_realloc_def)
    next
      case (2 r a1)
      then have "r = q" using assms(7) by (auto simp: ft_mem_realloc_def pool_zero_def split: if_splits)
      then show ?case using 2 by blast
    qed
  qed
  show ?thesis
  proof (cases "cur < new")
    case False
    with assms(4) have "cur = new" by simp
    with assms(7) m i1 keep new show ?thesis by (auto simp: ft_mem_realloc_def)
  next
    case True
    have sum: "nat (cur * item) + nat ((new - cur) * item) = nat (new * item)"
      using True assms(2,3) new by (simp add: nat_add_distrib [symmetric] left_diff_distrib)
    from zero_block [OF i1, of q "nat (new * item)" "nat (cur * item)" "nat ((new - cur) * item)"] sum
    obtain a2 where z: "pool_zero (q + nat (cur * item)) (nat ((new - cur) * item)) a1 = Some a2"
      "inv a2 ((q, nat (new * item)) # remove1 (p, nat (cur * item)) bs)"
      "\<forall>j. q + nat (cur * item) \<le> j \<and> j < q + nat (new * item) \<longrightarrow> alloc_pool a2 j = 0"
      "\<forall>j. j < q + nat (cur * item) \<or> q + nat (new * item) \<le> j \<longrightarrow> alloc_pool a2 j = alloc_pool a1 j"
      by (auto simp: add.assoc)
    have "a' = a2" using assms(7) m True z(1) by (simp add: ft_mem_realloc_def)
    then show ?thesis using z keep new by auto
  qed
qed

end

section \<open>The arena implements the contract\<close>

lemma size_t_of_long_pos: "0 < sz \<Longrightarrow> sz < 9223372036854775808 \<Longrightarrow> size_t_of_long sz = nat sz"
  by (simp add: size_t_of_long_def u64_id)

lemma size_t_of_long_lt: "sz < 9223372036854775808 \<Longrightarrow> nat sz < 18446744073709289472"
  by (simp add: nat_less_iff)

lemma ft_realloc_block:
  assumes inv: "arena_inv a bs" and "0 < cur" "0 < new" "new < 9223372036854775808"
    "cur < 9223372036854775808" and mem: "(p, nat cur) \<in> set bs"
  shows "ft_realloc cur new (Some p) a = Some (None, a) \<or>
    (\<exists>q a1 a'. ft_alloc_alloc (nat new) a = (Some q, a1) \<and>
       ft_realloc cur new (Some p) a = Some (Some q, a') \<and>
       pool_copy q p (nat (min cur new)) a1 = Some a')"
proof (cases "ft_alloc_alloc (nat new) a")
  case (Pair b a1)
  have copy: "(if cur < new then size_t_of_long cur else size_t_of_long new) = nat (min cur new)"
    using assms by (simp add: size_t_of_long_pos)
  show ?thesis
  proof (cases b)
    case None
    then show ?thesis using Pair assms ft_alloc_alloc_none [of "nat new" a a1]
      by (simp add: ft_realloc_def ft_alloc_free_def size_t_of_long_pos)
  next
    case (Some q)
    note n = ft_alloc_alloc_some [OF inv size_t_of_long_lt [OF assms(4)] Pair [unfolded Some]]
    have "p + nat cur \<le> alloc_offset a" using inv mem by (auto simp: arena_inv_def)
    moreover have "nat (min cur new) \<le> nat cur" "nat (min cur new) \<le> nat new" by auto
    ultimately have "q + nat (min cur new) \<le> FT_ALLOC_POOL_SIZE"
      "p + nat (min cur new) \<le> FT_ALLOC_POOL_SIZE" "p + nat (min cur new) \<le> q"
      using n(3,4) by linarith+
    then have "pool_copy q p (nat (min cur new)) a1 \<noteq> None"
      unfolding pool_copy_def by auto
    then show ?thesis using Pair Some assms copy
      by (auto simp: ft_realloc_def ft_alloc_free_def size_t_of_long_pos Let_def)
  qed
qed

interpretation arena: ft_memory tungsten_memory arena_inv
proof
  fix a bs p n assume "arena_inv a bs" "(p, n) \<in> set bs"
  then show "p + n \<le> FT_ALLOC_POOL_SIZE" by (fastforce simp: arena_inv_def)
next
  fix a bs sz p a'
  assume "arena_inv a bs" "0 < sz" "sz < 9223372036854775808"
    "memory_alloc tungsten_memory sz a = (Some p, a')"
  then show "arena_inv a' ((p, nat sz) # bs) \<and> alloc_pool a' = alloc_pool a"
    using ft_alloc_alloc_some [of a bs "nat sz" p a'] size_t_of_long_lt [of sz]
    by (simp add: tungsten_memory_def ft_alloc_def size_t_of_long_pos)
next
  fix sz a a' assume "memory_alloc tungsten_memory sz a = (None, a')"
  then show "a' = a" using ft_alloc_alloc_none by (simp add: tungsten_memory_def ft_alloc_def)
next
  fix a bs p and cur new :: int
  assume "arena_inv a bs" "0 < cur" "0 < new" "new < 9223372036854775808"
    "cur < 9223372036854775808" "(p, nat cur) \<in> set bs"
  from ft_realloc_block [OF this] show "memory_realloc tungsten_memory cur new (Some p) a \<noteq> None"
    by (auto simp: tungsten_memory_def)
next
  fix a bs p q a' and cur new :: int
  assume A: "arena_inv a bs" "0 < cur" "0 < new" "new < 9223372036854775808"
    "cur < 9223372036854775808" "(p, nat cur) \<in> set bs"
    and "memory_realloc tungsten_memory cur new (Some p) a = Some (Some q, a')"
  then obtain a1 where al: "ft_alloc_alloc (nat new) a = (Some q, a1)"
    and cp: "pool_copy q p (nat (min cur new)) a1 = Some a'"
    using ft_realloc_block [OF A] by (auto simp: tungsten_memory_def)
  note n = ft_alloc_alloc_some [OF A(1) size_t_of_long_lt [OF A(4)] al]
  have "arena_inv a1 ((q, nat new) # remove1 (p, nat cur) bs)"
    using arena_inv_remove1 [OF n(6), of "(p, nat cur)"] arena_inv_remove1 [OF A(1), of "(p, nat cur)"] n
      set_remove1_subset [of "(p, nat cur)" bs]
    by (cases "(q, nat new) = (p, nat cur)") (fastforce simp: arena_inv_def blocks_disjoint_remove1)+
  then show "arena_inv a' ((q, nat new) # remove1 (p, nat cur) bs) \<and>
      (\<forall>i < nat (min cur new). alloc_pool a' (q + i) = alloc_pool a (p + i)) \<and>
      (\<forall>j. (j < q \<or> q + nat new \<le> j) \<longrightarrow> alloc_pool a' j = alloc_pool a j)"
    using cp n(5) by (auto simp: pool_copy_def split: if_splits)
next
  fix a bs p a' and cur new :: int
  assume "arena_inv a bs" "0 < cur" "0 < new"
    "memory_realloc tungsten_memory cur new (Some p) a = Some (None, a')"
  then show "a' = a"
    using ft_alloc_alloc_none
    by (auto simp: tungsten_memory_def ft_realloc_def ft_alloc_free_def Let_def
        split: prod.splits option.splits bind_splits)
qed (simp_all add: arena_inv_def)

section \<open>Runs of requests\<close>

text \<open>
  A run of \<open>memory->alloc\<close> requests with everything that may come between them: releases,
  which do nothing here. The blocks that were granted are collected, last one first.
\<close>

datatype request = Alloc int | Release "nat option"

fun run_requests :: "request list \<Rightarrow> arena \<Rightarrow> block list \<Rightarrow> block list \<times> arena" where
  "run_requests [] a bs = (bs, a)"
| "run_requests (Alloc sz # rs) a bs =
     (case ft_alloc sz a of
        (None, a') \<Rightarrow> run_requests rs a' bs
      | (Some p, a') \<Rightarrow> run_requests rs a' ((p, nat sz) # bs))"
| "run_requests (Release p # rs) a bs = run_requests rs (ft_free p a) bs"

lemma run_requests_inv:
  assumes "\<forall>sz. Alloc sz \<in> set rs \<longrightarrow> 0 < sz \<and> sz < 9223372036854775808"
    and "arena_inv a bs" and "sum_list (map snd bs) \<le> alloc_offset a"
    and "run_requests rs a bs = (bs', a')"
  shows "arena_inv a' bs' \<and> sum_list (map snd bs') \<le> alloc_offset a' \<and>
    alloc_offset a \<le> alloc_offset a' \<and> set bs \<subseteq> set bs'"
  using assms
proof (induction rs a bs rule: run_requests.induct)
  case (2 sz rs a bs)
  have sz: "0 < sz" "sz < 9223372036854775808" using "2.prems"(1) by simp_all
  show ?case
  proof (cases "ft_alloc sz a")
    case (Pair b a1)
    then have al: "ft_alloc_alloc (nat sz) a = (b, a1)"
      using sz by (simp add: ft_alloc_def size_t_of_long_pos)
    show ?thesis
    proof (cases b)
      case None
      then show ?thesis
        using 2 Pair ft_alloc_alloc_none [OF al [unfolded None]] by simp
    next
      case (Some p)
      note n = ft_alloc_alloc_some [OF "2.prems"(2) size_t_of_long_lt [OF sz(2)] al [unfolded Some]]
      have "sum_list (map snd ((p, nat sz) # bs)) \<le> alloc_offset a1"
        using "2.prems"(3) n(2,3) by simp
      then have "arena_inv a' bs' \<and> sum_list (map snd bs') \<le> alloc_offset a' \<and>
          alloc_offset a1 \<le> alloc_offset a' \<and> set ((p, nat sz) # bs) \<subseteq> set bs'"
        using "2.IH"(2) [OF Pair [symmetric] Some] n(6) "2.prems"(1,4) Pair Some by simp
      then show ?thesis using n(2,3) by auto
    qed
  qed
qed (auto simp: ft_free_def ft_alloc_free_def)

section \<open>Properties\<close>

text \<open>
  C28: From a freshly initialised arena, whatever sequence of allocations and releases is
  made, the blocks handed out start on 8-byte boundaries, lie inside the pool, are pairwise
  disjoint, and their sizes add up to at most the size of the pool (releases give nothing back).
\<close>

theorem arena_blocks_disjoint:
  assumes "\<forall>sz. Alloc sz \<in> set rs \<longrightarrow> 0 < sz \<and> sz < 9223372036854775808"
    and "run_requests rs (ft_alloc_init a) [] = (bs, a')"
  shows "blocks_disjoint bs \<and> (\<forall>(p, n) \<in> set bs. 8 dvd p \<and> p + n \<le> FT_ALLOC_POOL_SIZE) \<and>
    sum_list (map snd bs) \<le> FT_ALLOC_POOL_SIZE"
proof -
  have "arena_inv a' bs \<and> sum_list (map snd bs) \<le> alloc_offset a'"
    using run_requests_inv [OF assms(1) arena_inv_init(1) _ assms(2)] by simp
  then show ?thesis by (fastforce simp: arena_inv_def)
qed

definition arena0 :: arena where
  "arena0 = \<lparr>alloc_pool = (\<lambda>i. 7), alloc_offset = 99\<rparr>"

theorem arena_blocks_disjoint_witness:
  "run_requests [Alloc 5, Release (Some 0), Alloc 262145, Alloc 16] (ft_alloc_init arena0) [] =
     ([(8, 16), (0, 5)], arena0\<lparr>alloc_offset := 24\<rparr>) \<and>
   blocks_disjoint [(8, 16), (0, 5)]"
proof -
  have r: "run_requests [Alloc 5, Release (Some 0), Alloc 262145, Alloc 16] (ft_alloc_init arena0) [] =
     ([(8, 16), (0, 5)], arena0\<lparr>alloc_offset := 24\<rparr>)"
    by (simp add: ft_alloc_init_def arena0_def ft_alloc_def ft_alloc_alloc_def size_t_of_long_def
        u64_def FT_ALLOC_POOL_SIZE_def ft_free_def ft_alloc_free_def)
  from arena_blocks_disjoint [OF _ r] r show ?thesis by auto
qed

text \<open>
  C29: \<open>ft_mem_alloc\<close> through the Tungsten memory object either reports Out_Of_Memory and
  leaves the arena as it was, or returns a block that is disjoint from every live block,
  filled with zeros, while every live block keeps its contents.
\<close>

theorem ft_mem_alloc_fresh:
  assumes "arena_inv a bs" and "0 < sz" and "sz < 9223372036854775808"
  shows "ft_mem_alloc tungsten_memory sz a = Some (None, Some Out_Of_Memory, a) \<or>
    (\<exists>p a'. ft_mem_alloc tungsten_memory sz a = Some (Some p, None, a') \<and>
       arena_inv a' ((p, nat sz) # bs) \<and>
       (\<forall>i < nat sz. alloc_pool a' (p + i) = 0) \<and>
       (\<forall>(q, m) \<in> set bs. \<forall>i < m. alloc_pool a' (q + i) = alloc_pool a (q + i)))"
  by (rule arena.mem_alloc_spec [OF assms])

theorem ft_mem_alloc_fresh_witness:
  "arena_inv (ft_alloc_init arena0) [] \<and>
   (ft_mem_alloc tungsten_memory 40 (ft_alloc_init arena0) =
      Some (None, Some Out_Of_Memory, ft_alloc_init arena0) \<or>
    (\<exists>p a'. ft_mem_alloc tungsten_memory 40 (ft_alloc_init arena0) = Some (Some p, None, a') \<and>
       arena_inv a' [(p, 40)] \<and> (\<forall>i < 40. alloc_pool a' (p + i) = 0)))"
  using ft_mem_alloc_fresh [OF arena_inv_init(1) [of arena0], of 40] arena_inv_init(1) [of arena0]
  by auto

text \<open>
  C30: When \<open>ft_mem_realloc\<close> grows an array, the new block replaces the old one among the
  live blocks, starts with the old elements and ends with zeros.
\<close>

theorem ft_mem_realloc_keeps:
  assumes "arena_inv a bs" and "0 < item" and "0 < cur" and "cur \<le> new"
    and "cur \<le> 2147483647 div item" and "(p, nat (cur * item)) \<in> set bs"
    and "ft_mem_realloc tungsten_memory item cur new (Some p) a = Some (Some q, None, a')"
  shows "arena_inv a' ((q, nat (new * item)) # remove1 (p, nat (cur * item)) bs) \<and>
    (\<forall>i < nat (cur * item). alloc_pool a' (q + i) = alloc_pool a (p + i)) \<and>
    (\<forall>i. nat (cur * item) \<le> i \<and> i < nat (new * item) \<longrightarrow> alloc_pool a' (q + i) = 0)"
  by (rule arena.mem_realloc_spec [OF assms])

theorem ft_mem_realloc_keeps_witness:
  "\<exists>q a'. ft_mem_realloc tungsten_memory 4 2 3 (Some 0) (arena0\<lparr>alloc_offset := 8\<rparr>) =
       Some (Some q, None, a') \<and>
     (\<forall>i < 8. alloc_pool a' (q + i) = 7) \<and> (\<forall>i. 8 \<le> i \<and> i < 12 \<longrightarrow> alloc_pool a' (q + i) = 0)"
proof -
  have inv: "arena_inv (arena0\<lparr>alloc_offset := 8\<rparr>) [(0, 8)]"
    by (simp add: arena_inv_def arena0_def FT_ALLOC_POOL_SIZE_def)
  obtain a' where r: "ft_mem_realloc tungsten_memory 4 2 3 (Some 0) (arena0\<lparr>alloc_offset := 8\<rparr>) =
      Some (Some 8, None, a')"
    by (simp add: ft_mem_realloc_def ft_mem_qrealloc_def tungsten_memory_def ft_realloc_def s64_def
        ft_alloc_alloc_def size_t_of_long_def u64_def FT_ALLOC_POOL_SIZE_def pool_copy_def
        ft_alloc_free_def pool_zero_def arena0_def)
  from ft_mem_realloc_keeps [OF inv _ _ _ _ _ r] r show ?thesis by (auto simp: arena0_def)
qed

text \<open>
  A negative request is refused by \<open>ft_mem_qalloc\<close> with Invalid_Argument and an untouched
  arena. The guard is needed: once 8 bytes are in use, the bare callback given -8 sees the sum
  wrap to 0, grants a block and moves the offset back to 0, over the bytes in use.
\<close>

theorem ft_mem_negative_request:
  "(sz < 0 \<longrightarrow> ft_mem_qalloc memory sz a = (None, Some Invalid_Argument, a)) \<and>
   ft_alloc (- 8) (a\<lparr>alloc_offset := 8\<rparr>) = (Some 8, a\<lparr>alloc_offset := 0\<rparr>)"
  by (simp add: ft_mem_qalloc_def ft_alloc_def ft_alloc_alloc_def size_t_of_long_def u64_def)

theorem ft_mem_negative_request_witness:
  "ft_mem_qalloc tungsten_memory (- 8) arena0 = (None, Some Invalid_Argument, arena0)"
  using ft_mem_negative_request [of "- 8" tungsten_memory arena0] by simp

text \<open>
  \<open>FT_New_Memory\<close> rewinds the one static arena: a second call, whatever was allocated in
  between, returns the same handle as the first, and the next block it grants covers the
  memory of the first library's blocks.
\<close>

theorem FT_New_Memory_rewinds:
  "fst (FT_New_Memory a) = Some (0, tungsten_memory) \<and>
   FT_New_Memory (a\<lparr>alloc_offset := k\<rparr>) = FT_New_Memory a \<and>
   fst (ft_alloc 64 (snd (FT_New_Memory a))) = Some 32"
  by (simp add: FT_New_Memory_def ft_alloc_init_def ft_alloc_alloc_def FT_ALLOC_POOL_SIZE_def
      ft_alloc_def size_t_of_long_def u64_def tungsten_memory_def)

end
