(* ===== verification/Tt_CMap.thy ===== *)
theory Tt_CMap
  imports Ft_Validate
begin

text \<open>
  What every character map of \<open>src/sfnt/ttcmap.c\<close> promises to the code that calls it
  through its class record (\<open>TT_CMap_ClassRec\<close>, \<open>src/sfnt/ttcmap.h\<close>). A cmap sub-table is
  the list of the bytes from its first byte to the end of the font's \<open>cmap\<close> table, so that
  \<open>valid->limit - table\<close> and \<open>face->cmap_table + face->cmap_size - table\<close> are its length.
  Character codes and glyph indices are naturals below \<open>2 ^ 32\<close>; \<open>ng\<close> is the number of
  glyphs of the face, as the \<open>FT_UInt\<close> the code converts it to.
\<close>

text \<open>The glyph of a code as \<open>FT_Get_Char_Index\<close> reports it: indices out of range are 0.\<close>

definition clip_glyph :: "nat \<Rightarrow> nat \<Rightarrow> nat" where
  "clip_glyph ng g = (if g \<ge> ng then 0 else g)"

text \<open>
  \<open>scan_ok lim f d r\<close>: the pair \<open>r\<close> of a glyph and a code is what a scan of the map \<open>f\<close>
  upwards from \<open>d\<close> must find among the codes below \<open>lim\<close>: the first code with a glyph, or
  0 when there is none.
\<close>

definition scan_ok :: "nat \<Rightarrow> (nat \<Rightarrow> nat) \<Rightarrow> nat \<Rightarrow> nat \<times> nat \<Rightarrow> bool" where
  "scan_ok lim f d r =
     (if fst r = 0 then \<forall>e \<ge> d. e < lim \<longrightarrow> f e = 0
      else d \<le> snd r \<and> snd r < lim \<and> f (snd r) = fst r \<and>
           (\<forall>e. d \<le> e \<and> e < snd r \<longrightarrow> f e = 0))"

text \<open>
  The result of one \<open>char_next\<close> call from code \<open>c\<close> is right for the map \<open>f\<close>: a code above
  \<open>c\<close> with its glyph, and no code in between has a usable glyph; or 0, and no code between
  \<open>c\<close> and \<open>lim\<close> has one. The second part of the pair is the value left in \<open>*pchar_code\<close>.
\<close>

definition next_char_ok :: "nat \<Rightarrow> nat \<Rightarrow> (nat \<Rightarrow> nat) \<Rightarrow> nat \<Rightarrow> nat \<times> nat \<Rightarrow> bool" where
  "next_char_ok lim ng f c r =
     (if fst r = 0 then \<forall>d. c < d \<and> d < lim \<longrightarrow> clip_glyph ng (f d) = 0
      else c < snd r \<and> snd r < lim \<and> f (snd r) = fst r \<and>
           (\<forall>d. c < d \<and> d < snd r \<longrightarrow> clip_glyph ng (f d) = 0))"

lemma scan_ok_here: "f d = g \<Longrightarrow> g \<noteq> 0 \<Longrightarrow> d < lim \<Longrightarrow> scan_ok lim f d (g, d)"
  by (simp add: scan_ok_def)

lemma scan_ok_none: "(\<And>e. d \<le> e \<Longrightarrow> e < lim \<Longrightarrow> f e = 0) \<Longrightarrow> scan_ok lim f d (0, c')"
  by (simp add: scan_ok_def)

lemma scan_ok_skip:
  assumes "scan_ok lim f d' r" and "d \<le> d'" and "\<And>e. d \<le> e \<Longrightarrow> e < d' \<Longrightarrow> f e = 0"
  shows "scan_ok lim f d r"
proof (cases "fst r = 0")
  case True
  then show ?thesis using assms unfolding scan_ok_def by (metis not_le)
next
  case False
  then show ?thesis using assms unfolding scan_ok_def by (smt (verit) dual_order.trans not_le)
qed

lemma scan_ok_next: "scan_ok lim f (Suc c) r \<Longrightarrow> next_char_ok lim ng f c r"
  by (auto simp: scan_ok_def next_char_ok_def clip_glyph_def Suc_le_eq split: if_splits)

lemma scan_ok_clip_next:
  assumes "scan_ok lim (\<lambda>e. clip_glyph ng (f e)) (Suc c) (g, c')"
  shows "next_char_ok lim ng f c (g, c')"
proof (cases "g = 0")
  case False
  then have "clip_glyph ng (f c') = g" using assms by (simp add: scan_ok_def)
  then have "f c' = g" using False by (simp add: clip_glyph_def split: if_splits)
  then show ?thesis using assms False by (simp add: scan_ok_def next_char_ok_def Suc_le_eq)
qed (use assms in \<open>simp add: scan_ok_def next_char_ok_def Suc_le_eq\<close>)

text \<open>
  What any class promises of \<open>char_next\<close>: on an object in order it returns, leaves the
  object in order, and a glyph comes with a larger code. The code \<open>0xFFFFFFFF\<close> is left out,
  since \<open>*pchar_code + 1\<close> wraps to 0 there.
\<close>

locale tt_cmap_steps =
  fixes char_next :: "nat \<Rightarrow> 's \<Rightarrow> nat \<Rightarrow> (nat \<times> nat \<times> 's) option"
    and ok :: "bytes \<Rightarrow> nat \<Rightarrow> 's \<Rightarrow> bool"
  assumes next_total: "ok t fl st \<Longrightarrow> c < 4294967296 \<Longrightarrow>
      \<exists>g c' st'. char_next ng st c = Some (g, c', st') \<and> ok t fl st' \<and> c' < 4294967296 \<and>
        (g \<noteq> 0 \<longrightarrow> c < 4294967295 \<longrightarrow> c < c')"

text \<open>The object after \<open>char_next\<close> was called for each of a list of codes.\<close>

fun run_next :: "(nat \<Rightarrow> 's \<Rightarrow> nat \<Rightarrow> (nat \<times> nat \<times> 's) option) \<Rightarrow> nat \<Rightarrow> 's \<Rightarrow> nat list \<Rightarrow> 's option" where
  "run_next nx ng st [] = Some st"
| "run_next nx ng st (c # cs) = do { (g, c', st') \<leftarrow> nx ng st c; run_next nx ng st' cs }"

context tt_cmap_steps
begin

lemma run_ok:
  "ok t fl st \<Longrightarrow> \<forall>c \<in> set cs. c < 4294967296 \<Longrightarrow> \<exists>st'. run_next char_next ng st cs = Some st' \<and> ok t fl st'"
proof (induction cs arbitrary: st)
  case (Cons c cs)
  then obtain g c' st' where "char_next ng st c = Some (g, c', st')" "ok t fl st'"
    using next_total [of t fl st c ng] by auto
  then show ?case using Cons by simp
qed simp

end

text \<open>A \<open>char_next\<close> that enumerates the codes of a map below \<open>lim\<close> in order.\<close>

locale tt_cmap_enum = tt_cmap_steps char_next ok
  for char_next :: "nat \<Rightarrow> 's \<Rightarrow> nat \<Rightarrow> (nat \<times> nat \<times> 's) option"
    and ok :: "bytes \<Rightarrow> nat \<Rightarrow> 's \<Rightarrow> bool" +
  fixes gmap :: "bytes \<Rightarrow> nat \<Rightarrow> nat \<Rightarrow> nat" and lim :: nat
  assumes next_least: "ok t fl st \<Longrightarrow> c < 4294967295 \<Longrightarrow> char_next ng st c = Some (g, c', st') \<Longrightarrow>
      next_char_ok lim ng (gmap t fl) c (g, c')"

text \<open>
  The interface of a class: \<open>validate\<close>, \<open>init\<close>, \<open>char_index\<close> and \<open>char_next\<close> over the
  object's state \<open>'s\<close>. \<open>ok t fl s\<close> is the invariant of an object made from the table \<open>t\<close>
  with the flags \<open>fl\<close> that the validator returned, \<open>gmap\<close> the map the table stands for.
\<close>

locale tt_cmap_class = tt_cmap_steps char_next ok
  for validate :: "setjmp_env \<Rightarrow> bytes \<Rightarrow> validation_level \<Rightarrow> nat \<Rightarrow> nat validator"
    and init :: "bytes \<Rightarrow> nat \<Rightarrow> 's option"
    and char_index :: "nat \<Rightarrow> 's \<Rightarrow> nat \<Rightarrow> nat option"
    and char_next :: "nat \<Rightarrow> 's \<Rightarrow> nat \<Rightarrow> (nat \<times> nat \<times> 's) option"
    and ok :: "bytes \<Rightarrow> nat \<Rightarrow> 's \<Rightarrow> bool" +
  fixes gmap :: "bytes \<Rightarrow> nat \<Rightarrow> nat \<Rightarrow> nat"
  assumes validate_agree: "vagree (validate Hosted t l n) (validate Freestanding t l n)"
    and validate_safe: "length t < 4294967296 \<Longrightarrow>
      vwp (validate Hosted t FT_VALIDATE_DEFAULT n) None
         (\<lambda>fl s. s = None \<and> (\<exists>st. init t fl = Some st \<and> ok t fl st))"
    and index_gmap: "ok t fl st \<Longrightarrow> c < 4294967296 \<Longrightarrow>
      \<exists>g. char_index ng st c = Some g \<and> clip_glyph ng g = clip_glyph ng (gmap t fl c)"
begin

lemma accepted_usable:
  assumes "length t < 4294967296" and "validate env t FT_VALIDATE_DEFAULT n None = VRet fl None"
  obtains st where "init t fl = Some st" "ok t fl st"
proof -
  have "vwp (validate Hosted t FT_VALIDATE_DEFAULT n) None
      (\<lambda>fl s. \<exists>st. init t fl = Some st \<and> ok t fl st)"
    by (rule vwp_mono [OF validate_safe [OF assms(1)]]) blast
  from accepted_post [where v = "\<lambda>e. validate e t FT_VALIDATE_DEFAULT n", OF this validate_agree assms(2)]
  show ?thesis using that by blast
qed

lemma accepted_by_both:
  "validate Hosted t l n None = VRet fl None \<longleftrightarrow> validate Freestanding t l n None = VRet fl None"
  by (rule vagree_iff [OF validate_agree])

lemma hosted_never_faults:
  "length t < 4294967296 \<Longrightarrow> validate Hosted t FT_VALIDATE_DEFAULT n None \<noteq> VFault"
  by (rule vwp_no_fault [OF validate_safe])

end

text \<open>A class whose \<open>char_next\<close> enumerates the map that its \<open>char_index\<close> looks up.\<close>

locale tt_cmap_ordered =
  tt_cmap_class validate init char_index char_next ok gmap + tt_cmap_enum char_next ok gmap lim
  for validate :: "setjmp_env \<Rightarrow> bytes \<Rightarrow> validation_level \<Rightarrow> nat \<Rightarrow> nat validator"
    and init :: "bytes \<Rightarrow> nat \<Rightarrow> 's option"
    and char_index :: "nat \<Rightarrow> 's \<Rightarrow> nat \<Rightarrow> nat option"
    and char_next :: "nat \<Rightarrow> 's \<Rightarrow> nat \<Rightarrow> (nat \<times> nat \<times> 's) option"
    and ok :: "bytes \<Rightarrow> nat \<Rightarrow> 's \<Rightarrow> bool"
    and gmap :: "bytes \<Rightarrow> nat \<Rightarrow> nat \<Rightarrow> nat"
    and lim :: nat

context tt_cmap_class
begin

text \<open>What a client of the class sees of an accepted table, whatever it enumerated before.\<close>

lemma lookup_right:
  assumes "length t < 4294967296" "validate env t FT_VALIDATE_DEFAULT n None = VRet fl None"
    and "\<forall>c \<in> set cs. c < 4294967296" "c < 4294967296"
  shows "\<exists>st0 st g. init t fl = Some st0 \<and> run_next char_next ng st0 cs = Some st \<and>
    char_index ng st c = Some g \<and> clip_glyph ng g = clip_glyph ng (gmap t fl c)"
proof -
  obtain st0 where i: "init t fl = Some st0" "ok t fl st0" by (rule accepted_usable [OF assms(1,2)])
  obtain st where r: "run_next char_next ng st0 cs = Some st" "ok t fl st"
    using run_ok [OF i(2) assms(3)] by blast
  show ?thesis using i(1) r(1) index_gmap [OF r(2) assms(4)] by blast
qed

lemma lookup_and_progress:
  assumes "length t < 4294967296" "validate env t FT_VALIDATE_DEFAULT n None = VRet fl None"
    and "\<forall>c \<in> set cs. c < 4294967296" "c < 4294967295"
  shows "\<exists>st0 st g g' c' st'. init t fl = Some st0 \<and> run_next char_next ng st0 cs = Some st \<and>
    char_index ng st c = Some g \<and> clip_glyph ng g = clip_glyph ng (gmap t fl c) \<and>
    char_next ng st c = Some (g', c', st') \<and> (g' \<noteq> 0 \<longrightarrow> c < c')"
proof -
  obtain st0 where i: "init t fl = Some st0" "ok t fl st0" by (rule accepted_usable [OF assms(1,2)])
  obtain st where r: "run_next char_next ng st0 cs = Some st" "ok t fl st"
    using run_ok [OF i(2) assms(3)] by blast
  have c: "c < 4294967296" using assms(4) by simp
  obtain g' c' st' where n: "char_next ng st c = Some (g', c', st')" "g' \<noteq> 0 \<longrightarrow> c < c'"
    using next_total [OF r(2) c] assms(4) by blast
  show ?thesis using i(1) r(1) index_gmap [OF r(2) c] n by blast
qed

end

context tt_cmap_ordered
begin

lemma lookup_and_enumeration:
  assumes "length t < 4294967296" "validate env t FT_VALIDATE_DEFAULT n None = VRet fl None"
    and "\<forall>c \<in> set cs. c < 4294967296" "c < 4294967295"
  shows "\<exists>st0 st g g' c' st'. init t fl = Some st0 \<and> run_next char_next ng st0 cs = Some st \<and>
    char_index ng st c = Some g \<and> clip_glyph ng g = clip_glyph ng (gmap t fl c) \<and>
    char_next ng st c = Some (g', c', st') \<and> next_char_ok lim ng (gmap t fl) c (g', c')"
proof -
  obtain st0 where i: "init t fl = Some st0" "ok t fl st0" by (rule accepted_usable [OF assms(1,2)])
  obtain st where r: "run_next char_next ng st0 cs = Some st" "ok t fl st"
    using run_ok [OF i(2) assms(3)] by blast
  have c: "c < 4294967296" using assms(4) by simp
  obtain g where g: "char_index ng st c = Some g" "clip_glyph ng g = clip_glyph ng (gmap t fl c)"
    using index_gmap [OF r(2) c] by blast
  obtain g' c' st' where n: "char_next ng st c = Some (g', c', st')" using next_total [OF r(2) c] by blast
  show ?thesis using i(1) r(1) g n next_least [OF r(2) assms(4) n] by blast
qed

end

end
