(* ===== verification/Tt_CMap0.thy ===== *)
theory Tt_CMap0
  imports Tt_CMap
begin

text \<open>
  Format 0 of \<open>src/sfnt/ttcmap.c\<close>: a byte array of 256 glyph indices at offset 6. Pointers
  into the sub-table are offsets from its first byte.
\<close>

text \<open>\<open>tt_cmap_init\<close>, shared by the formats that keep no state of their own.\<close>

definition tt_cmap_init :: "bytes \<Rightarrow> nat \<Rightarrow> bytes option" where
  "tt_cmap_init table fl = Some table"

fun tt_cmap0_check_ids :: "setjmp_env \<Rightarrow> bytes \<Rightarrow> nat \<Rightarrow> nat \<Rightarrow> nat \<Rightarrow> unit validator" where
  "tt_cmap0_check_ids env t num_glyphs p 0 = vret ()"
| "tt_cmap0_check_ids env t num_glyphs p (Suc n) =
     vbind (vload (peek_byte t p)) (\<lambda>idx.
     vbind (vcheck env (idx \<ge> num_glyphs) Invalid_Glyph_Index) (\<lambda>_.
     tt_cmap0_check_ids env t num_glyphs (p + 1) n))"

definition tt_cmap0_validate ::
    "setjmp_env \<Rightarrow> bytes \<Rightarrow> validation_level \<Rightarrow> nat \<Rightarrow> nat validator" where
  "tt_cmap0_validate env t level num_glyphs =
     vbind (vcheck env (2 + 2 > length t) Invalid_Table) (\<lambda>_.
     vbind (vload (peek_ushort t 2)) (\<lambda>len.
     vbind (vcheck env (len > length t \<or> len < 262) Invalid_Table) (\<lambda>_.
     vbind (if at_least_tight level then tt_cmap0_check_ids env t num_glyphs 6 256 else vret ()) (\<lambda>_.
     vret 0))))"

definition tt_cmap0_char_index :: "nat \<Rightarrow> bytes \<Rightarrow> nat \<Rightarrow> nat option" where
  "tt_cmap0_char_index ng table char_code =
     (if char_code < 256 then peek_byte table (6 + char_code) else Some 0)"

text \<open>
  \<open>while ( ++charcode < 256 )\<close>, with the remaining number of codes as the recursion
  argument; the increment of the \<open>FT_UInt32\<close> wraps.
\<close>

fun tt_cmap0_scan :: "bytes \<Rightarrow> nat \<Rightarrow> nat \<Rightarrow> nat \<Rightarrow> (nat \<times> nat) option" where
  "tt_cmap0_scan table 0 charcode gindex = Some (gindex, 0)"
| "tt_cmap0_scan table (Suc k) charcode gindex =
     (if charcode < 256 then do {
        gindex \<leftarrow> peek_byte table (6 + charcode);
        if gindex \<noteq> 0 then Some (gindex, charcode)
        else tt_cmap0_scan table k (charcode + 1) gindex
      } else Some (gindex, 0))"

definition tt_cmap0_char_next :: "nat \<Rightarrow> bytes \<Rightarrow> nat \<Rightarrow> (nat \<times> nat \<times> bytes) option" where
  "tt_cmap0_char_next ng table code = do {
     let charcode = add32 code 1;
     (gindex, result) \<leftarrow> tt_cmap0_scan table (257 - charcode) charcode 0;
     Some (gindex, result, table)
   }"

record TT_CMapInfo =
  info_format :: nat
  info_language :: nat

definition tt_cmap0_get_info :: "bytes \<Rightarrow> TT_CMapInfo option" where
  "tt_cmap0_get_info table = do {
     language \<leftarrow> peek_ushort table 4;
     Some \<lparr>info_format = 0, info_language = language\<rparr>
   }"

section \<open>Correctness\<close>

definition cmap0_ok :: "bytes \<Rightarrow> nat \<Rightarrow> bytes \<Rightarrow> bool" where
  "cmap0_ok t fl st \<longleftrightarrow> st = t \<and> 262 \<le> length t"

definition cmap0_map :: "bytes \<Rightarrow> nat \<Rightarrow> nat \<Rightarrow> nat" where
  "cmap0_map t fl c = (if c < 256 then u8 t (6 + c) else 0)"

lemma cmap0_ids_agree: "vagree (tt_cmap0_check_ids Hosted t g p n) (tt_cmap0_check_ids Freestanding t g p n)"
  by (induction n arbitrary: p) (auto intro!: agree_intros)

lemma cmap0_agree: "vagree (tt_cmap0_validate Hosted t l n) (tt_cmap0_validate Freestanding t l n)"
  unfolding tt_cmap0_validate_def by (intro agree_intros cmap0_ids_agree)

lemma cmap0_ids_safe:
  "p + n \<le> length t \<Longrightarrow> Q () s \<Longrightarrow> vwp (tt_cmap0_check_ids Hosted t g p n) s Q"
  by (induction n arbitrary: p) (simp_all add: vsafe_simps)

lemma cmap0_safe:
  "(\<And>fl. 262 \<le> length t \<Longrightarrow> Q 0 s) \<Longrightarrow> vwp (tt_cmap0_validate Hosted t l n) s Q"
  by (auto simp: tt_cmap0_validate_def vsafe_simps intro!: cmap0_ids_safe)

lemma cmap0_scan:
  assumes "262 \<le> length t" "d + k = 257" "0 < k"
  shows "\<exists>g c'. tt_cmap0_scan t k d 0 = Some (g, c') \<and> c' < 256 \<and> scan_ok 4294967296 (cmap0_map t fl) d (g, c')"
  using assms(2,3)
proof (induction k arbitrary: d)
  case (Suc k)
  show ?case
  proof (cases "d < 256")
    case False
    then show ?thesis by (auto simp: cmap0_map_def intro!: scan_ok_none)
  next
    case True
    then have rd: "peek_byte t (6 + d) = Some (cmap0_map t fl d)"
      using assms(1) by (simp add: cmap0_map_def)
    show ?thesis
    proof (cases "cmap0_map t fl d = 0")
      case False
      then show ?thesis using True rd by (auto intro!: scan_ok_here)
    next
      case z: True
      from True Suc.prems Suc.IH [of "d + 1"] obtain g c' where
        "tt_cmap0_scan t k (d + 1) 0 = Some (g, c')" "c' < 256" "scan_ok 4294967296 (cmap0_map t fl) (d + 1) (g, c')"
        by auto
      then show ?thesis using True rd z
        by (auto intro!: scan_ok_skip [where d' = "Suc d"] simp: less_Suc_eq_le)
    qed
  qed
qed simp

lemma cmap0_next:
  assumes "262 \<le> length t" "c < 4294967296"
  shows "\<exists>g c'. tt_cmap0_char_next ng t c = Some (g, c', t) \<and> c' < 256 \<and>
    (c < 4294967295 \<longrightarrow> next_char_ok 4294967296 ng (cmap0_map t fl) c (g, c'))"
proof (cases "add32 c 1 < 257")
  case True
  with cmap0_scan [OF assms(1), of "add32 c 1" "257 - add32 c 1" fl] obtain g c' where
    "tt_cmap0_scan t (257 - add32 c 1) (add32 c 1) 0 = Some (g, c')" "c' < 256"
    "scan_ok 4294967296 (cmap0_map t fl) (add32 c 1) (g, c')"
    by auto
  moreover have "c < 4294967295 \<Longrightarrow> add32 c 1 = Suc c" by (simp add: add32_small)
  ultimately show ?thesis by (auto simp: tt_cmap0_char_next_def intro!: scan_ok_next)
next
  case False
  then have "257 \<le> Suc c" by (auto simp: add32_def split: if_splits)
  then show ?thesis using False
    by (auto simp: tt_cmap0_char_next_def next_char_ok_def clip_glyph_def cmap0_map_def)
qed

interpretation cmap0: tt_cmap_ordered tt_cmap0_validate tt_cmap_init tt_cmap0_char_index
  tt_cmap0_char_next cmap0_ok cmap0_map 4294967296
proof
  show "vagree (tt_cmap0_validate Hosted t l n) (tt_cmap0_validate Freestanding t l n)" for t l n
    by (rule cmap0_agree)
  show "vwp (tt_cmap0_validate Hosted t FT_VALIDATE_DEFAULT n) None
      (\<lambda>fl s. s = None \<and> (\<exists>st. tt_cmap_init t fl = Some st \<and> cmap0_ok t fl st))" if "length t < 4294967296" for t n
    by (rule cmap0_safe) (simp add: tt_cmap_init_def cmap0_ok_def)
  show "\<exists>g. tt_cmap0_char_index ng st c = Some g \<and> clip_glyph ng g = clip_glyph ng (cmap0_map t fl c)"
    if "cmap0_ok t fl st" "c < 4294967296" for t fl st c ng
    using that by (auto simp: cmap0_ok_def tt_cmap0_char_index_def cmap0_map_def)
  show "\<exists>g c' st'. tt_cmap0_char_next ng st c = Some (g, c', st') \<and> cmap0_ok t fl st' \<and>
      c' < 4294967296 \<and> (g \<noteq> 0 \<longrightarrow> c < 4294967295 \<longrightarrow> c < c')"
    if "cmap0_ok t fl st" "c < 4294967296" for t fl st c ng
    using that cmap0_next [of t c ng fl] by (fastforce simp: cmap0_ok_def next_char_ok_def)
  show "next_char_ok 4294967296 ng (cmap0_map t fl) c (g, c')"
    if "cmap0_ok t fl st" "c < 4294967295" "tt_cmap0_char_next ng st c = Some (g, c', st')"
    for t fl st c g c' st' ng
    using that cmap0_next [of t c ng fl] by (auto simp: cmap0_ok_def)
qed

section \<open>Properties\<close>

text \<open>
  For a table that \<open>validate\<close> accepts (in either \<open>longjmp\<close> semantics), and after any
  sequence of \<open>char_next\<close> calls on the object, \<open>char_index\<close> returns the glyph of the byte array, and
  \<open>char_next\<close> the first larger code that has a usable glyph; neither reads outside the table.
\<close>

theorem tt_cmap0_lookup_and_enumeration:
  assumes "length t < 4294967296" "tt_cmap0_validate env t FT_VALIDATE_DEFAULT n None = VRet fl None"
    and "\<forall>c \<in> set cs. c < 4294967296" "c < 4294967295"
  shows "\<exists>st0 st g g' c' st'. tt_cmap_init t fl = Some st0 \<and>
    run_next tt_cmap0_char_next ng st0 cs = Some st \<and>
    tt_cmap0_char_index ng st c = Some g \<and>
    clip_glyph ng g = clip_glyph ng (cmap0_map t fl c) \<and>
    tt_cmap0_char_next ng st c = Some (g', c', st') \<and>
    next_char_ok 4294967296 ng (cmap0_map t fl) c (g', c')"
  using cmap0.lookup_and_enumeration [OF assms] .

definition table0 :: bytes where
  "table0 = [0, 0, 1, 6, 0, 0] @ replicate 65 0 @ [3, 4] @ replicate 189 0"

lemma table0_reads:
  "length table0 = 262" "u16 table0 2 = 262"
  by (simp_all add: u8_def u16_def u32_def table0_def nth_append)

lemma table0_accepted:
  "tt_cmap0_validate Freestanding table0 FT_VALIDATE_DEFAULT 10 None = VRet 0 None"
  by (simp add: tt_cmap0_validate_def vdefs peek_defs table0_reads )

theorem tt_cmap0_lookup_and_enumeration_witness:
  "\<exists>st0 st g g' c' st'. tt_cmap_init table0 0 = Some st0 \<and>
    run_next tt_cmap0_char_next 10 st0 [64, 65] = Some st \<and>
    tt_cmap0_char_index 10 st 65 = Some g \<and>
    clip_glyph 10 g = clip_glyph 10 (cmap0_map table0 0 65) \<and>
    tt_cmap0_char_next 10 st 65 = Some (g', c', st') \<and>
    next_char_ok 4294967296 10 (cmap0_map table0 0) 65 (g', c')"
  by (rule tt_cmap0_lookup_and_enumeration [OF _ table0_accepted]) (simp_all add: table0_reads)

end
