(* ===== verification/Tt_CMap2.thy ===== *)
theory Tt_CMap2
  imports Tt_CMap0
begin

text \<open>
  Format 2 of \<open>src/sfnt/ttcmap.c\<close>: mixed 8/16-bit codes. 256 keys at offset 6 select, by the
  high byte, one of the sub-headers at 518 (first low byte, number of low bytes, delta, and
  the distance of the slice of glyph indices from the field itself).
\<close>

section \<open>Validation\<close>

fun tt_cmap2_check_keys ::
    "setjmp_env \<Rightarrow> bytes \<Rightarrow> validation_level \<Rightarrow> nat \<Rightarrow> nat \<Rightarrow> nat \<Rightarrow> nat validator" where
  "tt_cmap2_check_keys env t level p max_subs 0 = vret max_subs"
| "tt_cmap2_check_keys env t level p max_subs (Suc n) =
     vbind (vload (peek_ushort t p)) (\<lambda>idx.
     vbind (vcheck env (at_least_paranoid level \<and> idx mod 8 \<noteq> 0) Invalid_Table) (\<lambda>_.
     tt_cmap2_check_keys env t level (p + 2) (if idx div 8 > max_subs then idx div 8 else max_subs) n))"

fun tt_cmap2_check_ids :: "setjmp_env \<Rightarrow> bytes \<Rightarrow> nat \<Rightarrow> int \<Rightarrow> nat \<Rightarrow> nat \<Rightarrow> unit validator" where
  "tt_cmap2_check_ids env t ng delta p 0 = vret ()"
| "tt_cmap2_check_ids env t ng delta p (Suc k) =
     vbind (vload (peek_ushort t p)) (\<lambda>idx.
     vbind (vcheck env (idx \<noteq> 0 \<and> u16_of_int (int idx + delta) \<ge> ng) Invalid_Glyph_Index) (\<lambda>_.
     tt_cmap2_check_ids env t ng delta (p + 2) k))"

text \<open>
  The loop over the sub-headers. At \<open>FT_VALIDATE_TIGHT\<close> the source reads the glyph indices
  through \<open>p\<close>, the pointer to the sub-headers, and so leaves it \<open>2 * code_count\<close> further on.
\<close>

fun tt_cmap2_check_subs ::
    "setjmp_env \<Rightarrow> bytes \<Rightarrow> validation_level \<Rightarrow> nat \<Rightarrow> nat \<Rightarrow> nat \<Rightarrow> nat \<Rightarrow> nat \<Rightarrow> unit validator" where
  "tt_cmap2_check_subs env t level ng len glyph_ids p 0 = vret ()"
| "tt_cmap2_check_subs env t level ng len glyph_ids p (Suc n) =
     vbind (vload (peek_ushort t p)) (\<lambda>first_code.
     vbind (vload (peek_ushort t (p + 2))) (\<lambda>code_count.
     vbind (vload (peek_short t (p + 4))) (\<lambda>delta.
     vbind (vload (peek_ushort t (p + 6))) (\<lambda>offset.
     if code_count = 0 then tt_cmap2_check_subs env t level ng len glyph_ids (p + 8) n
     else
       vbind (vcheck env (at_least_paranoid level \<and>
                (first_code \<ge> 256 \<or> code_count > 256 - first_code)) Invalid_Table) (\<lambda>_.
       if offset \<noteq> 0 then
         vbind (vcheck env (p + 8 - 2 + offset < glyph_ids \<or>
                  p + 8 - 2 + offset + code_count * 2 > len) Invalid_Offset) (\<lambda>_.
         if at_least_tight level then
           vbind (tt_cmap2_check_ids env t ng delta (p + 8) code_count) (\<lambda>_.
           tt_cmap2_check_subs env t level ng len glyph_ids (p + 8 + code_count * 2) n)
         else tt_cmap2_check_subs env t level ng len glyph_ids (p + 8) n)
       else tt_cmap2_check_subs env t level ng len glyph_ids (p + 8) n)))))"

definition tt_cmap2_validate ::
    "setjmp_env \<Rightarrow> bytes \<Rightarrow> validation_level \<Rightarrow> nat \<Rightarrow> nat validator" where
  "tt_cmap2_validate env t level num_glyphs =
     vbind (vcheck env (2 + 2 > length t) Invalid_Table) (\<lambda>_.
     vbind (vload (peek_ushort t 2)) (\<lambda>len.
     vbind (vcheck env (len > length t \<or> len < 6 + 512) Invalid_Table) (\<lambda>_.
     vbind (tt_cmap2_check_keys env t level 6 0 256) (\<lambda>max_subs.
     vbind (vcheck env (518 + (max_subs + 1) * 8 > length t) Invalid_Table) (\<lambda>_.
     vbind (tt_cmap2_check_subs env t level num_glyphs len (518 + (max_subs + 1) * 8) 518 (max_subs + 1)) (\<lambda>_.
     vret 0))))))"

section \<open>Lookup and enumeration\<close>

text \<open>The offset of the sub-header, or \<open>None\<close> inside for \<open>NULL\<close>.\<close>

definition tt_cmap2_get_subheader :: "bytes \<Rightarrow> nat \<Rightarrow> nat option option" where
  "tt_cmap2_get_subheader table char_code =
     (if char_code < 65536 then
        if char_code div 256 = 0 then do {
          key \<leftarrow> peek_ushort table (6 + char_code mod 256 * 2);
          Some (if key \<noteq> 0 then None else Some 518)
        } else do {
          key \<leftarrow> peek_ushort table (6 + char_code div 256 * 2);
          let sub = 518 + pad_floor key 8;
          Some (if sub = 518 then None else Some sub)
        }
      else Some None)"

definition tt_cmap2_char_index :: "nat \<Rightarrow> bytes \<Rightarrow> nat \<Rightarrow> nat option" where
  "tt_cmap2_char_index ng table char_code = do {
     subheader \<leftarrow> tt_cmap2_get_subheader table char_code;
     case subheader of
       None \<Rightarrow> Some 0
     | Some p \<Rightarrow> do {
         start \<leftarrow> peek_ushort table p;
         count \<leftarrow> peek_ushort table (p + 2);
         delta \<leftarrow> peek_short table (p + 4);
         offset \<leftarrow> peek_ushort table (p + 6);
         let idx = sub32 (char_code mod 256) start;
         if idx < count \<and> offset \<noteq> 0 then do {
           idx \<leftarrow> peek_ushort table (p + 6 + (offset + 2 * idx));
           Some (if idx \<noteq> 0 then u16_of_int (int idx + delta) else 0)
         } else Some 0
       }
   }"

text \<open>The inner loop over \<open>k = count - pos\<close> entries: the glyph found if any, and \<open>charcode\<close>.\<close>

fun tt_cmap2_scan :: "bytes \<Rightarrow> int \<Rightarrow> nat \<Rightarrow> nat \<Rightarrow> nat \<Rightarrow> (nat \<times> nat) option" where
  "tt_cmap2_scan table delta 0 p charcode = Some (0, charcode)"
| "tt_cmap2_scan table delta (Suc k) p charcode = do {
     idx \<leftarrow> peek_ushort table p;
     let gindex = (if idx \<noteq> 0 then u16_of_int (int idx + delta) else 0);
     if gindex \<noteq> 0 then Some (gindex, charcode)
     else tt_cmap2_scan table delta k (p + 2) (charcode + 1)
   }"

definition tt_cmap2_next_subheader :: "nat \<Rightarrow> nat" where
  "tt_cmap2_next_subheader charcode =
     (if charcode \<le> 255 then charcode + 1 else pad_floor charcode 256 + 256)"

text \<open>
  The outer loop; its value is \<open>gindex\<close> and \<open>result\<close>. Nothing in its shape bounds the number
  of iterations, so it is a partial function.
\<close>

partial_function (option) tt_cmap2_next_loop :: "bytes \<Rightarrow> nat \<Rightarrow> (nat \<times> nat) option" where
  "tt_cmap2_next_loop table charcode =
     (if charcode < 65536 then do {
        subheader \<leftarrow> tt_cmap2_get_subheader table charcode;
        case subheader of
          None \<Rightarrow> tt_cmap2_next_loop table (tt_cmap2_next_subheader charcode)
        | Some p \<Rightarrow> do {
            start \<leftarrow> peek_ushort table p;
            count \<leftarrow> peek_ushort table (p + 2);
            delta \<leftarrow> peek_short table (p + 4);
            offset \<leftarrow> peek_ushort table (p + 6);
            let char_lo = charcode mod 256;
            if char_lo \<ge> start + count \<and> charcode \<le> 255 then tt_cmap2_next_loop table 256
            else if offset = 0 then
              if charcode = 256 then Some (0, 0)
              else tt_cmap2_next_loop table (tt_cmap2_next_subheader charcode)
            else do {
              let pos = (if char_lo < start then 0 else char_lo - start);
              let char_lo = (if char_lo < start then start else char_lo);
              (gindex, charcode) \<leftarrow> tt_cmap2_scan table delta (count - pos)
                 (p + 6 + (offset + pos * 2)) (pad_floor charcode 256 + char_lo);
              if gindex \<noteq> 0 then Some (gindex, charcode)
              else tt_cmap2_next_loop table
                     (tt_cmap2_next_subheader (if count \<noteq> 0 then charcode - 1 else charcode))
            }
          }
      } else Some (0, 0))"

definition tt_cmap2_char_next :: "nat \<Rightarrow> bytes \<Rightarrow> nat \<Rightarrow> (nat \<times> nat \<times> bytes) option" where
  "tt_cmap2_char_next ng table code = do {
     (gindex, result) \<leftarrow> tt_cmap2_next_loop table (add32 code 1);
     Some (gindex, result, table)
   }"

definition tt_cmap2_get_info :: "bytes \<Rightarrow> TT_CMapInfo option" where
  "tt_cmap2_get_info table = do {
     language \<leftarrow> peek_ushort table 4;
     Some \<lparr>info_format = 2, info_language = language\<rparr>
   }"

section \<open>The validator\<close>

text \<open>A sub-header at \<open>p\<close> that is not empty has its slice inside the table.\<close>

definition sub_ok :: "bytes \<Rightarrow> nat \<Rightarrow> bool" where
  "sub_ok t p \<longleftrightarrow> p + 8 \<le> length t \<and>
     (u16 t (p + 2) \<noteq> 0 \<and> u16 t (p + 6) \<noteq> 0 \<longrightarrow>
        p + 6 + u16 t (p + 6) + 2 * u16 t (p + 2) \<le> length t)"

definition cmap2_ok :: "bytes \<Rightarrow> nat \<Rightarrow> bytes \<Rightarrow> bool" where
  "cmap2_ok t fl st \<longleftrightarrow> st = t \<and> 518 \<le> length t \<and>
     (\<forall>h < 256. sub_ok t (518 + 8 * (u16 t (6 + 2 * h) div 8))) \<and> sub_ok t 518"

lemma cmap2_keys_agree:
  "vagree (tt_cmap2_check_keys Hosted t l p m k) (tt_cmap2_check_keys Freestanding t l p m k)"
  by (induction k arbitrary: p m) (auto intro!: agree_intros)

lemma cmap2_ids_agree:
  "vagree (tt_cmap2_check_ids Hosted t g d p k) (tt_cmap2_check_ids Freestanding t g d p k)"
  by (induction k arbitrary: p) (auto intro!: agree_intros)

lemma cmap2_subs_agree:
  "vagree (tt_cmap2_check_subs Hosted t l g len gi p k) (tt_cmap2_check_subs Freestanding t l g len gi p k)"
  by (induction k arbitrary: p) (auto intro!: agree_intros cmap2_ids_agree)

lemma cmap2_agree: "vagree (tt_cmap2_validate Hosted t l n) (tt_cmap2_validate Freestanding t l n)"
  unfolding tt_cmap2_validate_def by (intro agree_intros cmap2_subs_agree cmap2_keys_agree)

lemma cmap2_keys_safe:
  assumes "p + 2 * k \<le> length t"
    and "\<And>m'. m \<le> m' \<Longrightarrow> \<forall>i < k. u16 t (p + 2 * i) div 8 \<le> m' \<Longrightarrow> Q m' s"
  shows "vwp (tt_cmap2_check_keys Hosted t l p m k) s Q"
  using assms
proof (induction k arbitrary: p m)
  case (Suc k)
  let ?m = "if u16 t p div 8 > m then u16 t p div 8 else m"
  have "vwp (tt_cmap2_check_keys Hosted t l (p + 2) ?m k) s Q"
  proof (rule Suc.IH)
    fix m' assume "?m \<le> m'" "\<forall>i < k. u16 t (p + 2 + 2 * i) div 8 \<le> m'"
    then show "Q m' s"
      by (intro Suc.prems(2)) (auto simp: less_Suc_eq_0_disj split: if_splits)
  qed (use Suc.prems(1) in simp)
  then show ?case using Suc.prems(1) by (simp add: vsafe_simps)
qed (simp add: vsafe_simps)

lemma cmap2_subs_safe:
  assumes "p + 8 * k \<le> length t" "len \<le> length t"
    and "\<forall>i < k. sub_ok t (p + 8 * i) \<Longrightarrow> Q () s"
  shows "vwp (tt_cmap2_check_subs Hosted t FT_VALIDATE_DEFAULT g len gi p k) s Q"
  using assms(1,3)
proof (induction k arbitrary: p)
  case (Suc k)
  have "vwp (tt_cmap2_check_subs Hosted t FT_VALIDATE_DEFAULT g len gi (p + 8) k) s Q" if "sub_ok t p"
  proof (rule Suc.IH)
    assume "\<forall>i < k. sub_ok t (p + 8 + 8 * i)"
    then show "Q () s" using that
      by (intro Suc.prems(2)) (auto simp: less_Suc_eq_0_disj ac_simps)
  qed (use Suc.prems(1) in simp)
  then show ?case using Suc.prems(1) assms(2) by (auto simp: vsafe_simps sub_ok_def)
qed (simp add: vsafe_simps)

lemma cmap2_safe:
  assumes "cmap2_ok t 0 t \<Longrightarrow> Q 0 s"
  shows "vwp (tt_cmap2_validate Hosted t FT_VALIDATE_DEFAULT n) s Q"
proof -
  have "cmap2_ok t 0 t" if "518 \<le> length t" "\<forall>i < 256. u16 t (6 + 2 * i) div 8 \<le> m"
    "\<forall>i < m + 1. sub_ok t (518 + 8 * i)" for m
    using that that(3) [rule_format, of 0] by (auto simp: cmap2_ok_def less_Suc_eq_le)
  then show ?thesis using assms
    by (auto simp: tt_cmap2_validate_def vsafe_simps not_less not_le
        simp del: tt_cmap2_check_subs.simps tt_cmap2_check_keys.simps
        intro!: cmap2_keys_safe cmap2_subs_safe)
qed

section \<open>Safety and termination of the lookups\<close>

lemma sub_ok_reads:
  assumes "sub_ok t p"
  shows "peek_ushort t p = Some (u16 t p)" "peek_ushort t (p + 2) = Some (u16 t (p + 2))"
    "peek_short t (p + 4) = Some (s16 t (p + 4))" "peek_ushort t (p + 6) = Some (u16 t (p + 6))"
  using assms by (simp_all add: sub_ok_def)

text \<open>The offset of the sub-header of a code: that of the format for one-byte or two-byte codes.\<close>

definition sub_header2 :: "bytes \<Rightarrow> nat \<Rightarrow> nat option" where
  "sub_header2 t c =
     (if c < 256 then (if u16 t (6 + 2 * c) = 0 then Some 518 else None)
      else if c < 65536 then
        (let k = u16 t (6 + 2 * (c div 256)) div 8 in if k = 0 then None else Some (518 + 8 * k))
      else None)"

definition cmap2_map :: "bytes \<Rightarrow> nat \<Rightarrow> nat \<Rightarrow> nat" where
  "cmap2_map t fl c =
     (case sub_header2 t c of
        None \<Rightarrow> 0
      | Some p \<Rightarrow>
          if u16 t p \<le> c mod 256 \<and> c mod 256 - u16 t p < u16 t (p + 2) \<and> u16 t (p + 6) \<noteq> 0 then
            (let g = u16 t (p + 6 + (u16 t (p + 6) + 2 * (c mod 256 - u16 t p)))
             in if g \<noteq> 0 then u16_of_int (int g + s16 t (p + 4)) else 0)
          else 0)"

lemma subheader_eq:
  assumes "cmap2_ok t fl t"
  shows "tt_cmap2_get_subheader t c = Some (sub_header2 t c)"
    "case sub_header2 t c of None \<Rightarrow> True | Some p \<Rightarrow> sub_ok t p"
proof -
  have "tt_cmap2_get_subheader t c = Some (sub_header2 t c) \<and>
    (case sub_header2 t c of None \<Rightarrow> True | Some p \<Rightarrow> sub_ok t p)"
  proof (cases "c < 65536")
    case True
    have pf: "pad_floor k 8 = 8 * (k div 8)" for k
      by (simp add: pad_floor_def minus_mod_eq_mult_div)
    have s: "sub_ok t 518" "sub_ok t (518 + 8 * (u16 t (6 + 2 * (c div 256)) div 8))"
      using assms True by (auto simp: cmap2_ok_def less_mult_imp_div_less)
    have "c div 256 < 256" "c mod 256 < 256" using True by (auto simp: less_mult_imp_div_less)
    then have "6 + c div 256 * 2 + 2 \<le> length t" "6 + c mod 256 * 2 + 2 \<le> length t"
      using assms unfolding cmap2_ok_def by linarith+
    note rd = peek_ushort_ok [OF this(1)] peek_ushort_ok [OF this(2)]
    have "c div 256 = 0 \<longleftrightarrow> c < 256" by (simp add: div_eq_0_iff)
    then show ?thesis using True s unfolding tt_cmap2_get_subheader_def rd bind.bind_lunit pf
      by (auto simp: mult.commute [of 2] sub_header2_def Let_def)
  qed (simp add: tt_cmap2_get_subheader_def sub_header2_def)
  then show "tt_cmap2_get_subheader t c = Some (sub_header2 t c)"
    "case sub_header2 t c of None \<Rightarrow> True | Some p \<Rightarrow> sub_ok t p" by simp_all
qed

lemma cmap2_index:
  assumes "cmap2_ok t fl t" "c < 4294967296"
  shows "tt_cmap2_char_index ng t c = Some (cmap2_map t fl c)"
proof -
  obtain r where r: "tt_cmap2_get_subheader t c = Some r" "case r of None \<Rightarrow> True | Some p \<Rightarrow> sub_ok t p"
    and r': "sub_header2 t c = r"
    using subheader_eq [OF assms(1), of c] by blast
  show ?thesis
  proof (cases r)
    case None
    then show ?thesis using r by (simp add: tt_cmap2_char_index_def cmap2_map_def r')
  next
    case (Some p)
    note rd = sub_ok_reads [OF r(2) [unfolded Some option.case]]
    have b: "u16 t p < 65536" "u16 t (p + 2) < 65536" "c mod 256 < 256" by simp_all
    show ?thesis
    proof (cases "u16 t p \<le> c mod 256")
      case True
      have i: "sub32 (c mod 256) (u16 t p) = c mod 256 - u16 t p"
        using True b by (intro sub32_le) linarith+
      have "peek_ushort t (p + 6 + (u16 t (p + 6) + 2 * (c mod 256 - u16 t p))) =
          Some (u16 t (p + 6 + (u16 t (p + 6) + 2 * (c mod 256 - u16 t p))))"
        if "c mod 256 - u16 t p < u16 t (p + 2)" "u16 t (p + 6) \<noteq> 0"
      proof (rule peek_ushort_ok)
        have "p + 6 + u16 t (p + 6) + 2 * u16 t (p + 2) \<le> length t"
          using r(2) Some that by (auto simp: sub_ok_def)
        then show "p + 6 + (u16 t (p + 6) + 2 * (c mod 256 - u16 t p)) + 2 \<le> length t"
          using that(1) by linarith
      qed
      then show ?thesis using r(1) Some True i
        by (simp add: tt_cmap2_char_index_def cmap2_map_def r' rd Let_def del: add_2_eq_Suc')
    next
      case False
      then have "sub32 (c mod 256) (u16 t p) = c mod 256 + 4294967296 - u16 t p"
        using b by (intro sub32_gt) linarith+
      then have "\<not> sub32 (c mod 256) (u16 t p) < u16 t (p + 2)" using b by linarith
      then show ?thesis using r(1) Some False
        by (simp add: tt_cmap2_char_index_def cmap2_map_def r' rd del: add_2_eq_Suc')
    qed
  qed
qed

lemma cmap2_scan_total:
  "p + 2 * k \<le> length t \<Longrightarrow>
   \<exists>g c'. tt_cmap2_scan t d k p c = Some (g, c') \<and> c \<le> c' \<and> c' \<le> c + k \<and> (g = 0 \<longrightarrow> c' = c + k)"
proof (induction k arbitrary: p c)
  case (Suc k)
  obtain g c' where "tt_cmap2_scan t d k (p + 2) (c + 1) = Some (g, c')" "c + 1 \<le> c'" "c' \<le> c + 1 + k"
    "g = 0 \<longrightarrow> c' = c + 1 + k"
    using Suc.IH [of "p + 2" "c + 1"] Suc.prems by auto
  then show ?case using Suc.prems by (simp add: Let_def)
qed simp

lemma pad_floor_256_gt: "c < pad_floor c 256 + 256"
  by (rule pad_floor_gt) simp

lemma next_subheader_gt: "c < tt_cmap2_next_subheader c"
  using pad_floor_256_gt [of c] by (simp add: tt_cmap2_next_subheader_def)

lemma next_subheader_pred_gt:
  assumes "c \<le> e" "c \<le> 255 \<longrightarrow> c < e"
    and "e = c \<longrightarrow> c mod 256 \<noteq> 0"
  shows "c < tt_cmap2_next_subheader (e - 1)"
proof (cases "e = c")
  case True
  then have "c mod 256 \<noteq> 0" "256 \<le> c" using assms by auto
  have "pad_floor (c - 1) 256 = pad_floor c 256"
  proof -
    have "(c - 1) div 256 = c div 256" using \<open>c mod 256 \<noteq> 0\<close>
      by (metis One_nat_def Suc_pred div_Suc mod_Suc mod_0 gr0I)
    then show ?thesis by (simp add: pad_floor_def minus_mod_eq_mult_div)
  qed
  moreover have "256 \<le> c - 1"
  proof -
    have "c \<noteq> 256" using \<open>c mod 256 \<noteq> 0\<close> by auto
    then show ?thesis using \<open>256 \<le> c\<close> by linarith
  qed
  ultimately show ?thesis using True pad_floor_256_gt [of c] by (simp add: tt_cmap2_next_subheader_def)
next
  case False
  then have "c \<le> e - 1" using assms(1) by linarith
  then show ?thesis using next_subheader_gt [of "e - 1"] by linarith
qed

lemma cmap2_loop_total:
  assumes ok: "cmap2_ok t fl t"
  shows "\<exists>g c'. tt_cmap2_next_loop t c = Some (g, c') \<and> c' < 4294967295 \<and> (g \<noteq> 0 \<longrightarrow> c \<le> c')"
proof (induction "65536 - c" arbitrary: c rule: less_induct)
  case less
  show ?case
  proof (cases "c < 65536")
    case False
    then show ?thesis by (simp add: tt_cmap2_next_loop.simps)
  next
    case True
    have nxt: "\<exists>g c'. tt_cmap2_next_loop t e = Some (g, c') \<and> c' < 4294967295 \<and> (g \<noteq> 0 \<longrightarrow> c \<le> c')"
      if "c < e" for e
    proof -
      have "65536 - e < 65536 - c" using True that by linarith
      from less [OF this] show ?thesis using that by (metis less_imp_le order_trans)
    qed
    obtain r where r: "tt_cmap2_get_subheader t c = Some r" "case r of None \<Rightarrow> True | Some p \<Rightarrow> sub_ok t p"
      using subheader_eq [OF ok] by blast
    show ?thesis
    proof (cases r)
      case None
      then show ?thesis using r(1) True nxt [OF next_subheader_gt]
        by (subst tt_cmap2_next_loop.simps) simp
    next
      case (Some p)
      note rd = sub_ok_reads [OF r(2) [unfolded Some option.case]]
      define start where "start = u16 t p"
      define count where "count = u16 t (p + 2)"
      define offset where "offset = u16 t (p + 6)"
      define lo where "lo = c mod 256"
      have b: "start < 65536" "count < 65536" "lo < 256" by (simp_all add: start_def count_def lo_def)
      have c: "c = pad_floor c 256 + lo" by (simp add: pad_floor_def lo_def)
      consider (bad) "start + count \<le> lo" "c \<le> 255"
        | (none) "\<not> (start + count \<le> lo \<and> c \<le> 255)" "offset = 0"
        | (scan) "\<not> (start + count \<le> lo \<and> c \<le> 255)" "offset \<noteq> 0" by blast
      then show ?thesis
      proof cases
        case bad
        then show ?thesis using r(1) True Some nxt [of 256]
          by (subst tt_cmap2_next_loop.simps)
            (simp add: rd del: add_2_eq_Suc' flip: start_def count_def lo_def)
      next
        case none
        then show ?thesis using r(1) True Some nxt [OF next_subheader_gt]
          by (subst tt_cmap2_next_loop.simps)
            (auto simp: rd simp del: add_2_eq_Suc' simp flip: start_def count_def lo_def offset_def)
      next
        case scan
        define pos where "pos = (if lo < start then 0 else lo - start)"
        define lo' where "lo' = (if lo < start then start else lo)"
        define e where "e = pad_floor c 256 + lo'"
        have e: "c \<le> e" "e < 4294967295 - 65536"
          using c b True by (auto simp: e_def lo'_def)
        have run: "tt_cmap2_next_loop t c = do {
            (gindex, charcode) \<leftarrow> tt_cmap2_scan t (s16 t (p + 4)) (count - pos) (p + 6 + (offset + pos * 2)) e;
            if gindex \<noteq> 0 then Some (gindex, charcode)
            else tt_cmap2_next_loop t
                   (tt_cmap2_next_subheader (if count \<noteq> 0 then charcode - 1 else charcode)) }"
          using r(1) True Some scan
          by (subst tt_cmap2_next_loop.simps)
            (auto simp: rd Let_def e_def lo'_def pos_def simp del: add_2_eq_Suc' simp flip: start_def count_def lo_def offset_def)
        have rng: "p + 6 + (offset + pos * 2) + 2 * (count - pos) \<le> length t" if "pos < count"
        proof -
          have "p + 6 + offset + 2 * count \<le> length t"
            using r(2) Some scan(2) that by (auto simp: sub_ok_def count_def offset_def)
          then show ?thesis using that by linarith
        qed
        obtain g c' where s:
          "tt_cmap2_scan t (s16 t (p + 4)) (count - pos) (p + 6 + (offset + pos * 2)) e = Some (g, c')"
          "e \<le> c'" "c' \<le> e + (count - pos)" "g = 0 \<longrightarrow> c' = e + (count - pos)"
        proof (cases "pos < count")
          case True
          from cmap2_scan_total [OF rng [OF True]] show ?thesis using that by blast
        next
          case False
          then show ?thesis by (intro that [of 0 e]) simp_all
        qed
        show ?thesis
        proof (cases "g = 0")
          case False
          then have "tt_cmap2_next_loop t c = Some (g, c')" using run s(1) by simp
          moreover have "c' < 4294967295" "c \<le> c'" using s(2,3) e b(2) by linarith+
          ultimately show ?thesis by blast
        next
          case g: True
          have "c < tt_cmap2_next_subheader (c' - 1)" if "count \<noteq> 0"
          proof (rule next_subheader_pred_gt)
            show "c \<le> c'" using s(2) e(1) by simp
            show "c \<le> 255 \<longrightarrow> c < c'"
            proof
              assume "c \<le> 255"
              then have "lo < start + count" using scan(1) by simp
              then have "pos < count" using that by (auto simp: pos_def)
              then show "c < c'" using s(4) g e(1) by simp
            qed
            show "c' = c \<longrightarrow> c mod 256 \<noteq> 0"
            proof (intro impI notI)
              assume "c' = c" "c mod 256 = 0"
              then have "pos = 0" by (simp add: pos_def lo_def)
              then show False using s(4) g e(1) that \<open>c' = c\<close> by simp
            qed
          qed
          moreover have "c < tt_cmap2_next_subheader c'"
            using next_subheader_gt [of c'] s(2) e(1) by linarith
          ultimately show ?thesis using run s(1) g nxt
            by (cases "count = 0") simp_all
        qed
      qed
    qed
  qed
qed

lemma cmap2_next_total:
  assumes "cmap2_ok t fl t" "c < 4294967296"
  shows "\<exists>g c'. tt_cmap2_char_next ng t c = Some (g, c', t) \<and> c' < 4294967295 \<and>
    (g \<noteq> 0 \<longrightarrow> c < 4294967295 \<longrightarrow> c < c')"
proof -
  obtain g c' where "tt_cmap2_next_loop t (add32 c 1) = Some (g, c')" "c' < 4294967295"
    "g \<noteq> 0 \<longrightarrow> add32 c 1 \<le> c'"
    using cmap2_loop_total [OF assms(1), of "add32 c 1"] by blast
  moreover have "add32 c 1 = Suc c" if "c < 4294967295" using that by (simp add: add32_small)
  ultimately show ?thesis by (auto simp: tt_cmap2_char_next_def)
qed

interpretation cmap2: tt_cmap_class tt_cmap2_validate tt_cmap_init tt_cmap2_char_index
  tt_cmap2_char_next cmap2_ok cmap2_map
proof
  show "vagree (tt_cmap2_validate Hosted t l n) (tt_cmap2_validate Freestanding t l n)" for t l n
    by (rule cmap2_agree)
  show "vwp (tt_cmap2_validate Hosted t FT_VALIDATE_DEFAULT n) None
      (\<lambda>fl s. s = None \<and> (\<exists>st. tt_cmap_init t fl = Some st \<and> cmap2_ok t fl st))"
    if "length t < 4294967296" for t n
    by (rule cmap2_safe) (simp add: tt_cmap_init_def)
  show "\<exists>g. tt_cmap2_char_index ng st c = Some g \<and> clip_glyph ng g = clip_glyph ng (cmap2_map t fl c)"
    if "cmap2_ok t fl st" "c < 4294967296" for t fl st c ng
    using that cmap2_index [of t fl c ng] by (auto simp: cmap2_ok_def)
  show "\<exists>g c' st'. tt_cmap2_char_next ng st c = Some (g, c', st') \<and> cmap2_ok t fl st' \<and>
      c' < 4294967296 \<and> (g \<noteq> 0 \<longrightarrow> c < 4294967295 \<longrightarrow> c < c')"
    if "cmap2_ok t fl st" "c < 4294967296" for t fl st c ng
    using that cmap2_next_total [of t fl c ng] by (fastforce simp: cmap2_ok_def)
qed

section \<open>Properties\<close>

text \<open>
  For a table that \<open>validate\<close> accepts (in either \<open>longjmp\<close> semantics), and after any
  sequence of \<open>char_next\<close> calls, \<open>char_index\<close> returns the glyph of the slice of the sub-header that
  the high byte selects; \<open>char_next\<close> ends, with 0 or a larger code; neither reads outside the table.
\<close>

theorem tt_cmap2_lookup:
  assumes "length t < 4294967296" "tt_cmap2_validate env t FT_VALIDATE_DEFAULT n None = VRet fl None"
    and "\<forall>c \<in> set cs. c < 4294967296" "c < 4294967295"
  shows "\<exists>st0 st g g' c' st'. tt_cmap_init t fl = Some st0 \<and>
    run_next tt_cmap2_char_next ng st0 cs = Some st \<and>
    tt_cmap2_char_index ng st c = Some g \<and>
    clip_glyph ng g = clip_glyph ng (cmap2_map t fl c) \<and>
    tt_cmap2_char_next ng st c = Some (g', c', st') \<and> (g' \<noteq> 0 \<longrightarrow> c < c')"
  using cmap2.lookup_and_progress [OF assms] .

definition table2 :: bytes where
  "table2 = [0, 2, 2, 18, 0, 0] @ replicate 512 0 @ [0, 65, 0, 2, 0, 0, 0, 2, 0, 3, 0, 4]"

lemma table2_reads:
  "length table2 = 530" "u16 table2 2 = 530" "u16 table2 518 = 65" "u16 table2 520 = 2"
  "s16 table2 522 = 0" "u16 table2 524 = 2"
  by (simp_all add: u8_def u16_def s16_def table2_def nth_append)

lemma table2_keys: "6 \<le> p \<Longrightarrow> p + 2 * k \<le> 518 \<Longrightarrow>
    tt_cmap2_check_keys env table2 l p 0 k = vret 0"
  by (induction k arbitrary: p)
    (auto simp: vdefs peek_defs table2_reads(1) u8_def u16_def table2_def nth_append fun_eq_iff)

lemma table2_accepted:
  "tt_cmap2_validate Freestanding table2 FT_VALIDATE_DEFAULT 10 None = VRet 0 None"
  by (simp add: tt_cmap2_validate_def table2_keys vdefs peek_defs table2_reads)

theorem tt_cmap2_lookup_witness:
  "\<exists>st0 st g g' c' st'. tt_cmap_init table2 0 = Some st0 \<and>
    run_next tt_cmap2_char_next 10 st0 [64, 65] = Some st \<and>
    tt_cmap2_char_index 10 st 66 = Some g \<and>
    clip_glyph 10 g = clip_glyph 10 (cmap2_map table2 0 66) \<and>
    tt_cmap2_char_next 10 st 66 = Some (g', c', st') \<and> (g' \<noteq> 0 \<longrightarrow> 66 < c')"
  by (rule tt_cmap2_lookup [OF _ table2_accepted]) (simp_all add: table2_reads)

end
