(* ===== verification/Tt_Groups.thy ===== *)
theory Tt_Groups
  imports Tt_CMap0
begin

text \<open>
  The groups of formats 8, 12 and 13: records of three 32-bit words (first code, last code,
  glyph index) in increasing order, \<open>n\<close> of them from offset \<open>b\<close> of the sub-table on. The
  locale \<open>sorted_ranges\<close> is what the validators promise about them and the searches rely on.
\<close>

definition grp_start :: "bytes \<Rightarrow> nat \<Rightarrow> nat \<Rightarrow> nat" where
  "grp_start t b i = u32 t (b + 12 * i)"

definition grp_end :: "bytes \<Rightarrow> nat \<Rightarrow> nat \<Rightarrow> nat" where
  "grp_end t b i = u32 t (b + 12 * i + 4)"

definition grp_id :: "bytes \<Rightarrow> nat \<Rightarrow> nat \<Rightarrow> nat" where
  "grp_id t b i = u32 t (b + 12 * i + 8)"

lemma grp_lt [simp]: "grp_start t b i < 4294967296" "grp_end t b i < 4294967296"
  "grp_id t b i < 4294967296"
  by (simp_all add: grp_start_def grp_end_def grp_id_def)

section \<open>Sorted, disjoint ranges\<close>

definition range_of :: "(nat \<Rightarrow> nat) \<Rightarrow> (nat \<Rightarrow> nat) \<Rightarrow> nat \<Rightarrow> nat \<Rightarrow> nat option" where
  "range_of lo hi n c = find (\<lambda>i. lo i \<le> c \<and> c \<le> hi i) [0..<n]"

lemma range_of_None: "range_of lo hi n c = None \<longleftrightarrow> (\<forall>i < n. \<not> (lo i \<le> c \<and> c \<le> hi i))"
  by (auto simp: range_of_def find_None_iff)

lemma range_of_SomeD:
  "range_of lo hi n c = Some i \<Longrightarrow> i < n \<and> lo i \<le> c \<and> c \<le> hi i"
  by (auto simp: range_of_def find_Some_iff)

locale sorted_ranges =
  fixes lo hi :: "nat \<Rightarrow> nat" and n :: nat
  assumes range: "i < n \<Longrightarrow> lo i \<le> hi i"
    and gap: "Suc i < n \<Longrightarrow> hi i < lo (Suc i)"
begin

lemma hi_less_lo: "i < j \<Longrightarrow> j < n \<Longrightarrow> hi i < lo j"
proof (induction j)
  case (Suc j)
  show ?case
  proof (cases "i = j")
    case True
    then show ?thesis using gap Suc.prems by simp
  next
    case False
    then have "hi i < lo j" using Suc by simp
    also have "\<dots> \<le> hi j" using range Suc.prems by simp
    also have "\<dots> < lo (Suc j)" using gap Suc.prems by simp
    finally show ?thesis .
  qed
qed simp

lemma lo_mono: "i \<le> j \<Longrightarrow> j < n \<Longrightarrow> lo i \<le> lo j"
  using hi_less_lo range [of i] by (cases "i = j") (fastforce simp: le_less)+

lemma hi_mono: "i \<le> j \<Longrightarrow> j < n \<Longrightarrow> hi i \<le> hi j"
  using hi_less_lo range [of j] by (cases "i = j") (fastforce simp: le_less)+

lemma before_lo: "c < lo m \<Longrightarrow> m \<le> i \<Longrightarrow> i < n \<Longrightarrow> c < lo i"
  using lo_mono [of m i] by simp

lemma after_hi: "hi m < c \<Longrightarrow> i \<le> m \<Longrightarrow> m < n \<Longrightarrow> hi i < c"
  using hi_mono [of i m] by simp

lemma unique: "i < n \<Longrightarrow> j < n \<Longrightarrow> lo i \<le> c \<Longrightarrow> c \<le> hi i \<Longrightarrow> lo j \<le> c \<Longrightarrow> c \<le> hi j \<Longrightarrow> i = j"
  using hi_less_lo [of i j] hi_less_lo [of j i] by (cases i j rule: linorder_cases) auto

lemma range_of_eq:
  assumes "i < n" "lo i \<le> c" "c \<le> hi i"
  shows "range_of lo hi n c = Some i"
proof (cases "range_of lo hi n c")
  case None
  then show ?thesis using assms by (auto simp: range_of_None)
next
  case (Some j)
  then show ?thesis using assms unique range_of_SomeD by metis
qed

lemma range_of_between:
  assumes "\<And>i. i < m \<Longrightarrow> i < n \<Longrightarrow> hi i < c" and "\<And>i. m \<le> i \<Longrightarrow> i < n \<Longrightarrow> c < lo i"
  shows "range_of lo hi n c = None"
  using assms by (simp add: range_of_None) (meson not_le)

text \<open>The two invariants of a binary search for \<open>c\<close>: nothing below \<open>mn\<close>, nothing from \<open>mx\<close> on.\<close>

lemma search_left: "c < lo mid \<Longrightarrow> \<forall>i. mid \<le> i \<and> i < n \<longrightarrow> c < lo i"
  using before_lo by blast

lemma search_right: "hi mid < c \<Longrightarrow> mid < n \<Longrightarrow> \<forall>i < Suc mid. hi i < c"
  using after_hi by (simp add: less_Suc_eq_le)

end

text \<open>The validators check the groups one by one, each against the one before.\<close>

lemma grp_shift [simp]:
  "grp_start t (p + 12) i = grp_start t p (Suc i)" "grp_end t (p + 12) i = grp_end t p (Suc i)"
  by (simp_all add: grp_start_def grp_end_def ac_simps)

lemma grp_at:
  "u32 t p = grp_start t p 0" "u32 t (p + 4) = grp_end t p 0"
  by (simp_all add: grp_start_def grp_end_def)

lemma sorted_ranges_0 [simp]: "sorted_ranges lo hi 0"
  by unfold_locales simp_all

lemma sorted_ranges_Suc:
  assumes "lo 0 \<le> hi 0" "0 < k \<longrightarrow> hi 0 < lo (Suc 0)"
    and "sorted_ranges (\<lambda>i. lo (Suc i)) (\<lambda>i. hi (Suc i)) k"
  shows "sorted_ranges lo hi (Suc k)"
proof
  show "lo i \<le> hi i" if "i < Suc k" for i
    using that assms(1) sorted_ranges.range [OF assms(3)] by (cases i) auto
  show "hi i < lo (Suc i)" if "Suc i < Suc k" for i
    using that assms(2) sorted_ranges.gap [OF assms(3)] by (cases i) auto
qed

section \<open>The map a list of groups stands for\<close>

definition seq_glyph :: "nat \<Rightarrow> nat \<Rightarrow> nat \<Rightarrow> nat" where
  "seq_glyph start gid c = (if gid > 4294967295 - (c - start) then 0 else gid + (c - start))"

definition groups_map :: "bytes \<Rightarrow> nat \<Rightarrow> nat \<Rightarrow> nat \<Rightarrow> nat" where
  "groups_map t b n c =
     (case range_of (grp_start t b) (grp_end t b) n c of
        None \<Rightarrow> 0
      | Some i \<Rightarrow> seq_glyph (grp_start t b i) (grp_id t b i) c)"

definition groups_ok :: "bytes \<Rightarrow> nat \<Rightarrow> nat \<Rightarrow> bool" where
  "groups_ok t b n \<longleftrightarrow> b + 12 * n \<le> length t \<and> 12 * n < 4294967296 \<and>
     sorted_ranges (grp_start t b) (grp_end t b) n"

lemma groups_ok_read:
  assumes "groups_ok t b n" "i < n"
  shows "peek_ulong t (b + 12 * i) = Some (grp_start t b i)"
    "peek_ulong t (b + 12 * i + 4) = Some (grp_end t b i)"
    "peek_ulong t (b + 12 * i + 8) = Some (grp_id t b i)"
proof -
  have "b + 12 * i + 12 \<le> length t" using assms by (simp add: groups_ok_def)
  then show "peek_ulong t (b + 12 * i) = Some (grp_start t b i)"
    "peek_ulong t (b + 12 * i + 4) = Some (grp_end t b i)"
    "peek_ulong t (b + 12 * i + 8) = Some (grp_id t b i)"
    by (simp_all add: grp_start_def grp_end_def grp_id_def)
qed

lemma groups_map_in:
  "groups_ok t b n \<Longrightarrow> i < n \<Longrightarrow> grp_start t b i \<le> c \<Longrightarrow> c \<le> grp_end t b i \<Longrightarrow>
   groups_map t b n c = seq_glyph (grp_start t b i) (grp_id t b i) c"
  by (simp add: groups_map_def groups_ok_def sorted_ranges.range_of_eq)

lemma groups_map_gap:
  "groups_ok t b n \<Longrightarrow> (\<And>i. i < m \<Longrightarrow> i < n \<Longrightarrow> grp_end t b i < c) \<Longrightarrow>
   (\<And>i. m \<le> i \<Longrightarrow> i < n \<Longrightarrow> c < grp_start t b i) \<Longrightarrow> groups_map t b n c = 0"
  using sorted_ranges.range_of_between [of "grp_start t b" "grp_end t b" n m c]
  by (simp add: groups_map_def groups_ok_def)

section \<open>One group of an enumeration\<close>

text \<open>
  The block after the label \<open>Again\<close> in \<open>tt_cmap8_char_next\<close> and \<open>tt_cmap12_next\<close>, for one
  group and the current code: a glyph found, on to the next group with the current code
  (\<open>continue\<close>), or the end of the loop at the last code of all.
\<close>

datatype group_scan = Group_Found nat nat | Group_Done nat | Group_Stop

function tt_group_again :: "nat \<Rightarrow> nat \<Rightarrow> nat \<Rightarrow> nat \<Rightarrow> nat \<Rightarrow> group_scan" where
  "tt_group_again ng start last_code start_id char_code =
     (if char_code \<le> last_code then
        if start_id > 4294967295 - (char_code - start) then Group_Done char_code
        else if start_id + (char_code - start) = 0 then
          if char_code \<ge> 4294967295 then Group_Stop
          else tt_group_again ng start last_code start_id (char_code + 1)
        else if start_id + (char_code - start) \<ge> ng then Group_Done char_code
        else Group_Found (start_id + (char_code - start)) char_code
      else Group_Done char_code)"
  by pat_completeness auto
termination
  by (relation "measure (\<lambda>(ng, start, last_code, start_id, char_code). Suc last_code - char_code)") auto

declare tt_group_again.simps [simp del]

lemma seq_glyph_clip_mono:
  assumes "start \<le> c" "c \<le> e" "e - start < 4294967296"
    and "gid > 4294967295 - (c - start) \<or> ng \<le> gid + (c - start)"
  shows "clip_glyph ng (seq_glyph start gid e) = 0"
  using assms unfolding clip_glyph_def seq_glyph_def by (auto; linarith)

lemma tt_group_again_spec:
  assumes "start \<le> c" "lst < 4294967296"
  shows "case tt_group_again ng start lst gid c of
      Group_Found g c' \<Rightarrow> c \<le> c' \<and> c' \<le> lst \<and> g \<noteq> 0 \<and> g < ng \<and> seq_glyph start gid c' = g \<and>
        (\<forall>e. c \<le> e \<and> e < c' \<longrightarrow> clip_glyph ng (seq_glyph start gid e) = 0)
    | Group_Done c' \<Rightarrow> c \<le> c' \<and> c' \<le> max c (Suc lst) \<and>
        (\<forall>e. c \<le> e \<and> e \<le> lst \<longrightarrow> clip_glyph ng (seq_glyph start gid e) = 0)
    | Group_Stop \<Rightarrow> lst = 4294967295 \<and>
        (\<forall>e. c \<le> e \<and> e \<le> lst \<longrightarrow> clip_glyph ng (seq_glyph start gid e) = 0)"
  using assms
proof (induction ng start lst gid c rule: tt_group_again.induct)
  case (1 ng start lst gid c)
  let ?f = "\<lambda>e. clip_glyph ng (seq_glyph start gid e)"
  consider (over) "lst < c" | (wrap) "c \<le> lst" "gid > 4294967295 - (c - start)"
    | (zero) "c \<le> lst" "\<not> gid > 4294967295 - (c - start)" "gid + (c - start) = 0"
    | (bad) "c \<le> lst" "\<not> gid > 4294967295 - (c - start)" "gid + (c - start) \<noteq> 0" "ng \<le> gid + (c - start)"
    | (found) "c \<le> lst" "\<not> gid > 4294967295 - (c - start)" "gid + (c - start) \<noteq> 0" "gid + (c - start) < ng"
    by linarith
  then show ?case
  proof cases
    case over
    then show ?thesis by (subst tt_group_again.simps) simp
  next
    case wrap
    then have "?f e = 0" if "c \<le> e" "e \<le> lst" for e
      using that "1.prems" by (intro seq_glyph_clip_mono [of start c]) linarith+
    then show ?thesis using wrap by (subst tt_group_again.simps) simp
  next
    case bad
    then have "?f e = 0" if "c \<le> e" "e \<le> lst" for e
      using that "1.prems" by (intro seq_glyph_clip_mono [of start c]) linarith+
    then show ?thesis using bad by (subst tt_group_again.simps) auto
  next
    case found
    then show ?thesis by (subst tt_group_again.simps) (auto simp: seq_glyph_def)
  next
    case zero
    then have z: "?f c = 0" by (simp add: clip_glyph_def seq_glyph_def)
    show ?thesis
    proof (cases "c < 4294967295")
      case False
      with zero "1.prems" have "c = 4294967295" "lst = 4294967295" by linarith+
      then show ?thesis using zero z by (subst tt_group_again.simps) (auto dest: le_antisym)
    next
      case True
      have st: "tt_group_again ng start lst gid c = tt_group_again ng start lst gid (c + 1)"
        using zero True by (subst tt_group_again.simps) auto
      have ext: "?f e = 0" if "c \<le> e" "\<And>e. c + 1 \<le> e \<Longrightarrow> e \<le> k \<Longrightarrow> ?f e = 0" "e \<le> k" for e k
        using that z by (cases "e = c") auto
      have IH: "case tt_group_again ng start lst gid (c + 1) of
          Group_Found g c' \<Rightarrow> c + 1 \<le> c' \<and> c' \<le> lst \<and> g \<noteq> 0 \<and> g < ng \<and> seq_glyph start gid c' = g \<and>
            (\<forall>e. c + 1 \<le> e \<and> e < c' \<longrightarrow> ?f e = 0)
        | Group_Done c' \<Rightarrow> c + 1 \<le> c' \<and> c' \<le> max (c + 1) (Suc lst) \<and>
            (\<forall>e. c + 1 \<le> e \<and> e \<le> lst \<longrightarrow> ?f e = 0)
        | Group_Stop \<Rightarrow> lst = 4294967295 \<and> (\<forall>e. c + 1 \<le> e \<and> e \<le> lst \<longrightarrow> ?f e = 0)"
        using "1.IH" zero True "1.prems" by auto
      show ?thesis
      proof (cases "tt_group_again ng start lst gid (c + 1)")
        case (Group_Found g c')
        then have "?f e = 0" if "c \<le> e" "e < c'" for e
          using ext [of e "c' - 1"] IH that by auto
        then show ?thesis using IH Group_Found unfolding st by auto
      next
        case (Group_Done c')
        then have "?f e = 0" if "c \<le> e" "e \<le> lst" for e
          using ext [of e lst] IH that by auto
        then show ?thesis using IH Group_Done zero unfolding st by auto
      next
        case Group_Stop
        then have "?f e = 0" if "c \<le> e" "e \<le> lst" for e
          using ext [of e lst] IH that by auto
        then show ?thesis using IH Group_Stop unfolding st by auto
      qed
    qed
  qed
qed

text \<open>
  The loop over the groups from the \<open>n\<close>-th on, \<open>k\<close> of them: the first code from
  \<open>char_code\<close> on with a usable glyph, with its group, or \<open>None\<close> when the loop runs out of
  groups or leaves through \<open>Group_Stop\<close>.
\<close>

fun tt_groups_scan :: "nat \<Rightarrow> bytes \<Rightarrow> nat \<Rightarrow> nat \<Rightarrow> nat \<Rightarrow> nat \<Rightarrow> (nat \<times> nat \<times> nat) option option" where
  "tt_groups_scan ng t b 0 n char_code = Some None"
| "tt_groups_scan ng t b (Suc k) n char_code = do {
     start \<leftarrow> peek_ulong t (b + 12 * n);
     last_code \<leftarrow> peek_ulong t (b + 12 * n + 4);
     start_id \<leftarrow> peek_ulong t (b + 12 * n + 8);
     let char_code = (if char_code < start then start else char_code);
     case tt_group_again ng start last_code start_id char_code of
       Group_Found gindex c \<Rightarrow> Some (Some (gindex, c, n))
     | Group_Done c \<Rightarrow> tt_groups_scan ng t b k (Suc n) c
     | Group_Stop \<Rightarrow> Some None
   }"

definition scan_result :: "nat \<Rightarrow> nat \<Rightarrow> bytes \<Rightarrow> nat \<Rightarrow> nat \<Rightarrow> nat \<Rightarrow> nat \<Rightarrow> (nat \<times> nat \<times> nat) option \<Rightarrow> bool" where
  "scan_result lim ng t b nn n c r =
     (case r of
        None \<Rightarrow> \<forall>e. c \<le> e \<and> e < lim \<longrightarrow> clip_glyph ng (groups_map t b nn e) = 0
      | Some (g, c', m) \<Rightarrow> n \<le> m \<and> m < nn \<and> grp_start t b m \<le> c' \<and> c' \<le> grp_end t b m \<and> g \<noteq> 0 \<and>
          scan_ok lim (\<lambda>e. clip_glyph ng (groups_map t b nn e)) c (g, c'))"

lemma tt_groups_scan_spec:
  assumes "groups_ok t b nn" "n + k = nn"
    and "\<And>e. c \<le> e \<Longrightarrow> (\<And>j. n \<le> j \<Longrightarrow> j < nn \<Longrightarrow> e < grp_start t b j) \<Longrightarrow>
           clip_glyph ng (groups_map t b nn e) = 0"
  shows "\<exists>r. tt_groups_scan ng t b k n c = Some r \<and> scan_result 4294967296 ng t b nn n c r"
  using assms(2,3)
proof (induction k arbitrary: n c)
  case 0
  then show ?case by (simp add: scan_result_def)
next
  case (Suc k)
  let ?F = "\<lambda>e. clip_glyph ng (groups_map t b nn e)"
  let ?lo = "grp_start t b" and ?hi = "grp_end t b"
  note sr = conjunct2 [OF conjunct2 [OF assms(1) [unfolded groups_ok_def]]]
  have n: "n < nn" using Suc.prems(1) by simp
  define d where "d = (if c < ?lo n then ?lo n else c)"
  have d: "?lo n \<le> d" "c \<le> d" by (simp_all add: d_def)
  have skip: "?F e = 0" if "c \<le> e" "e < d" for e
    using that sorted_ranges.before_lo [OF sr, of e n]
    by (intro Suc.prems(2)) (auto simp: d_def split: if_splits)
  have inside: "groups_map t b nn e = seq_glyph (?lo n) (grp_id t b n) e" if "d \<le> e" "e \<le> ?hi n" for e
    using that d n by (intro groups_map_in [OF assms(1)]) linarith+
  note again = tt_group_again_spec [OF d(1) grp_lt(2), where gid = "grp_id t b n" and ng = ng]
  have step: "tt_groups_scan ng t b (Suc k) n c =
      (case tt_group_again ng (?lo n) (?hi n) (grp_id t b n) d of
         Group_Found g c \<Rightarrow> Some (Some (g, c, n))
       | Group_Done c \<Rightarrow> tt_groups_scan ng t b k (Suc n) c
       | Group_Stop \<Rightarrow> Some None)"
    by (simp add: groups_ok_read [OF assms(1) n] d_def)
  show ?case
  proof (cases "tt_group_again ng (?lo n) (?hi n) (grp_id t b n) d")
    case (Group_Found g c')
    with again [of t b n] have f: "d \<le> c'" "c' \<le> ?hi n" "g \<noteq> 0" "g < ng" "seq_glyph (?lo n) (grp_id t b n) c' = g"
      "\<And>e. d \<le> e \<Longrightarrow> e < c' \<Longrightarrow> clip_glyph ng (seq_glyph (?lo n) (grp_id t b n) e) = 0" by auto
    have "?F c' = g" using f inside by (simp add: clip_glyph_def)
    then have "scan_ok 4294967296 ?F c' (g, c')"
      using f(2,3) grp_lt(2) [of t b n] by (intro scan_ok_here) linarith+
    moreover have "?F e = 0" if "c \<le> e" "e < c'" for e
    proof (cases "e < d")
      case False
      then show ?thesis using that f(2,6) inside [of e] by simp
    qed (use skip that in blast)
    ultimately have "scan_ok 4294967296 ?F c (g, c')" using f(1) d(2)
      by (intro scan_ok_skip [where d' = c' and d = c]) (assumption | linarith | blast)+
    then show ?thesis using step Group_Found f n d by (simp add: scan_result_def)
  next
    case (Group_Done c')
    with again [of t b n] have f: "d \<le> c'" "c' \<le> max d (Suc (?hi n))"
      "\<And>e. d \<le> e \<Longrightarrow> e \<le> ?hi n \<Longrightarrow> clip_glyph ng (seq_glyph (?lo n) (grp_id t b n) e) = 0" by auto
    have low: "?F e = 0" if "d \<le> e" "e \<le> ?hi n" for e using that f(3) inside by simp
    have later: "?F e = 0" if e: "c' \<le> e" "\<And>j. Suc n \<le> j \<Longrightarrow> j < nn \<Longrightarrow> e < ?lo j" for e
    proof (cases "e \<le> ?hi n")
      case False
      then have "?hi i < e" if "i < Suc n" for i
        using that n sorted_ranges.after_hi [OF sr, of n e i] by simp
      then have "groups_map t b nn e = 0" using e(2)
        by (intro groups_map_gap [OF assms(1), of "Suc n"])
      then show ?thesis by (simp add: clip_glyph_def)
    qed (use e low f in simp)
    have "Suc n + k = nn" using Suc.prems(1) by simp
    from Suc.IH [OF this later] obtain r where
      r: "tt_groups_scan ng t b k (Suc n) c' = Some r" "scan_result 4294967296 ng t b nn (Suc n) c' r"
      by blast
    have mid: "?F e = 0" if "c \<le> e" "e < c'" for e
    proof (cases "e < d")
      case False
      then show ?thesis using that f(2) by (intro low) linarith+
    qed (use skip that in blast)
    have "scan_result 4294967296 ng t b nn n c r"
    proof (cases r)
      case None
      then show ?thesis using r(2) mid by (simp add: scan_result_def) (metis not_le)
    next
      case (Some q)
      then show ?thesis using r(2) mid f(1) d(2)
        by (auto simp: scan_result_def split: prod.splits intro: scan_ok_skip)
    qed
    then show ?thesis using step Group_Done r(1) by simp
  next
    case Group_Stop
    with again [of t b n] have f: "?hi n = 4294967295"
      "\<And>e. d \<le> e \<Longrightarrow> e \<le> ?hi n \<Longrightarrow> clip_glyph ng (seq_glyph (?lo n) (grp_id t b n) e) = 0" by auto
    have "?F e = 0" if "c \<le> e" "e < 4294967296" for e
    proof (cases "e < d")
      case False
      then show ?thesis using that f inside [of e] by simp
    qed (use skip that in blast)
    then show ?thesis using step Group_Stop by (simp add: scan_result_def)
  qed
qed

end
