(* ===== verification/Tt_CMap4.thy ===== *)
theory Tt_CMap4
  imports Tt_Groups
begin

text \<open>
  Format 4 of \<open>src/sfnt/ttcmap.c\<close>: segments of 16-bit codes. With \<open>n\<close> segments, the end
  codes are at offset 14, the start codes at \<open>16 + 2 n\<close>, the deltas at \<open>16 + 4 n\<close> and the
  range offsets at \<open>16 + 6 n\<close>. The glyph of a code is the code plus the delta when the
  offset is 0, and otherwise read at the offset from the offset's own place. The validator
  tells with flags whether segments overlap or are out of order, and the lookups choose
  between a bisection and a linear search by them.
\<close>

section \<open>The object\<close>

record TT_CMap4 =
  c4_data :: bytes
  c4_flags :: nat
  c4_charcode :: nat
  c4_gindex :: nat
  c4_num_ranges :: nat
  c4_range :: nat
  c4_start :: nat
  c4_end :: nat
  c4_delta :: int
  c4_values :: "nat option"

text \<open>\<open>TT_CMAP_FLAG_UNSORTED\<close> is bit 0, \<open>TT_CMAP_FLAG_OVERLAPPING\<close> bit 1.\<close>

definition flag_bits :: "bool \<Rightarrow> bool \<Rightarrow> nat" where
  "flag_bits uns ovl = (if uns then 1 else 0) + (if ovl then 2 else 0)"

definition flag_unsorted :: "nat \<Rightarrow> bool" where
  "flag_unsorted fl = odd fl"

definition flag_overlapping :: "nat \<Rightarrow> bool" where
  "flag_overlapping fl = odd (fl div 2)"

lemma flag_bits [simp]:
  "flag_unsorted (flag_bits u v) = u" "flag_overlapping (flag_bits u v) = v"
  by (cases u; cases v; simp add: flag_unsorted_def flag_overlapping_def flag_bits_def)+

definition tt_cmap4_init :: "bytes \<Rightarrow> nat \<Rightarrow> TT_CMap4 option" where
  "tt_cmap4_init table fl = do {
     n \<leftarrow> peek_ushort table 6;
     Some \<lparr>c4_data = table, c4_flags = fl, c4_charcode = 4294967295, c4_gindex = 0,
       c4_num_ranges = n div 2, c4_range = 0, c4_start = 0, c4_end = 0, c4_delta = 0, c4_values = None\<rparr>
   }"

text \<open>
  The repair of an incorrect last segment that \<open>set_range\<close> and both searches make: a segment
  0xFFFF..0xFFFF whose offset (at \<open>p\<close>) leads out of the table maps 0xFFFF to 0.
\<close>

definition tt_cmap4_fix_last ::
    "bytes \<Rightarrow> nat \<Rightarrow> nat \<Rightarrow> nat \<Rightarrow> nat \<Rightarrow> nat \<Rightarrow> int \<Rightarrow> nat \<Rightarrow> int \<times> nat" where
  "tt_cmap4_fix_last t n i start last_code p delta offset =
     (if i \<ge> n - 1 \<and> start = 65535 \<and> last_code = 65535 \<and> offset \<noteq> 0 \<and> p + offset + 2 > length t
      then (1, 0) else (delta, offset))"

section \<open>Validation\<close>

fun tt_cmap4_check_ids :: "setjmp_env \<Rightarrow> bytes \<Rightarrow> nat \<Rightarrow> int \<Rightarrow> nat \<Rightarrow> nat \<Rightarrow> unit validator" where
  "tt_cmap4_check_ids env t ng delta p 0 = vret ()"
| "tt_cmap4_check_ids env t ng delta p (Suc k) =
     vbind (vload (peek_ushort t p)) (\<lambda>idx.
     vbind (vcheck env (idx \<noteq> 0 \<and> u16_of_int (int idx + delta) \<ge> ng) Invalid_Glyph_Index) (\<lambda>_.
     tt_cmap4_check_ids env t ng delta (p + 2) k))"

text \<open>The range offset of the \<open>i\<close>-th of \<open>n\<close> segments, and its slice of the glyph ids.\<close>

definition tt_cmap4_check_offset ::
    "setjmp_env \<Rightarrow> bytes \<Rightarrow> validation_level \<Rightarrow> nat \<Rightarrow> nat \<Rightarrow> nat \<Rightarrow> nat \<Rightarrow> nat \<Rightarrow> nat \<Rightarrow> int \<Rightarrow> nat
      \<Rightarrow> unit validator" where
  "tt_cmap4_check_offset env t level ng len n i start last_code delta offset =
     (let p = 16 + 6 * n + 2 * i in
      if offset \<noteq> 0 \<and> offset \<noteq> 65535 then
        let p = p + offset;
            bytes_needed = mul32 (add32 (sub32 last_code start) 1) 2 in
        vbind (if at_least_tight level then
                 vcheck env (p < 16 + 8 * n \<or> p + bytes_needed > len) Invalid_Table
               else if i \<noteq> n - 1 \<or> \<not> (start = 65535 \<and> last_code = 65535) then
                 vcheck env (p < 16 + 8 * n \<or> p + bytes_needed > length t) Invalid_Table
               else vret ()) (\<lambda>_.
        if at_least_tight level then tt_cmap4_check_ids env t ng delta p (last_code - start)
        else vret ())
      else if offset = 65535 then
        vcheck env (at_least_paranoid level \<or> i \<noteq> n - 1 \<or> \<not> (start = 65535 \<and> last_code = 65535))
          Invalid_Table
      else vret ())"

fun tt_cmap4_check_segs ::
    "setjmp_env \<Rightarrow> bytes \<Rightarrow> validation_level \<Rightarrow> nat \<Rightarrow> nat \<Rightarrow> nat \<Rightarrow> nat \<Rightarrow> nat \<Rightarrow> nat \<Rightarrow> bool \<Rightarrow> bool \<Rightarrow> nat
      \<Rightarrow> nat validator" where
  "tt_cmap4_check_segs env t level ng len n i last_start last_end uns ovl 0 = vret (flag_bits uns ovl)"
| "tt_cmap4_check_segs env t level ng len n i last_start last_end uns ovl (Suc k) =
     vbind (vload (peek_ushort t (16 + 2 * n + 2 * i))) (\<lambda>start.
     vbind (vload (peek_ushort t (14 + 2 * i))) (\<lambda>last_code.
     vbind (vload (peek_short t (16 + 4 * n + 2 * i))) (\<lambda>delta.
     vbind (vload (peek_ushort t (16 + 6 * n + 2 * i))) (\<lambda>offset.
     vbind (vcheck env (start > last_code) Invalid_Table) (\<lambda>_.
     let clash = (start \<le> last_end \<and> i > 0);
         unordered = (last_start > start \<or> last_end > last_code) in
     vbind (vcheck env (clash \<and> at_least_tight level) Invalid_Table) (\<lambda>_.
     vbind (tt_cmap4_check_offset env t level ng len n i start last_code delta offset) (\<lambda>_.
     tt_cmap4_check_segs env t level ng len n (i + 1) start last_code
       (uns \<or> clash \<and> \<not> at_least_tight level \<and> unordered)
       (ovl \<or> clash \<and> \<not> at_least_tight level \<and> \<not> unordered) k)))))))"

text \<open>The search parameters; a shift by 32 or more wraps the shift count on the target.\<close>

definition tt_cmap4_check_params :: "setjmp_env \<Rightarrow> bytes \<Rightarrow> nat \<Rightarrow> unit validator" where
  "tt_cmap4_check_params env t num_segs =
     vbind (vload (peek_ushort t 8)) (\<lambda>search_range.
     vbind (vload (peek_ushort t 10)) (\<lambda>entry_selector.
     vbind (vload (peek_ushort t 12)) (\<lambda>range_shift.
     vbind (vcheck env (odd search_range \<or> odd range_shift) Invalid_Table) (\<lambda>_.
     vcheck env (search_range div 2 > num_segs \<or> search_range div 2 * 2 < num_segs \<or>
        search_range div 2 + range_shift div 2 \<noteq> num_segs \<or>
        search_range div 2 \<noteq> 2 ^ (entry_selector mod 32)) Invalid_Table))))"

definition tt_cmap4_validate ::
    "setjmp_env \<Rightarrow> bytes \<Rightarrow> validation_level \<Rightarrow> nat \<Rightarrow> nat validator" where
  "tt_cmap4_validate env t level num_glyphs =
     vbind (vcheck env (2 + 2 > length t) Invalid_Table) (\<lambda>_.
     vbind (vload (peek_ushort t 2)) (\<lambda>len.
     vbind (vcheck env (len > length t \<and> at_least_tight level) Invalid_Table) (\<lambda>_.
     let len = (if len > length t then length t mod 4294967296 else len) in
     vbind (vcheck env (len < length t mod 4294967296 \<and> at_least_paranoid level) Invalid_Table) (\<lambda>_.
     let len = (if len < length t mod 4294967296 then length t mod 4294967296 else len) in
     vbind (vcheck env (len < 16) Invalid_Table) (\<lambda>_.
     vbind (vload (peek_ushort t 6)) (\<lambda>num_segs.
     vbind (vcheck env (at_least_paranoid level \<and> odd num_segs) Invalid_Table) (\<lambda>_.
     let n = num_segs div 2 in
     vbind (vcheck env (len < 16 + n * 2 * 4) Invalid_Table) (\<lambda>_.
     vbind (if at_least_paranoid level then tt_cmap4_check_params env t n else vret ()) (\<lambda>_.
     vbind (if at_least_paranoid level then
              vbind (vload (peek_ushort t (14 + mul32 (sub32 n 1) 2))) (\<lambda>last_end.
              vcheck env (last_end \<noteq> 65535) Invalid_Table)
            else vret ()) (\<lambda>_.
     tt_cmap4_check_segs env t level num_glyphs len n 0 0 0 False False n))))))))))"

section \<open>The cursor\<close>

text \<open>
  \<open>tt_cmap4_set_range\<close> from range \<open>i\<close> on, \<open>k\<close> ranges being left: its return value and the
  object, whose fields it overwrites even for the ranges it skips.
\<close>

fun tt_cmap4_set_range_loop :: "TT_CMap4 \<Rightarrow> nat \<Rightarrow> nat \<Rightarrow> (int \<times> TT_CMap4) option" where
  "tt_cmap4_set_range_loop cmap 0 i = Some (- 1, cmap)"
| "tt_cmap4_set_range_loop cmap (Suc k) i = do {
     let t = c4_data cmap;
     let n = c4_num_ranges cmap;
     last_code \<leftarrow> peek_ushort t (14 + 2 * i);
     start \<leftarrow> peek_ushort t (16 + 2 * n + 2 * i);
     delta \<leftarrow> peek_short t (16 + 4 * n + 2 * i);
     offset \<leftarrow> peek_ushort t (16 + 6 * n + 2 * i);
     let p = 16 + 6 * n + 2 * i;
     let (delta, offset) = tt_cmap4_fix_last t n i start last_code p delta offset;
     let cmap = cmap\<lparr>c4_end := last_code, c4_start := start, c4_delta := delta\<rparr>;
     if offset \<noteq> 65535 then
       Some (0, cmap\<lparr>c4_values := (if offset \<noteq> 0 then Some (p + offset) else None), c4_range := i\<rparr>)
     else tt_cmap4_set_range_loop cmap k (i + 1)
   }"

definition tt_cmap4_set_range :: "TT_CMap4 \<Rightarrow> nat \<Rightarrow> (int \<times> TT_CMap4) option" where
  "tt_cmap4_set_range cmap range_index =
     tt_cmap4_set_range_loop cmap (c4_num_ranges cmap - range_index) range_index"

text \<open>
  The two inner loops of \<open>tt_cmap4_next\<close>, from \<open>charcode\<close> to the end of the segment: the glyph
  found, or 0, and the value \<open>charcode\<close> is left with. The first reads \<open>k\<close> glyph ids at \<open>p\<close>;
  the second computes the glyphs, and skips the codes whose glyph is out of range.
\<close>

fun tt_cmap4_scan_values :: "bytes \<Rightarrow> int \<Rightarrow> nat \<Rightarrow> nat \<Rightarrow> nat \<Rightarrow> (nat \<times> nat) option" where
  "tt_cmap4_scan_values t delta 0 p charcode = Some (0, charcode)"
| "tt_cmap4_scan_values t delta (Suc k) p charcode = do {
     gindex \<leftarrow> peek_ushort t p;
     let gindex = (if gindex \<noteq> 0 then u16_of_int (int gindex + delta) else 0);
     if gindex \<noteq> 0 then Some (gindex, charcode)
     else tt_cmap4_scan_values t delta k (p + 2) (charcode + 1)
   }"

function tt_cmap4_scan_delta :: "nat \<Rightarrow> int \<Rightarrow> nat \<Rightarrow> nat \<Rightarrow> nat \<times> nat" where
  "tt_cmap4_scan_delta ng delta last_code charcode =
     (if charcode \<le> last_code then
        let gindex = u16_of_int (int charcode + delta) in
        if gindex \<ge> ng then
          if int charcode + delta < 0 \<and> int last_code + delta \<ge> 0 then
            tt_cmap4_scan_delta ng delta last_code (nat (- delta) + 1)
          else if int charcode + delta < 65536 \<and> int last_code + delta \<ge> 65536 then
            tt_cmap4_scan_delta ng delta last_code (nat (65536 - delta) + 1)
          else (0, charcode)
        else if gindex \<noteq> 0 then (gindex, charcode)
        else tt_cmap4_scan_delta ng delta last_code (charcode + 1)
      else (0, charcode))"
  by pat_completeness auto
termination
  by (relation "measure (\<lambda>(ng, delta, last_code, charcode). Suc last_code - charcode)") auto

declare tt_cmap4_scan_delta.simps [simp del]

text \<open>One turn of the outer loop: the segment the cursor is at, from \<open>charcode\<close> on.\<close>

definition tt_cmap4_scan_segment :: "nat \<Rightarrow> TT_CMap4 \<Rightarrow> nat \<Rightarrow> (nat \<times> nat) option" where
  "tt_cmap4_scan_segment ng cmap charcode =
     (if charcode \<le> c4_end cmap then
        (case c4_values cmap of
           Some values \<Rightarrow>
             let p = values + mul32 2 (sub32 charcode (c4_start cmap)) in
             if p > length (c4_data cmap) then Some (0, charcode)
             else tt_cmap4_scan_values (c4_data cmap) (c4_delta cmap) (c4_end cmap + 1 - charcode) p charcode
         | None \<Rightarrow> Some (tt_cmap4_scan_delta ng (c4_delta cmap) (c4_end cmap) charcode))
      else Some (0, charcode))"

text \<open>The loop over the segments, from the one the cursor is at.\<close>

partial_function (option) tt_cmap4_next_loop :: "nat \<Rightarrow> TT_CMap4 \<Rightarrow> nat \<Rightarrow> TT_CMap4 option" where
  "tt_cmap4_next_loop ng cmap charcode = do {
     (gindex, charcode) \<leftarrow> tt_cmap4_scan_segment ng cmap charcode;
     if gindex \<noteq> 0 then Some (cmap\<lparr>c4_charcode := charcode, c4_gindex := gindex\<rparr>)
     else do {
       (r, cmap) \<leftarrow> tt_cmap4_set_range cmap (c4_range cmap + 1);
       if r < 0 then Some (cmap\<lparr>c4_charcode := 4294967295, c4_gindex := 0\<rparr>)
       else tt_cmap4_next_loop ng cmap (if charcode < c4_start cmap then c4_start cmap else charcode)
     }
   }"

definition tt_cmap4_next :: "nat \<Rightarrow> TT_CMap4 \<Rightarrow> TT_CMap4 option" where
  "tt_cmap4_next ng cmap =
     (let charcode = add32 (c4_charcode cmap) 1
      in tt_cmap4_next_loop ng cmap (if charcode < c4_start cmap then c4_start cmap else charcode))"

section \<open>The linear search\<close>

text \<open>
  The part of the loop body after the label \<open>Again\<close>, for segment \<open>i\<close>: leave the loop with a
  glyph and code (\<open>break\<close>), or go on with the next segment (\<open>continue\<close>).
\<close>

datatype seg_scan = Seg_Break nat nat | Seg_Continue nat

partial_function (option) tt_cmap4_again ::
    "bytes \<Rightarrow> nat \<Rightarrow> bool \<Rightarrow> nat \<Rightarrow> nat \<Rightarrow> nat \<Rightarrow> nat \<Rightarrow> nat \<Rightarrow> seg_scan option" where
  "tt_cmap4_again t ng nxt n i start last_code charcode =
     (if charcode \<le> last_code then do {
        delta \<leftarrow> peek_short t (16 + 4 * n + 2 * i);
        offset \<leftarrow> peek_ushort t (16 + 6 * n + 2 * i);
        let r = 16 + 6 * n + 2 * i;
        let (delta, offset) = tt_cmap4_fix_last t n i start last_code r delta offset;
        if offset = 65535 then Some (Seg_Continue charcode)
        else do {
          let r = r + (offset + mul32 (sub32 charcode start) 2);
          step \<leftarrow>
            (if offset \<noteq> 0 then
               if nxt \<and> r > length t then Some (Inl charcode)
               else do {
                 gindex \<leftarrow> peek_ushort t r;
                 let gindex = (if gindex \<noteq> 0 then u16_of_int (int gindex + delta) else 0);
                 Some (Inr (if gindex \<ge> ng then 0 else gindex, charcode))
               }
             else do {
               let gindex = u16_of_int (int charcode + delta);
               Some (if nxt \<and> gindex \<ge> ng then
                       if int charcode + delta < 0 \<and> int last_code + delta \<ge> 0 then
                         Inr (0, nat (- delta))
                       else if int charcode + delta < 65536 \<and> int last_code + delta \<ge> 65536 then
                         Inr (0, nat (65536 - delta))
                       else Inl charcode
                     else Inr (gindex, charcode))
             });
          (case step of
             Inl charcode \<Rightarrow> Some (Seg_Continue charcode)
           | Inr (gindex, charcode) \<Rightarrow>
               if nxt \<and> gindex = 0 then
                 if charcode \<ge> 65535 then Some (Seg_Break 0 charcode)
                 else tt_cmap4_again t ng nxt n i start last_code (charcode + 1)
               else Some (Seg_Break gindex charcode))
        }
      } else Some (Seg_Continue charcode))"

fun tt_cmap4_linear_loop :: "bytes \<Rightarrow> nat \<Rightarrow> bool \<Rightarrow> nat \<Rightarrow> nat \<Rightarrow> nat \<Rightarrow> nat \<Rightarrow> (nat \<times> nat) option" where
  "tt_cmap4_linear_loop t ng nxt n 0 i charcode = Some (0, charcode)"
| "tt_cmap4_linear_loop t ng nxt n (Suc k) i charcode = do {
     last_code \<leftarrow> peek_ushort t (14 + 2 * i);
     start \<leftarrow> peek_ushort t (16 + 2 * n + 2 * i);
     if charcode < start \<and> \<not> nxt then Some (0, charcode)
     else do {
       r \<leftarrow> tt_cmap4_again t ng nxt n i start last_code (if charcode < start then start else charcode);
       (case r of
          Seg_Break gindex c \<Rightarrow> Some (gindex, c)
        | Seg_Continue c \<Rightarrow> tt_cmap4_linear_loop t ng nxt n k (i + 1) c)
     }
   }"

text \<open>The glyph and \<open>*pcharcode\<close>.\<close>

definition tt_cmap4_char_map_linear :: "nat \<Rightarrow> TT_CMap4 \<Rightarrow> nat \<Rightarrow> bool \<Rightarrow> (nat \<times> nat) option" where
  "tt_cmap4_char_map_linear ng cmap pcharcode nxt = do {
     segs \<leftarrow> peek_ushort (c4_data cmap) 6;
     let n = segs div 2;
     if n = 0 then Some (0, pcharcode)
     else do {
       (gindex, charcode) \<leftarrow> tt_cmap4_linear_loop (c4_data cmap) ng nxt n n 0
          (add32 pcharcode (if nxt then 1 else 0));
       Some (gindex, if nxt then charcode else pcharcode)
     }
   }"

section \<open>The bisection\<close>

text \<open>The fields of a segment as the search holds them; \<open>sg_p\<close> is the place of the offset.\<close>

record seg4 =
  sg_end :: nat
  sg_start :: nat
  sg_delta :: int
  sg_offset :: nat
  sg_p :: nat

definition tt_cmap4_read_seg :: "bytes \<Rightarrow> nat \<Rightarrow> nat \<Rightarrow> seg4 option" where
  "tt_cmap4_read_seg t n i = do {
     last_code \<leftarrow> peek_ushort t (14 + 2 * i);
     start \<leftarrow> peek_ushort t (16 + 2 * n + 2 * i);
     delta \<leftarrow> peek_short t (16 + 4 * n + 2 * i);
     offset \<leftarrow> peek_ushort t (16 + 6 * n + 2 * i);
     Some \<lparr>sg_end = last_code, sg_start = start, sg_delta = delta, sg_offset = offset,
       sg_p = 16 + 6 * n + 2 * i\<rparr>
   }"

text \<open>The \<open>do ... while\<close> loop: the last segment probed, its end code, whether it was a hit.\<close>

partial_function (option) tt_cmap4_search ::
    "bytes \<Rightarrow> nat \<Rightarrow> nat \<Rightarrow> nat \<Rightarrow> nat \<Rightarrow> (nat \<times> nat \<times> bool) option" where
  "tt_cmap4_search t n charcode mn mx = do {
     let mid = (mn + mx) div 2;
     last_code \<leftarrow> peek_ushort t (14 + 2 * mid);
     start \<leftarrow> peek_ushort t (16 + 2 * n + 2 * mid);
     if charcode < start then
       (if mn < mid then tt_cmap4_search t n charcode mn mid else Some (mid, last_code, False))
     else if charcode > last_code then
       (if mid + 1 < mx then tt_cmap4_search t n charcode (mid + 1) mx
        else Some (mid, last_code, False))
     else Some (mid, last_code, True)
   }"

text \<open>
  With overlapping segments: the first segment that contains the code. \<open>tt_cmap4_back\<close> goes
  through the segments before the one hit, \<open>tt_cmap4_forward\<close> through those after it; both
  return the loop variable \<open>i\<close>, \<open>mid\<close> and the segment read last.
\<close>

fun tt_cmap4_back :: "bytes \<Rightarrow> nat \<Rightarrow> nat \<Rightarrow> nat \<Rightarrow> nat \<Rightarrow> seg4 \<Rightarrow> (nat \<times> nat \<times> seg4) option" where
  "tt_cmap4_back t n charcode 0 mid sg = Some (0, mid, sg)"
| "tt_cmap4_back t n charcode (Suc i) mid sg = do {
     prev_end \<leftarrow> peek_ushort t (14 + 2 * i);
     if charcode > prev_end then Some (Suc i, mid, sg)
     else do {
       sg \<leftarrow> tt_cmap4_read_seg t n i;
       tt_cmap4_back t n charcode i (if sg_offset sg \<noteq> 65535 then i else mid) sg
     }
   }"

fun tt_cmap4_forward ::
    "bytes \<Rightarrow> nat \<Rightarrow> nat \<Rightarrow> nat \<Rightarrow> nat \<Rightarrow> nat \<Rightarrow> seg4 \<Rightarrow> (nat \<times> nat \<times> seg4) option" where
  "tt_cmap4_forward t n charcode 0 i mid sg = Some (i, mid, sg)"
| "tt_cmap4_forward t n charcode (Suc k) i mid sg = do {
     next_end \<leftarrow> peek_ushort t (14 + 2 * i);
     next_start \<leftarrow> peek_ushort t (16 + 2 * n + 2 * i);
     if charcode < next_start then Some (i, mid, sg)
     else do {
       sg \<leftarrow> tt_cmap4_read_seg t n i;
       tt_cmap4_forward t n charcode k (i + 1) (if sg_offset sg \<noteq> 65535 then i else mid) sg
     }
   }"

text \<open>Whether a segment was found, its index, and the segment.\<close>

definition tt_cmap4_overlap ::
    "bytes \<Rightarrow> nat \<Rightarrow> nat \<Rightarrow> nat \<Rightarrow> seg4 \<Rightarrow> (bool \<times> nat \<times> seg4) option" where
  "tt_cmap4_overlap t n charcode mx sg = do {
     (i, mid, sg) \<leftarrow> tt_cmap4_back t n charcode mx (if sg_offset sg = 65535 then mx + 1 else mx) sg;
     if mid = mx + 1 then do {
       sg \<leftarrow> (if i \<noteq> mx then tt_cmap4_read_seg t n mx else Some sg);
       (i, mid, sg) \<leftarrow> tt_cmap4_forward t n charcode (n - (mx + 1)) (mx + 1) mx sg;
       let i = i - 1;
       if mid = mx then Some (False, i, sg)
       else do {
         sg \<leftarrow> (if mid \<noteq> i then tt_cmap4_read_seg t n mid else Some sg);
         Some (True, mid, sg)
       }
     } else do {
       sg \<leftarrow> (if mid \<noteq> i then tt_cmap4_read_seg t n mid else Some sg);
       Some (True, mid, sg)
     }
   }"

text \<open>The glyph of the code in the segment found, and the code, which may be moved forward.\<close>

definition tt_cmap4_seg_glyph :: "bytes \<Rightarrow> nat \<Rightarrow> bool \<Rightarrow> seg4 \<Rightarrow> nat \<Rightarrow> (nat \<times> nat) option" where
  "tt_cmap4_seg_glyph t ng nxt sg charcode =
     (if sg_offset sg \<noteq> 0 then
        let p = sg_p sg + (sg_offset sg + mul32 (sub32 charcode (sg_start sg)) 2) in
        if nxt \<and> p > length t then Some (0, charcode)
        else do {
          gindex \<leftarrow> peek_ushort t p;
          let gindex = (if gindex \<noteq> 0 then u16_of_int (int gindex + sg_delta sg) else 0);
          Some (if gindex \<ge> ng then 0 else gindex, charcode)
        }
      else
        let gindex = u16_of_int (int charcode + sg_delta sg) in
        Some (if nxt \<and> gindex \<ge> ng then
                if int charcode + sg_delta sg < 0 \<and> int (sg_end sg) + sg_delta sg \<ge> 0 then
                  (0, nat (- sg_delta sg))
                else if int charcode + sg_delta sg < 65536 \<and> int (sg_end sg) + sg_delta sg \<ge> 65536 then
                  (0, nat (65536 - sg_delta sg))
                else (0, charcode)
              else (gindex, charcode)))"

text \<open>The branch of the loop for a hit at \<open>mid\<close>: \<open>mid\<close>, \<open>end\<close>, \<open>charcode\<close> and \<open>gindex\<close>.\<close>

definition tt_cmap4_hit ::
    "bytes \<Rightarrow> nat \<Rightarrow> nat \<Rightarrow> bool \<Rightarrow> nat \<Rightarrow> nat \<Rightarrow> nat \<Rightarrow> (nat \<times> nat \<times> nat \<times> nat) option" where
  "tt_cmap4_hit t fl ng nxt n mid charcode = do {
     sg \<leftarrow> tt_cmap4_read_seg t n mid;
     let (delta, offset) =
       tt_cmap4_fix_last t n mid (sg_start sg) (sg_end sg) (sg_p sg) (sg_delta sg) (sg_offset sg);
     let sg = sg\<lparr>sg_delta := delta, sg_offset := offset\<rparr>;
     (found, mid, sg) \<leftarrow>
       (if flag_overlapping fl then tt_cmap4_overlap t n charcode mid sg
        else Some (sg_offset sg \<noteq> 65535, mid, sg));
     if \<not> found then Some (mid, sg_end sg, charcode, 0)
     else do {
       (gindex, charcode) \<leftarrow> tt_cmap4_seg_glyph t ng nxt sg charcode;
       Some (mid, sg_end sg, charcode, gindex)
     }
   }"

definition tt_cmap4_char_map_binary ::
    "nat \<Rightarrow> TT_CMap4 \<Rightarrow> nat \<Rightarrow> bool \<Rightarrow> (nat \<times> nat \<times> TT_CMap4) option" where
  "tt_cmap4_char_map_binary ng cmap pcharcode nxt = do {
     let t = c4_data cmap;
     let charcode = add32 pcharcode (if nxt then 1 else 0);
     segs \<leftarrow> peek_ushort t 6;
     let n = segs div 2;
     if n = 0 then Some (0, pcharcode, cmap)
     else do {
       (mid, last_code, hit) \<leftarrow> tt_cmap4_search t n charcode 0 n;
       (mid, last_code, charcode, gindex) \<leftarrow>
         (if hit then tt_cmap4_hit t (c4_flags cmap) ng nxt n mid charcode
          else Some (mid, last_code, charcode, 0));
       if \<not> nxt then Some (gindex, pcharcode, cmap)
       else do {
         let mid = (if charcode > last_code then mid + 1 else mid);
         if charcode > last_code \<and> mid = n then Some (0, pcharcode, cmap)
         else do {
           (r, cmap) \<leftarrow> tt_cmap4_set_range cmap mid;
           if r \<noteq> 0 then Some (gindex, if gindex \<noteq> 0 then charcode else pcharcode, cmap)
           else do {
             let cmap = cmap\<lparr>c4_charcode := charcode\<rparr>;
             cmap \<leftarrow> (if gindex \<noteq> 0 then Some (cmap\<lparr>c4_gindex := gindex\<rparr>) else tt_cmap4_next ng cmap);
             let gindex = c4_gindex cmap;
             Some (gindex, if gindex \<noteq> 0 then c4_charcode cmap else pcharcode, cmap)
           }
         }
       }
     }
   }"

section \<open>The class functions\<close>

definition tt_cmap4_char_index :: "nat \<Rightarrow> TT_CMap4 \<Rightarrow> nat \<Rightarrow> nat option" where
  "tt_cmap4_char_index ng cmap char_code =
     (if char_code \<ge> 65536 then Some 0
      else if flag_unsorted (c4_flags cmap) then
        map_option fst (tt_cmap4_char_map_linear ng cmap char_code False)
      else map_option fst (tt_cmap4_char_map_binary ng cmap char_code False))"

definition tt_cmap4_char_next :: "nat \<Rightarrow> TT_CMap4 \<Rightarrow> nat \<Rightarrow> (nat \<times> nat \<times> TT_CMap4) option" where
  "tt_cmap4_char_next ng cmap code =
     (if code \<ge> 65535 then Some (0, code, cmap)
      else if flag_unsorted (c4_flags cmap) then do {
        (gindex, c) \<leftarrow> tt_cmap4_char_map_linear ng cmap code True;
        Some (gindex, c, cmap)
      } else if code = c4_charcode cmap then do {
        cmap \<leftarrow> tt_cmap4_next ng cmap;
        let gindex = c4_gindex cmap;
        Some (gindex, if gindex \<noteq> 0 then c4_charcode cmap else code, cmap)
      } else tt_cmap4_char_map_binary ng cmap code True)"

definition tt_cmap4_get_info :: "TT_CMap4 \<Rightarrow> TT_CMapInfo option" where
  "tt_cmap4_get_info cmap = do {
     language \<leftarrow> peek_ushort (c4_data cmap) 4;
     Some \<lparr>info_format = 4, info_language = language\<rparr>
   }"

end
