(* ===== verification/Tt_CMap4_Safety.thy ===== *)
theory Tt_CMap4_Safety
  imports Tt_CMap4
begin

text \<open>
  Format 4, first part of the proofs: what the validator promises, the map a table stands for,
  safety of both searches and of the cursor, and the interface \<open>tt_cmap_class\<close>.
\<close>

section \<open>Segments of a validated table\<close>

definition ss :: "bytes \<Rightarrow> nat \<Rightarrow> nat \<Rightarrow> nat" where
  "ss t n i = u16 t (16 + 2 * n + 2 * i)"

definition se :: "bytes \<Rightarrow> nat \<Rightarrow> nat" where
  "se t i = u16 t (14 + 2 * i)"

definition sd :: "bytes \<Rightarrow> nat \<Rightarrow> nat \<Rightarrow> int" where
  "sd t n i = s16 t (16 + 4 * n + 2 * i)"

definition so :: "bytes \<Rightarrow> nat \<Rightarrow> nat \<Rightarrow> nat" where
  "so t n i = u16 t (16 + 6 * n + 2 * i)"

lemma seg_lt [simp]: "ss t n i < 65536" "se t i < 65536" "so t n i < 65536"
  by (simp_all add: ss_def se_def so_def)

lemma sd_bounds: "- 32768 \<le> sd t n i" "sd t n i < 32768"
  using s16_bounds by (auto simp: sd_def)

text \<open>The delta and offset that the code works with, the last segment repaired.\<close>

definition eff :: "bytes \<Rightarrow> nat \<Rightarrow> nat \<Rightarrow> int \<times> nat" where
  "eff t n i = tt_cmap4_fix_last t n i (ss t n i) (se t i) (16 + 6 * n + 2 * i) (sd t n i) (so t n i)"

definition seg_ok :: "bytes \<Rightarrow> nat \<Rightarrow> nat \<Rightarrow> bool" where
  "seg_ok t n i \<longleftrightarrow> ss t n i \<le> se t i \<and>
     (so t n i \<noteq> 0 \<and> so t n i \<noteq> 65535 \<and> \<not> (i = n - 1 \<and> ss t n i = 65535 \<and> se t i = 65535) \<longrightarrow>
        16 + 6 * n + 2 * i + so t n i + 2 * (se t i - ss t n i + 1) \<le> length t) \<and>
     (so t n i = 65535 \<longrightarrow> i = n - 1 \<and> ss t n i = 65535 \<and> se t i = 65535)"

definition segs_ok :: "bytes \<Rightarrow> nat \<Rightarrow> bool" where
  "segs_ok t n \<longleftrightarrow> 16 + 8 * n \<le> length t \<and> n \<le> 32767 \<and> (\<forall>i < n. seg_ok t n i)"

definition segs_ordered :: "bytes \<Rightarrow> nat \<Rightarrow> bool" where
  "segs_ordered t n \<longleftrightarrow> (\<forall>i. Suc i < n \<longrightarrow> ss t n i \<le> ss t n (Suc i) \<and> se t i \<le> se t (Suc i))"

definition num_segs4 :: "bytes \<Rightarrow> nat" where
  "num_segs4 t = u16 t 6 div 2"

definition table4_ok :: "bytes \<Rightarrow> nat \<Rightarrow> bool" where
  "table4_ok t fl \<longleftrightarrow> segs_ok t (num_segs4 t) \<and>
     (\<not> flag_unsorted fl \<longrightarrow> segs_ordered t (num_segs4 t)) \<and>
     (\<not> flag_unsorted fl \<and> \<not> flag_overlapping fl \<longrightarrow> sorted_ranges (ss t (num_segs4 t)) (se t) (num_segs4 t))"

lemma seg_reads:
  assumes "segs_ok t n" "i < n"
  shows "peek_ushort t (14 + 2 * i) = Some (se t i)"
    "peek_ushort t (16 + 2 * n + 2 * i) = Some (ss t n i)"
    "peek_short t (16 + 4 * n + 2 * i) = Some (sd t n i)"
    "peek_ushort t (16 + 6 * n + 2 * i) = Some (so t n i)"
  using assms by (simp_all add: segs_ok_def se_def ss_def sd_def so_def)

lemma segs_seg: "segs_ok t n \<Longrightarrow> i < n \<Longrightarrow> seg_ok t n i"
  by (simp add: segs_ok_def)

lemma seg_le: "segs_ok t n \<Longrightarrow> i < n \<Longrightarrow> ss t n i \<le> se t i"
  using segs_seg by (auto simp: seg_ok_def)

lemma eff_bounds: "- 32768 \<le> fst (eff t n i)" "fst (eff t n i) < 32768" "snd (eff t n i) < 65536"
  using sd_bounds [of t n i] by (auto simp: eff_def tt_cmap4_fix_last_def)

text \<open>The slice of a segment with an offset lies in the table.\<close>

lemma eff_slice:
  assumes "segs_ok t n" "i < n" "snd (eff t n i) \<noteq> 0" "snd (eff t n i) \<noteq> 65535"
  shows "16 + 6 * n + 2 * i + snd (eff t n i) + 2 * (se t i - ss t n i + 1) \<le> length t"
proof (cases "i = n - 1 \<and> ss t n i = 65535 \<and> se t i = 65535")
  case True
  then show ?thesis using assms(3) by (auto simp: eff_def tt_cmap4_fix_last_def split: if_splits)
next
  case False
  have "i \<ge> n - 1 \<longleftrightarrow> i = n - 1" using assms(2) by linarith
  then have e: "snd (eff t n i) = so t n i" using False by (auto simp: eff_def tt_cmap4_fix_last_def)
  have "seg_ok t n i" by (rule segs_seg [OF assms(1,2)])
  then show ?thesis using False assms(3,4) unfolding e by (simp add: seg_ok_def)
qed

lemma eff_none:
  assumes "segs_ok t n" "i < n" "snd (eff t n i) = 65535"
  shows "i = n - 1" "ss t n i = 65535" "se t i = 65535" "so t n i = 65535"
proof -
  have "so t n i = 65535" using assms(3) by (auto simp: eff_def tt_cmap4_fix_last_def split: if_splits)
  then show "i = n - 1" "ss t n i = 65535" "se t i = 65535" "so t n i = 65535"
    using segs_seg [OF assms(1,2)] by (auto simp: seg_ok_def)
qed

lemma eff_raw: "i < n - 1 \<Longrightarrow> eff t n i = (sd t n i, so t n i)"
  by (simp add: eff_def tt_cmap4_fix_last_def)

section \<open>The validator\<close>

definition segs_post :: "bytes \<Rightarrow> nat \<Rightarrow> nat \<Rightarrow> nat \<Rightarrow> nat \<Rightarrow> bool \<Rightarrow> bool \<Rightarrow> nat \<Rightarrow> bool" where
  "segs_post t n i ls le uns ovl fl \<longleftrightarrow>
     (\<forall>j. i \<le> j \<and> j < n \<longrightarrow> seg_ok t n j) \<and> (uns \<longrightarrow> flag_unsorted fl) \<and> (ovl \<longrightarrow> flag_overlapping fl) \<and>
     (\<not> flag_unsorted fl \<longrightarrow>
        (\<forall>j. i \<le> j \<and> Suc j < n \<longrightarrow> ss t n j \<le> ss t n (Suc j) \<and> se t j \<le> se t (Suc j)) \<and>
        (0 < i \<and> i < n \<longrightarrow> ls \<le> ss t n i \<and> le \<le> se t i)) \<and>
     (\<not> flag_unsorted fl \<and> \<not> flag_overlapping fl \<longrightarrow>
        (\<forall>j. i \<le> j \<and> Suc j < n \<longrightarrow> se t j < ss t n (Suc j)) \<and> (0 < i \<and> i < n \<longrightarrow> le < ss t n i))"

lemma cmap4_ids_agree:
  "vagree (tt_cmap4_check_ids Hosted t g d p k) (tt_cmap4_check_ids Freestanding t g d p k)"
  by (induction k arbitrary: p) (auto intro!: agree_intros)

lemma cmap4_offset_agree:
  "vagree (tt_cmap4_check_offset Hosted t l g len n i a b d off)
     (tt_cmap4_check_offset Freestanding t l g len n i a b d off)"
  unfolding tt_cmap4_check_offset_def Let_def by (intro agree_intros cmap4_ids_agree)

lemma cmap4_segs_agree:
  "vagree (tt_cmap4_check_segs Hosted t l g len n i ls le u v k)
     (tt_cmap4_check_segs Freestanding t l g len n i ls le u v k)"
  by (induction k arbitrary: i ls le u v) (auto simp: Let_def intro!: agree_intros cmap4_offset_agree)

lemma cmap4_agree: "vagree (tt_cmap4_validate Hosted t l n) (tt_cmap4_validate Freestanding t l n)"
  unfolding tt_cmap4_validate_def Let_def tt_cmap4_check_params_def
  by (intro agree_intros cmap4_segs_agree)

lemma cmap4_offset_safe:
  assumes "ss t n i \<le> se t i" and "seg_ok t n i \<Longrightarrow> Q () s"
  shows "vwp (tt_cmap4_check_offset Hosted t FT_VALIDATE_DEFAULT g len n i (ss t n i) (se t i) d (so t n i)) s Q"
proof -
  have a: "sub32 (se t i) (ss t n i) = se t i - ss t n i"
    using assms(1) seg_lt(2) [of t i] by (intro sub32_le) linarith+
  have b: "se t i - ss t n i < 65536" using seg_lt(2) [of t i] by linarith
  have "mul32 (add32 x 1) 2 = 2 * (x + 1)" if "x < 65536" for x
    using that by (simp add: add32_small mul32_small)
  then have "mul32 (add32 (se t i - ss t n i) 1) 2 = 2 * (se t i - ss t n i + 1)" using b .
  then show ?thesis using assms
    by (auto simp: tt_cmap4_check_offset_def Let_def a vsafe_simps seg_ok_def not_less ac_simps)
qed

lemma cmap4_segs_safe:
  assumes "16 + 8 * n \<le> length t" "i + k = n" "0 < i \<longrightarrow> ls \<le> le"
    and "\<And>fl. segs_post t n i ls le u v fl \<Longrightarrow> Q fl s"
  shows "vwp (tt_cmap4_check_segs Hosted t FT_VALIDATE_DEFAULT g len n i ls le u v k) s Q"
  using assms(2-)
proof (induction k arbitrary: i ls le u v)
  case 0
  then have "segs_post t n i ls le u v (flag_bits u v)" by (auto simp: segs_post_def)
  then show ?case using 0 by (simp add: vsafe_simps)
next
  case (Suc k)
  have i: "i < n" using Suc.prems(1) by simp
  have rd: "peek_ushort t (14 + 2 * i) = Some (se t i)"
    "peek_ushort t (16 + 2 * n + 2 * i) = Some (ss t n i)"
    "peek_short t (16 + 4 * n + 2 * i) = Some (sd t n i)"
    "peek_ushort t (16 + 6 * n + 2 * i) = Some (so t n i)"
    using assms(1) i by (simp_all add: se_def ss_def sd_def so_def)
  let ?clash = "ss t n i \<le> le \<and> i > 0" and ?un = "ls > ss t n i \<or> le > se t i"
  have "vwp (tt_cmap4_check_segs Hosted t FT_VALIDATE_DEFAULT g len n (i + 1) (ss t n i) (se t i)
      (u \<or> ?clash \<and> ?un) (v \<or> ?clash \<and> \<not> ?un) k) s Q" if ok: "seg_ok t n i"
  proof (rule Suc.IH)
    have le: "ss t n i \<le> se t i" using ok by (simp add: seg_ok_def)
    then show "0 < i + 1 \<longrightarrow> ss t n i \<le> se t i" by simp
    fix fl assume p: "segs_post t n (i + 1) (ss t n i) (se t i) (u \<or> ?clash \<and> ?un) (v \<or> ?clash \<and> \<not> ?un) fl"
    have step: "P i \<Longrightarrow> (\<And>j. i + 1 \<le> j \<Longrightarrow> P j) \<Longrightarrow> i \<le> j \<Longrightarrow> P j" for P j
      by (cases "j = i") auto
    have "segs_post t n i ls le u v fl"
      unfolding segs_post_def
    proof (intro conjI impI allI; (elim conjE)?)
      show "seg_ok t n j" if "i \<le> j" "j < n" for j
        using that ok p by (cases "j = i") (auto simp: segs_post_def)
      show "flag_unsorted fl" if u using that p by (simp add: segs_post_def)
      show "flag_overlapping fl" if v using that p by (simp add: segs_post_def)
      show "ss t n j \<le> ss t n (Suc j)" "se t j \<le> se t (Suc j)"
        if "\<not> flag_unsorted fl" "i \<le> j" "Suc j < n" for j
        using that p by (cases "j = i"; auto simp: segs_post_def)+
      show "ls \<le> ss t n i" "le \<le> se t i" if "\<not> flag_unsorted fl" "0 < i" "i < n"
        using that p le Suc.prems(2) by (auto simp: segs_post_def)
      show "se t j < ss t n (Suc j)" if "\<not> flag_unsorted fl" "\<not> flag_overlapping fl" "i \<le> j" "Suc j < n" for j
        using that p by (cases "j = i") (auto simp: segs_post_def)
      show "le < ss t n i" if "\<not> flag_unsorted fl" "\<not> flag_overlapping fl" "0 < i" "i < n"
        using that p by (auto simp: segs_post_def)
    qed
    then show "Q fl s" by (rule Suc.prems(3))
  qed (use Suc.prems(1) in simp)
  then show ?case
    unfolding tt_cmap4_check_segs.simps rd Let_def
    by (auto simp: vsafe_simps not_less intro!: cmap4_offset_safe)
qed

lemma cmap4_safe:
  assumes "\<And>fl. table4_ok t fl \<Longrightarrow> 8 \<le> length t \<Longrightarrow> Q fl s"
  shows "vwp (tt_cmap4_validate Hosted t FT_VALIDATE_DEFAULT g) s Q"
proof -
  have post: "table4_ok t fl" if "16 + 8 * num_segs4 t \<le> length t"
    "segs_post t (num_segs4 t) 0 0 0 False False fl" for fl
  proof -
    have "num_segs4 t \<le> 32767" using u16_lt [of t 6] unfolding num_segs4_def by linarith
    then show ?thesis using that
      by (auto simp: table4_ok_def segs_ok_def segs_post_def segs_ordered_def seg_ok_def
          intro!: sorted_ranges.intro)
  qed
  have "vwp (tt_cmap4_check_segs Hosted t FT_VALIDATE_DEFAULT g len (num_segs4 t) 0 0 0 False False (num_segs4 t)) s Q"
    if "16 + 8 * num_segs4 t \<le> length t" for len
    using that assms post by (intro cmap4_segs_safe) auto
  moreover have "16 + 8 * num_segs4 t \<le> length t"
    if "len \<ge> 16 + num_segs4 t * 2 * 4" "len \<le> length t" for len
    using that by linarith
  moreover have "length t mod 4294967296 \<le> length t" by simp
  ultimately show ?thesis
    by (auto simp: tt_cmap4_validate_def vsafe_simps Let_def not_less num_segs4_def
        simp del: tt_cmap4_check_segs.simps split: if_splits)
qed

section \<open>One segment\<close>

text \<open>The glyph of a code by a delta and, if there is one, a slice.\<close>

definition seg_value :: "bytes \<Rightarrow> int \<Rightarrow> nat option \<Rightarrow> nat \<Rightarrow> nat \<Rightarrow> nat" where
  "seg_value t d vals start e =
     (case vals of
        Some v \<Rightarrow> (let g = u16 t (v + 2 * (e - start)) in if g \<noteq> 0 then u16_of_int (int g + d) else 0)
      | None \<Rightarrow> u16_of_int (int e + d))"

lemma seg_value_lt: "seg_value t d vals start e < 65536"
  by (simp add: seg_value_def Let_def split: option.split)

text \<open>
  \<open>seg_scan_ok f ng c lst r\<close>: \<open>r\<close> is right for a scan of the codes from \<open>c\<close> to \<open>lst\<close>; a glyph
  with its code, or 0 and a code not after \<open>lst + 1\<close>.
\<close>

definition seg_scan_ok :: "(nat \<Rightarrow> nat) \<Rightarrow> nat \<Rightarrow> nat \<Rightarrow> nat \<Rightarrow> nat \<times> nat \<Rightarrow> bool" where
  "seg_scan_ok f ng c lst r \<longleftrightarrow> c \<le> snd r \<and>
     (if fst r \<noteq> 0 then snd r \<le> lst \<and> f (snd r) = fst r \<and>
        (\<forall>e. c \<le> e \<and> e < snd r \<longrightarrow> clip_glyph ng (f e) = 0)
      else snd r \<le> max c (Suc lst) \<and> (\<forall>e. c \<le> e \<and> e \<le> lst \<longrightarrow> clip_glyph ng (f e) = 0))"

lemma seg_scan_over: "lst < c \<Longrightarrow> seg_scan_ok f ng c lst (0, c)"
  by (simp add: seg_scan_ok_def)

lemma seg_scan_found: "c \<le> lst \<Longrightarrow> f c = g \<Longrightarrow> g \<noteq> 0 \<Longrightarrow> seg_scan_ok f ng c lst (g, c)"
  by (simp add: seg_scan_ok_def)

lemma seg_scan_stop:
  "(\<And>e. c \<le> e \<Longrightarrow> e \<le> lst \<Longrightarrow> clip_glyph ng (f e) = 0) \<Longrightarrow> seg_scan_ok f ng c lst (0, c)"
  by (simp add: seg_scan_ok_def)

lemma seg_scan_skip:
  assumes "seg_scan_ok f ng k lst r" "c < k" "k \<le> Suc lst" "\<And>e. c \<le> e \<Longrightarrow> e < k \<Longrightarrow> clip_glyph ng (f e) = 0"
  shows "seg_scan_ok f ng c lst r"
proof (cases "fst r = 0")
  case True
  have "clip_glyph ng (f e) = 0" if "c \<le> e" "e \<le> lst" for e
    using that assms(1,4) True by (cases "e < k") (auto simp: seg_scan_ok_def)
  then show ?thesis using assms(1-3) True by (auto simp: seg_scan_ok_def)
next
  case False
  have "clip_glyph ng (f e) = 0" if "c \<le> e" "e < snd r" for e
    using that assms(1,4) False by (cases "e < k") (auto simp: seg_scan_ok_def)
  then show ?thesis using assms(1-3) False by (auto simp: seg_scan_ok_def)
qed

lemma u16_of_int_0 [simp]: "u16_of_int 0 = 0" "u16_of_int 65536 = 0"
  by (simp_all add: u16_of_int_def)

lemma u16_of_int_mono:
  assumes "x div 65536 = y div 65536" "x \<le> y"
  shows "u16_of_int x \<le> u16_of_int y"
proof -
  have "x mod 65536 \<le> y mod 65536"
    using assms minus_mult_div_eq_mod [of x 65536] minus_mult_div_eq_mod [of y 65536] by linarith
  then show ?thesis by (simp add: u16_of_int_def nat_mono)
qed

lemma u16_block:
  assumes "ng \<le> u16_of_int (int c + d)" "c \<le> e" "(int c + d) div 65536 = (int e + d) div 65536"
  shows "clip_glyph ng (u16_of_int (int e + d)) = 0"
  using u16_of_int_mono [OF assms(3)] assms(1,2) by (simp add: clip_glyph_def)

lemma div_blocks:
  fixes x :: int
  shows "- 65536 \<le> x \<Longrightarrow> x < 0 \<Longrightarrow> x div 65536 = - 1"
    "0 \<le> x \<Longrightarrow> x < 65536 \<Longrightarrow> x div 65536 = 0"
    "65536 \<le> x \<Longrightarrow> x < 131072 \<Longrightarrow> x div 65536 = 1"
  by (simp_all add: int_div_pos_eq [where r = "x + 65536"] int_div_pos_eq [where r = "x - 65536"]
      int_div_pos_eq [where r = x])

lemma scan_delta_spec:
  assumes "- 32768 \<le> d" "d < 32768" "lst < 65536"
  shows "seg_scan_ok (\<lambda>e. u16_of_int (int e + d)) ng c lst (tt_cmap4_scan_delta ng d lst c)"
proof (induction "Suc lst - c" arbitrary: c rule: less_induct)
  case less
  let ?f = "\<lambda>e. u16_of_int (int e + d)"
  have zero: "?f k = 0" if "int k + d = 0 \<or> int k + d = 65536" for k
    using that by (auto simp: u16_of_int_def)
  have jump: "seg_scan_ok ?f ng c lst (tt_cmap4_scan_delta ng d lst (Suc k))"
    if k: "c \<le> k" "k \<le> lst" "?f k = 0"
      and blk: "\<And>e. c \<le> e \<Longrightarrow> e < k \<Longrightarrow> clip_glyph ng (?f e) = 0" for k
  proof (rule seg_scan_skip)
    show "seg_scan_ok ?f ng (Suc k) lst (tt_cmap4_scan_delta ng d lst (Suc k))"
      using k by (intro less) linarith
    show "clip_glyph ng (?f e) = 0" if "c \<le> e" "e < Suc k" for e
      using that blk k(3) by (cases "e = k") (auto simp: clip_glyph_def)
  qed (use k in simp_all)
  show ?case
  proof (cases "c \<le> lst")
    case False
    then show ?thesis by (subst tt_cmap4_scan_delta.simps) (simp add: seg_scan_over)
  next
    case c: True
    consider (A) "ng \<le> ?f c" "int c + d < 0" "0 \<le> int lst + d"
      | (B) "ng \<le> ?f c" "\<not> (int c + d < 0 \<and> 0 \<le> int lst + d)" "int c + d < 65536" "65536 \<le> int lst + d"
      | (C) "ng \<le> ?f c" "\<not> (int c + d < 0 \<and> 0 \<le> int lst + d)" "\<not> (int c + d < 65536 \<and> 65536 \<le> int lst + d)"
      | (D) "\<not> ng \<le> ?f c" "?f c \<noteq> 0" | (E) "\<not> ng \<le> ?f c" "?f c = 0" by linarith
    then show ?thesis
    proof cases
      case A
      have "seg_scan_ok ?f ng c lst (tt_cmap4_scan_delta ng d lst (Suc (nat (- d))))"
      proof (rule jump)
        show "clip_glyph ng (?f e) = 0" if "c \<le> e" "e < nat (- d)" for e
          using that A assms by (intro u16_block [OF A(1)]) (simp_all add: div_blocks(1))
      qed (use A in \<open>auto intro: zero\<close>)
      then show ?thesis using A c by (subst tt_cmap4_scan_delta.simps) simp
    next
      case B
      then have b: "0 \<le> int c + d" by linarith
      have "seg_scan_ok ?f ng c lst (tt_cmap4_scan_delta ng d lst (Suc (nat (65536 - d))))"
      proof (rule jump)
        show "clip_glyph ng (?f e) = 0" if "c \<le> e" "e < nat (65536 - d)" for e
          using that b assms B by (intro u16_block [OF B(1)]) (simp_all add: div_blocks(2))
      qed (use B assms in \<open>auto intro: zero\<close>)
      then show ?thesis using B c by (subst tt_cmap4_scan_delta.simps) (simp add: not_less)
    next
      case C
      have "clip_glyph ng (?f e) = 0" if e: "c \<le> e" "e \<le> lst" for e
      proof (rule u16_block [OF C(1) e(1)])
        consider "int c + d < 0" "int e + d < 0" | "0 \<le> int c + d" "int c + d < 65536" "int e + d < 65536"
          | "65536 \<le> int c + d" using C e by linarith
        then show "(int c + d) div 65536 = (int e + d) div 65536"
          by cases (use e assms in \<open>simp_all add: div_blocks\<close>)
      qed
      then have "seg_scan_ok ?f ng c lst (0, c)" by (rule seg_scan_stop)
      then show ?thesis using C c by (subst tt_cmap4_scan_delta.simps) auto
    next
      case D
      then show ?thesis using c by (subst tt_cmap4_scan_delta.simps) (simp add: seg_scan_found)
    next
      case E
      then have "seg_scan_ok ?f ng c lst (tt_cmap4_scan_delta ng d lst (Suc c))"
        using c by (intro jump) simp_all
      then show ?thesis using E c by (subst tt_cmap4_scan_delta.simps) simp
    qed
  qed
qed

lemma slice_room: "a \<le> b \<Longrightarrow> v + 2 * (b + 1) \<le> (l :: nat) \<Longrightarrow> v + 2 * a + 2 \<le> l"
  by simp

lemma scan_values_spec:
  assumes "start \<le> c" "c + k = Suc lst" "v + 2 * (lst - start + 1) \<le> length t"
  shows "\<exists>r. tt_cmap4_scan_values t d k (v + 2 * (c - start)) c = Some r \<and>
    seg_scan_ok (seg_value t d (Some v) start) ng c lst r"
  using assms(1,2)
proof (induction k arbitrary: c)
  case 0
  then show ?case by (simp add: seg_scan_ok_def)
next
  case (Suc k)
  let ?f = "seg_value t d (Some v) start"
  have c: "c \<le> lst" using Suc.prems(2) by simp
  have "c - start \<le> lst - start" using c by (rule diff_le_mono)
  then have "v + 2 * (c - start) + 2 \<le> length t" using assms(3) by (rule slice_room)
  note rd = peek_ushort_ok [OF this]
  have p: "v + 2 * (c - start) + 2 = v + 2 * (Suc c - start)" using Suc.prems(1) by linarith
  obtain r where r: "tt_cmap4_scan_values t d k (v + 2 * (Suc c - start)) (Suc c) = Some r"
    "seg_scan_ok ?f ng (Suc c) lst r" using Suc.IH [of "Suc c"] Suc.prems by auto
  have fc: "?f c = (let g = u16 t (v + 2 * (c - start)) in if g \<noteq> 0 then u16_of_int (int g + d) else 0)"
    by (simp add: seg_value_def)
  have step: "tt_cmap4_scan_values t d (Suc k) (v + 2 * (c - start)) c =
      (if ?f c \<noteq> 0 then Some (?f c, c) else Some r)"
    unfolding tt_cmap4_scan_values.simps rd bind.bind_lunit Suc_eq_plus1 [symmetric] p r(1) fc Let_def ..
  show ?case
  proof (cases "?f c = 0")
    case True
    have "seg_scan_ok ?f ng c lst r"
      by (rule seg_scan_skip [OF r(2)]) (use True c in \<open>auto simp: less_Suc_eq_le clip_glyph_def dest: le_antisym\<close>)
    then show ?thesis using step True by simp
  next
    case False
    then show ?thesis using step c by (simp add: seg_scan_found)
  qed
qed

section \<open>The cursor\<close>

text \<open>The slice the cursor points to has an entry for every code of its segment.\<close>

definition cursor_safe :: "TT_CMap4 \<Rightarrow> bool" where
  "cursor_safe st \<longleftrightarrow> c4_start st \<le> c4_end st \<and> c4_end st < 65536 \<and>
     - 32768 \<le> c4_delta st \<and> c4_delta st < 32768 \<and>
     (case c4_values st of None \<Rightarrow> True
      | Some v \<Rightarrow> v + 2 * (c4_end st - c4_start st + 1) \<le> length (c4_data st))"

lemma scan_segment_spec:
  assumes "cursor_safe st" "c4_start st \<le> c"
  shows "\<exists>r. tt_cmap4_scan_segment ng st c = Some r \<and>
    seg_scan_ok (seg_value (c4_data st) (c4_delta st) (c4_values st) (c4_start st)) ng c (c4_end st) r"
proof (cases "c \<le> c4_end st")
  case False
  then show ?thesis by (simp add: tt_cmap4_scan_segment_def seg_scan_over)
next
  case True
  show ?thesis
  proof (cases "c4_values st")
    case None
    have "seg_scan_ok (\<lambda>e. u16_of_int (int e + c4_delta st)) ng c (c4_end st)
        (tt_cmap4_scan_delta ng (c4_delta st) (c4_end st) c)"
      using assms(1) by (intro scan_delta_spec) (simp_all add: cursor_safe_def)
    then show ?thesis using True None
      by (simp add: tt_cmap4_scan_segment_def seg_value_def [abs_def])
  next
    case (Some v)
    have b: "c4_end st < 65536" and len: "v + 2 * (c4_end st - c4_start st + 1) \<le> length (c4_data st)"
      using assms(1) Some by (simp_all add: cursor_safe_def)
    have s: "sub32 c (c4_start st) = c - c4_start st" using assms(2) True b by (intro sub32_le) linarith+
    have m: "mul32 2 (c - c4_start st) = 2 * (c - c4_start st)" using True b by (intro mul32_small) linarith
    have "c - c4_start st \<le> c4_end st - c4_start st" using True by (rule diff_le_mono)
    then have "v + 2 * (c - c4_start st) + 2 \<le> length (c4_data st)" using len by (rule slice_room)
    then have p: "\<not> v + 2 * (c - c4_start st) > length (c4_data st)" by simp
    have "c + (c4_end st + 1 - c) = Suc (c4_end st)" using True by simp
    from scan_values_spec [OF assms(2) this len] show ?thesis
      using True Some p by (simp add: tt_cmap4_scan_segment_def s m Let_def)
  qed
qed

text \<open>The cursor at segment \<open>i\<close>.\<close>

definition at_segment :: "TT_CMap4 \<Rightarrow> nat \<Rightarrow> TT_CMap4" where
  "at_segment st i =
     (let t = c4_data st; n = c4_num_ranges st in
      st\<lparr>c4_end := se t i, c4_start := ss t n i, c4_delta := fst (eff t n i),
        c4_values := (if snd (eff t n i) \<noteq> 0 then Some (16 + 6 * n + 2 * i + snd (eff t n i)) else None),
        c4_range := i\<rparr>)"

lemma at_segment_safe:
  assumes "segs_ok (c4_data st) (c4_num_ranges st)" "i < c4_num_ranges st"
    and "snd (eff (c4_data st) (c4_num_ranges st) i) \<noteq> 65535"
  shows "cursor_safe (at_segment st i)"
  using seg_le [OF assms(1,2)] eff_slice [OF assms(1,2) _ assms(3)] eff_bounds [of "c4_data st" "c4_num_ranges st" i]
  by (simp add: cursor_safe_def at_segment_def Let_def)

lemma set_range_spec:
  assumes "segs_ok (c4_data st) (c4_num_ranges st)"
  shows "tt_cmap4_set_range st i =
    (if i \<ge> c4_num_ranges st then Some (- 1, st)
     else if snd (eff (c4_data st) (c4_num_ranges st) i) \<noteq> 65535 then Some (0, at_segment st i)
     else Some (- 1, st\<lparr>c4_end := 65535, c4_start := 65535,
       c4_delta := fst (eff (c4_data st) (c4_num_ranges st) i)\<rparr>))"
proof (cases "i < c4_num_ranges st")
  case False
  then show ?thesis by (simp add: tt_cmap4_set_range_def)
next
  case True
  let ?t = "c4_data st" and ?n = "c4_num_ranges st"
  obtain k where k: "?n - i = Suc k" using True by (cases "?n - i") auto
  note rd = seg_reads [OF assms True]
  have e: "tt_cmap4_fix_last ?t ?n i (ss ?t ?n i) (se ?t i) (16 + 6 * ?n + 2 * i) (sd ?t ?n i) (so ?t ?n i) =
      (fst (eff ?t ?n i), snd (eff ?t ?n i))" by (simp add: eff_def)
  have step: "tt_cmap4_set_range st i =
      (if snd (eff ?t ?n i) \<noteq> 65535 then Some (0, at_segment st i)
       else tt_cmap4_set_range_loop (st\<lparr>c4_end := se ?t i, c4_start := ss ?t ?n i, c4_delta := fst (eff ?t ?n i)\<rparr>) k (i + 1))"
    unfolding tt_cmap4_set_range_def k tt_cmap4_set_range_loop.simps Let_def rd bind.bind_lunit e prod.case
    by (simp add: at_segment_def Let_def)
  show ?thesis
  proof (cases "snd (eff ?t ?n i) = 65535")
    case False
    then show ?thesis using step True by simp
  next
    case none: True
    have "k = 0" using eff_none(1) [OF assms True none] k by simp
    then show ?thesis using step True none eff_none [OF assms True none] by simp
  qed
qed

end
