(* ===== verification/Tt_CMap4_Lookup.thy ===== *)
theory Tt_CMap4_Lookup
  imports Tt_CMap4_Safety
begin

text \<open>
  Format 4, second part of the proofs: the map a table stands for, that the linear search and
  the bisection both compute it, and the interface \<open>tt_cmap_class\<close>.
\<close>

section \<open>The map\<close>

definition seg_slice :: "bytes \<Rightarrow> nat \<Rightarrow> nat \<Rightarrow> nat option" where
  "seg_slice t n i = (if snd (eff t n i) \<noteq> 0 then Some (16 + 6 * n + 2 * i + snd (eff t n i)) else None)"

definition seg_map :: "bytes \<Rightarrow> nat \<Rightarrow> nat \<Rightarrow> nat \<Rightarrow> nat" where
  "seg_map t n i c =
     (if snd (eff t n i) = 65535 then 0
      else seg_value t (fst (eff t n i)) (seg_slice t n i) (ss t n i) c)"

definition first_seg :: "bytes \<Rightarrow> nat \<Rightarrow> nat \<Rightarrow> nat option" where
  "first_seg t n c = find (\<lambda>i. c \<le> se t i) [0..<n]"

text \<open>Unordered segments: the first one that stops the loop of the linear search.\<close>

definition linear_map :: "bytes \<Rightarrow> nat \<Rightarrow> nat \<Rightarrow> nat \<Rightarrow> nat" where
  "linear_map t n i c =
     (case find (\<lambda>i. c < ss t n i \<or> c \<le> se t i \<and> snd (eff t n i) \<noteq> 65535) [i..<n] of
        None \<Rightarrow> 0 | Some i \<Rightarrow> if c < ss t n i then 0 else seg_map t n i c)"

text \<open>Ordered segments: the first one that ends at or after the code.\<close>

definition ordered_map :: "bytes \<Rightarrow> nat \<Rightarrow> nat \<Rightarrow> nat" where
  "ordered_map t n c =
     (case first_seg t n c of None \<Rightarrow> 0 | Some i \<Rightarrow> if c < ss t n i then 0 else seg_map t n i c)"

definition cmap4_map :: "bytes \<Rightarrow> nat \<Rightarrow> nat \<Rightarrow> nat" where
  "cmap4_map t fl c =
     (if c \<ge> 65536 then 0
      else if flag_unsorted fl then linear_map t (num_segs4 t) 0 c
      else ordered_map t (num_segs4 t) c)"

lemma seg_map_lt: "seg_map t n i c < 65536"
  by (simp add: seg_map_def seg_value_lt)

section \<open>The glyph of a code in a segment\<close>

definition eff_seg :: "bytes \<Rightarrow> nat \<Rightarrow> nat \<Rightarrow> seg4" where
  "eff_seg t n i = \<lparr>sg_end = se t i, sg_start = ss t n i, sg_delta = fst (eff t n i),
     sg_offset = snd (eff t n i), sg_p = 16 + 6 * n + 2 * i\<rparr>"

lemma read_seg:
  assumes "segs_ok t n" "i < n"
  shows "tt_cmap4_read_seg t n i = Some \<lparr>sg_end = se t i, sg_start = ss t n i, sg_delta = sd t n i,
     sg_offset = so t n i, sg_p = 16 + 6 * n + 2 * i\<rparr>"
  using seg_reads [OF assms] by (simp add: tt_cmap4_read_seg_def)

lemma read_inner_seg: "segs_ok t n \<Longrightarrow> i < n - 1 \<Longrightarrow> tt_cmap4_read_seg t n i = Some (eff_seg t n i)"
  by (simp add: read_seg eff_seg_def eff_raw)

text \<open>The entry of a code in the slice of its segment.\<close>

lemma slice_entry:
  assumes "segs_ok t n" "i < n" "snd (eff t n i) \<noteq> 0" "snd (eff t n i) \<noteq> 65535"
    and "ss t n i \<le> c" "c \<le> se t i"
  defines "p \<equiv> 16 + 6 * n + 2 * i + (snd (eff t n i) + mul32 (sub32 c (ss t n i)) 2)"
  shows "p + 2 \<le> length t"
    "seg_map t n i c = (let g = u16 t p in if g \<noteq> 0 then u16_of_int (int g + fst (eff t n i)) else 0)"
proof -
  have s: "sub32 c (ss t n i) = c - ss t n i" using assms(5,6) seg_lt(2) [of t i] by (intro sub32_le) linarith+
  have "c < 65536" using assms(6) seg_lt(2) [of t i] by linarith
  then have m: "mul32 (c - ss t n i) 2 = 2 * (c - ss t n i)" by (simp add: mul32_small)
  have p: "p = 16 + 6 * n + 2 * i + snd (eff t n i) + 2 * (c - ss t n i)" by (simp add: p_def s m)
  have "c - ss t n i \<le> se t i - ss t n i" using assms(6) by (rule diff_le_mono)
  then show "p + 2 \<le> length t" unfolding p using eff_slice [OF assms(1-4)] by (rule slice_room)
  show "seg_map t n i c = (let g = u16 t p in if g \<noteq> 0 then u16_of_int (int g + fst (eff t n i)) else 0)"
    using assms(3,4) by (simp add: seg_map_def seg_value_def seg_slice_def p)
qed

lemma seg_map_delta: "snd (eff t n i) = 0 \<Longrightarrow> seg_map t n i c = u16_of_int (int c + fst (eff t n i))"
  by (simp add: seg_map_def seg_value_def seg_slice_def)

text \<open>
  With a delta, the codes that are skipped when a glyph is out of range: \<open>skip_to\<close> is the
  code both searches go on with, and nothing up to it has a usable glyph.
\<close>

definition skip_to :: "int \<Rightarrow> nat \<Rightarrow> nat \<Rightarrow> nat" where
  "skip_to d lst c =
     (if int c + d < 0 \<and> int lst + d \<ge> 0 then nat (- d)
      else if int c + d < 65536 \<and> int lst + d \<ge> 65536 then nat (65536 - d) else c)"

lemma skip_to_bounds: "c \<le> lst \<Longrightarrow> c \<le> skip_to d lst c \<and> skip_to d lst c \<le> lst"
  by (auto simp: skip_to_def)

lemma skip_to_unusable:
  assumes "- 32768 \<le> d" "d < 32768" "ng \<le> u16_of_int (int c + d)" "c \<le> e" "e \<le> skip_to d lst c"
  shows "clip_glyph ng (u16_of_int (int e + d)) = 0"
proof -
  consider (A) "int c + d < 0" "int lst + d \<ge> 0"
    | (B) "\<not> (int c + d < 0 \<and> int lst + d \<ge> 0)" "int c + d < 65536" "int lst + d \<ge> 65536"
    | (C) "skip_to d lst c = c" unfolding skip_to_def by meson
  then show ?thesis
  proof cases
    case A
    then have k: "skip_to d lst c = nat (- d)" by (simp add: skip_to_def)
    show ?thesis
    proof (cases "int e + d = 0")
      case True
      then show ?thesis by (simp add: clip_glyph_def)
    next
      case False
      then have "int e + d < 0" using assms(5) A unfolding k by linarith
      then show ?thesis using A assms by (intro u16_block [OF assms(3,4)]) (simp add: div_blocks(1))
    qed
  next
    case B
    then have k: "skip_to d lst c = nat (65536 - d)" by (auto simp: skip_to_def)
    have p: "0 \<le> int c + d" using B by linarith
    show ?thesis
    proof (cases "int e + d = 65536")
      case True
      then show ?thesis by (simp add: clip_glyph_def)
    next
      case False
      then have "int e + d < 65536" using assms(2,5) unfolding k by linarith
      then show ?thesis using B p assms by (intro u16_block [OF assms(3,4)]) (simp add: div_blocks(2))
    qed
  next
    case C
    then show ?thesis using assms by (simp add: clip_glyph_def)
  qed
qed

definition glyph_in_seg_ok :: "bytes \<Rightarrow> nat \<Rightarrow> nat \<Rightarrow> nat \<Rightarrow> bool \<Rightarrow> nat \<Rightarrow> nat \<times> nat \<Rightarrow> bool" where
  "glyph_in_seg_ok t n i ng nxt c r \<longleftrightarrow> fst r < 65536 \<and> c \<le> snd r \<and> snd r \<le> se t i \<and>
     (if nxt then
        (if fst r \<noteq> 0 then snd r = c \<and> fst r = seg_map t n i c
         else \<forall>e. c \<le> e \<and> e \<le> snd r \<longrightarrow> clip_glyph ng (seg_map t n i e) = 0)
      else snd r = c \<and> clip_glyph ng (fst r) = clip_glyph ng (seg_map t n i c))"

lemma seg_glyph_spec:
  assumes "segs_ok t n" "i < n" "snd (eff t n i) \<noteq> 65535" "ss t n i \<le> c" "c \<le> se t i"
  shows "\<exists>r. tt_cmap4_seg_glyph t ng nxt (eff_seg t n i) c = Some r \<and> glyph_in_seg_ok t n i ng nxt c r"
proof (cases "snd (eff t n i) = 0")
  case False
  let ?p = "16 + 6 * n + 2 * i + (snd (eff t n i) + mul32 (sub32 c (ss t n i)) 2)"
  note e = slice_entry [OF assms(1,2) False assms(3-5)]
  have "\<not> ?p > length t" using e(1) by linarith
  moreover have "peek_ushort t ?p = Some (u16 t ?p)" using e(1) by simp
  ultimately have "tt_cmap4_seg_glyph t ng nxt (eff_seg t n i) c =
      Some (if seg_map t n i c \<ge> ng then 0 else seg_map t n i c, c)"
    unfolding e(2) using False by (simp add: tt_cmap4_seg_glyph_def eff_seg_def Let_def)
  then show ?thesis using assms(5) seg_map_lt [of t n i c]
    by (auto simp: glyph_in_seg_ok_def clip_glyph_def le_antisym)
next
  case True
  let ?d = "fst (eff t n i)"
  have m: "seg_map t n i e = u16_of_int (int e + ?d)" for e by (rule seg_map_delta [OF True])
  show ?thesis
  proof (cases "nxt \<and> ng \<le> seg_map t n i c")
    case skip: True
    have "tt_cmap4_seg_glyph t ng nxt (eff_seg t n i) c = Some (0, skip_to ?d (se t i) c)"
      using True skip by (auto simp: tt_cmap4_seg_glyph_def eff_seg_def skip_to_def m)
    moreover have "clip_glyph ng (seg_map t n i e) = 0" if "c \<le> e" "e \<le> skip_to ?d (se t i) c" for e
      unfolding m using skip that by (intro skip_to_unusable [OF eff_bounds(1,2)]) (simp_all add: m)
    ultimately show ?thesis using skip skip_to_bounds [OF assms(5), of ?d]
      by (auto simp: glyph_in_seg_ok_def)
  next
    case False
    then have "tt_cmap4_seg_glyph t ng nxt (eff_seg t n i) c = Some (seg_map t n i c, c)"
      using True by (auto simp: tt_cmap4_seg_glyph_def eff_seg_def m)
    then show ?thesis using assms(5) seg_map_lt [of t n i c]
      by (auto simp: glyph_in_seg_ok_def clip_glyph_def le_antisym)
  qed
qed

section \<open>The bisection\<close>

lemma ordered_mono:
  assumes "segs_ordered t n" "i \<le> j" "j < n"
  shows "ss t n i \<le> ss t n j \<and> se t i \<le> se t j"
  using assms(2,3)
proof (induction j)
  case (Suc j)
  then show ?case using assms(1) by (cases "i = Suc j") (fastforce simp: segs_ordered_def)+
qed simp

lemma first_seg_eq:
  assumes "i < n" "c \<le> se t i" "\<And>j. j < i \<Longrightarrow> se t j < c"
  shows "first_seg t n c = Some i"
  using assms unfolding first_seg_def find_Some_iff by (auto simp: not_le intro!: exI [of _ i])

lemma first_seg_None: "(\<And>j. j < n \<Longrightarrow> se t j < c) \<Longrightarrow> first_seg t n c = None"
  by (auto simp: first_seg_def find_None_iff not_le)

lemma search4_spec:
  assumes ok: "segs_ok t n" and ord: "segs_ordered t n" and "mn < mx" "mx \<le> n"
    and "\<forall>i < mn. se t i < c" "\<forall>i. mx \<le> i \<and> i < n \<longrightarrow> c < ss t n i"
  shows "\<exists>mid hit. tt_cmap4_search t n c mn mx = Some (mid, se t mid, hit) \<and> mid < n \<and>
    (hit \<longleftrightarrow> ss t n mid \<le> c \<and> c \<le> se t mid) \<and>
    (\<not> hit \<longrightarrow> (\<forall>i < mid. se t i < c) \<and> (\<forall>i. mid < i \<and> i < n \<longrightarrow> c < ss t n i))"
    (is "?P (tt_cmap4_search t n c mn mx)")
  using assms(3-)
proof (induction "mx - mn" arbitrary: mn mx rule: less_induct)
  case less
  define mid where "mid = (mn + mx) div 2"
  have mid: "mn \<le> mid" "mid < mx" "mid < n" using less.prems by (auto simp: mid_def)
  note rd = seg_reads(1,2) [OF ok mid(3)]
  have unf: "tt_cmap4_search t n c mn mx =
      (if c < ss t n mid then
         (if mn < mid then tt_cmap4_search t n c mn mid else Some (mid, se t mid, False))
       else if c > se t mid then
         (if mid + 1 < mx then tt_cmap4_search t n c (mid + 1) mx else Some (mid, se t mid, False))
       else Some (mid, se t mid, True))"
    by (subst tt_cmap4_search.simps) (simp add: rd flip: mid_def)
  have lo: "c < ss t n i" if "c < ss t n mid" "mid \<le> i" "i < n" for i
    using that ordered_mono [OF ord, of mid i] by simp
  have hi: "se t i < c" if "se t mid < c" "i \<le> mid" for i
    using that ordered_mono [OF ord, of i mid] mid(3) by simp
  consider (left) "c < ss t n mid" | (right) "se t mid < c" "\<not> c < ss t n mid"
    | (hit) "ss t n mid \<le> c" "c \<le> se t mid" by linarith
  then show ?case
  proof cases
    case left
    show ?thesis
    proof (cases "mn < mid")
      case True
      have "\<forall>i. mid \<le> i \<and> i < n \<longrightarrow> c < ss t n i" using lo [OF left] by blast
      then have "?P (tt_cmap4_search t n c mn mid)"
        using True mid less.prems(1,3) by (intro less.hyps) simp_all
      then show ?thesis using True left unf by simp
    next
      case False
      then have "mn = mid" using mid(1) by simp
      moreover have "\<forall>i. mid < i \<and> i < n \<longrightarrow> c < ss t n i" using lo [OF left] by simp
      ultimately show ?thesis using left unf mid(3) less.prems(3) by simp
    qed
  next
    case right
    have h: "\<forall>i < mid + 1. se t i < c" using hi [OF right(1)] by simp
    show ?thesis
    proof (cases "mid + 1 < mx")
      case True
      then have "?P (tt_cmap4_search t n c (mid + 1) mx)"
        using h mid less.prems(2,4) by (intro less.hyps) simp_all
      then show ?thesis using True right unf by simp
    next
      case False
      then have "mx = mid + 1" using mid(2) by simp
      then have "\<forall>i. mid < i \<and> i < n \<longrightarrow> c < ss t n i" using less.prems(4) by simp
      then show ?thesis using False right unf mid(3) h by (simp add: not_le)
    qed
  next
    case hit
    then show ?thesis using unf mid by auto
  qed
qed

lemma back_spec:
  assumes ok: "segs_ok t n" and "i < n"
  shows "\<exists>f \<le> i. tt_cmap4_back t n c i mid sg =
      Some (f, if f = i then mid else f, if f = i then sg else eff_seg t n f) \<and>
    (\<forall>j. f \<le> j \<and> j < i \<longrightarrow> c \<le> se t j) \<and> (0 < f \<longrightarrow> se t (f - 1) < c)"
  using assms(2)
proof (induction i arbitrary: mid sg)
  case (Suc i)
  have i: "i < n" "i < n - 1" using Suc.prems by simp_all
  have o: "snd (eff t n i) \<noteq> 65535" using eff_none(1) [OF ok i(1)] i by auto
  show ?case
  proof (cases "c > se t i")
    case True
    then show ?thesis using seg_reads(1) [OF ok i(1)] by (intro exI [of _ "Suc i"]) auto
  next
    case False
    obtain f where f: "f \<le> i" "tt_cmap4_back t n c i i (eff_seg t n i) =
        Some (f, if f = i then i else f, if f = i then eff_seg t n i else eff_seg t n f)"
      "\<forall>j. f \<le> j \<and> j < i \<longrightarrow> c \<le> se t j" "0 < f \<longrightarrow> se t (f - 1) < c"
      using Suc.IH [OF i(1)] by blast
    have "tt_cmap4_back t n c (Suc i) mid sg = tt_cmap4_back t n c i i (eff_seg t n i)"
      using False o by (simp add: seg_reads(1) [OF ok i(1)] read_inner_seg [OF ok i(2)] eff_seg_def)
    moreover have "c \<le> se t j" if "f \<le> j" "j < Suc i" for j
      using that f(3) False by (cases "j = i") auto
    ultimately show ?thesis using f(1,2,4) by (intro exI [of _ f]) (auto split: if_splits)
  qed
qed simp

lemma overlap_spec:
  assumes ok: "segs_ok t n" and ord: "segs_ordered t n" and mx: "mx < n" "ss t n mx \<le> c" "c \<le> se t mx"
  shows "\<exists>m. tt_cmap4_overlap t n c mx (eff_seg t n mx) = Some (snd (eff t n m) \<noteq> 65535, m, eff_seg t n m) \<and>
    m < n \<and> ss t n m \<le> c \<and> c \<le> se t m \<and> first_seg t n c = Some m"
proof -
  let ?mid = "if sg_offset (eff_seg t n mx) = 65535 then mx + 1 else mx"
  obtain f where f: "f \<le> mx" "tt_cmap4_back t n c mx ?mid (eff_seg t n mx) =
      Some (f, if f = mx then ?mid else f, if f = mx then eff_seg t n mx else eff_seg t n f)"
    "\<forall>j. f \<le> j \<and> j < mx \<longrightarrow> c \<le> se t j" "0 < f \<longrightarrow> se t (f - 1) < c"
    using back_spec [OF ok mx(1)] by blast
  have fn: "f < n" using f(1) mx(1) by simp
  have e: "c \<le> se t f" using f(1,3) mx(3) by (cases "f = mx") auto
  have "se t j < c" if "j < f" for j
    using that f(4) ordered_mono [OF ord, of j "f - 1"] fn by fastforce
  then have first: "first_seg t n c = Some f" using fn e by (intro first_seg_eq)
  have s: "ss t n f \<le> c" using ordered_mono [OF ord f(1) mx(1)] mx(2) by simp
  have o: "snd (eff t n f) \<noteq> 65535" if "f < mx" using eff_none(1) [OF ok fn] that mx(1) by auto
  have "tt_cmap4_overlap t n c mx (eff_seg t n mx) = Some (snd (eff t n f) \<noteq> 65535, f, eff_seg t n f)"
  proof (cases "snd (eff t n mx) = 65535")
    case True
    then have "mx = n - 1" by (rule eff_none(1) [OF ok mx(1)])
    then have "n - (mx + 1) = 0" by simp
    then show ?thesis using f(1,2) True o
      by (cases "f = mx") (auto simp: tt_cmap4_overlap_def eff_seg_def)
  next
    case False
    then show ?thesis using f(1,2) o
      by (cases "f = mx") (auto simp: tt_cmap4_overlap_def eff_seg_def)
  qed
  then show ?thesis using fn e s first by blast
qed

text \<open>A hit: the segment used is the first that contains the code.\<close>

lemma hit_spec:
  assumes ok: "table4_ok t fl" and n: "n = num_segs4 t" and u: "\<not> flag_unsorted fl"
    and mid: "mid < n" "ss t n mid \<le> c" "c \<le> se t mid"
  shows "\<exists>m g c'. tt_cmap4_hit t fl ng nxt n mid c = Some (m, se t m, c', g) \<and> m < n \<and>
    ss t n m \<le> c \<and> c \<le> se t m \<and> first_seg t n c = Some m \<and> glyph_in_seg_ok t n m ng nxt c (g, c')"
proof -
  have s: "segs_ok t n" and ord: "segs_ordered t n" using ok n u by (simp_all add: table4_ok_def)
  have "\<exists>m. (if flag_overlapping fl then tt_cmap4_overlap t n c mid (eff_seg t n mid)
        else Some (sg_offset (eff_seg t n mid) \<noteq> 65535, mid, eff_seg t n mid)) =
      Some (snd (eff t n m) \<noteq> 65535, m, eff_seg t n m) \<and>
    m < n \<and> ss t n m \<le> c \<and> c \<le> se t m \<and> first_seg t n c = Some m"
  proof (cases "flag_overlapping fl")
    case True
    then show ?thesis using overlap_spec [OF s ord mid] by simp
  next
    case False
    then have "sorted_ranges (ss t n) (se t) n" using ok n u by (simp add: table4_ok_def)
    then have "se t j < c" if "j < mid" for j
      using sorted_ranges.hi_less_lo that mid(1,2) by (meson less_le_trans)
    then have "first_seg t n c = Some mid" using mid by (intro first_seg_eq)
    then show ?thesis using False mid by (intro exI [of _ mid]) (simp add: eff_seg_def)
  qed
  then obtain m where m: "(if flag_overlapping fl then tt_cmap4_overlap t n c mid (eff_seg t n mid)
        else Some (sg_offset (eff_seg t n mid) \<noteq> 65535, mid, eff_seg t n mid)) =
      Some (snd (eff t n m) \<noteq> 65535, m, eff_seg t n m)"
    "m < n" "ss t n m \<le> c" "c \<le> se t m" "first_seg t n c = Some m" by blast
  obtain d off where e: "tt_cmap4_fix_last t n mid (ss t n mid) (se t mid) (16 + 6 * n + 2 * mid)
      (sd t n mid) (so t n mid) = (d, off)" by (metis surj_pair)
  have upd: "\<lparr>sg_end = se t mid, sg_start = ss t n mid, sg_delta = sd t n mid, sg_offset = so t n mid,
      sg_p = 16 + 6 * n + 2 * mid\<rparr>\<lparr>sg_delta := d, sg_offset := off\<rparr> = eff_seg t n mid"
    using e by (simp add: eff_seg_def eff_def)
  have run: "tt_cmap4_hit t fl ng nxt n mid c =
      (if snd (eff t n m) = 65535 then Some (m, se t m, c, 0)
       else do { (g, c') \<leftarrow> tt_cmap4_seg_glyph t ng nxt (eff_seg t n m) c; Some (m, se t m, c', g) })"
    unfolding tt_cmap4_hit_def read_seg [OF s mid(1)] bind.bind_lunit Let_def seg4.select_convs e
      prod.case upd m(1)
    by (simp add: eff_seg_def)
  show ?thesis
  proof (cases "snd (eff t n m) = 65535")
    case True
    then show ?thesis using run m(2-) by (auto simp: glyph_in_seg_ok_def seg_map_def clip_glyph_def)
  next
    case False
    from seg_glyph_spec [OF s m(2) False m(3,4), of ng nxt] show ?thesis
      using run m(2-) False by auto
  qed
qed

end
