(* ===== verification/Tt_CMap4_Class.thy ===== *)
theory Tt_CMap4_Class
  imports Tt_CMap4_Lookup
begin

text \<open>
  Format 4, third part of the proofs: both searches compute \<open>cmap4_map\<close>, every loop ends, the
  cursor stays inside the table, and the interface \<open>tt_cmap_class\<close>.
\<close>

section \<open>Objects in order\<close>

definition cmap4_ok :: "bytes \<Rightarrow> nat \<Rightarrow> TT_CMap4 \<Rightarrow> bool" where
  "cmap4_ok t fl st \<longleftrightarrow> c4_data st = t \<and> c4_flags st = fl \<and> c4_num_ranges st = num_segs4 t \<and>
     table4_ok t fl \<and> cursor_safe st \<and> c4_charcode st < 4294967296"

lemma table4_segs: "table4_ok t fl \<Longrightarrow> segs_ok t (num_segs4 t)"
  by (simp add: table4_ok_def)

lemma table4_count: "table4_ok t fl \<Longrightarrow> peek_ushort t 6 = Some (u16 t 6)"
  using table4_segs [of t fl] by (auto simp: segs_ok_def intro!: peek_ushort_ok)

lemma cmap4_ok_init:
  assumes "table4_ok t fl"
  shows "\<exists>st. tt_cmap4_init t fl = Some st \<and> cmap4_ok t fl st"
  using table4_count [OF assms] table4_segs [OF assms] assms
  by (simp add: tt_cmap4_init_def cmap4_ok_def cursor_safe_def num_segs4_def segs_ok_def)

lemma at_segment_select [simp]:
  "c4_data (at_segment st i) = c4_data st" "c4_flags (at_segment st i) = c4_flags st"
  "c4_num_ranges (at_segment st i) = c4_num_ranges st" "c4_charcode (at_segment st i) = c4_charcode st"
  "c4_gindex (at_segment st i) = c4_gindex st" "c4_range (at_segment st i) = i"
  "c4_start (at_segment st i) = ss (c4_data st) (c4_num_ranges st) i"
  "c4_end (at_segment st i) = se (c4_data st) i"
  by (simp_all add: at_segment_def Let_def)

text \<open>The object after a cursor move that failed on a segment without glyphs.\<close>

lemma cursor_safe_end:
  assumes "cursor_safe st" "- 32768 \<le> d" "d < 32768"
  shows "cursor_safe (st\<lparr>c4_end := 65535, c4_start := 65535, c4_delta := d\<rparr>)"
  using assms by (auto simp: cursor_safe_def split: option.splits)

lemma set_range_ok:
  assumes ok: "cmap4_ok t fl st"
  shows "\<exists>r st'. tt_cmap4_set_range st i = Some (r, st') \<and> cmap4_ok t fl st' \<and>
    (r = 0 \<longrightarrow> i < num_segs4 t \<and> c4_range st' = i \<and> st' = at_segment st i) \<and> (r \<noteq> 0 \<longrightarrow> r = - 1)"
proof -
  have s: "segs_ok (c4_data st) (c4_num_ranges st)" using ok by (simp add: cmap4_ok_def table4_ok_def)
  show ?thesis
    unfolding set_range_spec [OF s]
    using ok at_segment_safe [OF s, of i] cursor_safe_end [of st] eff_bounds
    by (auto simp: cmap4_ok_def)
qed

lemma cursor_upd [simp]:
  "cursor_safe (st\<lparr>c4_charcode := c\<rparr>) = cursor_safe st"
  "cursor_safe (st\<lparr>c4_gindex := g\<rparr>) = cursor_safe st"
  by (auto simp: cursor_safe_def split: option.splits)

lemma cmap4_ok_found [simp]:
  "cmap4_ok t fl st \<Longrightarrow> c < 4294967296 \<Longrightarrow> cmap4_ok t fl (st\<lparr>c4_charcode := c\<rparr>)"
  "cmap4_ok t fl st \<Longrightarrow> cmap4_ok t fl (st\<lparr>c4_gindex := g\<rparr>)"
  by (simp_all add: cmap4_ok_def)

section \<open>The cursor\<close>

lemma next_loop_total:
  assumes "cmap4_ok t fl st" "c4_start st \<le> c" "c < 4294967296"
  shows "\<exists>st'. tt_cmap4_next_loop ng st c = Some st' \<and> cmap4_ok t fl st' \<and>
    (c4_gindex st' \<noteq> 0 \<longrightarrow> c \<le> c4_charcode st' \<and> c4_charcode st' < 65536)"
  using assms
proof (induction "num_segs4 t - c4_range st" arbitrary: st c rule: less_induct)
  case less
  have safe: "cursor_safe st" using less.prems(1) by (simp add: cmap4_ok_def)
  obtain r where r: "tt_cmap4_scan_segment ng st c = Some r"
    "seg_scan_ok (seg_value (c4_data st) (c4_delta st) (c4_values st) (c4_start st)) ng c (c4_end st) r"
    using scan_segment_spec [OF safe less.prems(2)] by blast
  obtain g c' where gc: "r = (g, c')" by (cases r)
  have e: "c4_end st < 65536" using safe by (simp add: cursor_safe_def)
  show ?case
  proof (cases "g = 0")
    case False
    then have "c \<le> c'" "c' < 65536" using r(2) e by (auto simp: gc seg_scan_ok_def)
    then show ?thesis using False r(1) less.prems(1)
      by (subst tt_cmap4_next_loop.simps) (simp add: gc)
  next
    case True
    then have c': "c \<le> c'" "c' < 4294967296" using r(2) e less.prems(3) by (auto simp: gc seg_scan_ok_def)
    obtain k st1 where s: "tt_cmap4_set_range st (c4_range st + 1) = Some (k, st1)" "cmap4_ok t fl st1"
      "k = 0 \<longrightarrow> c4_range st + 1 < num_segs4 t \<and> c4_range st1 = c4_range st + 1" "k \<noteq> 0 \<longrightarrow> k = - 1"
      using set_range_ok [OF less.prems(1)] by blast
    show ?thesis
    proof (cases "k = 0")
      case False
      then show ?thesis using s r(1) True
        by (subst tt_cmap4_next_loop.simps) (simp add: gc)
    next
      case k: True
      have m: "num_segs4 t - c4_range st1 < num_segs4 t - c4_range st"
        using s(3) k by (simp add: diff_less_mono2)
      have "c4_start st1 < 65536" using s(2) by (simp add: cmap4_ok_def cursor_safe_def)
      moreover define e where "e = (if c' < c4_start st1 then c4_start st1 else c')"
      ultimately have e: "c4_start st1 \<le> e" "e < 4294967296" "c' \<le> e" using c'(2) by simp_all
      obtain st' where "tt_cmap4_next_loop ng st1 e = Some st'"
        "cmap4_ok t fl st'" "c4_gindex st' \<noteq> 0 \<longrightarrow> e \<le> c4_charcode st' \<and> c4_charcode st' < 65536"
        using less.hyps [OF m s(2) e(1,2)] by blast
      then show ?thesis using s(1) k r(1) True c'(1) e(3)
        by (subst tt_cmap4_next_loop.simps) (auto simp: gc e_def [symmetric])
    qed
  qed
qed

lemma next4_total:
  assumes ok: "cmap4_ok t fl st"
  shows "\<exists>st'. tt_cmap4_next ng st = Some st' \<and> cmap4_ok t fl st' \<and>
    (c4_gindex st' \<noteq> 0 \<longrightarrow> c4_charcode st' < 65536 \<and> (c4_charcode st < 65536 \<longrightarrow> c4_charcode st < c4_charcode st'))"
proof -
  have s: "c4_start st < 65536" using ok by (simp add: cmap4_ok_def cursor_safe_def)
  define c where "c = add32 (c4_charcode st) 1"
  define e where "e = (if c < c4_start st then c4_start st else c)"
  have b: "c4_start st \<le> e" "e < 4294967296" "c \<le> e"
    using s add32_lt [of "c4_charcode st" 1] by (simp_all add: e_def c_def)
  obtain st' where "tt_cmap4_next_loop ng st e = Some st'"
    "cmap4_ok t fl st'" "c4_gindex st' \<noteq> 0 \<longrightarrow> e \<le> c4_charcode st' \<and> c4_charcode st' < 65536"
    using next_loop_total [OF ok b(1,2)] by blast
  moreover have "c = Suc (c4_charcode st)" if "c4_charcode st < 65536" using that by (simp add: c_def add32_small)
  ultimately show ?thesis using b(3) unfolding tt_cmap4_next_def Let_def c_def [symmetric] e_def [symmetric]
    by fastforce
qed

section \<open>The linear search\<close>

text \<open>One turn of the part after \<open>Again\<close>, on a code of the segment.\<close>

definition again_ok :: "nat \<Rightarrow> nat \<Rightarrow> seg_scan \<Rightarrow> bool" where
  "again_ok c lst r = (case r of
      Seg_Break g c' \<Rightarrow> c' < 4294967296 \<and> (g \<noteq> 0 \<longrightarrow> c \<le> c' \<and> c' \<le> lst)
    | Seg_Continue c' \<Rightarrow> c \<le> c' \<and> c' < 4294967296)"

lemma again_over: "lst < c \<Longrightarrow> tt_cmap4_again t ng nxt n i st lst c = Some (Seg_Continue c)"
  by (subst tt_cmap4_again.simps) simp

lemma again_reads:
  assumes "segs_ok t n" "i < n" "c \<le> se t i"
  shows "tt_cmap4_again t ng nxt n i (ss t n i) (se t i) c =
    (let r = 16 + 6 * n + 2 * i; (delta, offset) = eff t n i in
     if offset = 65535 then Some (Seg_Continue c)
     else do {
       let r = r + (offset + mul32 (sub32 c (ss t n i)) 2);
       step \<leftarrow>
         (if offset \<noteq> 0 then
            if nxt \<and> r > length t then Some (Inl c)
            else do {
              gindex \<leftarrow> peek_ushort t r;
              let gindex = (if gindex \<noteq> 0 then u16_of_int (int gindex + delta) else 0);
              Some (Inr (if gindex \<ge> ng then 0 else gindex, c))
            }
          else do {
            let gindex = u16_of_int (int c + delta);
            Some (if nxt \<and> gindex \<ge> ng then
                    if int c + delta < 0 \<and> int (se t i) + delta \<ge> 0 then Inr (0, nat (- delta))
                    else if int c + delta < 65536 \<and> int (se t i) + delta \<ge> 65536 then
                      Inr (0, nat (65536 - delta))
                    else Inl c
                  else Inr (gindex, c))
          });
       (case step of
          Inl c \<Rightarrow> Some (Seg_Continue c)
        | Inr (gindex, c) \<Rightarrow>
            if nxt \<and> gindex = 0 then
              if c \<ge> 65535 then Some (Seg_Break 0 c)
              else tt_cmap4_again t ng nxt n i (ss t n i) (se t i) (c + 1)
            else Some (Seg_Break gindex c))
     })"
  by (subst tt_cmap4_again.simps)
    (simp only: assms(3) seg_reads [OF assms(1,2)] bind.bind_lunit Let_def if_True eff_def [symmetric])

lemma again_slice:
  assumes ok: "segs_ok t n" "i < n" "ss t n i \<le> c" "c \<le> se t i"
    and off: "snd (eff t n i) \<noteq> 0" "snd (eff t n i) \<noteq> 65535"
  shows "tt_cmap4_again t ng nxt n i (ss t n i) (se t i) c =
    (let g = (if seg_map t n i c \<ge> ng then 0 else seg_map t n i c) in
     if nxt \<and> g = 0 then
       if c \<ge> 65535 then Some (Seg_Break 0 c)
       else tt_cmap4_again t ng nxt n i (ss t n i) (se t i) (c + 1)
     else Some (Seg_Break g c))"
proof -
  let ?p = "16 + 6 * n + 2 * i + (snd (eff t n i) + mul32 (sub32 c (ss t n i)) 2)"
  note e = slice_entry [OF ok(1,2) off ok(3,4)]
  have l: "\<not> ?p > length t" using e(1) by linarith
  have rd: "peek_ushort t ?p = Some (u16 t ?p)" using e(1) by simp
  obtain d off' where de: "eff t n i = (d, off')" by (cases "eff t n i")
  show ?thesis
    unfolding again_reads [OF ok(1,2,4)] e(2)
    using off l rd by (simp add: de Let_def del: peek_ushort_ok)
qed

lemma again_delta:
  assumes ok: "segs_ok t n" "i < n" "c \<le> se t i" and off: "snd (eff t n i) = 0"
  shows "tt_cmap4_again t ng nxt n i (ss t n i) (se t i) c =
    (if nxt \<and> seg_map t n i c \<ge> ng \<and>
        \<not> (int c + fst (eff t n i) < 0 \<and> int (se t i) + fst (eff t n i) \<ge> 0) \<and>
        \<not> (int c + fst (eff t n i) < 65536 \<and> int (se t i) + fst (eff t n i) \<ge> 65536) then
       Some (Seg_Continue c)
     else
       let (g, c') = (if nxt \<and> seg_map t n i c \<ge> ng then (0, skip_to (fst (eff t n i)) (se t i) c)
                      else (seg_map t n i c, c)) in
       if nxt \<and> g = 0 then
         if c' \<ge> 65535 then Some (Seg_Break 0 c')
         else tt_cmap4_again t ng nxt n i (ss t n i) (se t i) (c' + 1)
       else Some (Seg_Break g c'))"
proof -
  obtain d off' where de: "eff t n i = (d, off')" by (cases "eff t n i")
  show ?thesis
    unfolding again_reads [OF ok] seg_map_delta [OF off]
    using off by (auto simp: de Let_def skip_to_def)
qed

lemma again_total:
  assumes ok: "segs_ok t n" "i < n" and "ss t n i \<le> c" "c < 4294967296"
  shows "\<exists>r. tt_cmap4_again t ng True n i (ss t n i) (se t i) c = Some r \<and> again_ok c (se t i) r"
  using assms(3,4)
proof (induction "Suc (se t i) - c" arbitrary: c rule: less_induct)
  case less
  let ?again = "\<lambda>c. tt_cmap4_again t ng True n i (ss t n i) (se t i) c"
  have go: "\<exists>r. ?again (Suc k) = Some r \<and> again_ok c (se t i) r" if "c \<le> k" "c \<le> se t i" "k < 65535" for k
  proof -
    have m: "Suc (se t i) - Suc k < Suc (se t i) - c" using that by linarith
    have "ss t n i \<le> Suc k" "Suc k < 4294967296" using less.prems(1) that by linarith+
    then obtain r where "?again (Suc k) = Some r" "again_ok (Suc k) (se t i) r"
      using less.hyps [OF m] by blast
    then show ?thesis using that(1) by (auto simp: again_ok_def split: seg_scan.splits)
  qed
  consider (over) "se t i < c" | (none) "c \<le> se t i" "snd (eff t n i) = 65535"
    | (slice) "c \<le> se t i" "snd (eff t n i) \<noteq> 65535" "snd (eff t n i) \<noteq> 0"
    | (delta) "c \<le> se t i" "snd (eff t n i) = 0" by linarith
  then show ?case
  proof cases
    case over
    then show ?thesis using less.prems by (simp add: again_over again_ok_def)
  next
    case none
    then show ?thesis using less.prems
      by (subst again_reads [OF ok]) (auto simp: again_ok_def split: prod.split)
  next
    case slice
    then show ?thesis using less.prems go [of c] seg_map_lt [of t n i c]
      unfolding again_slice [OF ok less.prems(1) slice(1,3,2)]
      by (auto simp: Let_def again_ok_def)
  next
    case delta
    note b = skip_to_bounds [OF delta(1), of "fst (eff t n i)"]
    have "skip_to (fst (eff t n i)) (se t i) c < 65536" using b seg_lt(2) [of t i] by linarith
    then show ?thesis using less.prems b go [of c] go [of "skip_to (fst (eff t n i)) (se t i) c"] delta(1)
      unfolding again_delta [OF ok delta]
      by (auto simp: again_ok_def Let_def)
  qed
qed

lemma linear_total:
  assumes "segs_ok t n" "i + k = n" "c < 4294967296"
  shows "\<exists>g c'. tt_cmap4_linear_loop t ng True n k i c = Some (g, c') \<and> c' < 4294967296 \<and> (g \<noteq> 0 \<longrightarrow> c \<le> c')"
  using assms(2,3)
proof (induction k arbitrary: i c)
  case (Suc k)
  have i: "i < n" using Suc.prems by simp
  let ?c = "if c < ss t n i then ss t n i else c"
  have c: "ss t n i \<le> ?c" "c \<le> ?c" "?c < 4294967296" using Suc.prems(2) less_trans [OF seg_lt(1) [of t n i], of 4294967296] by auto
  obtain r where r: "tt_cmap4_again t ng True n i (ss t n i) (se t i) ?c = Some r" "again_ok ?c (se t i) r"
    using again_total [OF assms(1) i c(1,3)] by blast
  note run = tt_cmap4_linear_loop.simps(2) [of t ng True n k i c, unfolded seg_reads [OF assms(1) i] bind.bind_lunit]
  show ?case
  proof (cases r)
    case (Seg_Break g c')
    then have "tt_cmap4_linear_loop t ng True n (Suc k) i c = Some (g, c')"
      unfolding run r(1) by simp
    then show ?thesis using r(2) Seg_Break c(2) by (auto simp: again_ok_def)
  next
    case (Seg_Continue c')
    then have "tt_cmap4_linear_loop t ng True n (Suc k) i c = tt_cmap4_linear_loop t ng True n k (i + 1) c'"
      unfolding run r(1) by simp
    moreover have "c \<le> c'" "c' < 4294967296" using r(2) c Seg_Continue by (auto simp: again_ok_def)
    ultimately show ?thesis using Suc.IH [of "i + 1" c'] Suc.prems(1) by auto
  qed
qed simp

lemma linear_index:
  assumes "segs_ok t n" "i + k = n"
  shows "\<exists>g c'. tt_cmap4_linear_loop t ng False n k i c = Some (g, c') \<and>
    clip_glyph ng g = clip_glyph ng (linear_map t n i c)"
  using assms(2)
proof (induction k arbitrary: i)
  case 0
  then show ?case by (simp add: linear_map_def clip_glyph_def)
next
  case (Suc k)
  have i: "i < n" using Suc.prems by simp
  have up: "[i..<n] = i # [i + 1..<n]" using i by (simp add: upt_conv_Cons)
  note run = tt_cmap4_linear_loop.simps(2) [of t ng False n k i c, unfolded seg_reads [OF assms(1) i] bind.bind_lunit]
  have go: ?case if "tt_cmap4_linear_loop t ng False n (Suc k) i c = tt_cmap4_linear_loop t ng False n k (i + 1) c"
    "linear_map t n i c = linear_map t n (i + 1) c"
    unfolding that using Suc.IH [of "i + 1"] Suc.prems by simp
  consider (before) "c < ss t n i" | (over) "ss t n i \<le> c" "se t i < c"
    | (none) "ss t n i \<le> c" "c \<le> se t i" "snd (eff t n i) = 65535"
    | (slice) "ss t n i \<le> c" "c \<le> se t i" "snd (eff t n i) \<noteq> 65535" "snd (eff t n i) \<noteq> 0"
    | (delta) "ss t n i \<le> c" "c \<le> se t i" "snd (eff t n i) = 0" by linarith
  then show ?case
  proof cases
    case before
    then show ?thesis unfolding run by (simp add: linear_map_def up clip_glyph_def)
  next
    case over
    then show ?thesis by (intro go) (simp_all add: run again_over linear_map_def up del: tt_cmap4_linear_loop.simps)
  next
    case none
    have "tt_cmap4_again t ng False n i (ss t n i) (se t i) c = Some (Seg_Continue c)"
      using none(3) by (subst again_reads [OF assms(1) i none(2)]) (auto split: prod.split)
    then show ?thesis using none by (intro go) (simp_all add: run linear_map_def up del: tt_cmap4_linear_loop.simps)
  next
    case slice
    then show ?thesis unfolding run
      by (simp add: again_slice [OF assms(1) i slice(1,2,4,3)] linear_map_def up clip_glyph_def Let_def)
  next
    case delta
    then show ?thesis unfolding run
      by (simp add: again_delta [OF assms(1) i delta(2,3)] linear_map_def up clip_glyph_def Let_def)
  qed
qed

section \<open>The bisection\<close>

lemma first_seg_SomeD:
  "first_seg t n c = Some i \<Longrightarrow> i < n \<and> c \<le> se t i \<and> (\<forall>j < i. se t j < c)"
  by (auto simp: first_seg_def find_Some_iff not_le)

lemma ordered_map_miss:
  assumes "\<forall>i < mid. se t i < c" "\<forall>i. mid < i \<and> i < n \<longrightarrow> c < ss t n i"
    and "\<not> (ss t n mid \<le> c \<and> c \<le> se t mid)"
  shows "ordered_map t n c = 0"
proof (cases "first_seg t n c")
  case (Some i)
  have "c < ss t n i"
  proof (cases i mid rule: linorder_cases)
    case less
    then show ?thesis using first_seg_SomeD [OF Some] assms(1) by force
  next
    case equal
    then show ?thesis using first_seg_SomeD [OF Some] assms(3) by simp
  qed (use first_seg_SomeD [OF Some] assms(2) in simp)
  then show ?thesis using Some by (simp add: ordered_map_def)
qed (simp add: ordered_map_def)

text \<open>The segment, the code and the glyph that the first half of the search ends with.\<close>

definition located :: "bytes \<Rightarrow> nat \<Rightarrow> nat \<Rightarrow> bool \<Rightarrow> nat \<Rightarrow> nat \<times> nat \<times> nat \<times> nat \<Rightarrow> bool" where
  "located t n ng nxt c r \<longleftrightarrow> (case r of (mid, lst, c', g) \<Rightarrow> mid < n \<and> lst = se t mid \<and>
     (if ss t n mid \<le> c \<and> c \<le> se t mid then first_seg t n c = Some mid \<and> glyph_in_seg_ok t n mid ng nxt c (g, c')
      else c' = c \<and> g = 0 \<and> (\<forall>i < mid. se t i < c) \<and> (\<forall>i. mid < i \<and> i < n \<longrightarrow> c < ss t n i)))"

definition locate4 :: "bytes \<Rightarrow> nat \<Rightarrow> nat \<Rightarrow> bool \<Rightarrow> nat \<Rightarrow> nat \<Rightarrow> (nat \<times> nat \<times> nat \<times> nat) option" where
  "locate4 t fl ng nxt n c = do {
     (mid, last_code, hit) \<leftarrow> tt_cmap4_search t n c 0 n;
     if hit then tt_cmap4_hit t fl ng nxt n mid c else Some (mid, last_code, c, 0) }"

lemma binary_index_run:
  assumes "peek_ushort (c4_data st) 6 = Some (u16 (c4_data st) 6)" "n = u16 (c4_data st) 6 div 2" "0 < n"
    and "locate4 (c4_data st) (c4_flags st) ng False n (add32 c 0) = Some (mid, lst, c', g)"
  shows "tt_cmap4_char_map_binary ng st c False = Some (g, c, st)"
  using assms(3,4)
  by (cases "tt_cmap4_search (c4_data st) n (add32 c 0) 0 n")
    (auto simp: tt_cmap4_char_map_binary_def assms(1) Let_def locate4_def assms(2) [symmetric])

lemma binary_next_run:
  assumes "peek_ushort (c4_data st) 6 = Some (u16 (c4_data st) 6)" "n = u16 (c4_data st) 6 div 2" "0 < n"
    and "locate4 (c4_data st) (c4_flags st) ng True n (add32 c 1) = Some (mid, lst, c', g)"
  shows "tt_cmap4_char_map_binary ng st c True =
    (if c' > lst \<and> mid + 1 = n then Some (0, c, st)
     else do {
       (r, st1) \<leftarrow> tt_cmap4_set_range st (if c' > lst then mid + 1 else mid);
       if r \<noteq> 0 then Some (g, if g \<noteq> 0 then c' else c, st1)
       else if g \<noteq> 0 then Some (g, c', st1\<lparr>c4_charcode := c', c4_gindex := g\<rparr>)
       else do {
         st2 \<leftarrow> tt_cmap4_next ng (st1\<lparr>c4_charcode := c'\<rparr>);
         Some (c4_gindex st2, if c4_gindex st2 \<noteq> 0 then c4_charcode st2 else c, st2)
       }
     })"
  using assms(3,4)
  by (cases "tt_cmap4_search (c4_data st) n (add32 c 1) 0 n";
      cases "tt_cmap4_set_range st (if c' > lst then mid + 1 else mid)")
    (auto simp: tt_cmap4_char_map_binary_def assms(1) Let_def locate4_def assms(2) [symmetric] split: if_splits)

lemma locate_spec:
  assumes ok: "table4_ok t fl" and n: "n = num_segs4 t" "0 < n" and u: "\<not> flag_unsorted fl"
  shows "\<exists>mid lst c' g. locate4 t fl ng nxt n c = Some (mid, lst, c', g) \<and>
    located t n ng nxt c (mid, lst, c', g)"
proof -
  have s: "segs_ok t n" "segs_ordered t n" using ok n u by (simp_all add: table4_ok_def)
  obtain mid hit where m: "tt_cmap4_search t n c 0 n = Some (mid, se t mid, hit)" "mid < n"
    "hit = (ss t n mid \<le> c \<and> c \<le> se t mid)"
    "\<not> hit \<longrightarrow> (\<forall>i < mid. se t i < c) \<and> (\<forall>i. mid < i \<and> i < n \<longrightarrow> c < ss t n i)"
    using search4_spec [OF s, of 0 n c] n(2) by auto
  show ?thesis
  proof (cases hit)
    case False
    then show ?thesis using m by (auto simp: located_def locate4_def)
  next
    case True
    then have "ss t n mid \<le> c" "c \<le> se t mid" using m(3) by simp_all
    from hit_spec [OF ok n(1) u m(2) this, of ng nxt] show ?thesis
      using m(1) True by (auto simp: located_def locate4_def)
  qed
qed

lemma located_index:
  assumes "located t n ng False c (mid, lst, c', g)"
  shows "clip_glyph ng g = clip_glyph ng (ordered_map t n c)"
proof (cases "ss t n mid \<le> c \<and> c \<le> se t mid")
  case True
  then have "first_seg t n c = Some mid" "clip_glyph ng g = clip_glyph ng (seg_map t n mid c)"
    using assms by (auto simp: located_def glyph_in_seg_ok_def)
  then show ?thesis using True by (simp add: ordered_map_def not_less)
next
  case False
  then have "ordered_map t n c = 0" "g = 0"
    using assms ordered_map_miss [of mid t c n] by (auto simp: located_def)
  then show ?thesis by simp
qed

lemma located_bounds:
  assumes "located t n ng nxt c (mid, lst, c', g)" "c < 65536"
  shows "mid < n" "lst = se t mid" "c \<le> c'" "c' < 65536" "g < 65536"
    "nxt \<Longrightarrow> g \<noteq> 0 \<Longrightarrow> c' = c \<and> ss t n mid \<le> c \<and> c \<le> se t mid"
    "lst < c' \<Longrightarrow> g = 0"
proof -
  have "c' \<le> se t mid \<longrightarrow> c' < 65536" using seg_lt(2) [of t mid] by linarith
  then show "mid < n" "lst = se t mid" "c \<le> c'" "c' < 65536" "g < 65536"
    "nxt \<Longrightarrow> g \<noteq> 0 \<Longrightarrow> c' = c \<and> ss t n mid \<le> c \<and> c \<le> se t mid" "lst < c' \<Longrightarrow> g = 0"
    using assms by (auto simp: located_def glyph_in_seg_ok_def split: if_splits)
qed

lemma cmap4_index:
  assumes ok: "cmap4_ok t fl st" and c: "c < 4294967296"
  shows "\<exists>g. tt_cmap4_char_index ng st c = Some g \<and> clip_glyph ng g = clip_glyph ng (cmap4_map t fl c)"
proof -
  define n where "n = num_segs4 t"
  have t: "table4_ok t fl" "c4_data st = t" "c4_flags st = fl" using ok by (simp_all add: cmap4_ok_def)
  note k = table4_count [OF t(1)]
  have n': "u16 t 6 div 2 = n" by (simp add: n_def num_segs4_def)
  consider (big) "c \<ge> 65536" | (lin) "c < 65536" "flag_unsorted fl" | (bin) "c < 65536" "\<not> flag_unsorted fl"
    by linarith
  then show ?thesis
  proof cases
    case big
    then show ?thesis by (simp add: tt_cmap4_char_index_def cmap4_map_def)
  next
    case lin
    obtain g c' where "tt_cmap4_linear_loop t ng False n n 0 c = Some (g, c')"
      "clip_glyph ng g = clip_glyph ng (linear_map t n 0 c)"
      using linear_index [OF table4_segs [OF t(1)], of 0 n ng c] n_def by auto
    moreover have "n = 0 \<Longrightarrow> linear_map t n 0 c = 0" by (simp add: linear_map_def)
    ultimately show ?thesis using lin c
      by (cases "n = 0") (simp_all add: tt_cmap4_char_index_def tt_cmap4_char_map_linear_def t k n' cmap4_map_def
          add32_def flip: n_def)
  next
    case bin
    have a: "add32 c 0 = c" using c by (simp add: add32_def)
    show ?thesis
    proof (cases "n = 0")
      case True
      then show ?thesis using bin
        by (simp add: tt_cmap4_char_index_def tt_cmap4_char_map_binary_def t k n' cmap4_map_def
          ordered_map_def first_seg_def Let_def flip: n_def)
    next
      case False
      obtain mid lst c' g where r: "locate4 t fl ng False n c = Some (mid, lst, c', g)"
        "located t n ng False c (mid, lst, c', g)"
        using locate_spec [OF t(1) n_def _ bin(2), of ng False c] False by auto
      have "tt_cmap4_char_map_binary ng st c False = Some (g, c, st)"
        using False r(1) by (intro binary_index_run) (simp_all add: t k n' a)
      then show ?thesis using bin located_index [OF r(2)]
        by (simp add: tt_cmap4_char_index_def t(3) cmap4_map_def flip: n_def)
    qed
  qed
qed

lemma binary_next_total:
  assumes ok: "cmap4_ok t fl st" and c: "c < 65535" and u: "\<not> flag_unsorted fl"
  shows "\<exists>g c' st'. tt_cmap4_char_map_binary ng st c True = Some (g, c', st') \<and> cmap4_ok t fl st' \<and>
    c' < 65536 \<and> (g \<noteq> 0 \<longrightarrow> c < c')"
proof -
  define n where "n = num_segs4 t"
  have t: "table4_ok t fl" "c4_data st = t" "c4_flags st = fl" using ok by (simp_all add: cmap4_ok_def)
  note k = table4_count [OF t(1)]
  have n': "u16 t 6 div 2 = n" by (simp add: n_def num_segs4_def)
  have a: "add32 c (Suc 0) = Suc c" using c by (simp add: add32_small)
  show ?thesis
  proof (cases "n = 0")
    case True
    then show ?thesis using ok c by (simp add: tt_cmap4_char_map_binary_def t k n' Let_def)
  next
    case False
    obtain mid lst d g where r: "locate4 t fl ng True n (Suc c) = Some (mid, lst, d, g)"
      "located t n ng True (Suc c) (mid, lst, d, g)"
      using locate_spec [OF t(1) n_def _ u, of ng True "Suc c"] False by auto
    have "Suc c < 65536" using c by simp
    note b = located_bounds [OF r(2) this]
    have run: "tt_cmap4_char_map_binary ng st c True =
        (if d > lst \<and> mid + 1 = n then Some (0, c, st)
         else do {
           (r, st1) \<leftarrow> tt_cmap4_set_range st (if d > lst then mid + 1 else mid);
           if r \<noteq> 0 then Some (g, if g \<noteq> 0 then d else c, st1)
           else if g \<noteq> 0 then Some (g, d, st1\<lparr>c4_charcode := d, c4_gindex := g\<rparr>)
           else do {
             st2 \<leftarrow> tt_cmap4_next ng (st1\<lparr>c4_charcode := d\<rparr>);
             Some (c4_gindex st2, if c4_gindex st2 \<noteq> 0 then c4_charcode st2 else c, st2)
           }
         })"
      using False r(1) by (intro binary_next_run) (simp_all add: t k n' a)
    obtain q st1 where s: "tt_cmap4_set_range st (if d > lst then mid + 1 else mid) = Some (q, st1)"
      "cmap4_ok t fl st1" using set_range_ok [OF ok] by blast
    have d32: "d < 4294967296" using b(4) by simp
    obtain st2 where s2: "tt_cmap4_next ng (st1\<lparr>c4_charcode := d\<rparr>) = Some st2" "cmap4_ok t fl st2"
      "c4_gindex st2 \<noteq> 0 \<longrightarrow> c4_charcode st2 < 65536 \<and> d < c4_charcode st2"
      using next4_total [OF cmap4_ok_found(1) [OF s(2) d32], of ng] b(4) by auto
    show ?thesis unfolding run s(1)
      using ok s(2) s2 b(3,4) c d32 by (auto simp: Suc_le_eq)
  qed
qed

lemma cmap4_next_total:
  assumes ok: "cmap4_ok t fl st" and c: "c < 4294967296"
  shows "\<exists>g c' st'. tt_cmap4_char_next ng st c = Some (g, c', st') \<and> cmap4_ok t fl st' \<and>
    c' < 4294967296 \<and> (g \<noteq> 0 \<longrightarrow> c < c')"
proof -
  have t: "table4_ok t fl" "c4_data st = t" "c4_flags st = fl" using ok by (simp_all add: cmap4_ok_def)
  note k = table4_count [OF t(1)]
  consider (big) "c \<ge> 65535" | (lin) "c < 65535" "flag_unsorted fl"
    | (cur) "c < 65535" "\<not> flag_unsorted fl" "c = c4_charcode st"
    | (bin) "c < 65535" "\<not> flag_unsorted fl" "c \<noteq> c4_charcode st" by linarith
  then show ?thesis
  proof cases
    case big
    then show ?thesis using ok c by (simp add: tt_cmap4_char_next_def)
  next
    case lin
    have a: "add32 c (Suc 0) = Suc c" using lin(1) by (simp add: add32_small)
    define n where "n = num_segs4 t"
    have n': "u16 t 6 div 2 = n" by (simp add: n_def num_segs4_def)
    obtain g d where "tt_cmap4_linear_loop t ng True n n 0 (Suc c) = Some (g, d)"
      "d < 4294967296" "g \<noteq> 0 \<longrightarrow> Suc c \<le> d"
      using linear_total [OF table4_segs [OF t(1)], of 0 n "Suc c" ng] n_def lin(1) by auto
    then show ?thesis using lin ok c
      by (cases "n = 0") (auto simp: tt_cmap4_char_next_def tt_cmap4_char_map_linear_def t k n' a)
  next
    case cur
    obtain st' where s: "tt_cmap4_next ng st = Some st'" "cmap4_ok t fl st'"
      "c4_gindex st' \<noteq> 0 \<longrightarrow> c4_charcode st' < 65536 \<and> (c4_charcode st < 65536 \<longrightarrow> c4_charcode st < c4_charcode st')"
      using next4_total [OF ok] by blast
    have "tt_cmap4_char_next ng st c =
        Some (c4_gindex st', if c4_gindex st' \<noteq> 0 then c4_charcode st' else c, st')"
      using cur s(1) by (simp add: tt_cmap4_char_next_def t(3))
    then show ?thesis using s(2,3) cur(1,3) by auto
  next
    case bin
    obtain g c' st' where "tt_cmap4_char_map_binary ng st c True = Some (g, c', st')" "cmap4_ok t fl st'"
      "c' < 65536" "g \<noteq> 0 \<longrightarrow> c < c'" using binary_next_total [OF ok bin(1,2)] by blast
    then show ?thesis using bin by (simp add: tt_cmap4_char_next_def t(3))
  qed
qed

interpretation cmap4: tt_cmap_class tt_cmap4_validate tt_cmap4_init tt_cmap4_char_index
  tt_cmap4_char_next cmap4_ok cmap4_map
proof
  show "vagree (tt_cmap4_validate Hosted t l n) (tt_cmap4_validate Freestanding t l n)" for t l n
    by (rule cmap4_agree)
  show "vwp (tt_cmap4_validate Hosted t FT_VALIDATE_DEFAULT n) None
      (\<lambda>fl s. s = None \<and> (\<exists>st. tt_cmap4_init t fl = Some st \<and> cmap4_ok t fl st))"
    if "length t < 4294967296" for t n
    by (rule cmap4_safe) (use cmap4_ok_init in blast)
  show "\<exists>g. tt_cmap4_char_index ng st c = Some g \<and> clip_glyph ng g = clip_glyph ng (cmap4_map t fl c)"
    if "cmap4_ok t fl st" "c < 4294967296" for t fl st c ng
    by (rule cmap4_index [OF that])
  show "\<exists>g c' st'. tt_cmap4_char_next ng st c = Some (g, c', st') \<and> cmap4_ok t fl st' \<and>
      c' < 4294967296 \<and> (g \<noteq> 0 \<longrightarrow> c < 4294967295 \<longrightarrow> c < c')"
    if "cmap4_ok t fl st" "c < 4294967296" for t fl st c ng
    using cmap4_next_total [OF that, of ng] by blast
qed

end
