(* ===== verification/Tt_CMap4_Enum.thy ===== *)
theory Tt_CMap4_Enum
  imports Tt_CMap4_Class
begin

text \<open>
  Format 4, last part: the enumeration of a table whose segments are sorted and disjoint, and
  the stale cursor that \<open>set_range\<close> leaves behind in a table that ends with the offset 0xFFFF.
\<close>

section \<open>Sorted tables\<close>

text \<open>No flag of the validator is set and no segment has the offset 0xFFFF.\<close>

definition sorted4 :: "bytes \<Rightarrow> nat \<Rightarrow> bool" where
  "sorted4 t fl \<longleftrightarrow> \<not> flag_unsorted fl \<and> \<not> flag_overlapping fl \<and> (\<forall>i < num_segs4 t. so t (num_segs4 t) i \<noteq> 65535)"

text \<open>The cursor is at segment \<open>i\<close>, with all its fields.\<close>

definition cursor_at :: "TT_CMap4 \<Rightarrow> nat \<Rightarrow> bool" where
  "cursor_at st i \<longleftrightarrow> i < c4_num_ranges st \<and> at_segment st i = st"

definition cmap4_sorted_ok :: "bytes \<Rightarrow> nat \<Rightarrow> TT_CMap4 \<Rightarrow> bool" where
  "cmap4_sorted_ok t fl st \<longleftrightarrow> cmap4_ok t fl st \<and> sorted4 t fl \<and>
     (c4_charcode st < 65535 \<longrightarrow> (\<exists>i. cursor_at st i \<and> ss t (num_segs4 t) i \<le> c4_charcode st))"

lemma at_segment_idem [simp]: "at_segment (at_segment st i) i = at_segment st i"
  by (simp add: at_segment_def Let_def)

lemma at_segment_upd [simp]:
  "at_segment (st\<lparr>c4_charcode := c\<rparr>) i = (at_segment st i)\<lparr>c4_charcode := c\<rparr>"
  "at_segment (st\<lparr>c4_gindex := g\<rparr>) i = (at_segment st i)\<lparr>c4_gindex := g\<rparr>"
  by (simp_all add: at_segment_def Let_def)

lemma cursor_at_upd:
  "cursor_at st i \<Longrightarrow> cursor_at (st\<lparr>c4_charcode := c\<rparr>) i"
  "cursor_at st i \<Longrightarrow> cursor_at (st\<lparr>c4_gindex := g\<rparr>) i"
  by (simp_all add: cursor_at_def)

lemma sorted4_eff:
  assumes "sorted4 t fl" "i < num_segs4 t"
  shows "snd (eff t (num_segs4 t) i) \<noteq> 65535"
  using assms by (auto simp: sorted4_def eff_def tt_cmap4_fix_last_def)

text \<open>The fields of a cursor at a segment, and the glyphs they give.\<close>

lemma cursor_at_fields:
  assumes "cursor_at st i" "cmap4_ok t fl st"
  defines "n \<equiv> num_segs4 t"
  shows "i < n" "c4_range st = i" "c4_start st = ss t n i" "c4_end st = se t i"
    "c4_delta st = fst (eff t n i)" "c4_values st = seg_slice t n i"
proof -
  have e: "at_segment st i = st" "i < n" "c4_data st = t" "c4_num_ranges st = n"
    using assms by (simp_all add: cursor_at_def cmap4_ok_def n_def)
  show "i < n" "c4_range st = i" "c4_start st = ss t n i" "c4_end st = se t i"
    "c4_delta st = fst (eff t n i)" "c4_values st = seg_slice t n i"
    by (rule e(2), (subst e(1) [symmetric], simp add: at_segment_def Let_def e(3,4) seg_slice_def)+)
qed

lemma sorted4_ranges:
  assumes "table4_ok t fl" "sorted4 t fl"
  shows "sorted_ranges (ss t (num_segs4 t)) (se t) (num_segs4 t)"
  using assms by (simp add: table4_ok_def sorted4_def)

lemma ordered_in:
  assumes "sorted_ranges (ss t n) (se t) n" "i < n" "ss t n i \<le> c" "c \<le> se t i"
  shows "ordered_map t n c = seg_map t n i c"
proof -
  have "se t j < c" if "j < i" for j
    using sorted_ranges.hi_less_lo [OF assms(1) that assms(2)] assms(3) by linarith
  then have "first_seg t n c = Some i" using assms(2,4) by (intro first_seg_eq)
  then show ?thesis using assms(3) by (simp add: ordered_map_def)
qed

lemma ordered_gap: "(\<And>i. i < n \<Longrightarrow> \<not> (ss t n i \<le> c \<and> c \<le> se t i)) \<Longrightarrow> ordered_map t n c = 0"
  using first_seg_SomeD by (force simp: ordered_map_def split: option.split)

text \<open>Between the end of a segment and the start of the next there is no code.\<close>

lemma ordered_between:
  assumes "sorted_ranges (ss t n) (se t) n" "i < n" "se t i < c" "i + 1 < n \<Longrightarrow> c < ss t n (i + 1)"
  shows "ordered_map t n c = 0"
proof (rule ordered_gap)
  fix j assume j: "j < n"
  show "\<not> (ss t n j \<le> c \<and> c \<le> se t j)"
  proof (cases "j \<le> i")
    case True
    then have "se t j \<le> se t i"
      using sorted_ranges.hi_less_lo [OF assms(1) _ assms(2), of j] sorted_ranges.range [OF assms(1,2)]
      by (cases "j = i") fastforce+
    then show ?thesis using assms(3) by linarith
  next
    case False
    then have "ss t n (i + 1) \<le> ss t n j" using j by (intro sorted_ranges.lo_mono [OF assms(1)]) simp_all
    moreover have "c < ss t n (i + 1)" using assms(4) False j by simp
    ultimately show ?thesis by linarith
  qed
qed

section \<open>The cursor\<close>

text \<open>The object and code after a run of the cursor over the codes from \<open>c\<close> on.\<close>

definition cursor_found :: "bytes \<Rightarrow> nat \<Rightarrow> nat \<Rightarrow> nat \<Rightarrow> TT_CMap4 \<Rightarrow> bool" where
  "cursor_found t fl ng c st \<longleftrightarrow> cmap4_sorted_ok t fl st \<and>
     (if c4_gindex st = 0 then c4_charcode st = 4294967295 \<and>
        (\<forall>e. c \<le> e \<and> e < 65536 \<longrightarrow> clip_glyph ng (ordered_map t (num_segs4 t) e) = 0)
      else c \<le> c4_charcode st \<and> c4_charcode st < 65536 \<and>
        ordered_map t (num_segs4 t) (c4_charcode st) = c4_gindex st \<and>
        (\<forall>e. c \<le> e \<and> e < c4_charcode st \<longrightarrow> clip_glyph ng (ordered_map t (num_segs4 t) e) = 0))"

lemma cursor_found_skip:
  assumes "cursor_found t fl ng d st" "c \<le> d"
    and "\<And>e. c \<le> e \<Longrightarrow> e < d \<Longrightarrow> e < 65536 \<Longrightarrow> clip_glyph ng (ordered_map t (num_segs4 t) e) = 0"
  shows "cursor_found t fl ng c st"
proof (cases "c4_gindex st = 0")
  case True
  have "clip_glyph ng (ordered_map t (num_segs4 t) e) = 0" if "c \<le> e" "e < 65536" for e
    using assms that True by (cases "e < d") (auto simp: cursor_found_def)
  then show ?thesis using assms(1) True by (auto simp: cursor_found_def)
next
  case False
  then have "c4_charcode st < 65536" using assms(1) by (simp add: cursor_found_def)
  then have "clip_glyph ng (ordered_map t (num_segs4 t) e) = 0" if "c \<le> e" "e < c4_charcode st" for e
    using assms that False by (cases "e < d") (auto simp: cursor_found_def)
  then show ?thesis using assms(1,2) False by (auto simp: cursor_found_def)
qed

lemma clip_glyph_0 [simp]: "clip_glyph ng 0 = 0"
  by (simp add: clip_glyph_def)

lemma next_loop_sorted:
  assumes "cmap4_ok t fl st" "sorted4 t fl" "cursor_at st i" "ss t (num_segs4 t) i \<le> c"
  shows "\<exists>st'. tt_cmap4_next_loop ng st c = Some st' \<and> cursor_found t fl ng c st'"
  using assms(1,3,4)
proof (induction "num_segs4 t - i" arbitrary: st i c rule: less_induct)
  case less
  define n where "n = num_segs4 t"
  let ?f = "ordered_map t n"
  note cur = cursor_at_fields [OF less.prems(2,1), folded n_def]
  have d: "c4_data st = t" "c4_num_ranges st = n" and safe: "cursor_safe st" and tok: "table4_ok t fl"
    using less.prems(1) by (simp_all add: cmap4_ok_def n_def)
  have ranges: "sorted_ranges (ss t n) (se t) n" unfolding n_def by (rule sorted4_ranges [OF tok assms(2)])
  have val: "seg_value (c4_data st) (c4_delta st) (c4_values st) (c4_start st) = seg_map t n i"
    using sorted4_eff [OF assms(2)] cur(1) by (auto simp: d cur seg_map_def fun_eq_iff n_def)
  obtain r where r: "tt_cmap4_scan_segment ng st c = Some r" "seg_scan_ok (seg_map t n i) ng c (se t i) r"
    using scan_segment_spec [OF safe, of c ng] less.prems(3) unfolding val by (auto simp: cur n_def)
  obtain g c' where gc: "r = (g, c')" by (cases r)
  have f: "?f e = seg_map t n i e" if "c \<le> e" "e \<le> se t i" for e
    using that less.prems(3) by (intro ordered_in [OF ranges cur(1)]) (auto simp: n_def)
  show ?case
  proof (cases "g = 0")
    case False
    then have c': "c \<le> c'" "c' \<le> se t i" "seg_map t n i c' = g"
      "\<forall>e. c \<le> e \<and> e < c' \<longrightarrow> clip_glyph ng (seg_map t n i e) = 0"
      using r(2) by (auto simp: gc seg_scan_ok_def)
    have b: "c' < 65536" using c'(2) seg_lt(2) [of t i] by linarith
    have "ss t n i \<le> c'" using less.prems(3) c'(1) by (simp add: n_def)
    then have "cmap4_sorted_ok t fl (st\<lparr>c4_charcode := c', c4_gindex := g\<rparr>)"
      using less.prems(1,2) assms(2) b by (auto simp: cmap4_sorted_ok_def n_def intro!: exI [of _ i] cursor_at_upd)
    then have "cursor_found t fl ng c (st\<lparr>c4_charcode := c', c4_gindex := g\<rparr>)"
      using False b c' f by (auto simp: cursor_found_def simp flip: n_def)
    then show ?thesis using False r(1) by (subst tt_cmap4_next_loop.simps) (simp add: gc)
  next
    case True
    then have c': "c \<le> c'" "c' \<le> max c (Suc (se t i))"
      "\<forall>e. c \<le> e \<and> e \<le> se t i \<longrightarrow> clip_glyph ng (seg_map t n i e) = 0"
      using r(2) by (auto simp: gc seg_scan_ok_def)
    have zero: "clip_glyph ng (?f e) = 0" if "c \<le> e" "i + 1 < n \<Longrightarrow> e < ss t n (i + 1)" for e
    proof (cases "e \<le> se t i")
      case True
      then show ?thesis using c'(3) f that(1) by simp
    next
      case False
      then show ?thesis using ordered_between [OF ranges cur(1), of e] that(2) by simp
    qed
    have sr: "tt_cmap4_set_range st (i + 1) = (if n \<le> i + 1 then Some (- 1, st) else Some (0, at_segment st (i + 1)))"
      using sorted4_eff [OF assms(2), of "i + 1"] tok
      by (subst set_range_spec) (auto simp: d table4_ok_def n_def)
    show ?thesis
    proof (cases "n \<le> i + 1")
      case end_reached: True
      have "cmap4_sorted_ok t fl (st\<lparr>c4_charcode := 4294967295, c4_gindex := 0\<rparr>)"
        using less.prems(1) assms(2) by (simp add: cmap4_sorted_ok_def)
      then have "cursor_found t fl ng c (st\<lparr>c4_charcode := 4294967295, c4_gindex := 0\<rparr>)"
        using zero end_reached by (simp add: cursor_found_def flip: n_def)
      then show ?thesis using True r(1) sr end_reached
        by (subst tt_cmap4_next_loop.simps) (simp add: gc cur(2))
    next
      case False
      define st1 where "st1 = at_segment st (i + 1)"
      define e where "e = (if c' < c4_start st1 then c4_start st1 else c')"
      have ok1: "cmap4_ok t fl st1" and at1: "cursor_at st1 (i + 1)"
        using set_range_ok [OF less.prems(1), of "i + 1"] False sr
        by (auto simp: st1_def cursor_at_def d)
      have s1: "c4_start st1 = ss t n (i + 1)" by (simp add: st1_def d)
      have m: "num_segs4 t - (i + 1) < num_segs4 t - i" using False by (simp add: n_def)
      have "ss t (num_segs4 t) (i + 1) \<le> e" by (simp add: e_def s1 n_def)
      from less.hyps [OF m ok1 at1 this] obtain st' where st': "tt_cmap4_next_loop ng st1 e = Some st'"
        "cursor_found t fl ng e st'" by blast
      have "cursor_found t fl ng c st'"
      proof (rule cursor_found_skip [OF st'(2)])
        show "c \<le> e" using c'(1) by (simp add: e_def)
        fix k assume k: "c \<le> k" "k < e"
        have "k < ss t n (i + 1) \<or> k \<le> se t i \<or> k < c" using k(2) c'(2) by (auto simp: e_def s1 split: if_splits)
        then show "clip_glyph ng (ordered_map t (num_segs4 t) k) = 0"
          using k(1) zero [of k] c'(3) f by (auto simp flip: n_def)
      qed
      moreover have "tt_cmap4_set_range st (i + 1) = Some (0, st1)" using sr False by (simp add: st1_def)
      ultimately show ?thesis using True r(1) st'(1)
        by (subst tt_cmap4_next_loop.simps) (simp add: gc cur(2) flip: e_def)
    qed
  qed
qed

lemma next_sorted:
  assumes ok: "cmap4_ok t fl st" and "sorted4 t fl" "cursor_at st i" and d: "c4_charcode st < 65536"
    and "c \<le> c4_charcode st"
    and "\<And>e. c \<le> e \<Longrightarrow> e \<le> c4_charcode st \<or> e < ss t (num_segs4 t) i \<Longrightarrow>
      clip_glyph ng (ordered_map t (num_segs4 t) e) = 0"
  shows "\<exists>st'. tt_cmap4_next ng st = Some st' \<and> cursor_found t fl ng c st'"
proof -
  define e where "e = (if Suc (c4_charcode st) < c4_start st then c4_start st else Suc (c4_charcode st))"
  have s: "c4_start st = ss t (num_segs4 t) i" by (rule cursor_at_fields [OF assms(3) ok])
  have "ss t (num_segs4 t) i \<le> e" by (simp add: e_def s)
  from next_loop_sorted [OF ok assms(2,3) this] obtain st' where st':
    "tt_cmap4_next_loop ng st e = Some st'" "cursor_found t fl ng e st'" by blast
  have "cursor_found t fl ng c st'"
  proof (rule cursor_found_skip [OF st'(2)])
    show "c \<le> e" using assms(5) by (simp add: e_def)
    show "clip_glyph ng (ordered_map t (num_segs4 t) k) = 0" if "c \<le> k" "k < e" for k
      using that by (intro assms(6)) (auto simp: e_def s split: if_splits)
  qed
  moreover have "add32 (c4_charcode st) 1 = Suc (c4_charcode st)" using d by (simp add: add32_small)
  ultimately show ?thesis using st'(1)
    by (simp add: tt_cmap4_next_def Let_def e_def del: One_nat_def)
qed

lemma cursor_found_next:
  assumes "cursor_found t fl ng (Suc c) st"
  shows "next_char_ok 65536 ng (cmap4_map t fl) c
    (c4_gindex st, if c4_gindex st \<noteq> 0 then c4_charcode st else c)"
  using assms
  by (auto simp: cursor_found_def next_char_ok_def cmap4_map_def cmap4_sorted_ok_def sorted4_def Suc_le_eq
      split: if_splits)

lemma binary_sorted:
  assumes ok: "cmap4_sorted_ok t fl st" and c: "c < 65535"
  shows "\<exists>g c' st'. tt_cmap4_char_map_binary ng st c True = Some (g, c', st') \<and> cmap4_sorted_ok t fl st' \<and>
    c' < 65536 \<and> next_char_ok 65536 ng (cmap4_map t fl) c (g, c')"
proof -
  define n where "n = num_segs4 t"
  let ?f = "ordered_map t n"
  have ok4: "cmap4_ok t fl st" and so: "sorted4 t fl" using ok by (simp_all add: cmap4_sorted_ok_def)
  have u: "\<not> flag_unsorted fl" using so by (simp add: sorted4_def)
  have t: "table4_ok t fl" "c4_data st = t" "c4_flags st = fl" "c4_num_ranges st = n"
    using ok4 by (simp_all add: cmap4_ok_def n_def)
  have ranges: "sorted_ranges (ss t n) (se t) n" unfolding n_def by (rule sorted4_ranges [OF t(1) so])
  have seg0: "n = 0 \<Longrightarrow> cmap4_map t fl e = 0" for e
    using u by (simp add: cmap4_map_def ordered_map_def first_seg_def flip: n_def)
  note k = table4_count [OF t(1)]
  have n': "u16 t 6 div 2 = n" by (simp add: n_def num_segs4_def)
  have a: "add32 c (Suc 0) = Suc c" using c by (simp add: add32_small)
  have lt: "Suc c < 65536" using c by simp
  have none: ?thesis if "tt_cmap4_char_map_binary ng st c True = Some (0, c, st)"
    "\<And>e. c < e \<Longrightarrow> e < 65536 \<Longrightarrow> clip_glyph ng (cmap4_map t fl e) = 0"
    using that ok c by (simp add: next_char_ok_def)
  show ?thesis
  proof (cases "n = 0")
    case True
    then show ?thesis by (intro none) (simp_all add: tt_cmap4_char_map_binary_def t k n' Let_def seg0)
  next
    case False
    obtain mid lst d g where r: "locate4 t fl ng True n (Suc c) = Some (mid, lst, d, g)"
      "located t n ng True (Suc c) (mid, lst, d, g)"
      using locate_spec [OF t(1) n_def _ u, of ng True "Suc c"] False by auto
    note b = located_bounds [OF r(2) lt]
    note run = binary_next_run [of st n ng c mid lst d g, unfolded t(2,3) n', OF k refl _ r(1) [folded a, unfolded One_nat_def [symmetric]]]
    have npos: "0 < n" using False by simp
    define j where "j = (if d > lst then mid + 1 else mid)"
    define st1 where "st1 = at_segment st j"
    have sr: "tt_cmap4_set_range st j = Some (0, st1)" if "j < n"
      using that sorted4_eff [OF so, of j] t(1) by (subst set_range_spec) (auto simp: t table4_ok_def n_def st1_def)
    have ok1: "cmap4_ok t fl st1" and at1: "cursor_at st1 j" if "j < n"
      using set_range_ok [OF ok4, of j] sr [OF that] that by (auto simp: st1_def cursor_at_def t)
    have d32: "d < 4294967296" using b(4) by simp
    have miss: "d = Suc c" "g = 0" "\<forall>i < mid. se t i < Suc c" "\<forall>i. mid < i \<and> i < n \<longrightarrow> Suc c < ss t n i"
      if "\<not> (ss t n mid \<le> Suc c \<and> Suc c \<le> se t mid)"
      using r(2) that by (simp_all add: located_def)
    have inside: "first_seg t n (Suc c) = Some mid" "glyph_in_seg_ok t n mid ng True (Suc c) (g, d)"
      if "ss t n mid \<le> Suc c" "Suc c \<le> se t mid"
      using r(2) that by (simp_all add: located_def)
    show ?thesis
    proof (cases "d > lst \<and> mid + 1 = n")
      case True
      have "\<not> (ss t n mid \<le> Suc c \<and> Suc c \<le> se t mid)"
        using True inside b(2) by (auto simp: glyph_in_seg_ok_def)
      note ms = miss [OF this]
      have "\<forall>i < n. se t i < Suc c" using ms(1,3) True b(2) by (auto simp: less_Suc_eq)
      then have "?f e = 0" if "c < e" for e using that by (intro ordered_gap) fastforce
      moreover have "tt_cmap4_char_map_binary ng st c True = Some (0, c, st)" using run False True by simp
      ultimately show ?thesis using u by (intro none) (simp_all add: cmap4_map_def flip: n_def)
    next
      case more: False
      have jn: "j < n" using more b(1) by (auto simp: j_def)
      have run1: "tt_cmap4_char_map_binary ng st c True =
          (if g \<noteq> 0 then Some (g, d, st1\<lparr>c4_charcode := d, c4_gindex := g\<rparr>)
           else do {
             st2 \<leftarrow> tt_cmap4_next ng (st1\<lparr>c4_charcode := d\<rparr>);
             Some (c4_gindex st2, if c4_gindex st2 \<noteq> 0 then c4_charcode st2 else c, st2)
           })"
        unfolding run [OF npos] if_not_P [OF more] j_def [symmetric] sr [OF jn] bind.bind_lunit by simp
      show ?thesis
      proof (cases "g = 0")
        case nz: False
        have d: "d = Suc c" "ss t n mid \<le> Suc c" "Suc c \<le> se t mid" using b(6) nz by simp_all
        have j: "j = mid" using d b(2) by (simp add: j_def)
        have "?f (Suc c) = g"
          using ordered_in [OF ranges b(1) d(2,3)] inside(2) [OF d(2,3)] nz by (simp add: glyph_in_seg_ok_def)
        then have "next_char_ok 65536 ng (cmap4_map t fl) c (g, d)"
          using nz d(1) lt u by (auto simp: next_char_ok_def cmap4_map_def simp flip: n_def)
        moreover have "cmap4_sorted_ok t fl (st1\<lparr>c4_charcode := d, c4_gindex := g\<rparr>)"
          using ok1 [OF jn] at1 [OF jn] so d d32 j
          by (auto simp: cmap4_sorted_ok_def simp flip: n_def intro!: exI [of _ j] cursor_at_upd)
        ultimately show ?thesis using run1 nz b(4) by auto
      next
        case True
        have "clip_glyph ng (?f e) = 0" if "Suc c \<le> e" "e \<le> d \<or> e < ss t n j" for e
        proof (cases "ss t n mid \<le> Suc c \<and> Suc c \<le> se t mid")
          case hit: True
          then have i: "glyph_in_seg_ok t n mid ng True (Suc c) (g, d)" by (intro inside) simp_all
          have "j = mid" using i b(2) by (auto simp: j_def glyph_in_seg_ok_def)
          then have "e \<le> d" using that hit by auto
          moreover have "?f e = seg_map t n mid e"
            using i \<open>e \<le> d\<close> that(1) hit by (intro ordered_in [OF ranges b(1)]) (auto simp: glyph_in_seg_ok_def)
          ultimately show ?thesis using i True that(1) by (auto simp: glyph_in_seg_ok_def)
        next
          case gap: False
          note ms = miss [OF gap]
          have "?f e = 0"
          proof (rule ordered_gap)
            fix i assume i: "i < n"
            have e: "e < ss t n j \<or> e = Suc c" using that ms(1) by auto
            show "\<not> (ss t n i \<le> e \<and> e \<le> se t i)"
            proof (cases "i < j")
              case True
              then have "se t i < Suc c" using ms(1,3) b(2) by (auto simp: j_def less_Suc_eq split: if_splits)
              then show ?thesis using that(1) by simp
            next
              case False
              then have "ss t n j \<le> ss t n i" using i by (intro sorted_ranges.lo_mono [OF ranges]) simp_all
              moreover have "Suc c < ss t n j" using gap ms(1,4) b(2) jn by (auto simp: j_def not_le split: if_splits)
              ultimately show ?thesis using e by auto
            qed
          qed
          then show ?thesis by simp
        qed
        then obtain st2 where st2: "tt_cmap4_next ng (st1\<lparr>c4_charcode := d\<rparr>) = Some st2"
          "cursor_found t fl ng (Suc c) st2"
          using next_sorted [OF cmap4_ok_found(1) [OF ok1 [OF jn] d32] so cursor_at_upd(1) [OF at1 [OF jn]], of "Suc c" ng]
            b(3,4) by (auto simp flip: n_def)
        have "c4_gindex st2 \<noteq> 0 \<Longrightarrow> c4_charcode st2 < 65536" using st2(2) by (simp add: cursor_found_def)
        then show ?thesis using run1 True st2 cursor_found_next [OF st2(2)] c
          by (simp add: cursor_found_def)
      qed
    qed
  qed
qed

lemma next4_sorted:
  assumes ok: "cmap4_sorted_ok t fl st" and c: "c < 4294967296"
  shows "\<exists>g c' st'. tt_cmap4_char_next ng st c = Some (g, c', st') \<and> cmap4_sorted_ok t fl st' \<and>
    c' < 4294967296 \<and> next_char_ok 65536 ng (cmap4_map t fl) c (g, c')"
proof -
  have ok4: "cmap4_ok t fl st" and so: "sorted4 t fl" using ok by (simp_all add: cmap4_sorted_ok_def)
  have fl: "\<not> flag_unsorted (c4_flags st)" using ok4 so by (simp add: cmap4_ok_def sorted4_def)
  consider (big) "c \<ge> 65535" | (cur) "c < 65535" "c = c4_charcode st" | (bin) "c < 65535" "c \<noteq> c4_charcode st"
    by linarith
  then show ?thesis
  proof cases
    case big
    then show ?thesis using ok c by (simp add: tt_cmap4_char_next_def next_char_ok_def)
  next
    case cur
    then obtain i where i: "cursor_at st i" "ss t (num_segs4 t) i \<le> c"
      using ok by (auto simp: cmap4_sorted_ok_def)
    have "\<exists>st'. tt_cmap4_next ng st = Some st' \<and> cursor_found t fl ng (Suc c) st'"
    proof -
      have s: "c4_start st = ss t (num_segs4 t) i" by (rule cursor_at_fields [OF i(1) ok4])
      have a: "add32 c (Suc 0) = Suc c" using cur(1) by (simp add: add32_small)
      have "ss t (num_segs4 t) i \<le> Suc c" using i(2) by simp
      from next_loop_sorted [OF ok4 so i(1) this, of ng] show ?thesis
        using i(2) by (simp add: tt_cmap4_next_def Let_def cur(2) [symmetric] a s)
    qed
    then obtain st' where st': "tt_cmap4_next ng st = Some st'" "cursor_found t fl ng (Suc c) st'" by blast
    have "tt_cmap4_char_next ng st c =
        Some (c4_gindex st', if c4_gindex st' \<noteq> 0 then c4_charcode st' else c, st')"
      using cur st'(1) fl by (simp add: tt_cmap4_char_next_def)
    moreover have "c4_gindex st' \<noteq> 0 \<Longrightarrow> c4_charcode st' < 65536" "cmap4_sorted_ok t fl st'"
      using st'(2) by (simp_all add: cursor_found_def)
    ultimately show ?thesis using cursor_found_next [OF st'(2)] c by auto
  next
    case bin
    obtain g c' st' where "tt_cmap4_char_map_binary ng st c True = Some (g, c', st')"
      "cmap4_sorted_ok t fl st'" "c' < 65536" "next_char_ok 65536 ng (cmap4_map t fl) c (g, c')"
      using binary_sorted [OF ok bin(1)] by blast
    then show ?thesis using bin fl by (simp add: tt_cmap4_char_next_def)
  qed
qed

interpretation cmap4_sorted: tt_cmap_enum tt_cmap4_char_next cmap4_sorted_ok cmap4_map 65536
proof
  show "\<exists>g c' st'. tt_cmap4_char_next ng st c = Some (g, c', st') \<and> cmap4_sorted_ok t fl st' \<and>
      c' < 4294967296 \<and> (g \<noteq> 0 \<longrightarrow> c < 4294967295 \<longrightarrow> c < c')"
    if "cmap4_sorted_ok t fl st" "c < 4294967296" for t fl st c ng
    using next4_sorted [OF that, of ng] by (fastforce simp: next_char_ok_def)
  show "next_char_ok 65536 ng (cmap4_map t fl) c (g, c')"
    if "cmap4_sorted_ok t fl st" "c < 4294967295" "tt_cmap4_char_next ng st c = Some (g, c', st')"
    for t fl st c g c' st' ng
    using that next4_sorted [of t fl st c ng] by auto
qed

section \<open>Properties\<close>

text \<open>
  C22: For a table that \<open>validate\<close> accepts (in either \<open>longjmp\<close> semantics), and after any
  sequence of \<open>char_next\<close> calls on the object, \<open>char_index\<close> returns the glyph that \<open>cmap4_map\<close>
  gives the code, by the linear search when the segments are unsorted and otherwise by the
  bisection, whether they overlap or not; \<open>char_next\<close> ends, with 0 or a larger code; neither
  reads outside the table.
\<close>

theorem tt_cmap4_lookup:
  assumes "length t < 4294967296" "tt_cmap4_validate env t FT_VALIDATE_DEFAULT n None = VRet fl None"
    and "\<forall>c \<in> set cs. c < 4294967296" "c < 4294967295"
  shows "\<exists>st0 st g g' c' st'. tt_cmap4_init t fl = Some st0 \<and>
    run_next tt_cmap4_char_next ng st0 cs = Some st \<and>
    tt_cmap4_char_index ng st c = Some g \<and>
    clip_glyph ng g = clip_glyph ng (cmap4_map t fl c) \<and>
    tt_cmap4_char_next ng st c = Some (g', c', st') \<and> (g' \<noteq> 0 \<longrightarrow> c < c')"
  using cmap4.lookup_and_progress [OF assms] .

definition table4 :: bytes where
  "table4 = [0, 4, 0, 40, 0, 0, 0, 4, 0, 4, 0, 1, 0, 0, 0, 66, 255, 255, 0, 0, 0, 65, 255, 255,
     255, 194, 0, 1, 0, 0, 0, 0, 0, 0, 0, 0, 0, 0, 0, 0]"

lemma table4_reads:
  "length table4 = 40" "u16 table4 2 = 40" "u16 table4 6 = 4" "u16 table4 8 = 4" "u16 table4 10 = 1"
  "u16 table4 12 = 0" "u16 table4 14 = 66" "u16 table4 16 = 65535" "u16 table4 20 = 65"
  "u16 table4 22 = 65535" "s16 table4 24 = - 62" "s16 table4 26 = 1" "u16 table4 28 = 0" "u16 table4 30 = 0"
  by (simp_all add: u8_def u16_def s16_def table4_def)

lemma check_segs_2:
  "tt_cmap4_check_segs env t l g len n i a b u v 2 = tt_cmap4_check_segs env t l g len n i a b u v (Suc (Suc 0))"
  by (simp only: numeral_2_eq_2)

lemma table4_accepted:
  "tt_cmap4_validate Freestanding table4 FT_VALIDATE_DEFAULT 10 None = VRet 0 None"
  by (simp add: tt_cmap4_validate_def tt_cmap4_check_params_def tt_cmap4_check_offset_def vdefs peek_defs
      table4_reads check_segs_2 flag_bits_def)

theorem tt_cmap4_lookup_witness:
  "\<exists>st0 st g g' c' st'. tt_cmap4_init table4 0 = Some st0 \<and>
    run_next tt_cmap4_char_next 10 st0 [64, 65] = Some st \<and>
    tt_cmap4_char_index 10 st 65 = Some g \<and>
    clip_glyph 10 g = clip_glyph 10 (cmap4_map table4 0 65) \<and>
    tt_cmap4_char_next 10 st 65 = Some (g', c', st') \<and> (g' \<noteq> 0 \<longrightarrow> 65 < c')"
  by (rule tt_cmap4_lookup [OF _ table4_accepted]) (simp_all add: table4_reads)


lemma sorted4_table4: "sorted4 table4 0"
  by (auto simp: sorted4_def flag_unsorted_def flag_overlapping_def num_segs4_def so_def table4_reads
      less_2_cases_iff)


definition stale4_head :: bytes where
  "stale4_head = [0, 4, 0, 32, 0, 0, 0, 4, 0, 4, 0, 1, 0, 0, 0, 66, 255, 255, 0, 0, 0, 65, 255, 255,
     255, 194, 0, 5, 0, 0, 255, 255]"

definition stale4 :: bytes where
  "stale4 = stale4_head @ replicate 65535 0"

lemma stale4_head: "k < 32 \<Longrightarrow> stale4 ! k = stale4_head ! k"
proof -
  have "length stale4_head = 32" by (simp add: stale4_head_def)
  then show "k < 32 \<Longrightarrow> stale4 ! k = stale4_head ! k" unfolding stale4_def by (simp add: nth_append)
qed

lemma stale4_length: "length stale4 = 65567"
  unfolding stale4_def length_append length_replicate by (simp add: stale4_head_def)

lemma stale4_reads:
  "u16 stale4 2 = 32" "u16 stale4 6 = 4" "u16 stale4 8 = 4" "u16 stale4 10 = 1"
  "u16 stale4 12 = 0" "u16 stale4 14 = 66" "u16 stale4 16 = 65535" "u16 stale4 20 = 65"
  "u16 stale4 22 = 65535" "s16 stale4 24 = - 62" "s16 stale4 26 = 5" "u16 stale4 28 = 0" "u16 stale4 30 = 65535"
  by (simp_all add: u8_def u16_def s16_def stale4_head stale4_head_def)

lemma stale4_accepted:
  "tt_cmap4_validate env stale4 FT_VALIDATE_DEFAULT 10 None = VRet 0 None"
  by (simp add: tt_cmap4_validate_def tt_cmap4_check_params_def tt_cmap4_check_offset_def vdefs peek_defs
      stale4_reads stale4_length check_segs_2 flag_bits_def)

lemma stale4_peeks:
  "peek_ushort stale4 6 = Some 4" "peek_ushort stale4 14 = Some 66" "peek_ushort stale4 16 = Some 65535"
  "peek_ushort stale4 20 = Some 65" "peek_ushort stale4 22 = Some 65535" "peek_short stale4 24 = Some (- 62)"
  "peek_short stale4 26 = Some 5" "peek_ushort stale4 28 = Some 0" "peek_ushort stale4 30 = Some 65535"
  by (simp_all add: peek_defs stale4_reads stale4_length)

lemma stale4_segs: "segs_ok stale4 2"
  by (auto simp: segs_ok_def seg_ok_def less_2_cases_iff ss_def se_def so_def stale4_reads stale4_length)

text \<open>The cursor at the first segment, with a cached code and glyph.\<close>

definition stale4_cursor :: "nat \<Rightarrow> nat \<Rightarrow> TT_CMap4" where
  "stale4_cursor c g = \<lparr>c4_data = stale4, c4_flags = 0, c4_charcode = c, c4_gindex = g, c4_num_ranges = 2,
     c4_range = 0, c4_start = 65, c4_end = 66, c4_delta = - 62, c4_values = None\<rparr>"

lemma stale4_search:
  "tt_cmap4_search stale4 2 65 0 2 = Some (0, 66, True)"
  "tt_cmap4_search stale4 2 257 0 2 = Some (0, 66, False)"
  by (subst tt_cmap4_search.simps, subst tt_cmap4_search.simps, simp add: stale4_peeks)+

lemma stale4_locate:
  "locate4 stale4 0 10 True 2 65 = Some (0, 66, 65, 3)"
  "locate4 stale4 0 10 True 2 257 = Some (0, 66, 257, 0)"
  by (simp_all add: locate4_def stale4_search tt_cmap4_hit_def tt_cmap4_read_seg_def stale4_peeks
      tt_cmap4_fix_last_def flag_overlapping_def tt_cmap4_seg_glyph_def u16_of_int_def)

lemma stale4_eff: "eff stale4 2 0 = (- 62, 0)" "eff stale4 2 1 = (5, 65535)"
  by (simp_all add: eff_def ss_def se_def sd_def so_def stale4_reads stale4_length tt_cmap4_fix_last_def)

lemma stale4_next64:
  "tt_cmap4_init stale4 0 = Some (st0 :: TT_CMap4) \<Longrightarrow>
   tt_cmap4_char_next 10 st0 64 = Some (3, 65, stale4_cursor 65 3)"
proof -
  assume "tt_cmap4_init stale4 0 = Some st0"
  then have st0: "st0 = \<lparr>c4_data = stale4, c4_flags = 0, c4_charcode = 4294967295, c4_gindex = 0,
       c4_num_ranges = 2, c4_range = 0, c4_start = 0, c4_end = 0, c4_delta = 0, c4_values = None\<rparr>"
    by (simp add: tt_cmap4_init_def stale4_peeks)
  have a: "add32 64 1 = 65" by (simp add: add32_def)
  have "tt_cmap4_set_range st0 0 = Some (0, at_segment st0 0)"
    using set_range_spec [of st0 0] by (simp add: st0 stale4_segs stale4_eff)
  then have "tt_cmap4_char_map_binary 10 st0 64 True = Some (3, 65, stale4_cursor 65 3)"
    using binary_next_run [of st0 2 10 64 0 66 65 3, unfolded a]
    by (simp add: st0 stale4_reads stale4_peeks stale4_locate at_segment_def stale4_eff se_def ss_def
        stale4_cursor_def)
  then show ?thesis by (simp add: tt_cmap4_char_next_def st0 flag_unsorted_def)
qed

lemma stale4_next256:
  "tt_cmap4_char_next 10 (stale4_cursor 65 3) 256 =
     Some (0, 256, (stale4_cursor 65 3)\<lparr>c4_end := 65535, c4_start := 65535, c4_delta := 5\<rparr>)"
proof -
  let ?st = "stale4_cursor 65 3"
  have a: "add32 256 1 = 257" by (simp add: add32_def)
  have "tt_cmap4_set_range ?st 1 = Some (- 1, ?st\<lparr>c4_end := 65535, c4_start := 65535, c4_delta := 5\<rparr>)"
    using set_range_spec [of ?st 1] by (simp add: stale4_cursor_def stale4_segs stale4_eff [simplified])
  then have "tt_cmap4_char_map_binary 10 ?st 256 True =
      Some (0, 256, ?st\<lparr>c4_end := 65535, c4_start := 65535, c4_delta := 5\<rparr>)"
    using binary_next_run [of ?st 2 10 256 0 66 257 0, unfolded a]
    by (simp add: stale4_reads stale4_peeks stale4_locate stale4_cursor_def)
  then show ?thesis by (simp add: tt_cmap4_char_next_def stale4_cursor_def flag_unsorted_def)
qed

lemma stale4_next65:
  "tt_cmap4_char_next 10 ((stale4_cursor 65 3)\<lparr>c4_end := 65535, c4_start := 65535, c4_delta := 5\<rparr>) 65 =
     Some (4, 65535, (stale4_cursor 65535 4)\<lparr>c4_end := 65535, c4_start := 65535, c4_delta := 5\<rparr>)"
  by (simp add: tt_cmap4_char_next_def stale4_cursor_def flag_unsorted_def tt_cmap4_next_def Let_def
      add32_def tt_cmap4_next_loop.simps tt_cmap4_scan_segment_def tt_cmap4_scan_delta.simps u16_of_int_def)

text \<open>
  C24: A table that ends with the offset 0xFFFF is accepted, but its cursor goes stale. After
  \<open>char_next\<close> has found 65, a call from 256 makes \<open>set_range\<close> overwrite the start, end and delta
  of the cursor and fail, while the cached code stays 65. The next call from 65 trusts the
  cache: it skips the code 66, which the table maps to glyph 4, and reports 0xFFFF with a
  glyph made of the leftover delta, a code that \<open>char_index\<close> maps to nothing.
\<close>

theorem tt_cmap4_stale_cursor:
  "tt_cmap4_validate env stale4 FT_VALIDATE_DEFAULT 10 None = VRet 0 None \<and>
   cmap4_map stale4 0 66 = 4 \<and> cmap4_map stale4 0 65535 = 0 \<and>
   (\<exists>st0 st1 st2 st3. tt_cmap4_init stale4 0 = Some st0 \<and>
      tt_cmap4_char_next 10 st0 64 = Some (3, 65, st1) \<and>
      tt_cmap4_char_next 10 st1 256 = Some (0, 256, st2) \<and>
      tt_cmap4_char_next 10 st2 65 = Some (4, 65535, st3))"
proof -
  have u: "[0..<2] = [0, 1::nat]" by (simp add: upt_rec)
  have m: "cmap4_map stale4 0 66 = 4" "cmap4_map stale4 0 65535 = 0"
    by (simp_all add: cmap4_map_def flag_unsorted_def ordered_map_def first_seg_def num_segs4_def u
        stale4_reads se_def ss_def seg_map_def stale4_eff stale4_eff(2) [simplified] seg_value_def seg_slice_def
        u16_of_int_def)
  obtain st0 where i: "tt_cmap4_init stale4 0 = Some st0" by (simp add: tt_cmap4_init_def stale4_peeks)
  show ?thesis
    using stale4_accepted m i stale4_next64 [OF i] stale4_next256 stale4_next65 by blast
qed

end
