(* ===== verification/Tt_CMap6.thy ===== *)
theory Tt_CMap6
  imports Tt_CMap0
begin

text \<open>
  Format 6 of \<open>src/sfnt/ttcmap.c\<close>: an array of \<open>count\<close> glyph indices at offset 10 for the
  codes from \<open>first\<close> on.
\<close>

fun tt_cmap6_check_ids :: "setjmp_env \<Rightarrow> bytes \<Rightarrow> nat \<Rightarrow> nat \<Rightarrow> nat \<Rightarrow> unit validator" where
  "tt_cmap6_check_ids env t num_glyphs p 0 = vret ()"
| "tt_cmap6_check_ids env t num_glyphs p (Suc count) =
     vbind (vload (peek_ushort t p)) (\<lambda>gindex.
     vbind (vcheck env (gindex \<ge> num_glyphs) Invalid_Glyph_Index) (\<lambda>_.
     tt_cmap6_check_ids env t num_glyphs (p + 2) count))"

definition tt_cmap6_validate ::
    "setjmp_env \<Rightarrow> bytes \<Rightarrow> validation_level \<Rightarrow> nat \<Rightarrow> nat validator" where
  "tt_cmap6_validate env t level num_glyphs =
     vbind (vcheck env (10 > length t) Invalid_Table) (\<lambda>_.
     vbind (vload (peek_ushort t 2)) (\<lambda>len.
     vbind (vload (peek_ushort t 8)) (\<lambda>count.
     vbind (vcheck env (len > length t \<or> len < 10 + count * 2) Invalid_Table) (\<lambda>_.
     vbind (if at_least_tight level then tt_cmap6_check_ids env t num_glyphs 10 count else vret ()) (\<lambda>_.
     vret 0)))))"

definition tt_cmap6_char_index :: "nat \<Rightarrow> bytes \<Rightarrow> nat \<Rightarrow> nat option" where
  "tt_cmap6_char_index ng table char_code = do {
     start \<leftarrow> peek_ushort table 6;
     count \<leftarrow> peek_ushort table 8;
     let idx = sub32 char_code start;
     if idx < count then peek_ushort table (10 + mul32 2 idx) else Some 0
   }"

text \<open>
  The loop of \<open>tt_cmap6_char_next\<close> over the \<open>k = count - idx\<close> remaining entries. \<open>None\<close>
  inside the result stands for the two \<open>return 0\<close> that leave \<open>*pchar_code\<close> alone.
\<close>

fun tt_cmap6_scan :: "bytes \<Rightarrow> nat \<Rightarrow> nat \<Rightarrow> nat \<Rightarrow> nat \<Rightarrow> (nat \<times> nat option) option" where
  "tt_cmap6_scan table 0 p char_code gindex = Some (gindex, Some 0)"
| "tt_cmap6_scan table (Suc k) p char_code gindex = do {
     gindex \<leftarrow> peek_ushort table p;
     if gindex \<noteq> 0 then Some (gindex, Some char_code)
     else if char_code \<ge> 65535 then Some (0, None)
     else tt_cmap6_scan table k (p + 2) (char_code + 1) gindex
   }"

definition tt_cmap6_char_next :: "nat \<Rightarrow> bytes \<Rightarrow> nat \<Rightarrow> (nat \<times> nat \<times> bytes) option" where
  "tt_cmap6_char_next ng table code = do {
     let char_code = add32 code 1;
     start \<leftarrow> peek_ushort table 6;
     count \<leftarrow> peek_ushort table 8;
     if char_code \<ge> 65536 then Some (0, code, table)
     else do {
       let char_code = (if char_code < start then start else char_code);
       let idx = sub32 char_code start;
       (gindex, result) \<leftarrow> tt_cmap6_scan table (count - idx) (10 + mul32 2 idx) char_code 0;
       Some (gindex, (case result of None \<Rightarrow> code | Some r \<Rightarrow> r), table)
     }
   }"

definition tt_cmap6_get_info :: "bytes \<Rightarrow> TT_CMapInfo option" where
  "tt_cmap6_get_info table = do {
     language \<leftarrow> peek_ushort table 4;
     Some \<lparr>info_format = 6, info_language = language\<rparr>
   }"

section \<open>Correctness\<close>

definition cmap6_ok :: "bytes \<Rightarrow> nat \<Rightarrow> bytes \<Rightarrow> bool" where
  "cmap6_ok t fl st \<longleftrightarrow> st = t \<and> 10 + 2 * u16 t 8 \<le> length t"

definition cmap6_map :: "bytes \<Rightarrow> nat \<Rightarrow> nat \<Rightarrow> nat" where
  "cmap6_map t fl c =
     (if u16 t 6 \<le> c \<and> c - u16 t 6 < u16 t 8 then u16 t (10 + 2 * (c - u16 t 6)) else 0)"

lemma cmap6_ids_agree: "vagree (tt_cmap6_check_ids Hosted t g p n) (tt_cmap6_check_ids Freestanding t g p n)"
  by (induction n arbitrary: p) (auto intro!: agree_intros)

lemma cmap6_agree: "vagree (tt_cmap6_validate Hosted t l n) (tt_cmap6_validate Freestanding t l n)"
  unfolding tt_cmap6_validate_def by (intro agree_intros cmap6_ids_agree)

lemma cmap6_ids_safe:
  "p + 2 * n \<le> length t \<Longrightarrow> Q () s \<Longrightarrow> vwp (tt_cmap6_check_ids Hosted t g p n) s Q"
  by (induction n arbitrary: p) (simp_all add: vsafe_simps)

lemma cmap6_safe:
  "(10 + 2 * u16 t 8 \<le> length t \<Longrightarrow> Q 0 s) \<Longrightarrow> vwp (tt_cmap6_validate Hosted t l n) s Q"
  by (auto simp: tt_cmap6_validate_def vsafe_simps intro!: cmap6_ids_safe)

lemma cmap6_index:
  assumes "10 + 2 * u16 t 8 \<le> length t" "c < 4294967296"
  shows "tt_cmap6_char_index ng t c = Some (cmap6_map t fl c)"
proof -
  have b: "u16 t 6 < 65536" "u16 t 8 < 65536" by simp_all
  show ?thesis
  proof (cases "u16 t 6 \<le> c")
    case True
    then have i: "sub32 c (u16 t 6) = c - u16 t 6" using assms(2) by (intro sub32_le)
    show ?thesis
    proof (cases "c - u16 t 6 < u16 t 8")
      case lt: True
      then have "mul32 2 (c - u16 t 6) = 2 * (c - u16 t 6)" using b by (intro mul32_small) linarith
      then show ?thesis using assms(1) True lt by (simp add: tt_cmap6_char_index_def i cmap6_map_def)
    next
      case False
      then show ?thesis using assms(1) by (simp add: tt_cmap6_char_index_def i cmap6_map_def)
    qed
  next
    case False
    then have "sub32 c (u16 t 6) = c + 4294967296 - u16 t 6" using b by (intro sub32_gt) linarith+
    then have "\<not> sub32 c (u16 t 6) < u16 t 8" using b by linarith
    then show ?thesis using assms(1) False by (simp add: tt_cmap6_char_index_def cmap6_map_def)
  qed
qed

lemma cmap6_scan:
  assumes "10 + 2 * u16 t 8 \<le> length t" "i + k = u16 t 8" "d = u16 t 6 + i" "d < 65536"
  shows "\<exists>g r. tt_cmap6_scan t k (10 + 2 * i) d 0 = Some (g, r) \<and>
    (case r of None \<Rightarrow> g = 0 | Some c' \<Rightarrow> c' < 65536) \<and>
    (\<forall>c. scan_ok 65536 (cmap6_map t fl) d (g, case r of None \<Rightarrow> c | Some c' \<Rightarrow> c'))"
  using assms(2-4)
proof (induction k arbitrary: i d)
  case 0
  then have "cmap6_map t fl e = 0" if "d \<le> e" for e using that by (auto simp: cmap6_map_def)
  then show ?case by (auto intro!: scan_ok_none)
next
  case (Suc k)
  have rd: "peek_ushort t (10 + 2 * i) = Some (cmap6_map t fl d)"
    using assms(1) Suc.prems by (simp add: cmap6_map_def)
  show ?case
  proof (cases "cmap6_map t fl d = 0")
    case False
    then show ?thesis using rd Suc.prems by (auto intro!: scan_ok_here)
  next
    case z: True
    show ?thesis
    proof (cases "d \<ge> 65535")
      case True
      then have "cmap6_map t fl e = 0" if "d \<le> e" "e < 65536" for e
        using that z Suc.prems by (cases "e = d") auto
      then show ?thesis using rd z True by (auto intro!: scan_ok_none)
    next
      case False
      from Suc.IH [of "Suc i" "Suc d"] Suc.prems False obtain g r where
        r: "tt_cmap6_scan t k (10 + 2 * Suc i) (Suc d) 0 = Some (g, r)"
        "case r of None \<Rightarrow> g = 0 | Some c' \<Rightarrow> c' < 65536"
        "\<And>c. scan_ok 65536 (cmap6_map t fl) (Suc d) (g, case r of None \<Rightarrow> c | Some c' \<Rightarrow> c')"
        by auto
      have "tt_cmap6_scan t (Suc k) (10 + 2 * i) d 0 = Some (g, r)"
        using rd z False r(1) by simp
      moreover have "scan_ok 65536 (cmap6_map t fl) d (g, case r of None \<Rightarrow> c | Some c' \<Rightarrow> c')" for c
        by (rule scan_ok_skip [OF r(3) [of c]]) (use z in \<open>auto simp: le_less_Suc_eq\<close>)
      ultimately show ?thesis using r(2) by blast
    qed
  qed
qed

lemma cmap6_scan_from:
  assumes "10 + 2 * u16 t 8 \<le> length t" "u16 t 6 \<le> d" "d < 65536"
  obtains g r where "tt_cmap6_scan t (u16 t 8 - (d - u16 t 6)) (10 + 2 * (d - u16 t 6)) d 0 = Some (g, r)"
    "case r of None \<Rightarrow> g = 0 | Some c' \<Rightarrow> c' < 65536"
    "\<And>c. scan_ok 65536 (cmap6_map t fl) d (g, case r of None \<Rightarrow> c | Some c' \<Rightarrow> c')"
proof (cases "d - u16 t 6 \<le> u16 t 8")
  case True
  then show ?thesis using cmap6_scan [OF assms(1), of "d - u16 t 6" "u16 t 8 - (d - u16 t 6)" d fl]
      assms that by auto
next
  case False
  then have "\<not> e - u16 t 6 < u16 t 8" if "d \<le> e" for e using that by linarith
  then have "cmap6_map t fl e = 0" if "d \<le> e" for e using that by (simp add: cmap6_map_def)
  then show ?thesis using False that [of 0 "Some 0"] by (auto intro!: scan_ok_none)
qed

lemma cmap6_next:
  assumes "10 + 2 * u16 t 8 \<le> length t" "c < 4294967296"
  shows "\<exists>g c'. tt_cmap6_char_next ng t c = Some (g, c', t) \<and> c' < 4294967296 \<and> (g \<noteq> 0 \<longrightarrow> c' < 65536) \<and>
    (c < 4294967295 \<longrightarrow> next_char_ok 65536 ng (cmap6_map t fl) c (g, c'))"
proof (cases "add32 c 1 < 65536")
  case False
  then have "65535 \<le> c" using assms(2) by (auto simp: add32_def split: if_splits)
  then show ?thesis using False assms by (auto simp: tt_cmap6_char_next_def next_char_ok_def)
next
  case True
  define a where "a = add32 c (Suc 0)"
  define d where "d = (if a < u16 t 6 then u16 t 6 else a)"
  have b: "u16 t 6 < 65536" "u16 t 8 < 65536" by simp_all
  have d: "u16 t 6 \<le> d" "d < 65536" "a \<le> d" using True b by (auto simp: d_def a_def)
  then have i: "sub32 d (u16 t 6) = d - u16 t 6" by (intro sub32_le) linarith+
  have m: "mul32 2 (d - u16 t 6) = 2 * (d - u16 t 6)" using d by (intro mul32_small) linarith
  have z: "cmap6_map t fl e = 0" if "a \<le> e" "e < d" for e
    using that by (auto simp: cmap6_map_def d_def split: if_splits)
  obtain g r where s: "tt_cmap6_scan t (u16 t 8 - (d - u16 t 6)) (10 + 2 * (d - u16 t 6)) d 0 = Some (g, r)"
    "case r of None \<Rightarrow> g = 0 | Some c' \<Rightarrow> c' < 65536"
    "\<And>c. scan_ok 65536 (cmap6_map t fl) d (g, case r of None \<Rightarrow> c | Some c' \<Rightarrow> c')"
    using cmap6_scan_from [OF assms(1) d(1,2)] by metis
  have "scan_ok 65536 (cmap6_map t fl) a (g, case r of None \<Rightarrow> c | Some c' \<Rightarrow> c')"
    using s(3) d(3) z by (rule scan_ok_skip)
  moreover have "c < 4294967295 \<Longrightarrow> a = Suc c" by (simp add: add32_small a_def)
  moreover have "tt_cmap6_char_next ng t c = Some (g, case r of None \<Rightarrow> c | Some c' \<Rightarrow> c', t)"
    using True assms(1) s(1)
    by (simp add: tt_cmap6_char_next_def Let_def i m flip: a_def d_def)
  ultimately show ?thesis using s(2) assms(2) by (auto intro: scan_ok_next split: option.splits)
qed

interpretation cmap6: tt_cmap_ordered tt_cmap6_validate tt_cmap_init tt_cmap6_char_index
  tt_cmap6_char_next cmap6_ok cmap6_map 65536
proof
  show "vagree (tt_cmap6_validate Hosted t l n) (tt_cmap6_validate Freestanding t l n)" for t l n
    by (rule cmap6_agree)
  show "vwp (tt_cmap6_validate Hosted t FT_VALIDATE_DEFAULT n) None
      (\<lambda>fl s. s = None \<and> (\<exists>st. tt_cmap_init t fl = Some st \<and> cmap6_ok t fl st))" if "length t < 4294967296" for t n
    by (rule cmap6_safe) (simp add: tt_cmap_init_def cmap6_ok_def)
  show "\<exists>g. tt_cmap6_char_index ng st c = Some g \<and> clip_glyph ng g = clip_glyph ng (cmap6_map t fl c)"
    if "cmap6_ok t fl st" "c < 4294967296" for t fl st c ng
    using that cmap6_index [of t c ng fl] by (auto simp: cmap6_ok_def)
  show "\<exists>g c' st'. tt_cmap6_char_next ng st c = Some (g, c', st') \<and> cmap6_ok t fl st' \<and>
      c' < 4294967296 \<and> (g \<noteq> 0 \<longrightarrow> c < 4294967295 \<longrightarrow> c < c')"
    if "cmap6_ok t fl st" "c < 4294967296" for t fl st c ng
    using that cmap6_next [of t c ng fl] by (fastforce simp: cmap6_ok_def next_char_ok_def)
  show "next_char_ok 65536 ng (cmap6_map t fl) c (g, c')"
    if "cmap6_ok t fl st" "c < 4294967295" "tt_cmap6_char_next ng st c = Some (g, c', st')"
    for t fl st c g c' st' ng
    using that cmap6_next [of t c ng fl] by (auto simp: cmap6_ok_def)
qed

section \<open>Properties\<close>

text \<open>
  For a table that \<open>validate\<close> accepts (in either \<open>longjmp\<close> semantics), and after any
  sequence of \<open>char_next\<close> calls on the object, \<open>char_index\<close> returns the glyph of the glyph array, and
  \<open>char_next\<close> the first larger code that has a usable glyph; neither reads outside the table.
\<close>

theorem tt_cmap6_lookup_and_enumeration:
  assumes "length t < 4294967296" "tt_cmap6_validate env t FT_VALIDATE_DEFAULT n None = VRet fl None"
    and "\<forall>c \<in> set cs. c < 4294967296" "c < 4294967295"
  shows "\<exists>st0 st g g' c' st'. tt_cmap_init t fl = Some st0 \<and>
    run_next tt_cmap6_char_next ng st0 cs = Some st \<and>
    tt_cmap6_char_index ng st c = Some g \<and>
    clip_glyph ng g = clip_glyph ng (cmap6_map t fl c) \<and>
    tt_cmap6_char_next ng st c = Some (g', c', st') \<and>
    next_char_ok 65536 ng (cmap6_map t fl) c (g', c')"
  using cmap6.lookup_and_enumeration [OF assms] .

definition table6 :: bytes where
  "table6 = [0, 6, 0, 14, 0, 0, 0, 65, 0, 2, 0, 3, 0, 4]"

lemma table6_reads:
  "length table6 = 14" "u16 table6 2 = 14" "u16 table6 8 = 2"
  by (simp_all add: u8_def u16_def u32_def table6_def nth_append)

lemma table6_accepted:
  "tt_cmap6_validate Freestanding table6 FT_VALIDATE_DEFAULT 10 None = VRet 0 None"
  by (simp add: tt_cmap6_validate_def vdefs peek_defs table6_reads )

theorem tt_cmap6_lookup_and_enumeration_witness:
  "\<exists>st0 st g g' c' st'. tt_cmap_init table6 0 = Some st0 \<and>
    run_next tt_cmap6_char_next 10 st0 [64, 65] = Some st \<and>
    tt_cmap6_char_index 10 st 65 = Some g \<and>
    clip_glyph 10 g = clip_glyph 10 (cmap6_map table6 0 65) \<and>
    tt_cmap6_char_next 10 st 65 = Some (g', c', st') \<and>
    next_char_ok 65536 10 (cmap6_map table6 0) 65 (g', c')"
  by (rule tt_cmap6_lookup_and_enumeration [OF _ table6_accepted]) (simp_all add: table6_reads)

end
