(* ===== verification/Tt_CMap8.thy ===== *)
theory Tt_CMap8
  imports Tt_Groups
begin

text \<open>
  Format 8 of \<open>src/sfnt/ttcmap.c\<close>: a bitmap of 65536 bits at offset 12 that says which
  16-bit values are halves of 32-bit codes, the number of groups at 8204, and the groups from
  8208 on, searched one by one.
\<close>

section \<open>Validation\<close>

text \<open>\<open>is32[x >> 3] & ( 0x80 >> ( x & 7 ) )\<close>\<close>

definition is32_bit :: "bytes \<Rightarrow> nat \<Rightarrow> bool option" where
  "is32_bit t x = do {
     b \<leftarrow> peek_byte t (12 + x div 8);
     Some (odd (b div 2 ^ (7 - x mod 8)))
   }"

fun tt_cmap8_check_hi :: "setjmp_env \<Rightarrow> bytes \<Rightarrow> nat \<Rightarrow> nat \<Rightarrow> unit validator" where
  "tt_cmap8_check_hi env t start 0 = vret ()"
| "tt_cmap8_check_hi env t start (Suc count) =
     vbind (vload (is32_bit t (start div 65536))) (\<lambda>b.
     vbind (vcheck env (\<not> b) Invalid_Table) (\<lambda>_.
     vbind (vload (is32_bit t (start mod 65536))) (\<lambda>b.
     vbind (vcheck env (\<not> b) Invalid_Table) (\<lambda>_.
     tt_cmap8_check_hi env t (add32 start 1) count))))"

fun tt_cmap8_check_lo :: "setjmp_env \<Rightarrow> bytes \<Rightarrow> nat \<Rightarrow> nat \<Rightarrow> unit validator" where
  "tt_cmap8_check_lo env t start 0 = vret ()"
| "tt_cmap8_check_lo env t start (Suc count) =
     vbind (vload (is32_bit t (start mod 65536))) (\<lambda>b.
     vbind (vcheck env b Invalid_Table) (\<lambda>_.
     tt_cmap8_check_lo env t (add32 start 1) count))"

text \<open>The tests of \<open>FT_VALIDATE_TIGHT\<close> on one group.\<close>

definition tt_cmap8_check_tight ::
    "setjmp_env \<Rightarrow> bytes \<Rightarrow> nat \<Rightarrow> nat \<Rightarrow> nat \<Rightarrow> nat \<Rightarrow> unit validator" where
  "tt_cmap8_check_tight env t num_glyphs start last_code start_id =
     (let d = sub32 last_code start in
      vbind (vcheck env (d > num_glyphs \<or> start_id \<ge> num_glyphs - d) Invalid_Glyph_Index) (\<lambda>_.
      let count = add32 (sub32 last_code start) 1 in
      if start div 65536 \<noteq> 0 then tt_cmap8_check_hi env t start count
      else vbind (vcheck env (last_code div 65536 \<noteq> 0) Invalid_Table) (\<lambda>_.
        tt_cmap8_check_lo env t start count)))"

text \<open>The loop over the groups: the \<open>n\<close>-th one is at offset \<open>p\<close>, \<open>k\<close> of them are left.\<close>

fun tt_cmap8_check_groups ::
    "setjmp_env \<Rightarrow> bytes \<Rightarrow> validation_level \<Rightarrow> nat \<Rightarrow> nat \<Rightarrow> nat \<Rightarrow> nat \<Rightarrow> nat \<Rightarrow> unit validator" where
  "tt_cmap8_check_groups env t level num_glyphs p n lst 0 = vret ()"
| "tt_cmap8_check_groups env t level num_glyphs p n lst (Suc k) =
     vbind (vload (peek_ulong t p)) (\<lambda>start.
     vbind (vload (peek_ulong t (p + 4))) (\<lambda>last_code.
     vbind (vload (peek_ulong t (p + 8))) (\<lambda>start_id.
     vbind (vcheck env (start > last_code) Invalid_Table) (\<lambda>_.
     vbind (vcheck env (n > 0 \<and> start \<le> lst) Invalid_Table) (\<lambda>_.
     vbind (if at_least_tight level
            then tt_cmap8_check_tight env t num_glyphs start last_code start_id
            else vret ()) (\<lambda>_.
     tt_cmap8_check_groups env t level num_glyphs (p + 12) (n + 1) last_code k))))))"

definition tt_cmap8_validate ::
    "setjmp_env \<Rightarrow> bytes \<Rightarrow> validation_level \<Rightarrow> nat \<Rightarrow> nat validator" where
  "tt_cmap8_validate env t level num_glyphs =
     vbind (vcheck env (16 + 8192 > length t) Invalid_Table) (\<lambda>_.
     vbind (vload (peek_ulong t 4)) (\<lambda>len.
     vbind (vcheck env (len > length t mod 4294967296 \<or> len < 8192 + 16) Invalid_Table) (\<lambda>_.
     vbind (vload (peek_ulong t 8204)) (\<lambda>num_groups.
     vbind (vcheck env (num_groups > (length t - 8208) mod 4294967296 div 12) Invalid_Table) (\<lambda>_.
     vbind (tt_cmap8_check_groups env t level num_glyphs 8208 0 0 num_groups) (\<lambda>_.
     vret 0))))))"

section \<open>Lookup and enumeration\<close>

fun tt_cmap8_lookup :: "bytes \<Rightarrow> nat \<Rightarrow> nat \<Rightarrow> nat \<Rightarrow> nat option" where
  "tt_cmap8_lookup table 0 p char_code = Some 0"
| "tt_cmap8_lookup table (Suc num_groups) p char_code = do {
     start \<leftarrow> peek_ulong table p;
     last_code \<leftarrow> peek_ulong table (p + 4);
     start_id \<leftarrow> peek_ulong table (p + 8);
     if char_code < start then Some 0
     else if char_code \<le> last_code then
       if start_id > 4294967295 - (char_code - start) then Some 0
       else Some (start_id + (char_code - start))
     else tt_cmap8_lookup table num_groups (p + 12) char_code
   }"

definition tt_cmap8_char_index :: "nat \<Rightarrow> bytes \<Rightarrow> nat \<Rightarrow> nat option" where
  "tt_cmap8_char_index ng table char_code = do {
     num_groups \<leftarrow> peek_ulong table 8204;
     tt_cmap8_lookup table num_groups 8208 char_code
   }"

definition tt_cmap8_char_next :: "nat \<Rightarrow> bytes \<Rightarrow> nat \<Rightarrow> (nat \<times> nat \<times> bytes) option" where
  "tt_cmap8_char_next ng table code = do {
     num_groups \<leftarrow> peek_ulong table 8204;
     if code \<ge> 4294967295 then Some (0, code, table)
     else do {
       found \<leftarrow> tt_groups_scan ng table 8208 num_groups 0 (code + 1);
       case found of
         None \<Rightarrow> Some (0, 0, table)
       | Some (gindex, result, n) \<Rightarrow> Some (gindex, result, table)
     }
   }"

definition tt_cmap8_get_info :: "bytes \<Rightarrow> TT_CMapInfo option" where
  "tt_cmap8_get_info table = do {
     language \<leftarrow> peek_ulong table 8;
     Some \<lparr>info_format = 8, info_language = language\<rparr>
   }"

section \<open>Correctness\<close>

definition cmap8_ok :: "bytes \<Rightarrow> nat \<Rightarrow> bytes \<Rightarrow> bool" where
  "cmap8_ok t fl st \<longleftrightarrow> st = t \<and> 8208 \<le> length t \<and> groups_ok t 8208 (u32 t 8204)"

definition cmap8_map :: "bytes \<Rightarrow> nat \<Rightarrow> nat \<Rightarrow> nat" where
  "cmap8_map t fl = groups_map t 8208 (u32 t 8204)"

lemma cmap8_hi_agree: "vagree (tt_cmap8_check_hi Hosted t p n) (tt_cmap8_check_hi Freestanding t p n)"
  and cmap8_lo_agree: "vagree (tt_cmap8_check_lo Hosted t p n) (tt_cmap8_check_lo Freestanding t p n)"
  by (induction n arbitrary: p) (auto intro!: agree_intros)

lemma cmap8_groups_agree:
  "vagree (tt_cmap8_check_groups Hosted t l g p n lst k) (tt_cmap8_check_groups Freestanding t l g p n lst k)"
  by (induction k arbitrary: p n lst)
    (auto simp: tt_cmap8_check_tight_def Let_def intro!: agree_intros cmap8_hi_agree cmap8_lo_agree)

lemma cmap8_agree: "vagree (tt_cmap8_validate Hosted t l n) (tt_cmap8_validate Freestanding t l n)"
  unfolding tt_cmap8_validate_def by (intro agree_intros cmap8_groups_agree)

lemma is32_bit_ok: "8204 \<le> length t \<Longrightarrow> x < 65536 \<Longrightarrow> \<exists>b. is32_bit t x = Some b"
  by (simp add: is32_bit_def)

lemma cmap8_hi_safe:
  "8204 \<le> length t \<Longrightarrow> start < 4294967296 \<Longrightarrow> Q () s \<Longrightarrow> vwp (tt_cmap8_check_hi Hosted t start n) s Q"
proof (induction n arbitrary: start)
  case (Suc n)
  then show ?case
    using is32_bit_ok [of t "start div 65536"] is32_bit_ok [of t "start mod 65536"]
    by (auto simp: vsafe_simps less_mult_imp_div_less)
qed (simp add: vsafe_simps)

lemma cmap8_lo_safe: "8204 \<le> length t \<Longrightarrow> Q () s \<Longrightarrow> vwp (tt_cmap8_check_lo Hosted t start n) s Q"
proof (induction n arbitrary: start)
  case (Suc n)
  then show ?case using is32_bit_ok [of t "start mod 65536"] by (auto simp: vsafe_simps)
qed (simp add: vsafe_simps)

lemma cmap8_tight_safe:
  "8204 \<le> length t \<Longrightarrow> start < 4294967296 \<Longrightarrow> Q () s \<Longrightarrow>
   vwp (tt_cmap8_check_tight Hosted t g start lst gid) s Q"
  by (auto simp: tt_cmap8_check_tight_def Let_def vsafe_simps intro: cmap8_hi_safe cmap8_lo_safe)

lemma cmap8_groups_safe:
  assumes "8204 \<le> length t" "p + 12 * k \<le> length t"
    and "sorted_ranges (grp_start t p) (grp_end t p) k \<Longrightarrow>
      (0 < n \<Longrightarrow> 0 < k \<Longrightarrow> lst < grp_start t p 0) \<Longrightarrow> Q () s"
  shows "vwp (tt_cmap8_check_groups Hosted t level g p n lst k) s Q"
  using assms(2,3)
proof (induction k arbitrary: p n lst)
  case (Suc k)
  have "vwp (tt_cmap8_check_groups Hosted t level g (p + 12) (n + 1) (grp_end t p 0) k) s Q"
    if "u32 t p \<le> grp_end t p 0" "0 < n \<longrightarrow> lst < u32 t p"
    using that Suc.prems by (intro Suc.IH Suc.prems(2) sorted_ranges_Suc) (auto simp: grp_at(1))
  then show ?case using Suc.prems(1) assms(1)
    by (auto simp: vsafe_simps grp_at(2) not_less not_le intro!: cmap8_tight_safe)
qed (simp add: vsafe_simps)

lemma cmap8_safe:
  assumes "cmap8_ok t 0 t \<Longrightarrow> Q 0 s"
  shows "vwp (tt_cmap8_validate Hosted t l n) s Q"
proof -
  have "8208 + 12 * u32 t 8204 \<le> length t \<and> 12 * u32 t 8204 < 4294967296"
    if "8208 \<le> length t" "u32 t 8204 \<le> (length t - 8208) mod 4294967296 div 12"
  proof -
    have "12 * u32 t 8204 \<le> (length t - 8208) mod 4294967296" using that(2) by linarith
    moreover have "(length t - 8208) mod 4294967296 \<le> length t - 8208" by simp
    moreover have "(length t - 8208) mod 4294967296 < 4294967296" by simp
    ultimately show ?thesis using that(1) by linarith
  qed
  then show ?thesis using assms
    by (auto simp: tt_cmap8_validate_def vsafe_simps cmap8_ok_def groups_ok_def not_less
        intro!: cmap8_groups_safe)
qed

lemma cmap8_lookup:
  assumes "groups_ok t 8208 nn" "i + k = nn" "\<And>j. j < i \<Longrightarrow> grp_end t 8208 j < c"
  shows "tt_cmap8_lookup t k (8208 + 12 * i) c = Some (groups_map t 8208 nn c)"
  using assms(2,3)
proof (induction k arbitrary: i)
  case 0
  then show ?case by (simp add: groups_map_gap [OF assms(1), of i])
next
  case (Suc k)
  have i: "i < nn" using Suc.prems(1) by simp
  have sr: "sorted_ranges (grp_start t 8208) (grp_end t 8208) nn"
    using assms(1) by (simp add: groups_ok_def)
  note [simp] = groups_ok_read [OF assms(1) i, simplified]
  consider "c < grp_start t 8208 i" | "grp_start t 8208 i \<le> c" "c \<le> grp_end t 8208 i"
    | "grp_end t 8208 i < c" "grp_start t 8208 i \<le> c" by linarith
  then show ?case
  proof cases
    case 1
    then have "groups_map t 8208 nn c = 0"
      using Suc.prems(2) sorted_ranges.before_lo [OF sr] by (intro groups_map_gap [OF assms(1), of i])
    then show ?thesis using 1 by simp
  next
    case 2
    then show ?thesis using groups_map_in [OF assms(1) i] by (simp add: seq_glyph_def)
  next
    case 3
    have "tt_cmap8_lookup t k (8208 + 12 * Suc i) c = Some (groups_map t 8208 nn c)"
      using Suc.prems 3 by (intro Suc.IH) (auto simp: less_Suc_eq)
    then show ?thesis using 3 by simp
  qed
qed

lemma cmap8_index:
  "cmap8_ok t fl t \<Longrightarrow> tt_cmap8_char_index ng t c = Some (cmap8_map t fl c)"
  using cmap8_lookup [of t "u32 t 8204" 0 "u32 t 8204" c]
  by (simp add: cmap8_ok_def tt_cmap8_char_index_def cmap8_map_def)

lemma cmap8_next:
  assumes "cmap8_ok t fl t" "c < 4294967296"
  shows "\<exists>g c'. tt_cmap8_char_next ng t c = Some (g, c', t) \<and> c' < 4294967296 \<and>
    next_char_ok 4294967296 ng (cmap8_map t fl) c (g, c')"
proof (cases "c < 4294967295")
  case False
  then show ?thesis using assms by (auto simp: tt_cmap8_char_next_def next_char_ok_def cmap8_ok_def)
next
  case True
  let ?nn = "u32 t 8204"
  have g: "groups_ok t 8208 ?nn" "peek_ulong t 8204 = Some ?nn" using assms(1) by (simp_all add: cmap8_ok_def)
  have "clip_glyph ng (groups_map t 8208 ?nn e) = 0"
    if "\<And>j. 0 \<le> j \<Longrightarrow> j < ?nn \<Longrightarrow> e < grp_start t 8208 j" for e
    using that groups_map_gap [OF g(1), of 0 e] by (simp add: clip_glyph_def)
  then obtain r where r: "tt_groups_scan ng t 8208 ?nn 0 (Suc c) = Some r"
    "scan_result 4294967296 ng t 8208 ?nn 0 (Suc c) r"
    using tt_groups_scan_spec [OF g(1), of 0 ?nn "Suc c" ng] by auto
  show ?thesis
  proof (cases r)
    case None
    then show ?thesis using r True g(2)
      by (simp add: tt_cmap8_char_next_def scan_result_def next_char_ok_def cmap8_map_def Suc_le_eq)
  next
    case (Some q)
    obtain x y z where q: "q = (x, y, z)" by (cases q)
    then have "y < 4294967296" using r(2) grp_lt(2) [of t 8208 z] Some
      by (simp add: scan_result_def del: grp_lt)
    moreover have "next_char_ok 4294967296 ng (cmap8_map t fl) c (x, y)"
      using r(2) Some q by (intro scan_ok_clip_next) (simp add: scan_result_def cmap8_map_def)
    ultimately show ?thesis using r(1) True g(2) Some q by (simp add: tt_cmap8_char_next_def)
  qed
qed

interpretation cmap8: tt_cmap_ordered tt_cmap8_validate tt_cmap_init tt_cmap8_char_index
  tt_cmap8_char_next cmap8_ok cmap8_map 4294967296
proof
  show "vagree (tt_cmap8_validate Hosted t l n) (tt_cmap8_validate Freestanding t l n)" for t l n
    by (rule cmap8_agree)
  show "vwp (tt_cmap8_validate Hosted t FT_VALIDATE_DEFAULT n) None
      (\<lambda>fl s. s = None \<and> (\<exists>st. tt_cmap_init t fl = Some st \<and> cmap8_ok t fl st))" if "length t < 4294967296" for t n
    by (rule cmap8_safe) (simp add: tt_cmap_init_def)
  show "\<exists>g. tt_cmap8_char_index ng st c = Some g \<and> clip_glyph ng g = clip_glyph ng (cmap8_map t fl c)"
    if "cmap8_ok t fl st" "c < 4294967296" for t fl st c ng
    using that cmap8_index [of t fl ng c] by (auto simp: cmap8_ok_def)
  show "\<exists>g c' st'. tt_cmap8_char_next ng st c = Some (g, c', st') \<and> cmap8_ok t fl st' \<and>
      c' < 4294967296 \<and> (g \<noteq> 0 \<longrightarrow> c < 4294967295 \<longrightarrow> c < c')"
    if "cmap8_ok t fl st" "c < 4294967296" for t fl st c ng
    using that cmap8_next [of t fl c ng] by (fastforce simp: cmap8_ok_def next_char_ok_def)
  show "next_char_ok 4294967296 ng (cmap8_map t fl) c (g, c')"
    if "cmap8_ok t fl st" "c < 4294967295" "tt_cmap8_char_next ng st c = Some (g, c', st')"
    for t fl st c g c' st' ng
    using that cmap8_next [of t fl c ng] by (auto simp: cmap8_ok_def)
qed

section \<open>Properties\<close>

text \<open>
  For a table that \<open>validate\<close> accepts (in either \<open>longjmp\<close> semantics), and after any
  sequence of \<open>char_next\<close> calls on the object, \<open>char_index\<close> returns the glyph of its group, and
  \<open>char_next\<close> the first larger code that has a usable glyph; neither reads outside the table.
\<close>

theorem tt_cmap8_lookup_and_enumeration:
  assumes "length t < 4294967296" "tt_cmap8_validate env t FT_VALIDATE_DEFAULT n None = VRet fl None"
    and "\<forall>c \<in> set cs. c < 4294967296" "c < 4294967295"
  shows "\<exists>st0 st g g' c' st'. tt_cmap_init t fl = Some st0 \<and>
    run_next tt_cmap8_char_next ng st0 cs = Some st \<and>
    tt_cmap8_char_index ng st c = Some g \<and>
    clip_glyph ng g = clip_glyph ng (groups_map t 8208 (u32 t 8204) c) \<and>
    tt_cmap8_char_next ng st c = Some (g', c', st') \<and>
    next_char_ok 4294967296 ng (groups_map t 8208 (u32 t 8204)) c (g', c')"
  using cmap8.lookup_and_enumeration [OF assms] unfolding cmap8_map_def .

definition table8 :: bytes where
  "table8 = [0, 8, 0, 0, 0, 0, 32, 28, 0, 0, 0, 0] @ replicate 8192 0 @
     [0, 0, 0, 1, 0, 0, 0, 65, 0, 0, 0, 66, 0, 0, 0, 3]"

lemma table8_reads:
  "length table8 = 8220" "u32 table8 4 = 8220" "u32 table8 8204 = 1" "u32 table8 8208 = 65" "u32 table8 8212 = 66" "u32 table8 8216 = 3"
  by (simp_all add: u8_def u16_def u32_def table8_def nth_append)

lemma table8_accepted:
  "tt_cmap8_validate Freestanding table8 FT_VALIDATE_DEFAULT 10 None = VRet 0 None"
  by (simp add: tt_cmap8_validate_def vdefs peek_defs table8_reads )

theorem tt_cmap8_lookup_and_enumeration_witness:
  "\<exists>st0 st g g' c' st'. tt_cmap_init table8 0 = Some st0 \<and>
    run_next tt_cmap8_char_next 10 st0 [64, 65] = Some st \<and>
    tt_cmap8_char_index 10 st 65 = Some g \<and>
    clip_glyph 10 g = clip_glyph 10 (groups_map table8 8208 (u32 table8 8204) 65) \<and>
    tt_cmap8_char_next 10 st 65 = Some (g', c', st') \<and>
    next_char_ok 4294967296 10 (groups_map table8 8208 (u32 table8 8204)) 65 (g', c')"
  by (rule tt_cmap8_lookup_and_enumeration [OF _ table8_accepted]) (simp_all add: table8_reads)

end
