(* ===== verification/Tt_CMap10.thy ===== *)
theory Tt_CMap10
  imports Tt_CMap6
begin

text \<open>
  Format 10 of \<open>src/sfnt/ttcmap.c\<close>: format 6 with 32-bit fields, an array of \<open>count\<close> glyph
  indices at offset 20 for the codes from \<open>start\<close> on.
\<close>

text \<open>The glyph-index loop is the one of format 6, over a 64-bit count.\<close>

definition tt_cmap10_validate ::
    "setjmp_env \<Rightarrow> bytes \<Rightarrow> validation_level \<Rightarrow> nat \<Rightarrow> nat validator" where
  "tt_cmap10_validate env t level num_glyphs =
     vbind (vcheck env (20 > length t) Invalid_Table) (\<lambda>_.
     vbind (vload (peek_ulong t 4)) (\<lambda>len.
     vbind (vload (peek_ulong t 16)) (\<lambda>count.
     vbind (vcheck env (len > length t \<or> len < 20 \<or> (len - 20) div 2 < count) Invalid_Table) (\<lambda>_.
     vbind (if at_least_tight level then tt_cmap6_check_ids env t num_glyphs 20 count else vret ()) (\<lambda>_.
     vret 0)))))"

definition tt_cmap10_char_index :: "nat \<Rightarrow> bytes \<Rightarrow> nat \<Rightarrow> nat option" where
  "tt_cmap10_char_index ng table char_code = do {
     start \<leftarrow> peek_ulong table 12;
     count \<leftarrow> peek_ulong table 16;
     if char_code < start then Some 0
     else do {
       let idx = char_code - start;
       if idx < count then peek_ushort table (20 + mul32 2 idx) else Some 0
     }
   }"

text \<open>The loop over the remaining \<open>k = count - idx\<close> entries; \<open>None\<close> is its \<open>return 0\<close>.\<close>

fun tt_cmap10_scan :: "bytes \<Rightarrow> nat \<Rightarrow> nat \<Rightarrow> nat \<Rightarrow> nat \<Rightarrow> (nat \<times> nat option) option" where
  "tt_cmap10_scan table 0 p char_code gindex = Some (gindex, Some char_code)"
| "tt_cmap10_scan table (Suc k) p char_code gindex = do {
     gindex \<leftarrow> peek_ushort table p;
     if gindex \<noteq> 0 then Some (gindex, Some char_code)
     else if char_code \<ge> 4294967295 then Some (0, None)
     else tt_cmap10_scan table k (p + 2) (char_code + 1) gindex
   }"

definition tt_cmap10_char_next :: "nat \<Rightarrow> bytes \<Rightarrow> nat \<Rightarrow> (nat \<times> nat \<times> bytes) option" where
  "tt_cmap10_char_next ng table code = do {
     start \<leftarrow> peek_ulong table 12;
     count \<leftarrow> peek_ulong table 16;
     if code \<ge> 4294967295 then Some (0, code, table)
     else do {
       let char_code = (if code + 1 < start then start else code + 1);
       let idx = char_code - start;
       (gindex, result) \<leftarrow> tt_cmap10_scan table (count - idx) (20 + mul32 2 idx) char_code 0;
       Some (gindex, (case result of None \<Rightarrow> code | Some r \<Rightarrow> r), table)
     }
   }"

definition tt_cmap10_get_info :: "bytes \<Rightarrow> TT_CMapInfo option" where
  "tt_cmap10_get_info table = do {
     language \<leftarrow> peek_ulong table 8;
     Some \<lparr>info_format = 10, info_language = language\<rparr>
   }"

section \<open>Correctness\<close>

definition cmap10_ok :: "bytes \<Rightarrow> nat \<Rightarrow> bytes \<Rightarrow> bool" where
  "cmap10_ok t fl st \<longleftrightarrow> st = t \<and> 20 + 2 * u32 t 16 \<le> length t \<and> u32 t 16 < 2147483648"

definition cmap10_map :: "bytes \<Rightarrow> nat \<Rightarrow> nat \<Rightarrow> nat" where
  "cmap10_map t fl c =
     (if u32 t 12 \<le> c \<and> c - u32 t 12 < u32 t 16 then u16 t (20 + 2 * (c - u32 t 12)) else 0)"

lemma cmap10_agree: "vagree (tt_cmap10_validate Hosted t l n) (tt_cmap10_validate Freestanding t l n)"
  unfolding tt_cmap10_validate_def by (intro agree_intros cmap6_ids_agree)

lemma cmap10_safe:
  assumes "cmap10_ok t 0 t \<Longrightarrow> Q 0 s"
  shows "vwp (tt_cmap10_validate Hosted t l n) s Q"
proof -
  have "cmap10_ok t 0 t" if "20 \<le> length t" "u32 t 4 \<le> length t" "20 \<le> u32 t 4"
    "u32 t 16 \<le> (u32 t 4 - 20) div 2"
  proof -
    have "2 * u32 t 16 \<le> u32 t 4 - 20" using that(4) by linarith
    then show ?thesis using that u32_lt [of t 4] unfolding cmap10_ok_def by (intro conjI refl; linarith)
  qed
  then show ?thesis using assms
    by (auto simp: tt_cmap10_validate_def vsafe_simps not_less cmap10_ok_def intro!: cmap6_ids_safe)
qed

lemma cmap10_index:
  assumes "cmap10_ok t fl t" "c < 4294967296"
  shows "tt_cmap10_char_index ng t c = Some (cmap10_map t fl c)"
proof (cases "u32 t 12 \<le> c \<and> c - u32 t 12 < u32 t 16")
  case True
  then have "mul32 2 (c - u32 t 12) = 2 * (c - u32 t 12)"
    using assms(1) unfolding cmap10_ok_def by (intro mul32_small) linarith
  then show ?thesis using assms(1) True by (simp add: cmap10_ok_def tt_cmap10_char_index_def cmap10_map_def)
next
  case False
  then show ?thesis using assms(1) by (auto simp: cmap10_ok_def tt_cmap10_char_index_def cmap10_map_def)
qed

lemma cmap10_scan:
  assumes "cmap10_ok t fl t" "i + k = u32 t 16" "d = u32 t 12 + i" "d < 4294967296"
  shows "\<exists>g r. tt_cmap10_scan t k (20 + 2 * i) d 0 = Some (g, r) \<and>
    (case r of None \<Rightarrow> g = 0 | Some c' \<Rightarrow> c' < 4294967296) \<and>
    (\<forall>c. scan_ok 4294967296 (cmap10_map t fl) d (g, case r of None \<Rightarrow> c | Some c' \<Rightarrow> c'))"
  using assms(2-4)
proof (induction k arbitrary: i d)
  case 0
  then have "cmap10_map t fl e = 0" if "d \<le> e" for e using that by (auto simp: cmap10_map_def)
  then show ?case using 0 by (auto intro!: scan_ok_none)
next
  case (Suc k)
  have rd: "peek_ushort t (20 + 2 * i) = Some (cmap10_map t fl d)"
    using assms(1) Suc.prems by (simp add: cmap10_ok_def cmap10_map_def)
  show ?case
  proof (cases "cmap10_map t fl d = 0")
    case False
    then show ?thesis using rd Suc.prems by (auto intro!: scan_ok_here)
  next
    case z: True
    show ?thesis
    proof (cases "d \<ge> 4294967295")
      case True
      then have "cmap10_map t fl e = 0" if "d \<le> e" "e < 4294967296" for e
        using that z Suc.prems by (cases "e = d") auto
      then show ?thesis using rd z True by (auto intro!: scan_ok_none)
    next
      case False
      from Suc.IH [of "Suc i" "Suc d"] Suc.prems False obtain g r where
        r: "tt_cmap10_scan t k (20 + 2 * Suc i) (Suc d) 0 = Some (g, r)"
        "case r of None \<Rightarrow> g = 0 | Some c' \<Rightarrow> c' < 4294967296"
        "\<And>c. scan_ok 4294967296 (cmap10_map t fl) (Suc d) (g, case r of None \<Rightarrow> c | Some c' \<Rightarrow> c')"
        by auto
      have "tt_cmap10_scan t (Suc k) (20 + 2 * i) d 0 = Some (g, r)"
        using rd z False r(1) by simp
      moreover have "scan_ok 4294967296 (cmap10_map t fl) d (g, case r of None \<Rightarrow> c | Some c' \<Rightarrow> c')" for c
        by (rule scan_ok_skip [OF r(3) [of c]]) (use z in \<open>auto simp: le_less_Suc_eq\<close>)
      ultimately show ?thesis using r(2) by blast
    qed
  qed
qed

lemma cmap10_scan_from:
  assumes "cmap10_ok t fl t" "u32 t 12 \<le> d" "d < 4294967296"
  obtains g r where
    "tt_cmap10_scan t (u32 t 16 - (d - u32 t 12)) (20 + mul32 2 (d - u32 t 12)) d 0 = Some (g, r)"
    "case r of None \<Rightarrow> g = 0 | Some c' \<Rightarrow> c' < 4294967296"
    "\<And>c. scan_ok 4294967296 (cmap10_map t fl) d (g, case r of None \<Rightarrow> c | Some c' \<Rightarrow> c')"
proof (cases "d - u32 t 12 < u32 t 16")
  case True
  then have "mul32 2 (d - u32 t 12) = 2 * (d - u32 t 12)"
    using assms(1) unfolding cmap10_ok_def by (intro mul32_small) linarith
  then show ?thesis using cmap10_scan [OF assms(1), of "d - u32 t 12" "u32 t 16 - (d - u32 t 12)" d]
      assms True that by auto
next
  case False
  then have "\<not> e - u32 t 12 < u32 t 16" if "d \<le> e" for e using that by linarith
  then have "cmap10_map t fl e = 0" if "d \<le> e" for e using that by (simp add: cmap10_map_def)
  then show ?thesis using False assms(3) that [of 0 "Some d"] by (auto intro!: scan_ok_none)
qed

lemma cmap10_next:
  assumes "cmap10_ok t fl t" "c < 4294967296"
  shows "\<exists>g c'. tt_cmap10_char_next ng t c = Some (g, c', t) \<and> c' < 4294967296 \<and>
    next_char_ok 4294967296 ng (cmap10_map t fl) c (g, c')"
proof (cases "c < 4294967295")
  case False
  then show ?thesis using assms by (auto simp: tt_cmap10_char_next_def next_char_ok_def cmap10_ok_def)
next
  case True
  define d where "d = (if Suc c < u32 t 12 then u32 t 12 else Suc c)"
  have d: "u32 t 12 \<le> d" "d < 4294967296" "Suc c \<le> d" using True by (auto simp: d_def)
  have z: "cmap10_map t fl e = 0" if "Suc c \<le> e" "e < d" for e
    using that by (auto simp: cmap10_map_def d_def split: if_splits)
  obtain g r where s:
    "tt_cmap10_scan t (u32 t 16 - (d - u32 t 12)) (20 + mul32 2 (d - u32 t 12)) d 0 = Some (g, r)"
    "case r of None \<Rightarrow> g = 0 | Some c' \<Rightarrow> c' < 4294967296"
    "\<And>c. scan_ok 4294967296 (cmap10_map t fl) d (g, case r of None \<Rightarrow> c | Some c' \<Rightarrow> c')"
    using cmap10_scan_from [OF assms(1) d(1,2)] by metis
  have "scan_ok 4294967296 (cmap10_map t fl) (Suc c) (g, case r of None \<Rightarrow> c | Some c' \<Rightarrow> c')"
    using s(3) d(3) z by (rule scan_ok_skip)
  moreover have "tt_cmap10_char_next ng t c = Some (g, case r of None \<Rightarrow> c | Some c' \<Rightarrow> c', t)"
    using True assms(1) s(1)
    by (cases "Suc c < u32 t 12") (simp_all add: tt_cmap10_char_next_def d_def cmap10_ok_def)
  ultimately show ?thesis using s(2) assms(2) by (auto intro: scan_ok_next split: option.splits)
qed

interpretation cmap10: tt_cmap_ordered tt_cmap10_validate tt_cmap_init tt_cmap10_char_index
  tt_cmap10_char_next cmap10_ok cmap10_map 4294967296
proof
  show "vagree (tt_cmap10_validate Hosted t l n) (tt_cmap10_validate Freestanding t l n)" for t l n
    by (rule cmap10_agree)
  show "vwp (tt_cmap10_validate Hosted t FT_VALIDATE_DEFAULT n) None
      (\<lambda>fl s. s = None \<and> (\<exists>st. tt_cmap_init t fl = Some st \<and> cmap10_ok t fl st))" if "length t < 4294967296" for t n
    by (rule cmap10_safe) (simp add: tt_cmap_init_def)
  show "\<exists>g. tt_cmap10_char_index ng st c = Some g \<and> clip_glyph ng g = clip_glyph ng (cmap10_map t fl c)"
    if "cmap10_ok t fl st" "c < 4294967296" for t fl st c ng
    using that cmap10_index [of t fl c ng] by (auto simp: cmap10_ok_def)
  show "\<exists>g c' st'. tt_cmap10_char_next ng st c = Some (g, c', st') \<and> cmap10_ok t fl st' \<and>
      c' < 4294967296 \<and> (g \<noteq> 0 \<longrightarrow> c < 4294967295 \<longrightarrow> c < c')"
    if "cmap10_ok t fl st" "c < 4294967296" for t fl st c ng
    using that cmap10_next [of t fl c ng] by (fastforce simp: cmap10_ok_def next_char_ok_def)
  show "next_char_ok 4294967296 ng (cmap10_map t fl) c (g, c')"
    if "cmap10_ok t fl st" "c < 4294967295" "tt_cmap10_char_next ng st c = Some (g, c', st')"
    for t fl st c g c' st' ng
    using that cmap10_next [of t fl c ng] by (auto simp: cmap10_ok_def)
qed

section \<open>Properties\<close>

text \<open>
  For a table that \<open>validate\<close> accepts (in either \<open>longjmp\<close> semantics), and after any
  sequence of \<open>char_next\<close> calls on the object, \<open>char_index\<close> returns the glyph of the glyph array, and
  \<open>char_next\<close> the first larger code that has a usable glyph; neither reads outside the table.
\<close>

theorem tt_cmap10_lookup_and_enumeration:
  assumes "length t < 4294967296" "tt_cmap10_validate env t FT_VALIDATE_DEFAULT n None = VRet fl None"
    and "\<forall>c \<in> set cs. c < 4294967296" "c < 4294967295"
  shows "\<exists>st0 st g g' c' st'. tt_cmap_init t fl = Some st0 \<and>
    run_next tt_cmap10_char_next ng st0 cs = Some st \<and>
    tt_cmap10_char_index ng st c = Some g \<and>
    clip_glyph ng g = clip_glyph ng (cmap10_map t fl c) \<and>
    tt_cmap10_char_next ng st c = Some (g', c', st') \<and>
    next_char_ok 4294967296 ng (cmap10_map t fl) c (g', c')"
  using cmap10.lookup_and_enumeration [OF assms] .

definition table10 :: bytes where
  "table10 = [0, 10, 0, 0, 0, 0, 0, 24, 0, 0, 0, 0, 0, 0, 0, 65, 0, 0, 0, 2, 0, 3, 0, 4]"

lemma table10_reads:
  "length table10 = 24" "u32 table10 4 = 24" "u32 table10 16 = 2"
  by (simp_all add: u8_def u16_def u32_def table10_def nth_append)

lemma table10_accepted:
  "tt_cmap10_validate Freestanding table10 FT_VALIDATE_DEFAULT 10 None = VRet 0 None"
  by (simp add: tt_cmap10_validate_def vdefs peek_defs table10_reads )

theorem tt_cmap10_lookup_and_enumeration_witness:
  "\<exists>st0 st g g' c' st'. tt_cmap_init table10 0 = Some st0 \<and>
    run_next tt_cmap10_char_next 10 st0 [64, 65] = Some st \<and>
    tt_cmap10_char_index 10 st 65 = Some g \<and>
    clip_glyph 10 g = clip_glyph 10 (cmap10_map table10 0 65) \<and>
    tt_cmap10_char_next 10 st 65 = Some (g', c', st') \<and>
    next_char_ok 4294967296 10 (cmap10_map table10 0) 65 (g', c')"
  by (rule tt_cmap10_lookup_and_enumeration [OF _ table10_accepted]) (simp_all add: table10_reads)

end
