(* ===== verification/Tt_CMap12.thy ===== *)
theory Tt_CMap12
  imports Tt_Groups
begin

text \<open>
  Format 12 of \<open>src/sfnt/ttcmap.c\<close>: the number of groups at offset 12 and the groups from 16
  on, searched by bisection. The object caches the code and group last enumerated.
\<close>

section \<open>Validation and the object\<close>

record TT_CMap12 =
  cm_data :: bytes
  cm_valid :: bool
  cur_charcode :: nat
  cur_gindex :: nat
  cur_group :: nat
  num_groups :: nat

definition tt_cmap12_init :: "bytes \<Rightarrow> nat \<Rightarrow> TT_CMap12 option" where
  "tt_cmap12_init table fl = do {
     n \<leftarrow> peek_ulong table 12;
     Some \<lparr>cm_data = table, cm_valid = False, cur_charcode = 0, cur_gindex = 0, cur_group = 0,
       num_groups = n\<rparr>
   }"

fun tt_cmap12_check_groups ::
    "setjmp_env \<Rightarrow> bytes \<Rightarrow> validation_level \<Rightarrow> nat \<Rightarrow> nat \<Rightarrow> nat \<Rightarrow> nat \<Rightarrow> nat \<Rightarrow> unit validator" where
  "tt_cmap12_check_groups env t level ng p n lst 0 = vret ()"
| "tt_cmap12_check_groups env t level ng p n lst (Suc k) =
     vbind (vload (peek_ulong t p)) (\<lambda>start.
     vbind (vload (peek_ulong t (p + 4))) (\<lambda>last_code.
     vbind (vload (peek_ulong t (p + 8))) (\<lambda>start_id.
     vbind (vcheck env (start > last_code) Invalid_Table) (\<lambda>_.
     vbind (vcheck env (n > 0 \<and> start \<le> lst) Invalid_Table) (\<lambda>_.
     vbind (if at_least_tight level
            then (let d = sub32 last_code start in
                  vcheck env (d > ng \<or> start_id \<ge> ng - d) Invalid_Glyph_Index)
            else vret ()) (\<lambda>_.
     tt_cmap12_check_groups env t level ng (p + 12) (n + 1) last_code k))))))"

definition tt_cmap12_validate ::
    "setjmp_env \<Rightarrow> bytes \<Rightarrow> validation_level \<Rightarrow> nat \<Rightarrow> nat validator" where
  "tt_cmap12_validate env t level num_glyphs =
     vbind (vcheck env (16 > length t) Invalid_Table) (\<lambda>_.
     vbind (vload (peek_ulong t 4)) (\<lambda>len.
     vbind (vload (peek_ulong t 12)) (\<lambda>n.
     vbind (vcheck env (len > length t \<or> len < 16 \<or> (len - 16) div 12 < n) Invalid_Table) (\<lambda>_.
     vbind (tt_cmap12_check_groups env t level num_glyphs 16 0 0 n) (\<lambda>_.
     vret 0)))))"

section \<open>Lookup and enumeration\<close>

definition tt_cmap12_next :: "nat \<Rightarrow> TT_CMap12 \<Rightarrow> TT_CMap12 option" where
  "tt_cmap12_next ng cmap = do {
     found \<leftarrow> tt_groups_scan ng (cm_data cmap) 16 (num_groups cmap - cur_group cmap)
                (cur_group cmap) (cur_charcode cmap + 1);
     case found of
       None \<Rightarrow> Some (cmap\<lparr>cm_valid := False\<rparr>)
     | Some (gindex, char_code, n) \<Rightarrow>
         Some (cmap\<lparr>cur_charcode := char_code, cur_gindex := gindex, cur_group := n\<rparr>)
   }"

text \<open>
  The \<open>do ... while\<close> bisection that formats 12 and 13 share: the last group probed, its last
  code, and whether the code lies in it. With a corrupt number of groups the sum
  \<open>min + max\<close> could wrap and the loop not end, hence the partial function.
\<close>

partial_function (option) tt_group_search ::
    "bytes \<Rightarrow> nat \<Rightarrow> nat \<Rightarrow> nat \<Rightarrow> (nat \<times> nat \<times> bool) option" where
  "tt_group_search table char_code mn mx = do {
     let mid = add32 mn mx div 2;
     let p = 16 + mul32 12 mid;
     start \<leftarrow> peek_ulong table p;
     last_code \<leftarrow> peek_ulong table (p + 4);
     if char_code < start then
       (if mn < mid then tt_group_search table char_code mn mid else Some (mid, last_code, False))
     else if char_code > last_code then
       (if add32 mid 1 < mx then tt_group_search table char_code (add32 mid 1) mx
        else Some (mid, last_code, False))
     else Some (mid, last_code, True)
   }"

text \<open>
  The value, \<open>*pchar_code\<close> and the object after \<open>tt_cmap12_char_map_binary\<close>; \<open>nxt\<close> is its
  parameter \<open>next\<close>.
\<close>

definition tt_cmap12_char_map_binary ::
    "nat \<Rightarrow> TT_CMap12 \<Rightarrow> nat \<Rightarrow> bool \<Rightarrow> (nat \<times> nat \<times> TT_CMap12) option" where
  "tt_cmap12_char_map_binary ng cmap pchar_code nxt = do {
     n \<leftarrow> peek_ulong (cm_data cmap) 12;
     let char_code = add32 pchar_code (if nxt then 1 else 0);
     if n = 0 then Some (0, pchar_code, cmap)
     else do {
       (mid, last_code, hit) \<leftarrow> tt_group_search (cm_data cmap) char_code 0 n;
       gindex \<leftarrow> (if hit then do {
           start \<leftarrow> peek_ulong (cm_data cmap) (16 + mul32 12 mid);
           start_id \<leftarrow> peek_ulong (cm_data cmap) (16 + mul32 12 mid + 8);
           Some (if start_id > 4294967295 - (char_code - start) then 0
                 else start_id + (char_code - start))
         } else Some 0);
       if \<not> nxt then Some (gindex, pchar_code, cmap)
       else do {
         let mid = (if char_code > last_code then add32 mid 1 else mid);
         if char_code > last_code \<and> mid = n then Some (0, pchar_code, cmap)
         else do {
           let cmap = cmap\<lparr>cm_valid := True, cur_charcode := char_code, cur_group := mid\<rparr>;
           let gindex = (if gindex \<ge> ng then 0 else gindex);
           if gindex = 0 then do {
             cmap \<leftarrow> tt_cmap12_next ng cmap;
             Some (if cm_valid cmap then cur_gindex cmap else 0, cur_charcode cmap, cmap)
           } else do {
             let cmap = cmap\<lparr>cur_gindex := gindex\<rparr>;
             Some (gindex, cur_charcode cmap, cmap)
           }
         }
       }
     }
   }"

definition tt_cmap12_char_index :: "nat \<Rightarrow> TT_CMap12 \<Rightarrow> nat \<Rightarrow> nat option" where
  "tt_cmap12_char_index ng cmap char_code =
     map_option fst (tt_cmap12_char_map_binary ng cmap char_code False)"

definition tt_cmap12_char_next :: "nat \<Rightarrow> TT_CMap12 \<Rightarrow> nat \<Rightarrow> (nat \<times> nat \<times> TT_CMap12) option" where
  "tt_cmap12_char_next ng cmap code =
     (if code \<ge> 4294967295 then Some (0, code, cmap)
      else if cm_valid cmap \<and> cur_charcode cmap = code then do {
        cmap \<leftarrow> tt_cmap12_next ng cmap;
        Some (if cm_valid cmap then (cur_gindex cmap, cur_charcode cmap, cmap) else (0, code, cmap))
      }
      else tt_cmap12_char_map_binary ng cmap code True)"

definition tt_cmap12_get_info :: "TT_CMap12 \<Rightarrow> TT_CMapInfo option" where
  "tt_cmap12_get_info cmap = do {
     language \<leftarrow> peek_ulong (cm_data cmap) 8;
     Some \<lparr>info_format = 12, info_language = language\<rparr>
   }"

section \<open>The validator\<close>

definition groups12_ok :: "bytes \<Rightarrow> bool" where
  "groups12_ok t \<longleftrightarrow> 16 \<le> length t \<and> groups_ok t 16 (u32 t 12)"

lemma groups12_count:
  assumes "16 \<le> length t" "u32 t 4 \<le> length t" "16 \<le> u32 t 4" "u32 t 12 \<le> (u32 t 4 - 16) div 12"
  shows "16 + 12 * u32 t 12 \<le> length t \<and> 12 * u32 t 12 < 4294967296"
proof -
  have "12 * u32 t 12 \<le> u32 t 4 - 16" using assms(4) by linarith
  then show ?thesis using assms(2,3) u32_lt [of t 4] by linarith
qed

lemma cmap12_groups_agree:
  "vagree (tt_cmap12_check_groups Hosted t l g p n lst k) (tt_cmap12_check_groups Freestanding t l g p n lst k)"
  by (induction k arbitrary: p n lst) (auto simp: Let_def intro!: agree_intros)

lemma cmap12_agree: "vagree (tt_cmap12_validate Hosted t l n) (tt_cmap12_validate Freestanding t l n)"
  unfolding tt_cmap12_validate_def by (intro agree_intros cmap12_groups_agree)

lemma cmap12_groups_safe:
  assumes "p + 12 * k \<le> length t"
    and "sorted_ranges (grp_start t p) (grp_end t p) k \<Longrightarrow>
      (0 < n \<Longrightarrow> 0 < k \<Longrightarrow> lst < grp_start t p 0) \<Longrightarrow> Q () s"
  shows "vwp (tt_cmap12_check_groups Hosted t level g p n lst k) s Q"
  using assms
proof (induction k arbitrary: p n lst)
  case (Suc k)
  have "vwp (tt_cmap12_check_groups Hosted t level g (p + 12) (n + 1) (grp_end t p 0) k) s Q"
    if "u32 t p \<le> grp_end t p 0" "0 < n \<longrightarrow> lst < u32 t p"
    using that Suc.prems by (intro Suc.IH Suc.prems(2) sorted_ranges_Suc) (auto simp: grp_at(1))
  then show ?case using Suc.prems(1)
    by (auto simp: vsafe_simps grp_at(2) not_less not_le Let_def)
qed (simp add: vsafe_simps)

lemma cmap12_safe:
  assumes "groups12_ok t \<Longrightarrow> Q 0 s"
  shows "vwp (tt_cmap12_validate Hosted t l n) s Q"
  using assms groups12_count [of t]
  by (auto simp: tt_cmap12_validate_def vsafe_simps groups12_ok_def groups_ok_def not_less
      intro!: cmap12_groups_safe)

section \<open>The bisection\<close>

definition search_post :: "bytes \<Rightarrow> nat \<Rightarrow> nat \<Rightarrow> nat \<Rightarrow> nat \<Rightarrow> bool \<Rightarrow> bool" where
  "search_post t n c mid e hit \<longleftrightarrow> mid < n \<and> e = grp_end t 16 mid \<and>
     (hit \<longleftrightarrow> grp_start t 16 mid \<le> c \<and> c \<le> grp_end t 16 mid) \<and>
     (\<forall>i < mid. grp_end t 16 i < c) \<and> (\<forall>i. mid < i \<and> i < n \<longrightarrow> c < grp_start t 16 i)"

lemma tt_group_search_spec:
  assumes ok: "groups_ok t 16 n" and "mn < mx" "mx \<le> n"
    and "\<forall>i < mn. grp_end t 16 i < c" "\<forall>i. mx \<le> i \<and> i < n \<longrightarrow> c < grp_start t 16 i"
  shows "\<exists>mid e hit. tt_group_search t c mn mx = Some (mid, e, hit) \<and> search_post t n c mid e hit"
  using assms(2-)
proof (induction "mx - mn" arbitrary: mn mx rule: less_induct)
  case less
  let ?lo = "grp_start t 16" and ?hi = "grp_end t 16"
  have sr: "sorted_ranges ?lo ?hi n" and lim: "12 * n < 4294967296"
    using ok by (simp_all add: groups_ok_def)
  define mid where "mid = (mn + mx) div 2"
  have mid: "mn \<le> mid" "mid < mx" "mid < n" using less.prems by (auto simp: mid_def)
  have m: "add32 mn mx div 2 = mid" unfolding mid_def
    using less.prems lim by (subst add32_small) linarith+
  have m12: "mul32 12 mid = 12 * mid" using mid lim by (intro mul32_small) linarith
  have m1: "add32 mid 1 = Suc mid" using mid lim by (subst add32_small) linarith+
  note rd = groups_ok_read [OF ok mid(3)]
  note unf = tt_group_search.simps [of t c mn mx, unfolded Let_def m m12 m1 rd bind.bind_lunit]
  have lo_hi: "?lo mid \<le> ?hi mid" by (rule sorted_ranges.range [OF sr mid(3)])
  have below: "\<forall>i < mid. ?hi i < c" if "?lo mid \<le> c"
    using that sorted_ranges.hi_less_lo [OF sr _ mid(3)] by (meson less_le_trans)
  have above: "\<forall>i. mid < i \<and> i < n \<longrightarrow> c < ?lo i" if "c \<le> ?hi mid"
    using that sorted_ranges.hi_less_lo [OF sr] by (meson le_less_trans)
  consider (left) "c < ?lo mid" | (right) "?hi mid < c" "\<not> c < ?lo mid"
    | (hit) "?lo mid \<le> c" "c \<le> ?hi mid" by linarith
  then show ?case
  proof cases
    case left
    show ?thesis
    proof (cases "mn < mid")
      case True
      have "\<forall>i. mid \<le> i \<and> i < n \<longrightarrow> c < ?lo i" by (rule sorted_ranges.search_left [OF sr left])
      with less.hyps [of mid mn] less.prems mid True
      have "\<exists>m e h. tt_group_search t c mn mid = Some (m, e, h) \<and> search_post t n c m e h" by simp
      then show ?thesis using left True unf rd by simp
    next
      case False
      then have "search_post t n c mid (?hi mid) False"
        using left mid less.prems(3) above lo_hi by (simp add: search_post_def)
      then show ?thesis using left False unf rd by auto
    qed
  next
    case right
    show ?thesis
    proof (cases "Suc mid < mx")
      case True
      have "\<forall>i < Suc mid. ?hi i < c" by (rule sorted_ranges.search_right [OF sr right(1) mid(3)])
      with less.hyps [of mx "Suc mid"] less.prems mid True
      have "\<exists>m e h. tt_group_search t c (Suc mid) mx = Some (m, e, h) \<and> search_post t n c m e h" by simp
      then show ?thesis using right True unf rd by simp
    next
      case False
      then have "search_post t n c mid (?hi mid) False"
        using right mid less.prems(4) below lo_hi by (simp add: search_post_def)
      then show ?thesis using right False unf rd by auto
    qed
  next
    case hit
    then have "search_post t n c mid (?hi mid) True"
      using mid below above by (simp add: search_post_def)
    then show ?thesis using hit unf rd by auto
  qed
qed

lemma tt_group_search_all:
  assumes "groups_ok t 16 n" "0 < n"
  obtains mid e hit where "tt_group_search t c 0 n = Some (mid, e, hit)" "search_post t n c mid e hit"
  using tt_group_search_spec [OF assms order_refl, of c] by auto

section \<open>Correctness\<close>

definition cmap12_ok :: "bytes \<Rightarrow> nat \<Rightarrow> TT_CMap12 \<Rightarrow> bool" where
  "cmap12_ok t fl st \<longleftrightarrow> cm_data st = t \<and> num_groups st = u32 t 12 \<and> groups12_ok t \<and>
     cur_charcode st < 4294967296 \<and> cur_gindex st < 4294967296 \<and>
     (cm_valid st \<longrightarrow> cur_group st < num_groups st \<and>
       (\<forall>i < cur_group st. grp_end t 16 i \<le> cur_charcode st))"

definition cmap12_map :: "bytes \<Rightarrow> nat \<Rightarrow> nat \<Rightarrow> nat" where
  "cmap12_map t fl = groups_map t 16 (u32 t 12)"

text \<open>The cache invariant, without the bit that says whether it is in use.\<close>

definition cmap12_at :: "bytes \<Rightarrow> TT_CMap12 \<Rightarrow> bool" where
  "cmap12_at t st \<longleftrightarrow> cm_data st = t \<and> num_groups st = u32 t 12 \<and> groups12_ok t \<and>
     cur_charcode st < 4294967296 \<and> cur_gindex st < 4294967296 \<and> cur_group st < num_groups st \<and>
     (\<forall>i < cur_group st. grp_end t 16 i \<le> cur_charcode st)"

lemma cmap12_at_ok: "cmap12_at t st \<Longrightarrow> cmap12_ok t fl st"
  by (simp add: cmap12_at_def cmap12_ok_def)

lemma cmap12_ok_at: "cmap12_ok t fl st \<Longrightarrow> cm_valid st \<Longrightarrow> cmap12_at t st"
  by (simp add: cmap12_at_def cmap12_ok_def)

text \<open>One call of \<open>tt_cmap12_next\<close>: the first usable code above the cached one.\<close>

lemma cmap12_next_step:
  assumes at: "cmap12_at t st" and v: "cm_valid st"
  shows "\<exists>st'. tt_cmap12_next ng st = Some st' \<and> cmap12_ok t fl st' \<and>
    (if cm_valid st' then cur_gindex st' \<noteq> 0 \<and>
       scan_ok 4294967296 (\<lambda>e. clip_glyph ng (cmap12_map t fl e)) (Suc (cur_charcode st))
         (cur_gindex st', cur_charcode st')
     else cur_charcode st' = cur_charcode st \<and>
       scan_ok 4294967296 (\<lambda>e. clip_glyph ng (cmap12_map t fl e)) (Suc (cur_charcode st)) (0, c0))"
proof -
  let ?n = "u32 t 12"
  have ok: "groups_ok t 16 ?n" and grp: "cur_group st < ?n" "num_groups st = ?n" "cm_data st = t"
    using at by (simp_all add: cmap12_at_def groups12_ok_def)
  have "clip_glyph ng (groups_map t 16 ?n e) = 0"
    if "Suc (cur_charcode st) \<le> e" "\<And>j. cur_group st \<le> j \<Longrightarrow> j < ?n \<Longrightarrow> e < grp_start t 16 j" for e
  proof -
    have "groups_map t 16 ?n e = 0"
      using at that by (intro groups_map_gap [OF ok, of "cur_group st"]) (auto simp: cmap12_at_def intro: le_less_trans)
    then show ?thesis by (simp add: clip_glyph_def)
  qed
  moreover have "cur_group st + (?n - cur_group st) = ?n" using grp by simp
  ultimately obtain r where
    r: "tt_groups_scan ng t 16 (?n - cur_group st) (cur_group st) (Suc (cur_charcode st)) = Some r"
      "scan_result 4294967296 ng t 16 ?n (cur_group st) (Suc (cur_charcode st)) r"
    using tt_groups_scan_spec [OF ok, of "cur_group st" "?n - cur_group st" "Suc (cur_charcode st)" ng]
    by auto
  show ?thesis
  proof (cases r)
    case None
    then show ?thesis using r at grp
      by (simp add: tt_cmap12_next_def cmap12_ok_def cmap12_at_def scan_result_def scan_ok_def cmap12_map_def)
  next
    case (Some q)
    obtain g c' m where q: "q = (g, c', m)" by (cases q)
    with r(2) Some have s: "m < ?n" "grp_start t 16 m \<le> c'" "c' \<le> grp_end t 16 m" "g \<noteq> 0"
      "scan_ok 4294967296 (\<lambda>e. clip_glyph ng (groups_map t 16 ?n e)) (Suc (cur_charcode st)) (g, c')"
      by (simp_all add: scan_result_def)
    have "grp_end t 16 i \<le> c'" if "i < m" for i
      using sorted_ranges.hi_less_lo [of "grp_start t 16" "grp_end t 16" ?n i m] that ok s(1,2)
      by (simp add: groups_ok_def)
    moreover have c': "c' < 4294967296" using s(3) grp_lt(2) [of t 16 m] by linarith
    moreover have "g < 4294967296"
    proof -
      have "groups_map t 16 ?n c' = seq_glyph (grp_start t 16 m) (grp_id t 16 m) c'"
        by (rule groups_map_in [OF ok s(1-3)])
      moreover have "g = groups_map t 16 ?n c'"
        using s(4,5) by (simp add: scan_ok_def clip_glyph_def split: if_splits)
      ultimately show ?thesis using c' unfolding seq_glyph_def by (simp split: if_splits; linarith)
    qed
    ultimately show ?thesis using r(1) at v grp Some q s
      by (simp add: tt_cmap12_next_def cmap12_ok_def cmap12_at_def cmap12_map_def)
  qed
qed

lemma cmap12_probe:
  assumes "groups12_ok t" "0 < u32 t 12"
  obtains mid e hit where "tt_group_search t c 0 (u32 t 12) = Some (mid, e, hit)"
    "search_post t (u32 t 12) c mid e hit"
    "cmap12_map t fl c = (if hit then seq_glyph (grp_start t 16 mid) (grp_id t 16 mid) c else 0)"
    "mul32 12 mid = 12 * mid"
    "hit \<Longrightarrow> peek_ulong t (16 + 12 * mid) = Some (grp_start t 16 mid)"
    "hit \<Longrightarrow> peek_ulong t (24 + 12 * mid) = Some (grp_id t 16 mid)"
proof -
  have ok: "groups_ok t 16 (u32 t 12)" using assms(1) by (simp add: groups12_ok_def)
  obtain mid e hit where s: "tt_group_search t c 0 (u32 t 12) = Some (mid, e, hit)"
    "search_post t (u32 t 12) c mid e hit" by (rule tt_group_search_all [OF ok assms(2)])
  then have mid: "mid < u32 t 12" by (simp add: search_post_def)
  have "mul32 12 mid = 12 * mid" using ok mid by (intro mul32_small) (simp add: groups_ok_def)
  moreover have "cmap12_map t fl c =
      (if hit then seq_glyph (grp_start t 16 mid) (grp_id t 16 mid) c else 0)"
  proof (cases hit)
    case True
    then show ?thesis using s(2) groups_map_in [OF ok mid, of c] by (simp add: search_post_def cmap12_map_def)
  next
    case False
    then consider "c < grp_start t 16 mid" | "grp_end t 16 mid < c"
      using s(2) by (auto simp: search_post_def)
    then have "groups_map t 16 (u32 t 12) c = 0"
    proof cases
      case 1
      then show ?thesis using s(2)
        by (intro groups_map_gap [OF ok, of mid]) (auto simp: search_post_def le_less)
    next
      case 2
      then show ?thesis using s(2)
        by (intro groups_map_gap [OF ok, of "Suc mid"]) (auto simp: search_post_def less_Suc_eq)
    qed
    then show ?thesis using False by (simp add: cmap12_map_def)
  qed
  ultimately show ?thesis using that [OF s] groups_ok_read [OF ok mid] by simp
qed

lemma cmap12_index:
  assumes "cmap12_ok t fl st" "c < 4294967296"
  shows "tt_cmap12_char_index ng st c = Some (cmap12_map t fl c)"
proof -
  have t: "cm_data st = t" "groups12_ok t" "peek_ulong t 12 = Some (u32 t 12)"
    using assms(1) by (simp_all add: cmap12_ok_def groups12_ok_def)
  have c: "add32 c 0 = c" using assms(2) by (simp add: add32_small)
  show ?thesis
  proof (cases "u32 t 12 = 0")
    case True
    then show ?thesis using t
      by (simp add: tt_cmap12_char_index_def tt_cmap12_char_map_binary_def cmap12_map_def
          groups_map_def range_of_def)
  next
    case False
    then have "0 < u32 t 12" by simp
    then obtain mid e hit where "tt_group_search t c 0 (u32 t 12) = Some (mid, e, hit)"
      "cmap12_map t fl c = (if hit then seq_glyph (grp_start t 16 mid) (grp_id t 16 mid) c else 0)"
      "mul32 12 mid = 12 * mid"
      "hit \<Longrightarrow> peek_ulong t (16 + 12 * mid) = Some (grp_start t 16 mid)"
      "hit \<Longrightarrow> peek_ulong t (24 + 12 * mid) = Some (grp_id t 16 mid)"
      using cmap12_probe [OF t(2)] by metis
    then show ?thesis using t False c
      by (simp add: tt_cmap12_char_index_def tt_cmap12_char_map_binary_def seq_glyph_def)
  qed
qed

section \<open>The enumeration over a cached group\<close>

text \<open>
  What \<open>char_next\<close> of formats 12 and 13 relies on: \<open>nxt\<close> goes on from the cached code and
  group, \<open>binary\<close> finds the group to start from, and \<open>gmap\<close> is 0 between the groups.
\<close>

definition mid_after :: "nat \<Rightarrow> nat \<Rightarrow> nat \<Rightarrow> nat" where
  "mid_after mid e c = (if e < c then Suc mid else mid)"

locale group_cursor =
  fixes gmap :: "bytes \<Rightarrow> nat \<Rightarrow> nat \<Rightarrow> nat"
    and nxt :: "nat \<Rightarrow> TT_CMap12 \<Rightarrow> TT_CMap12 option"
    and binary :: "nat \<Rightarrow> TT_CMap12 \<Rightarrow> nat \<Rightarrow> bool \<Rightarrow> (nat \<times> nat \<times> TT_CMap12) option"
    and char_next :: "nat \<Rightarrow> TT_CMap12 \<Rightarrow> nat \<Rightarrow> (nat \<times> nat \<times> TT_CMap12) option"
  assumes gap: "groups_ok t 16 (u32 t 12) \<Longrightarrow> (\<And>i. i < m \<Longrightarrow> i < u32 t 12 \<Longrightarrow> grp_end t 16 i < c) \<Longrightarrow>
      (\<And>i. m \<le> i \<Longrightarrow> i < u32 t 12 \<Longrightarrow> c < grp_start t 16 i) \<Longrightarrow> gmap t fl c = 0"
    and glyph32: "groups12_ok t \<Longrightarrow> c < 4294967296 \<Longrightarrow> gmap t fl c < 4294967296"
    and next_step: "cmap12_at t st \<Longrightarrow> cm_valid st \<Longrightarrow>
      \<exists>st'. nxt ng st = Some st' \<and> cmap12_ok t fl st' \<and>
        (if cm_valid st' then cur_gindex st' \<noteq> 0 \<and>
           scan_ok 4294967296 (\<lambda>e. clip_glyph ng (gmap t fl e)) (Suc (cur_charcode st))
             (cur_gindex st', cur_charcode st')
         else cur_charcode st' = cur_charcode st \<and>
           scan_ok 4294967296 (\<lambda>e. clip_glyph ng (gmap t fl e)) (Suc (cur_charcode st)) (0, c0))"
    and binary_none: "groups12_ok (cm_data st) \<Longrightarrow> u32 (cm_data st) 12 = 0 \<Longrightarrow>
      binary ng st c True = Some (0, c, st)"
    and binary_run: "groups12_ok (cm_data st) \<Longrightarrow> 0 < u32 (cm_data st) 12 \<Longrightarrow> c < 4294967295 \<Longrightarrow>
      tt_group_search (cm_data st) (Suc c) 0 (u32 (cm_data st) 12) = Some (mid, e, hit) \<Longrightarrow>
      search_post (cm_data st) (u32 (cm_data st) 12) (Suc c) mid e hit \<Longrightarrow>
      g = clip_glyph ng (gmap (cm_data st) fl (Suc c)) \<Longrightarrow>
      st1 = st\<lparr>cm_valid := True, cur_charcode := Suc c, cur_group := mid_after mid e (Suc c)\<rparr> \<Longrightarrow>
      binary ng st c True =
        (if e < Suc c \<and> mid_after mid e (Suc c) = u32 (cm_data st) 12 then Some (0, c, st)
         else if g = 0 then do {
           st' \<leftarrow> nxt ng st1;
           Some (if cm_valid st' then cur_gindex st' else 0, cur_charcode st', st')
         } else Some (g, Suc c, st1\<lparr>cur_gindex := g\<rparr>))"
    and char_next_run: "char_next ng st c =
        (if c \<ge> 4294967295 then Some (0, c, st)
         else if cm_valid st \<and> cur_charcode st = c then do {
           st' \<leftarrow> nxt ng st;
           Some (if cm_valid st' then (cur_gindex st', cur_charcode st', st') else (0, c, st'))
         }
         else binary ng st c True)"
begin

lemma binary_next:
  assumes ok: "cmap12_ok t fl st" and c: "c < 4294967295"
  shows "\<exists>g c' st'. binary ng st c True = Some (g, c', st') \<and> cmap12_ok t fl st' \<and>
    c' < 4294967296 \<and> next_char_ok 4294967296 ng (gmap t fl) c (g, c')"
proof -
  let ?n = "u32 t 12" and ?F = "\<lambda>e. clip_glyph ng (gmap t fl e)"
  have t: "cm_data st = t" "groups12_ok t" using ok by (simp_all add: cmap12_ok_def)
  have gok: "groups_ok t 16 ?n" using t(2) by (simp add: groups12_ok_def)
  show ?thesis
  proof (cases "?n = 0")
    case True
    have "gmap t fl d = 0" for d using True by (intro gap [OF gok, of 0]) auto
    then show ?thesis using binary_none [of st ng c] True t ok c
      by (simp add: next_char_ok_def clip_glyph_def)
  next
    case False
    then have n: "0 < ?n" by simp
    obtain mid e hit where s: "tt_group_search t (Suc c) 0 ?n = Some (mid, e, hit)"
      "search_post t ?n (Suc c) mid e hit" by (rule tt_group_search_all [OF gok n])
    define g where "g = ?F (Suc c)"
    define m where "m = mid_after mid e (Suc c)"
    define st1 where "st1 = st\<lparr>cm_valid := True, cur_charcode := Suc c, cur_group := m\<rparr>"
    note run = binary_run [of st c mid e hit g ng fl st1, unfolded t(1), OF t(2) n c s g_def st1_def [unfolded m_def],
        folded m_def]
    have low: "\<forall>i < m. grp_end t 16 i < Suc c"
      using s(2) by (auto simp: search_post_def m_def mid_after_def less_Suc_eq)
    show ?thesis
    proof (cases "e < Suc c \<and> m = ?n")
      case True
      then have "gmap t fl d = 0" if "c < d" for d
        using that low by (intro gap [OF gok, of ?n]) (auto intro: less_le_trans)
      then show ?thesis using run True ok c by (simp add: next_char_ok_def clip_glyph_def)
    next
      case more: False
      then have "m < ?n" using s(2) by (auto simp: search_post_def m_def mid_after_def split: if_splits)
      then have at: "cmap12_at t st1" using ok t low c
        by (auto simp: cmap12_at_def cmap12_ok_def st1_def)
      show ?thesis
      proof (cases "g = 0")
        case True
        from next_step [OF at, of ng fl "Suc c"] obtain st' where
          n: "nxt ng st1 = Some st'" "cmap12_ok t fl st'"
            "if cm_valid st' then cur_gindex st' \<noteq> 0 \<and>
               scan_ok 4294967296 ?F (Suc (Suc c)) (cur_gindex st', cur_charcode st')
             else scan_ok 4294967296 ?F (Suc (Suc c)) (0, cur_charcode st')"
          by (auto simp: st1_def scan_ok_def split: if_splits)
        let ?r = "(if cm_valid st' then cur_gindex st' else 0, cur_charcode st')"
        have "scan_ok 4294967296 ?F (Suc (Suc c)) ?r" using n(3) by (simp split: if_splits)
        then have "scan_ok 4294967296 ?F (Suc c) ?r"
          by (rule scan_ok_skip) (use True in \<open>auto simp: g_def less_Suc_eq_le dest: le_antisym\<close>)
        then have "next_char_ok 4294967296 ng (gmap t fl) c ?r" by (rule scan_ok_clip_next)
        then show ?thesis using run more True n by (auto simp: cmap12_ok_def)
      next
        case g: False
        have "scan_ok 4294967296 ?F (Suc c) (g, Suc c)"
          using g c by (intro scan_ok_here) (auto simp: g_def)
        then have "next_char_ok 4294967296 ng (gmap t fl) c (g, Suc c)" by (rule scan_ok_clip_next)
        moreover have "g < 4294967296"
          using glyph32 [OF t(2), of "Suc c" fl] c by (simp add: g_def clip_glyph_def)
        then have "cmap12_ok t fl (st1\<lparr>cur_gindex := g\<rparr>)"
          using at by (intro cmap12_at_ok) (simp add: cmap12_at_def)
        ultimately show ?thesis using run more g c by auto
      qed
    qed
  qed
qed

lemma char_next_right:
  assumes ok: "cmap12_ok t fl st" and c: "c < 4294967296"
  shows "\<exists>g c' st'. char_next ng st c = Some (g, c', st') \<and> cmap12_ok t fl st' \<and>
    c' < 4294967296 \<and> next_char_ok 4294967296 ng (gmap t fl) c (g, c')"
proof -
  consider (wrap) "c \<ge> 4294967295" | (cached) "c < 4294967295" "cm_valid st" "cur_charcode st = c"
    | (search) "c < 4294967295" "\<not> (cm_valid st \<and> cur_charcode st = c)" by linarith
  then show ?thesis
  proof cases
    case wrap
    then show ?thesis using ok c by (simp add: char_next_run next_char_ok_def)
  next
    case cached
    let ?F = "\<lambda>e. clip_glyph ng (gmap t fl e)"
    from next_step [OF cmap12_ok_at [OF ok cached(2)] cached(2), of ng fl c] cached(3) obtain st' where
      n: "nxt ng st = Some st'" "cmap12_ok t fl st'"
        "if cm_valid st' then cur_gindex st' \<noteq> 0 \<and> scan_ok 4294967296 ?F (Suc c) (cur_gindex st', cur_charcode st')
         else scan_ok 4294967296 ?F (Suc c) (0, c)"
      by (auto split: if_splits)
    have "next_char_ok 4294967296 ng (gmap t fl) c
        (if cm_valid st' then (cur_gindex st', cur_charcode st') else (0, c))"
      using n(3) by (auto intro: scan_ok_clip_next split: if_splits)
    then show ?thesis using n cached c by (auto simp: char_next_run cmap12_ok_def)
  next
    case search
    then show ?thesis using binary_next [OF ok search(1)] by (auto simp: char_next_run)
  qed
qed

end

lemma cmap12_binary_run:
  assumes t: "groups12_ok (cm_data st)" "0 < u32 (cm_data st) 12" and c: "c < 4294967295"
    and s: "tt_group_search (cm_data st) (Suc c) 0 (u32 (cm_data st) 12) = Some (mid, e, hit)"
      "search_post (cm_data st) (u32 (cm_data st) 12) (Suc c) mid e hit"
    and g: "g = clip_glyph ng (cmap12_map (cm_data st) fl (Suc c))"
    and st1: "st1 = st\<lparr>cm_valid := True, cur_charcode := Suc c, cur_group := mid_after mid e (Suc c)\<rparr>"
  shows "tt_cmap12_char_map_binary ng st c True =
    (if e < Suc c \<and> mid_after mid e (Suc c) = u32 (cm_data st) 12 then Some (0, c, st)
     else if g = 0 then do {
       st' \<leftarrow> tt_cmap12_next ng st1;
       Some (if cm_valid st' then cur_gindex st' else 0, cur_charcode st', st')
     } else Some (g, Suc c, st1\<lparr>cur_gindex := g\<rparr>))"
proof -
  have m1: "add32 mid (Suc 0) = Suc mid"
    using s(2) t(1) by (subst add32_small) (auto simp: search_post_def groups12_ok_def groups_ok_def)
  obtain "cmap12_map (cm_data st) fl (Suc c) =
        (if hit then seq_glyph (grp_start (cm_data st) 16 mid) (grp_id (cm_data st) 16 mid) (Suc c) else 0)"
      "mul32 12 mid = 12 * mid"
      "hit \<Longrightarrow> peek_ulong (cm_data st) (16 + 12 * mid) = Some (grp_start (cm_data st) 16 mid)"
      "hit \<Longrightarrow> peek_ulong (cm_data st) (24 + 12 * mid) = Some (grp_id (cm_data st) 16 mid)"
    using cmap12_probe [OF t, of "Suc c" fl] s(1) by auto
  moreover have "peek_ulong (cm_data st) 12 = Some (u32 (cm_data st) 12)"
    using t(1) by (simp add: groups12_ok_def)
  moreover have "add32 c (Suc 0) = Suc c" using c by (simp add: add32_small)
  ultimately show ?thesis using s(1) t m1
    by (cases hit; cases "e < Suc c")
      (simp_all add: tt_cmap12_char_map_binary_def seq_glyph_def mid_after_def st1 g clip_glyph_def Let_def)
qed

lemma cmap12_map32: "c < 4294967296 \<Longrightarrow> cmap12_map t fl c < 4294967296"
  unfolding cmap12_map_def groups_map_def seq_glyph_def by (auto split: option.splits)

interpretation cursor12: group_cursor cmap12_map tt_cmap12_next tt_cmap12_char_map_binary tt_cmap12_char_next
proof (unfold_locales, goal_cases)
  case 1 then show ?case unfolding cmap12_map_def by (rule groups_map_gap)
next
  case 2 then show ?case by (intro cmap12_map32)
next
  case 3 then show ?case by (rule cmap12_next_step)
next
  case 4 then show ?case by (simp add: tt_cmap12_char_map_binary_def groups12_ok_def)
next
  case 5 then show ?case by (rule cmap12_binary_run)
next
  case 6 then show ?case by (simp add: tt_cmap12_char_next_def)
qed

lemmas cmap12_next = cursor12.char_next_right

interpretation cmap12: tt_cmap_ordered tt_cmap12_validate tt_cmap12_init tt_cmap12_char_index
  tt_cmap12_char_next cmap12_ok cmap12_map 4294967296
proof
  show "vagree (tt_cmap12_validate Hosted t l n) (tt_cmap12_validate Freestanding t l n)" for t l n
    by (rule cmap12_agree)
  show "vwp (tt_cmap12_validate Hosted t FT_VALIDATE_DEFAULT n) None
      (\<lambda>fl s. s = None \<and> (\<exists>st. tt_cmap12_init t fl = Some st \<and> cmap12_ok t fl st))" if "length t < 4294967296" for t n
    by (rule cmap12_safe) (simp add: tt_cmap12_init_def cmap12_ok_def groups12_ok_def)
  show "\<exists>g. tt_cmap12_char_index ng st c = Some g \<and> clip_glyph ng g = clip_glyph ng (cmap12_map t fl c)"
    if "cmap12_ok t fl st" "c < 4294967296" for t fl st c ng
    using that cmap12_index [of t fl st c ng] by auto
  show "\<exists>g c' st'. tt_cmap12_char_next ng st c = Some (g, c', st') \<and> cmap12_ok t fl st' \<and>
      c' < 4294967296 \<and> (g \<noteq> 0 \<longrightarrow> c < 4294967295 \<longrightarrow> c < c')"
    if "cmap12_ok t fl st" "c < 4294967296" for t fl st c ng
    using that cmap12_next [of t fl st c ng] by (fastforce simp: next_char_ok_def)
  show "next_char_ok 4294967296 ng (cmap12_map t fl) c (g, c')"
    if "cmap12_ok t fl st" "c < 4294967295" "tt_cmap12_char_next ng st c = Some (g, c', st')"
    for t fl st c g c' st' ng
    using that cmap12_next [of t fl st c ng] by auto
qed

section \<open>Properties\<close>

text \<open>
  C25: For a table that \<open>validate\<close> accepts (in either \<open>longjmp\<close> semantics), and after any
  sequence of \<open>char_next\<close> calls on the object, \<open>char_index\<close> returns the glyph of its group, and
  \<open>char_next\<close> the first larger code that has a usable glyph; neither reads outside the table.
\<close>

theorem tt_cmap12_lookup_and_enumeration:
  assumes "length t < 4294967296" "tt_cmap12_validate env t FT_VALIDATE_DEFAULT n None = VRet fl None"
    and "\<forall>c \<in> set cs. c < 4294967296" "c < 4294967295"
  shows "\<exists>st0 st g g' c' st'. tt_cmap12_init t fl = Some st0 \<and>
    run_next tt_cmap12_char_next ng st0 cs = Some st \<and>
    tt_cmap12_char_index ng st c = Some g \<and>
    clip_glyph ng g = clip_glyph ng (groups_map t 16 (u32 t 12) c) \<and>
    tt_cmap12_char_next ng st c = Some (g', c', st') \<and>
    next_char_ok 4294967296 ng (groups_map t 16 (u32 t 12)) c (g', c')"
  using cmap12.lookup_and_enumeration [OF assms] unfolding cmap12_map_def .

definition table12 :: bytes where
  "table12 = [0, 12, 0, 0, 0, 0, 0, 40, 0, 0, 0, 0, 0, 0, 0, 2, 0, 0, 0, 65, 0, 0, 0, 66, 0, 0, 0, 3,
     0, 1, 0, 0, 0, 1, 0, 2, 0, 0, 0, 5]"

lemma table12_reads:
  "length table12 = 40" "u32 table12 4 = 40" "u32 table12 12 = 2" "u32 table12 16 = 65" "u32 table12 20 = 66" "u32 table12 24 = 3" "u32 table12 28 = 65536" "u32 table12 32 = 65538" "u32 table12 36 = 5"
  by (simp_all add: u8_def u16_def u32_def table12_def nth_append)

lemma table12_accepted:
  "tt_cmap12_validate Freestanding table12 FT_VALIDATE_DEFAULT 10 None = VRet 0 None"
  by (simp add: tt_cmap12_validate_def vdefs peek_defs table12_reads numeral_2_eq_2)

theorem tt_cmap12_lookup_and_enumeration_witness:
  "\<exists>st0 st g g' c' st'. tt_cmap12_init table12 0 = Some st0 \<and>
    run_next tt_cmap12_char_next 10 st0 [64, 65] = Some st \<and>
    tt_cmap12_char_index 10 st 65 = Some g \<and>
    clip_glyph 10 g = clip_glyph 10 (groups_map table12 16 (u32 table12 12) 65) \<and>
    tt_cmap12_char_next 10 st 65 = Some (g', c', st') \<and>
    next_char_ok 4294967296 10 (groups_map table12 16 (u32 table12 12)) 65 (g', c')"
  by (rule tt_cmap12_lookup_and_enumeration [OF _ table12_accepted]) (simp_all add: table12_reads)

end
