(* ===== verification/Tt_CMap13.thy ===== *)
theory Tt_CMap13
  imports Tt_CMap12
begin

text \<open>
  Format 13 of \<open>src/sfnt/ttcmap.c\<close>: format 12 with one glyph for all the codes of a group.
  \<open>TT_CMap13Rec\<close> has the fields of \<open>TT_CMap12Rec\<close>, and the bisection is the same.
\<close>

type_synonym TT_CMap13 = TT_CMap12

definition tt_cmap13_init :: "bytes \<Rightarrow> nat \<Rightarrow> TT_CMap13 option" where
  "tt_cmap13_init table fl = do {
     n \<leftarrow> peek_ulong table 12;
     Some \<lparr>cm_data = table, cm_valid = False, cur_charcode = 0, cur_gindex = 0, cur_group = 0,
       num_groups = n\<rparr>
   }"

fun tt_cmap13_check_groups ::
    "setjmp_env \<Rightarrow> bytes \<Rightarrow> validation_level \<Rightarrow> nat \<Rightarrow> nat \<Rightarrow> nat \<Rightarrow> nat \<Rightarrow> nat \<Rightarrow> unit validator" where
  "tt_cmap13_check_groups env t level ng p n lst 0 = vret ()"
| "tt_cmap13_check_groups env t level ng p n lst (Suc k) =
     vbind (vload (peek_ulong t p)) (\<lambda>start.
     vbind (vload (peek_ulong t (p + 4))) (\<lambda>last_code.
     vbind (vload (peek_ulong t (p + 8))) (\<lambda>glyph_id.
     vbind (vcheck env (start > last_code) Invalid_Table) (\<lambda>_.
     vbind (vcheck env (n > 0 \<and> start \<le> lst) Invalid_Table) (\<lambda>_.
     vbind (if at_least_tight level then vcheck env (glyph_id \<ge> ng) Invalid_Glyph_Index
            else vret ()) (\<lambda>_.
     tt_cmap13_check_groups env t level ng (p + 12) (n + 1) last_code k))))))"

definition tt_cmap13_validate ::
    "setjmp_env \<Rightarrow> bytes \<Rightarrow> validation_level \<Rightarrow> nat \<Rightarrow> nat validator" where
  "tt_cmap13_validate env t level num_glyphs =
     vbind (vcheck env (16 > length t) Invalid_Table) (\<lambda>_.
     vbind (vload (peek_ulong t 4)) (\<lambda>len.
     vbind (vload (peek_ulong t 12)) (\<lambda>n.
     vbind (vcheck env (len > length t \<or> len < 16 \<or> (len - 16) div 12 < n) Invalid_Table) (\<lambda>_.
     vbind (tt_cmap13_check_groups env t level num_glyphs 16 0 0 n) (\<lambda>_.
     vret 0)))))"

fun tt_cmap13_scan :: "nat \<Rightarrow> bytes \<Rightarrow> nat \<Rightarrow> nat \<Rightarrow> nat \<Rightarrow> (nat \<times> nat \<times> nat) option option" where
  "tt_cmap13_scan ng t 0 n char_code = Some None"
| "tt_cmap13_scan ng t (Suc k) n char_code = do {
     start \<leftarrow> peek_ulong t (16 + 12 * n);
     last_code \<leftarrow> peek_ulong t (16 + 12 * n + 4);
     glyph_id \<leftarrow> peek_ulong t (16 + 12 * n + 8);
     let char_code = (if char_code < start then start else char_code);
     if char_code \<le> last_code \<and> glyph_id \<noteq> 0 \<and> glyph_id < ng
     then Some (Some (glyph_id, char_code, n))
     else tt_cmap13_scan ng t k (Suc n) char_code
   }"

definition tt_cmap13_next :: "nat \<Rightarrow> TT_CMap13 \<Rightarrow> TT_CMap13 option" where
  "tt_cmap13_next ng cmap = do {
     found \<leftarrow> tt_cmap13_scan ng (cm_data cmap) (num_groups cmap - cur_group cmap)
                (cur_group cmap) (cur_charcode cmap + 1);
     case found of
       None \<Rightarrow> Some (cmap\<lparr>cm_valid := False\<rparr>)
     | Some (gindex, char_code, n) \<Rightarrow>
         Some (cmap\<lparr>cur_charcode := char_code, cur_gindex := gindex, cur_group := n\<rparr>)
   }"

definition tt_cmap13_char_map_binary ::
    "nat \<Rightarrow> TT_CMap13 \<Rightarrow> nat \<Rightarrow> bool \<Rightarrow> (nat \<times> nat \<times> TT_CMap13) option" where
  "tt_cmap13_char_map_binary ng cmap pchar_code nxt = do {
     n \<leftarrow> peek_ulong (cm_data cmap) 12;
     let char_code = add32 pchar_code (if nxt then 1 else 0);
     if n = 0 then Some (0, pchar_code, cmap)
     else do {
       (mid, last_code, hit) \<leftarrow> tt_group_search (cm_data cmap) char_code 0 n;
       gindex \<leftarrow> (if hit then peek_ulong (cm_data cmap) (16 + mul32 12 mid + 8) else Some 0);
       if \<not> nxt then Some (gindex, pchar_code, cmap)
       else do {
         let mid = (if char_code > last_code then add32 mid 1 else mid);
         if char_code > last_code \<and> mid = n then Some (0, pchar_code, cmap)
         else do {
           let cmap = cmap\<lparr>cm_valid := True, cur_charcode := char_code, cur_group := mid\<rparr>;
           let gindex = (if gindex \<ge> ng then 0 else gindex);
           if gindex = 0 then do {
             cmap \<leftarrow> tt_cmap13_next ng cmap;
             Some (if cm_valid cmap then cur_gindex cmap else 0, cur_charcode cmap, cmap)
           } else do {
             let cmap = cmap\<lparr>cur_gindex := gindex\<rparr>;
             Some (gindex, cur_charcode cmap, cmap)
           }
         }
       }
     }
   }"

definition tt_cmap13_char_index :: "nat \<Rightarrow> TT_CMap13 \<Rightarrow> nat \<Rightarrow> nat option" where
  "tt_cmap13_char_index ng cmap char_code =
     map_option fst (tt_cmap13_char_map_binary ng cmap char_code False)"

definition tt_cmap13_char_next :: "nat \<Rightarrow> TT_CMap13 \<Rightarrow> nat \<Rightarrow> (nat \<times> nat \<times> TT_CMap13) option" where
  "tt_cmap13_char_next ng cmap code =
     (if code \<ge> 4294967295 then Some (0, code, cmap)
      else if cm_valid cmap \<and> cur_charcode cmap = code then do {
        cmap \<leftarrow> tt_cmap13_next ng cmap;
        Some (if cm_valid cmap then (cur_gindex cmap, cur_charcode cmap, cmap) else (0, code, cmap))
      }
      else tt_cmap13_char_map_binary ng cmap code True)"

definition tt_cmap13_get_info :: "TT_CMap13 \<Rightarrow> TT_CMapInfo option" where
  "tt_cmap13_get_info cmap = do {
     language \<leftarrow> peek_ulong (cm_data cmap) 8;
     Some \<lparr>info_format = 13, info_language = language\<rparr>
   }"

section \<open>The validator and the map\<close>

definition cmap13_map :: "bytes \<Rightarrow> nat \<Rightarrow> nat \<Rightarrow> nat" where
  "cmap13_map t fl c =
     (case range_of (grp_start t 16) (grp_end t 16) (u32 t 12) c of
        None \<Rightarrow> 0 | Some i \<Rightarrow> grp_id t 16 i)"

lemma cmap13_groups_agree:
  "vagree (tt_cmap13_check_groups Hosted t l g p n lst k) (tt_cmap13_check_groups Freestanding t l g p n lst k)"
  by (induction k arbitrary: p n lst) (auto intro!: agree_intros)

lemma cmap13_agree: "vagree (tt_cmap13_validate Hosted t l n) (tt_cmap13_validate Freestanding t l n)"
  unfolding tt_cmap13_validate_def by (intro agree_intros cmap13_groups_agree)

lemma cmap13_groups_safe:
  assumes "p + 12 * k \<le> length t"
    and "sorted_ranges (grp_start t p) (grp_end t p) k \<Longrightarrow>
      (0 < n \<Longrightarrow> 0 < k \<Longrightarrow> lst < grp_start t p 0) \<Longrightarrow> Q () s"
  shows "vwp (tt_cmap13_check_groups Hosted t level g p n lst k) s Q"
  using assms
proof (induction k arbitrary: p n lst)
  case (Suc k)
  have "vwp (tt_cmap13_check_groups Hosted t level g (p + 12) (n + 1) (grp_end t p 0) k) s Q"
    if "u32 t p \<le> grp_end t p 0" "0 < n \<longrightarrow> lst < u32 t p"
    using that Suc.prems by (intro Suc.IH Suc.prems(2) sorted_ranges_Suc) (auto simp: grp_at(1))
  then show ?case using Suc.prems(1)
    by (auto simp: vsafe_simps grp_at(2) not_less not_le)
qed (simp add: vsafe_simps)

lemma cmap13_safe:
  assumes "groups12_ok t \<Longrightarrow> Q 0 s"
  shows "vwp (tt_cmap13_validate Hosted t l n) s Q"
  using assms groups12_count [of t]
  by (auto simp: tt_cmap13_validate_def vsafe_simps groups12_ok_def groups_ok_def not_less
      intro!: cmap13_groups_safe)

lemma cmap13_map_in:
  "groups_ok t 16 (u32 t 12) \<Longrightarrow> i < u32 t 12 \<Longrightarrow> grp_start t 16 i \<le> c \<Longrightarrow> c \<le> grp_end t 16 i \<Longrightarrow>
   cmap13_map t fl c = grp_id t 16 i"
  by (simp add: cmap13_map_def groups_ok_def sorted_ranges.range_of_eq)

lemma cmap13_map_gap:
  "groups_ok t 16 (u32 t 12) \<Longrightarrow> (\<And>i. i < m \<Longrightarrow> i < u32 t 12 \<Longrightarrow> grp_end t 16 i < c) \<Longrightarrow>
   (\<And>i. m \<le> i \<Longrightarrow> i < u32 t 12 \<Longrightarrow> c < grp_start t 16 i) \<Longrightarrow> cmap13_map t fl c = 0"
  using sorted_ranges.range_of_between [of "grp_start t 16" "grp_end t 16" "u32 t 12" m c]
  by (simp add: cmap13_map_def groups_ok_def)

section \<open>Correctness\<close>

lemma cmap13_scan_spec:
  assumes ok: "groups_ok t 16 nn" and nn: "nn = u32 t 12" and "n + k = nn"
    and "\<And>i. i < n \<Longrightarrow> grp_end t 16 i < c \<or> clip_glyph ng (grp_id t 16 i) = 0"
    and "\<And>i. i < n \<Longrightarrow> grp_start t 16 i \<le> c"
  shows "\<exists>r. tt_cmap13_scan ng t k n c = Some r \<and>
    (case r of
       None \<Rightarrow> \<forall>e. c \<le> e \<longrightarrow> clip_glyph ng (cmap13_map t fl e) = 0
     | Some (g, c', m) \<Rightarrow> n \<le> m \<and> m < nn \<and> grp_start t 16 m \<le> c' \<and> c' \<le> grp_end t 16 m \<and>
         g = grp_id t 16 m \<and> g \<noteq> 0 \<and>
         scan_ok 4294967296 (\<lambda>e. clip_glyph ng (cmap13_map t fl e)) c (g, c'))"
  using assms(3-)
proof (induction k arbitrary: n c)
  case 0
  have "clip_glyph ng (cmap13_map t fl e) = 0" if "c \<le> e" for e
  proof (cases "range_of (grp_start t 16) (grp_end t 16) nn e")
    case (Some i)
    then have "clip_glyph ng (grp_id t 16 i) = 0"
      using range_of_SomeD [OF Some] 0 that by fastforce
    then show ?thesis using Some nn by (simp add: cmap13_map_def)
  qed (use nn in \<open>simp add: cmap13_map_def clip_glyph_def\<close>)
  then show ?case by simp
next
  case (Suc k)
  let ?F = "\<lambda>e. clip_glyph ng (cmap13_map t fl e)" and ?lo = "grp_start t 16" and ?hi = "grp_end t 16"
  have sr: "sorted_ranges ?lo ?hi nn" using ok by (simp add: groups_ok_def)
  have n: "n < nn" using Suc.prems(1) by simp
  define d where "d = (if c < ?lo n then ?lo n else c)"
  have d: "?lo n \<le> d" "c \<le> d" by (simp_all add: d_def)
  have skip: "?F e = 0" if "c \<le> e" "e < d" for e
  proof (cases "range_of ?lo ?hi nn e")
    case (Some i)
    have e: "e < ?lo n" using that by (auto simp: d_def split: if_splits)
    have "i < n" using range_of_SomeD [OF Some] sorted_ranges.before_lo [OF sr e, of i] by fastforce
    then have "clip_glyph ng (grp_id t 16 i) = 0"
      using range_of_SomeD [OF Some] Suc.prems(2) [of i] that(1) by fastforce
    then show ?thesis using Some nn by (simp add: cmap13_map_def)
  qed (use nn in \<open>simp add: cmap13_map_def clip_glyph_def\<close>)
  have step: "tt_cmap13_scan ng t (Suc k) n c =
      (if d \<le> ?hi n \<and> grp_id t 16 n \<noteq> 0 \<and> grp_id t 16 n < ng then Some (Some (grp_id t 16 n, d, n))
       else tt_cmap13_scan ng t k (Suc n) d)"
    using groups_ok_read [OF ok n, simplified] by (simp add: d_def Let_def)
  show ?case
  proof (cases "d \<le> ?hi n \<and> grp_id t 16 n \<noteq> 0 \<and> grp_id t 16 n < ng")
    case True
    have "?F d = grp_id t 16 n"
      using True d cmap13_map_in [of t n d fl] ok nn n by (simp add: clip_glyph_def)
    then have "scan_ok 4294967296 ?F d (grp_id t 16 n, d)"
      using True grp_lt(2) [of t 16 n] by (intro scan_ok_here) linarith+
    then have "scan_ok 4294967296 ?F c (grp_id t 16 n, d)" using d(2) skip by (rule scan_ok_skip)
    then show ?thesis using True step d n by simp
  next
    case False
    have "grp_end t 16 i < d \<or> clip_glyph ng (grp_id t 16 i) = 0" if "i < Suc n" for i
      using that Suc.prems(2) [of i] False d(2) by (cases "i = n") (auto simp: clip_glyph_def)
    moreover have "grp_start t 16 i \<le> d" if "i < Suc n" for i
      using that Suc.prems(3) [of i] d by (cases "i = n") auto
    moreover have "Suc n + k = nn" using Suc.prems(1) by simp
    ultimately obtain r where r: "tt_cmap13_scan ng t k (Suc n) d = Some r"
      "case r of
         None \<Rightarrow> \<forall>e. d \<le> e \<longrightarrow> ?F e = 0
       | Some (g, c', m) \<Rightarrow> Suc n \<le> m \<and> m < nn \<and> grp_start t 16 m \<le> c' \<and> c' \<le> grp_end t 16 m \<and>
           g = grp_id t 16 m \<and> g \<noteq> 0 \<and> scan_ok 4294967296 ?F d (g, c')"
      using Suc.IH [of "Suc n" d] by blast
    show ?thesis
    proof (cases r)
      case None
      then have "?F e = 0" if "c \<le> e" for e using that r(2) skip by (cases "e < d") auto
      then show ?thesis using step False r(1) None by auto
    next
      case (Some q)
      then show ?thesis using step False r d(2) skip
        by (auto split: prod.splits intro: scan_ok_skip)
    qed
  qed
qed

lemma cmap13_next_step:
  assumes at: "cmap12_at t st" and v: "cm_valid st"
  shows "\<exists>st'. tt_cmap13_next ng st = Some st' \<and> cmap12_ok t fl st' \<and>
    (if cm_valid st' then cur_gindex st' \<noteq> 0 \<and>
       scan_ok 4294967296 (\<lambda>e. clip_glyph ng (cmap13_map t fl e)) (Suc (cur_charcode st))
         (cur_gindex st', cur_charcode st')
     else cur_charcode st' = cur_charcode st \<and>
       scan_ok 4294967296 (\<lambda>e. clip_glyph ng (cmap13_map t fl e)) (Suc (cur_charcode st)) (0, c0))"
proof -
  let ?n = "u32 t 12"
  have ok: "groups_ok t 16 ?n" and grp: "cur_group st < ?n" "num_groups st = ?n" "cm_data st = t"
    using at by (simp_all add: cmap12_at_def groups12_ok_def)
  have sr: "sorted_ranges (grp_start t 16) (grp_end t 16) ?n" using ok by (simp add: groups_ok_def)
  have "grp_end t 16 i < Suc (cur_charcode st)" if "i < cur_group st" for i
    using at that by (simp add: cmap12_at_def less_Suc_eq_le)
  moreover have "grp_start t 16 i \<le> Suc (cur_charcode st)" if "i < cur_group st" for i
    using at that sorted_ranges.range [OF sr, of i] grp(1) by (fastforce simp: cmap12_at_def)
  moreover have "cur_group st + (?n - cur_group st) = ?n" using grp by simp
  ultimately obtain r where
    r: "tt_cmap13_scan ng t (?n - cur_group st) (cur_group st) (Suc (cur_charcode st)) = Some r"
      "case r of
         None \<Rightarrow> \<forall>e. Suc (cur_charcode st) \<le> e \<longrightarrow> clip_glyph ng (cmap13_map t fl e) = 0
       | Some (g, c', m) \<Rightarrow> cur_group st \<le> m \<and> m < ?n \<and> grp_start t 16 m \<le> c' \<and> c' \<le> grp_end t 16 m \<and>
           g = grp_id t 16 m \<and> g \<noteq> 0 \<and>
           scan_ok 4294967296 (\<lambda>e. clip_glyph ng (cmap13_map t fl e)) (Suc (cur_charcode st)) (g, c')"
    using cmap13_scan_spec [OF ok refl, of "cur_group st" "?n - cur_group st" "Suc (cur_charcode st)" ng fl]
    by blast
  show ?thesis
  proof (cases r)
    case None
    then show ?thesis using r at grp
      by (simp add: tt_cmap13_next_def cmap12_ok_def cmap12_at_def scan_ok_def)
  next
    case (Some q)
    obtain g c' m where q: "q = (g, c', m)" by (cases q)
    with r(2) Some have s: "m < ?n" "grp_start t 16 m \<le> c'" "c' \<le> grp_end t 16 m" "g = grp_id t 16 m"
      "g \<noteq> 0"
      "scan_ok 4294967296 (\<lambda>e. clip_glyph ng (cmap13_map t fl e)) (Suc (cur_charcode st)) (g, c')"
      by auto
    have "grp_end t 16 i \<le> c'" if "i < m" for i
      using sorted_ranges.hi_less_lo [OF sr that s(1)] s(2) by simp
    moreover have "c' < 4294967296" using s(3) grp_lt(2) [of t 16 m] by linarith
    ultimately show ?thesis using r(1) at v grp Some q s
      by (simp add: tt_cmap13_next_def cmap12_ok_def cmap12_at_def)
  qed
qed

lemma cmap13_probe:
  assumes "groups12_ok t" "search_post t (u32 t 12) c mid e hit"
  shows "cmap13_map t fl c = (if hit then grp_id t 16 mid else 0)"
    "mul32 12 mid = 12 * mid" "peek_ulong t (24 + 12 * mid) = Some (grp_id t 16 mid)"
proof -
  have ok: "groups_ok t 16 (u32 t 12)" using assms(1) by (simp add: groups12_ok_def)
  have mid: "mid < u32 t 12" using assms(2) by (simp add: search_post_def)
  show "mul32 12 mid = 12 * mid" using ok mid by (intro mul32_small) (simp add: groups_ok_def)
  show "peek_ulong t (24 + 12 * mid) = Some (grp_id t 16 mid)" using groups_ok_read [OF ok mid] by simp
  show "cmap13_map t fl c = (if hit then grp_id t 16 mid else 0)"
  proof (cases hit)
    case True
    then show ?thesis using assms(2) cmap13_map_in [OF ok mid, of c] by (simp add: search_post_def)
  next
    case False
    then consider "c < grp_start t 16 mid" | "grp_end t 16 mid < c"
      using assms(2) by (auto simp: search_post_def)
    then have "cmap13_map t fl c = 0"
    proof cases
      case 1
      then show ?thesis using assms(2)
        by (intro cmap13_map_gap [OF ok, of mid]) (auto simp: search_post_def le_less)
    next
      case 2
      then show ?thesis using assms(2)
        by (intro cmap13_map_gap [OF ok, of "Suc mid"]) (auto simp: search_post_def less_Suc_eq)
    qed
    then show ?thesis using False by simp
  qed
qed

lemma cmap13_index:
  assumes "cmap12_ok t fl st" "c < 4294967296"
  shows "tt_cmap13_char_index ng st c = Some (cmap13_map t fl c)"
proof -
  have t: "cm_data st = t" "groups12_ok t" "peek_ulong t 12 = Some (u32 t 12)"
    using assms(1) by (simp_all add: cmap12_ok_def groups12_ok_def)
  have c: "add32 c 0 = c" using assms(2) by (simp add: add32_small)
  show ?thesis
  proof (cases "u32 t 12 = 0")
    case True
    then show ?thesis using t
      by (simp add: tt_cmap13_char_index_def tt_cmap13_char_map_binary_def cmap13_map_def range_of_def)
  next
    case False
    then have n: "0 < u32 t 12" by simp
    obtain mid e hit where s: "tt_group_search t c 0 (u32 t 12) = Some (mid, e, hit)"
      "search_post t (u32 t 12) c mid e hit"
      using t(2) by (auto simp: groups12_ok_def intro: tt_group_search_all [OF _ n, of t c])
    then show ?thesis using t False c cmap13_probe [OF t(2) s(2)]
      by (simp add: tt_cmap13_char_index_def tt_cmap13_char_map_binary_def)
  qed
qed

lemma cmap13_binary_run:
  assumes t: "groups12_ok (cm_data st)" "0 < u32 (cm_data st) 12" and c: "c < 4294967295"
    and s: "tt_group_search (cm_data st) (Suc c) 0 (u32 (cm_data st) 12) = Some (mid, e, hit)"
      "search_post (cm_data st) (u32 (cm_data st) 12) (Suc c) mid e hit"
    and g: "g = clip_glyph ng (cmap13_map (cm_data st) fl (Suc c))"
    and st1: "st1 = st\<lparr>cm_valid := True, cur_charcode := Suc c, cur_group := mid_after mid e (Suc c)\<rparr>"
  shows "tt_cmap13_char_map_binary ng st c True =
    (if e < Suc c \<and> mid_after mid e (Suc c) = u32 (cm_data st) 12 then Some (0, c, st)
     else if g = 0 then do {
       st' \<leftarrow> tt_cmap13_next ng st1;
       Some (if cm_valid st' then cur_gindex st' else 0, cur_charcode st', st')
     } else Some (g, Suc c, st1\<lparr>cur_gindex := g\<rparr>))"
proof -
  have m1: "add32 mid (Suc 0) = Suc mid"
    using s(2) t(1) by (subst add32_small) (auto simp: search_post_def groups12_ok_def groups_ok_def)
  have "peek_ulong (cm_data st) 12 = Some (u32 (cm_data st) 12)"
    using t(1) by (simp add: groups12_ok_def)
  moreover have "add32 c (Suc 0) = Suc c" using c by (simp add: add32_small)
  ultimately show ?thesis using s(1) t m1 cmap13_probe [OF t(1) s(2)]
    by (cases hit; cases "e < Suc c")
      (simp_all add: tt_cmap13_char_map_binary_def mid_after_def st1 g clip_glyph_def Let_def)
qed

interpretation cursor13: group_cursor cmap13_map tt_cmap13_next tt_cmap13_char_map_binary tt_cmap13_char_next
proof (unfold_locales, goal_cases)
  case 1 then show ?case by (rule cmap13_map_gap)
next
  case 2 then show ?case by (simp add: cmap13_map_def split: option.splits)
next
  case 3 then show ?case by (rule cmap13_next_step)
next
  case 4 then show ?case by (simp add: tt_cmap13_char_map_binary_def groups12_ok_def)
next
  case 5 then show ?case by (rule cmap13_binary_run)
next
  case 6 then show ?case by (simp add: tt_cmap13_char_next_def)
qed

interpretation cmap13: tt_cmap_ordered tt_cmap13_validate tt_cmap13_init tt_cmap13_char_index
  tt_cmap13_char_next cmap12_ok cmap13_map 4294967296
proof
  show "vagree (tt_cmap13_validate Hosted t l n) (tt_cmap13_validate Freestanding t l n)" for t l n
    by (rule cmap13_agree)
  show "vwp (tt_cmap13_validate Hosted t FT_VALIDATE_DEFAULT n) None
      (\<lambda>fl s. s = None \<and> (\<exists>st. tt_cmap13_init t fl = Some st \<and> cmap12_ok t fl st))" if "length t < 4294967296" for t n
    by (rule cmap13_safe) (simp add: tt_cmap13_init_def cmap12_ok_def groups12_ok_def)
  show "\<exists>g. tt_cmap13_char_index ng st c = Some g \<and> clip_glyph ng g = clip_glyph ng (cmap13_map t fl c)"
    if "cmap12_ok t fl st" "c < 4294967296" for t fl st c ng
    using that cmap13_index [of t fl st c ng] by auto
  show "\<exists>g c' st'. tt_cmap13_char_next ng st c = Some (g, c', st') \<and> cmap12_ok t fl st' \<and>
      c' < 4294967296 \<and> (g \<noteq> 0 \<longrightarrow> c < 4294967295 \<longrightarrow> c < c')"
    if "cmap12_ok t fl st" "c < 4294967296" for t fl st c ng
    using that cursor13.char_next_right [of t fl st c ng] by (fastforce simp: next_char_ok_def)
  show "next_char_ok 4294967296 ng (cmap13_map t fl) c (g, c')"
    if "cmap12_ok t fl st" "c < 4294967295" "tt_cmap13_char_next ng st c = Some (g, c', st')"
    for t fl st c g c' st' ng
    using that cursor13.char_next_right [of t fl st c ng] by auto
qed

section \<open>Properties\<close>

text \<open>
  For a table that \<open>validate\<close> accepts (in either \<open>longjmp\<close> semantics), and after any
  sequence of \<open>char_next\<close> calls on the object, \<open>char_index\<close> returns the glyph of its group, one for all the codes of the group, and
  \<open>char_next\<close> the first larger code that has a usable glyph; neither reads outside the table.
\<close>

theorem tt_cmap13_lookup_and_enumeration:
  assumes "length t < 4294967296" "tt_cmap13_validate env t FT_VALIDATE_DEFAULT n None = VRet fl None"
    and "\<forall>c \<in> set cs. c < 4294967296" "c < 4294967295"
  shows "\<exists>st0 st g g' c' st'. tt_cmap13_init t fl = Some st0 \<and>
    run_next tt_cmap13_char_next ng st0 cs = Some st \<and>
    tt_cmap13_char_index ng st c = Some g \<and>
    clip_glyph ng g = clip_glyph ng (cmap13_map t fl c) \<and>
    tt_cmap13_char_next ng st c = Some (g', c', st') \<and>
    next_char_ok 4294967296 ng (cmap13_map t fl) c (g', c')"
  using cmap13.lookup_and_enumeration [OF assms] .

definition table13 :: bytes where
  "table13 = [0, 13, 0, 0, 0, 0, 0, 40, 0, 0, 0, 0, 0, 0, 0, 2, 0, 0, 0, 65, 0, 0, 0, 66, 0, 0, 0, 3,
     0, 1, 0, 0, 0, 1, 0, 2, 0, 0, 0, 5]"

lemma table13_reads:
  "length table13 = 40" "u32 table13 4 = 40" "u32 table13 12 = 2" "u32 table13 16 = 65" "u32 table13 20 = 66" "u32 table13 24 = 3" "u32 table13 28 = 65536" "u32 table13 32 = 65538" "u32 table13 36 = 5"
  by (simp_all add: u8_def u16_def u32_def table13_def nth_append)

lemma table13_accepted:
  "tt_cmap13_validate Freestanding table13 FT_VALIDATE_DEFAULT 10 None = VRet 0 None"
  by (simp add: tt_cmap13_validate_def vdefs peek_defs table13_reads numeral_2_eq_2)

theorem tt_cmap13_lookup_and_enumeration_witness:
  "\<exists>st0 st g g' c' st'. tt_cmap13_init table13 0 = Some st0 \<and>
    run_next tt_cmap13_char_next 10 st0 [64, 65] = Some st \<and>
    tt_cmap13_char_index 10 st 65 = Some g \<and>
    clip_glyph 10 g = clip_glyph 10 (cmap13_map table13 0 65) \<and>
    tt_cmap13_char_next 10 st 65 = Some (g', c', st') \<and>
    next_char_ok 4294967296 10 (cmap13_map table13 0) 65 (g', c')"
  by (rule tt_cmap13_lookup_and_enumeration [OF _ table13_accepted]) (simp_all add: table13_reads)

end
