(* ===== verification/Tt_Bisect.thy ===== *)
theory Tt_Bisect
  imports Tt_Groups
begin

text \<open>
  The bisection loop of the format 14 lookups: \<open>while ( min < max )\<close> over the middle element,
  which a probe compares with what is sought. \<open>FT_UInt32\<close> sums wrap, so that the loop could go
  on for ever with a corrupt count; it is a partial function with \<open>None\<close> for that case and for
  a stray read of the probe. The theorem that it finds the right range is stated over the
  locale of sorted ranges.
\<close>

datatype 'a probe = Go_Left | Go_Right | Hit 'a

partial_function (option) bisect :: "(nat \<Rightarrow> 'a probe option) \<Rightarrow> nat \<Rightarrow> nat \<Rightarrow> 'a option option" where
  "bisect probe mn mx =
     (if mn < mx then do {
        r \<leftarrow> probe (add32 mn mx div 2);
        (case r of
           Go_Left \<Rightarrow> bisect probe mn (add32 mn mx div 2)
         | Go_Right \<Rightarrow> bisect probe (add32 (add32 mn mx div 2) 1) mx
         | Hit x \<Rightarrow> Some (Some x))
      } else Some None)"

context sorted_ranges
begin

lemma bisect_from:
  assumes probe: "\<And>i. i < n \<Longrightarrow>
      probe i = Some (if c < lo i then Go_Left else if hi i < c then Go_Right else Hit (f i))"
    and n: "n \<le> 2147483648" and "mx \<le> n" "\<forall>i < mn. i < n \<longrightarrow> hi i < c" "\<forall>i. mx \<le> i \<and> i < n \<longrightarrow> c < lo i"
  shows "bisect probe mn mx = Some (map_option f (range_of lo hi n c))"
  using assms(3-)
proof (induction "mx - mn" arbitrary: mn mx rule: less_induct)
  case less
  show ?case
  proof (cases "mn < mx")
    case False
    have "range_of lo hi n c = None"
      using False less.prems by (intro range_of_between [of mx]) auto
    then show ?thesis using False by (simp add: bisect.simps)
  next
    case True
    define mid where "mid = (mn + mx) div 2"
    have m: "add32 mn mx div 2 = mid" unfolding mid_def
      using True less.prems n by (subst add32_small) linarith+
    have mid: "mn \<le> mid" "mid < mx" "mid < n" using True less.prems by (auto simp: mid_def)
    have m1: "add32 mid (Suc 0) = Suc mid" using mid n by (subst add32_small) linarith+
    have unf: "bisect probe mn mx =
        (if c < lo mid then bisect probe mn mid
         else if hi mid < c then bisect probe (Suc mid) mx else Some (Some (f mid)))"
      using True by (subst bisect.simps) (simp add: m m1 probe [OF mid(3)])
    consider "c < lo mid" | "hi mid < c" "\<not> c < lo mid" | "lo mid \<le> c" "c \<le> hi mid" by linarith
    then show ?thesis
    proof cases
      case 1
      then have "bisect probe mn mid = Some (map_option f (range_of lo hi n c))"
        using less.prems mid by (intro less.hyps) (auto intro: before_lo)
      then show ?thesis using 1 unf by simp
    next
      case 2
      have "\<forall>i < Suc mid. i < n \<longrightarrow> hi i < c" using search_right [OF 2(1) mid(3)] by simp
      then have "bisect probe (Suc mid) mx = Some (map_option f (range_of lo hi n c))"
        using less.prems mid by (intro less.hyps) auto
      then show ?thesis using 2 unf by simp
    next
      case 3
      then show ?thesis using unf range_of_eq [OF mid(3)] by simp
    qed
  qed
qed

lemma bisect_range_of:
  assumes "\<And>i. i < n \<Longrightarrow>
      probe i = Some (if c < lo i then Go_Left else if hi i < c then Go_Right else Hit (f i))"
    and "n \<le> 2147483648"
  shows "bisect probe 0 n = Some (map_option f (range_of lo hi n c))"
  by (rule bisect_from) (use assms in auto)

end

end
