(* ===== verification/Tt_CMap14.thy ===== *)
theory Tt_CMap14
  imports Tt_Bisect
begin

text \<open>
  Format 14 of \<open>src/sfnt/ttcmap.c\<close>: Unicode variation sequences. From offset 10 on there are
  records of eleven bytes (a variation selector and the offsets of its default and
  non-default tables, 0 when absent). A default table is a list of code point ranges whose
  glyphs are those of the Unicode charmap, a non-default table a list of code points with
  their own glyphs. The queries that return lists write them into the array \<open>results\<close> of the
  object, which \<open>tt_cmap14_ensure\<close> makes large enough.
\<close>

section \<open>The object and its array\<close>

text \<open>
  \<open>results\<close> has \<open>max_results\<close> cells, \<open>None\<close> in one that was never written. \<open>granted n\<close> says
  whether the memory manager can grant \<open>n\<close> bytes.
\<close>

record TT_CMap14 =
  data14 :: bytes
  num_selectors :: nat
  max_results :: nat
  results :: "nat option list"
  memory14 :: bool

definition tt_cmap14_init :: "bytes \<Rightarrow> nat \<Rightarrow> TT_CMap14 option" where
  "tt_cmap14_init table fl = do {
     n \<leftarrow> peek_ulong table 6;
     Some \<lparr>data14 = table, num_selectors = n, max_results = 0, results = [], memory14 = False\<rparr>
   }"

definition tt_cmap14_done :: "TT_CMap14 \<Rightarrow> TT_CMap14" where
  "tt_cmap14_done cmap =
     (let cmap = cmap\<lparr>max_results := 0\<rparr>
      in if memory14 cmap then cmap\<lparr>results := []\<rparr> else cmap)"

definition tt_cmap14_ensure ::
    "(nat \<Rightarrow> bool) \<Rightarrow> TT_CMap14 \<Rightarrow> nat \<Rightarrow> ft_error option \<times> TT_CMap14" where
  "tt_cmap14_ensure granted cmap num_results =
     (let old_max = max_results cmap in
      if num_results > old_max then
        let cmap = cmap\<lparr>memory14 := True\<rparr> in
        if num_results > 2147483647 div 4 then (Some Array_Too_Large, cmap)
        else if \<not> granted (4 * num_results) then (Some Out_Of_Memory, cmap)
        else (None, cmap\<lparr>results := take old_max (results cmap) @ replicate (num_results - old_max) None,
                max_results := num_results\<rparr>)
      else (None, cmap))"

text \<open>\<open>results[i] = v\<close>; \<open>None\<close> when the cell does not exist.\<close>

definition store_result :: "nat option list \<Rightarrow> nat \<Rightarrow> nat \<Rightarrow> nat option list option" where
  "store_result rs i v = (if i < length rs then Some (rs[i := Some v]) else None)"

section \<open>Validation\<close>

fun tt_cmap14_check_ranges :: "setjmp_env \<Rightarrow> bytes \<Rightarrow> nat \<Rightarrow> nat \<Rightarrow> nat \<Rightarrow> unit validator" where
  "tt_cmap14_check_ranges env t defp last_base 0 = vret ()"
| "tt_cmap14_check_ranges env t defp last_base (Suc k) =
     vbind (vload (peek_uoff3 t defp)) (\<lambda>base.
     vbind (vload (peek_byte t (defp + 3))) (\<lambda>cnt.
     vbind (vcheck env (base + cnt \<ge> 1114112) Invalid_Table) (\<lambda>_.
     vbind (vcheck env (base < last_base) Invalid_Table) (\<lambda>_.
     tt_cmap14_check_ranges env t (defp + 4) (base + cnt + 1) k))))"

definition tt_cmap14_check_default :: "setjmp_env \<Rightarrow> bytes \<Rightarrow> nat \<Rightarrow> unit validator" where
  "tt_cmap14_check_default env t def_off =
     (if def_off \<noteq> 0 then
        vbind (vcheck env (def_off + 4 > length t) Invalid_Table) (\<lambda>_.
        vbind (vload (peek_ulong t def_off)) (\<lambda>num_ranges.
        vbind (vcheck env (num_ranges > (length t - (def_off + 4)) div 4) Invalid_Table) (\<lambda>_.
        tt_cmap14_check_ranges env t (def_off + 4) 0 num_ranges)))
      else vret ())"

fun tt_cmap14_check_mappings ::
    "setjmp_env \<Rightarrow> bytes \<Rightarrow> validation_level \<Rightarrow> nat \<Rightarrow> nat \<Rightarrow> nat \<Rightarrow> nat \<Rightarrow> unit validator" where
  "tt_cmap14_check_mappings env t level ng ndp last_uni 0 = vret ()"
| "tt_cmap14_check_mappings env t level ng ndp last_uni (Suc k) =
     vbind (vload (peek_uoff3 t ndp)) (\<lambda>uni.
     vbind (vload (peek_ushort t (ndp + 3))) (\<lambda>gid.
     vbind (vcheck env (uni \<ge> 1114112) Invalid_Table) (\<lambda>_.
     vbind (vcheck env (uni < last_uni) Invalid_Table) (\<lambda>_.
     vbind (vcheck env (at_least_tight level \<and> gid \<ge> ng) Invalid_Glyph_Index) (\<lambda>_.
     tt_cmap14_check_mappings env t level ng (ndp + 5) (uni + 1) k)))))"

definition tt_cmap14_check_nondefault ::
    "setjmp_env \<Rightarrow> bytes \<Rightarrow> validation_level \<Rightarrow> nat \<Rightarrow> nat \<Rightarrow> unit validator" where
  "tt_cmap14_check_nondefault env t level ng nondef_off =
     (if nondef_off \<noteq> 0 then
        vbind (vcheck env (nondef_off + 4 > length t) Invalid_Table) (\<lambda>_.
        vbind (vload (peek_ulong t nondef_off)) (\<lambda>num_mappings.
        vbind (vcheck env (num_mappings > (length t - (nondef_off + 4)) div 5) Invalid_Table) (\<lambda>_.
        tt_cmap14_check_mappings env t level ng (nondef_off + 4) 0 num_mappings)))
      else vret ())"

fun tt_cmap14_check_selectors ::
    "setjmp_env \<Rightarrow> bytes \<Rightarrow> validation_level \<Rightarrow> nat \<Rightarrow> nat \<Rightarrow> nat \<Rightarrow> nat \<Rightarrow> nat \<Rightarrow> unit validator" where
  "tt_cmap14_check_selectors env t level ng len p last_var_sel 0 = vret ()"
| "tt_cmap14_check_selectors env t level ng len p last_var_sel (Suc k) =
     vbind (vload (peek_uoff3 t p)) (\<lambda>var_sel.
     vbind (vload (peek_ulong t (p + 3))) (\<lambda>def_off.
     vbind (vload (peek_ulong t (p + 7))) (\<lambda>nondef_off.
     vbind (vcheck env (def_off \<ge> len \<or> nondef_off \<ge> len) Invalid_Table) (\<lambda>_.
     vbind (vcheck env (var_sel < last_var_sel) Invalid_Table) (\<lambda>_.
     vbind (tt_cmap14_check_default env t def_off) (\<lambda>_.
     vbind (tt_cmap14_check_nondefault env t level ng nondef_off) (\<lambda>_.
     tt_cmap14_check_selectors env t level ng len (p + 11) (var_sel + 1) k)))))))"

definition tt_cmap14_validate ::
    "setjmp_env \<Rightarrow> bytes \<Rightarrow> validation_level \<Rightarrow> nat \<Rightarrow> nat validator" where
  "tt_cmap14_validate env t level num_glyphs =
     vbind (vcheck env (2 + 4 + 4 > length t) Invalid_Table) (\<lambda>_.
     vbind (vload (peek_ulong t 2)) (\<lambda>len.
     vbind (vload (peek_ulong t 6)) (\<lambda>n.
     vbind (vcheck env (len > length t \<or> len < 10 \<or> (len - 10) div 11 < n) Invalid_Table) (\<lambda>_.
     vbind (tt_cmap14_check_selectors env t level num_glyphs len 10 1 n) (\<lambda>_.
     vret 0)))))"

section \<open>Lookup\<close>

definition tt_cmap14_char_index :: "nat \<Rightarrow> TT_CMap14 \<Rightarrow> nat \<Rightarrow> nat option" where
  "tt_cmap14_char_index ng cmap char_code = Some 0"

definition tt_cmap14_char_next :: "nat \<Rightarrow> TT_CMap14 \<Rightarrow> nat \<Rightarrow> (nat \<times> nat \<times> TT_CMap14) option" where
  "tt_cmap14_char_next ng cmap code = Some (0, 0, cmap)"

definition tt_cmap14_get_info :: "TT_CMap14 \<Rightarrow> TT_CMapInfo option" where
  "tt_cmap14_get_info cmap = Some \<lparr>info_format = 14, info_language = 4294967295\<rparr>"

definition tt_cmap14_char_map_def_binary :: "bytes \<Rightarrow> nat \<Rightarrow> nat \<Rightarrow> bool option" where
  "tt_cmap14_char_map_def_binary t base char_code = do {
     num_ranges \<leftarrow> peek_ulong t base;
     found \<leftarrow> bisect (\<lambda>mid. do {
         start \<leftarrow> peek_uoff3 t (base + 4 + mul32 4 mid);
         cnt \<leftarrow> peek_byte t (base + 4 + mul32 4 mid + 3);
         Some (if char_code < start then Go_Left
               else if char_code > start + cnt then Go_Right else Hit ())
       }) 0 num_ranges;
     Some (found \<noteq> None)
   }"

definition tt_cmap14_char_map_nondef_binary :: "bytes \<Rightarrow> nat \<Rightarrow> nat \<Rightarrow> nat option" where
  "tt_cmap14_char_map_nondef_binary t base char_code = do {
     num_mappings \<leftarrow> peek_ulong t base;
     found \<leftarrow> bisect (\<lambda>mid. do {
         uni \<leftarrow> peek_uoff3 t (base + 4 + mul32 5 mid);
         Some (if char_code < uni then Go_Left
               else if char_code > uni then Go_Right else Hit (base + 4 + mul32 5 mid + 3))
       }) 0 num_mappings;
     case found of None \<Rightarrow> Some 0 | Some p \<Rightarrow> peek_ushort t p
   }"

text \<open>The offset behind the selector of the record, or \<open>None\<close> inside for \<open>NULL\<close>.\<close>

definition tt_cmap14_find_variant :: "bytes \<Rightarrow> nat \<Rightarrow> nat \<Rightarrow> nat option option" where
  "tt_cmap14_find_variant t base variant_code = do {
     num_var \<leftarrow> peek_ulong t base;
     bisect (\<lambda>mid. do {
         var_sel \<leftarrow> peek_uoff3 t (base + 4 + mul32 11 mid);
         Some (if variant_code < var_sel then Go_Left
               else if variant_code > var_sel then Go_Right else Hit (base + 4 + mul32 11 mid + 3))
       }) 0 num_var
   }"

text \<open>\<open>uc\<close> is \<open>char_index\<close> of the class of the Unicode charmap \<open>ucmap\<close>.\<close>

definition tt_cmap14_char_var_index :: "TT_CMap14 \<Rightarrow> (nat \<Rightarrow> nat option) \<Rightarrow> nat \<Rightarrow> nat \<Rightarrow> nat option" where
  "tt_cmap14_char_var_index cmap uc charcode variant_selector = do {
     found \<leftarrow> tt_cmap14_find_variant (data14 cmap) 6 variant_selector;
     case found of
       None \<Rightarrow> Some 0
     | Some p \<Rightarrow> do {
         def_off \<leftarrow> peek_ulong (data14 cmap) p;
         nondef_off \<leftarrow> peek_ulong (data14 cmap) (p + 4);
         is_def \<leftarrow> (if def_off \<noteq> 0 then tt_cmap14_char_map_def_binary (data14 cmap) def_off charcode
                    else Some False);
         if is_def then uc charcode
         else if nondef_off \<noteq> 0 then tt_cmap14_char_map_nondef_binary (data14 cmap) nondef_off charcode
         else Some 0
       }
   }"

definition tt_cmap14_char_var_isdefault :: "TT_CMap14 \<Rightarrow> nat \<Rightarrow> nat \<Rightarrow> int option" where
  "tt_cmap14_char_var_isdefault cmap charcode variant_selector = do {
     found \<leftarrow> tt_cmap14_find_variant (data14 cmap) 6 variant_selector;
     case found of
       None \<Rightarrow> Some (- 1)
     | Some p \<Rightarrow> do {
         def_off \<leftarrow> peek_ulong (data14 cmap) p;
         nondef_off \<leftarrow> peek_ulong (data14 cmap) (p + 4);
         is_def \<leftarrow> (if def_off \<noteq> 0 then tt_cmap14_char_map_def_binary (data14 cmap) def_off charcode
                    else Some False);
         if is_def then Some 1
         else do {
           gid \<leftarrow> (if nondef_off \<noteq> 0
                   then tt_cmap14_char_map_nondef_binary (data14 cmap) nondef_off charcode
                   else Some 0);
           Some (if gid \<noteq> 0 then 0 else - 1)
         }
       }
   }"

section \<open>The validated table\<close>

definition vs_sel :: "bytes \<Rightarrow> nat \<Rightarrow> nat \<Rightarrow> nat" where
  "vs_sel t p i = u24 t (p + 11 * i)"

definition vs_def :: "bytes \<Rightarrow> nat \<Rightarrow> nat \<Rightarrow> nat" where
  "vs_def t p i = u32 t (p + 11 * i + 3)"

definition vs_nondef :: "bytes \<Rightarrow> nat \<Rightarrow> nat \<Rightarrow> nat" where
  "vs_nondef t p i = u32 t (p + 11 * i + 7)"

definition dr_lo :: "bytes \<Rightarrow> nat \<Rightarrow> nat \<Rightarrow> nat" where
  "dr_lo t p i = u24 t (p + 4 * i)"

definition dr_hi :: "bytes \<Rightarrow> nat \<Rightarrow> nat \<Rightarrow> nat" where
  "dr_hi t p i = u24 t (p + 4 * i) + u8 t (p + 4 * i + 3)"

definition nd_uni :: "bytes \<Rightarrow> nat \<Rightarrow> nat \<Rightarrow> nat" where
  "nd_uni t p i = u24 t (p + 5 * i)"

definition nd_gid :: "bytes \<Rightarrow> nat \<Rightarrow> nat \<Rightarrow> nat" where
  "nd_gid t p i = u16 t (p + 5 * i + 3)"

definition default_ok :: "bytes \<Rightarrow> nat \<Rightarrow> bool" where
  "default_ok t d \<longleftrightarrow> d = 0 \<or>
     (d + 4 + 4 * u32 t d \<le> length t \<and> sorted_ranges (dr_lo t (d + 4)) (dr_hi t (d + 4)) (u32 t d) \<and>
      (\<forall>i < u32 t d. dr_hi t (d + 4) i < 1114112))"

definition nondefault_ok :: "bytes \<Rightarrow> nat \<Rightarrow> bool" where
  "nondefault_ok t d \<longleftrightarrow> d = 0 \<or>
     (d + 4 + 5 * u32 t d \<le> length t \<and> sorted_ranges (nd_uni t (d + 4)) (nd_uni t (d + 4)) (u32 t d) \<and>
      (\<forall>i < u32 t d. nd_uni t (d + 4) i < 1114112))"

definition selectors_ok :: "bytes \<Rightarrow> nat \<Rightarrow> nat \<Rightarrow> bool" where
  "selectors_ok t p k \<longleftrightarrow> p + 11 * k \<le> length t \<and> sorted_ranges (vs_sel t p) (vs_sel t p) k \<and>
     (\<forall>i < k. default_ok t (vs_def t p i) \<and> nondefault_ok t (vs_nondef t p i))"

definition table14_ok :: "bytes \<Rightarrow> bool" where
  "table14_ok t \<longleftrightarrow> 10 \<le> length t \<and> length t < 4294967296 \<and> selectors_ok t 10 (u32 t 6)"

definition cmap14_ok :: "bytes \<Rightarrow> nat \<Rightarrow> TT_CMap14 \<Rightarrow> bool" where
  "cmap14_ok t fl st \<longleftrightarrow> data14 st = t \<and> num_selectors st = u32 t 6 \<and> table14_ok t \<and>
     length (results st) = max_results st \<and> (memory14 st \<or> results st = [])"

lemma shift14:
  "vs_sel t (p + 11) = (\<lambda>i. vs_sel t p (Suc i))" "vs_def t (p + 11) = (\<lambda>i. vs_def t p (Suc i))"
  "vs_nondef t (p + 11) = (\<lambda>i. vs_nondef t p (Suc i))"
  "dr_lo t (p + 4) = (\<lambda>i. dr_lo t p (Suc i))" "dr_hi t (p + 4) = (\<lambda>i. dr_hi t p (Suc i))"
  "nd_uni t (p + 5) = (\<lambda>i. nd_uni t p (Suc i))" "nd_gid t (p + 5) = (\<lambda>i. nd_gid t p (Suc i))"
  by (simp_all add: fun_eq_iff vs_sel_def vs_def_def vs_nondef_def dr_lo_def dr_hi_def nd_uni_def
      nd_gid_def ac_simps)

lemma dr_le: "dr_lo t p i \<le> dr_hi t p i"
  by (simp add: dr_lo_def dr_hi_def)

section \<open>The validator\<close>

lemma cmap14_ranges_agree:
  "vagree (tt_cmap14_check_ranges Hosted t p b k) (tt_cmap14_check_ranges Freestanding t p b k)"
  by (induction k arbitrary: p b) (auto intro!: agree_intros)

lemma cmap14_mappings_agree:
  "vagree (tt_cmap14_check_mappings Hosted t l g p b k) (tt_cmap14_check_mappings Freestanding t l g p b k)"
  by (induction k arbitrary: p b) (auto intro!: agree_intros)

lemma cmap14_selectors_agree:
  "vagree (tt_cmap14_check_selectors Hosted t l g len p b k)
     (tt_cmap14_check_selectors Freestanding t l g len p b k)"
  by (induction k arbitrary: p b)
    (auto simp: tt_cmap14_check_default_def tt_cmap14_check_nondefault_def
      intro!: agree_intros cmap14_ranges_agree cmap14_mappings_agree)

lemma cmap14_agree: "vagree (tt_cmap14_validate Hosted t l n) (tt_cmap14_validate Freestanding t l n)"
  unfolding tt_cmap14_validate_def by (intro agree_intros cmap14_selectors_agree)

lemma cmap14_ranges_safe:
  assumes "p + 4 * k \<le> length t"
    and "sorted_ranges (dr_lo t p) (dr_hi t p) k \<Longrightarrow> (\<forall>i < k. dr_hi t p i < 1114112) \<Longrightarrow>
      (0 < k \<longrightarrow> b \<le> dr_lo t p 0) \<Longrightarrow> Q () s"
  shows "vwp (tt_cmap14_check_ranges Hosted t p b k) s Q"
  using assms
proof (induction k arbitrary: p b)
  case (Suc k)
  have "vwp (tt_cmap14_check_ranges Hosted t (p + 4) (dr_hi t p 0 + 1) k) s Q"
    if "dr_hi t p 0 < 1114112" "b \<le> dr_lo t p 0"
  proof (rule Suc.IH)
    assume "sorted_ranges (dr_lo t (p + 4)) (dr_hi t (p + 4)) k" "\<forall>i < k. dr_hi t (p + 4) i < 1114112"
      "0 < k \<longrightarrow> dr_hi t p 0 + 1 \<le> dr_lo t (p + 4) 0"
    then show "Q () s" using that
      by (intro Suc.prems(2) sorted_ranges_Suc) (auto simp: less_Suc_eq_0_disj dr_le shift14)
  qed (use Suc.prems(1) in simp)
  then show ?case using Suc.prems(1)
    by (simp add: vsafe_simps dr_lo_def dr_hi_def not_le not_less)
qed (simp add: vsafe_simps)

lemma cmap14_default_safe:
  assumes "default_ok t d \<Longrightarrow> Q () s"
  shows "vwp (tt_cmap14_check_default Hosted t d) s Q"
proof -
  have "d + 4 + 4 * n \<le> length t" if "d + 4 \<le> length t" "n \<le> (length t - (d + 4)) div 4" for n
    using that by linarith
  then show ?thesis using assms
    by (auto simp: tt_cmap14_check_default_def vsafe_simps default_ok_def not_less intro!: cmap14_ranges_safe)
qed

lemma cmap14_mappings_safe:
  assumes "p + 5 * k \<le> length t"
    and "sorted_ranges (nd_uni t p) (nd_uni t p) k \<Longrightarrow> (\<forall>i < k. nd_uni t p i < 1114112) \<Longrightarrow>
      (0 < k \<longrightarrow> b \<le> nd_uni t p 0) \<Longrightarrow> Q () s"
  shows "vwp (tt_cmap14_check_mappings Hosted t l g p b k) s Q"
  using assms
proof (induction k arbitrary: p b)
  case (Suc k)
  have "vwp (tt_cmap14_check_mappings Hosted t l g (p + 5) (nd_uni t p 0 + 1) k) s Q"
    if "nd_uni t p 0 < 1114112" "b \<le> nd_uni t p 0"
  proof (rule Suc.IH)
    assume "sorted_ranges (nd_uni t (p + 5)) (nd_uni t (p + 5)) k" "\<forall>i < k. nd_uni t (p + 5) i < 1114112"
      "0 < k \<longrightarrow> nd_uni t p 0 + 1 \<le> nd_uni t (p + 5) 0"
    then show "Q () s" using that
      by (intro Suc.prems(2) sorted_ranges_Suc) (auto simp: less_Suc_eq_0_disj shift14)
  qed (use Suc.prems(1) in simp)
  then show ?case using Suc.prems(1)
    by (auto simp: vsafe_simps nd_uni_def not_le not_less)
qed (simp add: vsafe_simps)

lemma cmap14_nondefault_safe:
  assumes "nondefault_ok t d \<Longrightarrow> Q () s"
  shows "vwp (tt_cmap14_check_nondefault Hosted t l g d) s Q"
proof -
  have "d + 4 + 5 * n \<le> length t" if "d + 4 \<le> length t" "n \<le> (length t - (d + 4)) div 5" for n
    using that by linarith
  then show ?thesis using assms
    by (auto simp: tt_cmap14_check_nondefault_def vsafe_simps nondefault_ok_def not_less
        intro!: cmap14_mappings_safe)
qed

lemma cmap14_selectors_safe:
  assumes "p + 11 * k \<le> length t"
    and "selectors_ok t p k \<Longrightarrow> (0 < k \<longrightarrow> b \<le> vs_sel t p 0) \<Longrightarrow> Q () s"
  shows "vwp (tt_cmap14_check_selectors Hosted t l g len p b k) s Q"
  using assms
proof (induction k arbitrary: p b)
  case (Suc k)
  have "vwp (tt_cmap14_check_selectors Hosted t l g len (p + 11) (vs_sel t p 0 + 1) k) s Q"
    if "b \<le> vs_sel t p 0" "default_ok t (vs_def t p 0)" "nondefault_ok t (vs_nondef t p 0)"
  proof (rule Suc.IH)
    assume "selectors_ok t (p + 11) k" "0 < k \<longrightarrow> vs_sel t p 0 + 1 \<le> vs_sel t (p + 11) 0"
    then have "selectors_ok t p (Suc k)" using that
      by (auto simp: selectors_ok_def less_Suc_eq_0_disj shift14 intro!: sorted_ranges_Suc)
    then show "Q () s" using that by (intro Suc.prems(2)) simp_all
  qed (use Suc.prems(1) in simp)
  then show ?case using Suc.prems(1)
    by (auto simp: vsafe_simps vs_sel_def vs_def_def vs_nondef_def not_le not_less
        intro!: cmap14_default_safe cmap14_nondefault_safe)
qed (simp add: vsafe_simps selectors_ok_def)

lemma cmap14_safe:
  assumes "length t < 4294967296" and "table14_ok t \<Longrightarrow> Q 0 s"
  shows "vwp (tt_cmap14_validate Hosted t l n) s Q"
proof -
  have "10 + 11 * m \<le> length t" if "len \<le> length t" "10 \<le> len" "m \<le> (len - 10) div 11" for m len
    using that by linarith
  then show ?thesis using assms
    by (auto simp: tt_cmap14_validate_def vsafe_simps not_less table14_ok_def intro!: cmap14_selectors_safe)
qed

section \<open>The lookups\<close>

lemma table14_record:
  assumes "selectors_ok t p k" "i < k"
  shows "peek_uoff3 t (p + 11 * i) = Some (vs_sel t p i)"
    "peek_ulong t (p + 11 * i + 3) = Some (vs_def t p i)"
    "peek_ulong t (p + 11 * i + 7) = Some (vs_nondef t p i)"
proof -
  have "p + 11 * i + 11 \<le> length t" using assms by (simp add: selectors_ok_def)
  then show "peek_uoff3 t (p + 11 * i) = Some (vs_sel t p i)"
    "peek_ulong t (p + 11 * i + 3) = Some (vs_def t p i)"
    "peek_ulong t (p + 11 * i + 7) = Some (vs_nondef t p i)"
    by (simp_all add: vs_sel_def vs_def_def vs_nondef_def)
qed

lemma default_record:
  assumes "default_ok t d" "d \<noteq> 0" "i < u32 t d"
  shows "peek_uoff3 t (d + 4 + 4 * i) = Some (dr_lo t (d + 4) i)"
    "peek_byte t (d + 4 + 4 * i + 3) = Some (dr_hi t (d + 4) i - dr_lo t (d + 4) i)"
proof -
  have "d + 4 + 4 * i + 4 \<le> length t" using assms by (auto simp: default_ok_def)
  then show "peek_uoff3 t (d + 4 + 4 * i) = Some (dr_lo t (d + 4) i)"
    "peek_byte t (d + 4 + 4 * i + 3) = Some (dr_hi t (d + 4) i - dr_lo t (d + 4) i)"
    by (simp_all add: dr_lo_def dr_hi_def)
qed

lemma nondefault_record:
  assumes "nondefault_ok t d" "d \<noteq> 0" "i < u32 t d"
  shows "peek_uoff3 t (d + 4 + 5 * i) = Some (nd_uni t (d + 4) i)"
    "peek_ushort t (d + 4 + 5 * i + 3) = Some (nd_gid t (d + 4) i)"
proof -
  have "d + 4 + 5 * i + 5 \<le> length t" using assms by (auto simp: nondefault_ok_def)
  then show "peek_uoff3 t (d + 4 + 5 * i) = Some (nd_uni t (d + 4) i)"
    "peek_ushort t (d + 4 + 5 * i + 3) = Some (nd_gid t (d + 4) i)"
    by (simp_all add: nd_uni_def nd_gid_def)
qed

text \<open>What a default and a non-default table say about a code, 0 as the offset of an absent one.\<close>

definition in_default :: "bytes \<Rightarrow> nat \<Rightarrow> nat \<Rightarrow> bool" where
  "in_default t d c \<longleftrightarrow> d \<noteq> 0 \<and> range_of (dr_lo t (d + 4)) (dr_hi t (d + 4)) (u32 t d) c \<noteq> None"

definition nondefault_glyph :: "bytes \<Rightarrow> nat \<Rightarrow> nat \<Rightarrow> nat" where
  "nondefault_glyph t d c =
     (if d = 0 then 0 else
      case range_of (nd_uni t (d + 4)) (nd_uni t (d + 4)) (u32 t d) c of
        None \<Rightarrow> 0 | Some i \<Rightarrow> nd_gid t (d + 4) i)"

lemma default_bounds:
  assumes "default_ok t d" "d \<noteq> 0" "length t < 4294967296"
  shows "d + 4 \<le> length t" "4 * u32 t d < 4294967296" "u32 t d \<le> 2147483648"
    "sorted_ranges (dr_lo t (d + 4)) (dr_hi t (d + 4)) (u32 t d)"
  using assms by (auto simp: default_ok_def)

lemma nondefault_bounds:
  assumes "nondefault_ok t d" "d \<noteq> 0" "length t < 4294967296"
  shows "d + 4 \<le> length t" "5 * u32 t d < 4294967296" "u32 t d \<le> 2147483648"
    "sorted_ranges (nd_uni t (d + 4)) (nd_uni t (d + 4)) (u32 t d)"
  using assms by (auto simp: nondefault_ok_def)

lemma def_binary:
  assumes "default_ok t d" "d \<noteq> 0" "length t < 4294967296"
  shows "tt_cmap14_char_map_def_binary t d c = Some (in_default t d c)"
proof -
  note b = default_bounds [OF assms]
  have "bisect (\<lambda>mid. do {
         start \<leftarrow> peek_uoff3 t (d + 4 + mul32 4 mid);
         cnt \<leftarrow> peek_byte t (d + 4 + mul32 4 mid + 3);
         Some (if c < start then Go_Left else if c > start + cnt then Go_Right else Hit ())
       }) 0 (u32 t d) =
     Some (map_option (\<lambda>_. ()) (range_of (dr_lo t (d + 4)) (dr_hi t (d + 4)) (u32 t d) c))"
  proof (rule sorted_ranges.bisect_range_of [OF b(4) _ b(3)])
    fix i assume i: "i < u32 t d"
    have m: "mul32 4 i = 4 * i" using b(2) i by (intro mul32_small) linarith
    have le: "dr_lo t (d + 4) i \<le> dr_hi t (d + 4) i" by (rule sorted_ranges.range [OF b(4) i])
    show "do {
         start \<leftarrow> peek_uoff3 t (d + 4 + mul32 4 i);
         cnt \<leftarrow> peek_byte t (d + 4 + mul32 4 i + 3);
         Some (if c < start then Go_Left else if c > start + cnt then Go_Right else Hit ())
       } = Some (if c < dr_lo t (d + 4) i then Go_Left
                 else if dr_hi t (d + 4) i < c then Go_Right else Hit ())"
      unfolding m default_record [OF assms(1,2) i] using le by simp
  qed
  then show ?thesis using b(1) assms(2) by (simp add: tt_cmap14_char_map_def_binary_def in_default_def)
qed

lemma nondef_binary:
  assumes "nondefault_ok t d" "d \<noteq> 0" "length t < 4294967296"
  shows "tt_cmap14_char_map_nondef_binary t d c = Some (nondefault_glyph t d c)"
proof -
  note b = nondefault_bounds [OF assms]
  have "bisect (\<lambda>mid. do {
         uni \<leftarrow> peek_uoff3 t (d + 4 + mul32 5 mid);
         Some (if c < uni then Go_Left else if c > uni then Go_Right else Hit (d + 4 + mul32 5 mid + 3))
       }) 0 (u32 t d) =
     Some (map_option (\<lambda>i. d + 4 + mul32 5 i + 3) (range_of (nd_uni t (d + 4)) (nd_uni t (d + 4)) (u32 t d) c))"
  proof (rule sorted_ranges.bisect_range_of [OF b(4) _ b(3)])
    fix i assume i: "i < u32 t d"
    have m: "mul32 5 i = 5 * i" using b(2) i by (intro mul32_small) linarith
    show "do {
         uni \<leftarrow> peek_uoff3 t (d + 4 + mul32 5 i);
         Some (if c < uni then Go_Left else if c > uni then Go_Right else Hit (d + 4 + mul32 5 i + 3))
       } = Some (if c < nd_uni t (d + 4) i then Go_Left
                 else if nd_uni t (d + 4) i < c then Go_Right else Hit (d + 4 + mul32 5 i + 3))"
      unfolding m nondefault_record [OF assms(1,2) i] by simp
  qed
  moreover have "peek_ushort t (d + 4 + mul32 5 i + 3) = Some (nd_gid t (d + 4) i)"
    if "range_of (nd_uni t (d + 4)) (nd_uni t (d + 4)) (u32 t d) c = Some i" for i
  proof -
    have i: "i < u32 t d" using range_of_SomeD [OF that] by simp
    have m: "mul32 5 i = 5 * i" using b(2) i by (intro mul32_small) linarith
    show ?thesis unfolding m by (rule nondefault_record [OF assms(1,2) i])
  qed
  ultimately show ?thesis using b(1) assms(2)
    by (auto simp: tt_cmap14_char_map_nondef_binary_def nondefault_glyph_def split: option.splits)
qed

lemma table14_bounds:
  assumes "table14_ok t"
  shows "peek_ulong t 6 = Some (u32 t 6)" "11 * u32 t 6 < 4294967296" "u32 t 6 \<le> 2147483648"
    "sorted_ranges (vs_sel t 10) (vs_sel t 10) (u32 t 6)" "length t < 4294967296"
    "selectors_ok t 10 (u32 t 6)"
  using assms by (auto simp: table14_ok_def selectors_ok_def)

definition selector_of :: "bytes \<Rightarrow> nat \<Rightarrow> nat option" where
  "selector_of t v = range_of (vs_sel t 10) (vs_sel t 10) (u32 t 6) v"

lemma find_variant:
  assumes "table14_ok t"
  shows "tt_cmap14_find_variant t 6 v = Some (map_option (\<lambda>i. 13 + 11 * i) (selector_of t v))"
proof -
  note b = table14_bounds [OF assms]
  have "bisect (\<lambda>mid. do {
         var_sel \<leftarrow> peek_uoff3 t (6 + 4 + mul32 11 mid);
         Some (if v < var_sel then Go_Left
               else if v > var_sel then Go_Right else Hit (6 + 4 + mul32 11 mid + 3))
       }) 0 (u32 t 6) =
     Some (map_option (\<lambda>i. 6 + 4 + mul32 11 i + 3) (selector_of t v))"
    unfolding selector_of_def
  proof (rule sorted_ranges.bisect_range_of [OF b(4) _ b(3)])
    fix i assume i: "i < u32 t 6"
    have m: "mul32 11 i = 11 * i" using b(2) i by (intro mul32_small) linarith
    show "do {
         var_sel \<leftarrow> peek_uoff3 t (6 + 4 + mul32 11 i);
         Some (if v < var_sel then Go_Left else if v > var_sel then Go_Right else Hit (6 + 4 + mul32 11 i + 3))
       } = Some (if v < vs_sel t 10 i then Go_Left
                 else if vs_sel t 10 i < v then Go_Right else Hit (6 + 4 + mul32 11 i + 3))"
      using table14_record(1) [OF b(6) i] by (simp add: m)
  qed
  moreover have "mul32 11 i = 11 * i" if "selector_of t v = Some i" for i
    using range_of_SomeD [OF that [unfolded selector_of_def]] b(2) by (intro mul32_small) linarith
  ultimately show ?thesis using b(1)
    by (cases "selector_of t v") (simp_all add: tt_cmap14_find_variant_def)
qed

lemma selector_tables:
  assumes "table14_ok t" "selector_of t v = Some i"
  shows "peek_ulong t (13 + 11 * i) = Some (vs_def t 10 i)"
    "peek_ulong t (13 + 11 * i + 4) = Some (vs_nondef t 10 i)"
    "default_ok t (vs_def t 10 i)" "nondefault_ok t (vs_nondef t 10 i)" "length t < 4294967296"
proof -
  note b = table14_bounds [OF assms(1)]
  have i: "i < u32 t 6" using range_of_SomeD [OF assms(2) [unfolded selector_of_def]] by simp
  show "peek_ulong t (13 + 11 * i) = Some (vs_def t 10 i)"
    "peek_ulong t (13 + 11 * i + 4) = Some (vs_nondef t 10 i)"
    using table14_record [OF b(6) i] by (simp_all add: ac_simps)
  show "default_ok t (vs_def t 10 i)" "nondefault_ok t (vs_nondef t 10 i)" "length t < 4294967296"
    using b(5,6) i by (auto simp: selectors_ok_def)
qed

lemma char_var_index:
  assumes "cmap14_ok t fl st"
  shows "tt_cmap14_char_var_index st uc c v =
    (case selector_of t v of
       None \<Rightarrow> Some 0
     | Some i \<Rightarrow> if in_default t (vs_def t 10 i) c then uc c
                 else Some (nondefault_glyph t (vs_nondef t 10 i) c))"
proof -
  have t: "table14_ok t" "data14 st = t" using assms by (simp_all add: cmap14_ok_def)
  show ?thesis
  proof (cases "selector_of t v")
    case None
    then show ?thesis using find_variant [OF t(1)] t(2) by (simp add: tt_cmap14_char_var_index_def)
  next
    case (Some i)
    note s = selector_tables [OF t(1) Some]
    have "(if vs_def t 10 i \<noteq> 0 then tt_cmap14_char_map_def_binary t (vs_def t 10 i) c else Some False) =
        Some (in_default t (vs_def t 10 i) c)"
      using def_binary [OF s(3) _ s(5)] by (simp add: in_default_def)
    moreover have "(if vs_nondef t 10 i \<noteq> 0 then tt_cmap14_char_map_nondef_binary t (vs_nondef t 10 i) c
        else Some 0) = Some (nondefault_glyph t (vs_nondef t 10 i) c)"
      using nondef_binary [OF s(4) _ s(5)] by (simp add: nondefault_glyph_def)
    ultimately show ?thesis using find_variant [OF t(1), of v] t(2) Some s(1,2)
      by (simp add: tt_cmap14_char_var_index_def cong: if_cong)
  qed
qed

lemma char_var_isdefault:
  assumes "cmap14_ok t fl st"
  shows "tt_cmap14_char_var_isdefault st c v =
    Some (case selector_of t v of
       None \<Rightarrow> - 1
     | Some i \<Rightarrow> if in_default t (vs_def t 10 i) c then 1
                 else if nondefault_glyph t (vs_nondef t 10 i) c \<noteq> 0 then 0 else - 1)"
proof -
  have t: "table14_ok t" "data14 st = t" using assms by (simp_all add: cmap14_ok_def)
  show ?thesis
  proof (cases "selector_of t v")
    case None
    then show ?thesis using find_variant [OF t(1)] t(2) by (simp add: tt_cmap14_char_var_isdefault_def)
  next
    case (Some i)
    note s = selector_tables [OF t(1) Some]
    have "(if vs_def t 10 i \<noteq> 0 then tt_cmap14_char_map_def_binary t (vs_def t 10 i) c else Some False) =
        Some (in_default t (vs_def t 10 i) c)"
      using def_binary [OF s(3) _ s(5)] by (simp add: in_default_def)
    moreover have "(if vs_nondef t 10 i \<noteq> 0 then tt_cmap14_char_map_nondef_binary t (vs_nondef t 10 i) c
        else Some 0) = Some (nondefault_glyph t (vs_nondef t 10 i) c)"
      using nondef_binary [OF s(4) _ s(5)] by (simp add: nondefault_glyph_def)
    ultimately show ?thesis using find_variant [OF t(1), of v] t(2) Some s(1,2)
      by (simp add: tt_cmap14_char_var_isdefault_def cong: if_cong)
  qed
qed

text \<open>
  The sub-table has no glyphs of its own (\<open>char_index\<close> cannot be called for it): as a class
  it stands for the empty map.
\<close>

definition cmap14_map :: "bytes \<Rightarrow> nat \<Rightarrow> nat \<Rightarrow> nat" where
  "cmap14_map t fl c = 0"

interpretation cmap14: tt_cmap_class tt_cmap14_validate tt_cmap14_init tt_cmap14_char_index
  tt_cmap14_char_next cmap14_ok cmap14_map
proof
  show "vagree (tt_cmap14_validate Hosted t l n) (tt_cmap14_validate Freestanding t l n)" for t l n
    by (rule cmap14_agree)
  show "vwp (tt_cmap14_validate Hosted t FT_VALIDATE_DEFAULT n) None
      (\<lambda>fl s. s = None \<and> (\<exists>st. tt_cmap14_init t fl = Some st \<and> cmap14_ok t fl st))"
    if "length t < 4294967296" for t n
    by (rule cmap14_safe [OF that]) (simp add: tt_cmap14_init_def cmap14_ok_def table14_ok_def)
  show "\<exists>g. tt_cmap14_char_index ng st c = Some g \<and> clip_glyph ng g = clip_glyph ng (cmap14_map t fl c)"
    for t fl st c ng
    by (simp add: tt_cmap14_char_index_def cmap14_map_def)
  show "\<exists>g c' st'. tt_cmap14_char_next ng st c = Some (g, c', st') \<and> cmap14_ok t fl st' \<and>
      c' < 4294967296 \<and> (g \<noteq> 0 \<longrightarrow> c < 4294967295 \<longrightarrow> c < c')"
    if "cmap14_ok t fl st" for t fl st c ng
    using that by (simp add: tt_cmap14_char_next_def)
qed

end
