(* ===== verification/Tt_CMap14_Lists.thy ===== *)
theory Tt_CMap14_Lists
  imports Tt_CMap14
begin

text \<open>
  The queries of format 14 that return lists: all selectors, the selectors of a character, the
  characters of a selector. They write into the array of the object and end it with a 0; the
  last one merges the ranges of the default table with the non-default mappings.
\<close>

section \<open>The queries\<close>

text \<open>
  A query returns whether it returned the array (or \<open>NULL\<close>), and the object. The outer option
  is \<open>None\<close> for a stray read of the table or a write outside the array.
\<close>

fun tt_cmap14_put_selectors :: "bytes \<Rightarrow> nat \<Rightarrow> nat \<Rightarrow> nat \<Rightarrow> nat option list \<Rightarrow> nat option list option" where
  "tt_cmap14_put_selectors t 0 p i rs = store_result rs i 0"
| "tt_cmap14_put_selectors t (Suc k) p i rs = do {
     var_sel \<leftarrow> peek_uoff3 t p;
     rs \<leftarrow> store_result rs i var_sel;
     tt_cmap14_put_selectors t k (p + 3 + 8) (i + 1) rs
   }"

definition tt_cmap14_variants :: "(nat \<Rightarrow> bool) \<Rightarrow> TT_CMap14 \<Rightarrow> (bool \<times> TT_CMap14) option" where
  "tt_cmap14_variants granted cmap =
     (case tt_cmap14_ensure granted cmap (add32 (num_selectors cmap) 1) of
        (Some e, cmap') \<Rightarrow> Some (False, cmap')
      | (None, cmap') \<Rightarrow> do {
          rs \<leftarrow> tt_cmap14_put_selectors (data14 cmap') (num_selectors cmap) 10 0 (results cmap');
          Some (True, cmap'\<lparr>results := rs\<rparr>)
        })"

fun tt_cmap14_put_char_variants ::
    "bytes \<Rightarrow> nat \<Rightarrow> nat \<Rightarrow> nat \<Rightarrow> nat \<Rightarrow> nat option list \<Rightarrow> nat option list option" where
  "tt_cmap14_put_char_variants t char_code 0 p q rs = store_result rs q 0"
| "tt_cmap14_put_char_variants t char_code (Suc k) p q rs = do {
     var_sel \<leftarrow> peek_uoff3 t p;
     def_off \<leftarrow> peek_ulong t (p + 3);
     nondef_off \<leftarrow> peek_ulong t (p + 7);
     is_def \<leftarrow> (if def_off \<noteq> 0 then tt_cmap14_char_map_def_binary t def_off char_code else Some False);
     gid \<leftarrow> (if is_def then Some 1
             else if nondef_off \<noteq> 0 then tt_cmap14_char_map_nondef_binary t nondef_off char_code
             else Some 0);
     if gid \<noteq> 0 then do {
       rs \<leftarrow> store_result rs q var_sel;
       tt_cmap14_put_char_variants t char_code k (p + 11) (q + 1) rs
     } else tt_cmap14_put_char_variants t char_code k (p + 11) q rs
   }"

definition tt_cmap14_char_variants ::
    "(nat \<Rightarrow> bool) \<Rightarrow> TT_CMap14 \<Rightarrow> nat \<Rightarrow> (bool \<times> TT_CMap14) option" where
  "tt_cmap14_char_variants granted cmap char_code =
     (case tt_cmap14_ensure granted cmap (add32 (num_selectors cmap) 1) of
        (Some e, cmap') \<Rightarrow> Some (False, cmap')
      | (None, cmap') \<Rightarrow> do {
          rs \<leftarrow> tt_cmap14_put_char_variants (data14 cmap') char_code (num_selectors cmap) 10 0 (results cmap');
          Some (True, cmap'\<lparr>results := rs\<rparr>)
        })"

fun tt_cmap14_sum_counts :: "bytes \<Rightarrow> nat \<Rightarrow> nat \<Rightarrow> nat \<Rightarrow> nat option" where
  "tt_cmap14_sum_counts t 0 p tot = Some tot"
| "tt_cmap14_sum_counts t (Suc k) p tot = do {
     c \<leftarrow> peek_byte t p;
     tt_cmap14_sum_counts t k (p + 4) (add32 tot (1 + c))
   }"

definition tt_cmap14_def_char_count :: "bytes \<Rightarrow> nat \<Rightarrow> nat option" where
  "tt_cmap14_def_char_count t p = do {
     num_ranges \<leftarrow> peek_ulong t p;
     tt_cmap14_sum_counts t num_ranges (p + 4 + 3) 0
   }"

text \<open>\<open>n\<close> consecutive codes from \<open>uni\<close> on; the new write position is returned as well.\<close>

fun tt_cmap14_put_range ::
    "nat option list \<Rightarrow> nat \<Rightarrow> nat \<Rightarrow> nat \<Rightarrow> (nat option list \<times> nat) option" where
  "tt_cmap14_put_range rs q uni 0 = Some (rs, q)"
| "tt_cmap14_put_range rs q uni (Suc n) = do {
     rs \<leftarrow> store_result rs q uni;
     tt_cmap14_put_range rs (q + 1) (add32 uni 1) n
   }"

fun tt_cmap14_put_ranges ::
    "bytes \<Rightarrow> nat \<Rightarrow> nat \<Rightarrow> nat option list \<Rightarrow> nat \<Rightarrow> (nat option list \<times> nat) option" where
  "tt_cmap14_put_ranges t 0 p rs q = Some (rs, q)"
| "tt_cmap14_put_ranges t (Suc k) p rs q = do {
     uni \<leftarrow> peek_uoff3 t p;
     cnt \<leftarrow> peek_byte t (p + 3);
     (rs, q) \<leftarrow> tt_cmap14_put_range rs q uni (cnt + 1);
     tt_cmap14_put_ranges t k (p + 4) rs q
   }"

definition tt_cmap14_get_def_chars ::
    "(nat \<Rightarrow> bool) \<Rightarrow> TT_CMap14 \<Rightarrow> nat \<Rightarrow> (bool \<times> TT_CMap14) option" where
  "tt_cmap14_get_def_chars granted cmap p = do {
     cnt \<leftarrow> tt_cmap14_def_char_count (data14 cmap) p;
     num_ranges \<leftarrow> peek_ulong (data14 cmap) p;
     (case tt_cmap14_ensure granted cmap (add32 cnt 1) of
        (Some e, cmap') \<Rightarrow> Some (False, cmap')
      | (None, cmap') \<Rightarrow> do {
          (rs, q) \<leftarrow> tt_cmap14_put_ranges (data14 cmap') num_ranges (p + 4) (results cmap') 0;
          rs \<leftarrow> store_result rs q 0;
          Some (True, cmap'\<lparr>results := rs\<rparr>)
        })
   }"

fun tt_cmap14_put_mappings ::
    "bytes \<Rightarrow> nat \<Rightarrow> nat \<Rightarrow> nat option list \<Rightarrow> nat \<Rightarrow> (nat option list \<times> nat) option" where
  "tt_cmap14_put_mappings t 0 p rs i = Some (rs, i)"
| "tt_cmap14_put_mappings t (Suc k) p rs i = do {
     uni \<leftarrow> peek_uoff3 t p;
     rs \<leftarrow> store_result rs i uni;
     tt_cmap14_put_mappings t k (p + 5) rs (i + 1)
   }"

definition tt_cmap14_get_nondef_chars ::
    "(nat \<Rightarrow> bool) \<Rightarrow> TT_CMap14 \<Rightarrow> nat \<Rightarrow> (bool \<times> TT_CMap14) option" where
  "tt_cmap14_get_nondef_chars granted cmap p = do {
     num_mappings \<leftarrow> peek_ulong (data14 cmap) p;
     (case tt_cmap14_ensure granted cmap (add32 num_mappings 1) of
        (Some e, cmap') \<Rightarrow> Some (False, cmap')
      | (None, cmap') \<Rightarrow> do {
          (rs, i) \<leftarrow> tt_cmap14_put_mappings (data14 cmap') num_mappings (p + 4) (results cmap') 0;
          rs \<leftarrow> store_result rs i 0;
          Some (True, cmap'\<lparr>results := rs\<rparr>)
        })
   }"

text \<open>
  The locals of the merge loop of \<open>tt_cmap14_variant_chars\<close>: \<open>ret\<close> and \<open>i\<close>, the read
  positions \<open>dp\<close> and \<open>p\<close>, the 1-based numbers \<open>di\<close> and \<open>ni\<close> of the range and the mapping
  held in \<open>duni\<close>, \<open>dcnt\<close> and \<open>nuni\<close>.
\<close>

record merge14 =
  m_ret :: "nat option list"
  m_i :: nat
  m_dp :: nat
  m_p :: nat
  m_di :: nat
  m_ni :: nat
  m_duni :: nat
  m_dcnt :: nat
  m_nuni :: nat

partial_function (option) tt_cmap14_merge :: "bytes \<Rightarrow> nat \<Rightarrow> nat \<Rightarrow> merge14 \<Rightarrow> merge14 option" where
  "tt_cmap14_merge t num_ranges num_mappings m =
     (if m_nuni m > m_duni m + m_dcnt m then do {
        (rs, i) \<leftarrow> tt_cmap14_put_range (m_ret m) (m_i m) (m_duni m) (m_dcnt m + 1);
        let m = m\<lparr>m_ret := rs, m_i := i, m_di := m_di m + 1\<rparr>;
        if m_di m > num_ranges then Some m
        else do {
          duni \<leftarrow> peek_uoff3 t (m_dp m);
          dcnt \<leftarrow> peek_byte t (m_dp m + 3);
          tt_cmap14_merge t num_ranges num_mappings
            (m\<lparr>m_duni := duni, m_dcnt := dcnt, m_dp := m_dp m + 4\<rparr>)
        }
      } else do {
        m \<leftarrow> (if m_nuni m < m_duni m then do {
                rs \<leftarrow> store_result (m_ret m) (m_i m) (m_nuni m);
                Some (m\<lparr>m_ret := rs, m_i := m_i m + 1\<rparr>)
              } else Some m);
        let m = m\<lparr>m_ni := m_ni m + 1\<rparr>;
        if m_ni m > num_mappings then Some m
        else do {
          nuni \<leftarrow> peek_uoff3 t (m_p m);
          tt_cmap14_merge t num_ranges num_mappings (m\<lparr>m_nuni := nuni, m_p := m_p m + 5\<rparr>)
        }
      })"

text \<open>What comes after the merge loop: the rest of one table and the closing 0.\<close>

definition tt_cmap14_merge_rest :: "bytes \<Rightarrow> nat \<Rightarrow> nat \<Rightarrow> merge14 \<Rightarrow> nat option list option" where
  "tt_cmap14_merge_rest t num_ranges num_mappings m =
     (if m_ni m \<le> num_mappings then do {
        rs \<leftarrow> store_result (m_ret m) (m_i m) (m_nuni m);
        (rs, i) \<leftarrow> tt_cmap14_put_mappings t (num_mappings - m_ni m) (m_p m) rs (m_i m + 1);
        store_result rs i 0
      } else if m_di m \<le> num_ranges then do {
        (rs, i) \<leftarrow> tt_cmap14_put_range (m_ret m) (m_i m) (m_duni m) (m_dcnt m + 1);
        (rs, i) \<leftarrow> tt_cmap14_put_ranges t (num_ranges - m_di m) (m_dp m) rs i;
        store_result rs i 0
      } else store_result (m_ret m) (m_i m) 0)"

text \<open>The branch of \<open>tt_cmap14_variant_chars\<close> for a selector with both tables.\<close>

definition tt_cmap14_merge_chars ::
    "(nat \<Rightarrow> bool) \<Rightarrow> TT_CMap14 \<Rightarrow> nat \<Rightarrow> nat \<Rightarrow> (bool \<times> TT_CMap14) option" where
  "tt_cmap14_merge_chars granted cmap def_off nondef_off = do {
     num_mappings \<leftarrow> peek_ulong (data14 cmap) nondef_off;
     dcnt \<leftarrow> tt_cmap14_def_char_count (data14 cmap) def_off;
     num_ranges \<leftarrow> peek_ulong (data14 cmap) def_off;
     if num_mappings = 0 then tt_cmap14_get_def_chars granted cmap def_off
     else if dcnt = 0 then tt_cmap14_get_nondef_chars granted cmap nondef_off
     else (case tt_cmap14_ensure granted cmap (add32 (add32 dcnt num_mappings) 1) of
        (Some e, cmap') \<Rightarrow> Some (False, cmap')
      | (None, cmap') \<Rightarrow> do {
          duni \<leftarrow> peek_uoff3 (data14 cmap') (def_off + 4);
          dcnt \<leftarrow> peek_byte (data14 cmap') (def_off + 7);
          nuni \<leftarrow> peek_uoff3 (data14 cmap') (nondef_off + 4);
          m \<leftarrow> tt_cmap14_merge (data14 cmap') num_ranges num_mappings
                 \<lparr>m_ret = results cmap', m_i = 0, m_dp = def_off + 8, m_p = nondef_off + 9,
                  m_di = 1, m_ni = 1, m_duni = duni, m_dcnt = dcnt, m_nuni = nuni\<rparr>;
          rs \<leftarrow> tt_cmap14_merge_rest (data14 cmap') num_ranges num_mappings m;
          Some (True, cmap'\<lparr>results := rs\<rparr>)
        })
   }"

definition tt_cmap14_variant_chars ::
    "(nat \<Rightarrow> bool) \<Rightarrow> TT_CMap14 \<Rightarrow> nat \<Rightarrow> (bool \<times> TT_CMap14) option" where
  "tt_cmap14_variant_chars granted cmap variant_selector = do {
     found \<leftarrow> tt_cmap14_find_variant (data14 cmap) 6 variant_selector;
     case found of
       None \<Rightarrow> Some (False, cmap)
     | Some p \<Rightarrow> do {
         def_off \<leftarrow> peek_ulong (data14 cmap) p;
         nondef_off \<leftarrow> peek_ulong (data14 cmap) (p + 4);
         if def_off = 0 \<and> nondef_off = 0 then Some (False, cmap)
         else if def_off = 0 then tt_cmap14_get_nondef_chars granted cmap nondef_off
         else if nondef_off = 0 then tt_cmap14_get_def_chars granted cmap def_off
         else tt_cmap14_merge_chars granted cmap def_off nondef_off
       }
   }"

section \<open>Filling the array\<close>

text \<open>\<open>fill rs xs\<close>: the cells of \<open>rs\<close> with \<open>xs\<close> written over the first ones.\<close>

definition fill :: "nat option list \<Rightarrow> nat list \<Rightarrow> nat option list" where
  "fill rs xs = map Some xs @ drop (length xs) rs"

lemma fill_Nil [simp]: "fill rs [] = rs"
  by (simp add: fill_def)

lemma length_fill [simp]: "length xs \<le> length rs \<Longrightarrow> length (fill rs xs) = length rs"
  by (simp add: fill_def)

lemma store_fill:
  assumes "length xs < length rs"
  shows "store_result (fill rs xs) (length xs) v = Some (fill rs (xs @ [v]))"
proof -
  have "drop (length xs) rs = rs ! length xs # drop (Suc (length xs)) rs"
    using assms by (simp add: Cons_nth_drop_Suc)
  then show ?thesis using assms by (simp add: store_result_def fill_def list_update_append)
qed

lemma put_range_fill:
  assumes "length xs + n \<le> length rs" "uni + n < 4294967296"
  shows "tt_cmap14_put_range (fill rs xs) (length xs) uni n =
    Some (fill rs (xs @ [uni..<uni + n]), length xs + n)"
  using assms
proof (induction n arbitrary: xs uni)
  case (Suc n)
  have a: "add32 uni (Suc 0) = Suc uni" using Suc.prems by (simp add: add32_small)
  have "tt_cmap14_put_range (fill rs (xs @ [uni])) (length (xs @ [uni])) (Suc uni) n =
      Some (fill rs ((xs @ [uni]) @ [Suc uni..<Suc uni + n]), length (xs @ [uni]) + n)"
    using Suc.prems by (intro Suc.IH) auto
  moreover have "[uni..<uni + Suc n] = uni # [Suc uni..<Suc uni + n]" by (simp add: upt_rec)
  ultimately show ?case using Suc.prems by (simp add: store_fill a)
qed simp

text \<open>The lists the tables stand for.\<close>

definition range_list :: "nat \<times> nat \<Rightarrow> nat list" where
  "range_list = (\<lambda>(a, b). [a..<Suc b])"

definition dranges :: "bytes \<Rightarrow> nat \<Rightarrow> nat \<Rightarrow> (nat \<times> nat) list" where
  "dranges t d j = map (\<lambda>i. (dr_lo t (d + 4) i, dr_hi t (d + 4) i)) [j..<u32 t d]"

definition nunis :: "bytes \<Rightarrow> nat \<Rightarrow> nat \<Rightarrow> nat list" where
  "nunis t d j = map (nd_uni t (d + 4)) [j..<u32 t d]"

lemma dranges_step: "j < u32 t d \<Longrightarrow>
    dranges t d j = (dr_lo t (d + 4) j, dr_hi t (d + 4) j) # dranges t d (Suc j)"
  by (simp add: dranges_def upt_conv_Cons)

lemma nunis_step: "j < u32 t d \<Longrightarrow> nunis t d j = nd_uni t (d + 4) j # nunis t d (Suc j)"
  by (simp add: nunis_def upt_conv_Cons)

lemma put_one_range:
  assumes "lo \<le> hi" "hi < 4294967295" "length xs + length (range_list (lo, hi)) \<le> length rs"
  shows "tt_cmap14_put_range (fill rs xs) (length xs) lo (hi - lo + 1) =
    Some (fill rs (xs @ range_list (lo, hi)), length (xs @ range_list (lo, hi)))"
proof -
  have "lo + (hi - lo + 1) = Suc hi" using assms(1) by simp
  then show ?thesis using put_range_fill [of xs "hi - lo + 1" rs lo] assms
    by (simp add: range_list_def Suc_diff_le del: upt_Suc tt_cmap14_put_range.simps)
qed

lemma dr_bounds:
  assumes "default_ok t d" "d \<noteq> 0" "j < u32 t d"
  shows "dr_hi t (d + 4) j < 4294967295"
  using assms by (auto simp: default_ok_def intro: less_trans)

lemma put_ranges_fill:
  assumes ok: "default_ok t d" "d \<noteq> 0" and "j + k = u32 t d"
    and "length xs + length (concat (map range_list (dranges t d j))) \<le> length rs"
  shows "tt_cmap14_put_ranges t k (d + 4 + 4 * j) (fill rs xs) (length xs) =
    Some (fill rs (xs @ concat (map range_list (dranges t d j))),
          length (xs @ concat (map range_list (dranges t d j))))"
  using assms(3-)
proof (induction k arbitrary: j xs)
  case 0
  then show ?case by (simp add: dranges_def)
next
  case (Suc k)
  have j: "j < u32 t d" using Suc.prems(1) by simp
  let ?lo = "dr_lo t (d + 4) j" and ?hi = "dr_hi t (d + 4) j"
  let ?R = "range_list (?lo, ?hi)" and ?L = "concat (map range_list (dranges t d (Suc j)))"
  have s: "concat (map range_list (dranges t d j)) = ?R @ ?L" by (simp add: dranges_step [OF j])
  have r: "tt_cmap14_put_range (fill rs xs) (length xs) ?lo (?hi - ?lo + 1) =
      Some (fill rs (xs @ ?R), length (xs @ ?R))"
    using Suc.prems(2) dr_bounds [OF ok j] unfolding s by (intro put_one_range) (auto simp: dr_le)
  have IH: "tt_cmap14_put_ranges t k (d + 4 + 4 * Suc j) (fill rs (xs @ ?R)) (length (xs @ ?R)) =
      Some (fill rs ((xs @ ?R) @ ?L), length ((xs @ ?R) @ ?L))"
    using Suc.prems unfolding s by (intro Suc.IH) simp_all
  have p: "d + 4 + 4 * j + 4 = d + 4 + 4 * Suc j" by simp
  show ?case
    unfolding tt_cmap14_put_ranges.simps default_record [OF ok j] p bind.bind_lunit r prod.case IH s by simp
qed

lemma put_mappings_fill:
  assumes ok: "nondefault_ok t d" "d \<noteq> 0" and "j + k = u32 t d"
    and "length xs + k \<le> length rs"
  shows "tt_cmap14_put_mappings t k (d + 4 + 5 * j) (fill rs xs) (length xs) =
    Some (fill rs (xs @ nunis t d j), length xs + k)"
  using assms(3-)
proof (induction k arbitrary: j xs)
  case 0
  then show ?case by (simp add: nunis_def)
next
  case (Suc k)
  have j: "j < u32 t d" using Suc.prems(1) by simp
  have IH: "tt_cmap14_put_mappings t k (d + 4 + 5 * Suc j) (fill rs (xs @ [nd_uni t (d + 4) j]))
      (length (xs @ [nd_uni t (d + 4) j])) =
      Some (fill rs ((xs @ [nd_uni t (d + 4) j]) @ nunis t d (Suc j)), length (xs @ [nd_uni t (d + 4) j]) + k)"
    using Suc.prems by (intro Suc.IH) simp_all
  have p: "d + 4 + 5 * j + 5 = d + 4 + 5 * Suc j" by simp
  have st: "store_result (fill rs xs) (length xs) (nd_uni t (d + 4) j) =
      Some (fill rs (xs @ [nd_uni t (d + 4) j]))" using Suc.prems by (intro store_fill) simp
  show ?case
    unfolding tt_cmap14_put_mappings.simps nondefault_record [OF ok j] p
    using IH by (simp add: st nunis_step [OF j])
qed

section \<open>The merge\<close>

text \<open>The merge over lists of ranges and of single codes.\<close>

fun merge_chars :: "(nat \<times> nat) list \<Rightarrow> nat list \<Rightarrow> nat list" where
  "merge_chars [] ns = ns"
| "merge_chars (r # rs) [] = concat (map range_list (r # rs))"
| "merge_chars ((a, b) # rs) (n # ns) =
     (if b < n then range_list (a, b) @ merge_chars rs (n # ns)
      else if n < a then n # merge_chars ((a, b) # rs) ns
      else merge_chars ((a, b) # rs) ns)"

lemma set_range_list [simp]: "set (range_list r) = {fst r..snd r}"
  by (cases r) (auto simp: range_list_def)

lemma set_merge_chars: "set (merge_chars rs ns) = (\<Union>r\<in>set rs. {fst r..snd r}) \<union> set ns"
  by (induction rs ns rule: merge_chars.induct) (auto simp del: upt_Suc)

lemma sorted_range_list: "sorted_wrt (<) (range_list r)"
  by (simp add: range_list_def split: prod.splits del: upt_Suc)

lemma sorted_concat_ranges:
  "sorted_wrt (\<lambda>r r'. snd r < fst r') rs \<Longrightarrow> sorted_wrt (<) (concat (map range_list rs))"
  by (induction rs) (auto simp: sorted_wrt_append sorted_range_list intro: le_less_trans less_le_trans)

lemma sorted_merge_chars:
  assumes "sorted_wrt (\<lambda>r r'. snd r < fst r') rs" "\<forall>r \<in> set rs. fst r \<le> snd r" "sorted_wrt (<) ns"
  shows "sorted_wrt (<) (merge_chars rs ns)"
  using assms
proof (induction rs ns rule: merge_chars.induct)
  case (2 r rs)
  then show ?case using sorted_concat_ranges [of "r # rs"] by simp
next
  case (3 a b rs n ns)
  then show ?case
    by (auto simp: sorted_wrt_append sorted_range_list set_merge_chars
        intro: le_less_trans less_le_trans)
qed simp

lemma length_merge_chars:
  "length (merge_chars rs ns) \<le> length (concat (map range_list rs)) + length ns"
  by (induction rs ns rule: merge_chars.induct) auto

declare tt_cmap14_put_range.simps [simp del] tt_cmap14_put_ranges.simps [simp del]
  tt_cmap14_put_mappings.simps [simp del]

text \<open>The loop with what comes after it writes what \<open>merge_chars\<close> says.\<close>

lemma merge_step:
  assumes ok: "default_ok t d" "d \<noteq> 0" "nondefault_ok t e" "e \<noteq> 0"
    and "j < u32 t d" "l < u32 t e"
    and "length xs + length (merge_chars (dranges t d j) (nunis t e l)) < length rs"
  shows "do {
      m \<leftarrow> tt_cmap14_merge t (u32 t d) (u32 t e)
        \<lparr>m_ret = fill rs xs, m_i = length xs, m_dp = d + 4 + 4 * Suc j, m_p = e + 4 + 5 * Suc l,
         m_di = Suc j, m_ni = Suc l, m_duni = dr_lo t (d + 4) j,
         m_dcnt = dr_hi t (d + 4) j - dr_lo t (d + 4) j, m_nuni = nd_uni t (e + 4) l\<rparr>;
      tt_cmap14_merge_rest t (u32 t d) (u32 t e) m
    } = Some (fill rs (xs @ merge_chars (dranges t d j) (nunis t e l) @ [0]))"
  using assms(5-)
proof (induction "(u32 t d - j) + (u32 t e - l)" arbitrary: j l xs rule: less_induct)
  case less
  let ?lo = "dr_lo t (d + 4) j" and ?hi = "dr_hi t (d + 4) j" and ?n = "nd_uni t (e + 4) l"
  let ?R = "range_list (?lo, ?hi)" and ?D = "dranges t d (Suc j)" and ?N = "nunis t e (Suc l)"
  note j = less.prems(1) and l = less.prems(2)
  have ds: "dranges t d j = (?lo, ?hi) # ?D" by (rule dranges_step [OF j])
  have ns: "nunis t e l = ?n # ?N" by (rule nunis_step [OF l])
  have hi: "?lo + (?hi - ?lo) = ?hi" using dr_le [of t "d + 4" j] by simp
  have pN: "tt_cmap14_put_mappings t (u32 t e - Suc l) (e + 4 + 5 * Suc l) (fill rs ys) (length ys) =
      Some (fill rs (ys @ ?N), length (ys @ ?N))" if "length ys + length ?N \<le> length rs" for ys
    using put_mappings_fill [OF ok(3,4), of "Suc l" "u32 t e - Suc l" ys rs] that l by (simp add: nunis_def)
  have pD: "tt_cmap14_put_ranges t (u32 t d - Suc j) (d + 4 + 4 * Suc j) (fill rs ys) (length ys) =
      Some (fill rs (ys @ concat (map range_list ?D)), length (ys @ concat (map range_list ?D)))"
    if "length ys + length (concat (map range_list ?D)) \<le> length rs" for ys
    using put_ranges_fill [OF ok(1,2), of "Suc j" "u32 t d - Suc j" ys rs] that j by simp
  let ?M = "\<lambda>j l xs. tt_cmap14_merge t (u32 t d) (u32 t e)
        \<lparr>m_ret = fill rs xs, m_i = length xs, m_dp = d + 4 + 4 * Suc j, m_p = e + 4 + 5 * Suc l,
         m_di = Suc j, m_ni = Suc l, m_duni = dr_lo t (d + 4) j,
         m_dcnt = dr_hi t (d + 4) j - dr_lo t (d + 4) j, m_nuni = nd_uni t (e + 4) l\<rparr>"
  let ?rest = "tt_cmap14_merge_rest t (u32 t d) (u32 t e)"
  let ?fin = "\<lambda>j l xs. \<lparr>m_ret = fill rs xs, m_i = length xs, m_dp = d + 4 + 4 * Suc j,
      m_p = e + 4 + 5 * Suc l, m_di = Suc j, m_ni = Suc (Suc l), m_duni = ?lo, m_dcnt = ?hi - ?lo, m_nuni = ?n\<rparr>"
  have last_ranges: "?rest (?fin j l ys) = Some (fill rs (ys @ concat (map range_list (dranges t d j)) @ [0]))"
    if "\<not> Suc l < u32 t e" "length ys + length (concat (map range_list (dranges t d j))) < length rs" for ys
  proof -
    let ?L = "concat (map range_list ?D)"
    have c: "concat (map range_list (dranges t d j)) = ?R @ ?L" by (simp add: ds)
    have r: "tt_cmap14_put_range (fill rs ys) (length ys) ?lo (Suc (?hi - ?lo)) =
        Some (fill rs (ys @ ?R), length (ys @ ?R))"
      using put_one_range [OF dr_le dr_bounds [OF ok(1,2) j], of ys rs] that(2) c by simp
    have "store_result (fill rs (ys @ ?R @ ?L)) (length (ys @ ?R @ ?L)) 0 = Some (fill rs ((ys @ ?R @ ?L) @ [0]))"
      using that(2) c by (intro store_fill) simp
    moreover have "length (ys @ ?R) + length ?L \<le> length rs" using that(2) c by simp
    ultimately show ?thesis using that(1) j l r pD [of "ys @ ?R"] c
      by (simp add: tt_cmap14_merge_rest_def del: concat.simps)
  qed
  consider (rng) "?hi < ?n" | (low) "\<not> ?hi < ?n" "?n < ?lo" | (ins) "\<not> ?hi < ?n" "\<not> ?n < ?lo" by blast
  then show ?case
  proof cases
    case rng
    have mc: "merge_chars (dranges t d j) (nunis t e l) = ?R @ merge_chars ?D (nunis t e l)"
      using rng by (simp add: ds ns)
    have cap: "length xs + length ?R + length (merge_chars ?D (nunis t e l)) < length rs"
      using less.prems(3) unfolding mc by simp
    have r: "tt_cmap14_put_range (fill rs xs) (length xs) ?lo (Suc (?hi - ?lo)) =
        Some (fill rs (xs @ ?R), length (xs @ ?R))"
      using put_one_range [OF dr_le dr_bounds [OF ok(1,2) j], of xs rs] cap by simp
    show ?thesis
    proof (cases "Suc j < u32 t d")
      case True
      note rd = default_record [OF ok(1,2) True]
      have "?M j l xs = ?M (Suc j) l (xs @ ?R)"
        using rng True hi r rd [simplified] by (subst tt_cmap14_merge.simps) simp
      moreover have "do { m \<leftarrow> ?M (Suc j) l (xs @ ?R); ?rest m } =
          Some (fill rs ((xs @ ?R) @ merge_chars ?D (nunis t e l) @ [0]))"
        using True l cap j by (intro less.hyps) simp_all
      ultimately show ?thesis using mc by simp
    next
      case False
      then have D: "?D = []" by (simp add: dranges_def)
      have "?M j l xs = Some \<lparr>m_ret = fill rs (xs @ ?R), m_i = length (xs @ ?R), m_dp = d + 4 + 4 * Suc j,
          m_p = e + 4 + 5 * Suc l, m_di = Suc (Suc j), m_ni = Suc l, m_duni = ?lo, m_dcnt = ?hi - ?lo,
          m_nuni = ?n\<rparr>"
        using rng False hi r j by (subst tt_cmap14_merge.simps) simp
      moreover have "length (xs @ ?R @ [?n]) + length ?N < length rs"
        using cap unfolding D ns by simp
      moreover from this have "store_result (fill rs (xs @ ?R)) (length (xs @ ?R)) ?n = Some (fill rs ((xs @ ?R) @ [?n]))"
        by (intro store_fill) simp
      moreover have "store_result (fill rs (xs @ ?R @ ?n # ?N)) (length (xs @ ?R @ ?n # ?N)) 0 =
          Some (fill rs ((xs @ ?R @ ?n # ?N) @ [0]))"
        using cap unfolding D ns by (intro store_fill) simp
      ultimately show ?thesis using l pN [of "xs @ ?R @ [?n]"] mc D
        by (simp add: tt_cmap14_merge_rest_def ns)
    qed
  next
    case low
    have mc: "merge_chars (dranges t d j) (nunis t e l) = ?n # merge_chars (dranges t d j) ?N"
      using low by (simp add: ds ns)
    have cap: "length (xs @ [?n]) + length (merge_chars (dranges t d j) ?N) < length rs"
      using less.prems(3) unfolding mc by simp
    then have w: "store_result (fill rs xs) (length xs) ?n = Some (fill rs (xs @ [?n]))"
      by (intro store_fill) simp
    show ?thesis
    proof (cases "Suc l < u32 t e")
      case True
      note rd = nondefault_record [OF ok(3,4) True]
      have "?M j l xs = ?M j (Suc l) (xs @ [?n])"
        using low True hi w rd [simplified] by (subst tt_cmap14_merge.simps) simp
      moreover have "do { m \<leftarrow> ?M j (Suc l) (xs @ [?n]); ?rest m } =
          Some (fill rs ((xs @ [?n]) @ merge_chars (dranges t d j) ?N @ [0]))"
        using True j cap l by (intro less.hyps) simp_all
      ultimately show ?thesis using mc by simp
    next
      case False
      then have "?N = []" by (simp add: nunis_def)
      moreover have "?M j l xs = Some (?fin j l (xs @ [?n]))"
        using low False hi w l by (subst tt_cmap14_merge.simps) simp
      ultimately show ?thesis using last_ranges [of "xs @ [?n]"] False l cap mc ds
        by (simp del: list.map concat.simps)
    qed
  next
    case ins
    have mc: "merge_chars (dranges t d j) (nunis t e l) = merge_chars (dranges t d j) ?N"
      using ins by (simp add: ds ns)
    show ?thesis
    proof (cases "Suc l < u32 t e")
      case True
      note rd = nondefault_record [OF ok(3,4) True]
      have "?M j l xs = ?M j (Suc l) xs"
        using ins True hi rd [simplified] by (subst tt_cmap14_merge.simps) simp
      moreover have "do { m \<leftarrow> ?M j (Suc l) xs; ?rest m } =
          Some (fill rs (xs @ merge_chars (dranges t d j) ?N @ [0]))"
        using True j less.prems(3) mc l by (intro less.hyps) simp_all
      ultimately show ?thesis using mc by simp
    next
      case False
      then have "?N = []" by (simp add: nunis_def)
      moreover have "?M j l xs = Some (?fin j l xs)"
        using ins False hi l by (subst tt_cmap14_merge.simps) simp
      ultimately show ?thesis using last_ranges [of xs] False l less.prems(3) mc ds
        by (simp del: list.map concat.simps)
    qed
  qed
qed

section \<open>The lists and their lengths\<close>

definition default_chars :: "bytes \<Rightarrow> nat \<Rightarrow> nat list" where
  "default_chars t d = (if d = 0 then [] else concat (map range_list (dranges t d 0)))"

definition nondefault_chars :: "bytes \<Rightarrow> nat \<Rightarrow> nat list" where
  "nondefault_chars t d = (if d = 0 then [] else nunis t d 0)"

lemma sorted_dranges:
  assumes "default_ok t d" "d \<noteq> 0"
  shows "sorted_wrt (\<lambda>r r'. snd r < fst r') (dranges t d 0)" "\<forall>r \<in> set (dranges t d 0). fst r \<le> snd r"
proof -
  have "sorted_ranges (dr_lo t (d + 4)) (dr_hi t (d + 4)) (u32 t d)" using assms by (auto simp: default_ok_def)
  then show "sorted_wrt (\<lambda>r r'. snd r < fst r') (dranges t d 0)"
    by (simp add: dranges_def sorted_wrt_iff_nth_less sorted_ranges.hi_less_lo)
  show "\<forall>r \<in> set (dranges t d 0). fst r \<le> snd r" by (auto simp: dranges_def dr_le)
qed

lemma sorted_nunis: "nondefault_ok t d \<Longrightarrow> d \<noteq> 0 \<Longrightarrow> sorted_wrt (<) (nunis t d 0)"
  by (auto simp: nunis_def sorted_wrt_iff_nth_less nondefault_ok_def dest: sorted_ranges.hi_less_lo)

lemma sorted_default_chars: "default_ok t d \<Longrightarrow> sorted_wrt (<) (default_chars t d)"
  using sorted_concat_ranges [OF sorted_dranges(1), of t d] by (simp add: default_chars_def)

lemma sorted_nondefault_chars: "nondefault_ok t d \<Longrightarrow> sorted_wrt (<) (nondefault_chars t d)"
  by (simp add: nondefault_chars_def sorted_nunis)

lemma set_default_chars: "set (default_chars t d) = {c. in_default t d c}"
proof -
  have "c \<in> set (concat (map range_list (dranges t d 0))) \<longleftrightarrow>
      range_of (dr_lo t (d + 4)) (dr_hi t (d + 4)) (u32 t d) c \<noteq> None" for c
    by (auto simp: dranges_def range_of_None)
  then show ?thesis
    by (cases "d = 0") (simp_all add: default_chars_def in_default_def set_eq_iff del: set_concat)
qed

definition in_nondefault :: "bytes \<Rightarrow> nat \<Rightarrow> nat \<Rightarrow> bool" where
  "in_nondefault t d c \<longleftrightarrow> d \<noteq> 0 \<and> range_of (nd_uni t (d + 4)) (nd_uni t (d + 4)) (u32 t d) c \<noteq> None"

lemma set_nondefault_chars: "set (nondefault_chars t d) = {c. in_nondefault t d c}"
  by (auto simp: nondefault_chars_def in_nondefault_def nunis_def range_of_None)

lemma sorted_below_length:
  assumes "sorted_wrt (<) (xs :: nat list)" "set xs \<subseteq> {..<n}"
  shows "length xs \<le> n"
proof -
  have "length xs = card (set xs)" using assms(1) by (simp add: distinct_card strict_sorted_iff)
  also have "\<dots> \<le> card {..<n}" using assms(2) by (intro card_mono) simp_all
  finally show ?thesis by simp
qed

lemma length_default_chars: "default_ok t d \<Longrightarrow> length (default_chars t d) \<le> 1114112"
  by (rule sorted_below_length [OF sorted_default_chars])
    (auto simp: set_default_chars in_default_def default_ok_def dest!: range_of_SomeD intro: le_less_trans)

lemma length_nondefault_chars: "nondefault_ok t d \<Longrightarrow> length (nondefault_chars t d) \<le> 1114112"
  by (rule sorted_below_length [OF sorted_nondefault_chars])
    (auto simp: set_nondefault_chars in_nondefault_def nondefault_ok_def dest!: range_of_SomeD
      intro: le_less_trans)

lemma sum_counts:
  assumes ok: "default_ok t d" "d \<noteq> 0" and "j + k = u32 t d"
    and "tot + length (concat (map range_list (dranges t d j))) < 4294967296"
  shows "tt_cmap14_sum_counts t k (d + 4 + 4 * j + 3) tot =
    Some (tot + length (concat (map range_list (dranges t d j))))"
  using assms(3-)
proof (induction k arbitrary: j tot)
  case 0
  then show ?case by (simp add: dranges_def)
next
  case (Suc k)
  have j: "j < u32 t d" using Suc.prems(1) by simp
  let ?lo = "dr_lo t (d + 4) j" and ?hi = "dr_hi t (d + 4) j"
  let ?L = "length (concat (map range_list (dranges t d (Suc j))))"
  have l: "length (range_list (?lo, ?hi)) = 1 + (?hi - ?lo)"
    using dr_le [of t "d + 4" j] by (simp add: range_list_def Suc_diff_le)
  have s: "length (concat (map range_list (dranges t d j))) = 1 + (?hi - ?lo) + ?L"
    by (simp add: dranges_step [OF j] l)
  have a: "add32 tot (1 + (?hi - ?lo)) = tot + (1 + (?hi - ?lo))"
    using Suc.prems(2) s by (intro add32_small) linarith
  have IH: "tt_cmap14_sum_counts t k (d + 4 + 4 * Suc j + 3) (tot + (1 + (?hi - ?lo))) =
      Some (tot + (1 + (?hi - ?lo)) + ?L)"
    using Suc.prems s by (intro Suc.IH) simp_all
  have p: "d + 4 + 4 * j + 3 + 4 = d + 4 + 4 * Suc j + 3" by simp
  show ?case
    unfolding tt_cmap14_sum_counts.simps default_record [OF ok j] p bind.bind_lunit a IH s by simp
qed

lemma def_char_count:
  assumes "default_ok t d" "d \<noteq> 0"
  shows "tt_cmap14_def_char_count t d = Some (length (default_chars t d))"
proof -
  have "peek_ulong t d = Some (u32 t d)" using assms by (auto simp: default_ok_def)
  moreover have "length (concat (map range_list (dranges t d 0))) < 4294967296"
    using length_default_chars [OF assms(1)] assms(2) by (simp add: default_chars_def)
  ultimately show ?thesis using sum_counts [OF assms, of 0 "u32 t d" 0] assms(2)
    by (simp add: tt_cmap14_def_char_count_def default_chars_def)
qed

section \<open>The results of the queries\<close>

lemma ensure_ok:
  assumes "cmap14_ok t fl st" "tt_cmap14_ensure granted st n = (err, st')"
  shows "cmap14_ok t fl st'" "data14 st' = t" "num_selectors st' = u32 t 6"
    "err = None \<Longrightarrow> n \<le> length (results st')"
    "(\<forall>m. granted m) \<Longrightarrow> n \<le> 536870911 \<Longrightarrow> err = None"
  using assms by (auto simp: tt_cmap14_ensure_def cmap14_ok_def Let_def split: if_splits)

text \<open>
  \<open>listed t fl granted xs r\<close>: the query made no stray access and kept the object's invariant;
  it returned the array exactly when there was room for it, with \<open>xs\<close> and a 0 at its front.
\<close>

definition listed ::
    "bytes \<Rightarrow> nat \<Rightarrow> (nat \<Rightarrow> bool) \<Rightarrow> nat list \<Rightarrow> (bool \<times> TT_CMap14) option \<Rightarrow> bool" where
  "listed t fl granted xs r =
     (case r of
        None \<Rightarrow> False
      | Some (b, st) \<Rightarrow> cmap14_ok t fl st \<and> ((\<forall>m. granted m) \<longrightarrow> b) \<and>
          (b \<longrightarrow> take (Suc (length xs)) (results st) = map Some xs @ [Some 0]))"

text \<open>All the queries end alike: with room for the list and its 0, they fill the array.\<close>

lemma listed_ensure:
  assumes "cmap14_ok t fl st" and "length xs < n" "n \<le> 536870911"
    and "\<And>st'. cmap14_ok t fl st' \<Longrightarrow> data14 st' = t \<Longrightarrow> num_selectors st' = u32 t 6 \<Longrightarrow>
      n \<le> length (results st') \<Longrightarrow> k st' = Some (True, st'\<lparr>results := fill (results st') (xs @ [0])\<rparr>)"
  shows "listed t fl granted xs (case tt_cmap14_ensure granted st n of
      (Some e, cmap') \<Rightarrow> Some (False, cmap') | (None, cmap') \<Rightarrow> k cmap')"
proof (cases "tt_cmap14_ensure granted st n")
  case (Pair err st')
  note e = ensure_ok [OF assms(1) Pair]
  show ?thesis
  proof (cases err)
    case None
    have "cmap14_ok t fl (st'\<lparr>results := fill (results st') (xs @ [0])\<rparr>)"
      using e(1) e(4) [OF None] assms(2) by (auto simp: cmap14_ok_def)
    then show ?thesis using Pair None assms(4) [OF e(1-3) e(4) [OF None]]
      by (simp add: listed_def fill_def)
  next
    case (Some x)
    then show ?thesis using Pair e(1,5) assms(3) by (auto simp: listed_def)
  qed
qed

lemma get_def_chars_listed:
  assumes "cmap14_ok t fl st" "default_ok t d" "d \<noteq> 0"
  shows "listed t fl granted (default_chars t d) (tt_cmap14_get_def_chars granted st d)"
proof -
  let ?xs = "default_chars t d"
  have t: "data14 st = t" using assms(1) by (simp add: cmap14_ok_def)
  have c: "tt_cmap14_def_char_count t d = Some (length ?xs)" "peek_ulong t d = Some (u32 t d)"
    using def_char_count [OF assms(2,3)] assms(2,3) by (auto simp: default_ok_def)
  have a: "add32 (length ?xs) 1 = Suc (length ?xs)"
    using length_default_chars [OF assms(2)] by (simp add: add32_small)
  have "do { (rs, q) \<leftarrow> tt_cmap14_put_ranges t (u32 t d) (d + 4) (results st') 0;
            rs \<leftarrow> store_result rs q 0; Some (True, st'\<lparr>results := rs\<rparr>) } =
      Some (True, st'\<lparr>results := fill (results st') (?xs @ [0])\<rparr>)"
    if "Suc (length ?xs) \<le> length (results st')" for st'
    using put_ranges_fill [OF assms(2,3), of 0 "u32 t d" "[]" "results st'"] that assms(3)
      store_fill [of ?xs "results st'" 0]
    by (simp add: default_chars_def)
  then show ?thesis using length_default_chars [OF assms(2)]
    unfolding tt_cmap14_get_def_chars_def t c bind.bind_lunit a
    by (intro listed_ensure [OF assms(1)]) simp_all
qed

lemma get_nondef_chars_listed:
  assumes "cmap14_ok t fl st" "nondefault_ok t d" "d \<noteq> 0"
  shows "listed t fl granted (nondefault_chars t d) (tt_cmap14_get_nondef_chars granted st d)"
proof -
  let ?xs = "nondefault_chars t d"
  have t: "data14 st = t" using assms(1) by (simp add: cmap14_ok_def)
  have n: "length ?xs = u32 t d" using assms(3) by (simp add: nondefault_chars_def nunis_def)
  have c: "peek_ulong t d = Some (u32 t d)" using assms(2,3) by (auto simp: nondefault_ok_def)
  have a: "add32 (u32 t d) 1 = Suc (length ?xs)"
    using length_nondefault_chars [OF assms(2)] n by (simp add: add32_small)
  have "do { (rs, i) \<leftarrow> tt_cmap14_put_mappings t (u32 t d) (d + 4) (results st') 0;
            rs \<leftarrow> store_result rs i 0; Some (True, st'\<lparr>results := rs\<rparr>) } =
      Some (True, st'\<lparr>results := fill (results st') (?xs @ [0])\<rparr>)"
    if "Suc (length ?xs) \<le> length (results st')" for st'
    using put_mappings_fill [OF assms(2,3), of 0 "u32 t d" "[]" "results st'"] that assms(3) n
      store_fill [of ?xs "results st'" 0]
    by (simp add: nondefault_chars_def)
  then show ?thesis using length_nondefault_chars [OF assms(2)]
    unfolding tt_cmap14_get_nondef_chars_def t c bind.bind_lunit a
    by (intro listed_ensure [OF assms(1)]) simp_all
qed

definition both_chars :: "bytes \<Rightarrow> nat \<Rightarrow> nat \<Rightarrow> nat list" where
  "both_chars t d e = merge_chars (dranges t d 0) (nunis t e 0)"

lemma both_chars_length:
  assumes "d \<noteq> 0" "e \<noteq> 0"
  shows "length (both_chars t d e) \<le> length (default_chars t d) + length (nondefault_chars t e)"
  using length_merge_chars [of "dranges t d 0" "nunis t e 0"] assms
  by (simp add: both_chars_def default_chars_def nondefault_chars_def)

lemma set_both_chars:
  assumes "d \<noteq> 0" "e \<noteq> 0"
  shows "set (both_chars t d e) = {c. in_default t d c \<or> in_nondefault t e c}"
proof -
  have "(\<Union>r\<in>set (dranges t d 0). {fst r..snd r}) = set (default_chars t d)"
    using assms(1) by (simp add: default_chars_def)
  then show ?thesis using assms set_nondefault_chars [of t e] set_default_chars [of t d]
    by (auto simp: both_chars_def set_merge_chars nondefault_chars_def)
qed

lemma merge_chars_listed:
  assumes ok: "cmap14_ok t fl st" "default_ok t d" "d \<noteq> 0" "nondefault_ok t e" "e \<noteq> 0"
  shows "listed t fl granted (both_chars t d e) (tt_cmap14_merge_chars granted st d e)"
proof -
  have t: "data14 st = t" using ok(1) by (simp add: cmap14_ok_def)
  have c: "tt_cmap14_def_char_count t d = Some (length (default_chars t d))"
    "peek_ulong t d = Some (u32 t d)" "peek_ulong t e = Some (u32 t e)"
    using def_char_count [OF ok(2,3)] ok(2-) by (auto simp: default_ok_def nondefault_ok_def)
  note ld = length_default_chars [OF ok(2)] and ln = length_nondefault_chars [OF ok(4)]
  have n: "length (nondefault_chars t e) = u32 t e" using ok(5) by (simp add: nondefault_chars_def nunis_def)
  consider (no_map) "u32 t e = 0" | (no_rng) "0 < u32 t e" "default_chars t d = []"
    | (both) "0 < u32 t e" "default_chars t d \<noteq> []" by auto
  then show ?thesis
  proof cases
    case no_map
    then have "both_chars t d e = default_chars t d"
      using ok(3) by (cases "dranges t d 0") (simp_all add: both_chars_def nunis_def default_chars_def)
    then show ?thesis using get_def_chars_listed [OF ok(1-3)] no_map c t
      by (simp add: tt_cmap14_merge_chars_def)
  next
    case no_rng
    have "dranges t d 0 = []"
    proof (cases "dranges t d 0")
      case (Cons r rs)
      then have "range_list r \<noteq> []"
        using sorted_dranges(2) [OF ok(2,3)] by (cases r) (simp add: range_list_def)
      then show ?thesis using no_rng(2) Cons ok(3) by (simp add: default_chars_def)
    qed
    then have "both_chars t d e = nondefault_chars t e"
      using ok(5) by (simp add: both_chars_def nondefault_chars_def)
    then show ?thesis using get_nondef_chars_listed [OF ok(1,4,5)] no_rng c t
      by (simp add: tt_cmap14_merge_chars_def)
  next
    case both
    let ?xs = "both_chars t d e"
    have r: "0 < u32 t d" using both(2) ok(3) by (auto simp: default_chars_def dranges_def)
    have a: "add32 (add32 (length (default_chars t d)) (u32 t e)) 1 =
        length (default_chars t d) + u32 t e + 1"
      using ld ln n by (simp add: add32_small)
    note rd = default_record [OF ok(2,3) r] nondefault_record(1) [OF ok(4,5) both(1)]
    have "do {
          duni \<leftarrow> peek_uoff3 t (d + 4);
          dcnt \<leftarrow> peek_byte t (d + 7);
          nuni \<leftarrow> peek_uoff3 t (e + 4);
          m \<leftarrow> tt_cmap14_merge t (u32 t d) (u32 t e)
                 \<lparr>m_ret = results st', m_i = 0, m_dp = d + 8, m_p = e + 9,
                  m_di = 1, m_ni = 1, m_duni = duni, m_dcnt = dcnt, m_nuni = nuni\<rparr>;
          rs \<leftarrow> tt_cmap14_merge_rest t (u32 t d) (u32 t e) m;
          Some (True, st'\<lparr>results := rs\<rparr>)
        } = Some (True, st'\<lparr>results := fill (results st') (?xs @ [0])\<rparr>)"
      if "length (default_chars t d) + u32 t e + 1 \<le> length (results st')" for st'
    proof -
      have "length ([] :: nat list) + length (merge_chars (dranges t d 0) (nunis t e 0)) < length (results st')"
        using that both_chars_length [OF ok(3,5), of t] n by (simp add: both_chars_def)
      from merge_step [OF ok(2-5) r both(1) this] show ?thesis
        using rd by (simp add: both_chars_def ac_simps bind_eq_Some_conv) (metis bind.bind_lunit bind_assoc)
    qed
    then show ?thesis using both ld ln n both_chars_length [OF ok(3,5), of t]
      unfolding tt_cmap14_merge_chars_def t c bind.bind_lunit a
      by (auto intro!: listed_ensure [OF ok(1)])
  qed
qed

definition variant_char_list :: "bytes \<Rightarrow> nat \<Rightarrow> nat list" where
  "variant_char_list t i =
     (let d = vs_def t 10 i; e = vs_nondef t 10 i in
      if d = 0 then nondefault_chars t e else if e = 0 then default_chars t d else both_chars t d e)"

lemma variant_chars_listed:
  assumes "cmap14_ok t fl st" "selector_of t v = Some i" "vs_def t 10 i \<noteq> 0 \<or> vs_nondef t 10 i \<noteq> 0"
  shows "listed t fl granted (variant_char_list t i) (tt_cmap14_variant_chars granted st v)"
proof -
  have t: "table14_ok t" "data14 st = t" using assms(1) by (simp_all add: cmap14_ok_def)
  note s = selector_tables [OF t(1) assms(2)]
  have r: "tt_cmap14_variant_chars granted st v =
      (if vs_def t 10 i = 0 then tt_cmap14_get_nondef_chars granted st (vs_nondef t 10 i)
       else if vs_nondef t 10 i = 0 then tt_cmap14_get_def_chars granted st (vs_def t 10 i)
       else tt_cmap14_merge_chars granted st (vs_def t 10 i) (vs_nondef t 10 i))"
    using find_variant [OF t(1), of v] t(2) assms(2,3) s(1,2) by (auto simp: tt_cmap14_variant_chars_def)
  show ?thesis using assms(1,3) s(3,4) unfolding r
    by (auto simp: variant_char_list_def Let_def
        intro: get_nondef_chars_listed get_def_chars_listed merge_chars_listed)
qed

lemma variant_char_list:
  assumes "cmap14_ok t fl st" "selector_of t v = Some i"
  shows "sorted_wrt (<) (variant_char_list t i)"
    "set (variant_char_list t i) = {c. in_default t (vs_def t 10 i) c \<or> in_nondefault t (vs_nondef t 10 i) c}"
proof -
  have "table14_ok t" using assms(1) by (simp add: cmap14_ok_def)
  note s = selector_tables [OF this assms(2)]
  have "sorted_wrt (<) (both_chars t d e)" if "default_ok t d" "nondefault_ok t e" "d \<noteq> 0" "e \<noteq> 0" for d e
    unfolding both_chars_def by (rule sorted_merge_chars [OF sorted_dranges sorted_nunis]) (use that in auto)
  then show "sorted_wrt (<) (variant_char_list t i)"
    using s(3,4) by (simp add: variant_char_list_def Let_def sorted_nondefault_chars sorted_default_chars)
  show "set (variant_char_list t i) = {c. in_default t (vs_def t 10 i) c \<or> in_nondefault t (vs_nondef t 10 i) c}"
    by (simp add: variant_char_list_def Let_def set_default_chars set_nondefault_chars set_both_chars)
      (auto simp: in_default_def in_nondefault_def)
qed

lemma variant_chars_null:
  assumes "cmap14_ok t fl st"
    and "case selector_of t v of None \<Rightarrow> True | Some i \<Rightarrow> vs_def t 10 i = 0 \<and> vs_nondef t 10 i = 0"
  shows "tt_cmap14_variant_chars granted st v = Some (False, st)"
proof -
  have t: "table14_ok t" "data14 st = t" using assms(1) by (simp_all add: cmap14_ok_def)
  show ?thesis
  proof (cases "selector_of t v")
    case None
    then show ?thesis using find_variant [OF t(1), of v] t(2) by (simp add: tt_cmap14_variant_chars_def)
  next
    case (Some i)
    then show ?thesis using find_variant [OF t(1), of v] t(2) assms(2) selector_tables(1,2) [OF t(1) Some]
      by (simp add: tt_cmap14_variant_chars_def)
  qed
qed

section \<open>The lists of selectors\<close>

lemma put_selectors_fill:
  assumes ok: "selectors_ok t 10 n" and "i + k = n" and "length xs + k < length rs"
  shows "tt_cmap14_put_selectors t k (10 + 11 * i) (length xs) (fill rs xs) =
    Some (fill rs (xs @ map (vs_sel t 10) [i..<n] @ [0]))"
  using assms(2-)
proof (induction k arbitrary: i xs)
  case 0
  then show ?case by (simp add: store_fill)
next
  case (Suc k)
  have i: "i < n" using Suc.prems(1) by simp
  have IH: "tt_cmap14_put_selectors t k (10 + 11 * Suc i) (length (xs @ [vs_sel t 10 i])) (fill rs (xs @ [vs_sel t 10 i])) =
      Some (fill rs ((xs @ [vs_sel t 10 i]) @ map (vs_sel t 10) [Suc i..<n] @ [0]))"
    using Suc.prems by (intro Suc.IH) simp_all
  have p: "10 + 11 * i + 3 + 8 = 10 + 11 * Suc i" by simp
  have w: "store_result (fill rs xs) (length xs) (vs_sel t 10 i) = Some (fill rs (xs @ [vs_sel t 10 i]))"
    using Suc.prems(2) by (intro store_fill) simp
  show ?case unfolding tt_cmap14_put_selectors.simps table14_record [OF ok i] p bind.bind_lunit w
    using IH i by (simp add: upt_conv_Cons)
qed

lemma selector_count:
  assumes "table14_ok t"
  shows "add32 (u32 t 6) 1 = Suc (u32 t 6)" "Suc (u32 t 6) \<le> 536870911"
proof -
  have n: "11 * u32 t 6 < 4294967296" by (rule table14_bounds [OF assms])
  then show "Suc (u32 t 6) \<le> 536870911" by linarith
  then show "add32 (u32 t 6) 1 = Suc (u32 t 6)" by (simp add: add32_small)
qed

lemma variants_listed:
  assumes "cmap14_ok t fl st"
  shows "listed t fl granted (map (vs_sel t 10) [0..<u32 t 6]) (tt_cmap14_variants granted st)"
proof -
  have t: "table14_ok t" "num_selectors st = u32 t 6" using assms by (simp_all add: cmap14_ok_def)
  note b = table14_bounds [OF t(1)] and c = selector_count [OF t(1)]
  show ?thesis unfolding tt_cmap14_variants_def t(2) c(1)
  proof (rule listed_ensure [OF assms])
    fix st' assume "data14 st' = t" "Suc (u32 t 6) \<le> length (results st')"
    then show "do { rs \<leftarrow> tt_cmap14_put_selectors (data14 st') (u32 t 6) 10 0 (results st');
        Some (True, st'\<lparr>results := rs\<rparr>) } =
      Some (True, st'\<lparr>results := fill (results st') (map (vs_sel t 10) [0..<u32 t 6] @ [0])\<rparr>)"
      using put_selectors_fill [OF b(6), of 0 "u32 t 6" "[]" "results st'"] by simp
  qed (use c in simp_all)
qed

definition has_variant :: "bytes \<Rightarrow> nat \<Rightarrow> nat \<Rightarrow> bool" where
  "has_variant t c i \<longleftrightarrow> in_default t (vs_def t 10 i) c \<or> nondefault_glyph t (vs_nondef t 10 i) c \<noteq> 0"

lemma put_char_variants_fill:
  assumes ok: "table14_ok t" and "i + k = u32 t 6" and "length xs + k < length rs"
  shows "tt_cmap14_put_char_variants t c k (10 + 11 * i) (length xs) (fill rs xs) =
    Some (fill rs (xs @ map (vs_sel t 10) (filter (has_variant t c) [i..<u32 t 6]) @ [0]))"
  using assms(2-)
proof (induction k arbitrary: i xs)
  case 0
  then show ?case by (simp add: store_fill)
next
  case (Suc k)
  have i: "i < u32 t 6" using Suc.prems(1) by simp
  note b = table14_bounds [OF ok]
  have tabs: "default_ok t (vs_def t 10 i)" "nondefault_ok t (vs_nondef t 10 i)"
    using b(6) i by (auto simp: selectors_ok_def)
  have d: "(if vs_def t 10 i \<noteq> 0 then tt_cmap14_char_map_def_binary t (vs_def t 10 i) c else Some False) =
      Some (in_default t (vs_def t 10 i) c)"
    using def_binary [OF tabs(1) _ b(5)] by (simp add: in_default_def)
  have e: "(if in_default t (vs_def t 10 i) c then Some 1
      else if vs_nondef t 10 i \<noteq> 0 then tt_cmap14_char_map_nondef_binary t (vs_nondef t 10 i) c
      else Some 0) = Some (if in_default t (vs_def t 10 i) c then 1 else nondefault_glyph t (vs_nondef t 10 i) c)"
    using nondef_binary [OF tabs(2) _ b(5)] by (simp add: nondefault_glyph_def)
  have hv: "(if in_default t (vs_def t 10 i) c then 1 else nondefault_glyph t (vs_nondef t 10 i) c) \<noteq> 0 \<longleftrightarrow>
      has_variant t c i" by (simp add: has_variant_def)
  let ?ys = "if has_variant t c i then xs @ [vs_sel t 10 i] else xs"
  have IH: "tt_cmap14_put_char_variants t c k (10 + 11 * Suc i) (length ?ys) (fill rs ?ys) =
      Some (fill rs (?ys @ map (vs_sel t 10) (filter (has_variant t c) [Suc i..<u32 t 6]) @ [0]))"
    using Suc.prems by (intro Suc.IH) simp_all
  have p: "10 + 11 * i + 11 = 10 + 11 * Suc i" by simp
  have w: "store_result (fill rs xs) (length xs) (vs_sel t 10 i) = Some (fill rs (xs @ [vs_sel t 10 i]))"
    using Suc.prems(2) by (intro store_fill) simp
  show ?case
    unfolding tt_cmap14_put_char_variants.simps table14_record [OF b(6) i] bind.bind_lunit d e p w hv
    using IH i by (cases "has_variant t c i") (simp_all add: upt_conv_Cons)
qed

lemma char_variants_listed:
  assumes "cmap14_ok t fl st"
  shows "listed t fl granted (map (vs_sel t 10) (filter (has_variant t c) [0..<u32 t 6]))
    (tt_cmap14_char_variants granted st c)"
proof -
  have t: "table14_ok t" "num_selectors st = u32 t 6" using assms by (simp_all add: cmap14_ok_def)
  note n = selector_count [OF t(1)]
  have "length (filter (has_variant t c) [0..<u32 t 6]) \<le> u32 t 6"
    using length_filter_le [of "has_variant t c" "[0..<u32 t 6]"] by simp
  show ?thesis unfolding tt_cmap14_char_variants_def t(2) n(1)
  proof (rule listed_ensure [OF assms])
    fix st' assume "data14 st' = t" "Suc (u32 t 6) \<le> length (results st')"
    then show "do { rs \<leftarrow> tt_cmap14_put_char_variants (data14 st') c (u32 t 6) 10 0 (results st');
        Some (True, st'\<lparr>results := rs\<rparr>) } =
      Some (True, st'\<lparr>results := fill (results st')
        (map (vs_sel t 10) (filter (has_variant t c) [0..<u32 t 6]) @ [0])\<rparr>)"
      using put_char_variants_fill [OF t(1), of 0 "u32 t 6" "[]" "results st'" c] by simp
  qed (use n \<open>length _ \<le> _\<close> in simp_all)
qed

section \<open>Reachable objects\<close>

text \<open>The objects that the queries can make of a fresh one for the table \<open>t\<close>.\<close>

inductive reach14 :: "bytes \<Rightarrow> TT_CMap14 \<Rightarrow> bool" for t where
  fresh: "tt_cmap14_init t fl = Some st \<Longrightarrow> reach14 t st"
| variants: "reach14 t st \<Longrightarrow> tt_cmap14_variants granted st = Some (b, st') \<Longrightarrow> reach14 t st'"
| char_variants: "reach14 t st \<Longrightarrow> tt_cmap14_char_variants granted st c = Some (b, st') \<Longrightarrow> reach14 t st'"
| variant_chars: "reach14 t st \<Longrightarrow> tt_cmap14_variant_chars granted st v = Some (b, st') \<Longrightarrow> reach14 t st'"
| finished: "reach14 t st \<Longrightarrow> reach14 t (tt_cmap14_done st)"

lemma listed_ok: "listed t fl granted xs (Some (b, st')) \<Longrightarrow> cmap14_ok t fl st'"
  by (simp add: listed_def)

lemma variant_chars_ok:
  assumes "cmap14_ok t fl st" "tt_cmap14_variant_chars granted st v = Some (b, st')"
  shows "cmap14_ok t fl st'"
proof (cases "\<exists>i. selector_of t v = Some i \<and> (vs_def t 10 i \<noteq> 0 \<or> vs_nondef t 10 i \<noteq> 0)")
  case True
  then obtain i where "selector_of t v = Some i" "vs_def t 10 i \<noteq> 0 \<or> vs_nondef t 10 i \<noteq> 0" by blast
  from variant_chars_listed [OF assms(1) this] show ?thesis using assms(2) listed_ok by metis
next
  case False
  then have "tt_cmap14_variant_chars granted st v = Some (False, st)"
    by (intro variant_chars_null [OF assms(1)]) (auto split: option.splits)
  then show ?thesis using assms by simp
qed

lemma accepted14:
  assumes "length t < 4294967296" "tt_cmap14_validate env t FT_VALIDATE_DEFAULT n None = VRet fl None"
  shows "table14_ok t"
proof -
  obtain st where "tt_cmap14_init t fl = Some st" "cmap14_ok t fl st"
    using cmap14.accepted_usable [OF assms] by blast
  then show ?thesis by (simp add: cmap14_ok_def)
qed

lemma reach14_ok:
  assumes "table14_ok t" "reach14 t st"
  shows "cmap14_ok t fl st"
  using assms(2)
proof (induction rule: reach14.induct)
  case (fresh fl st)
  then show ?case using assms(1) by (auto simp: tt_cmap14_init_def cmap14_ok_def bind_eq_Some_conv table14_ok_def)
next
  case (variants st granted b st')
  then show ?case using variants_listed [OF variants.IH, of granted] listed_ok by metis
next
  case (char_variants st granted c b st')
  then show ?case using char_variants_listed [OF char_variants.IH, of granted c] listed_ok by metis
next
  case (variant_chars st granted v b st')
  then show ?case using variant_chars_ok by blast
next
  case (finished st)
  then show ?case by (auto simp: tt_cmap14_done_def cmap14_ok_def Let_def)
qed

section \<open>Properties\<close>

text \<open>
  C26: The glyph of a variation sequence of an accepted format 14 table: none for an unknown
  selector, that of the Unicode charmap for a code in the default ranges, and otherwise that
  of the non-default mapping. \<open>char_var_isdefault\<close> tells the three cases apart.
\<close>

theorem tt_cmap14_variation_glyph:
  assumes "length t < 4294967296" "tt_cmap14_validate env t FT_VALIDATE_DEFAULT n None = VRet fl None"
    and "reach14 t st"
  shows "tt_cmap14_char_var_index st uc c v =
      (case selector_of t v of
         None \<Rightarrow> Some 0
       | Some i \<Rightarrow> if in_default t (vs_def t 10 i) c then uc c
                   else Some (nondefault_glyph t (vs_nondef t 10 i) c)) \<and>
    tt_cmap14_char_var_isdefault st c v =
      Some (case selector_of t v of
         None \<Rightarrow> - 1
       | Some i \<Rightarrow> if in_default t (vs_def t 10 i) c then 1
                   else if nondefault_glyph t (vs_nondef t 10 i) c \<noteq> 0 then 0 else - 1)"
  using reach14_ok [OF accepted14 [OF assms(1,2)] assms(3)]
  by (intro conjI char_var_index char_var_isdefault)

definition table14 :: bytes where
  "table14 = [0, 14, 0, 0, 0, 38, 0, 0, 0, 1, 0, 254, 0, 0, 0, 0, 21, 0, 0, 0, 29,
     0, 0, 0, 1, 0, 0, 65, 1, 0, 0, 0, 1, 0, 0, 70, 0, 9]"

lemma table14_reads:
  "length table14 = 38" "u32 table14 2 = 38" "u32 table14 6 = 1" "u24 table14 10 = 65024"
  "u32 table14 13 = 21" "u32 table14 17 = 29" "u32 table14 21 = 1" "u24 table14 25 = 65"
  "u8 table14 28 = 1" "u32 table14 29 = 1" "u24 table14 33 = 70" "u16 table14 36 = 9"
  by (simp_all add: u8_def u16_def u24_def u32_def table14_def)

lemma table14_accepted:
  "tt_cmap14_validate Freestanding table14 FT_VALIDATE_DEFAULT 10 None = VRet 0 None"
  by (simp add: tt_cmap14_validate_def tt_cmap14_check_default_def tt_cmap14_check_nondefault_def
      vdefs peek_defs table14_reads)

definition object14 :: TT_CMap14 where
  "object14 = \<lparr>data14 = table14, num_selectors = 1, max_results = 0, results = [], memory14 = False\<rparr>"

lemma reach14_object: "reach14 table14 object14"
  by (rule reach14.fresh [of _ 0]) (simp add: tt_cmap14_init_def table14_reads object14_def)

theorem tt_cmap14_variation_glyph_witness:
  "tt_cmap14_char_var_index object14 (\<lambda>c. Some (c - 60)) 66 65024 = Some 6 \<and>
   tt_cmap14_char_var_index object14 (\<lambda>c. Some (c - 60)) 70 65024 = Some 9 \<and>
   tt_cmap14_char_var_isdefault object14 71 65024 = Some (- 1)"
proof -
  note t = tt_cmap14_variation_glyph [OF _ table14_accepted reach14_object]
  show ?thesis
    using t [of "\<lambda>c. Some (c - 60)" 66 65024] t [of "\<lambda>c. Some (c - 60)" 70 65024]
      t [of "\<lambda>c. Some (c - 60)" 71 65024]
    by (simp add: table14_reads selector_of_def range_of_def vs_sel_def vs_def_def vs_nondef_def
        in_default_def nondefault_glyph_def dr_lo_def dr_hi_def nd_uni_def nd_gid_def)
qed

text \<open>
  C27: The characters of a selector. However the object was used before and whatever the memory
  manager grants, the query makes no access outside the table or the result array; when it
  returns the array, this starts with the characters of the default ranges and the non-default
  mappings, strictly increasing and each once, followed by 0. It returns \<open>NULL\<close> only for a
  selector without tables or when memory is short.
\<close>

theorem tt_cmap14_variant_chars_merged:
  assumes "length t < 4294967296" "tt_cmap14_validate env t FT_VALIDATE_DEFAULT n None = VRet fl None"
    and "reach14 t st" "selector_of t v = Some i"
  shows "\<exists>b st' xs. tt_cmap14_variant_chars granted st v = Some (b, st') \<and>
    sorted_wrt (<) xs \<and> set xs = {c. in_default t (vs_def t 10 i) c \<or> in_nondefault t (vs_nondef t 10 i) c} \<and>
    (b \<longrightarrow> take (Suc (length xs)) (results st') = map Some xs @ [Some 0]) \<and>
    ((\<forall>m. granted m) \<longrightarrow> b = (vs_def t 10 i \<noteq> 0 \<or> vs_nondef t 10 i \<noteq> 0))"
proof (cases "vs_def t 10 i = 0 \<and> vs_nondef t 10 i = 0")
  case True
  then have "tt_cmap14_variant_chars granted st v = Some (False, st)"
    using reach14_ok [OF accepted14 [OF assms(1,2)] assms(3)] assms(4)
    by (intro variant_chars_null) auto
  then show ?thesis using True by (intro exI [of _ False] exI [of _ st] exI [of _ "[]"])
      (simp add: in_default_def in_nondefault_def)
next
  case False
  have ok: "cmap14_ok t fl st" by (rule reach14_ok [OF accepted14 [OF assms(1,2)] assms(3)])
  have "listed t fl granted (variant_char_list t i) (tt_cmap14_variant_chars granted st v)"
    using False by (intro variant_chars_listed [OF ok assms(4)]) auto
  then obtain b st' where "tt_cmap14_variant_chars granted st v = Some (b, st')"
    "(\<forall>m. granted m) \<longrightarrow> b"
    "b \<longrightarrow> take (Suc (length (variant_char_list t i))) (results st') = map Some (variant_char_list t i) @ [Some 0]"
    by (auto simp: listed_def split: option.splits)
  then show ?thesis using variant_char_list [OF ok assms(4)] False by blast
qed

theorem tt_cmap14_variant_chars_merged_witness:
  "\<exists>b st' xs. tt_cmap14_variant_chars (\<lambda>n. True) object14 65024 = Some (b, st') \<and> sorted_wrt (<) xs \<and>
    set xs = {c. in_default table14 21 c \<or> in_nondefault table14 29 c} \<and>
    take (Suc (length xs)) (results st') = map Some xs @ [Some 0]"
proof -
  have "selector_of table14 65024 = Some 0"
    by (simp add: selector_of_def range_of_def vs_sel_def table14_reads)
  from tt_cmap14_variant_chars_merged [OF _ table14_accepted reach14_object this, of "\<lambda>n. True"]
  show ?thesis by (auto simp: table14_reads vs_def_def vs_nondef_def)
qed

text \<open>
  The selectors of the table, and the selectors under which a character has a glyph: both
  queries write exactly these, in the order of the table and ended by 0, without an access
  outside the table or the array.
\<close>

theorem tt_cmap14_selector_lists:
  assumes "length t < 4294967296" "tt_cmap14_validate env t FT_VALIDATE_DEFAULT n None = VRet fl None"
    and "reach14 t st"
  shows "listed t fl granted (map (vs_sel t 10) [0..<u32 t 6]) (tt_cmap14_variants granted st) \<and>
    listed t fl granted (map (vs_sel t 10) (filter (has_variant t c) [0..<u32 t 6]))
      (tt_cmap14_char_variants granted st c)"
  using reach14_ok [OF accepted14 [OF assms(1,2)] assms(3)]
  by (intro conjI variants_listed char_variants_listed)

theorem tt_cmap14_selector_lists_witness:
  "listed table14 0 (\<lambda>n. True) [65024] (tt_cmap14_variants (\<lambda>n. True) object14) \<and>
   listed table14 0 (\<lambda>n. True) [65024] (tt_cmap14_char_variants (\<lambda>n. True) object14 70)"
  using tt_cmap14_selector_lists [OF _ table14_accepted reach14_object, of "\<lambda>n. True" 70]
  by (simp add: table14_reads vs_sel_def vs_def_def vs_nondef_def has_variant_def in_default_def
      nondefault_glyph_def dr_lo_def dr_hi_def nd_uni_def nd_gid_def range_of_def)

end
