(* ===== verification/Tt_Validators.thy ===== *)
theory Tt_Validators
  imports Tt_CMap2 Tt_CMap4_Enum Tt_CMap6 Tt_CMap8 Tt_CMap10 Tt_CMap13 Tt_CMap14_Lists
begin

text \<open>
  The validators of all the formats together, as the class table of \<open>ttcmap.c\<close> lists them:
  what the two \<open>longjmp\<close> semantics have in common and where they differ.
\<close>

type_synonym tt_validate_func = "setjmp_env \<Rightarrow> bytes \<Rightarrow> validation_level \<Rightarrow> nat \<Rightarrow> nat validator"

definition tt_cmap_validators :: "tt_validate_func list" where
  "tt_cmap_validators = [tt_cmap0_validate, tt_cmap2_validate, tt_cmap4_validate, tt_cmap6_validate,
     tt_cmap8_validate, tt_cmap10_validate, tt_cmap12_validate, tt_cmap13_validate, tt_cmap14_validate]"

text \<open>
  C19: Under a \<open>longjmp\<close> that unwinds, no validator reads outside a table of any length or
  contents; and the two semantics accept the same tables with the same flags.
\<close>

theorem tt_validators_safe:
  assumes "length t < 4294967296" "validate \<in> set tt_cmap_validators"
  shows "validate Hosted t FT_VALIDATE_DEFAULT n None \<noteq> VFault \<and>
    (validate Hosted t l n None = VRet fl None \<longleftrightarrow> validate Freestanding t l n None = VRet fl None)"
  using assms(2) cmap0.hosted_never_faults [OF assms(1)] cmap0.accepted_by_both
    cmap2.hosted_never_faults [OF assms(1)] cmap2.accepted_by_both
    cmap4.hosted_never_faults [OF assms(1)] cmap4.accepted_by_both
    cmap6.hosted_never_faults [OF assms(1)] cmap6.accepted_by_both
    cmap8.hosted_never_faults [OF assms(1)] cmap8.accepted_by_both
    cmap10.hosted_never_faults [OF assms(1)] cmap10.accepted_by_both
    cmap12.hosted_never_faults [OF assms(1)] cmap12.accepted_by_both
    cmap13.hosted_never_faults [OF assms(1)] cmap13.accepted_by_both
    cmap14.hosted_never_faults [OF assms(1)] cmap14.accepted_by_both
  by (auto simp: tt_cmap_validators_def)

theorem tt_validators_safe_witness:
  "tt_cmap12_validate Hosted [0, 12] FT_VALIDATE_DEFAULT 10 None \<noteq> VFault \<and>
   (tt_cmap12_validate Hosted table12 FT_VALIDATE_DEFAULT 10 None = VRet 0 None \<longleftrightarrow>
    tt_cmap12_validate Freestanding table12 FT_VALIDATE_DEFAULT 10 None = VRet 0 None)"
  using tt_validators_safe [of "[0, 12]" tt_cmap12_validate 10]
    tt_validators_safe [of table12 tt_cmap12_validate 10 FT_VALIDATE_DEFAULT 0]
  by (simp add: tt_cmap_validators_def table12_reads)

text \<open>
  C20: Under the port's \<open>longjmp\<close>, which does nothing, the test for a table too short for its
  header does not stop a validator: on a table of 2 or 3 bytes, the shortest \<open>tt_face_build_cmaps\<close>
  passes on, each of them records the error and then reads past the end.
\<close>

theorem tt_validators_freestanding_fault:
  assumes "validate \<in> set tt_cmap_validators" "2 \<le> length t" "length t < 4"
  shows "validate Freestanding t FT_VALIDATE_DEFAULT n None = VFault \<and>
    validate Hosted t FT_VALIDATE_DEFAULT n None = VThrow Invalid_Table"
  using assms
  by (auto simp: tt_cmap_validators_def vdefs peek_defs
      tt_cmap0_validate_def tt_cmap2_validate_def tt_cmap4_validate_def tt_cmap6_validate_def
      tt_cmap8_validate_def tt_cmap10_validate_def tt_cmap12_validate_def tt_cmap13_validate_def
      tt_cmap14_validate_def)

theorem tt_validators_freestanding_fault_witness:
  "tt_cmap4_validate Freestanding [0, 4] FT_VALIDATE_DEFAULT 10 None = VFault"
  using tt_validators_freestanding_fault [of tt_cmap4_validate "[0, 4]" 10] by (simp add: tt_cmap_validators_def)

end
