(* ===== verification/Ft_CharMap.thy ===== *)
theory Ft_CharMap
  imports Tt_Validators
begin

text \<open>
  The charmaps of a face: \<open>tt_face_build_cmaps\<close> and the class table of \<open>src/sfnt/ttcmap.c\<close>,
  \<open>sfnt_find_encoding\<close> of \<open>src/sfnt/sfobjs.c\<close>, and the part of \<open>src/base/ftobjs.c\<close> that makes,
  selects and queries charmaps. An object of any class is a value of \<open>cmap_object\<close>; a charmap
  handle is a number, and \<open>charmaps\<close> is \<open>NULL\<close> when the list is empty.
\<close>

section \<open>Objects of all classes\<close>

datatype cmap_object =
    CMap0 bytes | CMap2 bytes | CMap4 TT_CMap4 | CMap6 bytes | CMap8 bytes | CMap10 bytes
  | CMap12 TT_CMap12 | CMap13 TT_CMap13 | CMap14 TT_CMap14

definition tt_cmap_class_validate :: "nat \<Rightarrow> tt_validate_func option" where
  "tt_cmap_class_validate format =
     (if format = 0 then Some tt_cmap0_validate
      else if format = 2 then Some tt_cmap2_validate
      else if format = 4 then Some tt_cmap4_validate
      else if format = 6 then Some tt_cmap6_validate
      else if format = 8 then Some tt_cmap8_validate
      else if format = 10 then Some tt_cmap10_validate
      else if format = 12 then Some tt_cmap12_validate
      else if format = 13 then Some tt_cmap13_validate
      else if format = 14 then Some tt_cmap14_validate
      else None)"

text \<open>\<open>clazz->init\<close>, on an object that \<open>FT_ALLOC\<close> has zeroed.\<close>

definition cmap_object_init :: "nat \<Rightarrow> bytes \<Rightarrow> cmap_object option" where
  "cmap_object_init format t =
     (if format = 0 then map_option CMap0 (tt_cmap_init t 0)
      else if format = 2 then map_option CMap2 (tt_cmap_init t 0)
      else if format = 4 then map_option CMap4 (tt_cmap4_init t 0)
      else if format = 6 then map_option CMap6 (tt_cmap_init t 0)
      else if format = 8 then map_option CMap8 (tt_cmap_init t 0)
      else if format = 10 then map_option CMap10 (tt_cmap_init t 0)
      else if format = 12 then map_option CMap12 (tt_cmap12_init t 0)
      else if format = 13 then map_option CMap13 (tt_cmap13_init t 0)
      else if format = 14 then map_option CMap14 (tt_cmap14_init t 0)
      else None)"

text \<open>\<open>((TT_CMap)ttcmap)->flags = (FT_Int)error\<close>; only format 4 looks at the flags.\<close>

fun cmap_set_flags :: "nat \<Rightarrow> cmap_object \<Rightarrow> cmap_object" where
  "cmap_set_flags fl (CMap4 st) = CMap4 (st\<lparr>c4_flags := fl\<rparr>)"
| "cmap_set_flags fl obj = obj"

fun cmap_char_index :: "nat \<Rightarrow> cmap_object \<Rightarrow> nat \<Rightarrow> nat option" where
  "cmap_char_index ng (CMap0 s) c = tt_cmap0_char_index ng s c"
| "cmap_char_index ng (CMap2 s) c = tt_cmap2_char_index ng s c"
| "cmap_char_index ng (CMap4 s) c = tt_cmap4_char_index ng s c"
| "cmap_char_index ng (CMap6 s) c = tt_cmap6_char_index ng s c"
| "cmap_char_index ng (CMap8 s) c = tt_cmap8_char_index ng s c"
| "cmap_char_index ng (CMap10 s) c = tt_cmap10_char_index ng s c"
| "cmap_char_index ng (CMap12 s) c = tt_cmap12_char_index ng s c"
| "cmap_char_index ng (CMap13 s) c = tt_cmap13_char_index ng s c"
| "cmap_char_index ng (CMap14 s) c = tt_cmap14_char_index ng s c"

fun cmap_char_next :: "nat \<Rightarrow> cmap_object \<Rightarrow> nat \<Rightarrow> (nat \<times> nat \<times> cmap_object) option" where
  "cmap_char_next ng (CMap0 s) c = map_option (map_prod id (map_prod id CMap0)) (tt_cmap0_char_next ng s c)"
| "cmap_char_next ng (CMap2 s) c = map_option (map_prod id (map_prod id CMap2)) (tt_cmap2_char_next ng s c)"
| "cmap_char_next ng (CMap4 s) c = map_option (map_prod id (map_prod id CMap4)) (tt_cmap4_char_next ng s c)"
| "cmap_char_next ng (CMap6 s) c = map_option (map_prod id (map_prod id CMap6)) (tt_cmap6_char_next ng s c)"
| "cmap_char_next ng (CMap8 s) c = map_option (map_prod id (map_prod id CMap8)) (tt_cmap8_char_next ng s c)"
| "cmap_char_next ng (CMap10 s) c = map_option (map_prod id (map_prod id CMap10)) (tt_cmap10_char_next ng s c)"
| "cmap_char_next ng (CMap12 s) c = map_option (map_prod id (map_prod id CMap12)) (tt_cmap12_char_next ng s c)"
| "cmap_char_next ng (CMap13 s) c = map_option (map_prod id (map_prod id CMap13)) (tt_cmap13_char_next ng s c)"
| "cmap_char_next ng (CMap14 s) c = map_option (map_prod id (map_prod id CMap14)) (tt_cmap14_char_next ng s c)"

fun tt_get_cmap_info :: "cmap_object \<Rightarrow> TT_CMapInfo option" where
  "tt_get_cmap_info (CMap0 s) = tt_cmap0_get_info s"
| "tt_get_cmap_info (CMap2 s) = tt_cmap2_get_info s"
| "tt_get_cmap_info (CMap4 s) = tt_cmap4_get_info s"
| "tt_get_cmap_info (CMap6 s) = tt_cmap6_get_info s"
| "tt_get_cmap_info (CMap8 s) = tt_cmap8_get_info s"
| "tt_get_cmap_info (CMap10 s) = tt_cmap10_get_info s"
| "tt_get_cmap_info (CMap12 s) = tt_cmap12_get_info s"
| "tt_get_cmap_info (CMap13 s) = tt_cmap13_get_info s"
| "tt_get_cmap_info (CMap14 s) = tt_cmap14_get_info s"

section \<open>Faces\<close>

datatype FT_Encoding =
    FT_ENCODING_NONE | FT_ENCODING_MS_SYMBOL | FT_ENCODING_UNICODE | FT_ENCODING_SJIS
  | FT_ENCODING_PRC | FT_ENCODING_BIG5 | FT_ENCODING_WANSUNG | FT_ENCODING_JOHAB
  | FT_ENCODING_ADOBE_STANDARD | FT_ENCODING_ADOBE_EXPERT | FT_ENCODING_ADOBE_CUSTOM
  | FT_ENCODING_ADOBE_LATIN_1 | FT_ENCODING_OLD_LATIN_2 | FT_ENCODING_APPLE_ROMAN

text \<open>A charmap: its handle (the address of the object), \<open>FT_CharMapRec\<close>, and the object.\<close>

record FT_CMapRec =
  cm_handle :: nat
  cm_platform :: nat
  cm_encoding_id :: nat
  cm_encoding :: FT_Encoding
  cm_object :: cmap_object

text \<open>
  The fields of \<open>TT_FaceRec\<close> that matter here: \<open>cmap_table\<close> with its size,
  \<open>max_profile.numGlyphs\<close>, \<open>root.num_glyphs\<close>, \<open>root.charmaps\<close>, \<open>root.charmap\<close>. Handles from
  \<open>fresh_handle\<close> on are not in use.
\<close>

record TT_Face =
  cmap_table :: "bytes option"
  numGlyphs :: nat
  num_glyphs :: nat
  charmaps :: "FT_CMapRec list"
  charmap :: "nat option"
  fresh_handle :: nat

text \<open>
  \<open>FT_CMap_New\<close>: \<open>mem\<close> says whether the memory manager grants the object and the longer array.
  The error, and the face.
\<close>

definition FT_CMap_New ::
    "bool \<times> bool \<Rightarrow> nat \<Rightarrow> bytes \<Rightarrow> nat \<Rightarrow> nat \<Rightarrow> FT_Encoding \<Rightarrow> TT_Face \<Rightarrow> (ft_error option \<times> TT_Face) option" where
  "FT_CMap_New mem format t platform enc_id enc face =
     (if \<not> fst mem then Some (Some Out_Of_Memory, face)
      else do {
        obj \<leftarrow> cmap_object_init format t;
        if \<not> snd mem then Some (Some Out_Of_Memory, face)
        else Some (None, face\<lparr>charmaps := charmaps face @
            [\<lparr>cm_handle = fresh_handle face, cm_platform = platform, cm_encoding_id = enc_id,
              cm_encoding = enc, cm_object = obj\<rparr>],
          fresh_handle := Suc (fresh_handle face)\<rparr>)
      })"

text \<open>One sub-table of \<open>tt_face_build_cmaps\<close>: look up the class, validate, make the object.\<close>

definition tt_face_add_cmap ::
    "setjmp_env \<Rightarrow> bool \<times> bool \<Rightarrow> bytes \<Rightarrow> nat \<Rightarrow> nat \<Rightarrow> TT_Face \<Rightarrow> TT_Face option" where
  "tt_face_add_cmap env mem t platform enc_id face = do {
     format \<leftarrow> peek_ushort t 0;
     case tt_cmap_class_validate format of
       None \<Rightarrow> Some face
     | Some validate \<Rightarrow>
         (case validate env t FT_VALIDATE_DEFAULT (numGlyphs face) None of
            VFault \<Rightarrow> None
          | VThrow e \<Rightarrow> Some face
          | VRet flags (Some e) \<Rightarrow> Some face
          | VRet flags None \<Rightarrow> do {
              (err, face) \<leftarrow> FT_CMap_New mem format t platform enc_id FT_ENCODING_NONE face;
              if err = None then
                let m = last (charmaps face) in
                Some (face\<lparr>charmaps := butlast (charmaps face) @
                  [m\<lparr>cm_object := cmap_set_flags flags (cm_object m)\<rparr>]\<rparr>)
              else Some face
            })
   }"

text \<open>The loop over the \<open>k\<close> records left, from \<open>p\<close> on; \<open>mem\<close> is indexed by \<open>k\<close>.\<close>

fun tt_face_build_loop ::
    "setjmp_env \<Rightarrow> (nat \<Rightarrow> bool \<times> bool) \<Rightarrow> bytes \<Rightarrow> nat \<Rightarrow> nat \<Rightarrow> TT_Face \<Rightarrow> TT_Face option" where
  "tt_face_build_loop env mem table p 0 face = Some face"
| "tt_face_build_loop env mem table p (Suc k) face =
     (if p + 8 > length table then Some face
      else do {
        platform \<leftarrow> peek_ushort table p;
        enc_id \<leftarrow> peek_ushort table (p + 2);
        offset \<leftarrow> peek_ulong table (p + 4);
        face \<leftarrow> (if offset \<noteq> 0 \<and> offset \<le> length table - 2
                 then tt_face_add_cmap env (mem k) (drop offset table) platform enc_id face
                 else Some face);
        tt_face_build_loop env mem table (p + 8) k face
      })"

definition tt_face_build_cmaps ::
    "setjmp_env \<Rightarrow> (nat \<Rightarrow> bool \<times> bool) \<Rightarrow> TT_Face \<Rightarrow> (ft_error option \<times> TT_Face) option" where
  "tt_face_build_cmaps env mem face =
     (case cmap_table face of
        None \<Rightarrow> Some (Some Invalid_Table, face)
      | Some table \<Rightarrow>
          if length table < 4 then Some (Some Invalid_Table, face)
          else do {
            num_cmaps \<leftarrow> peek_ushort table 2;
            face \<leftarrow> tt_face_build_loop env mem table 4 num_cmaps face;
            Some (None, face)
          })"

section \<open>Encodings\<close>

text \<open>\<open>-1\<close> stands for any encoding id of the platform.\<close>

definition tt_encodings :: "(nat \<times> int \<times> FT_Encoding) list" where
  "tt_encodings =
     [(2, - 1, FT_ENCODING_UNICODE), (0, - 1, FT_ENCODING_UNICODE), (1, 0, FT_ENCODING_APPLE_ROMAN),
      (3, 0, FT_ENCODING_MS_SYMBOL), (3, 10, FT_ENCODING_UNICODE), (3, 1, FT_ENCODING_UNICODE),
      (3, 2, FT_ENCODING_SJIS), (3, 3, FT_ENCODING_PRC), (3, 4, FT_ENCODING_BIG5),
      (3, 5, FT_ENCODING_WANSUNG), (3, 6, FT_ENCODING_JOHAB)]"

definition sfnt_find_encoding :: "nat \<Rightarrow> nat \<Rightarrow> FT_Encoding" where
  "sfnt_find_encoding platform_id encoding_id =
     (case find (\<lambda>(p, e, enc). p = platform_id \<and> (e = int encoding_id \<or> e = - 1)) tt_encodings of
        None \<Rightarrow> FT_ENCODING_NONE | Some (p, e, enc) \<Rightarrow> enc)"

text \<open>The loop of \<open>sfnt_load_face\<close> over the charmaps.\<close>

definition sfnt_set_encodings :: "TT_Face \<Rightarrow> TT_Face" where
  "sfnt_set_encodings face = face\<lparr>charmaps :=
     map (\<lambda>m. m\<lparr>cm_encoding := sfnt_find_encoding (cm_platform m) (cm_encoding_id m)\<rparr>) (charmaps face)\<rparr>"

section \<open>Looking up and enumerating characters\<close>

text \<open>The charmap \<open>face->charmap\<close> points to, and its replacement after a call that changed it.\<close>

definition current_cmap :: "TT_Face \<Rightarrow> FT_CMapRec option" where
  "current_cmap face =
     (case charmap face of None \<Rightarrow> None | Some h \<Rightarrow> find (\<lambda>m. cm_handle m = h) (charmaps face))"

definition put_object :: "nat \<Rightarrow> cmap_object \<Rightarrow> TT_Face \<Rightarrow> TT_Face" where
  "put_object h obj face = face\<lparr>charmaps :=
     map (\<lambda>m. if cm_handle m = h then m\<lparr>cm_object := obj\<rparr> else m) (charmaps face)\<rparr>"

definition FT_Get_Char_Index :: "TT_Face \<Rightarrow> nat \<Rightarrow> nat option" where
  "FT_Get_Char_Index face charcode =
     (case current_cmap face of
        None \<Rightarrow> Some 0
      | Some m \<Rightarrow> do {
          result \<leftarrow> cmap_char_index (num_glyphs face) (cm_object m) (charcode mod 4294967296);
          Some (if result \<ge> num_glyphs face then 0 else result)
        })"

text \<open>The \<open>do ... while\<close> loop of \<open>FT_Get_Next_Char\<close>, and \<open>*agindex\<close>, \<open>code\<close> after it.\<close>

partial_function (option) ft_next_char_loop ::
    "nat \<Rightarrow> cmap_object \<Rightarrow> nat \<Rightarrow> (nat \<times> nat \<times> cmap_object) option" where
  "ft_next_char_loop ng obj code = do {
     (gindex, code, obj) \<leftarrow> cmap_char_next ng obj code;
     if gindex \<ge> ng then ft_next_char_loop ng obj code else Some (gindex, code, obj)
   }"

text \<open>The character code returned, \<open>*agindex\<close>, and the face.\<close>

definition FT_Get_Next_Char :: "TT_Face \<Rightarrow> nat \<Rightarrow> (nat \<times> nat \<times> TT_Face) option" where
  "FT_Get_Next_Char face charcode =
     (case current_cmap face of
        None \<Rightarrow> Some (0, 0, face)
      | Some m \<Rightarrow>
          if num_glyphs face = 0 then Some (0, 0, face)
          else do {
            (gindex, code, obj) \<leftarrow> ft_next_char_loop (num_glyphs face) (cm_object m) (charcode mod 4294967296);
            Some (if gindex = 0 then 0 else code, gindex, put_object (cm_handle m) obj face)
          })"

definition FT_Get_First_Char :: "TT_Face \<Rightarrow> (nat \<times> nat \<times> TT_Face) option" where
  "FT_Get_First_Char face =
     (if current_cmap face \<noteq> None \<and> num_glyphs face \<noteq> 0 then do {
        gindex \<leftarrow> FT_Get_Char_Index face 0;
        if gindex = 0 then FT_Get_Next_Char face 0 else Some (0, gindex, face)
      } else Some (0, 0, face))"

section \<open>Choosing a charmap\<close>

text \<open>The format, or \<open>None\<close> for a stray read.\<close>

definition FT_Get_CMap_Format :: "FT_CMapRec \<Rightarrow> int option" where
  "FT_Get_CMap_Format m = do { info \<leftarrow> tt_get_cmap_info (cm_object m); Some (int (info_format info)) }"

text \<open>The search loops: the first charmap, in the order of the list, that passes the test.\<close>

fun find_charmap :: "('a \<Rightarrow> bool option) \<Rightarrow> 'a list \<Rightarrow> 'a option option" where
  "find_charmap P [] = Some None"
| "find_charmap P (x # xs) = do { b \<leftarrow> P x; if b then Some (Some x) else find_charmap P xs }"

definition is_ucs4 :: "FT_CMapRec \<Rightarrow> bool option" where
  "is_ucs4 m =
     (if cm_encoding m \<noteq> FT_ENCODING_UNICODE then Some False
      else if cm_platform m = 3 \<and> cm_encoding_id m = 10 \<or> cm_platform m = 0 \<and> cm_encoding_id m = 4 then Some True
      else if cm_platform m = 0 \<and> cm_encoding_id m = 6 then do {
        format \<leftarrow> FT_Get_CMap_Format m;
        Some (format = 13)
      } else Some False)"

definition find_unicode_charmap :: "TT_Face \<Rightarrow> (ft_error option \<times> TT_Face) option" where
  "find_unicode_charmap face =
     (if charmaps face = [] then Some (Some Invalid_CharMap_Handle, face)
      else do {
        ucs4 \<leftarrow> find_charmap is_ucs4 (rev (charmaps face));
        case ucs4 of
          Some m \<Rightarrow> Some (None, face\<lparr>charmap := Some (cm_handle m)\<rparr>)
        | None \<Rightarrow> do {
            ucs2 \<leftarrow> find_charmap (\<lambda>m. Some (cm_encoding m = FT_ENCODING_UNICODE)) (rev (charmaps face));
            case ucs2 of
              Some m \<Rightarrow> Some (None, face\<lparr>charmap := Some (cm_handle m)\<rparr>)
            | None \<Rightarrow> Some (Some Invalid_CharMap_Handle, face)
          }
      })"

definition FT_Select_Charmap :: "TT_Face \<Rightarrow> FT_Encoding \<Rightarrow> (ft_error option \<times> TT_Face) option" where
  "FT_Select_Charmap face encoding =
     (if encoding = FT_ENCODING_NONE \<and> charmaps face = [] then Some (Some Invalid_Argument, face)
      else if encoding = FT_ENCODING_UNICODE then find_unicode_charmap face
      else if charmaps face = [] then Some (Some Invalid_CharMap_Handle, face)
      else (case find (\<lambda>m. cm_encoding m = encoding) (charmaps face) of
          Some m \<Rightarrow> Some (None, face\<lparr>charmap := Some (cm_handle m)\<rparr>)
        | None \<Rightarrow> Some (Some Invalid_Argument, face)))"

definition FT_Set_Charmap :: "TT_Face \<Rightarrow> nat option \<Rightarrow> (ft_error option \<times> TT_Face) option" where
  "FT_Set_Charmap face handle =
     (case handle of
        None \<Rightarrow> Some (Some Invalid_CharMap_Handle, face)
      | Some h \<Rightarrow>
          if charmaps face = [] then Some (Some Invalid_CharMap_Handle, face)
          else do {
            found \<leftarrow> find_charmap (\<lambda>m. if cm_handle m = h then do {
                format \<leftarrow> FT_Get_CMap_Format m;
                Some (format \<noteq> 14)
              } else Some False) (charmaps face);
            case found of
              Some m \<Rightarrow> Some (None, face\<lparr>charmap := Some h\<rparr>)
            | None \<Rightarrow> Some (Some Invalid_Argument, face)
          })"

text \<open>The index of a charmap of the face; \<open>FT_ASSERT\<close> is compiled out, so a stray handle gives \<open>num_charmaps\<close>.\<close>

fun charmap_position :: "nat \<Rightarrow> FT_CMapRec list \<Rightarrow> nat option" where
  "charmap_position h [] = None"
| "charmap_position h (m # ms) = (if cm_handle m = h then Some 0 else map_option Suc (charmap_position h ms))"

definition FT_Get_Charmap_Index :: "TT_Face \<Rightarrow> nat option \<Rightarrow> int" where
  "FT_Get_Charmap_Index face handle =
     (case handle of
        None \<Rightarrow> - 1
      | Some h \<Rightarrow> (case charmap_position h (charmaps face) of
                   None \<Rightarrow> int (length (charmaps face)) | Some i \<Rightarrow> int i))"

text \<open>
  \<open>FT_CMap_Done\<close>: the array is shortened first (\<open>granted\<close>), then the charmaps after position
  \<open>i\<close> move down one by one, the last one from the copy taken before.
\<close>

fun shift_charmaps :: "FT_CMapRec \<Rightarrow> nat \<Rightarrow> nat \<Rightarrow> nat \<Rightarrow> FT_CMapRec list \<Rightarrow> FT_CMapRec list option" where
  "shift_charmaps last_cm n j 0 ms = Some ms"
| "shift_charmaps last_cm n j (Suc k) ms =
     (if j = n - 1 then
        if j - 1 < length ms then shift_charmaps last_cm n (j + 1) k (ms[j - 1 := last_cm]) else None
      else if j < length ms then shift_charmaps last_cm n (j + 1) k (ms[j - 1 := ms ! j]) else None)"

definition FT_CMap_Done :: "bool \<Rightarrow> nat \<Rightarrow> TT_Face \<Rightarrow> TT_Face option" where
  "FT_CMap_Done granted h face =
     (case charmap_position h (charmaps face) of
        None \<Rightarrow> Some face
      | Some i \<Rightarrow>
          if \<not> granted then Some face
          else do {
            let n = length (charmaps face);
            ms \<leftarrow> shift_charmaps (last (charmaps face)) n (i + 1) (n - (i + 1)) (take (n - 1) (charmaps face));
            Some (face\<lparr>charmaps := ms, charmap := (if charmap face = Some h then None else charmap face)\<rparr>)
          })"

section \<open>Variation selectors\<close>

definition find_variant_selector_charmap :: "TT_Face \<Rightarrow> FT_CMapRec option option" where
  "find_variant_selector_charmap face =
     find_charmap (\<lambda>m. if cm_platform m = 0 \<and> cm_encoding_id m = 5 then do {
         format \<leftarrow> FT_Get_CMap_Format m;
         Some (format = 14)
       } else Some False) (charmaps face)"

text \<open>\<open>vcmap->clazz->char_var_index\<close> and its like: \<open>NULL\<close> but for format 14.\<close>

fun cmap14_object :: "cmap_object \<Rightarrow> TT_CMap14 option" where
  "cmap14_object (CMap14 st) = Some st"
| "cmap14_object _ = None"

definition FT_Face_GetCharVariantIndex :: "TT_Face \<Rightarrow> nat \<Rightarrow> nat \<Rightarrow> nat option" where
  "FT_Face_GetCharVariantIndex face charcode selector =
     (case current_cmap face of
        None \<Rightarrow> Some 0
      | Some u \<Rightarrow>
          if cm_encoding u \<noteq> FT_ENCODING_UNICODE then Some 0
          else do {
            v \<leftarrow> find_variant_selector_charmap face;
            case v of
              None \<Rightarrow> Some 0
            | Some m \<Rightarrow> do {
                st \<leftarrow> cmap14_object (cm_object m);
                tt_cmap14_char_var_index st (cmap_char_index (num_glyphs face) (cm_object u))
                  (charcode mod 4294967296) (selector mod 4294967296)
              }
          })"

definition FT_Face_GetCharVariantIsDefault :: "TT_Face \<Rightarrow> nat \<Rightarrow> nat \<Rightarrow> int option" where
  "FT_Face_GetCharVariantIsDefault face charcode selector = do {
     v \<leftarrow> find_variant_selector_charmap face;
     case v of
       None \<Rightarrow> Some (- 1)
     | Some m \<Rightarrow> do {
         st \<leftarrow> cmap14_object (cm_object m);
         tt_cmap14_char_var_isdefault st (charcode mod 4294967296) (selector mod 4294967296)
       }
   }"

text \<open>The three list queries: whether an array is returned, and the face whose object holds it.\<close>

definition ft_variant_query ::
    "(TT_CMap14 \<Rightarrow> (bool \<times> TT_CMap14) option) \<Rightarrow> TT_Face \<Rightarrow> (bool \<times> TT_Face) option" where
  "ft_variant_query query face = do {
     v \<leftarrow> find_variant_selector_charmap face;
     case v of
       None \<Rightarrow> Some (False, face)
     | Some m \<Rightarrow> do {
         st \<leftarrow> cmap14_object (cm_object m);
         (b, st) \<leftarrow> query st;
         Some (b, put_object (cm_handle m) (CMap14 st) face)
       }
   }"

definition FT_Face_GetVariantSelectors :: "(nat \<Rightarrow> bool) \<Rightarrow> TT_Face \<Rightarrow> (bool \<times> TT_Face) option" where
  "FT_Face_GetVariantSelectors granted = ft_variant_query (tt_cmap14_variants granted)"

definition FT_Face_GetVariantsOfChar :: "(nat \<Rightarrow> bool) \<Rightarrow> TT_Face \<Rightarrow> nat \<Rightarrow> (bool \<times> TT_Face) option" where
  "FT_Face_GetVariantsOfChar granted face charcode =
     ft_variant_query (\<lambda>st. tt_cmap14_char_variants granted st (charcode mod 4294967296)) face"

definition FT_Face_GetCharsOfVariant :: "(nat \<Rightarrow> bool) \<Rightarrow> TT_Face \<Rightarrow> nat \<Rightarrow> (bool \<times> TT_Face) option" where
  "FT_Face_GetCharsOfVariant granted face selector =
     ft_variant_query (\<lambda>st. tt_cmap14_variant_chars granted st (selector mod 4294967296)) face"

end
