(* ===== verification/Ft_Face_Chars.thy ===== *)
theory Ft_Face_Chars
  imports Ft_CharMap
begin

text \<open>
  What the charmaps of a face promise: the objects of all classes satisfy the interfaces of
  \<open>Tt_CMap\<close>, and the lookup and the enumeration of \<open>ftobjs.c\<close> are right over any of them.
\<close>

section \<open>The objects\<close>

text \<open>The map and the invariant of an object, by the format number its sub-table starts with.\<close>

definition table_map :: "bytes \<Rightarrow> nat \<Rightarrow> nat \<Rightarrow> nat" where
  "table_map t fl =
     (if u16 t 0 = 0 then cmap0_map t fl
      else if u16 t 0 = 2 then cmap2_map t fl
      else if u16 t 0 = 4 then cmap4_map t fl
      else if u16 t 0 = 6 then cmap6_map t fl
      else if u16 t 0 = 8 then cmap8_map t fl
      else if u16 t 0 = 10 then cmap10_map t fl
      else if u16 t 0 = 12 then cmap12_map t fl
      else if u16 t 0 = 13 then cmap13_map t fl
      else cmap14_map t fl)"

fun obj_ok :: "bytes \<Rightarrow> nat \<Rightarrow> cmap_object \<Rightarrow> bool" where
  "obj_ok t fl (CMap0 s) = (u16 t 0 = 0 \<and> cmap0_ok t fl s)"
| "obj_ok t fl (CMap2 s) = (u16 t 0 = 2 \<and> cmap2_ok t fl s)"
| "obj_ok t fl (CMap4 s) = (u16 t 0 = 4 \<and> cmap4_ok t fl s)"
| "obj_ok t fl (CMap6 s) = (u16 t 0 = 6 \<and> cmap6_ok t fl s)"
| "obj_ok t fl (CMap8 s) = (u16 t 0 = 8 \<and> cmap8_ok t fl s)"
| "obj_ok t fl (CMap10 s) = (u16 t 0 = 10 \<and> cmap10_ok t fl s)"
| "obj_ok t fl (CMap12 s) = (u16 t 0 = 12 \<and> cmap12_ok t fl s)"
| "obj_ok t fl (CMap13 s) = (u16 t 0 = 13 \<and> cmap12_ok t fl s)"
| "obj_ok t fl (CMap14 s) = (u16 t 0 = 14 \<and> cmap14_ok t fl s)"

lemma obj_index:
  "obj_ok t fl obj \<Longrightarrow> c < 4294967296 \<Longrightarrow>
   \<exists>g. cmap_char_index ng obj c = Some g \<and> clip_glyph ng g = clip_glyph ng (table_map t fl c)"
  by (cases obj) (simp_all add: table_map_def cmap0.index_gmap cmap2.index_gmap cmap4.index_gmap
      cmap6.index_gmap cmap8.index_gmap cmap10.index_gmap cmap12.index_gmap cmap13.index_gmap cmap14.index_gmap)

text \<open>\<open>char_next\<close> of any object, the largest code included.\<close>

definition step_ok :: "bytes \<Rightarrow> nat \<Rightarrow> nat \<Rightarrow> nat \<Rightarrow> nat \<times> nat \<times> cmap_object \<Rightarrow> bool" where
  "step_ok t fl ng c r = (case r of (g, c', obj') \<Rightarrow> obj_ok t fl obj' \<and> c' < 4294967296 \<and>
     (g \<noteq> 0 \<longrightarrow> (if c < 4294967295 then c < c' else c' < 4294967295) \<and>
        (c' = 4294967295 \<longrightarrow> (\<exists>c''. cmap_char_next ng obj' c' = Some (0, c'', obj')))))"

lemma top_next:
  "cmap8_ok t fl s \<Longrightarrow> tt_cmap8_char_next ng s 4294967295 = Some (0, 4294967295, s)"
  "cmap10_ok t fl s \<Longrightarrow> tt_cmap10_char_next ng s 4294967295 = Some (0, 4294967295, s)"
  "tt_cmap12_char_next ng st 4294967295 = Some (0, 4294967295, st)"
  "tt_cmap13_char_next ng st 4294967295 = Some (0, 4294967295, st)"
  by (simp_all add: tt_cmap8_char_next_def tt_cmap10_char_next_def tt_cmap12_char_next_def
      tt_cmap13_char_next_def cmap8_ok_def cmap10_ok_def)

lemma step_top:
  assumes "obj_ok t fl obj'" "c < 4294967296" "c' < 4294967296" "g \<noteq> 0 \<longrightarrow> c < 4294967295 \<longrightarrow> c < c'"
    and "c = 4294967295 \<Longrightarrow> g = 0" "\<exists>c''. cmap_char_next ng obj' 4294967295 = Some (0, c'', obj')"
  shows "step_ok t fl ng c (g, c', obj')"
proof (cases "c < 4294967295")
  case True
  then show ?thesis using assms by (auto simp: step_ok_def)
next
  case False
  then have "c = 4294967295" using assms(2) by linarith
  then show ?thesis using assms by (simp add: step_ok_def)
qed

lemma obj_next:
  assumes "obj_ok t fl obj" "c < 4294967296"
  shows "\<exists>r. cmap_char_next ng obj c = Some r \<and> step_ok t fl ng c r"
proof (cases obj)
  case (CMap0 s)
  then have s: "s = t" "262 \<le> length t" using assms(1) by (simp_all add: cmap0_ok_def)
  obtain g c' where "tt_cmap0_char_next ng t c = Some (g, c', t)" "c' < 256"
    "c < 4294967295 \<longrightarrow> next_char_ok 4294967296 ng (cmap0_map t fl) c (g, c')"
    using cmap0_next [OF s(2) assms(2)] by blast
  then show ?thesis using CMap0 assms(1) s(1) by (auto simp: step_ok_def next_char_ok_def)
next
  case (CMap2 s)
  then have s: "s = t" "cmap2_ok t fl t" using assms(1) by (simp_all add: cmap2_ok_def)
  obtain g c' where "tt_cmap2_char_next ng t c = Some (g, c', t)" "c' < 4294967295"
    "g \<noteq> 0 \<longrightarrow> c < 4294967295 \<longrightarrow> c < c'"
    using cmap2_next_total [OF s(2) assms(2)] by blast
  then show ?thesis using CMap2 assms(1) s(1) by (auto simp: step_ok_def)
next
  case (CMap4 s)
  then obtain g c' s' where n: "tt_cmap4_char_next ng s c = Some (g, c', s')" "cmap4_ok t fl s'"
    "c' < 4294967296" "g \<noteq> 0 \<longrightarrow> c < c'"
    using cmap4_next_total [of t fl s c ng] assms by auto
  have "c' = 4294967295 \<Longrightarrow> tt_cmap4_char_next ng s' c' = Some (0, c', s')"
    by (simp add: tt_cmap4_char_next_def)
  then show ?thesis using CMap4 assms n by (auto simp: step_ok_def)
next
  case (CMap6 s)
  then have s: "s = t" "10 + 2 * u16 t 8 \<le> length t" using assms(1) by (simp_all add: cmap6_ok_def)
  obtain g c' where "tt_cmap6_char_next ng t c = Some (g, c', t)" "c' < 4294967296" "g \<noteq> 0 \<longrightarrow> c' < 65536"
    "c < 4294967295 \<longrightarrow> next_char_ok 65536 ng (cmap6_map t fl) c (g, c')"
    using cmap6_next [OF s(2) assms(2)] by blast
  then show ?thesis using CMap6 assms(1) s(1) by (auto simp: step_ok_def next_char_ok_def)
next
  case (CMap8 s)
  obtain g c' s' where n: "tt_cmap8_char_next ng s c = Some (g, c', s')" "cmap8_ok t fl s'" "c' < 4294967296"
    "g \<noteq> 0 \<longrightarrow> c < 4294967295 \<longrightarrow> c < c'"
    using cmap8.next_total [of t fl s c ng] CMap8 assms by auto
  have "step_ok t fl ng c (g, c', CMap8 s')"
    using CMap8 assms n top_next(1) [of t fl] by (intro step_top) auto
  then show ?thesis using CMap8 n(1) by simp
next
  case (CMap10 s)
  obtain g c' s' where n: "tt_cmap10_char_next ng s c = Some (g, c', s')" "cmap10_ok t fl s'" "c' < 4294967296"
    "g \<noteq> 0 \<longrightarrow> c < 4294967295 \<longrightarrow> c < c'"
    using cmap10.next_total [of t fl s c ng] CMap10 assms by auto
  have "step_ok t fl ng c (g, c', CMap10 s')"
    using CMap10 assms n top_next(2) [of t fl] by (intro step_top) auto
  then show ?thesis using CMap10 n(1) by simp
next
  case (CMap12 s)
  obtain g c' s' where n: "tt_cmap12_char_next ng s c = Some (g, c', s')" "cmap12_ok t fl s'" "c' < 4294967296"
    "g \<noteq> 0 \<longrightarrow> c < 4294967295 \<longrightarrow> c < c'"
    using cmap12.next_total [of t fl s c ng] CMap12 assms by auto
  have "step_ok t fl ng c (g, c', CMap12 s')"
    using CMap12 assms n top_next(3) by (intro step_top) auto
  then show ?thesis using CMap12 n(1) by simp
next
  case (CMap13 s)
  obtain g c' s' where n: "tt_cmap13_char_next ng s c = Some (g, c', s')" "cmap12_ok t fl s'" "c' < 4294967296"
    "g \<noteq> 0 \<longrightarrow> c < 4294967295 \<longrightarrow> c < c'"
    using cmap13.next_total [of t fl s c ng] CMap13 assms by auto
  have "step_ok t fl ng c (g, c', CMap13 s')"
    using CMap13 assms n top_next(4) by (intro step_top) auto
  then show ?thesis using CMap13 n(1) by simp
next
  case (CMap14 s)
  then show ?thesis using assms by (simp add: step_ok_def tt_cmap14_char_next_def)
qed

interpretation cmap_object: tt_cmap_steps cmap_char_next obj_ok
proof
  show "\<exists>g c' st'. cmap_char_next ng st c = Some (g, c', st') \<and> obj_ok t fl st' \<and> c' < 4294967296 \<and>
      (g \<noteq> 0 \<longrightarrow> c < 4294967295 \<longrightarrow> c < c')"
    if "obj_ok t fl st" "c < 4294967296" for t fl st c ng
    using obj_next [OF that, of ng] by (auto simp: step_ok_def)
qed

section \<open>Objects that enumerate in order\<close>

text \<open>All but format 2 and the tables of format 4 that are not sorted.\<close>

definition in_order :: "bytes \<Rightarrow> nat \<Rightarrow> bool" where
  "in_order t fl \<longleftrightarrow> u16 t 0 \<noteq> 2 \<and> (u16 t 0 = 4 \<longrightarrow> sorted4 t fl)"

text \<open>The codes that \<open>char_next\<close> reports; format 6 stops at \<open>0xFFFF\<close>.\<close>

definition enum_map :: "bytes \<Rightarrow> nat \<Rightarrow> nat \<Rightarrow> nat" where
  "enum_map t fl c = (if u16 t 0 = 6 \<and> c \<ge> 65536 then 0 else table_map t fl c)"

lemma enum_map_eq:
  "u16 t 0 = 0 \<Longrightarrow> enum_map t fl = cmap0_map t fl" "u16 t 0 = 8 \<Longrightarrow> enum_map t fl = cmap8_map t fl"
  "u16 t 0 = 10 \<Longrightarrow> enum_map t fl = cmap10_map t fl" "u16 t 0 = 12 \<Longrightarrow> enum_map t fl = cmap12_map t fl"
  "u16 t 0 = 13 \<Longrightarrow> enum_map t fl = cmap13_map t fl"
  by (simp_all add: enum_map_def table_map_def fun_eq_iff)

definition enum_ok :: "bytes \<Rightarrow> nat \<Rightarrow> cmap_object \<Rightarrow> bool" where
  "enum_ok t fl obj \<longleftrightarrow> obj_ok t fl obj \<and> in_order t fl \<and>
     (case obj of CMap4 st \<Rightarrow> cmap4_sorted_ok t fl st | _ \<Rightarrow> True)"

lemma next_char_ok_65536:
  assumes "next_char_ok 65536 ng f c r" "\<And>d. d < 65536 \<Longrightarrow> h d = f d" "\<And>d. 65536 \<le> d \<Longrightarrow> h d = 0"
  shows "next_char_ok 4294967296 ng h c r"
proof (cases "fst r = 0")
  case True
  have "clip_glyph ng (h d) = 0" if "c < d" for d
    using assms True that by (cases "d < 65536") (auto simp: next_char_ok_def)
  then show ?thesis using True by (simp add: next_char_ok_def)
next
  case False
  then show ?thesis using assms by (auto simp: next_char_ok_def)
qed

lemma enum_next:
  assumes ok: "enum_ok t fl obj" and c: "c < 4294967295"
  shows "\<exists>g c' obj'. cmap_char_next ng obj c = Some (g, c', obj') \<and> enum_ok t fl obj' \<and>
    c' < 4294967296 \<and> next_char_ok 4294967296 ng (enum_map t fl) c (g, c')"
proof -
  have o: "obj_ok t fl obj" "in_order t fl" using ok by (simp_all add: enum_ok_def)
  have c': "c < 4294967296" using c by simp
  show ?thesis
  proof (cases obj)
    case (CMap0 s)
    then obtain g e s' where n: "tt_cmap0_char_next ng s c = Some (g, e, s')" "cmap0_ok t fl s'" "e < 4294967296"
      using cmap0.next_total [OF _ c', of t fl s ng] o(1) by auto
    then have "next_char_ok 4294967296 ng (cmap0_map t fl) c (g, e)"
      using CMap0 o(1) c by (intro cmap0.next_least) auto
    then show ?thesis using CMap0 n o by (simp add: enum_ok_def enum_map_eq)
  next
    case (CMap2 s)
    then show ?thesis using o by (simp add: in_order_def)
  next
    case (CMap4 s)
    then have so: "cmap4_sorted_ok t fl s" using ok by (simp add: enum_ok_def)
    obtain g e s' where n: "tt_cmap4_char_next ng s c = Some (g, e, s')" "cmap4_sorted_ok t fl s'" "e < 4294967296"
      "next_char_ok 65536 ng (cmap4_map t fl) c (g, e)"
      using next4_sorted [OF so c'] by blast
    have "next_char_ok 4294967296 ng (enum_map t fl) c (g, e)"
      using CMap4 o(1) by (intro next_char_ok_65536 [OF n(4)]) (simp_all add: enum_map_def table_map_def cmap4_map_def)
    then show ?thesis using CMap4 n(1-3) o by (simp add: enum_ok_def cmap4_sorted_ok_def)
  next
    case (CMap6 s)
    then obtain g e s' where n: "tt_cmap6_char_next ng s c = Some (g, e, s')" "cmap6_ok t fl s'" "e < 4294967296"
      using cmap6.next_total [OF _ c', of t fl s ng] o(1) by auto
    then have "next_char_ok 65536 ng (cmap6_map t fl) c (g, e)"
      using CMap6 o(1) c by (intro cmap6.next_least) auto
    then have "next_char_ok 4294967296 ng (enum_map t fl) c (g, e)"
      using CMap6 o(1) by (elim next_char_ok_65536) (simp_all add: enum_map_def table_map_def)
    then show ?thesis using CMap6 n o by (simp add: enum_ok_def)
  next
    case (CMap8 s)
    then obtain g e s' where n: "tt_cmap8_char_next ng s c = Some (g, e, s')" "cmap8_ok t fl s'" "e < 4294967296"
      using cmap8.next_total [OF _ c', of t fl s ng] o(1) by auto
    then have "next_char_ok 4294967296 ng (cmap8_map t fl) c (g, e)"
      using CMap8 o(1) c by (intro cmap8.next_least) auto
    then show ?thesis using CMap8 n o by (simp add: enum_ok_def enum_map_eq)
  next
    case (CMap10 s)
    then obtain g e s' where n: "tt_cmap10_char_next ng s c = Some (g, e, s')" "cmap10_ok t fl s'" "e < 4294967296"
      using cmap10.next_total [OF _ c', of t fl s ng] o(1) by auto
    then have "next_char_ok 4294967296 ng (cmap10_map t fl) c (g, e)"
      using CMap10 o(1) c by (intro cmap10.next_least) auto
    then show ?thesis using CMap10 n o by (simp add: enum_ok_def enum_map_eq)
  next
    case (CMap12 s)
    then obtain g e s' where n: "tt_cmap12_char_next ng s c = Some (g, e, s')" "cmap12_ok t fl s'" "e < 4294967296"
      using cmap12.next_total [OF _ c', of t fl s ng] o(1) by auto
    then have "next_char_ok 4294967296 ng (cmap12_map t fl) c (g, e)"
      using CMap12 o(1) c by (intro cmap12.next_least) auto
    then show ?thesis using CMap12 n o by (simp add: enum_ok_def enum_map_eq)
  next
    case (CMap13 s)
    then obtain g e s' where n: "tt_cmap13_char_next ng s c = Some (g, e, s')" "cmap12_ok t fl s'" "e < 4294967296"
      using cmap13.next_total [OF _ c', of t fl s ng] o(1) by auto
    then have "next_char_ok 4294967296 ng (cmap13_map t fl) c (g, e)"
      using CMap13 o(1) c by (intro cmap13.next_least) auto
    then show ?thesis using CMap13 n o by (simp add: enum_ok_def enum_map_eq)
  next
    case (CMap14 s)
    then show ?thesis using o
      by (simp add: enum_ok_def enum_map_def table_map_def tt_cmap14_char_next_def next_char_ok_def cmap14_map_def)
  qed
qed

text \<open>A code \<open>0xFFFFFFFF\<close> with a glyph is the last.\<close>

lemma enum_top:
  assumes "enum_ok t fl obj" "enum_map t fl 4294967295 \<noteq> 0"
  shows "\<exists>c''. cmap_char_next ng obj 4294967295 = Some (0, c'', obj)"
  using assms top_next [where ng = ng]
  by (cases obj) (auto simp: enum_ok_def enum_map_def table_map_def cmap0_map_def cmap4_map_def cmap14_map_def
      in_order_def)

lemma enum_keep:
  assumes "enum_ok t fl obj" "65535 \<le> c" "cmap_char_next ng obj c = Some (g, c', obj')" "obj_ok t fl obj'"
  shows "enum_ok t fl obj'"
  using assms by (cases obj) (auto simp: enum_ok_def tt_cmap4_char_next_def)

interpretation enumerable: tt_cmap_enum cmap_char_next enum_ok enum_map 4294967296
proof
  show "\<exists>g c' st'. cmap_char_next ng st c = Some (g, c', st') \<and> enum_ok t fl st' \<and> c' < 4294967296 \<and>
      (g \<noteq> 0 \<longrightarrow> c < 4294967295 \<longrightarrow> c < c')"
    if "enum_ok t fl st" "c < 4294967296" for t fl st c ng
  proof (cases "c < 4294967295")
    case True
    then show ?thesis using enum_next [OF that(1), of c ng] by (fastforce simp: next_char_ok_def)
  next
    case False
    have "obj_ok t fl st" using that(1) by (simp add: enum_ok_def)
    from obj_next [OF this that(2)] obtain r where r: "cmap_char_next ng st c = Some r" "step_ok t fl ng c r"
      by blast
    obtain g c' st' where "r = (g, c', st')" by (cases r)
    then show ?thesis using r enum_keep [OF that(1) _ r(1) [unfolded \<open>r = (g, c', st')\<close>]] False that(2)
      by (auto simp: step_ok_def)
  qed
  show "next_char_ok 4294967296 ng (enum_map t fl) c (g, c')"
    if "enum_ok t fl st" "c < 4294967295" "cmap_char_next ng st c = Some (g, c', st')"
    for t fl st c g c' st' ng
    using enum_next [OF that(1,2), of ng] that(3) by auto
qed

end
