(* ===== verification/Ft_Face.thy ===== *)
theory Ft_Face
  imports Ft_Face_Chars "HOL-Library.Sublist"
begin

text \<open>
  Faces: which charmaps \<open>tt_face_build_cmaps\<close> makes, and that \<open>FT_Get_Char_Index\<close>,
  \<open>FT_Get_First_Char\<close> and \<open>FT_Get_Next_Char\<close> give the characters of the charmap in use.
\<close>

section \<open>Building the charmaps\<close>

text \<open>The invariant of the list of charmaps.\<close>

definition face_ok :: "TT_Face \<Rightarrow> bool" where
  "face_ok face \<longleftrightarrow> distinct (map cm_handle (charmaps face)) \<and>
     (\<forall>m \<in> set (charmaps face). cm_handle m < fresh_handle face \<and> (\<exists>t fl. obj_ok t fl (cm_object m))) \<and>
     (\<forall>h. charmap face = Some h \<longrightarrow> h \<in> cm_handle ` set (charmaps face))"

text \<open>The flags of a sub-table that the validator of its format accepts.\<close>

definition validated :: "nat \<Rightarrow> bytes \<Rightarrow> nat option" where
  "validated ng t =
     (case tt_cmap_class_validate (u16 t 0) of
        None \<Rightarrow> None
      | Some validate \<Rightarrow>
          (case validate Hosted t FT_VALIDATE_DEFAULT ng None of VRet fl None \<Rightarrow> Some fl | _ \<Rightarrow> None))"

lemma class_in_table: "tt_cmap_class_validate f = Some v \<Longrightarrow> v \<in> set tt_cmap_validators"
  by (auto simp: tt_cmap_class_validate_def tt_cmap_validators_def split: if_splits)

lemma class_agree:
  assumes "tt_cmap_class_validate f = Some v"
  shows "v Hosted t l n None = VRet fl None \<longleftrightarrow> v Freestanding t l n None = VRet fl None"
  using class_in_table [OF assms] cmap0.accepted_by_both cmap2.accepted_by_both cmap4.accepted_by_both
    cmap6.accepted_by_both cmap8.accepted_by_both cmap10.accepted_by_both cmap12.accepted_by_both
    cmap13.accepted_by_both cmap14.accepted_by_both
  by (auto simp: tt_cmap_validators_def)

lemma class_no_fault:
  assumes "tt_cmap_class_validate f = Some v" "length t < 4294967296"
  shows "v Hosted t FT_VALIDATE_DEFAULT n None \<noteq> VFault"
  using class_in_table [OF assms(1)] cmap0.hosted_never_faults [OF assms(2)]
    cmap2.hosted_never_faults [OF assms(2)] cmap4.hosted_never_faults [OF assms(2)]
    cmap6.hosted_never_faults [OF assms(2)] cmap8.hosted_never_faults [OF assms(2)]
    cmap10.hosted_never_faults [OF assms(2)] cmap12.hosted_never_faults [OF assms(2)]
    cmap13.hosted_never_faults [OF assms(2)] cmap14.hosted_never_faults [OF assms(2)]
  by (auto simp: tt_cmap_validators_def)

lemma init_flags:
  "tt_cmap_init t fl = tt_cmap_init t 0" "tt_cmap12_init t fl = tt_cmap12_init t 0"
  "tt_cmap13_init t fl = tt_cmap13_init t 0" "tt_cmap14_init t fl = tt_cmap14_init t 0"
  "tt_cmap4_init t fl = map_option (\<lambda>st. st\<lparr>c4_flags := fl\<rparr>) (tt_cmap4_init t 0)"
  by (simp_all add: tt_cmap_init_def tt_cmap12_init_def tt_cmap13_init_def tt_cmap14_init_def tt_cmap4_init_def
      split: bind_splits)

lemma object_made:
  assumes "validated ng t = Some fl" "length t < 4294967296"
  shows "\<exists>obj. cmap_object_init (u16 t 0) t = Some obj \<and> obj_ok t fl (cmap_set_flags fl obj)"
proof -
  obtain v where v: "tt_cmap_class_validate (u16 t 0) = Some v" "v Hosted t FT_VALIDATE_DEFAULT ng None = VRet fl None"
    using assms(1) by (auto simp: validated_def split: option.splits vres.splits)
  note u = cmap0.accepted_usable [OF assms(2), of Hosted ng fl] cmap2.accepted_usable [OF assms(2), of Hosted ng fl]
    cmap4.accepted_usable [OF assms(2), of Hosted ng fl] cmap6.accepted_usable [OF assms(2), of Hosted ng fl]
    cmap8.accepted_usable [OF assms(2), of Hosted ng fl] cmap10.accepted_usable [OF assms(2), of Hosted ng fl]
    cmap12.accepted_usable [OF assms(2), of Hosted ng fl] cmap13.accepted_usable [OF assms(2), of Hosted ng fl]
    cmap14.accepted_usable [OF assms(2), of Hosted ng fl]
  consider "u16 t 0 = 0" "v = tt_cmap0_validate" | "u16 t 0 = 2" "v = tt_cmap2_validate"
    | "u16 t 0 = 4" "v = tt_cmap4_validate" | "u16 t 0 = 6" "v = tt_cmap6_validate"
    | "u16 t 0 = 8" "v = tt_cmap8_validate" | "u16 t 0 = 10" "v = tt_cmap10_validate"
    | "u16 t 0 = 12" "v = tt_cmap12_validate" | "u16 t 0 = 13" "v = tt_cmap13_validate"
    | "u16 t 0 = 14" "v = tt_cmap14_validate"
    using v(1) by (auto simp: tt_cmap_class_validate_def split: if_splits)
  then show ?thesis
  proof cases
    case 1
    then obtain st where "tt_cmap_init t fl = Some st" "cmap0_ok t fl st" using u(1) v(2) by blast
    then show ?thesis using 1 by (auto simp: cmap_object_init_def init_flags(1) [of t fl])
  next
    case 2
    then obtain st where "tt_cmap_init t fl = Some st" "cmap2_ok t fl st" using u(2) v(2) by blast
    then show ?thesis using 2 by (auto simp: cmap_object_init_def init_flags(1) [of t fl])
  next
    case 3
    then obtain st where "tt_cmap4_init t fl = Some st" "cmap4_ok t fl st" using u(3) v(2) by blast
    then show ?thesis using 3 by (auto simp: cmap_object_init_def init_flags(5) [of t fl])
  next
    case 4
    then obtain st where "tt_cmap_init t fl = Some st" "cmap6_ok t fl st" using u(4) v(2) by blast
    then show ?thesis using 4 by (auto simp: cmap_object_init_def init_flags(1) [of t fl])
  next
    case 5
    then obtain st where "tt_cmap_init t fl = Some st" "cmap8_ok t fl st" using u(5) v(2) by blast
    then show ?thesis using 5 by (auto simp: cmap_object_init_def init_flags(1) [of t fl])
  next
    case 6
    then obtain st where "tt_cmap_init t fl = Some st" "cmap10_ok t fl st" using u(6) v(2) by blast
    then show ?thesis using 6 by (auto simp: cmap_object_init_def init_flags(1) [of t fl])
  next
    case 7
    then obtain st where "tt_cmap12_init t fl = Some st" "cmap12_ok t fl st" using u(7) v(2) by blast
    then show ?thesis using 7 by (auto simp: cmap_object_init_def init_flags(2) [of t fl])
  next
    case 8
    then obtain st where "tt_cmap13_init t fl = Some st" "cmap12_ok t fl st" using u(8) v(2) by blast
    then show ?thesis using 8 by (auto simp: cmap_object_init_def init_flags(3) [of t fl])
  next
    case 9
    then obtain st where "tt_cmap14_init t fl = Some st" "cmap14_ok t fl st" using u(9) v(2) by blast
    then show ?thesis using 9 by (auto simp: cmap_object_init_def init_flags(4) [of t fl])
  qed
qed

text \<open>The face with one more charmap.\<close>

definition add_charmap :: "nat \<Rightarrow> nat \<Rightarrow> cmap_object \<Rightarrow> TT_Face \<Rightarrow> TT_Face" where
  "add_charmap platform enc_id obj face = face\<lparr>charmaps := charmaps face @
       [\<lparr>cm_handle = fresh_handle face, cm_platform = platform, cm_encoding_id = enc_id,
         cm_encoding = FT_ENCODING_NONE, cm_object = obj\<rparr>],
     fresh_handle := Suc (fresh_handle face)\<rparr>"

lemma add_charmap_ok:
  assumes "face_ok face" "obj_ok t fl obj"
  shows "face_ok (add_charmap platform enc_id obj face)"
  using assms by (fastforce simp: face_ok_def add_charmap_def)

lemma add_cmap_spec:
  assumes "2 \<le> length t" "length t < 4294967296"
  shows "\<exists>obj. tt_face_add_cmap Hosted mem t platform enc_id face =
      Some (case validated (numGlyphs face) t of
              None \<Rightarrow> face
            | Some fl \<Rightarrow> if fst mem \<and> snd mem then add_charmap platform enc_id obj face else face) \<and>
    (\<forall>fl. validated (numGlyphs face) t = Some fl \<longrightarrow> obj_ok t fl obj)"
proof -
  have rd: "peek_ushort t 0 = Some (u16 t 0)" using assms(1) by simp
  show ?thesis
  proof (cases "validated (numGlyphs face) t")
    case None
    then have "tt_face_add_cmap Hosted mem t platform enc_id face = Some face"
      using rd class_no_fault [OF _ assms(2)]
      by (auto simp: tt_face_add_cmap_def validated_def split: option.splits vres.splits)
    then show ?thesis using None by simp
  next
    case (Some fl)
    obtain v where v: "tt_cmap_class_validate (u16 t 0) = Some v"
      "v Hosted t FT_VALIDATE_DEFAULT (numGlyphs face) None = VRet fl None"
      using Some by (auto simp: validated_def split: option.splits vres.splits)
    obtain obj where o: "cmap_object_init (u16 t 0) t = Some obj" "obj_ok t fl (cmap_set_flags fl obj)"
      using object_made [OF Some assms(2)] by blast
    have "tt_face_add_cmap Hosted mem t platform enc_id face =
        Some (if fst mem \<and> snd mem then add_charmap platform enc_id (cmap_set_flags fl obj) face else face)"
      using rd v o(1) by (simp add: tt_face_add_cmap_def FT_CMap_New_def add_charmap_def Let_def)
    then show ?thesis using Some o(2) by (intro exI [of _ "cmap_set_flags fl obj"]) simp
  qed
qed

text \<open>The offsets of the records, from \<open>p\<close> on, whose sub-table is accepted.\<close>

fun accepted_records :: "nat \<Rightarrow> bytes \<Rightarrow> nat \<Rightarrow> nat \<Rightarrow> nat list" where
  "accepted_records ng table p 0 = []"
| "accepted_records ng table p (Suc k) =
     (if p + 8 > length table then []
      else (if u32 table (p + 4) \<noteq> 0 \<and> u32 table (p + 4) \<le> length table - 2 \<and>
               validated ng (drop (u32 table (p + 4)) table) \<noteq> None then [p] else []) @
           accepted_records ng table (p + 8) k)"

text \<open>The charmap made from the record at \<open>p\<close>.\<close>

definition charmap_of :: "nat \<Rightarrow> bytes \<Rightarrow> nat \<Rightarrow> FT_CMapRec \<Rightarrow> bool" where
  "charmap_of ng table p m \<longleftrightarrow> cm_platform m = u16 table p \<and> cm_encoding_id m = u16 table (p + 2) \<and>
     cm_encoding m = FT_ENCODING_NONE \<and>
     (\<exists>fl. validated ng (drop (u32 table (p + 4)) table) = Some fl \<and>
           obj_ok (drop (u32 table (p + 4)) table) fl (cm_object m))"

lemma build_loop_spec:
  assumes "length table < 4294967296" "4 \<le> length table" "face_ok face"
  shows "\<exists>face' ps ms. tt_face_build_loop Hosted mem table p k face = Some face' \<and> face_ok face' \<and>
    charmaps face' = charmaps face @ ms \<and> list_all2 (charmap_of (numGlyphs face) table) ps ms \<and>
    subseq ps (accepted_records (numGlyphs face) table p k) \<and>
    ((\<forall>i. mem i = (True, True)) \<longrightarrow> ps = accepted_records (numGlyphs face) table p k) \<and>
    charmap face' = charmap face \<and> num_glyphs face' = num_glyphs face"
  using assms(3)
proof (induction k arbitrary: p face)
  case 0
  then show ?case by (intro exI [of _ face] exI [of _ "[]"]) simp
next
  case (Suc k)
  show ?case
  proof (cases "p + 8 > length table")
    case True
    then show ?thesis using Suc.prems by (intro exI [of _ face] exI [of _ "[]"]) simp
  next
    case False
    let ?off = "u32 table (p + 4)"
    let ?t = "drop ?off table"
    let ?acc = "?off \<noteq> 0 \<and> ?off \<le> length table - 2 \<and> validated (numGlyphs face) ?t \<noteq> None"
    have rd: "peek_ushort table p = Some (u16 table p)" "peek_ushort table (p + 2) = Some (u16 table (p + 2))"
      "peek_ulong table (p + 4) = Some ?off" using False by simp_all
    define step where "step = (if ?off \<noteq> 0 \<and> ?off \<le> length table - 2
      then tt_face_add_cmap Hosted (mem k) ?t (u16 table p) (u16 table (p + 2)) face else Some face)"
    have run: "tt_face_build_loop Hosted mem table p (Suc k) face =
        step \<bind> tt_face_build_loop Hosted mem table (p + 8) k"
      using False unfolding tt_face_build_loop.simps rd bind.bind_lunit step_def by simp
    have "\<exists>obj. step = Some (if ?acc \<and> fst (mem k) \<and> snd (mem k)
          then add_charmap (u16 table p) (u16 table (p + 2)) obj face else face) \<and>
        (\<forall>fl. ?acc \<and> validated (numGlyphs face) ?t = Some fl \<longrightarrow> obj_ok ?t fl obj)"
    proof (cases "?off \<noteq> 0 \<and> ?off \<le> length table - 2")
      case True
      have "2 \<le> length ?t" using True assms(2) unfolding length_drop by linarith
      moreover have "length ?t < 4294967296" using assms(1) by simp
      ultimately show ?thesis using True
          add_cmap_spec [of ?t "mem k" "u16 table p" "u16 table (p + 2)" face]
        unfolding step_def by (cases "validated (numGlyphs face) ?t") auto
    qed (auto simp: step_def)
    then obtain obj where st: "step = Some (if ?acc \<and> fst (mem k) \<and> snd (mem k)
          then add_charmap (u16 table p) (u16 table (p + 2)) obj face else face)"
      "\<And>fl. ?acc \<Longrightarrow> validated (numGlyphs face) ?t = Some fl \<Longrightarrow> obj_ok ?t fl obj" by blast
    let ?rest = "accepted_records (numGlyphs face) table (p + 8) k"
    have acc: "accepted_records (numGlyphs face) table p (Suc k) = (if ?acc then p # ?rest else ?rest)"
      using False by simp
    show ?thesis
    proof (cases "?acc \<and> fst (mem k) \<and> snd (mem k)")
      case True
      define face1 where "face1 = add_charmap (u16 table p) (u16 table (p + 2)) obj face"
      obtain fl where fl: "validated (numGlyphs face) ?t = Some fl" "obj_ok ?t fl obj" using True st(2) by blast
      have "face_ok face1" unfolding face1_def by (rule add_charmap_ok [OF Suc.prems fl(2)])
      from Suc.IH [OF this, of "p + 8"] obtain face' ps ms where r:
        "tt_face_build_loop Hosted mem table (p + 8) k face1 = Some face'" "face_ok face'"
        "charmaps face' = charmaps face1 @ ms" "list_all2 (charmap_of (numGlyphs face1) table) ps ms"
        "subseq ps (accepted_records (numGlyphs face1) table (p + 8) k)"
        "(\<forall>i. mem i = (True, True)) \<longrightarrow> ps = accepted_records (numGlyphs face1) table (p + 8) k"
        "charmap face' = charmap face1" "num_glyphs face' = num_glyphs face1" by blast
      define m where "m = \<lparr>cm_handle = fresh_handle face, cm_platform = u16 table p,
        cm_encoding_id = u16 table (p + 2), cm_encoding = FT_ENCODING_NONE, cm_object = obj\<rparr>"
      have f1: "charmaps face1 = charmaps face @ [m]" "numGlyphs face1 = numGlyphs face"
        "charmap face1 = charmap face" "num_glyphs face1 = num_glyphs face"
        by (simp_all add: face1_def add_charmap_def m_def)
      have "charmap_of (numGlyphs face) table p m" using fl by (auto simp: charmap_of_def m_def)
      moreover have "tt_face_build_loop Hosted mem table p (Suc k) face = Some face'"
        unfolding run st(1) if_P [OF True] using r(1) by (simp add: face1_def)
      ultimately show ?thesis using r(2-) True unfolding acc f1
        by (intro exI [of _ face'] exI [of _ "p # ps"] exI [of _ "m # ms"]) simp
    next
      case no: False
      from Suc.IH [OF Suc.prems, of "p + 8"] obtain face' ps ms where r:
        "tt_face_build_loop Hosted mem table (p + 8) k face = Some face'" "face_ok face'"
        "charmaps face' = charmaps face @ ms" "list_all2 (charmap_of (numGlyphs face) table) ps ms"
        "subseq ps ?rest" "(\<forall>i. mem i = (True, True)) \<longrightarrow> ps = ?rest"
        "charmap face' = charmap face" "num_glyphs face' = num_glyphs face" by blast
      have "(\<forall>i. mem i = (True, True)) \<longrightarrow> \<not> ?acc" using no by (metis fst_conv snd_conv)
      moreover have "tt_face_build_loop Hosted mem table p (Suc k) face = Some face'"
        unfolding run st(1) if_not_P [OF no] using r(1) by simp
      ultimately show ?thesis using r(2-) unfolding acc
        by (intro exI [of _ face'] exI [of _ ps] exI [of _ ms]) (auto intro: list_emb_Cons)
    qed
  qed
qed

end
