(* ===== verification/Ft_Chars.thy ===== *)
theory Ft_Chars
  imports Ft_Face
begin

text \<open>
  The character queries of a face: \<open>FT_Get_Char_Index\<close> looks up, and \<open>FT_Get_First_Char\<close> with
  \<open>FT_Get_Next_Char\<close> list the characters that have a glyph, each once and in order.
\<close>

section \<open>The loop of FT\_Get\_Next\_Char\<close>

definition next_usable :: "nat \<Rightarrow> (nat \<Rightarrow> nat) \<Rightarrow> nat \<Rightarrow> nat \<times> nat \<Rightarrow> bool" where
  "next_usable ng f c r \<longleftrightarrow> fst r < ng \<and>
     (if fst r = 0 then \<forall>d. c < d \<and> d < 4294967296 \<longrightarrow> clip_glyph ng (f d) = 0
      else c < snd r \<and> snd r < 4294967296 \<and> f (snd r) = fst r \<and>
           (\<forall>d. c < d \<and> d < snd r \<longrightarrow> clip_glyph ng (f d) = 0))"

lemma next_usable_skip:
  assumes "next_usable ng f e r" "c < e" "\<And>d. c < d \<Longrightarrow> d \<le> e \<Longrightarrow> clip_glyph ng (f d) = 0"
  shows "next_usable ng f c r"
proof (cases "fst r = 0")
  case True
  have "clip_glyph ng (f d) = 0" if "c < d" "d < 4294967296" for d
    using assms that True by (cases "d \<le> e") (auto simp: next_usable_def)
  then show ?thesis using assms(1) True by (simp add: next_usable_def)
next
  case False
  have "clip_glyph ng (f d) = 0" if "c < d" "d < snd r" for d
    using assms that False by (cases "d \<le> e") (auto simp: next_usable_def)
  then show ?thesis using assms(1,2) False by (simp add: next_usable_def)
qed

lemma next_loop_enum:
  assumes "enum_ok t fl obj" "c < 4294967295" "0 < ng"
  shows "\<exists>g c' obj'. ft_next_char_loop ng obj c = Some (g, c', obj') \<and> enum_ok t fl obj' \<and>
    next_usable ng (enum_map t fl) c (g, c')"
  using assms(1,2)
proof (induction "4294967295 - c" arbitrary: c obj rule: less_induct)
  case less
  obtain g e obj1 where n: "cmap_char_next ng obj c = Some (g, e, obj1)" "enum_ok t fl obj1"
    "e < 4294967296" "next_char_ok 4294967296 ng (enum_map t fl) c (g, e)"
    using enum_next [OF less.prems] by blast
  show ?case
  proof (cases "g \<ge> ng")
    case False
    then have "next_usable ng (enum_map t fl) c (g, e)" using n(4) by (auto simp: next_usable_def next_char_ok_def)
    then show ?thesis using n False by (subst ft_next_char_loop.simps) simp
  next
    case True
    then have e: "c < e" "enum_map t fl e = g" "\<forall>d. c < d \<and> d < e \<longrightarrow> clip_glyph ng (enum_map t fl d) = 0"
      using n(4) assms(3) by (auto simp: next_char_ok_def)
    have z: "clip_glyph ng (enum_map t fl d) = 0" if "c < d" "d \<le> e" for d
      using e(2,3) True that by (cases "d = e") (simp_all add: clip_glyph_def)
    have "\<exists>g c' obj'. ft_next_char_loop ng obj1 e = Some (g, c', obj') \<and> enum_ok t fl obj' \<and>
        next_usable ng (enum_map t fl) c (g, c')"
    proof (cases "e = 4294967295")
      case top: True
      have "enum_map t fl 4294967295 \<noteq> 0" using e(2) True assms(3) top by simp
      then obtain c'' where "cmap_char_next ng obj1 4294967295 = Some (0, c'', obj1)"
        using enum_top [OF n(2)] by blast
      then have "ft_next_char_loop ng obj1 e = Some (0, c'', obj1)"
        using top assms(3) by (subst ft_next_char_loop.simps) simp
      moreover have "next_usable ng (enum_map t fl) c (0, c'')"
        using z top assms(3) by (simp add: next_usable_def)
      ultimately show ?thesis using n(2) by blast
    next
      case False
      then have lt: "e < 4294967295" using n(3) by simp
      have "4294967295 - e < 4294967295 - c" using e(1) lt by linarith
      from less.hyps [OF this n(2) lt] obtain g' c' obj' where r: "ft_next_char_loop ng obj1 e = Some (g', c', obj')"
        "enum_ok t fl obj'" "next_usable ng (enum_map t fl) e (g', c')" by blast
      have "next_usable ng (enum_map t fl) c (g', c')" using r(3) e(1) z by (rule next_usable_skip)
      then show ?thesis using r(1,2) by blast
    qed
    then show ?thesis using n(1) True by (subst ft_next_char_loop.simps) simp
  qed
qed

text \<open>Over any object the loop ends, whatever code it starts from.\<close>

lemma ft_next_loop_total:
  assumes "obj_ok t fl obj" "c < 4294967295" "0 < ng"
  shows "\<exists>g c' obj'. ft_next_char_loop ng obj c = Some (g, c', obj') \<and> obj_ok t fl obj' \<and> g < ng \<and>
    (g \<noteq> 0 \<longrightarrow> c < c' \<and> c' < 4294967296)"
  using assms(1,2)
proof (induction "4294967295 - c" arbitrary: c obj rule: less_induct)
  case less
  have c: "c < 4294967296" using less.prems(2) by simp
  obtain g e obj1 where n: "cmap_char_next ng obj c = Some (g, e, obj1)" "step_ok t fl ng c (g, e, obj1)"
    using obj_next [OF less.prems(1) c, of ng] by auto
  have o: "obj_ok t fl obj1" "e < 4294967296" "g \<noteq> 0 \<Longrightarrow> c < e"
    "g \<noteq> 0 \<Longrightarrow> e = 4294967295 \<Longrightarrow> \<exists>c''. cmap_char_next ng obj1 4294967295 = Some (0, c'', obj1)"
    using n(2) less.prems(2) by (auto simp: step_ok_def)
  show ?case
  proof (cases "g \<ge> ng")
    case False
    then show ?thesis using n o by (subst ft_next_char_loop.simps) simp
  next
    case True
    then have g: "g \<noteq> 0" using assms(3) by simp
    have "\<exists>g c' obj'. ft_next_char_loop ng obj1 e = Some (g, c', obj') \<and> obj_ok t fl obj' \<and> g < ng \<and>
        (g \<noteq> 0 \<longrightarrow> c < c' \<and> c' < 4294967296)"
    proof (cases "e = 4294967295")
      case top: True
      then obtain c'' where "cmap_char_next ng obj1 4294967295 = Some (0, c'', obj1)" using o(4) g by blast
      then have "ft_next_char_loop ng obj1 e = Some (0, c'', obj1)"
        using top assms(3) by (subst ft_next_char_loop.simps) simp
      then show ?thesis using o(1) assms(3) by simp
    next
      case False
      then have lt: "e < 4294967295" using o(2) by simp
      have "4294967295 - e < 4294967295 - c" using o(3) [OF g] lt by linarith
      from less.hyps [OF this o(1) lt] obtain g' c' obj' where "ft_next_char_loop ng obj1 e = Some (g', c', obj')"
        "obj_ok t fl obj'" "g' < ng" "g' \<noteq> 0 \<longrightarrow> e < c' \<and> c' < 4294967296" by blast
      then show ?thesis using o(3) [OF g] by auto
    qed
    then show ?thesis using n(1) True by (subst ft_next_char_loop.simps) simp
  qed
qed

section \<open>The face\<close>

text \<open>The charmap in use is an object for the table \<open>t\<close>; the stronger form is for tables in order.\<close>

definition in_use :: "TT_Face \<Rightarrow> bytes \<Rightarrow> nat \<Rightarrow> bool" where
  "in_use face t fl \<longleftrightarrow> face_ok face \<and> (\<exists>m. current_cmap face = Some m \<and> obj_ok t fl (cm_object m))"

definition in_use_ordered :: "TT_Face \<Rightarrow> bytes \<Rightarrow> nat \<Rightarrow> bool" where
  "in_use_ordered face t fl \<longleftrightarrow> face_ok face \<and> (\<exists>m. current_cmap face = Some m \<and> enum_ok t fl (cm_object m))"

lemma find_handle:
  assumes "find (\<lambda>m. cm_handle m = h) ms = Some m"
  shows "cm_handle m = h" "m \<in> set ms"
  using assms by (auto simp: find_Some_iff)

lemma find_put:
  "find (\<lambda>m. cm_handle m = h) ms = Some m \<Longrightarrow>
   find (\<lambda>m. cm_handle m = h) (map (\<lambda>m. if cm_handle m = h then m\<lparr>cm_object := obj\<rparr> else m) ms) =
     Some (m\<lparr>cm_object := obj\<rparr>)"
  by (induction ms) (auto split: if_splits)

lemma put_object_select [simp]:
  "num_glyphs (put_object h obj face) = num_glyphs face" "charmap (put_object h obj face) = charmap face"
  by (simp_all add: put_object_def)

lemma put_object_ok:
  assumes "face_ok face" "obj_ok t fl obj"
  shows "face_ok (put_object h obj face)"
proof -
  have h: "map cm_handle (map (\<lambda>m. if cm_handle m = h then m\<lparr>cm_object := obj\<rparr> else m) ms) = map cm_handle ms" for ms
    by (induction ms) auto
  have s: "cm_handle ` (\<lambda>m. if cm_handle m = h then m\<lparr>cm_object := obj\<rparr> else m) ` A = cm_handle ` A" for A
    unfolding image_image by (intro image_cong refl) simp
  have c: "set (charmaps (put_object h obj face)) =
      (\<lambda>m. if cm_handle m = h then m\<lparr>cm_object := obj\<rparr> else m) ` set (charmaps face)"
    by (simp add: put_object_def)
  have e: "\<exists>t fl. obj_ok t fl obj" using assms(2) by blast
  show ?thesis unfolding face_ok_def
  proof (intro conjI)
    show "distinct (map cm_handle (charmaps (put_object h obj face)))"
      using assms(1) unfolding put_object_def by (simp add: face_ok_def h del: map_map)
    show "\<forall>m \<in> set (charmaps (put_object h obj face)). cm_handle m < fresh_handle (put_object h obj face) \<and>
        (\<exists>t fl. obj_ok t fl (cm_object m))"
      unfolding c ball_simps(9) using assms(1) by (auto simp add: face_ok_def put_object_def e)
    show "\<forall>h'. charmap (put_object h obj face) = Some h' \<longrightarrow> h' \<in> cm_handle ` set (charmaps (put_object h obj face))"
      unfolding c s using assms(1) by (simp add: face_ok_def)
  qed
qed

lemma put_object_current:
  assumes "current_cmap face = Some m"
  shows "current_cmap (put_object (cm_handle m) obj face) = Some (m\<lparr>cm_object := obj\<rparr>)"
proof -
  obtain h where h: "charmap face = Some h" "find (\<lambda>m. cm_handle m = h) (charmaps face) = Some m"
    using assms by (auto simp: current_cmap_def split: option.splits)
  then have "cm_handle m = h" by (intro find_handle)
  then show ?thesis using h find_put [OF h(2), of obj] by (simp add: current_cmap_def put_object_def)
qed

lemma char_index_spec:
  assumes "in_use face t fl" "0 < num_glyphs face"
  shows "FT_Get_Char_Index face c = Some (clip_glyph (num_glyphs face) (table_map t fl (c mod 4294967296)))"
proof -
  obtain m where m: "current_cmap face = Some m" "obj_ok t fl (cm_object m)" using assms(1) by (auto simp: in_use_def)
  have "c mod 4294967296 < 4294967296" by simp
  from obj_index [OF m(2) this, of "num_glyphs face"] show ?thesis
    using m(1) by (auto simp: FT_Get_Char_Index_def clip_glyph_def)
qed

lemma next_char_spec:
  assumes "in_use_ordered face t fl" "0 < num_glyphs face" "c < 4294967295"
  shows "\<exists>r g face'. FT_Get_Next_Char face c = Some (r, g, face') \<and> in_use_ordered face' t fl \<and>
    num_glyphs face' = num_glyphs face \<and> (g = 0 \<longrightarrow> r = 0) \<and>
    next_usable (num_glyphs face) (enum_map t fl) c (g, r)"
proof -
  obtain m where m: "current_cmap face = Some m" "enum_ok t fl (cm_object m)" "face_ok face"
    using assms(1) by (auto simp: in_use_ordered_def)
  obtain g c' obj where l: "ft_next_char_loop (num_glyphs face) (cm_object m) c = Some (g, c', obj)"
    "enum_ok t fl obj" "next_usable (num_glyphs face) (enum_map t fl) c (g, c')"
    using next_loop_enum [OF m(2) assms(3,2)] by blast
  have "in_use_ordered (put_object (cm_handle m) obj face) t fl"
    using put_object_current [OF m(1)] l(2) put_object_ok [OF m(3), of t fl obj]
    by (auto simp: in_use_ordered_def enum_ok_def)
  moreover have "next_usable (num_glyphs face) (enum_map t fl) c (g, if g = 0 then 0 else c')"
    using l(3) by (auto simp: next_usable_def)
  moreover have "FT_Get_Next_Char face c =
      Some (if g = 0 then 0 else c', g, put_object (cm_handle m) obj face)"
    using m(1) assms(2,3) l(1) by (simp add: FT_Get_Next_Char_def)
  ultimately show ?thesis by auto
qed

lemma next_char_top:
  assumes "in_use_ordered face t fl" "0 < num_glyphs face" "enum_map t fl 4294967295 \<noteq> 0"
  shows "\<exists>face'. FT_Get_Next_Char face 4294967295 = Some (0, 0, face')"
proof -
  obtain m where m: "current_cmap face = Some m" "enum_ok t fl (cm_object m)"
    using assms(1) by (auto simp: in_use_ordered_def)
  obtain c'' where "cmap_char_next (num_glyphs face) (cm_object m) 4294967295 = Some (0, c'', cm_object m)"
    using enum_top [OF m(2) assms(3)] by blast
  then have "ft_next_char_loop (num_glyphs face) (cm_object m) 4294967295 = Some (0, c'', cm_object m)"
    using assms(2) by (subst ft_next_char_loop.simps) simp
  then show ?thesis using m(1) assms(2) by (simp add: FT_Get_Next_Char_def)
qed

section \<open>Listing the characters\<close>

text \<open>
  The loop of a client, as \<open>freetype.h\<close> gives it: from the first or next character returned,
  with its glyph index and the face, the characters met until the glyph index is 0 are \<open>xs\<close>.
\<close>

fun lists_chars :: "nat \<times> nat \<times> TT_Face \<Rightarrow> nat list \<Rightarrow> bool" where
  "lists_chars (c, g, face) [] = (g = 0)"
| "lists_chars (c, g, face) (x # xs) = (g \<noteq> 0 \<and> c = x \<and>
     (case FT_Get_Next_Char face c of None \<Rightarrow> False | Some r \<Rightarrow> lists_chars r xs))"

definition usable_after :: "bytes \<Rightarrow> nat \<Rightarrow> nat \<Rightarrow> nat \<Rightarrow> nat set" where
  "usable_after t fl ng c = {d. c < d \<and> d < 4294967296 \<and> clip_glyph ng (enum_map t fl d) \<noteq> 0}"

lemma usable_after_cons:
  assumes "next_usable ng (enum_map t fl) c (g, r)" "g \<noteq> 0"
  shows "sorted_list_of_set (usable_after t fl ng c) = r # sorted_list_of_set (usable_after t fl ng r)"
proof -
  have fin: "finite (usable_after t fl ng c)" by (rule finite_subset [of _ "{..<4294967296}"]) (auto simp: usable_after_def)
  have r: "c < r" "r < 4294967296" "enum_map t fl r = g" "g < ng"
    "\<forall>d. c < d \<and> d < r \<longrightarrow> clip_glyph ng (enum_map t fl d) = 0"
    using assms by (auto simp: next_usable_def)
  then have "r \<in> usable_after t fl ng c" using assms(2) by (simp add: usable_after_def clip_glyph_def)
  moreover have "r \<le> d" if "d \<in> usable_after t fl ng c" for d
    using that r(5) by (auto simp: usable_after_def intro: leI)
  ultimately have m: "Min (usable_after t fl ng c) = r" by (intro Min_eqI fin) auto
  have "usable_after t fl ng c - {r} = usable_after t fl ng r"
    using r by (auto simp: usable_after_def not_less_iff_gr_or_eq)
  then show ?thesis using sorted_list_of_set_nonempty [OF fin] \<open>r \<in> usable_after t fl ng c\<close> m by auto
qed

lemma lists_next:
  assumes "in_use_ordered face t fl" "0 < num_glyphs face" "c < 4294967296"
    and "c = 4294967295 \<Longrightarrow> enum_map t fl c \<noteq> 0"
  shows "\<exists>s. FT_Get_Next_Char face c = Some s \<and>
    lists_chars s (sorted_list_of_set (usable_after t fl (num_glyphs face) c))"
  using assms
proof (induction "4294967296 - c" arbitrary: c face rule: less_induct)
  case less
  let ?ng = "num_glyphs face"
  show ?case
  proof (cases "c = 4294967295")
    case True
    have "usable_after t fl ?ng c = {}" using True by (auto simp: usable_after_def)
    then show ?thesis using next_char_top [OF less.prems(1,2)] less.prems(4) True by fastforce
  next
    case False
    then have c: "c < 4294967295" using less.prems(3) by simp
    obtain r g face' where n: "FT_Get_Next_Char face c = Some (r, g, face')" "in_use_ordered face' t fl"
      "num_glyphs face' = ?ng" "next_usable ?ng (enum_map t fl) c (g, r)"
      using next_char_spec [OF less.prems(1,2) c] by blast
    show ?thesis
    proof (cases "g = 0")
      case True
      then have "usable_after t fl ?ng c = {}" using n(4) by (auto simp: next_usable_def usable_after_def)
      then show ?thesis using n(1) True by simp
    next
      case g: False
      then have r: "c < r" "r < 4294967296" "enum_map t fl r \<noteq> 0" using n(4) by (auto simp: next_usable_def)
      have m: "4294967296 - r < 4294967296 - c" using r by linarith
      have p: "0 < num_glyphs face'" using n(3) less.prems(2) by simp
      from less.hyps [OF m n(2) p r(2)] r(3) n(3)
      obtain s where "FT_Get_Next_Char face' r = Some s"
        "lists_chars s (sorted_list_of_set (usable_after t fl ?ng r))" by auto
      then show ?thesis using n(1) g usable_after_cons [OF n(4) g] by simp
    qed
  qed
qed

lemma lists_first:
  assumes "in_use_ordered face t fl" "0 < num_glyphs face"
  shows "\<exists>s. FT_Get_First_Char face = Some s \<and> lists_chars s
    (filter (\<lambda>c. clip_glyph (num_glyphs face) (enum_map t fl c) \<noteq> 0) [0] @
     sorted_list_of_set (usable_after t fl (num_glyphs face) 0))"
proof -
  have u: "in_use face t fl" using assms(1) by (auto simp: in_use_def in_use_ordered_def enum_ok_def)
  have cur: "current_cmap face \<noteq> None" using assms(1) by (auto simp: in_use_ordered_def)
  have e: "enum_map t fl 0 = table_map t fl 0" by (simp add: enum_map_def)
  obtain s where s: "FT_Get_Next_Char face 0 = Some s"
    "lists_chars s (sorted_list_of_set (usable_after t fl (num_glyphs face) 0))"
    using lists_next [OF assms, of 0] by auto
  have "FT_Get_Char_Index face 0 = Some (clip_glyph (num_glyphs face) (enum_map t fl 0))"
    using char_index_spec [OF u assms(2), of 0] e by simp
  then show ?thesis using s cur assms(2)
    by (cases "clip_glyph (num_glyphs face) (enum_map t fl 0) = 0") (auto simp: FT_Get_First_Char_def)
qed

end
