(* ===== verification/Ft_Select.thy ===== *)
theory Ft_Select
  imports Ft_Chars
begin

text \<open>
  Choosing and removing charmaps, the properties of a face, and a small face that shows that
  their hypotheses hold together.
\<close>

section \<open>Searching the list of charmaps\<close>

lemma find_charmap_find:
  "\<forall>x \<in> set xs. P x = Some (Q x) \<Longrightarrow> find_charmap P xs = Some (find Q xs)"
  by (induction xs) simp_all

lemma find_in_set: "find Q xs = Some x \<Longrightarrow> x \<in> set xs \<and> Q x"
  by (induction xs) (auto split: if_splits)

lemma find_rev: "find Q (rev xs) = (if filter Q xs = [] then None else Some (last (filter Q xs)))"
proof (induction xs rule: rev_induct)
  case (snoc x xs)
  then show ?case by simp
qed simp

lemma info_format:
  assumes "obj_ok t fl obj"
  shows "\<exists>i. tt_get_cmap_info obj = Some i \<and> info_format i = u16 t 0"
proof (cases obj)
  case (CMap4 s)
  then have "5 < length (c4_data s)" using assms by (auto simp: cmap4_ok_def table4_ok_def segs_ok_def)
  then show ?thesis using CMap4 assms by (simp add: tt_cmap4_get_info_def cmap4_ok_def)
next
  case (CMap12 s)
  then show ?thesis using assms by (auto simp: tt_cmap12_get_info_def cmap12_ok_def groups12_ok_def)
next
  case (CMap13 s)
  then show ?thesis using assms by (auto simp: tt_cmap13_get_info_def cmap12_ok_def groups12_ok_def)
qed (use assms in \<open>auto simp: tt_cmap0_get_info_def tt_cmap2_get_info_def tt_cmap6_get_info_def
    tt_cmap8_get_info_def tt_cmap10_get_info_def tt_cmap14_get_info_def cmap0_ok_def cmap2_ok_def cmap6_ok_def
    cmap8_ok_def cmap10_ok_def\<close>)

text \<open>The format of a charmap, by the class of its object.\<close>

fun cmap_format :: "cmap_object \<Rightarrow> nat" where
  "cmap_format (CMap0 s) = 0"
| "cmap_format (CMap2 s) = 2"
| "cmap_format (CMap4 s) = 4"
| "cmap_format (CMap6 s) = 6"
| "cmap_format (CMap8 s) = 8"
| "cmap_format (CMap10 s) = 10"
| "cmap_format (CMap12 s) = 12"
| "cmap_format (CMap13 s) = 13"
| "cmap_format (CMap14 s) = 14"

lemma format_obj: "obj_ok t fl obj \<Longrightarrow> u16 t 0 = cmap_format obj"
  by (cases obj) simp_all

lemma get_format:
  assumes "face_ok face" "m \<in> set (charmaps face)"
  shows "FT_Get_CMap_Format m = Some (int (cmap_format (cm_object m)))"
proof -
  obtain t fl where o: "obj_ok t fl (cm_object m)" using assms by (auto simp: face_ok_def)
  obtain i where "tt_get_cmap_info (cm_object m) = Some i" "info_format i = u16 t 0" using info_format [OF o] by blast
  then show ?thesis using format_obj [OF o] by (simp add: FT_Get_CMap_Format_def)
qed

definition covers_ucs4 :: "FT_CMapRec \<Rightarrow> bool" where
  "covers_ucs4 m \<longleftrightarrow> cm_encoding m = FT_ENCODING_UNICODE \<and>
     (cm_platform m = 3 \<and> cm_encoding_id m = 10 \<or> cm_platform m = 0 \<and> cm_encoding_id m = 4 \<or>
      cm_platform m = 0 \<and> cm_encoding_id m = 6 \<and> cmap_format (cm_object m) = 13)"

lemma is_ucs4_spec:
  assumes "face_ok face" "m \<in> set (charmaps face)"
  shows "is_ucs4 m = Some (covers_ucs4 m)"
  using get_format [OF assms] by (auto simp: is_ucs4_def covers_ucs4_def)

definition is_unicode :: "FT_CMapRec \<Rightarrow> bool" where
  "is_unicode m \<longleftrightarrow> cm_encoding m = FT_ENCODING_UNICODE"

lemma find_unicode_spec:
  assumes "face_ok face"
  shows "find_unicode_charmap face = Some
    (let u4 = filter covers_ucs4 (charmaps face); u = filter is_unicode (charmaps face) in
     if u4 \<noteq> [] then (None, face\<lparr>charmap := Some (cm_handle (last u4))\<rparr>)
     else if u \<noteq> [] then (None, face\<lparr>charmap := Some (cm_handle (last u))\<rparr>)
     else (Some Invalid_CharMap_Handle, face))"
proof (cases "charmaps face = []")
  case False
  have "find_charmap is_ucs4 (rev (charmaps face)) = Some (find covers_ucs4 (rev (charmaps face)))"
    by (rule find_charmap_find) (use is_ucs4_spec [OF assms] in simp)
  moreover have "find_charmap (\<lambda>m. Some (cm_encoding m = FT_ENCODING_UNICODE)) (rev (charmaps face)) =
      Some (find is_unicode (rev (charmaps face)))"
    by (rule find_charmap_find) (simp add: is_unicode_def)
  ultimately show ?thesis using False by (simp add: find_unicode_charmap_def find_rev Let_def)
qed (simp add: find_unicode_charmap_def)

section \<open>Removing a charmap\<close>

lemma charmap_position_Some:
  assumes "charmap_position h ms = Some i"
  shows "i < length ms" "cm_handle (ms ! i) = h"
proof -
  have "i < length ms \<and> cm_handle (ms ! i) = h"
    using assms by (induction ms arbitrary: i) (auto split: if_splits)
  then show "i < length ms" "cm_handle (ms ! i) = h" by simp_all
qed

text \<open>
  The loop closes the gap at \<open>i\<close>: before step \<open>j\<close> the places from \<open>i\<close> up to \<open>j - 1\<close> are
  shifted, those from \<open>j\<close> on are as they were.
\<close>

lemma shift_charmaps_spec:
  assumes "length xs = n" "i < j" "j + k = n" "length ys = n - 1"
    and "\<And>a. a < i \<Longrightarrow> ys ! a = xs ! a" "\<And>a. i \<le> a \<Longrightarrow> a < j - 1 \<Longrightarrow> ys ! a = xs ! Suc a"
    and "\<And>a. j \<le> a \<Longrightarrow> a < n - 1 \<Longrightarrow> ys ! a = xs ! a"
  shows "shift_charmaps (last xs) n j k ys = Some (take i xs @ drop (Suc i) xs)"
  using assms(2-)
proof (induction k arbitrary: j ys)
  case 0
  have "ys = take i xs @ drop (Suc i) xs"
    using 0 assms(1) by (intro nth_equalityI) (auto simp: nth_append min_def)
  then show ?case by simp
next
  case (Suc k)
  have j: "j < n" "j - 1 < n - 1" using Suc.prems(1,2) by linarith+
  have lst: "last xs = xs ! (n - 1)" using assms(1) j by (subst last_conv_nth) auto
  have y: "(if j = n - 1 then last xs else ys ! j) = xs ! j" using Suc.prems(6) j lst by simp
  have step: "shift_charmaps (last xs) n j (Suc k) ys = shift_charmaps (last xs) n (j + 1) k (ys[j - 1 := xs ! j])"
    using Suc.prems(1,3) j y by auto
  show ?case unfolding step
  proof (rule Suc.IH)
    show "(ys[j - 1 := xs ! j]) ! a = xs ! a" if "a < i" for a
      using that Suc.prems(1,4) by simp
    show "(ys[j - 1 := xs ! j]) ! a = xs ! Suc a" if "i \<le> a" "a < j + 1 - 1" for a
      using that Suc.prems(1,3,5) j by (cases "a = j - 1") auto
    show "(ys[j - 1 := xs ! j]) ! a = xs ! a" if "j + 1 \<le> a" "a < n - 1" for a
      using that Suc.prems(6) by simp
  qed (use Suc.prems in simp_all)
qed

lemma done_spec:
  assumes "charmap_position h (charmaps face) = Some i"
  shows "FT_CMap_Done True h face = Some (face\<lparr>
      charmaps := take i (charmaps face) @ drop (Suc i) (charmaps face),
      charmap := (if charmap face = Some h then None else charmap face)\<rparr>)"
proof -
  have i: "i < length (charmaps face)" by (rule charmap_position_Some [OF assms])
  have "shift_charmaps (last (charmaps face)) (length (charmaps face)) (i + 1)
      (length (charmaps face) - (i + 1)) (take (length (charmaps face) - 1) (charmaps face)) =
    Some (take i (charmaps face) @ drop (Suc i) (charmaps face))"
    using i by (intro shift_charmaps_spec) auto
  then show ?thesis using assms by (simp add: FT_CMap_Done_def)
qed

lemma filter_handle:
  assumes "distinct (map cm_handle ms)" "charmap_position h ms = Some i"
  shows "take i ms @ drop (Suc i) ms = filter (\<lambda>m. cm_handle m \<noteq> h) ms"
  using assms
proof (induction ms arbitrary: i)
  case (Cons m ms)
  show ?case
  proof (cases "cm_handle m = h")
    case True
    then have "filter (\<lambda>m. cm_handle m \<noteq> h) ms = ms" using Cons.prems(1) by (force simp: filter_id_conv image_iff)
    then show ?thesis using True Cons.prems(2) by simp
  next
    case False
    then obtain k where "charmap_position h ms = Some k" "i = Suc k" using Cons.prems(2) by auto
    then show ?thesis using False Cons by simp
  qed
qed simp

lemma position_None: "charmap_position h ms = None \<longleftrightarrow> h \<notin> cm_handle ` set ms"
  by (induction ms) auto

section \<open>Properties\<close>


text \<open>The \<open>cmap\<close> table with one record, platform 3 and encoding 10, for \<open>table12\<close>.\<close>

definition font_cmap :: bytes where
  "font_cmap = [0, 0, 0, 1, 0, 3, 0, 10, 0, 0, 0, 12] @ table12"

definition new_face :: TT_Face where
  "new_face = \<lparr>cmap_table = Some font_cmap, numGlyphs = 10, num_glyphs = 10, charmaps = [], charmap = None,
     fresh_handle = 0\<rparr>"

lemma font_cmap_reads:
  "length font_cmap = 52" "u16 font_cmap 2 = 1" "u32 font_cmap 8 = 12" "drop 12 font_cmap = table12"
  "u16 font_cmap 4 = 3" "u16 font_cmap 6 = 10"
  by (simp_all add: font_cmap_def table12_def u16_def u32_def)

lemma table12_format: "u16 table12 0 = 12"
  by (simp add: u16_def table12_def)

lemma table12_validated: "validated 10 table12 = Some 0"
  using cmap12.accepted_by_both [of table12 FT_VALIDATE_DEFAULT 10 0] table12_accepted
  by (simp add: validated_def table12_format tt_cmap_class_validate_def)

lemma font_records: "accepted_records 10 font_cmap 4 1 = [4]"
  using table12_validated by (simp add: font_cmap_reads)


lemma add_cmap_agree:
  assumes "tt_face_add_cmap Freestanding m t p e f = Some f'" "length t < 4294967296"
  shows "tt_face_add_cmap Hosted m t p e f = Some f'"
proof -
  obtain fmt where fmt: "peek_ushort t 0 = Some fmt"
    using assms(1) by (auto simp: tt_face_add_cmap_def bind_eq_Some_conv)
  show ?thesis
  proof (cases "tt_cmap_class_validate fmt")
    case None
    then show ?thesis using assms(1) fmt by (simp add: tt_face_add_cmap_def)
  next
    case (Some v)
    let ?r = "\<lambda>env. v env t FT_VALIDATE_DEFAULT (numGlyphs f) None"
    have nf: "?r Freestanding \<noteq> VFault" using assms(1) fmt Some by (auto simp: tt_face_add_cmap_def)
    have nh: "?r Hosted \<noteq> VFault" by (rule class_no_fault [OF Some assms(2)])
    note agree = class_agree [OF Some, of t FT_VALIDATE_DEFAULT "numGlyphs f"]
    show ?thesis
    proof (cases "\<exists>fl. ?r Freestanding = VRet fl None")
      case True
      then have "?r Hosted = ?r Freestanding" using agree by auto
      then show ?thesis using assms(1) fmt Some by (simp add: tt_face_add_cmap_def)
    next
      case False
      then have "\<nexists>fl. ?r Hosted = VRet fl None" using agree by auto
      then have "tt_face_add_cmap Hosted m t p e f = Some f" "tt_face_add_cmap Freestanding m t p e f = Some f"
        using False nf nh fmt Some by (auto simp: tt_face_add_cmap_def split: vres.split option.split)
      then show ?thesis using assms(1) by simp
    qed
  qed
qed

lemma build_loop_agree:
  assumes "tt_face_build_loop Freestanding mem table p k f = Some f'" "length table < 4294967296"
  shows "tt_face_build_loop Hosted mem table p k f = Some f'"
  using assms(1)
proof (induction k arbitrary: p f)
  case (Suc k)
  show ?case
  proof (cases "p + 8 > length table")
    case False
    let ?t = "drop (u32 table (p + 4)) table"
    let ?step = "\<lambda>env. if u32 table (p + 4) \<noteq> 0 \<and> u32 table (p + 4) \<le> length table - 2
      then tt_face_add_cmap env (mem k) ?t (u16 table p) (u16 table (p + 2)) f else Some f"
    have rd: "peek_ushort table p = Some (u16 table p)" "peek_ushort table (p + 2) = Some (u16 table (p + 2))"
      "peek_ulong table (p + 4) = Some (u32 table (p + 4))" using False by simp_all
    have run: "tt_face_build_loop env mem table p (Suc k) f = ?step env \<bind> tt_face_build_loop env mem table (p + 8) k" for env
      using False unfolding tt_face_build_loop.simps rd bind.bind_lunit by simp
    obtain f1 where f1: "?step Freestanding = Some f1" "tt_face_build_loop Freestanding mem table (p + 8) k f1 = Some f'"
      using Suc.prems unfolding run by (auto simp: bind_eq_Some_conv)
    have "length ?t < 4294967296" using assms(2) by simp
    then have "?step Hosted = Some f1" using f1(1) add_cmap_agree by (auto split: if_splits)
    then show ?thesis unfolding run using Suc.IH [OF f1(2)] by simp
  qed (use Suc.prems in simp)
qed simp

text \<open>
  C21: The port's \<open>longjmp\<close>, which does nothing, changes none of the results of
  \<open>tt_face_build_cmaps\<close>: whenever the validators make no stray read, the charmaps are those
  of the unwinding semantics.
\<close>

theorem tt_face_build_cmaps_freestanding:
  assumes "tt_face_build_cmaps Freestanding mem face = Some r" "\<forall>table. cmap_table face = Some table \<longrightarrow> length table < 4294967296"
  shows "tt_face_build_cmaps Hosted mem face = Some r"
proof (cases "cmap_table face")
  case None
  then show ?thesis using assms(1) by (simp add: tt_face_build_cmaps_def)
next
  case (Some table)
  then have l: "length table < 4294967296" using assms(2) by simp
  show ?thesis
  proof (cases "length table < 4")
    case True
    then show ?thesis using assms(1) Some by (simp add: tt_face_build_cmaps_def)
  next
    case False
    then obtain f where f: "tt_face_build_loop Freestanding mem table 4 (u16 table 2) face = Some f" "r = (None, f)"
      using assms(1) Some by (auto simp: tt_face_build_cmaps_def bind_eq_Some_conv)
    then show ?thesis using build_loop_agree [OF f(1) l] False Some by (simp add: tt_face_build_cmaps_def)
  qed
qed

theorem tt_face_build_cmaps_freestanding_witness:
  "tt_face_build_cmaps Hosted (\<lambda>i. (True, True)) new_face =
   tt_face_build_cmaps Freestanding (\<lambda>i. (True, True)) new_face \<and>
   tt_face_build_cmaps Freestanding (\<lambda>i. (True, True)) new_face \<noteq> None"
proof -
  have "tt_face_build_cmaps Freestanding (\<lambda>i. (True, True)) new_face \<noteq> None"
    using table12_accepted table12_reads
    by (simp add: tt_face_build_cmaps_def new_face_def font_cmap_reads tt_face_add_cmap_def table12_format
        tt_cmap_class_validate_def FT_CMap_New_def cmap_object_init_def tt_cmap12_init_def)
  moreover from this obtain r where r: "tt_face_build_cmaps Freestanding (\<lambda>i. (True, True)) new_face = Some r"
    by blast
  ultimately show ?thesis
    using tt_face_build_cmaps_freestanding [OF r] by (simp add: new_face_def font_cmap_reads)
qed

text \<open>
  C18: \<open>FT_Get_Char_Index\<close> with a charmap in use, of any format and in any state that calls have
  left it in: it makes no stray read, truncates the code to 32 bits, and returns the glyph the
  table maps the code to, or 0 when that is not a glyph of the face.
\<close>

theorem FT_Get_Char_Index_right:
  assumes "in_use face t fl" "0 < num_glyphs face"
  shows "FT_Get_Char_Index face c = Some (clip_glyph (num_glyphs face) (table_map t fl (c mod 4294967296)))"
  by (rule char_index_spec [OF assms])

definition text_face :: TT_Face where
  "text_face = \<lparr>cmap_table = Some font_cmap, numGlyphs = 10, num_glyphs = 10,
     charmaps = [\<lparr>cm_handle = 0, cm_platform = 3, cm_encoding_id = 10, cm_encoding = FT_ENCODING_UNICODE,
       cm_object = CMap12 \<lparr>cm_data = table12, cm_valid = False, cur_charcode = 0, cur_gindex = 0,
         cur_group = 0, num_groups = 2\<rparr>\<rparr>],
     charmap = Some 0, fresh_handle = 1\<rparr>"

lemma text_face_in_use: "in_use_ordered text_face table12 0" "in_use text_face table12 0" "face_ok text_face"
  "0 < num_glyphs text_face"
proof -
  obtain st where st: "tt_cmap12_init table12 0 = Some st" "cmap12_ok table12 0 st"
    by (rule cmap12.accepted_usable [OF _ table12_accepted]) (simp_all add: table12_reads)
  then have "st = \<lparr>cm_data = table12, cm_valid = False, cur_charcode = 0, cur_gindex = 0,
      cur_group = 0, num_groups = 2\<rparr>"
    by (simp add: tt_cmap12_init_def table12_reads)
  then have ok: "obj_ok table12 0 (cm_object (hd (charmaps text_face)))"
    using st(2) by (simp add: text_face_def table12_format)
  show f: "face_ok text_face" using ok by (auto simp: face_ok_def text_face_def)
  have c: "current_cmap text_face = Some (hd (charmaps text_face))"
    by (simp add: current_cmap_def text_face_def)
  show "in_use text_face table12 0" using f c ok by (auto simp: in_use_def)
  show "in_use_ordered text_face table12 0" using f c ok
    by (auto simp: in_use_ordered_def enum_ok_def in_order_def table12_format text_face_def)
  show "0 < num_glyphs text_face" by (simp add: text_face_def)
qed

theorem FT_Get_Char_Index_right_witness:
  "FT_Get_Char_Index text_face 66 = Some (clip_glyph 10 (table_map table12 0 66))"
  using FT_Get_Char_Index_right [OF text_face_in_use(2,4), of 66] by (simp add: text_face_def)

text \<open>
  \<open>FT_Get_Next_Char\<close> returns over a charmap of any format: the loop that skips glyph indices
  out of range ends, the glyph index it reports is one of the face, and the charmap stays in order.
\<close>

theorem FT_Get_Next_Char_returns:
  assumes "in_use face t fl" "0 < num_glyphs face" "c < 4294967295"
  shows "\<exists>r g face'. FT_Get_Next_Char face c = Some (r, g, face') \<and> in_use face' t fl \<and>
    g < num_glyphs face \<and> (if g = 0 then r = 0 else c < r \<and> r < 4294967296)"
proof -
  obtain m where m: "current_cmap face = Some m" "obj_ok t fl (cm_object m)" "face_ok face"
    using assms(1) by (auto simp: in_use_def)
  obtain g c' obj where l: "ft_next_char_loop (num_glyphs face) (cm_object m) c = Some (g, c', obj)"
    "obj_ok t fl obj" "g < num_glyphs face" "g \<noteq> 0 \<longrightarrow> c < c' \<and> c' < 4294967296"
    using ft_next_loop_total [OF m(2) assms(3,2)] by blast
  have "in_use (put_object (cm_handle m) obj face) t fl"
    using put_object_current [OF m(1)] l(2) put_object_ok [OF m(3) l(2)] by (auto simp: in_use_def)
  moreover have "FT_Get_Next_Char face c =
      Some (if g = 0 then 0 else c', g, put_object (cm_handle m) obj face)"
    using m(1) assms(2,3) l(1) by (simp add: FT_Get_Next_Char_def)
  ultimately show ?thesis using l(3,4) by auto
qed

theorem FT_Get_Next_Char_returns_witness:
  "\<exists>r g face'. FT_Get_Next_Char text_face 65 = Some (r, g, face') \<and> in_use face' table12 0 \<and> g < 10"
  using FT_Get_Next_Char_returns [OF text_face_in_use(2,4), of 65] by (auto simp: text_face_def)



text \<open>
  \<open>FT_Select_Charmap\<close> for Unicode: the last charmap that covers UCS-4 when there is one, else
  the last Unicode charmap, else Invalid_CharMap_Handle; nothing but the selection changes.
\<close>

theorem FT_Select_Charmap_unicode:
  assumes "face_ok face"
  shows "FT_Select_Charmap face FT_ENCODING_UNICODE = Some
    (if \<exists>m \<in> set (charmaps face). covers_ucs4 m then
       (None, face\<lparr>charmap := Some (cm_handle (last (filter covers_ucs4 (charmaps face))))\<rparr>)
     else if \<exists>m \<in> set (charmaps face). is_unicode m then
       (None, face\<lparr>charmap := Some (cm_handle (last (filter is_unicode (charmaps face))))\<rparr>)
     else (Some Invalid_CharMap_Handle, face))"
  using find_unicode_spec [OF assms] by (auto simp: FT_Select_Charmap_def Let_def filter_empty_conv)

theorem FT_Select_Charmap_unicode_witness:
  "FT_Select_Charmap text_face FT_ENCODING_UNICODE = Some (None, text_face)"
  using FT_Select_Charmap_unicode [OF text_face_in_use(3)]
  by (simp add: text_face_def covers_ucs4_def)

text \<open>
  C31: \<open>FT_CMap_Done\<close> removes a charmap of the face: the others keep their order, the selection is
  cleared if it was the one in use, and the invariant of the face is kept.
\<close>

theorem FT_CMap_Done_removes:
  assumes "face_ok face" "h \<in> cm_handle ` set (charmaps face)"
  shows "\<exists>face'. FT_CMap_Done True h face = Some face' \<and> face_ok face' \<and>
      charmaps face' = filter (\<lambda>m. cm_handle m \<noteq> h) (charmaps face) \<and>
      charmap face' = (if charmap face = Some h then None else charmap face)"
proof -
  obtain i where i: "charmap_position h (charmaps face) = Some i"
    using assms(2) position_None [of h "charmaps face"] by (cases "charmap_position h (charmaps face)") auto
  have "FT_CMap_Done True h face = Some (face\<lparr>
      charmaps := filter (\<lambda>m. cm_handle m \<noteq> h) (charmaps face),
      charmap := (if charmap face = Some h then None else charmap face)\<rparr>)"
    using done_spec [OF i] filter_handle [OF _ i] assms(1) by (simp add: face_ok_def)
  moreover have "face_ok (face\<lparr>charmaps := filter (\<lambda>m. cm_handle m \<noteq> h) (charmaps face),
      charmap := (if charmap face = Some h then None else charmap face)\<rparr>)"
    using assms(1) by (auto simp: face_ok_def distinct_map_filter)
  ultimately show ?thesis by simp
qed

theorem FT_CMap_Done_removes_witness:
  "FT_CMap_Done True 0 text_face = Some (text_face\<lparr>charmaps := [], charmap := None\<rparr>)"
  using FT_CMap_Done_removes [OF text_face_in_use(3), of 0]
  by (simp add: FT_CMap_Done_def text_face_def)

text \<open>
  \<open>FT_Set_Charmap\<close> selects a handle exactly when it is one of the face's charmaps and not of
  format 14; otherwise it reports Invalid_Argument and leaves the face as it was.
\<close>

theorem FT_Set_Charmap_selects:
  assumes "face_ok face" "charmaps face \<noteq> []"
  shows "FT_Set_Charmap face (Some k) = Some
    (if \<exists>m \<in> set (charmaps face). cm_handle m = k \<and> cmap_format (cm_object m) \<noteq> 14
     then (None, face\<lparr>charmap := Some k\<rparr>) else (Some Invalid_Argument, face))"
proof -
  let ?Q = "\<lambda>m. cm_handle m = k \<and> cmap_format (cm_object m) \<noteq> 14"
  have "find_charmap (\<lambda>m. if cm_handle m = k then do {
          format \<leftarrow> FT_Get_CMap_Format m; Some (format \<noteq> 14) } else Some False) (charmaps face) =
      Some (find ?Q (charmaps face))"
    by (rule find_charmap_find) (use get_format [OF assms(1)] in auto)
  then have run: "FT_Set_Charmap face (Some k) = Some (case find ?Q (charmaps face) of
      None \<Rightarrow> (Some Invalid_Argument, face) | Some m \<Rightarrow> (None, face\<lparr>charmap := Some k\<rparr>))"
    using assms(2) by (simp add: FT_Set_Charmap_def split: option.split)
  show ?thesis
  proof (cases "find ?Q (charmaps face)")
    case None
    then have "\<not> (\<exists>m \<in> set (charmaps face). ?Q m)" 
      unfolding find_None_iff by blast
    then show ?thesis unfolding run None by (simp only: if_False option.case)
  next
    case (Some m)
    then have "\<exists>m \<in> set (charmaps face). ?Q m" using find_in_set [OF Some] by blast
    then show ?thesis unfolding run Some by (simp only: if_True option.case)
  qed
qed

text \<open>A face whose Unicode charmaps are all of platform 0: one of format 4, one of format 14.\<close>

definition apple_face :: TT_Face where
  "apple_face = \<lparr>cmap_table = None, numGlyphs = 10, num_glyphs = 10,
     charmaps = [\<lparr>cm_handle = 0, cm_platform = 0, cm_encoding_id = 3, cm_encoding = sfnt_find_encoding 0 3,
         cm_object = CMap4 \<lparr>c4_data = table4, c4_flags = 0, c4_charcode = 4294967295, c4_gindex = 0,
           c4_num_ranges = 2, c4_range = 0, c4_start = 0, c4_end = 0, c4_delta = 0, c4_values = None\<rparr>\<rparr>,
       \<lparr>cm_handle = 1, cm_platform = 0, cm_encoding_id = 5, cm_encoding = sfnt_find_encoding 0 5,
         cm_object = CMap14 object14\<rparr>],
     charmap = None, fresh_handle = 2\<rparr>"

lemma apple_face_ok: "face_ok apple_face"
proof -
  obtain st where "tt_cmap4_init table4 0 = Some st" "cmap4_ok table4 0 st"
    by (rule cmap4.accepted_usable [OF _ table4_accepted]) (simp_all add: table4_reads)
  then have "cmap4_ok table4 0 \<lparr>c4_data = table4, c4_flags = 0, c4_charcode = 4294967295, c4_gindex = 0,
           c4_num_ranges = 2, c4_range = 0, c4_start = 0, c4_end = 0, c4_delta = 0, c4_values = None\<rparr>"
    by (simp add: tt_cmap4_init_def table4_reads)
  moreover have "u16 table4 0 = 4" by (simp add: u16_def table4_def)
  ultimately have a: "\<exists>t fl. obj_ok t fl (CMap4 \<lparr>c4_data = table4, c4_flags = 0, c4_charcode = 4294967295, c4_gindex = 0,
           c4_num_ranges = 2, c4_range = 0, c4_start = 0, c4_end = 0, c4_delta = 0, c4_values = None\<rparr>)"
    by (intro exI [of _ table4] exI [of _ 0]) simp
  obtain st where "tt_cmap14_init table14 0 = Some st" "cmap14_ok table14 0 st"
    by (rule cmap14.accepted_usable [OF _ table14_accepted]) (simp_all add: table14_reads)
  then have "cmap14_ok table14 0 object14" by (simp add: tt_cmap14_init_def table14_reads object14_def)
  moreover have "u16 table14 0 = 14" by (simp add: u16_def table14_def)
  ultimately have "\<exists>t fl. obj_ok t fl (CMap14 object14)" by (intro exI [of _ table14] exI [of _ 0]) simp
  with a show ?thesis by (simp add: face_ok_def apple_face_def)
qed

theorem FT_Set_Charmap_selects_witness:
  "FT_Set_Charmap apple_face (Some 1) = Some (Some Invalid_Argument, apple_face)"
  using FT_Set_Charmap_selects [OF apple_face_ok, of 1] by (simp add: apple_face_def)

text \<open>
  \<open>FT_Select_Charmap\<close> can select a charmap of format 14, which \<open>FT_Set_Charmap\<close> refuses: when
  all Unicode charmaps have platform 0 and the one with the variation selectors comes last, it is
  taken, and from then on every character has glyph 0, although another charmap has its glyph.
\<close>

theorem FT_Select_Charmap_variation_selectors:
  "FT_Select_Charmap apple_face FT_ENCODING_UNICODE = Some (None, apple_face\<lparr>charmap := Some 1\<rparr>) \<and>
   FT_Get_Char_Index (apple_face\<lparr>charmap := Some 1\<rparr>) c = Some 0 \<and>
   FT_Set_Charmap apple_face (Some 1) = Some (Some Invalid_Argument, apple_face) \<and>
   cmap4_map table4 0 65 = 3"
proof -
  have "FT_Select_Charmap apple_face FT_ENCODING_UNICODE = Some (None, apple_face\<lparr>charmap := Some 1\<rparr>)"
    using find_unicode_spec [OF apple_face_ok]
    by (simp add: FT_Select_Charmap_def apple_face_def Let_def covers_ucs4_def is_unicode_def
        sfnt_find_encoding_def tt_encodings_def)
  moreover have "FT_Get_Char_Index (apple_face\<lparr>charmap := Some 1\<rparr>) c = Some 0"
    by (simp add: FT_Get_Char_Index_def current_cmap_def apple_face_def tt_cmap14_char_index_def)
  moreover have "FT_Set_Charmap apple_face (Some 1) = Some (Some Invalid_Argument, apple_face)"
    by (simp add: FT_Set_Charmap_def apple_face_def FT_Get_CMap_Format_def tt_cmap14_get_info_def)
  moreover have "cmap4_map table4 0 65 = 3"
    by (simp add: cmap4_map_def flag_unsorted_def ordered_map_def first_seg_def num_segs4_def upt_rec
        table4_reads se_def ss_def sd_def so_def seg_map_def eff_def tt_cmap4_fix_last_def seg_value_def seg_slice_def
        u16_of_int_def)
  ultimately show ?thesis by blast
qed

end
