(* ===== verification/Ft_Hash.thy ===== *)
theory Ft_Hash
  imports Ft_Validate
begin

text \<open>
  The hash tables of \<open>src/base/fthash.c\<close>: open addressing, probing downwards from the home slot,
  doubled when a third full. A slot is \<open>None\<close> for a \<open>NULL\<close> node pointer and otherwise the key and
  the data of the node; the table is \<open>None\<close> when the pointer to it is \<open>NULL\<close>, and an operation
  that would follow that pointer is \<open>None\<close>. Strings are lists of bytes without the final NUL.
\<close>

section \<open>Model\<close>

datatype FT_Hashkey = Key_num int | Key_str bytes

type_synonym FT_Hashnode = "FT_Hashkey \<times> nat"

record FT_HashRec =
  hash_limit :: nat
  hash_size :: nat
  hash_used :: nat
  hash_is_num :: bool   \<comment> \<open>stands for the two function pointers\<close>
  hash_table :: "FT_Hashnode option list option"

text \<open>\<open>( res << 5 ) - res + x\<close> in \<open>FT_ULong\<close>; \<open>char\<close> is signed.\<close>

definition hash_step :: "int \<Rightarrow> int \<Rightarrow> int" where
  "hash_step res x = (32 * res - res + x) mod 18446744073709551616"

definition hash_str_lookup :: "bytes \<Rightarrow> int" where
  "hash_str_lookup str = foldl (\<lambda>res c. hash_step res (sint c)) 0 str"

text \<open>\<open>(FT_ULong)key->num\<close> sign-extends; its low four bytes count.\<close>

definition hash_num_lookup :: "int \<Rightarrow> int" where
  "hash_num_lookup num =
     (let b = \<lambda>k. (num div 2 ^ k) mod 256
      in hash_step (hash_step (hash_step (b 0) (b 8)) (b 16)) (b 24))"

fun hash_function :: "FT_Hashkey \<Rightarrow> int" where
  "hash_function (Key_num n) = hash_num_lookup n"
| "hash_function (Key_str s) = hash_str_lookup s"

text \<open>\<open>hash_num_compare\<close> and \<open>hash_str_compare\<close>; a table has keys of one kind.\<close>

fun hash_compare :: "FT_Hashkey \<Rightarrow> FT_Hashkey \<Rightarrow> bool" where
  "hash_compare (Key_num a) (Key_num b) = (a = b)"
| "hash_compare (Key_str a) (Key_str b) = (a = b)"
| "hash_compare _ _ = False"

text \<open>The probe loop from slot \<open>i\<close>. It ends only if it meets a free slot or the key.\<close>

partial_function (option) hash_probe ::
    "FT_Hashkey \<Rightarrow> nat \<Rightarrow> FT_Hashnode option list \<Rightarrow> nat \<Rightarrow> nat option" where
  "hash_probe key n t i =
     (if i < length t then
        (case t ! i of
           None \<Rightarrow> Some i
         | Some node \<Rightarrow>
             if hash_compare (fst node) key then Some i
             else hash_probe key n t (if i = 0 then n - 1 else i - 1))
      else None)"

definition hash_home :: "FT_Hashkey \<Rightarrow> nat \<Rightarrow> nat" where
  "hash_home key n = nat (hash_function key mod int n)"

definition hash_bucket :: "FT_Hashkey \<Rightarrow> FT_HashRec \<Rightarrow> nat option" where
  "hash_bucket key hash = do {
     t \<leftarrow> hash_table hash;
     hash_probe key (hash_size hash) t (hash_home key (hash_size hash))
   }"

text \<open>The loop of \<open>hash_rehash\<close> over the old slots.\<close>

fun hash_move :: "FT_Hashnode option list \<Rightarrow> FT_HashRec \<Rightarrow> FT_HashRec option" where
  "hash_move [] hash = Some hash"
| "hash_move (None # bs) hash = hash_move bs hash"
| "hash_move (Some node # bs) hash = do {
     i \<leftarrow> hash_bucket (fst node) hash;
     t \<leftarrow> hash_table hash;
     hash_move bs (hash\<lparr>hash_table := Some (t[i := Some node])\<rparr>)
   }"

definition hash_rehash :: "bool \<Rightarrow> FT_HashRec \<Rightarrow> (ft_error option \<times> FT_HashRec) option" where
  "hash_rehash granted hash = do {
     obp \<leftarrow> hash_table hash;
     let hash = hash\<lparr>hash_size := (2 * hash_size hash) mod 4294967296\<rparr>;
     let hash = hash\<lparr>hash_limit := hash_size hash div 3\<rparr>;
     if \<not> granted then Some (Some Out_Of_Memory, hash\<lparr>hash_table := None\<rparr>)
     else do {
       hash \<leftarrow> hash_move obp (hash\<lparr>hash_table := Some (replicate (hash_size hash) None)\<rparr>);
       Some (None, hash)
     }
   }"

definition hash_init :: "bool \<Rightarrow> bool \<Rightarrow> ft_error option \<times> FT_HashRec" where
  "hash_init numeric granted =
     (let hash = \<lparr>hash_limit = 241 div 3, hash_size = 241, hash_used = 0, hash_is_num = numeric, hash_table = None\<rparr>
      in if granted then (None, hash\<lparr>hash_table := Some (replicate 241 None)\<rparr>) else (Some Out_Of_Memory, hash))"

definition ft_hash_str_init :: "bool \<Rightarrow> ft_error option \<times> FT_HashRec" where
  "ft_hash_str_init = hash_init False"

definition ft_hash_num_init :: "bool \<Rightarrow> ft_error option \<times> FT_HashRec" where
  "ft_hash_num_init = hash_init True"

definition ft_hash_str_free :: "FT_HashRec \<Rightarrow> FT_HashRec" where
  "ft_hash_str_free hash = hash\<lparr>hash_table := None\<rparr>"

text \<open>\<open>mem\<close>: whether the node and, for a rehash, the larger table are granted.\<close>

definition hash_insert ::
    "bool \<times> bool \<Rightarrow> bool \<Rightarrow> FT_Hashkey \<Rightarrow> nat \<Rightarrow> FT_HashRec \<Rightarrow> (ft_error option \<times> FT_HashRec) option" where
  "hash_insert mem overwrite key data hash = do {
     i \<leftarrow> hash_bucket key hash;
     t \<leftarrow> hash_table hash;
     case t ! i of
       None \<Rightarrow>
         if \<not> fst mem then Some (Some Out_Of_Memory, hash)
         else do {
           let hash = hash\<lparr>hash_table := Some (t[i := Some (key, data)])\<rparr>;
           (error, hash) \<leftarrow> (if hash_used hash \<ge> hash_limit hash then hash_rehash (snd mem) hash
                            else Some (None, hash));
           if error \<noteq> None then Some (error, hash)
           else Some (None, hash\<lparr>hash_used := hash_used hash + 1\<rparr>)
         }
     | Some node \<Rightarrow>
         Some (None, if overwrite then hash\<lparr>hash_table := Some (t[i := Some (fst node, data)])\<rparr> else hash)
   }"

definition ft_hash_str_insert where
  "ft_hash_str_insert mem str = hash_insert mem True (Key_str str)"

definition ft_hash_num_insert where
  "ft_hash_num_insert mem num = hash_insert mem True (Key_num num)"

definition ft_hash_str_insert_no_overwrite where
  "ft_hash_str_insert_no_overwrite mem str = hash_insert mem False (Key_str str)"

definition ft_hash_num_insert_no_overwrite where
  "ft_hash_num_insert_no_overwrite mem num = hash_insert mem False (Key_num num)"

text \<open>The outer \<open>None\<close> is a stray access, the inner one \<open>NULL\<close>.\<close>

definition hash_lookup :: "FT_Hashkey \<Rightarrow> FT_HashRec \<Rightarrow> nat option option" where
  "hash_lookup key hash = do {
     i \<leftarrow> hash_bucket key hash;
     t \<leftarrow> hash_table hash;
     Some (map_option snd (t ! i))
   }"

definition ft_hash_str_lookup where
  "ft_hash_str_lookup str = hash_lookup (Key_str str)"

definition ft_hash_num_lookup where
  "ft_hash_num_lookup num = hash_lookup (Key_num num)"

text \<open>The next entry from index \<open>idx\<close> on, with the index after it.\<close>

function hash_next :: "FT_Hashnode option list \<Rightarrow> nat \<Rightarrow> nat \<Rightarrow> (nat \<times> FT_Hashnode) option" where
  "hash_next t n idx =
     (if idx \<ge> n then None
      else (case t ! idx of None \<Rightarrow> hash_next t n (idx + 1) | Some node \<Rightarrow> Some (idx + 1, node)))"
  by pat_completeness auto
termination by (relation "measure (\<lambda>(t, n, idx). n - idx)") auto

declare hash_next.simps [simp del]

definition ft_hash_num_iterator :: "nat \<Rightarrow> FT_HashRec \<Rightarrow> (nat \<times> FT_Hashnode) option option" where
  "ft_hash_num_iterator idx hash =
     (if idx \<ge> hash_size hash then Some None
      else do { t \<leftarrow> hash_table hash; Some (hash_next t (hash_size hash) idx) })"

section \<open>The probe path\<close>

definition prev_slot :: "nat \<Rightarrow> nat \<Rightarrow> nat" where
  "prev_slot n i = (if i = 0 then n - 1 else i - 1)"

lemma probe_slot: "i < n \<Longrightarrow> s \<le> n \<Longrightarrow> (prev_slot n ^^ s) i = (if s \<le> i then i - s else i + n - s)"
  by (induction s) (auto simp: prev_slot_def)

lemma probe_slot_lt: "i < n \<Longrightarrow> (prev_slot n ^^ s) i < n"
  by (induction s) (auto simp: prev_slot_def)

lemma probe_reaches:
  assumes "i < n" "j < n"
  shows "\<exists>s < n. (prev_slot n ^^ s) i = j"
proof (cases "j \<le> i")
  case True
  then show ?thesis using assms by (intro exI [of _ "i - j"]) (simp add: probe_slot)
next
  case False
  then show ?thesis using assms by (intro exI [of _ "i + n - j"]) (auto simp: probe_slot)
qed

lemma compare_eq [simp]: "hash_compare a b \<longleftrightarrow> a = b"
  by (cases a; cases b) simp_all

lemma probe_run:
  assumes "length t = n" "i < n"
    and "\<And>r. r < s \<Longrightarrow> \<exists>node. t ! ((prev_slot n ^^ r) i) = Some node \<and> fst node \<noteq> key"
    and "t ! ((prev_slot n ^^ s) i) = None \<or> (\<exists>d. t ! ((prev_slot n ^^ s) i) = Some (key, d))"
  shows "hash_probe key n t i = Some ((prev_slot n ^^ s) i)"
  using assms(2-)
proof (induction s arbitrary: i)
  case 0
  then show ?case using assms(1) by (subst hash_probe.simps) auto
next
  case (Suc s)
  obtain node where n: "t ! i = Some node" "fst node \<noteq> key" using Suc.prems(2) [of 0] by auto
  have "hash_probe key n t (prev_slot n i) = Some ((prev_slot n ^^ s) (prev_slot n i))"
  proof (rule Suc.IH)
    show "prev_slot n i < n" using Suc.prems(1) by (auto simp: prev_slot_def)
    show "\<exists>node. t ! ((prev_slot n ^^ r) (prev_slot n i)) = Some node \<and> fst node \<noteq> key" if "r < s" for r
      using Suc.prems(2) [of "Suc r"] that by (simp add: funpow_swap1)
    show "t ! ((prev_slot n ^^ s) (prev_slot n i)) = None \<or>
        (\<exists>d. t ! ((prev_slot n ^^ s) (prev_slot n i)) = Some (key, d))"
      using Suc.prems(3) by (simp add: funpow_swap1)
  qed
  then show ?case using n Suc.prems(1) assms(1)
    by (subst hash_probe.simps) (simp add: prev_slot_def funpow_swap1)
qed

section \<open>Invariant and abstraction\<close>

text \<open>
  The table of \<open>n\<close> slots: every key is reached from its home slot over occupied slots, keys are
  distinct, and a slot is free.
\<close>

definition table_ok :: "nat \<Rightarrow> FT_Hashnode option list \<Rightarrow> bool" where
  "table_ok n t \<longleftrightarrow> length t = n \<and>
     (\<forall>j < n. \<forall>k d. t ! j = Some (k, d) \<longrightarrow>
        (\<exists>s < n. (prev_slot n ^^ s) (hash_home k n) = j \<and> (\<forall>r < s. t ! ((prev_slot n ^^ r) (hash_home k n)) \<noteq> None))) \<and>
     (\<forall>i < n. \<forall>j < n. \<forall>k d e. t ! i = Some (k, d) \<and> t ! j = Some (k, e) \<longrightarrow> i = j)"

definition entries :: "FT_Hashnode option list \<Rightarrow> nat" where
  "entries t = length (filter (\<lambda>x. x \<noteq> None) t)"

definition hash_ok :: "FT_HashRec \<Rightarrow> bool" where
  "hash_ok hash \<longleftrightarrow> 241 \<le> hash_size hash \<and> hash_limit hash = hash_size hash div 3 \<and>
     hash_used hash \<le> hash_limit hash \<and> hash_size hash \<le> max 241 (6 * hash_used hash) \<and>
     (case hash_table hash of None \<Rightarrow> False
      | Some t \<Rightarrow> table_ok (hash_size hash) t \<and> entries t = hash_used hash)"

lemma table_path:
  assumes "table_ok n t" "j < n" "t ! j = Some (k, d)"
  shows "\<exists>s < n. (prev_slot n ^^ s) (hash_home k n) = j \<and> (\<forall>r < s. t ! ((prev_slot n ^^ r) (hash_home k n)) \<noteq> None)"
  using assms unfolding table_ok_def by metis

text \<open>The map a table stands for.\<close>

definition table_map_of :: "FT_Hashnode option list \<Rightarrow> FT_Hashkey \<Rightarrow> nat option" where
  "table_map_of t k = map_of (map the (filter (\<lambda>x. x \<noteq> None) t)) k"

definition hash_map :: "FT_HashRec \<Rightarrow> FT_Hashkey \<Rightarrow> nat option" where
  "hash_map hash = (case hash_table hash of None \<Rightarrow> (\<lambda>k. None) | Some t \<Rightarrow> table_map_of t)"

lemma hash_home_lt: "0 < n \<Longrightarrow> hash_home k n < n"
  by (simp add: hash_home_def nat_less_iff)

lemma some_free: "entries t < length t \<Longrightarrow> \<exists>j < length t. t ! j = None"
proof (rule ccontr)
  assume e: "entries t < length t" and "\<not> (\<exists>j < length t. t ! j = None)"
  then have "\<forall>x \<in> set t. x \<noteq> None" by (metis in_set_conv_nth)
  then show False using e by (simp add: entries_def filter_id_conv)
qed

lemma table_map_None: "table_map_of t k = None \<longleftrightarrow> (\<forall>j < length t. \<forall>d. t ! j \<noteq> Some (k, d))"
  unfolding table_map_of_def map_of_eq_None_iff
  by (auto simp: in_set_conv_nth image_iff)

lemma table_map_Some:
  assumes "table_ok n t" "j < n" "t ! j = Some (k, d)"
  shows "table_map_of t k = Some d"
proof (cases "table_map_of t k")
  case None
  then show ?thesis using assms by (auto simp: table_map_None table_ok_def)
next
  case (Some e)
  then have "(k, e) \<in> set (map the (filter (\<lambda>x. x \<noteq> None) t))"
    unfolding table_map_of_def by (rule map_of_SomeD)
  then have "Some (k, e) \<in> set t" by auto
  then obtain i where "i < length t" "t ! i = Some (k, e)" by (auto simp: in_set_conv_nth)
  then have "i = j" using assms by (auto simp: table_ok_def)
  then show ?thesis using \<open>t ! i = Some (k, e)\<close> assms(3) Some by simp
qed

text \<open>Where the probe for a key ends: at its node, or at a free slot its path leads to.\<close>

lemma probe_ends:
  assumes ok: "table_ok n t" and "0 < n" and free: "entries t < n"
  obtains s where "s < n" "hash_probe key n t (hash_home key n) = Some ((prev_slot n ^^ s) (hash_home key n))"
    "\<forall>r < s. t ! ((prev_slot n ^^ r) (hash_home key n)) \<noteq> None"
    "t ! ((prev_slot n ^^ s) (hash_home key n)) = map_option (Pair key) (table_map_of t key)"
proof -
  let ?p = "\<lambda>s. (prev_slot n ^^ s) (hash_home key n)"
  let ?stop = "\<lambda>s. t ! ?p s = None \<or> (\<exists>d. t ! ?p s = Some (key, d))"
  have len: "length t = n" using ok by (simp add: table_ok_def)
  have h: "hash_home key n < n" by (rule hash_home_lt [OF assms(2)])
  obtain j where j: "j < n" "t ! j = None" using some_free [of t] free len by auto
  obtain s0 where s0: "s0 < n" "?p s0 = j" using probe_reaches [OF h j(1)] by blast
  define s where "s = (LEAST s. ?stop s)"
  have stop: "?stop s" unfolding s_def by (rule LeastI [of ?stop s0]) (simp add: s0 j)
  have "s \<le> s0" unfolding s_def by (rule Least_le) (simp add: s0 j)
  then have sn: "s < n" using s0(1) by simp
  have before: "\<exists>node. t ! ?p r = Some node \<and> fst node \<noteq> key" if "r < s" for r
  proof -
    have "\<not> ?stop r" using not_less_Least that unfolding s_def by blast
    then show ?thesis by auto
  qed
  have run: "hash_probe key n t (hash_home key n) = Some (?p s)"
    by (rule probe_run [OF len h before stop])
  have "t ! ?p s = map_option (Pair key) (table_map_of t key)"
  proof (cases "t ! ?p s")
    case (Some node)
    then obtain d where d: "t ! ?p s = Some (key, d)" using stop by auto
    then show ?thesis using table_map_Some [OF ok probe_slot_lt [OF h] d] by simp
  next
    case None
    have "t ! i \<noteq> Some (key, d)" if il: "i < n" for i d
    proof
      assume i: "t ! i = Some (key, d)"
      then obtain q where q: "q < n" "?p q = i" "\<forall>r < q. t ! ?p r \<noteq> None"
        using table_path [OF ok il i] by auto
      have "?stop q" using q(2) i by blast
      then have "s \<le> q" unfolding s_def by (rule Least_le)
      moreover have "s \<noteq> q" using None q(2) i by auto
      ultimately have "s < q" by simp
      then show False using q(3) None by blast
    qed
    then show ?thesis using None len by (simp add: table_map_None)
  qed
  moreover have "\<forall>r < s. t ! ?p r \<noteq> None" using before by fastforce
  ultimately show ?thesis using that [OF sn run] by blast
qed

lemma entries_update:
  "i < length t \<Longrightarrow> t ! i = None \<Longrightarrow> entries (t[i := Some x]) = Suc (entries t)"
proof (induction t arbitrary: i)
  case (Cons a t)
  then show ?case by (cases i) (simp_all add: entries_def)
qed simp

lemma entries_overwrite:
  "i < length t \<Longrightarrow> t ! i \<noteq> None \<Longrightarrow> entries (t[i := Some x]) = entries t"
proof (induction t arbitrary: i)
  case (Cons a t)
  then show ?case by (cases i) (auto simp: entries_def)
qed simp

text \<open>A node put where the probe for its key ended.\<close>

lemma table_put:
  assumes ok: "table_ok n t" and "0 < n" "s < n"
    and path: "\<forall>r < s. t ! ((prev_slot n ^^ r) (hash_home key n)) \<noteq> None"
    and slot: "t ! ((prev_slot n ^^ s) (hash_home key n)) = map_option (Pair key) (table_map_of t key)"
  defines "i \<equiv> (prev_slot n ^^ s) (hash_home key n)"
  shows "table_ok n (t[i := Some (key, data)])"
    "table_map_of (t[i := Some (key, data)]) = (table_map_of t)(key \<mapsto> data)"
proof -
  have len: "length t = n" using ok by (simp add: table_ok_def)
  have i: "i < n" unfolding i_def by (rule probe_slot_lt [OF hash_home_lt [OF assms(2)]])
  let ?t = "t[i := Some (key, data)]"
  have other: "j \<noteq> i \<Longrightarrow> j < n \<Longrightarrow> t ! j \<noteq> Some (key, d)" for j d
    using table_map_Some [OF ok, of j key d] slot ok i unfolding i_def [symmetric] table_ok_def by fastforce
  have occ: "?t ! j \<noteq> None" if "t ! j \<noteq> None" for j
    using that len i by (cases "j = i") simp_all
  show ok': "table_ok n ?t"
    unfolding table_ok_def
  proof (intro conjI allI impI)
    show "length ?t = n" using len by simp
    fix j k d assume j: "j < n" "?t ! j = Some (k, d)"
    show "\<exists>s < n. (prev_slot n ^^ s) (hash_home k n) = j \<and> (\<forall>r < s. ?t ! ((prev_slot n ^^ r) (hash_home k n)) \<noteq> None)"
    proof (cases "j = i")
      case True
      then have "k = key" using j(2) i len by simp
      then show ?thesis using True assms(3) path occ by (auto simp: i_def intro!: exI [of _ s])
    next
      case False
      then have "t ! j = Some (k, d)" using j(2) by simp
      then obtain q where "q < n" "(prev_slot n ^^ q) (hash_home k n) = j"
        "\<forall>r < q. t ! ((prev_slot n ^^ r) (hash_home k n)) \<noteq> None"
        using table_path [OF ok j(1)] by auto
      then show ?thesis using occ by blast
    qed
  next
    fix a b k d e assume a: "a < n" "b < n" "?t ! a = Some (k, d) \<and> ?t ! b = Some (k, e)"
    show "a = b"
    proof (cases "a = i \<or> b = i")
      case True
      then have "k = key" using a i len by auto
      then show ?thesis using a other [of a] other [of b] len i by (cases "a = i"; cases "b = i") auto
    next
      case False
      then show ?thesis using a ok unfolding table_ok_def by auto
    qed
  qed
  show "table_map_of ?t = (table_map_of t)(key \<mapsto> data)"
  proof
    fix k
    show "table_map_of ?t k = ((table_map_of t)(key \<mapsto> data)) k"
    proof (cases "k = key")
      case True
      have "?t ! i = Some (key, data)" using i len by simp
      then show ?thesis using True table_map_Some [OF ok' i] by simp
    next
      case False
      show ?thesis
      proof (cases "table_map_of t k")
        case None
        then have "table_map_of ?t k = None" using False len i
          by (simp add: table_map_None nth_list_update)
        then show ?thesis using None False by simp
      next
        case (Some d)
        then obtain j where j: "j < n" "t ! j = Some (k, d)"
          using table_map_None [of t k] table_map_Some [OF ok] len by (metis option.distinct(1) option.inject)
        then have "j \<noteq> i" using slot False unfolding i_def [symmetric] by (cases "table_map_of t key") auto
        then show ?thesis using table_map_Some [OF ok' j(1), of k d] j(2) Some False by simp
      qed
    qed
  qed
qed

section \<open>Rehashing\<close>

text \<open>The bucket of a key in a table with a free slot, and the table with a node put there.\<close>

lemma bucket_run:
  assumes "hash_table h = Some t" "table_ok (hash_size h) t" "0 < hash_size h" "entries t < hash_size h"
  obtains i where "hash_bucket key h = Some i" "i < length t"
    "t ! i = map_option (Pair key) (table_map_of t key)"
    "\<And>data. table_ok (hash_size h) (t[i := Some (key, data)])"
    "\<And>data. table_map_of (t[i := Some (key, data)]) = (table_map_of t)(key \<mapsto> data)"
proof -
  let ?n = "hash_size h"
  obtain s where s: "s < ?n"
    "hash_probe key ?n t (hash_home key ?n) = Some ((prev_slot ?n ^^ s) (hash_home key ?n))"
    "\<forall>r < s. t ! ((prev_slot ?n ^^ r) (hash_home key ?n)) \<noteq> None"
    "t ! ((prev_slot ?n ^^ s) (hash_home key ?n)) = map_option (Pair key) (table_map_of t key)"
    using probe_ends [OF assms(2,3,4)] by metis
  have "hash_bucket key h = Some ((prev_slot ?n ^^ s) (hash_home key ?n))"
    using s(2) assms(1) by (simp add: hash_bucket_def)
  moreover have "(prev_slot ?n ^^ s) (hash_home key ?n) < length t"
    using probe_slot_lt [OF hash_home_lt [OF assms(3)]] assms(2) by (simp add: table_ok_def)
  ultimately show ?thesis
    using that s(4) table_put [OF assms(2,3) s(1,3,4)] by blast
qed

lemma table_map_simps [simp]:
  "table_map_of [] = Map.empty"
  "table_map_of (None # bs) = table_map_of bs"
  "table_map_of (Some (k, d) # bs) = (table_map_of bs)(k \<mapsto> d)"
  by (auto simp: table_map_of_def)

lemma entries_simps [simp]:
  "entries [] = 0" "entries (None # bs) = entries bs" "entries (Some x # bs) = Suc (entries bs)"
  by (simp_all add: entries_def)

lemma table_map_replicate [simp]:
  "table_map_of (replicate n None) = Map.empty" "entries (replicate n None) = 0"
  by (induction n) auto

lemma table_ok_empty: "table_ok n (replicate n None)"
  by (simp add: table_ok_def)

text \<open>The keys of the nodes of a list of slots.\<close>

definition slot_keys :: "FT_Hashnode option list \<Rightarrow> FT_Hashkey list" where
  "slot_keys bs = map fst (map the (filter (\<lambda>x. x \<noteq> None) bs))"

lemma slot_keys_simps [simp]:
  "slot_keys [] = []" "slot_keys (None # bs) = slot_keys bs" "slot_keys (Some (k, d) # bs) = k # slot_keys bs"
  by (simp_all add: slot_keys_def)

lemma dom_table_map: "dom (table_map_of bs) = set (slot_keys bs)"
proof -
  have "table_map_of bs = map_of (map the (filter (\<lambda>x. x \<noteq> None) bs))" by (simp add: fun_eq_iff table_map_of_def)
  then show ?thesis by (simp only: slot_keys_def dom_map_of_conv_image_fst list.set_map)
qed

lemma slot_keys_nth: "k \<in> set (slot_keys bs) \<longleftrightarrow> (\<exists>j < length bs. \<exists>d. bs ! j = Some (k, d))"
  using table_map_None [of bs k] dom_table_map [of bs] by (auto simp: domIff)

lemma distinct_keys:
  assumes "\<forall>i < length bs. \<forall>j < length bs. \<forall>k d e. bs ! i = Some (k, d) \<and> bs ! j = Some (k, e) \<longrightarrow> i = j"
  shows "distinct (slot_keys bs)"
  using assms
proof (induction bs)
  case (Cons b bs)
  have "distinct (slot_keys bs)"
  proof (rule Cons.IH, intro allI impI)
    fix i j k d e assume "i < length bs" "j < length bs" "bs ! i = Some (k, d) \<and> bs ! j = Some (k, e)"
    then show "i = j" using Cons.prems [rule_format, of "Suc i" "Suc j" k d e] by simp
  qed
  moreover have "k \<notin> set (slot_keys bs)" if b: "b = Some (k, d)" for k d
  proof
    assume "k \<in> set (slot_keys bs)"
    then obtain j e where "j < length bs" "bs ! j = Some (k, e)" by (auto simp: slot_keys_nth)
    then show False using Cons.prems [rule_format, of 0 "Suc j" k d e] b by simp
  qed
  ultimately show ?case by (cases b) auto
qed simp

lemma hash_move_run:
  assumes "hash_table h = Some t" "table_ok (hash_size h) t" "0 < hash_size h"
    and "entries t + entries bs < hash_size h" "distinct (slot_keys bs)"
    and "set (slot_keys bs) \<inter> dom (table_map_of t) = {}"
  shows "\<exists>t'. hash_move bs h = Some (h\<lparr>hash_table := Some t'\<rparr>) \<and> table_ok (hash_size h) t' \<and>
    entries t' = entries t + entries bs \<and> table_map_of t' = table_map_of t ++ table_map_of bs"
  using assms
proof (induction bs arbitrary: h t)
  case Nil
  then show ?case by (intro exI [of _ t]) simp
next
  case (Cons b bs)
  show ?case
  proof (cases b)
    case None
    then show ?thesis using Cons.IH [of h t] Cons.prems by simp
  next
    case (Some node)
    obtain k d where n: "node = (k, d)" by (cases node)
    have free: "entries t < hash_size h" using Cons.prems(4) by simp
    obtain i where i: "hash_bucket k h = Some i" "i < length t" "t ! i = map_option (Pair k) (table_map_of t k)"
      "table_ok (hash_size h) (t[i := Some (k, d)])"
      "table_map_of (t[i := Some (k, d)]) = (table_map_of t)(k \<mapsto> d)"
      using bucket_run [OF Cons.prems(1-3) free] by metis
    have k: "table_map_of t k = None" "k \<notin> set (slot_keys bs)"
      using Cons.prems(5,6) Some n by auto
    then have "entries (t[i := Some (k, d)]) = Suc (entries t)" using i(2,3) by (simp add: entries_update)
    moreover have "set (slot_keys bs) \<inter> dom ((table_map_of t)(k \<mapsto> d)) = {}" using Cons.prems(6) k(2) Some n by auto
    ultimately obtain t' where t': "hash_move bs (h\<lparr>hash_table := Some (t[i := Some (k, d)])\<rparr>) = Some (h\<lparr>hash_table := Some t'\<rparr>)"
      "table_ok (hash_size h) t'" "entries t' = Suc (entries t) + entries bs"
      "table_map_of t' = (table_map_of t)(k \<mapsto> d) ++ table_map_of bs"
      using Cons.IH [of "h\<lparr>hash_table := Some (t[i := Some (k, d)])\<rparr>" "t[i := Some (k, d)]"] Cons.prems(3-5) Some n i
      by (auto simp del: fun_upd_apply)
    have "table_map_of bs k = None" using k(2) dom_table_map [of bs] by (auto simp: domIff)
    then have "(table_map_of t)(k \<mapsto> d) ++ table_map_of bs = table_map_of t ++ (table_map_of bs)(k \<mapsto> d)"
      by (auto simp: map_add_def fun_eq_iff split: option.split)
    then show ?thesis using t' Some n i(1) Cons.prems(1)
      by (intro exI [of _ t']) (simp add: fun_upd_def [symmetric] del: map_add_upd)
  qed
qed

lemma hash_rehash_run:
  assumes "hash_table h = Some t" "table_ok (hash_size h) t" "0 < hash_size h" "entries t < hash_size h"
    and "hash_size h < 2147483648"
  shows "\<exists>t'. hash_rehash True h = Some (None, h\<lparr>hash_size := 2 * hash_size h, hash_limit := 2 * hash_size h div 3,
      hash_table := Some t'\<rparr>) \<and> table_ok (2 * hash_size h) t' \<and> entries t' = entries t \<and>
    table_map_of t' = table_map_of t"
proof -
  let ?h = "h\<lparr>hash_size := 2 * hash_size h, hash_limit := 2 * hash_size h div 3,
    hash_table := Some (replicate (2 * hash_size h) None)\<rparr>"
  have "\<exists>t'. hash_move t ?h = Some (?h\<lparr>hash_table := Some t'\<rparr>) \<and> table_ok (hash_size ?h) t' \<and>
    entries t' = entries (replicate (2 * hash_size h) None) + entries t \<and>
    table_map_of t' = table_map_of (replicate (2 * hash_size h) None) ++ table_map_of t"
  proof (rule hash_move_run)
    show "distinct (slot_keys t)" by (rule distinct_keys) (use assms(2) in \<open>auto simp: table_ok_def\<close>)
  qed (use assms table_ok_empty in simp_all)
  then show ?thesis using assms(1,5) by (auto simp: hash_rehash_def)
qed

section \<open>Insertion and lookup\<close>

lemma hash_okE:
  assumes "hash_ok h"
  obtains t where "hash_table h = Some t" "table_ok (hash_size h) t" "entries t = hash_used h" "0 < hash_size h"
    "entries t < hash_size h" "hash_map h = table_map_of t" "length t = hash_size h"
  using assms by (auto simp: hash_ok_def hash_map_def table_ok_def split: option.splits)

lemma hash_lookup_run:
  assumes "hash_ok h"
  shows "hash_lookup key h = Some (hash_map h key)"
proof -
  obtain t where t: "hash_table h = Some t" "table_ok (hash_size h) t" "0 < hash_size h" "entries t < hash_size h"
    "hash_map h = table_map_of t"
    using hash_okE [OF assms] by metis
  obtain i where "hash_bucket key h = Some i" "t ! i = map_option (Pair key) (table_map_of t key)"
    using bucket_run [OF t(1-4)] by metis
  then show ?thesis using t(1,5) by (simp add: hash_lookup_def option.map_comp comp_def option.map_ident)
qed

lemma hash_insert_present:
  assumes "hash_ok h" "hash_map h key = Some d"
  shows "\<exists>h'. hash_insert mem ow key data h = Some (None, h') \<and> hash_ok h' \<and> hash_used h' = hash_used h \<and>
    hash_map h' = (if ow then (hash_map h)(key \<mapsto> data) else hash_map h)"
proof -
  obtain t where t: "hash_table h = Some t" "table_ok (hash_size h) t" "0 < hash_size h" "entries t < hash_size h"
    "hash_map h = table_map_of t" "entries t = hash_used h"
    using hash_okE [OF assms(1)] by metis
  obtain i where i: "hash_bucket key h = Some i" "i < length t" "t ! i = Some (key, d)"
    "table_ok (hash_size h) (t[i := Some (key, data)])"
    "table_map_of (t[i := Some (key, data)]) = (table_map_of t)(key \<mapsto> data)"
    using bucket_run [OF t(1-4)] assms(2) t(5) by (metis option.simps(9))
  have "entries (t[i := Some (key, data)]) = entries t" using i(2,3) by (simp add: entries_overwrite)
  then show ?thesis using assms(1) t i by (auto simp: hash_insert_def hash_ok_def hash_map_def)
qed

lemma hash_insert_absent:
  assumes "hash_ok h" "hash_map h key = None" "hash_used h < 268435456"
  shows "\<exists>h'. hash_insert (True, True) ow key data h = Some (None, h') \<and> hash_ok h' \<and>
    hash_used h' = hash_used h + 1 \<and> hash_map h' = (hash_map h)(key \<mapsto> data)"
proof -
  obtain t where t: "hash_table h = Some t" "table_ok (hash_size h) t" "0 < hash_size h" "entries t < hash_size h"
    "hash_map h = table_map_of t" "entries t = hash_used h"
    using hash_okE [OF assms(1)] by metis
  obtain i where i: "hash_bucket key h = Some i" "i < length t" "t ! i = None"
    "table_ok (hash_size h) (t[i := Some (key, data)])"
    "table_map_of (t[i := Some (key, data)]) = (table_map_of t)(key \<mapsto> data)"
    using bucket_run [OF t(1-4)] assms(2) t(5) by (metis option.simps(8))
  let ?t = "t[i := Some (key, data)]" let ?h = "h\<lparr>hash_table := Some ?t\<rparr>"
  have e: "entries ?t = Suc (hash_used h)" using i(2,3) t(6) by (simp add: entries_update)
  have b: "241 \<le> hash_size h" "hash_limit h = hash_size h div 3" "hash_used h \<le> hash_limit h"
    "hash_size h \<le> max 241 (6 * hash_used h)"
    using assms(1) by (auto simp: hash_ok_def)
  show ?thesis
  proof (cases "hash_used h \<ge> hash_limit h")
    case False
    then show ?thesis using t i e b by (auto simp: hash_insert_def hash_ok_def hash_map_def)
  next
    case True
    have "hash_size h < 2147483648" using b(4) assms(3) by linarith
    moreover have "entries ?t < hash_size h" using e b by linarith
    ultimately obtain t' where t': "hash_rehash True ?h = Some (None, ?h\<lparr>hash_size := 2 * hash_size h,
        hash_limit := 2 * hash_size h div 3, hash_table := Some t'\<rparr>)"
      "table_ok (2 * hash_size h) t'" "entries t' = entries ?t" "table_map_of t' = table_map_of ?t"
      using hash_rehash_run [of ?h ?t] i(4) t(3) by auto
    have "Suc (hash_used h) \<le> 2 * hash_size h div 3" "2 * hash_size h \<le> 6 * Suc (hash_used h)"
      using True b(1,2,3) by presburger+
    then show ?thesis using t i e b t' True by (auto simp: hash_insert_def hash_ok_def hash_map_def)
  qed
qed

lemma hash_insert_run:
  assumes "hash_ok h" "hash_used h < 268435456"
  shows "\<exists>h'. hash_insert (True, True) ow key data h = Some (None, h') \<and> hash_ok h' \<and>
    hash_used h' \<le> hash_used h + 1 \<and>
    hash_map h' = (if ow \<or> hash_map h key = None then (hash_map h)(key \<mapsto> data) else hash_map h)"
  using hash_insert_present [OF assms(1), of key _ "(True, True)" ow data] hash_insert_absent [OF assms(1) _ assms(2), of key ow data]
  by (cases "hash_map h key") fastforce+

lemma hash_init_run:
  "\<exists>h. hash_init numeric True = (None, h) \<and> hash_ok h \<and> hash_used h = 0 \<and> hash_map h = Map.empty"
  by (simp add: hash_init_def hash_ok_def hash_map_def table_ok_empty)

section \<open>The tables as dictionaries\<close>

text \<open>
  What a caller relies on: an insertion into a table that is not full succeeds and updates the map
  the table stands for, and a lookup reads that map.
\<close>

locale dictionary =
  fixes ok :: "'h \<Rightarrow> bool" and room :: "'h \<Rightarrow> nat" and view :: "'h \<Rightarrow> 'k \<Rightarrow> nat option"
    and ins :: "'k \<Rightarrow> nat \<Rightarrow> 'h \<Rightarrow> (ft_error option \<times> 'h) option" and look :: "'k \<Rightarrow> 'h \<Rightarrow> nat option option"
  assumes ins_law: "ok h \<Longrightarrow> 0 < room h \<Longrightarrow>
      \<exists>h'. ins k d h = Some (None, h') \<and> ok h' \<and> room h \<le> Suc (room h') \<and> view h' = (view h)(k \<mapsto> d)"
    and look_law: "ok h \<Longrightarrow> look k h = Some (view h k)"
begin

text \<open>A run of insertions, stopping at an error.\<close>

fun ins_all :: "('k \<times> nat) list \<Rightarrow> 'h \<Rightarrow> 'h option" where
  "ins_all [] h = Some h"
| "ins_all ((k, d) # kds) h =
     (case ins k d h of Some (None, h') \<Rightarrow> ins_all kds h' | _ \<Rightarrow> None)"

lemma ins_all_run:
  "ok h \<Longrightarrow> length kds \<le> room h \<Longrightarrow>
   \<exists>h'. ins_all kds h = Some h' \<and> ok h' \<and> view h' = view h ++ map_of (rev kds)"
proof (induction kds arbitrary: h)
  case (Cons kd kds)
  obtain k d where kd: "kd = (k, d)" by (cases kd)
  obtain h' where h': "ins k d h = Some (None, h')" "ok h'" "room h \<le> Suc (room h')" "view h' = (view h)(k \<mapsto> d)"
    using ins_law [of h k d] Cons.prems by auto
  then show ?case using Cons.IH [of h'] Cons.prems(2) kd by (auto simp del: fun_upd_apply)
qed simp

lemma look_after:
  assumes "ok h" "length kds \<le> room h"
  shows "\<exists>h'. ins_all kds h = Some h' \<and>
    look k h' = Some (case map_of (rev kds) k of Some d \<Rightarrow> Some d | None \<Rightarrow> view h k)"
  using ins_all_run [OF assms] look_law by (auto simp: map_add_def)

end

definition hash_room :: "FT_HashRec \<Rightarrow> nat" where
  "hash_room h = 268435456 - hash_used h"

interpretation str_table: dictionary hash_ok hash_room "\<lambda>h s. hash_map h (Key_str s)"
  "ft_hash_str_insert (True, True)" ft_hash_str_lookup
proof
  fix h k d assume a: "hash_ok h" "0 < hash_room h"
  then show "\<exists>h'. ft_hash_str_insert (True, True) k d h = Some (None, h') \<and> hash_ok h' \<and>
      hash_room h \<le> Suc (hash_room h') \<and>
      (\<lambda>s. hash_map h' (Key_str s)) = (\<lambda>s. hash_map h (Key_str s))(k \<mapsto> d)"
    using hash_insert_run [of h True "Key_str k" d]
    by (auto simp: hash_room_def ft_hash_str_insert_def fun_eq_iff)
qed (simp add: ft_hash_str_lookup_def hash_lookup_run)

interpretation num_table: dictionary hash_ok hash_room "\<lambda>h n. hash_map h (Key_num n)"
  "ft_hash_num_insert (True, True)" ft_hash_num_lookup
proof
  fix h k d assume a: "hash_ok h" "0 < hash_room h"
  then show "\<exists>h'. ft_hash_num_insert (True, True) k d h = Some (None, h') \<and> hash_ok h' \<and>
      hash_room h \<le> Suc (hash_room h') \<and>
      (\<lambda>s. hash_map h' (Key_num s)) = (\<lambda>s. hash_map h (Key_num s))(k \<mapsto> d)"
    using hash_insert_run [of h True "Key_num k" d]
    by (auto simp: hash_room_def ft_hash_num_insert_def fun_eq_iff)
qed (simp add: ft_hash_num_lookup_def hash_lookup_run)

lemma hash_insert_size:
  assumes "hash_ok h" "hash_used h < hash_limit h"
  shows "\<exists>h'. hash_insert (True, True) ow key data h = Some (None, h') \<and> hash_size h' = hash_size h"
proof -
  obtain t where t: "hash_table h = Some t" "table_ok (hash_size h) t" "0 < hash_size h" "entries t < hash_size h"
    using hash_okE [OF assms(1)] by metis
  obtain i where "hash_bucket key h = Some i" using bucket_run [OF t] by metis
  then show ?thesis using t(1) assms(2) by (auto simp: hash_insert_def split: option.split)
qed

text \<open>A table with any number of entries up to its limit.\<close>

lemma hash_full:
  assumes "n \<le> 80"
  shows "\<exists>h. hash_ok h \<and> hash_used h = n \<and> hash_size h = 241 \<and> (\<forall>m \<ge> int n. hash_map h (Key_num m) = None)"
  using assms
proof (induction n)
  case 0
  obtain h where "hash_init True True = (None, h)" "hash_ok h" "hash_used h = 0" "hash_map h = Map.empty"
    using hash_init_run [of True] by blast
  moreover from this have "hash_size h = 241" by (auto simp: hash_init_def)
  ultimately show ?case by (intro exI [of _ h]) simp
next
  case (Suc n)
  obtain h where h: "hash_ok h" "hash_used h = n" "hash_size h = 241" "\<forall>m \<ge> int n. hash_map h (Key_num m) = None"
    using Suc by auto
  have room: "hash_used h < hash_limit h" using h(1,2,3) Suc.prems by (simp add: hash_ok_def)
  obtain h' where h': "hash_insert (True, True) True (Key_num (int n)) 0 h = Some (None, h')" "hash_ok h'"
    "hash_used h' = hash_used h + 1" "hash_map h' = (hash_map h)(Key_num (int n) \<mapsto> 0)"
    using hash_insert_absent [OF h(1), of "Key_num (int n)" True 0] h(2,4) Suc.prems by auto
  have "hash_size h' = 241" using hash_insert_size [OF h(1) room, of True "Key_num (int n)" 0] h'(1) h(3)
    by (metis option.inject prod.inject)
  then show ?case using h' h(2,4) by (intro exI [of _ h']) auto
qed

section \<open>Iteration\<close>

lemma hash_next_run:
  "n \<le> length t \<Longrightarrow>
   (case hash_next t n idx of
      None \<Rightarrow> \<forall>j. idx \<le> j \<and> j < n \<longrightarrow> t ! j = None
    | Some (j, node) \<Rightarrow> idx < j \<and> j \<le> n \<and> t ! (j - 1) = Some node \<and> (\<forall>i. idx \<le> i \<and> i < j - 1 \<longrightarrow> t ! i = None))"
proof (induction t n idx rule: hash_next.induct)
  case (1 t n idx)
  show ?case
  proof (cases "idx < n \<and> t ! idx = None")
    case True
    have free: "(\<forall>j. idx \<le> j \<and> j < m \<longrightarrow> t ! j = None) \<longleftrightarrow> (\<forall>j. idx + 1 \<le> j \<and> j < m \<longrightarrow> t ! j = None)" for m
      using True by (metis Suc_eq_plus1 Suc_leI le_neq_implies_less le_simps(3) less_or_eq_imp_le)
    have eq: "hash_next t n idx = hash_next t n (idx + 1)" using True by (subst hash_next.simps) simp
    have "case hash_next t n (idx + 1) of
      None \<Rightarrow> \<forall>j. idx + 1 \<le> j \<and> j < n \<longrightarrow> t ! j = None
    | Some (j, node) \<Rightarrow> idx + 1 < j \<and> j \<le> n \<and> t ! (j - 1) = Some node \<and> (\<forall>i. idx + 1 \<le> i \<and> i < j - 1 \<longrightarrow> t ! i = None)"
      by (rule "1.IH") (use True 1 in auto)
    then show ?thesis unfolding eq free by (auto split: option.splits)
  next
    case False
    then show ?thesis by (subst hash_next.simps) (auto split: option.splits)
  qed
qed

section \<open>Properties\<close>

text \<open>
  C32: Inserting into a hash table updates the map the table stands for, whichever slots the keys
  collide on and whether or not the table has to be doubled first: the insertion returns, keeps the
  invariant, and changes the binding of the key alone (not at all when the key is present and is
  not to be overwritten). Every lookup then reads that map.
\<close>
theorem hash_insert_refines:
  assumes "hash_ok h" "hash_used h < 268435456"
  shows "\<exists>h'. hash_insert (True, True) overwrite key data h = Some (None, h') \<and> hash_ok h' \<and>
    hash_map h' = (if overwrite \<or> hash_map h key = None then (hash_map h)(key \<mapsto> data) else hash_map h) \<and>
    (\<forall>k. hash_lookup k h' = Some (hash_map h' k))"
  using hash_insert_run [OF assms, of overwrite key data] hash_lookup_run by blast

lemma hash_insert_refines_witness:
  "\<exists>h'. hash_insert (True, True) False (Key_num 5) 7 (snd (ft_hash_num_init True)) = Some (None, h') \<and>
     hash_lookup (Key_num 5) h' = Some (Some 7) \<and> hash_lookup (Key_num 246) h' = Some None"
proof -
  have "hash_ok (snd (ft_hash_num_init True))" "hash_used (snd (ft_hash_num_init True)) < 268435456"
    "hash_map (snd (ft_hash_num_init True)) = Map.empty"
    using hash_init_run [of True] by (auto simp: ft_hash_num_init_def)
  then show ?thesis using hash_insert_refines [of "snd (ft_hash_num_init True)" False "Key_num 5" 7] by auto
qed

text \<open>
  A table of strings built by \<open>ft_hash_str_init\<close> and any sequence of
  \<open>ft_hash_str_insert\<close> calls, fewer than \<open>2\<^sup>2\<^sup>8\<close> of them, returns for each string the data of its
  last insertion, and \<open>NULL\<close> for a string never inserted.
\<close>
theorem ft_hash_strings:
  assumes "length kds \<le> 268435456"
  shows "\<exists>h h'. ft_hash_str_init True = (None, h) \<and> str_table.ins_all kds h = Some h' \<and>
    ft_hash_str_lookup s h' = Some (map_of (rev kds) s)"
proof -
  obtain h where h: "ft_hash_str_init True = (None, h)" "hash_ok h" "hash_used h = 0" "hash_map h = Map.empty"
    using hash_init_run [of False] by (auto simp: ft_hash_str_init_def)
  then show ?thesis using str_table.look_after [of h kds s] assms
    by (auto simp: hash_room_def split: option.splits)
qed

lemma ft_hash_strings_witness:
  "\<exists>h h'. ft_hash_str_init True = (None, h) \<and> str_table.ins_all [([65, 66], 1), ([66], 2), ([65, 66], 3)] h = Some h' \<and>
    ft_hash_str_lookup [65, 66] h' = Some (Some 3)"
  using ft_hash_strings [of "[([65, 66], 1), ([66], 2), ([65, 66], 3)]" "[65, 66]"] by simp

text \<open>
  When a full table cannot be doubled, \<open>hash_insert\<close> reports Out_Of_Memory, but
  \<open>hash_rehash\<close> has by then overwritten the pointer to the old table with \<open>NULL\<close>: every later
  lookup and insertion follows a null pointer.
\<close>
theorem hash_rehash_loses_table:
  assumes "hash_ok h" "hash_map h key = None" "hash_used h = hash_limit h"
  shows "\<exists>h'. hash_insert (True, False) overwrite key data h = Some (Some Out_Of_Memory, h') \<and>
    hash_lookup k h' = None \<and> hash_insert mem overwrite' k data' h' = None"
proof -
  obtain t where t: "hash_table h = Some t" "table_ok (hash_size h) t" "0 < hash_size h" "entries t < hash_size h"
    "hash_map h = table_map_of t"
    using hash_okE [OF assms(1)] by metis
  obtain i where "hash_bucket key h = Some i" "t ! i = None"
    using bucket_run [OF t(1-4)] assms(2) t(5) by (metis option.simps(8))
  then show ?thesis using t(1) assms(3)
    by (simp add: hash_insert_def hash_rehash_def hash_lookup_def hash_bucket_def)
qed

lemma hash_rehash_loses_table_witness:
  "\<exists>h h'. hash_ok h \<and> hash_used h = 80 \<and>
    hash_insert (True, False) True (Key_num 80) 1 h = Some (Some Out_Of_Memory, h') \<and>
    hash_lookup (Key_num 0) h' = None"
proof -
  obtain h where h: "hash_ok h" "hash_used h = 80" "hash_size h = 241" "hash_map h (Key_num 80) = None"
    using hash_full [of 80] by auto
  then have "hash_used h = hash_limit h" by (simp add: hash_ok_def)
  then show ?thesis
    using hash_rehash_loses_table [OF h(1,4), of True 1 "Key_num 0" "(True, True)" True 0] h(1,2) by blast
qed

text \<open>
  \<open>ft_hash_num_iterator\<close> returns the first entry at or after the index and leaves the index
  just behind it, or 0 when no entry is left, without an access outside the table.
\<close>
theorem ft_hash_num_iterator_first:
  assumes "hash_ok h" "hash_table h = Some t"
  shows "case ft_hash_num_iterator idx h of
      None \<Rightarrow> False
    | Some None \<Rightarrow> \<forall>j. idx \<le> j \<and> j < hash_size h \<longrightarrow> t ! j = None
    | Some (Some (j, node)) \<Rightarrow> idx < j \<and> j \<le> hash_size h \<and> t ! (j - 1) = Some node \<and>
        (\<forall>i. idx \<le> i \<and> i < j - 1 \<longrightarrow> t ! i = None)"
proof -
  have "hash_size h \<le> length t" using hash_okE [OF assms(1)] assms(2) by (metis option.inject order_refl)
  note run = hash_next_run [OF this, of idx]
  show ?thesis
  proof (cases "hash_next t (hash_size h) idx")
    case None
    then show ?thesis using run by (simp add: ft_hash_num_iterator_def assms(2))
  next
    case (Some r)
    then have "idx < hash_size h" by (subst (asm) hash_next.simps) (simp split: if_splits)
    then show ?thesis using run Some by (cases r) (simp add: ft_hash_num_iterator_def assms(2))
  qed
qed

lemma ft_hash_num_iterator_first_witness:
  "ft_hash_num_iterator 3 (snd (ft_hash_num_init True)) = Some None"
proof -
  have h: "hash_ok (snd (ft_hash_num_init True))" using hash_init_run [of True] by (auto simp: ft_hash_num_init_def)
  have "hash_table (snd (ft_hash_num_init True)) = Some (replicate 241 None)" "hash_size (snd (ft_hash_num_init True)) = 241"
    by (simp_all add: ft_hash_num_init_def hash_init_def)
  then show ?thesis using ft_hash_num_iterator_first [OF h, of "replicate 241 None" 3]
    by (auto split: option.splits)
qed

end
