(* ===== verification/Ft_Calc.thy ===== *)
theory Ft_Calc
  imports Ft_Validate
begin

unbundle bit_operations_syntax

text \<open>
  The fixed-point arithmetic of \<open>src/base/ftcalc.c\<close>. Values of \<open>FT_Long\<close>, \<open>FT_Fixed\<close> and the
  unsigned types are integers, and every conversion of the code is one of \<open>s64\<close>, \<open>s32\<close>, \<open>u64\<close> and
  \<open>u32i\<close>. Both branches of the file are here: the one for compilers with a 64-bit type, which is what
  the port is built from, and the portable one, whose \<open>FT_Long\<close> has 32 bits (names ending in \<open>_32\<close>).
  A signed operation that overflows, which C leaves undefined, wraps around.
\<close>

section \<open>Model\<close>

subsection \<open>Rounding and the highest bit\<close>

definition ADD_LONG :: "int \<Rightarrow> int \<Rightarrow> int" where
  "ADD_LONG a b = s64 (u64 a + u64 b)"

definition SUB_LONG :: "int \<Rightarrow> int \<Rightarrow> int" where
  "SUB_LONG a b = s64 (u64 a - u64 b)"

definition NEG_LONG :: "int \<Rightarrow> int" where
  "NEG_LONG a = s64 (0 - u64 a)"

definition FT_RoundFix :: "int \<Rightarrow> int" where
  "FT_RoundFix a = ADD_LONG a (0x8000 - (if a < 0 then 1 else 0)) AND NOT 0xFFFF"

definition FT_CeilFix :: "int \<Rightarrow> int" where
  "FT_CeilFix a = ADD_LONG a 0xFFFF AND NOT 0xFFFF"

definition FT_FloorFix :: "int \<Rightarrow> int" where
  "FT_FloorFix a = a AND NOT 0xFFFF"

text \<open>One test of \<open>FT_MSB\<close>: when \<open>z & mask\<close>, shift \<open>z\<close> and count.\<close>

definition msb_step :: "int \<Rightarrow> nat \<Rightarrow> int \<times> nat \<Rightarrow> int \<times> nat" where
  "msb_step m k zs = (if fst zs AND m \<noteq> 0 then (drop_bit k (fst zs), snd zs + k) else zs)"

definition FT_MSB :: "int \<Rightarrow> nat" where
  "FT_MSB z =
     snd (msb_step 0x2 1 (msb_step 0xC 2 (msb_step 0xF0 4 (msb_step 0xFF00 8 (msb_step 0xFFFF0000 16 (z, 0))))))"

subsection \<open>Multiplication and division, with 64-bit integers\<close>

text \<open>\<open>FT_MOVE_SIGN\<close>: the absolute value as an unsigned number, and the sign turned.\<close>

definition move_sign :: "int \<Rightarrow> int \<Rightarrow> int \<times> int" where
  "move_sign x s = (if x < 0 then (u64 (0 - u64 x), - s) else (u64 x, s))"

definition FT_MulDiv :: "int \<Rightarrow> int \<Rightarrow> int \<Rightarrow> int" where
  "FT_MulDiv a0 b0 c0 =
     (let (a, s) = move_sign a0 1; (b, s) = move_sign b0 s; (c, s) = move_sign c0 s;
          d = (if c > 0 then u64 (u64 (a * b) + drop_bit 1 c) div c else 0x7FFFFFFF);
          r = s64 d
      in if s < 0 then NEG_LONG r else r)"

definition FT_MulDiv_No_Round :: "int \<Rightarrow> int \<Rightarrow> int \<Rightarrow> int" where
  "FT_MulDiv_No_Round a0 b0 c0 =
     (let (a, s) = move_sign a0 1; (b, s) = move_sign b0 s; (c, s) = move_sign c0 s;
          d = (if c > 0 then u64 (a * b) div c else 0x7FFFFFFF);
          r = s64 d
      in if s < 0 then NEG_LONG r else r)"

definition FT_MulFix :: "int \<Rightarrow> int \<Rightarrow> int" where
  "FT_MulFix a b =
     (let ab = s64 (u64 a * u64 b);
          ab = s64 (u64 ab + u64 (0x8000 + drop_bit 63 ab))
      in drop_bit 16 ab)"

definition FT_DivFix :: "int \<Rightarrow> int \<Rightarrow> int" where
  "FT_DivFix a0 b0 =
     (let (a, s) = move_sign a0 1; (b, s) = move_sign b0 s;
          q = (if b > 0 then u64 (u64 (push_bit 16 a) + drop_bit 1 b) div b else 0x7FFFFFFF);
          r = s64 q
      in if s < 0 then NEG_LONG r else r)"

subsection \<open>The same without 64-bit integers\<close>

text \<open>The structure \<open>FT_Int64\<close> of the portable branch, as \<open>(hi, lo)\<close>.\<close>

type_synonym FT_Int64 = "int \<times> int"

definition ft_multo64 :: "int \<Rightarrow> int \<Rightarrow> FT_Int64" where
  "ft_multo64 x y =
     (let lo1 = x AND 0xFFFF; hi1 = drop_bit 16 x; lo2 = y AND 0xFFFF; hi2 = drop_bit 16 y;
          lo = u32i (lo1 * lo2); i1 = u32i (lo1 * hi2); i2 = u32i (lo2 * hi1); hi = u32i (hi1 * hi2);
          i1 = u32i (i1 + i2);
          hi = u32i (hi + (if i1 < i2 then 0x10000 else 0));
          hi = u32i (hi + drop_bit 16 i1);
          i1 = u32i (push_bit 16 i1);
          lo = u32i (lo + i1);
          hi = u32i (hi + (if lo < i1 then 1 else 0))
      in (hi, lo))"

text \<open>The long division of \<open>ft_div64by32\<close>, \<open>i\<close> bits to go.\<close>

primrec div64by32_loop :: "nat \<Rightarrow> int \<Rightarrow> int \<Rightarrow> int \<Rightarrow> int \<Rightarrow> int" where
  "div64by32_loop 0 y q r lo = q"
| "div64by32_loop (Suc i) y q r lo =
     (let q = u32i (push_bit 1 q);
          r = u32i (push_bit 1 r) OR drop_bit 31 lo;
          lo = u32i (push_bit 1 lo)
      in if r \<ge> y then div64by32_loop i y (q OR 1) (u32i (r - y)) lo else div64by32_loop i y q r lo)"

definition ft_div64by32 :: "int \<Rightarrow> int \<Rightarrow> int \<Rightarrow> int" where
  "ft_div64by32 hi lo y =
     (if hi \<ge> y then 0x7FFFFFFF
      else let i = 31 - FT_MSB hi;
               r = u32i (push_bit i hi) OR drop_bit (32 - i) lo;
               lo = u32i (push_bit i lo);
               q = r div y;
               r = u32i (r - u32i (q * y))
           in div64by32_loop (32 - i) y q r lo)"

definition FT_Add64 :: "FT_Int64 \<Rightarrow> FT_Int64 \<Rightarrow> FT_Int64" where
  "FT_Add64 x y =
     (let lo = u32i (snd x + snd y);
          hi = u32i (fst x + fst y + (if lo < snd x then 1 else 0))
      in (hi, lo))"

definition move_sign_32 :: "int \<Rightarrow> int \<Rightarrow> int \<times> int" where
  "move_sign_32 x s = (if x < 0 then (u32i (0 - u32i x), - s) else (u32i x, s))"

definition NEG_LONG_32 :: "int \<Rightarrow> int" where
  "NEG_LONG_32 a = s32 (0 - u32i a)"

definition FT_MulDiv_32 :: "int \<Rightarrow> int \<Rightarrow> int \<Rightarrow> int" where
  "FT_MulDiv_32 a0 b0 c0 =
     (let (a, s) = move_sign_32 a0 1; (b, s) = move_sign_32 b0 s; (c, s) = move_sign_32 c0 s;
          a = (if c = 0 then 0x7FFFFFFF
               else if u32i (a + b) \<le> u32i (129894 - drop_bit 17 c)
               then u32i (u32i (a * b) + drop_bit 1 c) div c
               else let temp = FT_Add64 (ft_multo64 a b) (0, drop_bit 1 c)
                    in if fst temp = 0 then snd temp div c else ft_div64by32 (fst temp) (snd temp) c);
          r = s32 a
      in if s < 0 then NEG_LONG_32 r else r)"

definition FT_MulDiv_No_Round_32 :: "int \<Rightarrow> int \<Rightarrow> int \<Rightarrow> int" where
  "FT_MulDiv_No_Round_32 a0 b0 c0 =
     (let (a, s) = move_sign_32 a0 1; (b, s) = move_sign_32 b0 s; (c, s) = move_sign_32 c0 s;
          a = (if c = 0 then 0x7FFFFFFF
               else if u32i (a + b) \<le> 131071 then u32i (a * b) div c
               else let temp = ft_multo64 a b
                    in if fst temp = 0 then snd temp div c else ft_div64by32 (fst temp) (snd temp) c);
          r = s32 a
      in if s < 0 then NEG_LONG_32 r else r)"

definition FT_MulFix_32 :: "int \<Rightarrow> int \<Rightarrow> int" where
  "FT_MulFix_32 a0 b0 =
     (let (a, s) = move_sign_32 a0 1; (b, s) = move_sign_32 b0 s;
          a = (if u32i (a + drop_bit 8 b) \<le> 8190 then drop_bit 16 (u32i (a * b + 0x8000))
               else let al = a AND 0xFFFF
                    in u32i (drop_bit 16 a * b + al * drop_bit 16 b +
                         drop_bit 16 (u32i (al * (b AND 0xFFFF) + 0x8000))));
          r = s32 a
      in if s < 0 then NEG_LONG_32 r else r)"

definition FT_DivFix_32 :: "int \<Rightarrow> int \<Rightarrow> int" where
  "FT_DivFix_32 a0 b0 =
     (let (a, s) = move_sign_32 a0 1; (b, s) = move_sign_32 b0 s;
          q = (if b = 0 then 0x7FFFFFFF
               else if a \<le> 65535 - drop_bit 17 b then u32i (u32i (push_bit 16 a) + drop_bit 1 b) div b
               else let temp = FT_Add64 (drop_bit 16 a, u32i (push_bit 16 a)) (0, drop_bit 1 b)
                    in ft_div64by32 (fst temp) (snd temp) b);
          r = s32 q
      in if s < 0 then NEG_LONG_32 r else r)"

subsection \<open>Matrices and vectors\<close>

record FT_Matrix =
  mxx :: int
  mxy :: int
  myx :: int
  myy :: int

record FT_Vector =
  vx :: int
  vy :: int

definition FT_Matrix_Multiply :: "FT_Matrix \<Rightarrow> FT_Matrix \<Rightarrow> FT_Matrix" where
  "FT_Matrix_Multiply a b =
     \<lparr>mxx = ADD_LONG (FT_MulFix (mxx a) (mxx b)) (FT_MulFix (mxy a) (myx b)),
      mxy = ADD_LONG (FT_MulFix (mxx a) (mxy b)) (FT_MulFix (mxy a) (myy b)),
      myx = ADD_LONG (FT_MulFix (myx a) (mxx b)) (FT_MulFix (myy a) (myx b)),
      myy = ADD_LONG (FT_MulFix (myx a) (mxy b)) (FT_MulFix (myy a) (myy b))\<rparr>"

definition FT_Matrix_Invert :: "FT_Matrix \<Rightarrow> ft_error option \<times> FT_Matrix" where
  "FT_Matrix_Invert m =
     (let delta = s64 (FT_MulFix (mxx m) (myy m) - FT_MulFix (mxy m) (myx m))
      in if delta = 0 then (Some Invalid_Argument, m)
         else let m = m\<lparr>mxy := s64 (- FT_DivFix (mxy m) delta)\<rparr>;
                  m = m\<lparr>myx := s64 (- FT_DivFix (myx m) delta)\<rparr>;
                  x = mxx m; y = myy m;
                  m = m\<lparr>mxx := FT_DivFix y delta\<rparr>
              in (None, m\<lparr>myy := FT_DivFix x delta\<rparr>))"

definition FT_Matrix_Multiply_Scaled :: "FT_Matrix \<Rightarrow> FT_Matrix \<Rightarrow> int \<Rightarrow> FT_Matrix" where
  "FT_Matrix_Multiply_Scaled a b scaling =
     (let val = s64 (0x10000 * scaling)
      in \<lparr>mxx = ADD_LONG (FT_MulDiv (mxx a) (mxx b) val) (FT_MulDiv (mxy a) (myx b) val),
          mxy = ADD_LONG (FT_MulDiv (mxx a) (mxy b) val) (FT_MulDiv (mxy a) (myy b) val),
          myx = ADD_LONG (FT_MulDiv (myx a) (mxx b) val) (FT_MulDiv (myy a) (myx b) val),
          myy = ADD_LONG (FT_MulDiv (myx a) (mxy b) val) (FT_MulDiv (myy a) (myy b) val)\<rparr>)"

definition FT_ABS :: "int \<Rightarrow> int" where
  "FT_ABS a = (if a < 0 then s64 (- a) else a)"

definition FT_Matrix_Check :: "FT_Matrix \<Rightarrow> bool" where
  "FT_Matrix_Check m =
     (let val = FT_ABS (mxx m) OR FT_ABS (mxy m) OR FT_ABS (myx m) OR FT_ABS (myy m)
      in if val = 0 \<or> val > 0x7FFFFFFF then False
         else let shift = int (FT_MSB (u32i val)) - 12;
                  sh = (\<lambda>v. if shift > 0 then drop_bit (nat shift) v else v);
                  a = sh (mxx m); b = sh (mxy m); c = sh (myx m); d = sh (myy m);
                  temp1 = u64 (32 * u64 (FT_ABS (s64 (a * d - b * c))));
                  temp2 = u64 (u64 (a * a) + u64 (b * b) + u64 (c * c) + u64 (d * d))
              in \<not> temp1 \<le> temp2)"

definition FT_Vector_Transform_Scaled :: "FT_Vector \<Rightarrow> FT_Matrix \<Rightarrow> int \<Rightarrow> FT_Vector" where
  "FT_Vector_Transform_Scaled v m scaling =
     (let val = s64 (0x10000 * scaling)
      in \<lparr>vx = ADD_LONG (FT_MulDiv (vx v) (mxx m) val) (FT_MulDiv (vy v) (mxy m) val),
          vy = ADD_LONG (FT_MulDiv (vx v) (myx m) val) (FT_MulDiv (vy v) (myy m) val)\<rparr>)"

subsection \<open>Square root\<close>

text \<open>The Babylonian loop on \<open>r\<close>, from \<open>t\<close> to the next \<open>q\<close>.\<close>

partial_function (option) sqrt_loop :: "int \<Rightarrow> int \<Rightarrow> int option" where
  "sqrt_loop r t =
     (let q = drop_bit 1 (u32i (t + u32i (r div t) + 1))
      in if q \<noteq> t then sqrt_loop r q else Some q)"

definition FT_SqrtFixed :: "int \<Rightarrow> int option" where
  "FT_SqrtFixed v =
     (if v = 0 then Some 0
      else let r = u64 (push_bit 16 v - 1)
           in sqrt_loop r (push_bit ((17 + FT_MSB v) div 2) 1))"

subsection \<open>Corners\<close>

definition ft_corner_orientation :: "int \<Rightarrow> int \<Rightarrow> int \<Rightarrow> int \<Rightarrow> int" where
  "ft_corner_orientation in_x in_y out_x out_y =
     (let delta = s64 (u64 (s64 (u64 in_x * u64 out_y)) - u64 (s64 (u64 in_y * u64 out_x)))
      in (if delta > 0 then 1 else 0) - (if delta < 0 then 1 else 0))"

text \<open>One product of the portable branch.\<close>

definition corner_product_32 :: "int \<Rightarrow> int \<Rightarrow> FT_Int64" where
  "corner_product_32 a b =
     (if u32i (u32i (abs a) + u32i (abs b)) \<le> 92681
      then let lo = u32i (u32i a * u32i b) in (u32i (drop_bit 31 (s32 lo)), lo)
      else ft_multo64 (u32i a) (u32i b))"

definition ft_corner_orientation_32 :: "int \<Rightarrow> int \<Rightarrow> int \<Rightarrow> int \<Rightarrow> int" where
  "ft_corner_orientation_32 in_x in_y out_x out_y =
     (let z1 = corner_product_32 in_x out_y; z2 = corner_product_32 in_y out_x
      in if s32 (fst z1) > s32 (fst z2) then 1
         else if s32 (fst z1) < s32 (fst z2) then -1
         else if snd z1 > snd z2 then 1
         else if snd z1 < snd z2 then -1
         else 0)"

definition FT_HYPOT :: "int \<Rightarrow> int \<Rightarrow> int" where
  "FT_HYPOT x y =
     (let x = FT_ABS x; y = FT_ABS y
      in if x > y then s64 (x + drop_bit 3 (s64 (3 * y))) else s64 (y + drop_bit 3 (s64 (3 * x))))"

definition ft_corner_is_flat :: "int \<Rightarrow> int \<Rightarrow> int \<Rightarrow> int \<Rightarrow> bool" where
  "ft_corner_is_flat in_x in_y out_x out_y =
     (let ax = s64 (in_x + out_x); ay = s64 (in_y + out_y);
          d_in = FT_HYPOT in_x in_y; d_out = FT_HYPOT out_x out_y; d_hypot = FT_HYPOT ax ay
      in s64 (d_in + d_out - d_hypot) < drop_bit 4 d_hypot)"

end
