(* ===== verification/Ft_Calc_Exact.thy ===== *)
theory Ft_Calc_Exact
  imports Ft_Calc
begin

text \<open>
  What the routines of \<open>src/base/ftcalc.c\<close> compute: the quotients and products of \<open>Ft_Calc\<close> in
  terms of \<open>div\<close> on integers, and the agreement of the two branches of the file.
\<close>

section \<open>Bits\<close>

lemma and_not_mask: "(x :: int) AND NOT (mask n) = x - x mod 2 ^ n"
proof -
  have "x AND NOT (mask n) = push_bit n (drop_bit n x)" by (auto simp: bit_eq_iff bit_simps)
  then show ?thesis using bits_ident [of n x] by (simp add: take_bit_eq_mod)
qed

lemma and_not_ffff [simp]: "(x :: int) AND NOT 0xFFFF = x - x mod 65536"
  using and_not_mask [of x 16] by (simp add: mask_eq_exp_minus_1)

lemma and_ffff [simp]: "(x :: int) AND 0xFFFF = x mod 65536"
  using take_bit_eq_mask [of 16 x] by (simp add: mask_eq_exp_minus_1 take_bit_eq_mod)

lemma push_or: "0 \<le> b \<Longrightarrow> b < 2 ^ n \<Longrightarrow> push_bit n a OR b = push_bit n a + (b :: int)"
  using concat_bit_eq [of n b a] by (simp add: concat_bit_def take_bit_int_eq_self or.commute)

lemma and_mask_shift: "(z :: int) AND push_bit k (mask l) = push_bit k (take_bit l (drop_bit k z))"
  by (auto simp: bit_eq_iff bit_simps)

lemma zdiv_less: "(0 :: int) < b \<Longrightarrow> z < c * b \<Longrightarrow> z div b < c"
proof (rule ccontr)
  assume b: "0 < b" and z: "z < c * b" and "\<not> z div b < c"
  then have "c * b \<le> z div b * b" by (intro mult_right_mono) auto
  also have "\<dots> \<le> z" using b pos_mod_sign [OF b, of z] div_mult_mod_eq [of z b] by linarith
  finally show False using z by simp
qed

lemma zdiv_le: "(0 :: int) < b \<Longrightarrow> 0 \<le> z \<Longrightarrow> z div b \<le> z"
  using zdiv_mono2 [of z 1 b] by simp

lemma mask_nonzero:
  assumes "0 \<le> z" "z < 2 ^ (k + k)"
  shows "z AND push_bit k (mask k) \<noteq> 0 \<longleftrightarrow> (2 :: int) ^ k \<le> z"
proof -
  have "drop_bit k z < 2 ^ k" using assms by (simp add: drop_bit_eq_div zdiv_less power_add)
  then have "take_bit k (drop_bit k z) = drop_bit k z" using assms by (simp add: take_bit_int_eq_self)
  then have "z AND push_bit k (mask k) \<noteq> 0 \<longleftrightarrow> drop_bit k z \<noteq> 0" unfolding and_mask_shift by (simp add: push_bit_eq_mult)
  also have "\<dots> \<longleftrightarrow> 2 ^ k \<le> z" using assms(1)
    by (metis drop_bit_eq_div div_pos_pos_trivial linorder_not_less pos_imp_zdiv_pos_iff zero_less_numeral zero_less_power less_irrefl)
  finally show ?thesis .
qed

section \<open>The highest bit\<close>

text \<open>What every test of \<open>FT_MSB\<close> keeps: the bits of \<open>z\<close> shifted out.\<close>

definition msb_inv :: "int \<Rightarrow> nat \<Rightarrow> int \<times> nat \<Rightarrow> bool" where
  "msb_inv z k zs \<longleftrightarrow> 0 < fst zs \<and> fst zs < 2 ^ k \<and> fst zs = drop_bit (snd zs) z"

lemma msb_step_inv:
  assumes "msb_inv z (k + k) zs" "m = push_bit k (mask k)"
  shows "msb_inv z k (msb_step m k zs)"
proof -
  have b: "0 < fst zs" "fst zs < 2 ^ (k + k)" "fst zs = drop_bit (snd zs) z" using assms(1) by (auto simp: msb_inv_def)
  have t: "fst zs AND m \<noteq> 0 \<longleftrightarrow> 2 ^ k \<le> fst zs" unfolding assms(2) using mask_nonzero [of "fst zs" k] b(1,2) by linarith
  show ?thesis
  proof (cases "2 ^ k \<le> fst zs")
    case True
    have "drop_bit k (fst zs) < 2 ^ k" using b by (simp add: drop_bit_eq_div zdiv_less power_add)
    moreover have "0 < drop_bit k (fst zs)" using True b by (simp add: drop_bit_eq_div pos_imp_zdiv_pos_iff)
    ultimately show ?thesis using True t b by (simp add: msb_step_def msb_inv_def add.commute)
  next
    case False
    then show ?thesis using t b by (simp add: msb_step_def msb_inv_def)
  qed
qed

lemma FT_MSB_bounds:
  assumes "0 < z" "z < 4294967296"
  shows "2 ^ FT_MSB z \<le> z" "z < 2 ^ (FT_MSB z + 1)"
proof -
  let ?s1 = "msb_step 0xFFFF0000 16 (z, 0)"
  let ?s2 = "msb_step 0xFF00 8 ?s1"
  let ?s3 = "msb_step 0xF0 4 ?s2"
  let ?s4 = "msb_step 0xC 2 ?s3"
  let ?s5 = "msb_step 0x2 1 ?s4"
  have "msb_inv z (16 + 16) (z, 0)" using assms by (simp add: msb_inv_def)
  then have "msb_inv z (8 + 8) ?s1" using msb_step_inv [of z 16] by (simp add: mask_eq_exp_minus_1 push_bit_eq_mult)
  then have "msb_inv z (4 + 4) ?s2" using msb_step_inv [of z 8] by (simp add: mask_eq_exp_minus_1 push_bit_eq_mult)
  then have "msb_inv z (2 + 2) ?s3" using msb_step_inv [of z 4] by (simp add: mask_eq_exp_minus_1 push_bit_eq_mult)
  then have "msb_inv z 2 ?s4" using msb_step_inv [of z 2] by (simp add: mask_eq_exp_minus_1 push_bit_eq_mult)
  then have "msb_inv z 1 ?s5" using msb_step_inv [of z 1] by (simp add: push_bit_eq_mult numeral_2_eq_2)
  then have "drop_bit (FT_MSB z) z = 1" by (auto simp: msb_inv_def FT_MSB_def)
  then have d: "z div 2 ^ FT_MSB z = 1" by (simp add: drop_bit_eq_div)
  then show "2 ^ FT_MSB z \<le> z" using assms(1) by (metis div_pos_pos_trivial linorder_not_less zero_neq_one less_le_not_le)
  have "z = 2 ^ FT_MSB z * 1 + z mod 2 ^ FT_MSB z" using d by (metis div_mult_mod_eq mult.commute)
  moreover have "z mod 2 ^ FT_MSB z < 2 ^ FT_MSB z" by simp
  moreover have "(2 :: int) ^ (FT_MSB z + 1) = 2 * 2 ^ FT_MSB z" by simp
  ultimately show "z < 2 ^ (FT_MSB z + 1)" by linarith
qed

lemma FT_MSB_le: "0 < z \<Longrightarrow> z < 2 ^ k \<Longrightarrow> k \<le> 32 \<Longrightarrow> FT_MSB z < k"
proof -
  assume a: "0 < z" "z < 2 ^ k" "k \<le> 32"
  have "(2 :: int) ^ k \<le> 2 ^ 32" using a(3) by (intro power_increasing) auto
  then have "z < 4294967296" using a(2) by simp
  then have "2 ^ FT_MSB z < (2 :: int) ^ k" using FT_MSB_bounds(1) [of z] a by linarith
  then show "FT_MSB z < k" using power_less_imp_less_exp [of "2 :: int"] by simp
qed

section \<open>Multiplication and division\<close>

definition sign_of :: "int \<Rightarrow> int" where
  "sign_of x = (if x < 0 then -1 else 1)"

lemma move_sign_abs:
  "abs x < 9223372036854775808 \<Longrightarrow> move_sign x s = (abs x, sign_of x * s)"
  by (auto simp: move_sign_def sign_of_def u64_def mod_minus_eq)

lemma move_sign_32_abs: "abs x < 2147483648 \<Longrightarrow> move_sign_32 x s = (abs x, sign_of x * s)"
  by (auto simp: move_sign_32_def sign_of_def u32i_def mod_minus_eq)

text \<open>The results of \<open>FT_MulDiv\<close> and its companions, as rationals rounded by magnitude.\<close>

definition mul_div :: "int \<Rightarrow> int \<Rightarrow> int \<Rightarrow> int" where
  "mul_div a b c = sign_of a * sign_of b * sign_of c * ((abs a * abs b + abs c div 2) div abs c)"

definition mul_div_floor :: "int \<Rightarrow> int \<Rightarrow> int \<Rightarrow> int" where
  "mul_div_floor a b c = sign_of a * sign_of b * sign_of c * (abs a * abs b div abs c)"

lemma drop1: "drop_bit 1 (c :: int) = c div 2" by (simp add: drop_bit_eq_div)

lemma sign_cases: "sign_of x = 1 \<or> sign_of x = -1" by (simp add: sign_of_def)

lemma sign_mult: "s = 1 \<or> s = -1 \<Longrightarrow> sign_of x * s = 1 \<or> sign_of x * s = -1"
  using sign_cases [of x] by auto

lemma signed_result:
  assumes "s = 1 \<or> s = -1" "0 \<le> d" "d < 9223372036854775808"
  shows "(if s < 0 then NEG_LONG (s64 d) else s64 d) = s * d"
  using assms by (auto simp: s64_id NEG_LONG_def u64_def s64_def)

lemma signed_result_32:
  assumes "s = 1 \<or> s = -1" "0 \<le> d" "d < 2147483648"
  shows "(if s < 0 then NEG_LONG_32 (s32 d) else s32 d) = s * d"
  using assms by (auto simp: s32_id NEG_LONG_32_def u32i_def s32_def)

text \<open>The quotients stay in the range of their dividends.\<close>

lemma quotient_range:
  fixes n c :: int
  assumes "0 < c" "0 \<le> n" "n < m"
  shows "0 \<le> n div c" "n div c < m"
  using assms zdiv_le [of c n] by (auto simp: pos_imp_zdiv_nonneg_iff)

lemma FT_MulDiv_eq:
  assumes "abs a < 9223372036854775808" "abs b < 9223372036854775808" "abs c < 9223372036854775808" "c \<noteq> 0"
    and "abs a * abs b + abs c div 2 < 9223372036854775808"
  shows "FT_MulDiv a b c = mul_div a b c"
proof -
  let ?n = "abs a * abs b + abs c div 2"
  have p: "0 \<le> abs a * abs b" "0 \<le> abs c div 2" "0 < abs c" using assms(4) by simp_all
  have u: "u64 (abs a * abs b) = abs a * abs b" "u64 ?n = ?n"
    using assms(5) p by (simp_all only: u64_id)
  have s: "sign_of c * (sign_of b * (sign_of a * 1)) = 1 \<or> sign_of c * (sign_of b * (sign_of a * 1)) = -1"
    by (intro sign_mult) simp
  have "0 \<le> ?n" using p by linarith
  note d = quotient_range [OF p(3) this assms(5)]
  have "FT_MulDiv a b c = (sign_of c * (sign_of b * (sign_of a * 1))) * (?n div abs c)"
    unfolding FT_MulDiv_def Let_def move_sign_abs [OF assms(1)] move_sign_abs [OF assms(2)]
      move_sign_abs [OF assms(3)] prod.case u drop1 if_P [OF p(3)] signed_result [OF s d] by (rule refl)
  then show ?thesis by (simp only: mul_div_def mult.commute mult.left_commute mult_1_right)
qed

lemma FT_MulDiv_No_Round_eq:
  assumes "abs a < 9223372036854775808" "abs b < 9223372036854775808" "abs c < 9223372036854775808" "c \<noteq> 0"
    and "abs a * abs b < 9223372036854775808"
  shows "FT_MulDiv_No_Round a b c = mul_div_floor a b c"
proof -
  let ?n = "abs a * abs b"
  have p: "0 \<le> ?n" "0 < abs c" using assms(4) by simp_all
  have u: "u64 ?n = ?n" using assms(5) p by (simp only: u64_id)
  have s: "sign_of c * (sign_of b * (sign_of a * 1)) = 1 \<or> sign_of c * (sign_of b * (sign_of a * 1)) = -1"
    by (intro sign_mult) simp
  note d = quotient_range [OF p(2,1) assms(5)]
  have "FT_MulDiv_No_Round a b c = (sign_of c * (sign_of b * (sign_of a * 1))) * (?n div abs c)"
    unfolding FT_MulDiv_No_Round_def Let_def move_sign_abs [OF assms(1)] move_sign_abs [OF assms(2)]
      move_sign_abs [OF assms(3)] prod.case u if_P [OF p(2)] signed_result [OF s d] by (rule refl)
  then show ?thesis by (simp only: mul_div_floor_def mult.commute mult.left_commute mult_1_right)
qed

lemma FT_DivFix_eq:
  assumes "abs a < 9223372036854775808" "abs b < 9223372036854775808" "b \<noteq> 0"
    and "abs a * 65536 + abs b div 2 < 9223372036854775808"
  shows "FT_DivFix a b = mul_div a 65536 b"
proof -
  let ?n = "abs a * 65536 + abs b div 2"
  have p: "0 \<le> abs a * 65536" "0 \<le> abs b div 2" "0 < abs b" using assms(3) by simp_all
  have u: "u64 (push_bit 16 (abs a)) = abs a * 65536" "u64 ?n = ?n"
    using assms(4) p by (simp_all add: u64_id push_bit_eq_mult)
  have s: "sign_of b * (sign_of a * 1) = 1 \<or> sign_of b * (sign_of a * 1) = -1"
    by (intro sign_mult) simp
  have "0 \<le> ?n" using p by linarith
  note d = quotient_range [OF p(3) this assms(4)]
  have "FT_DivFix a b = (sign_of b * (sign_of a * 1)) * (?n div abs b)"
    unfolding FT_DivFix_def Let_def move_sign_abs [OF assms(1)] move_sign_abs [OF assms(2)]
      prod.case u drop1 if_P [OF p(3)] signed_result [OF s d] by (rule refl)
  moreover have "sign_of 65536 = 1" "abs (65536 :: int) = 65536" by (simp_all add: sign_of_def)
  ultimately show ?thesis by (simp only: mul_div_def mult.commute mult.left_commute mult_1_right)
qed

lemma round_neg: "(- n + 32767) div 65536 = - ((n + 32768) div (65536 :: int))"
proof (rule int_div_pos_eq)
  show "- n + 32767 = 65536 * - ((n + 32768) div 65536) + (65535 - (n + 32768) mod 65536)"
    using div_mult_mod_eq [of "n + 32768" 65536] by linarith
  show "0 \<le> 65535 - (n + 32768) mod 65536" using pos_mod_bound [of 65536 "n + 32768"] by linarith
  show "65535 - (n + 32768) mod 65536 < 65536" using pos_mod_sign [of 65536 "n + 32768"] by linarith
qed

lemma s64_cong: "x mod 18446744073709551616 = y mod 18446744073709551616 \<Longrightarrow> s64 x = s64 y"
proof -
  assume "x mod 18446744073709551616 = y mod 18446744073709551616"
  then have "(x + 9223372036854775808) mod 18446744073709551616 = (y + 9223372036854775808) mod 18446744073709551616"
    by (rule mod_add_cong) (rule refl)
  then show ?thesis by (simp only: s64_def)
qed

lemma s64_u64 [simp]: "s64 (u64 x * u64 y) = s64 (x * y)" "s64 (u64 x + u64 y) = s64 (x + y)"
  "s64 (u64 x - u64 y) = s64 (x - y)"
  by (rule s64_cong, simp add: u64_def mod_mult_eq mod_add_eq mod_diff_eq)+

lemma ADD_LONG_eq: "ADD_LONG a b = s64 (a + b)"
  by (simp add: ADD_LONG_def)

lemma FT_MulFix_eq:
  assumes "abs a * abs b + 32768 < 9223372036854775808"
  shows "FT_MulFix a b = mul_div a b 65536"
proof -
  have r: "abs (a * b) + 32768 < 9223372036854775808" using assms by (simp add: abs_mult)
  have ab: "s64 (a * b) = a * b" using r by (simp add: s64_id)
  have top63: "a * b div 9223372036854775808 = (if a * b < 0 then -1 else 0)"
    using r by (auto simp: div_pos_pos_trivial div_pos_neg_trivial)
  have "s64 (a * b + (0x8000 + (if a * b < 0 then -1 else 0))) = a * b + 0x8000 + (if a * b < 0 then -1 else 0)"
    using r by (simp add: s64_id)
  then have "FT_MulFix a b = (a * b + 0x8000 + (if a * b < 0 then -1 else 0)) div 65536"
    by (simp add: FT_MulFix_def ab Let_def drop_bit_eq_div top63 split del: if_split)
  moreover have "sign_of a * sign_of b = (if a * b < 0 then -1 else 1) \<or> a * b = 0"
    by (auto simp: sign_of_def mult_less_0_iff)
  ultimately show ?thesis using round_neg [of "abs (a * b)"]
    by (auto simp: mul_div_def abs_mult [symmetric] sign_of_def split: if_splits)
qed

section \<open>The portable branch\<close>

lemma carry:
  assumes "0 \<le> a" "a < 4294967296" "0 \<le> b" "b < 4294967296"
  shows "u32i (a + b) = a + b - 4294967296 * (if u32i (a + b) < b then 1 else 0)"
    "0 \<le> u32i (a + b)" "u32i (a + b) < 4294967296"
proof -
  show "u32i (a + b) = a + b - 4294967296 * (if u32i (a + b) < b then 1 else 0)"
  proof (cases "a + b < 4294967296")
    case True
    then show ?thesis using assms by (simp add: u32i_id)
  next
    case False
    then have "u32i (a + b) = a + b - 4294967296"
      using assms mod_pos_pos_trivial [of "a + b - 4294967296" 4294967296] minus_mod_self2 [of "a + b" 4294967296]
      by (simp add: u32i_def)
    then show ?thesis using assms by simp
  qed
qed (simp_all add: u32i_def)

lemma u32_halves:
  assumes "0 \<le> (x :: int)" "x < 4294967296"
  shows "x = x div 65536 * 65536 + x mod 65536" "0 \<le> x div 65536" "x div 65536 \<le> 65535"
    "0 \<le> x mod 65536" "x mod 65536 \<le> 65535"
  using assms zdiv_less [of 65536 x 65536] pos_mod_bound [of 65536 x] by (auto simp: pos_imp_zdiv_nonneg_iff)

lemma half_product: "0 \<le> (a :: int) \<Longrightarrow> a \<le> 65535 \<Longrightarrow> 0 \<le> b \<Longrightarrow> b \<le> 65535 \<Longrightarrow> 0 \<le> a * b \<and> a * b \<le> 4294836225"
  using mult_mono [of a 65535 b 65535] by auto

lemma multo64_sum:
  fixes i p q r m :: int
  assumes "i = p + q - 4294967296 * c1" "lo = r + m * 65536 - 4294967296 * c2" "i = d * 65536 + m"
  shows "t * 4294967296 + (p + q) * 65536 + r = (t + c1 * 65536 + d + c2) * 4294967296 + lo"
  using assms by (simp add: algebra_simps)

lemma ft_multo64_eq:
  assumes x: "0 \<le> x" "x < 4294967296" and y: "0 \<le> y" "y < 4294967296"
  shows "fst (ft_multo64 x y) * 4294967296 + snd (ft_multo64 x y) = x * y"
    "0 \<le> snd (ft_multo64 x y)" "snd (ft_multo64 x y) < 4294967296"
    "0 \<le> fst (ft_multo64 x y)" "fst (ft_multo64 x y) < 4294967296"
proof -
  define h1 l1 h2 l2 where d: "h1 = x div 65536" "l1 = x mod 65536" "h2 = y div 65536" "l2 = y mod 65536"
  note hx = u32_halves [OF x] note hy = u32_halves [OF y]
  have b: "0 \<le> l1 * l2 \<and> l1 * l2 \<le> 4294836225" "0 \<le> l1 * h2 \<and> l1 * h2 \<le> 4294836225"
    "0 \<le> l2 * h1 \<and> l2 * h1 \<le> 4294836225" "0 \<le> h1 * h2 \<and> h1 * h2 \<le> 4294836225"
    unfolding d by (intro half_product hx hy)+
  have u: "u32i (l1 * l2) = l1 * l2" "u32i (l1 * h2) = l1 * h2" "u32i (l2 * h1) = l2 * h1" "u32i (h1 * h2) = h1 * h2"
    using b by (simp_all add: u32i_id)
  define i where "i = u32i (l1 * h2 + l2 * h1)"
  define c1 where "c1 = (if i < l2 * h1 then 1 else 0 :: int)"
  have i: "i = l1 * h2 + l2 * h1 - 4294967296 * c1" "0 \<le> i" "i < 4294967296"
    unfolding c1_def i_def using carry [of "l1 * h2" "l2 * h1"] b by auto
  define j where "j = i mod 65536 * 65536"
  have j: "u32i (push_bit 16 i) = j" "0 \<le> j" "j < 4294967296"
    unfolding j_def using pos_mod_bound [of 65536 i] mult_mod_right [of 65536 i 65536]
    by (simp_all add: u32i_def push_bit_eq_mult mult.commute)
  define lo where "lo = u32i (l1 * l2 + j)"
  define c2 where "c2 = (if lo < j then 1 else 0 :: int)"
  have lo: "lo = l1 * l2 + j - 4294967296 * c2" "0 \<le> lo" "lo < 4294967296"
    unfolding c2_def lo_def using carry [of "l1 * l2" j] b j by auto
  define hi where "hi = h1 * h2 + c1 * 65536 + i div 65536 + c2"
  have c: "0 \<le> c1" "0 \<le> c2" "0 \<le> i div 65536" using i by (simp_all add: c1_def c2_def pos_imp_zdiv_nonneg_iff)
  have "x * y = (h1 * 65536 + l1) * (h2 * 65536 + l2)" using hx(1) hy(1) d by simp
  also have "\<dots> = h1 * h2 * 4294967296 + (l1 * h2 + l2 * h1) * 65536 + l1 * l2" by (simp add: algebra_simps)
  also have "\<dots> = hi * 4294967296 + lo"
  proof -
    have "i = i div 65536 * 65536 + i mod 65536" by simp
    then show ?thesis using i(1) lo(1) unfolding hi_def j_def by (intro multo64_sum)
  qed
  finally have xy: "x * y = hi * 4294967296 + lo" .
  have "x * y < 4294967296 * 4294967296" using x y by (intro mult_strict_mono) auto
  then have hi: "hi < 4294967296" using xy lo by linarith
  have "0 \<le> hi" "0 \<le> h1 * h2 + c1 * 65536" "h1 * h2 + c1 * 65536 \<le> hi"
    "h1 * h2 + c1 * 65536 + i div 65536 \<le> hi" "0 \<le> h1 * h2 + c1 * 65536 + i div 65536"
    using b c unfolding hi_def by simp_all
  then have uh: "u32i (h1 * h2 + c1 * 65536) = h1 * h2 + c1 * 65536"
    "u32i (h1 * h2 + c1 * 65536 + i div 65536) = h1 * h2 + c1 * 65536 + i div 65536" "u32i hi = hi"
    using hi by (simp_all add: u32i_id)
  have c1': "(if i < l2 * h1 then 0x10000 else 0 :: int) = c1 * 65536" by (simp add: c1_def)
  have r: "ft_multo64 x y = (hi, lo)"
    unfolding ft_multo64_def Let_def and_ffff drop_bit_eq_div
    by (simp add: d [symmetric] u i_def [symmetric] c1' uh j lo_def [symmetric] c2_def [symmetric] hi_def [symmetric])
  show "fst (ft_multo64 x y) * 4294967296 + snd (ft_multo64 x y) = x * y"
    "0 \<le> snd (ft_multo64 x y)" "snd (ft_multo64 x y) < 4294967296"
    "0 \<le> fst (ft_multo64 x y)" "fst (ft_multo64 x y) < 4294967296"
    unfolding r using xy lo hi \<open>0 \<le> hi\<close> by simp_all
qed

subsection \<open>Long division\<close>

text \<open>What is left in the low register: its top \<open>i\<close> bits.\<close>

lemma lo_shift:
  assumes "0 \<le> (lo :: int)" "lo < 4294967296" "i < 32"
  shows "lo div 2 ^ (31 - i) = lo div 2147483648 * 2 ^ i + u32i (push_bit 1 lo) div 2 ^ (32 - i)"
proof -
  have p: "(2147483648 :: int) = 2 ^ (31 - i) * 2 ^ i"
    using assms(3) by (simp add: power_add [symmetric])
  have "lo = lo div 2147483648 * 2147483648 + lo mod 2147483648" by simp
  then have "lo = lo mod 2147483648 + 2 ^ (31 - i) * (lo div 2147483648 * 2 ^ i)" using p by (simp add: algebra_simps)
  then have "lo div 2 ^ (31 - i) = lo div 2147483648 * 2 ^ i + lo mod 2147483648 div 2 ^ (31 - i)"
    using div_mult_self2 [of "2 ^ (31 - i) :: int" "lo mod 2147483648" "lo div 2147483648 * 2 ^ i"] by simp
  moreover have "u32i (push_bit 1 lo) = 2 * (lo mod 2147483648)"
    using mult_mod_right [of 2 lo 2147483648] by (simp add: u32i_def push_bit_eq_mult mult.commute)
  moreover have "(2 :: int) ^ (32 - i) = 2 * 2 ^ (31 - i)"
  proof -
    have "32 - i = Suc (31 - i)" using assms(3) by simp
    then show ?thesis by simp
  qed
  ultimately show ?thesis by simp
qed

lemma div64by32_loop_eq:
  assumes "0 \<le> r" "r < y" "y \<le> 2147483648" "0 \<le> lo" "lo < 4294967296" "i \<le> 32" "0 \<le> q" "q < 2 ^ (32 - i)"
  shows "div64by32_loop i y q r lo = q * 2 ^ i + (r * 2 ^ i + lo div 2 ^ (32 - i)) div y"
  using assms
proof (induction i arbitrary: q r lo)
  case 0
  then show ?case by (simp add: div_pos_pos_trivial)
next
  case (Suc i)
  let ?h = "lo div 2147483648" let ?lo = "u32i (push_bit 1 lo)"
  have h: "0 \<le> ?h" "?h < 2" using Suc.prems(4,5) zdiv_less [of 2147483648 lo 2] by (simp_all add: pos_imp_zdiv_nonneg_iff)
  have p: "(2 :: int) ^ (32 - i) = 2 * 2 ^ (32 - Suc i)"
    using Suc.prems(6) by (metis Suc_diff_Suc Suc_le_lessD power_Suc)
  have "(2 :: int) ^ (32 - i) \<le> 2 ^ 32" by (intro power_increasing) auto
  then have q: "u32i (push_bit 1 q) = 2 * q" using Suc.prems(7,8) p by (simp add: u32i_id push_bit_eq_mult)
  have q': "2 * q + 1 < 2 ^ (32 - i)" using Suc.prems(8) p by linarith
  have r: "u32i (push_bit 1 r) OR drop_bit 31 lo = 2 * r + ?h"
    using Suc.prems(1-3) push_or [of ?h 1 r] h by (simp add: u32i_id push_bit_eq_mult drop_bit_eq_div)
  have "lo div 2 ^ (32 - Suc i) = ?h * 2 ^ i + ?lo div 2 ^ (32 - i)"
    using lo_shift [of lo i] Suc.prems(4-6) by simp
  then have n: "r * 2 ^ Suc i + lo div 2 ^ (32 - Suc i) = (2 * r + ?h) * 2 ^ i + ?lo div 2 ^ (32 - i)"
    by (simp add: algebra_simps)
  have lo: "0 \<le> ?lo" "?lo < 4294967296" by (simp_all add: u32i_def)
  show ?case
  proof (cases "y \<le> 2 * r + ?h")
    case True
    have o: "2 * q OR 1 = 2 * q + 1" by (simp add: or_one_eq)
    have u: "u32i (2 * r + ?h - y) = 2 * r + ?h - y" using True Suc.prems(2,3) h by (simp add: u32i_id)
    have "div64by32_loop (Suc i) y q r lo = div64by32_loop i y (2 * q + 1) (2 * r + ?h - y) ?lo"
      using True by (simp only: div64by32_loop.simps Let_def q r o u if_True)
    also have "\<dots> = (2 * q + 1) * 2 ^ i + ((2 * r + ?h - y) * 2 ^ i + ?lo div 2 ^ (32 - i)) div y"
      by (rule Suc.IH) (use True h Suc.prems lo q' in simp_all)
    also have "(2 * r + ?h - y) * 2 ^ i + ?lo div 2 ^ (32 - i) =
        (r * 2 ^ Suc i + lo div 2 ^ (32 - Suc i)) + - (2 ^ i) * y" unfolding n by (simp add: algebra_simps)
    also have "\<dots> div y = - (2 ^ i) + (r * 2 ^ Suc i + lo div 2 ^ (32 - Suc i)) div y"
      using Suc.prems(1,2) by (intro div_mult_self1) simp
    finally show ?thesis by (simp add: algebra_simps)
  next
    case False
    have "div64by32_loop (Suc i) y q r lo = div64by32_loop i y (2 * q) (2 * r + ?h) ?lo"
      using False by (simp only: div64by32_loop.simps Let_def q r if_False)
    also have "\<dots> = 2 * q * 2 ^ i + ((2 * r + ?h) * 2 ^ i + ?lo div 2 ^ (32 - i)) div y"
      by (rule Suc.IH) (use False h Suc.prems lo q' in simp_all)
    finally show ?thesis unfolding n by simp
  qed
qed

lemma remainder_shift: "(r :: int) = a * y + m \<Longrightarrow> m * t + l = r * t + l + - (a * t) * y"
  by (simp add: algebra_simps)

lemma ft_div64by32_eq:
  assumes hi: "0 \<le> hi" "hi < y" and y: "y \<le> 2147483648" and lo: "0 \<le> lo" "lo < 4294967296"
  shows "ft_div64by32 hi lo y = (hi * 4294967296 + lo) div y"
proof -
  define i where "i = 31 - FT_MSB hi"
  have msb: "hi < 2 ^ (FT_MSB hi + 1)" "FT_MSB hi \<le> 30"
  proof -
    have z: "FT_MSB 0 = 0" by (simp add: FT_MSB_def msb_step_def)
    show "hi < 2 ^ (FT_MSB hi + 1)" using FT_MSB_bounds(2) [of hi] hi y z by (cases "hi = 0") auto
    show "FT_MSB hi \<le> 30" using FT_MSB_le [of hi 31] hi y z by (cases "hi = 0") auto
  qed
  then have i: "1 \<le> i" "i \<le> 31" "FT_MSB hi + 1 + i = 32" unfolding i_def by simp_all
  let ?h = "lo div 2 ^ (32 - i)"
  have p: "(4294967296 :: int) = 2 ^ i * 2 ^ (32 - i)" using i by (simp add: power_add [symmetric])
  have h: "0 \<le> ?h" "?h < 2 ^ i" using lo p zdiv_less [of "2 ^ (32 - i)" lo "2 ^ i"] by (simp_all add: pos_imp_zdiv_nonneg_iff)
  have "hi * 2 ^ i < 2 ^ (FT_MSB hi + 1) * 2 ^ i" using msb(1) by (intro mult_strict_right_mono) auto
  also have "\<dots> = 4294967296" unfolding power_add [symmetric] i(3) by simp
  finally have "u32i (push_bit i hi) = hi * 2 ^ i" using hi by (simp add: u32i_id push_bit_eq_mult)
  then have r: "u32i (push_bit i hi) OR drop_bit (32 - i) lo = hi * 2 ^ i + ?h"
    using push_or [OF h, of hi] by (simp add: push_bit_eq_mult drop_bit_eq_div)
  let ?r = "hi * 2 ^ i + ?h" let ?lo = "u32i (push_bit i lo)"
  have y0: "0 < y" using hi by simp
  have "(hi + 1) * 2 ^ i \<le> y * 2 ^ i" using hi(2) by (intro mult_right_mono) auto
  then have rb: "0 \<le> ?r" "?r < 2 ^ i * y" using h hi by (simp_all add: algebra_simps)
  have "hi * 2 ^ i + 2 ^ i \<le> 4294967296"
  proof -
    have "(hi + 1) * 2 ^ i \<le> 2 ^ (FT_MSB hi + 1) * 2 ^ i" using msb(1) by (intro mult_right_mono) auto
    also have "\<dots> = 4294967296" unfolding power_add [symmetric] i(3) by simp
    finally show ?thesis by (simp add: algebra_simps)
  qed
  then have r32: "?r < 4294967296" using h(2) by linarith
  have q: "0 \<le> ?r div y" "?r div y < 2 ^ i"
    using rb y0 zdiv_less [of y ?r "2 ^ i"] by (simp_all add: pos_imp_zdiv_nonneg_iff)
  have m: "?r = ?r div y * y + ?r mod y" "0 \<le> ?r mod y" "?r mod y < y" using y0 by simp_all
  have "0 \<le> ?r div y * y" using q(1) y0 by simp
  then have "u32i (?r div y * y) = ?r div y * y" using m r32 by (intro u32i_id) linarith+
  moreover have "?r - ?r div y * y = ?r mod y" using m(1) by linarith
  moreover have "u32i (?r mod y) = ?r mod y" using m(2,3) y by (intro u32i_id) linarith+
  ultimately have u: "u32i (?r - u32i (?r div y * y)) = ?r mod y" by simp
  have "ft_div64by32 hi lo y = div64by32_loop (32 - i) y (?r div y) (?r mod y) ?lo"
    unfolding ft_div64by32_def Let_def i_def [symmetric] r u using hi(2) by simp
  also have "\<dots> = ?r div y * 2 ^ (32 - i) + (?r mod y * 2 ^ (32 - i) + ?lo div 2 ^ (32 - (32 - i))) div y"
    by (rule div64by32_loop_eq) (use m y q i in \<open>simp_all add: u32i_def\<close>)
  also have "32 - (32 - i) = i" using i by simp
  also have "?r mod y * 2 ^ (32 - i) + ?lo div 2 ^ i =
      (?r * 2 ^ (32 - i) + ?lo div 2 ^ i) + - (?r div y * 2 ^ (32 - i)) * y"
    using m(1) by (rule remainder_shift)
  also have "\<dots> div y = - (?r div y * 2 ^ (32 - i)) + (?r * 2 ^ (32 - i) + ?lo div 2 ^ i) div y"
    using y0 by (intro div_mult_self1) simp
  also have "?r * 2 ^ (32 - i) + ?lo div 2 ^ i = hi * 4294967296 + lo"
  proof -
    have "?lo = 2 ^ i * (lo mod 2 ^ (32 - i))"
      using mult_mod_right [of "2 ^ i" lo "2 ^ (32 - i)"] by (simp only: u32i_def push_bit_eq_mult mult.commute p)
    then have "?lo div 2 ^ i = lo mod 2 ^ (32 - i)" by simp
    moreover have "lo = ?h * 2 ^ (32 - i) + lo mod 2 ^ (32 - i)" by (rule div_mult_mod_eq [symmetric])
    ultimately show ?thesis unfolding p by (simp add: algebra_simps)
  qed
  finally show ?thesis by simp
qed

end
