(* ===== verification/Ft_Calc_Agree.thy ===== *)
theory Ft_Calc_Agree
  imports Ft_Calc_Exact
begin

text \<open>
  The portable branch of \<open>src/base/ftcalc.c\<close>, with its short cuts for small operands, computes what the
  branch with 64-bit integers computes, as long as the result fits in 32 bits.
\<close>

section \<open>The short cuts\<close>

lemma four_products: "4 * (a * b) \<le> (a + b) * (a + b :: int)"
proof -
  have "0 \<le> (a - b) * (a - b)" by (rule zero_le_square)
  then show ?thesis by (simp add: algebra_simps)
qed

text \<open>\<open>a + b <= 129894 - ( c >> 17 )\<close> keeps \<open>a * b + c / 2\<close> in 32 bits.\<close>

lemma mul_div_short:
  fixes a b c :: int
  assumes "0 \<le> a" "0 \<le> b" "0 \<le> c" "c < 2147483648" "a + b \<le> 129894 - c div 131072"
  shows "a * b + c div 2 < 4294967296"
proof -
  define k where "k = c div 131072"
  have k: "0 \<le> k" "k \<le> 16383" unfolding k_def using assms(3,4) zdiv_less [of 131072 c 16384]
    by (simp_all add: pos_imp_zdiv_nonneg_iff)
  have "c = c div 131072 * 131072 + c mod 131072" by simp
  then have c: "c div 2 \<le> 65536 * k + 65535" unfolding k_def using pos_mod_bound [of 131072 c] by linarith
  have "(a + b) * (a + b) \<le> (129894 - k) * (129894 - k)"
    using assms(1,2,5) k unfolding k_def [symmetric] by (intro mult_mono) auto
  moreover have "k * k \<le> 16383 * k" using k by (intro mult_right_mono) auto
  moreover have "(129894 - k) * (129894 - k) = 129894 * 129894 - 259788 * k + k * k" by (simp add: algebra_simps)
  ultimately have "4 * (a * b) \<le> 129894 * 129894 - 243405 * k" using four_products [of a b] by linarith
  then show ?thesis using c k by linarith
qed

lemma mul_short:
  fixes a b :: int
  assumes "0 \<le> a" "0 \<le> b" "a + b \<le> 131071"
  shows "a * b < 4294967296"
proof -
  have "(a + b) * (a + b) \<le> 131071 * 131071" using assms by (intro mult_mono) auto
  then show ?thesis using four_products [of a b] by linarith
qed

text \<open>\<open>a + ( b >> 8 ) <= 8190\<close> keeps \<open>a * b + 0x8000\<close> in 32 bits.\<close>

lemma mul_fix_short:
  fixes a b :: int
  assumes "0 \<le> a" "0 \<le> b" "a + b div 256 \<le> 8190"
  shows "a * b + 32768 < 4294967296"
proof -
  have "b = b div 256 * 256 + b mod 256" by simp
  then have "256 * a + b \<le> 2096895" using pos_mod_bound [of 256 b] assms(3) by linarith
  then have "(256 * a + b) * (256 * a + b) \<le> 2096895 * 2096895" using assms by (intro mult_mono) auto
  then show ?thesis using four_products [of "256 * a" b] by linarith
qed

lemma FT_Add64_eq:
  assumes "0 \<le> snd x" "snd x < 4294967296" "0 \<le> l" "l < 4294967296" "0 \<le> fst x"
    and "fst x * 4294967296 + snd x + l < 18446744073709551616"
  shows "fst (FT_Add64 x (0, l)) * 4294967296 + snd (FT_Add64 x (0, l)) = fst x * 4294967296 + snd x + l"
    "0 \<le> snd (FT_Add64 x (0, l))" "snd (FT_Add64 x (0, l)) < 4294967296" "0 \<le> fst (FT_Add64 x (0, l))"
proof -
  define lo where "lo = u32i (snd x + l)"
  define c where "c = (if lo < snd x then 1 else 0 :: int)"
  have lo: "lo = snd x + l - 4294967296 * c" "0 \<le> lo" "lo < 4294967296"
    using carry [of l "snd x"] assms unfolding lo_def c_def by (simp_all add: add.commute)
  have c: "0 \<le> c" "c \<le> 1" by (simp_all add: c_def)
  have "u32i (fst x + 0 + c) = fst x + c" using lo c assms by (subst u32i_id) linarith+
  then have "FT_Add64 x (0, l) = (fst x + c, lo)"
    by (simp add: FT_Add64_def Let_def lo_def [symmetric] c_def [symmetric])
  then show "fst (FT_Add64 x (0, l)) * 4294967296 + snd (FT_Add64 x (0, l)) = fst x * 4294967296 + snd x + l"
    "0 \<le> snd (FT_Add64 x (0, l))" "snd (FT_Add64 x (0, l)) < 4294967296" "0 \<le> fst (FT_Add64 x (0, l))"
    using lo c assms by simp_all
qed

text \<open>The quotient of a number in two halves.\<close>

lemma div_halves:
  assumes "fst t * 4294967296 + snd t = n" "0 \<le> snd t" "snd t < 4294967296" "0 \<le> fst t"
    and "0 < c" "c \<le> 2147483648" "n div c < 2147483648"
  shows "(if fst t = 0 then snd t div c else ft_div64by32 (fst t) (snd t) c) = n div c"
    "ft_div64by32 (fst t) (snd t) c = n div c"
proof -
  have "n = n div c * c + n mod c" "n mod c < c" using assms(5) by simp_all
  moreover have "n div c * c \<le> 2147483647 * c" using assms(5,7) by (intro mult_right_mono) auto
  ultimately have "n < 2147483648 * c" by linarith
  then have "fst t < c" using assms(1,2,5) by linarith
  then show d: "ft_div64by32 (fst t) (snd t) c = n div c"
    using ft_div64by32_eq [of "fst t" c "snd t"] assms by simp
  show "(if fst t = 0 then snd t div c else ft_div64by32 (fst t) (snd t) c) = n div c"
    using d assms(1) by auto
qed

section \<open>Agreement\<close>

lemma u32_sum: "0 \<le> a \<Longrightarrow> a < 2147483648 \<Longrightarrow> 0 \<le> b \<Longrightarrow> b < 2147483648 \<Longrightarrow> u32i (a + b) = a + b"
  by (simp add: u32i_id)

lemma product_64:
  fixes a b :: int
  assumes "0 \<le> a" "a < 2147483648" "0 \<le> b" "b < 2147483648"
  shows "0 \<le> a * b" "a * b \<le> 4611686018427387904"
  using assms mult_mono [of a 2147483648 b 2147483648] by auto

lemma shift_small:
  assumes "0 \<le> (c :: int)" "c < 2147483648"
  shows "0 \<le> c div 131072" "c div 131072 \<le> 16383" "0 \<le> c div 2" "c div 2 < 1073741824"
  using assms zdiv_less [of 131072 c 16384] zdiv_less [of 2 c 1073741824] by (simp_all add: pos_imp_zdiv_nonneg_iff)

lemma mul_div_core:
  fixes a b c :: int
  assumes a: "0 \<le> a" "a < 2147483648" and b: "0 \<le> b" "b < 2147483648" and c: "0 < c" "c < 2147483648"
    and q: "(a * b + c div 2) div c < 2147483648"
  shows "(if u32i (a + b) \<le> u32i (129894 - drop_bit 17 c)
      then u32i (u32i (a * b) + drop_bit 1 c) div c
      else let temp = FT_Add64 (ft_multo64 a b) (0, drop_bit 1 c)
           in if fst temp = 0 then snd temp div c else ft_div64by32 (fst temp) (snd temp) c) = (a * b + c div 2) div c"
proof -
  note ab = product_64 [OF a b] and hc = shift_small [of c]
  have dr: "drop_bit 17 c = c div 131072" "drop_bit 1 c = c div 2" by (simp_all add: drop_bit_eq_div)
  have k: "u32i (129894 - c div 131072) = 129894 - c div 131072" using hc c by (intro u32i_id) linarith+
  show ?thesis
  proof (cases "a + b \<le> 129894 - c div 131072")
    case True
    have s: "a * b + c div 2 < 4294967296" by (rule mul_div_short) (use a b c True in simp_all)
    have "u32i (a * b) = a * b" "u32i (a * b + c div 2) = a * b + c div 2"
      using s ab hc c by (auto intro!: u32i_id simp del: zero_le_mult_iff)
    then show ?thesis using True by (simp only: u32_sum [OF a b] dr k if_True)
  next
    case False
    let ?t = "FT_Add64 (ft_multo64 a b) (0, c div 2)"
    have m: "fst (ft_multo64 a b) * 4294967296 + snd (ft_multo64 a b) = a * b"
      "0 \<le> snd (ft_multo64 a b)" "snd (ft_multo64 a b) < 4294967296" "0 \<le> fst (ft_multo64 a b)"
      using ft_multo64_eq [of a b] a b by auto
    have h: "0 \<le> c div 2" "c div 2 < 4294967296" using hc c by linarith+
    have sm: "fst (ft_multo64 a b) * 4294967296 + snd (ft_multo64 a b) + c div 2 < 18446744073709551616"
      using m ab hc c by linarith
    note t = FT_Add64_eq [OF m(2,3) h m(4) sm]
    have "(if fst ?t = 0 then snd ?t div c else ft_div64by32 (fst ?t) (snd ?t) c) = (a * b + c div 2) div c"
      by (rule div_halves(1)) (use t m(1) c q in \<open>simp_all del: zero_le_mult_iff\<close>)
    then show ?thesis using False by (simp only: u32_sum [OF a b] dr k if_False Let_def)
  qed
qed

lemma mul_div_floor_core:
  fixes a b c :: int
  assumes a: "0 \<le> a" "a < 2147483648" and b: "0 \<le> b" "b < 2147483648" and c: "0 < c" "c < 2147483648"
    and q: "a * b div c < 2147483648"
  shows "(if u32i (a + b) \<le> 131071 then u32i (a * b) div c
      else let temp = ft_multo64 a b
           in if fst temp = 0 then snd temp div c else ft_div64by32 (fst temp) (snd temp) c) = a * b div c"
proof (cases "a + b \<le> 131071")
  case True
  then have "u32i (a * b) = a * b"
    using mul_short [of a b] product_64 [OF a b] a b by (intro u32i_id) simp_all
  then show ?thesis using True by (simp only: u32_sum [OF a b] if_True)
next
  case False
  let ?t = "ft_multo64 a b"
  have "(if fst ?t = 0 then snd ?t div c else ft_div64by32 (fst ?t) (snd ?t) c) = a * b div c"
    by (rule div_halves(1)) (use ft_multo64_eq [of a b] a b c q in simp_all)
  then show ?thesis using False by (simp only: u32_sum [OF a b] if_False Let_def)
qed

lemma split_product:
  "(a :: int) = ah * 65536 + al \<Longrightarrow> b = bh * 65536 + bl \<Longrightarrow>
   a * b + 32768 = al * bl + 32768 + (ah * b + al * bh) * 65536"
  by (simp add: algebra_simps)

lemma div_shift: "(n :: int) = l + t * 65536 \<Longrightarrow> n div 65536 = t + l div 65536"
  by simp

lemma mul_fix_core:
  fixes a b :: int
  assumes a: "0 \<le> a" "a < 2147483648" and b: "0 \<le> b" "b < 2147483648"
    and q: "(a * b + 32768) div 65536 < 2147483648"
  shows "(if u32i (a + drop_bit 8 b) \<le> 8190 then drop_bit 16 (u32i (a * b + 0x8000))
      else let al = a AND 0xFFFF
           in u32i (drop_bit 16 a * b + al * drop_bit 16 b + drop_bit 16 (u32i (al * (b AND 0xFFFF) + 0x8000)))) =
    (a * b + 32768) div 65536"
proof -
  have dr: "drop_bit 8 b = b div 256" "drop_bit 16 a = a div 65536" "drop_bit 16 b = b div 65536"
    "drop_bit 16 z = z div 65536" for z :: int
    by (simp_all add: drop_bit_eq_div)
  have b8: "0 \<le> b div 256" "b div 256 < 2147483648"
    using b zdiv_less [of 256 b 2147483648] by (simp_all add: pos_imp_zdiv_nonneg_iff)
  note ab = product_64 [OF a b]
  show ?thesis
  proof (cases "a + b div 256 \<le> 8190")
    case True
    have "u32i (a * b + 0x8000) = a * b + 32768"
      using mul_fix_short [of a b] True a b ab by (intro u32i_id) simp_all
    then show ?thesis using True by (simp only: u32_sum [OF a b8] dr if_True)
  next
    case False
    have "a < 4294967296" "b < 4294967296" using a b by simp_all
    note ha = u32_halves [OF a(1) this(1)] and hb = u32_halves [OF b(1) this(2)]
    let ?l = "a mod 65536 * (b mod 65536)"
    have l: "0 \<le> ?l \<and> ?l \<le> 4294836225" using ha hb by (intro half_product)
    have ul: "u32i (?l + 0x8000) = ?l + 32768" using l by (intro u32i_id) linarith+
    have "a * b + 32768 = ?l + 32768 + (a div 65536 * b + a mod 65536 * (b div 65536)) * 65536"
      by (rule split_product [OF ha(1) hb(1)])
    then have "(a * b + 32768) div 65536 = a div 65536 * b + a mod 65536 * (b div 65536) + (?l + 32768) div 65536"
      by (rule div_shift)
    moreover have "u32i ((a * b + 32768) div 65536) = (a * b + 32768) div 65536"
      using q ab(1) by (intro u32i_id) (simp_all add: pos_imp_zdiv_nonneg_iff)
    ultimately show ?thesis using False by (simp only: u32_sum [OF a b8] dr if_False Let_def and_ffff ul)
  qed
qed

lemma div_fix_core:
  fixes a b :: int
  assumes a: "0 \<le> a" "a < 2147483648" and b: "0 < b" "b < 2147483648"
    and q: "(a * 65536 + b div 2) div b < 2147483648"
  shows "(if a \<le> 65535 - drop_bit 17 b then u32i (u32i (push_bit 16 a) + drop_bit 1 b) div b
      else let temp = FT_Add64 (drop_bit 16 a, u32i (push_bit 16 a)) (0, drop_bit 1 b)
           in ft_div64by32 (fst temp) (snd temp) b) = (a * 65536 + b div 2) div b"
proof -
  note hb = shift_small [of b]
  have dr: "drop_bit 17 b = b div 131072" "drop_bit 1 b = b div 2" "drop_bit 16 a = a div 65536"
    "push_bit 16 a = a * 65536"
    by (simp_all add: drop_bit_eq_div push_bit_eq_mult)
  have a4: "a < 4294967296" using a by simp
  note ha = u32_halves [OF a(1) a4]
  show ?thesis
  proof (cases "a \<le> 65535 - b div 131072")
    case True
    have "b = b div 131072 * 131072 + b mod 131072" by simp
    then have "b div 2 \<le> b div 131072 * 65536 + 65535" using pos_mod_bound [of 131072 b] by linarith
    then have "a * 65536 + b div 2 < 4294967296" using True by linarith
    then have "u32i (a * 65536) = a * 65536" "u32i (a * 65536 + b div 2) = a * 65536 + b div 2"
      using a b hb by (auto intro!: u32i_id)
    then show ?thesis using True by (simp only: dr if_True)
  next
    case False
    have "65536 * (a mod 65536) = (65536 * a) mod (65536 * 65536)" by (rule mult_mod_right)
    then have u: "u32i (a * 65536) = a mod 65536 * 65536" by (simp add: u32i_def mult.commute)
    let ?x = "(a div 65536, a mod 65536 * 65536)"
    let ?t = "FT_Add64 ?x (0, b div 2)"
    have x: "0 \<le> snd ?x" "snd ?x < 4294967296" "0 \<le> fst ?x" using ha by simp_all
    have x4: "fst ?x * 4294967296 + snd ?x = a * 65536" unfolding fst_conv snd_conv using ha(1) by linarith
    have h: "0 \<le> b div 2" "b div 2 < 4294967296" using hb b by linarith+
    have "fst ?x * 4294967296 + snd ?x + b div 2 < 18446744073709551616" using x4 a hb b by linarith
    note t = FT_Add64_eq [OF x(1,2) h x(3) this]
    have t1: "fst ?t * 4294967296 + snd ?t = a * 65536 + b div 2" using t(1) unfolding x4 .
    have b': "b \<le> 2147483648" using b by simp
    note d = div_halves(2) [OF t1 t(2,3,4) b(1) b' q]
    show ?thesis using False d by (simp only: dr if_False Let_def u)
  qed
qed

lemma sign_swap: "sign_of c * (sign_of b * (sign_of a * 1)) * q = sign_of a * sign_of b * sign_of c * q"
  by (simp only: mult.commute mult.left_commute mult_1_right)

lemma sign3: "sign_of c * (sign_of b * (sign_of a * 1)) = 1 \<or> sign_of c * (sign_of b * (sign_of a * 1)) = -1"
  by (intro sign_mult) simp

lemma sign2: "sign_of b * (sign_of a * 1) = 1 \<or> sign_of b * (sign_of a * 1) = -1"
  by (intro sign_mult) simp

lemma FT_MulDiv_32_eq:
  assumes a: "abs a < 2147483648" and b: "abs b < 2147483648" and c: "abs c < 2147483648" "c \<noteq> 0"
    and q: "(abs a * abs b + abs c div 2) div abs c < 2147483648"
  shows "FT_MulDiv_32 a b c = mul_div a b c"
proof -
  have c0: "0 < abs c" "\<not> abs c = 0" "0 \<le> abs c div 2" using c(2) by simp_all
  have "0 \<le> (abs a * abs b + abs c div 2) div abs c" using c0 by (simp add: pos_imp_zdiv_nonneg_iff)
  note r = signed_result_32 [OF sign3 this q, of c b a]
  show ?thesis
    unfolding FT_MulDiv_32_def move_sign_32_abs [OF a] move_sign_32_abs [OF b] move_sign_32_abs [OF c(1)]
      mul_div_def sign_swap [symmetric]
    using r by (simp only: Let_def prod.case if_not_P [OF c0(2)]
        mul_div_core [OF abs_ge_zero a abs_ge_zero b c0(1) c(1) q, unfolded Let_def])
qed

lemma FT_MulDiv_No_Round_32_eq:
  assumes a: "abs a < 2147483648" and b: "abs b < 2147483648" and c: "abs c < 2147483648" "c \<noteq> 0"
    and q: "abs a * abs b div abs c < 2147483648"
  shows "FT_MulDiv_No_Round_32 a b c = mul_div_floor a b c"
proof -
  have c0: "0 < abs c" "\<not> abs c = 0" using c(2) by simp_all
  have "0 \<le> abs a * abs b div abs c" using c0 by (simp add: pos_imp_zdiv_nonneg_iff)
  note r = signed_result_32 [OF sign3 this q, of c b a]
  show ?thesis
    unfolding FT_MulDiv_No_Round_32_def move_sign_32_abs [OF a] move_sign_32_abs [OF b] move_sign_32_abs [OF c(1)]
      mul_div_floor_def sign_swap [symmetric]
    using r by (simp only: Let_def prod.case if_not_P [OF c0(2)]
        mul_div_floor_core [OF abs_ge_zero a abs_ge_zero b c0(1) c(1) q, unfolded Let_def])
qed

lemma FT_MulFix_32_eq:
  assumes a: "abs a < 2147483648" and b: "abs b < 2147483648"
    and q: "(abs a * abs b + 32768) div 65536 < 2147483648"
  shows "FT_MulFix_32 a b = mul_div a b 65536"
proof -
  have "0 \<le> (abs a * abs b + 32768) div 65536" by (simp add: pos_imp_zdiv_nonneg_iff)
  note r = signed_result_32 [OF sign2 this q, of b a]
  have m: "mul_div a b 65536 = sign_of b * (sign_of a * 1) * ((abs a * abs b + 32768) div 65536)"
    by (simp add: mul_div_def sign_of_def)
  show ?thesis
    unfolding FT_MulFix_32_def move_sign_32_abs [OF a] move_sign_32_abs [OF b] m
    using r by (simp only: Let_def prod.case mul_fix_core [OF abs_ge_zero a abs_ge_zero b q, unfolded Let_def])
qed

lemma FT_DivFix_32_eq:
  assumes a: "abs a < 2147483648" and b: "abs b < 2147483648" "b \<noteq> 0"
    and q: "(abs a * 65536 + abs b div 2) div abs b < 2147483648"
  shows "FT_DivFix_32 a b = mul_div a 65536 b"
proof -
  have b0: "0 < abs b" "\<not> abs b = 0" using b(2) by simp_all
  have "0 \<le> (abs a * 65536 + abs b div 2) div abs b" using b0 by (simp add: pos_imp_zdiv_nonneg_iff)
  note r = signed_result_32 [OF sign2 this q, of b a]
  have m: "mul_div a 65536 b = sign_of b * (sign_of a * 1) * ((abs a * 65536 + abs b div 2) div abs b)"
    by (simp add: mul_div_def sign_of_def)
  show ?thesis
    unfolding FT_DivFix_32_def move_sign_32_abs [OF a] move_sign_32_abs [OF b(1)] m
    using r by (simp only: Let_def prod.case if_not_P [OF b0(2)]
        div_fix_core [OF abs_ge_zero a b0(1) b(1) q, unfolded Let_def])
qed

end
