(* ===== verification/Ft_Calc_Results.thy ===== *)
theory Ft_Calc_Results
  imports Ft_Calc_Agree
begin

text \<open>
  The square root of \<open>src/base/ftcalc.c\<close>, the orientation of a corner, and the properties of the
  arithmetic: results are nearest integers, the two branches agree, a quotient multiplied back gives
  the dividend.
\<close>

section \<open>Square root\<close>

text \<open>One step from \<open>t\<close>: not below the root of \<open>r + 1\<close>, and not above \<open>t\<close> once \<open>t\<close> is not below it.\<close>

lemma babylon_above:
  fixes r t :: int
  assumes "0 < t" "0 \<le> r"
  defines "q \<equiv> (t + r div t + 1) div 2"
  shows "r + 1 \<le> q * q + q" "0 \<le> q"
proof -
  let ?s = "r div t"
  have s: "0 \<le> ?s" using assms(1,2) by (simp add: pos_imp_zdiv_nonneg_iff)
  then show q0: "0 \<le> q" using assms(1) unfolding q_def by simp
  have "r = ?s * t + r mod t" "r mod t < t" using assms(1) by simp_all
  then have "r + 1 \<le> ?s * t + t" by linarith
  then have n: "r + 1 \<le> t * (?s + 1)" by (simp only: ring_distribs mult.commute mult_1_right)
  have "t + (?s + 1) \<le> 2 * q + 1" unfolding q_def by linarith
  then have "(t + (?s + 1)) * (t + (?s + 1)) \<le> (2 * q + 1) * (2 * q + 1)"
    using assms(1) s by (intro mult_mono) auto
  also have "\<dots> = 4 * (q * q + q) + 1" by (simp add: algebra_simps)
  finally have "4 * (t * (?s + 1)) \<le> 4 * (q * q + q) + 1" using four_products [of t "?s + 1"] by (rule order_trans [rotated])
  moreover have "4 * (r + 1) \<le> 4 * (t * (?s + 1))" using n by (intro mult_left_mono) auto
  ultimately have "4 * (r + 1) \<le> 4 * (q * q + q) + 1" by (rule order_trans [rotated])
  then show "r + 1 \<le> q * q + q" by presburger
qed

lemma babylon_down:
  fixes r t :: int
  assumes "0 < t" "0 \<le> r" "r + 1 \<le> t * t + t"
  shows "r div t \<le> t" "(t + r div t + 1) div 2 \<le> t"
proof -
  have "r < (t + 1) * t" using assms(3) by (simp add: algebra_simps)
  then have "r div t < t + 1" using assms(1) by (rule zdiv_less [rotated])
  then show "r div t \<le> t" by simp
  then show "(t + r div t + 1) div 2 \<le> t" by linarith
qed

lemma babylon_fix:
  fixes r t :: int
  assumes "0 < t" "(t + r div t + 1) div 2 = t"
  shows "t * t - t \<le> r"
proof -
  have "t - 1 \<le> r div t" using assms(2) by linarith
  then have "(t - 1) * t \<le> r div t * t" using assms(1) by (intro mult_right_mono) auto
  moreover have "r div t * t \<le> r" using assms(1) pos_mod_sign [of t r] div_mult_mod_eq [of r t] by linarith
  ultimately show ?thesis by (simp add: algebra_simps)
qed

lemma sqrt_step:
  assumes "0 < t" "t \<le> 16777216" "0 \<le> r" "r div t \<le> 16777216"
  shows "drop_bit 1 (u32i (t + u32i (r div t) + 1)) = (t + r div t + 1) div 2"
  using assms by (simp add: u32i_id drop_bit_eq_div pos_imp_zdiv_nonneg_iff)

lemma sqrt_loop_ends:
  "0 < t \<Longrightarrow> t \<le> 16777216 \<Longrightarrow> 0 \<le> r \<Longrightarrow> r + 1 \<le> t * t + t \<Longrightarrow>
   \<exists>q. sqrt_loop r t = Some q \<and> 0 < q \<and> q \<le> t \<and> q * q - q \<le> r \<and> r + 1 \<le> q * q + q"
proof (induction "nat t" arbitrary: t rule: less_induct)
  case less
  let ?q = "(t + r div t + 1) div 2"
  note d = babylon_down [OF less.prems(1,3,4)]
  note a = babylon_above [OF less.prems(1,3)]
  have e: "drop_bit 1 (u32i (t + u32i (r div t) + 1)) = ?q"
    by (rule sqrt_step) (use less.prems d in linarith)+
  show ?case
  proof (cases "?q = t")
    case True
    then have "sqrt_loop r t = Some t" by (subst sqrt_loop.simps) (simp only: Let_def e not_False_eq_True simp_thms if_False)
    then show ?thesis using less.prems babylon_fix [OF less.prems(1) True] by auto
  next
    case False
    have q0: "0 < ?q"
    proof (rule ccontr)
      assume "\<not> 0 < ?q"
      then have "?q = 0" using a(2) by linarith
      then show False using a(1) less.prems(3) by simp
    qed
    have run: "sqrt_loop r t = sqrt_loop r ?q"
      using False by (subst sqrt_loop.simps) (simp only: Let_def e not_False_eq_True simp_thms if_True)
    have "?q < t" using False d(2) by linarith
    then have "nat ?q < nat t" using q0 by linarith
    from less.hyps [OF this q0 _ less.prems(3) a(1)] show ?thesis
      unfolding run using \<open>?q < t\<close> less.prems(2) by fastforce
  qed
qed

lemma FT_SqrtFixed_nearest:
  assumes "0 < v" "v < 4294967296"
  shows "\<exists>q. FT_SqrtFixed v = Some q \<and> 0 < q \<and> q * q - q < 65536 * v \<and> 65536 * v \<le> q * q + q"
proof -
  define m where "m = FT_MSB v"
  define t where "t = (2 :: int) ^ ((17 + m) div 2)"
  define r where "r = 65536 * v - 1"
  have b: "2 ^ m \<le> v" "v < 2 ^ (m + 1)" using FT_MSB_bounds assms unfolding m_def by auto
  have m: "m \<le> 31" using FT_MSB_le [of v 32] assms unfolding m_def by simp
  have ru: "u64 (push_bit 16 v - 1) = r" using assms by (simp add: r_def u64_id push_bit_eq_mult)
  have r0: "0 \<le> r" using assms by (simp add: r_def)
  have t0: "0 < t" by (simp add: t_def)
  have "(17 + m) div 2 \<le> 24" using m by linarith
  then have t24: "t \<le> 16777216" using power_increasing [of "(17 + m) div 2" 24 "2 :: int"] by (simp add: t_def)
  have "r < 2 ^ (m + 1) * 65536" using b(2) by (simp add: r_def)
  also have "\<dots> = 2 ^ (m + 17)" by (simp add: power_add)
  also have "\<dots> \<le> 2 ^ ((18 + m) div 2 + (17 + m) div 2)" by (intro power_increasing) auto
  also have "\<dots> = 2 ^ ((18 + m) div 2) * t" by (simp add: t_def power_add)
  finally have "r div t < 2 ^ ((18 + m) div 2)" using t0 by (rule zdiv_less [rotated])
  moreover have "(18 + m) div 2 \<le> 24" using m by linarith
  ultimately have rd: "r div t \<le> 16777216"
    using power_increasing [of "(18 + m) div 2" 24 "2 :: int"] by simp
  let ?q = "(t + r div t + 1) div 2"
  have e: "drop_bit 1 (u32i (t + u32i (r div t) + 1)) = ?q" by (rule sqrt_step [OF t0 t24 r0 rd])
  note a = babylon_above [OF t0 r0]
  have q0: "0 < ?q"
  proof (rule ccontr)
    assume "\<not> 0 < ?q"
    then have "?q = 0" using a(2) by linarith
    then show False using a(1) r0 by simp
  qed
  have q24: "?q \<le> 16777216" using t24 rd by linarith
  have "FT_SqrtFixed v = sqrt_loop r t"
    using assms(1) ru by (simp add: FT_SqrtFixed_def m_def [symmetric] t_def push_bit_eq_mult)
  moreover have "sqrt_loop r t = (if ?q \<noteq> t then sqrt_loop r ?q else Some ?q)"
    by (subst sqrt_loop.simps) (simp only: Let_def e)
  moreover obtain q where "sqrt_loop r ?q = Some q" "0 < q" "q * q - q \<le> r" "r + 1 \<le> q * q + q"
    using sqrt_loop_ends [OF q0 q24 r0 a(1)] by blast
  ultimately show ?thesis
    using babylon_fix [OF t0, of r] a(1) t0 unfolding r_def by (cases "?q = t") auto
qed

section \<open>Nearest results\<close>

lemma sign_abs: "x = sign_of x * abs x" "sign_of x * x = abs x" "abs (sign_of x) = 1"
  by (simp_all add: sign_of_def)

lemma abs_near: "2 * abs (x - y) \<le> m \<Longrightarrow> abs x \<le> k \<Longrightarrow> abs y \<le> k + (m :: int)"
  by (simp add: abs_if split: if_splits)

lemma remainder_near:
  fixes p h n r c :: int
  assumes "p + h = n + r" "0 \<le> r" "r < c" "h = c div 2"
  shows "2 * abs (p - n) \<le> c"
proof -
  have "2 * h \<le> c" "c \<le> 2 * h + 1" unfolding assms(4) by simp_all
  then show ?thesis using assms(1-3) by (simp add: abs_if)
qed

lemma floor_near:
  fixes p n r c :: int
  assumes "p = n + r" "0 \<le> r" "r < c"
  shows "abs (p - n) < c"
  using assms by simp

lemma same_multiple: "abs (y - 65536 * m) \<le> 32768 \<Longrightarrow> 2 * abs (65536 * a - y) < 65536 \<Longrightarrow> m = (a :: int)"
  by (simp add: abs_if split: if_splits)

lemma sign_diff:
  fixes a b c :: int
  assumes "a = sa * a1" "b = sb * b1" "sc * c = c1"
  shows "a * b - c * (sa * sb * sc * q) = sa * sb * (a1 * b1 - q * c1)"
  unfolding assms(1,2) assms(3) [symmetric] by (simp add: algebra_simps)

lemma mul_div_nearest:
  assumes "c \<noteq> 0"
  shows "2 * abs (a * b - c * mul_div a b c) \<le> abs c"
proof -
  let ?n = "abs a * abs b + abs c div 2" let ?q = "?n div abs c"
  have c: "0 < abs c" using assms by simp
  have d: "2 * abs (abs a * abs b - ?q * abs c) \<le> abs c"
    by (rule remainder_near [OF div_mult_mod_eq [symmetric] _ _ refl]) (use c in simp_all)
  have "a * b - c * mul_div a b c = sign_of a * sign_of b * (abs a * abs b - ?q * abs c)"
    unfolding mul_div_def by (rule sign_diff [OF sign_abs(1,1,2)])
  then have "abs (a * b - c * mul_div a b c) = abs (abs a * abs b - ?q * abs c)"
    by (simp only: abs_mult sign_abs(3) mult_1_left)
  then show ?thesis using d by (simp only:)
qed

lemma mul_div_floor_near:
  assumes "c \<noteq> 0"
  shows "abs (a * b - c * mul_div_floor a b c) < abs c"
proof -
  let ?q = "abs a * abs b div abs c"
  have c: "0 < abs c" using assms by simp
  have d: "abs (abs a * abs b - ?q * abs c) < abs c"
    by (rule floor_near [OF div_mult_mod_eq [symmetric]]) (use c in simp_all)
  have "a * b - c * mul_div_floor a b c = sign_of a * sign_of b * (abs a * abs b - ?q * abs c)"
    unfolding mul_div_floor_def by (rule sign_diff [OF sign_abs(1,1,2)])
  then have "abs (a * b - c * mul_div_floor a b c) = abs (abs a * abs b - ?q * abs c)"
    by (simp only: abs_mult sign_abs(3) mult_1_left)
  then show ?thesis using d by (simp only:)
qed

text \<open>Operands of 32 bits never overflow in the branch with 64-bit integers.\<close>

lemma calc_32_bits:
  assumes "abs a < 2147483648" "abs b < 2147483648" "abs c < 2147483648"
  shows "c \<noteq> 0 \<Longrightarrow> FT_MulDiv a b c = mul_div a b c" "FT_MulFix a b = mul_div a b 65536"
    "c \<noteq> 0 \<Longrightarrow> FT_DivFix a c = mul_div a 65536 c" "c \<noteq> 0 \<Longrightarrow> FT_MulDiv_No_Round a b c = mul_div_floor a b c"
proof -
  have ab: "0 \<le> abs a * abs b" "abs a * abs b \<le> 4611686018427387904"
    using product_64 [of "abs a" "abs b"] assms by auto
  have h: "0 \<le> abs c div 2" "abs c div 2 < 1073741824" using shift_small [of "abs c"] assms(3) by auto
  show "FT_MulDiv a b c = mul_div a b c" if "c \<noteq> 0"
    by (rule FT_MulDiv_eq) (use assms that ab h in linarith)+
  show "FT_MulFix a b = mul_div a b 65536"
    by (rule FT_MulFix_eq) (use ab in linarith)
  show "FT_DivFix a c = mul_div a 65536 c" if "c \<noteq> 0"
    by (rule FT_DivFix_eq) (use assms that h in linarith)+
  show "FT_MulDiv_No_Round a b c = mul_div_floor a b c" if "c \<noteq> 0"
    by (rule FT_MulDiv_No_Round_eq) (use assms that ab in linarith)+
qed

section \<open>Corners\<close>

lemma ft_corner_orientation_eq:
  assumes "abs in_x < 1073741824" "abs in_y < 1073741824" "abs out_x < 1073741824" "abs out_y < 1073741824"
  shows "ft_corner_orientation in_x in_y out_x out_y = sgn (in_x * out_y - in_y * out_x)"
proof -
  have p: "abs (x * y) \<le> 1152921504606846976" if "abs x < 1073741824" "abs y < 1073741824" for x y :: int
    using that mult_mono [of "abs x" 1073741824 "abs y" 1073741824] by (simp add: abs_mult)
  note a = p [OF assms(1,4)] and b = p [OF assms(2,3)]
  have s: "s64 (in_x * out_y) = in_x * out_y" "s64 (in_y * out_x) = in_y * out_x"
    "s64 (in_x * out_y - in_y * out_x) = in_x * out_y - in_y * out_x"
    using a b by (intro s64_id; linarith)+
  show ?thesis by (simp add: ft_corner_orientation_def s Let_def sgn_if)
qed

text \<open>The portable branch multiplies the bit patterns of negative numbers as if they were unsigned.\<close>

lemma ft_corner_orientation_32_wrong:
  "ft_corner_orientation_32 (-100000) 0 0 1 = 1" "ft_corner_orientation (-100000) 0 0 1 = -1"
  by code_simp+

section \<open>Properties\<close>

text \<open>
  C34: For operands of 32 bits the arithmetic does not overflow and rounds to nearest:
  \<open>FT_MulDiv\<close>, \<open>FT_MulFix\<close> and \<open>FT_DivFix\<close> are off by at most half a unit, \<open>FT_MulDiv_No_Round\<close> by
  less than one.
\<close>
theorem calc_nearest:
  assumes "abs a < 2147483648" "abs b < 2147483648" "abs c < 2147483648" "c \<noteq> 0"
  shows "2 * abs (a * b - c * FT_MulDiv a b c) \<le> abs c \<and> 2 * abs (a * b - 65536 * FT_MulFix a b) \<le> 65536 \<and>
    2 * abs (65536 * a - c * FT_DivFix a c) \<le> abs c \<and> abs (a * b - c * FT_MulDiv_No_Round a b c) < abs c"
  unfolding calc_32_bits(2) [OF assms(1-3)] calc_32_bits(1,3,4) [OF assms]
  using mul_div_nearest [of c a b] mul_div_nearest [of 65536 a b] mul_div_nearest [of c a 65536]
    mul_div_floor_near [of c a b] assms(4)
  by (simp add: mult.commute)

lemma calc_nearest_witness:
  "2 * abs (7 * 5 - (-3) * FT_MulDiv 7 5 (-3)) \<le> 3"
  using calc_nearest [of 7 5 "-3"] by simp

text \<open>
  C33: The portable branch, with its short cuts for small operands and its long division by hand,
  returns what the branch with 64-bit integers returns, for all operands of 32 bits whose result has
  32 bits.
\<close>
theorem calc_portable_agrees:
  assumes "abs a < 2147483648" "abs b < 2147483648" "abs c < 2147483648" "c \<noteq> 0"
  shows "((abs a * abs b + abs c div 2) div abs c < 2147483648 \<longrightarrow> FT_MulDiv_32 a b c = FT_MulDiv a b c) \<and>
    (abs a * abs b div abs c < 2147483648 \<longrightarrow> FT_MulDiv_No_Round_32 a b c = FT_MulDiv_No_Round a b c) \<and>
    ((abs a * abs b + 32768) div 65536 < 2147483648 \<longrightarrow> FT_MulFix_32 a b = FT_MulFix a b) \<and>
    ((abs a * 65536 + abs c div 2) div abs c < 2147483648 \<longrightarrow> FT_DivFix_32 a c = FT_DivFix a c)"
  using calc_32_bits(2) [OF assms(1-3)] calc_32_bits(1,3,4) [OF assms] FT_MulDiv_32_eq [OF assms]
    FT_MulDiv_No_Round_32_eq [OF assms] FT_MulFix_32_eq [OF assms(1,2)] FT_DivFix_32_eq [OF assms(1,3,4)]
  by simp

lemma calc_portable_agrees_witness:
  "FT_MulDiv_32 1000000 3000 7 = FT_MulDiv 1000000 3000 7 \<and> FT_DivFix_32 (-200000) 7 = FT_DivFix (-200000) 7"
  using calc_portable_agrees [of 1000000 3000 7] calc_portable_agrees [of "-200000" 0 7] by simp

text \<open>
  C35: Dividing by a factor below one unit and multiplying back is the identity.
\<close>
theorem FT_MulFix_DivFix:
  assumes "abs a < 2147483648" "b \<noteq> 0" "abs b < 65536"
  shows "FT_MulFix (FT_DivFix a b) b = a"
proof -
  have "FT_DivFix a b = mul_div a 65536 b"
    using calc_32_bits(3) [of a 0 b] assms by simp
  then have q: "2 * abs (a * 65536 - b * FT_DivFix a b) \<le> abs b" using mul_div_nearest [OF assms(2)] by simp
  then have "abs (FT_DivFix a b * b) \<le> 140737488420865"
    using abs_near [of "a * 65536" "FT_DivFix a b * b" "abs b" 140737488289792] assms
    by (simp add: mult.commute [of b] abs_mult)
  then have "abs (FT_DivFix a b) * abs b + 32768 < 9223372036854775808" by (simp add: abs_mult)
  then have "FT_MulFix (FT_DivFix a b) b = mul_div (FT_DivFix a b) b 65536" by (rule FT_MulFix_eq)
  then have "2 * abs (FT_DivFix a b * b - 65536 * FT_MulFix (FT_DivFix a b) b) \<le> 65536"
    using mul_div_nearest [of 65536 "FT_DivFix a b" b] by simp
  then show ?thesis
    using same_multiple [of "FT_DivFix a b * b" "FT_MulFix (FT_DivFix a b) b" a] q assms(3)
    by (simp add: mult.commute)
qed

lemma FT_MulFix_DivFix_witness: "FT_MulFix (FT_DivFix 640 (-48000)) (-48000) = 640"
  using FT_MulFix_DivFix [of 640 "-48000"] by simp

text \<open>
  C36: \<open>FT_SqrtFixed\<close> returns: the Babylonian loop reaches its fixed point from the power of two it
  starts with, in 32-bit arithmetic, and the result is the integer nearest to the root of
  \<open>2\<^sup>1\<^sup>6 v\<close>.
\<close>
theorem FT_SqrtFixed_returns:
  assumes "0 < v" "v < 4294967296"
  shows "\<exists>q. FT_SqrtFixed v = Some q \<and> 0 < q \<and> q * q - q < 65536 * v \<and> 65536 * v \<le> q * q + q"
  by (rule FT_SqrtFixed_nearest [OF assms])

lemma FT_SqrtFixed_returns_witness:
  "\<exists>q. FT_SqrtFixed 131072 = Some q \<and> 0 < q \<and> q * q - q < 8589934592 \<and> 8589934592 \<le> q * q + q"
  using FT_SqrtFixed_returns [of 131072] by simp

end
