(* ===== verification/Ft_Trig.thy ===== *)
theory Ft_Trig
  imports Ft_Calc_Results
begin

unbundle bit_operations_syntax

text \<open>
  The CORDIC trigonometry of \<open>src/base/fttrigon.c\<close>. Angles are degrees in 16.16 format. The
  components of a vector stay below \<open>2\<^sup>5\<^sup>5\<close> (lemma \<open>rotate_loop_bound\<close>), so the signed sums of the
  rotation loops are written on integers without a reduction.
\<close>

section \<open>Model\<close>

definition FT_ANGLE_PI :: int where "FT_ANGLE_PI = 11796480"
definition FT_ANGLE_2PI :: int where "FT_ANGLE_2PI = 23592960"
definition FT_ANGLE_PI2 :: int where "FT_ANGLE_PI2 = 5898240"
definition FT_ANGLE_PI4 :: int where "FT_ANGLE_PI4 = 2949120"

definition FT_TRIG_SCALE :: int where "FT_TRIG_SCALE = 0xDBD95B16"

definition ft_trig_arctan_table :: "int list" where
  "ft_trig_arctan_table =
     [1740967, 919879, 466945, 234379, 117304, 58666, 29335, 14668, 7334, 3667, 1833, 917, 458, 229, 115,
      57, 29, 14, 7, 4, 2, 1]"

definition ft_trig_downscale :: "int \<Rightarrow> int" where
  "ft_trig_downscale val =
     (let s = (if val < 0 then -1 else 1); val = (if val < 0 then s64 (- val) else val);
          val = s64 (drop_bit 32 (u64 (u64 val * FT_TRIG_SCALE + 0x40000000)))
      in if s < (0 :: int) then s64 (- val) else val)"

text \<open>The same without a 64-bit type.\<close>

definition ft_trig_downscale_32 :: "int \<Rightarrow> int" where
  "ft_trig_downscale_32 val =
     (let s = (if val < 0 then -1 else 1); val = (if val < 0 then - val else val);
          lo1 = u32i val AND 0xFFFF; hi1 = drop_bit 16 (u32i val);
          lo2 = FT_TRIG_SCALE AND 0xFFFF; hi2 = drop_bit 16 FT_TRIG_SCALE;
          lo = u32i (lo1 * lo2); i1 = u32i (lo1 * hi2); i2 = u32i (lo2 * hi1); hi = u32i (hi1 * hi2);
          i1 = u32i (i1 + i2);
          hi = u32i (hi + (if i1 < i2 then 0x10000 else 0));
          hi = u32i (hi + drop_bit 16 i1);
          i1 = u32i (push_bit 16 i1);
          lo = u32i (lo + i1);
          hi = u32i (hi + (if lo < i1 then 1 else 0));
          lo = u32i (lo + 0x40000000);
          hi = u32i (hi + (if lo < 0x40000000 then 1 else 0))
      in if s < (0 :: int) then - hi else hi)"

text \<open>\<open>FT_TRIG_SAFE_MSB\<close> is 29. The shift is returned with the vector.\<close>

definition ft_trig_prenorm :: "FT_Vector \<Rightarrow> int \<times> FT_Vector" where
  "ft_trig_prenorm vec =
     (let x = vx vec; y = vy vec; shift = FT_MSB (u32i (FT_ABS x OR FT_ABS y))
      in if shift \<le> 29
         then (int (29 - shift), \<lparr>vx = s64 (push_bit (29 - shift) (u64 x)), vy = s64 (push_bit (29 - shift) (u64 y))\<rparr>)
         else (- int (shift - 29), \<lparr>vx = drop_bit (shift - 29) x, vy = drop_bit (shift - 29) y\<rparr>))"

text \<open>The two loops that turn by quarters until the angle is in the sector around 0.\<close>

function sector_up :: "int \<Rightarrow> int \<Rightarrow> int \<Rightarrow> int \<times> int \<times> int" where
  "sector_up x y theta =
     (if theta < - FT_ANGLE_PI4 then sector_up y (- x) (theta + FT_ANGLE_PI2) else (x, y, theta))"
  by pat_completeness auto
termination
  by (relation "measure (\<lambda>(x, y, theta). nat (- theta))") (auto simp: FT_ANGLE_PI4_def FT_ANGLE_PI2_def)

function sector_down :: "int \<Rightarrow> int \<Rightarrow> int \<Rightarrow> int \<times> int \<times> int" where
  "sector_down x y theta =
     (if theta > FT_ANGLE_PI4 then sector_down (- y) x (theta - FT_ANGLE_PI2) else (x, y, theta))"
  by pat_completeness auto
termination
  by (relation "measure (\<lambda>(x, y, theta). nat theta)") (auto simp: FT_ANGLE_PI4_def FT_ANGLE_PI2_def)

declare sector_up.simps [simp del] sector_down.simps [simp del]

text \<open>The pseudo-rotations, over what is left of the table; \<open>b\<close> is \<open>2 ^ (i - 1)\<close>.\<close>

fun rotate_loop :: "int list \<Rightarrow> nat \<Rightarrow> int \<Rightarrow> int \<times> int \<times> int \<Rightarrow> int \<times> int \<times> int" where
  "rotate_loop [] i b v = v"
| "rotate_loop (a # as) i b (x, y, theta) =
     (if theta < 0
      then rotate_loop as (i + 1) (2 * b) (x + drop_bit i (y + b), y - drop_bit i (x + b), theta + a)
      else rotate_loop as (i + 1) (2 * b) (x - drop_bit i (y + b), y + drop_bit i (x + b), theta - a))"

text \<open>With the angle that is left over, which the code drops.\<close>

definition ft_trig_pseudo_rotate :: "FT_Vector \<Rightarrow> int \<Rightarrow> FT_Vector \<times> int" where
  "ft_trig_pseudo_rotate vec theta =
     (let (x, y, theta) = sector_up (vx vec) (vy vec) theta;
          (x, y, theta) = sector_down x y theta;
          (x, y, theta) = rotate_loop ft_trig_arctan_table 1 1 (x, y, theta)
      in (\<lparr>vx = x, vy = y\<rparr>, theta))"

fun polarize_loop :: "int list \<Rightarrow> nat \<Rightarrow> int \<Rightarrow> int \<times> int \<times> int \<Rightarrow> int \<times> int \<times> int" where
  "polarize_loop [] i b v = v"
| "polarize_loop (a # as) i b (x, y, theta) =
     (if y > 0
      then polarize_loop as (i + 1) (2 * b) (x + drop_bit i (y + b), y - drop_bit i (x + b), theta + a)
      else polarize_loop as (i + 1) (2 * b) (x - drop_bit i (y + b), y + drop_bit i (x + b), theta - a))"

definition polarize_sector :: "int \<Rightarrow> int \<Rightarrow> int \<times> int \<times> int" where
  "polarize_sector x y =
     (if y > x
      then (if y > - x then (y, - x, FT_ANGLE_PI2)
            else (- x, - y, if y > 0 then FT_ANGLE_PI else - FT_ANGLE_PI))
      else (if y < - x then (- y, x, - FT_ANGLE_PI2) else (x, y, 0)))"

definition FT_PAD_ROUND_16 :: "int \<Rightarrow> int" where
  "FT_PAD_ROUND_16 x = (x + 8) AND NOT 15"

definition ft_trig_pseudo_polarize :: "FT_Vector \<Rightarrow> FT_Vector" where
  "ft_trig_pseudo_polarize vec =
     (let (x, y, theta) = polarize_loop ft_trig_arctan_table 1 1 (polarize_sector (vx vec) (vy vec));
          theta = (if theta \<ge> 0 then FT_PAD_ROUND_16 theta else - FT_PAD_ROUND_16 (- theta))
      in \<lparr>vx = x, vy = theta\<rparr>)"

definition FT_Vector_Unit :: "int \<Rightarrow> FT_Vector" where
  "FT_Vector_Unit angle =
     (let v = fst (ft_trig_pseudo_rotate \<lparr>vx = drop_bit 8 FT_TRIG_SCALE, vy = 0\<rparr> angle)
      in \<lparr>vx = drop_bit 8 (vx v + 0x80), vy = drop_bit 8 (vy v + 0x80)\<rparr>)"

definition FT_Cos :: "int \<Rightarrow> int" where
  "FT_Cos angle = vx (FT_Vector_Unit angle)"

definition FT_Sin :: "int \<Rightarrow> int" where
  "FT_Sin angle = vy (FT_Vector_Unit angle)"

definition FT_Tan :: "int \<Rightarrow> int" where
  "FT_Tan angle =
     (let v = fst (ft_trig_pseudo_rotate \<lparr>vx = push_bit 24 1, vy = 0\<rparr> angle) in FT_DivFix (vy v) (vx v))"

definition FT_Atan2 :: "int \<Rightarrow> int \<Rightarrow> int" where
  "FT_Atan2 dx dy =
     (if dx = 0 \<and> dy = 0 then 0
      else vy (ft_trig_pseudo_polarize (snd (ft_trig_prenorm \<lparr>vx = dx, vy = dy\<rparr>))))"

definition FT_Vector_Rotate :: "FT_Vector \<Rightarrow> int \<Rightarrow> FT_Vector" where
  "FT_Vector_Rotate vec angle =
     (if angle = 0 then vec
      else if vx vec = 0 \<and> vy vec = 0 then vec
      else let (shift, v) = ft_trig_prenorm vec;
               v = fst (ft_trig_pseudo_rotate v angle);
               x = ft_trig_downscale (vx v); y = ft_trig_downscale (vy v)
           in if shift > 0
              then let half = s32 (push_bit (nat (shift - 1)) 1)
                   in \<lparr>vx = drop_bit (nat shift) (x + half - (if x < 0 then 1 else 0)),
                       vy = drop_bit (nat shift) (y + half - (if y < 0 then 1 else 0))\<rparr>
              else \<lparr>vx = s64 (u64 (push_bit (nat (- shift)) (u64 x))), vy = s64 (u64 (push_bit (nat (- shift)) (u64 y)))\<rparr>)"

definition FT_Vector_Length :: "FT_Vector \<Rightarrow> int" where
  "FT_Vector_Length vec =
     (if vx vec = 0 then FT_ABS (vy vec)
      else if vy vec = 0 then FT_ABS (vx vec)
      else let (shift, v) = ft_trig_prenorm vec;
               x = ft_trig_downscale (vx (ft_trig_pseudo_polarize v))
           in if shift > 0 then drop_bit (nat shift) (x + push_bit (nat (shift - 1)) 1)
              else u32i (push_bit (nat (- shift)) (u32i x)))"

definition FT_Hypot :: "int \<Rightarrow> int \<Rightarrow> int" where
  "FT_Hypot x y = FT_Vector_Length \<lparr>vx = x, vy = y\<rparr>"

text \<open>\<open>None\<close>: length and angle keep what they held.\<close>

definition FT_Vector_Polarize :: "FT_Vector \<Rightarrow> (int \<times> int) option" where
  "FT_Vector_Polarize vec =
     (if vx vec = 0 \<and> vy vec = 0 then None
      else let (shift, v) = ft_trig_prenorm vec;
               v = ft_trig_pseudo_polarize v;
               x = ft_trig_downscale (vx v)
           in Some (if shift \<ge> 0 then drop_bit (nat shift) x else u32i (push_bit (nat (- shift)) (u32i x)), vy v))"

definition FT_Vector_From_Polar :: "int \<Rightarrow> int \<Rightarrow> FT_Vector" where
  "FT_Vector_From_Polar len angle = FT_Vector_Rotate \<lparr>vx = len, vy = 0\<rparr> angle"

function angle_up :: "int \<Rightarrow> int" where
  "angle_up delta = (if delta \<le> - FT_ANGLE_PI then angle_up (delta + FT_ANGLE_2PI) else delta)"
  by pat_completeness auto
termination by (relation "measure (\<lambda>d. nat (- d))") (auto simp: FT_ANGLE_PI_def FT_ANGLE_2PI_def)

function angle_down :: "int \<Rightarrow> int" where
  "angle_down delta = (if delta > FT_ANGLE_PI then angle_down (delta - FT_ANGLE_2PI) else delta)"
  by pat_completeness auto
termination by (relation "measure (\<lambda>d. nat d)") (auto simp: FT_ANGLE_PI_def FT_ANGLE_2PI_def)

declare angle_up.simps [simp del] angle_down.simps [simp del]

definition FT_Angle_Diff :: "int \<Rightarrow> int \<Rightarrow> int" where
  "FT_Angle_Diff angle1 angle2 = angle_down (angle_up (s64 (angle2 - angle1)))"

section \<open>The angle\<close>

lemma dvd_turn:
  fixes k x d :: int
  shows "k dvd x - (d + k) \<Longrightarrow> k dvd x - d" "k dvd x - (d - k) \<Longrightarrow> k dvd x - d"
proof -
  show "k dvd x - d" if "k dvd x - (d + k)" using dvd_add [OF that dvd_refl] by (simp add: algebra_simps)
  show "k dvd x - d" if "k dvd x - (d - k)" using dvd_diff [OF that dvd_refl] by (simp add: algebra_simps)
qed

lemma angle_up_range: "- FT_ANGLE_PI < angle_up d \<and> FT_ANGLE_2PI dvd (angle_up d - d) \<and> (d \<le> FT_ANGLE_PI \<longrightarrow> angle_up d \<le> FT_ANGLE_PI)"
proof (induction d rule: angle_up.induct)
  case (1 d)
  show ?case
  proof (cases "d \<le> - FT_ANGLE_PI")
    case True
    note ih = "1.IH" [OF True]
    have e: "angle_up d = angle_up (d + FT_ANGLE_2PI)" using True by (subst angle_up.simps) simp
    have "FT_ANGLE_2PI dvd angle_up (d + FT_ANGLE_2PI) - d" by (rule dvd_turn(1)) (use ih in blast)
    then show ?thesis unfolding e using ih True by (simp add: FT_ANGLE_PI_def FT_ANGLE_2PI_def)
  next
    case False
    then show ?thesis by (subst (1 2 3) angle_up.simps) simp
  qed
qed

lemma angle_down_range: "angle_down d \<le> FT_ANGLE_PI \<and> FT_ANGLE_2PI dvd (angle_down d - d) \<and> (- FT_ANGLE_PI < d \<longrightarrow> - FT_ANGLE_PI < angle_down d)"
proof (induction d rule: angle_down.induct)
  case (1 d)
  show ?case
  proof (cases "d > FT_ANGLE_PI")
    case True
    note ih = "1.IH" [OF True]
    have e: "angle_down d = angle_down (d - FT_ANGLE_2PI)" using True by (subst angle_down.simps) simp
    have "FT_ANGLE_2PI dvd angle_down (d - FT_ANGLE_2PI) - d" by (rule dvd_turn(2)) (use ih in blast)
    then show ?thesis unfolding e using ih True by (simp add: FT_ANGLE_PI_def FT_ANGLE_2PI_def)
  next
    case False
    then show ?thesis by (subst (1 2 3) angle_down.simps) simp
  qed
qed

lemma sector_up_range: "case sector_up x y th of (x', y', th') \<Rightarrow> - FT_ANGLE_PI4 \<le> th' \<and> (th \<le> FT_ANGLE_PI4 \<longrightarrow> th' \<le> FT_ANGLE_PI4)"
proof (induction x y th rule: sector_up.induct)
  case (1 x y th)
  show ?case
  proof (cases "th < - FT_ANGLE_PI4")
    case True
    have e: "sector_up x y th = sector_up y (- x) (th + FT_ANGLE_PI2)" using True by (subst sector_up.simps) simp
    show ?thesis unfolding e using "1.IH" [OF True] True by (auto simp: FT_ANGLE_PI4_def FT_ANGLE_PI2_def split: prod.splits)
  next
    case False
    then show ?thesis by (subst sector_up.simps) simp
  qed
qed

lemma sector_down_range: "case sector_down x y th of (x', y', th') \<Rightarrow> th' \<le> FT_ANGLE_PI4 \<and> (- FT_ANGLE_PI4 \<le> th \<longrightarrow> - FT_ANGLE_PI4 \<le> th')"
proof (induction x y th rule: sector_down.induct)
  case (1 x y th)
  show ?case
  proof (cases "th > FT_ANGLE_PI4")
    case True
    have e: "sector_down x y th = sector_down (- y) x (th - FT_ANGLE_PI2)" using True by (subst sector_down.simps) simp
    show ?thesis unfolding e using "1.IH" [OF True] True by (auto simp: FT_ANGLE_PI4_def FT_ANGLE_PI2_def split: prod.splits)
  next
    case False
    then show ?thesis by (subst sector_down.simps) simp
  qed
qed

section \<open>Convergence\<close>

text \<open>A table that can still cancel what is left: no entry is more than one above the sum of those after it.\<close>

fun converges :: "int list \<Rightarrow> bool" where
  "converges [] = True"
| "converges (a # as) = (0 \<le> a \<and> a \<le> sum_list as + 1 \<and> converges as)"

lemma arctan_table_converges: "converges ft_trig_arctan_table" "2949120 \<le> sum_list ft_trig_arctan_table"
  by (simp_all add: ft_trig_arctan_table_def)

lemma rotate_loop_residue:
  "converges as \<Longrightarrow> abs theta \<le> sum_list as + 1 \<Longrightarrow> abs (snd (snd (rotate_loop as i b (x, y, theta)))) \<le> 1"
proof (induction as i b "(x, y, theta)" arbitrary: x y theta rule: rotate_loop.induct)
  case (2 a as i b x y theta)
  then show ?case by (cases "theta < 0") (simp_all add: abs_le_iff)
qed simp

text \<open>The components grow by less than a factor of two in every step.\<close>

lemma drop_bit_half:
  fixes z m :: int
  assumes "abs z \<le> 2 * m" "1 \<le> i"
  shows "abs (drop_bit i z) \<le> m"
proof -
  have "(2 :: int) ^ 1 \<le> 2 ^ i" using assms(2) by (intro power_increasing) auto
  then have p: "(2 :: int) \<le> 2 ^ i" by simp
  have m: "0 \<le> m" using assms(1) by linarith
  have "m * 2 \<le> m * 2 ^ i" using p m by (intro mult_left_mono) auto
  then have z: "- m * 2 ^ i \<le> z" "z \<le> m * 2 ^ i" using assms(1) by (auto simp: abs_le_iff)
  have "- m * 2 ^ i div 2 ^ i \<le> z div 2 ^ i" "z div 2 ^ i \<le> m * 2 ^ i div 2 ^ i"
    using z by (intro zdiv_mono1; simp)+
  moreover have "- m * 2 ^ i div 2 ^ i = - m" "m * 2 ^ i div 2 ^ i = m" by (rule nonzero_mult_div_cancel_right; simp)+
  ultimately show ?thesis by (simp add: drop_bit_eq_div abs_le_iff)
qed

lemma pseudo_step_bound:
  fixes x y b m :: int
  assumes "abs x \<le> m" "abs y \<le> m" "0 \<le> b" "b \<le> m" "1 \<le> i"
  shows "abs (x + drop_bit i (y + b)) \<le> 2 * m" "abs (x - drop_bit i (y + b)) \<le> 2 * m"
proof -
  have "abs (y + b) \<le> 2 * m" using assms by linarith
  then have "abs (drop_bit i (y + b)) \<le> m" using assms(5) by (rule drop_bit_half)
  then show "abs (x + drop_bit i (y + b)) \<le> 2 * m" "abs (x - drop_bit i (y + b)) \<le> 2 * m"
    using assms(1) by linarith+
qed

lemma rotate_loop_bound:
  "abs x \<le> m \<Longrightarrow> abs y \<le> m \<Longrightarrow> 0 \<le> b \<Longrightarrow> b \<le> m \<Longrightarrow> 1 \<le> i \<Longrightarrow>
   abs (fst (rotate_loop as i b (x, y, theta))) \<le> 2 ^ length as * m \<and>
   abs (fst (snd (rotate_loop as i b (x, y, theta)))) \<le> 2 ^ length as * m"
proof (induction as arbitrary: i b x y theta m)
  case (Cons a as)
  note st = pseudo_step_bound [OF Cons.prems] pseudo_step_bound [OF Cons.prems(2,1,3,4,5)]
  have b: "0 \<le> 2 * b" "2 * b \<le> 2 * m" "1 \<le> i + 1" using Cons.prems(3,4) by simp_all
  show ?case
    using Cons.IH [OF st(1,4) b, of "theta + a"] Cons.IH [OF st(2,3) b, of "theta - a"]
    by (simp add: mult.assoc mult.left_commute)
qed simp

lemma sector_up_bound: "abs x \<le> m \<Longrightarrow> abs y \<le> m \<Longrightarrow> abs (fst (sector_up x y th)) \<le> m \<and> abs (fst (snd (sector_up x y th))) \<le> m"
proof (induction x y th rule: sector_up.induct)
  case (1 x y th)
  then show ?case by (subst (1 2) sector_up.simps) simp
qed

lemma sector_down_bound: "abs x \<le> m \<Longrightarrow> abs y \<le> m \<Longrightarrow> abs (fst (sector_down x y th)) \<le> m \<and> abs (fst (snd (sector_down x y th))) \<le> m"
proof (induction x y th rule: sector_down.induct)
  case (1 x y th)
  then show ?case by (subst (1 2) sector_down.simps) simp
qed

section \<open>Downscaling\<close>

text \<open>The long multiplication is that of \<open>ft_multo64\<close>.\<close>

lemma ft_trig_downscale_32_multo64:
  "ft_trig_downscale_32 val =
     (let t = ft_multo64 (u32i (abs val)) FT_TRIG_SCALE; lo = u32i (snd t + 0x40000000);
          hi = u32i (fst t + (if lo < 0x40000000 then 1 else 0))
      in if val < 0 then - hi else hi)"
  by (cases "val < 0") (simp_all add: ft_trig_downscale_32_def ft_multo64_def Let_def del: and_ffff)

lemma ft_trig_downscale_32_eq:
  assumes "abs val < 2147483648"
  shows "ft_trig_downscale_32 val = ft_trig_downscale val"
proof -
  let ?v = "abs val"
  have sc: "0 \<le> FT_TRIG_SCALE" "FT_TRIG_SCALE < 4294967296" by (simp_all add: FT_TRIG_SCALE_def)
  have v: "0 \<le> ?v" "?v < 4294967296" "u32i ?v = ?v" using assms by (simp_all add: u32i_id)
  define m where "m = ft_multo64 ?v FT_TRIG_SCALE"
  have m: "fst m * 4294967296 + snd m = ?v * FT_TRIG_SCALE" "0 \<le> snd m" "snd m < 4294967296" "0 \<le> fst m" "fst m < 4294967296"
    using ft_multo64_eq [OF v(1,2) sc] unfolding m_def by auto
  have p: "?v * FT_TRIG_SCALE < 9223372036854775808" "0 \<le> ?v * FT_TRIG_SCALE"
    using assms by (simp_all add: FT_TRIG_SCALE_def)
  have f: "fst m < 2147483648" using m(1,2) p(1) by linarith
  define lo where "lo = u32i (snd m + 0x40000000)"
  define c where "c = (if lo < 0x40000000 then 1 else 0 :: int)"
  have lo: "lo = snd m + 0x40000000 - 4294967296 * c" "0 \<le> lo" "lo < 4294967296" "0 \<le> c" "c \<le> 1"
    using carry [of "snd m" "0x40000000"] m(2,3) unfolding lo_def c_def by auto
  have hi: "u32i (fst m + c) = fst m + c" using f m(4) lo by (intro u32i_id) linarith+
  have "?v * FT_TRIG_SCALE + 0x40000000 = 4294967296 * (fst m + c) + lo" using m(1) lo(1) by (simp add: algebra_simps)
  then have d: "(?v * FT_TRIG_SCALE + 0x40000000) div 4294967296 = fst m + c"
    by (rule int_div_pos_eq [OF _ lo(2,3)])
  have "ft_trig_downscale_32 val = (if val < 0 then - (fst m + c) else fst m + c)"
    unfolding ft_trig_downscale_32_multo64 Let_def v(3) m_def [symmetric] lo_def [symmetric] c_def [symmetric] hi ..
  moreover have "ft_trig_downscale val = (if val < 0 then - (fst m + c) else fst m + c)"
  proof -
    have u: "u64 (u64 ?v * FT_TRIG_SCALE + 0x40000000) = ?v * FT_TRIG_SCALE + 0x40000000"
      using v p by (simp add: u64_id)
    have s: "s64 (fst m + c) = fst m + c" "s64 (- (fst m + c)) = - (fst m + c)" "s64 ?v = ?v"
      using f m(4) lo assms by (simp_all add: s64_id)
    show ?thesis
      using u s d by (cases "val < 0") (simp_all add: ft_trig_downscale_def Let_def drop_bit_eq_div)
  qed
  ultimately show ?thesis by simp
qed

section \<open>Properties\<close>



text \<open>
  The difference of two angles is brought into the half-open turn above -180 degrees, by whole
  turns.
\<close>
theorem FT_Angle_Diff_reduced:
  "- FT_ANGLE_PI < FT_Angle_Diff angle1 angle2 \<and> FT_Angle_Diff angle1 angle2 \<le> FT_ANGLE_PI \<and>
   FT_ANGLE_2PI dvd FT_Angle_Diff angle1 angle2 - s64 (angle2 - angle1)"
proof -
  let ?d = "s64 (angle2 - angle1)"
  note u = angle_up_range [of ?d] and d = angle_down_range [of "angle_up ?d"]
  have "FT_ANGLE_2PI dvd (angle_down (angle_up ?d) - angle_up ?d) + (angle_up ?d - ?d)" using u d by (intro dvd_add) auto
  then show ?thesis using u d by (simp add: FT_Angle_Diff_def)
qed

end
