(* ===== verification/Ft_NormLen.thy ===== *)
theory Ft_NormLen
  imports Ft_Calc_Exact "HOL-Library.Signed_Division"
begin

text \<open>
  \<open>FT_Vector_NormLen\<close> of \<open>src/base/ftcalc.c\<close>: a vector scaled to unit length by Newton's iteration
  for the reciprocal of its length, in 32-bit arithmetic. The iteration ends, and the vector it
  leaves is a unit vector up to a rounding error.
\<close>

section \<open>Model\<close>

text \<open>The linear estimate of the length.\<close>

definition norm_estimate :: "int \<Rightarrow> int \<Rightarrow> int" where
  "norm_estimate x y = (if x > y then u32i (x + drop_bit 1 y) else u32i (y + drop_bit 1 x))"

text \<open>A component scaled by \<open>1 + b\<close>, and the correction of \<open>b\<close>.\<close>

definition norm_scale :: "int \<Rightarrow> int \<Rightarrow> int" where
  "norm_scale x b = u32i (s32 (x + drop_bit 16 (s32 (x * b))))"

definition norm_correction :: "int \<Rightarrow> int \<Rightarrow> int \<Rightarrow> int" where
  "norm_correction u v b =
     (let z = s32 (- s32 (u32i (u * u) + u32i (v * v))) sdiv 0x200
      in s32 (z * drop_bit 8 (s32 (0x10000 + b))) sdiv 0x10000)"

partial_function (option) norm_loop :: "int \<Rightarrow> int \<Rightarrow> int \<Rightarrow> (int \<times> int) option" where
  "norm_loop x y b =
     (let u = norm_scale x b; v = norm_scale y b; z = norm_correction u v b; b = s32 (b + z)
      in if z > 0 then norm_loop x y b else Some (u, v))"

text \<open>The prenormalisation: the shift, and the components and the estimate shifted.\<close>

definition norm_shift :: "int \<Rightarrow> int" where
  "norm_shift l =
     (let shift = 31 - int (FT_MSB l)
      in shift - (15 + (if l \<ge> drop_bit (nat shift) 0xAAAAAAAA then 1 else 0)))"

definition norm_prepare :: "int \<Rightarrow> int \<Rightarrow> int \<times> int \<times> int \<times> int" where
  "norm_prepare x y =
     (let l = norm_estimate x y; shift = norm_shift l
      in if shift > 0
         then let x = u32i (push_bit (nat shift) x); y = u32i (push_bit (nat shift) y)
              in (shift, x, y, norm_estimate x y)
         else (shift, drop_bit (nat (- shift)) x, drop_bit (nat (- shift)) y, drop_bit (nat (- shift)) l))"

text \<open>The length and the vector.\<close>

definition FT_Vector_NormLen :: "FT_Vector \<Rightarrow> (int \<times> FT_Vector) option" where
  "FT_Vector_NormLen vector =
     (let (x, sx) = move_sign_32 (s32 (vx vector)) 1; (y, sy) = move_sign_32 (s32 (vy vector)) 1
      in if x = 0 then Some (y, if y > 0 then vector\<lparr>vy := sy * 0x10000\<rparr> else vector)
         else if y = 0 then Some (x, if x > 0 then vector\<lparr>vx := sx * 0x10000\<rparr> else vector)
         else let (shift, x, y, l) = norm_prepare x y; b = s32 (0x10000 - s32 l)
         in do {
           (u, v) \<leftarrow> norm_loop (s32 x) (s32 y) b;
           let vector = \<lparr>vx = (if sx < 0 then - u else u), vy = (if sy < 0 then - v else v)\<rparr>;
           let l = u32i (0x10000 + s32 (u32i (u * x) + u32i (v * y)) sdiv 0x10000);
           Some (if shift > 0 then drop_bit (nat shift) (u32i (l + push_bit (nat (shift - 1)) 1))
                 else u32i (push_bit (nat (- shift)) l), vector)
         })"

section \<open>Newton's iteration\<close>

lemma amgm: "0 \<le> p \<Longrightarrow> 0 \<le> w \<Longrightarrow> 27 * (p * w\<^sup>2) \<le> 4 * (p + w) ^ 3" for p w :: int
proof -
  assume a: "0 \<le> p" "0 \<le> w"
  have "4 * (p + w) ^ 3 - 27 * (p * w\<^sup>2) = (w - 2 * p)\<^sup>2 * (4 * w + p)" by algebra
  moreover have "0 \<le> (w - 2 * p)\<^sup>2 * (4 * w + p)" using a by simp
  ultimately show ?thesis by linarith
qed

text \<open>Newton's step from below: \<open>r\<close> the squared length, \<open>B\<close> and \<open>B'\<close> the factors.\<close>

lemma newton_below:
  fixes r B B' n d t :: int
  assumes "0 < t" "0 \<le> B" "0 \<le> B'" "0 \<le> r" "r * B\<^sup>2 \<le> (n + d) * t" "2 * t * B' \<le> B * (3 * t - n)" "0 \<le> n" "n \<le> t" "0 \<le> d"
  shows "27 * t * (r * B'\<^sup>2) \<le> (3 * t + d) ^ 3"
proof -
  have w: "0 \<le> 3 * t - n" using assms(1,8) by linarith
  have "(2 * t * B')\<^sup>2 \<le> (B * (3 * t - n))\<^sup>2" using assms(1,3,6) by (intro power_mono) auto
  then have "r * (2 * t * B')\<^sup>2 \<le> r * (B * (3 * t - n))\<^sup>2" using assms(4) by (rule mult_left_mono)
  also have "\<dots> = r * B\<^sup>2 * (3 * t - n)\<^sup>2" by algebra
  also have "\<dots> \<le> (n + d) * t * (3 * t - n)\<^sup>2" using assms(5) by (intro mult_right_mono) auto
  finally have 1: "r * (2 * t * B')\<^sup>2 \<le> t * ((n + d) * (3 * t - n)\<^sup>2)" by (simp add: algebra_simps)
  have "27 * ((n + d) * (3 * t - n)\<^sup>2) \<le> 4 * ((n + d) + (3 * t - n)) ^ 3"
    by (rule amgm) (use assms w in auto)
  then have "t * (27 * ((n + d) * (3 * t - n)\<^sup>2)) \<le> t * (4 * (3 * t + d) ^ 3)"
    using assms(1) by (intro mult_left_mono) (auto simp: add.commute)
  then have "4 * t * (27 * t * (r * B'\<^sup>2)) \<le> 4 * t * (3 * t + d) ^ 3"
    using 1 by (simp add: algebra_simps power2_eq_square)
  then show ?thesis using assms(1) by (simp add: mult.assoc mult.left_commute)
qed

definition norm_ok :: "int \<Rightarrow> int \<Rightarrow> int \<Rightarrow> bool" where
  "norm_ok x y B \<longleftrightarrow> 0 \<le> x \<and> x \<le> 87381 \<and> 0 \<le> y \<and> y \<le> 87381 \<and> 1300000000 \<le> x\<^sup>2 + y\<^sup>2 \<and> 43690 \<le> B \<and>
     (x\<^sup>2 + y\<^sup>2) * B\<^sup>2 \<le> 18451247673336922112 \<and>
     50728546202701266944 \<le> 5 * ((x\<^sup>2 + y\<^sup>2) * B\<^sup>2)"

lemma square_le: "0 \<le> b \<Longrightarrow> a\<^sup>2 \<le> c \<Longrightarrow> c < (b + 1)\<^sup>2 \<Longrightarrow> a \<le> b" for a b c :: int
  using power2_less_imp_less [of a "b + 1"] by simp

lemma norm_B: "norm_ok x y B \<Longrightarrow> B \<le> 119199"
proof -
  assume ok: "norm_ok x y B"
  then have "1300000000 * B\<^sup>2 \<le> (x\<^sup>2 + y\<^sup>2) * B\<^sup>2" unfolding norm_ok_def by (intro mult_right_mono) auto
  then have "B\<^sup>2 \<le> 14193280000" using ok unfolding norm_ok_def by linarith
  then show "B \<le> 119199" by (rule square_le [rotated]) auto
qed

lemma norm_xB: "norm_ok x y B \<Longrightarrow> x * B \<le> 4295491583 \<and> y * B \<le> 4295491583"
proof -
  assume ok: "norm_ok x y B"
  have r: "(x\<^sup>2 + y\<^sup>2) * B\<^sup>2 = (x * B)\<^sup>2 + (y * B)\<^sup>2" by algebra
  have "(x * B)\<^sup>2 \<le> 18451247673336922112" "(y * B)\<^sup>2 \<le> 18451247673336922112"
    using ok zero_le_power2 [of "x * B"] zero_le_power2 [of "y * B"] unfolding norm_ok_def r by linarith+
  then show ?thesis using square_le [of 4295491583 "x * B"] square_le [of 4295491583 "y * B"] by simp
qed

lemma norm_scale_eq:
  assumes "0 \<le> x" "x \<le> 87381" "43690 \<le> B" "B \<le> 119199" "x * B \<le> 4295491583"
  shows "norm_scale x (B - 65536) = x * B div 65536" "x * B div 65536 \<le> 65544" "0 \<le> x * B div 65536"
proof -
  have e: "x * (B - 65536) = x * B - 65536 * x" by (simp add: algebra_simps)
  have p: "x * 43690 \<le> x * B" using assms by (intro mult_left_mono) auto
  have "x * B - 65536 * x < 2147483648"
  proof (cases "x \<le> 32776")
    case True
    have "x * B \<le> x * 119199" using assms by (intro mult_left_mono) auto
    then show ?thesis using True by linarith
  next
    case False
    then show ?thesis using assms(5) by linarith
  qed
  moreover have "- 2147483648 \<le> x * B - 65536 * x" using p assms(2) by linarith
  ultimately have s: "s32 (x * (B - 65536)) = x * B - 65536 * x" unfolding e by (intro s32_id)
  show d: "x * B div 65536 \<le> 65544" using zdiv_less [of 65536 "x * B" 65545] assms(5) by simp
  show z: "0 \<le> x * B div 65536" using assms(1,3) by (simp add: pos_imp_zdiv_nonneg_iff)
  have "x + drop_bit 16 (x * B - 65536 * x) = x * B div 65536"
    by (simp add: drop_bit_eq_div)
  then show "norm_scale x (B - 65536) = x * B div 65536"
    unfolding norm_scale_def s using d z by (simp add: s32_id u32i_id)
qed

text \<open>What the squared length \<open>u\<^sup>2 + v\<^sup>2\<close> of the scaled vector is worth.\<close>

lemma floor_square:
  fixes m k :: int
  assumes "0 < k" "0 \<le> m"
  shows "(m div k)\<^sup>2 * k\<^sup>2 \<le> m\<^sup>2" "m\<^sup>2 \<le> ((m div k)\<^sup>2 + 2 * (m div k) + 1) * k\<^sup>2"
proof -
  have q: "0 \<le> m div k" using assms by (simp add: pos_imp_zdiv_nonneg_iff)
  have m: "m = k * (m div k) + m mod k" "0 \<le> m mod k" "m mod k < k" using assms by simp_all
  have "k * (m div k) \<le> m" using m by linarith
  then have "(k * (m div k))\<^sup>2 \<le> m\<^sup>2" using q assms by (intro power_mono) auto
  then show "(m div k)\<^sup>2 * k\<^sup>2 \<le> m\<^sup>2" by (simp add: power_mult_distrib mult.commute)
  have "m \<le> k * (m div k + 1)" unfolding distrib_left using m by linarith
  then have "m\<^sup>2 \<le> (k * (m div k + 1))\<^sup>2" using assms by (intro power_mono) auto
  also have "\<dots> = ((m div k)\<^sup>2 + 2 * (m div k) + 1) * k\<^sup>2" by algebra
  finally show "m\<^sup>2 \<le> ((m div k)\<^sup>2 + 2 * (m div k) + 1) * k\<^sup>2" .
qed

lemma norm_square:
  assumes "norm_ok x y B"
  defines "n \<equiv> (x * B div 65536)\<^sup>2 + (y * B div 65536)\<^sup>2"
  shows "n \<le> 4296015872" "(x\<^sup>2 + y\<^sup>2) * B\<^sup>2 \<le> (n + 300000) * 4294967296" "2361932012 \<le> n"
proof -
  have nn: "0 \<le> x * B" "0 \<le> y * B" using assms by (auto simp: norm_ok_def)
  have r: "(x\<^sup>2 + y\<^sup>2) * B\<^sup>2 = (x * B)\<^sup>2 + (y * B)\<^sup>2" by algebra
  note fx = floor_square [of 65536, OF _ nn(1)] and fy = floor_square [of 65536, OF _ nn(2)]
  have "n * 4294967296 \<le> (x\<^sup>2 + y\<^sup>2) * B\<^sup>2" unfolding r n_def using fx(1) fy(1) by simp
  moreover have "(x\<^sup>2 + y\<^sup>2) * B\<^sup>2 \<le> 18451247673336922112" "50728546202701266944 \<le> 5 * ((x\<^sup>2 + y\<^sup>2) * B\<^sup>2)"
    using assms by (simp_all add: norm_ok_def)
  ultimately show "n \<le> 4296015872" by linarith
  have "x * B div 65536 \<le> 65544" "y * B div 65536 \<le> 65544"
    using norm_xB [OF assms(1)] zdiv_less [of 65536 "x * B" 65545] zdiv_less [of 65536 "y * B" 65545] by auto
  then show h: "(x\<^sup>2 + y\<^sup>2) * B\<^sup>2 \<le> (n + 300000) * 4294967296" unfolding r n_def using fx(2) fy(2) by simp
  have "50728546202701266944 \<le> 5 * ((n + 300000) * 4294967296)"
    using h \<open>50728546202701266944 \<le> 5 * ((x\<^sup>2 + y\<^sup>2) * B\<^sup>2)\<close> by linarith
  then show "2361932012 \<le> n" by simp
qed


lemma mod_sum3: "(a mod m + b mod m + c) mod m = (a + b + c) mod m" for a b c m :: int
  by (metis mod_add_cong mod_add_eq)

lemma s32_wrap: "2147483648 \<le> n \<Longrightarrow> n < 6442450944 \<Longrightarrow> s32 (u32i (u * u) + u32i (v * v)) = n - 4294967296"
  if "n = u\<^sup>2 + v\<^sup>2"
proof -
  assume a: "2147483648 \<le> n" "n < 6442450944"
  have "(u32i (u * u) + u32i (v * v) + 2147483648) mod 4294967296 = (n + 2147483648) mod 4294967296"
    unfolding that u32i_def power2_eq_square by (rule mod_sum3)
  also have "\<dots> = n + 2147483648 - 4294967296"
    using a mod_pos_pos_trivial [of "n + 2147483648 - 4294967296" 4294967296]
      mod_add_self2 [of "n + 2147483648 - 4294967296" 4294967296] by (simp add: add.commute)
  finally show ?thesis by (simp add: s32_def)
qed

lemma sdiv_pos: "0 \<le> a \<Longrightarrow> 0 < k \<Longrightarrow> a sdiv k = a div k" for a k :: int
  by (simp add: signed_divide_int_def sgn_if)

lemma sdiv_neg: "a \<le> 0 \<Longrightarrow> 0 < k \<Longrightarrow> a sdiv k = - ((- a) div k)" for a k :: int
  by (auto simp: signed_divide_int_def sgn_if)

lemma norm_correction_eq:
  assumes "2361932012 \<le> n" "n \<le> 4296015872" "n = u\<^sup>2 + v\<^sup>2" "43690 \<le> B" "B \<le> 119199"
  shows "n \<le> 4294967296 \<Longrightarrow> norm_correction u v (B - 65536) = (4294967296 - n) div 512 * (B div 256) div 65536"
    "4294967296 < n \<Longrightarrow> norm_correction u v (B - 65536) \<le> 0"
proof -
  have s: "s32 (u32i (u * u) + u32i (v * v)) = n - 4294967296" by (rule s32_wrap [OF assms(3)]) (use assms in auto)
  have t: "s32 (4294967296 - n) = 4294967296 - n" by (rule s32_id) (use assms in auto)
  have b: "drop_bit 8 (s32 (0x10000 + (B - 65536))) = B div 256" using assms by (simp add: drop_bit_eq_div s32_id)
  have B: "0 \<le> B div 256" "B div 256 \<le> 465" using assms zdiv_less [of 256 B 466] by auto
  note d = norm_correction_def Let_def s minus_diff_eq t b
  show "norm_correction u v (B - 65536) = (4294967296 - n) div 512 * (B div 256) div 65536" if "n \<le> 4294967296"
  proof -
    have z: "0 \<le> (4294967296 - n) div 512" "(4294967296 - n) div 512 \<le> 3775459"
      using that assms zdiv_less [of 512 "4294967296 - n" 3775460] by auto
    have "(4294967296 - n) div 512 * (B div 256) \<le> 3775459 * 465" using z B by (intro mult_mono) auto
    moreover have p: "0 \<le> (4294967296 - n) div 512 * (B div 256)" using z(1) B(1) by (rule mult_nonneg_nonneg)
    ultimately have "s32 ((4294967296 - n) div 512 * (B div 256)) = (4294967296 - n) div 512 * (B div 256)"
      by (intro s32_id) auto
    then show ?thesis unfolding d using that p by (simp add: sdiv_pos)
  qed
  show "norm_correction u v (B - 65536) \<le> 0" if "4294967296 < n"
  proof -
    have z: "0 \<le> (n - 4294967296) div 512" "(n - 4294967296) div 512 \<le> 2048"
      using that assms zdiv_less [of 512 "n - 4294967296" 2049] by auto
    have "(n - 4294967296) div 512 * (B div 256) \<le> 2048 * 465" using z B by (intro mult_mono) auto
    moreover have p: "0 \<le> (n - 4294967296) div 512 * (B div 256)" using z(1) B(1) by (rule mult_nonneg_nonneg)
    ultimately have e: "s32 (- ((n - 4294967296) div 512) * (B div 256)) = - ((n - 4294967296) div 512 * (B div 256))"
      by (subst s32_id) auto
    have "(4294967296 - n) sdiv 512 = - ((n - 4294967296) div 512)" using that by (subst sdiv_neg) auto
    then show ?thesis unfolding d using e p by (simp add: sdiv_pos pos_imp_zdiv_nonneg_iff)
  qed
qed

lemma norm_step:
  assumes "norm_ok x y B" "n = (x * B div 65536)\<^sup>2 + (y * B div 65536)\<^sup>2"
  defines "z \<equiv> norm_correction (x * B div 65536) (y * B div 65536) (B - 65536)"
  assumes "0 < z"
  shows "norm_ok x y (B + z)"
proof -
  have B: "43690 \<le> B" "B \<le> 119199" using assms(1) norm_B by (auto simp: norm_ok_def)
  note n = norm_square [OF assms(1), folded assms(2)]
  note c = norm_correction_eq [OF n(3,1) assms(2) B]
  have le: "n \<le> 4294967296" using c(2) assms(4) unfolding z_def by linarith
  have z: "z = (4294967296 - n) div 512 * (B div 256) div 65536" unfolding z_def by (rule c(1) [OF le])
  have "512 * ((4294967296 - n) div 512) \<le> 4294967296 - n" "256 * (B div 256) \<le> B" by simp_all
  moreover have "0 \<le> (4294967296 - n) div 512" "0 \<le> B div 256" using le B by simp_all
  ultimately have "512 * ((4294967296 - n) div 512) * (256 * (B div 256)) \<le> (4294967296 - n) * B"
    by (intro mult_mono) auto
  moreover have "65536 * z \<le> (4294967296 - n) div 512 * (B div 256)" unfolding z by simp
  ultimately have "2 * 4294967296 * z \<le> (4294967296 - n) * B" by linarith
  then have nw: "2 * 4294967296 * (B + z) \<le> B * (3 * 4294967296 - n)" by (simp add: algebra_simps)
  have nn: "0 \<le> n" "0 \<le> x\<^sup>2 + y\<^sup>2" using n by auto
  have "27 * 4294967296 * ((x\<^sup>2 + y\<^sup>2) * (B + z)\<^sup>2) \<le> (3 * 4294967296 + 300000) ^ 3"
    by (rule newton_below [OF _ _ _ nn(2) n(2) nw nn(1) le]) (use B assms(4) in auto)
  moreover have "(3 * 4294967296 + 300000) ^ 3 \<le> 27 * 4294967296 * (18451247673336922112 :: int)" by simp
  ultimately have "27 * 4294967296 * ((x\<^sup>2 + y\<^sup>2) * (B + z)\<^sup>2) \<le> 27 * 4294967296 * 18451247673336922112" by (rule order_trans)
  then have up: "(x\<^sup>2 + y\<^sup>2) * (B + z)\<^sup>2 \<le> 18451247673336922112" by (simp add: mult.commute)
  have "(x\<^sup>2 + y\<^sup>2) * B\<^sup>2 \<le> (x\<^sup>2 + y\<^sup>2) * (B + z)\<^sup>2" using B assms(4) by (intro mult_left_mono power_mono) auto
  then have "50728546202701266944 \<le> 5 * ((x\<^sup>2 + y\<^sup>2) * (B + z)\<^sup>2)" using assms(1) unfolding norm_ok_def by linarith
  then show ?thesis using up assms(1,4) unfolding norm_ok_def by simp
qed

text \<open>How close to \<open>1\<close> the iteration gets.\<close>

definition unit_near :: "int \<Rightarrow> int \<Rightarrow> bool" where
  "unit_near u v \<longleftrightarrow> abs (u\<^sup>2 + v\<^sup>2 - 4294967296) \<le> 1048576"

lemma norm_stops:
  assumes "norm_ok x y B" "norm_correction (x * B div 65536) (y * B div 65536) (B - 65536) \<le> 0"
  shows "unit_near (x * B div 65536) (y * B div 65536)"
proof -
  define n where "n = (x * B div 65536)\<^sup>2 + (y * B div 65536)\<^sup>2"
  have B: "43690 \<le> B" "B \<le> 119199" using assms(1) norm_B by (auto simp: norm_ok_def)
  note n = norm_square [OF assms(1), folded n_def]
  have "4294967296 - n \<le> 1048576"
  proof (rule ccontr)
    assume c: "\<not> 4294967296 - n \<le> 1048576"
    then have "n \<le> 4294967296" by simp
    from norm_correction_eq(1) [OF n(3,1) n_def B this] assms(2)
    have "(4294967296 - n) div 512 * (B div 256) div 65536 \<le> 0" by simp
    then have "(4294967296 - n) div 512 * (B div 256) < 65536"
      using zdiv_mono1 [of 65536 "(4294967296 - n) div 512 * (B div 256)" 65536] by linarith
    moreover have "2048 * 170 \<le> (4294967296 - n) div 512 * (B div 256)"
      using c B by (intro mult_mono) auto
    ultimately show False by simp
  qed
  then show ?thesis using n(1) by (simp add: unit_near_def n_def)
qed

lemma norm_loop_ends:
  assumes "norm_ok x y B"
  shows "\<exists>B'. norm_ok x y B' \<and> norm_loop x y (B - 65536) = Some (x * B' div 65536, y * B' div 65536) \<and>
    unit_near (x * B' div 65536) (y * B' div 65536)"
  using assms
proof (induction "nat (120000 - B)" arbitrary: B rule: less_induct)
  case less
  have B: "43690 \<le> B" "B \<le> 119199" "0 \<le> x" "x \<le> 87381" "0 \<le> y" "y \<le> 87381"
    using less.prems norm_B by (auto simp: norm_ok_def)
  note xB = norm_xB [OF less.prems]
  note sx = norm_scale_eq [OF B(3,4,1,2) conjunct1 [OF xB]] and sy = norm_scale_eq [OF B(5,6,1,2) conjunct2 [OF xB]]
  define z where "z = norm_correction (x * B div 65536) (y * B div 65536) (B - 65536)"
  have run: "norm_loop x y (B - 65536) =
    (if z > 0 then norm_loop x y (s32 (B - 65536 + z)) else Some (x * B div 65536, y * B div 65536))"
    by (subst norm_loop.simps) (simp add: Let_def sx(1) sy(1) z_def)
  show ?case
  proof (cases "z > 0")
    case True
    have ok: "norm_ok x y (B + z)" using norm_step [OF less.prems refl] True by (simp add: z_def)
    have "B + z \<le> 119199" by (rule norm_B [OF ok])
    then have "s32 (B - 65536 + z) = (B + z) - 65536" using B True by (subst s32_id) auto
    moreover have "nat (120000 - (B + z)) < nat (120000 - B)" using True B by simp
    ultimately show ?thesis using less.hyps [OF _ ok] True run by simp
  next
    case False
    then show ?thesis using run norm_stops [OF less.prems] less.prems by (auto simp: z_def)
  qed
qed


text \<open>Where the iteration starts.\<close>

lemma norm_start_sorted:
  fixes p q l :: int
  assumes "0 \<le> q" "q \<le> p" "p \<le> 87381" "40960 \<le> l" "l \<le> 87381" "2 * p + q - 2 \<le> 2 * l" "2 * l \<le> 2 * p + q + 2"
  shows "norm_ok p q (131072 - l)"
proof -
  have "(2 * p + q)\<^sup>2 - 4 * (p\<^sup>2 + q\<^sup>2) = q * (4 * p - 3 * q)" by algebra
  moreover have "0 \<le> q * (4 * p - 3 * q)" using assms(1,2) by (intro mult_nonneg_nonneg) auto
  ultimately have "4 * (p\<^sup>2 + q\<^sup>2) \<le> (2 * p + q)\<^sup>2" by linarith
  also have "\<dots> \<le> (2 * (l + 1))\<^sup>2" by (rule power_mono) (use assms in auto)
  finally have up: "p\<^sup>2 + q\<^sup>2 \<le> (l + 1)\<^sup>2" by (simp only: power_mult_distrib) simp
  have "(2 * (l - 1))\<^sup>2 \<le> (2 * p + q)\<^sup>2" by (rule power_mono) (use assms in auto)
  also have "\<dots> \<le> 5 * (p\<^sup>2 + q\<^sup>2)"
  proof -
    have "5 * (p\<^sup>2 + q\<^sup>2) - (2 * p + q)\<^sup>2 = (p - 2 * q)\<^sup>2" by algebra
    then show ?thesis using zero_le_power2 [of "p - 2 * q"] by linarith
  qed
  finally have low: "4 * (l - 1)\<^sup>2 \<le> 5 * (p\<^sup>2 + q\<^sup>2)" by (simp only: power_mult_distrib) simp
  have "40959\<^sup>2 \<le> (l - 1)\<^sup>2" by (rule power_mono) (use assms in auto)
  then have r: "1300000000 \<le> p\<^sup>2 + q\<^sup>2" using low by simp
  have "(l + 1) * (131072 - l) \<le> 4295098368"
    using zero_le_power2 [of "l - 65536"] assms(4) by (simp add: power2_eq_square algebra_simps)
  then have "((l + 1) * (131072 - l))\<^sup>2 \<le> 4295098368\<^sup>2" by (rule power_mono) (use assms in auto)
  moreover have "(p\<^sup>2 + q\<^sup>2) * (131072 - l)\<^sup>2 \<le> (l + 1)\<^sup>2 * (131072 - l)\<^sup>2" using up by (rule mult_right_mono) simp
  ultimately have u: "(p\<^sup>2 + q\<^sup>2) * (131072 - l)\<^sup>2 \<le> 18451247673336922112" unfolding power_mult_distrib by simp
  have "0 \<le> (l - 40960) * (87381 - l)" using assms by (intro mult_nonneg_nonneg) auto
  then have "3690897408 \<le> (l - 1) * (131072 - l)" using assms(4) by (simp add: algebra_simps)
  then have "3690897408\<^sup>2 \<le> ((l - 1) * (131072 - l))\<^sup>2" by (rule power_mono) simp
  moreover have "4 * (l - 1)\<^sup>2 * (131072 - l)\<^sup>2 \<le> 5 * (p\<^sup>2 + q\<^sup>2) * (131072 - l)\<^sup>2" using low by (rule mult_right_mono) simp
  ultimately have "50728546202701266944 \<le> 5 * (p\<^sup>2 + q\<^sup>2) * (131072 - l)\<^sup>2" unfolding power_mult_distrib by simp
  then have "50728546202701266944 \<le> 5 * ((p\<^sup>2 + q\<^sup>2) * (131072 - l)\<^sup>2)" by (simp only: mult.assoc)
  then show ?thesis using assms r u unfolding norm_ok_def by simp
qed

lemma norm_start:
  assumes "0 \<le> x" "0 \<le> y" "x \<le> 87381" "y \<le> 87381" "40960 \<le> l" "l \<le> 87381"
    "2 * max x y + min x y - 2 \<le> 2 * l" "2 * l \<le> 2 * max x y + min x y + 2"
  shows "norm_ok x y (131072 - l)"
proof (cases "y \<le> x")
  case True
  then show ?thesis using norm_start_sorted [of y x l] assms by simp
next
  case False
  then have "norm_ok y x (131072 - l)" using norm_start_sorted [of x y l] assms by simp
  then show ?thesis by (simp add: norm_ok_def add.commute)
qed


lemma norm_estimate_eq:
  assumes "0 \<le> x" "0 \<le> y" "max x y + min x y div 2 < 4294967296"
  shows "norm_estimate x y = max x y + min x y div 2"
  using assms by (auto simp: norm_estimate_def drop_bit_eq_div max_def min_def u32i_id pos_imp_zdiv_nonneg_iff)

text \<open>Shifting down.\<close>

lemma shift_down:
  fixes p q k :: int
  assumes "0 < k" "0 \<le> q" "q \<le> p"
  defines "l \<equiv> (p + q div 2) div k"
  shows "p div k \<le> l" "2 * (p div k) + q div k - 2 \<le> 2 * l" "2 * l \<le> 2 * (p div k) + q div k + 2"
proof -
  show "p div k \<le> l" unfolding l_def using assms(1,2) by (intro zdiv_mono1) auto
  have d: "p = k * (p div k) + p mod k" "q = k * (q div k) + q mod k" "p + q div 2 = k * l + (p + q div 2) mod k"
    by (simp_all add: l_def)
  have b: "0 \<le> p mod k" "p mod k < k" "0 \<le> q mod k" "q mod k < k" "0 \<le> (p + q div 2) mod k" "(p + q div 2) mod k < k"
    using assms(1) by simp_all
  have h: "2 * (q div 2) \<le> q" "q \<le> 2 * (q div 2) + 1" by linarith+
  have "k * (2 * l) < k * (2 * (p div k) + q div k + 3)"
    unfolding distrib_left right_diff_distrib using d b h by linarith
  then show "2 * l \<le> 2 * (p div k) + q div k + 2" using assms(1) by simp
  have "k * (2 * (p div k) + q div k - 3) < k * (2 * l)"
    unfolding distrib_left right_diff_distrib using d b h assms(1) by linarith
  then show "2 * (p div k) + q div k - 2 \<le> 2 * l" using assms(1) by simp
qed


text \<open>Shifting up, with \<open>t = 2 * p + q\<close>.\<close>

lemma shift_up_bounds:
  fixes t l :: int
  assumes "2 * l \<le> t" "t \<le> 2 * l + 1" "3 \<le> t" "t \<noteq> 4" "2 ^ (31 - s) \<le> l" "l < 2 ^ (32 - s)" "s \<le> 31"
  shows "2863311530 div 2 ^ s \<le> l \<Longrightarrow> 17 \<le> s \<Longrightarrow> 40960 \<le> t * 2 ^ (s - 17) \<and> t * 2 ^ (s - 17) \<le> 87381"
    "l < 2863311530 div 2 ^ s \<Longrightarrow> 16 \<le> s \<Longrightarrow> 40960 \<le> t * 2 ^ (s - 16) \<and> t * 2 ^ (s - 16) \<le> 87381"
proof -
  show "40960 \<le> t * 2 ^ (s - 17) \<and> t * 2 ^ (s - 17) \<le> 87381" if "2863311530 div 2 ^ s \<le> l" "17 \<le> s"
  proof -
    have "s = 17 \<or> s = 18 \<or> s = 19 \<or> s = 20 \<or> s = 21 \<or> s = 22 \<or> s = 23 \<or> s = 24 \<or> s = 25 \<or> s = 26 \<or> s = 27 \<or> s = 28 \<or> s = 29 \<or> s = 30 \<or> s = 31"
      using assms(7) that(2) by presburger
    then show ?thesis using assms(1-6) that(1) by (elim disjE) auto
  qed
  show "40960 \<le> t * 2 ^ (s - 16) \<and> t * 2 ^ (s - 16) \<le> 87381" if "l < 2863311530 div 2 ^ s" "16 \<le> s"
  proof -
    have "s = 16 \<or> s = 17 \<or> s = 18 \<or> s = 19 \<or> s = 20 \<or> s = 21 \<or> s = 22 \<or> s = 23 \<or> s = 24 \<or> s = 25 \<or> s = 26 \<or> s = 27 \<or> s = 28 \<or> s = 29 \<or> s = 30 \<or> s = 31"
      using assms(7) that(2) by presburger
    then show ?thesis using assms(1-6) that(1) by (elim disjE) auto
  qed
qed

text \<open>Shifting down: the estimate.\<close>

lemma shift_down_bounds:
  fixes l :: int
  assumes "2 ^ (31 - s) \<le> l" "l < 2 ^ (32 - s)"
  shows "2863311530 div 2 ^ s \<le> l \<Longrightarrow> s \<le> 16 \<Longrightarrow> 40960 \<le> l div 2 ^ (16 - s) \<and> l div 2 ^ (16 - s) \<le> 87381"
    "l < 2863311530 div 2 ^ s \<Longrightarrow> s \<le> 15 \<Longrightarrow> 40960 \<le> l div 2 ^ (15 - s) \<and> l div 2 ^ (15 - s) \<le> 87381"
proof -
  show "40960 \<le> l div 2 ^ (16 - s) \<and> l div 2 ^ (16 - s) \<le> 87381" if "2863311530 div 2 ^ s \<le> l" "s \<le> 16"
  proof -
    have "s = 0 \<or> s = 1 \<or> s = 2 \<or> s = 3 \<or> s = 4 \<or> s = 5 \<or> s = 6 \<or> s = 7 \<or> s = 8 \<or> s = 9 \<or> s = 10 \<or> s = 11 \<or> s = 12 \<or> s = 13 \<or> s = 14 \<or> s = 15 \<or> s = 16"
      using that(2) by presburger
    then show ?thesis using assms that(1) by (elim disjE) auto
  qed
  show "40960 \<le> l div 2 ^ (15 - s) \<and> l div 2 ^ (15 - s) \<le> 87381" if "l < 2863311530 div 2 ^ s" "s \<le> 15"
  proof -
    have "s = 0 \<or> s = 1 \<or> s = 2 \<or> s = 3 \<or> s = 4 \<or> s = 5 \<or> s = 6 \<or> s = 7 \<or> s = 8 \<or> s = 9 \<or> s = 10 \<or> s = 11 \<or> s = 12 \<or> s = 13 \<or> s = 14 \<or> s = 15"
      using that(2) by presburger
    then show ?thesis using assms that(1) by (elim disjE) auto
  qed
qed


text \<open>The direction: the components shifted alike, up or down.\<close>

definition shifted_alike :: "int \<Rightarrow> int \<Rightarrow> int \<Rightarrow> int \<Rightarrow> bool" where
  "shifted_alike x y x' y' \<longleftrightarrow>
     (\<exists>k. 0 < k \<and> (x' = x * k \<and> y' = y * k \<or> x' = x div k \<and> y' = y div k))"

lemma norm_prepare_ok:
  assumes "1 \<le> x" "1 \<le> y" "x \<le> 2147483648" "y \<le> 2147483648"
  shows "\<exists>shift x' y' l'. norm_prepare x y = (shift, x', y', l') \<and> norm_ok x' y' (131072 - l') \<and> 40960 \<le> l' \<and> l' \<le> 87381 \<and>
    shifted_alike x y x' y'"
proof -
  define p q where pq: "p = max x y" "q = min x y"
  define l where l: "l = p + q div 2"
  have b: "1 \<le> q" "q \<le> p" "p \<le> 2147483648" using assms by (auto simp: pq)
  have e: "norm_estimate x y = l" unfolding l pq by (rule norm_estimate_eq) (use assms in auto)
  have l0: "0 < l" "l < 4294967296" using b by (auto simp: l)
  define s where "s = 31 - FT_MSB l"
  have msb: "FT_MSB l < 32" by (rule FT_MSB_le) (use l0 in auto)
  have ls: "2 ^ (31 - s) \<le> l" "l < 2 ^ (32 - s)" using FT_MSB_bounds [OF l0] msb by (auto simp: s_def Suc_diff_le)
  have s31: "s \<le> 31" by (simp add: s_def)
  define c where "c = (2863311530 div 2 ^ s :: int)"
  have sh: "norm_shift l = int s - 15 - (if c \<le> l then 1 else 0)"
    using msb by (simp add: norm_shift_def Let_def s_def c_def drop_bit_eq_div of_nat_diff nat_diff_distrib)
  have t: "2 * l \<le> 2 * p + q" "2 * p + q \<le> 2 * l + 1" "3 \<le> 2 * p + q" "2 * p + q \<noteq> 4"
    using b by (auto simp: l) presburger
  note up = shift_up_bounds [OF t ls s31, folded c_def] and down = shift_down_bounds [OF ls, folded c_def]
  show ?thesis
  proof (cases "norm_shift l > 0")
    case True
    define k where "k = nat (norm_shift l)"
    have k: "0 < k" "40960 \<le> (2 * p + q) * 2 ^ (k - 1) \<and> (2 * p + q) * 2 ^ (k - 1) \<le> 87381"
      using True up sh s31 by (auto simp: k_def nat_diff_distrib split: if_splits)
    have two: "(2 :: int) ^ k = 2 * 2 ^ (k - 1)" using k(1) by (cases k) auto
    have le: "max (x * 2 ^ k) (y * 2 ^ k) = p * 2 ^ k" "min (x * 2 ^ k) (y * 2 ^ k) = q * 2 ^ k"
      by (simp_all add: pq max_mult_distrib_right min_mult_distrib_right)
    have est: "p * 2 ^ k + q * 2 ^ k div 2 = (2 * p + q) * 2 ^ (k - 1)" unfolding two by (simp add: algebra_simps)
    have "0 \<le> q * 2 ^ k div 2" using b by simp
    then have pk: "p * 2 ^ k \<le> 87381" using k(2) unfolding est [symmetric] by linarith
    have "x * 2 ^ k \<le> p * 2 ^ k" "y * 2 ^ k \<le> p * 2 ^ k" by (simp_all add: pq)
    from this [THEN order_trans, OF pk] have "x * 2 ^ k \<le> 87381" "y * 2 ^ k \<le> 87381" .
    moreover have "0 \<le> x * 2 ^ k" "0 \<le> y * 2 ^ k" using assms by simp_all
    ultimately have xy: "0 \<le> x * 2 ^ k" "x * 2 ^ k \<le> 87381" "0 \<le> y * 2 ^ k" "y * 2 ^ k \<le> 87381" by simp_all
    have l': "norm_estimate (x * 2 ^ k) (y * 2 ^ k) = (2 * p + q) * 2 ^ (k - 1)"
      using norm_estimate_eq [OF xy(1,3)] k(2) unfolding le est by simp
    have rel: "2 * max (x * 2 ^ k) (y * 2 ^ k) + min (x * 2 ^ k) (y * 2 ^ k) = 2 * ((2 * p + q) * 2 ^ (k - 1))"
      unfolding le by (simp add: two algebra_simps)
    have okk: "norm_ok (x * 2 ^ k) (y * 2 ^ k) (131072 - (2 * p + q) * 2 ^ (k - 1))"
      by (rule norm_start [OF xy(1,3,2,4)]) (use k(2) in \<open>simp_all add: rel del: max_mult_distrib_right\<close>)
    have "norm_prepare x y = (norm_shift l, x * 2 ^ k, y * 2 ^ k, (2 * p + q) * 2 ^ (k - 1))"
      using True xy l' by (simp add: norm_prepare_def e Let_def push_bit_eq_mult u32i_id k_def [symmetric])
    moreover have "shifted_alike x y (x * 2 ^ k) (y * 2 ^ k)" unfolding shifted_alike_def by (intro exI [of _ "2 ^ k"]) simp
    ultimately show ?thesis using k(2) okk by blast
  next
    case False
    define k where "k = nat (- norm_shift l)"
    have k: "40960 \<le> l div 2 ^ k \<and> l div 2 ^ k \<le> 87381"
    proof (cases "c \<le> l")
      case True
      then have "k = 16 - s" "s \<le> 16" using False by (auto simp: k_def sh)
      then show ?thesis using down(1) True by simp
    next
      case no: False
      then have "k = 15 - s" "s \<le> 15" using False by (auto simp: k_def sh)
      then show ?thesis using down(2) no by simp
    qed
    have pos: "(0 :: int) < 2 ^ k" by simp
    have q0: "0 \<le> q" using b by simp
    note d = shift_down [OF pos q0 b(2), folded l]
    have le: "max (x div 2 ^ k) (y div 2 ^ k) = p div 2 ^ k" "min (x div 2 ^ k) (y div 2 ^ k) = q div 2 ^ k"
      using zdiv_mono1 [OF _ pos, of x y] zdiv_mono1 [OF _ pos, of y x] by (auto simp: pq max_def min_def)
    have xy: "0 \<le> x div 2 ^ k" "0 \<le> y div 2 ^ k" "x div 2 ^ k \<le> 87381" "y div 2 ^ k \<le> 87381"
      using assms d(1) k le(1) by (auto simp: pos_imp_zdiv_nonneg_iff)
    have "norm_prepare x y = (norm_shift l, x div 2 ^ k, y div 2 ^ k, l div 2 ^ k)"
      using False by (simp add: norm_prepare_def e Let_def drop_bit_eq_div k_def [symmetric])
    moreover have "norm_ok (x div 2 ^ k) (y div 2 ^ k) (131072 - l div 2 ^ k)"
      by (rule norm_start [OF xy]) (use k d(2,3) in \<open>auto simp: le\<close>)
    moreover have "shifted_alike x y (x div 2 ^ k) (y div 2 ^ k)" unfolding shifted_alike_def by (intro exI [of _ "2 ^ k"]) simp
    ultimately show ?thesis using k by blast
  qed
qed

section \<open>Properties\<close>

lemma move_sign_bounds:
  "move_sign_32 (s32 x) 1 = (abs (s32 x), sign_of (s32 x))" "abs (s32 x) \<le> 2147483648"
proof -
  have b: "- 2147483648 \<le> s32 x" "s32 x < 2147483648"
    unfolding s32_def using pos_mod_bound [of 4294967296 "x + 2147483648"] pos_mod_sign [of 4294967296 "x + 2147483648"] by linarith+
  then show "abs (s32 x) \<le> 2147483648" by linarith
  have "u32i (0 - u32i (s32 x)) = - s32 x" if "s32 x < 0"
    using that b by (simp only: u32i_def diff_0 mod_minus_eq) simp
  then show "move_sign_32 (s32 x) 1 = (abs (s32 x), sign_of (s32 x))"
    using b by (auto simp: move_sign_32_def sign_of_def u32i_id)
qed


lemma cross_half:
  fixes x y x' y' B :: int
  assumes "0 \<le> x" "0 \<le> y" "0 \<le> B" "B \<le> 119199" "shifted_alike x y x' y'"
  shows "(x' * B div 65536) * y - (y' * B div 65536) * x \<le> 3 * x"
proof -
  have c: "x' * y - y' * x \<le> x"
  proof -
    obtain k where k: "0 < k" "x' = x * k \<and> y' = y * k \<or> x' = x div k \<and> y' = y div k"
      using assms(5) by (auto simp: shifted_alike_def)
    from k(2) show ?thesis
    proof
      assume "x' = x * k \<and> y' = y * k"
      then show ?thesis using assms(1) by simp
    next
      assume e: "x' = x div k \<and> y' = y div k"
      have "k * (x div k) \<le> x" using k(1) by (simp add: minus_mod_eq_mult_div [symmetric])
      then have "k * (x div k) * y \<le> x * y" using assms(2) by (rule mult_right_mono)
      moreover have "y - k \<le> k * (y div k)"
        using less_imp_le [OF pos_mod_bound [OF k(1), of y]] by (simp add: minus_mod_eq_mult_div [symmetric])
      then have "(y - k) * x \<le> k * (y div k) * x" using assms(1) by (rule mult_right_mono)
      ultimately have "k * ((x div k) * y - (y div k) * x) \<le> k * x" by (simp add: algebra_simps)
      then show ?thesis using e k(1) by simp
    qed
  qed
  have "65536 * (x' * B div 65536) \<le> x' * B" "y' * B - 65536 \<le> 65536 * (y' * B div 65536)" by simp_all
  then have "65536 * (x' * B div 65536) * y \<le> x' * B * y" "(y' * B - 65536) * x \<le> 65536 * (y' * B div 65536) * x"
    using assms(1,2) by (auto intro: mult_right_mono)
  moreover have "B * (x' * y - y' * x) \<le> B * x" using c assms(3) by (rule mult_left_mono)
  moreover have "B * x \<le> 119199 * x" using assms(1,4) by (intro mult_right_mono)
  ultimately have "65536 * ((x' * B div 65536) * y - (y' * B div 65536) * x) \<le> 65536 * (3 * x)"
    using assms(1) by (simp add: algebra_simps)
  then show ?thesis by simp
qed

text \<open>A vector of unit length, in the direction of another.\<close>

definition unit_of :: "FT_Vector \<Rightarrow> FT_Vector \<Rightarrow> bool" where
  "unit_of w v \<longleftrightarrow> abs ((vx w)\<^sup>2 + (vy w)\<^sup>2 - 4294967296) \<le> 1048576 \<and> 0 \<le> vx w * vx v \<and> 0 \<le> vy w * vy v \<and>
     abs (vx w * vy v - vy w * vx v) \<le> 3 * max (abs (vx v)) (abs (vy v))"

lemma unit_of_signs:
  assumes "unit_near u v" "0 \<le> u" "0 \<le> v" "u * abs y - v * abs x \<le> 3 * abs x" "v * abs x - u * abs y \<le> 3 * abs y"
  shows "unit_of \<lparr>vx = sign_of x * u, vy = sign_of y * v\<rparr> \<lparr>vx = x, vy = y\<rparr>"
proof -
  have s: "sign_of x * x = abs x" "sign_of y * y = abs y" "(sign_of x)\<^sup>2 = 1" "(sign_of y)\<^sup>2 = 1"
    "abs (sign_of x) = 1" "abs (sign_of y) = 1"
    by (auto simp: sign_of_def)
  have "sign_of x * u * y - sign_of y * v * x = sign_of x * sign_of y * (u * abs y - v * abs x)"
    by (simp add: sign_of_def algebra_simps)
  then have "abs (sign_of x * u * y - sign_of y * v * x) = abs (u * abs y - v * abs x)" by (simp add: abs_mult s)
  moreover have "0 \<le> (sign_of x * x) * u" "0 \<le> (sign_of y * y) * v" unfolding s using assms by auto
  moreover have "abs (u * abs y - v * abs x) \<le> 3 * max (abs x) (abs y)" using assms(4,5) by linarith
  ultimately show ?thesis using assms
    by (auto simp: unit_of_def unit_near_def power_mult_distrib s algebra_simps)
qed


lemma FT_Vector_NormLen_run:
  assumes "abs (vx v) < 2147483648" "abs (vy v) < 2147483648" "vx v \<noteq> 0 \<or> vy v \<noteq> 0"
  shows "\<exists>l w. FT_Vector_NormLen v = Some (l, w) \<and> unit_of w v"
proof -
  let ?x = "abs (vx v)" and ?y = "abs (vy v)"
  have s: "s32 (vx v) = vx v" "s32 (vy v) = vy v" using assms by (auto intro!: s32_id)
  note ms = move_sign_bounds(1) [of "vx v", unfolded s] move_sign_bounds(1) [of "vy v", unfolded s]
  show ?thesis
  proof (cases "vx v = 0 \<or> vy v = 0")
    case True
    then show ?thesis using assms(3)
      by (auto simp: FT_Vector_NormLen_def s ms unit_of_def sign_of_def)
  next
    case False
    then have "1 \<le> ?x" "1 \<le> ?y" "?x \<le> 2147483648" "?y \<le> 2147483648" using assms by auto
    then obtain shift x y l where p: "norm_prepare ?x ?y = (shift, x, y, l)" "norm_ok x y (131072 - l)"
      "40960 \<le> l" "l \<le> 87381" "shifted_alike ?x ?y x y" using norm_prepare_ok by blast
    then obtain B where B: "norm_ok x y B" "norm_loop x y (65536 - l) = Some (x * B div 65536, y * B div 65536)"
      "unit_near (x * B div 65536) (y * B div 65536)" using norm_loop_ends [OF p(2)] by auto
    have xy: "0 \<le> x" "x \<le> 87381" "0 \<le> y" "y \<le> 87381" "0 \<le> B" "B \<le> 119199"
      using B(1) norm_B [OF B(1)] by (auto simp: norm_ok_def)
    let ?u = "x * B div 65536" and ?v = "y * B div 65536"
    have uv: "0 \<le> ?u" "0 \<le> ?v" using xy by (simp_all add: pos_imp_zdiv_nonneg_iff)
    have sh: "s32 x = x" "s32 y = y" "s32 l = l" "s32 (65536 - l) = 65536 - l" using xy p(3,4) by (simp_all add: s32_id)
    have alike: "shifted_alike ?y ?x y x" using p(5) by (auto simp: shifted_alike_def)
    have "\<exists>l'. FT_Vector_NormLen v = Some (l', \<lparr>vx = sign_of (vx v) * ?u, vy = sign_of (vy v) * ?v\<rparr>)"
      using False by (simp add: FT_Vector_NormLen_def s ms p(1) sh B(2) Let_def sign_of_def)
    moreover have "unit_of \<lparr>vx = sign_of (vx v) * ?u, vy = sign_of (vy v) * ?v\<rparr> \<lparr>vx = vx v, vy = vy v\<rparr>"
      by (rule unit_of_signs [OF B(3) uv])
        (use cross_half [OF _ _ xy(5,6) p(5)] cross_half [OF _ _ xy(5,6) alike] in auto)
    moreover have "\<lparr>vx = vx v, vy = vy v\<rparr> = v" by simp
    ultimately show ?thesis by auto
  qed
qed

text \<open>
  C40: \<open>FT_Vector_NormLen\<close> returns for every vector of 32-bit components other than the null vector
  (its Newton iteration ends), and leaves a unit vector of the same direction: the squared length is
  within \<open>2 ^ 20\<close> of \<open>2 ^ 32\<close>, the signs are kept, and the cross product with the original is at most
  three of its longer component, an angle below \<open>2 ^ -14\<close>.
\<close>
theorem FT_Vector_NormLen_unit:
  assumes "abs (vx v) < 2147483648" "abs (vy v) < 2147483648" "vx v \<noteq> 0 \<or> vy v \<noteq> 0"
  shows "\<exists>l w. FT_Vector_NormLen v = Some (l, w) \<and> unit_of w v"
  using assms by (rule FT_Vector_NormLen_run)

lemma FT_Vector_NormLen_unit_witness:
  "\<exists>l w. FT_Vector_NormLen \<lparr>vx = -3, vy = 4\<rparr> = Some (l, w) \<and> unit_of w \<lparr>vx = -3, vy = 4\<rparr>"
  by (rule FT_Vector_NormLen_unit) simp_all

end
