(* ===== verification/Ft_Stream.thy ===== *)
theory Ft_Stream
  imports Ft_Validate
begin

text \<open>
  The input streams of \<open>src/base/ftstream.c\<close>. A stream over memory has no \<open>read\<close> callback and its
  \<open>base\<close> is the whole file; a stream with a callback has in \<open>base\<close> the block of the current frame.
  \<open>cursor\<close> and \<open>limit\<close> are offsets into that block, and \<open>NULL\<close> is \<open>None\<close>. The callback maps a
  position and a count to its return value and the bytes it delivers. A result \<open>None\<close> is an access
  outside the block.
\<close>

section \<open>Model\<close>

type_synonym FT_Stream_IoFunc = "nat \<Rightarrow> nat \<Rightarrow> nat \<times> bytes"

record FT_StreamRec =
  st_base :: "bytes option"
  st_size :: nat
  st_pos :: nat
  st_cursor :: "nat option"
  st_limit :: nat
  st_read :: "FT_Stream_IoFunc option"

text \<open>Sums of \<open>FT_ULong\<close> values.\<close>

definition add64 :: "nat \<Rightarrow> nat \<Rightarrow> nat" where
  "add64 a b = (a + b) mod 18446744073709551616"

definition peek_ushort_le :: "bytes \<Rightarrow> nat \<Rightarrow> nat option" where
  "peek_ushort_le t p = (if p + 2 \<le> length t then Some (u8 t p + 256 * u8 t (p + 1)) else None)"

definition peek_uoff3_le :: "bytes \<Rightarrow> nat \<Rightarrow> nat option" where
  "peek_uoff3_le t p =
     (if p + 3 \<le> length t then Some (u8 t p + 256 * u8 t (p + 1) + 65536 * u8 t (p + 2)) else None)"

definition peek_ulong_le :: "bytes \<Rightarrow> nat \<Rightarrow> nat option" where
  "peek_ulong_le t p =
     (if p + 4 \<le> length t
      then Some (u8 t p + 256 * u8 t (p + 1) + 65536 * u8 t (p + 2) + 16777216 * u8 t (p + 3)) else None)"

text \<open>\<open>FT_MEM_COPY\<close> out of a block.\<close>

definition copy_bytes :: "bytes \<Rightarrow> nat \<Rightarrow> nat \<Rightarrow> bytes option" where
  "copy_bytes t p n = (if p + n \<le> length t then Some (take n (drop p t)) else None)"

definition FT_Stream_OpenMemory :: "bytes \<Rightarrow> FT_StreamRec" where
  "FT_Stream_OpenMemory base =
     \<lparr>st_base = Some base, st_size = length base, st_pos = 0, st_cursor = None, st_limit = 0, st_read = None\<rparr>"

definition FT_Stream_Seek :: "nat \<Rightarrow> FT_StreamRec \<Rightarrow> ft_error option \<times> FT_StreamRec" where
  "FT_Stream_Seek pos stream =
     (let error = (case st_read stream of
                     Some io \<Rightarrow> if fst (io pos 0) \<noteq> 0 then Some Invalid_Stream_Operation else None
                   | None \<Rightarrow> if pos > st_size stream then Some Invalid_Stream_Operation else None)
      in (error, if error = None then stream\<lparr>st_pos := pos\<rparr> else stream))"

definition FT_Stream_Skip :: "int \<Rightarrow> FT_StreamRec \<Rightarrow> ft_error option \<times> FT_StreamRec" where
  "FT_Stream_Skip distance stream =
     (if distance < 0 then (Some Invalid_Stream_Operation, stream)
      else FT_Stream_Seek (add64 (st_pos stream) (nat distance)) stream)"

definition FT_Stream_Pos :: "FT_StreamRec \<Rightarrow> nat" where
  "FT_Stream_Pos stream = st_pos stream"

text \<open>The bytes are what lands in the buffer.\<close>

definition FT_Stream_ReadAt ::
    "nat \<Rightarrow> nat \<Rightarrow> FT_StreamRec \<Rightarrow> ((ft_error option \<times> bytes) \<times> FT_StreamRec) option" where
  "FT_Stream_ReadAt pos count stream =
     (if pos \<ge> st_size stream then Some ((Some Invalid_Stream_Operation, []), stream)
      else do {
        (read_bytes, buffer) \<leftarrow>
          (case st_read stream of
             Some io \<Rightarrow> Some (io pos count)
           | None \<Rightarrow>
               let read_bytes = st_size stream - pos;
                   read_bytes = (if read_bytes > count then count else read_bytes)
               in if count = 0 then Some (read_bytes, [])
                  else do {
                    base \<leftarrow> st_base stream;
                    buffer \<leftarrow> copy_bytes base pos read_bytes;
                    Some (read_bytes, buffer)
                  });
        let stream = stream\<lparr>st_pos := add64 pos read_bytes\<rparr>;
        Some ((if read_bytes < count then Some Invalid_Stream_Operation else None, buffer), stream)
      })"

definition FT_Stream_Read ::
    "nat \<Rightarrow> FT_StreamRec \<Rightarrow> ((ft_error option \<times> bytes) \<times> FT_StreamRec) option" where
  "FT_Stream_Read count stream = FT_Stream_ReadAt (st_pos stream) count stream"

definition FT_Stream_TryRead :: "nat \<Rightarrow> FT_StreamRec \<Rightarrow> ((nat \<times> bytes) \<times> FT_StreamRec) option" where
  "FT_Stream_TryRead count stream =
     (if st_pos stream \<ge> st_size stream then Some ((0, []), stream)
      else do {
        (read_bytes, buffer) \<leftarrow>
          (case st_read stream of
             Some io \<Rightarrow> Some (io (st_pos stream) count)
           | None \<Rightarrow>
               let read_bytes = st_size stream - st_pos stream;
                   read_bytes = (if read_bytes > count then count else read_bytes)
               in if count = 0 then Some (read_bytes, [])
                  else do {
                    base \<leftarrow> st_base stream;
                    buffer \<leftarrow> copy_bytes base (st_pos stream) read_bytes;
                    Some (read_bytes, buffer)
                  });
        Some ((read_bytes, buffer), stream\<lparr>st_pos := add64 (st_pos stream) read_bytes\<rparr>)
      })"

text \<open>
  \<open>granted\<close>: whether the block of a frame is allocated; a block of no bytes is \<open>NULL\<close>. After a short
  read the block is freed, and the cursor becomes \<open>NULL\<close> with it.
\<close>

definition FT_Stream_EnterFrame :: "bool \<Rightarrow> nat \<Rightarrow> FT_StreamRec \<Rightarrow> ft_error option \<times> FT_StreamRec" where
  "FT_Stream_EnterFrame granted count stream =
     (case st_read stream of
        Some io \<Rightarrow>
          if count > st_size stream then (Some Invalid_Stream_Operation, stream)
          else if count > 0 \<and> \<not> granted then (Some Out_Of_Memory, stream\<lparr>st_base := None\<rparr>)
          else let (read_bytes, bytes) = io (st_pos stream) count;
                   error = (if read_bytes < count then Some Invalid_Stream_Operation else None);
                   stream = stream\<lparr>st_base := if error \<noteq> None \<or> count = 0 then None else Some bytes\<rparr>;
                   stream = stream\<lparr>st_cursor := (case st_base stream of None \<Rightarrow> None | Some _ \<Rightarrow> Some 0)\<rparr>;
                   stream = stream\<lparr>st_limit := (case st_cursor stream of None \<Rightarrow> 0 | Some c \<Rightarrow> c + count)\<rparr>
               in (error, stream\<lparr>st_pos := add64 (st_pos stream) read_bytes\<rparr>)
      | None \<Rightarrow>
          if st_pos stream \<ge> st_size stream \<or> st_size stream - st_pos stream < count
          then (Some Invalid_Stream_Operation, stream)
          else (None, stream\<lparr>st_cursor := Some (st_pos stream), st_limit := st_pos stream + count,
                        st_pos := st_pos stream + count\<rparr>))"

definition FT_Stream_ExitFrame :: "FT_StreamRec \<Rightarrow> FT_StreamRec" where
  "FT_Stream_ExitFrame stream =
     (let stream = (if st_read stream \<noteq> None then stream\<lparr>st_base := None\<rparr> else stream)
      in stream\<lparr>st_cursor := None, st_limit := 0\<rparr>)"

text \<open>The frame as the block it starts in and its offset there; the block stays allocated.\<close>

definition FT_Stream_ExtractFrame ::
    "bool \<Rightarrow> nat \<Rightarrow> FT_StreamRec \<Rightarrow> (ft_error option \<times> (bytes \<times> nat) option) \<times> FT_StreamRec" where
  "FT_Stream_ExtractFrame granted count stream =
     (let (error, stream) = FT_Stream_EnterFrame granted count stream
      in if error = None
         then ((None, case (st_base stream, st_cursor stream) of (Some b, Some c) \<Rightarrow> Some (b, c) | _ \<Rightarrow> None),
               stream\<lparr>st_cursor := None, st_limit := 0\<rparr>)
         else ((error, None), stream))"

text \<open>A value of the frame, \<open>n\<close> bytes long; 0 when the frame has not that many left.\<close>

definition frame_value ::
    "nat \<Rightarrow> (bytes \<Rightarrow> nat \<Rightarrow> nat option) \<Rightarrow> FT_StreamRec \<Rightarrow> (nat \<times> FT_StreamRec) option" where
  "frame_value n peek stream =
     (case st_cursor stream of
        None \<Rightarrow> Some (0, stream)
      | Some p \<Rightarrow>
          if p + (n - 1) < st_limit stream
          then do {
            base \<leftarrow> st_base stream;
            result \<leftarrow> peek base p;
            Some (result, stream\<lparr>st_cursor := Some (p + n)\<rparr>)
          }
          else Some (0, stream))"

definition FT_Stream_GetByte where "FT_Stream_GetByte = frame_value 1 peek_byte"
definition FT_Stream_GetUShort where "FT_Stream_GetUShort = frame_value 2 peek_ushort"
definition FT_Stream_GetUShortLE where "FT_Stream_GetUShortLE = frame_value 2 peek_ushort_le"
definition FT_Stream_GetUOffset where "FT_Stream_GetUOffset = frame_value 3 peek_uoff3"
definition FT_Stream_GetULong where "FT_Stream_GetULong = frame_value 4 peek_ulong"
definition FT_Stream_GetULongLE where "FT_Stream_GetULongLE = frame_value 4 peek_ulong_le"

text \<open>A value at the position, \<open>n\<close> bytes long. A memory stream without a block reads 0 at its start.\<close>

definition stream_value ::
    "nat \<Rightarrow> (bytes \<Rightarrow> nat \<Rightarrow> nat option) \<Rightarrow> FT_StreamRec \<Rightarrow> ((ft_error option \<times> nat) \<times> FT_StreamRec) option" where
  "stream_value n peek stream =
     (if add64 (st_pos stream) (n - 1) < st_size stream
      then (case st_read stream of
              Some io \<Rightarrow>
                let (r, reads) = io (st_pos stream) n
                in if r \<noteq> n then Some ((Some Invalid_Stream_Operation, 0), stream)
                   else do {
                     result \<leftarrow> peek reads 0;
                     Some ((None, result), stream\<lparr>st_pos := add64 (st_pos stream) n\<rparr>)
                   }
            | None \<Rightarrow> do {
                result \<leftarrow> (case st_base stream of
                             None \<Rightarrow> if st_pos stream = 0 then Some 0 else None
                           | Some base \<Rightarrow> peek base (st_pos stream));
                Some ((None, result), stream\<lparr>st_pos := add64 (st_pos stream) n\<rparr>)
              })
      else Some ((Some Invalid_Stream_Operation, 0), stream))"

definition FT_Stream_ReadByte :: "FT_StreamRec \<Rightarrow> ((ft_error option \<times> nat) \<times> FT_StreamRec) option" where
  "FT_Stream_ReadByte stream =
     (if st_pos stream < st_size stream
      then (case st_read stream of
              Some io \<Rightarrow>
                let (r, reads) = io (st_pos stream) 1
                in if r \<noteq> 1 then Some ((Some Invalid_Stream_Operation, case reads of [] \<Rightarrow> 0 | b # _ \<Rightarrow> unat b), stream)
                   else do {
                     result \<leftarrow> peek_byte reads 0;
                     Some ((None, result), stream\<lparr>st_pos := add64 (st_pos stream) 1\<rparr>)
                   }
            | None \<Rightarrow> do {
                base \<leftarrow> st_base stream;
                result \<leftarrow> peek_byte base (st_pos stream);
                Some ((None, result), stream\<lparr>st_pos := add64 (st_pos stream) 1\<rparr>)
              })
      else Some ((Some Invalid_Stream_Operation, 0), stream))"

definition FT_Stream_ReadUShort where "FT_Stream_ReadUShort = stream_value 2 peek_ushort"
definition FT_Stream_ReadUShortLE where "FT_Stream_ReadUShortLE = stream_value 2 peek_ushort_le"
definition FT_Stream_ReadUOffset where "FT_Stream_ReadUOffset = stream_value 3 peek_uoff3"
definition FT_Stream_ReadULong where "FT_Stream_ReadULong = stream_value 4 peek_ulong"
definition FT_Stream_ReadULongLE where "FT_Stream_ReadULongLE = stream_value 4 peek_ulong_le"

subsection \<open>Structured reading\<close>

datatype FT_Frame_Op =
    ft_frame_end | ft_frame_start | ft_frame_byte | ft_frame_schar
  | ft_frame_ushort_be | ft_frame_short_be | ft_frame_ushort_le | ft_frame_short_le
  | ft_frame_ulong_be | ft_frame_long_be | ft_frame_ulong_le | ft_frame_long_le
  | ft_frame_uoff3_be | ft_frame_off3_be | ft_frame_uoff3_le | ft_frame_off3_le
  | ft_frame_bytes | ft_frame_skip

record FT_Frame_Field =
  fld_value :: FT_Frame_Op
  fld_size :: nat
  fld_offset :: nat

text \<open>What is written to the structure: at an offset, a number of some width, or bytes.\<close>

datatype field_store = Store_value nat nat nat | Store_bytes nat bytes

text \<open>The reader of a numeric field, the bytes it takes, \<open>sign_shift\<close>, and the \<open>FT_FRAME_OP_SIGNED\<close> bit.\<close>

fun frame_reader :: "FT_Frame_Op \<Rightarrow> ((bytes \<Rightarrow> nat \<Rightarrow> nat option) \<times> nat \<times> nat \<times> bool) option" where
  "frame_reader ft_frame_byte = Some (peek_byte, 1, 24, False)"
| "frame_reader ft_frame_schar = Some (peek_byte, 1, 24, True)"
| "frame_reader ft_frame_short_be = Some (peek_ushort, 2, 16, True)"
| "frame_reader ft_frame_ushort_be = Some (peek_ushort, 2, 16, False)"
| "frame_reader ft_frame_short_le = Some (peek_ushort_le, 2, 16, True)"
| "frame_reader ft_frame_ushort_le = Some (peek_ushort_le, 2, 16, False)"
| "frame_reader ft_frame_long_be = Some (peek_ulong, 4, 0, True)"
| "frame_reader ft_frame_ulong_be = Some (peek_ulong, 4, 0, False)"
| "frame_reader ft_frame_long_le = Some (peek_ulong_le, 4, 0, True)"
| "frame_reader ft_frame_ulong_le = Some (peek_ulong_le, 4, 0, False)"
| "frame_reader ft_frame_off3_be = Some (peek_uoff3, 3, 8, True)"
| "frame_reader ft_frame_uoff3_be = Some (peek_uoff3, 3, 8, False)"
| "frame_reader ft_frame_off3_le = Some (peek_uoff3_le, 3, 8, True)"
| "frame_reader ft_frame_uoff3_le = Some (peek_uoff3_le, 3, 8, False)"
| "frame_reader _ = None"

definition field_signed :: "nat \<Rightarrow> nat \<Rightarrow> nat" where
  "field_signed sign_shift value = nat (u64 (s32 (int value * 2 ^ sign_shift) div 2 ^ sign_shift))"

text \<open>The store through \<open>p\<close>, by the size of the field.\<close>

definition field_stored :: "FT_Frame_Field \<Rightarrow> nat \<Rightarrow> field_store" where
  "field_stored f value =
     (if fld_size f = 1 then Store_value (fld_offset f) 1 (value mod 256)
      else if fld_size f = 2 then Store_value (fld_offset f) 2 (value mod 65536)
      else if fld_size f = 4 then Store_value (fld_offset f) 4 (value mod 4294967296)
      else Store_value (fld_offset f) 8 value)"

text \<open>\<open>FT_ULong\<close> difference of two pointers, \<open>NULL\<close> at 0.\<close>

definition frame_left :: "FT_StreamRec \<Rightarrow> nat option \<Rightarrow> nat" where
  "frame_left stream cursor = nat (u64 (int (st_limit stream) - int (case cursor of None \<Rightarrow> 0 | Some c \<Rightarrow> c)))"

definition fields_exit :: "bool \<Rightarrow> FT_StreamRec \<Rightarrow> FT_StreamRec" where
  "fields_exit frame_accessed stream = (if frame_accessed then FT_Stream_ExitFrame stream else stream)"

text \<open>The loop over the fields; the array has no entry after its last one.\<close>

fun fields_loop ::
    "bool \<Rightarrow> FT_Frame_Field list \<Rightarrow> bool \<Rightarrow> nat option \<Rightarrow> field_store list \<Rightarrow> FT_StreamRec \<Rightarrow>
     ((ft_error option \<times> field_store list) \<times> FT_StreamRec) option" where
  "fields_loop granted [] accessed cursor out stream = None"
| "fields_loop granted (f # fs) accessed cursor out stream =
     (if fld_value f = ft_frame_start
      then let (error, stream) = FT_Stream_EnterFrame granted (fld_offset f) stream
           in if error \<noteq> None then Some ((error, out), fields_exit accessed stream)
              else fields_loop granted fs True (st_cursor stream) out stream
      else if fld_value f = ft_frame_bytes \<or> fld_value f = ft_frame_skip
      then if fld_size f > frame_left stream cursor
           then Some ((Some Invalid_Stream_Operation, out), fields_exit accessed stream)
           else if fld_size f = 0
           then fields_loop granted fs accessed cursor
                  (if fld_value f = ft_frame_bytes then out @ [Store_bytes (fld_offset f) []] else out) stream
           else do {
             c \<leftarrow> cursor;
             out \<leftarrow> (if fld_value f = ft_frame_bytes
                    then do {
                      base \<leftarrow> st_base stream;
                      b \<leftarrow> copy_bytes base c (fld_size f);
                      Some (out @ [Store_bytes (fld_offset f) b])
                    }
                    else Some out);
             fields_loop granted fs accessed (Some (c + fld_size f)) out stream
           }
      else (case frame_reader (fld_value f) of
              None \<Rightarrow> Some ((None, out), fields_exit accessed (stream\<lparr>st_cursor := cursor\<rparr>))
            | Some (peek, n, sign_shift, is_signed) \<Rightarrow> do {
                c \<leftarrow> cursor;
                base \<leftarrow> st_base stream;
                value \<leftarrow> peek base c;
                let value = (if is_signed then field_signed sign_shift value else value);
                fields_loop granted fs accessed (Some (c + n)) (out @ [field_stored f value]) stream
              }))"

definition FT_Stream_ReadFields ::
    "bool \<Rightarrow> FT_Frame_Field list \<Rightarrow> FT_StreamRec \<Rightarrow> ((ft_error option \<times> field_store list) \<times> FT_StreamRec) option" where
  "FT_Stream_ReadFields granted fs stream = fields_loop granted fs False (st_cursor stream) [] stream"

section \<open>Two kinds of streams\<close>

text \<open>What \<open>freetype.h\<close> asks of a callback, for a file \<open>f\<close>: as many bytes as there are, and a seek to
  any position up to the end.\<close>

definition serves :: "bytes \<Rightarrow> FT_Stream_IoFunc \<Rightarrow> bool" where
  "serves f io \<longleftrightarrow>
     (\<forall>pos count. 0 < count \<longrightarrow> io pos count = (length (take count (drop pos f)), take count (drop pos f))) \<and>
     (\<forall>pos. snd (io pos 0) = [] \<and> (fst (io pos 0) = 0 \<longleftrightarrow> pos \<le> length f))"

definition file_io :: "bytes \<Rightarrow> FT_Stream_IoFunc" where
  "file_io f pos count =
     (if count = 0 then (if pos \<le> length f then 0 else 1, [])
      else (length (take count (drop pos f)), take count (drop pos f)))"

lemma file_io_serves: "serves f (file_io f)"
  by (simp add: serves_def file_io_def)

definition open_callback :: "FT_Stream_IoFunc \<Rightarrow> nat \<Rightarrow> FT_StreamRec" where
  "open_callback io n =
     \<lparr>st_base = None, st_size = n, st_pos = 0, st_cursor = None, st_limit = 0, st_read = Some io\<rparr>"

text \<open>The frames agree: none, or the same bytes, at an offset \<open>st\<close> of the file and in a block of their own.\<close>

definition frames_agree :: "bytes \<Rightarrow> FT_StreamRec \<Rightarrow> FT_StreamRec \<Rightarrow> bool" where
  "frames_agree f s m \<longleftrightarrow>
     (st_cursor s = None \<and> st_cursor m = None) \<or>
     (\<exists>b st c. st_base s = Some b \<and> b = take (length b) (drop st f) \<and> st + length b \<le> length f \<and> c \<le> length b \<and>
        st_cursor s = Some c \<and> st_limit s = length b \<and> st_cursor m = Some (st + c) \<and> st_limit m = st + length b)"

definition same_stream :: "bytes \<Rightarrow> FT_StreamRec \<Rightarrow> FT_StreamRec \<Rightarrow> bool" where
  "same_stream f s m \<longleftrightarrow>
     length f < 9223372036854775808 \<and>
     (\<exists>io. st_read s = Some io \<and> serves f io) \<and> st_read m = None \<and> st_base m = Some f \<and>
     st_size s = length f \<and> st_size m = length f \<and> st_pos s = st_pos m \<and> st_pos m \<le> length f \<and> frames_agree f s m"

text \<open>The operations a font driver calls, and their results.\<close>

datatype stream_op =
    Op_seek nat | Op_skip int | Op_read nat | Op_read_at nat nat | Op_try_read nat | Op_enter nat | Op_exit
  | Op_get_byte | Op_get_ushort | Op_get_ushort_le | Op_get_uoffset | Op_get_ulong | Op_get_ulong_le
  | Op_read_byte | Op_read_ushort | Op_read_ushort_le | Op_read_uoffset | Op_read_ulong | Op_read_ulong_le

type_synonym stream_result = "ft_error option \<times> nat \<times> bytes"

definition of_value :: "(nat \<times> FT_StreamRec) option \<Rightarrow> (stream_result \<times> FT_StreamRec) option" where
  "of_value = map_option (\<lambda>(v, s). ((None, v, []), s))"

definition of_result :: "((ft_error option \<times> nat) \<times> FT_StreamRec) option \<Rightarrow> (stream_result \<times> FT_StreamRec) option" where
  "of_result = map_option (\<lambda>((e, v), s). ((e, if e = None then v else 0, []), s))"

definition of_read :: "((ft_error option \<times> bytes) \<times> FT_StreamRec) option \<Rightarrow> (stream_result \<times> FT_StreamRec) option" where
  "of_read = map_option (\<lambda>((e, b), s). ((e, 0, if e = None then b else []), s))"

definition of_error :: "ft_error option \<times> FT_StreamRec \<Rightarrow> (stream_result \<times> FT_StreamRec) option" where
  "of_error = (\<lambda>(e, s). Some ((e, 0, []), s))"

fun stream_apply :: "stream_op \<Rightarrow> FT_StreamRec \<Rightarrow> (stream_result \<times> FT_StreamRec) option" where
  "stream_apply (Op_seek p) s = of_error (FT_Stream_Seek p s)"
| "stream_apply (Op_skip d) s = of_error (FT_Stream_Skip d s)"
| "stream_apply (Op_read n) s = of_read (FT_Stream_Read n s)"
| "stream_apply (Op_read_at p n) s = of_read (FT_Stream_ReadAt p n s)"
| "stream_apply (Op_try_read n) s = map_option (\<lambda>((n, b), s). ((None, n, b), s)) (FT_Stream_TryRead n s)"
| "stream_apply (Op_enter n) s = of_error (FT_Stream_EnterFrame True n s)"
| "stream_apply Op_exit s = Some ((None, 0, []), FT_Stream_ExitFrame s)"
| "stream_apply Op_get_byte s = of_value (FT_Stream_GetByte s)"
| "stream_apply Op_get_ushort s = of_value (FT_Stream_GetUShort s)"
| "stream_apply Op_get_ushort_le s = of_value (FT_Stream_GetUShortLE s)"
| "stream_apply Op_get_uoffset s = of_value (FT_Stream_GetUOffset s)"
| "stream_apply Op_get_ulong s = of_value (FT_Stream_GetULong s)"
| "stream_apply Op_get_ulong_le s = of_value (FT_Stream_GetULongLE s)"
| "stream_apply Op_read_byte s = of_result (FT_Stream_ReadByte s)"
| "stream_apply Op_read_ushort s = of_result (FT_Stream_ReadUShort s)"
| "stream_apply Op_read_ushort_le s = of_result (FT_Stream_ReadUShortLE s)"
| "stream_apply Op_read_uoffset s = of_result (FT_Stream_ReadUOffset s)"
| "stream_apply Op_read_ulong s = of_result (FT_Stream_ReadULong s)"
| "stream_apply Op_read_ulong_le s = of_result (FT_Stream_ReadULongLE s)"

text \<open>A client that gives up at the first error: the results so far, or \<open>None\<close> after a stray access.\<close>

fun stream_run :: "stream_op list \<Rightarrow> FT_StreamRec \<Rightarrow> stream_result list option" where
  "stream_run [] s = Some []"
| "stream_run (p # ps) s = do {
     (r, s) \<leftarrow> stream_apply p s;
     if fst r \<noteq> None then Some [r] else map_option (Cons r) (stream_run ps s)
   }"

section \<open>Agreement\<close>

text \<open>A reader of \<open>n\<close> bytes reads the same out of a copy of the bytes, and nothing else.\<close>

definition reads :: "nat \<Rightarrow> (bytes \<Rightarrow> nat \<Rightarrow> nat option) \<Rightarrow> bool" where
  "reads n peek \<longleftrightarrow> 0 < n \<and>
     (\<forall>f p q b. p + n \<le> length f \<and> q + n \<le> length b \<and> take n (drop q b) = take n (drop p f) \<longrightarrow>
        peek b q = peek f p \<and> peek f p \<noteq> None)"

lemma u8_same:
  assumes "take n (drop q b) = take n (drop p f)" "p + n \<le> length f" "q + n \<le> length b" "i < n"
  shows "u8 b (q + i) = u8 f (p + i)"
proof -
  have "take n (drop q b) ! i = take n (drop p f) ! i" using assms(1) by simp
  then show ?thesis using assms(2-4) by (simp add: u8_def)
qed

lemma u_sums:
  "u16 t p = 256 * u8 t p + u8 t (p + 1)" "u24 t p = 65536 * u8 t p + 256 * u8 t (p + 1) + u8 t (p + 2)"
  "u32 t p = 16777216 * u8 t p + 65536 * u8 t (p + 1) + 256 * u8 t (p + 2) + u8 t (p + 3)"
  by (simp_all add: u16_def u24_def u32_def u8_def)

lemma readsI:
  assumes "0 < n"
    and "\<And>f p q b. p + n \<le> length f \<Longrightarrow> q + n \<le> length b \<Longrightarrow> (\<And>i. i < n \<Longrightarrow> u8 b (q + i) = u8 f (p + i)) \<Longrightarrow>
      peek b q = peek f p \<and> peek f p \<noteq> None"
  shows "reads n peek"
  unfolding reads_def using assms(1)
proof (intro conjI allI impI, simp)
  fix f b :: bytes and p q assume a: "p + n \<le> length f \<and> q + n \<le> length b \<and> take n (drop q b) = take n (drop p f)"
  have "peek b q = peek f p \<and> peek f p \<noteq> None"
    by (rule assms(2)) (use a u8_same [of n q b p f] in auto)
  then show "peek b q = peek f p" "peek f p \<noteq> None" by blast+
qed

lemma reads_peek:
  "reads 1 peek_byte" "reads 2 peek_ushort" "reads 2 peek_ushort_le" "reads 3 peek_uoff3"
  "reads 4 peek_ulong" "reads 4 peek_ulong_le"
proof -
  show "reads 1 peek_byte"
  proof (rule readsI)
    fix f b :: bytes and p q assume l: "p + 1 \<le> length f" "q + 1 \<le> length b"
      and e: "\<And>i. i < 1 \<Longrightarrow> u8 b (q + i) = u8 f (p + i)"
    show "peek_byte b q = peek_byte f p \<and> peek_byte f p \<noteq> None"
      using l e [of 0] by (simp add: peek_byte_def)
  qed simp
  show "reads 2 peek_ushort"
  proof (rule readsI)
    fix f b :: bytes and p q assume l: "p + 2 \<le> length f" "q + 2 \<le> length b"
      and e: "\<And>i. i < 2 \<Longrightarrow> u8 b (q + i) = u8 f (p + i)"
    show "peek_ushort b q = peek_ushort f p \<and> peek_ushort f p \<noteq> None"
      using l e [of 0] e [of 1] by (simp add: peek_ushort_def u_sums)
  qed simp
  show "reads 2 peek_ushort_le"
  proof (rule readsI)
    fix f b :: bytes and p q assume l: "p + 2 \<le> length f" "q + 2 \<le> length b"
      and e: "\<And>i. i < 2 \<Longrightarrow> u8 b (q + i) = u8 f (p + i)"
    show "peek_ushort_le b q = peek_ushort_le f p \<and> peek_ushort_le f p \<noteq> None"
      using l e [of 0] e [of 1] by (simp add: peek_ushort_le_def)
  qed simp
  show "reads 3 peek_uoff3"
  proof (rule readsI)
    fix f b :: bytes and p q assume l: "p + 3 \<le> length f" "q + 3 \<le> length b"
      and e: "\<And>i. i < 3 \<Longrightarrow> u8 b (q + i) = u8 f (p + i)"
    show "peek_uoff3 b q = peek_uoff3 f p \<and> peek_uoff3 f p \<noteq> None"
      using l e [of 0] e [of 1] e [of 2] by (simp add: peek_uoff3_def u_sums)
  qed simp
  show "reads 4 peek_ulong"
  proof (rule readsI)
    fix f b :: bytes and p q assume l: "p + 4 \<le> length f" "q + 4 \<le> length b"
      and e: "\<And>i. i < 4 \<Longrightarrow> u8 b (q + i) = u8 f (p + i)"
    show "peek_ulong b q = peek_ulong f p \<and> peek_ulong f p \<noteq> None"
      using l e [of 0] e [of 1] e [of 2] e [of 3] by (simp add: peek_ulong_def u_sums)
  qed simp
  show "reads 4 peek_ulong_le"
  proof (rule readsI)
    fix f b :: bytes and p q assume l: "p + 4 \<le> length f" "q + 4 \<le> length b"
      and e: "\<And>i. i < 4 \<Longrightarrow> u8 b (q + i) = u8 f (p + i)"
    show "peek_ulong_le b q = peek_ulong_le f p \<and> peek_ulong_le f p \<noteq> None"
      using l e [of 0] e [of 1] e [of 2] e [of 3] by (simp add: peek_ulong_le_def)
  qed simp
qed

lemma readsD:
  "reads n peek \<Longrightarrow> p + n \<le> length f \<Longrightarrow> q + n \<le> length b \<Longrightarrow> take n (drop q b) = take n (drop p f) \<Longrightarrow>
   peek b q = peek f p \<and> peek f p \<noteq> None"
  unfolding reads_def by blast

lemma add64_small: "a + b < 18446744073709551616 \<Longrightarrow> add64 a b = a + b"
  by (simp add: add64_def)

lemma serves_read: "serves f io \<Longrightarrow> 0 < n \<Longrightarrow> io p n = (length (take n (drop p f)), take n (drop p f))"
  by (simp add: serves_def)

lemma serves_seek: "serves f io \<Longrightarrow> fst (io p 0) = 0 \<longleftrightarrow> p \<le> length f" "serves f io \<Longrightarrow> snd (io p 0) = []"
  unfolding serves_def by blast+

lemma take_length_take: "take (length (take n xs)) xs = take n xs"
  by (simp add: min_def)

lemma copy_rest: "p + length (take n (drop p f)) \<le> length f \<Longrightarrow> copy_bytes f p (length (take n (drop p f))) = Some (take n (drop p f))"
  unfolding copy_bytes_def by (simp only: if_True take_length_take)

text \<open>Both streams give the same result, and agree again unless it is an error.\<close>

definition steps_agree ::
    "bytes \<Rightarrow> (stream_result \<times> FT_StreamRec) option \<Rightarrow> (stream_result \<times> FT_StreamRec) option \<Rightarrow> bool" where
  "steps_agree f a b \<longleftrightarrow>
     (\<exists>r s m. a = Some (r, s) \<and> b = Some (r, m) \<and> (fst r = None \<longrightarrow> same_stream f s m))"

lemma same_streamE:
  assumes "same_stream f s m"
  obtains io where "st_read s = Some io" "serves f io" "st_read m = None" "st_base m = Some f"
    "st_size s = length f" "st_size m = length f" "st_pos s = st_pos m" "st_pos m \<le> length f"
    "frames_agree f s m" "length f < 9223372036854775808"
  using assms by (auto simp: same_stream_def)

lemma same_stream_pos:
  "same_stream f s m \<Longrightarrow> p \<le> length f \<Longrightarrow> same_stream f (s\<lparr>st_pos := p\<rparr>) (m\<lparr>st_pos := p\<rparr>)"
  by (simp add: same_stream_def frames_agree_def)

lemma seek_agree:
  assumes "same_stream f s m"
  shows "steps_agree f (of_error (FT_Stream_Seek p s)) (of_error (FT_Stream_Seek p m))"
proof -
  obtain io where io: "st_read s = Some io" "serves f io" "st_read m = None" "st_size m = length f"
    using assms by (rule same_streamE)
  show ?thesis
    using same_stream_pos [OF assms, of p] serves_seek [OF io(2), of p] io
    by (auto simp: steps_agree_def of_error_def FT_Stream_Seek_def Let_def)
qed

lemma skip_agree:
  assumes "same_stream f s m"
  shows "steps_agree f (of_error (FT_Stream_Skip d s)) (of_error (FT_Stream_Skip d m))"
proof (cases "d < 0")
  case True
  then show ?thesis by (simp add: steps_agree_def of_error_def FT_Stream_Skip_def)
next
  case False
  have "st_pos s = st_pos m" using assms by (simp add: same_stream_def)
  then show ?thesis using seek_agree [OF assms] False by (simp add: FT_Stream_Skip_def)
qed

lemma read_at_agree:
  assumes "same_stream f s m"
  shows "steps_agree f (of_read (FT_Stream_ReadAt p n s)) (of_read (FT_Stream_ReadAt p n m))"
proof -
  obtain io where io: "st_read s = Some io" "serves f io" "st_read m = None" "st_base m = Some f"
    "st_size s = length f" "st_size m = length f" "length f < 9223372036854775808"
    using assms by (rule same_streamE)
  show ?thesis
  proof (cases "p < length f")
    case False
    then show ?thesis using io by (simp add: steps_agree_def of_read_def FT_Stream_ReadAt_def)
  next
    case True
    let ?b = "take n (drop p f)"
    have pos: "add64 p (length ?b) = p + length ?b" "p + length ?b \<le> length f"
      using True io(7) by (auto intro!: add64_small)
    show ?thesis
    proof (cases "n = 0")
      case True0: True
      have "io p 0 = (0, [])" using serves_seek [OF io(2), of p] True by (cases "io p 0") simp
      then show ?thesis
        using True0 True io same_stream_pos [OF assms pos(2)] pos(1)
        by (simp add: steps_agree_def of_read_def FT_Stream_ReadAt_def)
    next
      case False
      have c: "(if length f - p > n then n else length f - p) = length ?b" by simp
      have "copy_bytes f p (length ?b) = Some ?b" using pos(2) by (rule copy_rest)
      then show ?thesis
        using False True io serves_read [OF io(2), of n p] same_stream_pos [OF assms pos(2)] pos(1) c
        by (simp add: steps_agree_def of_read_def FT_Stream_ReadAt_def Let_def del: length_take)
    qed
  qed
qed

lemma try_read_agree:
  assumes "same_stream f s m"
  shows "steps_agree f (stream_apply (Op_try_read n) s) (stream_apply (Op_try_read n) m)"
proof -
  obtain io where io: "st_read s = Some io" "serves f io" "st_read m = None" "st_base m = Some f"
    "st_size s = length f" "st_size m = length f" "st_pos s = st_pos m" "length f < 9223372036854775808"
    using assms by (rule same_streamE)
  let ?p = "st_pos m"
  show ?thesis
  proof (cases "?p < length f")
    case False
    then show ?thesis using io assms by (simp add: steps_agree_def FT_Stream_TryRead_def)
  next
    case True
    let ?b = "take n (drop ?p f)"
    have pos: "add64 ?p (length ?b) = ?p + length ?b" "?p + length ?b \<le> length f"
      using True io(8) by (auto intro!: add64_small)
    show ?thesis
    proof (cases "n = 0")
      case True0: True
      have "io ?p 0 = (0, [])" using serves_seek [OF io(2), of ?p] True by (cases "io ?p 0") simp
      then show ?thesis
        using True0 True io same_stream_pos [OF assms pos(2)] pos(1)
        by (simp add: steps_agree_def FT_Stream_TryRead_def)
    next
      case False
      have c: "(if length f - ?p > n then n else length f - ?p) = length ?b" by simp
      have "copy_bytes f ?p (length ?b) = Some ?b" using pos(2) by (rule copy_rest)
      then show ?thesis
        using False True io serves_read [OF io(2), of n ?p] same_stream_pos [OF assms pos(2)] pos(1) c
        by (simp add: steps_agree_def FT_Stream_TryRead_def Let_def del: length_take)
    qed
  qed
qed

lemma enter_agree:
  assumes "same_stream f s m" "0 < n"
  shows "steps_agree f (of_error (FT_Stream_EnterFrame True n s)) (of_error (FT_Stream_EnterFrame True n m))"
proof -
  obtain io where io: "st_read s = Some io" "serves f io" "st_read m = None" "st_base m = Some f"
    "st_size s = length f" "st_size m = length f" "st_pos s = st_pos m" "st_pos m \<le> length f"
    "length f < 9223372036854775808"
    using assms(1) by (rule same_streamE)
  let ?p = "st_pos m" let ?b = "take n (drop ?p f)"
  note r = serves_read [OF io(2) assms(2), of ?p]
  show ?thesis
  proof (cases "?p + n \<le> length f")
    case True
    have lb: "length ?b = n" using True by simp
    have fr: "?b = take (length ?b) (drop ?p f)" unfolding lb ..
    have a: "add64 ?p n = ?p + n" using True io(9) by (intro add64_small) linarith
    let ?s = "s\<lparr>st_base := Some ?b, st_cursor := Some 0, st_limit := n, st_pos := ?p + n\<rparr>"
    let ?m = "m\<lparr>st_cursor := Some ?p, st_limit := ?p + n, st_pos := ?p + n\<rparr>"
    have "FT_Stream_EnterFrame True n s = (None, ?s)" using True io r assms(2) a
      by (simp add: FT_Stream_EnterFrame_def Let_def)
    moreover have "FT_Stream_EnterFrame True n m = (None, ?m)" using True io assms(2) by (simp add: FT_Stream_EnterFrame_def)
    moreover have "frames_agree f ?s ?m" unfolding frames_agree_def
      using fr lb True by (intro disjI2 exI [of _ ?b] exI [of _ ?p] exI [of _ 0]) simp
    ultimately show ?thesis using io True by (simp add: steps_agree_def of_error_def same_stream_def)
  next
    case False
    then have "fst (FT_Stream_EnterFrame True n m) = Some Invalid_Stream_Operation" using io by (auto simp: FT_Stream_EnterFrame_def)
    moreover have "fst (FT_Stream_EnterFrame True n s) = Some Invalid_Stream_Operation"
      using False io r assms(2) by (auto simp: FT_Stream_EnterFrame_def Let_def)
    ultimately show ?thesis
      by (cases "FT_Stream_EnterFrame True n s"; cases "FT_Stream_EnterFrame True n m") (simp add: steps_agree_def of_error_def)
  qed
qed

lemma exit_agree: "same_stream f s m \<Longrightarrow> same_stream f (FT_Stream_ExitFrame s) (FT_Stream_ExitFrame m)"
  by (auto simp: same_stream_def FT_Stream_ExitFrame_def frames_agree_def)

lemma frame_value_agree:
  assumes "same_stream f s m" "reads n peek"
  shows "steps_agree f (of_value (frame_value n peek s)) (of_value (frame_value n peek m))"
proof -
  have fa: "frames_agree f s m" and m: "st_base m = Some f" using assms(1) by (auto simp: same_stream_def)
  have n: "0 < n" using assms(2) by (simp add: reads_def)
  show ?thesis
  proof (cases "st_cursor s")
    case None
    then have "st_cursor m = None" using fa by (auto simp: frames_agree_def)
    then show ?thesis using None assms(1) by (simp add: steps_agree_def of_value_def frame_value_def)
  next
    case (Some c)
    then obtain b st where b: "st_base s = Some b" "b = take (length b) (drop st f)" "st + length b \<le> length f"
      "c \<le> length b" "st_limit s = length b" "st_cursor m = Some (st + c)" "st_limit m = st + length b"
      using fa by (auto simp: frames_agree_def)
    show ?thesis
    proof (cases "c + n \<le> length b")
      case True
      have "take n (drop c b) = take n (drop (st + c) f)"
      proof -
        have "take n (drop c b) = take n (drop c (take (length b) (drop st f)))" using b(2) by simp
        also have "\<dots> = take n (drop (st + c) f)" using True by (simp add: drop_take min_def add.commute)
        finally show ?thesis .
      qed
      then have v: "peek b c = peek f (st + c)" "peek f (st + c) \<noteq> None"
        using assms(2) True b(3) unfolding reads_def by auto
      then obtain x where x: "peek f (st + c) = Some x" by blast
      have "frames_agree f (s\<lparr>st_cursor := Some (c + n)\<rparr>) (m\<lparr>st_cursor := Some (st + c + n)\<rparr>)"
        unfolding frames_agree_def using b True
        by (intro disjI2 exI [of _ b] exI [of _ st] exI [of _ "c + n"]) simp
      then have "same_stream f (s\<lparr>st_cursor := Some (c + n)\<rparr>) (m\<lparr>st_cursor := Some (st + c + n)\<rparr>)"
        using assms(1) by (simp add: same_stream_def)
      moreover have lim: "c + (n - 1) < length b" "st + c + (n - 1) < st + length b" using True n by linarith+
      have "frame_value n peek s = Some (x, s\<lparr>st_cursor := Some (c + n)\<rparr>)"
        using lim(1) Some b(1,5) v(1) x by (simp add: frame_value_def)
      moreover have "frame_value n peek m = Some (x, m\<lparr>st_cursor := Some (st + c + n)\<rparr>)"
        unfolding frame_value_def b(6,7) m option.case if_P [OF lim(2)] by (simp add: x)
      ultimately show ?thesis by (simp add: steps_agree_def of_value_def)
    next
      case False
      then have lim: "\<not> c + (n - 1) < length b" "\<not> st + c + (n - 1) < st + length b" using n by linarith+
      then have "frame_value n peek s = Some (0, s)" "frame_value n peek m = Some (0, m)"
        unfolding frame_value_def b(6,7) m Some b(1,5) option.case by (simp_all only: if_False)
      then show ?thesis using assms(1) by (simp add: steps_agree_def of_value_def)
    qed
  qed
qed

lemma stream_value_agree:
  assumes "same_stream f s m" "reads n peek" "n \<le> 4"
  shows "steps_agree f (of_result (stream_value n peek s)) (of_result (stream_value n peek m))"
proof -
  obtain io where io: "st_read s = Some io" "serves f io" "st_read m = None" "st_base m = Some f"
    "st_size s = length f" "st_size m = length f" "st_pos s = st_pos m" "st_pos m \<le> length f"
    "length f < 9223372036854775808"
    using assms(1) by (rule same_streamE)
  let ?p = "st_pos m" let ?b = "take n (drop ?p f)"
  have n: "0 < n" using assms(2) by (simp add: reads_def)
  have a: "add64 ?p (n - 1) = ?p + (n - 1)" "add64 ?p n = ?p + n" using io(8,9) assms(3) by (simp_all add: add64_small)
  note r = serves_read [OF io(2) n, of ?p]
  show ?thesis
  proof (cases "?p + n \<le> length f")
    case True
    have lb: "length ?b = n" using True by simp
    have "take n (drop 0 ?b) = ?b" "0 + n \<le> length ?b" using lb by simp_all
    then have v: "peek ?b 0 = peek f ?p" "peek f ?p \<noteq> None" using readsD [OF assms(2) True] by blast+
    then obtain x where x: "peek f ?p = Some x" by blast
    have "same_stream f (s\<lparr>st_pos := ?p + n\<rparr>) (m\<lparr>st_pos := ?p + n\<rparr>)" by (rule same_stream_pos [OF assms(1) True])
    moreover have lim: "?p + (n - 1) < length f" using True n by linarith
    have r': "io ?p n = (n, ?b)" using r lb by simp
    have "stream_value n peek s = Some ((None, x), s\<lparr>st_pos := ?p + n\<rparr>)"
      unfolding stream_value_def io(1,5,7) a r' option.case if_P [OF lim] Let_def prod.case v(1) by (simp add: x)
    moreover have "stream_value n peek m = Some ((None, x), m\<lparr>st_pos := ?p + n\<rparr>)"
      unfolding stream_value_def io(3,4,6) a option.case if_P [OF lim] by (simp add: x)
    ultimately show ?thesis by (simp add: steps_agree_def of_result_def)
  next
    case False
    then have lim: "\<not> ?p + (n - 1) < length f" using n by linarith
    have "stream_value n peek s = Some ((Some Invalid_Stream_Operation, 0), s)"
      unfolding stream_value_def io(5,7) a if_not_P [OF lim] ..
    moreover have "stream_value n peek m = Some ((Some Invalid_Stream_Operation, 0), m)"
      unfolding stream_value_def io(6) a if_not_P [OF lim] ..
    ultimately show ?thesis by (simp add: steps_agree_def of_result_def)
  qed
qed

lemma read_byte_agree:
  assumes "same_stream f s m"
  shows "steps_agree f (of_result (FT_Stream_ReadByte s)) (of_result (FT_Stream_ReadByte m))"
proof -
  obtain io where io: "st_read s = Some io" "serves f io" "st_read m = None" "st_base m = Some f"
    "st_size s = length f" "st_size m = length f" "st_pos s = st_pos m" "length f < 9223372036854775808"
    using assms by (rule same_streamE)
  let ?p = "st_pos m" let ?b = "take 1 (drop ?p f)"
  note r = serves_read [OF io(2), of 1 ?p]
  show ?thesis
  proof (cases "?p < length f")
    case True
    have lb: "length ?b = 1" using True by simp
    have "u8 ?b 0 = u8 f ?p" using True by (simp add: u8_def)
    moreover have "add64 ?p 1 = ?p + 1" using True io(8) by (simp add: add64_small)
    moreover have "same_stream f (s\<lparr>st_pos := ?p + 1\<rparr>) (m\<lparr>st_pos := ?p + 1\<rparr>)"
      using True by (intro same_stream_pos [OF assms]) simp
    ultimately show ?thesis using True io r lb
      by (simp add: steps_agree_def of_result_def FT_Stream_ReadByte_def peek_byte_def)
  next
    case False
    then show ?thesis using io by (simp add: steps_agree_def of_result_def FT_Stream_ReadByte_def)
  qed
qed

lemma stream_apply_agree:
  assumes "same_stream f s m" "p \<noteq> Op_enter 0"
  shows "steps_agree f (stream_apply p s) (stream_apply p m)"
proof (cases p)
  case (Op_read n)
  have "st_pos s = st_pos m" using assms(1) by (simp add: same_stream_def)
  then show ?thesis using Op_read read_at_agree [OF assms(1)] by (simp add: FT_Stream_Read_def)
next
  case Op_exit
  then show ?thesis using exit_agree [OF assms(1)] by (simp add: steps_agree_def)
next
  case (Op_enter n)
  then show ?thesis using enter_agree [OF assms(1), of n] assms(2) by simp
next
  case (Op_try_read n)
  then show ?thesis using try_read_agree [OF assms(1)] by simp
qed (use seek_agree [OF assms(1)] skip_agree [OF assms(1)] read_at_agree [OF assms(1)] read_byte_agree [OF assms(1)]
    frame_value_agree [OF assms(1)] stream_value_agree [OF assms(1)] reads_peek in
    \<open>simp_all add: FT_Stream_GetByte_def FT_Stream_GetUShort_def FT_Stream_GetUShortLE_def FT_Stream_GetUOffset_def
      FT_Stream_GetULong_def FT_Stream_GetULongLE_def FT_Stream_ReadUShort_def FT_Stream_ReadUShortLE_def
      FT_Stream_ReadUOffset_def FT_Stream_ReadULong_def FT_Stream_ReadULongLE_def\<close>)

lemma stream_run_agree:
  assumes "same_stream f s m" "\<forall>p \<in> set ps. p \<noteq> Op_enter 0"
  shows "\<exists>rs. stream_run ps s = Some rs \<and> stream_run ps m = Some rs"
  using assms
proof (induction ps arbitrary: s m)
  case (Cons p ps)
  obtain r s' m' where r: "stream_apply p s = Some (r, s')" "stream_apply p m = Some (r, m')"
    "fst r = None \<longrightarrow> same_stream f s' m'"
    using stream_apply_agree [OF Cons.prems(1), of p] Cons.prems(2) unfolding steps_agree_def by auto
  show ?case
  proof (cases "fst r = None")
    case True
    then obtain rs where "stream_run ps s' = Some rs" "stream_run ps m' = Some rs"
      using Cons.IH [of s' m'] r(3) Cons.prems(2) by auto
    then show ?thesis using r True by simp
  next
    case False
    then show ?thesis using r by simp
  qed
qed simp

lemma same_stream_open:
  "serves f io \<Longrightarrow> length f < 9223372036854775808 \<Longrightarrow> same_stream f (open_callback io (length f)) (FT_Stream_OpenMemory f)"
  by (simp add: same_stream_def open_callback_def FT_Stream_OpenMemory_def frames_agree_def)

section \<open>Field tables\<close>

text \<open>A table of fields between a start and an end, decoded out of the file one after the other.\<close>

definition data_field :: "FT_Frame_Field \<Rightarrow> bool" where
  "data_field f \<longleftrightarrow> fld_value f \<noteq> ft_frame_start \<and> fld_value f \<noteq> ft_frame_end"

definition field_width :: "FT_Frame_Field \<Rightarrow> nat" where
  "field_width f =
     (if fld_value f = ft_frame_bytes \<or> fld_value f = ft_frame_skip then fld_size f
      else case frame_reader (fld_value f) of None \<Rightarrow> 0 | Some (peek, n, sign_shift, is_signed) \<Rightarrow> n)"

definition decode_field :: "bytes \<Rightarrow> nat \<Rightarrow> FT_Frame_Field \<Rightarrow> field_store list" where
  "decode_field t p f =
     (if fld_value f = ft_frame_bytes then [Store_bytes (fld_offset f) (take (fld_size f) (drop p t))]
      else case frame_reader (fld_value f) of
        None \<Rightarrow> []
      | Some (peek, n, sign_shift, is_signed) \<Rightarrow>
          [field_stored f (if is_signed then field_signed sign_shift (the (peek t p)) else the (peek t p))])"

fun decode_fields :: "FT_Frame_Field list \<Rightarrow> bytes \<Rightarrow> nat \<Rightarrow> field_store list" where
  "decode_fields [] t p = []"
| "decode_fields (f # fs) t p = decode_field t p f @ decode_fields fs t (p + field_width f)"

lemma frame_reader_reads:
  "frame_reader v = Some (peek, n, sign_shift, is_signed) \<Longrightarrow> p + n \<le> length t \<Longrightarrow> peek t p = Some (the (peek t p))"
  by (cases v) (auto simp: peek_defs peek_ushort_le_def peek_uoff3_le_def peek_ulong_le_def)

lemma frame_reader_None:
  "frame_reader v = None \<longleftrightarrow> v \<in> {ft_frame_end, ft_frame_start, ft_frame_bytes, ft_frame_skip}"
  by (cases v) simp_all

lemma frame_left_eq: "c \<le> st_limit m \<Longrightarrow> st_limit m < 9223372036854775808 \<Longrightarrow> frame_left m (Some c) = st_limit m - c"
  by (simp add: frame_left_def u64_id)

lemma field_step:
  assumes "st_base m = Some t" "st_limit m \<le> length t" "length t < 9223372036854775808"
    and "data_field f" "c + field_width f \<le> st_limit m"
  shows "fields_loop granted (f # fs) acc (Some c) out m =
    fields_loop granted fs acc (Some (c + field_width f)) (out @ decode_field t c f) m"
proof (cases "fld_value f = ft_frame_bytes \<or> fld_value f = ft_frame_skip")
  case True
  then have w: "field_width f = fld_size f" by (simp add: field_width_def)
  have l: "\<not> frame_left m (Some c) < fld_size f"
    using frame_left_eq [of c m] assms w by simp
  have "copy_bytes t c (fld_size f) = Some (take (fld_size f) (drop c t))" using assms w by (simp add: copy_bytes_def)
  then show ?thesis using True l w assms(1) by (auto simp: decode_field_def)
next
  case False
  then obtain peek n sh sg where r: "frame_reader (fld_value f) = Some (peek, n, sh, sg)"
    using assms(4) frame_reader_None [of "fld_value f"] by (cases "frame_reader (fld_value f)") (auto simp: data_field_def)
  then have w: "field_width f = n" using False by (simp add: field_width_def)
  have "peek t c = Some (the (peek t c))" by (rule frame_reader_reads [OF r]) (use assms w in linarith)
  then obtain v where v: "peek t c = Some v" by blast
  have "fld_value f \<noteq> ft_frame_start" using assms(4) by (simp add: data_field_def)
  then show ?thesis using False r w v assms(1) by (simp add: decode_field_def Let_def)
qed

lemma fields_loop_run:
  assumes "st_base m = Some t" "st_limit m \<le> length t" "length t < 9223372036854775808"
    and "\<forall>f \<in> set fs. data_field f" "c + sum_list (map field_width fs) \<le> st_limit m" "fld_value e = ft_frame_end"
  shows "fields_loop granted (fs @ [e]) True (Some c) out m =
    Some ((None, out @ decode_fields fs t c), FT_Stream_ExitFrame (m\<lparr>st_cursor := Some (c + sum_list (map field_width fs))\<rparr>))"
  using assms(4,5)
proof (induction fs arbitrary: c out)
  case Nil
  then show ?case using assms(6) by (simp add: fields_exit_def)
next
  case (Cons f fs)
  then have "fields_loop granted (f # (fs @ [e])) True (Some c) out m =
    fields_loop granted (fs @ [e]) True (Some (c + field_width f)) (out @ decode_field t c f) m"
    by (intro field_step [OF assms(1-3)]) auto
  then show ?case using Cons by (simp add: add.assoc del: fields_loop.simps)
qed

lemma read_fields_run:
  assumes "st_read m = None" "st_base m = Some t" "st_size m = length t" "length t < 9223372036854775808"
    and "fld_value s = ft_frame_start" "\<forall>f \<in> set fs. data_field f" "fld_value e = ft_frame_end"
    and "sum_list (map field_width fs) \<le> fld_offset s"
  shows "FT_Stream_ReadFields granted (s # fs @ [e]) m =
    (if st_pos m < length t \<and> st_pos m + fld_offset s \<le> length t
     then Some ((None, decode_fields fs t (st_pos m)),
                m\<lparr>st_pos := st_pos m + fld_offset s, st_cursor := None, st_limit := 0\<rparr>)
     else Some ((Some Invalid_Stream_Operation, []), m))"
proof (cases "st_pos m < length t \<and> st_pos m + fld_offset s \<le> length t")
  case True
  let ?m = "m\<lparr>st_cursor := Some (st_pos m), st_limit := st_pos m + fld_offset s, st_pos := st_pos m + fld_offset s\<rparr>"
  have "FT_Stream_EnterFrame granted (fld_offset s) m = (None, ?m)"
    using True assms(1,3) by (auto simp: FT_Stream_EnterFrame_def)
  moreover have "fields_loop granted (fs @ [e]) True (Some (st_pos m)) [] ?m =
    Some ((None, [] @ decode_fields fs t (st_pos m)),
      FT_Stream_ExitFrame (?m\<lparr>st_cursor := Some (st_pos m + sum_list (map field_width fs))\<rparr>))"
    by (rule fields_loop_run) (use assms True in simp_all)
  ultimately show ?thesis using True assms(1,5) by (simp add: FT_Stream_ReadFields_def FT_Stream_ExitFrame_def)
next
  case False
  then have "FT_Stream_EnterFrame granted (fld_offset s) m = (Some Invalid_Stream_Operation, m)"
    using assms(1,3) by (auto simp: FT_Stream_EnterFrame_def)
  then show ?thesis using False assms(5) by (auto simp: FT_Stream_ReadFields_def fields_exit_def)
qed

section \<open>Properties\<close>





end
