(* ===== verification/Tt_Load.thy ===== *)
theory Tt_Load
  imports Ft_Stream
begin

text \<open>
  The table directory of an SFNT file, \<open>src/sfnt/ttload.c\<close>: the check of the directory, its loading
  into the face, the search for a table and the extraction of the \<open>cmap\<close> table, over the streams of
  \<open>Ft_Stream\<close>. An entry of \<open>dir_tables\<close> is \<open>None\<close> until it is written, and a write or read outside
  the array, or of an entry not yet written, is \<open>None\<close>.
\<close>

section \<open>Model\<close>

record TT_TableRec =
  tbl_Tag :: nat
  tbl_CheckSum :: nat
  tbl_Offset :: nat
  tbl_Length :: nat

record SFNT_HeaderRec =
  sfnt_format_tag :: nat
  sfnt_num_tables :: nat
  sfnt_offset :: nat

record TT_Dir =
  dir_num_tables :: nat
  dir_format_tag :: nat
  dir_tables :: "TT_TableRec option list"

text \<open>\<open>FT_MAKE_TAG\<close>.\<close>

definition FT_MAKE_TAG :: "nat \<Rightarrow> nat \<Rightarrow> nat \<Rightarrow> nat \<Rightarrow> nat" where
  "FT_MAKE_TAG a b c d = 16777216 * a + 65536 * b + 256 * c + d"

definition TTAG_head :: nat where "TTAG_head = FT_MAKE_TAG 104 101 97 100"
definition TTAG_bhed :: nat where "TTAG_bhed = FT_MAKE_TAG 98 104 101 100"
definition TTAG_hmtx :: nat where "TTAG_hmtx = FT_MAKE_TAG 104 109 116 120"
definition TTAG_vmtx :: nat where "TTAG_vmtx = FT_MAKE_TAG 118 109 116 120"
definition TTAG_SING :: nat where "TTAG_SING = FT_MAKE_TAG 83 73 78 71"
definition TTAG_META :: nat where "TTAG_META = FT_MAKE_TAG 77 69 84 65"
definition TTAG_OTTO :: nat where "TTAG_OTTO = FT_MAKE_TAG 79 84 84 79"
definition TTAG_cmap :: nat where "TTAG_cmap = FT_MAKE_TAG 99 109 97 112"

text \<open>\<open>FT_FRAME_START\<close>, \<open>FT_FRAME_ULONG\<close> (an \<open>FT_ULong\<close> has 8 bytes), \<open>FT_FRAME_USHORT\<close>, \<open>FT_FRAME_END\<close>.\<close>

definition frame_start :: "nat \<Rightarrow> FT_Frame_Field" where
  "frame_start n = \<lparr>fld_value = ft_frame_start, fld_size = 0, fld_offset = n\<rparr>"

definition frame_ulong :: "nat \<Rightarrow> FT_Frame_Field" where
  "frame_ulong off = \<lparr>fld_value = ft_frame_ulong_be, fld_size = 8, fld_offset = off\<rparr>"

definition frame_ushort :: "nat \<Rightarrow> FT_Frame_Field" where
  "frame_ushort off = \<lparr>fld_value = ft_frame_ushort_be, fld_size = 2, fld_offset = off\<rparr>"

definition frame_stop :: FT_Frame_Field where
  "frame_stop = \<lparr>fld_value = ft_frame_end, fld_size = 0, fld_offset = 0\<rparr>"

definition table_dir_entry_fields :: "FT_Frame_Field list" where
  "table_dir_entry_fields = frame_start 16 # [frame_ulong 0, frame_ulong 8, frame_ulong 16, frame_ulong 24] @ [frame_stop]"

definition offset_table_fields :: "FT_Frame_Field list" where
  "offset_table_fields = frame_start 8 # [frame_ushort 8, frame_ushort 10, frame_ushort 12, frame_ushort 14] @ [frame_stop]"

text \<open>The number last stored at an offset of a structure.\<close>

fun stored :: "nat \<Rightarrow> field_store list \<Rightarrow> nat" where
  "stored off [] = 0"
| "stored off (Store_value p n v # out) = (if p = off then v else stored off out)"
| "stored off (Store_bytes p b # out) = stored off out"

definition table_of_stores :: "field_store list \<Rightarrow> TT_TableRec" where
  "table_of_stores out = \<lparr>tbl_Tag = stored 0 out, tbl_CheckSum = stored 8 out, tbl_Offset = stored 16 out, tbl_Length = stored 24 out\<rparr>"

text \<open>Whether both passes keep an entry: inside the stream, or metrics that begin inside.\<close>

definition entry_kept :: "nat \<Rightarrow> TT_TableRec \<Rightarrow> bool" where
  "entry_kept sz table \<longleftrightarrow>
     \<not> tbl_Offset table > sz \<and>
     (tbl_Length table > sz - tbl_Offset table \<longrightarrow> tbl_Tag table = TTAG_hmtx \<or> tbl_Tag table = TTAG_vmtx)"

text \<open>
  The loop of \<open>check_table_dir\<close>, at entry \<open>nn\<close> with \<open>k\<close> to go; the accumulator is
  \<open>valid_entries\<close>, \<open>has_head\<close>, \<open>has_sing\<close>, \<open>has_meta\<close>. An error leaves the function; a
  directory cut short ends the loop, with the number of entries read.
\<close>

type_synonym check_acc = "nat \<times> bool \<times> bool \<times> bool"

fun check_loop ::
    "nat \<Rightarrow> nat \<Rightarrow> nat \<Rightarrow> check_acc \<Rightarrow> FT_StreamRec \<Rightarrow> ((ft_error option \<times> nat \<times> check_acc) \<times> FT_StreamRec) option" where
  "check_loop 0 nn offset acc stream = Some ((None, nn, acc), stream)"
| "check_loop (Suc k) nn offset (valid, hed, sing, mta) stream = do {
     ((error, out), stream) \<leftarrow> FT_Stream_ReadFields True table_dir_entry_fields stream;
     if error \<noteq> None then Some ((None, nn, (valid, hed, sing, mta)), stream)
     else let table = table_of_stores out in
       if \<not> entry_kept (st_size stream) table then check_loop k (nn + 1) offset (valid, hed, sing, mta) stream
       else let valid = valid + 1 in
         if tbl_Tag table = TTAG_head \<or> tbl_Tag table = TTAG_bhed then
           if tbl_Length table < 0x36 then Some ((Some Table_Missing, nn, (valid, True, sing, mta)), stream)
           else let (error, stream) = FT_Stream_Seek (add64 (tbl_Offset table) 12) stream in
             if error \<noteq> None then Some ((error, nn, (valid, True, sing, mta)), stream)
             else do {
               ((error, magic), stream) \<leftarrow> FT_Stream_ReadULong stream;
               if error \<noteq> None then Some ((error, nn, (valid, True, sing, mta)), stream)
               else let (error, stream) = FT_Stream_Seek (add64 offset ((nn + 1) * 16)) stream in
                 if error \<noteq> None then Some ((error, nn, (valid, True, sing, mta)), stream)
                 else check_loop k (nn + 1) offset (valid, True, sing, mta) stream
             }
         else if tbl_Tag table = TTAG_SING then check_loop k (nn + 1) offset (valid, hed, True, mta) stream
         else if tbl_Tag table = TTAG_META then check_loop k (nn + 1) offset (valid, hed, sing, True) stream
         else check_loop k (nn + 1) offset (valid, hed, sing, mta) stream
   }"

text \<open>The error, \<open>sfnt->num_tables\<close> and \<open>*valid\<close>.\<close>

definition check_table_dir ::
    "SFNT_HeaderRec \<Rightarrow> FT_StreamRec \<Rightarrow> ((ft_error option \<times> nat \<times> nat) \<times> FT_StreamRec) option" where
  "check_table_dir sfnt stream =
     (let offset = add64 (sfnt_offset sfnt) 12;
          (error, stream) = FT_Stream_Seek offset stream
      in if error \<noteq> None then Some ((error, sfnt_num_tables sfnt, 0), stream)
         else do {
           ((error, num, (valid, hed, sing, mta)), stream) \<leftarrow>
             check_loop (sfnt_num_tables sfnt) 0 offset (0, False, False, False) stream;
           if error \<noteq> None then Some ((error, num, 0), stream)
           else if valid = 0 then Some ((Some Unknown_File_Format, num, valid), stream)
           else if hed \<or> (sing \<and> mta) then Some ((None, num, valid), stream)
           else Some ((Some Table_Missing, num, valid), stream)
         })"

text \<open>The search for a duplicate among the first \<open>n\<close> entries.\<close>

fun dir_duplicate :: "nat \<Rightarrow> nat \<Rightarrow> TT_TableRec option list \<Rightarrow> bool option" where
  "dir_duplicate tag 0 dir = Some False"
| "dir_duplicate tag (Suc n) (Some e # dir) = (if tbl_Tag e = tag then Some True else dir_duplicate tag n dir)"
| "dir_duplicate tag (Suc n) _ = None"

text \<open>The loop of \<open>tt_face_load_font_dir\<close> over the frame with the directory.\<close>

fun load_loop ::
    "nat \<Rightarrow> nat \<Rightarrow> TT_TableRec option list \<Rightarrow> FT_StreamRec \<Rightarrow> ((nat \<times> TT_TableRec option list) \<times> FT_StreamRec) option" where
  "load_loop 0 valid dir stream = Some ((valid, dir), stream)"
| "load_loop (Suc k) valid dir stream = do {
     (tag, stream) \<leftarrow> FT_Stream_GetULong stream;
     (checksum, stream) \<leftarrow> FT_Stream_GetULong stream;
     (offset, stream) \<leftarrow> FT_Stream_GetULong stream;
     (len, stream) \<leftarrow> FT_Stream_GetULong stream;
     let entry = \<lparr>tbl_Tag = tag, tbl_CheckSum = checksum, tbl_Offset = offset, tbl_Length = len\<rparr>;
     if \<not> entry_kept (st_size stream) entry then load_loop k valid dir stream
     else do {
       let entry = (if len > st_size stream - offset
                    then entry\<lparr>tbl_Length := pad_floor (st_size stream - offset) 4\<rparr> else entry);
       duplicate \<leftarrow> dir_duplicate tag valid dir;
       if duplicate then load_loop k valid dir stream
       else if valid < length dir then load_loop k (valid + 1) (dir[valid := Some entry]) stream
       else None
     }
   }"

text \<open>\<open>granted\<close>: whether the directory is allocated.\<close>

definition tt_face_load_font_dir ::
    "bool \<Rightarrow> TT_Dir \<Rightarrow> FT_StreamRec \<Rightarrow> ((ft_error option \<times> TT_Dir) \<times> FT_StreamRec) option" where
  "tt_face_load_font_dir granted face stream = do {
     let sfnt_off = FT_Stream_Pos stream;
     ((error, format_tag), stream) \<leftarrow> FT_Stream_ReadULong stream;
     if error \<noteq> None then Some ((error, face), stream)
     else do {
       ((error, out), stream) \<leftarrow> FT_Stream_ReadFields True offset_table_fields stream;
       if error \<noteq> None then Some ((error, face), stream)
       else do {
         let sfnt = \<lparr>sfnt_format_tag = format_tag, sfnt_num_tables = stored 8 out, sfnt_offset = sfnt_off\<rparr>;
         ((error, num, valid), stream) \<leftarrow>
           (if format_tag \<noteq> TTAG_OTTO then check_table_dir sfnt stream
            else Some ((if sfnt_num_tables sfnt = 0 then Some Unknown_File_Format else None,
                        sfnt_num_tables sfnt, sfnt_num_tables sfnt), stream));
         if error \<noteq> None then Some ((error, face), stream)
         else do {
           let face = face\<lparr>dir_num_tables := valid, dir_format_tag := format_tag\<rparr>;
           if \<not> granted then Some ((Some Out_Of_Memory, face\<lparr>dir_tables := []\<rparr>), stream)
           else do {
             let face = face\<lparr>dir_tables := replicate valid None\<rparr>;
             let (error, stream) = FT_Stream_Seek (add64 sfnt_off 12) stream;
             if error \<noteq> None then Some ((error, face), stream)
             else do {
               let (error, stream) = FT_Stream_EnterFrame True (num * 16) stream;
               if error \<noteq> None then Some ((error, face), stream)
               else do {
                 ((valid, dir), stream) \<leftarrow> load_loop num 0 (dir_tables face) stream;
                 let face = face\<lparr>dir_num_tables := valid, dir_tables := dir\<rparr>;
                 let stream = FT_Stream_ExitFrame stream;
                 Some ((if valid = 0 then Some Unknown_File_Format else None, face), stream)
               }
             }
           }
         }
       }
     }
   }"

text \<open>The search; \<open>num_tables\<close> entries are read.\<close>

fun lookup_loop :: "nat \<Rightarrow> nat \<Rightarrow> TT_TableRec option list \<Rightarrow> TT_TableRec option option" where
  "lookup_loop tag 0 dir = Some None"
| "lookup_loop tag (Suc n) (Some e # dir) =
     (if tbl_Tag e = tag \<and> tbl_Length e \<noteq> 0 then Some (Some e) else lookup_loop tag n dir)"
| "lookup_loop tag (Suc n) _ = None"

definition tt_face_lookup_table :: "TT_Dir \<Rightarrow> nat \<Rightarrow> TT_TableRec option option" where
  "tt_face_lookup_table face tag = lookup_loop tag (dir_num_tables face) (dir_tables face)"

text \<open>With the length of the table, undefined (0) when it is missing.\<close>

definition tt_face_goto_table :: "TT_Dir \<Rightarrow> nat \<Rightarrow> FT_StreamRec \<Rightarrow> ((ft_error option \<times> nat) \<times> FT_StreamRec) option" where
  "tt_face_goto_table face tag stream = do {
     table \<leftarrow> tt_face_lookup_table face tag;
     case table of
       None \<Rightarrow> Some ((Some Table_Missing, 0), stream)
     | Some t \<Rightarrow>
         let (error, stream) = FT_Stream_Seek (tbl_Offset t) stream in Some ((error, tbl_Length t), stream)
   }"

text \<open>The frame with the table, as \<open>FT_Stream_ExtractFrame\<close> gives it, and \<open>cmap_size\<close>.\<close>

definition tt_face_load_cmap ::
    "TT_Dir \<Rightarrow> FT_StreamRec \<Rightarrow> ((ft_error option \<times> (bytes \<times> nat) option \<times> nat) \<times> FT_StreamRec) option" where
  "tt_face_load_cmap face stream = do {
     ((error, cmap_size), stream) \<leftarrow> tt_face_goto_table face TTAG_cmap stream;
     if error \<noteq> None then Some ((error, None, cmap_size), stream)
     else let ((error, frame), stream) = FT_Stream_ExtractFrame True cmap_size stream
       in Some ((error, frame, if error \<noteq> None then 0 else cmap_size), stream)
   }"

end
