(* ===== verification/Tt_Dir.thy ===== *)
theory Tt_Dir
  imports Tt_Load
begin

text \<open>
  What the directory of \<open>Tt_Load\<close> holds after loading a file from memory: the entries kept, each
  tag once, every table inside the file; and that the two passes agree, so that the array allocated
  after the first one is large enough for the second.
\<close>

section \<open>Streams over a file\<close>

definition mem_stream :: "bytes \<Rightarrow> FT_StreamRec \<Rightarrow> bool" where
  "mem_stream f s \<longleftrightarrow> st_read s = None \<and> st_base s = Some f \<and> st_size s = length f \<and> length f < 9223372036854775808"

lemma mem_stream_update [simp]:
  "mem_stream f (s\<lparr>st_pos := p\<rparr>) = mem_stream f s" "mem_stream f (s\<lparr>st_cursor := c\<rparr>) = mem_stream f s"
  "mem_stream f (s\<lparr>st_limit := l\<rparr>) = mem_stream f s"
  by (simp_all add: mem_stream_def)

lemma mem_stream_open: "length f < 9223372036854775808 \<Longrightarrow> mem_stream f (FT_Stream_OpenMemory f)"
  by (simp add: mem_stream_def FT_Stream_OpenMemory_def)

lemma mem_size: "mem_stream f s \<Longrightarrow> st_size s = length f"
  by (simp add: mem_stream_def)

lemma mem_seek:
  "mem_stream f s \<Longrightarrow> FT_Stream_Seek p s =
    (if p \<le> length f then (None, s\<lparr>st_pos := p\<rparr>) else (Some Invalid_Stream_Operation, s))"
  by (simp add: FT_Stream_Seek_def mem_stream_def)

lemma mem_read_ulong:
  assumes "mem_stream f s" "st_pos s \<le> length f"
  shows "FT_Stream_ReadULong s =
    (if st_pos s + 4 \<le> length f then Some ((None, u32 f (st_pos s)), s\<lparr>st_pos := st_pos s + 4\<rparr>)
     else Some ((Some Invalid_Stream_Operation, 0), s))"
proof -
  have a: "add64 (st_pos s) (4 - 1) = st_pos s + 3" "add64 (st_pos s) 4 = st_pos s + 4"
    using assms by (simp_all add: add64_small mem_stream_def)
  show ?thesis
  proof (cases "st_pos s + 4 \<le> length f")
    case True
    then have "st_pos s + 3 < length f" by simp
    then show ?thesis using assms(1) True a by (simp add: FT_Stream_ReadULong_def stream_value_def mem_stream_def)
  next
    case False
    then have "\<not> st_pos s + 3 < length f" by simp
    then show ?thesis using assms(1) False a by (simp add: FT_Stream_ReadULong_def stream_value_def mem_stream_def)
  qed
qed

lemma mem_get_ulong:
  assumes "mem_stream f s" "st_cursor s = Some c" "c + 4 \<le> st_limit s" "st_limit s \<le> length f"
  shows "FT_Stream_GetULong s = Some (u32 f c, s\<lparr>st_cursor := Some (c + 4)\<rparr>)"
  using assms by (simp add: FT_Stream_GetULong_def frame_value_def mem_stream_def)

lemma field_reads:
  "frame_reader (fld_value (frame_ulong o1)) = Some (peek_ulong, 4, 0, False)"
  "frame_reader (fld_value (frame_ushort o1)) = Some (peek_ushort, 2, 16, False)"
  by (simp_all add: frame_ulong_def frame_ushort_def)

lemma field_facts:
  "data_field (frame_ulong o1)" "data_field (frame_ushort o1)"
  "field_width (frame_ulong o1) = 4" "field_width (frame_ushort o1) = 2"
  "fld_value (frame_start n) = ft_frame_start" "fld_offset (frame_start n) = n" "fld_value frame_stop = ft_frame_end"
  by (simp_all add: data_field_def field_width_def frame_ulong_def frame_ushort_def frame_start_def frame_stop_def)

lemma decode_ulong: "p + 4 \<le> length f \<Longrightarrow> decode_field f p (frame_ulong o1) = [Store_value o1 8 (u32 f p)]"
  by (simp add: decode_field_def frame_ulong_def field_stored_def)

lemma decode_ushort: "p + 2 \<le> length f \<Longrightarrow> decode_field f p (frame_ushort o1) = [Store_value o1 2 (u16 f p)]"
  by (simp add: decode_field_def frame_ushort_def field_stored_def)

section \<open>The entries of the directory\<close>

definition entry_at :: "bytes \<Rightarrow> nat \<Rightarrow> TT_TableRec" where
  "entry_at f p = \<lparr>tbl_Tag = u32 f p, tbl_CheckSum = u32 f (p + 4), tbl_Offset = u32 f (p + 8), tbl_Length = u32 f (p + 12)\<rparr>"

lemma read_entry:
  assumes "mem_stream f s"
  shows "st_pos s + 16 \<le> length f \<Longrightarrow>
      \<exists>out s'. FT_Stream_ReadFields True table_dir_entry_fields s = Some ((None, out), s') \<and> mem_stream f s' \<and>
        st_pos s' = st_pos s + 16 \<and> table_of_stores out = entry_at f (st_pos s)"
    "\<not> st_pos s + 16 \<le> length f \<Longrightarrow>
      FT_Stream_ReadFields True table_dir_entry_fields s = Some ((Some Invalid_Stream_Operation, []), s)"
proof -
  have m: "st_read s = None" "st_base s = Some f" "st_size s = length f" "length f < 9223372036854775808"
    using assms by (simp_all add: mem_stream_def)
  let ?fs = "[frame_ulong 0, frame_ulong 8, frame_ulong 16, frame_ulong 24]"
  have fs: "\<forall>x \<in> set ?fs. data_field x" "sum_list (map field_width ?fs) \<le> fld_offset (frame_start 16)"
    by (simp_all add: field_facts)
  note run = read_fields_run [OF m field_facts(5) fs(1) field_facts(7) fs(2), of True, folded table_dir_entry_fields_def]
  show "\<exists>out s'. FT_Stream_ReadFields True table_dir_entry_fields s = Some ((None, out), s') \<and> mem_stream f s' \<and>
        st_pos s' = st_pos s + 16 \<and> table_of_stores out = entry_at f (st_pos s)"
    if "st_pos s + 16 \<le> length f"
    using that assms unfolding run
    by (simp add: field_facts decode_ulong table_of_stores_def entry_at_def add.assoc)
  show "FT_Stream_ReadFields True table_dir_entry_fields s = Some ((Some Invalid_Stream_Operation, []), s)"
    if "\<not> st_pos s + 16 \<le> length f"
    using that unfolding run by (simp add: field_facts)
qed

text \<open>How many of the entries \<open>a\<close> to \<open>b\<close> the passes keep.\<close>

definition kept :: "bytes \<Rightarrow> nat \<Rightarrow> nat \<Rightarrow> nat \<Rightarrow> TT_TableRec list" where
  "kept f off a b = filter (entry_kept (length f)) (map (\<lambda>i. entry_at f (off + 16 * i)) [a..<b])"

lemma kept_Cons:
  "a < b \<Longrightarrow> kept f off a b =
    (if entry_kept (length f) (entry_at f (off + 16 * a)) then [entry_at f (off + 16 * a)] else []) @ kept f off (Suc a) b"
  by (simp add: kept_def upt_conv_Cons)

lemma kept_empty [simp]: "b \<le> a \<Longrightarrow> kept f off a b = []"
  by (simp add: kept_def)

lemma check_loop_run:
  assumes "mem_stream f s" "st_pos s = off + 16 * nn" "st_pos s \<le> length f"
  shows "\<exists>error num acc' s'. check_loop k nn off acc s = Some ((error, num, acc'), s') \<and> mem_stream f s' \<and>
    (error = None \<longrightarrow> nn \<le> num \<and> num \<le> nn + k \<and> fst acc' = fst acc + length (kept f off nn num))"
  using assms
proof (induction k arbitrary: nn acc s)
  case 0
  then show ?case by simp
next
  case (Suc k)
  obtain valid hed sing mta where acc: "acc = (valid, hed, sing, mta)" by (cases acc)
  show ?case
  proof (cases "st_pos s + 16 \<le> length f")
    case False
    then show ?thesis using read_entry(2) [OF Suc.prems(1) False] Suc.prems(1) acc by simp
  next
    case True
    obtain out s1 where r: "FT_Stream_ReadFields True table_dir_entry_fields s = Some ((None, out), s1)"
      "mem_stream f s1" "st_pos s1 = off + 16 * Suc nn" "table_of_stores out = entry_at f (off + 16 * nn)"
      using read_entry(1) [OF Suc.prems(1) True] Suc.prems(2) by auto
    let ?e = "entry_at f (off + 16 * nn)"
    have p1: "off + 16 * Suc nn \<le> length f" using True Suc.prems(2) by simp
    have step: "\<exists>error num acc' s'. check_loop k (Suc nn) off acc1 s2 = Some ((error, num, acc'), s') \<and> mem_stream f s' \<and>
        (error = None \<longrightarrow> nn \<le> num \<and> num \<le> nn + Suc k \<and>
          fst acc' = fst acc1 + length (kept f off (Suc nn) num) \<and> kept f off nn num =
            (if entry_kept (length f) ?e then [?e] else []) @ kept f off (Suc nn) num)"
      if s2: "mem_stream f s2" "st_pos s2 = off + 16 * Suc nn" for acc1 s2
    proof -
      obtain error num acc' s' where h: "check_loop k (Suc nn) off acc1 s2 = Some ((error, num, acc'), s')" "mem_stream f s'"
        "error = None \<longrightarrow> Suc nn \<le> num \<and> num \<le> Suc nn + k \<and> fst acc' = fst acc1 + length (kept f off (Suc nn) num)"
        using Suc.IH [of s2 "Suc nn" acc1] s2 p1 by auto
      then show ?thesis using kept_Cons [of nn num f off] by auto
    qed
    have a: "add64 off ((nn + 1) * 16) = off + 16 * Suc nn" if "mem_stream f s1"
      using p1 that by (simp add: add64_def mem_stream_def)
    show ?thesis
    proof (cases "entry_kept (length f) ?e")
      case False
      then show ?thesis using r acc step [OF r(2,3), of acc] mem_size [OF r(2)] by fastforce
    next
      case kept: True
      show ?thesis
      proof (cases "tbl_Tag ?e = TTAG_head \<or> tbl_Tag ?e = TTAG_bhed")
        case False
        then show ?thesis
          using r acc kept mem_size [OF r(2)] step [OF r(2,3), of "(valid + 1, hed, True, mta)"]
            step [OF r(2,3), of "(valid + 1, hed, sing, True)"] step [OF r(2,3), of "(valid + 1, hed, sing, mta)"]
          by (simp add: Let_def) fastforce
      next
        case True
        have seek: "FT_Stream_Seek p s' = (if p \<le> length f then (None, s'\<lparr>st_pos := p\<rparr>) else (Some Invalid_Stream_Operation, s'))"
          if "mem_stream f s'" for p s' by (rule mem_seek [OF that])
        let ?p = "add64 (tbl_Offset ?e) 12"
        show ?thesis
        proof (cases "tbl_Length ?e < 54 \<or> \<not> ?p \<le> length f \<or> \<not> ?p + 4 \<le> length f")
          case bad: True
          then show ?thesis
            using r acc kept True mem_size [OF r(2)] seek [OF r(2)] mem_read_ulong [of f "s1\<lparr>st_pos := ?p\<rparr>"]
            by (auto simp: Let_def)
        next
          case False
          let ?s2 = "s1\<lparr>st_pos := off + 16 * Suc nn\<rparr>"
          have "check_loop (Suc k) nn off acc s = check_loop k (Suc nn) off (valid + 1, True, sing, mta) ?s2"
            using False r acc kept True mem_size [OF r(2)] seek [OF r(2)] mem_read_ulong [of f "s1\<lparr>st_pos := ?p\<rparr>"]
              seek [of "s1\<lparr>st_pos := ?p + 4\<rparr>"] a [OF r(2)] p1
            by (simp add: Let_def)
          then show ?thesis using step [of ?s2 "(valid + 1, True, sing, mta)"] r(2) kept acc by fastforce
        qed
      qed
    qed
  qed
qed

section \<open>The directory\<close>

definition clip_table :: "nat \<Rightarrow> TT_TableRec \<Rightarrow> TT_TableRec" where
  "clip_table sz e =
     (if tbl_Length e > sz - tbl_Offset e then e\<lparr>tbl_Length := pad_floor (sz - tbl_Offset e) 4\<rparr> else e)"

definition add_table :: "TT_TableRec list \<Rightarrow> TT_TableRec \<Rightarrow> TT_TableRec list" where
  "add_table es e = (if tbl_Tag e \<in> tbl_Tag ` set es then es else es @ [e])"

text \<open>The entries kept, clipped to the file, the first of each tag.\<close>

definition directory :: "bytes \<Rightarrow> nat \<Rightarrow> nat \<Rightarrow> TT_TableRec list" where
  "directory f off num = foldl add_table [] (map (clip_table (length f)) (kept f off 0 num))"

lemma duplicate_run: "take (length es) dir = map Some es \<Longrightarrow> dir_duplicate tag (length es) dir = Some (tag \<in> tbl_Tag ` set es)"
proof (induction es arbitrary: dir)
  case (Cons e es)
  then show ?case by (cases dir) auto
qed simp

lemma take_update:
  assumes "take (length es) dir = map Some es" "length es < length dir"
  shows "take (length (es @ [e])) (dir[length es := Some e]) = map Some (es @ [e])"
proof -
  have "take (Suc (length es)) (dir[length es := Some e]) = take (length es) dir @ [Some e]"
    using assms(2) by (simp add: take_Suc_conv_app_nth)
  then show ?thesis using assms(1) by simp
qed

lemma load_loop_run:
  assumes "mem_stream f s" "st_cursor s = Some (off + 16 * nn)" "off + 16 * (nn + k) \<le> st_limit s" "st_limit s \<le> length f"
    and "take (length es) dir = map Some es" "length es + length (kept f off nn (nn + k)) \<le> length dir"
  shows "\<exists>dir' s'. load_loop k (length es) dir s =
      Some ((length (foldl add_table es (map (clip_table (length f)) (kept f off nn (nn + k)))), dir'), s') \<and> mem_stream f s' \<and>
    take (length (foldl add_table es (map (clip_table (length f)) (kept f off nn (nn + k))))) dir' =
      map Some (foldl add_table es (map (clip_table (length f)) (kept f off nn (nn + k)))) \<and>
    st_pos s' = st_pos s"
  using assms
proof (induction k arbitrary: nn es dir s)
  case 0
  then show ?case by simp
next
  case (Suc k)
  let ?p = "off + 16 * nn" let ?e = "entry_at f ?p"
  have l: "?p + 16 \<le> st_limit s" using Suc.prems(3) by simp
  let ?s4 = "s\<lparr>st_cursor := Some (?p + 16)\<rparr>"
  have g: "FT_Stream_GetULong (s\<lparr>st_cursor := Some (?p + j)\<rparr>) = Some (u32 f (?p + j), s\<lparr>st_cursor := Some (?p + j + 4)\<rparr>)"
    if "j + 4 \<le> 16" for j
    using mem_get_ulong [of f "s\<lparr>st_cursor := Some (?p + j)\<rparr>" "?p + j"] that l Suc.prems(1,4) by simp
  have s0: "s\<lparr>st_cursor := Some (?p + 0)\<rparr> = s" using Suc.prems(2) by simp
  have g0: "FT_Stream_GetULong s = Some (u32 f ?p, s\<lparr>st_cursor := Some (?p + 4)\<rparr>)" using g [of 0] unfolding s0 by simp
  have g4: "FT_Stream_GetULong (s\<lparr>st_cursor := Some (?p + 4)\<rparr>) = Some (u32 f (?p + 4), s\<lparr>st_cursor := Some (?p + 8)\<rparr>)"
    using g [of 4] by simp
  have g8: "FT_Stream_GetULong (s\<lparr>st_cursor := Some (?p + 8)\<rparr>) = Some (u32 f (?p + 8), s\<lparr>st_cursor := Some (?p + 12)\<rparr>)"
    using g [of 8] by simp
  have g12: "FT_Stream_GetULong (s\<lparr>st_cursor := Some (?p + 12)\<rparr>) = Some (u32 f (?p + 12), ?s4)"
    using g [of 12] by simp
  have e: "\<lparr>tbl_Tag = tbl_Tag ?e, tbl_CheckSum = u32 f (?p + 4), tbl_Offset = tbl_Offset ?e, tbl_Length = tbl_Length ?e\<rparr> = ?e"
    by (simp add: entry_at_def)
  have t: "u32 f ?p = tbl_Tag ?e" "u32 f (?p + 8) = tbl_Offset ?e" "u32 f (?p + 12) = tbl_Length ?e"
    by (simp_all add: entry_at_def)
  have sz: "st_size ?s4 = length f" using mem_size [OF Suc.prems(1)] by simp
  have clip: "(if tbl_Length ?e > length f - tbl_Offset ?e
      then ?e\<lparr>tbl_Length := pad_floor (length f - tbl_Offset ?e) 4\<rparr> else ?e) = clip_table (length f) ?e"
    by (simp add: clip_table_def)
  have tag: "tbl_Tag ?e = tbl_Tag (clip_table (length f) ?e)" by (simp add: clip_table_def)
  have run: "load_loop (Suc k) (length es) dir s =
    (if \<not> entry_kept (length f) ?e then load_loop k (length es) dir ?s4
     else if tbl_Tag ?e \<in> tbl_Tag ` set es then load_loop k (length es) dir ?s4
     else if length es < length dir then load_loop k (length es + 1) (dir[length es := Some (clip_table (length f) ?e)]) ?s4
     else None)"
    unfolding load_loop.simps g0 bind.bind_lunit prod.case g4 g8 g12 Let_def e t sz clip
      duplicate_run [OF Suc.prems(5)] by simp
  have ih: "\<exists>dir' s'. load_loop k (length es') dir1 ?s4 =
      Some ((length (foldl add_table es' (map (clip_table (length f)) (kept f off (Suc nn) (nn + Suc k)))), dir'), s') \<and>
      mem_stream f s' \<and>
      take (length (foldl add_table es' (map (clip_table (length f)) (kept f off (Suc nn) (nn + Suc k))))) dir' =
        map Some (foldl add_table es' (map (clip_table (length f)) (kept f off (Suc nn) (nn + Suc k)))) \<and>
      st_pos s' = st_pos s"
    if c: "take (length es') dir1 = map Some es'" "length es' + length (kept f off (Suc nn) (nn + Suc k)) \<le> length dir1"
    for es' dir1
    using Suc.IH [of ?s4 "Suc nn" es' dir1] c Suc.prems(1,3,4) by (simp add: add.assoc)
  note kc = kept_Cons [of nn "nn + Suc k" f off]
  show ?case
  proof (cases "entry_kept (length f) ?e")
    case False
    then show ?thesis unfolding run using ih [of es dir] Suc.prems(5,6) kc by simp
  next
    case True
    then have kl: "kept f off nn (nn + Suc k) = ?e # kept f off (Suc nn) (nn + Suc k)" using kc by simp
    show ?thesis
    proof (cases "tbl_Tag ?e \<in> tbl_Tag ` set es")
      case dup: True
      then have "add_table es (clip_table (length f) ?e) = es" using tag by (simp add: add_table_def)
      then show ?thesis unfolding run using ih [of es dir] Suc.prems(5,6) kl True dup by simp
    next
      case False
      then have at: "add_table es (clip_table (length f) ?e) = es @ [clip_table (length f) ?e]" using tag by (simp add: add_table_def)
      have len: "length es < length dir" using Suc.prems(6) kl by simp
      show ?thesis
        unfolding run using ih [OF take_update [OF Suc.prems(5) len]] Suc.prems(6) kl True False len at by simp
    qed
  qed
qed

lemma add_table_distinct: "distinct (map tbl_Tag es) \<Longrightarrow> distinct (map tbl_Tag (add_table es e))"
  by (simp add: add_table_def)

lemma foldl_add_table_distinct: "distinct (map tbl_Tag es) \<Longrightarrow> distinct (map tbl_Tag (foldl add_table es xs))"
  by (induction xs arbitrary: es) (simp_all add: add_table_distinct)

lemma foldl_add_table_set: "set (foldl add_table es xs) \<subseteq> set es \<union> set xs"
proof (induction xs arbitrary: es)
  case (Cons x xs)
  have "set (add_table es x) \<subseteq> insert x (set es)" by (auto simp: add_table_def)
  then show ?case using Cons.IH [of "add_table es x"] by fastforce
qed simp

text \<open>A table of the directory lies in the file.\<close>

definition in_file :: "bytes \<Rightarrow> TT_TableRec \<Rightarrow> bool" where
  "in_file f e \<longleftrightarrow> tbl_Offset e + tbl_Length e \<le> length f"

lemma clip_in_file: "entry_kept (length f) e \<Longrightarrow> in_file f (clip_table (length f) e)"
proof -
  assume k: "entry_kept (length f) e"
  have "pad_floor (length f - tbl_Offset e) 4 \<le> length f - tbl_Offset e" by (rule pad_floor_le)
  then have "tbl_Offset e \<le> length f \<longrightarrow> tbl_Offset e + pad_floor (length f - tbl_Offset e) 4 \<le> length f" by linarith
  then show ?thesis using k by (auto simp: entry_kept_def in_file_def clip_table_def)
qed

lemma directory_facts: "distinct (map tbl_Tag (directory f off num))" "\<forall>e \<in> set (directory f off num). in_file f e"
proof -
  show "distinct (map tbl_Tag (directory f off num))" unfolding directory_def by (rule foldl_add_table_distinct) simp
  have "set (directory f off num) \<subseteq> set (map (clip_table (length f)) (kept f off 0 num))"
    unfolding directory_def using foldl_add_table_set [of "[]" "map (clip_table (length f)) (kept f off 0 num)"]
    by (simp only: list.set(1) Un_empty_left)
  then show "\<forall>e \<in> set (directory f off num). in_file f e" by (auto simp: kept_def clip_in_file)
qed

text \<open>A loaded directory: \<open>num_tables\<close> entries written, these.\<close>

definition dir_holds :: "TT_Dir \<Rightarrow> TT_TableRec list \<Rightarrow> bool" where
  "dir_holds face es \<longleftrightarrow> dir_num_tables face = length es \<and> take (length es) (dir_tables face) = map Some es"

lemma lookup_run: "take (length es) dir = map Some es \<Longrightarrow>
  lookup_loop tag (length es) dir = Some (find (\<lambda>e. tbl_Tag e = tag \<and> tbl_Length e \<noteq> 0) es)"
proof (induction es arbitrary: dir)
  case (Cons e es)
  then show ?case by (cases dir) auto
qed simp

section \<open>Loading\<close>

lemma check_table_dir_run:
  assumes "mem_stream f s" "sfnt_offset sfnt + 12 < 18446744073709551616"
  shows "\<exists>error num valid s'. check_table_dir sfnt s = Some ((error, num, valid), s') \<and> mem_stream f s' \<and>
    (error = None \<longrightarrow> num \<le> sfnt_num_tables sfnt \<and> valid = length (kept f (sfnt_offset sfnt + 12) 0 num))"
proof -
  let ?off = "sfnt_offset sfnt + 12"
  have a: "add64 (sfnt_offset sfnt) 12 = ?off" using assms(2) by (simp add: add64_small)
  show ?thesis
  proof (cases "?off \<le> length f")
    case False
    then show ?thesis using assms(1) a by (simp add: check_table_dir_def mem_seek Let_def)
  next
    case True
    obtain error num acc s' where r: "check_loop (sfnt_num_tables sfnt) 0 ?off (0, False, False, False) (s\<lparr>st_pos := ?off\<rparr>) =
        Some ((error, num, acc), s')" "mem_stream f s'"
      "error = None \<longrightarrow> num \<le> sfnt_num_tables sfnt \<and> fst acc = length (kept f ?off 0 num)"
      using check_loop_run [of f "s\<lparr>st_pos := ?off\<rparr>" ?off 0 "sfnt_num_tables sfnt" "(0, False, False, False)"] assms(1) True
      by auto
    obtain valid hed sing mta where acc: "acc = (valid, hed, sing, mta)" by (cases acc)
    have "check_table_dir sfnt s =
      (if error \<noteq> None then Some ((error, num, 0), s')
       else if valid = 0 then Some ((Some Unknown_File_Format, num, valid), s')
       else if hed \<or> (sing \<and> mta) then Some ((None, num, valid), s')
       else Some ((Some Table_Missing, num, valid), s'))"
      unfolding check_table_dir_def a mem_seek [OF assms(1)] using True r(1) acc by (simp add: Let_def)
    then show ?thesis using r(2,3) acc by auto
  qed
qed

lemma read_offset_table:
  assumes "mem_stream f s"
  shows "st_pos s + 8 \<le> length f \<Longrightarrow>
      \<exists>out s'. FT_Stream_ReadFields True offset_table_fields s = Some ((None, out), s') \<and> mem_stream f s' \<and>
        stored 8 out = u16 f (st_pos s)"
    "\<not> st_pos s + 8 \<le> length f \<Longrightarrow>
      FT_Stream_ReadFields True offset_table_fields s = Some ((Some Invalid_Stream_Operation, []), s)"
proof -
  have m: "st_read s = None" "st_base s = Some f" "st_size s = length f" "length f < 9223372036854775808"
    using assms by (simp_all add: mem_stream_def)
  let ?fs = "[frame_ushort 8, frame_ushort 10, frame_ushort 12, frame_ushort 14]"
  have fs: "\<forall>x \<in> set ?fs. data_field x" "sum_list (map field_width ?fs) \<le> fld_offset (frame_start 8)"
    by (simp_all add: field_facts)
  note run = read_fields_run [OF m field_facts(5) fs(1) field_facts(7) fs(2), of True, folded offset_table_fields_def]
  show "\<exists>out s'. FT_Stream_ReadFields True offset_table_fields s = Some ((None, out), s') \<and> mem_stream f s' \<and>
        stored 8 out = u16 f (st_pos s)"
    if "st_pos s + 8 \<le> length f"
    using that assms unfolding run by (simp add: field_facts decode_ushort)
  show "FT_Stream_ReadFields True offset_table_fields s = Some ((Some Invalid_Stream_Operation, []), s)"
    if "\<not> st_pos s + 8 \<le> length f"
    using that unfolding run by (simp add: field_facts)
qed

lemma kept_length: "length (kept f off 0 num) \<le> num"
  using length_filter_le [of "entry_kept (length f)" "map (\<lambda>i. entry_at f (off + 16 * i)) [0..<num]"] by (simp add: kept_def)

text \<open>The second pass: the frame with the directory, and the loop over it.\<close>

lemma second_pass_run:
  assumes "mem_stream f s" "length (kept f off 0 num) \<le> valid"
  shows "(\<exists>e. FT_Stream_EnterFrame True (num * 16) (s\<lparr>st_pos := off\<rparr>) = (Some e, s\<lparr>st_pos := off\<rparr>)) \<or>
    (\<exists>s1 dir s2. FT_Stream_EnterFrame True (num * 16) (s\<lparr>st_pos := off\<rparr>) = (None, s1) \<and>
       load_loop num 0 (replicate valid None) s1 = Some ((length (directory f off num), dir), s2) \<and> mem_stream f s2 \<and>
       take (length (directory f off num)) dir = map Some (directory f off num))"
proof (cases "off < length f \<and> off + num * 16 \<le> length f")
  case False
  then show ?thesis using assms(1) by (auto simp: FT_Stream_EnterFrame_def mem_stream_def)
next
  case True
  let ?s1 = "s\<lparr>st_cursor := Some off, st_limit := off + num * 16, st_pos := off + num * 16\<rparr>"
  have e: "FT_Stream_EnterFrame True (num * 16) (s\<lparr>st_pos := off\<rparr>) = (None, ?s1)"
    using True assms(1) by (auto simp: FT_Stream_EnterFrame_def mem_stream_def)
  have pre: "mem_stream f ?s1" "st_cursor ?s1 = Some (off + 16 * 0)" "off + 16 * (0 + num) \<le> st_limit ?s1"
    "st_limit ?s1 \<le> length f" "take (length []) (replicate valid None) = map Some ([] :: TT_TableRec list)"
    "length ([] :: TT_TableRec list) + length (kept f off 0 (0 + num)) \<le> length (replicate valid (None :: TT_TableRec option))"
    using assms True by simp_all
  show ?thesis using e load_loop_run [OF pre] by (auto simp: directory_def)
qed

lemma exit_mem: "mem_stream f s \<Longrightarrow> mem_stream f (FT_Stream_ExitFrame s)"
  by (simp add: mem_stream_def FT_Stream_ExitFrame_def)

lemma load_font_dir_run:
  assumes "mem_stream f s" "st_pos s \<le> length f"
  shows "\<exists>error face' s'. tt_face_load_font_dir granted face s = Some ((error, face'), s') \<and> mem_stream f s' \<and>
    (error = None \<longrightarrow> (\<exists>num \<le> u16 f (st_pos s + 4). dir_holds face' (directory f (st_pos s + 12) num) \<and>
       directory f (st_pos s + 12) num \<noteq> []))"
proof -
  let ?p = "st_pos s"
  have small: "length f < 9223372036854775808" using assms(1) by (simp add: mem_stream_def)
  show ?thesis
  proof (cases "?p + 4 \<le> length f \<and> ?p + 12 \<le> length f")
    case False
    show ?thesis
    proof (cases "?p + 4 \<le> length f")
      case True
      then have "\<not> st_pos (s\<lparr>st_pos := ?p + 4\<rparr>) + 8 \<le> length f" using False by simp
      then show ?thesis
        using mem_read_ulong [OF assms] True read_offset_table(2) [of f "s\<lparr>st_pos := ?p + 4\<rparr>"] assms(1)
        by (simp add: tt_face_load_font_dir_def FT_Stream_Pos_def)
    next
      case False
      then show ?thesis using mem_read_ulong [OF assms] assms(1)
        by (simp add: tt_face_load_font_dir_def FT_Stream_Pos_def)
    qed
  next
    case True
    let ?tag = "u32 f ?p"
    have r1: "FT_Stream_ReadULong s = Some ((None, ?tag), s\<lparr>st_pos := ?p + 4\<rparr>)" using mem_read_ulong [OF assms] True by simp
    obtain out s1 where r2: "FT_Stream_ReadFields True offset_table_fields (s\<lparr>st_pos := ?p + 4\<rparr>) = Some ((None, out), s1)"
      "mem_stream f s1" "stored 8 out = u16 f (?p + 4)"
      using read_offset_table(1) [of f "s\<lparr>st_pos := ?p + 4\<rparr>"] True assms(1) by auto
    let ?sfnt = "\<lparr>sfnt_format_tag = ?tag, sfnt_num_tables = u16 f (?p + 4), sfnt_offset = ?p\<rparr>"
    let ?check = "if ?tag \<noteq> TTAG_OTTO then check_table_dir ?sfnt s1
      else Some ((if u16 f (?p + 4) = 0 then Some Unknown_File_Format else None, u16 f (?p + 4), u16 f (?p + 4)), s1)"
    obtain error num valid s2 where c: "?check = Some ((error, num, valid), s2)" "mem_stream f s2"
      "error = None \<longrightarrow> num \<le> u16 f (?p + 4) \<and> length (kept f (?p + 12) 0 num) \<le> valid"
      using check_table_dir_run [OF r2(2), of ?sfnt] True small kept_length [of f "?p + 12" "u16 f (?p + 4)"] r2(2)
      by (cases "?tag = TTAG_OTTO") auto
    have a: "add64 ?p 12 = ?p + 12" using True small by (simp add: add64_small)
    show ?thesis
    proof (cases "error = None \<and> granted")
      case False
      then show ?thesis using r1 r2 c by (auto simp: tt_face_load_font_dir_def FT_Stream_Pos_def Let_def)
    next
      case ok: True
      have seek: "FT_Stream_Seek (?p + 12) s2 = (None, s2\<lparr>st_pos := ?p + 12\<rparr>)" using mem_seek [OF c(2)] True by simp
      have k: "length (kept f (?p + 12) 0 num) \<le> valid" using c(3) ok by simp
      let ?face = "face\<lparr>dir_num_tables := valid, dir_format_tag := ?tag, dir_tables := replicate valid None\<rparr>"
      have run: "tt_face_load_font_dir granted face s =
        (let (error, stream) = FT_Stream_EnterFrame True (num * 16) (s2\<lparr>st_pos := ?p + 12\<rparr>) in
         if error \<noteq> None then Some ((error, ?face), stream)
         else do {
           ((valid, dir), stream) \<leftarrow> load_loop num 0 (replicate valid None) stream;
           let face = ?face\<lparr>dir_num_tables := valid, dir_tables := dir\<rparr>;
           let stream = FT_Stream_ExitFrame stream;
           Some ((if valid = 0 then Some Unknown_File_Format else None, face), stream)
         })"
      proof -
        have chk: "(if ?tag \<noteq> TTAG_OTTO then check_table_dir \<lparr>sfnt_format_tag = ?tag, sfnt_num_tables = stored 8 out, sfnt_offset = ?p\<rparr> s1
            else Some ((if sfnt_num_tables \<lparr>sfnt_format_tag = ?tag, sfnt_num_tables = stored 8 out, sfnt_offset = ?p\<rparr> = 0
                then Some Unknown_File_Format else None,
              sfnt_num_tables \<lparr>sfnt_format_tag = ?tag, sfnt_num_tables = stored 8 out, sfnt_offset = ?p\<rparr>,
              sfnt_num_tables \<lparr>sfnt_format_tag = ?tag, sfnt_num_tables = stored 8 out, sfnt_offset = ?p\<rparr>), s1)) =
          Some ((error, num, valid), s2)"
          using c(1) unfolding r2(3) SFNT_HeaderRec.simps .
        show ?thesis
          unfolding tt_face_load_font_dir_def FT_Stream_Pos_def r1 bind.bind_lunit prod.case r2(1) Let_def chk a seek
          using ok by (simp add: Let_def cong: if_cong split: prod.split)
      qed
      from second_pass_run [OF c(2) k] show ?thesis
      proof (elim disjE exE conjE)
        fix e assume "FT_Stream_EnterFrame True (num * 16) (s2\<lparr>st_pos := ?p + 12\<rparr>) = (Some e, s2\<lparr>st_pos := ?p + 12\<rparr>)"
        then show ?thesis unfolding run using c(2) by simp
      next
        fix s3 dir s4
        assume l: "FT_Stream_EnterFrame True (num * 16) (s2\<lparr>st_pos := ?p + 12\<rparr>) = (None, s3)"
          "load_loop num 0 (replicate valid None) s3 = Some ((length (directory f (?p + 12) num), dir), s4)" "mem_stream f s4"
          "take (length (directory f (?p + 12) num)) dir = map Some (directory f (?p + 12) num)"
        have "num \<le> u16 f (?p + 4)" using c(3) ok by simp
        then show ?thesis unfolding run using l exit_mem [OF l(3)] by (auto simp: Let_def dir_holds_def)
      qed
    qed
  qed
qed

lemma load_cmap_run:
  assumes "mem_stream f s" "dir_holds face es" "\<forall>e \<in> set es. in_file f e"
  shows "case find (\<lambda>e. tbl_Tag e = TTAG_cmap \<and> tbl_Length e \<noteq> 0) es of
      None \<Rightarrow> tt_face_load_cmap face s = Some ((Some Table_Missing, None, 0), s)
    | Some e \<Rightarrow> \<exists>s'. tt_face_load_cmap face s = Some ((None, Some (f, tbl_Offset e), tbl_Length e), s') \<and> mem_stream f s'"
proof -
  let ?q = "find (\<lambda>e. tbl_Tag e = TTAG_cmap \<and> tbl_Length e \<noteq> 0) es"
  have l: "tt_face_lookup_table face TTAG_cmap = Some ?q"
    using assms(2) by (simp add: tt_face_lookup_table_def dir_holds_def lookup_run)
  show ?thesis
  proof (cases ?q)
    case None
    then show ?thesis using l by (simp add: tt_face_load_cmap_def tt_face_goto_table_def)
  next
    case (Some e)
    then have e: "e \<in> set es" "tbl_Length e \<noteq> 0" by (auto simp: find_Some_iff)
    then have i: "tbl_Offset e + tbl_Length e \<le> length f" using assms(3) by (simp add: in_file_def)
    let ?s1 = "s\<lparr>st_pos := tbl_Offset e\<rparr>"
    have "FT_Stream_Seek (tbl_Offset e) s = (None, ?s1)" using mem_seek [OF assms(1)] i by simp
    then have g: "tt_face_goto_table face TTAG_cmap s = Some ((None, tbl_Length e), ?s1)"
      using l Some by (simp add: tt_face_goto_table_def)
    let ?s2 = "?s1\<lparr>st_cursor := None, st_limit := 0, st_pos := tbl_Offset e + tbl_Length e\<rparr>"
    have "FT_Stream_ExtractFrame True (tbl_Length e) ?s1 = ((None, Some (f, tbl_Offset e)), ?s2)"
      using i e(2) assms(1) by (auto simp: FT_Stream_ExtractFrame_def FT_Stream_EnterFrame_def mem_stream_def)
    then show ?thesis using g Some assms(1) by (simp add: tt_face_load_cmap_def)
  qed
qed

end
