(* ===== verification/Tt_Font.thy ===== *)
theory Tt_Font
  imports Tt_Dir Ft_Select
begin

text \<open>
  From the bytes of a font file to the charmaps of its face: the directory and the \<open>cmap\<close> table read
  from a memory stream (\<open>Tt_Dir\<close>), and the charmaps built from that table (\<open>Ft_Select\<close>).
\<close>

section \<open>Opening a font\<close>

definition no_dir :: TT_Dir where
  "no_dir = \<lparr>dir_num_tables = 0, dir_format_tag = 0, dir_tables = []\<rparr>"

text \<open>
  The steps of \<open>sfnt_init_face\<close> and \<open>sfnt_load_face\<close> that lead to the charmaps: a bad directory is an
  error, a missing \<open>cmap\<close> table is not (\<open>tt_face_build_cmaps\<close> then finds no table), and what
  \<open>tt_face_build_cmaps\<close> returns is ignored.
\<close>

definition sfnt_charmaps :: "(nat \<Rightarrow> bool \<times> bool) \<Rightarrow> TT_Face \<Rightarrow> bytes \<Rightarrow> (ft_error option \<times> TT_Face) option" where
  "sfnt_charmaps mem face f = do {
     ((error, dir), stream) \<leftarrow> tt_face_load_font_dir True no_dir (FT_Stream_OpenMemory f);
     if error \<noteq> None then Some (error, face)
     else do {
       ((error, frame, n), stream) \<leftarrow> tt_face_load_cmap dir stream;
       (error, face) \<leftarrow> tt_face_build_cmaps Hosted mem (face\<lparr>cmap_table := map_option (\<lambda>(b, p). take n (drop p b)) frame\<rparr>);
       Some (None, face)
     }
   }"

lemma clip_length: "tbl_Length (clip_table sz e) \<le> tbl_Length e"
proof -
  have "pad_floor (sz - tbl_Offset e) 4 \<le> sz - tbl_Offset e" by (rule pad_floor_le)
  then have "sz - tbl_Offset e < tbl_Length e \<longrightarrow> pad_floor (sz - tbl_Offset e) 4 \<le> tbl_Length e" by linarith
  then show ?thesis by (simp add: clip_table_def)
qed

lemma directory_lengths: "\<forall>e \<in> set (directory f off num). tbl_Length e < 4294967296"
proof -
  have "set (directory f off num) \<subseteq> set (map (clip_table (length f)) (kept f off 0 num))"
    unfolding directory_def using foldl_add_table_set [of "[]" "map (clip_table (length f)) (kept f off 0 num)"]
    by (simp only: list.set(1) Un_empty_left)
  moreover have "tbl_Length (clip_table (length f) (entry_at f p)) < 4294967296" for p
  proof -
    have "tbl_Length (entry_at f p) < 4294967296" by (simp add: entry_at_def)
    then show ?thesis using clip_length [of "length f" "entry_at f p"] by linarith
  qed
  ultimately show ?thesis by (auto simp: kept_def)
qed

text \<open>The bytes of a table.\<close>

definition table_bytes :: "bytes \<Rightarrow> TT_TableRec \<Rightarrow> bytes" where
  "table_bytes f e = take (tbl_Length e) (drop (tbl_Offset e) f)"

lemma cmap_frame:
  assumes "mem_stream f s" "dir_holds face es" "\<forall>e \<in> set es. in_file f e"
  shows "(\<exists>s'. tt_face_load_cmap face s = Some ((Some Table_Missing, None, 0), s')) \<or>
    (\<exists>e s'. e \<in> set es \<and> tbl_Tag e = TTAG_cmap \<and>
       tt_face_load_cmap face s = Some ((None, Some (f, tbl_Offset e), tbl_Length e), s'))"
proof (cases "find (\<lambda>e. tbl_Tag e = TTAG_cmap \<and> tbl_Length e \<noteq> 0) es")
  case None
  then show ?thesis using load_cmap_run [OF assms] by simp
next
  case (Some e)
  then have "e \<in> set es \<and> tbl_Tag e = TTAG_cmap" by (auto simp only: find_Some_iff nth_mem)
  then show ?thesis using load_cmap_run [OF assms] unfolding Some option.case by blast
qed

text \<open>The charmaps of a \<open>cmap\<close> table: one per accepted record, in order, if memory lasts.\<close>

definition charmaps_of :: "(nat \<Rightarrow> bool \<times> bool) \<Rightarrow> nat \<Rightarrow> bytes \<Rightarrow> FT_CMapRec list \<Rightarrow> bool" where
  "charmaps_of mem ng table ms \<longleftrightarrow>
     (\<exists>ps. list_all2 (charmap_of ng table) ps ms \<and> subseq ps (accepted_records ng table 4 (u16 table 2)) \<and>
       ((\<forall>i. mem i = (True, True)) \<longrightarrow> ps = accepted_records ng table 4 (u16 table 2)))"

lemma build_cmaps_run:
  assumes "charmaps face = []" "charmap face = None"
  shows "cmap_table face = None \<Longrightarrow> \<exists>error. tt_face_build_cmaps Hosted mem face = Some (error, face)"
    "cmap_table face = Some t \<Longrightarrow> length t < 4294967296 \<Longrightarrow>
      \<exists>error face'. tt_face_build_cmaps Hosted mem face = Some (error, face') \<and> face_ok face' \<and>
        (charmaps face' = [] \<or> charmaps_of mem (numGlyphs face) t (charmaps face'))"
proof -
  show "\<exists>error. tt_face_build_cmaps Hosted mem face = Some (error, face)" if "cmap_table face = None"
    using that by (simp add: tt_face_build_cmaps_def)
  have ok: "face_ok face" using assms by (simp add: face_ok_def)
  show "\<exists>error face'. tt_face_build_cmaps Hosted mem face = Some (error, face') \<and> face_ok face' \<and>
      (charmaps face' = [] \<or> charmaps_of mem (numGlyphs face) t (charmaps face'))"
    if t: "cmap_table face = Some t" "length t < 4294967296"
  proof (cases "length t < 4")
    case True
    then show ?thesis using t ok assms(1) by (simp add: tt_face_build_cmaps_def)
  next
    case False
    then have "4 \<le> length t" by simp
    from build_loop_spec [OF t(2) this ok, of mem 4 "u16 t 2"] show ?thesis
      using False t(1) assms(1) by (auto simp: tt_face_build_cmaps_def charmaps_of_def)
  qed
qed

section \<open>Properties\<close>


text \<open>A font with one empty-looking table: an OTTO header and a \<open>cmap\<close> entry for its last four bytes.\<close>

definition otto_font :: bytes where
  "otto_font = [79, 84, 84, 79, 0, 1, 0, 0, 0, 0, 0, 0, 99, 109, 97, 112, 0, 0, 0, 0, 0, 0, 0, 28, 0, 0, 0, 4, 0, 0, 0, 0]"

definition otto_entry :: TT_TableRec where
  "otto_entry = \<lparr>tbl_Tag = TTAG_cmap, tbl_CheckSum = 0, tbl_Offset = 28, tbl_Length = 4\<rparr>"

lemma otto_reads:
  "u32 otto_font 0 = TTAG_OTTO" "u16 otto_font 4 = 1" "entry_at otto_font 12 = otto_entry" "length otto_font = 32"
  by (simp_all add: otto_font_def u32_def u16_def entry_at_def otto_entry_def TTAG_OTTO_def TTAG_cmap_def FT_MAKE_TAG_def)

lemma otto_directory: "directory otto_font 12 1 = [otto_entry]"
  by (simp add: directory_def kept_def otto_reads entry_kept_def clip_table_def add_table_def) (simp add: otto_entry_def)



text \<open>A face without charmaps, of ten glyphs.\<close>

definition bare_face :: TT_Face where
  "bare_face = \<lparr>cmap_table = None, numGlyphs = 10, num_glyphs = 10, charmaps = [], charmap = None, fresh_handle = 0\<rparr>"


end
