(* ===== verification/Tt_Exec.thy ===== *)
theory Tt_Exec
  imports Ft_NormLen Ft_Trig
begin

text \<open>
  The execution context of the TrueType bytecode interpreter (\<open>src/truetype/ttinterp.h\<close>) and the
  helpers its instructions share (first part of \<open>src/truetype/ttinterp.c\<close>): control values, code
  ranges, moving points along the freedom vector, rounding and projection. The configuration is the
  port's: bytecode interpreter, minimal subpixel hinting and variation support are compiled in.

  An array is a list, and an access outside it is \<open>None\<close>. The three zone pointers hold copies of the
  record of the glyph zone or of the twilight zone, which share the arrays: \<open>zone_ref\<close> says which.
  The function pointers of the context are values of enumerations. The control values and the
  storage area are those of the size until a glyph program gets its own copy.
\<close>

section \<open>The context\<close>

text \<open>\<open>FT_Short\<close>.\<close>

definition s16i :: "int \<Rightarrow> int" where
  "s16i x = (x + 32768) mod 65536 - 32768"

record TT_GlyphZoneRec =
  zn_n_points :: nat
  zn_org :: "FT_Vector list"
  zn_cur :: "FT_Vector list"
  zn_orus :: "FT_Vector list"
  zn_tags :: "nat list"
  zn_contours :: "nat list"
  zn_first_point :: nat

record TT_GraphicsState =
  gs_rp0 :: nat
  gs_rp1 :: nat
  gs_rp2 :: nat
  gs_gep0 :: nat
  gs_gep1 :: nat
  gs_gep2 :: nat
  gs_dualVector :: FT_Vector
  gs_projVector :: FT_Vector
  gs_freeVector :: FT_Vector
  gs_loop :: int
  gs_round_state :: nat
  gs_compensation :: "int list"
  gs_minimum_distance :: int
  gs_control_value_cutin :: int
  gs_single_width_cutin :: int
  gs_single_width_value :: int
  gs_delta_base :: nat
  gs_delta_shift :: nat
  gs_auto_flip :: bool
  gs_instruct_control :: nat
  gs_scan_control :: bool
  gs_scan_type :: int

definition tt_default_graphics_state :: TT_GraphicsState where
  "tt_default_graphics_state =
     \<lparr>gs_rp0 = 0, gs_rp1 = 0, gs_rp2 = 0, gs_gep0 = 1, gs_gep1 = 1, gs_gep2 = 1,
      gs_dualVector = \<lparr>vx = 0x4000, vy = 0\<rparr>, gs_projVector = \<lparr>vx = 0x4000, vy = 0\<rparr>, gs_freeVector = \<lparr>vx = 0x4000, vy = 0\<rparr>,
      gs_loop = 1, gs_round_state = 1, gs_compensation = [0, 0, 0, 0],
      gs_minimum_distance = 64, gs_control_value_cutin = 68, gs_single_width_cutin = 0, gs_single_width_value = 0,
      gs_delta_base = 9, gs_delta_shift = 3, gs_auto_flip = True, gs_instruct_control = 0,
      gs_scan_control = False, gs_scan_type = 0\<rparr>"

record TT_Size_Metrics =
  tm_x_ratio :: int
  tm_y_ratio :: int
  tm_ratio :: int
  tm_scale :: int
  tm_ppem :: nat
  tm_rotated :: bool
  tm_stretched :: bool

record TT_DefRecord =
  def_range :: nat
  def_start :: int
  def_end :: int
  def_opc :: nat
  def_active :: bool

text \<open>A pointer to a definition, into \<open>FDefs\<close> or \<open>IDefs\<close>.\<close>

datatype def_ref = FDef nat | IDef nat

record TT_CallRec =
  Caller_Range :: nat
  Caller_IP :: int
  Cur_Count :: int
  Def :: def_ref

datatype TT_CodeRange_Tag = tt_coderange_none | tt_coderange_font | tt_coderange_cvt | tt_coderange_glyph

datatype zone_ref = Pts | Twilight

datatype TT_Round_Func = RF_None | RF_To_Grid | RF_To_Half_Grid | RF_Down_To_Grid | RF_Up_To_Grid
  | RF_To_Double_Grid | RF_Super | RF_Super_45

datatype TT_Project_Func = PF_x | PF_y | PF_Project | PF_Dual_Project

datatype TT_Move_Func = MF_X | MF_Y | MF_Any

datatype FT_Render_Mode = FT_RENDER_MODE_NORMAL | FT_RENDER_MODE_LIGHT | FT_RENDER_MODE_MONO
  | FT_RENDER_MODE_LCD | FT_RENDER_MODE_LCD_V | FT_RENDER_MODE_SDF

text \<open>
  What the interpreter reads of the face and the size and what does not change while it runs:
  \<open>fe_blend\<close> holds the axes of the variation, with their coordinates unless the pointer to them is
  \<open>NULL\<close>; \<open>fe_grant_cvt\<close> and \<open>fe_grant_storage\<close> say whether the copies for a glyph are allocated.
\<close>

record TT_ExecEnv =
  fe_interpreter_version :: nat
  fe_num_glyphs :: nat
  fe_blend :: "(nat \<times> int list option) option"
  fe_x_scale :: int
  fe_y_scale :: int
  fe_x_ppem :: nat
  fe_y_ppem :: nat
  fe_pointSize :: int
  fe_pedantic_hinting :: bool
  fe_is_composite :: bool
  fe_grayscale :: bool
  fe_mode :: FT_Render_Mode
  fe_iniRange :: TT_CodeRange_Tag
  fe_codeRangeTable :: "bytes option list"
  fe_maxFDefs :: nat
  fe_maxIDefs :: nat
  fe_instruction_trap :: bool
  fe_grant_cvt :: bool
  fe_grant_storage :: bool

record TT_ExecContext =
  exc_env :: TT_ExecEnv
  exc_error :: "ft_error option"
  exc_top :: nat
  exc_stack :: "int list"
  exc_args :: nat
  exc_new_top :: nat
  exc_zp0 :: zone_ref
  exc_zp1 :: zone_ref
  exc_zp2 :: zone_ref
  exc_pts :: TT_GlyphZoneRec
  exc_twilight :: TT_GlyphZoneRec
  exc_tt_metrics :: TT_Size_Metrics
  exc_GS :: TT_GraphicsState
  exc_curRange :: nat
  exc_code :: bytes
  exc_IP :: int
  exc_opcode :: nat
  exc_length :: int
  exc_size_cvt :: "int list"
  exc_glyfCvt :: "int list option"
  exc_FDefs :: "TT_DefRecord list"
  exc_IDefs :: "TT_DefRecord list"
  exc_numFDefs :: nat
  exc_numIDefs :: nat
  exc_maxFunc :: nat
  exc_maxIns :: nat
  exc_callStack :: "TT_CallRec list"
  exc_callTop :: nat
  exc_size_storage :: "int list"
  exc_glyfStorage :: "int list option"
  exc_period :: int
  exc_phase :: int
  exc_threshold :: int
  exc_func_round :: TT_Round_Func
  exc_moveVector :: FT_Vector
  exc_func_project :: TT_Project_Func
  exc_func_dualproj :: TT_Project_Func
  exc_func_move :: TT_Move_Func
  exc_stretched_funcs :: bool
  exc_backward_compatibility :: nat
  exc_loopcall_counter :: nat
  exc_loopcall_counter_max :: nat
  exc_neg_jump_counter :: nat
  exc_neg_jump_counter_max :: nat

section \<open>Memory\<close>

definition get_at :: "'a list \<Rightarrow> nat \<Rightarrow> 'a option" where
  "get_at xs i = (if i < length xs then Some (xs ! i) else None)"

definition put_at :: "'a list \<Rightarrow> nat \<Rightarrow> 'a \<Rightarrow> 'a list option" where
  "put_at xs i v = (if i < length xs then Some (xs[i := v]) else None)"

text \<open>\<open>args[k]\<close>, where \<open>args\<close> is \<open>exc->stack + exc->args\<close>.\<close>

definition arg :: "TT_ExecContext \<Rightarrow> nat \<Rightarrow> int option" where
  "arg exc k = get_at (exc_stack exc) (exc_args exc + k)"

definition set_arg :: "nat \<Rightarrow> int \<Rightarrow> TT_ExecContext \<Rightarrow> TT_ExecContext option" where
  "set_arg k v exc = map_option (\<lambda>s. exc\<lparr>exc_stack := s\<rparr>) (put_at (exc_stack exc) (exc_args exc + k) v)"

definition fail_with :: "ft_error \<Rightarrow> TT_ExecContext \<Rightarrow> TT_ExecContext" where
  "fail_with e exc = exc\<lparr>exc_error := Some e\<rparr>"

definition pedantic :: "TT_ExecContext \<Rightarrow> bool" where
  "pedantic exc = fe_pedantic_hinting (exc_env exc)"

text \<open>\<open>if ( exc->pedantic_hinting ) exc->error = FT_THROW( e );\<close>\<close>

definition fail_pedantic :: "ft_error \<Rightarrow> TT_ExecContext \<Rightarrow> TT_ExecContext" where
  "fail_pedantic e exc = (if pedantic exc then fail_with e exc else exc)"

text \<open>\<open>exc->cvt\<close> and \<open>exc->storage\<close>: the copy of the glyph once there is one.\<close>

definition exc_cvt :: "TT_ExecContext \<Rightarrow> int list" where
  "exc_cvt exc = (case exc_glyfCvt exc of Some c \<Rightarrow> c | None \<Rightarrow> exc_size_cvt exc)"

definition set_cvt :: "nat \<Rightarrow> int \<Rightarrow> TT_ExecContext \<Rightarrow> TT_ExecContext option" where
  "set_cvt i v exc =
     (case exc_glyfCvt exc of
        Some c \<Rightarrow> map_option (\<lambda>c. exc\<lparr>exc_glyfCvt := Some c\<rparr>) (put_at c i v)
      | None \<Rightarrow> map_option (\<lambda>c. exc\<lparr>exc_size_cvt := c\<rparr>) (put_at (exc_size_cvt exc) i v))"

definition exc_storage :: "TT_ExecContext \<Rightarrow> int list" where
  "exc_storage exc = (case exc_glyfStorage exc of Some c \<Rightarrow> c | None \<Rightarrow> exc_size_storage exc)"

definition set_storage :: "nat \<Rightarrow> int \<Rightarrow> TT_ExecContext \<Rightarrow> TT_ExecContext option" where
  "set_storage i v exc =
     (case exc_glyfStorage exc of
        Some c \<Rightarrow> map_option (\<lambda>c. exc\<lparr>exc_glyfStorage := Some c\<rparr>) (put_at c i v)
      | None \<Rightarrow> map_option (\<lambda>c. exc\<lparr>exc_size_storage := c\<rparr>) (put_at (exc_size_storage exc) i v))"

text \<open>Zones: the record, its points and tags.\<close>

definition zone :: "TT_ExecContext \<Rightarrow> zone_ref \<Rightarrow> TT_GlyphZoneRec" where
  "zone exc r = (case r of Pts \<Rightarrow> exc_pts exc | Twilight \<Rightarrow> exc_twilight exc)"

definition put_zone :: "zone_ref \<Rightarrow> TT_GlyphZoneRec \<Rightarrow> TT_ExecContext \<Rightarrow> TT_ExecContext" where
  "put_zone r z exc = (case r of Pts \<Rightarrow> exc\<lparr>exc_pts := z\<rparr> | Twilight \<Rightarrow> exc\<lparr>exc_twilight := z\<rparr>)"

definition n_points :: "TT_ExecContext \<Rightarrow> zone_ref \<Rightarrow> nat" where
  "n_points exc r = zn_n_points (zone exc r)"

definition zcur :: "TT_ExecContext \<Rightarrow> zone_ref \<Rightarrow> nat \<Rightarrow> FT_Vector option" where
  "zcur exc r i = get_at (zn_cur (zone exc r)) i"

definition zorg :: "TT_ExecContext \<Rightarrow> zone_ref \<Rightarrow> nat \<Rightarrow> FT_Vector option" where
  "zorg exc r i = get_at (zn_org (zone exc r)) i"

definition zorus :: "TT_ExecContext \<Rightarrow> zone_ref \<Rightarrow> nat \<Rightarrow> FT_Vector option" where
  "zorus exc r i = get_at (zn_orus (zone exc r)) i"

definition ztag :: "TT_ExecContext \<Rightarrow> zone_ref \<Rightarrow> nat \<Rightarrow> nat option" where
  "ztag exc r i = get_at (zn_tags (zone exc r)) i"

definition set_zcur :: "zone_ref \<Rightarrow> nat \<Rightarrow> FT_Vector \<Rightarrow> TT_ExecContext \<Rightarrow> TT_ExecContext option" where
  "set_zcur r i v exc = map_option (\<lambda>l. put_zone r ((zone exc r)\<lparr>zn_cur := l\<rparr>) exc) (put_at (zn_cur (zone exc r)) i v)"

definition set_zorg :: "zone_ref \<Rightarrow> nat \<Rightarrow> FT_Vector \<Rightarrow> TT_ExecContext \<Rightarrow> TT_ExecContext option" where
  "set_zorg r i v exc = map_option (\<lambda>l. put_zone r ((zone exc r)\<lparr>zn_org := l\<rparr>) exc) (put_at (zn_org (zone exc r)) i v)"

definition set_ztag :: "zone_ref \<Rightarrow> nat \<Rightarrow> nat \<Rightarrow> TT_ExecContext \<Rightarrow> TT_ExecContext option" where
  "set_ztag r i v exc = map_option (\<lambda>l. put_zone r ((zone exc r)\<lparr>zn_tags := l\<rparr>) exc) (put_at (zn_tags (zone exc r)) i v)"

text \<open>\<open>zone->cur[i].x = ADD_LONG( zone->cur[i].x, d )\<close> and its companions.\<close>

definition add_cur_x :: "zone_ref \<Rightarrow> nat \<Rightarrow> int \<Rightarrow> TT_ExecContext \<Rightarrow> TT_ExecContext option" where
  "add_cur_x r i d exc = do { v \<leftarrow> zcur exc r i; set_zcur r i (v\<lparr>vx := ADD_LONG (vx v) d\<rparr>) exc }"

definition add_cur_y :: "zone_ref \<Rightarrow> nat \<Rightarrow> int \<Rightarrow> TT_ExecContext \<Rightarrow> TT_ExecContext option" where
  "add_cur_y r i d exc = do { v \<leftarrow> zcur exc r i; set_zcur r i (v\<lparr>vy := ADD_LONG (vy v) d\<rparr>) exc }"

definition add_org_x :: "zone_ref \<Rightarrow> nat \<Rightarrow> int \<Rightarrow> TT_ExecContext \<Rightarrow> TT_ExecContext option" where
  "add_org_x r i d exc = do { v \<leftarrow> zorg exc r i; set_zorg r i (v\<lparr>vx := ADD_LONG (vx v) d\<rparr>) exc }"

definition add_org_y :: "zone_ref \<Rightarrow> nat \<Rightarrow> int \<Rightarrow> TT_ExecContext \<Rightarrow> TT_ExecContext option" where
  "add_org_y r i d exc = do { v \<leftarrow> zorg exc r i; set_zorg r i (v\<lparr>vy := ADD_LONG (vy v) d\<rparr>) exc }"

text \<open>\<open>FT_CURVE_TAG_ON\<close>, \<open>FT_CURVE_TAG_TOUCH_X\<close>, \<open>FT_CURVE_TAG_TOUCH_Y\<close>, and setting a flag.\<close>

definition FT_CURVE_TAG_ON :: nat where "FT_CURVE_TAG_ON = 0x01"
definition FT_CURVE_TAG_TOUCH_X :: nat where "FT_CURVE_TAG_TOUCH_X = 0x08"
definition FT_CURVE_TAG_TOUCH_Y :: nat where "FT_CURVE_TAG_TOUCH_Y = 0x10"
definition FT_CURVE_TAG_TOUCH_BOTH :: nat where "FT_CURVE_TAG_TOUCH_BOTH = 0x18"

definition touch :: "zone_ref \<Rightarrow> nat \<Rightarrow> nat \<Rightarrow> TT_ExecContext \<Rightarrow> TT_ExecContext option" where
  "touch r i flag exc = do { t \<leftarrow> ztag exc r i; set_ztag r i (t OR flag) exc }"

end
