(* ===== verification/Tt_Exec_Funcs.thy ===== *)
theory Tt_Exec_Funcs
  imports Tt_Exec
begin

text \<open>
  The functions of \<open>src/truetype/ttinterp.c\<close> behind the function pointers of the context, and the
  helpers around them: pixel sizes and control values, code ranges, moving a point, rounding,
  projecting, and the choice of these functions by \<open>Compute_Funcs\<close>.
\<close>

section \<open>Pixel sizes and control values\<close>

definition TT_MulFix14 :: "int \<Rightarrow> int \<Rightarrow> int" where
  "TT_MulFix14 a b = (let ab = s64 (a * b); ab = s64 (ab + (0x2000 + drop_bit 63 ab)) in drop_bit 14 ab)"

definition TT_DotFix14 :: "int \<Rightarrow> int \<Rightarrow> int \<Rightarrow> int \<Rightarrow> int" where
  "TT_DotFix14 ax ay bx by' =
     (let c = s64 (s64 (ax * bx) + s64 (ay * by')); c = s64 (c + (0x2000 + drop_bit 63 c)) in drop_bit 14 c)"

text \<open>The ratio is kept until the projection vector changes.\<close>

definition Current_Ratio :: "TT_ExecContext \<Rightarrow> int \<times> TT_ExecContext" where
  "Current_Ratio exc =
     (let tm = exc_tt_metrics exc; proj = gs_projVector (exc_GS exc)
      in if tm_ratio tm \<noteq> 0 then (tm_ratio tm, exc)
         else let r = (if vy proj = 0 then tm_x_ratio tm
                       else if vx proj = 0 then tm_y_ratio tm
                       else FT_Hypot (TT_MulFix14 (tm_x_ratio tm) (vx proj)) (TT_MulFix14 (tm_y_ratio tm) (vy proj)))
              in (r, exc\<lparr>exc_tt_metrics := tm\<lparr>tm_ratio := r\<rparr>\<rparr>))"

definition Current_Ppem :: "TT_ExecContext \<Rightarrow> int \<times> TT_ExecContext" where
  "Current_Ppem exc = (int (tm_ppem (exc_tt_metrics exc)), exc)"

definition Current_Ppem_Stretched :: "TT_ExecContext \<Rightarrow> int \<times> TT_ExecContext" where
  "Current_Ppem_Stretched exc =
     (let (r, exc) = Current_Ratio exc in (FT_MulFix (int (tm_ppem (exc_tt_metrics exc))) r, exc))"

definition func_cur_ppem :: "TT_ExecContext \<Rightarrow> int \<times> TT_ExecContext" where
  "func_cur_ppem exc = (if exc_stretched_funcs exc then Current_Ppem_Stretched exc else Current_Ppem exc)"

definition Read_CVT :: "TT_ExecContext \<Rightarrow> nat \<Rightarrow> (int \<times> TT_ExecContext) option" where
  "Read_CVT exc idx = do { v \<leftarrow> get_at (exc_cvt exc) idx; Some (v, exc) }"

definition Read_CVT_Stretched :: "TT_ExecContext \<Rightarrow> nat \<Rightarrow> (int \<times> TT_ExecContext) option" where
  "Read_CVT_Stretched exc idx = do {
     v \<leftarrow> get_at (exc_cvt exc) idx;
     let (r, exc) = Current_Ratio exc;
     Some (FT_MulFix v r, exc)
   }"

definition func_read_cvt :: "TT_ExecContext \<Rightarrow> nat \<Rightarrow> (int \<times> TT_ExecContext) option" where
  "func_read_cvt exc idx = (if exc_stretched_funcs exc then Read_CVT_Stretched exc idx else Read_CVT exc idx)"

text \<open>A glyph program works on its own copy of the control values.\<close>

definition Modify_CVT_Check :: "TT_ExecContext \<Rightarrow> TT_ExecContext" where
  "Modify_CVT_Check exc =
     (if fe_iniRange (exc_env exc) = tt_coderange_glyph \<and> exc_glyfCvt exc = None
      then if fe_grant_cvt (exc_env exc) then exc\<lparr>exc_error := None, exc_glyfCvt := Some (exc_size_cvt exc)\<rparr>
           else exc\<lparr>exc_error := Some Out_Of_Memory\<rparr>
      else exc)"

definition Write_CVT :: "nat \<Rightarrow> int \<Rightarrow> TT_ExecContext \<Rightarrow> TT_ExecContext option" where
  "Write_CVT idx v exc =
     (let exc = Modify_CVT_Check exc in if exc_error exc \<noteq> None then Some exc else set_cvt idx v exc)"

definition Write_CVT_Stretched :: "nat \<Rightarrow> int \<Rightarrow> TT_ExecContext \<Rightarrow> TT_ExecContext option" where
  "Write_CVT_Stretched idx v exc =
     (let exc = Modify_CVT_Check exc
      in if exc_error exc \<noteq> None then Some exc
         else let (r, exc) = Current_Ratio exc in set_cvt idx (FT_DivFix v r) exc)"

definition Move_CVT :: "nat \<Rightarrow> int \<Rightarrow> TT_ExecContext \<Rightarrow> TT_ExecContext option" where
  "Move_CVT idx v exc =
     (let exc = Modify_CVT_Check exc
      in if exc_error exc \<noteq> None then Some exc
         else do { old \<leftarrow> get_at (exc_cvt exc) idx; set_cvt idx (ADD_LONG old v) exc })"

definition Move_CVT_Stretched :: "nat \<Rightarrow> int \<Rightarrow> TT_ExecContext \<Rightarrow> TT_ExecContext option" where
  "Move_CVT_Stretched idx v exc =
     (let exc = Modify_CVT_Check exc
      in if exc_error exc \<noteq> None then Some exc
         else let (r, exc) = Current_Ratio exc
              in do { old \<leftarrow> get_at (exc_cvt exc) idx; set_cvt idx (ADD_LONG old (FT_DivFix v r)) exc })"

definition func_write_cvt :: "nat \<Rightarrow> int \<Rightarrow> TT_ExecContext \<Rightarrow> TT_ExecContext option" where
  "func_write_cvt idx v exc = (if exc_stretched_funcs exc then Write_CVT_Stretched idx v exc else Write_CVT idx v exc)"

definition func_move_cvt :: "nat \<Rightarrow> int \<Rightarrow> TT_ExecContext \<Rightarrow> TT_ExecContext option" where
  "func_move_cvt idx v exc = (if exc_stretched_funcs exc then Move_CVT_Stretched idx v exc else Move_CVT idx v exc)"

section \<open>Code ranges\<close>

text \<open>\<open>Ins_Goto_CodeRange\<close>; a failure shows in the error.\<close>

definition Ins_Goto_CodeRange :: "nat \<Rightarrow> int \<Rightarrow> TT_ExecContext \<Rightarrow> TT_ExecContext option" where
  "Ins_Goto_CodeRange aRange aIP exc =
     (if aRange < 1 \<or> aRange > 3 then Some (fail_with Bad_Argument exc)
      else do {
        range \<leftarrow> get_at (fe_codeRangeTable (exc_env exc)) (aRange - 1);
        case range of
          None \<Rightarrow> Some (fail_with Invalid_CodeRange exc)
        | Some base \<Rightarrow>
            if aIP > int (length base) then Some (fail_with Code_Overflow exc)
            else Some (exc\<lparr>exc_code := base, exc_IP := aIP, exc_length := 0, exc_curRange := aRange\<rparr>)
      })"

section \<open>Moving points\<close>

definition Direct_Move :: "zone_ref \<Rightarrow> nat \<Rightarrow> int \<Rightarrow> TT_ExecContext \<Rightarrow> TT_ExecContext option" where
  "Direct_Move r point distance exc = do {
     let v = vx (exc_moveVector exc);
     exc \<leftarrow> (if v \<noteq> 0
             then do {
               exc \<leftarrow> (if exc_backward_compatibility exc = 0 then add_cur_x r point (FT_MulFix distance v) exc else Some exc);
               touch r point FT_CURVE_TAG_TOUCH_X exc
             }
             else Some exc);
     let v = vy (exc_moveVector exc);
     if v \<noteq> 0
     then do {
       exc \<leftarrow> (if exc_backward_compatibility exc \<noteq> 0x7 then add_cur_y r point (FT_MulFix distance v) exc else Some exc);
       touch r point FT_CURVE_TAG_TOUCH_Y exc
     }
     else Some exc
   }"

definition Direct_Move_Orig :: "zone_ref \<Rightarrow> nat \<Rightarrow> int \<Rightarrow> TT_ExecContext \<Rightarrow> TT_ExecContext option" where
  "Direct_Move_Orig r point distance exc = do {
     let v = vx (exc_moveVector exc);
     exc \<leftarrow> (if v \<noteq> 0 then add_org_x r point (FT_MulFix distance v) exc else Some exc);
     let v = vy (exc_moveVector exc);
     if v \<noteq> 0 then add_org_y r point (FT_MulFix distance v) exc else Some exc
   }"

definition Direct_Move_X :: "zone_ref \<Rightarrow> nat \<Rightarrow> int \<Rightarrow> TT_ExecContext \<Rightarrow> TT_ExecContext option" where
  "Direct_Move_X r point distance exc = do {
     exc \<leftarrow> (if exc_backward_compatibility exc = 0 then add_cur_x r point distance exc else Some exc);
     touch r point FT_CURVE_TAG_TOUCH_X exc
   }"

definition Direct_Move_Y :: "zone_ref \<Rightarrow> nat \<Rightarrow> int \<Rightarrow> TT_ExecContext \<Rightarrow> TT_ExecContext option" where
  "Direct_Move_Y r point distance exc = do {
     exc \<leftarrow> (if exc_backward_compatibility exc \<noteq> 0x7 then add_cur_y r point distance exc else Some exc);
     touch r point FT_CURVE_TAG_TOUCH_Y exc
   }"

definition Direct_Move_Orig_X :: "zone_ref \<Rightarrow> nat \<Rightarrow> int \<Rightarrow> TT_ExecContext \<Rightarrow> TT_ExecContext option" where
  "Direct_Move_Orig_X r point distance exc = add_org_x r point distance exc"

definition Direct_Move_Orig_Y :: "zone_ref \<Rightarrow> nat \<Rightarrow> int \<Rightarrow> TT_ExecContext \<Rightarrow> TT_ExecContext option" where
  "Direct_Move_Orig_Y r point distance exc = add_org_y r point distance exc"

text \<open>\<open>func_move_orig\<close> is always set together with \<open>func_move\<close>.\<close>

definition func_move :: "zone_ref \<Rightarrow> nat \<Rightarrow> int \<Rightarrow> TT_ExecContext \<Rightarrow> TT_ExecContext option" where
  "func_move r point distance exc =
     (case exc_func_move exc of
        MF_X \<Rightarrow> Direct_Move_X r point distance exc
      | MF_Y \<Rightarrow> Direct_Move_Y r point distance exc
      | MF_Any \<Rightarrow> Direct_Move r point distance exc)"

definition func_move_orig :: "zone_ref \<Rightarrow> nat \<Rightarrow> int \<Rightarrow> TT_ExecContext \<Rightarrow> TT_ExecContext option" where
  "func_move_orig r point distance exc =
     (case exc_func_move exc of
        MF_X \<Rightarrow> Direct_Move_Orig_X r point distance exc
      | MF_Y \<Rightarrow> Direct_Move_Orig_Y r point distance exc
      | MF_Any \<Rightarrow> Direct_Move_Orig r point distance exc)"

section \<open>Rounding\<close>

definition FT_PIX_FLOOR :: "int \<Rightarrow> int" where "FT_PIX_FLOOR x = x AND NOT 63"
definition FT_PIX_ROUND_LONG :: "int \<Rightarrow> int" where "FT_PIX_ROUND_LONG x = FT_PIX_FLOOR (ADD_LONG x 32)"
definition FT_PIX_CEIL_LONG :: "int \<Rightarrow> int" where "FT_PIX_CEIL_LONG x = FT_PIX_FLOOR (ADD_LONG x 63)"
definition FT_PAD_ROUND_LONG_32 :: "int \<Rightarrow> int" where "FT_PAD_ROUND_LONG_32 x = ADD_LONG x 16 AND NOT 31"

definition Round_None :: "int \<Rightarrow> int \<Rightarrow> int" where
  "Round_None distance compensation =
     (if distance \<ge> 0 then let val = ADD_LONG distance compensation in if val < 0 then 0 else val
      else let val = SUB_LONG distance compensation in if val > 0 then 0 else val)"

definition Round_To_Grid :: "int \<Rightarrow> int \<Rightarrow> int" where
  "Round_To_Grid distance compensation =
     (if distance \<ge> 0
      then let val = FT_PIX_ROUND_LONG (ADD_LONG distance compensation) in if val < 0 then 0 else val
      else let val = NEG_LONG (FT_PIX_ROUND_LONG (SUB_LONG compensation distance)) in if val > 0 then 0 else val)"

definition Round_To_Half_Grid :: "int \<Rightarrow> int \<Rightarrow> int" where
  "Round_To_Half_Grid distance compensation =
     (if distance \<ge> 0
      then let val = ADD_LONG (FT_PIX_FLOOR (ADD_LONG distance compensation)) 32 in if val < 0 then 32 else val
      else let val = NEG_LONG (ADD_LONG (FT_PIX_FLOOR (SUB_LONG compensation distance)) 32) in if val > 0 then -32 else val)"

definition Round_Down_To_Grid :: "int \<Rightarrow> int \<Rightarrow> int" where
  "Round_Down_To_Grid distance compensation =
     (if distance \<ge> 0
      then let val = FT_PIX_FLOOR (ADD_LONG distance compensation) in if val < 0 then 0 else val
      else let val = NEG_LONG (FT_PIX_FLOOR (SUB_LONG compensation distance)) in if val > 0 then 0 else val)"

definition Round_Up_To_Grid :: "int \<Rightarrow> int \<Rightarrow> int" where
  "Round_Up_To_Grid distance compensation =
     (if distance \<ge> 0
      then let val = FT_PIX_CEIL_LONG (ADD_LONG distance compensation) in if val < 0 then 0 else val
      else let val = NEG_LONG (FT_PIX_CEIL_LONG (SUB_LONG compensation distance)) in if val > 0 then 0 else val)"

definition Round_To_Double_Grid :: "int \<Rightarrow> int \<Rightarrow> int" where
  "Round_To_Double_Grid distance compensation =
     (if distance \<ge> 0
      then let val = FT_PAD_ROUND_LONG_32 (ADD_LONG distance compensation) in if val < 0 then 0 else val
      else let val = NEG_LONG (FT_PAD_ROUND_LONG_32 (SUB_LONG compensation distance)) in if val > 0 then 0 else val)"

text \<open>\<open>exc->threshold - exc->phase + compensation\<close> wraps where C leaves an overflow undefined.\<close>

definition Round_Super :: "TT_ExecContext \<Rightarrow> int \<Rightarrow> int \<Rightarrow> int" where
  "Round_Super exc distance compensation =
     (let c = s64 (exc_threshold exc - exc_phase exc + compensation)
      in if distance \<ge> 0
         then let val = ADD_LONG (ADD_LONG distance c AND - exc_period exc) (exc_phase exc)
              in if val < 0 then exc_phase exc else val
         else let val = SUB_LONG (NEG_LONG (SUB_LONG c distance AND - exc_period exc)) (exc_phase exc)
              in if val > 0 then - exc_phase exc else val)"

text \<open>A division by zero is \<open>None\<close>.\<close>

definition c_div :: "int \<Rightarrow> int \<Rightarrow> int option" where
  "c_div a b = (if b = 0 then None else Some (a sdiv b))"

definition Round_Super_45 :: "TT_ExecContext \<Rightarrow> int \<Rightarrow> int \<Rightarrow> int option" where
  "Round_Super_45 exc distance compensation = do {
     let c = s64 (exc_threshold exc - exc_phase exc + compensation);
     if distance \<ge> 0
     then do {
       q \<leftarrow> c_div (ADD_LONG distance c) (exc_period exc);
       let val = ADD_LONG (s64 (q * exc_period exc)) (exc_phase exc);
       Some (if val < 0 then exc_phase exc else val)
     }
     else do {
       q \<leftarrow> c_div (SUB_LONG c distance) (exc_period exc);
       let val = SUB_LONG (NEG_LONG (s64 (q * exc_period exc))) (exc_phase exc);
       Some (if val > 0 then - exc_phase exc else val)
     }
   }"

definition func_round :: "TT_ExecContext \<Rightarrow> int \<Rightarrow> int \<Rightarrow> int option" where
  "func_round exc distance compensation =
     (case exc_func_round exc of
        RF_None \<Rightarrow> Some (Round_None distance compensation)
      | RF_To_Grid \<Rightarrow> Some (Round_To_Grid distance compensation)
      | RF_To_Half_Grid \<Rightarrow> Some (Round_To_Half_Grid distance compensation)
      | RF_Down_To_Grid \<Rightarrow> Some (Round_Down_To_Grid distance compensation)
      | RF_Up_To_Grid \<Rightarrow> Some (Round_Up_To_Grid distance compensation)
      | RF_To_Double_Grid \<Rightarrow> Some (Round_To_Double_Grid distance compensation)
      | RF_Super \<Rightarrow> Some (Round_Super exc distance compensation)
      | RF_Super_45 \<Rightarrow> Round_Super_45 exc distance compensation)"

definition SetSuperRound :: "int \<Rightarrow> int \<Rightarrow> TT_ExecContext \<Rightarrow> TT_ExecContext" where
  "SetSuperRound GridPeriod selector exc =
     (let period = (if selector AND 0xC0 = 0 then GridPeriod sdiv 2
                    else if selector AND 0xC0 = 0x80 then GridPeriod * 2
                    else GridPeriod);
          phase = (if selector AND 0x30 = 0 then 0
                   else if selector AND 0x30 = 0x10 then period sdiv 4
                   else if selector AND 0x30 = 0x20 then period sdiv 2
                   else period * 3 sdiv 4);
          threshold = (if selector AND 0x0F = 0 then period - 1
                       else ((selector AND 0x0F) - 4) * period sdiv 8)
      in exc\<lparr>exc_period := drop_bit 8 period, exc_phase := drop_bit 8 phase, exc_threshold := drop_bit 8 threshold\<rparr>)"

section \<open>Projection\<close>

definition Project :: "TT_ExecContext \<Rightarrow> int \<Rightarrow> int \<Rightarrow> int" where
  "Project exc dx dy = TT_DotFix14 dx dy (vx (gs_projVector (exc_GS exc))) (vy (gs_projVector (exc_GS exc)))"

definition Dual_Project :: "TT_ExecContext \<Rightarrow> int \<Rightarrow> int \<Rightarrow> int" where
  "Dual_Project exc dx dy = TT_DotFix14 dx dy (vx (gs_dualVector (exc_GS exc))) (vy (gs_dualVector (exc_GS exc)))"

definition Project_x :: "int \<Rightarrow> int \<Rightarrow> int" where "Project_x dx dy = dx"
definition Project_y :: "int \<Rightarrow> int \<Rightarrow> int" where "Project_y dx dy = dy"

definition project_by :: "TT_Project_Func \<Rightarrow> TT_ExecContext \<Rightarrow> int \<Rightarrow> int \<Rightarrow> int" where
  "project_by f exc dx dy =
     (case f of PF_x \<Rightarrow> Project_x dx dy | PF_y \<Rightarrow> Project_y dx dy
      | PF_Project \<Rightarrow> Project exc dx dy | PF_Dual_Project \<Rightarrow> Dual_Project exc dx dy)"

text \<open>\<open>PROJECT\<close>, \<open>DUALPROJ\<close>, \<open>FAST_PROJECT\<close>, \<open>FAST_DUALPROJ\<close>.\<close>

definition FAST_PROJECT :: "TT_ExecContext \<Rightarrow> FT_Vector \<Rightarrow> int" where
  "FAST_PROJECT exc v = project_by (exc_func_project exc) exc (vx v) (vy v)"

definition FAST_DUALPROJ :: "TT_ExecContext \<Rightarrow> FT_Vector \<Rightarrow> int" where
  "FAST_DUALPROJ exc v = project_by (exc_func_dualproj exc) exc (vx v) (vy v)"

definition vector_sub :: "FT_Vector \<Rightarrow> FT_Vector \<Rightarrow> FT_Vector" where
  "vector_sub v w = \<lparr>vx = SUB_LONG (vx v) (vx w), vy = SUB_LONG (vy v) (vy w)\<rparr>"

definition PROJECT :: "TT_ExecContext \<Rightarrow> FT_Vector \<Rightarrow> FT_Vector \<Rightarrow> int" where
  "PROJECT exc v1 v2 = FAST_PROJECT exc (vector_sub v1 v2)"

definition DUALPROJ :: "TT_ExecContext \<Rightarrow> FT_Vector \<Rightarrow> FT_Vector \<Rightarrow> int" where
  "DUALPROJ exc v1 v2 = FAST_DUALPROJ exc (vector_sub v1 v2)"

definition Compute_Funcs :: "TT_ExecContext \<Rightarrow> TT_ExecContext" where
  "Compute_Funcs exc =
     (let proj = gs_projVector (exc_GS exc); free = gs_freeVector (exc_GS exc); dual = gs_dualVector (exc_GS exc);
          F_dot_P = drop_bit 14 (vx proj * vx free + vy proj * vy free + 0x2000);
          mov = (if F_dot_P \<ge> 0x3FFE then \<lparr>vx = vx free * 4, vy = vy free * 4\<rparr>
                  else if - 0x400 < F_dot_P \<and> F_dot_P < 0x400 then \<lparr>vx = 0, vy = 0\<rparr>
                  else \<lparr>vx = vx free * 0x10000 sdiv F_dot_P, vy = vy free * 0x10000 sdiv F_dot_P\<rparr>)
      in exc\<lparr>exc_moveVector := mov,
             exc_func_move := (if F_dot_P \<ge> 0x3FFE \<and> vx free = 0x4000 then MF_X
                               else if F_dot_P \<ge> 0x3FFE \<and> vy free = 0x4000 then MF_Y else MF_Any),
             exc_func_project := (if vx proj = 0x4000 then PF_x else if vy proj = 0x4000 then PF_y else PF_Project),
             exc_func_dualproj := (if vx dual = 0x4000 then PF_x else if vy dual = 0x4000 then PF_y else PF_Dual_Project),
             exc_tt_metrics := (exc_tt_metrics exc)\<lparr>tm_ratio := 0\<rparr>\<rparr>)"

text \<open>\<open>R\<close> is the vector before; the null vector leaves it.\<close>

definition Normalize :: "int \<Rightarrow> int \<Rightarrow> FT_Vector \<Rightarrow> FT_Vector option" where
  "Normalize Vx Vy R =
     (if Vx = 0 \<and> Vy = 0 then Some R
      else do {
        (l, V) \<leftarrow> FT_Vector_NormLen \<lparr>vx = Vx, vy = Vy\<rparr>;
        Some \<lparr>vx = s16i (vx V sdiv 4), vy = s16i (vy V sdiv 4)\<rparr>
      })"

end
