(* ===== verification/Tt_Ins.thy ===== *)
theory Tt_Ins
  imports Tt_Exec_Funcs
begin

text \<open>
  The instructions of the bytecode interpreter that do not touch points: stack and arithmetic,
  storage and control values, control flow, and the graphics state. An instruction finds its
  arguments at \<open>args\<close>; the results it leaves there are what \<open>new_top\<close> keeps.
\<close>

section \<open>Stack and arithmetic\<close>

definition Ins_MPPEM :: "TT_ExecContext \<Rightarrow> TT_ExecContext option" where
  "Ins_MPPEM exc = (let (p, exc) = func_cur_ppem exc in set_arg 0 p exc)"

text \<open>\<open>NO_SUBPIXEL_HINTING\<close>, \<open>SUBPIXEL_HINTING_MINIMAL\<close>.\<close>

definition no_subpixel_hinting :: "TT_ExecContext \<Rightarrow> bool" where
  "no_subpixel_hinting exc \<longleftrightarrow> fe_interpreter_version (exc_env exc) = 35"

definition subpixel_hinting_minimal :: "TT_ExecContext \<Rightarrow> bool" where
  "subpixel_hinting_minimal exc \<longleftrightarrow> fe_interpreter_version (exc_env exc) = 40"

definition Ins_MPS :: "TT_ExecContext \<Rightarrow> TT_ExecContext option" where
  "Ins_MPS exc =
     (if no_subpixel_hinting exc then let (p, exc) = func_cur_ppem exc in set_arg 0 p exc
      else set_arg 0 (fe_pointSize (exc_env exc)) exc)"

definition Ins_DUP :: "TT_ExecContext \<Rightarrow> TT_ExecContext option" where
  "Ins_DUP exc = do { a \<leftarrow> arg exc 0; set_arg 1 a exc }"

definition Ins_CLEAR :: "TT_ExecContext \<Rightarrow> TT_ExecContext option" where
  "Ins_CLEAR exc = Some (exc\<lparr>exc_new_top := 0\<rparr>)"

definition Ins_SWAP :: "TT_ExecContext \<Rightarrow> TT_ExecContext option" where
  "Ins_SWAP exc = do { l \<leftarrow> arg exc 0; a \<leftarrow> arg exc 1; exc \<leftarrow> set_arg 0 a exc; set_arg 1 l exc }"

definition Ins_DEPTH :: "TT_ExecContext \<Rightarrow> TT_ExecContext option" where
  "Ins_DEPTH exc = set_arg 0 (int (exc_top exc)) exc"

text \<open>\<open>args[0] = f( args[0] )\<close> and \<open>args[0] = f( args[0], args[1] )\<close>.\<close>

definition unary :: "(int \<Rightarrow> int) \<Rightarrow> TT_ExecContext \<Rightarrow> TT_ExecContext option" where
  "unary f exc = do { a \<leftarrow> arg exc 0; set_arg 0 (f a) exc }"

definition binary :: "(int \<Rightarrow> int \<Rightarrow> int) \<Rightarrow> TT_ExecContext \<Rightarrow> TT_ExecContext option" where
  "binary f exc = do { a \<leftarrow> arg exc 0; b \<leftarrow> arg exc 1; set_arg 0 (f a b) exc }"

definition c_bool :: "bool \<Rightarrow> int" where
  "c_bool b = (if b then 1 else 0)"

definition Ins_LT :: "TT_ExecContext \<Rightarrow> TT_ExecContext option" where
  "Ins_LT = binary (\<lambda>a b. c_bool (a < b))"

definition Ins_LTEQ :: "TT_ExecContext \<Rightarrow> TT_ExecContext option" where
  "Ins_LTEQ = binary (\<lambda>a b. c_bool (a \<le> b))"

definition Ins_GT :: "TT_ExecContext \<Rightarrow> TT_ExecContext option" where
  "Ins_GT = binary (\<lambda>a b. c_bool (a > b))"

definition Ins_GTEQ :: "TT_ExecContext \<Rightarrow> TT_ExecContext option" where
  "Ins_GTEQ = binary (\<lambda>a b. c_bool (a \<ge> b))"

definition Ins_EQ :: "TT_ExecContext \<Rightarrow> TT_ExecContext option" where
  "Ins_EQ = binary (\<lambda>a b. c_bool (a = b))"

definition Ins_NEQ :: "TT_ExecContext \<Rightarrow> TT_ExecContext option" where
  "Ins_NEQ = binary (\<lambda>a b. c_bool (a \<noteq> b))"

definition Ins_AND :: "TT_ExecContext \<Rightarrow> TT_ExecContext option" where
  "Ins_AND = binary (\<lambda>a b. c_bool (a \<noteq> 0 \<and> b \<noteq> 0))"

definition Ins_OR :: "TT_ExecContext \<Rightarrow> TT_ExecContext option" where
  "Ins_OR = binary (\<lambda>a b. c_bool (a \<noteq> 0 \<or> b \<noteq> 0))"

definition Ins_NOT :: "TT_ExecContext \<Rightarrow> TT_ExecContext option" where
  "Ins_NOT = unary (\<lambda>a. c_bool (a = 0))"

definition Ins_ADD :: "TT_ExecContext \<Rightarrow> TT_ExecContext option" where
  "Ins_ADD = binary ADD_LONG"

definition Ins_SUB :: "TT_ExecContext \<Rightarrow> TT_ExecContext option" where
  "Ins_SUB = binary SUB_LONG"

definition Ins_MUL :: "TT_ExecContext \<Rightarrow> TT_ExecContext option" where
  "Ins_MUL = binary (\<lambda>a b. FT_MulDiv a b 64)"

definition Ins_ABS :: "TT_ExecContext \<Rightarrow> TT_ExecContext option" where
  "Ins_ABS = unary (\<lambda>a. if a < 0 then NEG_LONG a else a)"

definition Ins_NEG :: "TT_ExecContext \<Rightarrow> TT_ExecContext option" where
  "Ins_NEG = unary NEG_LONG"

definition Ins_FLOOR :: "TT_ExecContext \<Rightarrow> TT_ExecContext option" where
  "Ins_FLOOR = unary FT_PIX_FLOOR"

definition Ins_CEILING :: "TT_ExecContext \<Rightarrow> TT_ExecContext option" where
  "Ins_CEILING = unary FT_PIX_CEIL_LONG"

definition Ins_MAX :: "TT_ExecContext \<Rightarrow> TT_ExecContext option" where
  "Ins_MAX = binary (\<lambda>a b. if b > a then b else a)"

definition Ins_MIN :: "TT_ExecContext \<Rightarrow> TT_ExecContext option" where
  "Ins_MIN = binary (\<lambda>a b. if b < a then b else a)"

definition Ins_ODD :: "TT_ExecContext \<Rightarrow> TT_ExecContext option" where
  "Ins_ODD exc = do { a \<leftarrow> arg exc 0; r \<leftarrow> func_round exc a 0; set_arg 0 (c_bool (r AND 64 = 64)) exc }"

definition Ins_EVEN :: "TT_ExecContext \<Rightarrow> TT_ExecContext option" where
  "Ins_EVEN exc = do { a \<leftarrow> arg exc 0; r \<leftarrow> func_round exc a 0; set_arg 0 (c_bool (r AND 64 = 0)) exc }"

definition Ins_DIV :: "TT_ExecContext \<Rightarrow> TT_ExecContext option" where
  "Ins_DIV exc = do {
     a \<leftarrow> arg exc 0; b \<leftarrow> arg exc 1;
     if b = 0 then Some (fail_with Divide_By_Zero exc) else set_arg 0 (FT_MulDiv_No_Round a 64 b) exc
   }"

definition compensation :: "TT_ExecContext \<Rightarrow> int option" where
  "compensation exc = get_at (gs_compensation (exc_GS exc)) (exc_opcode exc mod 4)"

definition Ins_ROUND :: "TT_ExecContext \<Rightarrow> TT_ExecContext option" where
  "Ins_ROUND exc = do { a \<leftarrow> arg exc 0; c \<leftarrow> compensation exc; r \<leftarrow> func_round exc a c; set_arg 0 r exc }"

definition Ins_NROUND :: "TT_ExecContext \<Rightarrow> TT_ExecContext option" where
  "Ins_NROUND exc = do { a \<leftarrow> arg exc 0; c \<leftarrow> compensation exc; set_arg 0 (Round_None a c) exc }"

text \<open>\<open>args[-L]\<close>; \<open>FT_ARRAY_MOVE\<close> closes the gap.\<close>

definition Ins_MINDEX :: "TT_ExecContext \<Rightarrow> TT_ExecContext option" where
  "Ins_MINDEX exc = do {
     l \<leftarrow> arg exc 0;
     if l \<le> 0 \<or> l > int (exc_args exc) then Some (fail_pedantic Invalid_Reference exc)
     else let a = exc_args exc; i = a - nat l; s = exc_stack exc
       in do { k \<leftarrow> get_at s i; Some (exc\<lparr>exc_stack := take i s @ take (a - i - 1) (drop (i + 1) s) @ [k] @ drop a s\<rparr>) }
   }"

definition Ins_CINDEX :: "TT_ExecContext \<Rightarrow> TT_ExecContext option" where
  "Ins_CINDEX exc = do {
     l \<leftarrow> arg exc 0;
     if l \<le> 0 \<or> l > int (exc_args exc) then set_arg 0 0 (fail_pedantic Invalid_Reference exc)
     else do { k \<leftarrow> get_at (exc_stack exc) (exc_args exc - nat l); set_arg 0 k exc }
   }"

definition Ins_ROLL :: "TT_ExecContext \<Rightarrow> TT_ExecContext option" where
  "Ins_ROLL exc = do {
     a \<leftarrow> arg exc 2; b \<leftarrow> arg exc 1; c \<leftarrow> arg exc 0;
     exc \<leftarrow> set_arg 2 c exc; exc \<leftarrow> set_arg 1 a exc; set_arg 0 b exc
   }"

definition Ins_GETDATA :: "TT_ExecContext \<Rightarrow> TT_ExecContext option" where
  "Ins_GETDATA exc = set_arg 0 17 exc"

text \<open>Storing a list at \<open>args\<close>.\<close>

fun set_args :: "nat \<Rightarrow> int list \<Rightarrow> TT_ExecContext \<Rightarrow> TT_ExecContext option" where
  "set_args k [] exc = Some exc"
| "set_args k (v # vs) exc = do { exc \<leftarrow> set_arg k v exc; set_args (k + 1) vs exc }"

text \<open>\<open>BOUNDS( L, exc->stackSize + 1 - exc->top )\<close>.\<close>

definition stack_full :: "nat \<Rightarrow> TT_ExecContext \<Rightarrow> bool" where
  "stack_full l exc \<longleftrightarrow> l \<ge> length (exc_stack exc) + 1 - exc_top exc"

definition Ins_GETVARIATION :: "nat \<Rightarrow> int list option \<Rightarrow> TT_ExecContext \<Rightarrow> TT_ExecContext option" where
  "Ins_GETVARIATION num_axes coords exc =
     (if stack_full num_axes exc then Some (fail_with Stack_Overflow exc)
      else do {
        vs \<leftarrow> (case coords of
                  Some c \<Rightarrow> if num_axes \<le> length c then Some (map (drop_bit 2) (take num_axes c)) else None
                | None \<Rightarrow> Some (replicate num_axes 0));
        exc \<leftarrow> set_args 0 vs exc;
        Some (exc\<lparr>exc_new_top := exc_new_top exc + num_axes\<rparr>)
      })"

definition bit_set :: "int \<Rightarrow> int \<Rightarrow> bool" where
  "bit_set a m \<longleftrightarrow> a AND m \<noteq> 0"

definition Ins_GETINFO :: "TT_ExecContext \<Rightarrow> TT_ExecContext option" where
  "Ins_GETINFO exc = do {
     a \<leftarrow> arg exc 0;
     let env = exc_env exc;
     let tm = exc_tt_metrics exc;
     let k = (if bit_set a 1 then int (fe_interpreter_version env) else 0);
     let k = (if bit_set a 2 \<and> tm_rotated tm then k OR 0x100 else k);
     let k = (if bit_set a 4 \<and> tm_stretched tm then k OR 0x200 else k);
     let k = (if bit_set a 8 \<and> fe_blend env \<noteq> None then k OR 0x400 else k);
     let k = (if bit_set a 32 \<and> fe_grayscale env then k OR 0x1000 else k);
     let k = (if subpixel_hinting_minimal exc \<and> fe_mode env \<noteq> FT_RENDER_MODE_MONO
              then let k = (if bit_set a 64 then k OR 0x2000 else k);
                       k = (if bit_set a 256 \<and> fe_mode env = FT_RENDER_MODE_LCD_V then k OR 0x8000 else k);
                       k = (if bit_set a 1024 then k OR 0x20000 else k);
                       k = (if bit_set a 2048 \<and> fe_mode env \<noteq> FT_RENDER_MODE_MONO then k OR 0x40000 else k)
                   in if bit_set a 4096 \<and> fe_mode env \<noteq> FT_RENDER_MODE_MONO \<and> fe_mode env \<noteq> FT_RENDER_MODE_LCD \<and>
                         fe_mode env \<noteq> FT_RENDER_MODE_LCD_V then k OR 0x80000 else k
              else k);
     set_arg 0 k exc
   }"

section \<open>Storage and control values\<close>

text \<open>\<open>BOUNDSL( I, n )\<close> on \<open>(FT_ULong)args[0]\<close>.\<close>

definition ulong_of :: "int \<Rightarrow> nat" where
  "ulong_of a = nat (u64 a)"

definition Ins_RS :: "TT_ExecContext \<Rightarrow> TT_ExecContext option" where
  "Ins_RS exc = do {
     a \<leftarrow> arg exc 0;
     if ulong_of a \<ge> length (exc_storage exc)
     then if pedantic exc then Some (fail_with Invalid_Reference exc) else set_arg 0 0 exc
     else do { v \<leftarrow> get_at (exc_storage exc) (ulong_of a); set_arg 0 v exc }
   }"

definition Ins_WS :: "TT_ExecContext \<Rightarrow> TT_ExecContext option" where
  "Ins_WS exc = do {
     a \<leftarrow> arg exc 0;
     if ulong_of a \<ge> length (exc_storage exc) then Some (fail_pedantic Invalid_Reference exc)
     else if fe_iniRange (exc_env exc) = tt_coderange_glyph \<and> exc_glyfStorage exc = None \<and> \<not> fe_grant_storage (exc_env exc)
     then Some (fail_with Out_Of_Memory exc)
     else do {
       let exc = (if fe_iniRange (exc_env exc) = tt_coderange_glyph \<and> exc_glyfStorage exc = None
                  then exc\<lparr>exc_error := None, exc_glyfStorage := Some (exc_size_storage exc)\<rparr> else exc);
       v \<leftarrow> arg exc 1;
       set_storage (ulong_of a) v exc
     }
   }"

definition Ins_WCVTP :: "TT_ExecContext \<Rightarrow> TT_ExecContext option" where
  "Ins_WCVTP exc = do {
     a \<leftarrow> arg exc 0;
     if ulong_of a \<ge> length (exc_cvt exc) then Some (fail_pedantic Invalid_Reference exc)
     else do { v \<leftarrow> arg exc 1; func_write_cvt (ulong_of a) v exc }
   }"

definition Ins_WCVTF :: "TT_ExecContext \<Rightarrow> TT_ExecContext option" where
  "Ins_WCVTF exc = do {
     a \<leftarrow> arg exc 0;
     if ulong_of a \<ge> length (exc_cvt exc) then Some (fail_pedantic Invalid_Reference exc)
     else do { v \<leftarrow> arg exc 1; set_cvt (ulong_of a) (FT_MulFix v (tm_scale (exc_tt_metrics exc))) exc }
   }"

definition Ins_RCVT :: "TT_ExecContext \<Rightarrow> TT_ExecContext option" where
  "Ins_RCVT exc = do {
     a \<leftarrow> arg exc 0;
     if ulong_of a \<ge> length (exc_cvt exc)
     then if pedantic exc then Some (fail_with Invalid_Reference exc) else set_arg 0 0 exc
     else do { (v, exc) \<leftarrow> func_read_cvt exc (ulong_of a); set_arg 0 v exc }
   }"

section \<open>Control flow\<close>

definition Ins_SLOOP :: "TT_ExecContext \<Rightarrow> TT_ExecContext option" where
  "Ins_SLOOP exc = do {
     a \<leftarrow> arg exc 0;
     if a < 0 then Some (fail_with Bad_Argument exc)
     else Some (exc\<lparr>exc_GS := (exc_GS exc)\<lparr>gs_loop := if a > 0xFFFF then 0xFFFF else a\<rparr>\<rparr>)
   }"

text \<open>The lengths of the instructions; those of \<open>NPUSHB\<close> and \<open>NPUSHW\<close> depend on the next byte.\<close>

definition opcode_length :: "nat \<Rightarrow> int" where
  "opcode_length opcode =
     (if opcode = 0x40 then -1 else if opcode = 0x41 then -2
      else if 0xB0 \<le> opcode \<and> opcode \<le> 0xB7 then int opcode - 0xB0 + 2
      else if 0xB8 \<le> opcode \<and> opcode \<le> 0xBF then 2 * (int opcode - 0xB8) + 3
      else 1)"

text \<open>The byte at an instruction pointer.\<close>

definition code_at :: "TT_ExecContext \<Rightarrow> int \<Rightarrow> nat option" where
  "code_at exc ip = (if ip < 0 then None else map_option unat (get_at (exc_code exc) (nat ip)))"

text \<open>\<open>SkipCode\<close>: whether there is a next instruction, and the context at it.\<close>

definition SkipCode :: "TT_ExecContext \<Rightarrow> (bool \<times> TT_ExecContext) option" where
  "SkipCode exc = do {
     let exc = exc\<lparr>exc_IP := exc_IP exc + exc_length exc\<rparr>;
     if exc_IP exc < int (length (exc_code exc))
     then do {
       op \<leftarrow> code_at exc (exc_IP exc);
       let exc = exc\<lparr>exc_opcode := op, exc_length := opcode_length op\<rparr>;
       if exc_length exc < 0
       then if exc_IP exc + 1 \<ge> int (length (exc_code exc)) then Some (False, fail_with Code_Overflow exc)
            else do {
              n \<leftarrow> code_at exc (exc_IP exc + 1);
              Some (True, exc\<lparr>exc_length := 2 - exc_length exc * int n\<rparr>)
            }
       else Some (True, exc)
     }
     else Some (False, fail_with Code_Overflow exc)
   }"

text \<open>
  The loops over \<open>SkipCode\<close>. It moves forward, or reports the end of the code: the code that is left
  bounds the number of rounds, and more than \<open>length code + 1\<close> of them are never needed.
\<close>

fun skip_if :: "nat \<Rightarrow> int \<Rightarrow> TT_ExecContext \<Rightarrow> TT_ExecContext option" where
  "skip_if 0 nIfs exc = None"
| "skip_if (Suc k) nIfs exc = do {
     (success, exc) \<leftarrow> SkipCode exc;
     if \<not> success then Some exc
     else if exc_opcode exc = 0x58 then skip_if k (nIfs + 1) exc
     else if exc_opcode exc = 0x1B then (if nIfs = 1 then Some exc else skip_if k nIfs exc)
     else if exc_opcode exc = 0x59 then (if nIfs - 1 = 0 then Some exc else skip_if k (nIfs - 1) exc)
     else skip_if k nIfs exc
   }"

fun skip_else :: "nat \<Rightarrow> int \<Rightarrow> TT_ExecContext \<Rightarrow> TT_ExecContext option" where
  "skip_else 0 nIfs exc = None"
| "skip_else (Suc k) nIfs exc = do {
     (success, exc) \<leftarrow> SkipCode exc;
     if \<not> success then Some exc
     else if exc_opcode exc = 0x58 then skip_else k (nIfs + 1) exc
     else if exc_opcode exc = 0x59 then (if nIfs - 1 = 0 then Some exc else skip_else k (nIfs - 1) exc)
     else skip_else k nIfs exc
   }"

definition skip_rounds :: "TT_ExecContext \<Rightarrow> nat" where
  "skip_rounds exc = length (exc_code exc) + 2"

definition Ins_IF :: "TT_ExecContext \<Rightarrow> TT_ExecContext option" where
  "Ins_IF exc = do { a \<leftarrow> arg exc 0; if a \<noteq> 0 then Some exc else skip_if (skip_rounds exc) 1 exc }"

definition Ins_ELSE :: "TT_ExecContext \<Rightarrow> TT_ExecContext option" where
  "Ins_ELSE exc = skip_else (skip_rounds exc) 1 exc"

text \<open>The definition that a call record points to.\<close>

definition def_at :: "TT_ExecContext \<Rightarrow> def_ref \<Rightarrow> TT_DefRecord option" where
  "def_at exc d = (case d of FDef i \<Rightarrow> get_at (exc_FDefs exc) i | IDef i \<Rightarrow> get_at (exc_IDefs exc) i)"

definition Ins_JMPR :: "TT_ExecContext \<Rightarrow> TT_ExecContext option" where
  "Ins_JMPR exc = do {
     a \<leftarrow> arg exc 0;
     if a = 0 \<and> exc_args exc = 0 then Some (fail_with Bad_Argument exc)
     else do {
       let exc = exc\<lparr>exc_IP := ADD_LONG (exc_IP exc) a\<rparr>;
       bad \<leftarrow> (if exc_IP exc < 0 then Some True
               else if exc_callTop exc > 0
               then do {
                 call \<leftarrow> get_at (exc_callStack exc) (exc_callTop exc - 1);
                 d \<leftarrow> def_at exc (Def call);
                 Some (exc_IP exc > def_end d)
               }
               else Some False);
       if bad then Some (fail_with Bad_Argument exc)
       else let exc = exc\<lparr>exc_length := 0\<rparr>
         in if a < 0
            then let exc = exc\<lparr>exc_neg_jump_counter := exc_neg_jump_counter exc + 1\<rparr>
                 in Some (if exc_neg_jump_counter exc > exc_neg_jump_counter_max exc then fail_with Execution_Too_Long exc else exc)
            else Some exc
     }
   }"

definition Ins_JROT :: "TT_ExecContext \<Rightarrow> TT_ExecContext option" where
  "Ins_JROT exc = do { b \<leftarrow> arg exc 1; if b \<noteq> 0 then Ins_JMPR exc else Some exc }"

definition Ins_JROF :: "TT_ExecContext \<Rightarrow> TT_ExecContext option" where
  "Ins_JROF exc = do { b \<leftarrow> arg exc 1; if b = 0 then Ins_JMPR exc else Some exc }"

text \<open>The index of the first of \<open>n\<close> definitions that satisfies \<open>P\<close>; \<open>n\<close> when there is none.\<close>

fun def_find :: "(TT_DefRecord \<Rightarrow> bool) \<Rightarrow> nat \<Rightarrow> TT_DefRecord list \<Rightarrow> nat option" where
  "def_find P 0 ds = Some 0"
| "def_find P (Suc n) (d # ds) = (if P d then Some 0 else map_option Suc (def_find P n ds))"
| "def_find P (Suc n) [] = None"

text \<open>Skipping the body of a definition, up to its \<open>ENDF\<close>; \<open>set_end\<close> notes where that is.\<close>

fun skip_def :: "nat \<Rightarrow> (int \<Rightarrow> TT_ExecContext \<Rightarrow> TT_ExecContext) \<Rightarrow> TT_ExecContext \<Rightarrow> TT_ExecContext option" where
  "skip_def 0 set_end exc = None"
| "skip_def (Suc k) set_end exc = do {
     (success, exc) \<leftarrow> SkipCode exc;
     if \<not> success then Some exc
     else if exc_opcode exc = 0x89 \<or> exc_opcode exc = 0x2C then Some (fail_with Nested_DEFS exc)
     else if exc_opcode exc = 0x2D then Some (set_end (exc_IP exc) exc)
     else skip_def k set_end exc
   }"

definition set_FDef_end :: "nat \<Rightarrow> int \<Rightarrow> TT_ExecContext \<Rightarrow> TT_ExecContext" where
  "set_FDef_end i ip exc = exc\<lparr>exc_FDefs := (exc_FDefs exc)[i := (exc_FDefs exc ! i)\<lparr>def_end := ip\<rparr>]\<rparr>"

definition set_IDef_end :: "nat \<Rightarrow> int \<Rightarrow> TT_ExecContext \<Rightarrow> TT_ExecContext" where
  "set_IDef_end i ip exc = exc\<lparr>exc_IDefs := (exc_IDefs exc)[i := (exc_IDefs exc ! i)\<lparr>def_end := ip\<rparr>]\<rparr>"

definition Ins_FDEF :: "TT_ExecContext \<Rightarrow> TT_ExecContext option" where
  "Ins_FDEF exc =
     (if fe_iniRange (exc_env exc) = tt_coderange_glyph then Some (fail_with DEF_In_Glyf_Bytecode exc)
      else do {
        a \<leftarrow> arg exc 0;
        let n = ulong_of a;
        rec \<leftarrow> def_find (\<lambda>d. def_opc d = n) (exc_numFDefs exc) (exc_FDefs exc);
        if rec = exc_numFDefs exc \<and> exc_numFDefs exc \<ge> fe_maxFDefs (exc_env exc)
        then Some (fail_with Too_Many_Function_Defs exc)
        else do {
          let exc = (if rec = exc_numFDefs exc then exc\<lparr>exc_numFDefs := exc_numFDefs exc + 1\<rparr> else exc);
          if n > 0xFFFF then Some (fail_with Too_Many_Function_Defs exc)
          else do {
            old \<leftarrow> get_at (exc_FDefs exc) rec;
            defs \<leftarrow> put_at (exc_FDefs exc) rec
              (old\<lparr>def_range := exc_curRange exc, def_opc := n, def_start := exc_IP exc + 1, def_active := True\<rparr>);
            let exc = exc\<lparr>exc_FDefs := defs, exc_maxFunc := if n > exc_maxFunc exc then n else exc_maxFunc exc\<rparr>;
            skip_def (skip_rounds exc) (set_FDef_end rec) exc
          }
        }
      })"

definition Ins_IDEF :: "TT_ExecContext \<Rightarrow> TT_ExecContext option" where
  "Ins_IDEF exc =
     (if fe_iniRange (exc_env exc) = tt_coderange_glyph then Some (fail_with DEF_In_Glyf_Bytecode exc)
      else do {
        a \<leftarrow> arg exc 0;
        def \<leftarrow> def_find (\<lambda>d. def_opc d = ulong_of a) (exc_numIDefs exc) (exc_IDefs exc);
        if def = exc_numIDefs exc \<and> exc_numIDefs exc \<ge> fe_maxIDefs (exc_env exc)
        then Some (fail_with Too_Many_Instruction_Defs exc)
        else do {
          let exc = (if def = exc_numIDefs exc then exc\<lparr>exc_numIDefs := exc_numIDefs exc + 1\<rparr> else exc);
          if 0 > a \<or> a > 0xFF then Some (fail_with Too_Many_Instruction_Defs exc)
          else do {
            old \<leftarrow> get_at (exc_IDefs exc) def;
            defs \<leftarrow> put_at (exc_IDefs exc) def
              (old\<lparr>def_opc := nat a, def_start := exc_IP exc + 1, def_range := exc_curRange exc, def_active := True\<rparr>);
            let exc = exc\<lparr>exc_IDefs := defs, exc_maxIns := if nat a > exc_maxIns exc then nat a else exc_maxIns exc\<rparr>;
            skip_def (skip_rounds exc) (set_IDef_end def) exc
          }
        }
      })"

definition Ins_ENDF :: "TT_ExecContext \<Rightarrow> TT_ExecContext option" where
  "Ins_ENDF exc =
     (if exc_callTop exc \<le> 0 then Some (fail_with ENDF_In_Exec_Stream exc)
      else do {
        let top = exc_callTop exc - 1;
        rec \<leftarrow> get_at (exc_callStack exc) top;
        let rec = rec\<lparr>Cur_Count := Cur_Count rec - 1\<rparr>;
        stack \<leftarrow> put_at (exc_callStack exc) top rec;
        let exc = exc\<lparr>exc_callTop := top, exc_callStack := stack\<rparr>;
        if Cur_Count rec > 0
        then do {
          d \<leftarrow> def_at exc (Def rec);
          Some (exc\<lparr>exc_callTop := top + 1, exc_IP := def_start d, exc_length := 0\<rparr>)
        }
        else Ins_Goto_CodeRange (Caller_Range rec) (Caller_IP rec) exc
      })"

text \<open>The definition of function \<open>F\<close>; \<open>None\<close> inside stands for \<open>goto Fail\<close>.\<close>

definition find_function :: "nat \<Rightarrow> TT_ExecContext \<Rightarrow> (nat \<times> TT_DefRecord) option option" where
  "find_function F exc =
     (if F \<ge> add32 (exc_maxFunc exc) 1 then Some None
      else do {
        quick \<leftarrow> (if add32 (exc_maxFunc exc) 1 \<noteq> exc_numFDefs exc then Some False
                  else do { d \<leftarrow> get_at (exc_FDefs exc) F; Some (def_opc d = F) });
        i \<leftarrow> (if quick then Some F else def_find (\<lambda>d. def_opc d = F) (exc_numFDefs exc) (exc_FDefs exc));
        if \<not> quick \<and> i = exc_numFDefs exc then Some None
        else do { d \<leftarrow> get_at (exc_FDefs exc) i; Some (if def_active d then Some (i, d) else None) }
      })"

definition push_call :: "int \<Rightarrow> def_ref \<Rightarrow> TT_ExecContext \<Rightarrow> TT_ExecContext option" where
  "push_call count d exc = do {
     stack \<leftarrow> put_at (exc_callStack exc) (exc_callTop exc)
       \<lparr>Caller_Range = exc_curRange exc, Caller_IP = exc_IP exc + 1, Cur_Count = count, Def = d\<rparr>;
     Some (exc\<lparr>exc_callStack := stack, exc_callTop := exc_callTop exc + 1\<rparr>)
   }"

text \<open>The test \<open>!exc->FDefs\<close> of the code only matters when there are no definitions.\<close>

definition Ins_CALL :: "TT_ExecContext \<Rightarrow> TT_ExecContext option" where
  "Ins_CALL exc = do {
     a \<leftarrow> arg exc 0;
     f \<leftarrow> find_function (ulong_of a) exc;
     case f of
       None \<Rightarrow> Some (fail_with Invalid_Reference exc)
     | Some (i, d) \<Rightarrow>
         if exc_callTop exc \<ge> length (exc_callStack exc) then Some (fail_with Stack_Overflow exc)
         else do { exc \<leftarrow> push_call 1 (FDef i) exc; Ins_Goto_CodeRange (def_range d) (def_start d) exc }
   }"

definition Ins_LOOPCALL :: "TT_ExecContext \<Rightarrow> TT_ExecContext option" where
  "Ins_LOOPCALL exc = do {
     a \<leftarrow> arg exc 1;
     f \<leftarrow> find_function (ulong_of a) exc;
     case f of
       None \<Rightarrow> Some (fail_with Invalid_Reference exc)
     | Some (i, d) \<Rightarrow>
         if exc_callTop exc \<ge> length (exc_callStack exc) then Some (fail_with Stack_Overflow exc)
         else do {
           n \<leftarrow> arg exc 0;
           if n > 0
           then do {
             exc \<leftarrow> push_call (s32 n) (FDef i) exc;
             exc \<leftarrow> Ins_Goto_CodeRange (def_range d) (def_start d) exc;
             let exc = exc\<lparr>exc_loopcall_counter := nat (u64 (int (exc_loopcall_counter exc) + n))\<rparr>;
             Some (if exc_loopcall_counter exc > exc_loopcall_counter_max exc then fail_with Execution_Too_Long exc else exc)
           }
           else Some exc
         }
   }"

definition Ins_UNKNOWN :: "TT_ExecContext \<Rightarrow> TT_ExecContext option" where
  "Ins_UNKNOWN exc = do {
     i \<leftarrow> def_find (\<lambda>d. def_opc d mod 256 = exc_opcode exc \<and> def_active d) (exc_numIDefs exc) (exc_IDefs exc);
     if i = exc_numIDefs exc then Some (fail_with Invalid_Opcode exc)
     else if exc_callTop exc \<ge> length (exc_callStack exc) then Some (fail_with Stack_Overflow exc)
     else do {
       d \<leftarrow> get_at (exc_IDefs exc) i;
       exc \<leftarrow> push_call 1 (IDef i) exc;
       Ins_Goto_CodeRange (def_range d) (def_start d) exc
     }
   }"

section \<open>Pushing from the code\<close>

text \<open>\<open>n\<close> bytes, or words, of code from \<open>ip\<close> on.\<close>

fun code_bytes :: "nat \<Rightarrow> int \<Rightarrow> TT_ExecContext \<Rightarrow> int list option" where
  "code_bytes 0 ip exc = Some []"
| "code_bytes (Suc n) ip exc = do { b \<leftarrow> code_at exc ip; vs \<leftarrow> code_bytes n (ip + 1) exc; Some (int b # vs) }"

fun code_words :: "nat \<Rightarrow> int \<Rightarrow> TT_ExecContext \<Rightarrow> int list option" where
  "code_words 0 ip exc = Some []"
| "code_words (Suc n) ip exc = do {
     hi \<leftarrow> code_at exc ip; lo \<leftarrow> code_at exc (ip + 1);
     vs \<leftarrow> code_words n (ip + 2) exc;
     Some ((s16i (int hi * 256) OR int lo) # vs)
   }"

definition Ins_NPUSHB :: "TT_ExecContext \<Rightarrow> TT_ExecContext option" where
  "Ins_NPUSHB exc = do {
     let ip = exc_IP exc + 1;
     if ip \<ge> int (length (exc_code exc)) then Some (fail_with Code_Overflow exc)
     else do {
       l \<leftarrow> code_at exc ip;
       if ip + int l \<ge> int (length (exc_code exc)) then Some (fail_with Code_Overflow exc)
       else if stack_full l exc then Some (fail_with Stack_Overflow exc)
       else do {
         vs \<leftarrow> code_bytes l (ip + 1) exc;
         exc \<leftarrow> set_args 0 vs exc;
         Some (exc\<lparr>exc_new_top := exc_new_top exc + l, exc_IP := ip + int l\<rparr>)
       }
     }
   }"

definition Ins_NPUSHW :: "TT_ExecContext \<Rightarrow> TT_ExecContext option" where
  "Ins_NPUSHW exc = do {
     let ip = exc_IP exc + 1;
     if ip \<ge> int (length (exc_code exc)) then Some (fail_with Code_Overflow exc)
     else do {
       l \<leftarrow> code_at exc ip;
       if ip + 2 * int l \<ge> int (length (exc_code exc)) then Some (fail_with Code_Overflow exc)
       else if stack_full l exc then Some (fail_with Stack_Overflow exc)
       else do {
         vs \<leftarrow> code_words l (ip + 1) exc;
         exc \<leftarrow> set_args 0 vs exc;
         Some (exc\<lparr>exc_new_top := exc_new_top exc + l, exc_IP := ip + 2 * int l\<rparr>)
       }
     }
   }"

definition Ins_PUSHB :: "TT_ExecContext \<Rightarrow> TT_ExecContext option" where
  "Ins_PUSHB exc = do {
     let l = exc_opcode exc - 0xB0 + 1;
     if exc_IP exc + int l \<ge> int (length (exc_code exc)) then Some (fail_with Code_Overflow exc)
     else if stack_full l exc then Some (fail_with Stack_Overflow exc)
     else do {
       vs \<leftarrow> code_bytes l (exc_IP exc + 1) exc;
       exc \<leftarrow> set_args 0 vs exc;
       Some (exc\<lparr>exc_IP := exc_IP exc + int l\<rparr>)
     }
   }"

definition Ins_PUSHW :: "TT_ExecContext \<Rightarrow> TT_ExecContext option" where
  "Ins_PUSHW exc = do {
     let l = exc_opcode exc - 0xB8 + 1;
     if exc_IP exc + 2 * int l \<ge> int (length (exc_code exc)) then Some (fail_with Code_Overflow exc)
     else if stack_full l exc then Some (fail_with Stack_Overflow exc)
     else do {
       vs \<leftarrow> code_words l (exc_IP exc + 1) exc;
       exc \<leftarrow> set_args 0 vs exc;
       Some (exc\<lparr>exc_IP := exc_IP exc + 2 * int l\<rparr>)
     }
   }"

end
