(* ===== verification/Tt_Ins_GS.thy ===== *)
theory Tt_Ins_GS
  imports Tt_Ins
begin

text \<open>
  The instructions of \<open>src/truetype/ttinterp.c\<close> that set or read the graphics state: vectors, reference
  points, zones, rounding state, cut-ins and controls.
\<close>

section \<open>Vectors\<close>

text \<open>\<open>(FT_UShort)args[k]\<close> and \<open>(FT_Short)args[k]\<close>.\<close>

definition arg_ushort :: "TT_ExecContext \<Rightarrow> nat \<Rightarrow> nat option" where
  "arg_ushort exc k = map_option u16_of_int (arg exc k)"

definition arg_short :: "TT_ExecContext \<Rightarrow> nat \<Rightarrow> int option" where
  "arg_short exc k = map_option s16i (arg exc k)"

definition set_GS :: "(TT_GraphicsState \<Rightarrow> TT_GraphicsState) \<Rightarrow> TT_ExecContext \<Rightarrow> TT_ExecContext" where
  "set_GS f exc = exc\<lparr>exc_GS := f (exc_GS exc)\<rparr>"

text \<open>The direction of the line from \<open>v2\<close> to \<open>v1\<close>, or at right angles to it when the opcode is odd.\<close>

definition line_vector :: "FT_Vector \<Rightarrow> FT_Vector \<Rightarrow> nat \<Rightarrow> int \<times> int \<times> nat" where
  "line_vector v1 v2 opcode =
     (let a = SUB_LONG (vx v1) (vx v2); b = SUB_LONG (vy v1) (vy v2);
          (a, b, opcode) = (if a = 0 \<and> b = 0 then (0x4000, b, 0) else (a, b, opcode))
      in if odd opcode then (NEG_LONG b, a, opcode) else (a, b, opcode))"

text \<open>\<open>Ins_SxVTL\<close>: the new value of the vector, unless the points are out of range.\<close>

definition Ins_SxVTL :: "nat \<Rightarrow> nat \<Rightarrow> FT_Vector \<Rightarrow> TT_ExecContext \<Rightarrow> (FT_Vector option \<times> TT_ExecContext) option" where
  "Ins_SxVTL aIdx1 aIdx2 Vec exc =
     (if aIdx1 \<ge> n_points exc (exc_zp2 exc) \<or> aIdx2 \<ge> n_points exc (exc_zp1 exc)
      then Some (None, fail_pedantic Invalid_Reference exc)
      else do {
        p1 \<leftarrow> zcur exc (exc_zp1 exc) aIdx2;
        p2 \<leftarrow> zcur exc (exc_zp2 exc) aIdx1;
        let (a, b, _) = line_vector p1 p2 (exc_opcode exc);
        R \<leftarrow> Normalize a b Vec;
        Some (Some R, exc)
      })"

definition Ins_SxyTCA :: "TT_ExecContext \<Rightarrow> TT_ExecContext option" where
  "Ins_SxyTCA exc =
     (let opcode = exc_opcode exc;
          v = (if odd opcode then \<lparr>vx = 0x4000, vy = 0\<rparr> else \<lparr>vx = 0, vy = 0x4000\<rparr>);
          exc = (if opcode < 4 then set_GS (\<lambda>g. g\<lparr>gs_projVector := v, gs_dualVector := v\<rparr>) exc else exc);
          exc = (if (opcode div 2) mod 2 = 0 then set_GS (\<lambda>g. g\<lparr>gs_freeVector := v\<rparr>) exc else exc)
      in Some (Compute_Funcs exc))"

definition Ins_SPVTL :: "TT_ExecContext \<Rightarrow> TT_ExecContext option" where
  "Ins_SPVTL exc = do {
     p1 \<leftarrow> arg_ushort exc 1; p2 \<leftarrow> arg_ushort exc 0;
     (R, exc) \<leftarrow> Ins_SxVTL p1 p2 (gs_projVector (exc_GS exc)) exc;
     case R of
       None \<Rightarrow> Some exc
     | Some v \<Rightarrow> Some (Compute_Funcs (set_GS (\<lambda>g. g\<lparr>gs_projVector := v, gs_dualVector := v\<rparr>) exc))
   }"

definition Ins_SFVTL :: "TT_ExecContext \<Rightarrow> TT_ExecContext option" where
  "Ins_SFVTL exc = do {
     p1 \<leftarrow> arg_ushort exc 1; p2 \<leftarrow> arg_ushort exc 0;
     (R, exc) \<leftarrow> Ins_SxVTL p1 p2 (gs_freeVector (exc_GS exc)) exc;
     case R of
       None \<Rightarrow> Some exc
     | Some v \<Rightarrow> Some (Compute_Funcs (set_GS (\<lambda>g. g\<lparr>gs_freeVector := v\<rparr>) exc))
   }"

definition Ins_SFVTPV :: "TT_ExecContext \<Rightarrow> TT_ExecContext option" where
  "Ins_SFVTPV exc = Some (Compute_Funcs (set_GS (\<lambda>g. g\<lparr>gs_freeVector := gs_projVector g\<rparr>) exc))"

definition Ins_SPVFS :: "TT_ExecContext \<Rightarrow> TT_ExecContext option" where
  "Ins_SPVFS exc = do {
     y \<leftarrow> arg_short exc 1; x \<leftarrow> arg_short exc 0;
     v \<leftarrow> Normalize x y (gs_projVector (exc_GS exc));
     Some (Compute_Funcs (set_GS (\<lambda>g. g\<lparr>gs_projVector := v, gs_dualVector := v\<rparr>) exc))
   }"

definition Ins_SFVFS :: "TT_ExecContext \<Rightarrow> TT_ExecContext option" where
  "Ins_SFVFS exc = do {
     y \<leftarrow> arg_short exc 1; x \<leftarrow> arg_short exc 0;
     v \<leftarrow> Normalize x y (gs_freeVector (exc_GS exc));
     Some (Compute_Funcs (set_GS (\<lambda>g. g\<lparr>gs_freeVector := v\<rparr>) exc))
   }"

definition Ins_GPV :: "TT_ExecContext \<Rightarrow> TT_ExecContext option" where
  "Ins_GPV exc = do {
     exc \<leftarrow> set_arg 0 (vx (gs_projVector (exc_GS exc))) exc;
     set_arg 1 (vy (gs_projVector (exc_GS exc))) exc
   }"

definition Ins_GFV :: "TT_ExecContext \<Rightarrow> TT_ExecContext option" where
  "Ins_GFV exc = do {
     exc \<leftarrow> set_arg 0 (vx (gs_freeVector (exc_GS exc))) exc;
     set_arg 1 (vy (gs_freeVector (exc_GS exc))) exc
   }"

text \<open>The dual vector from the original outline, the projection vector from the current one.\<close>

definition Ins_SDPVTL :: "TT_ExecContext \<Rightarrow> TT_ExecContext option" where
  "Ins_SDPVTL exc = do {
     p1 \<leftarrow> arg_ushort exc 1; p2 \<leftarrow> arg_ushort exc 0;
     if p2 \<ge> n_points exc (exc_zp1 exc) \<or> p1 \<ge> n_points exc (exc_zp2 exc)
     then Some (fail_pedantic Invalid_Reference exc)
     else do {
       v1 \<leftarrow> zorg exc (exc_zp1 exc) p2; v2 \<leftarrow> zorg exc (exc_zp2 exc) p1;
       let (a, b, opcode) = line_vector v1 v2 (exc_opcode exc);
       dual \<leftarrow> Normalize a b (gs_dualVector (exc_GS exc));
       let exc = set_GS (\<lambda>g. g\<lparr>gs_dualVector := dual\<rparr>) exc;
       v1 \<leftarrow> zcur exc (exc_zp1 exc) p2; v2 \<leftarrow> zcur exc (exc_zp2 exc) p1;
       let (a, b, _) = line_vector v1 v2 opcode;
       proj \<leftarrow> Normalize a b (gs_projVector (exc_GS exc));
       Some (Compute_Funcs (set_GS (\<lambda>g. g\<lparr>gs_projVector := proj\<rparr>) exc))
     }
   }"

section \<open>Reference points and zones\<close>

definition Ins_SRP0 :: "TT_ExecContext \<Rightarrow> TT_ExecContext option" where
  "Ins_SRP0 exc = do { a \<leftarrow> arg_ushort exc 0; Some (set_GS (\<lambda>g. g\<lparr>gs_rp0 := a\<rparr>) exc) }"

definition Ins_SRP1 :: "TT_ExecContext \<Rightarrow> TT_ExecContext option" where
  "Ins_SRP1 exc = do { a \<leftarrow> arg_ushort exc 0; Some (set_GS (\<lambda>g. g\<lparr>gs_rp1 := a\<rparr>) exc) }"

definition Ins_SRP2 :: "TT_ExecContext \<Rightarrow> TT_ExecContext option" where
  "Ins_SRP2 exc = do { a \<leftarrow> arg_ushort exc 0; Some (set_GS (\<lambda>g. g\<lparr>gs_rp2 := a\<rparr>) exc) }"

text \<open>The zone that \<open>(FT_Int)args[0]\<close> names.\<close>

definition zone_named :: "int \<Rightarrow> zone_ref option" where
  "zone_named a = (if s32 a = 0 then Some Twilight else if s32 a = 1 then Some Pts else None)"

definition Ins_SZP0 :: "TT_ExecContext \<Rightarrow> TT_ExecContext option" where
  "Ins_SZP0 exc = do {
     a \<leftarrow> arg exc 0;
     case zone_named a of
       None \<Rightarrow> Some (fail_pedantic Invalid_Reference exc)
     | Some z \<Rightarrow> Some (set_GS (\<lambda>g. g\<lparr>gs_gep0 := u16_of_int a\<rparr>) (exc\<lparr>exc_zp0 := z\<rparr>))
   }"

definition Ins_SZP1 :: "TT_ExecContext \<Rightarrow> TT_ExecContext option" where
  "Ins_SZP1 exc = do {
     a \<leftarrow> arg exc 0;
     case zone_named a of
       None \<Rightarrow> Some (fail_pedantic Invalid_Reference exc)
     | Some z \<Rightarrow> Some (set_GS (\<lambda>g. g\<lparr>gs_gep1 := u16_of_int a\<rparr>) (exc\<lparr>exc_zp1 := z\<rparr>))
   }"

definition Ins_SZP2 :: "TT_ExecContext \<Rightarrow> TT_ExecContext option" where
  "Ins_SZP2 exc = do {
     a \<leftarrow> arg exc 0;
     case zone_named a of
       None \<Rightarrow> Some (fail_pedantic Invalid_Reference exc)
     | Some z \<Rightarrow> Some (set_GS (\<lambda>g. g\<lparr>gs_gep2 := u16_of_int a\<rparr>) (exc\<lparr>exc_zp2 := z\<rparr>))
   }"

definition Ins_SZPS :: "TT_ExecContext \<Rightarrow> TT_ExecContext option" where
  "Ins_SZPS exc = do {
     a \<leftarrow> arg exc 0;
     case zone_named a of
       None \<Rightarrow> Some (fail_pedantic Invalid_Reference exc)
     | Some z \<Rightarrow> Some (set_GS (\<lambda>g. g\<lparr>gs_gep0 := u16_of_int a, gs_gep1 := u16_of_int a, gs_gep2 := u16_of_int a\<rparr>)
                        (exc\<lparr>exc_zp0 := z, exc_zp1 := z, exc_zp2 := z\<rparr>))
   }"

section \<open>Controls\<close>

definition Ins_SMD :: "TT_ExecContext \<Rightarrow> TT_ExecContext option" where
  "Ins_SMD exc = do { a \<leftarrow> arg exc 0; Some (set_GS (\<lambda>g. g\<lparr>gs_minimum_distance := a\<rparr>) exc) }"

definition Ins_SCVTCI :: "TT_ExecContext \<Rightarrow> TT_ExecContext option" where
  "Ins_SCVTCI exc = do { a \<leftarrow> arg exc 0; Some (set_GS (\<lambda>g. g\<lparr>gs_control_value_cutin := a\<rparr>) exc) }"

definition Ins_SSWCI :: "TT_ExecContext \<Rightarrow> TT_ExecContext option" where
  "Ins_SSWCI exc = do { a \<leftarrow> arg exc 0; Some (set_GS (\<lambda>g. g\<lparr>gs_single_width_cutin := a\<rparr>) exc) }"

definition Ins_SSW :: "TT_ExecContext \<Rightarrow> TT_ExecContext option" where
  "Ins_SSW exc = do {
     a \<leftarrow> arg exc 0;
     Some (set_GS (\<lambda>g. g\<lparr>gs_single_width_value := FT_MulFix a (tm_scale (exc_tt_metrics exc))\<rparr>) exc)
   }"

definition Ins_FLIPON :: "TT_ExecContext \<Rightarrow> TT_ExecContext option" where
  "Ins_FLIPON exc = Some (set_GS (\<lambda>g. g\<lparr>gs_auto_flip := True\<rparr>) exc)"

definition Ins_FLIPOFF :: "TT_ExecContext \<Rightarrow> TT_ExecContext option" where
  "Ins_FLIPOFF exc = Some (set_GS (\<lambda>g. g\<lparr>gs_auto_flip := False\<rparr>) exc)"

definition Ins_SDB :: "TT_ExecContext \<Rightarrow> TT_ExecContext option" where
  "Ins_SDB exc = do { a \<leftarrow> arg_ushort exc 0; Some (set_GS (\<lambda>g. g\<lparr>gs_delta_base := a\<rparr>) exc) }"

definition Ins_SDS :: "TT_ExecContext \<Rightarrow> TT_ExecContext option" where
  "Ins_SDS exc = do {
     a \<leftarrow> arg exc 0;
     Some (if ulong_of a > 6 then fail_with Bad_Argument exc else set_GS (\<lambda>g. g\<lparr>gs_delta_shift := u16_of_int a\<rparr>) exc)
   }"

definition set_round :: "nat \<Rightarrow> TT_Round_Func \<Rightarrow> TT_ExecContext \<Rightarrow> TT_ExecContext" where
  "set_round state f exc = set_GS (\<lambda>g. g\<lparr>gs_round_state := state\<rparr>) (exc\<lparr>exc_func_round := f\<rparr>)"

definition Ins_RTHG :: "TT_ExecContext \<Rightarrow> TT_ExecContext option" where
  "Ins_RTHG exc = Some (set_round 0 RF_To_Half_Grid exc)"

definition Ins_RTG :: "TT_ExecContext \<Rightarrow> TT_ExecContext option" where
  "Ins_RTG exc = Some (set_round 1 RF_To_Grid exc)"

definition Ins_RTDG :: "TT_ExecContext \<Rightarrow> TT_ExecContext option" where
  "Ins_RTDG exc = Some (set_round 2 RF_To_Double_Grid exc)"

definition Ins_RUTG :: "TT_ExecContext \<Rightarrow> TT_ExecContext option" where
  "Ins_RUTG exc = Some (set_round 4 RF_Up_To_Grid exc)"

definition Ins_RDTG :: "TT_ExecContext \<Rightarrow> TT_ExecContext option" where
  "Ins_RDTG exc = Some (set_round 3 RF_Down_To_Grid exc)"

definition Ins_ROFF :: "TT_ExecContext \<Rightarrow> TT_ExecContext option" where
  "Ins_ROFF exc = Some (set_round 5 RF_None exc)"

definition Ins_SROUND :: "TT_ExecContext \<Rightarrow> TT_ExecContext option" where
  "Ins_SROUND exc = do { a \<leftarrow> arg exc 0; Some (set_round 6 RF_Super (SetSuperRound 0x4000 a exc)) }"

definition Ins_S45ROUND :: "TT_ExecContext \<Rightarrow> TT_ExecContext option" where
  "Ins_S45ROUND exc = do { a \<leftarrow> arg exc 0; Some (set_round 7 RF_Super_45 (SetSuperRound 0x2D41 a exc)) }"

definition Ins_INSTCTRL :: "TT_ExecContext \<Rightarrow> TT_ExecContext option" where
  "Ins_INSTCTRL exc = do {
     a1 \<leftarrow> arg exc 1; a0 \<leftarrow> arg exc 0;
     let k = ulong_of a1; l = ulong_of a0; kf = 2 ^ (k - 1)
     in if k < 1 \<or> k > 3 then Some (fail_pedantic Invalid_Reference exc)
        else if l \<noteq> 0 \<and> l \<noteq> kf then Some (fail_pedantic Invalid_Reference exc)
        else if fe_iniRange (exc_env exc) = tt_coderange_cvt
        then Some (set_GS (\<lambda>g. g\<lparr>gs_instruct_control := nat (int (gs_instruct_control g) AND NOT (int kf)) OR l\<rparr>) exc)
        else if fe_iniRange (exc_env exc) = tt_coderange_glyph \<and> k = 3
        then Some (if subpixel_hinting_minimal exc then exc\<lparr>exc_backward_compatibility := (l AND 4) XOR 4\<rparr> else exc)
        else Some (fail_pedantic Invalid_Reference exc)
   }"

definition set_scan_control :: "bool \<Rightarrow> TT_ExecContext \<Rightarrow> TT_ExecContext" where
  "set_scan_control b exc = set_GS (\<lambda>g. g\<lparr>gs_scan_control := b\<rparr>) exc"

definition Ins_SCANCTRL :: "TT_ExecContext \<Rightarrow> TT_ExecContext option" where
  "Ins_SCANCTRL exc = do {
     a \<leftarrow> arg exc 0;
     let A = a AND 0xFF; tm = exc_tt_metrics exc
     in if A = 0xFF then Some (set_scan_control True exc)
        else if A = 0 then Some (set_scan_control False exc)
        else let exc = (if bit_set a 0x100 \<and> int (tm_ppem tm) \<le> A then set_scan_control True exc else exc);
                 exc = (if bit_set a 0x200 \<and> tm_rotated tm then set_scan_control True exc else exc);
                 exc = (if bit_set a 0x400 \<and> tm_stretched tm then set_scan_control True exc else exc);
                 exc = (if bit_set a 0x800 \<and> int (tm_ppem tm) > A then set_scan_control False exc else exc);
                 exc = (if bit_set a 0x1000 \<and> tm_rotated tm then set_scan_control False exc else exc);
                 exc = (if bit_set a 0x2000 \<and> tm_stretched tm then set_scan_control False exc else exc)
             in Some exc
   }"

definition Ins_SCANTYPE :: "TT_ExecContext \<Rightarrow> TT_ExecContext option" where
  "Ins_SCANTYPE exc = do {
     a \<leftarrow> arg exc 0;
     Some (if a \<ge> 0 then set_GS (\<lambda>g. g\<lparr>gs_scan_type := s32 a AND 0xFFFF\<rparr>) exc else exc)
   }"

end
