(* ===== verification/Tt_Ins_Points.thy ===== *)
theory Tt_Ins_Points
  imports Tt_Ins_GS
begin

text \<open>
  The instructions of \<open>src/truetype/ttinterp.c\<close> that measure and move points: outline management,
  shifting, moving to a distance or control value, aligning, intersecting, interpolating, and the
  delta exceptions.
\<close>

section \<open>Measuring\<close>

definition Ins_GC :: "TT_ExecContext \<Rightarrow> TT_ExecContext option" where
  "Ins_GC exc = do {
     a \<leftarrow> arg exc 0;
     let L = ulong_of a;
     if L \<ge> n_points exc (exc_zp2 exc) then set_arg 0 0 (fail_pedantic Invalid_Reference exc)
     else if odd (exc_opcode exc) then do { v \<leftarrow> zorg exc (exc_zp2 exc) L; set_arg 0 (FAST_DUALPROJ exc v) exc }
     else do { v \<leftarrow> zcur exc (exc_zp2 exc) L; set_arg 0 (FAST_PROJECT exc v) exc }
   }"

definition Ins_SCFS :: "TT_ExecContext \<Rightarrow> TT_ExecContext option" where
  "Ins_SCFS exc = do {
     L \<leftarrow> arg_ushort exc 0;
     if L \<ge> n_points exc (exc_zp2 exc) then Some (fail_pedantic Invalid_Reference exc)
     else do {
       v \<leftarrow> zcur exc (exc_zp2 exc) L;
       a1 \<leftarrow> arg exc 1;
       exc \<leftarrow> func_move (exc_zp2 exc) L (SUB_LONG a1 (FAST_PROJECT exc v)) exc;
       if gs_gep2 (exc_GS exc) = 0 then do { v \<leftarrow> zcur exc (exc_zp2 exc) L; set_zorg (exc_zp2 exc) L v exc }
       else Some exc
     }
   }"

text \<open>The scaled distance of two unscaled points.\<close>

definition orus_distance :: "TT_ExecContext \<Rightarrow> FT_Vector \<Rightarrow> FT_Vector \<Rightarrow> int" where
  "orus_distance exc vec1 vec2 =
     (let env = exc_env exc
      in if fe_x_scale env = fe_y_scale env then FT_MulFix (DUALPROJ exc vec1 vec2) (fe_x_scale env)
         else FAST_DUALPROJ exc \<lparr>vx = FT_MulFix (SUB_LONG (vx vec1) (vx vec2)) (fe_x_scale env),
                                 vy = FT_MulFix (SUB_LONG (vy vec1) (vy vec2)) (fe_y_scale env)\<rparr>)"

definition Ins_MD :: "TT_ExecContext \<Rightarrow> TT_ExecContext option" where
  "Ins_MD exc = do {
     K \<leftarrow> arg_ushort exc 1; L \<leftarrow> arg_ushort exc 0;
     if L \<ge> n_points exc (exc_zp0 exc) \<or> K \<ge> n_points exc (exc_zp1 exc)
     then set_arg 0 0 (fail_pedantic Invalid_Reference exc)
     else if odd (exc_opcode exc)
     then do { v \<leftarrow> zcur exc (exc_zp0 exc) L; w \<leftarrow> zcur exc (exc_zp1 exc) K; set_arg 0 (PROJECT exc v w) exc }
     else if gs_gep0 (exc_GS exc) = 0 \<or> gs_gep1 (exc_GS exc) = 0
     then do { v \<leftarrow> zorg exc (exc_zp0 exc) L; w \<leftarrow> zorg exc (exc_zp1 exc) K; set_arg 0 (DUALPROJ exc v w) exc }
     else do { v \<leftarrow> zorus exc (exc_zp0 exc) L; w \<leftarrow> zorus exc (exc_zp1 exc) K; set_arg 0 (orus_distance exc v w) exc }
   }"

section \<open>Outline management\<close>

text \<open>
  The loop over the points on top of the stack, from the top down: \<open>step\<close> on each, until
  \<open>error\<close> is raised for a point out of range under pedantic hinting, when the function returns at
  once; otherwise the loop counter is reset at the end. \<open>a\<close> is \<open>args\<close>.
\<close>

fun point_loop :: "(nat \<Rightarrow> TT_ExecContext \<Rightarrow> TT_ExecContext option) \<Rightarrow> zone_ref \<Rightarrow> nat \<Rightarrow> nat \<Rightarrow> TT_ExecContext \<Rightarrow> TT_ExecContext option" where
  "point_loop step z 0 a exc = Some (set_GS (\<lambda>g. g\<lparr>gs_loop := 1\<rparr>) exc)"
| "point_loop step z (Suc k) a exc =
     (if a = 0 then None
      else do {
        v \<leftarrow> get_at (exc_stack exc) (a - 1);
        let point = u16_of_int v;
        if point \<ge> n_points exc z
        then if pedantic exc then Some (fail_with Invalid_Reference exc) else point_loop step z k (a - 1) exc
        else do { exc \<leftarrow> step point exc; point_loop step z k (a - 1) exc }
      })"

text \<open>The beginning of these instructions: enough points on the stack, and their removal.\<close>

definition reset_loop :: "TT_ExecContext \<Rightarrow> TT_ExecContext" where
  "reset_loop exc = set_GS (\<lambda>g. g\<lparr>gs_loop := 1\<rparr>) exc"

definition with_points :: "(nat \<Rightarrow> TT_ExecContext \<Rightarrow> TT_ExecContext option) \<Rightarrow> TT_ExecContext \<Rightarrow> TT_ExecContext option" where
  "with_points body exc =
     (let loop = gs_loop (exc_GS exc)
      in if int (exc_new_top exc) < loop then Some (reset_loop (fail_pedantic Too_Few_Arguments exc))
         else body (nat loop) (exc\<lparr>exc_new_top := exc_new_top exc - nat loop\<rparr>))"

definition flip_on :: "nat \<Rightarrow> TT_ExecContext \<Rightarrow> TT_ExecContext option" where
  "flip_on point exc = do { t \<leftarrow> ztag exc Pts point; set_ztag Pts point (t XOR FT_CURVE_TAG_ON) exc }"

definition Ins_FLIPPT :: "TT_ExecContext \<Rightarrow> TT_ExecContext option" where
  "Ins_FLIPPT exc = with_points (\<lambda>loop exc.
     if exc_backward_compatibility exc = 0x7 then Some (reset_loop exc)
     else point_loop flip_on Pts loop (exc_args exc) exc) exc"

text \<open>The loop of \<open>FLIPRGON\<close> and \<open>FLIPRGOFF\<close>, over \<open>k\<close> points from \<open>i\<close> on.\<close>

fun flip_range :: "bool \<Rightarrow> nat \<Rightarrow> nat \<Rightarrow> TT_ExecContext \<Rightarrow> TT_ExecContext option" where
  "flip_range on 0 i exc = Some exc"
| "flip_range on (Suc k) i exc = do {
     t \<leftarrow> ztag exc Pts i;
     exc \<leftarrow> set_ztag Pts i (if on then t OR FT_CURVE_TAG_ON else nat (int t AND NOT (int FT_CURVE_TAG_ON))) exc;
     flip_range on k (i + 1) exc
   }"

definition Ins_FLIPRG :: "bool \<Rightarrow> TT_ExecContext \<Rightarrow> TT_ExecContext option" where
  "Ins_FLIPRG on exc =
     (if exc_backward_compatibility exc = 0x7 then Some exc
      else do {
        K \<leftarrow> arg_ushort exc 1; L \<leftarrow> arg_ushort exc 0;
        if K \<ge> n_points exc Pts \<or> L \<ge> n_points exc Pts then Some (fail_pedantic Invalid_Reference exc)
        else flip_range on (K + 1 - L) L exc
      })"

definition Ins_FLIPRGON :: "TT_ExecContext \<Rightarrow> TT_ExecContext option" where
  "Ins_FLIPRGON = Ins_FLIPRG True"

definition Ins_FLIPRGOFF :: "TT_ExecContext \<Rightarrow> TT_ExecContext option" where
  "Ins_FLIPRGOFF = Ins_FLIPRG False"

definition Ins_UTP :: "TT_ExecContext \<Rightarrow> TT_ExecContext option" where
  "Ins_UTP exc = do {
     point \<leftarrow> arg_ushort exc 0;
     if point \<ge> n_points exc (exc_zp0 exc) then Some (fail_pedantic Invalid_Reference exc)
     else do {
       let free = gs_freeVector (exc_GS exc);
       let mask = (0xFF :: int);
       let mask = (if vx free \<noteq> 0 then mask AND NOT (int FT_CURVE_TAG_TOUCH_X) else mask);
       let mask = (if vy free \<noteq> 0 then mask AND NOT (int FT_CURVE_TAG_TOUCH_Y) else mask);
       t \<leftarrow> ztag exc (exc_zp0 exc) point;
       set_ztag (exc_zp0 exc) point (nat (int t AND mask)) exc
     }
   }"

section \<open>Shifting\<close>

text \<open>
  \<open>Compute_Point_Displacement\<close>: the displacement, the zone and the reference point, unless that
  point is out of range.
\<close>

definition Compute_Point_Displacement ::
    "TT_ExecContext \<Rightarrow> ((int \<times> int \<times> zone_ref \<times> nat) option \<times> TT_ExecContext) option" where
  "Compute_Point_Displacement exc =
     (let (zp, p) = (if odd (exc_opcode exc) then (exc_zp0 exc, gs_rp1 (exc_GS exc)) else (exc_zp1 exc, gs_rp2 (exc_GS exc)))
      in if p \<ge> n_points exc zp then Some (None, fail_pedantic Invalid_Reference exc)
         else do {
           v \<leftarrow> zcur exc zp p; w \<leftarrow> zorg exc zp p;
           let d = PROJECT exc v w;
           Some (Some (FT_MulFix d (vx (exc_moveVector exc)), FT_MulFix d (vy (exc_moveVector exc)), zp, p), exc)
         })"

definition Move_Zp2_Point :: "int \<Rightarrow> int \<Rightarrow> bool \<Rightarrow> nat \<Rightarrow> TT_ExecContext \<Rightarrow> TT_ExecContext option" where
  "Move_Zp2_Point dx dy tch point exc = do {
     exc \<leftarrow> (if vx (gs_freeVector (exc_GS exc)) \<noteq> 0
             then do {
               exc \<leftarrow> (if exc_backward_compatibility exc = 0 then add_cur_x (exc_zp2 exc) point dx exc else Some exc);
               if tch then touch (exc_zp2 exc) point FT_CURVE_TAG_TOUCH_X exc else Some exc
             }
             else Some exc);
     if vy (gs_freeVector (exc_GS exc)) \<noteq> 0
     then do {
       exc \<leftarrow> (if exc_backward_compatibility exc \<noteq> 0x7 then add_cur_y (exc_zp2 exc) point dy exc else Some exc);
       if tch then touch (exc_zp2 exc) point FT_CURVE_TAG_TOUCH_Y exc else Some exc
     }
     else Some exc
   }"

definition Ins_SHP :: "TT_ExecContext \<Rightarrow> TT_ExecContext option" where
  "Ins_SHP exc = with_points (\<lambda>loop exc. do {
     (r, exc) \<leftarrow> Compute_Point_Displacement exc;
     case r of
       None \<Rightarrow> Some exc
     | Some (dx, dy, zp, refp) \<Rightarrow> point_loop (Move_Zp2_Point dx dy True) (exc_zp2 exc) loop (exc_args exc) exc
   }) exc"

text \<open>Moving \<open>k\<close> points of zone 2 from \<open>i\<close> on, except the reference point.\<close>

fun shift_loop :: "nat \<Rightarrow> nat \<Rightarrow> int \<Rightarrow> int \<Rightarrow> bool \<Rightarrow> zone_ref \<Rightarrow> nat \<Rightarrow> TT_ExecContext \<Rightarrow> TT_ExecContext option" where
  "shift_loop 0 i dx dy tch zp refp exc = Some exc"
| "shift_loop (Suc k) i dx dy tch zp refp exc = do {
     exc \<leftarrow> (if zp \<noteq> exc_zp2 exc \<or> refp \<noteq> i then Move_Zp2_Point dx dy tch i exc else Some exc);
     shift_loop k (i + 1) dx dy tch zp refp exc
   }"

text \<open>The contour ends of zone 2, and what \<open>FT_UShort\<close> keeps of a sum.\<close>

definition contour_end :: "TT_ExecContext \<Rightarrow> nat \<Rightarrow> int option" where
  "contour_end exc i = map_option int (get_at (zn_contours (zone exc (exc_zp2 exc))) i)"

definition Ins_SHC :: "TT_ExecContext \<Rightarrow> TT_ExecContext option" where
  "Ins_SHC exc = do {
     contour \<leftarrow> arg_ushort exc 0;
     let z = zone exc (exc_zp2 exc);
     let bounds = (if gs_gep2 (exc_GS exc) = 0 then 1 else length (zn_contours z));
     if contour \<ge> bounds then Some (fail_pedantic Invalid_Reference exc)
     else do {
       (r, exc) \<leftarrow> Compute_Point_Displacement exc;
       case r of
         None \<Rightarrow> Some exc
       | Some (dx, dy, zp, refp) \<Rightarrow> do {
           start \<leftarrow> (if contour = 0 then Some 0
                     else do { e \<leftarrow> contour_end exc (contour - 1); Some (u16_of_int (e + 1 - int (zn_first_point z))) });
           limit \<leftarrow> (if gs_gep2 (exc_GS exc) = 0 then Some (zn_n_points z)
                     else do { e \<leftarrow> contour_end exc contour; Some (u16_of_int (e + 1 - int (zn_first_point z))) });
           shift_loop (limit - start) start dx dy True zp refp exc
         }
     }
   }"

definition Ins_SHZ :: "TT_ExecContext \<Rightarrow> TT_ExecContext option" where
  "Ins_SHZ exc = do {
     a \<leftarrow> arg exc 0;
     if u32i a \<ge> 2 then Some (fail_pedantic Invalid_Reference exc)
     else do {
       (r, exc) \<leftarrow> Compute_Point_Displacement exc;
       case r of
         None \<Rightarrow> Some exc
       | Some (dx, dy, zp, refp) \<Rightarrow> do {
           let z = zone exc (exc_zp2 exc);
           limit \<leftarrow> (if gs_gep2 (exc_GS exc) = 0 then Some (zn_n_points z)
                     else if gs_gep2 (exc_GS exc) = 1 \<and> length (zn_contours z) > 0
                     then do { e \<leftarrow> contour_end exc (length (zn_contours z) - 1); Some (u16_of_int (e + 1)) }
                     else Some 0);
           shift_loop limit 0 dx dy False zp refp exc
         }
     }
   }"

definition Ins_SHPIX :: "TT_ExecContext \<Rightarrow> TT_ExecContext option" where
  "Ins_SHPIX exc =
     (let gs = exc_GS exc; in_twilight = (gs_gep0 gs = 0 \<or> gs_gep1 gs = 0 \<or> gs_gep2 gs = 0)
      in with_points (\<lambda>loop exc. do {
        a \<leftarrow> arg exc 0;
        let dx = TT_MulFix14 a (vx (gs_freeVector gs));
        let dy = TT_MulFix14 a (vy (gs_freeVector gs));
        point_loop (\<lambda>point exc.
          if exc_backward_compatibility exc \<noteq> 0
          then do {
            t \<leftarrow> ztag exc (exc_zp2 exc) point;
            if in_twilight \<or>
               (exc_backward_compatibility exc \<noteq> 0x7 \<and>
                (fe_is_composite (exc_env exc) \<and> vy (gs_freeVector gs) \<noteq> 0 \<or> t AND FT_CURVE_TAG_TOUCH_Y \<noteq> 0))
            then Move_Zp2_Point 0 dy True point exc else Some exc
          }
          else Move_Zp2_Point dx dy True point exc) (exc_zp2 exc) loop (exc_args exc) exc
      }) exc)"

section \<open>Moving to a distance\<close>

definition Ins_MSIRP :: "TT_ExecContext \<Rightarrow> TT_ExecContext option" where
  "Ins_MSIRP exc = do {
     point \<leftarrow> arg_ushort exc 0;
     let rp0 = gs_rp0 (exc_GS exc);
     if point \<ge> n_points exc (exc_zp1 exc) \<or> rp0 \<ge> n_points exc (exc_zp0 exc)
     then Some (fail_pedantic Invalid_Reference exc)
     else do {
       a1 \<leftarrow> arg exc 1;
       exc \<leftarrow> (if gs_gep1 (exc_GS exc) = 0
               then do {
                 v \<leftarrow> zorg exc (exc_zp0 exc) rp0;
                 exc \<leftarrow> set_zorg (exc_zp1 exc) point v exc;
                 exc \<leftarrow> func_move_orig (exc_zp1 exc) point a1 exc;
                 v \<leftarrow> zorg exc (exc_zp1 exc) point;
                 set_zcur (exc_zp1 exc) point v exc
               }
               else Some exc);
       v \<leftarrow> zcur exc (exc_zp1 exc) point; w \<leftarrow> zcur exc (exc_zp0 exc) rp0;
       exc \<leftarrow> func_move (exc_zp1 exc) point (SUB_LONG a1 (PROJECT exc v w)) exc;
       Some (set_GS (\<lambda>g. g\<lparr>gs_rp1 := gs_rp0 g, gs_rp2 := point,
                           gs_rp0 := if odd (exc_opcode exc) then point else gs_rp0 g\<rparr>) exc)
     }
   }"

definition set_rp01 :: "nat \<Rightarrow> TT_ExecContext \<Rightarrow> TT_ExecContext" where
  "set_rp01 point exc = set_GS (\<lambda>g. g\<lparr>gs_rp0 := point, gs_rp1 := point\<rparr>) exc"

definition Ins_MDAP :: "TT_ExecContext \<Rightarrow> TT_ExecContext option" where
  "Ins_MDAP exc = do {
     point \<leftarrow> arg_ushort exc 0;
     if point \<ge> n_points exc (exc_zp0 exc) then Some (fail_pedantic Invalid_Reference exc)
     else do {
       distance \<leftarrow> (if odd (exc_opcode exc)
                     then do {
                       v \<leftarrow> zcur exc (exc_zp0 exc) point;
                       let cur_dist = FAST_PROJECT exc v;
                       r \<leftarrow> func_round exc cur_dist 0;
                       Some (SUB_LONG r cur_dist)
                     }
                     else Some 0);
       exc \<leftarrow> func_move (exc_zp0 exc) point distance exc;
       Some (set_rp01 point exc)
     }
   }"

definition c_abs :: "int \<Rightarrow> int" where
  "c_abs d = (if d < 0 then NEG_LONG d else d)"

definition Ins_MIAP :: "TT_ExecContext \<Rightarrow> TT_ExecContext option" where
  "Ins_MIAP exc = do {
     a1 \<leftarrow> arg exc 1; point \<leftarrow> arg_ushort exc 0;
     let cvtEntry = ulong_of a1;
     if point \<ge> n_points exc (exc_zp0 exc) \<or> cvtEntry \<ge> length (exc_cvt exc)
     then Some (set_rp01 point (fail_pedantic Invalid_Reference exc))
     else do {
       (distance, exc) \<leftarrow> func_read_cvt exc cvtEntry;
       exc \<leftarrow> (if gs_gep0 (exc_GS exc) = 0
               then do {
                 let free = gs_freeVector (exc_GS exc);
                 let v = \<lparr>vx = TT_MulFix14 distance (vx free), vy = TT_MulFix14 distance (vy free)\<rparr>;
                 exc \<leftarrow> set_zorg (exc_zp0 exc) point v exc;
                 set_zcur (exc_zp0 exc) point v exc
               }
               else Some exc);
       v \<leftarrow> zcur exc (exc_zp0 exc) point;
       let org_dist = FAST_PROJECT exc v;
       distance \<leftarrow> (if odd (exc_opcode exc)
                     then func_round exc
                       (if c_abs (SUB_LONG distance org_dist) > gs_control_value_cutin (exc_GS exc) then org_dist else distance) 0
                     else Some distance);
       exc \<leftarrow> func_move (exc_zp0 exc) point (SUB_LONG distance org_dist) exc;
       Some (set_rp01 point exc)
     }
   }"

text \<open>What \<open>MDRP\<close> and \<open>MIRP\<close> share: the minimum distance, and the reference points they leave.\<close>

definition at_least_minimum :: "TT_ExecContext \<Rightarrow> int \<Rightarrow> int \<Rightarrow> int" where
  "at_least_minimum exc org_dist distance =
     (if (exc_opcode exc div 8) mod 2 = 0 then distance
      else let m = gs_minimum_distance (exc_GS exc)
           in if org_dist \<ge> 0 then (if distance < m then m else distance)
              else (if distance > NEG_LONG m then NEG_LONG m else distance))"

definition set_rp_relative :: "nat \<Rightarrow> TT_ExecContext \<Rightarrow> TT_ExecContext" where
  "set_rp_relative point exc =
     set_GS (\<lambda>g. g\<lparr>gs_rp1 := gs_rp0 g, gs_rp2 := point,
                   gs_rp0 := if (exc_opcode exc div 16) mod 2 \<noteq> 0 then point else gs_rp0 g\<rparr>) exc"

text \<open>Rounded when bit 2 of the opcode is set.\<close>

definition round_distance :: "TT_ExecContext \<Rightarrow> int \<Rightarrow> int option" where
  "round_distance exc d = do {
     c \<leftarrow> compensation exc;
     if (exc_opcode exc div 4) mod 2 \<noteq> 0 then func_round exc d c else Some (Round_None d c)
   }"

definition Ins_MDRP :: "TT_ExecContext \<Rightarrow> TT_ExecContext option" where
  "Ins_MDRP exc = do {
     point \<leftarrow> arg_ushort exc 0;
     let gs = exc_GS exc;
     if point \<ge> n_points exc (exc_zp1 exc) \<or> gs_rp0 gs \<ge> n_points exc (exc_zp0 exc)
     then Some (set_rp_relative point (fail_pedantic Invalid_Reference exc))
     else do {
       org_dist \<leftarrow> (if gs_gep0 gs = 0 \<or> gs_gep1 gs = 0
                     then do { v \<leftarrow> zorg exc (exc_zp1 exc) point; w \<leftarrow> zorg exc (exc_zp0 exc) (gs_rp0 gs); Some (DUALPROJ exc v w) }
                     else do { v \<leftarrow> zorus exc (exc_zp1 exc) point; w \<leftarrow> zorus exc (exc_zp0 exc) (gs_rp0 gs); Some (orus_distance exc v w) });
       let width = gs_single_width_value gs;
       let cutin = gs_single_width_cutin gs;
       let org_dist = (if cutin > 0 \<and> org_dist < ADD_LONG width cutin \<and> org_dist > SUB_LONG width cutin
                       then (if org_dist \<ge> 0 then width else - width) else org_dist);
       distance \<leftarrow> round_distance exc org_dist;
       let distance = at_least_minimum exc org_dist distance;
       v \<leftarrow> zcur exc (exc_zp1 exc) point; w \<leftarrow> zcur exc (exc_zp0 exc) (gs_rp0 gs);
       exc \<leftarrow> func_move (exc_zp1 exc) point (SUB_LONG distance (PROJECT exc v w)) exc;
       Some (set_rp_relative point exc)
     }
   }"

definition Ins_MIRP :: "TT_ExecContext \<Rightarrow> TT_ExecContext option" where
  "Ins_MIRP exc = do {
     point \<leftarrow> arg_ushort exc 0; a1 \<leftarrow> arg exc 1;
     let cvtEntry = ulong_of (ADD_LONG a1 1);
     let rp0 = gs_rp0 (exc_GS exc);
     if point \<ge> n_points exc (exc_zp1 exc) \<or> cvtEntry \<ge> length (exc_cvt exc) + 1 \<or> rp0 \<ge> n_points exc (exc_zp0 exc)
     then Some (set_rp_relative point (fail_pedantic Invalid_Reference exc))
     else do {
       (cvt_dist, exc) \<leftarrow> (if cvtEntry = 0 then Some (0, exc) else func_read_cvt exc (cvtEntry - 1));
       let gs = exc_GS exc;
       let width = gs_single_width_value gs;
       let cvt_dist = (if c_abs (SUB_LONG cvt_dist width) < gs_single_width_cutin gs
                       then (if cvt_dist \<ge> 0 then width else - width) else cvt_dist);
       exc \<leftarrow> (if gs_gep1 gs = 0
               then do {
                 w \<leftarrow> zorg exc (exc_zp0 exc) rp0;
                 let v = \<lparr>vx = ADD_LONG (vx w) (TT_MulFix14 cvt_dist (vx (gs_freeVector gs))),
                          vy = ADD_LONG (vy w) (TT_MulFix14 cvt_dist (vy (gs_freeVector gs)))\<rparr>;
                 exc \<leftarrow> set_zorg (exc_zp1 exc) point v exc;
                 set_zcur (exc_zp1 exc) point v exc
               }
               else Some exc);
       v \<leftarrow> zorg exc (exc_zp1 exc) point; w \<leftarrow> zorg exc (exc_zp0 exc) rp0;
       let org_dist = DUALPROJ exc v w;
       v \<leftarrow> zcur exc (exc_zp1 exc) point; w \<leftarrow> zcur exc (exc_zp0 exc) rp0;
       let cur_dist = PROJECT exc v w;
       let cvt_dist = (if gs_auto_flip gs \<and> (org_dist XOR cvt_dist) < 0 then NEG_LONG cvt_dist else cvt_dist);
       let cvt_dist = (if (exc_opcode exc div 4) mod 2 \<noteq> 0 \<and> gs_gep0 gs = gs_gep1 gs \<and>
                          c_abs (SUB_LONG cvt_dist org_dist) > gs_control_value_cutin gs
                       then org_dist else cvt_dist);
       distance \<leftarrow> round_distance exc cvt_dist;
       let distance = at_least_minimum exc org_dist distance;
       exc \<leftarrow> func_move (exc_zp1 exc) point (SUB_LONG distance cur_dist) exc;
       Some (set_rp_relative point exc)
     }
   }"

section \<open>Aligning and intersecting\<close>

definition Ins_ALIGNRP :: "TT_ExecContext \<Rightarrow> TT_ExecContext option" where
  "Ins_ALIGNRP exc = with_points (\<lambda>loop exc.
     let rp0 = gs_rp0 (exc_GS exc)
     in if rp0 \<ge> n_points exc (exc_zp0 exc) then Some (reset_loop (fail_pedantic Invalid_Reference exc))
        else point_loop (\<lambda>point exc. do {
          v \<leftarrow> zcur exc (exc_zp1 exc) point; w \<leftarrow> zcur exc (exc_zp0 exc) rp0;
          func_move (exc_zp1 exc) point (NEG_LONG (PROJECT exc v w)) exc
        }) (exc_zp1 exc) loop (exc_args exc) exc) exc"

definition Ins_ALIGNPTS :: "TT_ExecContext \<Rightarrow> TT_ExecContext option" where
  "Ins_ALIGNPTS exc = do {
     p1 \<leftarrow> arg_ushort exc 0; p2 \<leftarrow> arg_ushort exc 1;
     if p1 \<ge> n_points exc (exc_zp1 exc) \<or> p2 \<ge> n_points exc (exc_zp0 exc)
     then Some (fail_pedantic Invalid_Reference exc)
     else do {
       v \<leftarrow> zcur exc (exc_zp0 exc) p2; w \<leftarrow> zcur exc (exc_zp1 exc) p1;
       let distance = PROJECT exc v w sdiv 2;
       exc \<leftarrow> func_move (exc_zp1 exc) p1 distance exc;
       func_move (exc_zp0 exc) p2 (NEG_LONG distance) exc
     }
   }"

text \<open>The intersection of the lines \<open>a0 a1\<close> and \<open>b0 b1\<close>, or the middle of the four points if they are nearly parallel.\<close>

definition intersection :: "FT_Vector \<Rightarrow> FT_Vector \<Rightarrow> FT_Vector \<Rightarrow> FT_Vector \<Rightarrow> FT_Vector" where
  "intersection a0 a1 b0 b1 =
     (let db = vector_sub b1 b0; da = vector_sub a1 a0; d = vector_sub b0 a0;
          discriminant = ADD_LONG (FT_MulDiv (vx da) (NEG_LONG (vy db)) 0x40) (FT_MulDiv (vy da) (vx db) 0x40);
          dotproduct = ADD_LONG (FT_MulDiv (vx da) (vx db) 0x40) (FT_MulDiv (vy da) (vy db) 0x40)
      in if s64 (19 * FT_ABS discriminant) > FT_ABS dotproduct
         then let val = ADD_LONG (FT_MulDiv (vx d) (NEG_LONG (vy db)) 0x40) (FT_MulDiv (vy d) (vx db) 0x40)
              in \<lparr>vx = ADD_LONG (vx a0) (FT_MulDiv val (vx da) discriminant),
                  vy = ADD_LONG (vy a0) (FT_MulDiv val (vy da) discriminant)\<rparr>
         else \<lparr>vx = ADD_LONG (ADD_LONG (vx a0) (vx a1)) (ADD_LONG (vx b0) (vx b1)) sdiv 4,
               vy = ADD_LONG (ADD_LONG (vy a0) (vy a1)) (ADD_LONG (vy b0) (vy b1)) sdiv 4\<rparr>)"

definition Ins_ISECT :: "TT_ExecContext \<Rightarrow> TT_ExecContext option" where
  "Ins_ISECT exc = do {
     point \<leftarrow> arg_ushort exc 0;
     a0 \<leftarrow> arg_ushort exc 1; a1 \<leftarrow> arg_ushort exc 2; b0 \<leftarrow> arg_ushort exc 3; b1 \<leftarrow> arg_ushort exc 4;
     if b0 \<ge> n_points exc (exc_zp0 exc) \<or> b1 \<ge> n_points exc (exc_zp0 exc) \<or> a0 \<ge> n_points exc (exc_zp1 exc) \<or>
        a1 \<ge> n_points exc (exc_zp1 exc) \<or> point \<ge> n_points exc (exc_zp2 exc)
     then Some (fail_pedantic Invalid_Reference exc)
     else do {
       va0 \<leftarrow> zcur exc (exc_zp1 exc) a0; va1 \<leftarrow> zcur exc (exc_zp1 exc) a1;
       vb0 \<leftarrow> zcur exc (exc_zp0 exc) b0; vb1 \<leftarrow> zcur exc (exc_zp0 exc) b1;
       exc \<leftarrow> set_zcur (exc_zp2 exc) point (intersection va0 va1 vb0 vb1) exc;
       touch (exc_zp2 exc) point FT_CURVE_TAG_TOUCH_BOTH exc
     }
   }"

section \<open>Interpolating\<close>

text \<open>The original distance of a point of \<open>z\<close> from the base \<open>orus_base\<close>.\<close>

definition ip_distance :: "TT_ExecContext \<Rightarrow> bool \<Rightarrow> zone_ref \<Rightarrow> nat \<Rightarrow> FT_Vector \<Rightarrow> int option" where
  "ip_distance exc twilight z point orus_base =
     (if twilight then do { v \<leftarrow> zorg exc z point; Some (DUALPROJ exc v orus_base) }
      else do {
        v \<leftarrow> zorus exc z point;
        let env = exc_env exc;
        Some (if fe_x_scale env = fe_y_scale env then DUALPROJ exc v orus_base
              else FAST_DUALPROJ exc \<lparr>vx = FT_MulFix (SUB_LONG (vx v) (vx orus_base)) (fe_x_scale env),
                                      vy = FT_MulFix (SUB_LONG (vy v) (vy orus_base)) (fe_y_scale env)\<rparr>)
      })"

text \<open>
  The loop of \<open>IP\<close>: points are \<open>FT_UInt\<close> here, \<open>cur_base\<close> is read anew each time, as a pointer into
  the zone that is being changed; so is \<open>orus_base\<close>, but its array does not change.
\<close>

fun ip_loop ::
    "bool \<Rightarrow> FT_Vector \<Rightarrow> int \<Rightarrow> int \<Rightarrow> nat \<Rightarrow> nat \<Rightarrow> TT_ExecContext \<Rightarrow> TT_ExecContext option" where
  "ip_loop twilight orus_base old_range cur_range 0 a exc = Some (reset_loop exc)"
| "ip_loop twilight orus_base old_range cur_range (Suc k) a exc =
     (if a = 0 then None
      else do {
        p \<leftarrow> get_at (exc_stack exc) (a - 1);
        let point = nat (u32i p);
        if point \<ge> n_points exc (exc_zp2 exc)
        then if pedantic exc then Some (fail_with Invalid_Reference exc)
             else ip_loop twilight orus_base old_range cur_range k (a - 1) exc
        else do {
          org_dist \<leftarrow> ip_distance exc twilight (exc_zp2 exc) point orus_base;
          v \<leftarrow> zcur exc (exc_zp2 exc) point; cur_base \<leftarrow> zcur exc (exc_zp0 exc) (gs_rp1 (exc_GS exc));
          let new_dist = (if org_dist \<noteq> 0
                          then if old_range \<noteq> 0 then FT_MulDiv org_dist cur_range old_range else org_dist
                          else 0);
          exc \<leftarrow> func_move (exc_zp2 exc) point (SUB_LONG new_dist (PROJECT exc v cur_base)) exc;
          ip_loop twilight orus_base old_range cur_range k (a - 1) exc
        }
      })"

definition Ins_IP :: "TT_ExecContext \<Rightarrow> TT_ExecContext option" where
  "Ins_IP exc = with_points (\<lambda>loop exc. do {
     let gs = exc_GS exc;
     if gs_rp1 gs \<ge> n_points exc (exc_zp0 exc) then Some (reset_loop (fail_pedantic Invalid_Reference exc))
     else do {
       let twilight = (gs_gep0 gs = 0 \<or> gs_gep1 gs = 0 \<or> gs_gep2 gs = 0);
       orus_base \<leftarrow> (if twilight then zorg exc (exc_zp0 exc) (gs_rp1 gs) else zorus exc (exc_zp0 exc) (gs_rp1 gs));
       cur_base \<leftarrow> zcur exc (exc_zp0 exc) (gs_rp1 gs);
       (old_range, cur_range) \<leftarrow>
         (if gs_rp2 gs \<ge> n_points exc (exc_zp1 exc) then Some (0, 0)
          else do {
            od \<leftarrow> ip_distance exc twilight (exc_zp1 exc) (gs_rp2 gs) orus_base;
            v \<leftarrow> zcur exc (exc_zp1 exc) (gs_rp2 gs);
            Some (od, PROJECT exc v cur_base)
          });
       ip_loop twilight orus_base old_range cur_range loop (exc_args exc) exc
     }
   }) exc"

section \<open>Delta exceptions\<close>

text \<open>The pixel size an exception is for, \<open>P\<close>, and its amount of movement.\<close>

definition delta_ppem :: "nat \<Rightarrow> TT_ExecContext \<Rightarrow> int \<times> TT_ExecContext" where
  "delta_ppem offset exc =
     (let (p, exc) = func_cur_ppem exc in (p - int (gs_delta_base (exc_GS exc)) - int offset, exc))"

definition delta_amount :: "TT_ExecContext \<Rightarrow> int \<Rightarrow> int" where
  "delta_amount exc B =
     (let B = (B AND 0xF) - 8; B = (if B \<ge> 0 then B + 1 else B)
      in B * 2 ^ (6 - gs_delta_shift (exc_GS exc)))"

text \<open>The loop: pairs of an entry and an argument, from the top of the stack down.\<close>

fun delta_loop ::
    "(int \<Rightarrow> nat) \<Rightarrow> (nat \<Rightarrow> TT_ExecContext \<Rightarrow> bool) \<Rightarrow> (nat \<Rightarrow> int \<Rightarrow> TT_ExecContext \<Rightarrow> TT_ExecContext option) \<Rightarrow> int \<Rightarrow>
      nat \<Rightarrow> nat \<Rightarrow> TT_ExecContext \<Rightarrow> TT_ExecContext option" where
  "delta_loop conv outside apply' P 0 a exc = Some exc"
| "delta_loop conv outside apply' P (Suc k) a exc =
     (if a < 2 then None
      else do {
        v \<leftarrow> get_at (exc_stack exc) (a - 1); B \<leftarrow> get_at (exc_stack exc) (a - 2);
        if outside (conv v) exc
        then if pedantic exc then Some (fail_with Invalid_Reference exc)
             else delta_loop conv outside apply' P k (a - 2) exc
        else do {
          exc \<leftarrow> (if B AND 0xF0 = P then apply' (conv v) (delta_amount exc B) exc else Some exc);
          delta_loop conv outside apply' P k (a - 2) exc
        }
      })"

definition delta_point :: "nat \<Rightarrow> int \<Rightarrow> TT_ExecContext \<Rightarrow> TT_ExecContext option" where
  "delta_point A B exc =
     (if exc_backward_compatibility exc \<noteq> 0
      then do {
        t \<leftarrow> ztag exc (exc_zp0 exc) A;
        if exc_backward_compatibility exc \<noteq> 0x7 \<and>
           (fe_is_composite (exc_env exc) \<and> vy (gs_freeVector (exc_GS exc)) \<noteq> 0 \<or> t AND FT_CURVE_TAG_TOUCH_Y \<noteq> 0)
        then func_move (exc_zp0 exc) A B exc else Some exc
      }
      else func_move (exc_zp0 exc) A B exc)"

text \<open>The number of pairs, and the rest of \<open>DELTAP\<close> and \<open>DELTAC\<close> up to the loop.\<close>

definition with_deltas :: "nat \<Rightarrow> (int \<Rightarrow> nat \<Rightarrow> TT_ExecContext \<Rightarrow> TT_ExecContext option) \<Rightarrow> TT_ExecContext \<Rightarrow> TT_ExecContext option" where
  "with_deltas offset body exc = do {
     a \<leftarrow> arg exc 0;
     let few = (a < 0 \<or> a > int (exc_new_top exc div 2));
     let nump = (if few then exc_new_top exc div 2 else nat a);
     let exc = (if few then fail_pedantic Too_Few_Arguments exc else exc);
     let exc = exc\<lparr>exc_new_top := exc_new_top exc - 2 * nump\<rparr>;
     let (P, exc) = delta_ppem offset exc;
     if P AND NOT 0xF \<noteq> 0 then Some exc else body (P * 16) nump exc
   }"

definition Ins_DELTAP :: "TT_ExecContext \<Rightarrow> TT_ExecContext option" where
  "Ins_DELTAP exc =
     with_deltas (if exc_opcode exc = 0x71 then 16 else if exc_opcode exc = 0x72 then 32 else 0)
       (\<lambda>P nump exc. delta_loop u16_of_int (\<lambda>A exc. A \<ge> n_points exc (exc_zp0 exc)) delta_point P nump (exc_args exc) exc) exc"

definition Ins_DELTAC :: "TT_ExecContext \<Rightarrow> TT_ExecContext option" where
  "Ins_DELTAC exc =
     with_deltas (if exc_opcode exc = 0x74 then 16 else if exc_opcode exc = 0x75 then 32 else 0)
       (\<lambda>P nump exc. delta_loop ulong_of (\<lambda>A exc. A \<ge> length (exc_cvt exc)) func_move_cvt P nump (exc_args exc) exc) exc"

end
