(* ===== verification/Tt_Ins_IUP.thy ===== *)
theory Tt_Ins_IUP
  imports Tt_Ins_Points
begin

text \<open>
  \<open>IUP\<close> of \<open>src/truetype/ttinterp.c\<close>, the interpolation of untouched points. The worker of the code
  looks at the points of the glyph zone through pointers to one of their two coordinates: here
  \<open>iup_x\<close> says which, and \<open>iup_curs\<close> is the array that changes.
\<close>

record IUP_WorkerRec =
  iup_x :: bool
  iup_orgs :: "FT_Vector list"
  iup_curs :: "FT_Vector list"
  iup_orus :: "FT_Vector list"
  iup_max_points :: nat

definition coord :: "bool \<Rightarrow> FT_Vector \<Rightarrow> int" where
  "coord x v = (if x then vx v else vy v)"

definition with_coord :: "bool \<Rightarrow> int \<Rightarrow> FT_Vector \<Rightarrow> FT_Vector" where
  "with_coord x c v = (if x then v\<lparr>vx := c\<rparr> else v\<lparr>vy := c\<rparr>)"

text \<open>\<open>worker->orgs[i].x\<close> and so on, and the assignment to \<open>worker->curs[i].x\<close>.\<close>

definition iup_org :: "IUP_WorkerRec \<Rightarrow> nat \<Rightarrow> int option" where
  "iup_org V i = map_option (coord (iup_x V)) (get_at (iup_orgs V) i)"

definition iup_cur :: "IUP_WorkerRec \<Rightarrow> nat \<Rightarrow> int option" where
  "iup_cur V i = map_option (coord (iup_x V)) (get_at (iup_curs V) i)"

definition iup_oru :: "IUP_WorkerRec \<Rightarrow> nat \<Rightarrow> int option" where
  "iup_oru V i = map_option (coord (iup_x V)) (get_at (iup_orus V) i)"

definition set_iup_cur :: "nat \<Rightarrow> int \<Rightarrow> IUP_WorkerRec \<Rightarrow> IUP_WorkerRec option" where
  "set_iup_cur i c V = do {
     v \<leftarrow> get_at (iup_curs V) i;
     l \<leftarrow> put_at (iup_curs V) i (with_coord (iup_x V) c v);
     Some (V\<lparr>iup_curs := l\<rparr>)
   }"

text \<open>The loops over points: \<open>f\<close> gives the new coordinate of each of \<open>k\<close> points from \<open>i\<close> on.\<close>

fun iup_range :: "(IUP_WorkerRec \<Rightarrow> nat \<Rightarrow> int option) \<Rightarrow> nat \<Rightarrow> nat \<Rightarrow> IUP_WorkerRec \<Rightarrow> IUP_WorkerRec option" where
  "iup_range f 0 i V = Some V"
| "iup_range f (Suc k) i V = do { c \<leftarrow> f V i; V \<leftarrow> set_iup_cur i c V; iup_range f k (i + 1) V }"

definition iup_worker_shift :: "nat \<Rightarrow> nat \<Rightarrow> nat \<Rightarrow> IUP_WorkerRec \<Rightarrow> IUP_WorkerRec option" where
  "iup_worker_shift p1 p2 p V = do {
     c \<leftarrow> iup_cur V p; g \<leftarrow> iup_org V p;
     let dx = SUB_LONG c g;
     let f = (\<lambda>V i. map_option (\<lambda>c. ADD_LONG c dx) (iup_cur V i));
     if dx \<noteq> 0
     then do { V \<leftarrow> iup_range f (p - p1) p1 V; iup_range f (p2 - p) (p + 1) V }
     else Some V
   }"

text \<open>The new coordinate of a point between two references, and of all points from \<open>p1\<close> to \<open>p2\<close>.\<close>

definition iup_outside :: "int \<Rightarrow> int \<Rightarrow> int \<Rightarrow> int \<Rightarrow> int \<Rightarrow> int option" where
  "iup_outside org1 org2 delta1 delta2 x =
     (if x \<le> org1 then Some (ADD_LONG x delta1) else if x \<ge> org2 then Some (ADD_LONG x delta2) else None)"

definition iup_worker_interpolate :: "nat \<Rightarrow> nat \<Rightarrow> nat \<Rightarrow> nat \<Rightarrow> IUP_WorkerRec \<Rightarrow> IUP_WorkerRec option" where
  "iup_worker_interpolate p1 p2 ref1 ref2 V =
     (if p1 > p2 \<or> ref1 \<ge> iup_max_points V \<or> ref2 \<ge> iup_max_points V then Some V
      else do {
        orus1 \<leftarrow> iup_oru V ref1; orus2 \<leftarrow> iup_oru V ref2;
        let (orus1, orus2, ref1, ref2) = (if orus1 > orus2 then (orus2, orus1, ref2, ref1) else (orus1, orus2, ref1, ref2));
        org1 \<leftarrow> iup_org V ref1; org2 \<leftarrow> iup_org V ref2;
        cur1 \<leftarrow> iup_cur V ref1; cur2 \<leftarrow> iup_cur V ref2;
        let delta1 = SUB_LONG cur1 org1;
        let delta2 = SUB_LONG cur2 org2;
        let scale = FT_DivFix (SUB_LONG cur2 cur1) (SUB_LONG orus2 orus1);
        let between = (\<lambda>V i. if cur1 = cur2 \<or> orus1 = orus2 then Some cur1
                             else map_option (\<lambda>o1. ADD_LONG cur1 (FT_MulFix (SUB_LONG o1 orus1) scale)) (iup_oru V i));
        iup_range (\<lambda>V i. do {
          x \<leftarrow> iup_org V i;
          case iup_outside org1 org2 delta1 delta2 x of Some c \<Rightarrow> Some c | None \<Rightarrow> between V i
        }) (p2 + 1 - p1) p1 V
      })"

text \<open>\<open>while ( point <= end_point && ( tags[point] & mask ) == 0 ) point++\<close>, for \<open>k\<close> points.\<close>

fun next_touched :: "nat list \<Rightarrow> nat \<Rightarrow> nat \<Rightarrow> nat \<Rightarrow> nat option" where
  "next_touched tags flag 0 point = Some point"
| "next_touched tags flag (Suc k) point = do {
     t \<leftarrow> get_at tags point;
     if t AND flag \<noteq> 0 then Some point else next_touched tags flag k (point + 1)
   }"

text \<open>The points after the first touched one; also returns the last touched point.\<close>

fun iup_segments :: "nat list \<Rightarrow> nat \<Rightarrow> nat \<Rightarrow> nat \<Rightarrow> nat \<Rightarrow> IUP_WorkerRec \<Rightarrow> (nat \<times> IUP_WorkerRec) option" where
  "iup_segments tags flag 0 point cur_touched V = Some (cur_touched, V)"
| "iup_segments tags flag (Suc k) point cur_touched V = do {
     t \<leftarrow> get_at tags point;
     if t AND flag \<noteq> 0
     then do {
       V \<leftarrow> iup_worker_interpolate (cur_touched + 1) (point - 1) cur_touched point V;
       iup_segments tags flag k (point + 1) point V
     }
     else iup_segments tags flag k (point + 1) cur_touched V
   }"

text \<open>One contour, from \<open>first_point\<close> to \<open>end_point\<close>: the next point, and the worker.\<close>

definition iup_contour :: "nat list \<Rightarrow> nat \<Rightarrow> nat \<Rightarrow> nat \<Rightarrow> IUP_WorkerRec \<Rightarrow> (nat \<times> IUP_WorkerRec) option" where
  "iup_contour tags flag first_point end_point V = do {
     point \<leftarrow> next_touched tags flag (end_point + 1 - first_point) first_point;
     if point \<le> end_point
     then do {
       let first_touched = point;
       (cur_touched, V) \<leftarrow> iup_segments tags flag (end_point - point) (point + 1) first_touched V;
       V \<leftarrow> (if cur_touched = first_touched then iup_worker_shift first_point end_point cur_touched V
             else do {
               V \<leftarrow> iup_worker_interpolate ((cur_touched + 1) mod 65536) end_point cur_touched first_touched V;
               if first_touched > 0
               then iup_worker_interpolate first_point (first_touched - 1) cur_touched first_touched V
               else Some V
             });
       Some (end_point + 1, V)
     }
     else Some (point, V)
   }"

text \<open>
  The loop over the contours. Its counter is an \<open>FT_Short\<close>, and the number of contours an
  \<open>FT_UShort\<close>. There is a round for each contour; one more never starts.
\<close>

fun iup_contours :: "TT_GlyphZoneRec \<Rightarrow> nat \<Rightarrow> nat \<Rightarrow> int \<Rightarrow> nat \<Rightarrow> IUP_WorkerRec \<Rightarrow> IUP_WorkerRec option" where
  "iup_contours pts flag 0 contour point V = None"
| "iup_contours pts flag (Suc k) contour point V = do {
     e \<leftarrow> (if contour < 0 then None else get_at (zn_contours pts) (nat contour));
     let end_point = nat (u32i (int e - int (zn_first_point pts)));
     let end_point = (if end_point \<ge> zn_n_points pts then nat (u32i (int (zn_n_points pts) - 1)) else end_point);
     (point, V) \<leftarrow> iup_contour (zn_tags pts) flag point end_point V;
     let contour = s16i (contour + 1);
     if contour < int (length (zn_contours pts)) then iup_contours pts flag k contour point V else Some V
   }"

definition Ins_IUP :: "TT_ExecContext \<Rightarrow> TT_ExecContext option" where
  "Ins_IUP exc =
     (if exc_backward_compatibility exc = 0x7 then Some exc
      else do {
        let bc = exc_backward_compatibility exc;
        let exc = (if bc \<noteq> 0 then exc\<lparr>exc_backward_compatibility := bc OR 2 ^ (exc_opcode exc mod 2)\<rparr> else exc);
        let pts = exc_pts exc;
        if length (zn_contours pts) = 0 then Some exc
        else do {
          let x = odd (exc_opcode exc);
          let flag = (if x then FT_CURVE_TAG_TOUCH_X else FT_CURVE_TAG_TOUCH_Y);
          let V = \<lparr>iup_x = x, iup_orgs = zn_org pts, iup_curs = zn_cur pts, iup_orus = zn_orus pts,
                   iup_max_points = zn_n_points pts\<rparr>;
          V \<leftarrow> iup_contours pts flag (length (zn_contours pts)) 0 0 V;
          Some (exc\<lparr>exc_pts := pts\<lparr>zn_cur := iup_curs V\<rparr>\<rparr>)
        }
      })"

end
