(* ===== verification/Tt_Run.thy ===== *)
theory Tt_Run
  imports Tt_Ins_IUP
begin

text \<open>
  The interpreter loop of \<open>src/truetype/ttinterp.c\<close>, \<open>TT_RunIns\<close>, with the table of stack effects and
  the \<open>switch\<close> over the opcodes, and the functions that set a context up, run it and save what a
  control value program changed. \<open>None\<close> is an access outside an array, as everywhere.
\<close>

section \<open>The instruction set\<close>

text \<open>\<open>Pop_Push_Count\<close>, unpacked: what an instruction takes from the stack and puts there.\<close>

definition Pop_Push_Count :: "(nat \<times> nat) list" where
  "Pop_Push_Count = [
     (0, 0), (0, 0), (0, 0), (0, 0), (0, 0), (0, 0), (2, 0), (2, 0),
     (2, 0), (2, 0), (2, 0), (2, 0), (0, 2), (0, 2), (0, 0), (5, 0),
     (1, 0), (1, 0), (1, 0), (1, 0), (1, 0), (1, 0), (1, 0), (1, 0),
     (0, 0), (0, 0), (1, 0), (0, 0), (1, 0), (1, 0), (1, 0), (1, 0),
     (1, 2), (1, 0), (0, 0), (2, 2), (0, 1), (1, 1), (1, 0), (2, 0),
     (0, 0), (1, 0), (2, 0), (1, 0), (1, 0), (0, 0), (1, 0), (1, 0),
     (0, 0), (0, 0), (0, 0), (0, 0), (1, 0), (1, 0), (1, 0), (1, 0),
     (1, 0), (0, 0), (2, 0), (2, 0), (0, 0), (0, 0), (2, 0), (2, 0),
     (0, 0), (0, 0), (2, 0), (1, 1), (2, 0), (1, 1), (1, 1), (1, 1),
     (2, 0), (2, 1), (2, 1), (0, 1), (0, 1), (0, 0), (0, 0), (1, 0),
     (2, 1), (2, 1), (2, 1), (2, 1), (2, 1), (2, 1), (1, 1), (1, 1),
     (1, 0), (0, 0), (2, 1), (2, 1), (1, 1), (1, 0), (1, 0), (1, 0),
     (2, 1), (2, 1), (2, 1), (2, 1), (1, 1), (1, 1), (1, 1), (1, 1),
     (1, 1), (1, 1), (1, 1), (1, 1), (1, 1), (1, 1), (1, 1), (1, 1),
     (2, 0), (1, 0), (1, 0), (1, 0), (1, 0), (1, 0), (1, 0), (1, 0),
     (2, 0), (2, 0), (0, 0), (0, 0), (0, 0), (0, 0), (1, 0), (1, 0),
     (0, 0), (2, 0), (2, 0), (0, 0), (0, 0), (1, 0), (2, 0), (2, 0),
     (1, 1), (1, 0), (3, 3), (2, 1), (2, 1), (1, 0), (2, 0), (0, 0),
     (0, 0), (0, 0), (0, 1), (0, 0), (0, 0), (0, 0), (0, 0), (0, 0),
     (0, 0), (0, 0), (0, 0), (0, 0), (0, 0), (0, 0), (0, 0), (0, 0),
     (0, 0), (0, 0), (0, 0), (0, 0), (0, 0), (0, 0), (0, 0), (0, 0),
     (0, 0), (0, 0), (0, 0), (0, 0), (0, 0), (0, 0), (0, 0), (0, 0),
     (0, 1), (0, 2), (0, 3), (0, 4), (0, 5), (0, 6), (0, 7), (0, 8),
     (0, 1), (0, 2), (0, 3), (0, 4), (0, 5), (0, 6), (0, 7), (0, 8),
     (1, 0), (1, 0), (1, 0), (1, 0), (1, 0), (1, 0), (1, 0), (1, 0),
     (1, 0), (1, 0), (1, 0), (1, 0), (1, 0), (1, 0), (1, 0), (1, 0),
     (1, 0), (1, 0), (1, 0), (1, 0), (1, 0), (1, 0), (1, 0), (1, 0),
     (1, 0), (1, 0), (1, 0), (1, 0), (1, 0), (1, 0), (1, 0), (1, 0),
     (2, 0), (2, 0), (2, 0), (2, 0), (2, 0), (2, 0), (2, 0), (2, 0),
     (2, 0), (2, 0), (2, 0), (2, 0), (2, 0), (2, 0), (2, 0), (2, 0),
     (2, 0), (2, 0), (2, 0), (2, 0), (2, 0), (2, 0), (2, 0), (2, 0),
     (2, 0), (2, 0), (2, 0), (2, 0), (2, 0), (2, 0), (2, 0), (2, 0)]"

definition pop_count :: "nat \<Rightarrow> nat" where
  "pop_count opcode = fst (Pop_Push_Count ! opcode)"

definition push_count :: "nat \<Rightarrow> nat" where
  "push_count opcode = snd (Pop_Push_Count ! opcode)"

definition Ins_DEBUG :: "TT_ExecContext \<Rightarrow> TT_ExecContext option" where
  "Ins_DEBUG exc = Some (fail_with Debug_OpCode exc)"

text \<open>The \<open>switch\<close>; \<open>POP\<close>, \<open>EIF\<close>, \<open>SANGW\<close> and \<open>AA\<close> do nothing.\<close>

definition dispatch :: "nat \<Rightarrow> TT_ExecContext \<Rightarrow> TT_ExecContext option" where
  "dispatch opcode exc =
     (if opcode \<le> 0x05 then Ins_SxyTCA exc
      else if opcode = 0x06 \<or> opcode = 0x07 then Ins_SPVTL exc
      else if opcode = 0x08 \<or> opcode = 0x09 then Ins_SFVTL exc
      else if opcode = 0x0A then Ins_SPVFS exc
      else if opcode = 0x0B then Ins_SFVFS exc
      else if opcode = 0x0C then Ins_GPV exc
      else if opcode = 0x0D then Ins_GFV exc
      else if opcode = 0x0E then Ins_SFVTPV exc
      else if opcode = 0x0F then Ins_ISECT exc
      else if opcode = 0x10 then Ins_SRP0 exc
      else if opcode = 0x11 then Ins_SRP1 exc
      else if opcode = 0x12 then Ins_SRP2 exc
      else if opcode = 0x13 then Ins_SZP0 exc
      else if opcode = 0x14 then Ins_SZP1 exc
      else if opcode = 0x15 then Ins_SZP2 exc
      else if opcode = 0x16 then Ins_SZPS exc
      else if opcode = 0x17 then Ins_SLOOP exc
      else if opcode = 0x18 then Ins_RTG exc
      else if opcode = 0x19 then Ins_RTHG exc
      else if opcode = 0x1A then Ins_SMD exc
      else if opcode = 0x1B then Ins_ELSE exc
      else if opcode = 0x1C then Ins_JMPR exc
      else if opcode = 0x1D then Ins_SCVTCI exc
      else if opcode = 0x1E then Ins_SSWCI exc
      else if opcode = 0x1F then Ins_SSW exc
      else if opcode = 0x20 then Ins_DUP exc
      else if opcode = 0x21 then Some exc
      else if opcode = 0x22 then Ins_CLEAR exc
      else if opcode = 0x23 then Ins_SWAP exc
      else if opcode = 0x24 then Ins_DEPTH exc
      else if opcode = 0x25 then Ins_CINDEX exc
      else if opcode = 0x26 then Ins_MINDEX exc
      else if opcode = 0x27 then Ins_ALIGNPTS exc
      else if opcode = 0x28 then Ins_UNKNOWN exc
      else if opcode = 0x29 then Ins_UTP exc
      else if opcode = 0x2A then Ins_LOOPCALL exc
      else if opcode = 0x2B then Ins_CALL exc
      else if opcode = 0x2C then Ins_FDEF exc
      else if opcode = 0x2D then Ins_ENDF exc
      else if opcode = 0x2E \<or> opcode = 0x2F then Ins_MDAP exc
      else if opcode = 0x30 \<or> opcode = 0x31 then Ins_IUP exc
      else if opcode = 0x32 \<or> opcode = 0x33 then Ins_SHP exc
      else if opcode = 0x34 \<or> opcode = 0x35 then Ins_SHC exc
      else if opcode = 0x36 \<or> opcode = 0x37 then Ins_SHZ exc
      else if opcode = 0x38 then Ins_SHPIX exc
      else if opcode = 0x39 then Ins_IP exc
      else if opcode = 0x3A \<or> opcode = 0x3B then Ins_MSIRP exc
      else if opcode = 0x3C then Ins_ALIGNRP exc
      else if opcode = 0x3D then Ins_RTDG exc
      else if opcode = 0x3E \<or> opcode = 0x3F then Ins_MIAP exc
      else if opcode = 0x40 then Ins_NPUSHB exc
      else if opcode = 0x41 then Ins_NPUSHW exc
      else if opcode = 0x42 then Ins_WS exc
      else if opcode = 0x43 then Ins_RS exc
      else if opcode = 0x44 then Ins_WCVTP exc
      else if opcode = 0x45 then Ins_RCVT exc
      else if opcode = 0x46 \<or> opcode = 0x47 then Ins_GC exc
      else if opcode = 0x48 then Ins_SCFS exc
      else if opcode = 0x49 \<or> opcode = 0x4A then Ins_MD exc
      else if opcode = 0x4B then Ins_MPPEM exc
      else if opcode = 0x4C then Ins_MPS exc
      else if opcode = 0x4D then Ins_FLIPON exc
      else if opcode = 0x4E then Ins_FLIPOFF exc
      else if opcode = 0x4F then Ins_DEBUG exc
      else if opcode = 0x50 then Ins_LT exc
      else if opcode = 0x51 then Ins_LTEQ exc
      else if opcode = 0x52 then Ins_GT exc
      else if opcode = 0x53 then Ins_GTEQ exc
      else if opcode = 0x54 then Ins_EQ exc
      else if opcode = 0x55 then Ins_NEQ exc
      else if opcode = 0x56 then Ins_ODD exc
      else if opcode = 0x57 then Ins_EVEN exc
      else if opcode = 0x58 then Ins_IF exc
      else if opcode = 0x59 then Some exc
      else if opcode = 0x5A then Ins_AND exc
      else if opcode = 0x5B then Ins_OR exc
      else if opcode = 0x5C then Ins_NOT exc
      else if opcode = 0x5D then Ins_DELTAP exc
      else if opcode = 0x5E then Ins_SDB exc
      else if opcode = 0x5F then Ins_SDS exc
      else if opcode = 0x60 then Ins_ADD exc
      else if opcode = 0x61 then Ins_SUB exc
      else if opcode = 0x62 then Ins_DIV exc
      else if opcode = 0x63 then Ins_MUL exc
      else if opcode = 0x64 then Ins_ABS exc
      else if opcode = 0x65 then Ins_NEG exc
      else if opcode = 0x66 then Ins_FLOOR exc
      else if opcode = 0x67 then Ins_CEILING exc
      else if opcode = 0x68 \<or> opcode = 0x69 \<or> opcode = 0x6A \<or> opcode = 0x6B then Ins_ROUND exc
      else if opcode = 0x6C \<or> opcode = 0x6D \<or> opcode = 0x6E \<or> opcode = 0x6F then Ins_NROUND exc
      else if opcode = 0x70 then Ins_WCVTF exc
      else if opcode = 0x71 \<or> opcode = 0x72 then Ins_DELTAP exc
      else if opcode = 0x73 \<or> opcode = 0x74 \<or> opcode = 0x75 then Ins_DELTAC exc
      else if opcode = 0x76 then Ins_SROUND exc
      else if opcode = 0x77 then Ins_S45ROUND exc
      else if opcode = 0x78 then Ins_JROT exc
      else if opcode = 0x79 then Ins_JROF exc
      else if opcode = 0x7A then Ins_ROFF exc
      else if opcode = 0x7B then Ins_UNKNOWN exc
      else if opcode = 0x7C then Ins_RUTG exc
      else if opcode = 0x7D then Ins_RDTG exc
      else if opcode = 0x7E then Some exc
      else if opcode = 0x7F then Some exc
      else if opcode = 0x80 then Ins_FLIPPT exc
      else if opcode = 0x81 then Ins_FLIPRGON exc
      else if opcode = 0x82 then Ins_FLIPRGOFF exc
      else if opcode = 0x83 \<or> opcode = 0x84 then Ins_UNKNOWN exc
      else if opcode = 0x85 then Ins_SCANCTRL exc
      else if opcode = 0x86 \<or> opcode = 0x87 then Ins_SDPVTL exc
      else if opcode = 0x88 then Ins_GETINFO exc
      else if opcode = 0x89 then Ins_IDEF exc
      else if opcode = 0x8A then Ins_ROLL exc
      else if opcode = 0x8B then Ins_MAX exc
      else if opcode = 0x8C then Ins_MIN exc
      else if opcode = 0x8D then Ins_SCANTYPE exc
      else if opcode = 0x8E then Ins_INSTCTRL exc
      else if opcode = 0x8F \<or> opcode = 0x90 then Ins_UNKNOWN exc
      else if opcode = 0x91
      then (case fe_blend (exc_env exc) of Some (num_axes, coords) \<Rightarrow> Ins_GETVARIATION num_axes coords exc | None \<Rightarrow> Ins_UNKNOWN exc)
      else if opcode = 0x92 then (if fe_blend (exc_env exc) \<noteq> None then Ins_GETDATA exc else Ins_UNKNOWN exc)
      else if opcode \<ge> 0xE0 then Ins_MIRP exc
      else if opcode \<ge> 0xC0 then Ins_MDRP exc
      else if opcode \<ge> 0xB8 then Ins_PUSHW exc
      else if opcode \<ge> 0xB0 then Ins_PUSHB exc
      else Ins_UNKNOWN exc)"

section \<open>The loop\<close>

text \<open>How a round ends: with the next instruction to come, or with the result of the function.\<close>

datatype run_outcome = Running | Returned "ft_error option"

text \<open>
  The beginning of a round: the arguments, which are zeroes when the stack has too few of them, and
  the new top; \<open>True\<close> when the instruction can run.
\<close>

definition fetch :: "TT_ExecContext \<Rightarrow> (bool \<times> TT_ExecContext) option" where
  "fetch exc = do {
     op \<leftarrow> code_at exc (exc_IP exc);
     let exc = exc\<lparr>exc_error := None, exc_opcode := op, exc_length := 1\<rparr>;
     if exc_top exc < pop_count op \<and> pedantic exc then Some (False, fail_with Too_Few_Arguments exc)
     else do {
       exc \<leftarrow> (if exc_top exc < pop_count op then set_args 0 (replicate (pop_count op) 0) (exc\<lparr>exc_args := 0\<rparr>)
               else Some (exc\<lparr>exc_args := exc_top exc - pop_count op\<rparr>));
       let exc = exc\<lparr>exc_new_top := exc_args exc + push_count op\<rparr>;
       if exc_new_top exc > length (exc_stack exc) then Some (False, fail_with Stack_Overflow exc) else Some (True, exc)
     }
   }"

text \<open>\<open>LSuiteLabel_\<close>.\<close>

definition suite :: "TT_ExecContext \<Rightarrow> run_outcome \<times> TT_ExecContext" where
  "suite exc =
     (if exc_IP exc \<ge> int (length (exc_code exc))
      then if exc_callTop exc > 0 then (Returned (Some Code_Overflow), fail_with Code_Overflow exc)
           else (Returned None, exc)
      else if fe_instruction_trap (exc_env exc) then (Returned None, exc)
      else (Running, exc))"

text \<open>
  An unknown opcode that is defined by the program; the call record is written, but \<open>callTop\<close> is
  not increased. The code has this after \<open>Ins_UNKNOWN\<close> has looked at the same definitions.
\<close>

definition redefined :: "TT_ExecContext \<Rightarrow> (run_outcome \<times> TT_ExecContext) option" where
  "redefined exc = do {
     i \<leftarrow> def_find (\<lambda>d. def_active d \<and> exc_opcode exc = def_opc d mod 256) (exc_numIDefs exc) (exc_IDefs exc);
     if i = exc_numIDefs exc then Some (Returned (exc_error exc), exc)
     else if exc_callTop exc \<ge> length (exc_callStack exc)
     then Some (Returned (Some Invalid_Reference), fail_with Invalid_Reference exc)
     else do {
       d \<leftarrow> get_at (exc_IDefs exc) i;
       stack \<leftarrow> put_at (exc_callStack exc) (exc_callTop exc)
         \<lparr>Caller_Range = exc_curRange exc, Caller_IP = exc_IP exc + 1, Cur_Count = 1, Def = IDef i\<rparr>;
       let exc = exc\<lparr>exc_callStack := stack\<rparr>;
       exc' \<leftarrow> Ins_Goto_CodeRange (def_range d) (def_start d) (exc\<lparr>exc_error := None\<rparr>);
       Some (if exc_error exc' \<noteq> None then (Returned (exc_error exc'), exc')
             else suite (exc'\<lparr>exc_error := exc_error exc\<rparr>))
     }
   }"

definition run_step :: "TT_ExecContext \<Rightarrow> (run_outcome \<times> TT_ExecContext) option" where
  "run_step exc = do {
     (ready, exc) \<leftarrow> fetch exc;
     if \<not> ready then Some (Returned (exc_error exc), exc)
     else do {
       exc \<leftarrow> dispatch (exc_opcode exc) exc;
       case exc_error exc of
         Some Invalid_Opcode \<Rightarrow> redefined exc
       | Some e \<Rightarrow> Some (Returned (Some e), exc)
       | None \<Rightarrow> Some (suite (exc\<lparr>exc_top := exc_new_top exc, exc_IP := exc_IP exc + exc_length exc\<rparr>))
     }
   }"

text \<open>\<open>TT_CONFIG_OPTION_MAX_RUNNABLE_OPCODES\<close> instructions at most; \<open>k\<close> are left.\<close>

definition TT_CONFIG_OPTION_MAX_RUNNABLE_OPCODES :: nat where
  "TT_CONFIG_OPTION_MAX_RUNNABLE_OPCODES = 1000000"

fun run_loop :: "nat \<Rightarrow> TT_ExecContext \<Rightarrow> (ft_error option \<times> TT_ExecContext) option" where
  "run_loop 0 exc = Some (Some Execution_Too_Long, fail_with Execution_Too_Long exc)"
| "run_loop (Suc k) exc = do {
     (outcome, exc) \<leftarrow> run_step exc;
     case outcome of Running \<Rightarrow> run_loop k exc | Returned e \<Rightarrow> Some (e, exc)
   }"

definition TT_RunIns :: "TT_ExecContext \<Rightarrow> (ft_error option \<times> TT_ExecContext) option" where
  "TT_RunIns exc = run_loop TT_CONFIG_OPTION_MAX_RUNNABLE_OPCODES exc"

section \<open>Running a context\<close>

text \<open>What the functions below use of a size.\<close>

record TT_SizeRec =
  sz_point_size :: int
  sz_ttmetrics :: TT_Size_Metrics
  sz_x_scale :: int
  sz_y_scale :: int
  sz_x_ppem :: nat
  sz_y_ppem :: nat
  sz_twilight :: TT_GlyphZoneRec
  sz_GS :: TT_GraphicsState

definition set_env :: "(TT_ExecEnv \<Rightarrow> TT_ExecEnv) \<Rightarrow> TT_ExecContext \<Rightarrow> TT_ExecContext" where
  "set_env f exc = exc\<lparr>exc_env := f (exc_env exc)\<rparr>"

definition coderange_tag :: "nat \<Rightarrow> TT_CodeRange_Tag" where
  "coderange_tag rng =
     (if rng = 1 then tt_coderange_font else if rng = 2 then tt_coderange_cvt
      else if rng = 3 then tt_coderange_glyph else tt_coderange_none)"

definition TT_Set_CodeRange :: "nat \<Rightarrow> bytes \<Rightarrow> TT_ExecContext \<Rightarrow> TT_ExecContext option" where
  "TT_Set_CodeRange rng base exc = do {
     t \<leftarrow> put_at (fe_codeRangeTable (exc_env exc)) (rng - 1) (Some base);
     Some (set_env (\<lambda>e. e\<lparr>fe_codeRangeTable := t, fe_iniRange := coderange_tag rng\<rparr>)
             (exc\<lparr>exc_code := base, exc_IP := 0, exc_curRange := rng\<rparr>))
   }"

definition TT_Clear_CodeRange :: "nat \<Rightarrow> TT_ExecContext \<Rightarrow> TT_ExecContext option" where
  "TT_Clear_CodeRange rng exc = do {
     t \<leftarrow> put_at (fe_codeRangeTable (exc_env exc)) (rng - 1) None;
     Some (set_env (\<lambda>e. e\<lparr>fe_codeRangeTable := t\<rparr>) exc)
   }"

text \<open>The copies of control values and storage for the previous glyph are no longer used.\<close>

definition TT_Load_Context :: "TT_SizeRec \<Rightarrow> TT_ExecContext \<Rightarrow> TT_ExecContext" where
  "TT_Load_Context s exc =
     set_env (\<lambda>e. e\<lparr>fe_pointSize := sz_point_size s, fe_x_scale := sz_x_scale s, fe_y_scale := sz_y_scale s,
                    fe_x_ppem := sz_x_ppem s, fe_y_ppem := sz_y_ppem s\<rparr>)
       (exc\<lparr>exc_glyfStorage := None, exc_glyfCvt := None, exc_tt_metrics := sz_ttmetrics s, exc_twilight := sz_twilight s\<rparr>)"

definition TT_Save_Context :: "TT_ExecContext \<Rightarrow> TT_SizeRec \<Rightarrow> TT_SizeRec" where
  "TT_Save_Context exc s =
     (let g = exc_GS exc
      in s\<lparr>sz_GS := (sz_GS s)\<lparr>gs_minimum_distance := gs_minimum_distance g,
            gs_control_value_cutin := gs_control_value_cutin g, gs_single_width_cutin := gs_single_width_cutin g,
            gs_single_width_value := gs_single_width_value g, gs_delta_base := gs_delta_base g,
            gs_delta_shift := gs_delta_shift g, gs_auto_flip := gs_auto_flip g,
            gs_instruct_control := gs_instruct_control g, gs_scan_control := gs_scan_control g,
            gs_scan_type := gs_scan_type g\<rparr>\<rparr>)"

definition limit_twilight :: "TT_ExecContext \<Rightarrow> TT_ExecContext" where
  "limit_twilight exc =
     (let n = max 30 (2 * (zn_n_points (exc_pts exc) + length (exc_size_cvt exc)))
      in if zn_n_points (exc_twilight exc) > n
         then exc\<lparr>exc_twilight := (exc_twilight exc)\<lparr>zn_n_points := if n > 0xFFFF then 0xFFFF else n\<rparr>\<rparr>
         else exc)"

definition loop_limit :: "TT_ExecContext \<Rightarrow> nat" where
  "loop_limit exc =
     (let n = zn_n_points (exc_pts exc); c = length (exc_size_cvt exc);
          m = (if n \<noteq> 0 then max 50 (10 * n) + max 50 (c div 10) else 300 + 22 * c)
      in if m > 100 * fe_num_glyphs (exc_env exc) then 100 * fe_num_glyphs (exc_env exc) else m)"

definition TT_Run_Context :: "TT_SizeRec \<Rightarrow> TT_ExecContext \<Rightarrow> (ft_error option \<times> TT_ExecContext) option" where
  "TT_Run_Context s exc =
     (let exc = limit_twilight (exc\<lparr>exc_zp0 := Pts, exc_zp1 := Pts, exc_zp2 := Pts\<rparr>);
          exc = exc\<lparr>exc_loopcall_counter := 0, exc_neg_jump_counter := 0,
                    exc_loopcall_counter_max := loop_limit exc, exc_neg_jump_counter_max := loop_limit exc,
                    exc_stretched_funcs := (fe_x_ppem (exc_env exc) \<noteq> fe_y_ppem (exc_env exc)),
                    exc_GS := sz_GS s, exc_func_round := RF_To_Grid\<rparr>;
          exc = Compute_Funcs exc
      in TT_RunIns (set_env (\<lambda>e. e\<lparr>fe_instruction_trap := False\<rparr>)
           (exc\<lparr>exc_backward_compatibility := nat (int (exc_backward_compatibility exc) AND NOT 3),
                exc_top := 0, exc_callTop := 0\<rparr>)))"

end
