(* ===== verification/Tt_Exec_Safe.thy ===== *)
theory Tt_Exec_Safe
  imports Tt_Run
begin

text \<open>
  What keeps the bytecode interpreter inside its arrays: the invariant of the execution context, and
  the rules by which the instructions are shown to keep it. \<open>okay m P\<close> says that \<open>m\<close> returns, and
  that \<open>P\<close> holds for what it returns.
\<close>

section \<open>Computations that return\<close>

definition okay :: "'a option \<Rightarrow> ('a \<Rightarrow> bool) \<Rightarrow> bool" where
  "okay m P = (case m of None \<Rightarrow> False | Some x \<Rightarrow> P x)"

lemma okay_simps [simp]: "okay (Some x) P = P x" "okay None P = False"
  by (simp_all add: okay_def)

lemma okay_iff: "okay m P \<longleftrightarrow> (\<exists>x. m = Some x \<and> P x)"
  by (cases m) simp_all

lemma okay_mono: "okay m P \<Longrightarrow> (\<And>x. P x \<Longrightarrow> Q x) \<Longrightarrow> okay m Q"
  by (cases m) simp_all

lemma okay_bind: "okay (m \<bind> f) P = okay m (\<lambda>x. okay (f x) P)"
  by (cases m) simp_all

lemma okay_map_option: "okay (map_option f m) P = okay m (\<lambda>x. P (f x))"
  by (cases m) simp_all

lemma okay_get_at: "okay (get_at xs i) P \<longleftrightarrow> i < length xs \<and> P (xs ! i)"
  by (simp add: get_at_def)

lemma okay_put_at: "okay (put_at xs i v) P \<longleftrightarrow> i < length xs \<and> P (xs[i := v])"
  by (simp add: put_at_def)

lemmas okay_rules = okay_bind okay_map_option okay_get_at okay_put_at

section \<open>The invariant\<close>

text \<open>
  The arrays of a zone hold its points, its contours end inside them, and there are no more contours
  than the counter of \<open>IUP\<close> can count. \<open>SHZ\<close> needs the last contour end without \<open>first_point\<close>.
\<close>

definition zone_ok :: "TT_GlyphZoneRec \<Rightarrow> bool" where
  "zone_ok z \<longleftrightarrow>
     zn_n_points z < 65536 \<and> zn_n_points z \<le> length (zn_org z) \<and> zn_n_points z \<le> length (zn_cur z) \<and>
     zn_n_points z \<le> length (zn_orus z) \<and> zn_n_points z \<le> length (zn_tags z) \<and>
     length (zn_contours z) < 32768 \<and>
     (zn_contours z \<noteq> [] \<longrightarrow> 0 < zn_n_points z \<and> last (zn_contours z) < zn_n_points z) \<and>
     (\<forall>e \<in> set (zn_contours z). zn_first_point z \<le> e + 1 \<and> e + 1 \<le> zn_first_point z + zn_n_points z)"

definition env_ok :: "TT_ExecEnv \<Rightarrow> bool" where
  "env_ok env \<longleftrightarrow> length (fe_codeRangeTable env) = 3 \<and>
     (case fe_blend env of Some (n, Some c) \<Rightarrow> n \<le> length c | _ \<Rightarrow> True)"

definition gs_ok :: "TT_GraphicsState \<Rightarrow> bool" where
  "gs_ok g \<longleftrightarrow> 0 \<le> gs_loop g \<and> gs_loop g \<le> 0xFFFF \<and> gs_delta_shift g \<le> 6 \<and> length (gs_compensation g) = 4"

definition def_ref_ok :: "TT_ExecContext \<Rightarrow> def_ref \<Rightarrow> bool" where
  "def_ref_ok exc d \<longleftrightarrow> (case d of FDef i \<Rightarrow> i < length (exc_FDefs exc) | IDef i \<Rightarrow> i < length (exc_IDefs exc))"

definition defs_ok :: "TT_ExecContext \<Rightarrow> bool" where
  "defs_ok exc \<longleftrightarrow>
     exc_numFDefs exc \<le> length (exc_FDefs exc) \<and> fe_maxFDefs (exc_env exc) \<le> length (exc_FDefs exc) \<and>
     exc_numIDefs exc \<le> length (exc_IDefs exc) \<and> fe_maxIDefs (exc_env exc) \<le> length (exc_IDefs exc) \<and>
     (\<forall>d \<in> set (exc_FDefs exc). 0 \<le> def_start d) \<and> (\<forall>d \<in> set (exc_IDefs exc). 0 \<le> def_start d)"

definition calls_ok :: "TT_ExecContext \<Rightarrow> bool" where
  "calls_ok exc \<longleftrightarrow> exc_callTop exc \<le> length (exc_callStack exc) \<and>
     (\<forall>c \<in> set (take (exc_callTop exc) (exc_callStack exc)). def_ref_ok exc (Def c) \<and> 0 \<le> Caller_IP c)"

text \<open>
  What no instruction changes of the two zones: their points, contours and the room in their arrays.
\<close>

type_synonym zone_shape = "nat \<times> nat \<times> nat \<times> FT_Vector list \<times> nat \<times> nat list \<times> nat"

definition zone_shape :: "TT_GlyphZoneRec \<Rightarrow> zone_shape" where
  "zone_shape z = (zn_n_points z, length (zn_org z), length (zn_cur z), zn_orus z, length (zn_tags z), zn_contours z, zn_first_point z)"

datatype exec_shape = Shape zone_shape zone_shape

abbreviation shape :: "TT_ExecContext \<Rightarrow> exec_shape" where
  "shape exc \<equiv> Shape (zone_shape (exc_pts exc)) (zone_shape (exc_twilight exc))"

text \<open>The context between two instructions, of the shape \<open>S\<close>, except for where the next one is.\<close>

definition exec_ok :: "exec_shape \<Rightarrow> TT_ExecContext \<Rightarrow> bool" where
  "exec_ok S exc \<longleftrightarrow> shape exc = S \<and> env_ok (exc_env exc) \<and> 32 \<le> length (exc_stack exc) \<and> exc_top exc \<le> length (exc_stack exc) \<and>
     zone_ok (exc_pts exc) \<and> zone_ok (exc_twilight exc) \<and> gs_ok (exc_GS exc) \<and> defs_ok exc \<and> calls_ok exc \<and>
     (exc_func_round exc = RF_Super_45 \<longrightarrow> exc_period exc \<noteq> 0)"

text \<open>The context when an instruction runs, with \<open>pops\<close> arguments, and when it is done.\<close>

definition live :: "exec_shape \<Rightarrow> TT_ExecContext \<Rightarrow> bool" where
  "live S exc \<longleftrightarrow> exec_ok S exc \<and> exc_new_top exc \<le> length (exc_stack exc) \<and>
     0 \<le> exc_IP exc \<and> exc_IP exc < int (length (exc_code exc)) \<and> exc_length exc = 1 \<and> exc_opcode exc < 256"

definition ready :: "exec_shape \<Rightarrow> nat \<Rightarrow> TT_ExecContext \<Rightarrow> bool" where
  "ready S pops exc \<longleftrightarrow> live S exc \<and> exc_args exc + pops \<le> length (exc_stack exc) \<and> exc_args exc \<le> exc_top exc"

definition finished :: "exec_shape \<Rightarrow> TT_ExecContext \<Rightarrow> bool" where
  "finished S exc \<longleftrightarrow> exec_ok S exc \<and> exc_new_top exc \<le> length (exc_stack exc) \<and>
     (exc_error exc = None \<longrightarrow> 0 \<le> exc_IP exc + exc_length exc)"

lemma live_finished: "live S exc \<Longrightarrow> finished S exc"
  by (simp add: live_def finished_def)

section \<open>The frame\<close>

text \<open>
  A context without the values that most instructions change: those of the stack, the points, the
  tags, the control values and the storage, the error and the cached ratio.
\<close>

definition blank_zone :: "TT_GlyphZoneRec \<Rightarrow> TT_GlyphZoneRec" where
  "blank_zone z = z\<lparr>zn_org := map (\<lambda>_. \<lparr>vx = 0, vy = 0\<rparr>) (zn_org z), zn_cur := map (\<lambda>_. \<lparr>vx = 0, vy = 0\<rparr>) (zn_cur z),
                    zn_tags := map (\<lambda>_. 0) (zn_tags z)\<rparr>"

definition frame :: "TT_ExecContext \<Rightarrow> TT_ExecContext" where
  "frame exc = exc\<lparr>exc_error := None, exc_stack := map (\<lambda>_. 0) (exc_stack exc), exc_pts := blank_zone (exc_pts exc),
     exc_twilight := blank_zone (exc_twilight exc), exc_tt_metrics := (exc_tt_metrics exc)\<lparr>tm_ratio := 0\<rparr>,
     exc_size_cvt := [], exc_glyfCvt := None, exc_size_storage := [], exc_glyfStorage := None\<rparr>"

definition same :: "TT_ExecContext \<Rightarrow> TT_ExecContext \<Rightarrow> bool" where
  "same exc exc' \<longleftrightarrow> frame exc' = frame exc"

lemma same_refl [simp]: "same exc exc"
  by (simp add: same_def)

lemma same_trans: "same a b \<Longrightarrow> same b c \<Longrightarrow> same a c"
  by (simp add: same_def)

lemma blank_zone_simps [simp]:
  "zn_n_points (blank_zone z) = zn_n_points z" "zn_contours (blank_zone z) = zn_contours z"
  "zn_first_point (blank_zone z) = zn_first_point z" "zn_orus (blank_zone z) = zn_orus z"
  "length (zn_org (blank_zone z)) = length (zn_org z)" "length (zn_cur (blank_zone z)) = length (zn_cur z)"
  "length (zn_tags (blank_zone z)) = length (zn_tags z)" "zone_ok (blank_zone z) = zone_ok z"
  "zone_shape (blank_zone z) = zone_shape z"
  by (simp_all add: blank_zone_def zone_ok_def zone_shape_def)

lemma frame_simps [simp]:
  "exc_env (frame exc) = exc_env exc" "exc_top (frame exc) = exc_top exc"
  "length (exc_stack (frame exc)) = length (exc_stack exc)" "exc_args (frame exc) = exc_args exc"
  "exc_new_top (frame exc) = exc_new_top exc" "exc_zp0 (frame exc) = exc_zp0 exc" "exc_zp1 (frame exc) = exc_zp1 exc"
  "exc_zp2 (frame exc) = exc_zp2 exc" "exc_GS (frame exc) = exc_GS exc" "exc_curRange (frame exc) = exc_curRange exc"
  "exc_code (frame exc) = exc_code exc" "exc_IP (frame exc) = exc_IP exc" "exc_opcode (frame exc) = exc_opcode exc"
  "exc_length (frame exc) = exc_length exc" "exc_FDefs (frame exc) = exc_FDefs exc" "exc_IDefs (frame exc) = exc_IDefs exc"
  "exc_numFDefs (frame exc) = exc_numFDefs exc" "exc_numIDefs (frame exc) = exc_numIDefs exc"
  "exc_callStack (frame exc) = exc_callStack exc" "exc_callTop (frame exc) = exc_callTop exc"
  "exc_func_round (frame exc) = exc_func_round exc" "exc_period (frame exc) = exc_period exc"
  "exc_backward_compatibility (frame exc) = exc_backward_compatibility exc"
  "exc_pts (frame exc) = blank_zone (exc_pts exc)" "exc_twilight (frame exc) = blank_zone (exc_twilight exc)"
  by (simp_all add: frame_def)

lemma zone_frame [simp]: "zone (frame exc) r = blank_zone (zone exc r)"
  by (simp add: zone_def split: zone_ref.split)

lemma n_points_frame [simp]: "n_points (frame exc) r = n_points exc r"
  by (simp add: n_points_def)

lemma def_ref_ok_frame [simp]: "def_ref_ok (frame exc) d = def_ref_ok exc d"
  by (simp add: def_ref_ok_def split: def_ref.split)

lemma exec_ok_frame [simp]: "exec_ok S (frame exc) = exec_ok S exc"
  by (simp add: exec_ok_def defs_ok_def calls_ok_def)

lemma live_frame [simp]: "live S (frame exc) = live S exc" "ready S k (frame exc) = ready S k exc"
  by (simp_all add: live_def ready_def)

text \<open>What contexts of the same frame share; \<open>same\<close> is unfolded in the process.\<close>

lemma frame_cong: "frame exc' = frame exc \<Longrightarrow> (\<And>x. f (frame x) = f x) \<Longrightarrow> f exc' = f exc"
  by metis

definition alike :: "TT_ExecContext \<Rightarrow> TT_ExecContext \<Rightarrow> bool" where
  "alike exc exc' \<longleftrightarrow>
     frame exc' = frame exc \<and> exc_env exc' = exc_env exc \<and> exc_top exc' = exc_top exc \<and>
     length (exc_stack exc') = length (exc_stack exc) \<and> exc_args exc' = exc_args exc \<and> exc_new_top exc' = exc_new_top exc \<and>
     exc_zp0 exc' = exc_zp0 exc \<and> exc_zp1 exc' = exc_zp1 exc \<and> exc_zp2 exc' = exc_zp2 exc \<and> exc_GS exc' = exc_GS exc \<and>
     exc_opcode exc' = exc_opcode exc \<and> exc_IP exc' = exc_IP exc \<and> exc_length exc' = exc_length exc \<and> exc_code exc' = exc_code exc \<and>
     exc_backward_compatibility exc' = exc_backward_compatibility exc \<and>
     (\<forall>r. n_points exc' r = n_points exc r \<and> zn_contours (zone exc' r) = zn_contours (zone exc r) \<and>
          zn_first_point (zone exc' r) = zn_first_point (zone exc r)) \<and>
     (\<forall>S. live S exc' = live S exc) \<and> (\<forall>S k. ready S k exc' = ready S k exc)"

lemma same_alike: "same exc exc' \<longleftrightarrow> alike exc exc'"
proof
  assume s: "same exc exc'"
  then have f: "frame exc' = frame exc" by (simp add: same_def)
  have l: "live S exc' = live S exc" "ready S k exc' = ready S k exc" for S k
    using f live_frame by metis+
  show "alike exc exc'" unfolding alike_def using f l by (auto elim: frame_cong)
qed (simp add: same_def alike_def)

lemma sameI: "frame exc' = frame exc \<Longrightarrow> same exc exc'"
  by (simp add: same_def)

lemmas sameD = same_alike [THEN iffD1, unfolded alike_def]

section \<open>Reading and writing\<close>

lemma zone_put [simp]: "zone (put_zone r z exc) r' = (if r' = r then z else zone exc r')"
  by (cases r; cases r') (simp_all add: zone_def put_zone_def)

lemma frame_put_zone: "blank_zone z = blank_zone (zone exc r) \<Longrightarrow> frame (put_zone r z exc) = frame exc"
  by (cases r) (simp_all add: frame_def put_zone_def zone_def)

lemma map_const_update: "map (\<lambda>_. c) (xs[i := v]) = map (\<lambda>_. c) xs"
  by (simp add: map_replicate_const)

lemma live_zone: "live S exc \<Longrightarrow> zone_ok (zone exc r)"
  by (cases r) (simp_all add: live_def exec_ok_def zone_def)

lemma okay_set_zcur: "live S exc \<Longrightarrow> i < n_points exc r \<Longrightarrow> (\<And>e. same exc e \<Longrightarrow> P e) \<Longrightarrow> okay (set_zcur r i v exc) P"
  using live_zone [of S exc r]
  by (auto simp: set_zcur_def okay_rules n_points_def zone_ok_def same_def frame_put_zone blank_zone_def map_const_update)

lemma okay_set_zorg: "live S exc \<Longrightarrow> i < n_points exc r \<Longrightarrow> (\<And>e. same exc e \<Longrightarrow> P e) \<Longrightarrow> okay (set_zorg r i v exc) P"
  using live_zone [of S exc r]
  by (auto simp: set_zorg_def okay_rules n_points_def zone_ok_def same_def frame_put_zone blank_zone_def map_const_update)

lemma okay_set_ztag: "live S exc \<Longrightarrow> i < n_points exc r \<Longrightarrow> (\<And>e. same exc e \<Longrightarrow> P e) \<Longrightarrow> okay (set_ztag r i v exc) P"
  using live_zone [of S exc r]
  by (auto simp: set_ztag_def okay_rules n_points_def zone_ok_def same_def frame_put_zone blank_zone_def map_const_update)

lemma okay_zcur: "live S exc \<Longrightarrow> i < n_points exc r \<Longrightarrow> (\<And>v. P v) \<Longrightarrow> okay (zcur exc r i) P"
  and okay_zorg: "live S exc \<Longrightarrow> i < n_points exc r \<Longrightarrow> (\<And>v. P v) \<Longrightarrow> okay (zorg exc r i) P"
  and okay_zorus: "live S exc \<Longrightarrow> i < n_points exc r \<Longrightarrow> (\<And>v. P v) \<Longrightarrow> okay (zorus exc r i) P"
  and okay_ztag: "live S exc \<Longrightarrow> i < n_points exc r \<Longrightarrow> (\<And>t. Q t) \<Longrightarrow> okay (ztag exc r i) Q"
  using live_zone [of S exc r]
  by (auto simp: zcur_def zorg_def zorus_def ztag_def okay_rules n_points_def zone_ok_def)

lemma okay_arg: "exc_args exc + k < length (exc_stack exc) \<Longrightarrow> (\<And>v. P v) \<Longrightarrow> okay (arg exc k) P"
  by (simp add: arg_def okay_rules)

lemma okay_set_arg:
  "exc_args exc + k < length (exc_stack exc) \<Longrightarrow> (\<And>e. same exc e \<Longrightarrow> P e) \<Longrightarrow> okay (set_arg k v exc) P"
  by (simp add: set_arg_def okay_rules same_def frame_def map_const_update)

lemma okay_set_args:
  "exc_args exc + k + length vs \<le> length (exc_stack exc) \<Longrightarrow> (\<And>e. same exc e \<Longrightarrow> P e) \<Longrightarrow> okay (set_args k vs exc) P"
proof (induction vs arbitrary: k exc)
  case (Cons v vs)
  have "okay (set_args (k + 1) vs e) P" if s: "same exc e" for e
    by (rule Cons.IH) (use Cons.prems sameD [OF s] in \<open>auto intro: same_trans [OF s]\<close>)
  then show ?case using Cons.prems(1) by (auto simp: okay_bind intro!: okay_set_arg)
qed simp

lemma same_fail [simp]: "same exc (fail_with e exc)" "same exc (fail_pedantic e exc)"
  by (simp_all add: same_def frame_def fail_with_def fail_pedantic_def)

lemmas fail_simps [simp] = same_fail(1) [THEN sameD] same_fail(2) [THEN sameD]

lemma okay_compensation: "live S exc \<Longrightarrow> (\<And>c. P c) \<Longrightarrow> okay (compensation exc) P"
  by (simp add: compensation_def okay_rules live_def exec_ok_def gs_ok_def)

lemma okay_Round_Super_45: "exc_period exc \<noteq> 0 \<Longrightarrow> (\<And>v. P v) \<Longrightarrow> okay (Round_Super_45 exc d c) P"
  by (simp add: Round_Super_45_def c_div_def Let_def)

lemma okay_func_round: "live S exc \<Longrightarrow> (\<And>v. P v) \<Longrightarrow> okay (func_round exc d c) P"
  by (simp add: func_round_def live_def exec_ok_def okay_Round_Super_45 split: TT_Round_Func.split)

section \<open>Generating the conditions\<close>

text \<open>
  Introduction rules for the constructs of the programs; with the rules for the operations they
  reduce \<open>okay m P\<close> to conditions on indices and frames.
\<close>

lemma okay_bindI: "okay m (\<lambda>x. okay (f x) P) \<Longrightarrow> okay (m \<bind> f) P"
  by (simp add: okay_bind)

lemma okay_map_optionI: "okay m (\<lambda>x. P (f x)) \<Longrightarrow> okay (map_option f m) P"
  by (simp add: okay_map_option)

lemma okay_if: "(b \<Longrightarrow> okay m P) \<Longrightarrow> (\<not> b \<Longrightarrow> okay n P) \<Longrightarrow> okay (if b then m else n) P"
  by simp

lemma okay_Some: "P x \<Longrightarrow> okay (Some x) P"
  by simp

lemma okay_prod: "(\<And>a b. z = (a, b) \<Longrightarrow> okay (f a b) P) \<Longrightarrow> okay (case z of (a, b) \<Rightarrow> f a b) P"
  by (cases z) simp

lemma okay_case_option:
  "(x = None \<Longrightarrow> okay m P) \<Longrightarrow> (\<And>y. x = Some y \<Longrightarrow> okay (f y) P) \<Longrightarrow> okay (case x of None \<Rightarrow> m | Some y \<Rightarrow> f y) P"
  by (cases x) simp_all

lemmas okay_intros = okay_bindI okay_map_optionI okay_if okay_Some okay_prod okay_case_option
  okay_zcur okay_zorg okay_zorus okay_ztag okay_set_zcur okay_set_zorg okay_set_ztag okay_arg okay_set_arg
  okay_set_args okay_compensation okay_func_round

section \<open>Moving points and control values\<close>

lemma okay_touch: "live S exc \<Longrightarrow> i < n_points exc r \<Longrightarrow> (\<And>e. same exc e \<Longrightarrow> P e) \<Longrightarrow> okay (touch r i f exc) P"
  unfolding touch_def by (intro okay_intros) auto

lemma okay_add_cur:
  "live S exc \<Longrightarrow> i < n_points exc r \<Longrightarrow> (\<And>e. same exc e \<Longrightarrow> P e) \<Longrightarrow> okay (add_cur_x r i d exc) P"
  "live S exc \<Longrightarrow> i < n_points exc r \<Longrightarrow> (\<And>e. same exc e \<Longrightarrow> P e) \<Longrightarrow> okay (add_cur_y r i d exc) P"
  unfolding add_cur_x_def add_cur_y_def by (intro okay_intros; auto)+

lemma okay_add_org:
  "live S exc \<Longrightarrow> i < n_points exc r \<Longrightarrow> (\<And>e. same exc e \<Longrightarrow> P e) \<Longrightarrow> okay (add_org_x r i d exc) P"
  "live S exc \<Longrightarrow> i < n_points exc r \<Longrightarrow> (\<And>e. same exc e \<Longrightarrow> P e) \<Longrightarrow> okay (add_org_y r i d exc) P"
  unfolding add_org_x_def add_org_y_def by (intro okay_intros; auto)+

lemmas okay_moves = okay_touch okay_add_cur okay_add_org

lemma func_move_same: "live S exc \<Longrightarrow> i < n_points exc r \<Longrightarrow> okay (func_move r i d exc) (same exc)"
  unfolding func_move_def Direct_Move_def Direct_Move_X_def Direct_Move_Y_def Let_def
  by (cases "exc_func_move exc"; simp only: TT_Move_Func.case; intro okay_intros okay_moves)
    (auto intro!: sameI dest!: sameD)

lemma func_move_orig_same: "live S exc \<Longrightarrow> i < n_points exc r \<Longrightarrow> okay (func_move_orig r i d exc) (same exc)"
  unfolding func_move_orig_def Direct_Move_Orig_def Direct_Move_Orig_X_def Direct_Move_Orig_Y_def Let_def
  by (cases "exc_func_move exc"; simp only: TT_Move_Func.case; intro okay_intros okay_moves)
    (auto intro!: sameI dest!: sameD)

lemma okay_func_move: "live S exc \<Longrightarrow> i < n_points exc r \<Longrightarrow> (\<And>e. same exc e \<Longrightarrow> P e) \<Longrightarrow> okay (func_move r i d exc) P"
  using func_move_same by (rule okay_mono)

lemma okay_func_move_orig:
  "live S exc \<Longrightarrow> i < n_points exc r \<Longrightarrow> (\<And>e. same exc e \<Longrightarrow> P e) \<Longrightarrow> okay (func_move_orig r i d exc) P"
  using func_move_orig_same by (rule okay_mono)

lemma same_Current_Ratio: "same exc (snd (Current_Ratio exc))"
  by (simp add: same_def frame_def Current_Ratio_def Let_def)

lemma same_func_cur_ppem: "same exc (snd (func_cur_ppem exc))"
  using same_Current_Ratio [of exc]
  by (auto simp: func_cur_ppem_def Current_Ppem_def Current_Ppem_Stretched_def split: prod.split)

lemma okay_func_read_cvt:
  "i < length (exc_cvt exc) \<Longrightarrow> (\<And>v e. same exc e \<Longrightarrow> P (v, e)) \<Longrightarrow> okay (func_read_cvt exc i) P"
  using same_Current_Ratio [of exc]
  by (auto simp: func_read_cvt_def Read_CVT_def Read_CVT_Stretched_def okay_rules split: prod.split)

lemma okay_set_cvt: "i < length (exc_cvt exc) \<Longrightarrow> (\<And>e. same exc e \<Longrightarrow> P e) \<Longrightarrow> okay (set_cvt i v exc) P"
  by (auto simp: set_cvt_def exc_cvt_def okay_rules same_def frame_def split: option.split)

lemma okay_set_storage: "i < length (exc_storage exc) \<Longrightarrow> (\<And>e. same exc e \<Longrightarrow> P e) \<Longrightarrow> okay (set_storage i v exc) P"
  by (auto simp: set_storage_def exc_storage_def okay_rules same_def frame_def split: option.split)

lemma Modify_CVT_Check_same: "same exc (Modify_CVT_Check exc)" "exc_cvt (Modify_CVT_Check exc) = exc_cvt exc"
  by (simp_all add: Modify_CVT_Check_def same_def frame_def exc_cvt_def split: option.split)

lemma exc_cvt_Current_Ratio: "Current_Ratio exc = (r, e) \<Longrightarrow> exc_cvt e = exc_cvt exc"
  by (auto simp: Current_Ratio_def exc_cvt_def Let_def split: if_splits option.split)

lemma same_Current_RatioD: "Current_Ratio exc = (r, e) \<Longrightarrow> same exc e"
  using same_Current_Ratio [of exc] by simp

lemma func_write_cvt_same: "i < length (exc_cvt exc) \<Longrightarrow> okay (func_write_cvt i v exc) (same exc)"
  using Modify_CVT_Check_same [of exc]
  unfolding func_write_cvt_def Write_CVT_def Write_CVT_Stretched_def Let_def
  by (intro okay_intros okay_set_cvt) (auto dest: exc_cvt_Current_Ratio same_Current_RatioD intro: same_trans)

lemma func_move_cvt_same: "i < length (exc_cvt exc) \<Longrightarrow> okay (func_move_cvt i v exc) (same exc)"
  using Modify_CVT_Check_same [of exc]
  unfolding func_move_cvt_def Move_CVT_def Move_CVT_Stretched_def Let_def
  by (intro okay_intros okay_set_cvt; (simp only: okay_get_at)?; intro conjI okay_set_cvt)
    (auto dest: exc_cvt_Current_Ratio same_Current_RatioD intro: same_trans)

end
