(* ===== verification/Tt_Ins_Safe.thy ===== *)
theory Tt_Ins_Safe
  imports Tt_Exec_Safe
begin

text \<open>
  The instructions that do not touch points keep the invariant of the interpreter and stay inside
  its arrays.
\<close>

section \<open>Stack, arithmetic, storage\<close>

lemma unary_same: "exc_args exc + 1 \<le> length (exc_stack exc) \<Longrightarrow> okay (unary f exc) (same exc)"
  unfolding unary_def by (intro okay_intros) auto

lemma binary_same: "exc_args exc + 2 \<le> length (exc_stack exc) \<Longrightarrow> okay (binary f exc) (same exc)"
  unfolding binary_def by (intro okay_intros) auto

lemmas unary_instructions = Ins_NOT_def Ins_ABS_def Ins_NEG_def Ins_FLOOR_def Ins_CEILING_def

lemmas binary_instructions = Ins_LT_def Ins_LTEQ_def Ins_GT_def Ins_GTEQ_def Ins_EQ_def Ins_NEQ_def Ins_AND_def
  Ins_OR_def Ins_ADD_def Ins_SUB_def Ins_MUL_def Ins_MAX_def Ins_MIN_def

text \<open>The instructions that only change values, by the number of stack cells they need.\<close>

lemma push_same:
  assumes "exc_args exc + 1 \<le> length (exc_stack exc)"
  shows "okay (Ins_MPPEM exc) (same exc)" "okay (Ins_MPS exc) (same exc)" "okay (Ins_DEPTH exc) (same exc)"
    "okay (Ins_GETDATA exc) (same exc)"
  unfolding Ins_MPPEM_def Ins_MPS_def Ins_DEPTH_def Ins_GETDATA_def Let_def
  using assms same_func_cur_ppem [of exc]
  by - (intro okay_intros; auto dest!: sameD intro!: sameI)+

lemma value_same:
  assumes "live S exc" "exc_args exc + 1 \<le> length (exc_stack exc)"
  shows "okay (Ins_ODD exc) (same exc)" "okay (Ins_EVEN exc) (same exc)" "okay (Ins_ROUND exc) (same exc)"
    "okay (Ins_NROUND exc) (same exc)" "okay (Ins_GETINFO exc) (same exc)" "okay (Ins_RS exc) (same exc)"
    "okay (Ins_RCVT exc) (same exc)" "okay (Ins_CINDEX exc) (same exc)"
  unfolding Ins_ODD_def Ins_EVEN_def Ins_ROUND_def Ins_NROUND_def Ins_GETINFO_def Ins_RS_def Ins_RCVT_def Ins_CINDEX_def Let_def
  using assms
  by - (intro okay_intros okay_func_read_cvt; (simp only: okay_get_at)?; auto intro!: okay_set_arg sameI dest!: sameD)+

lemma two_same:
  assumes "live S exc" "exc_args exc + 2 \<le> length (exc_stack exc)"
  shows "okay (Ins_DUP exc) (same exc)" "okay (Ins_SWAP exc) (same exc)" "okay (Ins_DIV exc) (same exc)"
    "okay (Ins_GPV exc) (same exc)" "okay (Ins_GFV exc) (same exc)" 
  unfolding Ins_DUP_def Ins_SWAP_def Ins_DIV_def Ins_GPV_def Ins_GFV_def Let_def
  using assms
  by - (intro okay_intros; auto intro!: sameI dest!: sameD)+

lemma write_same:
  assumes "live S exc" "exc_args exc + 2 \<le> length (exc_stack exc)"
  shows "okay (Ins_WCVTP exc) (same exc)" "okay (Ins_WCVTF exc) (same exc)"
  unfolding Ins_WCVTP_def Ins_WCVTF_def Let_def
  using assms
  by - (intro okay_intros okay_set_cvt func_write_cvt_same; auto intro!: sameI dest!: sameD)+

lemma Ins_WS_same:
  assumes "exc_args exc + 2 \<le> length (exc_stack exc)"
  shows "okay (Ins_WS exc) (same exc)"
proof -
  have "same exc (exc\<lparr>exc_error := None, exc_glyfStorage := Some (exc_size_storage exc)\<rparr>)"
    "exc_glyfStorage exc = None \<Longrightarrow>
       exc_storage (exc\<lparr>exc_error := None, exc_glyfStorage := Some (exc_size_storage exc)\<rparr>) = exc_storage exc"
    by (simp_all add: same_def frame_def exc_storage_def)
  then show ?thesis unfolding Ins_WS_def Let_def
    using assms by (intro okay_intros okay_set_storage) (auto dest!: sameD intro!: sameI)
qed

lemma Ins_ROLL_same: "exc_args exc + 3 \<le> length (exc_stack exc) \<Longrightarrow> okay (Ins_ROLL exc) (same exc)"
  unfolding Ins_ROLL_def by (intro okay_intros) (auto dest!: sameD intro!: sameI)

lemma frame_stack: "length s = length (exc_stack exc) \<Longrightarrow> frame (exc\<lparr>exc_stack := s\<rparr>) = frame exc"
  by (simp add: frame_def map_replicate_const)

lemma Ins_MINDEX_same: "exc_args exc + 1 \<le> length (exc_stack exc) \<Longrightarrow> okay (Ins_MINDEX exc) (same exc)"
  unfolding Ins_MINDEX_def Let_def
  by (intro okay_intros; (simp only: okay_get_at)?; auto intro!: sameI frame_stack dest!: sameD)

end
