(* ===== verification/Tt_GS_Safe.thy ===== *)
theory Tt_GS_Safe
  imports Tt_Ins_Safe
begin

text \<open>
  The instructions that set the graphics state keep the invariant of the interpreter; normalising a
  vector always returns.
\<close>

section \<open>Normalising\<close>

lemma FT_Vector_NormLen_total: "\<exists>l w. FT_Vector_NormLen v = Some (l, w)"
proof -
  let ?x = "abs (s32 (vx v))" and ?y = "abs (s32 (vy v))"
  show ?thesis
  proof (cases "s32 (vx v) = 0 \<or> s32 (vy v) = 0")
    case True
    then show ?thesis by (auto simp: FT_Vector_NormLen_def move_sign_bounds(1))
  next
    case False
    then have "1 \<le> ?x" "1 \<le> ?y" "?x \<le> 2147483648" "?y \<le> 2147483648" using move_sign_bounds(2) by auto
    then obtain shift x y l where p: "norm_prepare ?x ?y = (shift, x, y, l)" "norm_ok x y (131072 - l)"
      "40960 \<le> l" "l \<le> 87381" using norm_prepare_ok by blast
    then obtain B where B: "norm_loop x y (65536 - l) = Some (x * B div 65536, y * B div 65536)"
      using norm_loop_ends [OF p(2)] by auto
    have "s32 x = x" "s32 y = y" "s32 l = l" "s32 (65536 - l) = 65536 - l"
      using p(2-4) by (auto simp: norm_ok_def s32_id)
    then show ?thesis using False by (simp add: FT_Vector_NormLen_def move_sign_bounds(1) p(1) B Let_def)
  qed
qed

lemma okay_Normalize: "(\<And>v. P v) \<Longrightarrow> okay (Normalize a b R) P"
proof -
  assume P: "\<And>v. P v"
  obtain l w where "FT_Vector_NormLen \<lparr>vx = a, vy = b\<rparr> = Some (l, w)" using FT_Vector_NormLen_total by blast
  then show ?thesis using P by (simp add: Normalize_def)
qed

section \<open>Changing the graphics state\<close>

lemma live_gs_ok: "live S exc \<Longrightarrow> gs_ok (exc_GS exc)"
  by (simp add: live_def exec_ok_def)

lemma live_exec_ok: "live S exc \<Longrightarrow> exec_ok S exc \<and> exc_new_top exc \<le> length (exc_stack exc)"
  by (simp add: live_def)

lemma live_GS: "live S exc \<Longrightarrow> gs_ok g \<Longrightarrow> live S (exc\<lparr>exc_GS := g\<rparr>)"
  by (simp add: live_def exec_ok_def defs_ok_def calls_ok_def def_ref_ok_def cong: def_ref.case_cong)

lemma live_set_GS: "live S exc \<Longrightarrow> gs_ok (f (exc_GS exc)) \<Longrightarrow> live S (set_GS f exc)"
  by (simp add: set_GS_def live_GS)

text \<open>Fields that the invariant does not mention.\<close>

lemma def_ref_ok_update [simp]:
  "def_ref_ok (exc\<lparr>exc_zp0 := z\<rparr>) = def_ref_ok exc" "def_ref_ok (exc\<lparr>exc_zp1 := z\<rparr>) = def_ref_ok exc"
  "def_ref_ok (exc\<lparr>exc_zp2 := z\<rparr>) = def_ref_ok exc" "def_ref_ok (exc\<lparr>exc_new_top := n\<rparr>) = def_ref_ok exc"
  "def_ref_ok (exc\<lparr>exc_backward_compatibility := n\<rparr>) = def_ref_ok exc" "def_ref_ok (exc\<lparr>exc_func_round := f\<rparr>) = def_ref_ok exc"
  "def_ref_ok (exc\<lparr>exc_period := p, exc_phase := q, exc_threshold := t\<rparr>) = def_ref_ok exc"
  "def_ref_ok (Compute_Funcs exc) = def_ref_ok exc"
  by (rule ext, simp add: def_ref_ok_def Compute_Funcs_def Let_def split: def_ref.split)+

lemma live_update [simp]:
  "live S (exc\<lparr>exc_zp0 := z\<rparr>) = live S exc" "live S (exc\<lparr>exc_zp1 := z\<rparr>) = live S exc" "live S (exc\<lparr>exc_zp2 := z\<rparr>) = live S exc"
  "live S (exc\<lparr>exc_backward_compatibility := n\<rparr>) = live S exc"
  by (simp_all add: live_def exec_ok_def defs_ok_def calls_ok_def)

lemma live_new_top: "live S exc \<Longrightarrow> n \<le> length (exc_stack exc) \<Longrightarrow> live S (exc\<lparr>exc_new_top := n\<rparr>)"
  by (simp add: live_def exec_ok_def defs_ok_def calls_ok_def)

lemma live_Compute_Funcs [simp]: "live S (Compute_Funcs exc) = live S exc"
proof -
  have "exc_env (Compute_Funcs exc) = exc_env exc" "exc_stack (Compute_Funcs exc) = exc_stack exc"
    "exc_top (Compute_Funcs exc) = exc_top exc" "exc_pts (Compute_Funcs exc) = exc_pts exc"
    "exc_twilight (Compute_Funcs exc) = exc_twilight exc" "exc_GS (Compute_Funcs exc) = exc_GS exc"
    "exc_FDefs (Compute_Funcs exc) = exc_FDefs exc" "exc_IDefs (Compute_Funcs exc) = exc_IDefs exc"
    "exc_numFDefs (Compute_Funcs exc) = exc_numFDefs exc" "exc_numIDefs (Compute_Funcs exc) = exc_numIDefs exc"
    "exc_callTop (Compute_Funcs exc) = exc_callTop exc" "exc_callStack (Compute_Funcs exc) = exc_callStack exc"
    "exc_func_round (Compute_Funcs exc) = exc_func_round exc" "exc_period (Compute_Funcs exc) = exc_period exc"
    "exc_new_top (Compute_Funcs exc) = exc_new_top exc" "exc_IP (Compute_Funcs exc) = exc_IP exc"
    "exc_code (Compute_Funcs exc) = exc_code exc" "exc_length (Compute_Funcs exc) = exc_length exc"
    "exc_opcode (Compute_Funcs exc) = exc_opcode exc"
    by (simp_all add: Compute_Funcs_def Let_def)
  then show ?thesis by (simp add: live_def exec_ok_def defs_ok_def calls_ok_def)
qed

lemma live_round: "live S exc \<Longrightarrow> f \<noteq> RF_Super_45 \<or> exc_period exc \<noteq> 0 \<Longrightarrow> live S (exc\<lparr>exc_func_round := f\<rparr>)"
  by (auto simp: live_def exec_ok_def defs_ok_def calls_ok_def)

lemma gs_ok_update [simp]:
  "gs_ok (g\<lparr>gs_rp0 := n\<rparr>) = gs_ok g" "gs_ok (g\<lparr>gs_rp1 := n\<rparr>) = gs_ok g" "gs_ok (g\<lparr>gs_rp2 := n\<rparr>) = gs_ok g"
  "gs_ok (g\<lparr>gs_gep0 := n\<rparr>) = gs_ok g" "gs_ok (g\<lparr>gs_gep1 := n\<rparr>) = gs_ok g" "gs_ok (g\<lparr>gs_gep2 := n\<rparr>) = gs_ok g"
  "gs_ok (g\<lparr>gs_dualVector := v\<rparr>) = gs_ok g" "gs_ok (g\<lparr>gs_projVector := v\<rparr>) = gs_ok g" "gs_ok (g\<lparr>gs_freeVector := v\<rparr>) = gs_ok g"
  "gs_ok (g\<lparr>gs_round_state := n\<rparr>) = gs_ok g" "gs_ok (g\<lparr>gs_minimum_distance := i\<rparr>) = gs_ok g"
  "gs_ok (g\<lparr>gs_control_value_cutin := i\<rparr>) = gs_ok g" "gs_ok (g\<lparr>gs_single_width_cutin := i\<rparr>) = gs_ok g"
  "gs_ok (g\<lparr>gs_single_width_value := i\<rparr>) = gs_ok g" "gs_ok (g\<lparr>gs_delta_base := n\<rparr>) = gs_ok g"
  "gs_ok (g\<lparr>gs_auto_flip := b\<rparr>) = gs_ok g" "gs_ok (g\<lparr>gs_instruct_control := n\<rparr>) = gs_ok g"
  "gs_ok (g\<lparr>gs_scan_control := b\<rparr>) = gs_ok g" "gs_ok (g\<lparr>gs_scan_type := i\<rparr>) = gs_ok g"
  by (simp_all add: gs_ok_def)

section \<open>Vectors\<close>

lemma okay_arg_ushort: "exc_args exc + k < length (exc_stack exc) \<Longrightarrow> (\<And>v. P v) \<Longrightarrow> okay (arg_ushort exc k) P"
  unfolding arg_ushort_def by (intro okay_intros) auto

lemma okay_arg_short: "exc_args exc + k < length (exc_stack exc) \<Longrightarrow> (\<And>v. P v) \<Longrightarrow> okay (arg_short exc k) P"
  unfolding arg_short_def by (intro okay_intros) auto

lemmas okay_args = okay_arg_ushort okay_arg_short okay_Normalize

lemma okay_Ins_SxVTL:
  "live S exc \<Longrightarrow> (\<And>v. P (Some v, exc)) \<Longrightarrow> P (None, fail_pedantic Invalid_Reference exc) \<Longrightarrow> okay (Ins_SxVTL p1 p2 R exc) P"
  unfolding Ins_SxVTL_def Let_def
  by (intro okay_intros okay_args) auto

lemma vector_live:
  assumes "live S exc" "exc_args exc + 2 \<le> length (exc_stack exc)"
  shows "okay (Ins_SPVTL exc) (live S)" "okay (Ins_SFVTL exc) (live S)" "okay (Ins_SPVFS exc) (live S)" "okay (Ins_SFVFS exc) (live S)"
  unfolding Ins_SPVTL_def Ins_SFVTL_def Ins_SPVFS_def Ins_SFVFS_def Let_def
  using assms live_gs_ok [OF assms(1)]
  by - (intro okay_intros okay_args okay_Ins_SxVTL; auto intro!: live_set_GS)+

lemma Ins_SDPVTL_live:
  assumes "live S exc" "exc_args exc + 2 \<le> length (exc_stack exc)"
  shows "okay (Ins_SDPVTL exc) (live S)"
proof -
  have g: "live S (set_GS (\<lambda>g. g\<lparr>gs_dualVector := v\<rparr>) exc)" for v
    using assms live_gs_ok [OF assms(1)] by (auto intro: live_set_GS)
  have z: "n_points (set_GS f exc) r = n_points exc r" "exc_zp1 (set_GS f exc) = exc_zp1 exc"
    "exc_zp2 (set_GS f exc) = exc_zp2 exc" "exc_GS (set_GS f exc) = f (exc_GS exc)" for f r
    by (simp_all add: set_GS_def n_points_def zone_def split: zone_ref.split)
  show ?thesis unfolding Ins_SDPVTL_def Let_def using assms live_gs_ok [OF assms(1)]
    by (intro okay_intros okay_args) (auto intro!: live_set_GS g simp: z)
qed

lemma axis_live:
  assumes "live S exc"
  shows "okay (Ins_SxyTCA exc) (live S)" "okay (Ins_SFVTPV exc) (live S)"
  unfolding Ins_SxyTCA_def Ins_SFVTPV_def Let_def
  using assms live_gs_ok [OF assms]
  by (auto intro!: live_GS simp: set_GS_def)

section \<open>Reference points, zones and controls\<close>

lemma state_live:
  assumes "live S exc" "exc_args exc + 1 \<le> length (exc_stack exc)"
  shows "okay (Ins_SRP0 exc) (live S)" "okay (Ins_SRP1 exc) (live S)" "okay (Ins_SRP2 exc) (live S)"
    "okay (Ins_SZP0 exc) (live S)" "okay (Ins_SZP1 exc) (live S)" "okay (Ins_SZP2 exc) (live S)" "okay (Ins_SZPS exc) (live S)"
    "okay (Ins_SMD exc) (live S)" "okay (Ins_SCVTCI exc) (live S)" "okay (Ins_SSWCI exc) (live S)" "okay (Ins_SSW exc) (live S)"
    "okay (Ins_SDB exc) (live S)" "okay (Ins_SCANTYPE exc) (live S)"
  unfolding Ins_SRP0_def Ins_SRP1_def Ins_SRP2_def Ins_SZP0_def Ins_SZP1_def Ins_SZP2_def Ins_SZPS_def
    Ins_SMD_def Ins_SCVTCI_def Ins_SSWCI_def Ins_SSW_def Ins_SDB_def Ins_SCANTYPE_def Let_def
  using assms live_gs_ok [OF assms(1)]
  by - (intro okay_intros okay_args; auto intro!: live_set_GS)+

lemma Ins_SLOOP_live:
  assumes "live S exc" "exc_args exc + 1 \<le> length (exc_stack exc)"
  shows "okay (Ins_SLOOP exc) (live S)"
  unfolding Ins_SLOOP_def using assms live_gs_ok [OF assms(1)]
  by (intro okay_intros) (auto intro!: live_GS simp: gs_ok_def)

lemma Ins_SDS_live:
  assumes "live S exc" "exc_args exc + 1 \<le> length (exc_stack exc)"
  shows "okay (Ins_SDS exc) (live S)"
proof -
  have "gs_ok ((exc_GS exc)\<lparr>gs_delta_shift := u16_of_int a\<rparr>)" if "\<not> 6 < ulong_of a" for a
  proof -
    have "a mod 18446744073709551616 \<le> 6" using that by (simp add: ulong_of_def u64_def)
    moreover have "a mod 65536 = a mod 18446744073709551616 mod 65536" by (simp add: mod_mod_cancel)
    ultimately have "a mod 65536 \<le> 6" by simp
    then show ?thesis using live_gs_ok [OF assms(1)] by (simp add: gs_ok_def u16_of_int_def)
  qed
  then show ?thesis unfolding Ins_SDS_def using assms
    by (intro okay_intros) (auto intro!: live_set_GS)
qed

lemma flip_live: "live S exc \<Longrightarrow> okay (Ins_FLIPON exc) (live S)" "live S exc \<Longrightarrow> okay (Ins_FLIPOFF exc) (live S)"
  unfolding Ins_FLIPON_def Ins_FLIPOFF_def by (auto intro!: live_set_GS live_gs_ok)

lemma live_set_round: "live S exc \<Longrightarrow> f \<noteq> RF_Super_45 \<or> exc_period exc \<noteq> 0 \<Longrightarrow> live S (set_round n f exc)"
  unfolding set_round_def by (auto intro!: live_set_GS live_round simp: live_gs_ok)

lemma round_live:
  assumes "live S exc"
  shows "okay (Ins_RTHG exc) (live S)" "okay (Ins_RTG exc) (live S)" "okay (Ins_RTDG exc) (live S)" "okay (Ins_RUTG exc) (live S)"
    "okay (Ins_RDTG exc) (live S)" "okay (Ins_ROFF exc) (live S)"
  unfolding Ins_RTHG_def Ins_RTG_def Ins_RTDG_def Ins_RUTG_def Ins_RDTG_def Ins_ROFF_def
  using assms by (auto intro!: live_set_round)

text \<open>The period that \<open>S45ROUND\<close> selects is not zero, nor is that of \<open>SROUND\<close>.\<close>

lemma SetSuperRound_period:
  "exc_period (SetSuperRound 0x4000 a exc) \<noteq> 0" "exc_period (SetSuperRound 0x2D41 a exc) \<noteq> 0"
  by (simp_all add: SetSuperRound_def Let_def drop_bit_eq_div sdiv_pos)

lemma live_SetSuperRound: "live S exc \<Longrightarrow> exc_period (SetSuperRound g a exc) \<noteq> 0 \<Longrightarrow> live S (SetSuperRound g a exc)"
  by (simp add: SetSuperRound_def Let_def live_def exec_ok_def defs_ok_def calls_ok_def)

lemma super_live:
  assumes "live S exc" "exc_args exc + 1 \<le> length (exc_stack exc)"
  shows "okay (Ins_SROUND exc) (live S)" "okay (Ins_S45ROUND exc) (live S)"
  unfolding Ins_SROUND_def Ins_S45ROUND_def using assms SetSuperRound_period
  by - (intro okay_intros; auto intro!: live_set_round live_SetSuperRound)+

lemma live_scan: "live S exc \<Longrightarrow> live S (set_scan_control b exc)"
  by (auto simp: set_scan_control_def live_gs_ok intro!: live_set_GS)

lemma live_scan_if: "live S exc \<Longrightarrow> live S (if c then set_scan_control b exc else exc)"
  by (simp add: live_scan)

lemma Ins_SCANCTRL_live:
  "live S exc \<Longrightarrow> exc_args exc + 1 \<le> length (exc_stack exc) \<Longrightarrow> okay (Ins_SCANCTRL exc) (live S)"
  unfolding Ins_SCANCTRL_def Let_def by (intro okay_intros live_scan_if live_scan) simp_all

lemma Ins_INSTCTRL_live:
  assumes "live S exc" "exc_args exc + 2 \<le> length (exc_stack exc)"
  shows "okay (Ins_INSTCTRL exc) (live S)"
  unfolding Ins_INSTCTRL_def Let_def using assms live_gs_ok [OF assms(1)]
  by (intro okay_intros) (auto intro!: live_set_GS)

end
