(* ===== verification/Tt_Flow_Safe.thy ===== *)
theory Tt_Flow_Safe
  imports Tt_GS_Safe
begin

text \<open>
  The control flow instructions of the interpreter keep its invariant: skipping code ends, and calls
  and returns find their definitions and code ranges.
\<close>

section \<open>Skipping code\<close>

text \<open>A context up to its place in the code, and the error.\<close>

definition placed :: "TT_ExecContext \<Rightarrow> TT_ExecContext" where
  "placed exc = exc\<lparr>exc_error := None, exc_IP := 0, exc_length := 0, exc_opcode := 0\<rparr>"

lemma def_ref_ok_placed: "def_ref_ok (placed exc) = def_ref_ok exc"
  by (rule ext) (simp add: def_ref_ok_def placed_def split: def_ref.split)

lemma exec_ok_placed: "exec_ok S (placed exc) = exec_ok S exc"
  by (simp add: exec_ok_def defs_ok_def calls_ok_def def_ref_ok_placed) (simp add: placed_def)

lemma placedD:
  assumes "placed e = placed exc"
  shows "exc_code e = exc_code exc \<and> exc_new_top e = exc_new_top exc \<and> length (exc_stack e) = length (exc_stack exc) \<and>
    exc_FDefs e = exc_FDefs exc \<and> exc_IDefs e = exc_IDefs exc \<and> exec_ok S e = exec_ok S exc"
proof -
  have "f (placed e) = f (placed exc)" for f :: "TT_ExecContext \<Rightarrow> 'b" using assms by simp
  from this [of exc_code] this [of exc_new_top] this [of exc_stack] this [of exc_FDefs] this [of exc_IDefs] this [of "exec_ok S"]
  show ?thesis unfolding exec_ok_placed by (simp add: placed_def)
qed

lemma okay_code_at: "0 \<le> ip \<Longrightarrow> ip < int (length (exc_code exc)) \<Longrightarrow> (\<And>b. b < 256 \<Longrightarrow> P b) \<Longrightarrow> okay (code_at exc ip) P"
  by (auto simp: code_at_def okay_rules nat_less_iff)

lemma opcode_length_cases: "1 \<le> opcode_length op \<or> opcode_length op < 0"
  by (simp add: opcode_length_def)

text \<open>A round of \<open>SkipCode\<close> moves forward inside the code, or reports its end.\<close>

definition skipped :: "TT_ExecContext \<Rightarrow> bool \<times> TT_ExecContext \<Rightarrow> bool" where
  "skipped exc = (\<lambda>(success, e). placed e = placed exc \<and> (\<not> success \<longrightarrow> exc_error e \<noteq> None) \<and>
     (success \<longrightarrow> exc_IP e = exc_IP exc + exc_length exc \<and> exc_IP e < int (length (exc_code exc)) \<and> 1 \<le> exc_length e))"

lemma okay_code_at_update [simp]:
  "code_at (exc\<lparr>exc_IP := i\<rparr>) = code_at exc" "code_at (exc\<lparr>exc_opcode := op, exc_length := l\<rparr>) = code_at exc"
  by (rule ext, simp add: code_at_def)+

lemma SkipCode_skipped:
  assumes "0 \<le> exc_IP exc" "1 \<le> exc_length exc"
  shows "okay (SkipCode exc) (skipped exc)"
  unfolding SkipCode_def Let_def
  using assms
  by (intro okay_intros okay_code_at)
    (auto simp: skipped_def placed_def fail_with_def opcode_length_def split: if_splits)

definition skip_ends :: "TT_ExecContext \<Rightarrow> TT_ExecContext \<Rightarrow> bool" where
  "skip_ends exc e \<longleftrightarrow> placed e = placed exc \<and> (exc_error e = None \<longrightarrow> 0 \<le> exc_IP e + exc_length e)"

text \<open>Where a round of the loops stands: there are enough rounds for the rest of the code.\<close>

definition in_code :: "nat \<Rightarrow> TT_ExecContext \<Rightarrow> bool" where
  "in_code k exc \<longleftrightarrow> 0 \<le> exc_IP exc \<and> 1 \<le> exc_length exc \<and> int (length (exc_code exc)) < exc_IP exc + int k"

lemma skip_round:
  assumes "in_code k exc" "exc_IP exc < int (length (exc_code exc))"
    "\<And>e. placed e = placed exc \<Longrightarrow> exc_error e \<noteq> None \<Longrightarrow> P (False, e)"
    "\<And>e. placed e = placed exc \<Longrightarrow> in_code (k - 1) e \<Longrightarrow> exc_IP e < int (length (exc_code e)) \<Longrightarrow> P (True, e)"
  shows "okay (SkipCode exc) P"
proof (rule okay_mono [OF SkipCode_skipped])
  show "0 \<le> exc_IP exc" "1 \<le> exc_length exc" using assms(1) by (simp_all add: in_code_def)
  fix r assume s: "skipped exc r"
  obtain success e where r: "r = (success, e)" by (cases r)
  have p: "placed e = placed exc" using s r by (simp add: skipped_def)
  show "P r"
  proof (cases success)
    case True
    then have n: "exc_IP e = exc_IP exc + exc_length exc" "exc_IP e < int (length (exc_code e))" "1 \<le> exc_length e"
      using s r placedD [OF p] by (auto simp: skipped_def)
    have "int (length (exc_code exc)) < exc_IP exc + int k" "0 \<le> exc_IP exc" "1 \<le> exc_length exc"
      using assms(1) by (simp_all add: in_code_def)
    moreover have "exc_code e = exc_code exc" using placedD [OF p] by simp
    moreover have "0 < k" using calculation assms(2) by (cases k) auto
    ultimately have "in_code (k - 1) e" using n unfolding in_code_def by (simp add: of_nat_diff)
    then show ?thesis using assms(4) [OF p _ n(2)] r True by simp
  next
    case False
    then show ?thesis using assms(3) [OF p] s r by (simp add: skipped_def)
  qed
qed

lemma in_code_pos: "in_code k exc \<Longrightarrow> exc_IP exc < int (length (exc_code exc)) \<Longrightarrow> \<exists>j. k = Suc j"
  by (cases k) (auto simp: in_code_def)

lemma skip_ends_trans: "placed e = placed exc \<Longrightarrow> skip_ends e = skip_ends exc"
  by (rule ext) (simp add: skip_ends_def)

lemma skip_if_ends:
  "in_code k exc \<Longrightarrow> exc_IP exc < int (length (exc_code exc)) \<Longrightarrow> okay (skip_if k n exc) (skip_ends exc)"
proof (induction k arbitrary: n exc)
  case (Suc k)
  show ?case unfolding skip_if.simps
  proof (intro okay_bindI skip_round [OF Suc.prems], goal_cases)
    case (2 e)
    then have h: "placed e = placed exc" "in_code k e" "exc_IP e < int (length (exc_code e))" by simp_all
    then have "skip_ends exc e" by (auto simp: skip_ends_def in_code_def)
    then show ?case using Suc.IH [OF h(2,3)] by (simp add: skip_ends_trans [OF h(1)])
  qed (auto simp: skip_ends_def)
qed (use in_code_pos in force)

lemma skip_else_ends:
  "in_code k exc \<Longrightarrow> exc_IP exc < int (length (exc_code exc)) \<Longrightarrow> okay (skip_else k n exc) (skip_ends exc)"
proof (induction k arbitrary: n exc)
  case (Suc k)
  show ?case unfolding skip_else.simps
  proof (intro okay_bindI skip_round [OF Suc.prems], goal_cases)
    case (2 e)
    then have h: "placed e = placed exc" "in_code k e" "exc_IP e < int (length (exc_code e))" by simp_all
    then have "skip_ends exc e" by (auto simp: skip_ends_def in_code_def)
    then show ?case using Suc.IH [OF h(2,3)] by (simp add: skip_ends_trans [OF h(1)])
  qed (auto simp: skip_ends_def)
qed (use in_code_pos in force)

text \<open>From a running instruction to the first round of a loop, and from its end to the end of the instruction.\<close>

lemma in_code_start: "live S exc \<Longrightarrow> in_code (skip_rounds exc) exc"
  by (simp add: live_def in_code_def skip_rounds_def)

lemma skip_ends_finished: "exec_ok S exc \<Longrightarrow> exc_new_top exc \<le> length (exc_stack exc) \<Longrightarrow> skip_ends exc e \<Longrightarrow> finished S e"
  unfolding skip_ends_def finished_def using placedD [of e exc] by auto

lemma exec_ok_fail [simp]: "exec_ok S (fail_with e exc) = exec_ok S exc"
  using exec_ok_frame [of S "fail_with e exc"] by simp

lemma finished_fail: "exec_ok S exc \<Longrightarrow> exc_new_top exc \<le> length (exc_stack exc) \<Longrightarrow> finished S (fail_with e exc)"
  by (simp add: finished_def) (simp add: fail_with_def)

lemma live_finished_fail: "live S exc \<Longrightarrow> finished S (fail_with e exc)"
  by (rule finished_fail) (simp_all add: live_def)

lemma if_finished:
  assumes "live S exc" "exc_args exc + 1 \<le> length (exc_stack exc)"
  shows "okay (Ins_IF exc) (finished S)"
proof -
  have "okay (skip_if (skip_rounds exc) 1 exc) (finished S)"
    by (rule okay_mono [OF skip_if_ends [OF in_code_start [OF assms(1)]]])
      (use assms in \<open>auto simp: live_def intro: skip_ends_finished\<close>)
  then show ?thesis unfolding Ins_IF_def using assms by (intro okay_intros) (auto intro: live_finished)
qed

lemma else_finished: "live S exc \<Longrightarrow> okay (Ins_ELSE exc) (finished S)"
  unfolding Ins_ELSE_def
  by (rule okay_mono [OF skip_else_ends [OF in_code_start]]) (auto simp: live_def intro: skip_ends_finished)

section \<open>Definitions\<close>

lemma def_find_total: "n \<le> length ds \<Longrightarrow> \<exists>i \<le> n. def_find P n ds = Some i"
  by (induction P n ds rule: def_find.induct) auto

lemma okay_def_find: "n \<le> length ds \<Longrightarrow> (\<And>i. i \<le> n \<Longrightarrow> Q i) \<Longrightarrow> okay (def_find P n ds) Q"
  using def_find_total [of n ds P] by auto

text \<open>Changing one definition; its start stays nonnegative.\<close>

lemma exec_ok_set_FDef:
  "exec_ok S exc \<Longrightarrow> 0 \<le> def_start d \<Longrightarrow> exec_ok S (exc\<lparr>exc_FDefs := (exc_FDefs exc)[i := d]\<rparr>)"
  by (auto simp: exec_ok_def defs_ok_def calls_ok_def def_ref_ok_def dest: set_update_subset_insert [THEN subsetD]
      split: def_ref.splits)

lemma exec_ok_set_IDef:
  "exec_ok S exc \<Longrightarrow> 0 \<le> def_start d \<Longrightarrow> exec_ok S (exc\<lparr>exc_IDefs := (exc_IDefs exc)[i := d]\<rparr>)"
  by (auto simp: exec_ok_def defs_ok_def calls_ok_def def_ref_ok_def dest: set_update_subset_insert [THEN subsetD]
      split: def_ref.splits)

lemma exec_ok_FDef_start: "exec_ok S exc \<Longrightarrow> i < length (exc_FDefs exc) \<Longrightarrow> 0 \<le> def_start (exc_FDefs exc ! i)"
  and exec_ok_IDef_start: "exec_ok S exc \<Longrightarrow> i < length (exc_IDefs exc) \<Longrightarrow> 0 \<le> def_start (exc_IDefs exc ! i)"
  by (simp_all add: exec_ok_def defs_ok_def)

lemma exec_ok_set_FDef_end: "exec_ok S exc \<Longrightarrow> i < length (exc_FDefs exc) \<Longrightarrow> exec_ok S (set_FDef_end i ip exc)"
  unfolding set_FDef_end_def by (rule exec_ok_set_FDef) (simp_all add: exec_ok_FDef_start)

lemma exec_ok_set_IDef_end: "exec_ok S exc \<Longrightarrow> i < length (exc_IDefs exc) \<Longrightarrow> exec_ok S (set_IDef_end i ip exc)"
  unfolding set_IDef_end_def by (rule exec_ok_set_IDef) (simp_all add: exec_ok_IDef_start)

lemma skip_def_finished:
  assumes "in_code k exc" "exc_IP exc < int (length (exc_code exc))" "exec_ok S exc" "exc_new_top exc \<le> length (exc_stack exc)"
    "\<And>e ip. placed e = placed exc \<Longrightarrow> finished S e \<Longrightarrow> finished S (set_end ip e)"
  shows "okay (skip_def k set_end exc) (finished S)"
  using assms
proof (induction k arbitrary: exc)
  case (Suc k)
  show ?case unfolding skip_def.simps
  proof (intro okay_bindI skip_round [OF Suc.prems(1,2)], goal_cases)
    case (1 e)
    then show ?case using Suc.prems(3,4) by (auto simp: skip_ends_def intro: skip_ends_finished)
  next
    case (2 e)
    then have h: "placed e = placed exc" "in_code k e" "exc_IP e < int (length (exc_code e))" by simp_all
    note d = placedD [OF h(1)]
    have f: "finished S e" using h d Suc.prems(3,4) by (auto simp: finished_def in_code_def)
    have "okay (skip_def k set_end e) (finished S)"
      by (rule Suc.IH) (use h d Suc.prems in auto)
    moreover have "finished S (fail_with Nested_DEFS e)" using f by (intro finished_fail) (auto simp: finished_def)
    ultimately show ?case using Suc.prems(5) [OF h(1) f] by simp
  qed
qed (use in_code_pos in force)

text \<open>A context with other definitions, at the same place.\<close>

lemma live_defs:
  assumes "live S exc" "exec_ok S (exc\<lparr>exc_numFDefs := n, exc_FDefs := ds, exc_numIDefs := m, exc_IDefs := es\<rparr>)"
  shows "live S (exc\<lparr>exc_numFDefs := n, exc_FDefs := ds, exc_numIDefs := m, exc_IDefs := es\<rparr>)"
  using assms by (simp add: live_def)

lemma okay_skip_def:
  assumes "live S exc" "\<And>e ip. placed e = placed exc \<Longrightarrow> finished S e \<Longrightarrow> finished S (set_end ip e)"
  shows "okay (skip_def (skip_rounds exc) set_end exc) (finished S)"
  by (rule skip_def_finished [OF in_code_start]) (use assms in \<open>auto simp: live_def\<close>)

lemma finished_set_FDef_end:
  assumes "placed e = placed exc" "finished S e" "i < length (exc_FDefs exc)"
  shows "finished S (set_FDef_end i ip e)"
  using assms placedD [OF assms(1)] exec_ok_set_FDef_end [of S e i ip]
  by (simp add: finished_def) (simp add: set_FDef_end_def)

lemma finished_set_IDef_end:
  assumes "placed e = placed exc" "finished S e" "i < length (exc_IDefs exc)"
  shows "finished S (set_IDef_end i ip e)"
  using assms placedD [OF assms(1)] exec_ok_set_IDef_end [of S e i ip]
  by (simp add: finished_def) (simp add: set_IDef_end_def)

lemma live_numFDefs: "live S exc \<Longrightarrow> exc_numFDefs exc < length (exc_FDefs exc) \<Longrightarrow> live S (exc\<lparr>exc_numFDefs := exc_numFDefs exc + 1\<rparr>)"
  by (auto simp: live_def exec_ok_def defs_ok_def calls_ok_def def_ref_ok_def split: def_ref.splits)

lemma live_numIDefs: "live S exc \<Longrightarrow> exc_numIDefs exc < length (exc_IDefs exc) \<Longrightarrow> live S (exc\<lparr>exc_numIDefs := exc_numIDefs exc + 1\<rparr>)"
  by (auto simp: live_def exec_ok_def defs_ok_def calls_ok_def def_ref_ok_def split: def_ref.splits)

lemma live_set_FDef: "live S exc \<Longrightarrow> 0 \<le> def_start d \<Longrightarrow> live S (exc\<lparr>exc_FDefs := (exc_FDefs exc)[i := d], exc_maxFunc := n\<rparr>)"
  by (auto simp: live_def exec_ok_def defs_ok_def calls_ok_def def_ref_ok_def dest: set_update_subset_insert [THEN subsetD]
      split: def_ref.splits)

lemma live_set_IDef: "live S exc \<Longrightarrow> 0 \<le> def_start d \<Longrightarrow> live S (exc\<lparr>exc_IDefs := (exc_IDefs exc)[i := d], exc_maxIns := n\<rparr>)"
  by (auto simp: live_def exec_ok_def defs_ok_def calls_ok_def def_ref_ok_def dest: set_update_subset_insert [THEN subsetD]
      split: def_ref.splits)

lemma live_def_bounds:
  "live S exc \<Longrightarrow> exc_numFDefs exc \<le> length (exc_FDefs exc) \<and> fe_maxFDefs (exc_env exc) \<le> length (exc_FDefs exc) \<and>
     exc_numIDefs exc \<le> length (exc_IDefs exc) \<and> fe_maxIDefs (exc_env exc) \<le> length (exc_IDefs exc) \<and> 0 \<le> exc_IP exc"
  by (simp add: live_def exec_ok_def defs_ok_def)

lemma FDEF_body_finished:
  assumes "live S exc" "rec < length (exc_FDefs exc)"
  shows "okay (skip_def (skip_rounds exc) (set_FDef_end rec)
    (exc\<lparr>exc_FDefs := (exc_FDefs exc)[rec := d\<lparr>def_range := r, def_opc := n, def_start := exc_IP exc + 1, def_active := True\<rparr>],
         exc_maxFunc := m\<rparr>)) (finished S)"
proof -
  let ?e = "exc\<lparr>exc_FDefs := (exc_FDefs exc)[rec := d\<lparr>def_range := r, def_opc := n, def_start := exc_IP exc + 1, def_active := True\<rparr>],
         exc_maxFunc := m\<rparr>"
  have "live S ?e" using assms live_def_bounds [OF assms(1)] by (intro live_set_FDef) auto
  then have "okay (skip_def (skip_rounds ?e) (set_FDef_end rec) ?e) (finished S)"
    by (rule okay_skip_def) (use assms finished_set_FDef_end in force)
  then show ?thesis by (simp add: skip_rounds_def)
qed

lemma IDEF_body_finished:
  assumes "live S exc" "rec < length (exc_IDefs exc)"
  shows "okay (skip_def (skip_rounds exc) (set_IDef_end rec)
    (exc\<lparr>exc_IDefs := (exc_IDefs exc)[rec := d\<lparr>def_opc := n, def_start := exc_IP exc + 1, def_range := r, def_active := True\<rparr>],
         exc_maxIns := m\<rparr>)) (finished S)"
proof -
  let ?e = "exc\<lparr>exc_IDefs := (exc_IDefs exc)[rec := d\<lparr>def_opc := n, def_start := exc_IP exc + 1, def_range := r, def_active := True\<rparr>],
         exc_maxIns := m\<rparr>"
  have "live S ?e" using assms live_def_bounds [OF assms(1)] by (intro live_set_IDef) auto
  then have "okay (skip_def (skip_rounds ?e) (set_IDef_end rec) ?e) (finished S)"
    by (rule okay_skip_def) (use assms finished_set_IDef_end in force)
  then show ?thesis by (simp add: skip_rounds_def)
qed

lemma Ins_FDEF_finished:
  assumes "live S exc" "exc_args exc + 1 \<le> length (exc_stack exc)"
  shows "okay (Ins_FDEF exc) (finished S)"
proof -
  note b = live_def_bounds [OF assms(1)] and f = live_finished_fail [OF assms(1)]
  have body: "okay (if n > 0xFFFF then Some (fail_with Too_Many_Function_Defs e)
      else do {
        old \<leftarrow> get_at (exc_FDefs e) rec;
        defs \<leftarrow> put_at (exc_FDefs e) rec
          (old\<lparr>def_range := exc_curRange e, def_opc := n, def_start := exc_IP e + 1, def_active := True\<rparr>);
        skip_def (skip_rounds (e\<lparr>exc_FDefs := defs, exc_maxFunc := if n > exc_maxFunc e then n else exc_maxFunc e\<rparr>))
          (set_FDef_end rec) (e\<lparr>exc_FDefs := defs, exc_maxFunc := if n > exc_maxFunc e then n else exc_maxFunc e\<rparr>)
      }) (finished S)" if "live S e" "rec < length (exc_FDefs e)" for e rec n
    using that FDEF_body_finished [OF that] live_finished_fail [OF that(1)]
    by (simp add: okay_rules skip_rounds_def)
  show ?thesis unfolding Ins_FDEF_def Let_def
    using assms b f live_numFDefs [OF assms(1)]
    by (intro okay_intros okay_def_find body) auto
qed

lemma Ins_IDEF_finished:
  assumes "live S exc" "exc_args exc + 1 \<le> length (exc_stack exc)"
  shows "okay (Ins_IDEF exc) (finished S)"
proof -
  note b = live_def_bounds [OF assms(1)] and f = live_finished_fail [OF assms(1)]
  have body: "okay (if 0 > a \<or> a > 0xFF then Some (fail_with Too_Many_Instruction_Defs e)
      else do {
        old \<leftarrow> get_at (exc_IDefs e) rec;
        defs \<leftarrow> put_at (exc_IDefs e) rec
          (old\<lparr>def_opc := nat a, def_start := exc_IP e + 1, def_range := exc_curRange e, def_active := True\<rparr>);
        skip_def (skip_rounds (e\<lparr>exc_IDefs := defs, exc_maxIns := if nat a > exc_maxIns e then nat a else exc_maxIns e\<rparr>))
          (set_IDef_end rec) (e\<lparr>exc_IDefs := defs, exc_maxIns := if nat a > exc_maxIns e then nat a else exc_maxIns e\<rparr>)
      }) (finished S)" if "live S e" "rec < length (exc_IDefs e)" for e rec a
    using that IDEF_body_finished [OF that] live_finished_fail [OF that(1)]
    by (simp add: okay_rules skip_rounds_def)
  show ?thesis unfolding Ins_IDEF_def Let_def
    using assms b f live_numIDefs [OF assms(1)]
    by (intro okay_intros okay_def_find body) auto
qed

section \<open>Jumps, calls and returns\<close>

lemma live_call_ok:
  "live S exc \<Longrightarrow> 0 < exc_callTop exc \<Longrightarrow> exc_callTop exc - 1 < length (exc_callStack exc) \<and>
     def_ref_ok exc (Def (exc_callStack exc ! (exc_callTop exc - 1))) \<and> 0 \<le> Caller_IP (exc_callStack exc ! (exc_callTop exc - 1))"
proof -
  assume h: "live S exc" "0 < exc_callTop exc"
  then have c: "exc_callTop exc \<le> length (exc_callStack exc)"
    "\<forall>c \<in> set (take (exc_callTop exc) (exc_callStack exc)). def_ref_ok exc (Def c) \<and> 0 \<le> Caller_IP c"
    by (simp_all add: live_def exec_ok_def calls_ok_def)
  have "exc_callStack exc ! (exc_callTop exc - 1) \<in> set (take (exc_callTop exc) (exc_callStack exc))"
    using h c by (auto simp: in_set_conv_nth intro!: exI [of _ "exc_callTop exc - 1"])
  then show ?thesis using h c by auto
qed

lemma okay_def_at:
  assumes "exec_ok S exc" "def_ref_ok exc d" "\<And>x. 0 \<le> def_start x \<Longrightarrow> P x"
  shows "okay (def_at exc d) P"
  using assms exec_ok_FDef_start [OF assms(1)] exec_ok_IDef_start [OF assms(1)]
  by (cases d) (auto simp: def_at_def def_ref_ok_def okay_rules)

lemma def_at_update [simp]: "def_at (exc\<lparr>exc_IP := i\<rparr>) = def_at exc"
  "def_at (exc\<lparr>exc_callTop := n, exc_callStack := cs\<rparr>) = def_at exc"
  by (rule ext, simp add: def_at_def split: def_ref.split)+

lemma finished_jump: "live S exc \<Longrightarrow> 0 \<le> i \<Longrightarrow> finished S (exc\<lparr>exc_IP := i, exc_length := 0\<rparr>)"
  by (simp add: live_def finished_def exec_ok_def defs_ok_def calls_ok_def def_ref_ok_def cong: def_ref.case_cong)

lemma exec_ok_IP [simp]: "exec_ok S (exc\<lparr>exc_IP := i\<rparr>) = exec_ok S exc"
  by (simp add: exec_ok_def defs_ok_def calls_ok_def def_ref_ok_def cong: def_ref.case_cong)

lemma finished_counter [simp]: "finished S (exc\<lparr>exc_neg_jump_counter := n\<rparr>) = finished S exc"
  "finished S (exc\<lparr>exc_loopcall_counter := n\<rparr>) = finished S exc"
  by (simp_all add: finished_def exec_ok_def defs_ok_def calls_ok_def def_ref_ok_def cong: def_ref.case_cong)

lemma finished_fail' [simp]: "finished S exc \<Longrightarrow> finished S (fail_with e exc)"
  by (rule finished_fail) (simp_all add: finished_def)

lemma Ins_JMPR_finished:
  assumes "live S exc" "exc_args exc + 1 \<le> length (exc_stack exc)"
  shows "okay (Ins_JMPR exc) (finished S)"
proof -
  note l = live_exec_ok [OF assms(1)] live_call_ok [OF assms(1)]
  have bad: "okay (get_at (exc_callStack exc) (exc_callTop exc - Suc 0))
      (\<lambda>c. okay (def_at exc (Def c) \<bind> (\<lambda>d. Some (f d))) P)" if "0 < exc_callTop exc" "\<And>b. P b" for f and P :: "bool \<Rightarrow> bool"
    using that l by (auto simp: okay_bind okay_get_at intro!: okay_def_at)
  have "finished S (fail_with e (exc\<lparr>exc_IP := j\<rparr>))" for e j
    by (rule finished_fail) (use l in auto)
  then show ?thesis unfolding Ins_JMPR_def Let_def
    using assms finished_jump [OF assms(1)] live_finished_fail [OF assms(1)]
    by (intro okay_bindI okay_if okay_Some okay_arg) (auto intro!: bad)
qed

lemma jump_if_finished:
  assumes "live S exc" "exc_args exc + 2 \<le> length (exc_stack exc)"
  shows "okay (Ins_JROT exc) (finished S)" "okay (Ins_JROF exc) (finished S)"
  unfolding Ins_JROT_def Ins_JROF_def using assms
  by - (intro okay_intros Ins_JMPR_finished; auto intro: live_finished)+

text \<open>Going to a code range, from a context that is otherwise in order.\<close>

lemma Ins_Goto_CodeRange_finished:
  assumes "exec_ok S exc" "exc_new_top exc \<le> length (exc_stack exc)" "0 \<le> ip"
  shows "okay (Ins_Goto_CodeRange r ip exc) (finished S)"
proof -
  have "length (fe_codeRangeTable (exc_env exc)) = 3" using assms(1) by (simp add: exec_ok_def env_ok_def)
  moreover have "finished S (exc\<lparr>exc_code := base, exc_IP := ip, exc_length := 0, exc_curRange := r\<rparr>)" for base
    using assms
    by (simp add: finished_def exec_ok_def defs_ok_def calls_ok_def def_ref_ok_def cong: def_ref.case_cong)
  moreover have "finished S (fail_with e exc)" for e using assms(1,2) by (rule finished_fail)
  ultimately show ?thesis unfolding Ins_Goto_CodeRange_def
    by (auto simp: okay_bind okay_get_at split: option.split)
qed

lemma Ins_ENDF_finished:
  assumes "live S exc"
  shows "okay (Ins_ENDF exc) (finished S)"
proof (cases "exc_callTop exc")
  case 0
  then show ?thesis using assms by (simp add: Ins_ENDF_def live_finished_fail)
next
  case (Suc n)
  let ?rec = "(exc_callStack exc ! n)\<lparr>Cur_Count := Cur_Count (exc_callStack exc ! n) - 1\<rparr>"
  let ?cs = "(exc_callStack exc)[n := ?rec]"
  let ?e = "exc\<lparr>exc_callTop := n, exc_callStack := ?cs\<rparr>"
  have n: "n < length (exc_callStack exc)" "def_ref_ok exc (Def ?rec)" "0 \<le> Caller_IP ?rec"
    using live_call_ok [OF assms] Suc by auto
  have c: "def_ref_ok exc (Def c) \<and> 0 \<le> Caller_IP c" if "c \<in> set (take n ?cs)" for c
  proof -
    have "c \<in> set (take (Suc n) (exc_callStack exc))"
      using that set_take_subset_set_take [of n "Suc n" "exc_callStack exc"] by auto
    then show ?thesis using assms Suc by (auto simp: live_def exec_ok_def calls_ok_def)
  qed
  have e: "exec_ok S ?e" "exc_new_top ?e \<le> length (exc_stack ?e)"
    using assms n c by (auto simp: live_def exec_ok_def calls_ok_def defs_ok_def def_ref_ok_def cong: def_ref.case_cong)
  have c': "def_ref_ok exc (Def c) \<and> 0 \<le> Caller_IP c" if "c \<in> set (take (Suc n) ?cs)" for c
    using that c n by (auto simp: take_Suc_conv_app_nth)
  have "finished S (?e\<lparr>exc_callTop := n + 1, exc_IP := i, exc_length := 0\<rparr>)" if "0 \<le> i" for i
    using assms n c' that by (auto simp: live_def finished_def exec_ok_def calls_ok_def defs_ok_def def_ref_ok_def cong: def_ref.case_cong)
  then have "okay (def_at ?e (Def ?rec)) (\<lambda>d. finished S (?e\<lparr>exc_callTop := n + 1, exc_IP := def_start d, exc_length := 0\<rparr>))"
    using n live_exec_ok [OF assms] by (auto intro!: okay_def_at [of S exc])
  moreover have "okay (Ins_Goto_CodeRange (Caller_Range ?rec) (Caller_IP ?rec) ?e) (finished S)"
    by (rule Ins_Goto_CodeRange_finished [OF e n(3)])
  ultimately show ?thesis using n(1) Suc
    by (simp add: Ins_ENDF_def Let_def okay_rules)
qed

lemma push_call_ok:
  assumes "exec_ok S exc" "exc_new_top exc \<le> length (exc_stack exc)" "0 \<le> exc_IP exc"
    "exc_callTop exc < length (exc_callStack exc)" "def_ref_ok exc d"
    "\<And>e. exec_ok S e \<Longrightarrow> exc_new_top e \<le> length (exc_stack e) \<Longrightarrow> P e"
  shows "okay (push_call n d exc) P"
proof -
  let ?c = "\<lparr>Caller_Range = exc_curRange exc, Caller_IP = exc_IP exc + 1, Cur_Count = n, Def = d\<rparr>"
  let ?e = "exc\<lparr>exc_callStack := (exc_callStack exc)[exc_callTop exc := ?c], exc_callTop := exc_callTop exc + 1\<rparr>"
  have "\<forall>c \<in> set (take (exc_callTop exc + 1) ((exc_callStack exc)[exc_callTop exc := ?c])).
      def_ref_ok exc (Def c) \<and> 0 \<le> Caller_IP c"
    using assms by (auto simp: take_Suc_conv_app_nth exec_ok_def calls_ok_def)
  then have "exec_ok S ?e" using assms(1,4) by (auto simp: exec_ok_def calls_ok_def defs_ok_def def_ref_ok_def cong: def_ref.case_cong)
  then show ?thesis using assms by (simp add: push_call_def okay_rules)
qed

lemma okay_find_function:
  assumes "live S exc" "P None" "\<And>i d. i < length (exc_FDefs exc) \<Longrightarrow> 0 \<le> def_start d \<Longrightarrow> P (Some (i, d))"
  shows "okay (find_function F exc) P"
proof -
  note b = live_def_bounds [OF assms(1)] and e = live_exec_ok [OF assms(1)]
  have p: "okay (get_at (exc_FDefs exc) i \<bind> (\<lambda>d. Some (if def_active d then Some (i, d) else None))) P"
    if "i < length (exc_FDefs exc)" for i
    using that assms(2,3) exec_ok_FDef_start [OF conjunct1 [OF e] that] by (simp add: okay_rules)
  have q: "F < length (exc_FDefs exc)" if "\<not> F \<ge> add32 (exc_maxFunc exc) 1" "add32 (exc_maxFunc exc) 1 = exc_numFDefs exc"
    using that b by simp
  have r: "okay (def_find Q (exc_numFDefs exc) (exc_FDefs exc))
      (\<lambda>i. okay (if \<not> False \<and> i = exc_numFDefs exc then Some None
                 else get_at (exc_FDefs exc) i \<bind> (\<lambda>d. Some (if def_active d then Some (i, d) else None))) P)" for Q
    using b assms(2) p by (intro okay_def_find) auto
  show ?thesis unfolding find_function_def using assms(2) p q r
    by (auto simp: okay_bind okay_get_at)
qed

lemma call_finished:
  assumes "live S exc" "exc_callTop exc < length (exc_callStack exc)" "def_ref_ok exc r" "0 \<le> def_start d"
  shows "okay (push_call n r exc) (\<lambda>e. okay (Ins_Goto_CodeRange (def_range d) (def_start d) e) (finished S))"
  using assms live_exec_ok [OF assms(1)] live_def_bounds [OF assms(1)]
  by (intro push_call_ok Ins_Goto_CodeRange_finished) auto

lemma Ins_CALL_finished:
  assumes "live S exc" "exc_args exc + 1 \<le> length (exc_stack exc)"
  shows "okay (Ins_CALL exc) (finished S)"
  unfolding Ins_CALL_def
  using assms live_finished_fail [OF assms(1)]
  by (intro okay_bindI okay_arg okay_find_function okay_prod)
    (auto simp: okay_bind def_ref_ok_def intro!: call_finished)

lemma Ins_LOOPCALL_finished:
  assumes "live S exc" "exc_args exc + 2 \<le> length (exc_stack exc)"
  shows "okay (Ins_LOOPCALL exc) (finished S)"
proof -
  have "okay (do {
      e \<leftarrow> push_call n (FDef i) exc;
      e \<leftarrow> Ins_Goto_CodeRange (def_range d) (def_start d) e;
      let e = e\<lparr>exc_loopcall_counter := nat (u64 (int (exc_loopcall_counter e) + m))\<rparr>;
      Some (if exc_loopcall_counter e > exc_loopcall_counter_max e then fail_with Execution_Too_Long e else e)
    }) (finished S)"
    if "exc_callTop exc < length (exc_callStack exc)" "i < length (exc_FDefs exc)" "0 \<le> def_start d" for i d n m
  proof -
    have "okay (push_call n (FDef i) exc) (\<lambda>e. okay (Ins_Goto_CodeRange (def_range d) (def_start d) e) (finished S))"
      using that assms(1) by (intro call_finished) (auto simp: def_ref_ok_def)
    then show ?thesis unfolding okay_bind by (elim okay_mono) (auto simp: Let_def)
  qed
  then show ?thesis unfolding Ins_LOOPCALL_def
    using assms live_finished_fail [OF assms(1)] live_finished [OF assms(1)]
    by (intro okay_bindI okay_arg okay_find_function okay_prod) (auto simp: okay_arg okay_bind intro!: okay_arg)
qed

lemma Ins_UNKNOWN_finished: "live S exc \<Longrightarrow> okay (Ins_UNKNOWN exc) (finished S)"
proof -
  assume l: "live S exc"
  note b = live_def_bounds [OF l]
  have "okay (do { e \<leftarrow> push_call 1 (IDef i) exc; Ins_Goto_CodeRange (def_range (exc_IDefs exc ! i)) (def_start (exc_IDefs exc ! i)) e }) (finished S)"
    if "i < length (exc_IDefs exc)" "exc_callTop exc < length (exc_callStack exc)" for i
    unfolding okay_bind using that l exec_ok_IDef_start [OF _ that(1)] live_exec_ok [OF l]
    by (intro call_finished) (auto simp: def_ref_ok_def)
  then show ?thesis unfolding Ins_UNKNOWN_def
    using b live_finished_fail [OF l]
    by (intro okay_bindI okay_def_find) (auto simp: okay_get_at okay_bind)
qed

section \<open>Pushing\<close>

lemma code_bytes_length:
  "0 \<le> ip \<Longrightarrow> ip + int n \<le> int (length (exc_code exc)) \<Longrightarrow> okay (code_bytes n ip exc) (\<lambda>vs. length vs = n)"
proof (induction n arbitrary: ip)
  case (Suc n)
  have "okay (code_bytes n (ip + 1) exc) (\<lambda>vs. length vs = n)" using Suc.prems by (intro Suc.IH) auto
  then show ?case using Suc.prems by (auto simp: okay_bind intro!: okay_code_at elim: okay_mono)
qed simp

lemma code_words_length:
  "0 \<le> ip \<Longrightarrow> ip + 2 * int n \<le> int (length (exc_code exc)) \<Longrightarrow> okay (code_words n ip exc) (\<lambda>vs. length vs = n)"
proof (induction n arbitrary: ip)
  case (Suc n)
  have "okay (code_words n (ip + 2) exc) (\<lambda>vs. length vs = n)" using Suc.prems by (intro Suc.IH) auto
  then show ?case using Suc.prems by (auto simp: okay_bind intro!: okay_code_at elim: okay_mono)
qed simp

text \<open>A context after values were pushed, further on in the code and with a new top.\<close>

lemma finished_push:
  "live S e \<Longrightarrow> exc_new_top e \<le> n \<Longrightarrow> n \<le> length (exc_stack e) \<Longrightarrow> 0 \<le> i \<Longrightarrow> finished S (e\<lparr>exc_new_top := n, exc_IP := i\<rparr>)"
  "live S e \<Longrightarrow> 0 \<le> i \<Longrightarrow> finished S (e\<lparr>exc_IP := i\<rparr>)"
  "live S e \<Longrightarrow> n \<le> length (exc_stack e) \<Longrightarrow> finished S (e\<lparr>exc_new_top := n\<rparr>)"
  by (simp_all add: live_def finished_def exec_ok_def defs_ok_def calls_ok_def def_ref_ok_def cong: def_ref.case_cong)

text \<open>Instructions that pop and push nothing leave \<open>args\<close> and \<open>new_top\<close> at \<open>top\<close>.\<close>

lemma push_finished:
  assumes "live S exc" "exc_args exc \<le> exc_top exc"
  shows "okay (Ins_PUSHB exc) (finished S)" "okay (Ins_PUSHW exc) (finished S)"
proof -
  have l: "0 \<le> exc_IP exc" using assms(1) by (simp add: live_def)
  have "okay (set_args 0 vs exc) (\<lambda>e. finished S (e\<lparr>exc_IP := i e\<rparr>))"
    if "exc_top exc + length vs \<le> length (exc_stack exc)" "\<And>e. exc_IP e = exc_IP exc \<Longrightarrow> 0 \<le> i e" for vs i
    using assms that by (intro okay_set_args) (auto intro!: finished_push(2) dest!: sameD)
  then show "okay (Ins_PUSHB exc) (finished S)" "okay (Ins_PUSHW exc) (finished S)"
    unfolding Ins_PUSHB_def Ins_PUSHW_def Let_def stack_full_def
    using l live_finished_fail [OF assms(1)]
    by (auto simp: okay_bind simp del: code_bytes.simps code_words.simps set_args.simps dest!: sameD intro!: okay_mono [OF code_bytes_length] okay_mono [OF code_words_length])
qed

lemma npush_finished:
  assumes "live S exc" "exc_args exc \<le> exc_top exc" "exc_new_top exc \<le> exc_top exc"
  shows "okay (Ins_NPUSHB exc) (finished S)" "okay (Ins_NPUSHW exc) (finished S)"
proof -
  have l: "0 \<le> exc_IP exc" using assms(1) by (simp add: live_def)
  have "okay (set_args 0 vs exc) (\<lambda>e. finished S (e\<lparr>exc_new_top := exc_new_top e + n, exc_IP := i e\<rparr>))"
    if "exc_top exc + n \<le> length (exc_stack exc)" "length vs = n" "\<And>e. exc_IP e = exc_IP exc \<Longrightarrow> 0 \<le> i e" for vs i n
    using assms that by (intro okay_set_args) (auto intro!: finished_push(1) dest!: sameD)
  then show "okay (Ins_NPUSHB exc) (finished S)" "okay (Ins_NPUSHW exc) (finished S)"
    unfolding Ins_NPUSHB_def Ins_NPUSHW_def Let_def stack_full_def
    using l live_finished_fail [OF assms(1)]
    by (auto simp: okay_bind simp del: code_bytes.simps code_words.simps set_args.simps dest!: sameD intro!: okay_code_at okay_mono [OF code_bytes_length] okay_mono [OF code_words_length])
qed

lemma Ins_GETVARIATION_finished:
  assumes "live S exc" "exc_args exc \<le> exc_top exc" "exc_new_top exc \<le> exc_top exc"
    "fe_blend (exc_env exc) = Some (n, coords)"
  shows "okay (Ins_GETVARIATION n coords exc) (finished S)"
proof -
  have "case coords of Some c \<Rightarrow> n \<le> length c | None \<Rightarrow> True"
    using assms(1,4) by (auto simp: live_def exec_ok_def env_ok_def split: option.splits)
  moreover have "okay (set_args 0 vs exc) (\<lambda>e. finished S (e\<lparr>exc_new_top := exc_new_top e + n\<rparr>))"
    if "exc_top exc + n \<le> length (exc_stack exc)" "length vs = n" for vs
    using assms that by (intro okay_set_args) (auto intro!: finished_push(3) dest!: sameD)
  ultimately show ?thesis
    unfolding Ins_GETVARIATION_def stack_full_def using live_finished_fail [OF assms(1)]
    by (cases coords) (auto simp: okay_bind)
qed

lemma Ins_CLEAR_finished: "live S exc \<Longrightarrow> okay (Ins_CLEAR exc) (finished S)"
  unfolding Ins_CLEAR_def by (auto intro: finished_push(3))

end
