(* ===== verification/Tt_Points_Safe.thy ===== *)
theory Tt_Points_Safe
  imports Tt_GS_Safe
begin

text \<open>
  The instructions that measure and move points keep the invariant of the interpreter and stay
  inside the zones, the stack and the control values.
\<close>

section \<open>Measuring\<close>

lemma measure_same:
  assumes "live S exc" "exc_args exc + 1 \<le> length (exc_stack exc)"
  shows "okay (Ins_GC exc) (same exc)"
  unfolding Ins_GC_def Let_def using assms
  by (intro okay_intros) (auto dest!: sameD intro!: sameI)

lemma Ins_MD_same:
  assumes "live S exc" "exc_args exc + 2 \<le> length (exc_stack exc)"
  shows "okay (Ins_MD exc) (same exc)"
  unfolding Ins_MD_def Let_def using assms
  by (intro okay_intros okay_args) (auto dest!: sameD intro!: sameI)

lemma Ins_SCFS_same:
  assumes "live S exc" "exc_args exc + 2 \<le> length (exc_stack exc)"
  shows "okay (Ins_SCFS exc) (same exc)"
  unfolding Ins_SCFS_def Let_def using assms
  by (intro okay_intros okay_args okay_func_move) (auto dest!: sameD intro!: sameI)

section \<open>Loops over points on the stack\<close>

lemma live_reset_loop: "live S exc \<Longrightarrow> live S (reset_loop exc)"
  using live_gs_ok [of S exc] by (auto simp: reset_loop_def gs_ok_def intro!: live_set_GS)

lemma point_loop_live:
  assumes "live S exc" "a \<le> length (exc_stack exc)" "k \<le> a"
    "\<And>p e. same exc e \<Longrightarrow> p < n_points exc z \<Longrightarrow> okay (step p e) (same e)"
  shows "okay (point_loop step z k a exc) (live S)"
  using assms
proof (induction k arbitrary: a exc)
  case 0
  then show ?case using live_reset_loop [of S exc] by (simp add: reset_loop_def)
next
  case (Suc k)
  have next_round: "okay (point_loop step z k (a - 1) e) (live S)" if "same exc e" for e
    by (rule Suc.IH) (use Suc.prems sameD [OF that] same_trans [OF that] in auto)
  have "okay (step p exc) (\<lambda>e. okay (point_loop step z k (a - 1) e) (live S))" if "p < n_points exc z" for p
    using Suc.prems(4) [OF same_refl that] next_round by (rule okay_mono)
  then show ?case using Suc.prems next_round [OF same_refl]
    by (auto simp: okay_bind okay_get_at Let_def)
qed

lemma n_points_new_top [simp]: "n_points (exc\<lparr>exc_new_top := n\<rparr>) = n_points exc"
  by (rule ext) (simp add: n_points_def zone_def split: zone_ref.split)

lemma with_points_live:
  assumes "live S exc" "exc_args exc = exc_new_top exc"
    "\<And>n. n \<le> exc_args exc \<Longrightarrow> live S (exc\<lparr>exc_new_top := exc_new_top exc - n\<rparr>) \<Longrightarrow>
      okay (body n (exc\<lparr>exc_new_top := exc_new_top exc - n\<rparr>)) (live S)"
  shows "okay (with_points body exc) (live S)"
proof -
  have "live S (exc\<lparr>exc_new_top := exc_new_top exc - n\<rparr>)" for n
    using assms(1) live_exec_ok [OF assms(1)] by (auto intro: live_new_top)
  then show ?thesis unfolding with_points_def Let_def
    using assms live_reset_loop [of S "fail_pedantic Too_Few_Arguments exc"] by auto
qed

lemma live_args: "live S exc \<Longrightarrow> exc_args exc = exc_new_top exc \<Longrightarrow> exc_args exc \<le> length (exc_stack exc)"
  using live_exec_ok [of S exc] by simp

lemma flip_on_same: "live S exc \<Longrightarrow> p < n_points exc Pts \<Longrightarrow> okay (flip_on p exc) (same exc)"
  unfolding flip_on_def by (intro okay_intros) auto

lemma Ins_FLIPPT_live:
  assumes "live S exc" "exc_args exc = exc_new_top exc"
  shows "okay (Ins_FLIPPT exc) (live S)"
  unfolding Ins_FLIPPT_def
  by (rule with_points_live [OF assms], intro okay_intros point_loop_live flip_on_same)
    (use assms live_args [OF assms] in \<open>auto intro: live_reset_loop dest!: sameD\<close>)

lemma okay_same_trans: "same exc e \<Longrightarrow> okay m (same e) \<Longrightarrow> okay m (same exc)"
  by (erule okay_mono) (rule same_trans)

lemma flip_range_same:
  "live S exc \<Longrightarrow> i + k \<le> n_points exc Pts \<Longrightarrow> okay (flip_range on k i exc) (same exc)"
proof (induction k arbitrary: i exc)
  case (Suc k)
  have "okay (flip_range on k (i + 1) e) (same exc)" if s: "same exc e" for e
    by (rule okay_same_trans [OF s Suc.IH]) (use Suc.prems sameD [OF s] in auto)
  then show ?case using Suc.prems unfolding flip_range.simps by (intro okay_intros) auto
qed simp

lemma flip_range_instructions:
  assumes "live S exc" "exc_args exc + 2 \<le> length (exc_stack exc)"
  shows "okay (Ins_FLIPRGON exc) (same exc)" "okay (Ins_FLIPRGOFF exc) (same exc)"
  unfolding Ins_FLIPRGON_def Ins_FLIPRGOFF_def Ins_FLIPRG_def using assms
  by - (intro okay_intros okay_args; auto intro!: flip_range_same)+

lemma Ins_UTP_same:
  assumes "live S exc" "exc_args exc + 1 \<le> length (exc_stack exc)"
  shows "okay (Ins_UTP exc) (same exc)"
  unfolding Ins_UTP_def Let_def using assms by (intro okay_intros okay_args) auto

section \<open>Shifting\<close>

lemma Move_Zp2_Point_same:
  "live S exc \<Longrightarrow> i < n_points exc (exc_zp2 exc) \<Longrightarrow> okay (Move_Zp2_Point dx dy t i exc) (same exc)"
  unfolding Move_Zp2_Point_def by (intro okay_intros okay_moves) (auto dest!: sameD intro!: sameI)

lemma okay_Compute_Point_Displacement:
  "live S exc \<Longrightarrow> (\<And>d. P (Some d, exc)) \<Longrightarrow> P (None, fail_pedantic Invalid_Reference exc) \<Longrightarrow>
     okay (Compute_Point_Displacement exc) P"
  unfolding Compute_Point_Displacement_def Let_def by (intro okay_intros) auto

lemma Ins_SHP_live:
  assumes "live S exc" "exc_args exc = exc_new_top exc"
  shows "okay (Ins_SHP exc) (live S)"
  unfolding Ins_SHP_def
  by (rule with_points_live [OF assms], intro okay_intros okay_Compute_Point_Displacement)
    (use assms live_args [OF assms] in \<open>auto intro!: point_loop_live Move_Zp2_Point_same dest!: sameD\<close>)

lemma shift_loop_same:
  "live S exc \<Longrightarrow> k = 0 \<or> i + k \<le> n_points exc (exc_zp2 exc) \<Longrightarrow> okay (shift_loop k i dx dy t zp p exc) (same exc)"
proof (induction k arbitrary: i exc)
  case (Suc k)
  have "okay (shift_loop k (i + 1) dx dy t zp p e) (same exc)" if s: "same exc e" for e
    by (rule okay_same_trans [OF s Suc.IH]) (use Suc.prems sameD [OF s] in auto)
  then have "okay (Move_Zp2_Point dx dy t i exc) (\<lambda>e. okay (shift_loop k (i + 1) dx dy t zp p e) (same exc))"
    using Suc.prems by (intro okay_mono [OF Move_Zp2_Point_same]) auto
  then show ?case using \<open>\<And>e. same exc e \<Longrightarrow> _\<close> unfolding shift_loop.simps by (intro okay_bindI okay_if okay_Some) auto
qed simp

lemma shift_range_same:
  "live S exc \<Longrightarrow> n \<le> n_points exc (exc_zp2 exc) \<Longrightarrow> okay (shift_loop (n - i) i dx dy t zp p exc) (same exc)"
  by (rule shift_loop_same) auto

lemmas shift_all_same = shift_range_same [where i = 0, simplified]

text \<open>The bounds of a contour.\<close>

lemma okay_contour_end:
  assumes "live S exc" "c < length (zn_contours (zone exc (exc_zp2 exc)))"
    "\<And>e. int (zn_first_point (zone exc (exc_zp2 exc))) \<le> e + 1 \<Longrightarrow>
       e + 1 \<le> int (zn_first_point (zone exc (exc_zp2 exc))) + int (n_points exc (exc_zp2 exc)) \<Longrightarrow> P e"
  shows "okay (contour_end exc c) P"
proof -
  let ?z = "zone exc (exc_zp2 exc)"
  have "zn_contours ?z ! c \<in> set (zn_contours ?z)" using assms(2) by simp
  then have "zn_first_point ?z \<le> zn_contours ?z ! c + 1" "zn_contours ?z ! c + 1 \<le> zn_first_point ?z + zn_n_points ?z"
    using live_zone [OF assms(1), of "exc_zp2 exc"] by (auto simp: zone_ok_def)
  then show ?thesis using assms(2,3) by (simp add: contour_end_def okay_rules n_points_def)
qed

lemma u16_of_int_le: "0 \<le> x \<Longrightarrow> x \<le> int n \<Longrightarrow> n < 65536 \<Longrightarrow> u16_of_int x \<le> n"
  by (simp add: u16_of_int_def nat_le_iff)

lemma live_n_points: "live S exc \<Longrightarrow> n_points exc r < 65536"
  using live_zone [of S exc r] by (simp add: n_points_def zone_ok_def)

lemma Ins_SHC_same:
  assumes "live S exc" "exc_args exc + 1 \<le> length (exc_stack exc)"
  shows "okay (Ins_SHC exc) (same exc)"
  unfolding Ins_SHC_def Let_def
  using assms live_n_points [OF assms(1), of "exc_zp2 exc"]
  by (intro okay_intros okay_args okay_Compute_Point_Displacement okay_contour_end)
    (auto intro!: shift_all_same shift_range_same okay_intros okay_contour_end u16_of_int_le simp: n_points_def [symmetric] split: if_splits)

text \<open>\<open>SHZ\<close> takes the last contour end as it is.\<close>

lemma Ins_SHZ_same:
  assumes "live S exc" "exc_args exc + 1 \<le> length (exc_stack exc)"
  shows "okay (Ins_SHZ exc) (same exc)"
proof -
  let ?z = "zone exc (exc_zp2 exc)"
  have "u16_of_int (int (zn_contours ?z ! (length (zn_contours ?z) - Suc 0)) + 1) \<le> n_points exc (exc_zp2 exc)" if "zn_contours ?z \<noteq> []"
    using live_zone [OF assms(1), of "exc_zp2 exc"] that
    by (intro u16_of_int_le) (auto simp: zone_ok_def n_points_def last_conv_nth)
  then have "okay (shift_loop n 0 dx dy False zp p exc) (same exc)"
    if "n = n_points exc (exc_zp2 exc) \<or> n = 0 \<or> zn_contours ?z \<noteq> [] \<and> n = u16_of_int (int (zn_contours ?z ! (length (zn_contours ?z) - Suc 0)) + 1)"
    for n dx dy zp p
    using that assms(1) by (intro shift_loop_same) auto
  then show ?thesis unfolding Ins_SHZ_def Let_def
    using assms
    by (intro okay_intros okay_args okay_Compute_Point_Displacement)
      (auto simp: contour_end_def okay_rules n_points_def [symmetric])
qed

lemma Ins_SHPIX_live:
  assumes "live S exc" "exc_args exc = exc_new_top exc" "exc_args exc + 1 \<le> length (exc_stack exc)"
  shows "okay (Ins_SHPIX exc) (live S)"
  unfolding Ins_SHPIX_def Let_def
  by (rule with_points_live [OF assms(1,2)], intro okay_intros point_loop_live)
    (use assms in \<open>auto intro!: Move_Zp2_Point_same okay_ztag dest!: sameD\<close>)

end
