(* ===== verification/Tt_Move_Safe.thy ===== *)
theory Tt_Move_Safe
  imports Tt_Points_Safe
begin

text \<open>
  The instructions that move points to a distance or a control value, align, intersect and
  interpolate them, and the delta exceptions: they keep the invariant of the interpreter and stay
  inside its arrays.
\<close>

section \<open>Moving to a distance\<close>

text \<open>A step that may be skipped; tried before the general rule for sequences.\<close>

lemma okay_optional:
  "(b \<Longrightarrow> okay m (same exc)) \<Longrightarrow> (\<And>e. same exc e \<Longrightarrow> okay (f e) P) \<Longrightarrow> okay ((if b then m else Some exc) \<bind> f) P"
  by (auto simp: okay_bind intro: okay_mono)

lemmas okay_move_rules = okay_optional okay_intros okay_args okay_func_move okay_func_move_orig okay_func_read_cvt

lemma n_points_set_GS [simp]: "n_points (set_GS f exc) = n_points exc"
  by (rule ext) (simp add: set_GS_def n_points_def zone_def split: zone_ref.split)

lemma Ins_MSIRP_live:
  assumes "live S exc" "exc_args exc + 2 \<le> length (exc_stack exc)"
  shows "okay (Ins_MSIRP exc) (live S)"
  unfolding Ins_MSIRP_def Let_def using assms live_gs_ok [OF assms(1)]
  by (intro okay_move_rules) (auto dest!: sameD intro!: live_set_GS sameI)

lemma Ins_MDAP_live:
  assumes "live S exc" "exc_args exc + 1 \<le> length (exc_stack exc)"
  shows "okay (Ins_MDAP exc) (live S)"
  unfolding Ins_MDAP_def set_rp01_def Let_def using assms live_gs_ok [OF assms(1)]
  by (intro okay_move_rules) (auto dest!: sameD intro!: live_set_GS sameI)

lemma Ins_MIAP_live:
  assumes "live S exc" "exc_args exc + 2 \<le> length (exc_stack exc)"
  shows "okay (Ins_MIAP exc) (live S)"
  unfolding Ins_MIAP_def set_rp01_def Let_def using assms live_gs_ok [OF assms(1)]
  by (intro okay_move_rules) (auto dest!: sameD intro!: live_set_GS sameI)

lemma live_set_rp: "live S exc \<Longrightarrow> live S (set_rp_relative p exc)"
  using live_gs_ok [of S exc] by (auto simp: set_rp_relative_def intro!: live_set_GS)

lemma okay_round_distance: "live S exc \<Longrightarrow> (\<And>v. P v) \<Longrightarrow> okay (round_distance exc d) P"
  unfolding round_distance_def by (intro okay_intros) auto

lemma Ins_MDRP_live:
  assumes "live S exc" "exc_args exc + 1 \<le> length (exc_stack exc)"
  shows "okay (Ins_MDRP exc) (live S)"
  unfolding Ins_MDRP_def Let_def using assms
  by (intro okay_move_rules okay_round_distance) (auto dest!: sameD intro!: live_set_rp sameI)

lemma Ins_MIRP_live:
  assumes "live S exc" "exc_args exc + 2 \<le> length (exc_stack exc)"
  shows "okay (Ins_MIRP exc) (live S)"
  unfolding Ins_MIRP_def Let_def using assms
  by (intro okay_move_rules okay_round_distance) (auto dest!: sameD intro!: live_set_rp sameI)

section \<open>Aligning and intersecting\<close>

lemma Ins_ALIGNRP_live:
  assumes "live S exc" "exc_args exc = exc_new_top exc"
  shows "okay (Ins_ALIGNRP exc) (live S)"
  unfolding Ins_ALIGNRP_def Let_def
  by (rule with_points_live [OF assms], intro okay_move_rules point_loop_live)
    (use assms live_args [OF assms] in \<open>auto intro: live_reset_loop dest!: sameD\<close>)

lemma Ins_ALIGNPTS_same:
  assumes "live S exc" "exc_args exc + 2 \<le> length (exc_stack exc)"
  shows "okay (Ins_ALIGNPTS exc) (same exc)"
  unfolding Ins_ALIGNPTS_def Let_def using assms
  by (intro okay_move_rules) (auto dest!: sameD intro!: sameI)

lemma Ins_ISECT_same:
  assumes "live S exc" "exc_args exc + 5 \<le> length (exc_stack exc)"
  shows "okay (Ins_ISECT exc) (same exc)"
  unfolding Ins_ISECT_def Let_def using assms
  by (intro okay_move_rules okay_touch) (auto dest!: sameD intro!: sameI)

section \<open>Interpolating\<close>

lemma okay_ip_distance: "live S exc \<Longrightarrow> i < n_points exc z \<Longrightarrow> (\<And>d. P d) \<Longrightarrow> okay (ip_distance exc tw z i b) P"
  unfolding ip_distance_def Let_def by (intro okay_intros) auto

lemma ip_loop_live:
  assumes "live S exc" "a \<le> length (exc_stack exc)" "k \<le> a" "gs_rp1 (exc_GS exc) < n_points exc (exc_zp0 exc)"
  shows "okay (ip_loop tw b r1 r2 k a exc) (live S)"
  using assms
proof (induction k arbitrary: a exc)
  case (Suc k)
  have next_round: "okay (ip_loop tw b r1 r2 k (a - 1) e) (live S)" if "same exc e" for e
    by (rule Suc.IH) (use Suc.prems sameD [OF that] in auto)
  show ?case unfolding ip_loop.simps Let_def using Suc.prems next_round
    by (auto simp: okay_bind okay_get_at intro!: okay_ip_distance okay_zcur okay_func_move)
qed (simp add: live_reset_loop)

lemma Ins_IP_live:
  assumes "live S exc" "exc_args exc = exc_new_top exc"
  shows "okay (Ins_IP exc) (live S)"
  unfolding Ins_IP_def Let_def
  by (rule with_points_live [OF assms], intro okay_move_rules okay_ip_distance)
    (use assms live_args [OF assms] in \<open>auto intro!: live_reset_loop ip_loop_live\<close>)

section \<open>Delta exceptions\<close>

lemma delta_loop_same:
  assumes "live S exc" "a \<le> length (exc_stack exc)" "2 * k \<le> a"
    "\<And>A B e. same exc e \<Longrightarrow> \<not> outside A e \<Longrightarrow> okay (apply' A B e) (same e)"
  shows "okay (delta_loop conv outside apply' P k a exc) (same exc)"
  using assms
proof (induction k arbitrary: a exc)
  case (Suc k)
  have next_round: "okay (delta_loop conv outside apply' P k (a - 2) e) (same exc)" if s: "same exc e" for e
    by (rule okay_same_trans [OF s Suc.IH]) (use Suc.prems sameD [OF s] same_trans [OF s] in auto)
  have "okay (apply' A B exc) (\<lambda>e. okay (delta_loop conv outside apply' P k (a - 2) e) (same exc))" if "\<not> outside A exc" for A B
    using Suc.prems(4) [OF same_refl that] next_round by (rule okay_mono)
  then show ?case using Suc.prems next_round [OF same_refl]
    by (auto simp: okay_bind okay_get_at Let_def)
qed simp

lemma same_delta_ppem: "delta_ppem n exc = (p, e) \<Longrightarrow> same exc e"
  using same_func_cur_ppem [of exc] by (auto simp: delta_ppem_def split: prod.splits)

lemma with_deltas_live:
  assumes "live S exc" "exc_args exc = exc_new_top exc" "exc_args exc + 1 \<le> length (exc_stack exc)"
    "\<And>P n e. live S e \<Longrightarrow> 2 * n \<le> exc_args e \<Longrightarrow> exc_args e \<le> length (exc_stack e) \<Longrightarrow> okay (body P n e) (live S)"
  shows "okay (with_deltas k body exc) (live S)"
proof -
  have body: "okay (if Q then Some e else body P n e) (live S)"
    if "delta_ppem k (e'\<lparr>exc_new_top := exc_new_top e' - 2 * n\<rparr>) = (p, e)" "same exc e'" "2 * n \<le> exc_new_top exc" for P Q p e e' n
  proof -
    have "live S e'" "exc_new_top e' \<le> length (exc_stack e')" using assms(1) live_exec_ok [OF assms(1)] sameD [OF that(2)] by auto
    then have "live S (e'\<lparr>exc_new_top := exc_new_top e' - 2 * n\<rparr>)" by (auto intro: live_new_top)
    then have "live S e" "exc_args e = exc_args exc" "length (exc_stack e) = length (exc_stack exc)"
      using sameD [OF same_delta_ppem [OF that(1)]] sameD [OF that(2)] by auto
    then show ?thesis using assms(2,3) that(3) assms(4) [of e n P] by auto
  qed
  show ?thesis unfolding with_deltas_def Let_def
    using assms(3)
    by (intro okay_bindI okay_arg okay_prod body) (auto split: if_splits)
qed

lemma delta_point_same: "live S exc \<Longrightarrow> i < n_points exc (exc_zp0 exc) \<Longrightarrow> okay (delta_point i B exc) (same exc)"
  unfolding delta_point_def by (intro okay_intros func_move_same) (auto intro: func_move_same)

lemma delta_live:
  assumes "live S exc" "exc_args exc = exc_new_top exc" "exc_args exc + 1 \<le> length (exc_stack exc)"
  shows "okay (Ins_DELTAP exc) (live S)" "okay (Ins_DELTAC exc) (live S)"
proof -
  have "okay (delta_loop u16_of_int (\<lambda>A e. A \<ge> n_points e (exc_zp0 e)) delta_point P n (exc_args e) e) (live S)"
    if "live S e" "2 * n \<le> exc_args e" "exc_args e \<le> length (exc_stack e)" for P n e
    by (rule okay_mono [OF delta_loop_same]) (use that in \<open>auto intro!: delta_point_same dest!: sameD\<close>)
  moreover have "okay (delta_loop ulong_of (\<lambda>A e. A \<ge> length (exc_cvt e)) func_move_cvt P n (exc_args e) e) (live S)"
    if "live S e" "2 * n \<le> exc_args e" "exc_args e \<le> length (exc_stack e)" for P n e
    by (rule okay_mono [OF delta_loop_same]) (use that in \<open>auto intro!: func_move_cvt_same dest!: sameD\<close>)
  ultimately show "okay (Ins_DELTAP exc) (live S)" "okay (Ins_DELTAC exc) (live S)"
    unfolding Ins_DELTAP_def Ins_DELTAC_def
    by (auto intro!: with_deltas_live assms)
qed

section \<open>Interpolating untouched points\<close>

text \<open>The worker of \<open>IUP\<close>: its arrays hold \<open>n\<close> points, and their lengths do not change.\<close>

definition worker_ok :: "nat \<Rightarrow> nat \<Rightarrow> IUP_WorkerRec \<Rightarrow> bool" where
  "worker_ok n l V \<longleftrightarrow> iup_max_points V = n \<and> n \<le> length (iup_orgs V) \<and> n \<le> l \<and> length (iup_curs V) = l \<and> n \<le> length (iup_orus V)"

lemma okay_iup:
  "worker_ok n l V \<Longrightarrow> i < n \<Longrightarrow> (\<And>c. P c) \<Longrightarrow> okay (iup_org V i) P"
  "worker_ok n l V \<Longrightarrow> i < n \<Longrightarrow> (\<And>c. P c) \<Longrightarrow> okay (iup_cur V i) P"
  "worker_ok n l V \<Longrightarrow> i < n \<Longrightarrow> (\<And>c. P c) \<Longrightarrow> okay (iup_oru V i) P"
  by (simp_all add: iup_org_def iup_cur_def iup_oru_def okay_rules worker_ok_def)

lemma okay_set_iup_cur: "worker_ok n l V \<Longrightarrow> i < n \<Longrightarrow> okay (set_iup_cur i c V) (worker_ok n l)"
  by (simp add: set_iup_cur_def okay_rules worker_ok_def)

lemma iup_range_ok:
  "worker_ok n l V \<Longrightarrow> i + k \<le> n \<Longrightarrow> (\<And>V j. worker_ok n l V \<Longrightarrow> j < n \<Longrightarrow> okay (f V j) (\<lambda>_. True)) \<Longrightarrow>
     okay (iup_range f k i V) (worker_ok n l)"
proof (induction k arbitrary: i V)
  case (Suc k)
  have "okay (set_iup_cur i c V) (\<lambda>V. okay (iup_range f k (i + 1) V) (worker_ok n l))" for c
    using Suc.prems by (intro okay_mono [OF okay_set_iup_cur Suc.IH]) auto
  moreover obtain c where "f V i = Some c" using Suc.prems(3) [of V i] Suc.prems(1,2) by (auto simp: okay_iff)
  ultimately show ?case by (simp add: okay_bind)
qed simp

lemma iup_range_ok':
  "worker_ok n l V \<Longrightarrow> j \<le> n \<Longrightarrow> (\<And>V j. worker_ok n l V \<Longrightarrow> j < n \<Longrightarrow> okay (f V j) (\<lambda>_. True)) \<Longrightarrow>
     okay (iup_range f (j - i) i V) (worker_ok n l)"
  by (cases "i \<le> j") (auto intro: iup_range_ok)

lemma iup_shift_ok:
  assumes "worker_ok n l V" "p < n" "p2 < n"
  shows "okay (iup_worker_shift p1 p2 p V) (worker_ok n l)"
proof -
  have f: "okay (map_option (\<lambda>c. ADD_LONG c dx) (iup_cur V j)) (\<lambda>_. True)" if "worker_ok n l V" "j < n" for V j dx
    using that by (auto simp: okay_map_option intro: okay_iup)
  have "p2 - p = p2 + 1 - (p + 1)" by simp
  then show ?thesis unfolding iup_worker_shift_def Let_def using assms f
    by (auto simp: okay_bind intro!: okay_iup okay_mono [OF iup_range_ok'] iup_range_ok' [of n l _ "p2 + 1" _ "p + 1", simplified])
qed

lemma iup_interpolate_ok:
  assumes "worker_ok n l V" "p2 < n"
  shows "okay (iup_worker_interpolate p1 p2 ref1 ref2 V) (worker_ok n l)"
proof -
  have m: "iup_max_points V = n" using assms(1) by (simp add: worker_ok_def)
  show ?thesis unfolding iup_worker_interpolate_def Let_def m
    using assms
    by (intro okay_bindI okay_if okay_Some okay_prod okay_iup iup_range_ok')
      (auto simp: okay_map_option intro: okay_iup split: if_splits option.split)
qed

lemma next_touched_ok:
  "k = 0 \<or> p + k \<le> length tags \<Longrightarrow> okay (next_touched tags m k p) (\<lambda>q. p \<le> q \<and> q \<le> p + k)"
proof (induction k arbitrary: p)
  case (Suc k)
  then have "okay (next_touched tags m k (p + 1)) (\<lambda>q. p \<le> q \<and> q \<le> p + Suc k)"
    by (intro okay_mono [OF Suc.IH]) auto
  then show ?case using Suc.prems by (simp add: okay_bind okay_get_at)
qed simp

lemma iup_segments_ok:
  assumes "worker_ok n l V" "p + k \<le> n" "n \<le> length tags" "c < p"
  shows "okay (iup_segments tags m k p c V) (\<lambda>(c', V). c' < p + k \<and> worker_ok n l V)"
  using assms
proof (induction k arbitrary: p c V)
  case (Suc k)
  have r: "okay (iup_segments tags m k (p + 1) c' V') (\<lambda>(c', V). c' < p + Suc k \<and> worker_ok n l V)"
    if "c' < p + 1" "worker_ok n l V'" for c' V'
    using Suc.IH [OF that(2) _ Suc.prems(3) that(1)] Suc.prems(2) by simp
  have "okay (iup_worker_interpolate (c + 1) (p - 1) c p V)
      (\<lambda>V'. okay (iup_segments tags m k (p + 1) p V') (\<lambda>(c', V). c' < p + Suc k \<and> worker_ok n l V))"
    by (rule okay_mono [OF iup_interpolate_ok [OF Suc.prems(1)]]) (use Suc.prems r in auto)
  then show ?case using Suc.prems r [of c V] by (simp add: okay_bind okay_get_at)
qed simp

lemma iup_contour_ok:
  assumes "worker_ok n l V" "e < n" "n \<le> length tags"
  shows "okay (iup_contour tags m first e V) (\<lambda>(p, V). worker_ok n l V)"
proof -
  have t: "okay (next_touched tags m (e + 1 - first) first) (\<lambda>q. True)"
    by (rule okay_mono [OF next_touched_ok]) (use assms in auto)
  have s: "okay (iup_segments tags m (e - p) (p + 1) p V) (\<lambda>(c', V). c' < n \<and> worker_ok n l V)" if "p \<le> e" for p
    by (rule okay_mono [OF iup_segments_ok [OF assms(1)]]) (use assms that in auto)
  have rest: "okay (if c = p then iup_worker_shift first e c V'
      else iup_worker_interpolate ((c + 1) mod 65536) e c p V' \<bind>
        (\<lambda>V. if p > 0 then iup_worker_interpolate first (p - 1) c p V else Some V)) (worker_ok n l)"
    if "worker_ok n l V'" "c < n" "p \<le> e" for c p V'
    using that assms
    by (auto simp: okay_bind intro!: iup_shift_ok okay_mono [OF iup_interpolate_ok] iup_interpolate_ok)
  show ?thesis unfolding iup_contour_def Let_def
    by (intro okay_bindI okay_mono [OF t] okay_if okay_mono [OF s] okay_prod okay_mono [OF rest]) (use assms in auto)
qed

lemma iup_contours_ok:
  assumes "worker_ok n l V" "n = zn_n_points pts" "0 < n" "n \<le> length (zn_tags pts)"
    "c + k = length (zn_contours pts)" "0 < k" "length (zn_contours pts) < 32768" "n < 65536"
  shows "okay (iup_contours pts m k (int c) p V) (worker_ok n l)"
  using assms
proof (induction k arbitrary: c p V)
  case (Suc k)
  have s: "s16i (int c + 1) = int (c + 1)" using Suc.prems by (simp add: s16i_def)
  have u: "nat (u32i (int n - 1)) < n" using Suc.prems(3,8) by (simp add: u32i_id nat_less_iff)
  have "okay (if int (c + 1) < int (length (zn_contours pts)) then iup_contours pts m k (int (c + 1)) p V else Some V) (worker_ok n l)"
    if "worker_ok n l V" for p V
  proof (cases "c + 1 < length (zn_contours pts)")
    case True
    then show ?thesis using Suc.IH [of V "c + 1" p] Suc.prems that by simp
  qed (use that in simp)
  then have step: "okay (iup_contour (zn_tags pts) m p e V) (\<lambda>(p, V). okay (if int (c + 1) < int (length (zn_contours pts))
      then iup_contours pts m k (int (c + 1)) p V else Some V) (worker_ok n l))" if "e < n" for e
    using Suc.prems that by (intro okay_mono [OF iup_contour_ok]) auto
  then show ?case unfolding iup_contours.simps s Let_def
    using Suc.prems u by (auto simp: okay_bind okay_get_at not_le intro!: okay_mono [OF step])
qed simp

lemma Ins_IUP_live:
  assumes "live S exc"
  shows "okay (Ins_IUP exc) (live S)"
proof -
  let ?pts = "exc_pts exc"
  have z: "zone_ok ?pts" using live_zone [OF assms, of Pts] by (simp add: zone_def)
  have r: "live S (e\<lparr>exc_pts := (exc_pts e)\<lparr>zn_cur := c\<rparr>\<rparr>)" if "live S e" "length c = length (zn_cur (exc_pts e))" for e c
  proof -
    have "frame (e\<lparr>exc_pts := (exc_pts e)\<lparr>zn_cur := c\<rparr>\<rparr>) = frame e"
      using that(2) by (simp add: frame_def blank_zone_def map_replicate_const)
    then show ?thesis using that(1) live_frame(1) by metis
  qed
  have "okay (iup_contours ?pts m (length (zn_contours ?pts)) (int 0) 0
      \<lparr>iup_x = x, iup_orgs = zn_org ?pts, iup_curs = zn_cur ?pts, iup_orus = zn_orus ?pts, iup_max_points = zn_n_points ?pts\<rparr>)
      (worker_ok (zn_n_points ?pts) (length (zn_cur ?pts)))" if "zn_contours ?pts \<noteq> []" for m x
    by (rule iup_contours_ok) (use z that in \<open>auto simp: zone_ok_def worker_ok_def\<close>)
  then have w: "okay (iup_contours ?pts m (length (zn_contours ?pts)) 0 0
      \<lparr>iup_x = x, iup_orgs = zn_org ?pts, iup_curs = zn_cur ?pts, iup_orus = zn_orus ?pts, iup_max_points = zn_n_points ?pts\<rparr>)
      (\<lambda>V. length (iup_curs V) = length (zn_cur ?pts))" if "zn_contours ?pts \<noteq> []" for m x
    using that by (fastforce simp: worker_ok_def elim: okay_mono)
  have e: "live S (exc\<lparr>exc_backward_compatibility := b, exc_pts := ?pts\<lparr>zn_cur := c\<rparr>\<rparr>)" if "length c = length (zn_cur ?pts)" for b c
    using r [of "exc\<lparr>exc_backward_compatibility := b\<rparr>" c] assms that by simp
  show ?thesis unfolding Ins_IUP_def Let_def using assms w r [OF assms] e
    by (auto simp: okay_bind intro!: okay_mono [OF w])
qed

end
