(* ===== verification/Tt_Run_Safe.thy ===== *)
theory Tt_Run_Safe
  imports Tt_Flow_Safe Tt_Move_Safe
begin

text \<open>
  The interpreter stays inside its arrays: every instruction of the table, the loop \<open>TT_RunIns\<close>, and
  \<open>TT_Run_Context\<close> return, and keep the invariant of the context.
\<close>

section \<open>Dispatching\<close>

text \<open>The stack effects that the instructions rely on.\<close>

lemma stack_effects:
  "list_all (\<lambda>(op, n). pop_count op = n) [
    (0x06, 2), (0x07, 2), (0x08, 2), (0x09, 2), (0x0A, 2),
    (0x0B, 2), (0x0F, 5), (0x10, 1), (0x11, 1), (0x12, 1),
    (0x13, 1), (0x14, 1), (0x15, 1), (0x16, 1), (0x17, 1),
    (0x1A, 1), (0x1C, 1), (0x1D, 1), (0x1E, 1), (0x1F, 1),
    (0x20, 1), (0x21, 1), (0x23, 2), (0x25, 1), (0x26, 1),
    (0x27, 2), (0x29, 1), (0x2A, 2), (0x2B, 1), (0x2C, 1),
    (0x2E, 1), (0x2F, 1), (0x34, 1), (0x35, 1), (0x36, 1),
    (0x37, 1), (0x38, 1), (0x3A, 2), (0x3B, 2), (0x3E, 2),
    (0x3F, 2), (0x42, 2), (0x43, 1), (0x44, 2), (0x45, 1),
    (0x46, 1), (0x47, 1), (0x48, 2), (0x49, 2), (0x4A, 2),
    (0x4F, 1), (0x50, 2), (0x51, 2), (0x52, 2), (0x53, 2),
    (0x54, 2), (0x55, 2), (0x56, 1), (0x57, 1), (0x58, 1),
    (0x5A, 2), (0x5B, 2), (0x5C, 1), (0x5D, 1), (0x5E, 1),
    (0x5F, 1), (0x60, 2), (0x61, 2), (0x62, 2), (0x63, 2),
    (0x64, 1), (0x65, 1), (0x66, 1), (0x67, 1), (0x68, 1),
    (0x69, 1), (0x6A, 1), (0x6B, 1), (0x6C, 1), (0x6D, 1),
    (0x6E, 1), (0x6F, 1), (0x70, 2), (0x71, 1), (0x72, 1),
    (0x73, 1), (0x74, 1), (0x75, 1), (0x76, 1), (0x77, 1),
    (0x78, 2), (0x79, 2), (0x7E, 1), (0x7F, 1), (0x81, 2),
    (0x82, 2), (0x85, 1), (0x86, 2), (0x87, 2), (0x88, 1),
    (0x89, 1), (0x8A, 3), (0x8B, 2), (0x8C, 2), (0x8D, 1),
    (0x8E, 2),
    (0x40, 0), (0x41, 0), (0x91, 0)]"
  "list_all (\<lambda>(op, n). push_count op = n) [
    (0x32, 0), (0x33, 0), (0x38, 0), (0x39, 0), (0x3C, 0),
    (0x5D, 0), (0x71, 0), (0x72, 0), (0x73, 0), (0x74, 0),
    (0x75, 0), (0x80, 0), (0x40, 0), (0x41, 0), (0x91, 0),
    (0x0C, 2), (0x0D, 2), (0x20, 2), (0x23, 2), (0x24, 1),
    (0x4B, 1), (0x4C, 1), (0x92, 1)]"
  by code_simp+

lemma pop_count_range: "list_all (\<lambda>op. 1 \<le> pop_count op) [0xC0..<256] \<and> list_all (\<lambda>op. pop_count op = 2) [0xE0..<256]"
  by code_simp

lemma pop_count_high: "0xC0 \<le> op \<Longrightarrow> op < 256 \<Longrightarrow> 1 \<le> pop_count op" "0xE0 \<le> op \<Longrightarrow> op < 256 \<Longrightarrow> pop_count op = 2"
proof -
  assume "0xC0 \<le> op" "op < 256"
  then have "op \<in> set [0xC0..<256]" by (simp only: set_upt atLeastLessThan_iff)
  then show "1 \<le> pop_count op" using pop_count_range unfolding list_all_iff by blast
next
  assume "0xE0 \<le> op" "op < 256"
  then have "op \<in> set [0xE0..<256]" by (simp only: set_upt atLeastLessThan_iff)
  then show "pop_count op = 2" using pop_count_range unfolding list_all_iff by blast
qed

lemma same_finishedI: "okay m (same exc) \<Longrightarrow> live S exc \<Longrightarrow> okay m (finished S)"
  by (erule okay_mono) (auto dest: sameD intro: live_finished)

lemma live_finishedI: "okay m (live S) \<Longrightarrow> okay m (finished S)"
  by (erule okay_mono) (rule live_finished)

lemmas instructions_same = unary_same binary_same push_same value_same two_same write_same Ins_WS_same Ins_ROLL_same
  Ins_MINDEX_same measure_same Ins_MD_same Ins_SCFS_same flip_range_instructions Ins_UTP_same Ins_SHC_same Ins_SHZ_same
  Ins_ALIGNPTS_same Ins_ISECT_same

lemmas instructions_live = vector_live Ins_SDPVTL_live axis_live state_live Ins_SLOOP_live Ins_SDS_live flip_live
  round_live super_live Ins_SCANCTRL_live Ins_INSTCTRL_live Ins_FLIPPT_live Ins_SHP_live Ins_SHPIX_live Ins_MSIRP_live
  Ins_MDAP_live Ins_MIAP_live Ins_MDRP_live Ins_MIRP_live Ins_ALIGNRP_live Ins_IP_live delta_live Ins_IUP_live

lemmas instructions_finished = instructions_same [THEN same_finishedI] instructions_live [THEN live_finishedI]
  if_finished else_finished Ins_FDEF_finished Ins_IDEF_finished Ins_JMPR_finished jump_if_finished Ins_ENDF_finished
  Ins_CALL_finished Ins_LOOPCALL_finished Ins_UNKNOWN_finished push_finished npush_finished Ins_GETVARIATION_finished
  Ins_CLEAR_finished

lemma okay_else: "(b \<Longrightarrow> okay m P) \<Longrightarrow> okay n P \<Longrightarrow> okay (if b then m else n) P"
  by simp

lemma dispatch_finished:
  assumes "live S exc" "op < 256" "exc_args exc + pop_count op \<le> length (exc_stack exc)" "exc_args exc + push_count op \<le> length (exc_stack exc)"
    "exc_args exc \<le> exc_top exc" "exc_new_top exc = exc_args exc + push_count op"
    "pop_count op = 0 \<Longrightarrow> exc_args exc = exc_top exc"
  shows "okay (dispatch op exc) (finished S)"
  unfolding dispatch_def unary_instructions binary_instructions Ins_DEBUG_def
  using assms pop_count_high [of op]
  by (intro okay_else)
    (auto simp: stack_effects [simplified] intro!: instructions_finished okay_case_option okay_prod live_finished_fail live_finished)

section \<open>The loop\<close>

definition at_start :: "exec_shape \<Rightarrow> TT_ExecContext \<Rightarrow> bool" where
  "at_start S exc \<longleftrightarrow> exec_ok S exc \<and> 0 \<le> exc_IP exc \<and> exc_IP exc < int (length (exc_code exc))"

lemma pop_count_le: "op < 256 \<Longrightarrow> pop_count op \<le> 5"
proof -
  have "list_all (\<lambda>op. pop_count op \<le> 5) [0..<256]" by code_simp
  moreover assume "op < 256"
  then have "op \<in> set [0..<256]" by (simp only: set_upt atLeastLessThan_iff) simp
  ultimately show ?thesis unfolding list_all_iff by blast
qed

text \<open>An instruction that can run, after \<open>fetch\<close>.\<close>

definition fetched :: "exec_shape \<Rightarrow> TT_ExecContext \<Rightarrow> bool" where
  "fetched S exc \<longleftrightarrow> live S exc \<and> exc_opcode exc < 256 \<and>
     exc_args exc + pop_count (exc_opcode exc) \<le> length (exc_stack exc) \<and>
     exc_args exc + push_count (exc_opcode exc) \<le> length (exc_stack exc) \<and> exc_args exc \<le> exc_top exc \<and>
     exc_new_top exc = exc_args exc + push_count (exc_opcode exc) \<and>
     (pop_count (exc_opcode exc) = 0 \<longrightarrow> exc_args exc = exc_top exc)"

lemma fetch_new_top:
  assumes "exec_ok S e" "0 \<le> exc_IP e" "exc_IP e < int (length (exc_code e))" "exc_length e = 1" "exc_opcode e < 256"
    "exc_args e + pop_count (exc_opcode e) \<le> length (exc_stack e)" "exc_args e \<le> exc_top e"
    "pop_count (exc_opcode e) = 0 \<longrightarrow> exc_args e = exc_top e" "exc_args e + push_count (exc_opcode e) \<le> length (exc_stack e)"
  shows "fetched S (e\<lparr>exc_new_top := exc_args e + push_count (exc_opcode e)\<rparr>)"
  using assms by (simp add: fetched_def live_def exec_ok_def defs_ok_def calls_ok_def)

lemma exec_ok_update [simp]:
  "exec_ok S (exc\<lparr>exc_new_top := n\<rparr>) = exec_ok S exc" "exec_ok S (exc\<lparr>exc_args := n\<rparr>) = exec_ok S exc"
  "exec_ok S (exc\<lparr>exc_error := er, exc_opcode := op, exc_length := l\<rparr>) = exec_ok S exc"
  "exec_ok S (exc\<lparr>exc_error := er\<rparr>) = exec_ok S exc"
  by (simp_all add: exec_ok_def defs_ok_def calls_ok_def def_ref_ok_def cong: def_ref.case_cong)

lemma fetch_ok:
  assumes "at_start S exc"
  shows "okay (fetch exc) (\<lambda>(ready, e). exec_ok S e \<and> (ready \<longrightarrow> fetched S e))"
proof -
  have ok: "exec_ok S exc" "0 \<le> exc_IP exc" "exc_IP exc < int (length (exc_code exc))" using assms by (simp_all add: at_start_def)
  have st: "32 \<le> length (exc_stack exc)" "exc_top exc \<le> length (exc_stack exc)" using ok(1) by (simp_all add: exec_ok_def)
  let ?e = "\<lambda>op. exc\<lparr>exc_error := None, exc_opcode := op, exc_length := 1\<rparr>"
  have zeroes: "okay (set_args 0 (replicate (pop_count op) 0) ((?e op)\<lparr>exc_args := 0\<rparr>))
      (\<lambda>e. exec_ok S e \<and> (exc_args e + push_count op \<le> length (exc_stack e) \<longrightarrow>
        fetched S (e\<lparr>exc_new_top := exc_args e + push_count op\<rparr>)))" if "op < 256" "exc_top exc < pop_count op" for op
  proof (rule okay_set_args)
    show "exc_args ((?e op)\<lparr>exc_args := 0\<rparr>) + 0 + length (replicate (pop_count op) (0 :: int)) \<le> length (exc_stack ((?e op)\<lparr>exc_args := 0\<rparr>))"
      using pop_count_le [OF that(1)] st by simp
  next
    fix e assume s: "same ((?e op)\<lparr>exc_args := 0\<rparr>) e"
    have "exec_ok S e = exec_ok S ((?e op)\<lparr>exc_args := 0\<rparr>)"
      using s exec_ok_frame [of S e] exec_ok_frame [of S "(?e op)\<lparr>exc_args := 0\<rparr>"] by (simp add: same_def)
    then have "exec_ok S e" using ok(1) by simp
    then show "exec_ok S e \<and> (exc_args e + push_count op \<le> length (exc_stack e) \<longrightarrow>
        fetched S (e\<lparr>exc_new_top := exc_args e + push_count op\<rparr>))"
      using fetch_new_top [of S e] sameD [OF s] ok st that pop_count_le [OF that(1)] by simp
  qed
  have enough: "fetched S ((?e op)\<lparr>exc_args := exc_top exc - pop_count op, exc_new_top := exc_top exc + push_count op - pop_count op\<rparr>)"
    if "op < 256" "\<not> exc_top exc < pop_count op" "\<not> length (exc_stack exc) < exc_top exc + push_count op - pop_count op" for op
    using that fetch_new_top [of S "(?e op)\<lparr>exc_args := exc_top exc - pop_count op\<rparr>"] ok st by simp
  show ?thesis unfolding fetch_def Let_def
    using ok
    by (intro okay_bindI okay_code_at okay_if okay_Some)
      (auto intro!: okay_mono [OF zeroes] enough)
qed

lemma suite_ok:
  assumes "exec_ok S exc" "0 \<le> exc_IP exc"
  shows "case suite exc of (r, e) \<Rightarrow> exec_ok S e \<and> (r = Running \<longrightarrow> at_start S e)"
  using assms by (auto simp: suite_def at_start_def)

text \<open>The part after an unknown opcode.\<close>

lemma exec_ok_callStack_above:
  "exec_ok S exc \<Longrightarrow> exec_ok S (exc\<lparr>exc_callStack := (exc_callStack exc)[exc_callTop exc := c], exc_error := er\<rparr>)"
  by (auto simp: exec_ok_def defs_ok_def calls_ok_def def_ref_ok_def split: def_ref.splits)

lemma Ins_Goto_CodeRange_IP:
  assumes "0 \<le> ip" "Ins_Goto_CodeRange r ip exc = Some e" "exc_error e = None"
  shows "0 \<le> exc_IP e"
  using assms by (auto simp: Ins_Goto_CodeRange_def fail_with_def bind_eq_Some_conv split: if_splits option.splits)

lemma redefined_ok:
  assumes "finished S exc"
  shows "okay (redefined exc) (\<lambda>(r, e). exec_ok S e \<and> (r = Running \<longrightarrow> at_start S e))"
proof -
  have ok: "exec_ok S exc" "exc_new_top exc \<le> length (exc_stack exc)" using assms by (simp_all add: finished_def)
  have b: "exc_numIDefs exc \<le> length (exc_IDefs exc)" using ok(1) by (simp add: exec_ok_def defs_ok_def)
  have goto: "okay (Ins_Goto_CodeRange (def_range d) (def_start d) (exc\<lparr>exc_callStack := (exc_callStack exc)[exc_callTop exc := c], exc_error := None\<rparr>))
      (\<lambda>e'. exec_ok S e' \<and> (exc_error e' = None \<longrightarrow> (case suite (e'\<lparr>exc_error := er\<rparr>) of (r, e) \<Rightarrow> exec_ok S e \<and> (r = Running \<longrightarrow> at_start S e))))"
    if start: "0 \<le> def_start d" for d c er
  proof -
    let ?e = "exc\<lparr>exc_callStack := (exc_callStack exc)[exc_callTop exc := c], exc_error := None\<rparr>"
    obtain e' where e': "Ins_Goto_CodeRange (def_range d) (def_start d) ?e = Some e'" "finished S e'"
      using Ins_Goto_CodeRange_finished [of S ?e "def_start d" "def_range d"] exec_ok_callStack_above [OF ok(1), where c = c and er = None] ok(2) start
      by (auto simp: okay_iff)
    then have "exec_ok S e'" by (simp add: finished_def)
    moreover have "0 \<le> exc_IP e'" if "exc_error e' = None"
      using Ins_Goto_CodeRange_IP [OF start e'(1) that] .
    ultimately show ?thesis using suite_ok [of S "e'\<lparr>exc_error := er\<rparr>"] e'(1) by simp
  qed
  have st: "0 \<le> def_start (exc_IDefs exc ! i)" if "i < length (exc_IDefs exc)" for i
    using exec_ok_IDef_start [OF ok(1) that] .
  show ?thesis unfolding redefined_def Let_def
    using ok b st
    by (intro okay_bindI okay_def_find okay_if okay_Some)
      (auto simp: okay_bind okay_rules intro!: okay_mono [OF goto [of _ _ "exc_error exc"]])
qed

lemma run_step_ok:
  assumes "at_start S exc"
  shows "okay (run_step exc) (\<lambda>(r, e). exec_ok S e \<and> (r = Running \<longrightarrow> at_start S e))"
proof -
  have d: "okay (dispatch (exc_opcode e) e) (\<lambda>e. okay (case exc_error e of Some Invalid_Opcode \<Rightarrow> redefined e
        | Some er \<Rightarrow> Some (Returned (Some er), e)
        | None \<Rightarrow> Some (suite (e\<lparr>exc_top := exc_new_top e, exc_IP := exc_IP e + exc_length e\<rparr>)))
      (\<lambda>(r, e). exec_ok S e \<and> (r = Running \<longrightarrow> at_start S e)))" if "fetched S e" for e
  proof (rule okay_mono [OF dispatch_finished])
    fix e' assume f: "finished S e'"
    have "exec_ok S (e'\<lparr>exc_top := exc_new_top e', exc_IP := exc_IP e' + exc_length e'\<rparr>)"
      using f by (simp add: finished_def exec_ok_def defs_ok_def calls_ok_def def_ref_ok_def cong: def_ref.case_cong)
    then have s: "case suite (e'\<lparr>exc_top := exc_new_top e', exc_IP := exc_IP e' + exc_length e'\<rparr>) of
        (r, e) \<Rightarrow> exec_ok S e \<and> (r = Running \<longrightarrow> at_start S e)" if "exc_error e' = None"
      using f that by (intro suite_ok) (simp_all add: finished_def)
    show "okay (case exc_error e' of Some Invalid_Opcode \<Rightarrow> redefined e' | Some er \<Rightarrow> Some (Returned (Some er), e')
        | None \<Rightarrow> Some (suite (e'\<lparr>exc_top := exc_new_top e', exc_IP := exc_IP e' + exc_length e'\<rparr>)))
      (\<lambda>(r, e). exec_ok S e \<and> (r = Running \<longrightarrow> at_start S e))"
      using redefined_ok [OF f] s f by (auto simp: finished_def split: option.split ft_error.split)
  qed (use that in \<open>simp_all add: fetched_def\<close>)
  show ?thesis unfolding run_step_def
    by (intro okay_bindI okay_mono [OF fetch_ok [OF assms]]) (auto intro!: okay_bindI d)
qed

lemma run_loop_ok: "at_start S exc \<Longrightarrow> okay (run_loop k exc) (\<lambda>(err, e). exec_ok S e)"
proof (induction k arbitrary: exc)
  case (Suc k)
  show ?case unfolding run_loop.simps
    by (intro okay_bindI okay_mono [OF run_step_ok [OF Suc.prems]])
      (auto split: run_outcome.split intro: Suc.IH)
qed (simp add: at_start_def)

section \<open>Running a context\<close>

text \<open>What \<open>TT_Run_Context\<close> needs of the context, the rest of which it sets up, and of the size.\<close>

definition runnable :: "TT_SizeRec \<Rightarrow> TT_ExecContext \<Rightarrow> bool" where
  "runnable s exc \<longleftrightarrow> env_ok (exc_env exc) \<and> 32 \<le> length (exc_stack exc) \<and> zone_ok (exc_pts exc) \<and>
     zone_ok (exc_twilight exc) \<and> zn_contours (exc_twilight exc) = [] \<and> gs_ok (sz_GS s) \<and> defs_ok exc"

lemma zone_ok_fewer: "zone_ok z \<Longrightarrow> zn_contours z = [] \<Longrightarrow> n \<le> zn_n_points z \<Longrightarrow> zone_ok (z\<lparr>zn_n_points := n\<rparr>)"
  by (simp add: zone_ok_def)

lemma limit_twilight_cases:
  obtains "limit_twilight exc = exc"
  | n where "n \<le> zn_n_points (exc_twilight exc)" "limit_twilight exc = exc\<lparr>exc_twilight := (exc_twilight exc)\<lparr>zn_n_points := n\<rparr>\<rparr>"
proof -
  define n where "n = max 30 (2 * (zn_n_points (exc_pts exc) + length (exc_size_cvt exc)))"
  have "limit_twilight exc = (if zn_n_points (exc_twilight exc) > n
      then exc\<lparr>exc_twilight := (exc_twilight exc)\<lparr>zn_n_points := if n > 0xFFFF then 0xFFFF else n\<rparr>\<rparr> else exc)"
    by (simp add: limit_twilight_def n_def Let_def)
  then show thesis
    using that(1) that(2) [of "if n > 0xFFFF then 0xFFFF else n"] by (auto split: if_splits)
qed

text \<open>
  The context with which \<open>TT_Run_Context\<close> calls the interpreter; it may have lowered the number of twilight points.
\<close>

lemma limit_twilight_run:
  assumes "zone_ok (exc_twilight exc)" "zn_contours (exc_twilight exc) = []"
  obtains n where "limit_twilight exc = exc\<lparr>exc_twilight := (exc_twilight exc)\<lparr>zn_n_points := n\<rparr>\<rparr>"
    "n \<le> zn_n_points (exc_twilight exc)" "zone_ok ((exc_twilight exc)\<lparr>zn_n_points := n\<rparr>)"
proof (cases rule: limit_twilight_cases [of exc])
  case 1
  then show ?thesis using that [of "zn_n_points (exc_twilight exc)"] assms(1) by simp
next
  case (2 n)
  then show ?thesis using that [of n] zone_ok_fewer [OF assms 2(1)] by blast
qed

lemma TT_Run_Context_start:
  assumes "runnable s exc" "0 \<le> exc_IP exc" "exc_IP exc < int (length (exc_code exc))"
  shows "\<exists>e n. TT_Run_Context s exc = TT_RunIns e \<and> n \<le> zn_n_points (exc_twilight exc) \<and>
    at_start (Shape (zone_shape (exc_pts exc)) (zone_shape ((exc_twilight exc)\<lparr>zn_n_points := n\<rparr>))) e"
proof -
  let ?z = "exc\<lparr>exc_zp0 := Pts, exc_zp1 := Pts, exc_zp2 := Pts\<rparr>"
  obtain n where n: "limit_twilight ?z = ?z\<lparr>exc_twilight := (exc_twilight exc)\<lparr>zn_n_points := n\<rparr>\<rparr>"
    "n \<le> zn_n_points (exc_twilight exc)" "zone_ok ((exc_twilight exc)\<lparr>zn_n_points := n\<rparr>)"
    using limit_twilight_run [of ?z] assms(1) by (auto simp: runnable_def)
  let ?e = "?z\<lparr>exc_twilight := (exc_twilight exc)\<lparr>zn_n_points := n\<rparr>\<rparr>"
  show ?thesis
  proof (intro exI conjI)
    show "TT_Run_Context s exc = TT_RunIns (set_env (\<lambda>e. e\<lparr>fe_instruction_trap := False\<rparr>)
       (Compute_Funcs (?e\<lparr>exc_loopcall_counter := 0, exc_neg_jump_counter := 0,
                    exc_loopcall_counter_max := loop_limit ?e, exc_neg_jump_counter_max := loop_limit ?e,
                    exc_stretched_funcs := (fe_x_ppem (exc_env exc) \<noteq> fe_y_ppem (exc_env exc)),
                    exc_GS := sz_GS s, exc_func_round := RF_To_Grid\<rparr>)
        \<lparr>exc_backward_compatibility := nat (int (exc_backward_compatibility exc) AND NOT 3),
                exc_top := 0, exc_callTop := 0\<rparr>))"
      unfolding TT_Run_Context_def Let_def n(1) by (simp add: Compute_Funcs_def Let_def loop_limit_def)
  qed (use assms n(2,3) in \<open>simp_all add: runnable_def at_start_def exec_ok_def defs_ok_def calls_ok_def set_env_def env_ok_def Compute_Funcs_def Let_def\<close>)
qed

text \<open>A program that is set and run.\<close>

lemma run_program:
  assumes "runnable s exc" "base \<noteq> []" "1 \<le> r" "r \<le> 3"
  shows "\<exists>e err e' n. TT_Set_CodeRange r base exc = Some e \<and> TT_Run_Context s e = Some (err, e') \<and> n \<le> zn_n_points (exc_twilight exc) \<and>
    exec_ok (Shape (zone_shape (exc_pts exc)) (zone_shape ((exc_twilight exc)\<lparr>zn_n_points := n\<rparr>))) e'"
proof -
  let ?t = "(fe_codeRangeTable (exc_env exc))[r - 1 := Some base]"
  let ?e = "set_env (\<lambda>e. e\<lparr>fe_codeRangeTable := ?t, fe_iniRange := coderange_tag r\<rparr>)
      (exc\<lparr>exc_code := base, exc_IP := 0, exc_curRange := r\<rparr>)"
  have "TT_Set_CodeRange r base exc = Some ?e"
    using assms by (simp add: TT_Set_CodeRange_def put_at_def runnable_def env_ok_def)
  moreover have "runnable s ?e"
    using assms(1) by (simp add: runnable_def set_env_def env_ok_def defs_ok_def)
  then obtain e' n where "TT_Run_Context s ?e = TT_RunIns e'" "n \<le> zn_n_points (exc_twilight exc)"
    "at_start (Shape (zone_shape (exc_pts exc)) (zone_shape ((exc_twilight exc)\<lparr>zn_n_points := n\<rparr>))) e'"
    using TT_Run_Context_start [of s ?e] assms(2) by (auto simp: set_env_def)
  ultimately show ?thesis
    using run_loop_ok [of _ e' TT_CONFIG_OPTION_MAX_RUNNABLE_OPCODES] unfolding TT_RunIns_def okay_iff by fastforce
qed

end
