(* ===== verification/Tt_Run_Props.thy ===== *)
theory Tt_Run_Props
  imports Tt_Run_Safe
begin

text \<open>
  The safety of the bytecode interpreter: every program, however malformed, returns without an access
  outside the arrays of the context.
\<close>

text \<open>A small context for concrete runs: a font of two points in one contour, with eight control values.\<close>

definition sample_zone :: TT_GlyphZoneRec where
  "sample_zone = \<lparr>zn_n_points = 2, zn_org = [\<lparr>vx = 0, vy = 0\<rparr>, \<lparr>vx = 100, vy = 70\<rparr>],
     zn_cur = [\<lparr>vx = 0, vy = 0\<rparr>, \<lparr>vx = 100, vy = 70\<rparr>], zn_orus = [\<lparr>vx = 0, vy = 0\<rparr>, \<lparr>vx = 50, vy = 35\<rparr>],
     zn_tags = [1, 1], zn_contours = [1], zn_first_point = 0\<rparr>"

definition sample_twilight :: TT_GlyphZoneRec where
  "sample_twilight = \<lparr>zn_n_points = 1, zn_org = [\<lparr>vx = 0, vy = 0\<rparr>], zn_cur = [\<lparr>vx = 0, vy = 0\<rparr>],
     zn_orus = [\<lparr>vx = 0, vy = 0\<rparr>], zn_tags = [0], zn_contours = [], zn_first_point = 0\<rparr>"

definition sample_env :: "bytes \<Rightarrow> TT_ExecEnv" where
  "sample_env code = \<lparr>fe_interpreter_version = 40, fe_num_glyphs = 10, fe_blend = None, fe_x_scale = 0x20000, fe_y_scale = 0x20000,
     fe_x_ppem = 12, fe_y_ppem = 12, fe_pointSize = 768, fe_pedantic_hinting = False, fe_is_composite = False, fe_grayscale = True,
     fe_mode = FT_RENDER_MODE_NORMAL, fe_iniRange = tt_coderange_glyph, fe_codeRangeTable = [None, None, Some code],
     fe_maxFDefs = 2, fe_maxIDefs = 0, fe_instruction_trap = False, fe_grant_cvt = True, fe_grant_storage = True\<rparr>"

definition sample_context :: "bytes \<Rightarrow> TT_ExecContext" where
  "sample_context code = \<lparr>exc_env = sample_env code, exc_error = None, exc_top = 0, exc_stack = replicate 40 0, exc_args = 0,
     exc_new_top = 0, exc_zp0 = Pts, exc_zp1 = Pts, exc_zp2 = Pts, exc_pts = sample_zone, exc_twilight = sample_twilight,
     exc_tt_metrics = \<lparr>tm_x_ratio = 0x10000, tm_y_ratio = 0x10000, tm_ratio = 0, tm_scale = 0x20000, tm_ppem = 12,
       tm_rotated = False, tm_stretched = False\<rparr>,
     exc_GS = tt_default_graphics_state, exc_curRange = 3, exc_code = code, exc_IP = 0, exc_opcode = 0, exc_length = 1,
     exc_size_cvt = [0, 64, 128, 192, 256, 320, 384, 448], exc_glyfCvt = None,
     exc_FDefs = replicate 2 \<lparr>def_range = 0, def_start = 0, def_end = 0, def_opc = 0, def_active = False\<rparr>, exc_IDefs = [],
     exc_numFDefs = 0, exc_numIDefs = 0, exc_maxFunc = 0, exc_maxIns = 0,
     exc_callStack = replicate 4 \<lparr>Caller_Range = 0, Caller_IP = 0, Cur_Count = 0, Def = FDef 0\<rparr>, exc_callTop = 0,
     exc_size_storage = [0, 0, 0], exc_glyfStorage = None, exc_period = 64, exc_phase = 0, exc_threshold = 0,
     exc_func_round = RF_To_Grid, exc_moveVector = \<lparr>vx = 0x10000, vy = 0\<rparr>, exc_func_project = PF_x, exc_func_dualproj = PF_x,
     exc_func_move = MF_X, exc_stretched_funcs = False, exc_backward_compatibility = 0, exc_loopcall_counter = 0,
     exc_loopcall_counter_max = 300, exc_neg_jump_counter = 0, exc_neg_jump_counter_max = 300\<rparr>"

definition sample_size :: TT_SizeRec where
  "sample_size = \<lparr>sz_point_size = 768, sz_ttmetrics = exc_tt_metrics (sample_context []), sz_x_scale = 0x20000, sz_y_scale = 0x20000,
     sz_x_ppem = 12, sz_y_ppem = 12, sz_twilight = sample_twilight, sz_GS = tt_default_graphics_state\<rparr>"

lemma sample_ok: "exec_ok (shape (sample_context code)) (sample_context code)" "runnable sample_size (sample_context code)"
  by (simp_all add: exec_ok_def runnable_def env_ok_def zone_ok_def gs_ok_def defs_ok_def calls_ok_def sample_context_def sample_env_def
      sample_zone_def sample_twilight_def sample_size_def tt_default_graphics_state_def)

text \<open>
  A glyph program that writes a control value gets its own copy of the control values of the size
  with \<open>WCVTP\<close>, but not with \<open>WCVTF\<close>.
\<close>

lemma WCVTP_WCVTF_glyph_program:
  "let exc = (sample_context [])\<lparr>exc_stack := [1, 100]\<rparr> in
     map_option exc_size_cvt (Ins_WCVTP exc) = Some (exc_size_cvt exc) \<and>
     map_option exc_cvt (Ins_WCVTP exc) = Some ((exc_size_cvt exc)[1 := 100]) \<and>
     map_option exc_size_cvt (Ins_WCVTF exc) = Some ((exc_size_cvt exc)[1 := 200])"
  by (simp add: sample_context_def sample_env_def Ins_WCVTP_def Ins_WCVTF_def arg_def get_at_def put_at_def ulong_of_def u64_def
      exc_cvt_def set_cvt_def func_write_cvt_def Write_CVT_def Modify_CVT_Check_def FT_MulFix_eq mul_div_def sign_of_def)

text \<open>
  C3: \<open>TT_RunIns\<close> returns, whatever the bytecode: it makes no access outside the stack, the code, the
  zones, the control values, the storage, the definitions or the call stack, all its loops end, and
  the context it leaves is again in order, with zones of the same shape \<open>S\<close>: the same contours, the same number of points,
  and room for as many.
\<close>
theorem TT_RunIns_safe:
  assumes "exec_ok S exc" "0 \<le> exc_IP exc" "exc_IP exc < int (length (exc_code exc))"
  shows "\<exists>err exc'. TT_RunIns exc = Some (err, exc') \<and> exec_ok S exc'"
  using run_loop_ok [of S exc TT_CONFIG_OPTION_MAX_RUNNABLE_OPCODES] assms
  by (auto simp: TT_RunIns_def at_start_def okay_iff)

lemma TT_RunIns_safe_witness:
  "\<exists>err exc'. TT_RunIns (sample_context [0x1C, 0x2B, 0x30, 0xFF]) = Some (err, exc') \<and>
     exec_ok (shape (sample_context [0x1C, 0x2B, 0x30, 0xFF])) exc'"
  by (rule TT_RunIns_safe) (simp_all add: sample_ok, simp_all add: sample_context_def)

text \<open>
  C4: Setting one of the three code ranges to a program that is not empty, and running it with
  \<open>TT_Run_Context\<close>, returns; the context is in order afterwards, the zone of the glyph has the same shape, and that of the
  twilight zone differs in the number of points at most, which may be lower. Of the context before only the
  arrays and the definitions have to be in order: stack, calls and graphics state are reset.
\<close>
theorem TT_Run_Context_safe:
  assumes "runnable s exc" "base \<noteq> []" "1 \<le> r" "r \<le> 3"
  shows "\<exists>e err e' n. TT_Set_CodeRange r base exc = Some e \<and> TT_Run_Context s e = Some (err, e') \<and> n \<le> zn_n_points (exc_twilight exc) \<and>
    exec_ok (Shape (zone_shape (exc_pts exc)) (zone_shape ((exc_twilight exc)\<lparr>zn_n_points := n\<rparr>))) e'"
  using assms by (rule run_program)

lemma TT_Run_Context_safe_witness:
  "\<exists>e err e' n. TT_Set_CodeRange 3 [0xB0, 1, 0x2B] (sample_context []) = Some e \<and> TT_Run_Context sample_size e = Some (err, e') \<and>
     n \<le> zn_n_points (exc_twilight (sample_context [])) \<and>
     exec_ok (Shape (zone_shape (exc_pts (sample_context []))) (zone_shape ((exc_twilight (sample_context []))\<lparr>zn_n_points := n\<rparr>))) e'"
  by (rule TT_Run_Context_safe) (simp_all add: sample_ok)

end
