(* ===== verification/Tt_Round.thy ===== *)
theory Tt_Round
  imports Tt_Run_Props
begin

text \<open>
  What the rounding functions of the bytecode interpreter promise, and that the short cuts which
  \<open>Compute_Funcs\<close> selects for the axes agree with the general functions.
\<close>

section \<open>Rounding\<close>

lemma pix_floor: "FT_PIX_FLOOR x = x - x mod 64"
  using and_not_mask [of x 6] by (simp add: FT_PIX_FLOOR_def mask_eq_exp_minus_1)

lemma pad_round_32: "FT_PAD_ROUND_LONG_32 x = ADD_LONG x 16 - ADD_LONG x 16 mod 32"
  using and_not_mask [of "ADD_LONG x 16" 5] by (simp add: FT_PAD_ROUND_LONG_32_def mask_eq_exp_minus_1)

text \<open>Sums, differences and negations of distances do not wrap.\<close>

lemma s64_small: "abs x \<le> 9223372036854775807 \<Longrightarrow> s64 x = x"
  by (rule s64_id) linarith+

lemma long_small:
  assumes "abs a \<le> 4611686018427388000" "abs b \<le> 4611686018427387000"
  shows "ADD_LONG a b = a + b" "SUB_LONG a b = a - b" "SUB_LONG b a = b - a" "NEG_LONG a = - a"
proof -
  have "abs (a + b) \<le> 9223372036854775807" "abs (a - b) \<le> 9223372036854775807" "abs (b - a) \<le> 9223372036854775807"
    "abs (- a) \<le> 9223372036854775807" using assms by linarith+
  then show "ADD_LONG a b = a + b" "SUB_LONG a b = a - b" "SUB_LONG b a = b - a" "NEG_LONG a = - a"
    using s64_u64(3) [of 0 a] s64_u64(3) [of a b] s64_u64(3) [of b a]
    by (simp_all add: ADD_LONG_eq SUB_LONG_def NEG_LONG_def s64_small u64_def [of 0])
qed

lemma dvd_floor: "k dvd x - x mod k" for x k :: int
  by (simp add: minus_mod_eq_mult_div)

text \<open>Rounding the distance without its sign by \<open>floor\<close> to a multiple of \<open>k\<close>, and putting the sign back.\<close>

definition round_abs :: "int \<Rightarrow> int \<Rightarrow> int \<Rightarrow> int \<Rightarrow> int" where
  "round_abs k a c d = (let v = abs d + a in (if 0 \<le> d then 1 else -1) * (v - v mod k + c))"

lemma round_abs_bounds:
  assumes "0 < k" "0 \<le> a" "0 \<le> c"
  shows "abs (round_abs k a c d) \<le> abs d + a + c" "abs d + a + c < abs (round_abs k a c d) + k"
    "if 0 \<le> d then 0 \<le> round_abs k a c d else round_abs k a c d \<le> 0" "k dvd abs (round_abs k a c d) - c"
proof -
  define v X where "v = abs d + a" and "X = v - v mod k + c"
  have X: "0 \<le> X" using zmod_le_nonneg_dividend [of v k] assms by (simp add: v_def X_def)
  have r: "round_abs k a c d = (if 0 \<le> d then X else - X)" by (simp add: round_abs_def Let_def X_def v_def)
  have a: "abs (round_abs k a c d) = X" unfolding r using X by simp
  show "abs (round_abs k a c d) \<le> abs d + a + c" "abs d + a + c < abs (round_abs k a c d) + k"
    unfolding a X_def using pos_mod_bound [OF assms(1), of v] pos_mod_sign [OF assms(1), of v] v_def by linarith+
  show "if 0 \<le> d then 0 \<le> round_abs k a c d else round_abs k a c d \<le> 0" unfolding r using X by simp
  show "k dvd abs (round_abs k a c d) - c" unfolding a X_def using dvd_floor [of k v] by simp
qed

lemma keep_val:
  "0 \<le> w \<Longrightarrow> (if w < 0 then z else w) = w"
  "0 \<le> w \<Longrightarrow> abs w \<le> 4611686018427388000 \<Longrightarrow> (if NEG_LONG w > 0 then z else NEG_LONG w) = - w" for w z :: int
  by (simp_all add: long_small(4) [of w 0])

text \<open>The steps of the functions on a number that is not negative.\<close>

lemma floor_steps:
  assumes "0 \<le> v" "v \<le> 4611686018427387800"
  shows "ADD_LONG v 0 = v" "ADD_LONG v 16 = v + 16" "ADD_LONG v 32 = v + 32" "ADD_LONG v 63 = v + 63"
    "SUB_LONG 0 (- v) = v" "ADD_LONG (v - v mod 64) 32 = v - v mod 64 + 32"
proof -
  have "0 \<le> v - v mod 64" "v - v mod 64 \<le> v" using zmod_le_nonneg_dividend [of v 64] assms pos_mod_sign [of 64 v] by linarith+
  then have "abs (v - v mod 64) \<le> 4611686018427388000" using assms by linarith
  then show "ADD_LONG (v - v mod 64) 32 = v - v mod 64 + 32" by (rule long_small) simp
  have "abs v \<le> 4611686018427388000" using assms by simp
  then show "ADD_LONG v 0 = v" "ADD_LONG v 16 = v + 16" "ADD_LONG v 32 = v + 32" "ADD_LONG v 63 = v + 63"
    by (simp_all add: long_small)
  show "SUB_LONG 0 (- v) = v" using long_small(3) [of "- v" 0] assms by simp
qed

lemma floor_range:
  fixes v k :: int
  assumes "0 \<le> v" "v \<le> 4611686018427387900" "0 < k"
  shows "0 \<le> v - v mod k" "abs (v - v mod k) \<le> 4611686018427388000" "0 \<le> v - v mod k + 32" "abs (v - v mod k + 32) \<le> 4611686018427388000"
  using zmod_le_nonneg_dividend [of v k] assms pos_mod_sign [of k v] by linarith+

lemma rounding_by_abs:
  assumes "abs d \<le> 4611686018427387800"
  shows "Round_To_Grid d 0 = round_abs 64 32 0 d" "Round_To_Half_Grid d 0 = round_abs 64 0 32 d"
    "Round_Down_To_Grid d 0 = round_abs 64 0 0 d" "Round_Up_To_Grid d 0 = round_abs 64 63 0 d"
    "Round_To_Double_Grid d 0 = round_abs 32 16 0 d" "Round_None d 0 = d"
proof -
  define v where "v = abs d"
  have v: "0 \<le> v" "v \<le> 4611686018427387800" using assms by (simp_all add: v_def)
  have d: "d = v \<and> 0 \<le> d \<or> d = - v \<and> \<not> 0 \<le> d" by (auto simp: v_def)
  have s: "SUB_LONG d 0 = d" using assms long_small(2) [of d 0] by simp
  have f: "0 \<le> v + a - (v + a) mod k" "abs (v + a - (v + a) mod k) \<le> 4611686018427388000"
    "0 \<le> v - v mod k + 32" "abs (v - v mod k + 32) \<le> 4611686018427388000"
    if "0 \<le> a" "a \<le> 63" "0 < k" for a k
    using floor_range [of "v + a" k] floor_range [of v k] v that by auto
  note r = round_abs_def Let_def FT_PIX_ROUND_LONG_def FT_PIX_CEIL_LONG_def pix_floor pad_round_32 floor_steps [OF v] v_def [symmetric]
  have k: "(0 :: int) < 64" "(0 :: int) < 32" by simp_all
  show "Round_None d 0 = d" using d v by (auto simp: Round_None_def s floor_steps)
  show "Round_To_Grid d 0 = round_abs 64 32 0 d"
    using d f [of 32 64] by (elim disjE conjE) (simp_all add: Round_To_Grid_def r keep_val v(1) del: abs_le_iff)
  show "Round_To_Half_Grid d 0 = round_abs 64 0 32 d"
    using d f [of 0 64] by (elim disjE conjE) (simp_all add: Round_To_Half_Grid_def r keep_val v(1) del: abs_le_iff)
  show "Round_Down_To_Grid d 0 = round_abs 64 0 0 d"
    using d f [of 0 64] by (elim disjE conjE) (simp_all add: Round_Down_To_Grid_def r keep_val v(1) del: abs_le_iff)
  show "Round_Up_To_Grid d 0 = round_abs 64 63 0 d"
    using d f [of 63 64] by (elim disjE conjE) (simp_all add: Round_Up_To_Grid_def r keep_val v(1) del: abs_le_iff)
  show "Round_To_Double_Grid d 0 = round_abs 32 16 0 d"
    using d f [of 16 32] by (elim disjE conjE) (simp_all add: Round_To_Double_Grid_def r keep_val v(1) del: abs_le_iff)
qed

text \<open>A number of the same sign whose absolute value is near is near.\<close>

lemma near_by_abs:
  "(if 0 \<le> d then 0 \<le> r else r \<le> 0) \<Longrightarrow> abs r \<le> abs d + e \<Longrightarrow> abs d \<le> abs r + e \<Longrightarrow> abs (r - d) \<le> e" for r d e :: int
  by (auto split: if_splits)



section \<open>The short cuts for the axes\<close>

lemma top_bit: "abs x < 9223372036854775808 \<Longrightarrow> x div 9223372036854775808 = (if x < 0 then -1 else 0)" for x :: int
  by (auto simp: div_pos_pos_trivial div_pos_neg_trivial)

lemma TT_DotFix14_axis:
  assumes "abs a \<le> 70368744177664"
  shows "TT_DotFix14 a b 0x4000 0 = a" "TT_DotFix14 b a 0 0x4000 = a"
proof -
  have r: "abs (a * 16384) \<le> 1152921504606846976" using assms by (simp add: abs_mult)
  then have s: "s64 (a * 16384) = a * 16384" by (intro s64_small) linarith
  define t where "t = a * 16384 div 9223372036854775808"
  have t: "t = (if a * 16384 < 0 then -1 else 0)" unfolding t_def by (rule top_bit) (use r in linarith)
  then have "abs (a * 16384 + (8192 + t)) \<le> 9223372036854775807" using r by (auto split: if_splits)
  then have c: "s64 (a * 16384 + (8192 + t)) = 8192 + t + a * 16384" by (simp add: s64_small)
  have "(8192 + t + a * 16384) div 16384 = a" unfolding t by (simp split: if_split)
  then show "TT_DotFix14 a b 0x4000 0 = a" "TT_DotFix14 b a 0 0x4000 = a"
    by (simp_all add: TT_DotFix14_def s64_small [of 0] s c Let_def drop_bit_eq_div t_def [symmetric])
qed

lemma FT_MulFix_one:
  assumes "abs a \<le> 70368744177664"
  shows "FT_MulFix a 0x10000 = a"
proof -
  have "abs a * abs 0x10000 + 32768 < 9223372036854775808" using assms by simp
  then have "FT_MulFix a 0x10000 = mul_div a 0x10000 65536" by (rule FT_MulFix_eq)
  also have "\<dots> = a"
    by (auto simp: mul_div_def sign_of_def)
  finally show ?thesis .
qed

text \<open>The context after \<open>Compute_Funcs\<close> with vectors along an axis.\<close>

lemma Compute_Funcs_GS [simp]: "exc_GS (Compute_Funcs exc) = exc_GS exc"
  by (simp add: Compute_Funcs_def Let_def)

lemma Compute_Funcs_x:
  assumes "gs_projVector (exc_GS exc) = \<lparr>vx = 0x4000, vy = 0\<rparr>" "gs_freeVector (exc_GS exc) = \<lparr>vx = 0x4000, vy = 0\<rparr>"
  shows "exc_moveVector (Compute_Funcs exc) = \<lparr>vx = 0x10000, vy = 0\<rparr>" "exc_func_move (Compute_Funcs exc) = MF_X"
    "exc_func_project (Compute_Funcs exc) = PF_x"
  using assms by (simp_all add: Compute_Funcs_def Let_def)

lemma Compute_Funcs_y:
  assumes "gs_projVector (exc_GS exc) = \<lparr>vx = 0, vy = 0x4000\<rparr>" "gs_freeVector (exc_GS exc) = \<lparr>vx = 0, vy = 0x4000\<rparr>"
  shows "exc_moveVector (Compute_Funcs exc) = \<lparr>vx = 0, vy = 0x10000\<rparr>" "exc_func_move (Compute_Funcs exc) = MF_Y"
    "exc_func_project (Compute_Funcs exc) = PF_y"
  using assms by (simp_all add: Compute_Funcs_def Let_def)

lemma Compute_Funcs_dual:
  "exc_func_dualproj (Compute_Funcs exc) =
     (if vx (gs_dualVector (exc_GS exc)) = 0x4000 then PF_x
      else if vy (gs_dualVector (exc_GS exc)) = 0x4000 then PF_y else PF_Dual_Project)"
  by (simp add: Compute_Funcs_def Let_def)

lemma put_zone_moveVector [simp]: "exc_moveVector (put_zone r z e) = exc_moveVector e"
  by (cases r) (simp_all add: put_zone_def)

lemma moveVector_kept:
  "touch r p f e = Some e' \<Longrightarrow> exc_moveVector e' = exc_moveVector e"
  "add_cur_x r p d e = Some e' \<Longrightarrow> exc_moveVector e' = exc_moveVector e"
  by (auto simp: touch_def add_cur_x_def set_ztag_def set_zcur_def bind_eq_Some_conv)

lemma move_short_cuts_x:
  assumes "FT_MulFix d 0x10000 = d" "exc_moveVector e = \<lparr>vx = 0x10000, vy = 0\<rparr>" "exc_func_move e = MF_X"
  shows "func_move r p d e = Direct_Move r p d e" "func_move_orig r p d e = Direct_Move_Orig r p d e"
proof -
  define e1 where "e1 = (if exc_backward_compatibility e = 0 then add_cur_x r p d e else Some e)"
  define m where "m = do { exc \<leftarrow> e1; touch r p FT_CURVE_TAG_TOUCH_X exc }"
  have "exc_moveVector e' = exc_moveVector e" if "m = Some e'" for e'
    using that by (auto simp: m_def e1_def bind_eq_Some_conv moveVector_kept split: if_splits)
  moreover have "Direct_Move r p d e = do { exc \<leftarrow> m; let v = vy (exc_moveVector exc);
     if v \<noteq> 0
     then do {
       exc \<leftarrow> (if exc_backward_compatibility exc \<noteq> 0x7 then add_cur_y r p (FT_MulFix d v) exc else Some exc);
       touch r p FT_CURVE_TAG_TOUCH_Y exc
     }
     else Some exc }"
    using assms by (simp add: Direct_Move_def m_def e1_def)
  ultimately have "Direct_Move r p d e = m" using assms(2) by (cases m) auto
  then show "func_move r p d e = Direct_Move r p d e"
    using assms by (simp add: func_move_def Direct_Move_X_def m_def e1_def)
  have "exc_moveVector e' = exc_moveVector e" if "add_org_x r p d e = Some e'" for e'
    using that by (auto simp: add_org_x_def set_zorg_def bind_eq_Some_conv)
  then show "func_move_orig r p d e = Direct_Move_Orig r p d e"
    using assms by (cases "add_org_x r p d e") (auto simp: func_move_orig_def Direct_Move_Orig_def Direct_Move_Orig_X_def)
qed

lemma move_short_cuts_y:
  assumes "FT_MulFix d 0x10000 = d" "exc_moveVector e = \<lparr>vx = 0, vy = 0x10000\<rparr>" "exc_func_move e = MF_Y"
  shows "func_move r p d e = Direct_Move r p d e" "func_move_orig r p d e = Direct_Move_Orig r p d e"
  using assms by (simp_all add: func_move_def func_move_orig_def Direct_Move_def Direct_Move_Y_def Direct_Move_Orig_def Direct_Move_Orig_Y_def)

text \<open>
  C14: The functions that \<open>Compute_Funcs\<close> selects when the vectors are axes are short cuts of the general
  ones: projecting and moving give the same results as with the general projection and the general
  move along the freedom vector, for coordinates below \<open>2 ^ 46\<close>.
\<close>
theorem Compute_Funcs_short_cuts:
  assumes "gs_projVector (exc_GS exc) \<in> {\<lparr>vx = 0x4000, vy = 0\<rparr>, \<lparr>vx = 0, vy = 0x4000\<rparr>}"
    "gs_dualVector (exc_GS exc) \<in> {\<lparr>vx = 0x4000, vy = 0\<rparr>, \<lparr>vx = 0, vy = 0x4000\<rparr>}"
    "gs_freeVector (exc_GS exc) = gs_projVector (exc_GS exc)"
    "abs x \<le> 70368744177664" "abs y \<le> 70368744177664" "abs d \<le> 70368744177664"
  shows "(let exc = Compute_Funcs exc in
    project_by (exc_func_project exc) exc x y = Project exc x y \<and>
    project_by (exc_func_dualproj exc) exc x y = Dual_Project exc x y \<and>
    exc_func_move exc \<noteq> MF_Any \<and>
    func_move r p d exc = Direct_Move r p d exc \<and> func_move_orig r p d exc = Direct_Move_Orig r p d exc)"
proof -
  let ?e = "Compute_Funcs exc"
  have "exc_moveVector ?e = \<lparr>vx = 0x10000, vy = 0\<rparr> \<and> exc_func_move ?e = MF_X \<or> exc_moveVector ?e = \<lparr>vx = 0, vy = 0x10000\<rparr> \<and> exc_func_move ?e = MF_Y"
    using assms(1,3) Compute_Funcs_x [of exc] Compute_Funcs_y [of exc] by auto
  then have m: "func_move r p d ?e = Direct_Move r p d ?e \<and> func_move_orig r p d ?e = Direct_Move_Orig r p d ?e"
    using FT_MulFix_one [OF assms(6)] by (auto intro: move_short_cuts_x move_short_cuts_y)
  have p: "project_by (exc_func_project ?e) ?e x y = Project ?e x y"
    using assms(1,3) Compute_Funcs_x [of exc] Compute_Funcs_y [of exc] TT_DotFix14_axis(1) [OF assms(4), of y] TT_DotFix14_axis(2) [OF assms(5), of x]
    by (auto simp: project_by_def Project_def Project_x_def Project_y_def)
  have q: "project_by (exc_func_dualproj ?e) ?e x y = Dual_Project ?e x y"
    using assms(2) TT_DotFix14_axis(1) [OF assms(4), of y] TT_DotFix14_axis(2) [OF assms(5), of x]
    by (auto simp: Compute_Funcs_dual project_by_def Dual_Project_def Project_x_def Project_y_def)
  have "exc_func_move ?e \<noteq> MF_Any" using assms(1,3) Compute_Funcs_x [of exc] Compute_Funcs_y [of exc] by auto
  then show ?thesis using m p q by (simp add: Let_def)
qed

lemma Compute_Funcs_short_cuts_witness:
  "let exc = Compute_Funcs (sample_context []) in
    project_by (exc_func_project exc) exc 10 20 = Project exc 10 20 \<and>
    project_by (exc_func_dualproj exc) exc 10 20 = Dual_Project exc 10 20 \<and>
    exc_func_move exc \<noteq> MF_Any \<and>
    func_move Pts 1 30 exc = Direct_Move Pts 1 30 exc \<and> func_move_orig Pts 1 30 exc = Direct_Move_Orig Pts 1 30 exc"
  by (rule Compute_Funcs_short_cuts) (simp_all add: sample_context_def tt_default_graphics_state_def)

end
