(* ===== verification/Tt_Machine.thy ===== *)
theory Tt_Machine
  imports Tt_Run_Props
begin

text \<open>
  The stack machine behind the bytecode interpreter: \<open>effect\<close> and \<open>machine_step\<close> say what the
  instructions for the stack, arithmetic, comparison and logic do to a stack, a list with its top
  first, and the interpreter of \<open>Tt_Run\<close> is shown to implement them.
\<close>

section \<open>The abstract machine\<close>

datatype stack_op = StDUP | StPOP | StCLEAR | StSWAP | StDEPTH | StCINDEX | StMINDEX | StROLL | StDIV
  | StUn "int \<Rightarrow> int" | StBin "int \<Rightarrow> int \<Rightarrow> int"

text \<open>The operations by their opcodes.\<close>

definition stack_ops :: "(nat \<times> stack_op) list" where
  "stack_ops = [
     (0x20, StDUP),
     (0x21, StPOP),
     (0x22, StCLEAR),
     (0x23, StSWAP),
     (0x24, StDEPTH),
     (0x25, StCINDEX),
     (0x26, StMINDEX),
     (0x8A, StROLL),
     (0x50, StBin (\<lambda>a b. if a < b then 1 else 0)),
     (0x51, StBin (\<lambda>a b. if a \<le> b then 1 else 0)),
     (0x52, StBin (\<lambda>a b. if b < a then 1 else 0)),
     (0x53, StBin (\<lambda>a b. if b \<le> a then 1 else 0)),
     (0x54, StBin (\<lambda>a b. if a = b then 1 else 0)),
     (0x55, StBin (\<lambda>a b. if a = b then 0 else 1)),
     (0x5A, StBin (\<lambda>a b. if a = 0 \<or> b = 0 then 0 else 1)),
     (0x5B, StBin (\<lambda>a b. if a = 0 \<and> b = 0 then 0 else 1)),
     (0x5C, StUn (\<lambda>a. if a = 0 then 1 else 0)),
     (0x60, StBin (\<lambda>a b. s64 (a + b))),
     (0x61, StBin (\<lambda>a b. s64 (a - b))),
     (0x62, StDIV),
     (0x63, StBin (\<lambda>a b. FT_MulDiv a b 64)),
     (0x64, StUn (\<lambda>a. if a < 0 then s64 (- a) else a)),
     (0x65, StUn (\<lambda>a. s64 (- a))),
     (0x66, StUn (\<lambda>a. a - a mod 64)),
     (0x67, StUn (\<lambda>a. s64 (a + 63) - s64 (a + 63) mod 64)),
     (0x8B, StBin max),
     (0x8C, StBin min)]"

definition stack_op_of :: "nat \<Rightarrow> stack_op option" where
  "stack_op_of opcode = map_of stack_ops opcode"

fun pops :: "stack_op \<Rightarrow> nat" where
  "pops StDUP = 1" | "pops StPOP = 1" | "pops StCLEAR = 0" | "pops StSWAP = 2" | "pops StDEPTH = 0" | "pops StCINDEX = 1"
| "pops StMINDEX = 1" | "pops StROLL = 3" | "pops StDIV = 2" | "pops (StUn f) = 1" | "pops (StBin f) = 2"

fun pushes :: "stack_op \<Rightarrow> nat" where
  "pushes StDUP = 2" | "pushes StPOP = 0" | "pushes StCLEAR = 0" | "pushes StSWAP = 2" | "pushes StDEPTH = 1" | "pushes StCINDEX = 1"
| "pushes StMINDEX = 0" | "pushes StROLL = 3" | "pushes StDIV = 1" | "pushes (StUn f) = 1" | "pushes (StBin f) = 1"

text \<open>What an operation does; a bad index is an error for pedantic fonts only.\<close>

fun effect :: "bool \<Rightarrow> stack_op \<Rightarrow> int list \<Rightarrow> int list option" where
  "effect ped StDUP (a # s) = Some (a # a # s)"
| "effect ped StPOP (a # s) = Some s"
| "effect ped StCLEAR s = Some []"
| "effect ped StSWAP (b # a # s) = Some (a # b # s)"
| "effect ped StDEPTH s = Some (int (length s) # s)"
| "effect ped StCINDEX (k # s) =
     (if 1 \<le> k \<and> k \<le> int (length s) then Some (s ! (nat k - 1) # s) else if ped then None else Some (0 # s))"
| "effect ped StMINDEX (k # s) =
     (if 1 \<le> k \<and> k \<le> int (length s) then Some (s ! (nat k - 1) # take (nat k - 1) s @ drop (nat k) s)
      else if ped then None else Some s)"
| "effect ped StROLL (c # b # a # s) = Some (a # c # b # s)"
| "effect ped StDIV (b # a # s) = (if b = 0 then None else Some (FT_MulDiv_No_Round a 64 b # s))"
| "effect ped (StUn f) (a # s) = Some (f a # s)"
| "effect ped (StBin f) (b # a # s) = Some (f a b # s)"
| "effect ped p s = None"

text \<open>
  A step on a stack of at most \<open>lim\<close> values. When the stack holds too few arguments, a pedantic font
  fails, and any other has the whole stack replaced by zeroes for the arguments.
\<close>

definition supplied :: "nat \<Rightarrow> int list \<Rightarrow> int list" where
  "supplied n s = (if length s < n then replicate n 0 else s)"

definition machine_step :: "bool \<Rightarrow> nat \<Rightarrow> stack_op \<Rightarrow> int list \<Rightarrow> int list option" where
  "machine_step ped lim p s =
     (if ped \<and> length s < pops p then None
      else if length (supplied (pops p) s) - pops p + pushes p > lim then None
      else effect ped p (supplied (pops p) s))"

text \<open>Programs without branches: \<open>PUSHB\<close> and the operations.\<close>

datatype tt_instr = PushB bytes | Do nat

fun instr_ok :: "tt_instr \<Rightarrow> bool" where
  "instr_ok (PushB bs) \<longleftrightarrow> 1 \<le> length bs \<and> length bs \<le> 8"
| "instr_ok (Do opcode) \<longleftrightarrow> stack_op_of opcode \<noteq> None"

fun instr_bytes :: "tt_instr \<Rightarrow> bytes" where
  "instr_bytes (PushB bs) = word_of_nat (0xAF + length bs) # bs"
| "instr_bytes (Do opcode) = [word_of_nat opcode]"

fun instr_step :: "bool \<Rightarrow> nat \<Rightarrow> tt_instr \<Rightarrow> int list \<Rightarrow> int list option" where
  "instr_step ped lim (PushB bs) s = (if length s + length bs > lim then None else Some (rev (map uint bs) @ s))"
| "instr_step ped lim (Do opcode) s = (case stack_op_of opcode of Some p \<Rightarrow> machine_step ped lim p s | None \<Rightarrow> None)"

fun machine_run :: "bool \<Rightarrow> nat \<Rightarrow> tt_instr list \<Rightarrow> int list \<Rightarrow> int list option" where
  "machine_run ped lim [] s = Some s"
| "machine_run ped lim (p # ps) s = do { s \<leftarrow> instr_step ped lim p s; machine_run ped lim ps s }"

section \<open>The stack of a context\<close>

definition stk :: "TT_ExecContext \<Rightarrow> int list" where
  "stk exc = rev (take (exc_top exc) (exc_stack exc))"

definition stack_ok :: "TT_ExecContext \<Rightarrow> bool" where
  "stack_ok exc \<longleftrightarrow> 32 \<le> length (exc_stack exc) \<and> exc_top exc \<le> length (exc_stack exc)"

text \<open>The context without the stack and the registers of the instruction.\<close>

definition core :: "TT_ExecContext \<Rightarrow> TT_ExecContext" where
  "core exc = exc\<lparr>exc_error := None, exc_stack := [], exc_top := 0, exc_args := 0, exc_new_top := 0, exc_IP := 0,
                  exc_opcode := 0, exc_length := 0\<rparr>"

lemma core_simps [simp]:
  "exc_env (core exc) = exc_env exc" "exc_code (core exc) = exc_code exc" "exc_callTop (core exc) = exc_callTop exc"
  by (simp_all add: core_def)

lemma core_cong: "core e = core exc \<Longrightarrow> exc_env e = exc_env exc \<and> exc_code e = exc_code exc \<and> exc_callTop e = exc_callTop exc"
  by (metis core_simps)

text \<open>The context when an instruction runs: \<open>s\<close> is the stack with its arguments, \<open>rest\<close> what is above.\<close>

definition poised :: "nat \<Rightarrow> int list \<Rightarrow> int list \<Rightarrow> TT_ExecContext \<Rightarrow> TT_ExecContext" where
  "poised opcode s rest exc =
     exc\<lparr>exc_error := None, exc_opcode := opcode, exc_length := 1, exc_stack := rev s @ rest,
         exc_args := length s - pop_count opcode, exc_new_top := length s - pop_count opcode + push_count opcode\<rparr>"

lemma stack_split: "stack_ok exc \<Longrightarrow> exc_stack exc = rev (stk exc) @ drop (exc_top exc) (exc_stack exc) \<and> length (stk exc) = exc_top exc"
  by (simp add: stk_def stack_ok_def)

lemma set_args_stored:
  "length vs \<le> length rest \<Longrightarrow> exc_stack exc = pre @ rest \<Longrightarrow> exc_args exc + k = length pre \<Longrightarrow>
     set_args k vs exc = Some (exc\<lparr>exc_stack := pre @ vs @ drop (length vs) rest\<rparr>)"
proof (induction vs arbitrary: rest pre k exc)
  case Nil
  then show ?case by simp
next
  case (Cons v vs)
  then obtain r rest' where r: "rest = r # rest'" by (cases rest) auto
  let ?e = "exc\<lparr>exc_stack := (pre @ [v]) @ rest'\<rparr>"
  have s: "set_arg k v exc = Some ?e" using Cons.prems r by (simp add: set_arg_def put_at_def)
  have "set_args (Suc k) vs ?e = Some (?e\<lparr>exc_stack := (pre @ [v]) @ vs @ drop (length vs) rest'\<rparr>)"
    using Cons.prems r by (intro Cons.IH) auto
  then show ?case using s r by simp
qed

lemma pop_count_bound: "opcode < 256 \<Longrightarrow> pop_count opcode \<le> 8"
proof -
  have "list_all (\<lambda>p. fst p \<le> 8) Pop_Push_Count" by code_simp
  moreover have "length Pop_Push_Count = 256" by code_simp
  ultimately show "opcode < 256 \<Longrightarrow> ?thesis" by (simp add: list_all_length pop_count_def)
qed

lemma fetch_poised:
  assumes "stack_ok exc" "code_at exc (exc_IP exc) = Some opcode" "opcode < 256"
  shows "\<exists>rest. length (supplied (pop_count opcode) (stk exc)) + length rest = length (exc_stack exc) \<and>
    fetch exc =
     (if pedantic exc \<and> length (stk exc) < pop_count opcode
      then Some (False, fail_with Too_Few_Arguments (exc\<lparr>exc_error := None, exc_opcode := opcode, exc_length := 1\<rparr>))
      else let e = poised opcode (supplied (pop_count opcode) (stk exc)) rest exc
        in if length (supplied (pop_count opcode) (stk exc)) - pop_count opcode + push_count opcode > length (exc_stack exc)
           then Some (False, fail_with Stack_Overflow e) else Some (True, e))"
proof (cases "length (stk exc) < pop_count opcode")
  case True
  let ?rest = "drop (pop_count opcode) (exc_stack exc)"
  let ?e = "exc\<lparr>exc_error := None, exc_opcode := opcode, exc_length := 1, exc_args := 0\<rparr>"
  have t: "length (stk exc) = exc_top exc" using stack_split assms(1) by blast
  have l: "pop_count opcode \<le> length (exc_stack exc)" using assms(1) pop_count_bound [OF assms(3)] by (simp add: stack_ok_def)
  then have "set_args 0 (replicate (pop_count opcode) 0) ?e = Some (?e\<lparr>exc_stack := [] @ replicate (pop_count opcode) 0 @ ?rest\<rparr>)"
    using set_args_stored [of "replicate (pop_count opcode) 0" "exc_stack exc" ?e "[]" 0] by simp
  then show ?thesis using True t l assms(2)
    by (intro exI [of _ ?rest]) (simp add: fetch_def supplied_def poised_def pedantic_def fail_with_def Let_def)
next
  case False
  let ?rest = "drop (exc_top exc) (exc_stack exc)"
  have t: "length (stk exc) = exc_top exc" using stack_split assms(1) by blast
  have "exc\<lparr>exc_stack := rev (stk exc) @ ?rest\<rparr> = exc" using stack_split [OF assms(1)] by simp
  then show ?thesis using False t assms stack_split [OF assms(1)]
    by (intro exI [of _ ?rest]) (simp add: fetch_def supplied_def poised_def pedantic_def fail_with_def Let_def stack_ok_def)
qed


section \<open>The operations\<close>

lemma stack_ops_all: "stack_op_of opcode = Some p \<Longrightarrow> list_all (\<lambda>(opcode, p). Q opcode p) stack_ops \<Longrightarrow> Q opcode p"
  by (auto simp: stack_op_of_def list_all_iff dest!: map_of_SomeD)

lemma stack_op_counts:
  assumes "stack_op_of opcode = Some p"
  shows "pop_count opcode = pops p \<and> push_count opcode = pushes p \<and> opcode < 256"
proof -
  have "list_all (\<lambda>(opcode, p). pop_count opcode = pops p \<and> push_count opcode = pushes p \<and> opcode < 256) stack_ops" by code_simp
  then show ?thesis using stack_ops_all assms by blast
qed

lemma FT_PIX_FLOOR_mod: "FT_PIX_FLOOR a = a - a mod 64"
  using and_not_mask [of a 6] by (simp add: FT_PIX_FLOOR_def mask_eq_exp_minus_1)

text \<open>The instructions behind the operations.\<close>

fun ins_of :: "stack_op \<Rightarrow> TT_ExecContext \<Rightarrow> TT_ExecContext option" where
  "ins_of StDUP = Ins_DUP" | "ins_of StPOP = Some" | "ins_of StCLEAR = Ins_CLEAR" | "ins_of StSWAP = Ins_SWAP"
| "ins_of StDEPTH = Ins_DEPTH" | "ins_of StCINDEX = Ins_CINDEX" | "ins_of StMINDEX = Ins_MINDEX" | "ins_of StROLL = Ins_ROLL"
| "ins_of StDIV = Ins_DIV" | "ins_of (StUn f) = unary f" | "ins_of (StBin f) = binary f"

lemma dispatch_ops:
  "dispatch 0x20 = Ins_DUP" "dispatch 0x21 = Some" "dispatch 0x22 = Ins_CLEAR" "dispatch 0x23 = Ins_SWAP" "dispatch 0x24 = Ins_DEPTH"
  "dispatch 0x25 = Ins_CINDEX" "dispatch 0x26 = Ins_MINDEX" "dispatch 0x8A = Ins_ROLL" "dispatch 0x62 = Ins_DIV"
  "dispatch 0x50 = Ins_LT" "dispatch 0x51 = Ins_LTEQ" "dispatch 0x52 = Ins_GT" "dispatch 0x53 = Ins_GTEQ" "dispatch 0x54 = Ins_EQ"
  "dispatch 0x55 = Ins_NEQ" "dispatch 0x5A = Ins_AND" "dispatch 0x5B = Ins_OR" "dispatch 0x5C = Ins_NOT" "dispatch 0x60 = Ins_ADD"
  "dispatch 0x61 = Ins_SUB" "dispatch 0x63 = Ins_MUL" "dispatch 0x64 = Ins_ABS" "dispatch 0x65 = Ins_NEG" "dispatch 0x66 = Ins_FLOOR"
  "dispatch 0x67 = Ins_CEILING" "dispatch 0x8B = Ins_MAX" "dispatch 0x8C = Ins_MIN"
  by (rule ext; simp add: dispatch_def)+

lemma s64_uminus_u64: "s64 (- u64 a) = s64 (- a)"
  by (simp add: s64_def u64_def mod_simps algebra_simps)

lemma unary_cong: "(\<And>a. f a = g a) \<Longrightarrow> unary f = unary g" "(\<And>a b. h a b = k a b) \<Longrightarrow> binary h = binary k"
  by (rule arg_cong [of _ _ unary], rule ext, simp) (rule arg_cong [of _ _ binary], (rule ext)+, simp)

lemma ins_arith:
  "Ins_LT = binary (\<lambda>a b. if a < b then 1 else 0)" "Ins_LTEQ = binary (\<lambda>a b. if a \<le> b then 1 else 0)"
  "Ins_GT = binary (\<lambda>a b. if b < a then 1 else 0)" "Ins_GTEQ = binary (\<lambda>a b. if b \<le> a then 1 else 0)"
  "Ins_EQ = binary (\<lambda>a b. if a = b then 1 else 0)" "Ins_NEQ = binary (\<lambda>a b. if a = b then 0 else 1)"
  "Ins_AND = binary (\<lambda>a b. if a = 0 \<or> b = 0 then 0 else 1)" "Ins_OR = binary (\<lambda>a b. if a = 0 \<and> b = 0 then 0 else 1)"
  "Ins_NOT = unary (\<lambda>a. if a = 0 then 1 else 0)" "Ins_ADD = binary (\<lambda>a b. s64 (a + b))" "Ins_SUB = binary (\<lambda>a b. s64 (a - b))"
  "Ins_MUL = binary (\<lambda>a b. FT_MulDiv a b 64)" "Ins_ABS = unary (\<lambda>a. if a < 0 then s64 (- a) else a)" "Ins_NEG = unary (\<lambda>a. s64 (- a))"
  "Ins_FLOOR = unary (\<lambda>a. a - a mod 64)" "Ins_CEILING = unary (\<lambda>a. s64 (a + 63) - s64 (a + 63) mod 64)"
  "Ins_MAX = binary max" "Ins_MIN = binary min"
  unfolding Ins_LT_def Ins_LTEQ_def Ins_GT_def Ins_GTEQ_def Ins_EQ_def Ins_NEQ_def Ins_AND_def Ins_OR_def Ins_NOT_def Ins_ADD_def
    Ins_SUB_def Ins_MUL_def Ins_ABS_def Ins_NEG_def Ins_FLOOR_def Ins_CEILING_def Ins_MAX_def Ins_MIN_def
  by (rule unary_cong; auto simp: ADD_LONG_def SUB_LONG_def NEG_LONG_def c_bool_def FT_PIX_FLOOR_mod FT_PIX_CEIL_LONG_def s64_uminus_u64)+

lemma dispatch_stack_op:
  assumes "stack_op_of opcode = Some p"
  shows "dispatch opcode = ins_of p"
proof -
  have "list_all (\<lambda>(opcode, p). dispatch opcode = ins_of p) stack_ops"
    by (simp only: stack_ops_def list.pred_inject prod.case dispatch_ops ins_of.simps ins_arith)
  then show ?thesis using stack_ops_all assms by blast
qed


section \<open>The refinement\<close>

text \<open>The contexts in which an operation runs, and the values it finds there.\<close>

lemma poised_simps [simp]:
  "exc_stack (poised opcode s rest exc) = rev s @ rest" "exc_error (poised opcode s rest exc) = None"
  "exc_args (poised opcode s rest exc) = length s - pop_count opcode" "exc_top (poised opcode s rest exc) = exc_top exc"
  "pedantic (poised opcode s rest exc) = pedantic exc" "exc_opcode (poised opcode s rest exc) = opcode"
  "exc_new_top (poised opcode s rest exc) = length s - pop_count opcode + push_count opcode"
  "exc_length (poised opcode s rest exc) = 1" "exc_IP (poised opcode s rest exc) = exc_IP exc"
  "exc_code (poised opcode s rest exc) = exc_code exc" "core (poised opcode s rest exc) = core exc"
  by (simp_all add: poised_def pedantic_def core_def)

text \<open>\<open>leaves exc m s n\<close>: \<open>m\<close> is \<open>exc\<close> with the stack \<open>s\<close> and \<open>n\<close> values of the array in all.\<close>

definition leaves :: "TT_ExecContext \<Rightarrow> TT_ExecContext option \<Rightarrow> int list \<Rightarrow> nat \<Rightarrow> bool" where
  "leaves exc m s n \<longleftrightarrow> (\<exists>rest. length s + length rest = n \<and> m = Some (exc\<lparr>exc_stack := rev s @ rest, exc_new_top := length s\<rparr>))"

lemma leavesI: "length s + length rest = n \<Longrightarrow> exc_new_top exc = length s \<Longrightarrow> m = Some (exc\<lparr>exc_stack := rev s @ rest\<rparr>) \<Longrightarrow> leaves exc m s n"
  unfolding leaves_def by (intro exI [of _ rest]) simp

lemmas at_args = arg_def set_arg_def get_at_def put_at_def nth_append list_update_append

lemma ins_of_unary:
  assumes "pop_count opcode = 1" "push_count opcode = 1"
  shows "leaves (poised opcode (a # s) rest exc) (unary f (poised opcode (a # s) rest exc)) (f a # s) (length (a # s) + length rest)"
  using assms by (intro leavesI [of _ rest]) (simp_all add: unary_def at_args)

lemma ins_of_binary:
  assumes "pop_count opcode = 2" "push_count opcode = 1"
  shows "leaves (poised opcode (b # a # s) rest exc) (binary f (poised opcode (b # a # s) rest exc)) (f a b # s) (length (b # a # s) + length rest)"
  using assms by (intro leavesI [of _ "b # rest"]) (simp_all add: binary_def at_args)

lemma mindex_stack:
  assumes "1 \<le> k" "k \<le> length s"
  shows "take (length s - k) (rev s @ rest) @ take (k - 1) (drop (length s - k + 1) (rev s @ rest)) @ [(rev s @ rest) ! (length s - k)] @ drop (length s) (rev s @ rest) =
    rev (s ! (k - 1) # take (k - 1) s @ drop k s) @ rest"
proof -
  have "take (k - 1) (drop (length s - k + 1) (rev s)) = rev (take (k - 1) s)"
    using assms by (simp add: take_rev drop_rev)
  moreover have "take (length s - k) (rev s) = rev (drop k s)" using assms by (simp add: take_rev)
  moreover have "length s - Suc (length s - k) = k - 1" "length s - k < length s" using assms by linarith+
  ultimately show ?thesis using assms by (simp add: nth_append rev_nth)
qed

lemma ins_of_effect:
  assumes c: "pop_count opcode = pops p" "push_count opcode = pushes p" and l: "pops p \<le> length s"
    "length s - pops p + pushes p \<le> length s + length rest" and t: "pops p = 0 \<Longrightarrow> exc_top exc = length s"
  shows "case effect (pedantic exc) p s of
      Some s' \<Rightarrow> leaves (poised opcode s rest exc) (ins_of p (poised opcode s rest exc)) s' (length s + length rest)
    | None \<Rightarrow> \<exists>e x. ins_of p (poised opcode s rest exc) = Some x \<and> exc_error x = Some e \<and> e \<noteq> Invalid_Opcode"
proof (cases "(pedantic exc, p, s)" rule: effect.cases)
  case (1 ped a u)
  then obtain r rest' where "rest = r # rest'" using l by (cases rest) auto
  with 1 c show ?thesis by (auto simp: Ins_DUP_def at_args intro!: leavesI [of _ rest'])
next
  case (2 ped a u)
  with c show ?thesis by (auto intro!: leavesI [of _ "a # rest"])
next
  case (3 ped u)
  with c show ?thesis by (auto simp: Ins_CLEAR_def leaves_def intro!: exI [of _ "rev u @ rest"])
next
  case (4 ped b a u)
  with c show ?thesis by (auto simp: Ins_SWAP_def at_args intro!: leavesI [of _ rest])
next
  case (5 ped u)
  then obtain r rest' where "rest = r # rest'" using l by (cases rest) auto
  with 5 c t show ?thesis by (auto simp: Ins_DEPTH_def at_args intro!: leavesI [of _ rest'])
next
  case (6 ped k u)
  have n: "rev u ! (length u - nat k) = u ! (nat k - Suc 0)" if "1 \<le> k" "k \<le> int (length u)"
  proof -
    have "length u - Suc (length u - nat k) = nat k - 1" "length u - nat k < length u" using that by linarith+
    then show ?thesis by (simp add: rev_nth)
  qed
  from 6 c show ?thesis
    by (auto simp: Ins_CINDEX_def at_args fail_pedantic_def fail_with_def n intro!: leavesI [of _ rest])
next
  case (7 ped k u)
  from 7 c show ?thesis
    using mindex_stack [of "nat k" u "k # rest"]
    by (auto simp: Ins_MINDEX_def at_args fail_pedantic_def fail_with_def Let_def intro!: leavesI [of _ "k # rest"])
next
  case (8 ped c' b a u)
  with c show ?thesis by (auto simp: Ins_ROLL_def at_args intro!: leavesI [of _ rest])
next
  case (9 ped b a u)
  with c show ?thesis by (auto simp: Ins_DIV_def at_args fail_with_def intro!: leavesI [of _ "b # rest"])
next
  case (10 ped f a u)
  with c ins_of_unary [of opcode a u rest exc f] show ?thesis by auto
next
  case (11 ped f b a u)
  with c ins_of_binary [of opcode b a u rest exc f] show ?thesis by auto
qed (use l in auto)

lemma core_updates [simp]:
  "core (exc\<lparr>exc_stack := st\<rparr>) = core exc" "core (exc\<lparr>exc_top := t\<rparr>) = core exc" "core (exc\<lparr>exc_new_top := n\<rparr>) = core exc"
  "core (exc\<lparr>exc_IP := ip\<rparr>) = core exc"
  by (simp_all add: core_def)

text \<open>After an instruction: the stack is \<open>s'\<close>, and the next instruction is \<open>n\<close> bytes further on.\<close>

definition moved :: "TT_ExecContext \<Rightarrow> int list \<Rightarrow> nat \<Rightarrow> TT_ExecContext \<Rightarrow> bool" where
  "moved exc s n exc' \<longleftrightarrow> core exc' = core exc \<and> stack_ok exc' \<and> length (exc_stack exc') = length (exc_stack exc) \<and>
     stk exc' = s \<and> exc_IP exc' = exc_IP exc + int n"

text \<open>How \<open>run_step\<close> answers the result of the machine.\<close>

definition answers :: "TT_ExecContext \<Rightarrow> nat \<Rightarrow> int list option \<Rightarrow> bool" where
  "answers exc n r \<longleftrightarrow>
     (case r of
        Some s \<Rightarrow> \<exists>exc'. run_step exc = Some (suite exc') \<and> moved exc s n exc'
      | None \<Rightarrow> \<exists>e exc'. run_step exc = Some (Returned (Some e), exc'))"

lemma operation_step:
  assumes s: "stack_ok exc" and c: "code_at exc (exc_IP exc) = Some opcode" and p: "stack_op_of opcode = Some p"
  shows "answers exc 1 (machine_step (pedantic exc) (length (exc_stack exc)) p (stk exc))"
proof -
  let ?s = "supplied (pops p) (stk exc)"
  have n: "pop_count opcode = pops p" "push_count opcode = pushes p" "opcode < 256" using stack_op_counts [OF p] by auto
  obtain rest where l: "length ?s + length rest = length (exc_stack exc)" and f: "fetch exc =
     (if pedantic exc \<and> length (stk exc) < pops p
      then Some (False, fail_with Too_Few_Arguments (exc\<lparr>exc_error := None, exc_opcode := opcode, exc_length := 1\<rparr>))
      else let e = poised opcode ?s rest exc
        in if length ?s - pops p + pushes p > length (exc_stack exc)
           then Some (False, fail_with Stack_Overflow e) else Some (True, e))"
    using fetch_poised [OF s c n(3)] unfolding n by blast
  let ?e = "poised opcode ?s rest exc"
  show ?thesis
  proof (cases "pedantic exc \<and> length (stk exc) < pops p \<or> length ?s - pops p + pushes p > length (exc_stack exc)")
    case True
    then show ?thesis by (auto simp: answers_def machine_step_def run_step_def f fail_with_def Let_def)
  next
    case False
    then have r: "run_step exc = do {
        e \<leftarrow> ins_of p ?e;
        case exc_error e of
          Some Invalid_Opcode \<Rightarrow> redefined e
        | Some x \<Rightarrow> Some (Returned (Some x), e)
        | None \<Rightarrow> Some (suite (e\<lparr>exc_top := exc_new_top e, exc_IP := exc_IP e + exc_length e\<rparr>)) }"
      unfolding run_step_def f using dispatch_stack_op [OF p] by (auto simp: Let_def)
    have m: "machine_step (pedantic exc) (length (exc_stack exc)) p (stk exc) = effect (pedantic exc) p ?s"
      using False by (auto simp: machine_step_def)
    have "pops p \<le> length ?s" by (simp add: supplied_def)
    moreover have "pops p = 0 \<Longrightarrow> exc_top exc = length ?s" using stack_split [OF s] by (simp add: supplied_def)
    ultimately have e: "case effect (pedantic exc) p ?s of
        Some s' \<Rightarrow> leaves ?e (ins_of p ?e) s' (length ?s + length rest)
      | None \<Rightarrow> \<exists>x y. ins_of p ?e = Some y \<and> exc_error y = Some x \<and> x \<noteq> Invalid_Opcode"
      using n l False by (intro ins_of_effect) auto
    show ?thesis
    proof (cases "effect (pedantic exc) p ?s")
      case None
      with e obtain x y where "ins_of p ?e = Some y" "exc_error y = Some x" "x \<noteq> Invalid_Opcode" by auto
      then have "run_step exc = Some (Returned (Some x), y)" by (simp add: r split: ft_error.split)
      then show ?thesis by (simp add: answers_def m None)
    next
      case (Some s')
      with e obtain rest' where k: "length s' + length rest' = length ?s + length rest"
        and i: "ins_of p ?e = Some (?e\<lparr>exc_stack := rev s' @ rest', exc_new_top := length s'\<rparr>)" by (auto simp: leaves_def)
      let ?x = "?e\<lparr>exc_stack := rev s' @ rest', exc_new_top := length s', exc_top := length s', exc_IP := exc_IP exc + 1\<rparr>"
      have "run_step exc = Some (suite ?x)" by (simp add: r i)
      moreover have "moved exc s' 1 ?x" using k l s by (simp add: moved_def stack_ok_def stk_def)
      ultimately show ?thesis by (auto simp: answers_def m Some)
    qed
  qed
qed

section \<open>Programs without branches\<close>

lemma code_bytes_stored:
  "exc_code exc = pre @ bs @ post \<Longrightarrow> code_bytes (length bs) (int (length pre)) exc = Some (map uint bs)"
proof (induction bs arbitrary: pre)
  case (Cons b bs)
  from Cons.prems have "code_bytes (length bs) (int (length (pre @ [b]))) exc = Some (map uint bs)" by (intro Cons.IH) simp
  with Cons.prems show ?case by (simp add: code_at_def get_at_def nth_append add.commute)
qed simp

lemma pushb_counts:
  assumes "1 \<le> n" "n \<le> 8"
  shows "pop_count (0xAF + n) = 0 \<and> push_count (0xAF + n) = n \<and> dispatch (0xAF + n) = Ins_PUSHB"
proof -
  have "list_all (\<lambda>n. pop_count (0xAF + n) = 0 \<and> push_count (0xAF + n) = n) [1..<9]" by code_simp
  then have "pop_count (0xAF + n) = 0 \<and> push_count (0xAF + n) = n" using assms by (simp add: list_all_iff)
  moreover have "dispatch (0xAF + n) = Ins_PUSHB" using assms by (intro ext) (simp add: dispatch_def)
  ultimately show ?thesis by simp
qed

lemma pushb_step:
  assumes s: "stack_ok exc" and b: "instr_ok (PushB bs)" and c: "exc_code exc = pre @ instr_bytes (PushB bs) @ post" "exc_IP exc = int (length pre)"
  shows "answers exc (1 + length bs) (instr_step (pedantic exc) (length (exc_stack exc)) (PushB bs) (stk exc))"
proof -
  let ?op = "0xAF + length bs"
  have n: "pop_count ?op = 0" "push_count ?op = length bs" "dispatch ?op = Ins_PUSHB" using pushb_counts b by auto
  have w: "unat (word_of_nat ?op :: byte) = ?op" by (subst unat_of_nat) (use b in simp)
  then have o: "code_at exc (exc_IP exc) = Some ?op" using c by (simp add: code_at_def get_at_def nth_append)
  have z: "supplied 0 (stk exc) = stk exc" by (simp add: supplied_def)
  have t: "exc_top exc = length (stk exc)" using stack_split [OF s] by simp
  have "?op < 256" using b by simp
  from fetch_poised [OF s o this] obtain rest where l: "length (stk exc) + length rest = length (exc_stack exc)"
    and f: "fetch exc = (let e = poised ?op (stk exc) rest exc
        in if length (stk exc) + length bs > length (exc_stack exc) then Some (False, fail_with Stack_Overflow e) else Some (True, e))"
    unfolding n z by auto
  let ?e = "poised ?op (stk exc) rest exc"
  show ?thesis
  proof (cases "length (stk exc) + length bs > length (exc_stack exc)")
    case True
    then show ?thesis by (auto simp: answers_def run_step_def f fail_with_def Let_def)
  next
    case False
    let ?x = "?e\<lparr>exc_stack := rev (stk exc) @ map uint bs @ drop (length bs) rest\<rparr>"
    have "code_bytes (length bs) (int (length (pre @ [0 :: byte]))) ?e = Some (map uint bs)"
    proof -
      have "exc_code ?e = (pre @ [word_of_nat ?op]) @ bs @ post" using c by simp
      from code_bytes_stored [OF this] show ?thesis by simp
    qed
    then have k: "code_bytes (length bs) (exc_IP exc + 1) ?e = Some (map uint bs)" using c by (simp add: add.commute)
    have a: "set_args 0 (map uint bs) ?e = Some ?x"
      using False l n by (subst set_args_stored [of _ rest _ "rev (stk exc)"]) auto
    have "\<not> stack_full (length bs) ?e" using False l s t by (simp add: stack_full_def stack_ok_def)
    moreover have "exc_IP exc + int (length bs) < int (length (exc_code exc))" using c by simp
    moreover have "?op - 0xB0 + 1 = length bs" using b by (cases bs) simp_all
    ultimately have "Ins_PUSHB ?e = Some (?x\<lparr>exc_IP := exc_IP exc + int (length bs)\<rparr>)"
      using k a by (simp add: Ins_PUSHB_def Let_def del: Nat.diff_cancel)
    then have "run_step exc = Some (suite (?x\<lparr>exc_top := length (stk exc) + length bs, exc_IP := exc_IP exc + 1 + int (length bs)\<rparr>))"
      (is "_ = Some (suite ?y)") using False n by (simp add: run_step_def f Let_def algebra_simps)
    moreover have "moved exc (rev (map uint bs) @ stk exc) (1 + length bs) ?y"
      using False l s by (simp add: moved_def stack_ok_def stk_def)
    ultimately show ?thesis using False by (auto simp: answers_def)
  qed
qed

lemma instr_step_run:
  assumes "stack_ok exc" "instr_ok p" "exc_code exc = pre @ instr_bytes p @ post" "exc_IP exc = int (length pre)"
  shows "answers exc (length (instr_bytes p)) (instr_step (pedantic exc) (length (exc_stack exc)) p (stk exc))"
proof (cases p)
  case (PushB bs)
  with assms pushb_step [of exc bs pre post] show ?thesis by simp
next
  case (Do opcode)
  then obtain q where q: "stack_op_of opcode = Some q" using assms(2) by auto
  moreover have "code_at exc (exc_IP exc) = Some opcode"
    using assms stack_op_counts [OF q] Do by (simp add: code_at_def get_at_def nth_append unat_of_nat)
  ultimately show ?thesis using operation_step [OF assms(1)] Do by simp
qed

lemma straight_line_run:
  assumes "exc_code exc = pre @ concat (map instr_bytes ps)" "exc_IP exc = int (length pre)" "ps \<noteq> []" "list_all instr_ok ps"
    "stack_ok exc" "exc_callTop exc = 0" "\<not> fe_instruction_trap (exc_env exc)" "length ps \<le> k"
  shows "case machine_run (pedantic exc) (length (exc_stack exc)) ps (stk exc) of
      Some s \<Rightarrow> \<exists>exc'. run_loop k exc = Some (None, exc') \<and> stk exc' = s \<and> core exc' = core exc
    | None \<Rightarrow> \<exists>e exc'. run_loop k exc = Some (Some e, exc')"
  using assms
proof (induction ps arbitrary: exc pre k)
  case (Cons p ps)
  obtain k' where k: "k = Suc k'" "length ps \<le> k'" using Cons.prems(8) by (cases k) auto
  have b: "instr_ok p" "exc_code exc = pre @ instr_bytes p @ concat (map instr_bytes ps)" using Cons.prems by simp_all
  have a: "answers exc (length (instr_bytes p)) (instr_step (pedantic exc) (length (exc_stack exc)) p (stk exc))"
    by (rule instr_step_run [OF Cons.prems(5) b Cons.prems(2)])
  show ?case
  proof (cases "instr_step (pedantic exc) (length (exc_stack exc)) p (stk exc)")
    case None
    with a show ?thesis by (auto simp: answers_def k)
  next
    case (Some s)
    with a obtain e where r: "run_step exc = Some (suite e)" and m: "moved exc s (length (instr_bytes p)) e"
      by (auto simp: answers_def)
    have "core e = core exc" using m unfolding moved_def by (elim conjE)
    then have e: "exc_env e = exc_env exc" "exc_code e = exc_code exc" "exc_callTop e = exc_callTop exc" "pedantic e = pedantic exc"
      unfolding pedantic_def by (metis core_cong)+
    show ?thesis
    proof (cases "ps = []")
      case True
      have "suite e = (Returned None, e)" using e m b True Cons.prems(2,6) by (simp add: suite_def moved_def)
      then show ?thesis using m True by (auto simp: k r Some moved_def)
    next
      case False
      then obtain q qs where q: "ps = q # qs" by (cases ps) auto
      have l: "exc_IP e < int (length (exc_code e))" using e m b Cons.prems(2) q by (cases q) (simp_all add: moved_def)
      then have "suite e = (Running, e)" using e Cons.prems(7) by (simp add: suite_def)
      then have r': "run_loop k exc = run_loop k' e" by (simp add: k r)
      have s': "length (exc_stack e) = length (exc_stack exc)" "stk e = s" "core e = core exc" using m by (simp_all add: moved_def)
      have "exc_code e = (pre @ instr_bytes p) @ concat (map instr_bytes ps)" using e b by simp
      moreover have "exc_IP e = int (length (pre @ instr_bytes p))" "stack_ok e" using m Cons.prems(2) by (simp_all add: moved_def)
      moreover have "list_all instr_ok ps" "exc_callTop e = 0" "\<not> fe_instruction_trap (exc_env e)" using Cons.prems(4,6,7) e by simp_all
      ultimately have "case machine_run (pedantic e) (length (exc_stack e)) ps (stk e) of
          Some s \<Rightarrow> \<exists>exc'. run_loop k' e = Some (None, exc') \<and> stk exc' = s \<and> core exc' = core e
        | None \<Rightarrow> \<exists>x exc'. run_loop k' e = Some (Some x, exc')"
        by (intro Cons.IH [of e "pre @ instr_bytes p" k'] False k(2))
      with r' s' show ?thesis using e(4) Some by (simp split: option.splits)
    qed
  qed
qed simp

text \<open>
  C10: The interpreter implements the stack machine. A program without branches, of \<open>PUSHB\<close> and the
  instructions for the stack, arithmetic, comparison and logic, leaves the stack that the machine
  computes, and nothing else is changed but registers of the last instruction; where the machine
  fails, \<open>TT_RunIns\<close> returns an error.
\<close>
theorem TT_RunIns_stack_machine:
  assumes "exc_code exc = concat (map instr_bytes ps)" "exc_IP exc = 0" "ps \<noteq> []" "list_all instr_ok ps" "length ps \<le> 1000000"
    "stack_ok exc" "exc_callTop exc = 0" "\<not> fe_instruction_trap (exc_env exc)"
  shows "case machine_run (pedantic exc) (length (exc_stack exc)) ps (stk exc) of
      Some s \<Rightarrow> \<exists>exc'. TT_RunIns exc = Some (None, exc') \<and> stk exc' = s \<and> core exc' = core exc
    | None \<Rightarrow> \<exists>e exc'. TT_RunIns exc = Some (Some e, exc')"
  unfolding TT_RunIns_def by (rule straight_line_run [of _ "[]"]) (use assms in \<open>simp_all add: TT_CONFIG_OPTION_MAX_RUNNABLE_OPCODES_def\<close>)

text \<open>\<open>7 + (5 - 3)\<close> above 2 and 1, rolled, and the top doubled.\<close>

lemma TT_RunIns_stack_machine_witness:
  "\<exists>exc'. TT_RunIns (sample_context [0xB4, 1, 2, 7, 5, 3, 0x61, 0x60, 0x8A, 0x20]) = Some (None, exc') \<and> stk exc' = [1, 1, 9, 2]"
proof -
  let ?ps = "[PushB [1, 2, 7, 5, 3], Do 0x61, Do 0x60, Do 0x8A, Do 0x20]"
  let ?exc = "sample_context [0xB4, 1, 2, 7, 5, 3, 0x61, 0x60, 0x8A, 0x20]"
  have c: "exc_code ?exc = concat (map instr_bytes ?ps)" by (simp add: sample_context_def)
  have o: "list_all instr_ok ?ps" by (simp add: stack_op_of_def stack_ops_def)
  have s: "stack_ok ?exc" "exc_callTop ?exc = 0" "\<not> fe_instruction_trap (exc_env ?exc)" "exc_IP ?exc = 0"
    by (simp_all add: stack_ok_def sample_context_def sample_env_def)
  have "pedantic ?exc = False" "length (exc_stack ?exc) = 40" "stk ?exc = []"
    by (simp_all add: pedantic_def sample_context_def sample_env_def stk_def)
  moreover have "machine_run False 40 ?ps [] = Some [1, 1, 9, 2]"
    by (simp add: stack_op_of_def stack_ops_def machine_step_def supplied_def s64_def)
  moreover have "case machine_run (pedantic ?exc) (length (exc_stack ?exc)) ?ps (stk ?exc) of
      Some s \<Rightarrow> \<exists>exc'. TT_RunIns ?exc = Some (None, exc') \<and> stk exc' = s \<and> core exc' = core ?exc
    | None \<Rightarrow> \<exists>e exc'. TT_RunIns ?exc = Some (Some e, exc')"
    by (rule TT_RunIns_stack_machine [OF c s(4) _ o _ s(1-3)]) simp_all
  ultimately show ?thesis by (simp del: machine_run.simps) blast
qed

end
