(* ===== verification/Tt_Blocks.thy ===== *)
theory Tt_Blocks
  imports Tt_Machine
begin

text \<open>
  Structured programs for the bytecode interpreter: instructions with their operands, and blocks of
  \<open>IF\<close>, \<open>ELSE\<close> and \<open>EIF\<close> nested in each other. The loops of \<open>Ins_IF\<close>, \<open>Ins_ELSE\<close> and \<open>Ins_FDEF\<close>, which
  count nested blocks while they skip code, find the ends that the structure says.
\<close>

section \<open>Structured code\<close>

text \<open>The bytes of one instruction, with all its operands.\<close>

fun whole :: "bytes \<Rightarrow> bool" where
  "whole [] \<longleftrightarrow> False"
| "whole (b # bs) \<longleftrightarrow>
     (let l = opcode_length (unat b)
      in if l < 0 then bs \<noteq> [] \<and> int (length bs) + 1 = 2 - l * int (unat (hd bs)) else int (length bs) + 1 = l)"

datatype block = Plain bytes | IfOnly "block list" | IfElse "block list" "block list"

text \<open>Function definitions are not part of a block: \<open>FDEF\<close>, \<open>IDEF\<close>, \<open>ENDF\<close>.\<close>

fun block_ok :: "block \<Rightarrow> bool" where
  "block_ok (Plain bs) \<longleftrightarrow> whole bs \<and> unat (hd bs) \<notin> {0x58, 0x1B, 0x59, 0x2C, 0x89, 0x2D}"
| "block_ok (IfOnly as) \<longleftrightarrow> list_all block_ok as"
| "block_ok (IfElse as bs) \<longleftrightarrow> list_all block_ok as \<and> list_all block_ok bs"

fun block_bytes :: "block \<Rightarrow> bytes" where
  "block_bytes (Plain bs) = bs"
| "block_bytes (IfOnly as) = [0x58] @ concat (map block_bytes as) @ [0x59]"
| "block_bytes (IfElse as bs) = [0x58] @ concat (map block_bytes as) @ [0x1B] @ concat (map block_bytes bs) @ [0x59]"

definition blocks_bytes :: "block list \<Rightarrow> bytes" where
  "blocks_bytes bs = concat (map block_bytes bs)"

section \<open>Skipping\<close>

text \<open>A context that differs from \<open>exc\<close> in where the interpreter is: the next instruction is at \<open>q\<close>.\<close>

definition before :: "TT_ExecContext \<Rightarrow> nat \<Rightarrow> TT_ExecContext \<Rightarrow> bool" where
  "before exc q e \<longleftrightarrow> (\<exists>ip op l. e = exc\<lparr>exc_IP := ip, exc_opcode := op, exc_length := l\<rparr> \<and> ip + l = int q)"

text \<open>The context at an instruction of \<open>n\<close> bytes.\<close>

definition at_ins :: "TT_ExecContext \<Rightarrow> nat \<Rightarrow> nat \<Rightarrow> nat \<Rightarrow> TT_ExecContext" where
  "at_ins exc q op n = exc\<lparr>exc_IP := int q, exc_opcode := op, exc_length := int n\<rparr>"

lemma at_ins_before: "before exc (q + n) (at_ins exc q op n)"
  unfolding before_def at_ins_def by (intro exI conjI) simp_all

lemma at_ins_opcode [simp]: "exc_opcode (at_ins exc q op n) = op"
  by (simp add: at_ins_def)

lemma SkipCode_whole:
  assumes "exc_code exc = pre @ (b # bs) @ post" "whole (b # bs)" "before exc (length pre) e"
  shows "SkipCode e = Some (True, at_ins exc (length pre) (unat b) (length (b # bs)))"
proof -
  obtain ip op l where e: "e = exc\<lparr>exc_IP := ip, exc_opcode := op, exc_length := l\<rparr>" "ip + l = int (length pre)"
    using assms(3) by (auto simp: before_def)
  have c: "code_at (exc\<lparr>exc_IP := ip', exc_opcode := op', exc_length := l'\<rparr>) (int (length pre)) = Some (unat b)" for ip' op' l'
    using assms(1) by (simp add: code_at_def get_at_def nth_append)
  have d: "code_at (exc\<lparr>exc_IP := ip', exc_opcode := op', exc_length := l'\<rparr>) (int (length pre) + 1) = Some (unat (hd bs))"
    if "bs \<noteq> []" for ip' op' l'
    using assms(1) that by (cases bs) (simp_all add: code_at_def get_at_def nth_append nat_add_distrib)
  show ?thesis
  proof (cases "opcode_length (unat b) < 0")
    case True
    then have "bs \<noteq> []" "2 - opcode_length (unat b) * int (unat (hd bs)) = int (length bs) + 1"
      using assms(2) by (simp_all add: Let_def)
    moreover from this(1) have "int (length pre) + 1 < int (length (exc_code exc))" using assms(1) by (cases bs) simp_all
    ultimately show ?thesis using True e c d assms(1) by (simp add: SkipCode_def Let_def at_ins_def)
  next
    case False
    then have "opcode_length (unat b) = int (length bs) + 1" using assms(2) by (simp add: Let_def)
    then show ?thesis using False e c assms(1) by (simp add: SkipCode_def Let_def at_ins_def)
  qed
qed

lemma whole_byte: "opcode_length (unat b) = 1 \<Longrightarrow> whole [b]"
  by (simp add: Let_def)

lemma SkipCode_byte:
  assumes "exc_code exc = pre @ [b] @ post" "opcode_length (unat b) = 1" "before exc (length pre) e"
  shows "SkipCode e = Some (True, at_ins exc (length pre) (unat b) 1)"
  using SkipCode_whole [of exc pre b "[]" post e] assms by (simp add: Let_def)

text \<open>
  \<open>passes exc loop p loop' q\<close>: from before \<open>p\<close> the loop comes to before \<open>q\<close> and goes on as \<open>loop'\<close>,
  after at most \<open>q - p\<close> rounds. The loops are \<open>skip_if\<close> and \<open>skip_else\<close>, for a number of open blocks,
  and \<open>skip_def\<close>.
\<close>

type_synonym skip_loop = "nat \<Rightarrow> TT_ExecContext \<Rightarrow> TT_ExecContext option"

definition passes :: "TT_ExecContext \<Rightarrow> skip_loop \<Rightarrow> nat \<Rightarrow> skip_loop \<Rightarrow> nat \<Rightarrow> bool" where
  "passes exc loop p loop' q \<longleftrightarrow>
     (\<forall>e. before exc p e \<longrightarrow> (\<exists>e' m. before exc q e' \<and> m \<le> q - p \<and> p \<le> q \<and> (\<forall>k. loop (m + k) e = loop' k e')))"

lemma passes_refl: "passes exc loop p loop p"
  unfolding passes_def by (metis add_0 diff_self_eq_0 le_refl)

lemma passes_trans [trans]:
  assumes "passes exc loop p loop' q" "passes exc loop' q loop'' r"
  shows "passes exc loop p loop'' r"
  unfolding passes_def
proof (intro allI impI)
  fix e assume "before exc p e"
  then obtain e' m where 1: "before exc q e'" "m \<le> q - p" "p \<le> q" "\<forall>k. loop (m + k) e = loop' k e'"
    using assms(1) unfolding passes_def by meson
  then obtain e'' n where 2: "before exc r e''" "n \<le> r - q" "q \<le> r" "\<forall>k. loop' (n + k) e' = loop'' k e''"
    using assms(2) unfolding passes_def by meson
  have "\<forall>k. loop ((m + n) + k) e = loop'' k e''" using 1(4) 2(4) by (simp add: add.assoc)
  moreover have "m + n \<le> r - p" "p \<le> r" using 1 2 by linarith+
  ultimately show "\<exists>e' m. before exc r e' \<and> m \<le> r - p \<and> p \<le> r \<and> (\<forall>k. loop (m + k) e = loop'' k e')" using 2(1) by blast
qed

lemma passes_one:
  assumes "exc_code exc = pre @ (b # bs) @ post" "whole (b # bs)"
    "\<And>e k. SkipCode e = Some (True, at_ins exc (length pre) (unat b) (length (b # bs))) \<Longrightarrow>
       loop (Suc k) e = loop' k (at_ins exc (length pre) (unat b) (length (b # bs)))"
  shows "passes exc loop (length pre) loop' (length (pre @ b # bs))"
  unfolding passes_def
proof (intro allI impI)
  fix e assume "before exc (length pre) e"
  from SkipCode_whole [OF assms(1,2) this] assms(3)
  have "\<forall>k. loop (1 + k) e = loop' k (at_ins exc (length pre) (unat b) (length (b # bs)))" by simp
  moreover have "before exc (length (pre @ b # bs)) (at_ins exc (length pre) (unat b) (length (b # bs)))"
    using at_ins_before [of exc "length pre" "length (b # bs)" "unat b"] by simp
  ultimately show "\<exists>e' m. before exc (length (pre @ b # bs)) e' \<and> m \<le> length (pre @ b # bs) - length pre \<and>
      length pre \<le> length (pre @ b # bs) \<and> (\<forall>k. loop (m + k) e = loop' k e')"
    by (intro exI [of _ "at_ins exc (length pre) (unat b) (length (b # bs))"] exI [of _ 1]) simp
qed

text \<open>A family of loops, by the number of open blocks, that blocks leave as it is.\<close>

definition balanced :: "(int \<Rightarrow> skip_loop) \<Rightarrow> int \<Rightarrow> bool" where
  "balanced loop n \<longleftrightarrow>
     (\<forall>k e x. SkipCode e = Some (True, x) \<longrightarrow>
        (exc_opcode x \<notin> {0x58, 0x1B, 0x59, 0x2C, 0x89, 0x2D} \<longrightarrow> loop n (Suc k) e = loop n k x) \<and>
        (exc_opcode x = 0x58 \<longrightarrow> loop n (Suc k) e = loop (n + 1) k x) \<and>
        (exc_opcode x = 0x1B \<longrightarrow> loop (n + 1) (Suc k) e = loop (n + 1) k x) \<and>
        (exc_opcode x = 0x59 \<longrightarrow> loop (n + 1) (Suc k) e = loop n k x))"

lemma balancedD:
  assumes "balanced loop n" "SkipCode e = Some (True, x)"
  shows "exc_opcode x \<notin> {0x58, 0x1B, 0x59, 0x2C, 0x89, 0x2D} \<Longrightarrow> loop n (Suc k) e = loop n k x"
    "exc_opcode x = 0x58 \<Longrightarrow> loop n (Suc k) e = loop (n + 1) k x"
    "exc_opcode x = 0x1B \<Longrightarrow> loop (n + 1) (Suc k) e = loop (n + 1) k x"
    "exc_opcode x = 0x59 \<Longrightarrow> loop (n + 1) (Suc k) e = loop n k x"
  using assms unfolding balanced_def by blast+

lemma opcode_length_flow [simp]:
  "opcode_length 0x58 = 1" "opcode_length 0x1B = 1" "opcode_length 0x59 = 1" "opcode_length 0x2D = 1"
  by (simp_all add: opcode_length_def)

lemma passes_byte:
  assumes "exc_code exc = pre @ [b] @ post" "opcode_length (unat b) = 1"
    "\<And>e k x. SkipCode e = Some (True, x) \<Longrightarrow> exc_opcode x = unat b \<Longrightarrow> loop (Suc k) e = loop' k x"
  shows "passes exc loop (length pre) loop' (length (pre @ [b]))"
  using passes_one [of exc pre b "[]" post loop loop'] assms by (simp add: Let_def)

definition passes_block :: "(int \<Rightarrow> skip_loop) \<Rightarrow> TT_ExecContext \<Rightarrow> bytes \<Rightarrow> bool" where
  "passes_block loop exc bs \<longleftrightarrow> (\<forall>n pre post. 1 \<le> n \<longrightarrow> exc_code exc = pre @ bs @ post \<longrightarrow>
     passes exc (loop n) (length pre) (loop n) (length (pre @ bs)))"

lemma passes_blockD:
  "passes_block loop exc bs \<Longrightarrow> 1 \<le> n \<Longrightarrow> exc_code exc = pre @ bs @ post \<Longrightarrow> passes exc (loop n) (length pre) (loop n) (length (pre @ bs))"
  by (simp add: passes_block_def)

lemma passes_list:
  "(\<And>a. a \<in> set as \<Longrightarrow> passes_block loop exc (block_bytes a)) \<Longrightarrow> passes_block loop exc (concat (map block_bytes as))"
proof (induction as)
  case Nil
  then show ?case by (simp add: passes_block_def passes_refl)
next
  case (Cons a as)
  show ?case unfolding passes_block_def
  proof (intro allI impI)
    fix n :: int and pre post
    assume n: "1 \<le> n" and c: "exc_code exc = pre @ concat (map block_bytes (a # as)) @ post"
    have "passes exc (loop n) (length pre) (loop n) (length (pre @ block_bytes a))"
      using c n Cons.prems by (intro passes_blockD) auto
    also have "passes exc (loop n) (length (pre @ block_bytes a)) (loop n) (length ((pre @ block_bytes a) @ concat (map block_bytes as)))"
      using c n Cons by (intro passes_blockD) auto
    finally show "passes exc (loop n) (length pre) (loop n) (length (pre @ concat (map block_bytes (a # as))))" by simp
  qed
qed

lemma passes_blocks:
  assumes b: "\<And>n. n \<ge> 1 \<Longrightarrow> balanced loop n"
  shows "block_ok a \<Longrightarrow> passes_block loop exc (block_bytes a)"
proof (induction a)
  case (Plain bs)
  then obtain c cs where bs: "bs = c # cs" and w: "whole (c # cs)" by (cases bs) auto
  have "passes exc (loop n) (length pre) (loop n) (length (pre @ c # cs))"
    if "1 \<le> n" "exc_code exc = pre @ (c # cs) @ post" for n pre post
    by (rule passes_one [OF that(2) w], rule balancedD(1) [OF b [OF that(1)]]) (use Plain bs in auto)
  then show ?case by (simp add: passes_block_def bs)
next
  case (IfOnly as)
  then have as: "passes_block loop exc (concat (map block_bytes as))" by (intro passes_list) (auto simp: list_all_iff)
  show ?case unfolding passes_block_def
  proof (intro allI impI)
    fix n :: int and pre post
    assume n: "1 \<le> n" and c: "exc_code exc = pre @ block_bytes (IfOnly as) @ post"
    let ?a = "concat (map block_bytes as)"
    have "passes exc (loop n) (length pre) (loop (n + 1)) (length (pre @ [0x58]))"
      using c by (intro passes_byte [where post = "?a @ [0x59] @ post"] balancedD(2) [OF b [OF n]]) auto
    also have "passes exc (loop (n + 1)) (length (pre @ [0x58])) (loop (n + 1)) (length ((pre @ [0x58]) @ ?a))"
      using c n by (intro passes_blockD [OF as, of _ _ "[0x59] @ post"]) auto
    also have "passes exc (loop (n + 1)) (length ((pre @ [0x58]) @ ?a)) (loop n) (length (((pre @ [0x58]) @ ?a) @ [0x59]))"
      using c by (intro passes_byte [where post = post] balancedD(4) [OF b [OF n]]) auto
    finally show "passes exc (loop n) (length pre) (loop n) (length (pre @ block_bytes (IfOnly as)))" by simp
  qed
next
  case (IfElse as bs)
  then have as: "passes_block loop exc (concat (map block_bytes as))" "passes_block loop exc (concat (map block_bytes bs))"
    by (auto intro!: passes_list simp: list_all_iff)
  show ?case unfolding passes_block_def
  proof (intro allI impI)
    fix n :: int and pre post
    assume n: "1 \<le> n" and c: "exc_code exc = pre @ block_bytes (IfElse as bs) @ post"
    let ?a = "concat (map block_bytes as)" and ?b = "concat (map block_bytes bs)"
    have "passes exc (loop n) (length pre) (loop (n + 1)) (length (pre @ [0x58]))"
      using c by (intro passes_byte [where post = "?a @ [0x1B] @ ?b @ [0x59] @ post"] balancedD(2) [OF b [OF n]]) auto
    also have "passes exc (loop (n + 1)) (length (pre @ [0x58])) (loop (n + 1)) (length ((pre @ [0x58]) @ ?a))"
      using c n by (intro passes_blockD [OF as(1), of _ _ "[0x1B] @ ?b @ [0x59] @ post"]) auto
    also have "passes exc (loop (n + 1)) (length ((pre @ [0x58]) @ ?a)) (loop (n + 1)) (length (((pre @ [0x58]) @ ?a) @ [0x1B]))"
      using c by (intro passes_byte [where post = "?b @ [0x59] @ post"] balancedD(3) [OF b [OF n]]) auto
    also have "passes exc (loop (n + 1)) (length (((pre @ [0x58]) @ ?a) @ [0x1B])) (loop (n + 1)) (length ((((pre @ [0x58]) @ ?a) @ [0x1B]) @ ?b))"
      using c n by (intro passes_blockD [OF as(2), of _ _ "[0x59] @ post"]) auto
    also have "passes exc (loop (n + 1)) (length ((((pre @ [0x58]) @ ?a) @ [0x1B]) @ ?b)) (loop n) (length (((((pre @ [0x58]) @ ?a) @ [0x1B]) @ ?b) @ [0x59]))"
      using c by (intro passes_byte [where post = post] balancedD(4) [OF b [OF n]]) auto
    finally show "passes exc (loop n) (length pre) (loop n) (length (pre @ block_bytes (IfElse as bs)))" by simp
  qed
qed

lemma passes_code:
  assumes "\<And>n. n \<ge> 1 \<Longrightarrow> balanced loop n" "list_all block_ok as" "exc_code exc = pre @ blocks_bytes as @ post"
  shows "passes exc (loop 1) (length pre) (loop 1) (length (pre @ blocks_bytes as))"
proof -
  have "passes_block loop exc (blocks_bytes as)"
    unfolding blocks_bytes_def using assms(1,2) by (intro passes_list passes_blocks) (auto simp: list_all_iff)
  from passes_blockD [OF this _ assms(3)] show ?thesis by simp
qed

lemma balanced_loops:
  "1 \<le> n \<Longrightarrow> balanced (\<lambda>n k. skip_if k n) n" "1 \<le> n \<Longrightarrow> balanced (\<lambda>n k. skip_else k n) n"
  "balanced (\<lambda>n k. skip_def k f) n"
  by (auto simp: balanced_def)

text \<open>The loop reaches the byte behind the code that it passes.\<close>

lemma passes_reaches:
  assumes "passes exc loop (length pre) loop' (length (pre @ bs))" "before exc (length pre) e"
    "exc_code exc = pre @ bs @ [b] @ post" "opcode_length (unat b) = 1" "length bs < K"
  shows "\<exists>k e'. loop K e = loop' (Suc k) e' \<and> SkipCode e' = Some (True, at_ins exc (length (pre @ bs)) (unat b) 1)"
proof -
  obtain e' m where e: "before exc (length (pre @ bs)) e'" "m \<le> length bs" "\<forall>k. loop (m + k) e = loop' k e'"
    using assms(1,2) unfolding passes_def by fastforce
  then have "loop K e = loop' (Suc (K - m - 1)) e'" using assms(5) by (metis Suc_pred add_diff_inverse_nat le_less_trans not_less_iff_gr_or_eq zero_less_diff diff_Suc_1 Suc_diff_1)
  moreover have "SkipCode e' = Some (True, at_ins exc (length (pre @ bs)) (unat b) 1)"
    by (rule SkipCode_byte [OF _ assms(4) e(1)]) (use assms(3) in simp)
  ultimately show ?thesis by blast
qed

lemma skip_if_else:
  assumes "exc_code exc = pre @ blocks_bytes as @ [0x1B] @ post" "list_all block_ok as" "before exc (length pre) e" "length (exc_code exc) \<le> K"
  shows "skip_if K 1 e = Some (at_ins exc (length pre + length (blocks_bytes as)) 0x1B 1)"
proof -
  have "passes exc (\<lambda>k. skip_if k 1) (length pre) (\<lambda>k. skip_if k 1) (length (pre @ blocks_bytes as))"
    using passes_code [of "\<lambda>n k. skip_if k n" as exc pre] balanced_loops assms(1,2) by auto
  from passes_reaches [OF this assms(3), where b = "0x1B" and post = post and K = K] assms(1,4)
  show ?thesis by auto
qed

lemma skip_if_eif:
  assumes "exc_code exc = pre @ blocks_bytes as @ [0x59] @ post" "list_all block_ok as" "before exc (length pre) e" "length (exc_code exc) \<le> K"
  shows "skip_if K 1 e = Some (at_ins exc (length pre + length (blocks_bytes as)) 0x59 1)"
proof -
  have "passes exc (\<lambda>k. skip_if k 1) (length pre) (\<lambda>k. skip_if k 1) (length (pre @ blocks_bytes as))"
    using passes_code [of "\<lambda>n k. skip_if k n" as exc pre] balanced_loops assms(1,2) by auto
  from passes_reaches [OF this assms(3), where b = "0x59" and post = post and K = K] assms(1,4)
  show ?thesis by auto
qed

lemma skip_else_eif:
  assumes "exc_code exc = pre @ blocks_bytes as @ [0x59] @ post" "list_all block_ok as" "before exc (length pre) e" "length (exc_code exc) \<le> K"
  shows "skip_else K 1 e = Some (at_ins exc (length pre + length (blocks_bytes as)) 0x59 1)"
proof -
  have "passes exc (\<lambda>k. skip_else k 1) (length pre) (\<lambda>k. skip_else k 1) (length (pre @ blocks_bytes as))"
    using passes_code [of "\<lambda>n k. skip_else k n" as exc pre] balanced_loops assms(1,2) by auto
  from passes_reaches [OF this assms(3), where b = "0x59" and post = post and K = K] assms(1,4)
  show ?thesis by auto
qed

lemma skip_def_endf:
  assumes "exc_code exc = pre @ blocks_bytes as @ [0x2D] @ post" "list_all block_ok as" "before exc (length pre) e" "length (exc_code exc) \<le> K"
  shows "skip_def K f e = Some (f (int (length pre + length (blocks_bytes as))) (at_ins exc (length pre + length (blocks_bytes as)) 0x2D 1))"
proof -
  have "passes exc (\<lambda>k. skip_def k f) (length pre) (\<lambda>k. skip_def k f) (length (pre @ blocks_bytes as))"
    using passes_code [of "\<lambda>n k. skip_def k f" as exc pre] balanced_loops assms(1,2) by auto
  from passes_reaches [OF this assms(3), where b = "0x2D" and post = post and K = K] assms(1,4)
  show ?thesis by (auto simp: at_ins_def)
qed

section \<open>Branches\<close>

lemma blocks_bytes_if [simp]:
  "block_bytes (IfOnly as) = [0x58] @ blocks_bytes as @ [0x59]"
  "block_bytes (IfElse as bs) = [0x58] @ blocks_bytes as @ [0x1B] @ blocks_bytes bs @ [0x59]"
  by (simp_all add: blocks_bytes_def)

declare block_bytes.simps(2,3) [simp del]

lemma flow_counts [simp]:
  "pop_count 0x58 = 1" "push_count 0x58 = 0" "pop_count 0x1B = 0" "push_count 0x1B = 0" "pop_count 0x59 = 0" "push_count 0x59 = 0"
  "pop_count 0x2C = 1" "push_count 0x2C = 0" "pop_count 0x2B = 1" "push_count 0x2B = 0" "pop_count 0x2D = 0" "push_count 0x2D = 0"
  by (simp_all add: pop_count_def push_count_def Pop_Push_Count_def)

lemma flow_dispatch [simp]:
  "dispatch 0x58 = Ins_IF" "dispatch 0x1B = Ins_ELSE" "dispatch 0x59 = Some" "dispatch 0x2C = Ins_FDEF" "dispatch 0x2B = Ins_CALL"
  "dispatch 0x2D = Ins_ENDF"
  by (rule ext; simp add: dispatch_def)+

lemma fetch_enough:
  assumes "stack_ok exc" "exc_code exc = pre @ [b] @ post" "exc_IP exc = int (length pre)"
    "pop_count (unat b) \<le> length (stk exc)" "push_count (unat b) \<le> pop_count (unat b)"
  shows "\<exists>rest. length (stk exc) + length rest = length (exc_stack exc) \<and> fetch exc = Some (True, poised (unat b) (stk exc) rest exc)"
proof -
  have c: "code_at exc (exc_IP exc) = Some (unat b)" using assms(2,3) by (simp add: code_at_def get_at_def nth_append)
  have l: "length (stk exc) \<le> length (exc_stack exc)" using stack_split [OF assms(1)] assms(1) by (simp add: stack_ok_def)
  have "unat b < 256" using unsigned_less [of b] by simp
  from fetch_poised [OF assms(1) c this] assms(4,5) l show ?thesis by (auto simp: supplied_def Let_def)
qed

text \<open>An instruction that goes elsewhere in the code, with the stack that is left.\<close>

lemma jump_answers:
  assumes "fetch exc = Some (True, poised opcode u rest exc)" "length u + length rest = length (exc_stack exc)" "stack_ok exc"
    "dispatch opcode (poised opcode u rest exc) = Some (at_ins (poised opcode u rest exc) q op n)"
    "u = v @ s" "length u - pop_count opcode + push_count opcode = length s" "int (q + n) = exc_IP exc + int d"
  shows "answers exc d (Some s)"
proof -
  let ?e = "at_ins (poised opcode u rest exc) q op n"
  let ?x = "?e\<lparr>exc_top := length s, exc_IP := int (q + n)\<rparr>"
  have "run_step exc = Some (suite ?x)" using assms(1,4,6) by (simp add: run_step_def at_ins_def)
  moreover have "moved exc s d ?x" using assms(2,3,5,7) by (simp add: moved_def at_ins_def core_def stack_ok_def stk_def poised_def)
  ultimately show ?thesis unfolding answers_def by auto
qed

lemma poised_before: "exc_IP exc = int q \<Longrightarrow> before (poised opcode u rest exc) (q + 1) (poised opcode u rest exc)"
  unfolding before_def
  by (intro exI [of _ "int q"] exI [of _ opcode] exI [of _ 1]) (simp add: poised_def)

lemma IF_branch:
  assumes "stack_ok exc" "exc_code exc = pre @ [0x58] @ blocks_bytes as @ [b] @ post" "b = 0x1B \<or> b = 0x59" "list_all block_ok as"
    "exc_IP exc = int (length pre)" "stk exc = a # s"
  shows "answers exc (if a \<noteq> 0 then 1 else length (blocks_bytes as) + 2) (Some s)"
proof -
  obtain rest where l: "length (stk exc) + length rest = length (exc_stack exc)" and f: "fetch exc = Some (True, poised 0x58 (stk exc) rest exc)"
    using fetch_enough [OF assms(1,2,5)] assms(6) by auto
  let ?e = "poised 0x58 (stk exc) rest exc"
  have a: "arg ?e 0 = Some a" using assms(6) by (simp add: at_args)
  have b: "before ?e (length (pre @ [0x58])) ?e" using poised_before [OF assms(5)] by simp
  have c: "exc_code ?e = (pre @ [0x58]) @ blocks_bytes as @ [b] @ post" using assms(2) by simp
  have k: "length (exc_code ?e) \<le> skip_rounds ?e" by (simp add: skip_rounds_def)
  show ?thesis
  proof (cases "a = 0")
    case False
    have "at_ins ?e (length pre) 0x58 1 = ?e" using assms(5) by (simp add: at_ins_def poised_def)
    with False a have "dispatch 0x58 ?e = Some (at_ins ?e (length pre) 0x58 1)" by (simp add: Ins_IF_def)
    then show ?thesis using False assms(1,5,6) l f by (intro jump_answers [of _ _ _ rest _ _ _ "[a]"]) auto
  next
    case True
    then have "dispatch 0x58 ?e = Some (at_ins ?e (length (pre @ [0x58]) + length (blocks_bytes as)) (unat b) 1)"
      using a assms(3,4) skip_if_else [OF _ assms(4) b k] skip_if_eif [OF _ assms(4) b k] c by (auto simp: Ins_IF_def)
    then show ?thesis using True assms(1,5,6) l f by (intro jump_answers [of _ _ _ rest _ _ _ "[a]"]) auto
  qed
qed

lemma ELSE_branch:
  assumes "stack_ok exc" "exc_code exc = pre @ [0x1B] @ blocks_bytes as @ [0x59] @ post" "list_all block_ok as"
    "exc_IP exc = int (length pre)"
  shows "answers exc (length (blocks_bytes as) + 2) (Some (stk exc))"
proof -
  obtain rest where l: "length (stk exc) + length rest = length (exc_stack exc)" and f: "fetch exc = Some (True, poised 0x1B (stk exc) rest exc)"
    using fetch_enough [OF assms(1,2,4)] by auto
  let ?e = "poised 0x1B (stk exc) rest exc"
  have b: "before ?e (length (pre @ [0x1B])) ?e" using poised_before [OF assms(4)] by simp
  have "dispatch 0x1B ?e = Some (at_ins ?e (length (pre @ [0x1B]) + length (blocks_bytes as)) 0x59 1)"
    using skip_else_eif [OF _ assms(3) b, of post "skip_rounds ?e"] assms(2) by (simp add: Ins_ELSE_def skip_rounds_def del: skip_else.simps)
  then show ?thesis using assms(1,4) l f by (intro jump_answers [of _ _ _ rest _ _ _ "[]"]) auto
qed

end
