(* ===== verification/Tt_Calls.thy ===== *)
theory Tt_Calls
  imports Tt_Blocks
begin

text \<open>
  Functions of the bytecode interpreter: the table that \<open>FDEF\<close> fills is a map from numbers to
  definitions, \<open>CALL\<close> enters what the map holds, and \<open>ENDF\<close> goes back behind the call.
\<close>

section \<open>The map of functions\<close>

definition fun_table :: "TT_ExecContext \<Rightarrow> TT_DefRecord list" where
  "fun_table exc = take (exc_numFDefs exc) (exc_FDefs exc)"

definition fun_map :: "TT_ExecContext \<Rightarrow> nat \<Rightarrow> TT_DefRecord option" where
  "fun_map exc F = (case find (\<lambda>d. def_opc d = F) (fun_table exc) of Some d \<Rightarrow> if def_active d then Some d else None | None \<Rightarrow> None)"

definition funs_ok :: "TT_ExecContext \<Rightarrow> bool" where
  "funs_ok exc \<longleftrightarrow> exc_numFDefs exc \<le> length (exc_FDefs exc) \<and> fe_maxFDefs (exc_env exc) \<le> length (exc_FDefs exc) \<and>
     distinct (map def_opc (fun_table exc)) \<and> (\<forall>d \<in> set (fun_table exc). def_opc d \<le> exc_maxFunc exc) \<and> exc_maxFunc exc < 65536"

lemma def_find_first:
  "n \<le> length ds \<Longrightarrow> def_find P n ds = Some (length (takeWhile (\<lambda>d. \<not> P d) (take n ds)))"
  by (induction P n ds rule: def_find.induct) auto

lemma find_first:
  "find P xs = (let i = length (takeWhile (\<lambda>x. \<not> P x) xs) in if i < length xs then Some (xs ! i) else None)"
  by (induction xs) (auto simp: Let_def)

lemma find_unique:
  assumes "distinct (map f xs)" "i < length xs" "f (xs ! i) = y"
  shows "find (\<lambda>x. f x = y) xs = Some (xs ! i)"
  using assms
proof (induction xs arbitrary: i)
  case (Cons x xs)
  show ?case
  proof (cases i)
    case 0
    with Cons.prems show ?thesis by simp
  next
    case (Suc j)
    with Cons.prems have "f x \<noteq> y" by auto
    with Suc Cons show ?thesis by simp
  qed
qed simp

lemma find_function_map:
  assumes "funs_ok exc"
  shows "\<exists>r. find_function F exc = Some r \<and> map_option snd r = fun_map exc F \<and> (\<forall>i d. r = Some (i, d) \<longrightarrow> i < length (exc_FDefs exc))"
proof -
  have l: "length (fun_table exc) = exc_numFDefs exc" "exc_numFDefs exc \<le> length (exc_FDefs exc)" "exc_maxFunc exc < 65536"
    using assms by (simp_all add: funs_ok_def fun_table_def)
  have n: "fun_table exc ! i = exc_FDefs exc ! i" if "i < exc_numFDefs exc" for i using that l by (simp add: fun_table_def)
  have a: "add32 (exc_maxFunc exc) 1 = exc_maxFunc exc + 1" using l(3) by (simp add: add32_def)
  show ?thesis
  proof (cases "F \<le> exc_maxFunc exc")
    case False
    then have "fun_map exc F = None"
      using assms by (auto simp: fun_map_def funs_ok_def find_Some_iff split: option.splits)
    then show ?thesis using False a by (simp add: find_function_def)
  next
    case True
    let ?q = "exc_maxFunc exc + 1 = exc_numFDefs exc \<and> def_opc (exc_FDefs exc ! F) = F"
    show ?thesis
    proof (cases ?q)
      case q: True
      have "find (\<lambda>d. def_opc d = F) (fun_table exc) = Some (exc_FDefs exc ! F)"
        using find_unique [of def_opc "fun_table exc" F F] assms q True l n by (simp add: funs_ok_def)
      then show ?thesis using q True a l by (auto simp: find_function_def fun_map_def get_at_def)
    next
      case q: False
      let ?i = "length (takeWhile (\<lambda>d. def_opc d \<noteq> F) (fun_table exc))"
      have i: "?i \<le> exc_numFDefs exc" using length_takeWhile_le l by metis
      have "def_find (\<lambda>d. def_opc d = F) (exc_numFDefs exc) (exc_FDefs exc) = Some ?i"
        using def_find_first [OF l(2)] by (simp add: fun_table_def)
      moreover have "find (\<lambda>d. def_opc d = F) (fun_table exc) = (if ?i < exc_numFDefs exc then Some (exc_FDefs exc ! ?i) else None)"
        using n l by (simp add: find_first Let_def)
      moreover have "(if add32 (exc_maxFunc exc) 1 \<noteq> exc_numFDefs exc then Some False
                  else do { d \<leftarrow> get_at (exc_FDefs exc) F; Some (def_opc d = F) }) = Some False"
        using q a True l by (auto simp: get_at_def)
      ultimately show ?thesis using q True a l i by (auto simp: find_function_def fun_map_def get_at_def)
    qed
  qed
qed

section \<open>Definitions\<close>

text \<open>Storing a definition: over the one with the number, or behind the others.\<close>

definition store_def :: "TT_DefRecord \<Rightarrow> TT_DefRecord list \<Rightarrow> TT_DefRecord list" where
  "store_def d xs = (let i = length (takeWhile (\<lambda>x. def_opc x \<noteq> def_opc d) xs) in if i < length xs then xs[i := d] else xs @ [d])"

lemma store_def_simps [simp]:
  "store_def d [] = [d]" "store_def d (x # xs) = (if def_opc x = def_opc d then d # xs else x # store_def d xs)"
  by (simp_all add: store_def_def Let_def)

lemma find_store_def: "find (\<lambda>x. def_opc x = F) (store_def d xs) = (if F = def_opc d then Some d else find (\<lambda>x. def_opc x = F) xs)"
  by (induction xs) auto

lemma set_store_def: "set (store_def d xs) \<subseteq> insert d (set xs)"
  by (induction xs) auto

lemma opcs_store_def: "def_opc ` set (store_def d xs) = insert (def_opc d) (def_opc ` set xs)"
  by (induction xs) auto

lemma distinct_store_def: "distinct (map def_opc xs) \<Longrightarrow> distinct (map def_opc (store_def d xs))"
proof (induction xs)
  case (Cons x xs)
  then show ?case using opcs_store_def [of d xs] by auto
qed simp

lemma fun_map_store:
  assumes "fun_table exc' = store_def d (fun_table exc)" "def_active d"
  shows "fun_map exc' = (fun_map exc)(def_opc d \<mapsto> d)"
  using assms by (auto simp: fun_map_def find_store_def fun_eq_iff)

lemma table_store:
  assumes "n \<le> length ds" "i = length (takeWhile (\<lambda>x. def_opc x \<noteq> def_opc d) (take n ds))" "i = n \<Longrightarrow> n < length ds"
  shows "take (if i = n then n + 1 else n) (ds[i := d]) = store_def d (take n ds)"
proof (cases "i = n")
  case True
  then have "take (n + 1) (ds[i := d]) = take n ds @ [d]" using assms(3) by (simp add: take_Suc_conv_app_nth)
  then show ?thesis using True assms(1,2) by (simp add: store_def_def Let_def)
next
  case False
  have "i \<le> length (take n ds)" unfolding assms(2) by (rule length_takeWhile_le)
  then have "i < length (take n ds)" using False assms(1) by simp
  then show ?thesis using False assms(2) by (simp add: store_def_def Let_def take_update_swap)
qed

text \<open>What \<open>FDEF\<close> notes of a body of \<open>n\<close> bytes.\<close>

definition definition_here :: "nat \<Rightarrow> nat \<Rightarrow> TT_ExecContext \<Rightarrow> TT_DefRecord" where
  "definition_here F n exc =
     \<lparr>def_range = exc_curRange exc, def_start = exc_IP exc + 1, def_end = exc_IP exc + 1 + int n, def_opc = F, def_active = True\<rparr>"

text \<open>There is room for function \<open>F\<close>.\<close>

definition definable :: "nat \<Rightarrow> TT_ExecContext \<Rightarrow> bool" where
  "definable F exc \<longleftrightarrow> F \<le> 0xFFFF \<and> fe_iniRange (exc_env exc) \<noteq> tt_coderange_glyph \<and>
     (F \<in> def_opc ` set (fun_table exc) \<or> exc_numFDefs exc < fe_maxFDefs (exc_env exc))"

lemma def_overwrite:
  "(d :: TT_DefRecord)\<lparr>def_range := r, def_opc := c, def_start := s, def_active := a, def_end := e\<rparr> =
     \<lparr>def_range = r, def_start = s, def_end = e, def_opc = c, def_active = a\<rparr>"
  by (cases d) simp

lemma FDEF_step:
  assumes "stack_ok exc" "funs_ok exc" "exc_code exc = pre @ [0x2C] @ blocks_bytes body @ [0x2D] @ post" "list_all block_ok body"
    "exc_IP exc = int (length pre)" "stk exc = f # s" "0 \<le> f" "definable (nat f) exc"
  shows "\<exists>exc'. run_step exc = Some (suite exc') \<and> stk exc' = s \<and> stack_ok exc' \<and> funs_ok exc' \<and>
    exc_IP exc' = exc_IP exc + 2 + int (length (blocks_bytes body)) \<and>
    fun_map exc' = (fun_map exc)(nat f \<mapsto> definition_here (nat f) (length (blocks_bytes body)) exc) \<and>
    exc_code exc' = exc_code exc \<and> exc_env exc' = exc_env exc \<and> exc_callTop exc' = exc_callTop exc \<and>
    exc_callStack exc' = exc_callStack exc \<and> exc_curRange exc' = exc_curRange exc"
proof -
  obtain rest where l: "length (stk exc) + length rest = length (exc_stack exc)" and ft: "fetch exc = Some (True, poised 0x2C (stk exc) rest exc)"
    using fetch_enough [OF assms(1,3,5)] assms(6) by auto
  let ?P = "poised 0x2C (stk exc) rest exc" and ?n = "exc_numFDefs exc" and ?b = "length (blocks_bytes body)"
  let ?d = "definition_here (nat f) ?b exc"
  define i where "i = length (takeWhile (\<lambda>d. def_opc d \<noteq> nat f) (fun_table exc))"
  have F: "nat f \<le> 0xFFFF" "fe_iniRange (exc_env exc) \<noteq> tt_coderange_glyph" using assms(8) by (simp_all add: definable_def)
  then have u: "ulong_of f = nat f" using assms(7) u64_id [of f] by (simp add: ulong_of_def)
  have n: "?n \<le> length (exc_FDefs exc)" "fe_maxFDefs (exc_env exc) \<le> length (exc_FDefs exc)" "length (fun_table exc) = ?n"
    using assms(2) by (simp_all add: funs_ok_def fun_table_def)
  have i: "i \<le> ?n" "def_find (\<lambda>d. def_opc d = nat f) ?n (exc_FDefs exc) = Some i"
    unfolding i_def using length_takeWhile_le [of _ "fun_table exc"] n(3) def_find_first [OF n(1)] by (simp_all add: fun_table_def)
  have r: "?n < fe_maxFDefs (exc_env exc)" if "i = ?n"
  proof -
    have "nat f \<notin> def_opc ` set (fun_table exc)"
      using that n(3) unfolding i_def by (metis (mono_tags, lifting) imageE takeWhile_eq_all_conv takeWhile_eq_take take_all_iff le_refl)
    then show ?thesis using assms(8) by (simp add: definable_def)
  qed
  have ilt: "i < length (exc_FDefs exc)" using i(1) r n by (cases "i = ?n") auto
  define new where "new = (exc_FDefs exc ! i)\<lparr>def_range := exc_curRange exc, def_opc := nat f, def_start := exc_IP exc + 1, def_active := True\<rparr>"
  define x where "x = ?P\<lparr>exc_numFDefs := if i = ?n then ?n + 1 else ?n, exc_FDefs := (exc_FDefs exc)[i := new],
      exc_maxFunc := if nat f > exc_maxFunc exc then nat f else exc_maxFunc exc\<rparr>"
  have x [simp]: "exc_code x = exc_code exc" "exc_IP x = exc_IP exc" by (simp_all add: x_def)
  have "arg ?P 0 = Some f" using assms(6) by (simp add: at_args)
  then have "Ins_FDEF ?P = skip_def (skip_rounds x) (set_FDef_end i) x"
    using F u i r ilt n unfolding Ins_FDEF_def
    by (auto simp: poised_def x_def new_def get_at_def put_at_def Let_def)
  also have "\<dots> = Some (set_FDef_end i (int (length pre + 1 + ?b)) (at_ins x (length pre + 1 + ?b) 0x2D 1))"
  proof -
    have b: "before x (length (pre @ [0x2C])) x"
      unfolding before_def using assms(5)
      by (intro exI [of _ "int (length pre)"] exI [of _ "0x2C"] exI [of _ 1]) (simp add: poised_def x_def)
    have "skip_def (skip_rounds x) (set_FDef_end i) x =
        Some (set_FDef_end i (int (length (pre @ [0x2C]) + ?b)) (at_ins x (length (pre @ [0x2C]) + ?b) 0x2D 1))"
      by (rule skip_def_endf [where exc = x and post = post, OF _ assms(4) b]) (use assms(3) in \<open>simp_all add: skip_rounds_def\<close>)
    then show ?thesis by simp
  qed
  finally have ins: "Ins_FDEF ?P = Some (set_FDef_end i (int (length pre + 1 + ?b)) (at_ins x (length pre + 1 + ?b) 0x2D 1))" (is "_ = Some ?y") .
  let ?z = "?y\<lparr>exc_top := length s, exc_IP := int (length pre + 1 + ?b) + 1\<rparr>"
  have y: "exc_error ?y = None" "exc_new_top ?y = length s" "exc_IP ?y + exc_length ?y = int (length pre + 1 + ?b) + 1"
    using assms(6) by (simp_all add: set_FDef_end_def at_ins_def x_def)
  have "run_step exc = Some (suite ?z)" using y by (simp add: run_step_def ft ins)
  moreover have "exc_stack ?z = rev s @ f # rest" "exc_top ?z = length s" using assms(6) by (simp_all add: set_FDef_end_def at_ins_def x_def)
  then have "stk ?z = s" by (simp add: stk_def)
  moreover have "stack_ok ?z" using l assms(1,6) \<open>exc_stack ?z = _\<close> \<open>exc_top ?z = _\<close> unfolding stack_ok_def by simp
  moreover have "exc_FDefs ?z = (exc_FDefs exc)[i := ?d]"
    using ilt assms(5) by (simp add: set_FDef_end_def at_ins_def x_def new_def definition_here_def def_overwrite algebra_simps)
  then have t: "fun_table ?z = store_def ?d (fun_table exc)"
    using table_store [OF n(1), of i ?d] r n ilt
    by (simp add: fun_table_def i_def definition_here_def set_FDef_end_def at_ins_def x_def split: if_splits)
  then have "fun_map ?z = (fun_map exc)(def_opc ?d \<mapsto> ?d)" by (rule fun_map_store) (simp add: definition_here_def)
  then have "fun_map ?z = (fun_map exc)(nat f \<mapsto> ?d)" by (simp add: definition_here_def)
  moreover have "funs_ok ?z"
  proof -
    let ?m = "if nat f > exc_maxFunc exc then nat f else exc_maxFunc exc"
    have "def_opc ?d = nat f" by (simp add: definition_here_def)
    then have "def_opc ` set (store_def ?d (fun_table exc)) = insert (nat f) (def_opc ` set (fun_table exc))"
      using opcs_store_def [of ?d "fun_table exc"] by simp
    moreover have "\<forall>c \<in> insert (nat f) (def_opc ` set (fun_table exc)). c \<le> ?m" using assms(2) by (auto simp: funs_ok_def)
    ultimately have "\<forall>d \<in> set (store_def ?d (fun_table exc)). def_opc d \<le> ?m" by (metis imageI)
    moreover have "?m < 65536" using assms(2) F(1) by (simp add: funs_ok_def)
    moreover have "distinct (map def_opc (store_def ?d (fun_table exc)))" using assms(2) by (simp add: funs_ok_def distinct_store_def)
    moreover have "exc_maxFunc ?z = ?m" "exc_numFDefs ?z = (if i = ?n then ?n + 1 else ?n)" "length (exc_FDefs ?z) = length (exc_FDefs exc)"
      "exc_env ?z = exc_env exc"
      by (simp_all add: set_FDef_end_def at_ins_def x_def poised_def)
    ultimately show ?thesis unfolding funs_ok_def t using r n ilt by simp
  qed
  ultimately show ?thesis using assms(5)
    by (intro exI [of _ ?z]) (simp add: set_FDef_end_def at_ins_def x_def poised_def)
qed

section \<open>Calls\<close>

definition calls :: "TT_ExecContext \<Rightarrow> TT_CallRec list" where
  "calls exc = take (exc_callTop exc) (exc_callStack exc)"

definition code_range :: "TT_ExecContext \<Rightarrow> nat \<Rightarrow> bytes \<Rightarrow> bool" where
  "code_range exc r base \<longleftrightarrow> 1 \<le> r \<and> r \<le> 3 \<and> get_at (fe_codeRangeTable (exc_env exc)) (r - 1) = Some (Some base)"

lemma goto_range:
  "code_range exc r base \<Longrightarrow> ip \<le> int (length base) \<Longrightarrow>
     Ins_Goto_CodeRange r ip exc = Some (exc\<lparr>exc_code := base, exc_IP := ip, exc_length := 0, exc_curRange := r\<rparr>)"
  by (auto simp: Ins_Goto_CodeRange_def code_range_def)

lemma CALL_step:
  assumes "stack_ok exc" "funs_ok exc" "exc_callTop exc < length (exc_callStack exc)" "exc_code exc = pre @ [0x2B] @ post"
    "exc_IP exc = int (length pre)" "stk exc = f # s" "fun_map exc (ulong_of f) = Some d"
    "code_range exc (def_range d) base" "def_start d \<le> int (length base)"
  shows "\<exists>e i. run_step exc = Some (suite e) \<and> stack_ok e \<and> stk e = s \<and> exc_code e = base \<and> exc_IP e = def_start d \<and>
    exc_curRange e = def_range d \<and> exc_callTop e = exc_callTop exc + 1 \<and> exc_env e = exc_env exc \<and>
    calls e = calls exc @ [\<lparr>Caller_Range = exc_curRange exc, Caller_IP = exc_IP exc + 1, Cur_Count = 1, Def = FDef i\<rparr>]"
proof -
  obtain rest where l: "length (stk exc) + length rest = length (exc_stack exc)" and ft: "fetch exc = Some (True, poised 0x2B (stk exc) rest exc)"
    using fetch_enough [OF assms(1,4,5)] assms(6) by auto
  let ?P = "poised 0x2B (stk exc) rest exc"
  have "funs_ok ?P" "fun_map ?P = fun_map exc"
    using assms(2) by (simp_all add: funs_ok_def fun_table_def poised_def fun_map_def fun_eq_iff)
  with find_function_map [of ?P "ulong_of f"] assms(7) obtain i where i: "find_function (ulong_of f) ?P = Some (Some (i, d))" by auto
  let ?rec = "\<lparr>Caller_Range = exc_curRange exc, Caller_IP = exc_IP exc + 1, Cur_Count = 1, Def = FDef i\<rparr>"
  let ?x = "?P\<lparr>exc_callStack := (exc_callStack exc)[exc_callTop exc := ?rec], exc_callTop := exc_callTop exc + 1\<rparr>"
  let ?y = "?x\<lparr>exc_code := base, exc_IP := def_start d, exc_length := 0, exc_curRange := def_range d\<rparr>"
  have "code_range ?x (def_range d) base" using assms(8) by (simp add: code_range_def poised_def)
  then have g: "Ins_Goto_CodeRange (def_range d) (def_start d) ?x = Some ?y" using assms(9) by (rule goto_range)
  have "push_call 1 (FDef i) ?P = Some ?x" using assms(3) by (simp add: push_call_def put_at_def poised_def)
  moreover have "arg ?P 0 = Some f" using assms(6) by (simp add: at_args)
  moreover have "\<not> exc_callTop ?P \<ge> length (exc_callStack ?P)" using assms(3) by (simp add: poised_def)
  ultimately have "Ins_CALL ?P = Some ?y" unfolding Ins_CALL_def using i g by simp
  then have "run_step exc = Some (suite (?y\<lparr>exc_top := length s, exc_IP := def_start d\<rparr>))" (is "_ = Some (suite ?z)")
    using assms(6) by (simp add: run_step_def ft)
  moreover have "exc_stack ?z = rev s @ f # rest" "exc_top ?z = length s" using assms(6) by simp_all
  moreover then have "stk ?z = s" by (simp add: stk_def)
  moreover have "stack_ok ?z" using l assms(1,6) by (simp add: stack_ok_def)
  moreover have "calls ?z = calls exc @ [?rec]" using assms(3) by (simp add: calls_def take_Suc_conv_app_nth)
  ultimately show ?thesis by (intro exI [of _ ?z] exI [of _ i]) (simp add: poised_def)
qed

text \<open>\<open>ENDF\<close> in the last round of a call.\<close>

lemma ENDF_step:
  assumes "stack_ok exc" "exc_code exc = pre @ [0x2D] @ post" "exc_IP exc = int (length pre)" "exc_callTop exc \<le> length (exc_callStack exc)"
    "calls exc = cs @ [c]" "Cur_Count c = 1" "code_range exc (Caller_Range c) base" "Caller_IP c \<le> int (length base)"
  shows "\<exists>e. run_step exc = Some (suite e) \<and> stack_ok e \<and> stk e = stk exc \<and> exc_code e = base \<and> exc_IP e = Caller_IP c \<and>
    exc_curRange e = Caller_Range c \<and> exc_callTop e = length cs \<and> calls e = cs \<and> exc_env e = exc_env exc"
proof -
  obtain rest where l: "length (stk exc) + length rest = length (exc_stack exc)" and ft: "fetch exc = Some (True, poised 0x2D (stk exc) rest exc)"
    using fetch_enough [OF assms(1,2,3)] by auto
  let ?P = "poised 0x2D (stk exc) rest exc" and ?t = "exc_callTop exc - 1"
  have t: "exc_callTop exc = Suc (length cs)" using arg_cong [OF assms(5), of length] assms(4) by (simp add: calls_def)
  have c: "exc_callStack exc ! length cs = c" "take (length cs) (exc_callStack exc) = cs"
    using assms(4) t arg_cong [OF assms(5), of "\<lambda>l. l ! length cs"] arg_cong [OF assms(5), of "take (length cs)"]
    by (simp_all add: calls_def nth_append)
  let ?x = "?P\<lparr>exc_callTop := length cs, exc_callStack := (exc_callStack exc)[length cs := c\<lparr>Cur_Count := 0\<rparr>]\<rparr>"
  let ?y = "?x\<lparr>exc_code := base, exc_IP := Caller_IP c, exc_length := 0, exc_curRange := Caller_Range c\<rparr>"
  have "code_range ?x (Caller_Range c) base" using assms(7) by (simp add: code_range_def poised_def)
  then have g: "Ins_Goto_CodeRange (Caller_Range c) (Caller_IP c) ?x = Some ?y" using assms(8) by (rule goto_range)
  have "Ins_ENDF ?P = Some ?y"
    using t c assms(4,6) g by (simp add: Ins_ENDF_def get_at_def put_at_def poised_def Let_def)
  then have "run_step exc = Some (suite (?y\<lparr>exc_top := length (stk exc), exc_IP := Caller_IP c\<rparr>))" (is "_ = Some (suite ?z)")
    by (simp add: run_step_def ft)
  moreover have "exc_stack ?z = rev (stk exc) @ rest" "exc_top ?z = length (stk exc)" by simp_all
  moreover then have "stk ?z = stk exc" unfolding stk_def [of ?z] by simp
  moreover have "stack_ok ?z" using l assms(1) by (simp add: stack_ok_def)
  moreover have "calls ?z = cs" using c by (simp add: calls_def)
  ultimately show ?thesis by (intro exI [of _ ?z]) (simp add: poised_def)
qed

section \<open>The theorems\<close>



text \<open>
  Outside glyph programs, \<open>FDEF\<close> updates the map of functions at one number, with the code up to
  its \<open>ENDF\<close>, and goes on behind it: where there is room, or the number is already defined.
\<close>
theorem FDEF_updates_map:
  assumes "stack_ok exc" "funs_ok exc" "exc_code exc = pre @ [0x2C] @ blocks_bytes body @ [0x2D] @ post" "list_all block_ok body"
    "exc_IP exc = int (length pre)" "stk exc = f # s" "0 \<le> f" "definable (nat f) exc"
  shows "\<exists>exc'. run_step exc = Some (suite exc') \<and> stk exc' = s \<and> funs_ok exc' \<and>
    exc_IP exc' = exc_IP exc + 2 + int (length (blocks_bytes body)) \<and>
    fun_map exc' = (fun_map exc)(nat f \<mapsto> definition_here (nat f) (length (blocks_bytes body)) exc)"
  using FDEF_step [OF assms] by blast

lemma FDEF_updates_map_witness:
  "let exc = (sample_context [0x2C, 0x20, 0x2D])\<lparr>exc_top := 1, exc_maxFunc := 0, exc_env := (sample_env [])\<lparr>fe_iniRange := tt_coderange_font\<rparr>\<rparr>
   in \<exists>exc'. run_step exc = Some (suite exc') \<and> stk exc' = [] \<and> funs_ok exc' \<and> exc_IP exc' = 3 \<and>
     fun_map exc' = (fun_map exc)(0 \<mapsto> \<lparr>def_range = 3, def_start = 1, def_end = 2, def_opc = 0, def_active = True\<rparr>)"
proof -
  let ?exc = "(sample_context [0x2C, 0x20, 0x2D])\<lparr>exc_top := 1, exc_maxFunc := 0, exc_env := (sample_env [])\<lparr>fe_iniRange := tt_coderange_font\<rparr>\<rparr>"
  have "\<exists>exc'. run_step ?exc = Some (suite exc') \<and> stk exc' = [] \<and> funs_ok exc' \<and>
    exc_IP exc' = exc_IP ?exc + 2 + int (length (blocks_bytes [Plain [0x20]])) \<and>
    fun_map exc' = (fun_map ?exc)(nat 0 \<mapsto> definition_here (nat 0) (length (blocks_bytes [Plain [0x20]])) ?exc)"
    by (rule FDEF_updates_map [where pre = "[]" and post = "[]"])
      (simp_all add: stack_ok_def funs_ok_def fun_table_def definable_def sample_context_def sample_env_def blocks_bytes_def
        opcode_length_def stk_def)
  then show ?thesis by (simp add: blocks_bytes_def definition_here_def sample_context_def)
qed

text \<open>
  C12: A call comes back. \<open>CALL\<close> of a function in the map enters its code, in the range where it was
  defined, with one more call on the call stack; and wherever the program then reaches an \<open>ENDF\<close> with
  these calls on it, \<open>ENDF\<close> goes on behind the \<open>CALL\<close>, in its range, with the calls as before it and
  the stack as the function left it.
\<close>
theorem CALL_ENDF_round_trip:
  assumes "stack_ok exc" "funs_ok exc" "exc_callTop exc < length (exc_callStack exc)" "exc_code exc = pre @ [0x2B] @ post"
    "exc_IP exc = int (length pre)" "stk exc = f # s" "fun_map exc (ulong_of f) = Some d"
    "code_range exc (def_range d) base" "def_start d \<le> int (length base)" "code_range exc (exc_curRange exc) (exc_code exc)"
  shows "\<exists>e. run_step exc = Some (suite e) \<and> stk e = s \<and> exc_code e = base \<and> exc_IP e = def_start d \<and>
    (\<forall>e' pre' post'. stack_ok e' \<and> exc_env e' = exc_env e \<and> exc_callTop e' \<le> length (exc_callStack e') \<and> calls e' = calls e \<and>
       exc_code e' = pre' @ [0x2D] @ post' \<and> exc_IP e' = int (length pre') \<longrightarrow>
       (\<exists>e''. run_step e' = Some (suite e'') \<and> stk e'' = stk e' \<and> exc_code e'' = exc_code exc \<and> exc_IP e'' = exc_IP exc + 1 \<and>
          exc_curRange e'' = exc_curRange exc \<and> exc_callTop e'' = exc_callTop exc \<and> calls e'' = calls exc))"
proof -
  obtain e i where e: "run_step exc = Some (suite e)" "stk e = s" "exc_code e = base" "exc_IP e = def_start d" "exc_env e = exc_env exc"
    "calls e = calls exc @ [\<lparr>Caller_Range = exc_curRange exc, Caller_IP = exc_IP exc + 1, Cur_Count = 1, Def = FDef i\<rparr>]"
    using CALL_step [OF assms(1-9)] by blast
  have "\<exists>e''. run_step e' = Some (suite e'') \<and> stk e'' = stk e' \<and> exc_code e'' = exc_code exc \<and> exc_IP e'' = exc_IP exc + 1 \<and>
      exc_curRange e'' = exc_curRange exc \<and> exc_callTop e'' = exc_callTop exc \<and> calls e'' = calls exc"
    if "stack_ok e'" "exc_env e' = exc_env e" "exc_callTop e' \<le> length (exc_callStack e')" "calls e' = calls e"
      "exc_code e' = pre' @ [0x2D] @ post'" "exc_IP e' = int (length pre')" for e' pre' post'
  proof -
    have "code_range e' (exc_curRange exc) (exc_code exc)" using assms(10) e(5) that(2) by (simp add: code_range_def)
    moreover have "length (calls exc) = exc_callTop exc" using assms(3) by (simp add: calls_def)
    moreover have "exc_IP exc + 1 \<le> int (length (exc_code exc))" using assms(4,5) by simp
    ultimately show ?thesis
      using ENDF_step [OF that(1,5,6,3), of "calls exc" _ "exc_code exc", OF trans [OF that(4) e(6)]] by auto
  qed
  then show ?thesis using e by (intro exI [of _ e]) blast
qed

text \<open>A glyph program that calls function 0 of the font program.\<close>

lemma CALL_ENDF_round_trip_witness:
  "let exc = (sample_context [0x2B])\<lparr>exc_top := 1, exc_maxFunc := 0, exc_numFDefs := 1,
        exc_FDefs := [\<lparr>def_range = 1, def_start = 4, def_end = 6, def_opc = 0, def_active = True\<rparr>],
        exc_env := (sample_env [0x2B])\<lparr>fe_maxFDefs := 1, fe_codeRangeTable := [Some (replicate 9 0), None, Some [0x2B]]\<rparr>\<rparr>
   in \<exists>e. run_step exc = Some (suite e) \<and> stk e = [] \<and> exc_code e = replicate 9 0 \<and> exc_IP e = 4"
proof -
  let ?exc = "(sample_context [0x2B])\<lparr>exc_top := 1, exc_maxFunc := 0, exc_numFDefs := 1,
        exc_FDefs := [\<lparr>def_range = 1, def_start = 4, def_end = 6, def_opc = 0, def_active = True\<rparr>],
        exc_env := (sample_env [0x2B])\<lparr>fe_maxFDefs := 1, fe_codeRangeTable := [Some (replicate 9 0), None, Some [0x2B]]\<rparr>\<rparr>"
  let ?d = "\<lparr>def_range = 1, def_start = 4, def_end = 6, def_opc = 0, def_active = True\<rparr>"
  have 1: "stack_ok ?exc" "funs_ok ?exc" "exc_callTop ?exc < length (exc_callStack ?exc)" "exc_code ?exc = [] @ [0x2B] @ []"
    "exc_IP ?exc = int (length ([] :: bytes))" "stk ?exc = 0 # []"
    by (simp_all add: stack_ok_def funs_ok_def fun_table_def sample_context_def stk_def)
  have 2: "fun_map ?exc (ulong_of 0) = Some ?d" "code_range ?exc (def_range ?d) (replicate 9 0)"
    "def_start ?d \<le> int (length (replicate 9 (0 :: byte)))" "code_range ?exc (exc_curRange ?exc) (exc_code ?exc)"
    by (simp_all add: fun_map_def fun_table_def ulong_of_def u64_def code_range_def get_at_def sample_context_def)
  from CALL_ENDF_round_trip [OF 1 2] show ?thesis unfolding Let_def by (elim exE conjE) (intro exI conjI; simp)
qed

end
