(* ===== verification/Ft_Gloader.thy ===== *)
theory Ft_Gloader
  imports Ft_Calc
begin

text \<open>
  The glyph loader of \<open>src/base/ftgloadr.c\<close>: growing arrays of points, tags, contour ends and
  subglyphs, with a base part of glyphs that are done, and a current glyph behind it.

  The arrays are those of \<open>loader->base\<close>; \<open>NULL\<close> is the empty list. The pointers of \<open>loader->current\<close>
  are offsets into them: \<open>gl_cur_points\<close> for points and tags, and so on; the second extra array
  is the part of \<open>gl_extra\<close> from \<open>gl_extra2\<close> on. \<open>gl_grants\<close> says which of the next
  allocations succeed; when it is used up they all do.
\<close>

section \<open>Model\<close>

text \<open>\<open>FT_SubGlyphRec\<close>; the matrix as its four fields.\<close>

record FT_SubGlyphRec =
  sg_index :: nat
  sg_flags :: nat
  sg_arg1 :: int
  sg_arg2 :: int
  sg_transform :: FT_Matrix

record FT_GlyphLoaderRec =
  gl_max_points :: nat
  gl_max_contours :: nat
  gl_max_subglyphs :: nat
  gl_use_extra :: bool
  gl_points :: "FT_Vector list"
  gl_tags :: "nat list"
  gl_contours :: "nat list"
  gl_extra :: "FT_Vector list"
  gl_extra2 :: nat
  gl_subglyphs :: "FT_SubGlyphRec list"
  gl_n_points :: nat
  gl_n_contours :: nat
  gl_flags :: nat
  gl_num_subglyphs :: nat
  gl_cur_points :: nat
  gl_cur_contours :: nat
  gl_cur_extra :: nat
  gl_cur_extra2 :: nat
  gl_cur_subglyphs :: nat
  gl_cur_n_points :: nat
  gl_cur_n_contours :: nat
  gl_cur_num_subglyphs :: nat
  gl_grants :: "bool list"

definition FT_OUTLINE_POINTS_MAX :: nat where "FT_OUTLINE_POINTS_MAX = 0xFFFF"
definition FT_OUTLINE_CONTOURS_MAX :: nat where "FT_OUTLINE_CONTOURS_MAX = 0xFFFF"
definition FT_OUTLINE_OVERLAP :: nat where "FT_OUTLINE_OVERLAP = 0x40"

definition no_vector :: FT_Vector where "no_vector = \<lparr>vx = 0, vy = 0\<rparr>"

definition no_subglyph :: FT_SubGlyphRec where
  "no_subglyph = \<lparr>sg_index = 0, sg_flags = 0, sg_arg1 = 0, sg_arg2 = 0, sg_transform = \<lparr>mxx = 0, mxy = 0, myx = 0, myy = 0\<rparr>\<rparr>"

text \<open>The next allocation.\<close>

definition ask :: "FT_GlyphLoaderRec \<Rightarrow> bool \<times> FT_GlyphLoaderRec" where
  "ask gl = (case gl_grants gl of [] \<Rightarrow> (True, gl) | g # gs \<Rightarrow> (g, gl\<lparr>gl_grants := gs\<rparr>))"

text \<open>\<open>FT_RENEW_ARRAY\<close> that is granted: the elements behind the old ones are zero.\<close>

definition renew :: "'a \<Rightarrow> 'a list \<Rightarrow> nat \<Rightarrow> 'a list" where
  "renew z xs n = take n xs @ replicate (n - length xs) z"

definition FT_GlyphLoader_Rewind :: "FT_GlyphLoaderRec \<Rightarrow> FT_GlyphLoaderRec" where
  "FT_GlyphLoader_Rewind gl =
     gl\<lparr>gl_n_points := 0, gl_n_contours := 0, gl_flags := 0, gl_num_subglyphs := 0,
        gl_cur_points := 0, gl_cur_contours := 0, gl_cur_extra := 0, gl_cur_extra2 := gl_extra2 gl, gl_cur_subglyphs := 0,
        gl_cur_n_points := 0, gl_cur_n_contours := 0, gl_cur_num_subglyphs := 0\<rparr>"

definition FT_GlyphLoader_Reset :: "FT_GlyphLoaderRec \<Rightarrow> FT_GlyphLoaderRec" where
  "FT_GlyphLoader_Reset gl =
     FT_GlyphLoader_Rewind
       (gl\<lparr>gl_points := [], gl_tags := [], gl_contours := [], gl_extra := [], gl_subglyphs := [], gl_extra2 := 0,
           gl_max_points := 0, gl_max_contours := 0, gl_max_subglyphs := 0\<rparr>)"

definition FT_GlyphLoader_Adjust_Points :: "FT_GlyphLoaderRec \<Rightarrow> FT_GlyphLoaderRec" where
  "FT_GlyphLoader_Adjust_Points gl =
     (let gl = gl\<lparr>gl_cur_points := gl_n_points gl, gl_cur_contours := gl_n_contours gl\<rparr>
      in if gl_use_extra gl
         then gl\<lparr>gl_cur_extra := gl_n_points gl, gl_cur_extra2 := gl_extra2 gl + gl_n_points gl\<rparr>
         else gl)"

definition FT_GlyphLoader_CreateExtra :: "FT_GlyphLoaderRec \<Rightarrow> ft_error option \<times> FT_GlyphLoaderRec" where
  "FT_GlyphLoader_CreateExtra gl =
     (if gl_max_points gl = 0 \<or> gl_extra gl \<noteq> [] then (None, gl)
      else let (granted, gl) = ask gl
        in if granted
           then (None, FT_GlyphLoader_Adjust_Points
                  (gl\<lparr>gl_extra := replicate (2 * gl_max_points gl) no_vector, gl_use_extra := True, gl_extra2 := gl_max_points gl\<rparr>))
           else (Some Out_Of_Memory, gl))"

definition FT_GlyphLoader_Adjust_Subglyphs :: "FT_GlyphLoaderRec \<Rightarrow> FT_GlyphLoaderRec" where
  "FT_GlyphLoader_Adjust_Subglyphs gl = gl\<lparr>gl_cur_subglyphs := gl_num_subglyphs gl\<rparr>"

text \<open>\<open>new_max\<close>, when \<open>wanted\<close> elements are more than \<open>old_max\<close>: half as many again at least, padded.\<close>

definition new_max :: "nat \<Rightarrow> nat \<Rightarrow> nat \<Rightarrow> nat \<Rightarrow> nat" where
  "new_max wanted old_max pad limit =
     (let min_new_max = old_max + old_max div 2;
          n = (if wanted < min_new_max then min_new_max else wanted);
          n = pad_floor (n + pad - 1) pad
      in if n > limit then limit else n)"

text \<open>The three parts of \<open>FT_GlyphLoader_CheckPoints\<close>; with the error, whether to adjust.\<close>

definition grow_extra :: "nat \<Rightarrow> nat \<Rightarrow> FT_GlyphLoaderRec \<Rightarrow> ft_error option \<times> FT_GlyphLoaderRec" where
  "grow_extra old_max n gl =
     (if gl_use_extra gl
      then let (granted, gl) = ask gl
        in if \<not> granted then (Some Out_Of_Memory, gl)
           else let e = renew no_vector (gl_extra gl) (n * 2)
             in (None, gl\<lparr>gl_extra := take n e @ take old_max (drop old_max e) @ drop (n + old_max) e, gl_extra2 := n\<rparr>)
      else (None, gl))"

definition grow_points :: "nat \<Rightarrow> FT_GlyphLoaderRec \<Rightarrow> (ft_error option \<times> bool) \<times> FT_GlyphLoaderRec" where
  "grow_points n_points gl =
     (let wanted = add32 (add32 (gl_n_points gl) (gl_cur_n_points gl)) n_points;
          old_max = gl_max_points gl;
          n = new_max wanted old_max 8 FT_OUTLINE_POINTS_MAX
      in if wanted \<le> old_max then ((None, False), gl)
         else if wanted > FT_OUTLINE_POINTS_MAX then ((Some Array_Too_Large, False), gl)
         else let (granted, gl) = ask gl
           in if \<not> granted then ((Some Out_Of_Memory, False), gl)
              else let gl = gl\<lparr>gl_points := renew no_vector (gl_points gl) n\<rparr>; (granted, gl) = ask gl
                in if \<not> granted then ((Some Out_Of_Memory, False), gl)
                   else let (error, gl) = grow_extra old_max n (gl\<lparr>gl_tags := renew 0 (gl_tags gl) n\<rparr>)
                     in if error \<noteq> None then ((error, False), gl)
                        else ((None, True), gl\<lparr>gl_max_points := n\<rparr>))"

definition grow_contours :: "nat \<Rightarrow> FT_GlyphLoaderRec \<Rightarrow> (ft_error option \<times> bool) \<times> FT_GlyphLoaderRec" where
  "grow_contours n_contours gl =
     (let wanted = add32 (add32 (gl_n_contours gl) (gl_cur_n_contours gl)) n_contours;
          old_max = gl_max_contours gl;
          n = new_max wanted old_max 4 FT_OUTLINE_CONTOURS_MAX
      in if wanted \<le> old_max then ((None, False), gl)
         else if wanted > FT_OUTLINE_CONTOURS_MAX then ((Some Array_Too_Large, False), gl)
         else let (granted, gl) = ask gl
           in if \<not> granted then ((Some Out_Of_Memory, False), gl)
              else ((None, True), gl\<lparr>gl_contours := renew 0 (gl_contours gl) n, gl_max_contours := n\<rparr>))"

text \<open>Every error resets the loader.\<close>

definition FT_GlyphLoader_CheckPoints :: "nat \<Rightarrow> nat \<Rightarrow> FT_GlyphLoaderRec \<Rightarrow> ft_error option \<times> FT_GlyphLoaderRec" where
  "FT_GlyphLoader_CheckPoints n_points n_contours gl =
     (let (error, gl) =
        (case FT_GlyphLoader_CreateExtra gl of
           (Some e, gl) \<Rightarrow> (Some e, gl)
         | (None, gl) \<Rightarrow>
             case grow_points n_points gl of
               ((Some e, _), gl) \<Rightarrow> (Some e, gl)
             | ((None, adjust), gl) \<Rightarrow>
                 case FT_GlyphLoader_CreateExtra gl of
                   (Some e, gl) \<Rightarrow> (Some e, gl)
                 | (None, gl) \<Rightarrow>
                     case grow_contours n_contours gl of
                       ((Some e, _), gl) \<Rightarrow> (Some e, gl)
                     | ((None, adjust'), gl) \<Rightarrow> (None, if adjust \<or> adjust' then FT_GlyphLoader_Adjust_Points gl else gl))
      in (error, if error \<noteq> None then FT_GlyphLoader_Reset gl else gl))"

text \<open>The macro \<open>FT_GLYPHLOADER_CHECK_POINTS\<close>.\<close>

definition FT_GLYPHLOADER_CHECK_POINTS :: "nat \<Rightarrow> nat \<Rightarrow> FT_GlyphLoaderRec \<Rightarrow> ft_error option \<times> FT_GlyphLoaderRec" where
  "FT_GLYPHLOADER_CHECK_POINTS points contours gl =
     (if (points = 0 \<or> add32 (add32 (gl_n_points gl) (gl_cur_n_points gl)) points \<le> gl_max_points gl) \<and>
         (contours = 0 \<or> add32 (add32 (gl_n_contours gl) (gl_cur_n_contours gl)) contours \<le> gl_max_contours gl)
      then (None, gl) else FT_GlyphLoader_CheckPoints points contours gl)"

text \<open>\<open>FT_INT_MAX / sizeof ( FT_SubGlyphRec )\<close>: \<open>ft_mem_qrealloc\<close> refuses larger arrays. The record has 48 bytes.\<close>

definition SUBGLYPHS_MAX :: nat where "SUBGLYPHS_MAX = 0x7FFFFFFF div 48"

definition FT_GlyphLoader_CheckSubGlyphs :: "nat \<Rightarrow> FT_GlyphLoaderRec \<Rightarrow> ft_error option \<times> FT_GlyphLoaderRec" where
  "FT_GlyphLoader_CheckSubGlyphs n_subs gl =
     (let wanted = add32 (add32 (gl_num_subglyphs gl) (gl_cur_num_subglyphs gl)) n_subs
      in if wanted \<le> gl_max_subglyphs gl then (None, gl)
         else let n = pad_floor (add32 wanted 1) 2
           in if n > SUBGLYPHS_MAX then (Some Array_Too_Large, gl)
              else let (granted, gl) = ask gl
                in if \<not> granted then (Some Out_Of_Memory, gl)
              else (None, FT_GlyphLoader_Adjust_Subglyphs
                     (gl\<lparr>gl_subglyphs := renew no_subglyph (gl_subglyphs gl) n, gl_max_subglyphs := n\<rparr>)))"

definition FT_GlyphLoader_Prepare :: "FT_GlyphLoaderRec \<Rightarrow> FT_GlyphLoaderRec" where
  "FT_GlyphLoader_Prepare gl =
     FT_GlyphLoader_Adjust_Subglyphs (FT_GlyphLoader_Adjust_Points
       (gl\<lparr>gl_cur_n_points := 0, gl_cur_n_contours := 0, gl_cur_num_subglyphs := 0\<rparr>))"

text \<open>\<open>current->contours[n] += base->n_points\<close>, from contour \<open>n\<close> on; the sums are \<open>FT_UShort\<close>s.\<close>

fun shift_contours :: "nat \<Rightarrow> nat \<Rightarrow> FT_GlyphLoaderRec \<Rightarrow> FT_GlyphLoaderRec option" where
  "shift_contours n 0 gl = Some gl"
| "shift_contours n (Suc k) gl = do {
     c \<leftarrow> (if gl_cur_contours gl + n < length (gl_contours gl) then Some (gl_contours gl ! (gl_cur_contours gl + n)) else None);
     shift_contours (n + 1) k
       (gl\<lparr>gl_contours := (gl_contours gl)[gl_cur_contours gl + n := (c + gl_n_points gl) mod 65536]\<rparr>)
   }"

definition FT_GlyphLoader_Add :: "FT_GlyphLoaderRec \<Rightarrow> FT_GlyphLoaderRec option" where
  "FT_GlyphLoader_Add gl = do {
     gl \<leftarrow> shift_contours 0 (gl_cur_n_contours gl) gl;
     Some (FT_GlyphLoader_Prepare
       (gl\<lparr>gl_n_points := (gl_n_points gl + gl_cur_n_points gl) mod 65536,
           gl_n_contours := (gl_n_contours gl + gl_cur_n_contours gl) mod 65536,
           gl_num_subglyphs := add32 (gl_num_subglyphs gl) (gl_cur_num_subglyphs gl)\<rparr>))
   }"

text \<open>\<open>FT_GlyphLoader_New\<close>: a zeroed record.\<close>

definition FT_GlyphLoader_New :: "bool list \<Rightarrow> FT_GlyphLoaderRec" where
  "FT_GlyphLoader_New grants =
     \<lparr>gl_max_points = 0, gl_max_contours = 0, gl_max_subglyphs = 0, gl_use_extra = False, gl_points = [], gl_tags = [],
      gl_contours = [], gl_extra = [], gl_extra2 = 0, gl_subglyphs = [], gl_n_points = 0, gl_n_contours = 0, gl_flags = 0,
      gl_num_subglyphs = 0, gl_cur_points = 0, gl_cur_contours = 0, gl_cur_extra = 0, gl_cur_extra2 = 0, gl_cur_subglyphs = 0,
      gl_cur_n_points = 0, gl_cur_n_contours = 0, gl_cur_num_subglyphs = 0, gl_grants = grants\<rparr>"

section \<open>The invariant\<close>

text \<open>
  The arrays are as long as the maxima say, and the base and the current glyph fit; and the pointers
  of the current glyph point behind the base.
\<close>

definition gl_sized :: "FT_GlyphLoaderRec \<Rightarrow> bool" where
  "gl_sized gl \<longleftrightarrow>
     length (gl_points gl) = gl_max_points gl \<and> length (gl_tags gl) = gl_max_points gl \<and>
     length (gl_contours gl) = gl_max_contours gl \<and> length (gl_subglyphs gl) = gl_max_subglyphs gl \<and>
     gl_max_points gl \<le> 65535 \<and> gl_max_contours gl \<le> 65535 \<and> gl_max_subglyphs gl \<le> SUBGLYPHS_MAX \<and>
     (gl_extra gl \<noteq> [] \<longrightarrow> gl_use_extra gl \<and> length (gl_extra gl) = 2 * gl_max_points gl \<and> gl_extra2 gl = gl_max_points gl) \<and>
     (gl_use_extra gl \<and> gl_max_points gl > 0 \<longrightarrow> gl_extra gl \<noteq> []) \<and>
     gl_n_points gl + gl_cur_n_points gl \<le> gl_max_points gl \<and> gl_n_contours gl + gl_cur_n_contours gl \<le> gl_max_contours gl \<and>
     gl_num_subglyphs gl + gl_cur_num_subglyphs gl \<le> gl_max_subglyphs gl \<and> gl_cur_subglyphs gl = gl_num_subglyphs gl"

definition gl_aimed :: "FT_GlyphLoaderRec \<Rightarrow> bool" where
  "gl_aimed gl \<longleftrightarrow> gl_cur_points gl = gl_n_points gl \<and> gl_cur_contours gl = gl_n_contours gl \<and>
     (gl_extra gl \<noteq> [] \<longrightarrow> gl_cur_extra gl = gl_n_points gl \<and> gl_cur_extra2 gl = gl_extra2 gl + gl_n_points gl)"

definition gl_ok :: "FT_GlyphLoaderRec \<Rightarrow> bool" where
  "gl_ok gl \<longleftrightarrow> gl_sized gl \<and> gl_aimed gl"

text \<open>What growing keeps: the glyphs stored so far, the counters, and the second half of the extra points.\<close>

definition gl_keeps :: "FT_GlyphLoaderRec \<Rightarrow> FT_GlyphLoaderRec \<Rightarrow> bool" where
  "gl_keeps gl gl' \<longleftrightarrow>
     take (gl_max_points gl) (gl_points gl') = gl_points gl \<and> take (gl_max_points gl) (gl_tags gl') = gl_tags gl \<and>
     take (gl_max_contours gl) (gl_contours gl') = gl_contours gl \<and> take (gl_max_subglyphs gl) (gl_subglyphs gl') = gl_subglyphs gl \<and>
     gl_n_points gl' = gl_n_points gl \<and> gl_cur_n_points gl' = gl_cur_n_points gl \<and> gl_n_contours gl' = gl_n_contours gl \<and>
     gl_cur_n_contours gl' = gl_cur_n_contours gl \<and> gl_num_subglyphs gl' = gl_num_subglyphs gl \<and>
     gl_cur_num_subglyphs gl' = gl_cur_num_subglyphs gl \<and> gl_flags gl' = gl_flags gl \<and>
     (gl_extra gl \<noteq> [] \<longrightarrow> gl_extra gl' \<noteq> [] \<and> take (gl_max_points gl) (gl_extra gl') = take (gl_max_points gl) (gl_extra gl) \<and>
        take (gl_max_points gl) (drop (gl_extra2 gl') (gl_extra gl')) = drop (gl_extra2 gl) (gl_extra gl)) \<and>
     gl_max_points gl \<le> gl_max_points gl' \<and> gl_max_contours gl \<le> gl_max_contours gl' \<and> gl_max_subglyphs gl \<le> gl_max_subglyphs gl'"

lemma gl_keeps_refl: "gl_sized gl \<Longrightarrow> gl_keeps gl gl"
  by (simp add: gl_keeps_def gl_sized_def)

lemma ask_cases: "ask gl = (g, gl') \<Longrightarrow> \<exists>gs. gl' = gl\<lparr>gl_grants := gs\<rparr>"
  by (cases "gl_grants gl") (auto simp: ask_def intro: exI [of _ "[]"])

lemma grants_update [simp]:
  "gl_sized (gl\<lparr>gl_grants := gs\<rparr>) = gl_sized gl" "gl_aimed (gl\<lparr>gl_grants := gs\<rparr>) = gl_aimed gl"
  "gl_keeps gl (gl'\<lparr>gl_grants := gs\<rparr>) = gl_keeps gl gl'" "gl_keeps (gl\<lparr>gl_grants := gs\<rparr>) gl' = gl_keeps gl gl'"
  by (simp_all add: gl_sized_def gl_aimed_def gl_keeps_def)

lemma length_renew [simp]: "length xs \<le> n \<Longrightarrow> length (renew z xs n) = n"
  by (simp add: renew_def)

lemma take_renew: "m \<le> length xs \<Longrightarrow> length xs \<le> n \<Longrightarrow> take m (renew z xs n) = take m xs"
  by (simp add: renew_def)

lemma pad_ge: "0 < pad \<Longrightarrow> n \<le> pad_floor (n + pad - 1) pad"
  using pad_floor_gt [of pad "n + pad - 1"] by linarith

lemma new_max_bounds:
  assumes "old < wanted" "wanted \<le> limit" "0 < pad"
  shows "wanted \<le> new_max wanted old pad limit" "new_max wanted old pad limit \<le> limit" "old \<le> new_max wanted old pad limit"
proof -
  let ?n = "if wanted < old + old div 2 then old + old div 2 else wanted"
  have "wanted \<le> ?n" by simp
  with pad_ge [OF assms(3), of ?n] show "wanted \<le> new_max wanted old pad limit" using assms(2) by (simp add: new_max_def Let_def)
  then show "old \<le> new_max wanted old pad limit" using assms(1) by linarith
  show "new_max wanted old pad limit \<le> limit" by (simp add: new_max_def Let_def)
qed

lemma Rewind_ok:
  assumes "gl_ok gl"
  shows "gl_ok (FT_GlyphLoader_Rewind gl)"
  using assms by (auto simp: gl_ok_def gl_sized_def gl_aimed_def FT_GlyphLoader_Rewind_def)

lemma Reset_ok: "gl_ok (FT_GlyphLoader_Reset gl)"
  by (simp add: gl_ok_def gl_sized_def gl_aimed_def FT_GlyphLoader_Reset_def FT_GlyphLoader_Rewind_def)

lemma Adjust_sized: "gl_sized gl \<Longrightarrow> gl_ok (FT_GlyphLoader_Adjust_Points gl)"
  by (auto simp: FT_GlyphLoader_Adjust_Points_def Let_def gl_ok_def gl_sized_def gl_aimed_def)

lemma Adjust_simps [simp]:
  "gl_keeps gl (FT_GlyphLoader_Adjust_Points gl') = gl_keeps gl gl'"
  "gl_max_points (FT_GlyphLoader_Adjust_Points gl) = gl_max_points gl"
  "gl_max_contours (FT_GlyphLoader_Adjust_Points gl) = gl_max_contours gl"
  "gl_extra (FT_GlyphLoader_Adjust_Points gl) = gl_extra gl"
  "gl_use_extra (FT_GlyphLoader_Adjust_Points gl) = gl_use_extra gl"
  by (simp_all add: FT_GlyphLoader_Adjust_Points_def Let_def gl_keeps_def)

lemma CreateExtra_ok:
  assumes "gl_sized gl" "FT_GlyphLoader_CreateExtra gl = (error, gl')"
  shows "gl_sized gl'" "gl_aimed gl \<longrightarrow> gl_aimed gl'" "gl_keeps gl gl'" "gl_max_points gl' = gl_max_points gl"
    "gl_max_contours gl' = gl_max_contours gl" "error = None \<and> gl_max_points gl > 0 \<longrightarrow> gl_extra gl' \<noteq> []"
proof -
  have "gl_sized gl' \<and> (gl_aimed gl \<longrightarrow> gl_aimed gl') \<and> gl_keeps gl gl' \<and> gl_max_points gl' = gl_max_points gl \<and>
    gl_max_contours gl' = gl_max_contours gl \<and> (error = None \<and> gl_max_points gl > 0 \<longrightarrow> gl_extra gl' \<noteq> [])"
  proof (cases "gl_max_points gl = 0 \<or> gl_extra gl \<noteq> []")
    case True
    then show ?thesis using assms gl_keeps_refl by (auto simp: FT_GlyphLoader_CreateExtra_def)
  next
    case n: False
    obtain g gs where a: "ask gl = (g, gl\<lparr>gl_grants := gs\<rparr>)" using ask_cases by (metis surj_pair)
    show ?thesis
    proof (cases g)
      case True
      let ?x = "gl\<lparr>gl_grants := gs, gl_extra := replicate (2 * gl_max_points gl) no_vector, gl_use_extra := True, gl_extra2 := gl_max_points gl\<rparr>"
      have gl': "gl' = FT_GlyphLoader_Adjust_Points ?x" "error = None"
        using True n a assms(2) by (auto simp: FT_GlyphLoader_CreateExtra_def)
      have "gl_sized ?x" "gl_keeps gl ?x" using assms(1) n by (auto simp: gl_sized_def gl_keeps_def)
      then show ?thesis unfolding gl' using Adjust_sized [of ?x] n by (simp add: gl_ok_def)
    next
      case False
      with a assms n have "gl' = gl\<lparr>gl_grants := gs\<rparr>" "error \<noteq> None"
        by (auto simp: FT_GlyphLoader_CreateExtra_def)
      then show ?thesis using assms(1) gl_keeps_refl by auto
    qed
  qed
  then show "gl_sized gl'" "gl_aimed gl \<longrightarrow> gl_aimed gl'" "gl_keeps gl gl'" "gl_max_points gl' = gl_max_points gl"
    "gl_max_contours gl' = gl_max_contours gl" "error = None \<and> gl_max_points gl > 0 \<longrightarrow> gl_extra gl' \<noteq> []" by auto
qed

text \<open>Moving the second half of the extra points behind the new first half.\<close>

lemma moved_halves:
  assumes "length e = 2 * n" "m \<le> n"
  shows "length (take n e @ take m (drop m e) @ drop (n + m) e) = 2 * n"
    "take m (take n e @ take m (drop m e) @ drop (n + m) e) = take m e"
    "take m (drop n (take n e @ take m (drop m e) @ drop (n + m) e)) = take m (drop m e)"
  using assms by simp_all

lemma grow_points_ok:
  assumes "gl_sized gl" "gl_n_points gl + gl_cur_n_points gl + n < 4294967296" "grow_points n gl = ((None, adjust), gl')"
  shows "gl_sized gl' \<and> gl_keeps gl gl' \<and> gl_n_points gl + gl_cur_n_points gl + n \<le> gl_max_points gl' \<and>
    gl_max_contours gl' = gl_max_contours gl \<and> (adjust \<or> gl' = gl)"
proof -
  let ?w = "gl_n_points gl + gl_cur_n_points gl + n" and ?m = "gl_max_points gl"
  let ?n = "new_max ?w ?m 8 FT_OUTLINE_POINTS_MAX"
  have w: "add32 (add32 (gl_n_points gl) (gl_cur_n_points gl)) n = ?w" using assms(2) by (simp add: add32_def)
  show ?thesis
  proof (cases "?w \<le> ?m")
    case True
    then show ?thesis using assms(1,3) gl_keeps_refl by (simp add: grow_points_def w)
  next
    case big: False
    then have le: "?w \<le> FT_OUTLINE_POINTS_MAX" using assms(3) by (auto simp: grow_points_def w Let_def split: if_splits)
    have b: "?w \<le> ?n" "?n \<le> 65535" "?m \<le> ?n"
      using new_max_bounds [of ?m ?w FT_OUTLINE_POINTS_MAX 8] big le by (simp_all add: FT_OUTLINE_POINTS_MAX_def)
    obtain gs1 where a1: "ask gl = (True, gl\<lparr>gl_grants := gs1\<rparr>)"
      using assms(3) big le ask_cases [of gl] by (auto simp: grow_points_def w Let_def split: if_splits prod.splits)
    let ?x1 = "gl\<lparr>gl_grants := gs1, gl_points := renew no_vector (gl_points gl) ?n\<rparr>"
    obtain gs2 where a2: "ask ?x1 = (True, ?x1\<lparr>gl_grants := gs2\<rparr>)"
      using assms(3) big le a1 ask_cases [of ?x1] by (auto simp: grow_points_def w Let_def split: if_splits prod.splits)
    let ?x2 = "?x1\<lparr>gl_grants := gs2, gl_tags := renew 0 (gl_tags gl) ?n\<rparr>"
    obtain x3 where g: "grow_extra ?m ?n ?x2 = (None, x3)" and gl': "adjust" "gl' = x3\<lparr>gl_max_points := ?n\<rparr>"
      using assms(3) big le a1 a2 by (auto simp: grow_points_def w Let_def split: if_splits prod.splits)
    show ?thesis
    proof (cases "gl_use_extra gl")
      case False
      then have "x3 = ?x2" using g by (simp add: grow_extra_def)
      then show ?thesis using gl' assms(1) b False by (auto simp: gl_sized_def gl_keeps_def take_renew)
    next
      case True
      obtain gs3 where a3: "ask ?x2 = (True, ?x2\<lparr>gl_grants := gs3\<rparr>)"
        using g True ask_cases [of ?x2] by (auto simp: grow_extra_def Let_def split: if_splits prod.splits)
      let ?e = "renew no_vector (gl_extra gl) (?n * 2)"
      have le: "length (gl_extra gl) = 2 * ?m" "gl_extra gl \<noteq> [] \<longrightarrow> gl_extra2 gl = ?m"
        using assms(1) True by (cases "?m = 0"; auto simp: gl_sized_def)+
      then have e: "length ?e = 2 * ?n" using b by simp
      have x3: "x3 = ?x2\<lparr>gl_grants := gs3, gl_extra := take ?n ?e @ take ?m (drop ?m ?e) @ drop (?n + ?m) ?e, gl_extra2 := ?n\<rparr>"
        using g True a3 by (simp add: grow_extra_def Let_def)
      have "take ?m ?e = take ?m (gl_extra gl)" "take ?m (drop ?m ?e) = drop ?m (gl_extra gl)"
        using le b by (simp_all add: renew_def)
      moreover have "?n > 0" using b(1) big by linarith
      ultimately show ?thesis using moved_halves [OF e b(3)] x3 gl' True le assms(1) b
        by (auto simp: gl_sized_def gl_keeps_def take_renew)
    qed
  qed
qed

lemma grow_contours_ok:
  assumes "gl_sized gl" "gl_n_contours gl + gl_cur_n_contours gl + n < 4294967296" "grow_contours n gl = ((None, adjust), gl')"
  shows "gl_sized gl' \<and> gl_keeps gl gl' \<and> gl_n_contours gl + gl_cur_n_contours gl + n \<le> gl_max_contours gl' \<and>
    gl_max_points gl' = gl_max_points gl \<and> gl_extra gl' = gl_extra gl \<and> (adjust \<or> gl' = gl)"
proof -
  let ?w = "gl_n_contours gl + gl_cur_n_contours gl + n" and ?m = "gl_max_contours gl"
  let ?n = "new_max ?w ?m 4 FT_OUTLINE_CONTOURS_MAX"
  have w: "add32 (add32 (gl_n_contours gl) (gl_cur_n_contours gl)) n = ?w" using assms(2) by (simp add: add32_def)
  show ?thesis
  proof (cases "?w \<le> ?m")
    case True
    then show ?thesis using assms(1,3) gl_keeps_refl by (simp add: grow_contours_def w)
  next
    case big: False
    then have le: "?w \<le> FT_OUTLINE_CONTOURS_MAX" using assms(3) by (auto simp: grow_contours_def w Let_def split: if_splits)
    have b: "?w \<le> ?n" "?n \<le> 65535" "?m \<le> ?n"
      using new_max_bounds [of ?m ?w FT_OUTLINE_CONTOURS_MAX 4] big le by (simp_all add: FT_OUTLINE_CONTOURS_MAX_def)
    obtain gs where "adjust" "gl' = gl\<lparr>gl_grants := gs, gl_contours := renew 0 (gl_contours gl) ?n, gl_max_contours := ?n\<rparr>"
      using assms(3) big le ask_cases [of gl] by (auto simp: grow_contours_def w Let_def split: if_splits prod.splits)
    then show ?thesis using assms(1) b by (auto simp: gl_sized_def gl_keeps_def take_renew)
  qed
qed

lemma take_mono_eq: "m \<le> m' \<Longrightarrow> take m' ys = xs \<Longrightarrow> take m xs = zs \<Longrightarrow> take m ys = zs"
  by (metis min.absorb1 take_take)

lemma gl_keeps_trans:
  assumes "gl_keeps a b" "gl_keeps b c"
  shows "gl_keeps a c"
  unfolding gl_keeps_def
proof (intro conjI impI)
  note k = assms [unfolded gl_keeps_def]
  show "take (gl_max_points a) (gl_points c) = gl_points a" "take (gl_max_points a) (gl_tags c) = gl_tags a"
    "take (gl_max_contours a) (gl_contours c) = gl_contours a" "take (gl_max_subglyphs a) (gl_subglyphs c) = gl_subglyphs a"
    using k take_mono_eq by blast+
  assume e: "gl_extra a \<noteq> []"
  then have b: "gl_extra b \<noteq> []" and c: "gl_extra c \<noteq> []" using k by blast+
  then show "gl_extra c \<noteq> []" by simp
  have "take (gl_max_points a) (gl_extra b) = take (gl_max_points a) (gl_extra a)" "gl_max_points a \<le> gl_max_points b"
    "take (gl_max_points b) (gl_extra c) = take (gl_max_points b) (gl_extra b)" using k e b by blast+
  then show "take (gl_max_points a) (gl_extra c) = take (gl_max_points a) (gl_extra a)" by (metis min.absorb1 take_take)
  show "take (gl_max_points a) (drop (gl_extra2 c) (gl_extra c)) = drop (gl_extra2 a) (gl_extra a)"
    using k e b take_mono_eq by blast
qed (use assms in \<open>auto simp: gl_keeps_def\<close>)

lemma CheckPoints_ok:
  assumes ok: "gl_ok gl" and np: "gl_n_points gl + gl_cur_n_points gl + np < 4294967296"
    and nc: "gl_n_contours gl + gl_cur_n_contours gl + nc < 4294967296"
    and r: "FT_GlyphLoader_CheckPoints np nc gl = (error, gl')"
  shows "gl_ok gl' \<and>
    (error = None \<longrightarrow> gl_keeps gl gl' \<and> gl_n_points gl + gl_cur_n_points gl + np \<le> gl_max_points gl' \<and>
       gl_n_contours gl + gl_cur_n_contours gl + nc \<le> gl_max_contours gl' \<and> (gl_max_points gl' > 0 \<longrightarrow> gl_extra gl' \<noteq> []))"
proof (cases error)
  case (Some e)
  then obtain g where "gl' = FT_GlyphLoader_Reset g" using r by (auto simp: FT_GlyphLoader_CheckPoints_def split: prod.splits)
  then show ?thesis using Some Reset_ok by simp
next
  case None
  then obtain g1 adj1 g2 g3 adj2 g4 where s: "FT_GlyphLoader_CreateExtra gl = (None, g1)" "grow_points np g1 = ((None, adj1), g2)"
    "FT_GlyphLoader_CreateExtra g2 = (None, g3)" "grow_contours nc g3 = ((None, adj2), g4)"
    and gl': "gl' = (if adj1 \<or> adj2 then FT_GlyphLoader_Adjust_Points g4 else g4)"
    using r by (auto simp: FT_GlyphLoader_CheckPoints_def split: prod.splits option.splits)
  have sz: "gl_sized gl" "gl_aimed gl" using ok by (simp_all add: gl_ok_def)
  note c1 = CreateExtra_ok [OF sz(1) s(1)]
  have n1: "gl_n_points g1 = gl_n_points gl" "gl_cur_n_points g1 = gl_cur_n_points gl" using c1(3) by (simp_all add: gl_keeps_def)
  have c2: "gl_sized g2 \<and> gl_keeps g1 g2 \<and> gl_n_points gl + gl_cur_n_points gl + np \<le> gl_max_points g2 \<and>
      gl_max_contours g2 = gl_max_contours g1 \<and> (adj1 \<or> g2 = g1)"
    using grow_points_ok [OF c1(1) _ s(2)] np n1 by simp
  then have "gl_sized g2" by simp
  note c3 = CreateExtra_ok [OF this s(3)]
  have k3: "gl_keeps gl g3" using gl_keeps_trans c1(3) c2 c3(3) by blast
  then have n3: "gl_n_contours g3 = gl_n_contours gl" "gl_cur_n_contours g3 = gl_cur_n_contours gl" by (simp_all add: gl_keeps_def)
  have c4: "gl_sized g4 \<and> gl_keeps g3 g4 \<and> gl_n_contours gl + gl_cur_n_contours gl + nc \<le> gl_max_contours g4 \<and>
      gl_max_points g4 = gl_max_points g3 \<and> gl_extra g4 = gl_extra g3 \<and> (adj2 \<or> g4 = g3)"
    using grow_contours_ok [OF c3(1) _ s(4)] nc n3 by simp
  have k4: "gl_keeps gl g4" using k3 c4 gl_keeps_trans by blast
  have "gl_ok gl'"
  proof (cases "adj1 \<or> adj2")
    case True
    then show ?thesis using gl' c4 Adjust_sized by simp
  next
    case False
    then have "gl_aimed g3" using c1(2) c2 c3(2) sz(2) by auto
    then show ?thesis using False gl' c4 c3(1) by (simp add: gl_ok_def)
  qed
  moreover have "gl_keeps gl gl'" "gl_max_points gl' = gl_max_points g2" "gl_max_contours gl' = gl_max_contours g4" "gl_extra gl' = gl_extra g3"
    using gl' k4 c3(4) c4 by simp_all
  ultimately show ?thesis using None c2 c3(4,6) c4 by simp
qed

lemma CHECK_POINTS_ok:
  assumes "gl_ok gl" "np < 2147483648" "nc < 2147483648" "FT_GLYPHLOADER_CHECK_POINTS np nc gl = (error, gl')"
  shows "gl_ok gl' \<and>
    (error = None \<longrightarrow> gl_keeps gl gl' \<and> gl_n_points gl + gl_cur_n_points gl + np \<le> gl_max_points gl' \<and>
       gl_n_contours gl + gl_cur_n_contours gl + nc \<le> gl_max_contours gl')"
proof -
  have b: "gl_n_points gl + gl_cur_n_points gl \<le> 65535" "gl_n_contours gl + gl_cur_n_contours gl \<le> 65535"
    "gl_n_points gl + gl_cur_n_points gl \<le> gl_max_points gl" "gl_n_contours gl + gl_cur_n_contours gl \<le> gl_max_contours gl"
    using assms(1) by (auto simp: gl_ok_def gl_sized_def)
  then have w: "add32 (add32 (gl_n_points gl) (gl_cur_n_points gl)) np = gl_n_points gl + gl_cur_n_points gl + np"
    "add32 (add32 (gl_n_contours gl) (gl_cur_n_contours gl)) nc = gl_n_contours gl + gl_cur_n_contours gl + nc"
    using assms(2,3) by (simp_all add: add32_def)
  show ?thesis
  proof (cases "(np = 0 \<or> gl_n_points gl + gl_cur_n_points gl + np \<le> gl_max_points gl) \<and>
      (nc = 0 \<or> gl_n_contours gl + gl_cur_n_contours gl + nc \<le> gl_max_contours gl)")
    case True
    then have "error = None" "gl' = gl" using assms(4) by (simp_all add: FT_GLYPHLOADER_CHECK_POINTS_def w)
    moreover have "gl_keeps gl gl" using assms(1) gl_keeps_refl by (simp add: gl_ok_def)
    ultimately show ?thesis using True b(3,4) assms(1) by auto
  next
    case False
    then have "FT_GlyphLoader_CheckPoints np nc gl = (error, gl')" using assms(4) by (simp only: FT_GLYPHLOADER_CHECK_POINTS_def w if_False)
    from CheckPoints_ok [OF assms(1) _ _ this] show ?thesis using b(1,2) assms(2,3) by simp
  qed
qed

lemma CheckSubGlyphs_ok:
  assumes "gl_ok gl" "n < 2147483648" "FT_GlyphLoader_CheckSubGlyphs n gl = (error, gl')"
  shows "gl_ok gl' \<and> gl_keeps gl gl' \<and> gl_max_points gl' = gl_max_points gl \<and> gl_max_contours gl' = gl_max_contours gl \<and>
    (error = None \<longrightarrow> gl_num_subglyphs gl + gl_cur_num_subglyphs gl + n \<le> gl_max_subglyphs gl')"
proof -
  let ?w = "gl_num_subglyphs gl + gl_cur_num_subglyphs gl + n"
  have "gl_num_subglyphs gl + gl_cur_num_subglyphs gl \<le> SUBGLYPHS_MAX" using assms(1) by (simp add: gl_ok_def gl_sized_def)
  then have w: "add32 (add32 (gl_num_subglyphs gl) (gl_cur_num_subglyphs gl)) n = ?w" "add32 ?w (Suc 0) = Suc ?w"
    using assms(2) by (simp_all add: add32_def SUBGLYPHS_MAX_def)
  have k: "gl_keeps gl gl" using assms(1) gl_keeps_refl by (simp add: gl_ok_def)
  let ?n = "pad_floor (?w + 1) 2"
  show ?thesis
  proof (cases "?w \<le> gl_max_subglyphs gl \<or> ?n > SUBGLYPHS_MAX")
    case True
    then show ?thesis using assms k by (auto simp: FT_GlyphLoader_CheckSubGlyphs_def w Let_def split: if_splits)
  next
    case big: False
    have b: "?w \<le> ?n" "gl_max_subglyphs gl \<le> ?n" using pad_ge [of 2 ?w] big by simp_all
    obtain g gs where a: "ask gl = (g, gl\<lparr>gl_grants := gs\<rparr>)" using ask_cases by (metis surj_pair)
    show ?thesis
    proof (cases g)
      case True
      then have "error = None" "gl' = FT_GlyphLoader_Adjust_Subglyphs (gl\<lparr>gl_grants := gs,
          gl_subglyphs := renew no_subglyph (gl_subglyphs gl) ?n, gl_max_subglyphs := ?n\<rparr>)"
        using assms(3) big a by (simp_all add: FT_GlyphLoader_CheckSubGlyphs_def w Let_def)
      then show ?thesis using assms(1) b big
        by (auto simp: gl_ok_def gl_sized_def gl_aimed_def gl_keeps_def FT_GlyphLoader_Adjust_Subglyphs_def take_renew)
    next
      case False
      then have "error \<noteq> None" "gl' = gl\<lparr>gl_grants := gs\<rparr>"
        using assms(3) big a by (auto simp: FT_GlyphLoader_CheckSubGlyphs_def w Let_def)
      then show ?thesis using assms(1) k by (auto simp: gl_ok_def)
    qed
  qed
qed

section \<open>Adding a glyph\<close>

definition base_contours :: "FT_GlyphLoaderRec \<Rightarrow> nat list" where
  "base_contours gl = take (gl_n_contours gl) (gl_contours gl)"

definition current_contours :: "FT_GlyphLoaderRec \<Rightarrow> nat list" where
  "current_contours gl = take (gl_cur_n_contours gl) (drop (gl_cur_contours gl) (gl_contours gl))"

text \<open>Contour ends of an outline of \<open>n\<close> points.\<close>

definition ends_ok :: "nat \<Rightarrow> nat list \<Rightarrow> bool" where
  "ends_ok n cs \<longleftrightarrow> sorted_wrt (<) cs \<and> (\<forall>c \<in> set cs. c < n)"

lemma ends_ok_append:
  "ends_ok m as \<Longrightarrow> ends_ok n bs \<Longrightarrow> ends_ok (m + n) (as @ map (\<lambda>c. c + m) bs)"
  by (force simp: ends_ok_def sorted_wrt_append sorted_wrt_map)

lemma shift_contours_run:
  "gl_cur_contours gl + j + k \<le> length (gl_contours gl) \<Longrightarrow>
     shift_contours j k gl = Some (gl\<lparr>gl_contours := take (gl_cur_contours gl + j) (gl_contours gl) @
       map (\<lambda>c. (c + gl_n_points gl) mod 65536) (take k (drop (gl_cur_contours gl + j) (gl_contours gl))) @
       drop (gl_cur_contours gl + j + k) (gl_contours gl)\<rparr>)"
proof (induction k arbitrary: j gl)
  case 0
  then show ?case by simp
next
  case (Suc k)
  let ?p = "gl_cur_contours gl + j" and ?cs = "gl_contours gl"
  let ?f = "\<lambda>c. (c + gl_n_points gl) mod 65536"
  have l: "?p < length ?cs" using Suc.prems by simp
  let ?g = "gl\<lparr>gl_contours := ?cs[?p := ?f (?cs ! ?p)]\<rparr>"
  have "shift_contours j (Suc k) gl = shift_contours (j + 1) k ?g" using l by simp
  also have "\<dots> = Some (?g\<lparr>gl_contours := take (gl_cur_contours ?g + (j + 1)) (gl_contours ?g) @
       map (\<lambda>c. (c + gl_n_points ?g) mod 65536) (take k (drop (gl_cur_contours ?g + (j + 1)) (gl_contours ?g))) @
       drop (gl_cur_contours ?g + (j + 1) + k) (gl_contours ?g)\<rparr>)"
    by (rule Suc.IH) (use Suc.prems in simp)
  also have "\<dots> = Some (gl\<lparr>gl_contours := take ?p ?cs @ map ?f (take (Suc k) (drop ?p ?cs)) @ drop (?p + Suc k) ?cs\<rparr>)"
    using l by (simp add: take_Suc_conv_app_nth Cons_nth_drop_Suc [symmetric] take_update_cancel drop_update_cancel)
  finally show ?case by simp
qed

lemma Add_run:
  assumes ok: "gl_ok gl" and c: "ends_ok (gl_n_points gl) (base_contours gl)" "ends_ok (gl_cur_n_points gl) (current_contours gl)"
  shows "\<exists>gl'. FT_GlyphLoader_Add gl = Some gl' \<and> gl_ok gl' \<and> gl_points gl' = gl_points gl \<and> gl_tags gl' = gl_tags gl \<and>
    gl_n_points gl' = gl_n_points gl + gl_cur_n_points gl \<and> gl_n_contours gl' = gl_n_contours gl + gl_cur_n_contours gl \<and>
    gl_num_subglyphs gl' = gl_num_subglyphs gl + gl_cur_num_subglyphs gl \<and> gl_subglyphs gl' = gl_subglyphs gl \<and>
    gl_cur_n_points gl' = 0 \<and> gl_cur_n_contours gl' = 0 \<and> gl_cur_num_subglyphs gl' = 0 \<and> gl_flags gl' = gl_flags gl \<and>
    gl_extra gl' = gl_extra gl \<and> gl_max_points gl' = gl_max_points gl \<and>
    base_contours gl' = base_contours gl @ map (\<lambda>c. c + gl_n_points gl) (current_contours gl) \<and>
    ends_ok (gl_n_points gl') (base_contours gl')"
proof -
  have "gl_num_subglyphs gl + gl_cur_num_subglyphs gl \<le> SUBGLYPHS_MAX" using ok by (simp add: gl_ok_def gl_sized_def)
  then have sg: "gl_num_subglyphs gl + gl_cur_num_subglyphs gl < 4294967296" by (simp add: SUBGLYPHS_MAX_def)
  have b: "length (gl_contours gl) = gl_max_contours gl" "gl_cur_contours gl = gl_n_contours gl" "gl_max_points gl \<le> 65535" "gl_max_contours gl \<le> 65535"
    "gl_n_points gl + gl_cur_n_points gl \<le> gl_max_points gl" "gl_n_contours gl + gl_cur_n_contours gl \<le> gl_max_contours gl"
    using ok by (auto simp: gl_ok_def gl_sized_def gl_aimed_def)
  let ?cs = "base_contours gl @ map (\<lambda>c. c + gl_n_points gl) (current_contours gl) @ drop (gl_n_contours gl + gl_cur_n_contours gl) (gl_contours gl)"
  have "(c + gl_n_points gl) mod 65536 = c + gl_n_points gl" if "c \<in> set (current_contours gl)" for c
  proof -
    have "c < gl_cur_n_points gl" using that c(2) by (simp add: ends_ok_def)
    then show ?thesis using b(3,5) by (intro mod_less) linarith
  qed
  then have m: "map (\<lambda>c. (c + gl_n_points gl) mod 65536) (current_contours gl) = map (\<lambda>c. c + gl_n_points gl) (current_contours gl)" by simp
  have sh: "shift_contours 0 (gl_cur_n_contours gl) gl = Some (gl\<lparr>gl_contours := ?cs\<rparr>)"
    using shift_contours_run [of gl 0 "gl_cur_n_contours gl"] b m by (simp add: base_contours_def current_contours_def)
  let ?gl' = "FT_GlyphLoader_Prepare (gl\<lparr>gl_contours := ?cs, gl_n_points := gl_n_points gl + gl_cur_n_points gl,
      gl_n_contours := gl_n_contours gl + gl_cur_n_contours gl, gl_num_subglyphs := gl_num_subglyphs gl + gl_cur_num_subglyphs gl\<rparr>)"
  have add: "FT_GlyphLoader_Add gl = Some ?gl'"
    using sh b sg by (simp add: FT_GlyphLoader_Add_def add32_def)
  have l: "length (base_contours gl) = gl_n_contours gl" "length (current_contours gl) = gl_cur_n_contours gl"
    using b by (simp_all add: base_contours_def current_contours_def)
  have bc: "base_contours ?gl' = base_contours gl @ map (\<lambda>c. c + gl_n_points gl) (current_contours gl)"
  proof -
    have "gl_contours ?gl' = ?cs" "gl_n_contours ?gl' = gl_n_contours gl + gl_cur_n_contours gl"
      by (simp_all add: FT_GlyphLoader_Prepare_def FT_GlyphLoader_Adjust_Points_def FT_GlyphLoader_Adjust_Subglyphs_def Let_def)
    then have "base_contours ?gl' = take (gl_n_contours gl + gl_cur_n_contours gl) ?cs" by (simp only: base_contours_def [of ?gl'])
    then show ?thesis using l by simp
  qed
  have "gl_ok ?gl'"
    using ok l b by (auto simp: gl_ok_def gl_sized_def gl_aimed_def FT_GlyphLoader_Prepare_def FT_GlyphLoader_Adjust_Points_def
        FT_GlyphLoader_Adjust_Subglyphs_def Let_def)
  then show ?thesis using add bc ends_ok_append [OF c]
    by (intro exI [of _ ?gl'] conjI) (auto simp: FT_GlyphLoader_Prepare_def FT_GlyphLoader_Adjust_Points_def
        FT_GlyphLoader_Adjust_Subglyphs_def Let_def)
qed

section \<open>Properties\<close>


lemma New_ok: "gl_ok (FT_GlyphLoader_New grants)"
  by (simp add: FT_GlyphLoader_New_def gl_ok_def gl_sized_def gl_aimed_def)


text \<open>
  C9: \<open>FT_GlyphLoader_Add\<close> puts the current glyph behind the base: its contour ends are moved by the
  number of points before it, and the whole is an outline again, its contour ends increasing and
  inside the points. No sum wraps around.
\<close>
theorem FT_GlyphLoader_Add_joins:
  assumes "gl_ok gl" "ends_ok (gl_n_points gl) (base_contours gl)" "ends_ok (gl_cur_n_points gl) (current_contours gl)"
  shows "\<exists>gl'. FT_GlyphLoader_Add gl = Some gl' \<and> gl_ok gl' \<and> gl_points gl' = gl_points gl \<and>
    gl_n_points gl' = gl_n_points gl + gl_cur_n_points gl \<and> gl_cur_n_points gl' = 0 \<and> gl_cur_n_contours gl' = 0 \<and>
    base_contours gl' = base_contours gl @ map (\<lambda>c. c + gl_n_points gl) (current_contours gl) \<and>
    ends_ok (gl_n_points gl') (base_contours gl')"
  using Add_run [OF assms] by blast

lemma FT_GlyphLoader_Add_joins_witness:
  "let gl = (FT_GlyphLoader_New [])\<lparr>gl_max_points := 8, gl_points := replicate 8 no_vector, gl_tags := replicate 8 0,
      gl_max_contours := 4, gl_contours := [2, 1, 3, 0], gl_n_points := 3, gl_n_contours := 1, gl_cur_points := 3, gl_cur_contours := 1,
      gl_cur_n_points := 4, gl_cur_n_contours := 2\<rparr>
   in \<exists>gl'. FT_GlyphLoader_Add gl = Some gl' \<and> base_contours gl' = [2, 4, 6]"
proof -
  let ?gl = "(FT_GlyphLoader_New [])\<lparr>gl_max_points := 8, gl_points := replicate 8 no_vector, gl_tags := replicate 8 0,
      gl_max_contours := 4, gl_contours := [2, 1, 3, 0], gl_n_points := 3, gl_n_contours := 1, gl_cur_points := 3, gl_cur_contours := 1,
      gl_cur_n_points := 4, gl_cur_n_contours := 2\<rparr>"
  have "gl_ok ?gl" "ends_ok (gl_n_points ?gl) (base_contours ?gl)" "ends_ok (gl_cur_n_points ?gl) (current_contours ?gl)"
    by (simp_all add: gl_ok_def gl_sized_def gl_aimed_def ends_ok_def base_contours_def current_contours_def FT_GlyphLoader_New_def)
  from FT_GlyphLoader_Add_joins [OF this] obtain gl' where "FT_GlyphLoader_Add ?gl = Some gl'"
    "base_contours gl' = base_contours ?gl @ map (\<lambda>c. c + gl_n_points ?gl) (current_contours ?gl)" by blast
  moreover have "base_contours ?gl = [2]" "current_contours ?gl = [1, 3]" "gl_n_points ?gl = 3"
    by (simp_all add: base_contours_def current_contours_def FT_GlyphLoader_New_def)
  ultimately show ?thesis by simp
qed

end
