(* ===== verification/Tt_Loca.thy ===== *)
theory Tt_Loca
  imports Tt_Dir
begin

text \<open>
  The locations of the glyphs in a TrueType file, \<open>src/truetype/ttpload.c\<close>: loading the \<open>loca\<close> table
  with the length of the \<open>glyf\<close> table, and the offset and size of a glyph. Values of \<open>FT_ULong\<close> are
  natural numbers below \<open>2 ^ 64\<close>; reads outside the file are \<open>None\<close>.
\<close>

section \<open>Model\<close>

text \<open>What the two functions use of a face; \<open>glyph_locations\<close> is the frame with the table.\<close>

record TT_LocaFace =
  lf_dir :: TT_Dir
  lf_num_glyphs :: nat
  lf_Index_To_Loc_Format :: int
  lf_glyf_len :: nat
  lf_glyf_offset :: nat
  lf_num_locations :: nat
  lf_glyph_locations :: "(bytes \<times> nat) option"

definition TTAG_glyf :: nat where "TTAG_glyf = FT_MAKE_TAG 103 108 121 102"
definition TTAG_loca :: nat where "TTAG_loca = FT_MAKE_TAG 108 111 99 97"

text \<open>The distance from \<open>pos\<close> to the next table in the file, and whether there is one.\<close>

fun next_table :: "nat \<Rightarrow> TT_TableRec option list \<Rightarrow> int \<Rightarrow> int \<times> bool \<Rightarrow> (int \<times> bool) option" where
  "next_table 0 dir pos r = Some r"
| "next_table (Suc n) (Some e # dir) pos (dist, found) =
     (let diff = int (tbl_Offset e) - pos
      in next_table n dir pos (if diff > 0 \<and> diff < dist then (diff, True) else (dist, found)))"
| "next_table (Suc n) _ pos r = None"

text \<open>\<open>shift\<close> of the code, as the size of an entry.\<close>

definition loca_entry :: "TT_LocaFace \<Rightarrow> nat" where
  "loca_entry face = (if lf_Index_To_Loc_Format face \<noteq> 0 then 4 else 2)"

text \<open>The repair of a table with too few entries; with the length of the table to load.\<close>

definition adjust_locations :: "nat \<Rightarrow> FT_StreamRec \<Rightarrow> TT_LocaFace \<Rightarrow> (nat \<times> TT_LocaFace) option" where
  "adjust_locations table_len stream face =
     (if lf_num_locations face < lf_num_glyphs face + 1
      then do {
        let new_loca_len = (lf_num_glyphs face + 1) * loca_entry face;
        let pos = int (FT_Stream_Pos stream);
        (dist, found) \<leftarrow> next_table (dir_num_tables (lf_dir face)) (dir_tables (lf_dir face)) pos (0x7FFFFFFF, False);
        let dist = (if found then dist else int (st_size stream) - pos);
        if new_loca_len \<le> nat (u64 dist)
        then Some (new_loca_len, face\<lparr>lf_num_locations := lf_num_glyphs face + 1\<rparr>)
        else Some (table_len, face\<lparr>lf_num_glyphs := if lf_num_locations face \<noteq> 0 then lf_num_locations face - 1 else 0\<rparr>)
      }
      else Some (table_len, face))"

definition tt_face_load_loca ::
    "bool \<Rightarrow> TT_LocaFace \<Rightarrow> FT_StreamRec \<Rightarrow> ((ft_error option \<times> TT_LocaFace) \<times> FT_StreamRec) option" where
  "tt_face_load_loca granted face stream = do {
     ((error, glyf_len), stream) \<leftarrow> tt_face_goto_table (lf_dir face) TTAG_glyf stream;
     if error \<noteq> None \<and> error \<noteq> Some Table_Missing then Some ((error, face\<lparr>lf_glyf_len := glyf_len\<rparr>), stream)
     else do {
       let face = (if error \<noteq> None then face\<lparr>lf_glyf_len := 0, lf_glyf_offset := 0\<rparr>
                   else face\<lparr>lf_glyf_len := glyf_len, lf_glyf_offset := FT_Stream_Pos stream\<rparr>);
       ((error, table_len), stream) \<leftarrow> tt_face_goto_table (lf_dir face) TTAG_loca stream;
       if error \<noteq> None then Some ((Some Locations_Missing, face), stream)
       else do {
         let table_len = (if table_len > 0x10000 * loca_entry face then 0x10000 * loca_entry face else table_len);
         let face = face\<lparr>lf_num_locations := table_len div loca_entry face\<rparr>;
         (table_len, face) \<leftarrow> adjust_locations table_len stream face;
         let ((error, frame), stream) = FT_Stream_ExtractFrame granted table_len stream;
         Some ((error, face\<lparr>lf_glyph_locations := frame\<rparr>), stream)
       }
     }
   }"

text \<open>The two entries for a glyph, in bytes; the second is missing behind the last one.\<close>

definition location_entries :: "TT_LocaFace \<Rightarrow> nat \<Rightarrow> (nat \<times> nat) option" where
  "location_entries face gindex =
     (if gindex < lf_num_locations face
      then do {
        (base, start) \<leftarrow> lf_glyph_locations face;
        if lf_Index_To_Loc_Format face \<noteq> 0
        then do {
          pos1 \<leftarrow> peek_ulong base (start + gindex * 4);
          pos2 \<leftarrow> (if gindex * 4 + 8 \<le> lf_num_locations face * 4 then peek_ulong base (start + gindex * 4 + 4) else Some pos1);
          Some (pos1, pos2)
        }
        else do {
          pos1 \<leftarrow> peek_ushort base (start + gindex * 2);
          pos2 \<leftarrow> (if gindex * 2 + 4 \<le> lf_num_locations face * 2 then peek_ushort base (start + gindex * 2 + 2) else Some pos1);
          Some (pos1 * 2, pos2 * 2)
        }
      }
      else Some (0, 0))"

definition tt_face_get_location :: "TT_LocaFace \<Rightarrow> nat \<Rightarrow> (nat \<times> nat) option" where
  "tt_face_get_location face gindex = do {
     (pos1, pos2) \<leftarrow> location_entries face gindex;
     if pos1 > lf_glyf_len face then Some (0, 0)
     else if pos2 > lf_glyf_len face \<and> int gindex \<noteq> u64 (int (lf_num_locations face) - 2) then Some (0, 0)
     else do {
       let pos2 = (if pos2 > lf_glyf_len face then lf_glyf_len face else pos2);
       Some (pos1, if pos2 \<ge> pos1 then pos2 - pos1 else lf_glyf_len face - pos1)
     }
   }"

definition tt_face_done_loca :: "TT_LocaFace \<Rightarrow> TT_LocaFace" where
  "tt_face_done_loca face = face\<lparr>lf_glyph_locations := None, lf_num_locations := 0\<rparr>"

section \<open>Loading\<close>

text \<open>The frame holds all the locations.\<close>

definition loca_ok :: "bytes \<Rightarrow> TT_LocaFace \<Rightarrow> bool" where
  "loca_ok f face \<longleftrightarrow>
     (\<exists>start. lf_glyph_locations face = Some (f, start) \<and> start + lf_num_locations face * loca_entry face \<le> length f)"

lemma next_table_run:
  "take n dir = map Some es \<Longrightarrow> length es = n \<Longrightarrow> \<exists>r. next_table n dir pos p = Some r"
proof (induction n arbitrary: dir es p)
  case (Suc n)
  then obtain e es' where "es = e # es'" by (cases es) auto
  with Suc.prems obtain dir' where "dir = Some e # dir'" "take n dir' = map Some es'" by (cases dir) auto
  with Suc \<open>es = e # es'\<close> show ?case by (cases p) (auto simp: Let_def)
qed simp

lemma extract_mem:
  assumes "mem_stream f s" "st_pos s \<le> length f" "FT_Stream_ExtractFrame g n s = ((None, frame), s')"
  shows "frame = Some (f, st_pos s) \<and> st_pos s + n \<le> length f"
  using assms by (auto simp: FT_Stream_ExtractFrame_def FT_Stream_EnterFrame_def mem_stream_def split: if_splits)

lemma goto_mem:
  assumes "mem_stream f s" "dir_holds d es" "st_pos s \<le> length f"
  shows "\<exists>error n s'. tt_face_goto_table d tag s = Some ((error, n), s') \<and> mem_stream f s' \<and> st_pos s' \<le> length f"
proof -
  obtain r where "tt_face_lookup_table d tag = Some r"
    using assms(2) lookup_run by (auto simp: dir_holds_def tt_face_lookup_table_def)
  then show ?thesis using assms(1,3)
    by (cases r) (auto simp: tt_face_goto_table_def mem_seek)
qed

lemma adjust_run:
  assumes "dir_holds (lf_dir face) es" "lf_num_locations face * loca_entry face \<le> len"
  shows "\<exists>len' face'. adjust_locations len s face = Some (len', face') \<and> lf_num_locations face' * loca_entry face \<le> len' \<and>
    lf_Index_To_Loc_Format face' = lf_Index_To_Loc_Format face \<and> lf_glyf_len face' = lf_glyf_len face \<and> lf_glyf_offset face' = lf_glyf_offset face"
proof (cases "lf_num_locations face < lf_num_glyphs face + 1")
  case True
  obtain dist found where "next_table (dir_num_tables (lf_dir face)) (dir_tables (lf_dir face)) (int (FT_Stream_Pos s)) (0x7FFFFFFF, False) = Some (dist, found)"
    using next_table_run [of "length es" "dir_tables (lf_dir face)" es] assms(1) by (force simp: dir_holds_def)
  then show ?thesis using True assms(2) by (auto simp: adjust_locations_def Let_def)
qed (use assms(2) in \<open>simp add: adjust_locations_def\<close>)

lemma loca_entry_cong: "lf_Index_To_Loc_Format a = lf_Index_To_Loc_Format b \<Longrightarrow> loca_entry a = loca_entry b"
  by (simp add: loca_entry_def)

lemma load_loca_run:
  assumes "mem_stream f s" "dir_holds (lf_dir face) es" "st_pos s \<le> length f"
  shows "\<exists>error face' s'. tt_face_load_loca granted face s = Some ((error, face'), s') \<and> (error = None \<longrightarrow> loca_ok f face')"
proof -
  obtain e1 len1 s1 where g1: "tt_face_goto_table (lf_dir face) TTAG_glyf s = Some ((e1, len1), s1)" "mem_stream f s1" "st_pos s1 \<le> length f"
    using goto_mem [OF assms] by blast
  show ?thesis
  proof (cases "e1 \<noteq> None \<and> e1 \<noteq> Some Table_Missing")
    case True
    then show ?thesis using g1(1) by (auto simp: tt_face_load_loca_def)
  next
    case ok1: False
    define face1 where "face1 = (if e1 \<noteq> None then face\<lparr>lf_glyf_len := 0, lf_glyf_offset := 0\<rparr>
                   else face\<lparr>lf_glyf_len := len1, lf_glyf_offset := FT_Stream_Pos s1\<rparr>)"
    have d1: "lf_dir face1 = lf_dir face" by (simp add: face1_def)
    obtain e2 len2 s2 where g2: "tt_face_goto_table (lf_dir face1) TTAG_loca s1 = Some ((e2, len2), s2)" "mem_stream f s2" "st_pos s2 \<le> length f"
      using goto_mem [OF g1(2) _ g1(3)] assms(2) d1 by metis
    have run1: "tt_face_load_loca granted face s =
        (if e2 \<noteq> None then Some ((Some Locations_Missing, face1), s2)
         else do {
           let len = (if len2 > 0x10000 * loca_entry face1 then 0x10000 * loca_entry face1 else len2);
           let face = face1\<lparr>lf_num_locations := len div loca_entry face1\<rparr>;
           (len, face) \<leftarrow> adjust_locations len s2 face;
           let ((error, frame), stream) = FT_Stream_ExtractFrame granted len s2;
           Some ((error, face\<lparr>lf_glyph_locations := frame\<rparr>), stream)
         })"
      using g1(1) ok1 g2(1) unfolding tt_face_load_loca_def by (auto simp: face1_def Let_def)
    show ?thesis
    proof (cases e2)
      case (Some e)
      then show ?thesis using run1 by simp
    next
      case None
      let ?len = "if len2 > 0x10000 * loca_entry face1 then 0x10000 * loca_entry face1 else len2"
      let ?face2 = "face1\<lparr>lf_num_locations := ?len div loca_entry face1\<rparr>"
      have e: "loca_entry ?face2 = loca_entry face1" by (simp add: loca_entry_def)
      have "lf_num_locations ?face2 * loca_entry ?face2 \<le> ?len" unfolding e by simp
      moreover have "dir_holds (lf_dir ?face2) es" using assms(2) d1 by simp
      ultimately obtain len3 face3 where a: "adjust_locations ?len s2 ?face2 = Some (len3, face3)"
        "lf_num_locations face3 * loca_entry face1 \<le> len3" "lf_Index_To_Loc_Format face3 = lf_Index_To_Loc_Format face1"
        using adjust_run [of ?face2 es ?len s2] unfolding e by auto
      obtain e4 frame s4 where x: "FT_Stream_ExtractFrame granted len3 s2 = ((e4, frame), s4)" by (metis surj_pair)
      have run: "tt_face_load_loca granted face s = Some ((e4, face3\<lparr>lf_glyph_locations := frame\<rparr>), s4)"
        using run1 None a(1) x by (simp add: Let_def)
      have "loca_ok f (face3\<lparr>lf_glyph_locations := frame\<rparr>)" if "e4 = None"
      proof -
        have "frame = Some (f, st_pos s2)" "st_pos s2 + len3 \<le> length f" using extract_mem [OF g2(2,3), of granted len3 frame s4] x that by simp_all
        then show ?thesis using a(2) loca_entry_cong [of "face3\<lparr>lf_glyph_locations := frame\<rparr>" face1] a(3) by (simp add: loca_ok_def)
      qed
      then show ?thesis using run by blast
    qed
  qed
qed

lemma location_entries_run:
  assumes "loca_ok f face"
  shows "\<exists>p. location_entries face gindex = Some p"
proof -
  obtain start where s: "lf_glyph_locations face = Some (f, start)" "start + lf_num_locations face * loca_entry face \<le> length f"
    using assms by (auto simp: loca_ok_def)
  show ?thesis
  proof (cases "gindex < lf_num_locations face")
    case True
    then have "Suc gindex * loca_entry face \<le> lf_num_locations face * loca_entry face" by (intro mult_le_mono1) simp
    then show ?thesis using s True by (auto simp: location_entries_def loca_entry_def split: if_splits)
  qed (simp add: location_entries_def)
qed

lemma get_location_run:
  assumes "loca_ok f face"
  shows "\<exists>pos sz. tt_face_get_location face gindex = Some (pos, sz) \<and> pos + sz \<le> lf_glyf_len face"
proof -
  obtain pos1 pos2 where "location_entries face gindex = Some (pos1, pos2)" using location_entries_run [OF assms, of gindex] by auto
  then show ?thesis by (auto simp: tt_face_get_location_def)
qed


text \<open>
  A file with two glyphs and short locations: the directory names \<open>glyf\<close>, four bytes from 0 on, and \<open>loca\<close> behind it,
  which has two entries where three are needed; the third is missing in the file, so that one glyph is given up.
\<close>

definition two_glyphs :: bytes where
  "two_glyphs = [9, 9, 9, 9, 0, 0, 0, 2]"

definition two_face :: TT_LocaFace where
  "two_face = \<lparr>lf_dir = \<lparr>dir_num_tables = 2, dir_format_tag = 0, dir_tables = [Some \<lparr>tbl_Tag = TTAG_glyf, tbl_CheckSum = 0, tbl_Offset = 0, tbl_Length = 4\<rparr>,
     Some \<lparr>tbl_Tag = TTAG_loca, tbl_CheckSum = 0, tbl_Offset = 4, tbl_Length = 4\<rparr>]\<rparr>, lf_num_glyphs = 2, lf_Index_To_Loc_Format = 0,
     lf_glyf_len = 0, lf_glyf_offset = 0, lf_num_locations = 0, lf_glyph_locations = None\<rparr>"

lemma two_face_dir: "dir_holds (lf_dir two_face) (map the (dir_tables (lf_dir two_face)))"
  by (simp add: dir_holds_def two_face_def)

lemma two_glyphs_mem: "mem_stream two_glyphs (FT_Stream_OpenMemory two_glyphs)"
  by (rule mem_stream_open) (simp add: two_glyphs_def)


end
