(* ===== verification/Tt_Glyph.thy ===== *)
theory Tt_Glyph
  imports Ft_Gloader Tt_Loca Tt_Run
begin

text \<open>
  Reading a glyph of a TrueType file, \<open>src/truetype/ttgload.c\<close>: the frame with its bytes, its header,
  the contours, flags and points of a simple glyph, the components of a composite glyph. The
  position \<open>p\<close> and the \<open>limit\<close> are offsets into the block of the stream's frame; a read outside the
  block, or a write outside the arrays of the glyph loader, is \<open>None\<close>.
\<close>

section \<open>The loader\<close>

record FT_BBox =
  xMin :: int
  yMin :: int
  xMax :: int
  yMax :: int

text \<open>
  What the functions of this theory use of a \<open>TT_LoaderRec\<close>. \<open>ld_hinted\<close> is \<open>IS_HINTED( load_flags )\<close>,
  and \<open>ld_glyphIns\<close> the code in the execution context, \<open>glyphIns\<close> and \<open>glyphSize\<close>.
\<close>

record TT_LoaderRec =
  ld_stream :: FT_StreamRec
  ld_cursor :: nat
  ld_limit :: nat
  ld_gloader :: FT_GlyphLoaderRec
  ld_n_contours :: int
  ld_bbox :: FT_BBox
  ld_hinted :: bool
  ld_glyphIns :: bytes
  ld_num_glyphs :: nat
  ld_ins_pos :: nat

text \<open>\<open>NULL\<close> as a cursor is 0, with the limit 0.\<close>

definition TT_Access_Glyph_Frame :: "bool \<Rightarrow> nat \<Rightarrow> nat \<Rightarrow> TT_LoaderRec \<Rightarrow> ft_error option \<times> TT_LoaderRec" where
  "TT_Access_Glyph_Frame granted offset byte_count loader =
     (let (error, stream) = FT_Stream_Seek offset (ld_stream loader)
      in if error \<noteq> None then (error, loader\<lparr>ld_stream := stream\<rparr>)
         else let (error, stream) = FT_Stream_EnterFrame granted byte_count stream
           in if error \<noteq> None then (error, loader\<lparr>ld_stream := stream\<rparr>)
              else (None, loader\<lparr>ld_stream := stream, ld_limit := st_limit stream,
                      ld_cursor := (case st_cursor stream of Some c \<Rightarrow> c | None \<Rightarrow> 0)\<rparr>))"

definition TT_Forget_Glyph_Frame :: "TT_LoaderRec \<Rightarrow> TT_LoaderRec" where
  "TT_Forget_Glyph_Frame loader = loader\<lparr>ld_stream := FT_Stream_ExitFrame (ld_stream loader)\<rparr>"

text \<open>The block that \<open>p\<close> points into.\<close>

definition frame_block :: "TT_LoaderRec \<Rightarrow> bytes" where
  "frame_block loader = (case st_base (ld_stream loader) of Some b \<Rightarrow> b | None \<Rightarrow> [])"

definition TT_Load_Glyph_Header :: "TT_LoaderRec \<Rightarrow> (ft_error option \<times> TT_LoaderRec) option" where
  "TT_Load_Glyph_Header loader =
     (let p = ld_cursor loader; base = frame_block loader
      in if p + 10 > ld_limit loader then Some (Some Invalid_Outline, loader)
         else do {
           n_contours \<leftarrow> peek_short base p;
           x0 \<leftarrow> peek_short base (p + 2); y0 \<leftarrow> peek_short base (p + 4);
           x1 \<leftarrow> peek_short base (p + 6); y1 \<leftarrow> peek_short base (p + 8);
           Some (None, loader\<lparr>ld_n_contours := n_contours, ld_bbox := \<lparr>xMin = x0, yMin = y0, xMax = x1, yMax = y1\<rparr>,
                   ld_cursor := p + 10\<rparr>)
         })"

section \<open>Simple glyphs\<close>

definition X_SHORT_VECTOR :: nat where "X_SHORT_VECTOR = 0x02"
definition Y_SHORT_VECTOR :: nat where "Y_SHORT_VECTOR = 0x04"
definition REPEAT_FLAG :: nat where "REPEAT_FLAG = 0x08"
definition SAME_X :: nat where "SAME_X = 0x10"
definition SAME_Y :: nat where "SAME_Y = 0x20"
definition OVERLAP_SIMPLE :: nat where "OVERLAP_SIMPLE = 0x40"
definition ON_CURVE_POINT :: nat where "ON_CURVE_POINT = 0x01"

definition flag_set :: "nat \<Rightarrow> nat \<Rightarrow> bool" where
  "flag_set f m \<longleftrightarrow> f AND m \<noteq> 0"

text \<open>Writes into the arrays of the current glyph.\<close>

definition put_contour :: "nat \<Rightarrow> nat \<Rightarrow> FT_GlyphLoaderRec \<Rightarrow> FT_GlyphLoaderRec option" where
  "put_contour i c gl = map_option (\<lambda>l. gl\<lparr>gl_contours := l\<rparr>) (put_at (gl_contours gl) (gl_cur_contours gl + i) c)"

definition put_tag :: "nat \<Rightarrow> nat \<Rightarrow> FT_GlyphLoaderRec \<Rightarrow> FT_GlyphLoaderRec option" where
  "put_tag i f gl = map_option (\<lambda>l. gl\<lparr>gl_tags := l\<rparr>) (put_at (gl_tags gl) (gl_cur_points gl + i) f)"

definition get_tag :: "nat \<Rightarrow> FT_GlyphLoaderRec \<Rightarrow> nat option" where
  "get_tag i gl = get_at (gl_tags gl) (gl_cur_points gl + i)"

definition put_x :: "nat \<Rightarrow> int \<Rightarrow> FT_GlyphLoaderRec \<Rightarrow> FT_GlyphLoaderRec option" where
  "put_x i x gl = do {
     v \<leftarrow> get_at (gl_points gl) (gl_cur_points gl + i);
     l \<leftarrow> put_at (gl_points gl) (gl_cur_points gl + i) (v\<lparr>vx := x\<rparr>);
     Some (gl\<lparr>gl_points := l\<rparr>)
   }"

definition put_y :: "nat \<Rightarrow> int \<Rightarrow> FT_GlyphLoaderRec \<Rightarrow> FT_GlyphLoaderRec option" where
  "put_y i y gl = do {
     v \<leftarrow> get_at (gl_points gl) (gl_cur_points gl + i);
     l \<leftarrow> put_at (gl_points gl) (gl_cur_points gl + i) (v\<lparr>vy := y\<rparr>);
     Some (gl\<lparr>gl_points := l\<rparr>)
   }"

text \<open>
  The contour ends: \<open>k\<close> of them, from number \<open>i\<close> on. \<open>Inl\<close> is \<open>goto Invalid_Outline\<close>, \<open>Inr\<close> the
  position behind, with the last end.
\<close>

fun read_ends :: "bytes \<Rightarrow> nat \<Rightarrow> nat \<Rightarrow> nat \<Rightarrow> int \<Rightarrow> FT_GlyphLoaderRec \<Rightarrow> ((unit + nat \<times> int) \<times> FT_GlyphLoaderRec) option" where
  "read_ends base i 0 p prev gl = Some (Inr (p, prev), gl)"
| "read_ends base i (Suc k) p prev gl = do {
     c \<leftarrow> peek_ushort base p;
     gl \<leftarrow> put_contour i c gl;
     if int c \<le> prev then Some (Inl (), gl) else read_ends base (i + 1) k (p + 2) (int c) gl
   }"

fun fill_tags :: "nat \<Rightarrow> nat \<Rightarrow> nat \<Rightarrow> FT_GlyphLoaderRec \<Rightarrow> FT_GlyphLoaderRec option" where
  "fill_tags i 0 c gl = Some gl"
| "fill_tags i (Suc k) c gl = do { gl \<leftarrow> put_tag i c gl; fill_tags (i + 1) k c gl }"

text \<open>The flags, for \<open>k\<close> points from point \<open>i\<close> on.\<close>

fun read_flags :: "bytes \<Rightarrow> nat \<Rightarrow> nat \<Rightarrow> nat \<Rightarrow> nat \<Rightarrow> FT_GlyphLoaderRec \<Rightarrow> ((unit + nat) \<times> FT_GlyphLoaderRec) option" where
  "read_flags base limit i 0 p gl = Some (Inr p, gl)"
| "read_flags base limit i (Suc k) p gl =
     (if p + 1 > limit then Some (Inl (), gl)
      else do {
        c \<leftarrow> peek_byte base p;
        gl \<leftarrow> put_tag i c gl;
        if flag_set c REPEAT_FLAG
        then if p + 2 > limit then Some (Inl (), gl)
             else do {
               count \<leftarrow> peek_byte base (p + 1);
               if count > k then Some (Inl (), gl)
               else do {
                 gl \<leftarrow> fill_tags (i + 1) count c gl;
                 read_flags base limit (i + 1 + count) (k - count) (p + 2) gl
               }
             }
        else read_flags base limit (i + 1) k (p + 1) gl
      })"

text \<open>
  The difference of a coordinate to the one before, with flag \<open>f\<close>: a byte, with its sign in the flag,
  nothing, or two bytes.
\<close>

definition read_delta :: "bytes \<Rightarrow> nat \<Rightarrow> nat \<Rightarrow> nat \<Rightarrow> nat \<Rightarrow> nat \<Rightarrow> (unit + int \<times> nat) option" where
  "read_delta base limit short_vector same f p =
     (if flag_set f short_vector
      then if p + 1 > limit then Some (Inl ())
           else do { b \<leftarrow> peek_byte base p; Some (Inr (if flag_set f same then int b else - int b, p + 1)) }
      else if \<not> flag_set f same
      then if p + 2 > limit then Some (Inl ())
           else do { d \<leftarrow> peek_short base p; Some (Inr (d, p + 2)) }
      else Some (Inr (0, p)))"

fun read_xs :: "bytes \<Rightarrow> nat \<Rightarrow> nat \<Rightarrow> nat \<Rightarrow> nat \<Rightarrow> int \<Rightarrow> FT_GlyphLoaderRec \<Rightarrow> ((unit + nat) \<times> FT_GlyphLoaderRec) option" where
  "read_xs base limit i 0 p x gl = Some (Inr p, gl)"
| "read_xs base limit i (Suc k) p x gl = do {
     f \<leftarrow> get_tag i gl;
     r \<leftarrow> read_delta base limit X_SHORT_VECTOR SAME_X f p;
     case r of
       Inl _ \<Rightarrow> Some (Inl (), gl)
     | Inr (delta, p) \<Rightarrow> do { gl \<leftarrow> put_x i (x + delta) gl; read_xs base limit (i + 1) k p (x + delta) gl }
   }"

fun read_ys :: "bytes \<Rightarrow> nat \<Rightarrow> nat \<Rightarrow> nat \<Rightarrow> nat \<Rightarrow> int \<Rightarrow> FT_GlyphLoaderRec \<Rightarrow> ((unit + nat) \<times> FT_GlyphLoaderRec) option" where
  "read_ys base limit i 0 p y gl = Some (Inr p, gl)"
| "read_ys base limit i (Suc k) p y gl = do {
     f \<leftarrow> get_tag i gl;
     r \<leftarrow> read_delta base limit Y_SHORT_VECTOR SAME_Y f p;
     case r of
       Inl _ \<Rightarrow> Some (Inl (), gl)
     | Inr (delta, p) \<Rightarrow> do {
         gl \<leftarrow> put_y i (y + delta) gl;
         gl \<leftarrow> put_tag i (f AND ON_CURVE_POINT) gl;
         read_ys base limit (i + 1) k p (y + delta) gl
       }
   }"

definition with_gloader :: "FT_GlyphLoaderRec \<Rightarrow> TT_LoaderRec \<Rightarrow> TT_LoaderRec" where
  "with_gloader gl load = load\<lparr>ld_gloader := gl\<rparr>"

text \<open>The code of the glyph is copied when it is hinted; the error of the allocation.\<close>

definition keep_instructions :: "bytes \<Rightarrow> nat \<Rightarrow> nat \<Rightarrow> TT_LoaderRec \<Rightarrow> (ft_error option \<times> TT_LoaderRec) option" where
  "keep_instructions base p n_ins load =
     (if ld_hinted load
      then let load = load\<lparr>ld_glyphIns := []\<rparr>
        in if n_ins = 0 then Some (None, load)
           else let (granted, gl) = ask (ld_gloader load); load = with_gloader gl load
             in if \<not> granted then Some (Some Out_Of_Memory, load)
                else do { code \<leftarrow> copy_bytes base p n_ins; Some (None, load\<lparr>ld_glyphIns := code\<rparr>) }
      else Some (None, load))"

text \<open>What follows the instructions: flags and coordinates of \<open>n\<close> points.\<close>

definition read_points :: "bytes \<Rightarrow> nat \<Rightarrow> nat \<Rightarrow> nat \<Rightarrow> FT_GlyphLoaderRec \<Rightarrow> ((unit + nat) \<times> FT_GlyphLoaderRec) option" where
  "read_points base limit n p gl = do {
     (r, gl) \<leftarrow> read_flags base limit 0 n p gl;
     case r of
       Inl _ \<Rightarrow> Some (Inl (), gl)
     | Inr p \<Rightarrow> do {
         overlap \<leftarrow> (if n \<noteq> 0 then do { f \<leftarrow> get_tag 0 gl; Some (flag_set f OVERLAP_SIMPLE) } else Some False);
         let gl = (if overlap then gl\<lparr>gl_flags := gl_flags gl OR FT_OUTLINE_OVERLAP\<rparr> else gl);
         (r, gl) \<leftarrow> read_xs base limit 0 n p 0 gl;
         case r of
           Inl _ \<Rightarrow> Some (Inl (), gl)
         | Inr p \<Rightarrow> read_ys base limit 0 n p 0 gl
       }
   }"

text \<open>Called with a positive number of contours.\<close>

definition TT_Load_Simple_Glyph :: "TT_LoaderRec \<Rightarrow> (ft_error option \<times> TT_LoaderRec) option" where
  "TT_Load_Simple_Glyph load =
     (let p = ld_cursor load; limit = ld_limit load; base = frame_block load; n_contours = nat (ld_n_contours load);
          (error, gl) = FT_GLYPHLOADER_CHECK_POINTS 0 n_contours (ld_gloader load)
      in if error \<noteq> None then Some (error, with_gloader gl load)
         else if n_contours \<ge> 0xFFF \<or> p + 2 * n_contours + 2 > limit then Some (Some Invalid_Outline, with_gloader gl load)
         else do {
           (r, gl) \<leftarrow> read_ends base 0 n_contours p (-1) gl;
           case r of
             Inl _ \<Rightarrow> Some (Some Invalid_Outline, with_gloader gl load)
           | Inr (p, prev) \<Rightarrow> do {
               let n_points = nat (prev + 1);
               let (error, gl) = FT_GLYPHLOADER_CHECK_POINTS (n_points + 4) 0 gl;
               if error \<noteq> None then Some (error, with_gloader gl load)
               else do {
                 n_ins \<leftarrow> peek_ushort base p;
                 let p = p + 2;
                 if p + n_ins > limit then Some (Some Too_Many_Hints, with_gloader gl load)
                 else do {
                   (error, load) \<leftarrow> keep_instructions base p n_ins (with_gloader gl load);
                   if error \<noteq> None then Some (error, load)
                   else do {
                     (r, gl) \<leftarrow> read_points base limit n_points (p + n_ins) (ld_gloader load);
                     case r of
                       Inl _ \<Rightarrow> Some (Some Invalid_Outline, with_gloader gl load)
                     | Inr p \<Rightarrow>
                         Some (None, with_gloader (gl\<lparr>gl_cur_n_points := n_points mod 65536, gl_cur_n_contours := n_contours mod 65536\<rparr>)
                                       (load\<lparr>ld_cursor := p\<rparr>))
                   }
                 }
               }
             }
         })"

section \<open>Composite glyphs\<close>

definition ARGS_ARE_WORDS :: nat where "ARGS_ARE_WORDS = 0x0001"
definition ARGS_ARE_XY_VALUES :: nat where "ARGS_ARE_XY_VALUES = 0x0002"
definition ROUND_XY_TO_GRID :: nat where "ROUND_XY_TO_GRID = 0x0004"
definition WE_HAVE_A_SCALE :: nat where "WE_HAVE_A_SCALE = 0x0008"
definition MORE_COMPONENTS :: nat where "MORE_COMPONENTS = 0x0020"
definition WE_HAVE_AN_XY_SCALE :: nat where "WE_HAVE_AN_XY_SCALE = 0x0040"
definition WE_HAVE_A_2X2 :: nat where "WE_HAVE_A_2X2 = 0x0080"
definition WE_HAVE_INSTR :: nat where "WE_HAVE_INSTR = 0x0100"
definition USE_MY_METRICS :: nat where "USE_MY_METRICS = 0x0200"
definition OVERLAP_COMPOUND :: nat where "OVERLAP_COMPOUND = 0x0400"
definition SCALED_COMPONENT_OFFSET :: nat where "SCALED_COMPONENT_OFFSET = 0x0800"

text \<open>The bytes of a component behind its flags and its index.\<close>

definition component_count :: "nat \<Rightarrow> nat" where
  "component_count flags =
     2 + (if flag_set flags ARGS_ARE_WORDS then 2 else 0) +
     (if flag_set flags WE_HAVE_A_SCALE then 2 else if flag_set flags WE_HAVE_AN_XY_SCALE then 4
      else if flag_set flags WE_HAVE_A_2X2 then 8 else 0)"

text \<open>\<open>FT_NEXT_CHAR\<close>.\<close>

definition peek_char :: "bytes \<Rightarrow> nat \<Rightarrow> int option" where
  "peek_char t p = map_option (\<lambda>b. if b < 128 then int b else int b - 256) (peek_byte t p)"

definition read_args :: "bytes \<Rightarrow> nat \<Rightarrow> nat \<Rightarrow> (int \<times> int) option" where
  "read_args base flags p =
     (if flag_set flags ARGS_ARE_XY_VALUES
      then if flag_set flags ARGS_ARE_WORDS then do { a \<leftarrow> peek_short base p; b \<leftarrow> peek_short base (p + 2); Some (a, b) }
           else do { a \<leftarrow> peek_char base p; b \<leftarrow> peek_char base (p + 1); Some (a, b) }
      else if flag_set flags ARGS_ARE_WORDS then do { a \<leftarrow> peek_ushort base p; b \<leftarrow> peek_ushort base (p + 2); Some (int a, int b) }
           else do { a \<leftarrow> peek_byte base p; b \<leftarrow> peek_byte base (p + 1); Some (int a, int b) })"

definition read_transform :: "bytes \<Rightarrow> nat \<Rightarrow> nat \<Rightarrow> FT_Matrix option" where
  "read_transform base flags p =
     (if flag_set flags WE_HAVE_A_SCALE
      then do { s \<leftarrow> peek_short base p; Some \<lparr>mxx = s * 4, mxy = 0, myx = 0, myy = s * 4\<rparr> }
      else if flag_set flags WE_HAVE_AN_XY_SCALE
      then do { sx \<leftarrow> peek_short base p; sy \<leftarrow> peek_short base (p + 2); Some \<lparr>mxx = sx * 4, mxy = 0, myx = 0, myy = sy * 4\<rparr> }
      else if flag_set flags WE_HAVE_A_2X2
      then do {
        xx \<leftarrow> peek_short base p; yx \<leftarrow> peek_short base (p + 2); xy \<leftarrow> peek_short base (p + 4); yy \<leftarrow> peek_short base (p + 6);
        Some \<lparr>mxx = xx * 4, mxy = xy * 4, myx = yx * 4, myy = yy * 4\<rparr>
      }
      else Some \<lparr>mxx = 0x10000, mxy = 0, myx = 0, myy = 0x10000\<rparr>)"

definition put_subglyph :: "nat \<Rightarrow> FT_SubGlyphRec \<Rightarrow> FT_GlyphLoaderRec \<Rightarrow> FT_GlyphLoaderRec option" where
  "put_subglyph i s gl = map_option (\<lambda>l. gl\<lparr>gl_subglyphs := l\<rparr>) (put_at (gl_subglyphs gl) (gl_cur_subglyphs gl + i) s)"

text \<open>The loop over the components, \<open>n\<close> read so far: their number and the position behind, or the error.\<close>

function read_components ::
    "nat \<Rightarrow> bytes \<Rightarrow> nat \<Rightarrow> nat \<Rightarrow> nat \<Rightarrow> FT_GlyphLoaderRec \<Rightarrow> ((ft_error + nat \<times> nat) \<times> FT_GlyphLoaderRec) option" where
  "read_components num_glyphs base limit n p gl =
     (case FT_GlyphLoader_CheckSubGlyphs (n + 1) gl of
        (Some e, gl) \<Rightarrow> Some (Inl e, gl)
      | (None, gl) \<Rightarrow>
          if p + 4 > limit then Some (Inl Invalid_Composite, gl)
          else do {
            flags \<leftarrow> peek_ushort base p;
            index \<leftarrow> peek_ushort base (p + 2);
            old \<leftarrow> get_at (gl_subglyphs gl) (gl_cur_subglyphs gl + n);
            gl \<leftarrow> put_subglyph n (old\<lparr>sg_arg1 := 0, sg_arg2 := 0, sg_flags := flags, sg_index := index\<rparr>) gl;
            if index \<ge> num_glyphs \<or> p + 4 + component_count flags > limit then Some (Inl Invalid_Composite, gl)
            else do {
              (arg1, arg2) \<leftarrow> read_args base flags (p + 4);
              transform \<leftarrow> read_transform base flags (p + 6 + (if flag_set flags ARGS_ARE_WORDS then 2 else 0));
              gl \<leftarrow> put_subglyph n \<lparr>sg_index = index, sg_flags = flags, sg_arg1 = arg1, sg_arg2 = arg2, sg_transform = transform\<rparr> gl;
              if flag_set flags MORE_COMPONENTS
              then read_components num_glyphs base limit (n + 1) (p + 4 + component_count flags) gl
              else Some (Inr (n + 1, p + 4 + component_count flags), gl)
            }
          })"
  by pat_completeness auto
termination
  by (relation "measure (\<lambda>(num_glyphs, base, limit, n, p, gl). limit - p)") auto

declare read_components.simps [simp del]

definition TT_Load_Composite_Glyph :: "TT_LoaderRec \<Rightarrow> (ft_error option \<times> TT_LoaderRec) option" where
  "TT_Load_Composite_Glyph loader = do {
     (r, gl) \<leftarrow> read_components (ld_num_glyphs loader) (frame_block loader) (ld_limit loader) 0 (ld_cursor loader) (ld_gloader loader);
     case r of
       Inl e \<Rightarrow> Some (Some e, with_gloader gl loader)
     | Inr (n, p) \<Rightarrow>
         Some (None, with_gloader (gl\<lparr>gl_cur_num_subglyphs := n\<rparr>)
           (loader\<lparr>ld_ins_pos := FT_Stream_Pos (ld_stream loader) + p - ld_limit loader, ld_cursor := p\<rparr>))
   }"

end
