(* ===== verification/Tt_Gload.thy ===== *)
theory Tt_Gload
  imports Tt_Glyph
begin

text \<open>
  Loading a glyph with its components, \<open>src/truetype/ttgload.c\<close> from the metrics to
  \<open>load_truetype_glyph\<close>, with \<open>tt_face_get_metrics\<close> of \<open>src/sfnt/ttmtx.c\<close> and the outline functions of
  \<open>src/base/ftoutln.c\<close> it calls. The face is a default instance, without an incremental interface.

  The zone that the interpreter works on has its points in the arrays of the glyph loader: \<open>zone_of\<close>
  reads them and \<open>store_zone\<close> writes them back. The original points lie in the first half of the extra
  points.
\<close>

section \<open>The state\<close>

record TT_MetricsTable =
  mt_number_Of_HMetrics :: nat
  mt_offset :: nat
  mt_size :: nat

text \<open>What does not change while a glyph is loaded: parts of the face, of the size, and the load flags.\<close>

record TT_LoadEnv =
  le_loca :: TT_LocaFace
  le_horizontal :: TT_MetricsTable
  le_vertical :: TT_MetricsTable
  le_vertical_info :: bool
  le_os2_version :: nat
  le_sTypoAscender :: int
  le_sTypoDescender :: int
  le_Ascender :: int
  le_Descender :: int
  le_x_scale :: int
  le_y_scale :: int
  le_size :: TT_SizeRec
  le_no_scale :: bool
  le_no_recurse :: bool

text \<open>
  The other fields of a \<open>TT_LoaderRec\<close>. A node of \<open>composites\<close> with \<open>(void*)-1\<close> is \<open>None\<close>;
  \<open>gd_format_composite\<close> is the format of the glyph slot, and \<open>gd_maxComponentDepth\<close> a field of the face.
\<close>

record TT_GlyphLoad =
  gd_loader :: TT_LoaderRec
  gd_exec :: "TT_ExecContext option"
  gd_glyph_index :: nat
  gd_byte_len :: nat
  gd_left_bearing :: int
  gd_advance :: int
  gd_linear :: int
  gd_linear_def :: bool
  gd_top_bearing :: int
  gd_vadvance :: int
  gd_pp1 :: FT_Vector
  gd_pp2 :: FT_Vector
  gd_pp3 :: FT_Vector
  gd_pp4 :: FT_Vector
  gd_composites :: "nat option list"
  gd_maxComponentDepth :: nat
  gd_format_composite :: bool

definition gd_gloader :: "TT_GlyphLoad \<Rightarrow> FT_GlyphLoaderRec" where
  "gd_gloader ld = ld_gloader (gd_loader ld)"

definition set_gloader :: "FT_GlyphLoaderRec \<Rightarrow> TT_GlyphLoad \<Rightarrow> TT_GlyphLoad" where
  "set_gloader gl ld = ld\<lparr>gd_loader := with_gloader gl (gd_loader ld)\<rparr>"

definition set_stream :: "FT_StreamRec \<Rightarrow> TT_GlyphLoad \<Rightarrow> TT_GlyphLoad" where
  "set_stream stream ld = ld\<lparr>gd_loader := (gd_loader ld)\<lparr>ld_stream := stream\<rparr>\<rparr>"

section \<open>Metrics\<close>

text \<open>The two values, bearing and advance. A failed read leaves 0 in both, or in the bearing alone.\<close>

definition tt_face_get_metrics :: "TT_MetricsTable \<Rightarrow> nat \<Rightarrow> FT_StreamRec \<Rightarrow> ((int \<times> nat) \<times> FT_StreamRec) option" where
  "tt_face_get_metrics header gindex stream =
     (let table_pos = mt_offset header; table_end = add64 (mt_offset header) (mt_size header); k = mt_number_Of_HMetrics header
      in if k = 0 then Some ((0, 0), stream)
         else if gindex < k
         then let table_pos = add64 table_pos (mul32 4 gindex)
           in if add64 table_pos 4 > table_end then Some ((0, 0), stream)
              else let (error, stream) = FT_Stream_Seek table_pos stream
                in if error \<noteq> None then Some ((0, 0), stream)
                   else do {
                     ((error, advance), stream) \<leftarrow> FT_Stream_ReadUShort stream;
                     if error \<noteq> None then Some ((0, 0), stream)
                     else do {
                       ((error, bearing), stream) \<leftarrow> FT_Stream_ReadUShort stream;
                       Some (if error \<noteq> None then (0, 0) else (s16i (int bearing), advance), stream)
                     }
                   }
         else let table_pos = add64 table_pos (4 * (k - 1))
           in if add64 table_pos 2 > table_end then Some ((0, 0), stream)
              else let (error, stream) = FT_Stream_Seek table_pos stream
                in if error \<noteq> None then Some ((0, 0), stream)
                   else do {
                     ((error, advance), stream) \<leftarrow> FT_Stream_ReadUShort stream;
                     if error \<noteq> None then Some ((0, 0), stream)
                     else let table_pos = add64 table_pos (add32 4 (mul32 2 (gindex - k)))
                       in if add64 table_pos 2 > table_end then Some ((0, advance), stream)
                          else let (error, stream) = FT_Stream_Seek table_pos stream
                            in if error \<noteq> None then Some ((0, advance), stream)
                               else do {
                                 ((_, bearing), stream) \<leftarrow> FT_Stream_ReadUShort stream;
                                 Some ((s16i (int bearing), advance), stream)
                               }
                   })"

definition TT_Get_HMetrics :: "TT_LoadEnv \<Rightarrow> nat \<Rightarrow> FT_StreamRec \<Rightarrow> ((int \<times> nat) \<times> FT_StreamRec) option" where
  "TT_Get_HMetrics env idx stream = tt_face_get_metrics (le_horizontal env) idx stream"

definition TT_Get_VMetrics :: "TT_LoadEnv \<Rightarrow> nat \<Rightarrow> int \<Rightarrow> FT_StreamRec \<Rightarrow> ((int \<times> nat) \<times> FT_StreamRec) option" where
  "TT_Get_VMetrics env idx ymax stream =
     (if le_vertical_info env then tt_face_get_metrics (le_vertical env) idx stream
      else if le_os2_version env \<noteq> 0xFFFF
      then Some ((s16i (le_sTypoAscender env - ymax), u16_of_int \<bar>le_sTypoAscender env - le_sTypoDescender env\<bar>), stream)
      else Some ((s16i (le_Ascender env - ymax), u16_of_int \<bar>le_Ascender env - le_Descender env\<bar>), stream))"

definition tt_get_metrics :: "TT_LoadEnv \<Rightarrow> nat \<Rightarrow> TT_GlyphLoad \<Rightarrow> (ft_error option \<times> TT_GlyphLoad) option" where
  "tt_get_metrics env glyph_index ld = do {
     let stream = ld_stream (gd_loader ld);
     let pos = FT_Stream_Pos stream;
     ((left_bearing, advance_width), stream) \<leftarrow> TT_Get_HMetrics env glyph_index stream;
     ((top_bearing, advance_height), stream) \<leftarrow> TT_Get_VMetrics env glyph_index (yMax (ld_bbox (gd_loader ld))) stream;
     let (error, stream) = FT_Stream_Seek pos stream;
     let ld = set_stream stream ld;
     if error \<noteq> None then Some (error, ld)
     else let ld = ld\<lparr>gd_left_bearing := left_bearing, gd_advance := int advance_width, gd_top_bearing := top_bearing,
                      gd_vadvance := int advance_height\<rparr>
       in Some (None, if \<not> gd_linear_def ld then ld\<lparr>gd_linear_def := True, gd_linear := int advance_width\<rparr> else ld)
   }"

text \<open>The phantom points.\<close>

definition tt_loader_set_pp :: "TT_GlyphLoad \<Rightarrow> TT_GlyphLoad" where
  "tt_loader_set_pp ld =
     (let bbox = ld_bbox (gd_loader ld);
          x = (case gd_exec ld of
                 Some exec \<Rightarrow>
                   if fe_interpreter_version (exc_env exec) = 40 \<and>
                      fe_mode (exc_env exec) \<notin> {FT_RENDER_MODE_MONO, FT_RENDER_MODE_LCD, FT_RENDER_MODE_LCD_V}
                   then gd_advance ld div 2 else 0
               | None \<Rightarrow> 0);
          pp1x = xMin bbox - gd_left_bearing ld; pp3y = yMax bbox + gd_top_bearing ld
      in ld\<lparr>gd_pp1 := \<lparr>vx = pp1x, vy = 0\<rparr>, gd_pp2 := \<lparr>vx = pp1x + gd_advance ld, vy = 0\<rparr>,
            gd_pp3 := \<lparr>vx = x, vy = pp3y\<rparr>, gd_pp4 := \<lparr>vx = x, vy = pp3y - gd_vadvance ld\<rparr>\<rparr>)"

definition scale_phantoms :: "int \<Rightarrow> int \<Rightarrow> TT_GlyphLoad \<Rightarrow> TT_GlyphLoad" where
  "scale_phantoms x_scale y_scale ld =
     ld\<lparr>gd_pp1 := (gd_pp1 ld)\<lparr>vx := FT_MulFix (vx (gd_pp1 ld)) x_scale\<rparr>, gd_pp2 := (gd_pp2 ld)\<lparr>vx := FT_MulFix (vx (gd_pp2 ld)) x_scale\<rparr>,
        gd_pp3 := \<lparr>vx = FT_MulFix (vx (gd_pp3 ld)) x_scale, vy = FT_MulFix (vy (gd_pp3 ld)) y_scale\<rparr>,
        gd_pp4 := \<lparr>vx = FT_MulFix (vx (gd_pp4 ld)) x_scale, vy = FT_MulFix (vy (gd_pp4 ld)) y_scale\<rparr>\<rparr>"

section \<open>Zones\<close>

text \<open>A \<open>TT_GlyphZoneRec\<close> as its pointers, offsets into the arrays of the glyph loader.\<close>

record TT_ZoneRef =
  zr_n_points :: nat
  zr_n_contours :: nat
  zr_org :: nat
  zr_cur :: nat
  zr_orus :: nat
  zr_contours :: nat
  zr_first_point :: nat

text \<open>\<open>load\<close> is the base of the glyph loader, or the current glyph.\<close>

definition tt_prepare_zone :: "bool \<Rightarrow> FT_GlyphLoaderRec \<Rightarrow> nat \<Rightarrow> nat \<Rightarrow> TT_ZoneRef" where
  "tt_prepare_zone is_base gl start_point start_contour =
     (if is_base
      then \<lparr>zr_n_points = u16_of_int (int (gl_n_points gl) + 4 - int start_point),
            zr_n_contours = u16_of_int (int (gl_n_contours gl) - int start_contour),
            zr_org = start_point, zr_cur = start_point, zr_orus = gl_extra2 gl + start_point,
            zr_contours = start_contour, zr_first_point = start_point mod 65536\<rparr>
      else \<lparr>zr_n_points = u16_of_int (int (gl_cur_n_points gl) + 4 - int start_point),
            zr_n_contours = u16_of_int (int (gl_cur_n_contours gl) - int start_contour),
            zr_org = gl_cur_extra gl + start_point, zr_cur = gl_cur_points gl + start_point,
            zr_orus = gl_cur_extra2 gl + start_point, zr_contours = gl_cur_contours gl + start_contour,
            zr_first_point = start_point mod 65536\<rparr>)"

definition zone_of :: "FT_GlyphLoaderRec \<Rightarrow> TT_ZoneRef \<Rightarrow> TT_GlyphZoneRec" where
  "zone_of gl zr =
     \<lparr>zn_n_points = zr_n_points zr, zn_org = drop (zr_org zr) (take (gl_extra2 gl) (gl_extra gl)),
      zn_cur = drop (zr_cur zr) (gl_points gl), zn_orus = drop (zr_orus zr) (gl_extra gl),
      zn_tags = drop (zr_cur zr) (gl_tags gl), zn_contours = take (zr_n_contours zr) (drop (zr_contours zr) (gl_contours gl)),
      zn_first_point = zr_first_point zr\<rparr>"

definition store_zone :: "TT_GlyphZoneRec \<Rightarrow> TT_ZoneRef \<Rightarrow> FT_GlyphLoaderRec \<Rightarrow> FT_GlyphLoaderRec" where
  "store_zone z zr gl =
     gl\<lparr>gl_points := take (zr_cur zr) (gl_points gl) @ zn_cur z, gl_tags := take (zr_cur zr) (gl_tags gl) @ zn_tags z,
        gl_extra := take (zr_org zr) (gl_extra gl) @ zn_org z @
          take (zr_orus zr - gl_extra2 gl) (drop (gl_extra2 gl) (gl_extra gl)) @ zn_orus z\<rparr>"

text \<open>\<open>FT_ARRAY_COPY\<close>.\<close>

definition copy_array :: "nat \<Rightarrow> 'a list \<Rightarrow> 'a list \<Rightarrow> 'a list option" where
  "copy_array n dest source = (if n \<le> length source \<and> n \<le> length dest then Some (take n source @ drop n dest) else None)"

definition copy_org :: "TT_GlyphZoneRec \<Rightarrow> TT_GlyphZoneRec option" where
  "copy_org z = map_option (\<lambda>l. z\<lparr>zn_org := l\<rparr>) (copy_array (zn_n_points z) (zn_org z) (zn_cur z))"

definition copy_orus :: "TT_GlyphZoneRec \<Rightarrow> TT_GlyphZoneRec option" where
  "copy_orus z = map_option (\<lambda>l. z\<lparr>zn_orus := l\<rparr>) (copy_array (zn_n_points z) (zn_orus z) (zn_cur z))"

definition FT_PIX_ROUND :: "int \<Rightarrow> int" where
  "FT_PIX_ROUND x = FT_PIX_FLOOR (s64 (x + 32))"

definition round_x :: "nat \<Rightarrow> TT_GlyphZoneRec \<Rightarrow> TT_GlyphZoneRec option" where
  "round_x k z = (if zn_n_points z < k then None else do {
     v \<leftarrow> get_at (zn_cur z) (zn_n_points z - k);
     Some (z\<lparr>zn_cur := (zn_cur z)[zn_n_points z - k := v\<lparr>vx := FT_PIX_ROUND (vx v)\<rparr>]\<rparr>)
   })"

definition round_y :: "nat \<Rightarrow> TT_GlyphZoneRec \<Rightarrow> TT_GlyphZoneRec option" where
  "round_y k z = (if zn_n_points z < k then None else do {
     v \<leftarrow> get_at (zn_cur z) (zn_n_points z - k);
     Some (z\<lparr>zn_cur := (zn_cur z)[zn_n_points z - k := v\<lparr>vy := FT_PIX_ROUND (vy v)\<rparr>]\<rparr>)
   })"

text \<open>The phantom points at the end of \<open>n\<close> points, read back.\<close>

definition save_phantoms :: "nat \<Rightarrow> FT_Vector list \<Rightarrow> TT_GlyphLoad \<Rightarrow> TT_GlyphLoad option" where
  "save_phantoms n points ld = (if n < 4 then None else do {
     p1 \<leftarrow> get_at points (n - 4); p2 \<leftarrow> get_at points (n - 3); p3 \<leftarrow> get_at points (n - 2); p4 \<leftarrow> get_at points (n - 1);
     Some (ld\<lparr>gd_pp1 := p1, gd_pp2 := p2, gd_pp3 := p3, gd_pp4 := p4\<rparr>)
   })"

section \<open>Hinting\<close>

definition FT_CURVE_TAG_HAS_SCANMODE :: nat where "FT_CURVE_TAG_HAS_SCANMODE = 0x04"

text \<open>
  The points before the program runs: \<open>org\<close> keeps the positions, \<open>orus\<close> too for a composite glyph, and
  the phantom points are rounded.
\<close>

definition ready_zone :: "bool \<Rightarrow> bool \<Rightarrow> TT_GlyphZoneRec \<Rightarrow> TT_GlyphZoneRec option" where
  "ready_zone has_ins is_composite z = do {
     z \<leftarrow> (if has_ins then copy_org z else Some z);
     z \<leftarrow> (if is_composite then copy_orus z else Some z);
     z \<leftarrow> round_x 4 z; z \<leftarrow> round_x 3 z; z \<leftarrow> round_y 2 z; round_y 1 z
   }"

text \<open>\<open>exec->metrics\<close>: the scales, 1 for a composite glyph.\<close>

definition set_scales :: "TT_LoadEnv \<Rightarrow> bool \<Rightarrow> TT_ExecContext \<Rightarrow> TT_ExecContext" where
  "set_scales env is_composite =
     set_env (\<lambda>e. if is_composite then e\<lparr>fe_x_scale := 65536, fe_y_scale := 65536\<rparr>
                  else e\<lparr>fe_x_scale := le_x_scale env, fe_y_scale := le_y_scale env\<rparr>)"

text \<open>The drop-out mode in the tag of the first point of the current glyph.\<close>

definition mark_scan_type :: "TT_ExecContext \<Rightarrow> FT_GlyphLoaderRec \<Rightarrow> FT_GlyphLoaderRec option" where
  "mark_scan_type exec gl = do {
     t \<leftarrow> get_tag 0 gl;
     put_tag 0 (nat ((int t OR (push_bit 5 (gs_scan_type (exc_GS exec)) OR int FT_CURVE_TAG_HAS_SCANMODE)) mod 256)) gl
   }"

definition TT_Hint_Glyph :: "TT_LoadEnv \<Rightarrow> TT_ZoneRef \<Rightarrow> bool \<Rightarrow> TT_GlyphLoad \<Rightarrow> (ft_error option \<times> TT_GlyphLoad) option" where
  "TT_Hint_Glyph env zr is_composite ld =
     (case gd_exec ld of
        None \<Rightarrow> None
      | Some exec \<Rightarrow> do {
          let ins = ld_glyphIns (gd_loader ld);
          let exec = set_scales env is_composite exec;
          z \<leftarrow> ready_zone (ins \<noteq> []) is_composite (zone_of (gd_gloader ld) zr);
          if ins = []
          then do {
            let ld = set_gloader (store_zone z zr (gd_gloader ld)) (ld\<lparr>gd_exec := Some exec\<rparr>);
            if exc_backward_compatibility exec \<noteq> 0 then Some (None, ld)
            else do { ld \<leftarrow> save_phantoms (zn_n_points z) (zn_cur z) ld; Some (None, ld) }
          }
          else do {
            exec \<leftarrow> TT_Set_CodeRange 3 ins exec;
            let exec = (set_env (\<lambda>e. e\<lparr>fe_is_composite := is_composite\<rparr>) exec)\<lparr>exc_pts := z\<rparr>;
            (error, exec) \<leftarrow> TT_Run_Context (le_size env) exec;
            let z = exc_pts exec;
            let ld = set_gloader (store_zone z zr (gd_gloader ld)) (ld\<lparr>gd_exec := Some exec\<rparr>);
            if error \<noteq> None \<and> fe_pedantic_hinting (exc_env exec) then Some (error, ld)
            else do {
              gl \<leftarrow> mark_scan_type exec (gd_gloader ld);
              let ld = set_gloader gl ld;
              if exc_backward_compatibility exec \<noteq> 0 then Some (None, ld)
              else do { ld \<leftarrow> save_phantoms (zn_n_points z) (zn_cur z) ld; Some (None, ld) }
            }
          }
        })"

section \<open>Simple glyphs\<close>

text \<open>The phantom points behind the points that end at \<open>n\<close>.\<close>

definition put_phantoms :: "nat \<Rightarrow> TT_GlyphLoad \<Rightarrow> TT_GlyphLoad option" where
  "put_phantoms n ld = do {
     ps \<leftarrow> put_at (gl_points (gd_gloader ld)) n (gd_pp1 ld); ps \<leftarrow> put_at ps (n + 1) (gd_pp2 ld);
     ps \<leftarrow> put_at ps (n + 2) (gd_pp3 ld); ps \<leftarrow> put_at ps (n + 3) (gd_pp4 ld);
     Some (set_gloader ((gd_gloader ld)\<lparr>gl_points := ps\<rparr>) ld)
   }"

text \<open>A function on \<open>n\<close> points from point \<open>i\<close> on.\<close>

definition map_points :: "(FT_Vector \<Rightarrow> FT_Vector) \<Rightarrow> nat \<Rightarrow> nat \<Rightarrow> FT_GlyphLoaderRec \<Rightarrow> FT_GlyphLoaderRec option" where
  "map_points f i n gl =
     (if i + n \<le> length (gl_points gl)
      then Some (gl\<lparr>gl_points := take i (gl_points gl) @ map f (take n (drop i (gl_points gl))) @ drop (i + n) (gl_points gl)\<rparr>)
      else None)"

definition scale_vector :: "int \<Rightarrow> int \<Rightarrow> FT_Vector \<Rightarrow> FT_Vector" where
  "scale_vector x_scale y_scale v = \<lparr>vx = FT_MulFix (vx v) x_scale, vy = FT_MulFix (vy v) y_scale\<rparr>"

definition TT_Process_Simple_Glyph :: "TT_LoadEnv \<Rightarrow> TT_GlyphLoad \<Rightarrow> (ft_error option \<times> TT_GlyphLoad) option" where
  "TT_Process_Simple_Glyph env ld = do {
     let start = gl_cur_points (gd_gloader ld);
     let n = gl_cur_n_points (gd_gloader ld);
     ld \<leftarrow> put_phantoms (start + n) ld;
     let zr = tt_prepare_zone False (gd_gloader ld) 0 0;
     ld \<leftarrow> (if ld_hinted (gd_loader ld)
           then do { z \<leftarrow> copy_orus (zone_of (gd_gloader ld) zr); Some (set_gloader (store_zone z zr (gd_gloader ld)) ld) }
           else Some ld);
     gl \<leftarrow> (if \<not> le_no_scale env then map_points (scale_vector (le_x_scale env) (le_y_scale env)) start (n + 4) (gd_gloader ld)
           else Some (gd_gloader ld));
     ld \<leftarrow> save_phantoms (n + 4) (drop start (gl_points gl)) (set_gloader gl ld);
     if ld_hinted (gd_loader ld) then TT_Hint_Glyph env zr False ld else Some (None, ld)
   }"

section \<open>Components\<close>

definition FT_Vector_Transform :: "FT_Matrix \<Rightarrow> FT_Vector \<Rightarrow> FT_Vector" where
  "FT_Vector_Transform m v =
     \<lparr>vx = s64 (FT_MulFix (vx v) (mxx m) + FT_MulFix (vy v) (mxy m)),
      vy = s64 (FT_MulFix (vx v) (myx m) + FT_MulFix (vy v) (myy m))\<rparr>"

text \<open>On the outline of \<open>n\<close> points from \<open>i\<close> on.\<close>

definition FT_Outline_Transform :: "FT_Matrix \<Rightarrow> nat \<Rightarrow> nat \<Rightarrow> FT_GlyphLoaderRec \<Rightarrow> FT_GlyphLoaderRec option" where
  "FT_Outline_Transform m i n gl = map_points (FT_Vector_Transform m) i n gl"

definition FT_Outline_Translate :: "int \<Rightarrow> int \<Rightarrow> nat \<Rightarrow> nat \<Rightarrow> FT_GlyphLoaderRec \<Rightarrow> FT_GlyphLoaderRec option" where
  "FT_Outline_Translate x y i n gl = map_points (\<lambda>v. \<lparr>vx = ADD_LONG (vx v) x, vy = ADD_LONG (vy v) y\<rparr>) i n gl"

definition has_scale :: "nat \<Rightarrow> bool" where
  "has_scale flags \<longleftrightarrow> flag_set flags (WE_HAVE_A_SCALE OR WE_HAVE_AN_XY_SCALE OR WE_HAVE_A_2X2)"

text \<open>The offset of a component that names points to match: \<open>Inl\<close> is the error.\<close>

definition match_offset :: "FT_SubGlyphRec \<Rightarrow> nat \<Rightarrow> nat \<Rightarrow> FT_GlyphLoaderRec \<Rightarrow> (unit + int \<times> int) option" where
  "match_offset subglyph start_point num_base_points gl =
     (let k = add32 (nat (u32i (sg_arg1 subglyph))) start_point; l = add32 (nat (u32i (sg_arg2 subglyph))) num_base_points
      in if k \<ge> num_base_points \<or> l \<ge> gl_n_points gl then Some (Inl ())
         else do {
           p1 \<leftarrow> get_at (gl_points gl) k; p2 \<leftarrow> get_at (gl_points gl) l;
           Some (Inr (SUB_LONG (vx p1) (vx p2), SUB_LONG (vy p1) (vy p2)))
         })"

text \<open>The offset of a component that gives it, scaled and rounded as its flags say.\<close>

definition given_offset :: "TT_LoadEnv \<Rightarrow> bool \<Rightarrow> TT_ExecContext option \<Rightarrow> FT_SubGlyphRec \<Rightarrow> (int \<times> int) option" where
  "given_offset env hinted exec subglyph =
     (let x = sg_arg1 subglyph; y = sg_arg2 subglyph; m = sg_transform subglyph; flags = sg_flags subglyph
      in if x = 0 \<and> y = 0 then Some (0, 0)
         else let (x, y) = (if has_scale flags \<and> flag_set flags SCALED_COMPONENT_OFFSET
                            then (FT_MulFix x (FT_Hypot (mxx m) (mxy m)), FT_MulFix y (FT_Hypot (myy m) (myx m))) else (x, y))
           in if le_no_scale env then Some (x, y)
              else let x = FT_MulFix x (le_x_scale env); y = FT_MulFix y (le_y_scale env)
                in if flag_set flags ROUND_XY_TO_GRID \<and> hinted
                   then case exec of
                          None \<Rightarrow> None
                        | Some exec \<Rightarrow> Some (if exc_backward_compatibility exec = 0 then FT_PIX_ROUND x else x, FT_PIX_ROUND y)
                   else Some (x, y))"

definition TT_Process_Composite_Component :: "TT_LoadEnv \<Rightarrow> FT_SubGlyphRec \<Rightarrow> nat \<Rightarrow> nat \<Rightarrow> TT_GlyphLoad \<Rightarrow> (ft_error option \<times> TT_GlyphLoad) option" where
  "TT_Process_Composite_Component env subglyph start_point num_base_points ld = do {
     let n = u16_of_int (int (gl_n_points (gd_gloader ld)) - int num_base_points);
     gl \<leftarrow> (if has_scale (sg_flags subglyph) then FT_Outline_Transform (sg_transform subglyph) num_base_points n (gd_gloader ld)
           else Some (gd_gloader ld));
     let ld = set_gloader gl ld;
     r \<leftarrow> (if \<not> flag_set (sg_flags subglyph) ARGS_ARE_XY_VALUES then match_offset subglyph start_point num_base_points gl
          else map_option Inr (given_offset env (ld_hinted (gd_loader ld)) (gd_exec ld) subglyph));
     case r of
       Inl _ \<Rightarrow> Some (Some Invalid_Composite, ld)
     | Inr (x, y) \<Rightarrow>
         if x \<noteq> 0 \<or> y \<noteq> 0
         then do { gl \<leftarrow> FT_Outline_Translate x y num_base_points n gl; Some (None, set_gloader gl ld) }
         else Some (None, ld)
   }"

section \<open>Composite glyphs\<close>

text \<open>The points of the zone but the phantom points, no longer touched.\<close>

definition untouch_zone :: "TT_ZoneRef \<Rightarrow> FT_GlyphLoaderRec \<Rightarrow> FT_GlyphLoaderRec option" where
  "untouch_zone zr gl =
     (let i = zr_cur zr; n = zr_n_points zr - 4
      in if zr_n_points zr < 4 \<or> i + n > length (gl_tags gl) then None
         else Some (gl\<lparr>gl_tags := take i (gl_tags gl) @
                map (\<lambda>t. nat (int t AND NOT (int FT_CURVE_TAG_TOUCH_BOTH))) (take n (drop i (gl_tags gl))) @ drop (i + n) (gl_tags gl)\<rparr>))"

definition TT_Process_Composite_Glyph :: "TT_LoadEnv \<Rightarrow> nat \<Rightarrow> nat \<Rightarrow> TT_GlyphLoad \<Rightarrow> (ft_error option \<times> TT_GlyphLoad) option" where
  "TT_Process_Composite_Glyph env start_point start_contour ld =
     (let (error, gl) = FT_GLYPHLOADER_CHECK_POINTS 4 0 (gd_gloader ld); ld = set_gloader gl ld
      in if error \<noteq> None then Some (error, ld)
         else do {
           ld \<leftarrow> put_phantoms (gl_n_points gl) ld;
           let ld = ld\<lparr>gd_loader := (gd_loader ld)\<lparr>ld_glyphIns := []\<rparr>\<rparr>;
           let (error, stream) = FT_Stream_Seek (ld_ins_pos (gd_loader ld)) (ld_stream (gd_loader ld));
           if error \<noteq> None then Some (error, set_stream stream ld)
           else do {
             ((error, n_ins), stream) \<leftarrow> FT_Stream_ReadUShort stream;
             let ld = set_stream stream ld;
             if error \<noteq> None then Some (error, ld)
             else if n_ins = 0 then Some (None, ld)
             else if n_ins > gd_byte_len ld then Some (Some Too_Many_Hints, ld)
             else let (granted, gl) = ask (gd_gloader ld); ld = set_gloader gl ld
               in if \<not> granted then Some (Some Out_Of_Memory, ld)
                  else do {
                    ((error, ins), stream) \<leftarrow> FT_Stream_Read n_ins (ld_stream (gd_loader ld));
                    let ld = set_stream stream ld;
                    if error \<noteq> None then Some (error, ld)
                    else do {
                      let ld = ld\<lparr>gd_loader := (gd_loader ld)\<lparr>ld_glyphIns := ins\<rparr>\<rparr>;
                      let zr = tt_prepare_zone True (gd_gloader ld) start_point start_contour;
                      gl \<leftarrow> untouch_zone zr (gd_gloader ld);
                      TT_Hint_Glyph env zr True (set_gloader gl ld)
                    }
                  }
           }
         })"

section \<open>Loading a glyph\<close>

text \<open>A frame of a stream with a callback needs memory.\<close>

definition access_glyph_frame :: "nat \<Rightarrow> nat \<Rightarrow> TT_GlyphLoad \<Rightarrow> ft_error option \<times> TT_GlyphLoad" where
  "access_glyph_frame offset byte_count ld =
     (let (granted, gl) = (if st_read (ld_stream (gd_loader ld)) = None then (True, gd_gloader ld) else ask (gd_gloader ld));
          (error, loader) = TT_Access_Glyph_Frame granted offset byte_count (with_gloader gl (gd_loader ld))
      in (error, ld\<lparr>gd_loader := loader\<rparr>))"

definition forget_glyph_frame :: "TT_GlyphLoad \<Rightarrow> TT_GlyphLoad" where
  "forget_glyph_frame ld = ld\<lparr>gd_loader := TT_Forget_Glyph_Frame (gd_loader ld)\<rparr>"

text \<open>The header of the glyph, when it has any bytes.\<close>

definition load_header :: "TT_LoadEnv \<Rightarrow> nat \<Rightarrow> TT_GlyphLoad \<Rightarrow> (ft_error option \<times> TT_GlyphLoad) option" where
  "load_header env offset ld =
     (if gd_byte_len ld = 0 then Some (None, ld)
      else if lf_glyf_offset (le_loca env) = 0 then Some (Some Invalid_Table, ld)
      else let (error, ld) = access_glyph_frame (add64 (lf_glyf_offset (le_loca env)) offset) (gd_byte_len ld) ld
        in if error \<noteq> None then Some (error, ld)
           else do {
             (error, loader) \<leftarrow> TT_Load_Glyph_Header (gd_loader ld);
             Some (error, forget_glyph_frame (ld\<lparr>gd_loader := loader\<rparr>))
           })"

definition empty_glyph :: "TT_GlyphLoad \<Rightarrow> bool" where
  "empty_glyph ld \<longleftrightarrow> gd_byte_len ld = 0 \<or> ld_n_contours (gd_loader ld) = 0"

definition scaled_phantoms :: "TT_LoadEnv \<Rightarrow> TT_GlyphLoad \<Rightarrow> TT_GlyphLoad" where
  "scaled_phantoms env ld = (if \<not> le_no_scale env then scale_phantoms (le_x_scale env) (le_y_scale env) ld else ld)"

text \<open>A simple glyph, in the frame that was opened behind its header.\<close>

definition load_simple :: "TT_LoadEnv \<Rightarrow> TT_GlyphLoad \<Rightarrow> (ft_error option \<times> TT_GlyphLoad) option" where
  "load_simple env ld = do {
     (error, loader) \<leftarrow> TT_Load_Simple_Glyph (gd_loader ld);
     let ld = forget_glyph_frame (ld\<lparr>gd_loader := loader\<rparr>);
     if error \<noteq> None then Some (error, ld)
     else do {
       (error, ld) \<leftarrow> TT_Process_Simple_Glyph env ld;
       if error \<noteq> None then Some (error, ld)
       else do { gl \<leftarrow> FT_GlyphLoader_Add (gd_gloader ld); Some (None, set_gloader gl ld) }
     }
   }"

text \<open>
  The chain of composite glyphs that lead to this one: entries from \<open>recurse_count\<close> on are cleared; then the glyph must
  not be in it, and is entered.
\<close>

definition enter_composite :: "nat \<Rightarrow> nat \<Rightarrow> TT_GlyphLoad \<Rightarrow> ft_error option \<times> TT_GlyphLoad" where
  "enter_composite recurse_count glyph_index ld =
     (let cs = gd_composites ld; cs = take recurse_count cs @ replicate (length cs - recurse_count) None;
          ld = ld\<lparr>gd_composites := cs\<rparr>
      in if Some glyph_index \<in> set cs then (Some Invalid_Composite, ld)
         else if recurse_count < length cs then (None, ld\<lparr>gd_composites := cs[recurse_count := Some glyph_index]\<rparr>)
         else let (granted, gl) = ask (gd_gloader ld); ld = set_gloader gl ld
           in if \<not> granted then (Some Out_Of_Memory, ld)
              else (None, ld\<lparr>gd_composites := cs @ [Some glyph_index]\<rparr>))"

text \<open>
  The loop over the components, given by their places in the array of subglyphs; with the last component read
  and the number of points behind it. \<open>load\<close> is the recursive call.
\<close>

fun load_components ::
    "(nat \<Rightarrow> TT_GlyphLoad \<Rightarrow> (ft_error option \<times> TT_GlyphLoad) option) \<Rightarrow> TT_LoadEnv \<Rightarrow> nat \<Rightarrow> nat list \<Rightarrow>
       FT_SubGlyphRec option \<Rightarrow> nat \<Rightarrow> TT_GlyphLoad \<Rightarrow> ((ft_error option \<times> FT_SubGlyphRec option \<times> nat) \<times> TT_GlyphLoad) option" where
  "load_components load env start_point [] subglyph num_points ld = Some ((None, subglyph, num_points), ld)"
| "load_components load env start_point (i # ns) _ num_points ld = do {
     subglyph \<leftarrow> get_at (gl_subglyphs (gd_gloader ld)) i;
     let num_base_points = gl_n_points (gd_gloader ld);
     (error, ld') \<leftarrow> load (sg_index subglyph) ld;
     if error \<noteq> None then Some ((error, Some subglyph, num_points), ld')
     else do {
       subglyph \<leftarrow> get_at (gl_subglyphs (gd_gloader ld')) i;
       let ld' = (if \<not> flag_set (sg_flags subglyph) USE_MY_METRICS
                  then ld'\<lparr>gd_pp1 := gd_pp1 ld, gd_pp2 := gd_pp2 ld, gd_pp3 := gd_pp3 ld, gd_pp4 := gd_pp4 ld,
                           gd_linear := gd_linear ld, gd_vadvance := gd_vadvance ld\<rparr>
                  else ld');
       let num_points = gl_n_points (gd_gloader ld');
       if num_points = num_base_points
       then load_components load env start_point ns (Some subglyph) num_points ld'
       else do {
         (error, ld') \<leftarrow> TT_Process_Composite_Component env subglyph start_point num_base_points ld';
         if error \<noteq> None then Some ((error, Some subglyph, num_points), ld')
         else load_components load env start_point ns (Some subglyph) num_points ld'
       }
     }
   }"

text \<open>The flag for overlapping contours, of the first subglyph.\<close>

definition retain_overlap :: "FT_GlyphLoaderRec \<Rightarrow> FT_GlyphLoaderRec option" where
  "retain_overlap gl =
     (if gl_num_subglyphs gl \<noteq> 0
      then do {
        s \<leftarrow> get_at (gl_subglyphs gl) 0;
        Some (if flag_set (sg_flags s) OVERLAP_COMPOUND then gl\<lparr>gl_flags := gl_flags gl OR FT_OUTLINE_OVERLAP\<rparr> else gl)
      }
      else Some gl)"

text \<open>What follows when all components are known: they are loaded, and the glyph is hinted as a whole.\<close>

definition join_components ::
    "(nat \<Rightarrow> TT_GlyphLoad \<Rightarrow> (ft_error option \<times> TT_GlyphLoad) option) \<Rightarrow> TT_LoadEnv \<Rightarrow> nat \<Rightarrow> nat \<Rightarrow> TT_GlyphLoad \<Rightarrow>
       (ft_error option \<times> TT_GlyphLoad) option" where
  "join_components load env start_point start_contour ld = do {
     let num_subglyphs = gl_cur_num_subglyphs (gd_gloader ld);
     let num_base_subgs = gl_num_subglyphs (gd_gloader ld);
     let old_byte_len = gd_byte_len ld;
     let ins_pos = ld_ins_pos (gd_loader ld);
     gl \<leftarrow> FT_GlyphLoader_Add (gd_gloader ld);
     ((error, subglyph, num_points), ld) \<leftarrow>
       load_components load env start_point [num_base_subgs..<num_base_subgs + num_subglyphs] None start_point (set_gloader gl ld);
     if error \<noteq> None then Some (error, ld)
     else do {
       let ld = ld\<lparr>gd_byte_len := old_byte_len, gd_loader := (gd_loader ld)\<lparr>ld_ins_pos := ins_pos\<rparr>\<rparr>;
       (error, ld) \<leftarrow>
         (if ld_hinted (gd_loader ld) \<and> (case subglyph of Some s \<Rightarrow> flag_set (sg_flags s) WE_HAVE_INSTR | None \<Rightarrow> False) \<and>
             num_points > start_point
          then TT_Process_Composite_Glyph env start_point start_contour ld else Some (None, ld));
       if error \<noteq> None then Some (error, ld)
       else do { gl \<leftarrow> retain_overlap (gd_gloader ld); Some (None, set_gloader gl ld) }
     }
   }"

definition load_composite ::
    "(nat \<Rightarrow> TT_GlyphLoad \<Rightarrow> (ft_error option \<times> TT_GlyphLoad) option) \<Rightarrow> TT_LoadEnv \<Rightarrow> nat \<Rightarrow> nat \<Rightarrow> TT_GlyphLoad \<Rightarrow>
       (ft_error option \<times> TT_GlyphLoad) option" where
  "load_composite load env recurse_count glyph_index ld =
     (let ld = ld\<lparr>gd_loader := (gd_loader ld)\<lparr>ld_n_contours := -1\<rparr>\<rparr>; (error, ld) = enter_composite recurse_count glyph_index ld
      in if error \<noteq> None then Some (error, forget_glyph_frame ld)
         else do {
           let start_point = gl_n_points (gd_gloader ld);
           let start_contour = gl_n_contours (gd_gloader ld);
           (error, loader) \<leftarrow> TT_Load_Composite_Glyph (gd_loader ld);
           let ld = forget_glyph_frame (ld\<lparr>gd_loader := loader\<rparr>);
           if error \<noteq> None then Some (error, ld)
           else let ld = scaled_phantoms env ld
             in if le_no_recurse env
                then do { gl \<leftarrow> FT_GlyphLoader_Add (gd_gloader ld); Some (None, set_gloader gl (ld\<lparr>gd_format_composite := True\<rparr>)) }
                else join_components load env start_point start_contour ld
         })"

text \<open>The body of the function below the recursion limit.\<close>

definition load_glyph_body ::
    "(nat \<Rightarrow> TT_GlyphLoad \<Rightarrow> (ft_error option \<times> TT_GlyphLoad) option) \<Rightarrow> TT_LoadEnv \<Rightarrow> nat \<Rightarrow> nat \<Rightarrow> bool \<Rightarrow> TT_GlyphLoad \<Rightarrow>
       (ft_error option \<times> TT_GlyphLoad) option" where
  "load_glyph_body load env recurse_count glyph_index header_only ld = do {
     let ld = (if recurse_count > gd_maxComponentDepth ld then ld\<lparr>gd_maxComponentDepth := recurse_count\<rparr> else ld);
     (offset, len) \<leftarrow> tt_face_get_location (le_loca env) glyph_index;
     let ld = ld\<lparr>gd_glyph_index := glyph_index, gd_byte_len := len mod 4294967296\<rparr>;
     (error, ld) \<leftarrow> load_header env offset ld;
     if error \<noteq> None then Some (error, ld)
     else do {
       let ld = (if empty_glyph ld
                 then ld\<lparr>gd_loader := (gd_loader ld)\<lparr>ld_bbox := \<lparr>xMin = 0, yMin = 0, xMax = 0, yMax = 0\<rparr>\<rparr>\<rparr> else ld);
       (error, ld) \<leftarrow> tt_get_metrics env glyph_index ld;
       if error \<noteq> None \<or> header_only then Some (error, ld)
       else let ld = tt_loader_set_pp ld
         in if empty_glyph ld then Some (None, scaled_phantoms env ld)
            else let (error, ld) = access_glyph_frame (add64 (add64 (lf_glyf_offset (le_loca env)) offset) 10) (gd_byte_len ld - 10) ld
              in if error \<noteq> None then Some (error, ld)
                 else if ld_n_contours (gd_loader ld) > 0 then load_simple env ld
                 else load_composite load env recurse_count glyph_index ld
     }
   }"

text \<open>\<open>levels\<close> is how many more calls may be nested, 101 for the outermost one.\<close>

primrec load_levels :: "nat \<Rightarrow> TT_LoadEnv \<Rightarrow> nat \<Rightarrow> bool \<Rightarrow> TT_GlyphLoad \<Rightarrow> (ft_error option \<times> TT_GlyphLoad) option" where
  "load_levels 0 env glyph_index header_only ld = Some (Some Invalid_Composite, ld)"
| "load_levels (Suc levels) env glyph_index header_only ld =
     load_glyph_body (\<lambda>i. load_levels levels env i False) env (100 - levels) glyph_index header_only ld"

definition load_truetype_glyph :: "TT_LoadEnv \<Rightarrow> nat \<Rightarrow> nat \<Rightarrow> bool \<Rightarrow> TT_GlyphLoad \<Rightarrow> (ft_error option \<times> TT_GlyphLoad) option" where
  "load_truetype_glyph env glyph_index recurse_count header_only ld = load_levels (101 - recurse_count) env glyph_index header_only ld"

end
