(* ===== verification/Tt_Glyph_Parse.thy ===== *)
theory Tt_Glyph_Parse
  imports Tt_Glyph Tt_Exec_Safe
begin

text \<open>
  What the loops of \<open>TT_Load_Simple_Glyph\<close> compute: a parser of the glyph format that returns the
  contour ends, flags and coordinates as lists, and lemmas that the loops store these lists behind the
  base of the glyph loader, and touch nothing else.
\<close>

section \<open>The format\<close>

definition ends_of :: "bytes \<Rightarrow> nat \<Rightarrow> nat \<Rightarrow> nat list" where
  "ends_of base k p = map (\<lambda>i. u16 base (p + 2 * i)) [0..<k]"

fun flags_of :: "bytes \<Rightarrow> nat \<Rightarrow> nat \<Rightarrow> nat \<Rightarrow> (nat list \<times> nat) option" where
  "flags_of base limit 0 p = Some ([], p)"
| "flags_of base limit (Suc k) p =
     (if p + 1 > limit then None
      else if flag_set (u8 base p) REPEAT_FLAG
      then if p + 2 > limit \<or> u8 base (p + 1) > k then None
           else do {
             (fs, q) \<leftarrow> flags_of base limit (k - u8 base (p + 1)) (p + 2);
             Some (replicate (Suc (u8 base (p + 1))) (u8 base p) @ fs, q)
           }
      else do { (fs, q) \<leftarrow> flags_of base limit k (p + 1); Some (u8 base p # fs, q) })"

fun deltas_of :: "bytes \<Rightarrow> nat \<Rightarrow> nat \<Rightarrow> nat \<Rightarrow> nat list \<Rightarrow> nat \<Rightarrow> (int list \<times> nat) option" where
  "deltas_of base limit sv sm [] p = Some ([], p)"
| "deltas_of base limit sv sm (f # fs) p =
     (case read_delta base limit sv sm f p of
        Some (Inr (d, q)) \<Rightarrow> do { (ds, q) \<leftarrow> deltas_of base limit sv sm fs q; Some (d # ds, q) }
      | _ \<Rightarrow> None)"

fun sums :: "int \<Rightarrow> int list \<Rightarrow> int list" where
  "sums x [] = []"
| "sums x (d # ds) = (x + d) # sums (x + d) ds"

lemma length_sums [simp]: "length (sums x ds) = length ds"
  by (induction ds arbitrary: x) auto

record simple_glyph =
  glyph_ends :: "nat list"
  glyph_ins :: bytes
  glyph_flags :: "nat list"
  glyph_xs :: "int list"
  glyph_ys :: "int list"

definition parse_points :: "bytes \<Rightarrow> nat \<Rightarrow> nat \<Rightarrow> nat \<Rightarrow> ((nat list \<times> int list \<times> int list) \<times> nat) option" where
  "parse_points base limit n p = do {
     (fs, p) \<leftarrow> flags_of base limit n p;
     (dx, p) \<leftarrow> deltas_of base limit X_SHORT_VECTOR SAME_X fs p;
     (dy, p) \<leftarrow> deltas_of base limit Y_SHORT_VECTOR SAME_Y fs p;
     Some ((fs, sums 0 dx, sums 0 dy), p)
   }"

definition parse_simple :: "bytes \<Rightarrow> nat \<Rightarrow> nat \<Rightarrow> nat \<Rightarrow> (simple_glyph \<times> nat) option" where
  "parse_simple base limit n_contours p =
     (let ends = ends_of base n_contours p;
          n_points = (if ends = [] then 0 else last ends + 1);
          q = p + 2 * n_contours + 2; n_ins = u16 base (q - 2)
      in if n_contours \<ge> 0xFFF \<or> q > limit \<or> \<not> sorted_wrt (<) ends \<or> q + n_ins > limit then None
         else do {
           ((fs, xs, ys), r) \<leftarrow> parse_points base limit n_points (q + n_ins);
           Some (\<lparr>glyph_ends = ends, glyph_ins = take n_ins (drop q base), glyph_flags = fs, glyph_xs = xs, glyph_ys = ys\<rparr>, r)
         })"

section \<open>Writing into the loader\<close>

definition splice :: "nat \<Rightarrow> 'a list \<Rightarrow> 'a list \<Rightarrow> 'a list" where
  "splice i xs ys = take i ys @ xs @ drop (i + length xs) ys"

lemma splice_simps [simp]:
  "splice i [] ys = ys" "i + length xs \<le> length ys \<Longrightarrow> length (splice i xs ys) = length ys"
  by (simp_all add: splice_def)

lemma splice_update:
  "i < length ys \<Longrightarrow> splice (Suc i) xs (ys[i := x]) = splice i (x # xs) ys"
  by (simp add: splice_def take_Suc_conv_app_nth)

lemma splice_splice:
  "i + length xs \<le> length ys \<Longrightarrow> splice (i + length xs) zs (splice i xs ys) = splice i (xs @ zs) ys"
  by (simp add: splice_def ac_simps)

lemma take_splice: "j \<le> i \<Longrightarrow> i \<le> length ys \<Longrightarrow> take j (splice i xs ys) = take j ys"
  by (simp add: splice_def)

lemma drop_splice: "i \<le> length ys \<Longrightarrow> drop i (splice i xs ys) = xs @ drop (i + length xs) ys"
  by (simp add: splice_def)

text \<open>Only the arrays behind the base, and the flags, are written.\<close>

definition wrote :: "FT_GlyphLoaderRec \<Rightarrow> FT_GlyphLoaderRec \<Rightarrow> bool" where
  "wrote gl gl' \<longleftrightarrow>
     (\<exists>ps ts cs fl. gl' = gl\<lparr>gl_points := ps, gl_tags := ts, gl_contours := cs, gl_flags := fl\<rparr> \<and>
        length ps = length (gl_points gl) \<and> length ts = length (gl_tags gl) \<and> length cs = length (gl_contours gl) \<and>
        take (gl_cur_points gl) ps = take (gl_cur_points gl) (gl_points gl) \<and>
        take (gl_cur_points gl) ts = take (gl_cur_points gl) (gl_tags gl) \<and>
        take (gl_cur_contours gl) cs = take (gl_cur_contours gl) (gl_contours gl))"

lemma wrote_refl [simp]: "wrote gl gl"
  unfolding wrote_def by (intro exI [of _ "gl_points gl"] exI [of _ "gl_tags gl"] exI [of _ "gl_contours gl"] exI [of _ "gl_flags gl"]) simp

lemma wrote_trans:
  assumes "wrote a b" "wrote b c"
  shows "wrote a c"
proof -
  obtain ps ts cs fl where b: "b = a\<lparr>gl_points := ps, gl_tags := ts, gl_contours := cs, gl_flags := fl\<rparr>"
    "length ps = length (gl_points a)" "length ts = length (gl_tags a)" "length cs = length (gl_contours a)"
    "take (gl_cur_points a) ps = take (gl_cur_points a) (gl_points a)" "take (gl_cur_points a) ts = take (gl_cur_points a) (gl_tags a)"
    "take (gl_cur_contours a) cs = take (gl_cur_contours a) (gl_contours a)"
    using assms(1) unfolding wrote_def by blast
  obtain ps' ts' cs' fl' where c: "c = b\<lparr>gl_points := ps', gl_tags := ts', gl_contours := cs', gl_flags := fl'\<rparr>"
    "length ps' = length (gl_points b)" "length ts' = length (gl_tags b)" "length cs' = length (gl_contours b)"
    "take (gl_cur_points b) ps' = take (gl_cur_points b) (gl_points b)" "take (gl_cur_points b) ts' = take (gl_cur_points b) (gl_tags b)"
    "take (gl_cur_contours b) cs' = take (gl_cur_contours b) (gl_contours b)"
    using assms(2) unfolding wrote_def by blast
  show ?thesis unfolding wrote_def
    by (intro exI [of _ ps'] exI [of _ ts'] exI [of _ cs'] exI [of _ fl'] conjI) (use b(2-7) c(2-7) in \<open>simp_all add: b(1) c(1)\<close>)
qed

lemma wroteD:
  assumes "wrote gl gl'"
  shows "gl_cur_points gl' = gl_cur_points gl" "gl_cur_contours gl' = gl_cur_contours gl" "gl_n_points gl' = gl_n_points gl"
    "gl_n_contours gl' = gl_n_contours gl" "gl_cur_n_points gl' = gl_cur_n_points gl" "gl_cur_n_contours gl' = gl_cur_n_contours gl"
    "gl_max_points gl' = gl_max_points gl" "gl_max_contours gl' = gl_max_contours gl" "gl_grants gl' = gl_grants gl"
    "length (gl_points gl') = length (gl_points gl)" "length (gl_tags gl') = length (gl_tags gl)"
    "length (gl_contours gl') = length (gl_contours gl)" "gl_num_subglyphs gl' = gl_num_subglyphs gl"
    "gl_cur_num_subglyphs gl' = gl_cur_num_subglyphs gl"
  using assms unfolding wrote_def by (elim exE conjE, simp)+

lemma wrote_ok: "wrote gl gl' \<Longrightarrow> gl_ok gl \<Longrightarrow> gl_ok gl'"
  unfolding wrote_def gl_ok_def gl_sized_def gl_aimed_def by (elim exE conjE) simp

text \<open>The writes.\<close>

lemma put_contour_run:
  "gl_cur_contours gl + i < length (gl_contours gl) \<Longrightarrow>
     put_contour i c gl = Some (gl\<lparr>gl_contours := (gl_contours gl)[gl_cur_contours gl + i := c]\<rparr>)"
  by (simp add: put_contour_def put_at_def)

lemma put_tag_run:
  "gl_cur_points gl + i < length (gl_tags gl) \<Longrightarrow> put_tag i c gl = Some (gl\<lparr>gl_tags := (gl_tags gl)[gl_cur_points gl + i := c]\<rparr>)"
  by (simp add: put_tag_def put_at_def)

lemma wrote_updates:
  "wrote gl (gl\<lparr>gl_contours := (gl_contours gl)[gl_cur_contours gl + i := c]\<rparr>)"
  "wrote gl (gl\<lparr>gl_tags := (gl_tags gl)[gl_cur_points gl + i := f]\<rparr>)"
  "wrote gl (gl\<lparr>gl_points := (gl_points gl)[gl_cur_points gl + i := v]\<rparr>)"
  "wrote gl (gl\<lparr>gl_flags := fl\<rparr>)"
  unfolding wrote_def
  by (intro exI [of _ "gl_points gl"] exI [of _ "gl_tags gl"] exI [of _ "(gl_contours gl)[gl_cur_contours gl + i := c]"] exI [of _ "gl_flags gl"], simp)
    (intro exI [of _ "gl_points gl"] exI [of _ "(gl_tags gl)[gl_cur_points gl + i := f]"] exI [of _ "gl_contours gl"] exI [of _ "gl_flags gl"], simp,
     intro exI [of _ "(gl_points gl)[gl_cur_points gl + i := v]"] exI [of _ "gl_tags gl"] exI [of _ "gl_contours gl"] exI [of _ "gl_flags gl"], simp,
     intro exI [of _ "gl_points gl"] exI [of _ "gl_tags gl"] exI [of _ "gl_contours gl"] exI [of _ fl], simp)

section \<open>The loops\<close>

lemma fill_tags_run:
  "gl_cur_points gl + i + k \<le> length (gl_tags gl) \<Longrightarrow>
     fill_tags i k c gl = Some (gl\<lparr>gl_tags := splice (gl_cur_points gl + i) (replicate k c) (gl_tags gl)\<rparr>)"
proof (induction k arbitrary: i gl)
  case (Suc k)
  let ?g = "gl\<lparr>gl_tags := (gl_tags gl)[gl_cur_points gl + i := c]\<rparr>"
  have "fill_tags i (Suc k) c gl = fill_tags (i + 1) k c ?g" using Suc.prems by (simp add: put_tag_run)
  also have "\<dots> = Some (?g\<lparr>gl_tags := splice (gl_cur_points ?g + (i + 1)) (replicate k c) (gl_tags ?g)\<rparr>)"
    by (rule Suc.IH) (use Suc.prems in simp)
  finally show ?case using Suc.prems splice_update [of "gl_cur_points gl + i" "gl_tags gl" "replicate k c" c] by simp
qed simp

lemma ends_of_Suc: "ends_of base (Suc k) p = u16 base p # ends_of base k (p + 2)"
  by (simp add: ends_of_def upt_conv_Cons map_Suc_upt [symmetric] del: upt_Suc)

text \<open>The last of the ends, or what was before them.\<close>

definition last_end :: "int \<Rightarrow> nat list \<Rightarrow> int" where
  "last_end prev es = (if es = [] then prev else int (last es))"

lemma read_ends_run:
  assumes "gl_cur_contours gl + i + k \<le> length (gl_contours gl)" "p + 2 * k \<le> length base"
  shows "\<exists>r gl'. read_ends base i k p prev gl = Some (r, gl') \<and> wrote gl gl' \<and>
    (if sorted_wrt (<) (map int (ends_of base k p)) \<and> (\<forall>e \<in> set (ends_of base k p). prev < int e)
     then r = Inr (p + 2 * k, last_end prev (ends_of base k p)) \<and>
       gl' = gl\<lparr>gl_contours := splice (gl_cur_contours gl + i) (ends_of base k p) (gl_contours gl)\<rparr>
     else r = Inl ())"
  using assms
proof (induction k arbitrary: i p prev gl)
  case 0
  then show ?case by (simp add: ends_of_def last_end_def)
next
  case (Suc k)
  let ?c = "u16 base p" and ?g = "gl\<lparr>gl_contours := (gl_contours gl)[gl_cur_contours gl + i := u16 base p]\<rparr>"
  have s: "read_ends base i (Suc k) p prev gl =
      (if int ?c \<le> prev then Some (Inl (), ?g) else read_ends base (i + 1) k (p + 2) (int ?c) ?g)"
    using Suc.prems by (simp add: put_contour_run)
  show ?case
  proof (cases "int ?c \<le> prev")
    case True
    then show ?thesis using s wrote_updates(1) by (simp add: ends_of_Suc)
  next
    case False
    have "\<exists>r gl'. read_ends base (i + 1) k (p + 2) (int ?c) ?g = Some (r, gl') \<and> wrote ?g gl' \<and>
      (if sorted_wrt (<) (map int (ends_of base k (p + 2))) \<and> (\<forall>e \<in> set (ends_of base k (p + 2)). int ?c < int e)
       then r = Inr (p + 2 + 2 * k, last_end (int ?c) (ends_of base k (p + 2))) \<and>
         gl' = ?g\<lparr>gl_contours := splice (gl_cur_contours ?g + (i + 1)) (ends_of base k (p + 2)) (gl_contours ?g)\<rparr>
       else r = Inl ())"
      by (rule Suc.IH) (use Suc.prems in simp_all)
    then obtain r gl' where r: "read_ends base (i + 1) k (p + 2) (int ?c) ?g = Some (r, gl')" "wrote ?g gl'"
      "if sorted_wrt (<) (map int (ends_of base k (p + 2))) \<and> (\<forall>e \<in> set (ends_of base k (p + 2)). int ?c < int e)
       then r = Inr (p + 2 + 2 * k, last_end (int ?c) (ends_of base k (p + 2))) \<and>
         gl' = ?g\<lparr>gl_contours := splice (gl_cur_contours ?g + (i + 1)) (ends_of base k (p + 2)) (gl_contours ?g)\<rparr>
       else r = Inl ()" by blast
    have "wrote gl gl'" using wrote_trans [OF wrote_updates(1) r(2)] .
    moreover have "splice (gl_cur_contours gl + (i + 1)) (ends_of base k (p + 2)) (gl_contours ?g) =
        splice (gl_cur_contours gl + i) (ends_of base (Suc k) p) (gl_contours gl)"
      using Suc.prems splice_update [of "gl_cur_contours gl + i" "gl_contours gl"] by (simp add: ends_of_Suc)
    moreover have "last_end (int ?c) (ends_of base k (p + 2)) = last_end prev (ends_of base (Suc k) p)"
      by (simp add: last_end_def ends_of_Suc)
    ultimately show ?thesis using s False r(1,3)
      by (intro exI [of _ r] exI [of _ gl']) (auto simp: ends_of_Suc split: if_splits)
  qed
qed

end
