(* ===== verification/Tt_Glyph_Points.thy ===== *)
theory Tt_Glyph_Points
  imports Tt_Glyph_Parse
begin

text \<open>
  The loops of \<open>TT_Load_Simple_Glyph\<close> over flags and coordinates: each stores what the parser of
  \<open>Tt_Glyph_Parse\<close> reads behind the base of the glyph loader, or fails where the parser fails.
\<close>

section \<open>Flags\<close>

lemma flags_of_run:
  "flags_of base limit k p = Some (fs, q) \<Longrightarrow> length fs = k \<and> p \<le> q \<and> (p \<le> limit \<longrightarrow> q \<le> limit)"
proof (induction k arbitrary: p fs q rule: less_induct)
  case (less k)
  show ?case
  proof (cases k)
    case 0
    with less.prems show ?thesis by simp
  next
    case (Suc n)
    show ?thesis
    proof (cases "flag_set (u8 base p) REPEAT_FLAG")
      case True
      with less.prems Suc obtain fs' where f: "flags_of base limit (n - u8 base (p + 1)) (p + 2) = Some (fs', q)"
        "fs = replicate (Suc (u8 base (p + 1))) (u8 base p) @ fs'" "p + 2 \<le> limit" "u8 base (p + 1) \<le> n"
        by (auto split: if_splits Option.bind_splits)
      have "n - u8 base (p + 1) < k" using Suc by simp
      from less.IH [OF this f(1)] Suc f(2-4) show ?thesis by auto
    next
      case False
      with less.prems Suc obtain fs' where f: "flags_of base limit n (p + 1) = Some (fs', q)" "fs = u8 base p # fs'" "p + 1 \<le> limit"
        by (auto split: if_splits Option.bind_splits)
      have "n < k" using Suc by simp
      from less.IH [OF this f(1)] Suc f(2,3) show ?thesis by auto
    qed
  qed
qed

lemma read_flags_run:
  assumes "gl_cur_points gl + i + k \<le> length (gl_tags gl)" "limit \<le> length base"
  shows "\<exists>r gl'. read_flags base limit i k p gl = Some (r, gl') \<and> wrote gl gl' \<and>
    (case flags_of base limit k p of
       Some (fs, q) \<Rightarrow> r = Inr q \<and> gl' = gl\<lparr>gl_tags := splice (gl_cur_points gl + i) fs (gl_tags gl)\<rparr>
     | None \<Rightarrow> r = Inl ())"
  using assms(1)
proof (induction k arbitrary: i p gl rule: less_induct)
  case (less k)
  show ?case
  proof (cases k)
    case 0
    then show ?thesis by simp
  next
    case (Suc n)
    let ?c = "u8 base p" and ?g = "gl\<lparr>gl_tags := (gl_tags gl)[gl_cur_points gl + i := u8 base p]\<rparr>"
    have w: "wrote gl ?g" by (rule wrote_updates)
    show ?thesis
    proof (cases "p + 1 \<le> limit")
      case False
      with Suc show ?thesis by simp
    next
      case p: True
      have put: "put_tag i ?c gl = Some ?g" using less.prems Suc by (intro put_tag_run) simp
      show ?thesis
      proof (cases "flag_set ?c REPEAT_FLAG")
        case False
        have "\<exists>r gl'. read_flags base limit (i + 1) n (p + 1) ?g = Some (r, gl') \<and> wrote ?g gl' \<and>
          (case flags_of base limit n (p + 1) of
             Some (fs, q) \<Rightarrow> r = Inr q \<and> gl' = ?g\<lparr>gl_tags := splice (gl_cur_points ?g + (i + 1)) fs (gl_tags ?g)\<rparr>
           | None \<Rightarrow> r = Inl ())"
          by (rule less.IH) (use less.prems Suc in simp_all)
        then obtain r gl' where r: "read_flags base limit (i + 1) n (p + 1) ?g = Some (r, gl')" "wrote ?g gl'"
          "case flags_of base limit n (p + 1) of
             Some (fs, q) \<Rightarrow> r = Inr q \<and> gl' = ?g\<lparr>gl_tags := splice (gl_cur_points ?g + (i + 1)) fs (gl_tags ?g)\<rparr>
           | None \<Rightarrow> r = Inl ()" by blast
        have s: "splice (Suc (gl_cur_points gl + i)) fs ((gl_tags gl)[gl_cur_points gl + i := ?c]) =
            splice (gl_cur_points gl + i) (?c # fs) (gl_tags gl)" for fs
          using less.prems Suc by (intro splice_update) simp
        show ?thesis
          using Suc p put False r(1,3) wrote_trans [OF w r(2)] assms(2) s
          by (intro exI [of _ r] exI [of _ gl']) (auto split: option.splits Option.bind_splits)
      next
        case rep: True
        show ?thesis
        proof (cases "p + 2 \<le> limit \<and> u8 base (p + 1) \<le> n")
          case False
          then show ?thesis using Suc p put rep w assms(2) by auto
        next
          case t: True
          let ?n = "u8 base (p + 1)"
          let ?h = "?g\<lparr>gl_tags := splice (gl_cur_points ?g + (i + 1)) (replicate ?n ?c) (gl_tags ?g)\<rparr>"
          have fill: "fill_tags (i + 1) ?n ?c ?g = Some ?h" using less.prems Suc t by (intro fill_tags_run) simp
          have h: "splice (Suc (gl_cur_points gl + i)) (replicate ?n ?c) ((gl_tags gl)[gl_cur_points gl + i := ?c]) =
              splice (gl_cur_points gl + i) (replicate (Suc ?n) ?c) (gl_tags gl)"
            using less.prems Suc by (subst splice_update) simp_all
          have wh: "wrote gl ?h"
            unfolding wrote_def using less.prems Suc t h
            by (intro exI [of _ "gl_points gl"] exI [of _ "splice (gl_cur_points gl + i) (replicate (Suc ?n) ?c) (gl_tags gl)"]
                exI [of _ "gl_contours gl"] exI [of _ "gl_flags gl"]) (simp add: take_splice del: replicate_Suc)
          have "\<exists>r gl'. read_flags base limit (i + 1 + ?n) (n - ?n) (p + 2) ?h = Some (r, gl') \<and> wrote ?h gl' \<and>
            (case flags_of base limit (n - ?n) (p + 2) of
               Some (fs, q) \<Rightarrow> r = Inr q \<and> gl' = ?h\<lparr>gl_tags := splice (gl_cur_points ?h + (i + 1 + ?n)) fs (gl_tags ?h)\<rparr>
             | None \<Rightarrow> r = Inl ())"
            by (rule less.IH) (use less.prems Suc t in simp_all)
          then obtain r gl' where r: "read_flags base limit (i + 1 + ?n) (n - ?n) (p + 2) ?h = Some (r, gl')" "wrote ?h gl'"
            "case flags_of base limit (n - ?n) (p + 2) of
               Some (fs, q) \<Rightarrow> r = Inr q \<and> gl' = ?h\<lparr>gl_tags := splice (gl_cur_points ?h + (i + 1 + ?n)) fs (gl_tags ?h)\<rparr>
             | None \<Rightarrow> r = Inl ()" by blast
          have s: "splice (gl_cur_points ?h + (i + 1 + ?n)) fs (gl_tags ?h) =
              splice (gl_cur_points gl + i) (replicate (Suc ?n) ?c @ fs) (gl_tags gl)" for fs
            using splice_splice [of "gl_cur_points gl + i" "replicate (Suc ?n) ?c" "gl_tags gl" fs] less.prems Suc t h
            by (simp add: ac_simps)
          have "read_flags base limit i k p gl = read_flags base limit (i + 1 + ?n) (n - ?n) (p + 2) ?h"
            using Suc p put rep t fill assms(2) by simp
          moreover have "flags_of base limit k p = Option.bind (flags_of base limit (n - ?n) (p + 2)) (\<lambda>(fs, q). Some (replicate (Suc ?n) ?c @ fs, q))"
            using Suc p rep t by simp
          ultimately show ?thesis using r(1,3) s wrote_trans [OF wh r(2)]
            by (intro exI [of _ r] exI [of _ gl']) (auto split: option.splits simp del: replicate_Suc)
        qed
      qed
    qed
  qed
qed


section \<open>Coordinates\<close>

lemma read_delta_run:
  assumes "limit \<le> length base"
  shows "\<exists>r. read_delta base limit sv sm f p = Some r \<and> (\<forall>d q. r = Inr (d, q) \<longrightarrow> p \<le> q \<and> (p \<le> limit \<longrightarrow> q \<le> limit))"
  using assms by (auto simp: read_delta_def)

lemma deltas_of_run:
  "deltas_of base limit sv sm fs p = Some (ds, q) \<Longrightarrow> length ds = length fs \<and> p \<le> q \<and> (p \<le> limit \<longrightarrow> q \<le> limit)"
proof (induction fs arbitrary: p ds)
  case (Cons f fs)
  then obtain d r ds' where d: "read_delta base limit sv sm f p = Some (Inr (d, r))" "deltas_of base limit sv sm fs r = Some (ds', q)"
    "ds = d # ds'" by (auto split: option.splits sum.splits Option.bind_splits)
  have "p \<le> r" "p \<le> limit \<longrightarrow> r \<le> limit" using d(1) by (auto simp: read_delta_def split: if_splits Option.bind_splits)
  with Cons.IH [OF d(2)] d(3) show ?case by auto
qed simp

text \<open>The loops over coordinates, with \<open>fs\<close> the flags of the points that remain.\<close>

lemma put_x_run:
  "gl_cur_points gl + i < length (gl_points gl) \<Longrightarrow>
     put_x i x gl = Some (gl\<lparr>gl_points := (gl_points gl)[gl_cur_points gl + i := (gl_points gl ! (gl_cur_points gl + i))\<lparr>vx := x\<rparr>]\<rparr>)"
  by (simp add: put_x_def put_at_def get_at_def)

lemma put_y_run:
  "gl_cur_points gl + i < length (gl_points gl) \<Longrightarrow>
     put_y i y gl = Some (gl\<lparr>gl_points := (gl_points gl)[gl_cur_points gl + i := (gl_points gl ! (gl_cur_points gl + i))\<lparr>vy := y\<rparr>]\<rparr>)"
  by (simp add: put_y_def put_at_def get_at_def)

lemma get_tag_run: "gl_cur_points gl + i < length (gl_tags gl) \<Longrightarrow> get_tag i gl = Some (gl_tags gl ! (gl_cur_points gl + i))"
  by (simp add: get_tag_def get_at_def)

definition with_xs :: "FT_Vector list \<Rightarrow> int list \<Rightarrow> FT_Vector list" where
  "with_xs vs xs = map2 (\<lambda>v x. v\<lparr>vx := x\<rparr>) vs xs"

definition with_ys :: "FT_Vector list \<Rightarrow> int list \<Rightarrow> FT_Vector list" where
  "with_ys vs ys = map2 (\<lambda>v y. v\<lparr>vy := y\<rparr>) vs ys"

lemma take_drop_Cons: "i < length xs \<Longrightarrow> take (Suc k) (drop i xs) = xs ! i # take k (drop (Suc i) xs)"
  by (simp add: Cons_nth_drop_Suc [symmetric])

lemma read_xs_run:
  assumes "gl_cur_points gl + i + k \<le> length (gl_tags gl)" "gl_cur_points gl + i + k \<le> length (gl_points gl)" "limit \<le> length base"
  shows "\<exists>r gl'. read_xs base limit i k p x gl = Some (r, gl') \<and> wrote gl gl' \<and>
    (case deltas_of base limit X_SHORT_VECTOR SAME_X (take k (drop (gl_cur_points gl + i) (gl_tags gl))) p of
       Some (ds, q) \<Rightarrow> r = Inr q \<and> gl' = gl\<lparr>gl_points := splice (gl_cur_points gl + i)
         (with_xs (take k (drop (gl_cur_points gl + i) (gl_points gl))) (sums x ds)) (gl_points gl)\<rparr>
     | None \<Rightarrow> r = Inl ())"
  using assms(1,2)
proof (induction k arbitrary: i p x gl)
  case 0
  then show ?case by (simp add: with_xs_def)
next
  case (Suc k)
  let ?i = "gl_cur_points gl + i"
  let ?f = "gl_tags gl ! ?i"
  have tag: "get_tag i gl = Some ?f" using Suc.prems by (simp add: get_tag_run)
  have fs: "take (Suc k) (drop ?i (gl_tags gl)) = ?f # take k (drop (Suc ?i) (gl_tags gl))" using Suc.prems by (simp add: take_drop_Cons)
  have vs: "take (Suc k) (drop ?i (gl_points gl)) = gl_points gl ! ?i # take k (drop (Suc ?i) (gl_points gl))"
    using Suc.prems by (simp add: take_drop_Cons)
  obtain r0 where d: "read_delta base limit X_SHORT_VECTOR SAME_X ?f p = Some r0" using read_delta_run [OF assms(3)] by blast
  show ?case
  proof (cases r0)
    case (Inl u)
    then show ?thesis using tag fs d by simp
  next
    case (Inr dq)
    obtain dl q where dq: "dq = (dl, q)" by (cases dq)
    let ?g = "gl\<lparr>gl_points := (gl_points gl)[?i := (gl_points gl ! ?i)\<lparr>vx := x + dl\<rparr>]\<rparr>"
    have put: "put_x i (x + dl) gl = Some ?g" using Suc.prems by (intro put_x_run) simp
    have w: "wrote gl ?g" by (rule wrote_updates)
    have "\<exists>r gl'. read_xs base limit (i + 1) k q (x + dl) ?g = Some (r, gl') \<and> wrote ?g gl' \<and>
      (case deltas_of base limit X_SHORT_VECTOR SAME_X (take k (drop (gl_cur_points ?g + (i + 1)) (gl_tags ?g))) q of
         Some (ds, q) \<Rightarrow> r = Inr q \<and> gl' = ?g\<lparr>gl_points := splice (gl_cur_points ?g + (i + 1))
           (with_xs (take k (drop (gl_cur_points ?g + (i + 1)) (gl_points ?g))) (sums (x + dl) ds)) (gl_points ?g)\<rparr>
       | None \<Rightarrow> r = Inl ())"
      by (rule Suc.IH) (use Suc.prems in simp_all)
    then obtain r gl' where r: "read_xs base limit (i + 1) k q (x + dl) ?g = Some (r, gl')" "wrote ?g gl'"
      "case deltas_of base limit X_SHORT_VECTOR SAME_X (take k (drop (gl_cur_points ?g + (i + 1)) (gl_tags ?g))) q of
         Some (ds, q) \<Rightarrow> r = Inr q \<and> gl' = ?g\<lparr>gl_points := splice (gl_cur_points ?g + (i + 1))
           (with_xs (take k (drop (gl_cur_points ?g + (i + 1)) (gl_points ?g))) (sums (x + dl) ds)) (gl_points ?g)\<rparr>
       | None \<Rightarrow> r = Inl ()" by blast
    have s: "splice (Suc ?i) zs ((gl_points gl)[?i := (gl_points gl ! ?i)\<lparr>vx := x + dl\<rparr>]) =
        splice ?i ((gl_points gl ! ?i)\<lparr>vx := x + dl\<rparr> # zs) (gl_points gl)" for zs
      using Suc.prems by (intro splice_update) simp
    show ?thesis
      using tag fs vs d Inr dq put r(1,3) wrote_trans [OF w r(2)] s
      by (intro exI [of _ r] exI [of _ gl']) (auto simp: with_xs_def split: option.splits Option.bind_splits)
  qed
qed

lemma read_ys_run:
  assumes "gl_cur_points gl + i + k \<le> length (gl_tags gl)" "gl_cur_points gl + i + k \<le> length (gl_points gl)" "limit \<le> length base"
  shows "\<exists>r gl'. read_ys base limit i k p y gl = Some (r, gl') \<and> wrote gl gl' \<and>
    (case deltas_of base limit Y_SHORT_VECTOR SAME_Y (take k (drop (gl_cur_points gl + i) (gl_tags gl))) p of
       Some (ds, q) \<Rightarrow> r = Inr q \<and> gl' = gl\<lparr>gl_points := splice (gl_cur_points gl + i)
         (with_ys (take k (drop (gl_cur_points gl + i) (gl_points gl))) (sums y ds)) (gl_points gl),
         gl_tags := splice (gl_cur_points gl + i) (map (\<lambda>f. f AND ON_CURVE_POINT) (take k (drop (gl_cur_points gl + i) (gl_tags gl)))) (gl_tags gl)\<rparr>
     | None \<Rightarrow> r = Inl ())"
  using assms(1,2)
proof (induction k arbitrary: i p y gl)
  case 0
  then show ?case by (simp add: with_ys_def)
next
  case (Suc k)
  let ?i = "gl_cur_points gl + i"
  let ?f = "gl_tags gl ! ?i"
  have tag: "get_tag i gl = Some ?f" using Suc.prems by (simp add: get_tag_run)
  have fs: "take (Suc k) (drop ?i (gl_tags gl)) = ?f # take k (drop (Suc ?i) (gl_tags gl))" using Suc.prems by (simp add: take_drop_Cons)
  have vs: "take (Suc k) (drop ?i (gl_points gl)) = gl_points gl ! ?i # take k (drop (Suc ?i) (gl_points gl))"
    using Suc.prems by (simp add: take_drop_Cons)
  obtain r0 where d: "read_delta base limit Y_SHORT_VECTOR SAME_Y ?f p = Some r0" using read_delta_run [OF assms(3)] by blast
  show ?case
  proof (cases r0)
    case (Inl u)
    then show ?thesis using tag fs d by simp
  next
    case (Inr dq)
    obtain dl q where dq: "dq = (dl, q)" by (cases dq)
    let ?v = "(gl_points gl ! ?i)\<lparr>vy := y + dl\<rparr>"
    let ?h = "gl\<lparr>gl_points := (gl_points gl)[?i := ?v]\<rparr>"
    let ?g = "?h\<lparr>gl_tags := (gl_tags gl)[?i := ?f AND ON_CURVE_POINT]\<rparr>"
    have put: "put_y i (y + dl) gl = Some ?h" using Suc.prems by (intro put_y_run) simp
    have put': "put_tag i (?f AND ON_CURVE_POINT) ?h = Some ?g" using Suc.prems put_tag_run [of ?h i] by simp
    have w: "wrote gl ?g" using wrote_trans [OF wrote_updates(3) [of gl i ?v] wrote_updates(2) [of ?h i]] by simp
    have "\<exists>r gl'. read_ys base limit (i + 1) k q (y + dl) ?g = Some (r, gl') \<and> wrote ?g gl' \<and>
      (case deltas_of base limit Y_SHORT_VECTOR SAME_Y (take k (drop (gl_cur_points ?g + (i + 1)) (gl_tags ?g))) q of
         Some (ds, q) \<Rightarrow> r = Inr q \<and> gl' = ?g\<lparr>gl_points := splice (gl_cur_points ?g + (i + 1))
           (with_ys (take k (drop (gl_cur_points ?g + (i + 1)) (gl_points ?g))) (sums (y + dl) ds)) (gl_points ?g),
           gl_tags := splice (gl_cur_points ?g + (i + 1)) (map (\<lambda>f. f AND ON_CURVE_POINT) (take k (drop (gl_cur_points ?g + (i + 1)) (gl_tags ?g)))) (gl_tags ?g)\<rparr>
       | None \<Rightarrow> r = Inl ())"
      by (rule Suc.IH) (use Suc.prems in simp_all)
    then obtain r gl' where r: "read_ys base limit (i + 1) k q (y + dl) ?g = Some (r, gl')" "wrote ?g gl'"
      "case deltas_of base limit Y_SHORT_VECTOR SAME_Y (take k (drop (gl_cur_points ?g + (i + 1)) (gl_tags ?g))) q of
         Some (ds, q) \<Rightarrow> r = Inr q \<and> gl' = ?g\<lparr>gl_points := splice (gl_cur_points ?g + (i + 1))
           (with_ys (take k (drop (gl_cur_points ?g + (i + 1)) (gl_points ?g))) (sums (y + dl) ds)) (gl_points ?g),
           gl_tags := splice (gl_cur_points ?g + (i + 1)) (map (\<lambda>f. f AND ON_CURVE_POINT) (take k (drop (gl_cur_points ?g + (i + 1)) (gl_tags ?g)))) (gl_tags ?g)\<rparr>
       | None \<Rightarrow> r = Inl ()" by blast
    have s: "splice (Suc ?i) zs ((gl_points gl)[?i := ?v]) = splice ?i (?v # zs) (gl_points gl)" for zs
      using Suc.prems by (intro splice_update) simp
    have t: "splice (Suc ?i) zs ((gl_tags gl)[?i := ?f AND ON_CURVE_POINT]) = splice ?i ((?f AND ON_CURVE_POINT) # zs) (gl_tags gl)" for zs
      using Suc.prems by (intro splice_update) simp
    show ?thesis
      using tag fs vs d Inr dq put put' r(1,3) wrote_trans [OF w r(2)] s t
      by (intro exI [of _ r] exI [of _ gl']) (auto simp: with_ys_def split: option.splits Option.bind_splits)
  qed
qed

section \<open>Flags and coordinates together\<close>

definition vectors_of :: "int list \<Rightarrow> int list \<Rightarrow> FT_Vector list" where
  "vectors_of xs ys = map2 (\<lambda>x y. \<lparr>vx = x, vy = y\<rparr>) xs ys"

lemma with_xs_ys:
  "length vs = length xs \<Longrightarrow> length xs = length ys \<Longrightarrow> with_ys (with_xs vs xs) ys = vectors_of xs ys"
  by (induction vs xs ys rule: list_induct3) (simp_all add: with_xs_def with_ys_def vectors_of_def)

lemma length_vectors [simp]:
  "length (vectors_of xs ys) = min (length xs) (length ys)" "length (with_xs vs xs) = min (length vs) (length xs)"
  by (simp_all add: vectors_of_def with_xs_def)

lemma take_drop_splice: "length xs = k \<Longrightarrow> i \<le> length ys \<Longrightarrow> take k (drop i (splice i xs ys)) = xs"
  by (simp add: drop_splice)

lemma splice_again: "length xs = length zs \<Longrightarrow> i + length xs \<le> length ys \<Longrightarrow> splice i zs (splice i xs ys) = splice i zs ys"
  by (simp add: splice_def)

lemma parse_points_run:
  "parse_points base limit n p = Some ((fs, xs, ys), q) \<Longrightarrow> length fs = n \<and> length xs = n \<and> length ys = n \<and> p \<le> q \<and> (p \<le> limit \<longrightarrow> q \<le> limit)"
  by (auto simp: parse_points_def split: Option.bind_splits dest!: flags_of_run deltas_of_run)

lemma read_points_run:
  assumes room: "gl_cur_points gl + n \<le> length (gl_tags gl)" "gl_cur_points gl + n \<le> length (gl_points gl)" and l: "limit \<le> length base"
  shows "\<exists>r gl'. read_points base limit n p gl = Some (r, gl') \<and> wrote gl gl' \<and>
    (case parse_points base limit n p of
       Some ((fs, xs, ys), q) \<Rightarrow> r = Inr q \<and> gl_contours gl' = gl_contours gl \<and>
         gl_tags gl' = splice (gl_cur_points gl) (map (\<lambda>f. f AND ON_CURVE_POINT) fs) (gl_tags gl) \<and>
         gl_points gl' = splice (gl_cur_points gl) (vectors_of xs ys) (gl_points gl)
     | None \<Rightarrow> r = Inl ())"
proof -
  let ?c = "gl_cur_points gl"
  obtain r1 gl1 where r1: "read_flags base limit 0 n p gl = Some (r1, gl1)" "wrote gl gl1"
    "case flags_of base limit n p of Some (fs, q) \<Rightarrow> r1 = Inr q \<and> gl1 = gl\<lparr>gl_tags := splice (?c + 0) fs (gl_tags gl)\<rparr> | None \<Rightarrow> r1 = Inl ()"
    using read_flags_run [of gl 0 n limit base p] room l by auto
  show ?thesis
  proof (cases "flags_of base limit n p")
    case None
    then show ?thesis using r1 by (auto simp: read_points_def parse_points_def)
  next
    case (Some fq)
    obtain fs p1 where fq: "fq = (fs, p1)" by (cases fq)
    have fs: "length fs = n" using flags_of_run Some fq by blast
    have gl1: "r1 = Inr p1" "gl1 = gl\<lparr>gl_tags := splice ?c fs (gl_tags gl)\<rparr>" using r1(3) Some fq by auto
    have t: "take n (drop ?c (gl_tags gl1)) = fs" using fs room by (simp add: gl1 take_drop_splice)
    have "\<exists>b. (if n \<noteq> 0 then do { f \<leftarrow> get_tag 0 gl1; Some (flag_set f OVERLAP_SIMPLE) } else Some False) = Some b"
      using room fs by (cases "n = 0") (auto simp: gl1 get_tag_run)
    then obtain b where b: "(if n \<noteq> 0 then do { f \<leftarrow> get_tag 0 gl1; Some (flag_set f OVERLAP_SIMPLE) } else Some False) = Some b" by blast
    define gl2 where "gl2 = (if b then gl1\<lparr>gl_flags := gl_flags gl1 OR FT_OUTLINE_OVERLAP\<rparr> else gl1)"
    have gl2: "gl_tags gl2 = gl_tags gl1" "gl_points gl2 = gl_points gl" "gl_cur_points gl2 = ?c" "gl_contours gl2 = gl_contours gl"
      by (simp_all add: gl2_def gl1)
    have w2: "wrote gl gl2" unfolding gl2_def using r1(2) wrote_trans [OF r1(2) wrote_updates(4)] by simp
    have room2: "gl_cur_points gl2 + 0 + n \<le> length (gl_tags gl2)" "gl_cur_points gl2 + 0 + n \<le> length (gl_points gl2)"
      using room fs by (simp_all add: gl2 gl1)
    obtain r3 gl3 where r3: "read_xs base limit 0 n p1 0 gl2 = Some (r3, gl3)" "wrote gl2 gl3"
      "case deltas_of base limit X_SHORT_VECTOR SAME_X fs p1 of
         Some (ds, q) \<Rightarrow> r3 = Inr q \<and> gl3 = gl2\<lparr>gl_points := splice ?c (with_xs (take n (drop ?c (gl_points gl))) (sums 0 ds)) (gl_points gl)\<rparr>
       | None \<Rightarrow> r3 = Inl ()"
      using read_xs_run [OF room2 l, of p1 0, unfolded gl2 add_0_right t] by blast
    have w3: "wrote gl gl3" by (rule wrote_trans [OF w2 r3(2)])
    have run: "read_points base limit n p gl =
        (case r3 of Inl _ \<Rightarrow> Some (Inl (), gl3) | Inr p \<Rightarrow> read_ys base limit 0 n p 0 gl3)"
      unfolding read_points_def using r1(1) gl1(1) b r3(1) by (simp add: gl2_def)
    show ?thesis
    proof (cases "deltas_of base limit X_SHORT_VECTOR SAME_X fs p1")
      case None
      then show ?thesis using run r3(3) w3 Some fq by (auto simp: parse_points_def)
    next
      case (Some dq)
      obtain dx p2 where dq: "dq = (dx, p2)" by (cases dq)
      have dx: "length dx = n" using deltas_of_run Some dq fs by blast
      let ?xs = "with_xs (take n (drop ?c (gl_points gl))) (sums 0 dx)"
      have gl3: "r3 = Inr p2" "gl3 = gl2\<lparr>gl_points := splice ?c ?xs (gl_points gl)\<rparr>" using r3(3) Some dq by auto
      have lx: "length ?xs = n" using dx room by simp
      have room3: "gl_cur_points gl3 + 0 + n \<le> length (gl_tags gl3)" "gl_cur_points gl3 + 0 + n \<le> length (gl_points gl3)"
        using room2 lx room by (simp_all add: gl3 gl2 splice_def)
      have gp: "gl_points gl3 = splice ?c ?xs (gl_points gl)" "gl_tags gl3 = gl_tags gl1" "gl_cur_points gl3 = ?c" "gl_contours gl3 = gl_contours gl"
        by (simp_all add: gl3 gl2)
      obtain r4 gl4 where r4: "read_ys base limit 0 n p2 0 gl3 = Some (r4, gl4)" "wrote gl3 gl4"
        "case deltas_of base limit Y_SHORT_VECTOR SAME_Y fs p2 of
           Some (ds, q) \<Rightarrow> r4 = Inr q \<and> gl4 = gl3\<lparr>gl_points := splice ?c (with_ys (take n (drop ?c (gl_points gl3))) (sums 0 ds)) (gl_points gl3),
             gl_tags := splice ?c (map (\<lambda>f. f AND ON_CURVE_POINT) fs) (gl_tags gl1)\<rparr>
         | None \<Rightarrow> r4 = Inl ()"
        using read_ys_run [OF room3 l, of p2 0, unfolded gp(2,3) add_0_right t] by blast
      have w4: "wrote gl gl4" by (rule wrote_trans [OF w3 r4(2)])
      have run': "read_points base limit n p gl = Some (r4, gl4)" using run gl3(1) r4(1) by simp
      show ?thesis
      proof (cases "deltas_of base limit Y_SHORT_VECTOR SAME_Y fs p2")
        case None
        then show ?thesis using run' r4(3) w4 Some fq dq \<open>flags_of base limit n p = Some fq\<close> by (auto simp: parse_points_def)
      next
        case s: (Some eq)
        obtain dy p3 where eq: "eq = (dy, p3)" by (cases eq)
        have dy: "length dy = n" using deltas_of_run s eq fs by blast
        have gl4: "r4 = Inr p3" "gl4 = gl3\<lparr>gl_points := splice ?c (with_ys (take n (drop ?c (gl_points gl3))) (sums 0 dy)) (gl_points gl3),
             gl_tags := splice ?c (map (\<lambda>f. f AND ON_CURVE_POINT) fs) (gl_tags gl1)\<rparr>" using r4(3) s eq by auto
        have x: "take n (drop ?c (gl_points gl3)) = ?xs" using lx room by (simp add: gp take_drop_splice)
        have y: "with_ys ?xs (sums 0 dy) = vectors_of (sums 0 dx) (sums 0 dy)" using dx dy room by (intro with_xs_ys) simp_all
        have "gl_points gl4 = splice ?c (vectors_of (sums 0 dx) (sums 0 dy)) (gl_points gl)"
        proof -
          have "gl_points gl4 = splice ?c (with_ys (take n (drop ?c (gl_points gl3))) (sums 0 dy)) (gl_points gl3)" by (simp add: gl4)
          also have "\<dots> = splice ?c (vectors_of (sums 0 dx) (sums 0 dy)) (splice ?c ?xs (gl_points gl))" by (subst x, subst y) (simp only: gp(1))
          also have "\<dots> = splice ?c (vectors_of (sums 0 dx) (sums 0 dy)) (gl_points gl)" using lx dx dy room by (intro splice_again) simp_all
          finally show ?thesis .
        qed
        moreover have "gl_tags gl4 = splice ?c (map (\<lambda>f. f AND ON_CURVE_POINT) fs) (gl_tags gl)"
          using fs room by (simp add: gl4 gl1 splice_again)
        moreover have "gl_contours gl4 = gl_contours gl" by (simp add: gl4 gp)
        moreover have "parse_points base limit n p = Some ((fs, sums 0 dx, sums 0 dy), p3)"
          using \<open>flags_of base limit n p = Some fq\<close> fq Some dq s eq by (simp add: parse_points_def)
        ultimately show ?thesis using run' w4 gl4(1) by auto
      qed
    qed
  qed
qed

end
