(* ===== verification/Tt_Glyph_Simple.thy ===== *)
theory Tt_Glyph_Simple
  imports Tt_Glyph_Points
begin

text \<open>
  \<open>TT_Load_Simple_Glyph\<close> as a whole: it stores the glyph that the parser of \<open>Tt_Glyph_Parse\<close> reads as
  the current glyph of the loader, leaves the base as it was, and has room for the phantom points.
\<close>

section \<open>The current glyph\<close>

definition current_tags :: "FT_GlyphLoaderRec \<Rightarrow> nat list" where
  "current_tags gl = take (gl_cur_n_points gl) (drop (gl_cur_points gl) (gl_tags gl))"

definition current_points :: "FT_GlyphLoaderRec \<Rightarrow> FT_Vector list" where
  "current_points gl = take (gl_cur_n_points gl) (drop (gl_cur_points gl) (gl_points gl))"

text \<open>The glyph stored in the loader.\<close>

definition holds_glyph :: "simple_glyph \<Rightarrow> FT_GlyphLoaderRec \<Rightarrow> bool" where
  "holds_glyph g gl \<longleftrightarrow>
     current_contours gl = glyph_ends g \<and> current_tags gl = map (\<lambda>f. f AND ON_CURVE_POINT) (glyph_flags g) \<and>
     current_points gl = vectors_of (glyph_xs g) (glyph_ys g)"

text \<open>The base of \<open>gl'\<close> is that of \<open>gl\<close>: its outline, and also its subglyphs.\<close>

definition outline_kept :: "FT_GlyphLoaderRec \<Rightarrow> FT_GlyphLoaderRec \<Rightarrow> bool" where
  "outline_kept gl gl' \<longleftrightarrow>
     gl_n_points gl' = gl_n_points gl \<and> gl_n_contours gl' = gl_n_contours gl \<and>
     take (gl_n_points gl) (gl_points gl') = take (gl_n_points gl) (gl_points gl) \<and>
     take (gl_n_points gl) (gl_tags gl') = take (gl_n_points gl) (gl_tags gl) \<and>
     take (gl_n_contours gl) (gl_contours gl') = take (gl_n_contours gl) (gl_contours gl)"

definition base_kept :: "FT_GlyphLoaderRec \<Rightarrow> FT_GlyphLoaderRec \<Rightarrow> bool" where
  "base_kept gl gl' \<longleftrightarrow> outline_kept gl gl' \<and> gl_num_subglyphs gl' = gl_num_subglyphs gl \<and>
     gl_cur_num_subglyphs gl' = gl_cur_num_subglyphs gl"

lemma base_kept_trans: "base_kept a b \<Longrightarrow> base_kept b c \<Longrightarrow> base_kept a c"
  by (simp add: base_kept_def outline_kept_def)

lemma take_shorter: "take m xs = take m ys \<Longrightarrow> k \<le> m \<Longrightarrow> take k xs = take k ys"
  by (metis min.absorb1 take_take)

lemma base_kept_keeps:
  assumes "gl_ok gl" "gl_keeps gl gl'"
  shows "base_kept gl gl'"
  using assms take_shorter [of "gl_max_points gl" "gl_points gl'" "gl_points gl" "gl_n_points gl"]
    take_shorter [of "gl_max_points gl" "gl_tags gl'" "gl_tags gl" "gl_n_points gl"]
    take_shorter [of "gl_max_contours gl" "gl_contours gl'" "gl_contours gl" "gl_n_contours gl"]
  unfolding base_kept_def outline_kept_def gl_keeps_def gl_ok_def gl_sized_def by simp

lemma base_kept_wrote:
  assumes "gl_ok gl" "wrote gl gl'"
  shows "base_kept gl gl'"
  using assms unfolding base_kept_def outline_kept_def wrote_def gl_ok_def gl_aimed_def by (elim exE conjE) simp

lemma CreateExtra_errors: "FT_GlyphLoader_CreateExtra gl = (Some e, gl') \<Longrightarrow> e = Out_Of_Memory"
  by (simp add: FT_GlyphLoader_CreateExtra_def Let_def split: if_splits prod.splits)

lemma grow_points_errors: "grow_points n gl = ((Some e, b), gl') \<Longrightarrow> e = Out_Of_Memory \<or> e = Array_Too_Large"
  unfolding grow_points_def grow_extra_def Let_def by (simp split: if_splits prod.splits)

lemma grow_contours_errors: "grow_contours n gl = ((Some e, b), gl') \<Longrightarrow> e = Out_Of_Memory \<or> e = Array_Too_Large"
  unfolding grow_contours_def Let_def by (simp split: if_splits prod.splits)

lemma CHECK_POINTS_errors:
  assumes "FT_GLYPHLOADER_CHECK_POINTS np nc gl = (Some e, gl')"
  shows "e = Out_Of_Memory \<or> e = Array_Too_Large"
proof -
  from assms have "FT_GlyphLoader_CheckPoints np nc gl = (Some e, gl')" by (simp add: FT_GLYPHLOADER_CHECK_POINTS_def split: if_splits)
  then show ?thesis
    by (auto simp: FT_GlyphLoader_CheckPoints_def Let_def split: prod.splits option.splits
        dest!: CreateExtra_errors grow_points_errors grow_contours_errors)
qed

section \<open>The steps\<close>

lemma keep_instructions_run:
  assumes "q + n \<le> length base"
  shows "\<exists>e load' gs. keep_instructions base q n load = Some (e, load') \<and> ld_gloader load' = (ld_gloader load)\<lparr>gl_grants := gs\<rparr> \<and>
    ld_cursor load' = ld_cursor load \<and> ld_limit load' = ld_limit load \<and> ld_stream load' = ld_stream load \<and>
    (e = None \<longrightarrow> ld_glyphIns load' = (if ld_hinted load then take n (drop q base) else ld_glyphIns load)) \<and> e \<in> {None, Some Out_Of_Memory}"
proof -
  obtain g gs where a: "ask (ld_gloader load) = (g, (ld_gloader load)\<lparr>gl_grants := gs\<rparr>)" using ask_cases by (metis surj_pair)
  have r: "\<exists>gs. gl = gl\<lparr>gl_grants := gs\<rparr>" for gl :: FT_GlyphLoaderRec by (rule exI [of _ "gl_grants gl"]) simp
  show ?thesis using assms a
    by (auto simp: keep_instructions_def with_gloader_def copy_bytes_def Let_def intro: r)
qed

lemma last_end_points: "nat (last_end (- 1) es + 1) = (if es = [] then 0 else last es + 1)"
  by (simp add: last_end_def nat_add_distrib)

lemma ends_of_bound: "e \<in> set (ends_of base k p) \<Longrightarrow> e < 65536"
  by (auto simp: ends_of_def u16_lt)

lemma length_ends [simp]: "length (ends_of base k p) = k"
  by (simp add: ends_of_def)

lemma sorted_ends: "sorted_wrt (<) (map int es) = sorted_wrt (<) es"
  by (simp add: sorted_wrt_map)

lemma sorted_last: "sorted_wrt (<) es \<Longrightarrow> e \<in> set es \<Longrightarrow> e \<le> (last es :: nat)"
  by (induction es rule: rev_induct) (auto simp: sorted_wrt_append)

lemma final_ok:
  assumes ok: "gl_ok gl" and room: "gl_n_points gl + n + 4 \<le> gl_max_points gl" "gl_n_contours gl + nc \<le> gl_max_contours gl"
    and w: "wrote gl gl'" and st: "gl_tags gl' = splice (gl_cur_points gl) fs (gl_tags gl)" "gl_points gl' = splice (gl_cur_points gl) vs (gl_points gl)"
      "gl_contours gl' = gl_contours gl" and l: "length fs = n" "length vs = n"
    and gl2: "gl2 = gl'\<lparr>gl_cur_n_points := n mod 65536, gl_cur_n_contours := nc mod 65536\<rparr>"
  shows "gl_ok gl2" "base_kept gl gl2" "current_contours gl2 = take nc (drop (gl_cur_contours gl) (gl_contours gl))" "current_tags gl2 = fs"
    "current_points gl2 = vs" "gl_cur_n_points gl2 = n" "gl_cur_n_contours gl2 = nc" "gl_n_points gl2 + n + 4 \<le> gl_max_points gl2"
    "gl_num_subglyphs gl2 = gl_num_subglyphs gl"
proof -
  have b: "gl_max_points gl \<le> 65535" "gl_max_contours gl \<le> 65535" "length (gl_tags gl) = gl_max_points gl" "length (gl_points gl) = gl_max_points gl"
    "gl_cur_points gl = gl_n_points gl" "gl_cur_contours gl = gl_n_contours gl"
    using ok by (simp_all add: gl_ok_def gl_sized_def gl_aimed_def)
  have m: "n mod 65536 = n" "nc mod 65536 = nc" using b(1,2) room by simp_all
  note d = wroteD [OF w]
  show "gl_cur_n_points gl2 = n" "gl_cur_n_contours gl2 = nc" by (simp_all add: gl2 m)
  show "gl_n_points gl2 + n + 4 \<le> gl_max_points gl2" using room by (simp add: gl2 d)
  show "gl_num_subglyphs gl2 = gl_num_subglyphs gl" by (simp add: gl2 d)
  show "current_contours gl2 = take nc (drop (gl_cur_contours gl) (gl_contours gl))" by (simp add: current_contours_def gl2 m st d)
  have i: "gl_cur_points gl \<le> length (gl_tags gl)" "gl_cur_points gl \<le> length (gl_points gl)" using b room by simp_all
  show "current_tags gl2 = fs" unfolding current_tags_def gl2 using m d st l(1) i by (simp add: take_drop_splice)
  show "current_points gl2 = vs" unfolding current_points_def gl2 using m d st l(2) i by (simp add: take_drop_splice)
  have "gl_ok gl'" by (rule wrote_ok [OF w ok])
  then show "gl_ok gl2" using room d unfolding gl2 m gl_ok_def gl_sized_def gl_aimed_def by simp
  show "base_kept gl gl2" using base_kept_wrote [OF ok w] by (simp add: base_kept_def outline_kept_def gl2)
qed

text \<open>What comes after the contour ends, \<open>q\<close> behind the length of the code.\<close>

lemma points_stage:
  fixes load :: TT_LoaderRec and p :: nat
  assumes ok: "gl_ok (ld_gloader load)" and room: "gl_n_points (ld_gloader load) + n + 4 \<le> gl_max_points (ld_gloader load)"
      "gl_n_contours (ld_gloader load) + nc \<le> gl_max_contours (ld_gloader load)" and l: "limit \<le> length base"
  defines "R \<equiv> do {
      (r, gl) \<leftarrow> read_points base limit n p (ld_gloader load);
      case r of
        Inl _ \<Rightarrow> Some (Some Invalid_Outline, with_gloader gl load)
      | Inr p \<Rightarrow> Some (None, with_gloader (gl\<lparr>gl_cur_n_points := n mod 65536, gl_cur_n_contours := nc mod 65536\<rparr>) (load\<lparr>ld_cursor := p\<rparr>)) }"
  shows "\<exists>error load'. R = Some (error, load') \<and> gl_ok (ld_gloader load') \<and> ld_glyphIns load' = ld_glyphIns load \<and>
    (case parse_points base limit n p of
       Some ((fs, xs, ys), q) \<Rightarrow> error = None \<and> ld_cursor load' = q \<and> base_kept (ld_gloader load) (ld_gloader load') \<and>
         current_contours (ld_gloader load') = take nc (drop (gl_cur_contours (ld_gloader load)) (gl_contours (ld_gloader load))) \<and>
         current_tags (ld_gloader load') = map (\<lambda>f. f AND ON_CURVE_POINT) fs \<and> current_points (ld_gloader load') = vectors_of xs ys \<and>
         gl_cur_n_points (ld_gloader load') = n \<and> gl_cur_n_contours (ld_gloader load') = nc \<and>
         gl_n_points (ld_gloader load') + n + 4 \<le> gl_max_points (ld_gloader load')
     | None \<Rightarrow> error = Some Invalid_Outline)"
proof -
  let ?gl = "ld_gloader load"
  have b: "length (gl_tags ?gl) = gl_max_points ?gl" "length (gl_points ?gl) = gl_max_points ?gl" "gl_cur_points ?gl = gl_n_points ?gl"
    using ok by (simp_all add: gl_ok_def gl_sized_def gl_aimed_def)
  have r: "gl_cur_points ?gl + n \<le> length (gl_tags ?gl)" "gl_cur_points ?gl + n \<le> length (gl_points ?gl)" using b room by simp_all
  obtain r gl' where g: "read_points base limit n p ?gl = Some (r, gl')" "wrote ?gl gl'"
    "case parse_points base limit n p of
       Some ((fs, xs, ys), q) \<Rightarrow> r = Inr q \<and> gl_contours gl' = gl_contours ?gl \<and>
         gl_tags gl' = splice (gl_cur_points ?gl) (map (\<lambda>f. f AND ON_CURVE_POINT) fs) (gl_tags ?gl) \<and>
         gl_points gl' = splice (gl_cur_points ?gl) (vectors_of xs ys) (gl_points ?gl)
     | None \<Rightarrow> r = Inl ()"
    using read_points_run [OF r l] by blast
  show ?thesis
  proof (cases "parse_points base limit n p")
    case None
    then show ?thesis using g wrote_ok [OF g(2) ok] by (simp add: R_def with_gloader_def)
  next
    case (Some a)
    then obtain fs xs ys q where a: "parse_points base limit n p = Some ((fs, xs, ys), q)" by (cases a) auto
    let ?gl2 = "gl'\<lparr>gl_cur_n_points := n mod 65536, gl_cur_n_contours := nc mod 65536\<rparr>"
    let ?load = "with_gloader ?gl2 (load\<lparr>ld_cursor := q\<rparr>)"
    have len: "length (map (\<lambda>f. f AND ON_CURVE_POINT) fs) = n" "length (vectors_of xs ys) = n" using parse_points_run [OF a] by simp_all
    have st: "gl_tags gl' = splice (gl_cur_points ?gl) (map (\<lambda>f. f AND ON_CURVE_POINT) fs) (gl_tags ?gl)"
      "gl_points gl' = splice (gl_cur_points ?gl) (vectors_of xs ys) (gl_points ?gl)" "gl_contours gl' = gl_contours ?gl" "r = Inr q"
      using g(3) a by simp_all
    note f = final_ok [OF ok room g(2) st(1-3) len refl]
    have "R = Some (None, ?load)" using g(1) st(4) by (simp add: R_def)
    moreover have "ld_gloader ?load = ?gl2" "ld_cursor ?load = q" "ld_glyphIns ?load = ld_glyphIns load" by (simp_all add: with_gloader_def)
    ultimately show ?thesis using f unfolding a by auto
  qed
qed

text \<open>The second half of the function: \<open>gl\<close> has the contour ends of \<open>es\<close>, and \<open>q\<close> is the position behind them.\<close>

definition after_ends :: "bytes \<Rightarrow> nat \<Rightarrow> nat \<Rightarrow> nat \<Rightarrow> nat \<Rightarrow> FT_GlyphLoaderRec \<Rightarrow> TT_LoaderRec \<Rightarrow> (ft_error option \<times> TT_LoaderRec) option" where
  "after_ends base limit nc np p gl load =
     (let (error, gl) = FT_GLYPHLOADER_CHECK_POINTS (np + 4) 0 gl
      in if error \<noteq> None then Some (error, with_gloader gl load)
         else do {
           n_ins \<leftarrow> peek_ushort base p;
           let p = p + 2;
           if p + n_ins > limit then Some (Some Too_Many_Hints, with_gloader gl load)
           else do {
             (error, load) \<leftarrow> keep_instructions base p n_ins (with_gloader gl load);
             if error \<noteq> None then Some (error, load)
             else do {
               (r, gl) \<leftarrow> read_points base limit np (p + n_ins) (ld_gloader load);
               case r of
                 Inl _ \<Rightarrow> Some (Some Invalid_Outline, with_gloader gl load)
               | Inr p \<Rightarrow>
                   Some (None, with_gloader (gl\<lparr>gl_cur_n_points := np mod 65536, gl_cur_n_contours := nc mod 65536\<rparr>)
                                 (load\<lparr>ld_cursor := p\<rparr>))
             }
           }
         })"

lemma after_ends_run:
  assumes ok: "gl_ok gl" and cur: "gl_cur_n_points gl = 0" and n: "n < 100000" and room: "gl_n_contours gl + nc \<le> gl_max_contours gl"
    and l: "limit \<le> length base" "p + 2 \<le> limit"
  shows "\<exists>error load'. after_ends base limit nc n p gl load = Some (error, load') \<and> gl_ok (ld_gloader load') \<and>
    (error = None \<longrightarrow> (\<exists>fs xs ys q. p + 2 + u16 base p \<le> limit \<and> parse_points base limit n (p + 2 + u16 base p) = Some ((fs, xs, ys), q) \<and>
        ld_cursor load' = q \<and> base_kept gl (ld_gloader load') \<and>
        current_contours (ld_gloader load') = take nc (drop (gl_n_contours gl) (gl_contours gl)) \<and>
        current_tags (ld_gloader load') = map (\<lambda>f. f AND ON_CURVE_POINT) fs \<and> current_points (ld_gloader load') = vectors_of xs ys \<and>
        gl_cur_n_points (ld_gloader load') = n \<and> gl_n_points (ld_gloader load') + n + 4 \<le> gl_max_points (ld_gloader load') \<and>
        (ld_hinted load \<longrightarrow> ld_glyphIns load' = take (u16 base p) (drop (p + 2) base)))) \<and>
    (error = Some Invalid_Outline \<or> error = Some Too_Many_Hints \<longrightarrow>
        p + 2 + u16 base p > limit \<or> parse_points base limit n (p + 2 + u16 base p) = None) \<and>
    error \<in> {None, Some Invalid_Outline, Some Too_Many_Hints, Some Out_Of_Memory, Some Array_Too_Large}"
proof -
  obtain e1 gl1 where c: "FT_GLYPHLOADER_CHECK_POINTS (n + 4) 0 gl = (e1, gl1)" by (metis surj_pair)
  have n4: "n + 4 < 2147483648" using n by simp
  note ck = CHECK_POINTS_ok [OF ok n4 _ c, simplified]
  show ?thesis
  proof (cases e1)
    case (Some e)
    with c CHECK_POINTS_errors have "e = Out_Of_Memory \<or> e = Array_Too_Large" by blast
    then show ?thesis using c Some ck by (auto simp: after_ends_def with_gloader_def)
  next
    case None
    have gl1: "gl_ok gl1" "gl_keeps gl gl1" "gl_n_points gl + n + 4 \<le> gl_max_points gl1" using ck None cur by simp_all
    have bk: "base_kept gl gl1" by (rule base_kept_keeps [OF ok gl1(2)])
    have k: "gl_n_points gl1 = gl_n_points gl" "gl_n_contours gl1 = gl_n_contours gl" "gl_max_contours gl \<le> gl_max_contours gl1"
      "take (gl_max_contours gl) (gl_contours gl1) = gl_contours gl"
      using gl1(2) by (simp_all add: gl_keeps_def)
    have cc: "take nc (drop (gl_n_contours gl) (gl_contours gl1)) = take nc (drop (gl_n_contours gl) (gl_contours gl))"
      using k(4) room by (metis (no_types, lifting) add.commute take_drop take_shorter take_all_iff ok gl_ok_def gl_sized_def order_refl)
    show ?thesis
    proof (cases "p + 2 + u16 base p \<le> limit")
      case False
      then show ?thesis using c None gl1(1) l by (auto simp: after_ends_def with_gloader_def)
    next
      case ins: True
      obtain e2 load2 gs where ki: "keep_instructions base (p + 2) (u16 base p) (with_gloader gl1 load) = Some (e2, load2)"
        "ld_gloader load2 = gl1\<lparr>gl_grants := gs\<rparr>" "e2 \<in> {None, Some Out_Of_Memory}"
        "e2 = None \<longrightarrow> ld_glyphIns load2 = (if ld_hinted load then take (u16 base p) (drop (p + 2) base) else ld_glyphIns load)"
        using keep_instructions_run [of "p + 2" "u16 base p" base "with_gloader gl1 load"] ins l by (auto simp: with_gloader_def)
      have ok2: "gl_ok (ld_gloader load2)" using gl1(1) by (simp add: ki(2) gl_ok_def)
      show ?thesis
      proof (cases e2)
        case (Some e)
        then show ?thesis using c None ki(1,3) ok2 ins l by (auto simp: after_ends_def)
      next
        case e2: None
        have room2: "gl_n_points (ld_gloader load2) + n + 4 \<le> gl_max_points (ld_gloader load2)"
          "gl_n_contours (ld_gloader load2) + nc \<le> gl_max_contours (ld_gloader load2)"
          using gl1(3) k room by (simp_all add: ki(2))
        have bk2: "base_kept gl (ld_gloader load2)" using bk by (simp add: base_kept_def outline_kept_def ki(2))
        have cc2: "take nc (drop (gl_cur_contours (ld_gloader load2)) (gl_contours (ld_gloader load2))) =
            take nc (drop (gl_n_contours gl) (gl_contours gl))"
          using cc k(2) gl1(1) by (simp add: ki(2) gl_ok_def gl_aimed_def)
        have run: "after_ends base limit nc n p gl load = do {
            (r, gl) \<leftarrow> read_points base limit n (p + 2 + u16 base p) (ld_gloader load2);
            case r of
              Inl _ \<Rightarrow> Some (Some Invalid_Outline, with_gloader gl load2)
            | Inr p \<Rightarrow> Some (None, with_gloader (gl\<lparr>gl_cur_n_points := n mod 65536, gl_cur_n_contours := nc mod 65536\<rparr>) (load2\<lparr>ld_cursor := p\<rparr>)) }"
          using c None ki(1) e2 ins l by (simp add: after_ends_def)
        note st = points_stage [OF ok2 room2 l(1), of "p + 2 + u16 base p", folded run]
        show ?thesis
        proof (cases "parse_points base limit n (p + 2 + u16 base p)")
          case None
          then show ?thesis using st by auto
        next
          case (Some a)
          then obtain fs xs ys q where "parse_points base limit n (p + 2 + u16 base p) = Some ((fs, xs, ys), q)" by (cases a) auto
          then show ?thesis using st ki(4) e2 ins bk2 cc2 by (auto intro: base_kept_trans)
        qed
      qed
    qed
  qed
qed

lemma load_simple_glyph_run:
  assumes ok: "gl_ok (ld_gloader load)" and cur: "gl_cur_n_points (ld_gloader load) = 0" "gl_cur_n_contours (ld_gloader load) = 0"
    and frame: "ld_limit load \<le> length (frame_block load)" and nc: "ld_n_contours load < 32768"
  shows "\<exists>error load'. TT_Load_Simple_Glyph load = Some (error, load') \<and> gl_ok (ld_gloader load') \<and>
    (error = None \<longrightarrow> (\<exists>g q. parse_simple (frame_block load) (ld_limit load) (nat (ld_n_contours load)) (ld_cursor load) = Some (g, q) \<and>
        ld_cursor load' = q \<and> q \<le> ld_limit load \<and> holds_glyph g (ld_gloader load') \<and> base_kept (ld_gloader load) (ld_gloader load') \<and>
        ends_ok (gl_cur_n_points (ld_gloader load')) (glyph_ends g) \<and>
        gl_n_points (ld_gloader load') + gl_cur_n_points (ld_gloader load') + 4 \<le> gl_max_points (ld_gloader load') \<and>
        (ld_hinted load \<longrightarrow> ld_glyphIns load' = glyph_ins g))) \<and>
    (error = Some Invalid_Outline \<or> error = Some Too_Many_Hints \<longrightarrow>
        parse_simple (frame_block load) (ld_limit load) (nat (ld_n_contours load)) (ld_cursor load) = None) \<and>
    error \<in> {None, Some Invalid_Outline, Some Too_Many_Hints, Some Out_Of_Memory, Some Array_Too_Large}"
proof -
  let ?gl = "ld_gloader load" and ?base = "frame_block load" and ?limit = "ld_limit load" and ?p = "ld_cursor load" and ?nc = "nat (ld_n_contours load)"
  let ?es = "ends_of ?base ?nc ?p"
  obtain e1 gl1 where c: "FT_GLYPHLOADER_CHECK_POINTS 0 ?nc ?gl = (e1, gl1)" by (metis surj_pair)
  have nc': "?nc < 2147483648" using nc by simp
  note ck = CHECK_POINTS_ok [OF ok _ nc' c, simplified]
  show ?thesis
  proof (cases e1)
    case (Some e)
    with c CHECK_POINTS_errors have "e = Out_Of_Memory \<or> e = Array_Too_Large" by blast
    then show ?thesis using c Some ck by (auto simp: TT_Load_Simple_Glyph_def with_gloader_def Let_def)
  next
    case e1: None
    have gl1: "gl_ok gl1" "gl_keeps ?gl gl1" "gl_n_contours ?gl + ?nc \<le> gl_max_contours gl1" using ck e1 cur by simp_all
    have bk: "base_kept ?gl gl1" by (rule base_kept_keeps [OF ok gl1(2)])
    have k: "gl_n_contours gl1 = gl_n_contours ?gl" "gl_cur_n_points gl1 = 0" using gl1(2) cur by (simp_all add: gl_keeps_def)
    have g: "gl_cur_contours gl1 = gl_n_contours gl1" "length (gl_contours gl1) = gl_max_contours gl1"
      using gl1(1) by (simp_all add: gl_ok_def gl_aimed_def gl_sized_def)
    show ?thesis
    proof (cases "?nc \<ge> 0xFFF \<or> ?p + 2 * ?nc + 2 > ?limit")
      case True
      then show ?thesis using c e1 gl1(1) by (auto simp: TT_Load_Simple_Glyph_def parse_simple_def with_gloader_def Let_def)
    next
      case fits: False
      let ?q = "?p + 2 * ?nc" and ?n = "if ?es = [] then 0 else last ?es + 1"
      have room: "gl_cur_contours gl1 + 0 + ?nc \<le> length (gl_contours gl1)" "?p + 2 * ?nc \<le> length ?base"
        using g k(1) gl1(3) fits frame by simp_all
      obtain r gl2 where r: "read_ends ?base 0 ?nc ?p (- 1) gl1 = Some (r, gl2)" "wrote gl1 gl2"
        "if sorted_wrt (<) ?es then r = Inr (?q, last_end (- 1) ?es) \<and> gl2 = gl1\<lparr>gl_contours := splice (gl_cur_contours gl1 + 0) ?es (gl_contours gl1)\<rparr>
         else r = Inl ()"
        using read_ends_run [OF room, of "- 1"] by (auto simp: sorted_ends)
      have ok2: "gl_ok gl2" by (rule wrote_ok [OF r(2) gl1(1)])
      show ?thesis
      proof (cases "sorted_wrt (<) ?es")
        case False
        then show ?thesis using c e1 r(1,3) fits ok2
          by (auto simp: TT_Load_Simple_Glyph_def parse_simple_def with_gloader_def Let_def)
      next
        case sorted: True
        have gl2: "r = Inr (?q, last_end (- 1) ?es)" "gl_contours gl2 = splice (gl_n_contours gl1) ?es (gl_contours gl1)"
          using r(3) sorted g(1) by simp_all
        have cc: "take ?nc (drop (gl_n_contours gl2) (gl_contours gl2)) = ?es"
          using room(1) g k wroteD(4) [OF r(2)] by (simp add: gl2(2) take_drop_splice)
        have bk2: "base_kept ?gl gl2" by (rule base_kept_trans [OF bk base_kept_wrote [OF gl1(1) r(2)]])
        have n: "?n < 100000" using ends_of_bound [of "last ?es" ?base ?nc ?p] by auto
        have ends: "ends_ok ?n ?es" using sorted_last [OF sorted] by (auto simp: ends_ok_def sorted le_imp_less_Suc)
        have room2: "gl_cur_n_points gl2 = 0" "gl_n_contours gl2 + ?nc \<le> gl_max_contours gl2" "?q + 2 \<le> ?limit"
          using wroteD [OF r(2)] k gl1(3) fits by simp_all
        have "TT_Load_Simple_Glyph load = after_ends ?base ?limit ?nc (nat (last_end (- 1) ?es + 1)) ?q gl2 load"
          using c e1 r(1) gl2(1) fits by (simp add: TT_Load_Simple_Glyph_def after_ends_def Let_def)
        then have run: "TT_Load_Simple_Glyph load = after_ends ?base ?limit ?nc ?n ?q gl2 load" by (simp only: last_end_points)
        obtain error load' where a: "after_ends ?base ?limit ?nc ?n ?q gl2 load = Some (error, load')" "gl_ok (ld_gloader load')"
          "error = None \<longrightarrow> (\<exists>fs xs ys q. ?q + 2 + u16 ?base ?q \<le> ?limit \<and> parse_points ?base ?limit ?n (?q + 2 + u16 ?base ?q) = Some ((fs, xs, ys), q) \<and>
            ld_cursor load' = q \<and> base_kept gl2 (ld_gloader load') \<and>
            current_contours (ld_gloader load') = ?es \<and>
            current_tags (ld_gloader load') = map (\<lambda>f. f AND ON_CURVE_POINT) fs \<and> current_points (ld_gloader load') = vectors_of xs ys \<and>
            gl_cur_n_points (ld_gloader load') = ?n \<and> gl_n_points (ld_gloader load') + ?n + 4 \<le> gl_max_points (ld_gloader load') \<and>
            (ld_hinted load \<longrightarrow> ld_glyphIns load' = take (u16 ?base ?q) (drop (?q + 2) ?base)))"
          "error = Some Invalid_Outline \<or> error = Some Too_Many_Hints \<longrightarrow>
            ?q + 2 + u16 ?base ?q > ?limit \<or> parse_points ?base ?limit ?n (?q + 2 + u16 ?base ?q) = None"
          "error \<in> {None, Some Invalid_Outline, Some Too_Many_Hints, Some Out_Of_Memory, Some Array_Too_Large}"
          using after_ends_run [OF ok2 room2(1) n room2(2) frame room2(3)] unfolding cc by blast
        have parse: "parse_simple ?base ?limit ?nc ?p =
            (if ?q + 2 + u16 ?base ?q > ?limit then None
             else Option.bind (parse_points ?base ?limit ?n (?q + 2 + u16 ?base ?q)) (\<lambda>((fs, xs, ys), r).
               Some (\<lparr>glyph_ends = ?es, glyph_ins = take (u16 ?base ?q) (drop (?q + 2) ?base), glyph_flags = fs, glyph_xs = xs, glyph_ys = ys\<rparr>, r)))"
          using fits sorted by (simp add: parse_simple_def Let_def)
        show ?thesis
        proof (intro exI conjI)
          show "TT_Load_Simple_Glyph load = Some (error, load')" by (simp only: run a(1))
          show "error = None \<longrightarrow> (\<exists>g q. parse_simple ?base ?limit ?nc ?p = Some (g, q) \<and>
              ld_cursor load' = q \<and> q \<le> ?limit \<and> holds_glyph g (ld_gloader load') \<and> base_kept ?gl (ld_gloader load') \<and>
              ends_ok (gl_cur_n_points (ld_gloader load')) (glyph_ends g) \<and>
              gl_n_points (ld_gloader load') + gl_cur_n_points (ld_gloader load') + 4 \<le> gl_max_points (ld_gloader load') \<and>
              (ld_hinted load \<longrightarrow> ld_glyphIns load' = glyph_ins g))"
          proof
            assume "error = None"
            with a(3) obtain fs xs ys q where f: "?q + 2 + u16 ?base ?q \<le> ?limit" "parse_points ?base ?limit ?n (?q + 2 + u16 ?base ?q) = Some ((fs, xs, ys), q)"
              "ld_cursor load' = q" "base_kept gl2 (ld_gloader load')" "current_contours (ld_gloader load') = ?es"
              "current_tags (ld_gloader load') = map (\<lambda>f. f AND ON_CURVE_POINT) fs" "current_points (ld_gloader load') = vectors_of xs ys"
              "gl_cur_n_points (ld_gloader load') = ?n" "gl_n_points (ld_gloader load') + ?n + 4 \<le> gl_max_points (ld_gloader load')"
              "ld_hinted load \<longrightarrow> ld_glyphIns load' = take (u16 ?base ?q) (drop (?q + 2) ?base)" by blast
            have "q \<le> ?limit" using parse_points_run [OF f(2)] f(1) by blast
            then show "\<exists>g q. parse_simple ?base ?limit ?nc ?p = Some (g, q) \<and>
              ld_cursor load' = q \<and> q \<le> ?limit \<and> holds_glyph g (ld_gloader load') \<and> base_kept ?gl (ld_gloader load') \<and>
              ends_ok (gl_cur_n_points (ld_gloader load')) (glyph_ends g) \<and>
              gl_n_points (ld_gloader load') + gl_cur_n_points (ld_gloader load') + 4 \<le> gl_max_points (ld_gloader load') \<and>
              (ld_hinted load \<longrightarrow> ld_glyphIns load' = glyph_ins g)"
              using parse f base_kept_trans [OF bk2 f(4)] ends
              by (intro exI [of _ "\<lparr>glyph_ends = ?es, glyph_ins = take (u16 ?base ?q) (drop (?q + 2) ?base), glyph_flags = fs, glyph_xs = xs, glyph_ys = ys\<rparr>"] exI [of _ q])
                (simp add: holds_glyph_def del: ends_of_Suc)
          qed
          show "error = Some Invalid_Outline \<or> error = Some Too_Many_Hints \<longrightarrow> parse_simple ?base ?limit ?nc ?p = None"
            using a(4) unfolding parse by (auto simp del: ends_of_Suc)
        qed (rule a(2), rule a(5))
      qed
    qed
  qed
qed


text \<open>A loader with a frame of the bytes \<open>b\<close>, and a new glyph loader.\<close>

definition loader_of :: "bytes \<Rightarrow> int \<Rightarrow> TT_LoaderRec" where
  "loader_of b n_contours = snd (TT_Access_Glyph_Frame True 0 (length b)
     \<lparr>ld_stream = FT_Stream_OpenMemory b, ld_cursor = 0, ld_limit = 0, ld_gloader = FT_GlyphLoader_New [], ld_n_contours = n_contours,
      ld_bbox = \<lparr>xMin = 0, yMin = 0, xMax = 0, yMax = 0\<rparr>, ld_hinted = True, ld_glyphIns = [], ld_num_glyphs = 5, ld_ins_pos = 0\<rparr>)"

text \<open>A triangle, with a repeated flag and one byte of code.\<close>

definition triangle :: bytes where
  "triangle = [0, 2, 0, 1, 0x4F, 0x3F, 2, 10, 20, 30, 5, 6, 7]"

lemma triangle_loader:
  "ld_gloader (loader_of triangle 1) = FT_GlyphLoader_New []" "frame_block (loader_of triangle 1) = triangle"
  "ld_limit (loader_of triangle 1) = 13" "ld_cursor (loader_of triangle 1) = 0" "ld_n_contours (loader_of triangle 1) = 1"
  "ld_hinted (loader_of triangle 1)"
  by (simp_all add: loader_of_def TT_Access_Glyph_Frame_def FT_Stream_OpenMemory_def FT_Stream_Seek_def FT_Stream_EnterFrame_def
      frame_block_def triangle_def Let_def)

lemma triangle_points: "parse_points triangle 13 3 5 = Some (([0x3F, 0x3F, 0x3F], [10, 30, 60], [5, 11, 18]), 13)"
proof -
  have f: "flags_of triangle 13 3 5 = Some ([0x3F, 0x3F, 0x3F], 7)"
    by (simp add: triangle_def u8_def numeral_3_eq_3 flag_set_def REPEAT_FLAG_def)
  have x: "deltas_of triangle 13 X_SHORT_VECTOR SAME_X [0x3F, 0x3F, 0x3F] 7 = Some ([10, 20, 30], 10)"
    by (simp add: triangle_def u8_def read_delta_def flag_set_def X_SHORT_VECTOR_def SAME_X_def)
  have y: "deltas_of triangle 13 Y_SHORT_VECTOR SAME_Y [0x3F, 0x3F, 0x3F] 10 = Some ([5, 6, 7], 13)"
    by (simp add: triangle_def u8_def read_delta_def flag_set_def Y_SHORT_VECTOR_def SAME_Y_def)
  show ?thesis by (simp add: parse_points_def f x y del: deltas_of.simps)
qed

lemma triangle_parses:
  "parse_simple triangle 13 1 0 = Some (\<lparr>glyph_ends = [2], glyph_ins = [0x4F], glyph_flags = [0x3F, 0x3F, 0x3F],
     glyph_xs = [10, 30, 60], glyph_ys = [5, 11, 18]\<rparr>, 13)"
proof -
  have s: "Suc (Suc 0) = 2" "Suc (Suc (Suc 0)) = 3" "Suc 2 = 3" "Suc 3 = 4" "Suc 4 = 5" by simp_all
  have e: "ends_of triangle (Suc 0) 0 = [2]" by (simp add: ends_of_def triangle_def u16_def u8_def)
  have u: "u16 triangle 2 = 1" "take (Suc 0) (drop 4 triangle) = [0x4F]" by (simp_all add: triangle_def u16_def u8_def)
  show ?thesis using triangle_points by (simp add: parse_simple_def Let_def e u s del: ends_of_Suc)
qed

lemma triangle_grows:
  "FT_GLYPHLOADER_CHECK_POINTS 0 (Suc 0) (FT_GlyphLoader_New []) = (None, (FT_GlyphLoader_New [])\<lparr>gl_max_contours := 4, gl_contours := [0, 0, 0, 0]\<rparr>)"
  "FT_GLYPHLOADER_CHECK_POINTS 7 0 ((FT_GlyphLoader_New [])\<lparr>gl_max_contours := 4, gl_contours := [2, 0, 0, 0]\<rparr>) =
    (None, (FT_GlyphLoader_New [])\<lparr>gl_max_contours := 4, gl_contours := [2, 0, 0, 0], gl_max_points := 8, gl_points := replicate 8 no_vector,
       gl_tags := replicate 8 0, gl_extra := replicate 16 no_vector, gl_use_extra := True, gl_extra2 := 8, gl_cur_extra2 := 8\<rparr>)"
proof -
  have r: "replicate 4 (0::nat) = [0, 0, 0, 0]" by (simp add: eval_nat_numeral)
  show "FT_GLYPHLOADER_CHECK_POINTS 0 (Suc 0) (FT_GlyphLoader_New []) = (None, (FT_GlyphLoader_New [])\<lparr>gl_max_contours := 4, gl_contours := [0, 0, 0, 0]\<rparr>)"
    by (simp add: FT_GLYPHLOADER_CHECK_POINTS_def FT_GlyphLoader_CheckPoints_def FT_GlyphLoader_CreateExtra_def grow_points_def grow_contours_def
        FT_GlyphLoader_New_def new_max_def pad_floor_def add32_def ask_def renew_def FT_GlyphLoader_Adjust_Points_def FT_OUTLINE_CONTOURS_MAX_def
        Let_def r)
  show "FT_GLYPHLOADER_CHECK_POINTS 7 0 ((FT_GlyphLoader_New [])\<lparr>gl_max_contours := 4, gl_contours := [2, 0, 0, 0]\<rparr>) =
    (None, (FT_GlyphLoader_New [])\<lparr>gl_max_contours := 4, gl_contours := [2, 0, 0, 0], gl_max_points := 8, gl_points := replicate 8 no_vector,
       gl_tags := replicate 8 0, gl_extra := replicate 16 no_vector, gl_use_extra := True, gl_extra2 := 8, gl_cur_extra2 := 8\<rparr>)"
    by (simp add: FT_GLYPHLOADER_CHECK_POINTS_def FT_GlyphLoader_CheckPoints_def FT_GlyphLoader_CreateExtra_def grow_points_def grow_contours_def
        grow_extra_def FT_GlyphLoader_New_def new_max_def pad_floor_def add32_def ask_def renew_def FT_GlyphLoader_Adjust_Points_def
        FT_OUTLINE_CONTOURS_MAX_def FT_OUTLINE_POINTS_MAX_def Let_def)
qed

lemma triangle_loads: "\<exists>load'. TT_Load_Simple_Glyph (loader_of triangle 1) = Some (None, load')"
proof -
  let ?gl = "(FT_GlyphLoader_New [])\<lparr>gl_max_contours := 4, gl_contours := [2, 0, 0, 0], gl_max_points := 8, gl_points := replicate 8 no_vector,
       gl_tags := replicate 8 0, gl_extra := replicate 16 no_vector, gl_use_extra := True, gl_extra2 := 8, gl_cur_extra2 := 8\<rparr>"
  have c: "gl_cur_points ?gl + 3 \<le> length (gl_tags ?gl)" "gl_cur_points ?gl + 3 \<le> length (gl_points ?gl)" "gl_cur_points ?gl = 0"
    by (simp_all add: FT_GlyphLoader_New_def)
  have l: "13 \<le> length triangle" by (simp add: triangle_def)
  obtain gl' where p: "read_points triangle 13 3 5 ?gl = Some (Inr 13, gl')"
    using read_points_run [OF c(1,2) l, of 5] by (auto simp: triangle_points)
  have e: "read_ends triangle 0 (Suc 0) 0 (- 1) ((FT_GlyphLoader_New [])\<lparr>gl_max_contours := 4, gl_contours := [0, 0, 0, 0]\<rparr>) =
      Some (Inr (2, 2), (FT_GlyphLoader_New [])\<lparr>gl_max_contours := 4, gl_contours := [2, 0, 0, 0]\<rparr>)"
    by (simp add: put_contour_def put_at_def FT_GlyphLoader_New_def triangle_def u16_def u8_def)
  have u: "u16 triangle 2 = 1" "length triangle = 13" by (simp_all add: triangle_def u16_def u8_def)
  have g: "ask ?gl = (True, ?gl)" by (simp add: ask_def FT_GlyphLoader_New_def)
  show ?thesis using e p u g
    by (simp add: TT_Load_Simple_Glyph_def triangle_loader triangle_grows keep_instructions_def with_gloader_def copy_bytes_def Let_def)
qed


end
