(* ===== verification/Tt_Glyph_Composite.thy ===== *)
theory Tt_Glyph_Composite
  imports Tt_Glyph_Simple
begin

text \<open>
  \<open>TT_Load_Composite_Glyph\<close>: the components that it stores are the ones in the file, one after the
  other, up to the first without the flag \<open>MORE_COMPONENTS\<close>.
\<close>

section \<open>The format\<close>

definition component_size :: "nat \<Rightarrow> nat" where
  "component_size flags = 4 + component_count flags"

text \<open>The components \<open>ss\<close> are those at \<open>p\<close>, and \<open>q\<close> is the position behind them.\<close>

fun components_at :: "bytes \<Rightarrow> nat \<Rightarrow> FT_SubGlyphRec list \<Rightarrow> nat \<Rightarrow> bool" where
  "components_at base p [] q \<longleftrightarrow> False"
| "components_at base p (s # ss) q \<longleftrightarrow>
     sg_flags s = u16 base p \<and> sg_index s = u16 base (p + 2) \<and>
     read_args base (sg_flags s) (p + 4) = Some (sg_arg1 s, sg_arg2 s) \<and>
     read_transform base (sg_flags s) (p + 6 + (if flag_set (sg_flags s) ARGS_ARE_WORDS then 2 else 0)) = Some (sg_transform s) \<and>
     (if flag_set (sg_flags s) MORE_COMPONENTS then components_at base (p + component_size (sg_flags s)) ss q
      else ss = [] \<and> q = p + component_size (sg_flags s))"

lemma peek_char_ok [simp]: "p < length t \<Longrightarrow> peek_char t p = Some (if u8 t p < 128 then int (u8 t p) else int (u8 t p) - 256)"
  by (simp add: peek_char_def)

lemma read_args_run:
  assumes "p + component_count flags \<le> length base"
  shows "\<exists>a b. read_args base flags p = Some (a, b)"
  using assms by (auto simp: read_args_def component_count_def split: if_splits)

lemma read_transform_run:
  assumes "p + component_count flags \<le> length base"
  shows "\<exists>m. read_transform base flags (p + 2 + (if flag_set flags ARGS_ARE_WORDS then 2 else 0)) = Some m"
  using assms by (auto simp: read_transform_def component_count_def split: if_splits)

section \<open>Growing the subglyphs\<close>

text \<open>Only the array of subglyphs differs.\<close>

definition sub_grown :: "FT_GlyphLoaderRec \<Rightarrow> FT_GlyphLoaderRec \<Rightarrow> bool" where
  "sub_grown gl gl' \<longleftrightarrow> (\<exists>s m g. gl' = gl\<lparr>gl_subglyphs := s, gl_max_subglyphs := m, gl_grants := g\<rparr>)"

lemma sub_grown_refl [simp]: "sub_grown gl gl"
  unfolding sub_grown_def
  by (intro exI [of _ "gl_subglyphs gl"] exI [of _ "gl_max_subglyphs gl"] exI [of _ "gl_grants gl"]) simp

lemma sub_grown_trans: "sub_grown a b \<Longrightarrow> sub_grown b c \<Longrightarrow> sub_grown a c"
  unfolding sub_grown_def by force

lemma sub_grownD:
  assumes "sub_grown gl gl'"
  shows "gl_num_subglyphs gl' = gl_num_subglyphs gl" "gl_cur_num_subglyphs gl' = gl_cur_num_subglyphs gl" "gl_cur_subglyphs gl' = gl_cur_subglyphs gl"
    "gl_n_points gl' = gl_n_points gl" "gl_n_contours gl' = gl_n_contours gl" "gl_points gl' = gl_points gl" "gl_tags gl' = gl_tags gl"
    "gl_contours gl' = gl_contours gl" "gl_cur_n_points gl' = gl_cur_n_points gl" "gl_cur_n_contours gl' = gl_cur_n_contours gl"
    "gl_max_points gl' = gl_max_points gl" "gl_max_contours gl' = gl_max_contours gl"
  using assms unfolding sub_grown_def by (elim exE, simp)+

lemma CheckSubGlyphs_run:
  assumes "gl_ok gl" "n < 2147483648"
  shows "\<exists>e gl'. FT_GlyphLoader_CheckSubGlyphs n gl = (e, gl') \<and> gl_ok gl' \<and> sub_grown gl gl' \<and> e \<in> {None, Some Out_Of_Memory, Some Array_Too_Large} \<and>
    take (gl_max_subglyphs gl) (gl_subglyphs gl') = gl_subglyphs gl \<and> gl_max_subglyphs gl \<le> gl_max_subglyphs gl' \<and>
    (e = None \<longrightarrow> gl_num_subglyphs gl + gl_cur_num_subglyphs gl + n \<le> gl_max_subglyphs gl')"
proof -
  obtain e gl' where c: "FT_GlyphLoader_CheckSubGlyphs n gl = (e, gl')" by (metis surj_pair)
  obtain g gs where a: "ask gl = (g, gl\<lparr>gl_grants := gs\<rparr>)" using ask_cases by (metis surj_pair)
  have s: "gl_cur_subglyphs gl = gl_num_subglyphs gl" using assms(1) by (simp add: gl_ok_def gl_sized_def)
  have r: "gl\<lparr>gl_grants := gs, gl_subglyphs := x, gl_max_subglyphs := y, gl_cur_subglyphs := gl_num_subglyphs gl\<rparr> =
      gl\<lparr>gl_subglyphs := x, gl_max_subglyphs := y, gl_grants := gs\<rparr>" for x y
    using s by simp
  have r': "gl\<lparr>gl_grants := gs\<rparr> = gl\<lparr>gl_subglyphs := gl_subglyphs gl, gl_max_subglyphs := gl_max_subglyphs gl, gl_grants := gs\<rparr>" by simp
  have "sub_grown gl (gl\<lparr>gl_grants := gs\<rparr>)" unfolding sub_grown_def by (subst r') blast
  moreover have "sub_grown gl (gl\<lparr>gl_grants := gs, gl_subglyphs := x, gl_max_subglyphs := y, gl_cur_subglyphs := gl_num_subglyphs gl\<rparr>)" for x y
    unfolding sub_grown_def by (subst r) blast
  ultimately have "sub_grown gl gl' \<and> e \<in> {None, Some Out_Of_Memory, Some Array_Too_Large}"
    using c a by (auto simp: FT_GlyphLoader_CheckSubGlyphs_def FT_GlyphLoader_Adjust_Subglyphs_def Let_def split: if_splits)
  then show ?thesis using CheckSubGlyphs_ok [OF assms c] c by (simp add: gl_keeps_def)
qed

lemma put_subglyph_run:
  "gl_cur_subglyphs gl + i < length (gl_subglyphs gl) \<Longrightarrow>
     put_subglyph i s gl = Some (gl\<lparr>gl_subglyphs := (gl_subglyphs gl)[gl_cur_subglyphs gl + i := s]\<rparr>)"
  by (simp add: put_subglyph_def put_at_def)

lemma put_grown: "sub_grown gl (gl\<lparr>gl_subglyphs := s\<rparr>)"
  unfolding sub_grown_def by (intro exI [of _ s] exI [of _ "gl_max_subglyphs gl"] exI [of _ "gl_grants gl"]) simp

lemma put_ok: "gl_ok gl \<Longrightarrow> length s = length (gl_subglyphs gl) \<Longrightarrow> gl_ok (gl\<lparr>gl_subglyphs := s\<rparr>)"
  by (simp add: gl_ok_def gl_sized_def gl_aimed_def)

section \<open>The loop\<close>

text \<open>What the loop leaves: \<open>n\<close> components were stored before, and the ones at \<open>p\<close> behind them.\<close>

definition components_read :: "nat \<Rightarrow> bytes \<Rightarrow> nat \<Rightarrow> nat \<Rightarrow> nat \<Rightarrow> FT_GlyphLoaderRec \<Rightarrow> ft_error + nat \<times> nat \<Rightarrow> FT_GlyphLoaderRec \<Rightarrow> bool" where
  "components_read num_glyphs base limit n p gl r gl' \<longleftrightarrow>
     gl_ok gl' \<and> sub_grown gl gl' \<and> take (gl_cur_subglyphs gl + n) (gl_subglyphs gl') = take (gl_cur_subglyphs gl + n) (gl_subglyphs gl) \<and>
     (case r of
        Inl e \<Rightarrow> e = Out_Of_Memory \<or> e = Array_Too_Large \<or> e = Invalid_Composite
      | Inr (m, q) \<Rightarrow> n < m \<and> q \<le> limit \<and> p < q \<and> gl_cur_subglyphs gl + m \<le> length (gl_subglyphs gl') \<and>
          components_at base p (take (m - n) (drop (gl_cur_subglyphs gl + n) (gl_subglyphs gl'))) q \<and>
          (\<forall>s \<in> set (take (m - n) (drop (gl_cur_subglyphs gl + n) (gl_subglyphs gl'))). sg_index s < num_glyphs))"

lemma components_read_Cons:
  assumes first: "gl_ok gl1" "sub_grown gl gl1" "gl_cur_subglyphs gl + n < length (gl_subglyphs gl1)"
      "take (gl_cur_subglyphs gl + n) (gl_subglyphs gl1) = take (gl_cur_subglyphs gl + n) (gl_subglyphs gl)"
      "gl_subglyphs gl1 ! (gl_cur_subglyphs gl + n) = s"
    and s: "sg_flags s = u16 base p" "sg_index s = u16 base (p + 2)" "sg_index s < num_glyphs"
      "read_args base (sg_flags s) (p + 4) = Some (sg_arg1 s, sg_arg2 s)"
      "read_transform base (sg_flags s) (p + 6 + (if flag_set (sg_flags s) ARGS_ARE_WORDS then 2 else 0)) = Some (sg_transform s)"
      "flag_set (sg_flags s) MORE_COMPONENTS"
    and rest: "components_read num_glyphs base limit (n + 1) (p + component_size (sg_flags s)) gl1 r gl'"
  shows "components_read num_glyphs base limit n p gl r gl'"
proof -
  let ?c = "gl_cur_subglyphs gl" and ?l = "gl_subglyphs gl'"
  have c: "gl_cur_subglyphs gl1 = ?c" using sub_grownD(3) [OF first(2)] .
  have r1: "gl_ok gl'" "sub_grown gl1 gl'" "take (?c + Suc n) ?l = take (?c + Suc n) (gl_subglyphs gl1)"
    using rest by (simp_all add: components_read_def c)
  have t: "take (?c + n) ?l = take (?c + n) (gl_subglyphs gl)"
    using take_shorter [OF r1(3), of "?c + n"] first(4) by simp
  have len: "length (take (?c + Suc n) ?l) = ?c + Suc n" using r1(3) first(3) by simp
  then have nth: "?c + n < length ?l" by simp
  have "?l ! (?c + n) = take (?c + Suc n) ?l ! (?c + n)" by simp
  also have "\<dots> = s" unfolding r1(3) using first(5) by simp
  finally have at: "?l ! (?c + n) = s" .
  have d: "take (m - n) (drop (?c + n) ?l) = s # take (m - Suc n) (drop (?c + Suc n) ?l)" if "n < m" for m
  proof -
    obtain k where "m - n = Suc k" "m - Suc n = k" using \<open>n < m\<close> by (metis Suc_diff_Suc)
    then show ?thesis using take_drop_Cons [OF nth, of k] at by simp
  qed
  show ?thesis
  proof (cases r)
    case (Inl e)
    then show ?thesis using rest r1 t sub_grown_trans [OF first(2)] by (simp add: components_read_def)
  next
    case (Inr mq)
    obtain m q where mq: "mq = (m, q)" by (cases mq)
    have r2: "Suc n < m" "q \<le> limit" "p + component_size (sg_flags s) < q" "?c + m \<le> length ?l"
      "components_at base (p + component_size (sg_flags s)) (take (m - Suc n) (drop (?c + Suc n) ?l)) q"
      "\<forall>s \<in> set (take (m - Suc n) (drop (?c + Suc n) ?l)). sg_index s < num_glyphs"
      using rest Inr mq by (simp_all add: components_read_def c)
    have "n < m" using r2(1) by simp
    note d = d [OF this]
    have "components_at base p (take (m - n) (drop (?c + n) ?l)) q" unfolding d using s r2(5) by simp
    moreover have "\<forall>s \<in> set (take (m - n) (drop (?c + n) ?l)). sg_index s < num_glyphs" unfolding d using s(2,3) r2(6) by simp
    ultimately show ?thesis using r2 r1 t sub_grown_trans [OF first(2)] Inr mq by (simp add: components_read_def)
  qed
qed

lemma read_components_run:
  assumes "gl_ok gl" "gl_cur_num_subglyphs gl = 0" "limit \<le> length base"
    "gl_cur_subglyphs gl + n \<le> length (gl_subglyphs gl)"
  shows "\<exists>r gl'. read_components num_glyphs base limit n p gl = Some (r, gl') \<and> components_read num_glyphs base limit n p gl r gl'"
  using assms
proof (induction "limit - p" arbitrary: n p gl rule: less_induct)
  case less
  let ?i = "gl_cur_subglyphs gl + n" and ?flags = "u16 base p" and ?index = "u16 base (p + 2)"
  have "n \<le> SUBGLYPHS_MAX" using less.prems(1,4) by (simp add: gl_ok_def gl_sized_def)
  then have w: "n + 1 < 2147483648" by (simp add: SUBGLYPHS_MAX_def)
  have cs: "gl_cur_subglyphs gl = gl_num_subglyphs gl" "length (gl_subglyphs gl) = gl_max_subglyphs gl"
    using less.prems(1) by (simp_all add: gl_ok_def gl_sized_def)
  obtain e gl1 where c: "FT_GlyphLoader_CheckSubGlyphs (n + 1) gl = (e, gl1)" "gl_ok gl1" "sub_grown gl gl1" "e \<in> {None, Some Out_Of_Memory, Some Array_Too_Large}"
    "take (gl_max_subglyphs gl) (gl_subglyphs gl1) = gl_subglyphs gl" "gl_max_subglyphs gl \<le> gl_max_subglyphs gl1"
    "e = None \<longrightarrow> gl_num_subglyphs gl + gl_cur_num_subglyphs gl + (n + 1) \<le> gl_max_subglyphs gl1"
    using CheckSubGlyphs_run [OF less.prems(1) w] by blast
  have t1: "take ?i (gl_subglyphs gl1) = take ?i (gl_subglyphs gl)"
    using c(5) less.prems(4) cs(2) take_shorter [of "gl_max_subglyphs gl" "gl_subglyphs gl1" "gl_subglyphs gl" ?i] by simp
  note d1 = sub_grownD [OF c(3)]
  show ?case
  proof (cases e)
    case (Some x)
    then show ?thesis using c(1-4) t1 by (subst read_components.simps) (auto simp: components_read_def)
  next
    case None
    have len1: "?i < length (gl_subglyphs gl1)"
      using c(7) None less.prems(2) cs c(2) by (simp add: gl_ok_def gl_sized_def)
    show ?thesis
    proof (cases "p + 4 \<le> limit")
      case False
      then show ?thesis using c(1-3) None t1 by (subst read_components.simps) (auto simp: components_read_def)
    next
      case p: True
      let ?old = "gl_subglyphs gl1 ! ?i"
      let ?gl2 = "gl1\<lparr>gl_subglyphs := (gl_subglyphs gl1)[?i := ?old\<lparr>sg_arg1 := 0, sg_arg2 := 0, sg_flags := ?flags, sg_index := ?index\<rparr>]\<rparr>"
      have g: "get_at (gl_subglyphs gl1) (gl_cur_subglyphs gl1 + n) = Some ?old" using len1 by (simp add: get_at_def d1)
      have p1: "put_subglyph n (?old\<lparr>sg_arg1 := 0, sg_arg2 := 0, sg_flags := ?flags, sg_index := ?index\<rparr>) gl1 = Some ?gl2"
        using len1 put_subglyph_run [of gl1 n] by (simp add: d1)
      show ?thesis
      proof (cases "?index \<ge> num_glyphs \<or> p + 4 + component_count ?flags > limit")
        case True
        have "components_read num_glyphs base limit n p gl (Inl Invalid_Composite) ?gl2"
          using c(2,3) t1 by (simp add: components_read_def put_ok sub_grown_trans [OF c(3) put_grown])
        then show ?thesis using c(1) None p g p1 True less.prems(3) by (subst read_components.simps) auto
      next
        case fits: False
        have room: "p + 4 + component_count ?flags \<le> length base" using fits less.prems(3) by simp
        obtain a b where ab: "read_args base ?flags (p + 4) = Some (a, b)" using read_args_run [OF room] by blast
        obtain m where m: "read_transform base ?flags (p + 6 + (if flag_set ?flags ARGS_ARE_WORDS then 2 else 0)) = Some m"
          using read_transform_run [OF room] by (auto simp: ac_simps)
        define s where "s = \<lparr>sg_index = ?index, sg_flags = ?flags, sg_arg1 = a, sg_arg2 = b, sg_transform = m\<rparr>"
        let ?gl3 = "gl1\<lparr>gl_subglyphs := (gl_subglyphs gl1)[?i := s]\<rparr>"
        have p2: "put_subglyph n s ?gl2 = Some ?gl3" using len1 put_subglyph_run [of ?gl2 n s] by (simp add: d1)
        have gl3: "gl_ok ?gl3" "sub_grown gl ?gl3" "?i < length (gl_subglyphs ?gl3)" "take ?i (gl_subglyphs ?gl3) = take ?i (gl_subglyphs gl)"
          "gl_subglyphs ?gl3 ! ?i = s"
          using c(2,3) len1 t1 by (simp_all add: put_ok sub_grown_trans [OF c(3) put_grown])
        have s: "sg_flags s = ?flags" "sg_index s = ?index" "sg_index s < num_glyphs"
          "read_args base (sg_flags s) (p + 4) = Some (sg_arg1 s, sg_arg2 s)"
          "read_transform base (sg_flags s) (p + 6 + (if flag_set (sg_flags s) ARGS_ARE_WORDS then 2 else 0)) = Some (sg_transform s)"
          using ab m fits by (simp_all add: s_def)
        have run: "read_components num_glyphs base limit n p gl =
            (if flag_set ?flags MORE_COMPONENTS then read_components num_glyphs base limit (n + 1) (p + 4 + component_count ?flags) ?gl3
             else Some (Inr (n + 1, p + 4 + component_count ?flags), ?gl3))"
          using c(1) None p g p1 fits less.prems(3) ab m p2 by (subst read_components.simps) (simp add: s_def)
        show ?thesis
        proof (cases "flag_set ?flags MORE_COMPONENTS")
          case True
          let ?p = "p + component_size ?flags"
          have pp: "p + 4 + component_count ?flags = ?p" by (simp add: component_size_def)
          have "limit - ?p < limit - p" using p by (simp add: component_size_def)
          moreover have "gl_cur_num_subglyphs ?gl3 = 0"
            "gl_cur_subglyphs ?gl3 + (n + 1) \<le> length (gl_subglyphs ?gl3)"
            using less.prems(2) len1 p by (simp_all add: d1 component_size_def)
          ultimately obtain r gl' where r: "read_components num_glyphs base limit (n + 1) ?p ?gl3 = Some (r, gl')"
            "components_read num_glyphs base limit (n + 1) ?p ?gl3 r gl'"
            using less.hyps [OF _ gl3(1) _ less.prems(3)] by blast
          have "components_read num_glyphs base limit n p gl r gl'"
            by (rule components_read_Cons [OF gl3 s]) (use True r(2) s(1) in simp_all)
          then show ?thesis using run True r(1) pp by simp
        next
          case False
          have "take 1 (drop ?i (gl_subglyphs ?gl3)) = [s]" using gl3(3,5) by (simp add: take_Suc_conv_app_nth take_drop_Cons)
          then have "components_read num_glyphs base limit n p gl (Inr (n + 1, p + 4 + component_count ?flags)) ?gl3"
            using gl3 s False fits by (auto simp: components_read_def component_size_def)
          then show ?thesis using run False by simp
        qed
      qed
    qed
  qed
qed

section \<open>The whole\<close>

definition current_subglyphs :: "FT_GlyphLoaderRec \<Rightarrow> FT_SubGlyphRec list" where
  "current_subglyphs gl = take (gl_cur_num_subglyphs gl) (drop (gl_cur_subglyphs gl) (gl_subglyphs gl))"

lemma load_composite_glyph_run:
  assumes "gl_ok (ld_gloader loader)" "gl_cur_num_subglyphs (ld_gloader loader) = 0" "ld_limit loader \<le> length (frame_block loader)"
  shows "\<exists>error loader'. TT_Load_Composite_Glyph loader = Some (error, loader') \<and> gl_ok (ld_gloader loader') \<and>
    outline_kept (ld_gloader loader) (ld_gloader loader') \<and> gl_num_subglyphs (ld_gloader loader') = gl_num_subglyphs (ld_gloader loader) \<and>
    gl_cur_n_points (ld_gloader loader') = gl_cur_n_points (ld_gloader loader) \<and>
    gl_cur_n_contours (ld_gloader loader') = gl_cur_n_contours (ld_gloader loader) \<and>
    (error = None \<longrightarrow> components_at (frame_block loader) (ld_cursor loader) (current_subglyphs (ld_gloader loader')) (ld_cursor loader') \<and>
       (\<forall>s \<in> set (current_subglyphs (ld_gloader loader')). sg_index s < ld_num_glyphs loader) \<and>
       ld_cursor loader' \<le> ld_limit loader \<and>
       ld_ins_pos loader' = FT_Stream_Pos (ld_stream loader) + ld_cursor loader' - ld_limit loader) \<and>
    error \<in> {None, Some Out_Of_Memory, Some Array_Too_Large, Some Invalid_Composite}"
proof -
  let ?gl = "ld_gloader loader"
  have i: "gl_cur_subglyphs ?gl + 0 \<le> length (gl_subglyphs ?gl)" using assms(1,2) by (simp add: gl_ok_def gl_sized_def)
  obtain r gl' where r: "read_components (ld_num_glyphs loader) (frame_block loader) (ld_limit loader) 0 (ld_cursor loader) ?gl = Some (r, gl')"
    "components_read (ld_num_glyphs loader) (frame_block loader) (ld_limit loader) 0 (ld_cursor loader) ?gl r gl'"
    using read_components_run [OF assms(1-3) i] by blast
  note cr = r(2) [unfolded components_read_def]
  note d = sub_grownD [OF cr [THEN conjunct2, THEN conjunct1]]
  show ?thesis
  proof (cases r)
    case (Inl e)
    then show ?thesis using r(1) cr d by (auto simp: TT_Load_Composite_Glyph_def with_gloader_def outline_kept_def)
  next
    case (Inr mq)
    obtain m q where mq: "mq = (m, q)" by (cases mq)
    let ?gl' = "gl'\<lparr>gl_cur_num_subglyphs := m\<rparr>"
    have "gl_cur_subglyphs ?gl = gl_num_subglyphs ?gl" "gl_cur_subglyphs ?gl + m \<le> length (gl_subglyphs gl')" "gl_ok gl'"
      using assms(1) cr Inr mq by (simp_all add: gl_ok_def gl_sized_def)
    then have ok: "gl_ok ?gl'" using d by (simp add: gl_ok_def gl_sized_def gl_aimed_def)
    have "current_subglyphs ?gl' = take m (drop (gl_cur_subglyphs ?gl) (gl_subglyphs gl'))" by (simp add: current_subglyphs_def d)
    then show ?thesis using r(1) cr d ok Inr mq by (simp add: TT_Load_Composite_Glyph_def with_gloader_def outline_kept_def)
  qed
qed


text \<open>Two components, the second scaled to a half.\<close>

definition pair_glyph :: bytes where
  "pair_glyph = [0, 0x22, 0, 1, 5, 0xFB, 0, 0x0B, 0, 2, 0, 100, 1, 0, 0x20, 0]"

lemma pair_loader:
  "ld_gloader (loader_of pair_glyph (- 1)) = FT_GlyphLoader_New []" "frame_block (loader_of pair_glyph (- 1)) = pair_glyph"
  "ld_limit (loader_of pair_glyph (- 1)) = 16" "ld_cursor (loader_of pair_glyph (- 1)) = 0" "ld_num_glyphs (loader_of pair_glyph (- 1)) = 5"
  by (simp_all add: loader_of_def TT_Access_Glyph_Frame_def FT_Stream_OpenMemory_def FT_Stream_Seek_def FT_Stream_EnterFrame_def
      frame_block_def pair_glyph_def Let_def)

lemma pair_loads:
  "\<exists>loader'. TT_Load_Composite_Glyph (loader_of pair_glyph (- 1)) = Some (None, loader') \<and> ld_cursor loader' = 16 \<and>
     map (\<lambda>s. (sg_index s, sg_arg1 s, sg_arg2 s, mxx (sg_transform s))) (current_subglyphs (ld_gloader loader')) = [(1, 5, - 5, 0x10000), (2, 100, 256, 0x8000)]"
proof -
  let ?gl = "(FT_GlyphLoader_New [])\<lparr>gl_max_subglyphs := 2, gl_subglyphs := [no_subglyph, no_subglyph]\<rparr>"
  have r: "replicate 2 no_subglyph = [no_subglyph, no_subglyph]" by (simp add: numeral_2_eq_2)
  have c: "FT_GlyphLoader_CheckSubGlyphs (Suc 0) (FT_GlyphLoader_New []) = (None, ?gl)"
    by (simp add: FT_GlyphLoader_CheckSubGlyphs_def FT_GlyphLoader_New_def add32_def ask_def pad_floor_def SUBGLYPHS_MAX_def FT_GlyphLoader_Adjust_Subglyphs_def renew_def r)
  have c2: "FT_GlyphLoader_CheckSubGlyphs (Suc (Suc 0)) ((FT_GlyphLoader_New [])\<lparr>gl_max_subglyphs := 2, gl_subglyphs := l\<rparr>) =
      (None, (FT_GlyphLoader_New [])\<lparr>gl_max_subglyphs := 2, gl_subglyphs := l\<rparr>)" for l
    by (simp add: FT_GlyphLoader_CheckSubGlyphs_def FT_GlyphLoader_New_def add32_def)
  have b: "u16 pair_glyph 0 = 0x22" "u16 pair_glyph 2 = 1" "u16 pair_glyph 6 = 0xB" "u16 pair_glyph 8 = 2" "length pair_glyph = 16"
    "u8 pair_glyph 4 = 5" "u8 pair_glyph 5 = 0xFB" "s16 pair_glyph 10 = 100" "s16 pair_glyph 12 = 256" "s16 pair_glyph 14 = 0x2000"
    by (simp_all add: pair_glyph_def u16_def u8_def s16_def)
  have f: "component_count 0x22 = 2" "component_count 0xB = 6" "flag_set 0x22 MORE_COMPONENTS" "\<not> flag_set 0xB MORE_COMPONENTS"
    by (simp_all add: component_count_def flag_set_def MORE_COMPONENTS_def ARGS_ARE_WORDS_def WE_HAVE_A_SCALE_def WE_HAVE_AN_XY_SCALE_def WE_HAVE_A_2X2_def)
  have a: "read_args pair_glyph 0x22 4 = Some (5, - 5)" "read_args pair_glyph 0xB 10 = Some (100, 256)"
    "read_transform pair_glyph 0x22 6 = Some \<lparr>mxx = 0x10000, mxy = 0, myx = 0, myy = 0x10000\<rparr>"
    "read_transform pair_glyph 0xB 14 = Some \<lparr>mxx = 0x8000, mxy = 0, myx = 0, myy = 0x8000\<rparr>" "\<not> flag_set 0x22 ARGS_ARE_WORDS" "flag_set 0xB ARGS_ARE_WORDS"
    by (simp_all add: read_args_def read_transform_def b flag_set_def ARGS_ARE_WORDS_def ARGS_ARE_XY_VALUES_def WE_HAVE_A_SCALE_def
        WE_HAVE_AN_XY_SCALE_def WE_HAVE_A_2X2_def)
  have p: "peek_ushort pair_glyph 0 = Some 0x22" "peek_ushort pair_glyph (Suc (Suc 0)) = Some 1" "peek_ushort pair_glyph 6 = Some 0xB" "peek_ushort pair_glyph 8 = Some 2"
    by (simp_all add: b numeral_2_eq_2 [symmetric] del: One_nat_def)
  let ?s1 = "\<lparr>sg_index = 1, sg_flags = 0x22, sg_arg1 = 5, sg_arg2 = - 5, sg_transform = \<lparr>mxx = 0x10000, mxy = 0, myx = 0, myy = 0x10000\<rparr>\<rparr>"
  let ?s2 = "\<lparr>sg_index = 2, sg_flags = 0xB, sg_arg1 = 100, sg_arg2 = 256, sg_transform = \<lparr>mxx = 0x8000, mxy = 0, myx = 0, myy = 0x8000\<rparr>\<rparr>"
  have n: "gl_cur_subglyphs (FT_GlyphLoader_New []) = 0" by (simp add: FT_GlyphLoader_New_def)
  have two: "read_components 5 pair_glyph 16 (Suc 0) 6 (?gl\<lparr>gl_subglyphs := [?s1, no_subglyph]\<rparr>) = Some (Inr (2, 16), ?gl\<lparr>gl_subglyphs := [?s1, ?s2]\<rparr>)"
    by (subst read_components.simps) (simp add: c2 p f a n put_subglyph_def put_at_def get_at_def)
  have one: "read_components 5 pair_glyph 16 0 0 (FT_GlyphLoader_New []) = Some (Inr (2, 16), ?gl\<lparr>gl_subglyphs := [?s1, ?s2]\<rparr>)"
    using two by (subst read_components.simps) (simp add: c p f a n put_subglyph_def put_at_def get_at_def)
  have d: "take 2 (drop 0 [?s1, ?s2]) = [?s1, ?s2]" by simp
  show ?thesis using one d
    by (simp add: TT_Load_Composite_Glyph_def pair_loader with_gloader_def current_subglyphs_def n)
qed


end
