(* ===== verification/Tt_Gload_Safe.thy ===== *)
theory Tt_Gload_Safe
  imports Tt_Gload Tt_Glyph_Composite
begin

text \<open>
  Loading a glyph, with all its components, from a font in memory and without hinting: it returns, reads and
  writes inside the file and the arrays, and leaves an outline whose contours end inside its points.
\<close>

section \<open>The stream\<close>

definition at_stream :: "bytes \<Rightarrow> FT_StreamRec \<Rightarrow> bool" where
  "at_stream f s \<longleftrightarrow> mem_stream f s \<and> st_pos s \<le> length f"

lemma seek_at:
  assumes "at_stream f s"
  shows "\<exists>e s'. FT_Stream_Seek p s = (e, s') \<and> at_stream f s'"
  using assms by (auto simp: at_stream_def mem_seek)

lemma seek_back:
  assumes "at_stream f s" "p \<le> length f"
  shows "FT_Stream_Seek p s = (None, s\<lparr>st_pos := p\<rparr>)" "at_stream f (s\<lparr>st_pos := p\<rparr>)"
  using assms mem_seek [of f s p] by (simp_all add: at_stream_def)

lemma read_ushort_at:
  assumes "at_stream f s"
  shows "\<exists>e v s'. FT_Stream_ReadUShort s = Some ((e, v), s') \<and> at_stream f s' \<and> v < 65536"
proof -
  have m: "st_read s = None" "st_base s = Some f" "st_size s = length f" "length f < 9223372036854775808" "st_pos s \<le> length f"
    using assms by (simp_all add: at_stream_def mem_stream_def)
  then have a: "add64 (st_pos s) (2 - 1) = st_pos s + 1" "add64 (st_pos s) 2 = st_pos s + 2" by (simp_all add: add64_small)
  show ?thesis
  proof (cases "st_pos s + 2 \<le> length f")
    case True
    then show ?thesis using m a assms by (auto simp: FT_Stream_ReadUShort_def stream_value_def at_stream_def u16_lt)
  next
    case False
    then have "\<not> st_pos s + 1 < length f" by simp
    then show ?thesis using m a assms by (auto simp: FT_Stream_ReadUShort_def stream_value_def)
  qed
qed

section \<open>Metrics\<close>

lemma get_metrics_run:
  assumes "at_stream f s"
  shows "\<exists>b a s'. tt_face_get_metrics header gindex s = Some ((b, a), s') \<and> at_stream f s'"
proof -
  obtain e1 s1 where s1: "FT_Stream_Seek (add64 (mt_offset header) (mul32 4 gindex)) s = (e1, s1)" "at_stream f s1" using seek_at [OF assms] by blast
  obtain e2 v2 s2 where s2: "FT_Stream_ReadUShort s1 = Some ((e2, v2), s2)" "at_stream f s2" using read_ushort_at [OF s1(2)] by blast
  obtain e3 v3 s3 where s3: "FT_Stream_ReadUShort s2 = Some ((e3, v3), s3)" "at_stream f s3" using read_ushort_at [OF s2(2)] by blast
  obtain e4 s4 where s4: "FT_Stream_Seek (add64 (mt_offset header) (4 * (mt_number_Of_HMetrics header - 1))) s = (e4, s4)" "at_stream f s4"
    using seek_at [OF assms] by blast
  obtain e5 v5 s5 where s5: "FT_Stream_ReadUShort s4 = Some ((e5, v5), s5)" "at_stream f s5" using read_ushort_at [OF s4(2)] by blast
  let ?p = "add64 (add64 (mt_offset header) (4 * (mt_number_Of_HMetrics header - 1))) (add32 4 (mul32 2 (gindex - mt_number_Of_HMetrics header)))"
  obtain e6 s6 where s6: "FT_Stream_Seek ?p s5 = (e6, s6)" "at_stream f s6" using seek_at [OF s5(2)] by blast
  obtain e7 v7 s7 where s7: "FT_Stream_ReadUShort s6 = Some ((e7, v7), s7)" "at_stream f s7" using read_ushort_at [OF s6(2)] by blast
  show ?thesis
    using assms s1 s2 s3 s4 s5 s6 s7 unfolding tt_face_get_metrics_def Let_def
    by simp
qed

lemma tt_get_metrics_run:
  assumes "at_stream f (ld_stream (gd_loader ld))"
  shows "\<exists>ld'. tt_get_metrics env glyph_index ld = Some (None, ld') \<and> at_stream f (ld_stream (gd_loader ld')) \<and>
    ld_gloader (gd_loader ld') = ld_gloader (gd_loader ld) \<and> ld_hinted (gd_loader ld') = ld_hinted (gd_loader ld) \<and>
    ld_n_contours (gd_loader ld') = ld_n_contours (gd_loader ld) \<and> gd_exec ld' = gd_exec ld \<and> gd_byte_len ld' = gd_byte_len ld"
proof -
  obtain b a s1 where s1: "TT_Get_HMetrics env glyph_index (ld_stream (gd_loader ld)) = Some ((b, a), s1)" "at_stream f s1"
    using get_metrics_run [OF assms] unfolding TT_Get_HMetrics_def by blast
  obtain b' a' s2 where s2: "TT_Get_VMetrics env glyph_index (yMax (ld_bbox (gd_loader ld))) s1 = Some ((b', a'), s2)" "at_stream f s2"
    using get_metrics_run [OF s1(2), of "le_vertical env" glyph_index] s1(2) unfolding TT_Get_VMetrics_def
    by (cases "le_vertical_info env"; cases "le_os2_version env = 65535") auto
  have p: "FT_Stream_Pos (ld_stream (gd_loader ld)) \<le> length f" using assms by (simp add: at_stream_def FT_Stream_Pos_def)
  show ?thesis using s1(1) s2(1) seek_back [OF s2(2) p] by (simp add: tt_get_metrics_def set_stream_def Let_def)
qed

lemma set_pp_loader [simp]:
  "gd_loader (tt_loader_set_pp ld) = gd_loader ld" "gd_exec (tt_loader_set_pp ld) = gd_exec ld" "gd_byte_len (tt_loader_set_pp ld) = gd_byte_len ld"
  "gd_loader (scaled_phantoms env ld) = gd_loader ld" "gd_exec (scaled_phantoms env ld) = gd_exec ld"
  "gd_byte_len (scaled_phantoms env ld) = gd_byte_len ld"
  by (simp_all add: tt_loader_set_pp_def scaled_phantoms_def scale_phantoms_def Let_def)

section \<open>Frames\<close>

lemma TT_Access_run:
  assumes "at_stream f (ld_stream l)" "TT_Access_Glyph_Frame granted offset n l = (e, l')"
  shows "at_stream f (ld_stream l') \<and> ld_gloader l' = ld_gloader l \<and> ld_n_contours l' = ld_n_contours l \<and> ld_hinted l' = ld_hinted l \<and>
    (e = None \<longrightarrow> ld_limit l' \<le> length f \<and> ld_cursor l' + n = ld_limit l')"
proof -
  have m: "mem_stream f (ld_stream l)" "st_pos (ld_stream l) \<le> length f" using assms by (simp_all add: at_stream_def)
  then have x: "st_read (ld_stream l) = None" "st_size (ld_stream l) = length f" by (simp_all add: mem_stream_def)
  show ?thesis
  proof (cases "offset \<le> length f")
    case False
    then show ?thesis using assms m by (auto simp: TT_Access_Glyph_Frame_def mem_seek [OF m(1)])
  next
    case True
    then show ?thesis using assms m x
      by (auto simp: TT_Access_Glyph_Frame_def mem_seek [OF m(1)] FT_Stream_EnterFrame_def at_stream_def split: if_splits)
  qed
qed

lemma access_frame_run:
  assumes "at_stream f (ld_stream (gd_loader ld))"
  shows "\<exists>e l. access_glyph_frame offset n ld = (e, ld\<lparr>gd_loader := l\<rparr>) \<and> at_stream f (ld_stream l) \<and>
    ld_gloader l = gd_gloader ld \<and> ld_n_contours l = ld_n_contours (gd_loader ld) \<and> ld_hinted l = ld_hinted (gd_loader ld) \<and>
    (e = None \<longrightarrow> ld_limit l \<le> length f \<and> ld_cursor l + n = ld_limit l)"
proof -
  have r: "st_read (ld_stream (gd_loader ld)) = None" using assms by (simp add: at_stream_def mem_stream_def)
  have w: "with_gloader (gd_gloader ld) (gd_loader ld) = gd_loader ld" by (simp add: with_gloader_def gd_gloader_def)
  obtain e l where a: "TT_Access_Glyph_Frame True offset n (gd_loader ld) = (e, l)" by (metis surj_pair)
  have "access_glyph_frame offset n ld = (e, ld\<lparr>gd_loader := l\<rparr>)" using r w a by (simp add: access_glyph_frame_def Let_def)
  then show ?thesis using TT_Access_run [OF assms a] by (auto simp: gd_gloader_def)
qed

lemma forget_frame_run:
  "at_stream f (ld_stream (gd_loader ld)) \<Longrightarrow>
     \<exists>s. forget_glyph_frame ld = ld\<lparr>gd_loader := (gd_loader ld)\<lparr>ld_stream := s\<rparr>\<rparr> \<and> at_stream f s"
  by (auto simp: forget_glyph_frame_def TT_Forget_Glyph_Frame_def at_stream_def FT_Stream_ExitFrame_def mem_stream_def Let_def)

lemma frame_block_at: "at_stream f (ld_stream l) \<Longrightarrow> frame_block l = f"
  by (simp add: at_stream_def mem_stream_def frame_block_def)

lemma header_run:
  assumes "at_stream f (ld_stream l)" "ld_limit l \<le> length f"
  shows "\<exists>e l'. TT_Load_Glyph_Header l = Some (e, l') \<and> ld_stream l' = ld_stream l \<and> ld_gloader l' = ld_gloader l \<and>
    ld_hinted l' = ld_hinted l \<and> (e = None \<longrightarrow> ld_n_contours l' < 32768)"
proof (cases "ld_cursor l + 10 > ld_limit l")
  case True
  then show ?thesis by (simp add: TT_Load_Glyph_Header_def)
next
  case False
  have "s16 f p < 32768" for p by (auto simp: s16_def intro: less_trans [OF u16_lt])
  then show ?thesis using False assms(2) by (simp add: TT_Load_Glyph_Header_def Let_def frame_block_at [OF assms(1)])
qed

lemma load_header_run:
  assumes "at_stream f (ld_stream (gd_loader ld))"
  shows "\<exists>e ld'. load_header env offset ld = Some (e, ld') \<and> at_stream f (ld_stream (gd_loader ld')) \<and>
    gd_gloader ld' = gd_gloader ld \<and> ld_hinted (gd_loader ld') = ld_hinted (gd_loader ld) \<and> gd_exec ld' = gd_exec ld \<and>
    gd_byte_len ld' = gd_byte_len ld \<and> (e = None \<and> gd_byte_len ld \<noteq> 0 \<longrightarrow> ld_n_contours (gd_loader ld') < 32768)"
proof (cases "gd_byte_len ld = 0 \<or> lf_glyf_offset (le_loca env) = 0")
  case True
  then show ?thesis using assms by (auto simp: load_header_def)
next
  case False
  obtain e l where a: "access_glyph_frame (add64 (lf_glyf_offset (le_loca env)) offset) (gd_byte_len ld) ld = (e, ld\<lparr>gd_loader := l\<rparr>)"
    "at_stream f (ld_stream l)" "ld_gloader l = gd_gloader ld" "ld_hinted l = ld_hinted (gd_loader ld)" "e = None \<longrightarrow> ld_limit l \<le> length f"
    using access_frame_run [OF assms] by metis
  show ?thesis
  proof (cases e)
    case (Some x)
    then show ?thesis using False a by (simp add: load_header_def gd_gloader_def)
  next
    case None
    obtain e2 l' where h: "TT_Load_Glyph_Header l = Some (e2, l')" "ld_stream l' = ld_stream l" "ld_gloader l' = ld_gloader l"
      "ld_hinted l' = ld_hinted l" "e2 = None \<longrightarrow> ld_n_contours l' < 32768"
      using header_run [OF a(2)] a(5) None by blast
    obtain s where s: "forget_glyph_frame (ld\<lparr>gd_loader := l'\<rparr>) = ld\<lparr>gd_loader := l'\<lparr>ld_stream := s\<rparr>\<rparr>" "at_stream f s"
      using forget_frame_run [of f "ld\<lparr>gd_loader := l'\<rparr>"] a(2) h(2) by auto
    show ?thesis using False a None h s by (simp add: load_header_def gd_gloader_def)
  qed
qed

section \<open>The invariant\<close>

text \<open>The outline loaded so far, and no current glyph.\<close>

definition outline_ok :: "FT_GlyphLoaderRec \<Rightarrow> bool" where
  "outline_ok gl \<longleftrightarrow> gl_ok gl \<and> gl_cur_n_points gl = 0 \<and> gl_cur_n_contours gl = 0 \<and> gl_cur_num_subglyphs gl = 0 \<and>
     ends_ok (gl_n_points gl) (base_contours gl)"

text \<open>\<open>gl'\<close> has what \<open>gl\<close> has, and maybe more behind it.\<close>

definition outline_grown :: "FT_GlyphLoaderRec \<Rightarrow> FT_GlyphLoaderRec \<Rightarrow> bool" where
  "outline_grown gl gl' \<longleftrightarrow>
     gl_n_points gl \<le> gl_n_points gl' \<and> gl_n_contours gl \<le> gl_n_contours gl' \<and> gl_num_subglyphs gl \<le> gl_num_subglyphs gl' \<and>
     take (gl_n_points gl) (gl_points gl') = take (gl_n_points gl) (gl_points gl) \<and>
     take (gl_n_points gl) (gl_tags gl') = take (gl_n_points gl) (gl_tags gl) \<and>
     take (gl_n_contours gl) (gl_contours gl') = take (gl_n_contours gl) (gl_contours gl)"

definition load_ok :: "bytes \<Rightarrow> TT_GlyphLoad \<Rightarrow> bool" where
  "load_ok f ld \<longleftrightarrow> at_stream f (ld_stream (gd_loader ld)) \<and> \<not> ld_hinted (gd_loader ld) \<and> outline_ok (gd_gloader ld)"

lemma outline_grown_refl [simp]: "outline_grown gl gl"
  by (simp add: outline_grown_def)

lemma outline_grown_trans:
  assumes "outline_grown a b" "outline_grown b c"
  shows "outline_grown a c"
  using assms take_shorter [of "gl_n_points b" "gl_points c" "gl_points b" "gl_n_points a"]
    take_shorter [of "gl_n_points b" "gl_tags c" "gl_tags b" "gl_n_points a"]
    take_shorter [of "gl_n_contours b" "gl_contours c" "gl_contours b" "gl_n_contours a"]
  by (simp add: outline_grown_def)

lemma loader_updates [simp]:
  "gd_gloader (set_gloader gl ld) = gl" "ld_stream (gd_loader (set_gloader gl ld)) = ld_stream (gd_loader ld)"
  "ld_hinted (gd_loader (set_gloader gl ld)) = ld_hinted (gd_loader ld)" "gd_exec (set_gloader gl ld) = gd_exec ld"
  "gd_byte_len (set_gloader gl ld) = gd_byte_len ld" "gd_pp1 (set_gloader gl ld) = gd_pp1 ld" "gd_pp2 (set_gloader gl ld) = gd_pp2 ld"
  "gd_pp3 (set_gloader gl ld) = gd_pp3 ld" "gd_pp4 (set_gloader gl ld) = gd_pp4 ld"
  "ld_glyphIns (gd_loader (set_gloader gl ld)) = ld_glyphIns (gd_loader ld)"
  "ld_ins_pos (gd_loader (set_gloader gl ld)) = ld_ins_pos (gd_loader ld)"
  by (simp_all add: gd_gloader_def set_gloader_def with_gloader_def)

section \<open>Simple glyphs\<close>

lemma keep_instructions_frame:
  "keep_instructions base q n load = Some (e, load') \<Longrightarrow> ld_stream load' = ld_stream load \<and> ld_hinted load' = ld_hinted load"
  by (auto simp: keep_instructions_def with_gloader_def Let_def split: if_splits prod.splits Option.bind_splits)

lemma TT_Load_Simple_Glyph_frame:
  "TT_Load_Simple_Glyph load = Some (e, load') \<Longrightarrow> ld_stream load' = ld_stream load \<and> ld_hinted load' = ld_hinted load"
  by (auto simp: TT_Load_Simple_Glyph_def with_gloader_def Let_def split: if_splits prod.splits sum.splits Option.bind_splits
      dest!: keep_instructions_frame)

lemma TT_Load_Composite_Glyph_frame:
  "TT_Load_Composite_Glyph load = Some (e, load') \<Longrightarrow> ld_stream load' = ld_stream load \<and> ld_hinted load' = ld_hinted load"
  by (auto simp: TT_Load_Composite_Glyph_def with_gloader_def Let_def split: prod.splits sum.splits Option.bind_splits)

text \<open>Only points from \<open>i\<close> to \<open>j\<close> differ.\<close>

definition points_changed :: "nat \<Rightarrow> nat \<Rightarrow> FT_GlyphLoaderRec \<Rightarrow> FT_GlyphLoaderRec \<Rightarrow> bool" where
  "points_changed i j gl gl' \<longleftrightarrow> (\<exists>ps. gl' = gl\<lparr>gl_points := ps\<rparr> \<and> length ps = length (gl_points gl) \<and>
     take i ps = take i (gl_points gl) \<and> drop j ps = drop j (gl_points gl))"

lemma points_changed_refl [simp]: "points_changed i j gl gl"
  unfolding points_changed_def by (rule exI [of _ "gl_points gl"]) simp

lemma points_changed_trans: "points_changed i j a b \<Longrightarrow> points_changed i j b c \<Longrightarrow> points_changed i j a c"
  unfolding points_changed_def by force

lemma points_changed_ok: "points_changed i j gl gl' \<Longrightarrow> gl_ok gl \<Longrightarrow> gl_ok gl'"
  unfolding points_changed_def gl_ok_def gl_sized_def gl_aimed_def by (elim exE conjE) simp

lemma points_changedD:
  assumes "points_changed i j gl gl'"
  shows "gl_n_points gl' = gl_n_points gl" "gl_n_contours gl' = gl_n_contours gl" "gl_num_subglyphs gl' = gl_num_subglyphs gl"
    "gl_cur_n_points gl' = gl_cur_n_points gl" "gl_cur_n_contours gl' = gl_cur_n_contours gl" "gl_cur_num_subglyphs gl' = gl_cur_num_subglyphs gl"
    "gl_tags gl' = gl_tags gl" "gl_contours gl' = gl_contours gl" "gl_cur_points gl' = gl_cur_points gl" "gl_cur_contours gl' = gl_cur_contours gl"
    "gl_subglyphs gl' = gl_subglyphs gl" "length (gl_points gl') = length (gl_points gl)" "take i (gl_points gl') = take i (gl_points gl)"
    "current_contours gl' = current_contours gl" "base_contours gl' = base_contours gl" "gl_max_points gl' = gl_max_points gl"
  using assms unfolding points_changed_def current_contours_def base_contours_def by (elim exE conjE, simp)+

lemma map_points_run:
  assumes "i + n \<le> length (gl_points gl)"
  shows "\<exists>gl'. map_points h i n gl = Some gl' \<and> points_changed i (i + n) gl gl'"
  using assms by (auto simp: map_points_def points_changed_def)

lemma put_phantoms_run:
  assumes "n + 4 \<le> length (gl_points (gd_gloader ld))"
  shows "\<exists>gl'. put_phantoms n ld = Some (set_gloader gl' ld) \<and> points_changed n (n + 4) (gd_gloader ld) gl'"
proof -
  let ?ps = "(gl_points (gd_gloader ld))[n := gd_pp1 ld, n + 1 := gd_pp2 ld, n + 2 := gd_pp3 ld, n + 3 := gd_pp4 ld]"
  have "put_phantoms n ld = Some (set_gloader ((gd_gloader ld)\<lparr>gl_points := ?ps\<rparr>) ld)"
    using assms by (simp add: put_phantoms_def put_at_def)
  moreover have "points_changed n (n + 4) (gd_gloader ld) ((gd_gloader ld)\<lparr>gl_points := ?ps\<rparr>)"
    unfolding points_changed_def by (rule exI [of _ ?ps]) simp
  ultimately show ?thesis by blast
qed

lemma save_phantoms_run:
  assumes "4 \<le> n" "n \<le> length ps"
  shows "\<exists>ld'. save_phantoms n ps ld = Some ld' \<and> gd_loader ld' = gd_loader ld \<and> gd_exec ld' = gd_exec ld \<and> gd_byte_len ld' = gd_byte_len ld"
  using assms by (auto simp: save_phantoms_def get_at_def)

lemma points_changed_mono:
  assumes "points_changed i j gl gl'" "i' \<le> i" "j \<le> j'"
  shows "points_changed i' j' gl gl'"
proof -
  obtain ps where ps: "gl' = gl\<lparr>gl_points := ps\<rparr>" "length ps = length (gl_points gl)" "take i ps = take i (gl_points gl)"
    "drop j ps = drop j (gl_points gl)" using assms(1) by (auto simp: points_changed_def)
  have "drop j' ps = drop j' (gl_points gl)"
    using arg_cong [OF ps(4), of "drop (j' - j)"] assms(3) by simp
  then show ?thesis unfolding points_changed_def
    using ps take_shorter [OF ps(3) assms(2)] by blast
qed

lemma process_simple_run:
  assumes ok: "gl_ok (gd_gloader ld)" and room: "gl_n_points (gd_gloader ld) + gl_cur_n_points (gd_gloader ld) + 4 \<le> gl_max_points (gd_gloader ld)"
    and h: "\<not> ld_hinted (gd_loader ld)"
  shows "\<exists>ld'. TT_Process_Simple_Glyph env ld = Some (None, ld') \<and> ld_hinted (gd_loader ld') = ld_hinted (gd_loader ld) \<and>
    ld_stream (gd_loader ld') = ld_stream (gd_loader ld) \<and> points_changed (gl_n_points (gd_gloader ld)) (gl_max_points (gd_gloader ld)) (gd_gloader ld) (gd_gloader ld')"
proof -
  let ?gl = "gd_gloader ld" and ?n = "gl_cur_n_points (gd_gloader ld)" and ?s = "gl_cur_points (gd_gloader ld)"
  have g: "?s = gl_n_points ?gl" "length (gl_points ?gl) = gl_max_points ?gl" using ok by (simp_all add: gl_ok_def gl_sized_def gl_aimed_def)
  obtain gl1 where p: "put_phantoms (?s + ?n) ld = Some (set_gloader gl1 ld)" "points_changed (?s + ?n) (?s + ?n + 4) ?gl gl1"
    using put_phantoms_run [of "?s + ?n" ld] room g by auto
  note d1 = points_changedD [OF p(2)]
  have c1: "points_changed ?s (gl_max_points ?gl) ?gl gl1" by (rule points_changed_mono [OF p(2)]) (use room g in simp_all)
  obtain gl2 where m: "(if \<not> le_no_scale env then map_points (scale_vector (le_x_scale env) (le_y_scale env)) ?s (?n + 4) gl1 else Some gl1) = Some gl2"
    "points_changed ?s (gl_max_points ?gl) ?gl gl2"
  proof (cases "le_no_scale env")
    case True
    then show ?thesis using that c1 by simp
  next
    case False
    have "?s + (?n + 4) \<le> length (gl_points gl1)" using room g d1 by simp
    from map_points_run [OF this] obtain gl2 where "map_points (scale_vector (le_x_scale env) (le_y_scale env)) ?s (?n + 4) gl1 = Some gl2"
      "points_changed ?s (?s + (?n + 4)) gl1 gl2" by blast
    moreover from this(2) have "points_changed ?s (gl_max_points ?gl) gl1 gl2" by (rule points_changed_mono) (use room g in simp_all)
    ultimately show ?thesis using that False points_changed_trans [OF c1] by simp
  qed
  note d2 = points_changedD [OF m(2)]
  have l: "4 \<le> ?n + 4" "?n + 4 \<le> length (drop ?s (gl_points gl2))" using room g d2(12) by auto
  obtain ld3 where s: "save_phantoms (?n + 4) (drop ?s (gl_points gl2)) (set_gloader gl2 ld) = Some ld3" "gd_loader ld3 = gd_loader (set_gloader gl2 ld)"
    using save_phantoms_run [OF l, of "set_gloader gl2 ld"] by blast
  have gl3: "gd_gloader ld3 = gl2" using s(2) by (simp add: gd_gloader_def set_gloader_def with_gloader_def)
  have ss: "set_gloader a (set_gloader b ld) = set_gloader a ld" for a b by (simp add: set_gloader_def with_gloader_def)
  have h3: "\<not> ld_hinted (gd_loader ld3)" using h s(2) by simp
  have "TT_Process_Simple_Glyph env ld = Some (None, ld3)"
    using p(1) m(1) s(1) h h3 by (cases "le_no_scale env") (simp_all add: TT_Process_Simple_Glyph_def ss)
  then show ?thesis using s(2) gl3 m(2) g(1) by auto
qed

text \<open>Adding the current glyph to the outline.\<close>

lemma add_grown:
  assumes ok: "gl_ok gl" and c: "ends_ok (gl_n_points gl) (base_contours gl)" "ends_ok (gl_cur_n_points gl) (current_contours gl)"
  shows "\<exists>gl'. FT_GlyphLoader_Add gl = Some gl' \<and> outline_ok gl' \<and> outline_grown gl gl' \<and> gl_points gl' = gl_points gl \<and>
    gl_n_points gl' = gl_n_points gl + gl_cur_n_points gl \<and> gl_num_subglyphs gl' = gl_num_subglyphs gl + gl_cur_num_subglyphs gl \<and>
    gl_subglyphs gl' = gl_subglyphs gl"
proof -
  obtain gl' where a: "FT_GlyphLoader_Add gl = Some gl'" "gl_ok gl'" "gl_points gl' = gl_points gl" "gl_tags gl' = gl_tags gl"
    "gl_n_points gl' = gl_n_points gl + gl_cur_n_points gl" "gl_n_contours gl' = gl_n_contours gl + gl_cur_n_contours gl"
    "gl_num_subglyphs gl' = gl_num_subglyphs gl + gl_cur_num_subglyphs gl" "gl_subglyphs gl' = gl_subglyphs gl"
    "gl_cur_n_points gl' = 0" "gl_cur_n_contours gl' = 0" "gl_cur_num_subglyphs gl' = 0"
    "base_contours gl' = base_contours gl @ map (\<lambda>c. c + gl_n_points gl) (current_contours gl)" "ends_ok (gl_n_points gl') (base_contours gl')"
    using Add_run [OF ok c] by blast
  have l: "length (base_contours gl) = gl_n_contours gl" using ok by (simp add: base_contours_def gl_ok_def gl_sized_def)
  have "take (gl_n_contours gl) (gl_contours gl') = take (gl_n_contours gl) (base_contours gl')"
    using a(6) by (simp add: base_contours_def)
  then have "take (gl_n_contours gl) (gl_contours gl') = take (gl_n_contours gl) (gl_contours gl)"
    using l unfolding a(12) by (simp add: base_contours_def)
  then show ?thesis using a by (simp add: outline_ok_def outline_grown_def)
qed

lemma load_simple_run:
  assumes st: "at_stream f (ld_stream (gd_loader ld))" and ok: "outline_ok (gd_gloader ld)" and h: "\<not> ld_hinted (gd_loader ld)"
    and fr: "ld_limit (gd_loader ld) \<le> length f" and nc: "ld_n_contours (gd_loader ld) < 32768"
  shows "\<exists>e ld'. load_simple env ld = Some (e, ld') \<and> (e = None \<longrightarrow> load_ok f ld' \<and> outline_grown (gd_gloader ld) (gd_gloader ld'))"
proof -
  let ?l = "gd_loader ld" and ?gl = "gd_gloader ld"
  have o: "gl_ok (ld_gloader ?l)" "gl_cur_n_points (ld_gloader ?l) = 0" "gl_cur_n_contours (ld_gloader ?l) = 0"
    "ends_ok (gl_n_points (ld_gloader ?l)) (base_contours (ld_gloader ?l))" "gl_cur_num_subglyphs (ld_gloader ?l) = 0"
    using ok by (simp_all add: outline_ok_def gd_gloader_def)
  have b: "ld_limit ?l \<le> length (frame_block ?l)" using fr frame_block_at [OF st] by simp
  obtain e l1 where l1: "TT_Load_Simple_Glyph ?l = Some (e, l1)" "gl_ok (ld_gloader l1)"
    "e = None \<longrightarrow> (\<exists>g. holds_glyph g (ld_gloader l1) \<and> base_kept (ld_gloader ?l) (ld_gloader l1) \<and>
        ends_ok (gl_cur_n_points (ld_gloader l1)) (glyph_ends g) \<and>
        gl_n_points (ld_gloader l1) + gl_cur_n_points (ld_gloader l1) + 4 \<le> gl_max_points (ld_gloader l1))"
    using load_simple_glyph_run [OF o(1-3) b nc] by blast
  note f1 = TT_Load_Simple_Glyph_frame [OF l1(1)]
  obtain s where s: "forget_glyph_frame (ld\<lparr>gd_loader := l1\<rparr>) = ld\<lparr>gd_loader := l1\<lparr>ld_stream := s\<rparr>\<rparr>" "at_stream f s"
    using forget_frame_run [of f "ld\<lparr>gd_loader := l1\<rparr>"] st f1 by auto
  let ?ld1 = "ld\<lparr>gd_loader := l1\<lparr>ld_stream := s\<rparr>\<rparr>"
  have g1: "gd_gloader ?ld1 = ld_gloader l1" by (simp add: gd_gloader_def)
  show ?thesis
  proof (cases e)
    case (Some x)
    then show ?thesis using l1(1) s(1) by (simp add: load_simple_def)
  next
    case None
    obtain g where g: "holds_glyph g (ld_gloader l1)" "base_kept (ld_gloader ?l) (ld_gloader l1)" "ends_ok (gl_cur_n_points (ld_gloader l1)) (glyph_ends g)"
      "gl_n_points (ld_gloader l1) + gl_cur_n_points (ld_gloader l1) + 4 \<le> gl_max_points (ld_gloader l1)"
      using l1(3) None by blast
    have ok1: "gl_ok (gd_gloader ?ld1)" "gl_n_points (gd_gloader ?ld1) + gl_cur_n_points (gd_gloader ?ld1) + 4 \<le> gl_max_points (gd_gloader ?ld1)"
      "\<not> ld_hinted (gd_loader ?ld1)" using l1(2) g(4) h f1 by (simp_all add: g1)
    obtain ld2 where p: "TT_Process_Simple_Glyph env ?ld1 = Some (None, ld2)" "ld_hinted (gd_loader ld2) = ld_hinted l1" "ld_stream (gd_loader ld2) = s"
      "points_changed (gl_n_points (ld_gloader l1)) (gl_max_points (ld_gloader l1)) (ld_gloader l1) (gd_gloader ld2)"
      using process_simple_run [OF ok1, of env] by (auto simp: g1)
    note d = points_changedD [OF p(4)]
    have bc: "base_contours (ld_gloader l1) = base_contours (ld_gloader ?l)" "gl_n_points (ld_gloader l1) = gl_n_points (ld_gloader ?l)"
      "gl_num_subglyphs (ld_gloader l1) = gl_num_subglyphs (ld_gloader ?l)"
      using g(2) by (simp_all add: base_kept_def outline_kept_def base_contours_def)
    have e2: "gl_ok (gd_gloader ld2)" "ends_ok (gl_n_points (gd_gloader ld2)) (base_contours (gd_gloader ld2))"
      "ends_ok (gl_cur_n_points (gd_gloader ld2)) (current_contours (gd_gloader ld2))"
      using points_changed_ok [OF p(4) l1(2)] o(4) g(1,3) by (simp_all add: d bc holds_glyph_def)
    obtain gl3 where a: "FT_GlyphLoader_Add (gd_gloader ld2) = Some gl3" "outline_ok gl3" "outline_grown (gd_gloader ld2) gl3"
      using add_grown [OF e2] by blast
    have g2: "outline_grown ?gl (gd_gloader ld2)"
      using g(2) d by (simp add: outline_grown_def base_kept_def outline_kept_def gd_gloader_def)
    have "load_simple env ld = Some (None, set_gloader gl3 ld2)" using l1(1) None s(1) p(1) a(1) by (simp add: load_simple_def)
    moreover have "load_ok f (set_gloader gl3 ld2)" using a(2) p(2,3) s(2) h f1 by (simp add: load_ok_def)
    ultimately show ?thesis using outline_grown_trans [OF g2 a(3)] by simp
  qed
qed

section \<open>Components\<close>

lemma match_offset_run:
  assumes "nb \<le> gl_n_points gl" "gl_n_points gl \<le> length (gl_points gl)"
  shows "\<exists>r. match_offset s start nb gl = Some r"
  using assms by (auto simp: match_offset_def Let_def get_at_def)

lemma given_offset_run: "\<exists>r. given_offset env False exec s = Some r"
  by (simp add: given_offset_def Let_def split: prod.splits)

lemma component_run:
  assumes ok: "load_ok f ld" and nb: "nb \<le> gl_n_points (gd_gloader ld)"
  shows "\<exists>e ld'. TT_Process_Composite_Component env s start nb ld = Some (e, ld') \<and> load_ok f ld' \<and>
    points_changed nb (gl_n_points (gd_gloader ld)) (gd_gloader ld) (gd_gloader ld')"
proof -
  let ?gl = "gd_gloader ld" and ?n = "gl_n_points (gd_gloader ld) - nb"
  have o: "gl_ok ?gl" "outline_ok ?gl" "\<not> ld_hinted (gd_loader ld)" using ok by (simp_all add: load_ok_def outline_ok_def)
  have g: "gl_n_points ?gl \<le> gl_max_points ?gl" "gl_max_points ?gl \<le> 65535" "length (gl_points ?gl) = gl_max_points ?gl"
    using o(1) by (simp_all add: gl_ok_def gl_sized_def)
  have n: "u16_of_int (int (gl_n_points ?gl) - int nb) = ?n" using nb g by (simp add: u16_of_int_def flip: of_nat_diff)
  have r: "nb + ?n = gl_n_points ?gl" using nb by simp
  have len: "nb + ?n \<le> length (gl_points ?gl)" using g nb by simp
  obtain gl1 where t: "(if has_scale (sg_flags s) then FT_Outline_Transform (sg_transform s) nb ?n ?gl else Some ?gl) = Some gl1"
    "points_changed nb (gl_n_points ?gl) ?gl gl1"
  proof (cases "has_scale (sg_flags s)")
    case True
    then show ?thesis using that map_points_run [OF len, of "FT_Vector_Transform (sg_transform s)"] unfolding r by (auto simp: FT_Outline_Transform_def)
  qed (use that in simp)
  note d1 = points_changedD [OF t(2)]
  have keeps: "load_ok f (set_gloader gl' ld)" if "points_changed nb (gl_n_points ?gl) ?gl gl'" for gl'
    using ok that points_changed_ok [OF that o(1)] points_changedD [OF that] by (simp add: load_ok_def outline_ok_def)
  have nb1: "nb \<le> gl_n_points gl1" "gl_n_points gl1 \<le> length (gl_points gl1)" using nb g d1 by simp_all
  have "\<exists>q. (if \<not> flag_set (sg_flags s) ARGS_ARE_XY_VALUES then match_offset s start nb gl1
        else map_option Inr (given_offset env (ld_hinted (gd_loader (set_gloader gl1 ld))) (gd_exec (set_gloader gl1 ld)) s)) = Some q"
    using match_offset_run [OF nb1, of s start] given_offset_run [of env "gd_exec ld" s] o(3) by auto
  then obtain q where q: "(if \<not> flag_set (sg_flags s) ARGS_ARE_XY_VALUES then match_offset s start nb gl1
        else map_option Inr (given_offset env (ld_hinted (gd_loader (set_gloader gl1 ld))) (gd_exec (set_gloader gl1 ld)) s)) = Some q" by blast
  have run: "TT_Process_Composite_Component env s start nb ld =
      (case q of Inl _ \<Rightarrow> Some (Some Invalid_Composite, set_gloader gl1 ld)
       | Inr (x, y) \<Rightarrow> if x \<noteq> 0 \<or> y \<noteq> 0
           then do { gl \<leftarrow> FT_Outline_Translate x y nb ?n gl1; Some (None, set_gloader gl (set_gloader gl1 ld)) }
           else Some (None, set_gloader gl1 ld))"
    unfolding TT_Process_Composite_Component_def Let_def n t(1) Option.bind.simps q by simp
  have len1: "nb + ?n \<le> length (gl_points gl1)" using len d1 by simp
  show ?thesis
  proof (cases q)
    case (Inl u)
    then show ?thesis using run keeps [OF t(2)] t(2) by simp
  next
    case (Inr xy)
    obtain x y where xy: "xy = (x, y)" by (cases xy)
    obtain gl2 where m: "FT_Outline_Translate x y nb ?n gl1 = Some gl2" "points_changed nb (gl_n_points ?gl) gl1 gl2"
      using map_points_run [OF len1] unfolding r FT_Outline_Translate_def by blast
    have c2: "points_changed nb (gl_n_points ?gl) ?gl gl2" by (rule points_changed_trans [OF t(2) m(2)])
    have ss: "set_gloader gl2 (set_gloader gl1 ld) = set_gloader gl2 ld" by (simp add: set_gloader_def with_gloader_def)
    show ?thesis using run Inr xy m(1) keeps [OF t(2)] keeps [OF c2] t(2) c2 by (auto simp: ss)
  qed
qed

text \<open>What is asked of the recursive call.\<close>

definition loads :: "bytes \<Rightarrow> (nat \<Rightarrow> TT_GlyphLoad \<Rightarrow> (ft_error option \<times> TT_GlyphLoad) option) \<Rightarrow> bool" where
  "loads f load \<longleftrightarrow> (\<forall>i ld. load_ok f ld \<longrightarrow>
     (\<exists>e ld'. load i ld = Some (e, ld') \<and> (e = None \<longrightarrow> load_ok f ld' \<and> outline_grown (gd_gloader ld) (gd_gloader ld'))))"

lemma loadsD:
  assumes "loads f load" "load_ok f ld"
  obtains e ld' where "load i ld = Some (e, ld')" "e = None \<longrightarrow> load_ok f ld' \<and> outline_grown (gd_gloader ld) (gd_gloader ld')"
  using assms unfolding loads_def by blast

lemma subglyph_there:
  assumes "load_ok f ld" "i < gl_num_subglyphs (gd_gloader ld)"
  shows "\<exists>s. get_at (gl_subglyphs (gd_gloader ld)) i = Some s"
  using assms by (auto simp: load_ok_def outline_ok_def gl_ok_def gl_sized_def get_at_def)

lemma load_ok_fields:
  "gd_loader ld' = gd_loader ld \<Longrightarrow> load_ok f ld' = load_ok f ld"
  by (simp add: load_ok_def gd_gloader_def)

lemma changed_grown:
  assumes "points_changed nb j gl gl'" "gl_n_points gl0 \<le> nb" "outline_grown gl0 gl"
  shows "outline_grown gl0 gl'"
proof -
  note d = points_changedD [OF assms(1)]
  show ?thesis using assms(2,3) take_shorter [OF d(13) assms(2)] by (simp add: outline_grown_def d)
qed

lemma load_components_run:
  assumes "loads f load" "load_ok f ld" "\<forall>i \<in> set ns. i < gl_num_subglyphs (gd_gloader ld)"
  shows "\<exists>e s n ld'. load_components load env start ns sub np ld = Some ((e, s, n), ld') \<and>
    (e = None \<longrightarrow> load_ok f ld' \<and> outline_grown (gd_gloader ld) (gd_gloader ld'))"
  using assms(2,3)
proof (induction ns arbitrary: sub np ld)
  case Nil
  then show ?case by simp
next
  case (Cons i ns)
  let ?gl = "gd_gloader ld"
  obtain s where s: "get_at (gl_subglyphs ?gl) i = Some s" using subglyph_there [OF Cons.prems(1)] Cons.prems(2) by auto
  obtain e ld1 where l: "load (sg_index s) ld = Some (e, ld1)" "e = None \<longrightarrow> load_ok f ld1 \<and> outline_grown ?gl (gd_gloader ld1)"
    using loadsD [OF assms(1) Cons.prems(1)] by blast
  show ?case
  proof (cases e)
    case (Some x)
    then show ?thesis using s l(1) by simp
  next
    case None
    have l1: "load_ok f ld1" "outline_grown ?gl (gd_gloader ld1)" using l(2) None by simp_all
    have idx: "\<forall>i \<in> set (i # ns). i < gl_num_subglyphs (gd_gloader ld1)"
      using Cons.prems(2) l1(2) by (auto simp: outline_grown_def)
    obtain s1 where s1: "get_at (gl_subglyphs (gd_gloader ld1)) i = Some s1" using subglyph_there [OF l1(1)] idx by auto
    define ld2 where "ld2 = (if \<not> flag_set (sg_flags s1) USE_MY_METRICS
                  then ld1\<lparr>gd_pp1 := gd_pp1 ld, gd_pp2 := gd_pp2 ld, gd_pp3 := gd_pp3 ld, gd_pp4 := gd_pp4 ld,
                           gd_linear := gd_linear ld, gd_vadvance := gd_vadvance ld\<rparr>
                  else ld1)"
    have f2: "gd_loader ld2 = gd_loader ld1" by (simp add: ld2_def)
    then have g2: "gd_gloader ld2 = gd_gloader ld1" by (simp add: gd_gloader_def)
    have ok2: "load_ok f ld2" using l1(1) load_ok_fields [OF f2] by simp
    show ?thesis
    proof (cases "gl_n_points (gd_gloader ld2) = gl_n_points ?gl")
      case True
      have "\<forall>i \<in> set ns. i < gl_num_subglyphs (gd_gloader ld2)" using idx g2 by simp
      from Cons.IH [OF ok2 this] obtain e' s' n' ld' where
        r: "load_components load env start ns (Some s1) (gl_n_points (gd_gloader ld2)) ld2 = Some ((e', s', n'), ld')"
        "e' = None \<longrightarrow> load_ok f ld' \<and> outline_grown (gd_gloader ld2) (gd_gloader ld')" by metis
      have "load_components load env start (i # ns) sub np ld = Some ((e', s', n'), ld')"
        using s l(1) None s1 True r(1) by (simp add: Let_def ld2_def [symmetric])
      then show ?thesis using r(2) outline_grown_trans [OF l1(2)] g2 by auto
    next
      case False
      have nb: "gl_n_points ?gl \<le> gl_n_points (gd_gloader ld2)" using l1(2) g2 by (simp add: outline_grown_def)
      obtain e3 ld3 where c: "TT_Process_Composite_Component env s1 start (gl_n_points ?gl) ld2 = Some (e3, ld3)" "load_ok f ld3"
        "points_changed (gl_n_points ?gl) (gl_n_points (gd_gloader ld2)) (gd_gloader ld2) (gd_gloader ld3)"
        using component_run [OF ok2 nb] by blast
      have g3: "outline_grown ?gl (gd_gloader ld3)" using changed_grown [OF c(3) le_refl] l1(2) g2 by simp
      show ?thesis
      proof (cases e3)
        case (Some x)
        then have "load_components load env start (i # ns) sub np ld = Some ((e3, Some s1, gl_n_points (gd_gloader ld2)), ld3)"
          using s l(1) None s1 False c(1) by (simp add: Let_def ld2_def [symmetric])
        then show ?thesis using Some by simp
      next
        case e3: None
        have "\<forall>i \<in> set ns. i < gl_num_subglyphs (gd_gloader ld3)" using idx g2 points_changedD(3) [OF c(3)] by simp
        from Cons.IH [OF c(2) this] obtain e' s' n' ld' where
          r: "load_components load env start ns (Some s1) (gl_n_points (gd_gloader ld2)) ld3 = Some ((e', s', n'), ld')"
          "e' = None \<longrightarrow> load_ok f ld' \<and> outline_grown (gd_gloader ld3) (gd_gloader ld')" by metis
        have "load_components load env start (i # ns) sub np ld = Some ((e', s', n'), ld')"
          using s l(1) None s1 False c(1) e3 r(1) by (simp add: Let_def ld2_def [symmetric])
        then show ?thesis using r(2) outline_grown_trans [OF g3] by auto
      qed
    qed
  qed
qed

section \<open>Composite glyphs\<close>

lemma retain_overlap_run:
  assumes "outline_ok gl"
  shows "\<exists>gl'. retain_overlap gl = Some gl' \<and> outline_ok gl' \<and> outline_grown gl gl'"
proof -
  have f: "outline_ok (gl\<lparr>gl_flags := v\<rparr>) \<and> outline_grown gl (gl\<lparr>gl_flags := v\<rparr>)" for v
    using assms by (simp add: outline_ok_def outline_grown_def gl_ok_def gl_sized_def gl_aimed_def base_contours_def)
  have "gl_num_subglyphs gl \<le> length (gl_subglyphs gl)" using assms by (simp add: outline_ok_def gl_ok_def gl_sized_def)
  then show ?thesis using assms f by (auto simp: retain_overlap_def get_at_def)
qed

lemma join_components_run:
  assumes load: "loads f load" and st: "at_stream f (ld_stream (gd_loader ld))" "\<not> ld_hinted (gd_loader ld)"
    and ok: "gl_ok (gd_gloader ld)" "gl_cur_n_points (gd_gloader ld) = 0" "gl_cur_n_contours (gd_gloader ld) = 0"
      "ends_ok (gl_n_points (gd_gloader ld)) (base_contours (gd_gloader ld))"
  shows "\<exists>e ld'. join_components load env start start_contour ld = Some (e, ld') \<and>
    (e = None \<longrightarrow> load_ok f ld' \<and> outline_grown (gd_gloader ld) (gd_gloader ld'))"
proof -
  let ?gl = "gd_gloader ld" and ?ns = "[gl_num_subglyphs (gd_gloader ld)..<gl_num_subglyphs (gd_gloader ld) + gl_cur_num_subglyphs (gd_gloader ld)]"
  have e: "ends_ok (gl_cur_n_points ?gl) (current_contours ?gl)" using ok(3) by (simp add: current_contours_def ends_ok_def)
  obtain gl1 where a: "FT_GlyphLoader_Add ?gl = Some gl1" "outline_ok gl1" "outline_grown ?gl gl1"
    "gl_num_subglyphs gl1 = gl_num_subglyphs ?gl + gl_cur_num_subglyphs ?gl"
    using add_grown [OF ok(1,4) e] by blast
  have l1: "load_ok f (set_gloader gl1 ld)" using a(2) st by (simp add: load_ok_def)
  have idx: "\<forall>i \<in> set ?ns. i < gl_num_subglyphs (gd_gloader (set_gloader gl1 ld))" using a(4) by simp
  obtain e2 s n ld2 where c: "load_components load env start ?ns None start (set_gloader gl1 ld) = Some ((e2, s, n), ld2)"
    "e2 = None \<longrightarrow> load_ok f ld2 \<and> outline_grown gl1 (gd_gloader ld2)"
    using load_components_run [OF load l1 idx, of env start None start] by auto
  show ?thesis
  proof (cases e2)
    case (Some x)
    then show ?thesis using a(1) c(1) by (simp add: join_components_def Let_def)
  next
    case None
    let ?ld3 = "ld2\<lparr>gd_byte_len := gd_byte_len ld, gd_loader := (gd_loader ld2)\<lparr>ld_ins_pos := ld_ins_pos (gd_loader ld)\<rparr>\<rparr>"
    have c2: "load_ok f ld2" "outline_grown gl1 (gd_gloader ld2)" using c(2) None by simp_all
    have g3: "gd_gloader ?ld3 = gd_gloader ld2" by (simp add: gd_gloader_def)
    have h3: "\<not> ld_hinted (gd_loader ?ld3)" "at_stream f (ld_stream (gd_loader ?ld3))" using c2(1) by (simp_all add: load_ok_def)
    obtain gl4 where r: "retain_overlap (gd_gloader ld2) = Some gl4" "outline_ok gl4" "outline_grown (gd_gloader ld2) gl4"
      using retain_overlap_run c2(1) by (auto simp: load_ok_def)
    have "join_components load env start start_contour ld = Some (None, set_gloader gl4 ?ld3)"
      using a(1) c(1) None h3(1) r(1) g3 by (simp add: join_components_def Let_def)
    moreover have "load_ok f (set_gloader gl4 ?ld3)" using r(2) h3 by (simp add: load_ok_def)
    moreover have "outline_grown ?gl gl4" using outline_grown_trans [OF a(3) outline_grown_trans [OF c2(2) r(3)]] .
    ultimately show ?thesis by simp
  qed
qed

lemma enter_composite_run:
  "\<exists>e ld' gs. enter_composite rc i ld = (e, ld') \<and> ld_stream (gd_loader ld') = ld_stream (gd_loader ld) \<and>
     ld_hinted (gd_loader ld') = ld_hinted (gd_loader ld) \<and> ld_limit (gd_loader ld') = ld_limit (gd_loader ld) \<and>
     gd_gloader ld' = (gd_gloader ld)\<lparr>gl_grants := gs\<rparr>"
proof -
  have r: "\<exists>gs. gl = gl\<lparr>gl_grants := gs\<rparr>" for gl :: FT_GlyphLoaderRec by (rule exI [of _ "gl_grants gl"]) simp
  obtain g gs where a: "ask (gd_gloader ld) = (g, (gd_gloader ld)\<lparr>gl_grants := gs\<rparr>)" using ask_cases by (metis surj_pair)
  then show ?thesis
    by (auto simp: enter_composite_def Let_def gd_gloader_def set_gloader_def with_gloader_def intro: r)
qed

lemma load_composite_run:
  assumes load: "loads f load" and st: "at_stream f (ld_stream (gd_loader ld))" and ok: "outline_ok (gd_gloader ld)"
    and h: "\<not> ld_hinted (gd_loader ld)" and fr: "ld_limit (gd_loader ld) \<le> length f"
  shows "\<exists>e ld'. load_composite load env rc i ld = Some (e, ld') \<and>
    (e = None \<longrightarrow> load_ok f ld' \<and> outline_grown (gd_gloader ld) (gd_gloader ld'))"
proof -
  let ?gl = "gd_gloader ld" and ?ld0 = "ld\<lparr>gd_loader := (gd_loader ld)\<lparr>ld_n_contours := -1\<rparr>\<rparr>"
  have g0: "gd_gloader ?ld0 = ?gl" by (simp add: gd_gloader_def)
  obtain e1 ld1 gs where e1: "enter_composite rc i ?ld0 = (e1, ld1)" "ld_stream (gd_loader ld1) = ld_stream (gd_loader ld)"
    "ld_hinted (gd_loader ld1) = ld_hinted (gd_loader ld)" "ld_limit (gd_loader ld1) = ld_limit (gd_loader ld)"
    "gd_gloader ld1 = ?gl\<lparr>gl_grants := gs\<rparr>"
    using enter_composite_run [of rc i ?ld0] unfolding g0 by auto
  show ?thesis
  proof (cases e1)
    case (Some x)
    then show ?thesis using e1(1) by (simp add: load_composite_def Let_def)
  next
    case None
    let ?l = "gd_loader ld1"
    have gl1: "ld_gloader ?l = ?gl\<lparr>gl_grants := gs\<rparr>" using e1(5) by (simp add: gd_gloader_def)
    have o: "gl_ok (ld_gloader ?l)" "gl_cur_num_subglyphs (ld_gloader ?l) = 0" "gl_cur_n_points (ld_gloader ?l) = 0"
      "gl_cur_n_contours (ld_gloader ?l) = 0" "ends_ok (gl_n_points (ld_gloader ?l)) (base_contours (ld_gloader ?l))"
      using ok unfolding gl1 by (simp_all add: outline_ok_def gl_ok_def base_contours_def)
    have b: "ld_limit ?l \<le> length (frame_block ?l)" using fr e1(2,4) frame_block_at [of f ?l] st by simp
    obtain e2 l2 where c: "TT_Load_Composite_Glyph ?l = Some (e2, l2)" "gl_ok (ld_gloader l2)" "outline_kept (ld_gloader ?l) (ld_gloader l2)"
      "gl_num_subglyphs (ld_gloader l2) = gl_num_subglyphs (ld_gloader ?l)"
      "gl_cur_n_points (ld_gloader l2) = gl_cur_n_points (ld_gloader ?l)" "gl_cur_n_contours (ld_gloader l2) = gl_cur_n_contours (ld_gloader ?l)"
      using load_composite_glyph_run [OF o(1,2) b] by blast
    note f2 = TT_Load_Composite_Glyph_frame [OF c(1)]
    obtain s where s: "forget_glyph_frame (ld1\<lparr>gd_loader := l2\<rparr>) = ld1\<lparr>gd_loader := l2\<lparr>ld_stream := s\<rparr>\<rparr>" "at_stream f s"
      using forget_frame_run [of f "ld1\<lparr>gd_loader := l2\<rparr>"] st f2 e1(2) by auto
    let ?ld3 = "scaled_phantoms env (ld1\<lparr>gd_loader := l2\<lparr>ld_stream := s\<rparr>\<rparr>)"
    have l3: "gd_loader ?ld3 = l2\<lparr>ld_stream := s\<rparr>" by simp
    then have g3: "gd_gloader ?ld3 = ld_gloader l2" by (simp add: gd_gloader_def)
    have e3: "gl_ok (gd_gloader ?ld3)" "gl_cur_n_points (gd_gloader ?ld3) = 0" "gl_cur_n_contours (gd_gloader ?ld3) = 0"
      "ends_ok (gl_n_points (gd_gloader ?ld3)) (base_contours (gd_gloader ?ld3))"
      using c o by (simp_all add: g3 outline_kept_def base_contours_def)
    have st3: "at_stream f (ld_stream (gd_loader ?ld3))" "\<not> ld_hinted (gd_loader ?ld3)" using s(2) h f2 e1(3) by (simp_all add: l3)
    have grown: "outline_grown ?gl (gd_gloader ?ld3)"
      using c(3,4) unfolding g3 gl1 by (simp add: outline_grown_def outline_kept_def)
    show ?thesis
    proof (cases e2)
      case (Some x)
      then show ?thesis using e1(1) None c(1) s(1) by (simp add: load_composite_def Let_def)
    next
      case e2: None
      show ?thesis
      proof (cases "le_no_recurse env")
        case True
        have "ends_ok (gl_cur_n_points (gd_gloader ?ld3)) (current_contours (gd_gloader ?ld3))"
          using e3(3) by (simp add: current_contours_def ends_ok_def)
        from add_grown [OF e3(1,4) this] obtain gl4 where a: "FT_GlyphLoader_Add (gd_gloader ?ld3) = Some gl4" "outline_ok gl4"
          "outline_grown (gd_gloader ?ld3) gl4" by blast
        have "load_composite load env rc i ld = Some (None, set_gloader gl4 (?ld3\<lparr>gd_format_composite := True\<rparr>))"
          using e1(1) None c(1) e2 s(1) True a(1) by (simp add: load_composite_def Let_def)
        moreover have "load_ok f (set_gloader gl4 (?ld3\<lparr>gd_format_composite := True\<rparr>))" using a(2) st3 by (simp add: load_ok_def)
        ultimately show ?thesis using outline_grown_trans [OF grown a(3)] by simp
      next
        case False
        have "load_composite load env rc i ld = join_components load env (gl_n_points (gd_gloader ld1)) (gl_n_contours (gd_gloader ld1)) ?ld3"
          using e1(1) None c(1) e2 s(1) False by (simp add: load_composite_def Let_def)
        then show ?thesis
          using join_components_run [OF load st3 e3, of env "gl_n_points (gd_gloader ld1)" "gl_n_contours (gd_gloader ld1)"] outline_grown_trans [OF grown]
          by auto
      qed
    qed
  qed
qed

section \<open>The recursion\<close>

lemma gloader_loader: "gd_gloader (ld\<lparr>gd_loader := l\<rparr>) = ld_gloader l"
  by (simp add: gd_gloader_def)

lemma body_run:
  assumes load: "loads f load" and ok: "load_ok f ld" and loca: "loca_ok f (le_loca env)"
  shows "\<exists>e ld'. load_glyph_body load env rc i header_only ld = Some (e, ld') \<and>
    (e = None \<longrightarrow> load_ok f ld' \<and> outline_grown (gd_gloader ld) (gd_gloader ld'))"
proof -
  obtain offset len where loc: "tt_face_get_location (le_loca env) i = Some (offset, len)" using get_location_run [OF loca, of i] by blast
  let ?d = "if rc > gd_maxComponentDepth ld then ld\<lparr>gd_maxComponentDepth := rc\<rparr> else ld"
  let ?ld0 = "?d\<lparr>gd_glyph_index := i, gd_byte_len := len mod 4294967296\<rparr>"
  have ld0: "gd_loader ?ld0 = gd_loader ld" by simp
  then have st0: "at_stream f (ld_stream (gd_loader ?ld0))" using ok by (simp add: load_ok_def)
  have g0: "gd_gloader ?ld0 = gd_gloader ld" using ld0 by (simp add: gd_gloader_def)
  obtain e1 ld1 where h: "load_header env offset ?ld0 = Some (e1, ld1)" "at_stream f (ld_stream (gd_loader ld1))"
    "gd_gloader ld1 = gd_gloader ?ld0" "ld_hinted (gd_loader ld1) = ld_hinted (gd_loader ?ld0)" "gd_byte_len ld1 = gd_byte_len ?ld0"
    "e1 = None \<and> gd_byte_len ?ld0 \<noteq> 0 \<longrightarrow> ld_n_contours (gd_loader ld1) < 32768"
    using load_header_run [OF st0, of env offset] by blast
  have h1: "load_header env offset ?ld0 = Some (e1, ld1)" "at_stream f (ld_stream (gd_loader ld1))"
    "gd_gloader ld1 = gd_gloader ld" "\<not> ld_hinted (gd_loader ld1)"
    "e1 = None \<and> gd_byte_len ld1 \<noteq> 0 \<longrightarrow> ld_n_contours (gd_loader ld1) < 32768"
    using h(1,2) h(3) [unfolded g0] h(4) [unfolded ld0] ok h(5,6) by (simp_all add: load_ok_def)
  show ?thesis
  proof (cases e1)
    case (Some x)
    then show ?thesis using loc h1(1) by (simp add: load_glyph_body_def Let_def)
  next
    case None
    let ?ld2 = "if empty_glyph ld1 then ld1\<lparr>gd_loader := (gd_loader ld1)\<lparr>ld_bbox := \<lparr>xMin = 0, yMin = 0, xMax = 0, yMax = 0\<rparr>\<rparr>\<rparr> else ld1"
    have ld2: "ld_stream (gd_loader ?ld2) = ld_stream (gd_loader ld1)" "ld_gloader (gd_loader ?ld2) = ld_gloader (gd_loader ld1)"
      "ld_hinted (gd_loader ?ld2) = ld_hinted (gd_loader ld1)" "ld_n_contours (gd_loader ?ld2) = ld_n_contours (gd_loader ld1)"
      "gd_byte_len ?ld2 = gd_byte_len ld1" by simp_all
    obtain ld3 where m: "tt_get_metrics env i ?ld2 = Some (None, ld3)" "at_stream f (ld_stream (gd_loader ld3))"
      "ld_gloader (gd_loader ld3) = ld_gloader (gd_loader ld1)" "ld_hinted (gd_loader ld3) = ld_hinted (gd_loader ld1)"
      "ld_n_contours (gd_loader ld3) = ld_n_contours (gd_loader ld1)" "gd_byte_len ld3 = gd_byte_len ld1"
      using tt_get_metrics_run [of f ?ld2 env i] h1(2) unfolding ld2 by blast
    let ?ld4 = "tt_loader_set_pp ld3"
    have g4: "gd_gloader ?ld4 = gd_gloader ld" "gd_gloader (scaled_phantoms env ?ld4) = gd_gloader ld" "gd_gloader ld3 = gd_gloader ld"
      using m(3) h1(3) by (simp_all add: gd_gloader_def)
    have ok4: "load_ok f ?ld4" "load_ok f (scaled_phantoms env ?ld4)" "load_ok f ld3"
      using m h1 ok by (simp_all add: load_ok_def gd_gloader_def)
    have run: "load_glyph_body load env rc i header_only ld =
       (if header_only then Some (None, ld3)
        else if empty_glyph ?ld4 then Some (None, scaled_phantoms env ?ld4)
        else let (error, ld) = access_glyph_frame (add64 (add64 (lf_glyf_offset (le_loca env)) offset) 10) (gd_byte_len ?ld4 - 10) ?ld4
          in if error \<noteq> None then Some (error, ld)
             else if ld_n_contours (gd_loader ld) > 0 then load_simple env ld else load_composite load env rc i ld)"
      using loc h1(1) None m(1) by (simp add: load_glyph_body_def Let_def)
    consider "header_only" | "\<not> header_only" "empty_glyph ?ld4" | "\<not> header_only" "\<not> empty_glyph ?ld4" by blast
    then show ?thesis
    proof cases
      case 1
      then show ?thesis unfolding run using g4 ok4 by simp
    next
      case 2
      then show ?thesis unfolding run using g4 ok4 by simp
    next
      case 3
      have st4: "at_stream f (ld_stream (gd_loader ?ld4))" using ok4(1) by (simp add: load_ok_def)
      obtain e5 l where a: "access_glyph_frame (add64 (add64 (lf_glyf_offset (le_loca env)) offset) 10) (gd_byte_len ?ld4 - 10) ?ld4 =
          (e5, ?ld4\<lparr>gd_loader := l\<rparr>)" "at_stream f (ld_stream l)" "ld_gloader l = gd_gloader ?ld4"
        "ld_n_contours l = ld_n_contours (gd_loader ?ld4)" "ld_hinted l = ld_hinted (gd_loader ?ld4)" "e5 = None \<longrightarrow> ld_limit l \<le> length f"
        using access_frame_run [OF st4] by metis
      show ?thesis
      proof (cases e5)
        case (Some x)
        then show ?thesis unfolding run using 3 a(1) by simp
      next
        case e5: None
        let ?ld5 = "?ld4\<lparr>gd_loader := l\<rparr>"
        have g5: "gd_gloader ?ld5 = gd_gloader ld" using a(3) g4(1) by (simp add: gloader_loader)
        have pre: "at_stream f (ld_stream (gd_loader ?ld5))" "outline_ok (gd_gloader ?ld5)" "\<not> ld_hinted (gd_loader ?ld5)"
          "ld_limit (gd_loader ?ld5) \<le> length f"
          using a e5 ok4(1) ok g5 by (simp_all add: load_ok_def)
        have nc: "ld_n_contours (gd_loader ?ld5) < 32768"
          using 3(2) h1(5) None m(5,6) a(4) by (simp add: empty_glyph_def)
        have run5: "load_glyph_body load env rc i header_only ld =
           (if ld_n_contours (gd_loader ?ld5) > 0 then load_simple env ?ld5 else load_composite load env rc i ?ld5)"
          unfolding run using 3 a(1) e5 by simp
        show ?thesis unfolding run5 using load_simple_run [OF pre nc, of env] load_composite_run [OF load pre, of env rc i] unfolding g5
          by (cases "ld_n_contours (gd_loader ?ld5) > 0") simp_all
      qed
    qed
  qed
qed

lemma levels_run: "loca_ok f (le_loca env) \<Longrightarrow> loads f (\<lambda>i. load_levels levels env i False)"
proof (induction levels)
  case (Suc levels)
  then show ?case using body_run [OF Suc.IH] by (simp add: loads_def)
qed (simp add: loads_def)

end
