(* ===== verification/Tt_Load_Glyph.thy ===== *)
theory Tt_Load_Glyph
  imports Tt_Gload_Safe Tt_Run_Props
begin

text \<open>
  \<open>load_truetype_glyph\<close> on any file and any glyph index, without hinting, and the loading of a triangle.
\<close>

text \<open>
  C1: For every file in memory, every glyph index, nesting level and loader whose outline is in order, loading a glyph
  without hinting returns: it reads only inside the file, and writes only inside the arrays that were allocated.
  When there is no error, the outline is in order again (its contours end inside its points, in ascending order,
  and the numbers fit the arrays), and it has what it had before, and maybe more behind it.
\<close>

theorem load_truetype_glyph_right:
  assumes "load_ok f ld" "loca_ok f (le_loca env)"
  shows "\<exists>error ld'. load_truetype_glyph env glyph_index recurse_count header_only ld = Some (error, ld') \<and>
    (error = None \<longrightarrow> outline_ok (gd_gloader ld') \<and> outline_grown (gd_gloader ld) (gd_gloader ld'))"
proof (cases "101 - recurse_count")
  case 0
  then show ?thesis by (simp add: load_truetype_glyph_def)
next
  case (Suc levels)
  show ?thesis
    using body_run [OF levels_run [OF assms(2)] assms, of levels "100 - levels" glyph_index header_only]
    unfolding load_truetype_glyph_def Suc load_levels.simps load_ok_def by blast
qed

text \<open>A file of a triangle, behind its two short locations; and the record of a loader that is to load it.\<close>

definition triangle_file :: bytes where
  "triangle_file = [0, 0, 0, 12, 0, 1, 0, 0, 0, 0, 0, 60, 0, 18] @ triangle @ [0]"

definition file_env :: "bytes \<Rightarrow> TT_LoadEnv" where
  "file_env f = \<lparr>le_loca = \<lparr>lf_dir = \<lparr>dir_num_tables = 0, dir_format_tag = 0, dir_tables = []\<rparr>, lf_num_glyphs = 1, lf_Index_To_Loc_Format = 0,
       lf_glyf_len = 24, lf_glyf_offset = 4, lf_num_locations = 2, lf_glyph_locations = Some (f, 0)\<rparr>,
     le_horizontal = \<lparr>mt_number_Of_HMetrics = 0, mt_offset = 0, mt_size = 0\<rparr>, le_vertical = \<lparr>mt_number_Of_HMetrics = 0, mt_offset = 0, mt_size = 0\<rparr>,
     le_vertical_info = False, le_os2_version = 0, le_sTypoAscender = 0, le_sTypoDescender = 0, le_Ascender = 0, le_Descender = 0,
     le_x_scale = 0x10000, le_y_scale = 0x10000, le_size = sample_size, le_no_scale = True, le_no_recurse = False\<rparr>"

definition file_load :: "bytes \<Rightarrow> TT_GlyphLoad" where
  "file_load f = \<lparr>gd_loader = \<lparr>ld_stream = FT_Stream_OpenMemory f, ld_cursor = 0, ld_limit = 0, ld_gloader = FT_GlyphLoader_New [], ld_n_contours = 0,
      ld_bbox = \<lparr>xMin = 0, yMin = 0, xMax = 0, yMax = 0\<rparr>, ld_hinted = False, ld_glyphIns = [], ld_num_glyphs = 1, ld_ins_pos = 0\<rparr>,
     gd_exec = None, gd_glyph_index = 0, gd_byte_len = 0, gd_left_bearing = 0, gd_advance = 0, gd_linear = 0, gd_linear_def = False,
     gd_top_bearing = 0, gd_vadvance = 0, gd_pp1 = no_vector, gd_pp2 = no_vector, gd_pp3 = no_vector, gd_pp4 = no_vector,
     gd_composites = [], gd_maxComponentDepth = 0, gd_format_composite = False\<rparr>"

lemma triangle_file_bytes: "triangle_file = [0, 0, 0, 12, 0, 1, 0, 0, 0, 0, 0, 60, 0, 18, 0, 2, 0, 1, 0x4F, 0x3F, 2, 10, 20, 30, 5, 6, 7, 0]"
  by (simp add: triangle_file_def triangle_def)

lemma triangle_file_length: "length triangle_file = 28" by (simp add: triangle_file_bytes)

lemma triangle_file_location: "tt_face_get_location (le_loca (file_env triangle_file)) 0 = Some (0, 24)"
  by (simp add: file_env_def tt_face_get_location_def location_entries_def triangle_file_bytes peek_ushort_def u16_def u8_def)


lemma triangle_file_points: "parse_points triangle_file 28 3 19 = Some (([0x3F, 0x3F, 0x3F], [10, 30, 60], [5, 11, 18]), 27)"
proof -
  have f: "flags_of triangle_file 28 3 19 = Some ([0x3F, 0x3F, 0x3F], 21)"
    by (simp add: triangle_file_bytes u8_def numeral_3_eq_3 flag_set_def REPEAT_FLAG_def)
  have x: "deltas_of triangle_file 28 X_SHORT_VECTOR SAME_X [0x3F, 0x3F, 0x3F] 21 = Some ([10, 20, 30], 24)"
    by (simp add: triangle_file_bytes u8_def read_delta_def flag_set_def X_SHORT_VECTOR_def SAME_X_def)
  have y: "deltas_of triangle_file 28 Y_SHORT_VECTOR SAME_Y [0x3F, 0x3F, 0x3F] 24 = Some ([5, 6, 7], 27)"
    by (simp add: triangle_file_bytes u8_def read_delta_def flag_set_def Y_SHORT_VECTOR_def SAME_Y_def)
  show ?thesis by (simp add: parse_points_def f x y del: deltas_of.simps)
qed

definition triangle_gloader :: FT_GlyphLoaderRec where
  "triangle_gloader = (FT_GlyphLoader_New [])\<lparr>gl_max_contours := 4, gl_contours := [2, 0, 0, 0], gl_max_points := 8, gl_points := replicate 8 no_vector,
       gl_tags := replicate 8 0, gl_extra := replicate 16 no_vector, gl_use_extra := True, gl_extra2 := 8, gl_cur_extra2 := 8\<rparr>"

lemma triangle_file_simple:
  assumes "ld_gloader l = FT_GlyphLoader_New []" "frame_block l = triangle_file" "ld_limit l = 28" "ld_cursor l = 14" "ld_n_contours l = 1" "\<not> ld_hinted l"
  shows "\<exists>gl. TT_Load_Simple_Glyph l = Some (None, l\<lparr>ld_gloader := gl\<lparr>gl_cur_n_points := 3, gl_cur_n_contours := 1\<rparr>, ld_cursor := 27\<rparr>) \<and>
    wrote triangle_gloader gl \<and> gl_points gl = [\<lparr>vx = 10, vy = 5\<rparr>, \<lparr>vx = 30, vy = 11\<rparr>, \<lparr>vx = 60, vy = 18\<rparr>] @ replicate 5 no_vector \<and>
    gl_contours gl = [2, 0, 0, 0]"
proof -
  let ?gl = "(FT_GlyphLoader_New [])\<lparr>gl_max_contours := 4, gl_contours := [2, 0, 0, 0], gl_max_points := 8, gl_points := replicate 8 no_vector,
       gl_tags := replicate 8 0, gl_extra := replicate 16 no_vector, gl_use_extra := True, gl_extra2 := 8, gl_cur_extra2 := 8\<rparr>"
  have c: "gl_cur_points ?gl + 3 \<le> length (gl_tags ?gl)" "gl_cur_points ?gl + 3 \<le> length (gl_points ?gl)" "gl_cur_points ?gl = 0"
    by (simp_all add: FT_GlyphLoader_New_def)
  have l: "28 \<le> length triangle_file" by (simp add: triangle_file_bytes)
  obtain gl where p: "read_points triangle_file 28 3 19 ?gl = Some (Inr 27, gl)" "wrote ?gl gl" "gl_contours gl = gl_contours ?gl"
    "gl_points gl = splice 0 (vectors_of [10, 30, 60] [5, 11, 18]) (gl_points ?gl)"
    using read_points_run [OF c(1,2) l, of 19] by (auto simp: triangle_file_points c(3))
  have e: "read_ends triangle_file 0 (Suc 0) 14 (- 1) ((FT_GlyphLoader_New [])\<lparr>gl_max_contours := 4, gl_contours := [0, 0, 0, 0]\<rparr>) =
      Some (Inr (16, 2), (FT_GlyphLoader_New [])\<lparr>gl_max_contours := 4, gl_contours := [2, 0, 0, 0]\<rparr>)"
    by (simp add: put_contour_def put_at_def FT_GlyphLoader_New_def triangle_file_bytes u16_def u8_def)
  have u: "peek_ushort triangle_file 16 = Some 1" by (simp add: triangle_file_bytes peek_ushort_def u16_def u8_def)
  have "TT_Load_Simple_Glyph l = Some (None, l\<lparr>ld_gloader := gl\<lparr>gl_cur_n_points := 3, gl_cur_n_contours := 1\<rparr>, ld_cursor := 27\<rparr>)"
    using e p u assms by (simp add: TT_Load_Simple_Glyph_def triangle_grows keep_instructions_def with_gloader_def Let_def)
  moreover have "gl_points gl = [\<lparr>vx = 10, vy = 5\<rparr>, \<lparr>vx = 30, vy = 11\<rparr>, \<lparr>vx = 60, vy = 18\<rparr>] @ replicate 5 no_vector"
    using p(4) by (simp add: splice_def vectors_of_def)
  moreover have "gl_contours gl = [2, 0, 0, 0]" using p(3) by simp
  ultimately show ?thesis using p(2) unfolding triangle_gloader_def by blast
qed

definition triangle_stream :: "nat \<Rightarrow> FT_StreamRec" where
  "triangle_stream pos = \<lparr>st_base = Some triangle_file, st_size = 28, st_pos = pos, st_cursor = None, st_limit = 0, st_read = None\<rparr>"

definition triangle_read :: TT_LoaderRec where
  "triangle_read = (gd_loader (file_load triangle_file))\<lparr>ld_stream := triangle_stream 28, ld_cursor := 14, ld_limit := 28, ld_n_contours := 1,
     ld_bbox := \<lparr>xMin = 0, yMin = 0, xMax = 60, yMax = 18\<rparr>\<rparr>"

lemma triangle_file_header:
  "load_header (file_env triangle_file) 0 ((file_load triangle_file)\<lparr>gd_byte_len := 24\<rparr>) =
     Some (None, (file_load triangle_file)\<lparr>gd_byte_len := 24, gd_loader := triangle_read\<rparr>)"
proof -
  have b: "peek_short triangle_file 4 = Some 1" "peek_short triangle_file 6 = Some 0" "peek_short triangle_file 8 = Some 0"
    "peek_short triangle_file 10 = Some 60" "peek_short triangle_file 12 = Some 18"
    by (simp_all add: triangle_file_bytes peek_short_def s16_def u16_def u8_def)
  show ?thesis
    by (simp add: load_header_def access_glyph_frame_def TT_Access_Glyph_Frame_def FT_Stream_OpenMemory_def FT_Stream_Seek_def file_env_def file_load_def
        FT_Stream_EnterFrame_def frame_block_def Let_def triangle_file_length TT_Load_Glyph_Header_def set_gloader_def gd_gloader_def with_gloader_def
        add64_small forget_glyph_frame_def TT_Forget_Glyph_Frame_def FT_Stream_ExitFrame_def b triangle_read_def triangle_stream_def)
qed

definition triangle_metrics :: TT_GlyphLoad where
  "triangle_metrics = (file_load triangle_file)\<lparr>gd_byte_len := 24, gd_loader := triangle_read, gd_top_bearing := - 18, gd_linear_def := True\<rparr>"

lemma triangle_file_metrics:
  "tt_get_metrics (file_env triangle_file) 0 ((file_load triangle_file)\<lparr>gd_byte_len := 24, gd_loader := triangle_read\<rparr>) = Some (None, triangle_metrics)"
  "tt_loader_set_pp triangle_metrics = triangle_metrics" "\<not> empty_glyph triangle_metrics"
  "\<not> empty_glyph ((file_load triangle_file)\<lparr>gd_byte_len := 24, gd_loader := triangle_read\<rparr>)"
  by (simp_all add: tt_get_metrics_def TT_Get_HMetrics_def TT_Get_VMetrics_def tt_face_get_metrics_def file_env_def file_load_def triangle_read_def
      triangle_stream_def FT_Stream_Pos_def FT_Stream_Seek_def set_stream_def s16i_def u16_of_int_def triangle_metrics_def tt_loader_set_pp_def no_vector_def
      empty_glyph_def Let_def)

lemma triangle_file_frame:
  "\<exists>s. access_glyph_frame 14 14 triangle_metrics = (None, triangle_metrics\<lparr>gd_loader := triangle_read\<lparr>ld_stream := s, ld_cursor := 14, ld_limit := 28\<rparr>\<rparr>) \<and> 
     st_base s = Some triangle_file \<and> st_read s = None"
  by (simp add: access_glyph_frame_def TT_Access_Glyph_Frame_def FT_Stream_Seek_def triangle_metrics_def triangle_read_def triangle_stream_def
        FT_Stream_EnterFrame_def Let_def triangle_file_length  set_gloader_def gd_gloader_def with_gloader_def file_load_def)

lemma triangle_file_loads:
  "\<exists>ld. load_truetype_glyph (file_env triangle_file) 0 0 False (file_load triangle_file) = Some (None, ld) \<and>
     gl_n_points (gd_gloader ld) = 3 \<and> take 3 (gl_points (gd_gloader ld)) = [\<lparr>vx = 10, vy = 5\<rparr>, \<lparr>vx = 30, vy = 11\<rparr>, \<lparr>vx = 60, vy = 18\<rparr>]"
proof -
  let ?env = "file_env triangle_file"
  obtain s where s: "access_glyph_frame 14 14 triangle_metrics = (None, triangle_metrics\<lparr>gd_loader := triangle_read\<lparr>ld_stream := s, ld_cursor := 14, ld_limit := 28\<rparr>\<rparr>)"
    "st_base s = Some triangle_file" "st_read s = None" using triangle_file_frame by blast
  let ?ld = "triangle_metrics\<lparr>gd_loader := triangle_read\<lparr>ld_stream := s, ld_cursor := 14, ld_limit := 28\<rparr>\<rparr>"
  have l: "ld_gloader (gd_loader ?ld) = FT_GlyphLoader_New []" "frame_block (gd_loader ?ld) = triangle_file" "ld_limit (gd_loader ?ld) = 28"
    "ld_cursor (gd_loader ?ld) = 14" "ld_n_contours (gd_loader ?ld) = 1" "\<not> ld_hinted (gd_loader ?ld)"
    using s(2) by (simp_all add: triangle_read_def file_load_def frame_block_def)
  obtain gl where gl: "TT_Load_Simple_Glyph (gd_loader ?ld) =
      Some (None, (gd_loader ?ld)\<lparr>ld_gloader := gl\<lparr>gl_cur_n_points := 3, gl_cur_n_contours := 1\<rparr>, ld_cursor := 27\<rparr>)"
    "wrote triangle_gloader gl" "gl_points gl = [\<lparr>vx = 10, vy = 5\<rparr>, \<lparr>vx = 30, vy = 11\<rparr>, \<lparr>vx = 60, vy = 18\<rparr>] @ replicate 5 no_vector"
    "gl_contours gl = [2, 0, 0, 0]" using triangle_file_simple [OF l] by blast
  have run: "load_truetype_glyph ?env 0 0 False (file_load triangle_file) = load_simple ?env ?ld"
  proof -
    have n: "(101::nat) - 0 = Suc 100" by simp
    have d: "gd_maxComponentDepth (file_load triangle_file) = 0" "(file_load triangle_file)\<lparr>gd_glyph_index := 0\<rparr> = file_load triangle_file"
      "lf_glyf_offset (le_loca ?env) = 4" "gd_byte_len triangle_metrics = 24"
      by (simp_all add: file_load_def file_env_def triangle_metrics_def)
    show ?thesis unfolding load_truetype_glyph_def n load_levels.simps load_glyph_body_def
      using l(5) by (simp add: d triangle_file_location triangle_file_header triangle_file_metrics s(1) add64_small Let_def)
  qed
  obtain ps ts cs fl where g: "gl = triangle_gloader\<lparr>gl_points := ps, gl_tags := ts, gl_contours := cs, gl_flags := fl\<rparr>"
    using gl(2) unfolding wrote_def by blast
  have ps: "ps = [\<lparr>vx = 10, vy = 5\<rparr>, \<lparr>vx = 30, vy = 11\<rparr>, \<lparr>vx = 60, vy = 18\<rparr>, no_vector, no_vector, no_vector, no_vector, no_vector]"
    "cs = [2, 0, 0, 0]" using gl(3,4) by (simp_all add: g eval_nat_numeral)
  have t: "ld_hinted triangle_read = False" "le_no_scale ?env = True" "gl_cur_points triangle_gloader = 0" "gl_n_points triangle_gloader = 0"
    "gl_n_contours triangle_gloader = 0" "gl_cur_contours triangle_gloader = 0"
    by (simp_all add: triangle_read_def file_load_def file_env_def triangle_gloader_def FT_GlyphLoader_New_def)
  have "\<exists>ld. load_simple ?env ?ld = Some (None, ld) \<and> gl_n_points (gd_gloader ld) = 3 \<and>
      take 3 (gl_points (gd_gloader ld)) = [\<lparr>vx = 10, vy = 5\<rparr>, \<lparr>vx = 30, vy = 11\<rparr>, \<lparr>vx = 60, vy = 18\<rparr>]"
    using gl(1) by (simp add: load_simple_def forget_glyph_frame_def TT_Forget_Glyph_Frame_def FT_Stream_ExitFrame_def g ps s(3) t
      TT_Process_Simple_Glyph_def put_phantoms_def save_phantoms_def set_gloader_def gd_gloader_def with_gloader_def put_at_def get_at_def
      FT_GlyphLoader_Add_def FT_GlyphLoader_Prepare_def FT_GlyphLoader_Adjust_Points_def FT_GlyphLoader_Adjust_Subglyphs_def Let_def)
  then show ?thesis using run by simp
qed

lemma load_truetype_glyph_right_witness:
  "\<exists>ld. load_truetype_glyph (file_env triangle_file) 0 0 False (file_load triangle_file) = Some (None, ld) \<and> outline_ok (gd_gloader ld) \<and>
     gl_n_points (gd_gloader ld) = 3 \<and> take 3 (gl_points (gd_gloader ld)) = [\<lparr>vx = 10, vy = 5\<rparr>, \<lparr>vx = 30, vy = 11\<rparr>, \<lparr>vx = 60, vy = 18\<rparr>]"
proof -
  obtain ld where ld: "load_truetype_glyph (file_env triangle_file) 0 0 False (file_load triangle_file) = Some (None, ld)"
    "gl_n_points (gd_gloader ld) = 3" "take 3 (gl_points (gd_gloader ld)) = [\<lparr>vx = 10, vy = 5\<rparr>, \<lparr>vx = 30, vy = 11\<rparr>, \<lparr>vx = 60, vy = 18\<rparr>]"
    using triangle_file_loads by blast
  have h: "load_ok triangle_file (file_load triangle_file)" "loca_ok triangle_file (le_loca (file_env triangle_file))"
    by (simp_all add: load_ok_def at_stream_def mem_stream_def file_load_def FT_Stream_OpenMemory_def triangle_file_length gd_gloader_def
        outline_ok_def New_ok ends_ok_def base_contours_def loca_ok_def loca_entry_def file_env_def) (simp_all add: FT_GlyphLoader_New_def)
  have "outline_ok (gd_gloader ld)" using load_truetype_glyph_right [OF h, of 0 0 False] unfolding ld(1) by simp
  then show ?thesis using ld by blast
qed

end
