(* ===== verification/Spec2Isabelle.thy ===== *)
theory Spec2Isabelle
  imports Ft_Port Ft_Select Ft_Hash Ft_Trig Ft_NormLen Tt_Font Tt_Round Tt_Calls Tt_Load_Glyph
begin

text \<open>
  The font engine of the Tungsten kernel: the FreeType port under \<open>src/modules/freetype\<close>, with the
  glue of the port in \<open>config\<close> and the engine itself in \<open>upstream\<close> (paths below are relative to
  \<open>upstream\<close> unless they begin with \<open>config\<close>).

  \<^bold>\<open>The program.\<close> The kernel hands the engine the bytes of a font file. A stream (\<open>src/base/ftstream.c\<close>)
  reads them, the SFNT loader (\<open>src/sfnt/ttload.c\<close>) finds the tables of the file through its directory,
  and \<open>src/sfnt/ttcmap.c\<close> validates the sub-tables of the \<open>cmap\<close> table and makes a charmap of each.
  A client selects a charmap and asks for the glyph of a character through \<open>src/base/ftobjs.c\<close>.
  Memory comes from the arena of \<open>config/ftalloc.c\<close>, through the callbacks of \<open>config/ftsystem.c\<close>
  and the checks of \<open>src/base/ftutil.c\<close>. A TrueType font carries programs that move the points of its
  glyphs to the pixel grid; \<open>src/truetype/ttinterp.c\<close> runs them: the font program once, the control value
  program for each size, and the program of each glyph. Hash tables, fixed-point arithmetic and trigonometry
  (\<open>fthash.c\<close>, \<open>ftcalc.c\<close>, \<open>fttrigon.c\<close> of \<open>src/base\<close>) serve the rest of the engine.
  The outline of a glyph is read by \<open>src/truetype/ttgload.c\<close>: \<open>ttpload.c\<close> finds its place, a simple glyph is
  parsed into the arrays of \<open>src/base/ftgloadr.c\<close>, a composite one is joined from its components by recursion,
  and either is scaled and handed to the interpreter.

  \<^bold>\<open>Conventions.\<close> A table or file is a list of bytes, a pointer into it an offset; a read or write outside
  is \<open>None\<close> (or \<open>VFault\<close> in a validator), so that a theorem that a function is \<open>Some\<close> states that it
  makes no stray access. Errors are values of \<open>ft_error\<close>, \<open>None\<close> is \<open>FT_Err_Ok\<close>. Unsigned values are
  \<open>nat\<close> with the wrap-around written out (\<open>add32\<close>, \<open>sub32\<close>, \<open>mul32\<close>, \<open>add64\<close>), signed ones \<open>int\<close> with
  \<open>s32\<close> and \<open>s64\<close> at every conversion. The target is x86-64: \<open>FT_Long\<close> has 64 bits, \<open>FT_Int\<close> has 32.
  Objects that C reaches through pointers are records passed along and returned.

  \<^bold>\<open>Theories.\<close>
  \<^item> \<open>Ft_Prelude\<close>: bytes, the \<open>FT_PEEK\<close> readers of \<open>internal/ftstream.h\<close> and the rules about them.
  \<^item> \<open>Ft_Validate\<close>: the validator object and its two \<open>longjmp\<close> semantics.
  \<^item> \<open>Ft_Port\<close>: arena, memory callbacks, \<open>ft_mem_*\<close> (locale \<open>ft_memory\<close>, interpreted on the port).
  \<^item> \<open>Tt_CMap\<close>: the class interface of a charmap as the locales \<open>tt_cmap_class\<close>, \<open>tt_cmap_steps\<close>,
    \<open>tt_cmap_enum\<close> and \<open>tt_cmap_ordered\<close>; each format interprets the ones it keeps.
  \<^item> \<open>Tt_CMap0\<close>, \<open>2\<close>, \<open>6\<close>, \<open>8\<close>, \<open>10\<close>: the formats without state. \<open>Tt_Groups\<close>, \<open>Tt_CMap12\<close>, \<open>Tt_CMap13\<close>: the
    formats with sorted groups and a cursor. \<open>Tt_CMap4\<close> (model), \<open>_Safety\<close>, \<open>_Lookup\<close>, \<open>_Enum\<close>, \<open>_Class\<close>:
    format 4. \<open>Tt_Bisect\<close>, \<open>Tt_CMap14\<close>, \<open>Tt_CMap14_Lists\<close>: format 14, variation sequences.
    \<open>Tt_Validators\<close>: what holds of all validators.
  \<^item> \<open>Ft_CharMap\<close> (model), \<open>Ft_Chars\<close>, \<open>Ft_Face_Chars\<close>, \<open>Ft_Face\<close>, \<open>Ft_Select\<close>: the charmaps of a face, from
    \<open>tt_face_build_cmaps\<close> to \<open>FT_Get_Next_Char\<close>; the invariant is \<open>face_ok\<close>.
  \<^item> \<open>Ft_Hash\<close>: hash tables (locale \<open>dictionary\<close>, interpreted for string and number keys).
  \<^item> \<open>Ft_Calc\<close> (model), \<open>Ft_Calc_Exact\<close>, \<open>Ft_Calc_Agree\<close>, \<open>Ft_Calc_Results\<close>, \<open>Ft_Trig\<close>: arithmetic.
  \<^item> \<open>Ft_NormLen\<close>: the normalisation of vectors by Newton's iteration.
  \<^item> \<open>Ft_Stream\<close>: streams over memory and over a callback, frames, field tables.
  \<^item> \<open>Tt_Load\<close> (model), \<open>Tt_Dir\<close>, \<open>Tt_Font\<close>: the table directory, and the way from a file to its charmaps.
  \<^item> The bytecode interpreter, after the sections of \<open>ttinterp.c\<close>: \<open>Tt_Exec\<close> (execution context), \<open>Tt_Exec_Funcs\<close>
    (the functions behind its function pointers), \<open>Tt_Ins\<close> (stack, storage, control flow), \<open>Tt_Ins_GS\<close>
    (graphics state), \<open>Tt_Ins_Points\<close> and \<open>Tt_Ins_IUP\<close> (points), \<open>Tt_Run\<close> (stack effects, dispatch, the loop,
    \<open>TT_Run_Context\<close>). Its safety: \<open>Tt_Exec_Safe\<close> (invariant \<open>exec_ok\<close>, the rules \<open>okay_intros\<close>), then one theory
    per group of instructions (\<open>Tt_Ins_Safe\<close>, \<open>Tt_GS_Safe\<close>, \<open>Tt_Flow_Safe\<close>, \<open>Tt_Points_Safe\<close>, \<open>Tt_Move_Safe\<close>),
    \<open>Tt_Run_Safe\<close> for the loop, \<open>Tt_Run_Props\<close> for the results. Its function: \<open>Tt_Round\<close> (rounding, and the short
    cuts of \<open>Compute_Funcs\<close>), \<open>Tt_Machine\<close> (straight-line code refines an abstract stack machine), \<open>Tt_Blocks\<close> and
    \<open>Tt_Calls\<close> (what skipping code finds: branches of \<open>IF\<close>, calls of functions).
  \<^item> The glyph loader: \<open>Ft_Gloader\<close> (the arrays, \<open>ftgloadr.c\<close>; invariant \<open>gl_ok\<close>), \<open>Tt_Loca\<close> (the place of a glyph),
    \<open>Tt_Glyph\<close> (model of frame, header, simple glyphs and components), \<open>Tt_Glyph_Parse\<close> (the format, as
    the parser \<open>parse_simple\<close>), \<open>Tt_Glyph_Points\<close>, \<open>Tt_Glyph_Simple\<close> and \<open>Tt_Glyph_Composite\<close> (the loops refine
    the format), \<open>Tt_Gload\<close> (model of metrics, scaling, hinting, the recursion), \<open>Tt_Gload_Safe\<close> (invariant \<open>load_ok\<close>,
    one lemma per step), \<open>Tt_Load_Glyph\<close> (the result).

  \<^bold>\<open>What the lemmas show.\<close> Every format: the validator accepts only tables that lookup and enumeration
  read without leaving them; lookup gives the glyph that the table assigns; enumeration from any code
  gives the next mapped code, ends, and lists the mapped codes once, in order. A face: the charmaps are
  the accepted sub-tables, the client's loop lists exactly the characters with a glyph. Arena: blocks
  are aligned, disjoint and inside the pool. Hash tables refine maps. Arithmetic: distance from the
  exact result, agreement of the portable branch, termination of the iterations. Streams: both kinds
  give a client the same results. Directory: the two passes agree, tables lie in the file. Interpreter:
  whatever the bytecode, it returns without an access outside the arrays of the context. Glyphs: whatever
  the file, loading one returns without an access outside file and arrays; a simple glyph is the
  one that the format says; contours end inside the points; what was loaded before is kept.

  \<^bold>\<open>Bounds.\<close> A \<open>cmap\<close> table has less than \<open>2 ^ 32\<close> bytes, as its length in the directory does; files and
  streams less than \<open>2 ^ 63\<close>; hash tables hold less than \<open>2 ^ 28\<close> entries, so that their size fits
  \<open>FT_UInt\<close>; the results on \<open>ftcalc.c\<close> are for operands of 32 bits. Loops that C bounds by a count are
  recursions on the count; those that may not end are \<open>partial_function (option)\<close>, and the theorems
  show that they do. The loops of the interpreter that skip code have fuel, \<open>skip_rounds\<close>, one round more
  than there are bytes of code (each round moves forward); the main loop has the bound of the code,
  a million instructions. The zones of the interpreter have less than \<open>2 ^ 16\<close> points and \<open>2 ^ 15\<close> contours.
  Composite glyphs nest 101 levels at most, the limit of the code; \<open>load_levels\<close> recurses on what is left of it.
  Memory for the arrays of a glyph is granted or refused by a list of answers, over which the theorems
  quantify; \<open>SUBGLYPHS_MAX\<close> is where \<open>ft_mem_qrealloc\<close> refuses.

  \<^bold>\<open>Not modelled.\<close> Variations (\<open>ttgxvar.c\<close>), the CFF and PostScript drivers, the auto-hinter and the rasteriser
  are subsystems of several thousand lines each, not begun. The glyph loader is modelled for a default
  instance, without the incremental interface; the entry \<open>TT_Load_Glyph\<close> with the metrics of the glyph slot and
  embedded bitmaps is left out, and that loading is safe is shown for glyphs that are not hinted: the program of a nested composite
  glyph can make \<open>Ins_SHZ\<close> leave the zone, as its contours are counted from the start of the whole
  outline. Of \<open>ttinterp.c\<close> the allocation and release of contexts, of
  \<open>ttload.c\<close> the loaders of the other tables, of \<open>ftcalc.c\<close> the digit-wise square root of the portable
  branch, of \<open>ftstream.c\<close> opening by pathname and closing are left out. The kernel proper is in Rust and Zig.
\<close>

end
